(* ===== verification/Prelude.thy ===== *)
theory Prelude
  imports Main "HOL-Library.AList"
begin

text \<open>
  The shared base of the development.

  \<^item> \<open>exn\<close> is the set of Python exceptions the modelled code raises, and a fallible
    operation returns \<open>exn + 'a\<close> with \<open>Inl\<close> for the raise. The message text of an
    exception is a diagnostic for humans and is left out; the class (and for the LLM package
    the error code) is what callers branch on.
  \<^item> \<open>bind_r\<close> and \<open>fold_r\<close> are sequencing and a loop that stops at the first raise.
  \<^item> A Python \<open>dict\<close> is an association list in insertion order: \<open>AList.update\<close>
    overwrites in place or appends at the end, as assignment to a key does.
  \<^item> A Python \<open>str\<close> is a list of bytes, its UTF-8 encoding. The code modelled here only
    compares, concatenates and tests strings for emptiness, and changes case or strips
    blanks of ASCII identifiers; on those the encoding makes no difference.
\<close>

section \<open>Hint collections\<close>

named_theorems result_simps \<open>rewriting the error monad\<close>
named_theorems model_defs \<open>definitions of small accessors, unfolded together\<close>

section \<open>Exceptions and results\<close>

datatype exn =
    ValueError
  | TypeError
  | KeyError
  | IndexError
  | AttributeError
  | OSError
  | OverflowError
  | RuntimeError
  | Cancelled
  | LLMError string
  | ServiceError string

type_synonym 'a result = "exn + 'a"

fun bind_r :: "'a result \<Rightarrow> ('a \<Rightarrow> 'b result) \<Rightarrow> 'b result" where
  "bind_r (Inl e) f = Inl e"
| "bind_r (Inr x) f = f x"

lemma bind_r_Inr_iff [result_simps]:
  "bind_r r f = Inr y \<longleftrightarrow> (\<exists>x. r = Inr x \<and> f x = Inr y)"
  by (cases r) auto

lemma bind_r_Inl_iff [result_simps]:
  "bind_r r f = Inl e \<longleftrightarrow> r = Inl e \<or> (\<exists>x. r = Inr x \<and> f x = Inl e)"
  by (cases r) auto

lemma bind_r_assoc [result_simps]: "bind_r (bind_r r f) g = bind_r r (\<lambda>x. bind_r (f x) g)"
  by (cases r) auto

text \<open>A \<open>for\<close> loop over a list that threads a state and stops at the first raise.\<close>

fun fold_r :: "('s \<Rightarrow> 'a \<Rightarrow> 's result) \<Rightarrow> 's \<Rightarrow> 'a list \<Rightarrow> 's result" where
  "fold_r f s [] = Inr s"
| "fold_r f s (x # xs) = bind_r (f s x) (\<lambda>s'. fold_r f s' xs)"

lemma fold_r_append: "fold_r f s (xs @ ys) = bind_r (fold_r f s xs) (\<lambda>s'. fold_r f s' ys)"
  by (induction xs arbitrary: s) (auto simp: result_simps)

lemma fold_r_cong:
  "(\<And>s x. x \<in> set xs \<Longrightarrow> f s x = g s x) \<Longrightarrow> fold_r f s xs = fold_r g s xs"
proof (induction xs arbitrary: s)
  case Nil
  then show ?case by simp
next
  case (Cons x xs)
  then have "fold_r f s' xs = fold_r g s' xs" for s' by simp
  then show ?case using Cons.prems by simp
qed

text \<open>An invariant that each step keeps is kept by the loop.\<close>

lemma fold_r_invariant:
  assumes step: "\<And>s x s'. P s \<Longrightarrow> x \<in> set xs \<Longrightarrow> f s x = Inr s' \<Longrightarrow> P s'"
    and "P s" and "fold_r f s xs = Inr t"
  shows "P t"
  using assms
proof (induction xs arbitrary: s)
  case Nil
  then show ?case by simp
next
  case (Cons x xs)
  from Cons.prems(3) obtain s' where s': "f s x = Inr s'" and rest: "fold_r f s' xs = Inr t"
    by (auto simp: result_simps)
  have "P s'" by (rule Cons.prems(1) [OF Cons.prems(2) _ s']) simp
  show ?case
  proof (rule Cons.IH [OF _ \<open>P s'\<close> rest])
    fix u y u' assume "P u" and "y \<in> set xs" and "f u y = Inr u'"
    then show "P u'" using Cons.prems(1) [of u y u'] by simp
  qed
qed

text \<open>\<open>[f(x) for x in xs]\<close> where \<open>f\<close> may raise.\<close>

fun map_r :: "('a \<Rightarrow> 'b result) \<Rightarrow> 'a list \<Rightarrow> 'b list result" where
  "map_r f [] = Inr []"
| "map_r f (x # xs) = bind_r (f x) (\<lambda>y. bind_r (map_r f xs) (\<lambda>ys. Inr (y # ys)))"

lemma map_r_Inr_iff: "map_r f xs = Inr ys \<longleftrightarrow> list_all2 (\<lambda>x y. f x = Inr y) xs ys"
proof (induction xs arbitrary: ys)
  case Nil
  then show ?case by auto
next
  case (Cons x xs)
  then show ?case by (cases ys) (auto simp: result_simps)
qed

lemma map_r_pure: "(\<And>x. x \<in> set xs \<Longrightarrow> f x = Inr (g x)) \<Longrightarrow> map_r f xs = Inr (map g xs)"
  by (induction xs) auto

lemma map_r_cong [fundef_cong]:
  "xs = ys \<Longrightarrow> (\<And>x. x \<in> set ys \<Longrightarrow> f x = g x) \<Longrightarrow> map_r f xs = map_r g ys"
  by (induction ys arbitrary: xs) auto

section \<open>Python truthiness and defaults\<close>

text \<open>\<open>x or y\<close> on strings: the first operand unless it is empty.\<close>

definition str_or :: "string \<Rightarrow> string \<Rightarrow> string" where
  "str_or x y = (if x = [] then y else x)"

text \<open>\<open>d.get(k) or default\<close> and \<open>x or None\<close> on an optional string.\<close>

definition opt_str :: "string option \<Rightarrow> string" where
  "opt_str x = (case x of None \<Rightarrow> [] | Some s \<Rightarrow> s)"

definition none_if_empty :: "string option \<Rightarrow> string option" where
  "none_if_empty x = (case x of None \<Rightarrow> None | Some s \<Rightarrow> if s = [] then None else Some s)"

lemma str_or_simps [simp]: "str_or [] y = y" "x \<noteq> [] \<Longrightarrow> str_or x y = x"
  by (simp_all add: str_or_def)

lemma opt_str_simps [simp]: "opt_str None = []" "opt_str (Some s) = s"
  by (simp_all add: opt_str_def)

lemma none_if_empty_simps [simp]:
  "none_if_empty None = None" "none_if_empty (Some []) = None"
  "s \<noteq> [] \<Longrightarrow> none_if_empty (Some s) = Some s"
  by (simp_all add: none_if_empty_def)

lemma none_if_empty_idem [simp]: "none_if_empty (none_if_empty x) = none_if_empty x"
  by (auto simp: none_if_empty_def split: option.splits)

section \<open>Strings\<close>

definition is_blank :: "char \<Rightarrow> bool" where
  "is_blank c \<longleftrightarrow> c \<in> {CHR '' '', CHR 0x09, CHR 0x0A, CHR 0x0B, CHR 0x0C, CHR 0x0D,
     CHR 0x1C, CHR 0x1D, CHR 0x1E, CHR 0x1F}"

text \<open>\<open>str.strip()\<close> and \<open>str.lower()\<close> on ASCII text.\<close>

definition py_strip :: "string \<Rightarrow> string" where
  "py_strip s = rev (dropWhile is_blank (rev (dropWhile is_blank s)))"

definition lower_char :: "char \<Rightarrow> char" where
  "lower_char c = (if 65 \<le> (of_char c :: nat) \<and> (of_char c :: nat) \<le> 90
     then char_of ((of_char c :: nat) + 32) else c)"

definition py_lower :: "string \<Rightarrow> string" where
  "py_lower s = map lower_char s"

text \<open>\<open>needle in haystack\<close> on strings.\<close>

fun has_prefix :: "string \<Rightarrow> string \<Rightarrow> bool" where
  "has_prefix [] ys = True"
| "has_prefix (x # xs) [] = False"
| "has_prefix (x # xs) (y # ys) = (x = y \<and> has_prefix xs ys)"

fun str_contains :: "string \<Rightarrow> string \<Rightarrow> bool" where
  "str_contains needle [] = (needle = [])"
| "str_contains needle (c # cs) = (has_prefix needle (c # cs) \<or> str_contains needle cs)"

lemma has_prefix_iff: "has_prefix xs ys \<longleftrightarrow> (\<exists>zs. ys = xs @ zs)"
  by (induction xs ys rule: has_prefix.induct) auto

lemma str_contains_iff: "str_contains xs ys \<longleftrightarrow> (\<exists>us vs. ys = us @ xs @ vs)"
proof (induction ys)
  case Nil
  then show ?case by auto
next
  case (Cons c cs)
  then show ?case by (auto simp: has_prefix_iff Cons_eq_append_conv)
qed

text \<open>\<open>str(n)\<close> of an integer, in decimal.\<close>

text \<open>The first \<open>n\<close> characters; a byte that continues a character belongs to the one before.\<close>

fun take_chars :: "nat \<Rightarrow> string \<Rightarrow> string" where
  "take_chars n [] = []"
| "take_chars n (c # cs) =
     (if 128 \<le> (of_char c :: nat) \<and> (of_char c :: nat) < 192 then c # take_chars n cs
      else case n of 0 \<Rightarrow> [] | Suc k \<Rightarrow> c # take_chars k cs)"

definition digit_char :: "int \<Rightarrow> char" where
  "digit_char d = ''0123456789'' ! nat d"

function pos_digits :: "int \<Rightarrow> string" where
  "pos_digits i = (if i < 10 then [digit_char i]
     else pos_digits (i div 10) @ [digit_char (i mod 10)])"
  by pat_completeness auto
termination by (relation "measure nat") auto

declare pos_digits.simps [simp del]

definition str_of_int :: "int \<Rightarrow> string" where
  "str_of_int i = (if i < 0 then CHR ''-'' # pos_digits (- i) else pos_digits i)"

section \<open>Dictionaries\<close>

type_synonym ('k, 'v) dict = "('k \<times> 'v) list"

abbreviation dict_get :: "('k, 'v) dict \<Rightarrow> 'k \<Rightarrow> 'v option" where
  "dict_get \<equiv> map_of"

abbreviation dict_set :: "'k \<Rightarrow> 'v \<Rightarrow> ('k, 'v) dict \<Rightarrow> ('k, 'v) dict" where
  "dict_set \<equiv> AList.update"

abbreviation dict_pop :: "'k \<Rightarrow> ('k, 'v) dict \<Rightarrow> ('k, 'v) dict" where
  "dict_pop \<equiv> AList.delete"

abbreviation dict_wf :: "('k, 'v) dict \<Rightarrow> bool" where
  "dict_wf d \<equiv> distinct (map fst d)"

lemma dict_get_set [simp]: "dict_get (dict_set k v d) k' = (if k' = k then Some v else dict_get d k')"
  by (simp add: update_conv')

lemma dict_get_pop [simp]: "dict_get (dict_pop k d) k' = (if k' = k then None else dict_get d k')"
  by (simp add: delete_conv')

lemma dict_wf_set [simp]: "dict_wf d \<Longrightarrow> dict_wf (dict_set k v d)"
  by (rule distinct_update)

lemma dict_wf_pop [simp]: "dict_wf d \<Longrightarrow> dict_wf (dict_pop k d)"
  by (rule distinct_delete)

lemma dict_set_new: "k \<notin> fst ` set d \<Longrightarrow> dict_set k v d = d @ [(k, v)]"
  by (induction d) auto

lemma dict_set_keys: "k \<in> fst ` set d \<Longrightarrow> map fst (dict_set k v d) = map fst d"
  by (induction d) auto

lemma mem_dict_set: "kv \<in> set (dict_set k v d) \<Longrightarrow> kv = (k, v) \<or> kv \<in> set d"
  by (induction d) (auto split: if_splits)

lemma dict_pop_filter: "dict_pop k d = filter (\<lambda>kv. fst kv \<noteq> k) d"
  by (induction d) auto

lemma keys_dict_set: "fst ` set (dict_set k v d) = insert k (fst ` set d)"
  by (induction d) auto

lemma dict_pop_absent: "dict_get d k = None \<Longrightarrow> dict_pop k d = d"
  by (auto simp: dict_pop_filter map_of_eq_None_iff filter_id_conv)

lemma mem_dict_get: "dict_wf d \<Longrightarrow> (k, v) \<in> set d \<Longrightarrow> dict_get d k = Some v"
  by (rule map_of_is_SomeI)

section \<open>Lists\<close>

text \<open>\<open>next((x for x in xs if P x), None)\<close>.\<close>

fun find_first :: "('a \<Rightarrow> bool) \<Rightarrow> 'a list \<Rightarrow> 'a option" where
  "find_first P [] = None"
| "find_first P (x # xs) = (if P x then Some x else find_first P xs)"

lemma find_first_Some: "find_first P xs = Some x \<Longrightarrow> x \<in> set xs \<and> P x"
  by (induction xs) (auto split: if_splits)

lemma find_first_None_iff: "find_first P xs = None \<longleftrightarrow> (\<forall>x \<in> set xs. \<not> P x)"
  by (induction xs) auto

lemma find_first_of_filter: "find_first Q (filter P xs) = find_first (\<lambda>x. P x \<and> Q x) xs"
  by (induction xs) auto

text \<open>The index of the first hit, as a loop with \<open>enumerate\<close> finds it.\<close>

fun index_of :: "('a \<Rightarrow> bool) \<Rightarrow> 'a list \<Rightarrow> nat option" where
  "index_of P [] = None"
| "index_of P (x # xs) = (if P x then Some 0 else map_option Suc (index_of P xs))"

lemma index_of_Some: "index_of P xs = Some i \<Longrightarrow> i < length xs \<and> P (xs ! i)"
  by (induction xs arbitrary: i) (auto split: if_splits)

lemma index_of_None_iff: "index_of P xs = None \<longleftrightarrow> (\<forall>x \<in> set xs. \<not> P x)"
  by (induction xs) auto

lemma index_of_before: "index_of P xs = Some i \<Longrightarrow> j < i \<Longrightarrow> \<not> P (xs ! j)"
proof (induction xs arbitrary: i j)
  case Nil
  then show ?case by simp
next
  case (Cons x xs)
  then show ?case by (cases j) (auto split: if_splits)
qed

text \<open>\<open>xs.pop(i)\<close> for an index in range.\<close>

definition list_pop :: "nat \<Rightarrow> 'a list \<Rightarrow> 'a list" where
  "list_pop i xs = take i xs @ drop (Suc i) xs"

text \<open>Applying an update to the first element that matches, the rest unchanged.\<close>

fun update_first :: "('a \<Rightarrow> bool) \<Rightarrow> ('a \<Rightarrow> 'a) \<Rightarrow> 'a list \<Rightarrow> 'a list" where
  "update_first P f [] = []"
| "update_first P f (x # xs) = (if P x then f x # xs else x # update_first P f xs)"

lemma length_update_first [simp]: "length (update_first P f xs) = length xs"
  by (induction xs) auto

lemma map_update_first:
  "(\<And>x. x \<in> set xs \<Longrightarrow> P x \<Longrightarrow> g (f x) = g x) \<Longrightarrow> map g (update_first P f xs) = map g xs"
  by (induction xs) auto

lemma update_first_none: "find_first P xs = None \<Longrightarrow> update_first P f xs = xs"
  by (induction xs) (auto split: if_splits)

lemma find_first_update_first:
  "find_first P xs = Some x \<Longrightarrow> (\<And>y. P y \<Longrightarrow> P (f y)) \<Longrightarrow>
   find_first P (update_first P f xs) = Some (f x)"
  by (induction xs) (auto split: if_splits)

lemma find_first_append:
  "find_first P (xs @ ys) = (case find_first P xs of None \<Rightarrow> find_first P ys | Some x \<Rightarrow> Some x)"
  by (induction xs) auto

text \<open>\<open>tuple(dict.fromkeys(xs))\<close>: the first occurrence of each element, in order.\<close>

fun dedupe :: "'a list \<Rightarrow> 'a list" where
  "dedupe [] = []"
| "dedupe (x # xs) = x # filter (\<lambda>y. y \<noteq> x) (dedupe xs)"

lemma set_dedupe [simp]: "set (dedupe xs) = set xs"
  by (induction xs) auto

lemma distinct_dedupe [simp]: "distinct (dedupe xs)"
  by (induction xs) auto

lemma dedupe_Nil_iff [simp]: "dedupe xs = [] \<longleftrightarrow> xs = []"
  by (cases xs) auto

text \<open>\<open>xs.remove(x)\<close> of the first element that matches.\<close>

fun remove_first :: "('a \<Rightarrow> bool) \<Rightarrow> 'a list \<Rightarrow> 'a list" where
  "remove_first P [] = []"
| "remove_first P (x # xs) = (if P x then xs else x # remove_first P xs)"

lemma set_remove_first_subset: "set (remove_first P xs) \<subseteq> set xs"
  by (induction xs) auto

text \<open>
  \<open>for x in xs: d[key(x)] = x\<close>: the last element with a key takes it.
\<close>

definition dict_by :: "('a \<Rightarrow> 'k) \<Rightarrow> 'a list \<Rightarrow> ('k, 'a) dict" where
  "dict_by key xs = fold (\<lambda>x d. dict_set (key x) x d) xs []"

lemma get_fold_set:
  "dict_get (fold (\<lambda>x d. dict_set (key x) x d) xs d) i =
     (case find_first (\<lambda>x. key x = i) (rev xs) of None \<Rightarrow> dict_get d i | Some x \<Rightarrow> Some x)"
  by (induction xs arbitrary: d) (auto simp: find_first_append split: option.splits)

lemma wf_fold_set: "dict_wf d \<Longrightarrow> dict_wf (fold (\<lambda>x d. dict_set (key x) x d) xs d)"
  by (induction xs arbitrary: d) auto

lemma dict_by_get: "dict_get (dict_by key xs) i = find_first (\<lambda>x. key x = i) (rev xs)"
  by (auto simp: dict_by_def get_fold_set split: option.splits)

lemma dict_by_wf [simp]: "dict_wf (dict_by key xs)"
  by (simp add: dict_by_def wf_fold_set)

lemma find_last_iff:
  "find_first P (rev xs) = Some x \<longleftrightarrow> (\<exists>pre post. xs = pre @ x # post \<and> P x \<and> (\<forall>y \<in> set post. \<not> P y))"
proof (induction xs rule: rev_induct)
  case Nil
  then show ?case by simp
next
  case (snoc z xs)
  show ?case
  proof (cases "P z")
    case True
    show ?thesis
    proof
      assume "find_first P (rev (xs @ [z])) = Some x"
      then have "z = x" using True by simp
      then show "\<exists>pre post. xs @ [z] = pre @ x # post \<and> P x \<and> (\<forall>y \<in> set post. \<not> P y)"
        using True by (intro exI [of _ xs] exI [of _ "[]"]) simp
    next
      assume "\<exists>pre post. xs @ [z] = pre @ x # post \<and> P x \<and> (\<forall>y \<in> set post. \<not> P y)"
      then obtain pre post where "xs @ [z] = pre @ x # post" and "\<forall>y \<in> set post. \<not> P y" by blast
      then have "z = x" using True by (cases post rule: rev_cases) auto
      then show "find_first P (rev (xs @ [z])) = Some x" using True by simp
    qed
  next
    case False
    then have "find_first P (rev (xs @ [z])) = Some x \<longleftrightarrow>
        (\<exists>pre post. xs = pre @ x # post \<and> P x \<and> (\<forall>y \<in> set post. \<not> P y))"
      using snoc.IH by simp
    also have "\<dots> \<longleftrightarrow> (\<exists>pre post. xs @ [z] = pre @ x # post \<and> P x \<and> (\<forall>y \<in> set post. \<not> P y))"
    proof safe
      fix pre post assume "P x" and "\<forall>y \<in> set post. \<not> P y"
      then show "\<exists>pre' post'. (pre @ x # post) @ [z] = pre' @ x # post' \<and> P x \<and> (\<forall>y \<in> set post'. \<not> P y)"
        using False by (intro exI [of _ pre] exI [of _ "post @ [z]"]) auto
    next
      fix pre post assume e: "xs @ [z] = pre @ x # post" and "P x" and "\<forall>y \<in> set post. \<not> P y"
      then show "\<exists>pre post. xs = pre @ x # post \<and> P x \<and> (\<forall>y \<in> set post. \<not> P y)"
        using False by (cases post rule: rev_cases) auto
    qed
    finally show ?thesis .
  qed
qed

lemma dict_by_values:
  "x \<in> set (map snd (dict_by key xs)) \<longleftrightarrow>
     (\<exists>pre post. xs = pre @ x # post \<and> (\<forall>y \<in> set post. key y \<noteq> key x))"
proof -
  have "x \<in> set (map snd (dict_by key xs)) \<longleftrightarrow> (\<exists>k. dict_get (dict_by key xs) k = Some x)"
    by (force simp: map_of_eq_Some_iff)
  also have "\<dots> \<longleftrightarrow> (\<exists>pre post. xs = pre @ x # post \<and> (\<forall>y \<in> set post. key y \<noteq> key x))"
    unfolding dict_by_get find_last_iff by auto
  finally show ?thesis .
qed

lemma dict_by_keys: "(k, x) \<in> set (dict_by key xs) \<Longrightarrow> k = key x"
  using dict_by_get [of key xs k] find_first_Some [of "\<lambda>x. key x = k" "rev xs" x]
  by (simp add: map_of_eq_Some_iff)

lemma dict_by_value_keys: "map key (map snd (dict_by key xs)) = map fst (dict_by key xs)"
  using dict_by_keys [of _ _ key xs] by (auto intro!: map_cong)

end
