(* ===== verification/Json.thy ===== *)
theory Json
  imports Prelude
begin

text \<open>
  JSON values and the Python values that may be offered as one
  (\<open>packages/ftre-agent/src/ftre_agent/session/log.py\<close>: \<open>_snapshot_json\<close> and
  the id-stripping half of \<open>request_fingerprint\<close>).

  A finite float is a mantissa and a binary exponent, which is what a double is; a Python
  dict is an association list, whose keys may be any value before the check and are strings
  after it. \<open>PObj\<close> stands for every other Python object and carries its class name.
\<close>

section \<open>Values\<close>

datatype json =
    JNull
  | JBool bool
  | JInt int
  | JFloat int int
  | JStr string
  | JList "json list"
  | JObj "(string \<times> json) list"

datatype pyval =
    PNone
  | PBool bool
  | PInt int
  | PFloat int int
  | PNaN
  | PInf bool
  | PStr string
  | PList "pyval list"
  | PDict "(pyval \<times> pyval) list"
  | PObj string

type_synonym jdict = "(string, json) dict"

text \<open>The JSON-pure values among the Python values.\<close>

fun py_of_json :: "json \<Rightarrow> pyval" where
  "py_of_json JNull = PNone"
| "py_of_json (JBool b) = PBool b"
| "py_of_json (JInt i) = PInt i"
| "py_of_json (JFloat m e) = PFloat m e"
| "py_of_json (JStr s) = PStr s"
| "py_of_json (JList xs) = PList (map py_of_json xs)"
| "py_of_json (JObj kvs) = PDict (map (\<lambda>(k, v). (PStr k, py_of_json v)) kvs)"

section \<open>The snapshot: check and deep copy in one pass\<close>

text \<open>
  The branches are those of the code, in its order. The dict loop raises at the first key
  that is not a string, and otherwise copies the value before it looks at the next key.
\<close>

fun snapshot_json :: "pyval \<Rightarrow> json result" where
  "snapshot_json PNone = Inr JNull"
| "snapshot_json (PBool b) = Inr (JBool b)"
| "snapshot_json (PStr s) = Inr (JStr s)"
| "snapshot_json (PInt i) = Inr (JInt i)"
| "snapshot_json PNaN = Inl TypeError"
| "snapshot_json (PInf neg) = Inl TypeError"
| "snapshot_json (PFloat m e) = Inr (JFloat m e)"
| "snapshot_json (PList xs) = bind_r (map_r snapshot_json xs) (\<lambda>ys. Inr (JList ys))"
| "snapshot_json (PDict kvs) =
     bind_r (map_r (\<lambda>(k, v).
               case k of PStr s \<Rightarrow> bind_r (snapshot_json v) (\<lambda>w. Inr (s, w))
               | _ \<Rightarrow> Inl TypeError) kvs)
            (\<lambda>out. Inr (JObj out))"
| "snapshot_json (PObj cls) = Inl TypeError"

lemma snapshot_of_json [simp]: "snapshot_json (py_of_json j) = Inr j"
proof (induction j)
  case (JList js)
  then have "map_r snapshot_json (map py_of_json js) = Inr js"
    by (induction js) auto
  then show ?case by simp
next
  case (JObj kvs)
  have IH: "snapshot_json (py_of_json v) = Inr v" if "(k, v) \<in> set kvs" for k v
    using JObj.IH that by fastforce
  have "map_r (\<lambda>(k, v). case k of PStr s \<Rightarrow> bind_r (snapshot_json v) (\<lambda>w. Inr (s, w))
      | _ \<Rightarrow> Inl TypeError) (map (\<lambda>(k, v). (PStr k, py_of_json v)) kvs) = Inr kvs"
    unfolding map_r_Inr_iff list.rel_map using IH by (auto intro!: list.rel_refl_strong)
  then show ?case by simp
qed auto

text \<open>The copy is value-equal to what was offered.\<close>

lemma snapshot_json_copy: "snapshot_json v = Inr j \<Longrightarrow> py_of_json j = v"
proof (induction v arbitrary: j rule: snapshot_json.induct)
  case (8 xs)
  then obtain ys where j: "j = JList ys" and ys: "list_all2 (\<lambda>x y. snapshot_json x = Inr y) xs ys"
    by (auto simp: result_simps map_r_Inr_iff)
  have "list_all2 (\<lambda>x y. py_of_json y = x) xs ys"
    using ys by (rule list.rel_mono_strong) (auto intro: "8.IH")
  then have "map py_of_json ys = xs"
    by (induction rule: list_all2_induct) auto
  then show ?case using j by simp
next
  case (9 kvs)
  define f where "f = (\<lambda>(k, v). case k of PStr s \<Rightarrow> bind_r (snapshot_json v) (\<lambda>w. Inr (s, w))
      | _ \<Rightarrow> (Inl TypeError :: (string \<times> json) result))"
  define g where "g = (\<lambda>(k, v). (PStr k, py_of_json v))"
  from "9.prems" obtain out where j: "j = JObj out" and out: "list_all2 (\<lambda>x y. f x = Inr y) kvs out"
    by (auto simp: result_simps map_r_Inr_iff f_def)
  have "list_all2 (\<lambda>x y. g y = x) kvs out"
    using out
    by (rule list.rel_mono_strong)
      (auto simp: f_def g_def result_simps split: pyval.splits intro: "9.IH")
  then have "map g out = kvs"
    by (induction rule: list_all2_induct) auto
  then show ?case using j by (simp add: g_def)
qed auto

lemma snapshot_json_ok_iff: "(\<exists>j. snapshot_json v = Inr j) \<longleftrightarrow> (\<exists>j. v = py_of_json j)"
  using snapshot_json_copy by fastforce

section \<open>Dictionary access\<close>

definition jget :: "string \<Rightarrow> json \<Rightarrow> json option" where
  "jget k j = (case j of JObj kvs \<Rightarrow> dict_get kvs k | _ \<Rightarrow> None)"

definition is_obj :: "json \<Rightarrow> bool" where
  "is_obj j = (case j of JObj kvs \<Rightarrow> True | _ \<Rightarrow> False)"

text \<open>Python truthiness.\<close>

fun jtruthy :: "json \<Rightarrow> bool" where
  "jtruthy JNull = False"
| "jtruthy (JBool b) = b"
| "jtruthy (JInt i) = (i \<noteq> 0)"
| "jtruthy (JFloat m e) = (m \<noteq> 0)"
| "jtruthy (JStr s) = (s \<noteq> [])"
| "jtruthy (JList xs) = (xs \<noteq> [])"
| "jtruthy (JObj kvs) = (kvs \<noteq> [])"

section \<open>Fingerprints of user content\<close>

text \<open>\<open>_strip_ids\<close>: drops every \<open>id\<close> key of every dict, at any depth.\<close>

fun strip_ids :: "json \<Rightarrow> json" where
  "strip_ids (JObj kvs) =
     JObj (map (\<lambda>(k, v). (k, strip_ids v)) (filter (\<lambda>(k, v). k \<noteq> ''id'') kvs))"
| "strip_ids (JList xs) = JList (map strip_ids xs)"
| "strip_ids j = j"

lemma strip_ids_idem [simp]: "strip_ids (strip_ids j) = strip_ids j"
proof (induction j rule: strip_ids.induct)
  case (1 kvs)
  have IH: "strip_ids (strip_ids v) = strip_ids v" if "(k, v) \<in> set kvs" and "k \<noteq> ''id''" for k v
    using "1.IH" [of "(k, v)" k v] that by simp
  have "map (\<lambda>(k, v). (k, strip_ids v)) (filter (\<lambda>(k, v). k \<noteq> ''id'')
          (map (\<lambda>(k, v). (k, strip_ids v)) (filter (\<lambda>(k, v). k \<noteq> ''id'') kvs)))
      = map (\<lambda>(k, v). (k, strip_ids v)) (filter (\<lambda>(k, v). k \<noteq> ''id'') kvs)"
    using IH by (induction kvs) auto
  then show ?case by simp
qed auto

section \<open>What the code takes from the standard library\<close>

text \<open>
  Six functions of the Python library are used as they come and enter the model as
  parameters: \<open>str\<close> on a value that is not a string, \<open>json.dumps\<close> with sorted keys, the
  24-digit SHA-256 digest of the canonical JSON text of a value, that of a text, \<open>int\<close> on
  a string, and \<open>dict\<close> on a value that is not a dict. Nothing is assumed about them, except
  where a theorem names a hypothesis.
\<close>

record pylib =
  lib_str :: "json \<Rightarrow> string"
  lib_dumps :: "json \<Rightarrow> string"
  lib_digest :: "json \<Rightarrow> string"
  lib_text_digest :: "string \<Rightarrow> string"
  lib_int :: "string \<Rightarrow> int result"
  lib_dict :: "json \<Rightarrow> jdict result"

text \<open>\<open>str(d.get(k) or "")\<close>.\<close>

definition py_str :: "pylib \<Rightarrow> json \<Rightarrow> string" where
  "py_str L j = (case j of JStr s \<Rightarrow> s | _ \<Rightarrow> lib_str L j)"

definition str_or_empty :: "pylib \<Rightarrow> json option \<Rightarrow> string" where
  "str_or_empty L x = (case x of None \<Rightarrow> [] | Some j \<Rightarrow> if jtruthy j then py_str L j else [])"

text \<open>\<open>str(d.get(k) or default)\<close>.\<close>

definition str_or_default :: "pylib \<Rightarrow> json option \<Rightarrow> string \<Rightarrow> string" where
  "str_or_default L x d = (case x of None \<Rightarrow> d | Some j \<Rightarrow> if jtruthy j then py_str L j else d)"

lemma str_or_empty_simps [simp]:
  "str_or_empty L None = []" "str_or_empty L (Some (JStr s)) = s"
  by (auto simp: str_or_empty_def py_str_def)

text \<open>\<open>int(d.get(k) or 0)\<close>; a float is truncated towards zero.\<close>

definition trunc_float :: "int \<Rightarrow> int \<Rightarrow> int" where
  "trunc_float m e = (if 0 \<le> e then m * 2 ^ nat e else sgn m * (\<bar>m\<bar> div 2 ^ nat (- e)))"

fun py_int :: "pylib \<Rightarrow> json \<Rightarrow> int result" where
  "py_int L (JInt i) = Inr i"
| "py_int L (JBool b) = Inr (if b then 1 else 0)"
| "py_int L (JFloat m e) = Inr (trunc_float m e)"
| "py_int L (JStr s) = lib_int L s"
| "py_int L _ = Inl TypeError"

definition int_or_zero :: "pylib \<Rightarrow> json option \<Rightarrow> int result" where
  "int_or_zero L x = (case x of None \<Rightarrow> Inr 0 | Some j \<Rightarrow> if jtruthy j then py_int L j else Inr 0)"

definition request_fingerprint :: "pylib \<Rightarrow> json \<Rightarrow> string" where
  "request_fingerprint L content = lib_digest L (strip_ids content)"

lemma request_fingerprint_cong:
  "strip_ids a = strip_ids b \<Longrightarrow> request_fingerprint L a = request_fingerprint L b"
  by (simp add: request_fingerprint_def)

section \<open>Iteration and conversion\<close>

text \<open>\<open>for x in value\<close>: a list gives its elements, a dict its keys, a string its characters.\<close>

definition iter_json :: "json \<Rightarrow> json list result" where
  "iter_json v =
     (case v of
        JList xs \<Rightarrow> Inr xs
      | JObj kvs \<Rightarrow> Inr (map (\<lambda>kv. JStr (fst kv)) kvs)
      | JStr s \<Rightarrow> Inr (map (\<lambda>c. JStr [c]) s)
      | _ \<Rightarrow> Inl TypeError)"

definition py_dict :: "pylib \<Rightarrow> json \<Rightarrow> jdict result" where
  "py_dict L v = (case v of JObj kvs \<Rightarrow> Inr kvs | _ \<Rightarrow> lib_dict L v)"

text \<open>\<open>v == i\<close> for an integer: booleans and integral floats count as numbers.\<close>

definition equals_int :: "json \<Rightarrow> int \<Rightarrow> bool" where
  "equals_int v i =
     (case v of
        JInt j \<Rightarrow> j = i
      | JBool b \<Rightarrow> (if b then 1 else 0) = i
      | JFloat m e \<Rightarrow> if 0 \<le> e then m * 2 ^ nat e = i else m = i * 2 ^ nat (- e)
      | _ \<Rightarrow> False)"

text \<open>Membership of a value in a set hashes it, which a list or dict refuses.\<close>

definition hashable :: "json \<Rightarrow> bool" where
  "hashable v = (case v of JList _ \<Rightarrow> False | JObj _ \<Rightarrow> False | _ \<Rightarrow> True)"

text \<open>\<open>d[k]\<close>.\<close>

definition dict_item :: "jdict \<Rightarrow> string \<Rightarrow> json result" where
  "dict_item d k = (case dict_get d k of None \<Rightarrow> Inl KeyError | Some v \<Rightarrow> Inr v)"

definition get_or :: "jdict \<Rightarrow> string \<Rightarrow> json \<Rightarrow> json" where
  "get_or d k v = (case dict_get d k of None \<Rightarrow> v | Some w \<Rightarrow> w)"

end
