(* ===== verification/SessionLog.thy ===== *)
theory SessionLog
  imports Json
begin

text \<open>
  The in-memory event log of a session
  (\<open>packages/ftre-agent/src/ftre_agent/session/log.py\<close>, class \<open>SessionLog\<close>): append with
  its checks, the idempotence indexes, notification of subscribers, reset, load after a
  restart, and the two reads \<open>tail\<close> and \<open>request_state\<close>.

  The events are the raw dictionaries the log holds: an envelope and a JSON payload. A
  subscriber is a number; what it does when it is called is the argument \<open>react\<close>, which
  returns the new log and whether it raised.
\<close>

section \<open>Event types\<close>

definition SURFACE_EVENT_TYPES :: "string list" where
  "SURFACE_EVENT_TYPES =
     [''user/message'', ''assistant/message'', ''tool/result'', ''hint/message'', ''compact/message'']"

definition IGNORABLE_EVENT_TYPES :: "string list" where
  "IGNORABLE_EVENT_TYPES = []"

definition ALL_EVENT_TYPES :: "string list" where
  "ALL_EVENT_TYPES = SURFACE_EVENT_TYPES @
     [''assistant/chunk'', ''tool/call-start'', ''tool/result-start'', ''approval/asked'',
      ''turn/start'', ''turn/retry'', ''turn/end'', ''session/status'']"

section \<open>State\<close>

record event =
  ev_type :: string
  ev_seq :: int
  ev_time :: int
  ev_message_id :: "string option"
  ev_data :: json

type_synonym subscriber = nat

record session_log =
  sl_session_id :: string
  sl_events :: "event list"
  sl_next_seq :: int
  sl_subscribers :: "subscriber list"
  sl_appending :: bool
  sl_user_requests :: "string \<rightharpoonup> string"
  sl_fingerprints :: "string \<rightharpoonup> string"
  sl_turn_outcomes :: "string \<rightharpoonup> string"

type_synonym reaction = "subscriber \<Rightarrow> event \<Rightarrow> session_log \<Rightarrow> session_log \<times> bool"

definition new_log :: "string \<Rightarrow> int \<Rightarrow> session_log" where
  "new_log sid start_seq =
     \<lparr>sl_session_id = sid, sl_events = [], sl_next_seq = max 0 start_seq, sl_subscribers = [],
      sl_appending = False, sl_user_requests = Map.empty, sl_fingerprints = Map.empty,
      sl_turn_outcomes = Map.empty\<rparr>"

section \<open>Queries\<close>

definition log_seq :: "session_log \<Rightarrow> int" where
  "log_seq s = sl_next_seq s - 1"

definition tail :: "session_log \<Rightarrow> int \<Rightarrow> int \<Rightarrow> event list \<times> bool" where
  "tail s after_seq limit =
     (case sl_events s of
        [] \<Rightarrow> ([], False)
      | e # _ \<Rightarrow>
          let start = max 0 (after_seq - ev_seq e + 1);
              page = take (nat (max 1 limit)) (drop (nat start) (sl_events s))
          in (page, start + int (length page) < int (length (sl_events s))))"

definition has_user_request :: "session_log \<Rightarrow> string \<Rightarrow> bool" where
  "has_user_request s rid \<longleftrightarrow> rid \<noteq> [] \<and> rid \<in> dom (sl_user_requests s)"

definition request_state :: "session_log \<Rightarrow> string \<Rightarrow> string option" where
  "request_state s rid =
     (if rid = [] then None
      else case sl_turn_outcomes s rid of
             None \<Rightarrow> None
           | Some outcome \<Rightarrow>
               if outcome = ''completed'' then Some ''completed''
               else if outcome \<in> {''error'', ''cancelled''} then Some ''failed''
               else None)"

section \<open>Subscriptions\<close>

definition subscribe :: "subscriber \<Rightarrow> session_log \<Rightarrow> session_log" where
  "subscribe f s = s\<lparr>sl_subscribers := sl_subscribers s @ [f]\<rparr>"

definition dispose_subscriber :: "subscriber \<Rightarrow> session_log \<Rightarrow> session_log" where
  "dispose_subscriber f s = s\<lparr>sl_subscribers := remove1 f (sl_subscribers s)\<rparr>"

text \<open>\<open>_notify\<close>: calls a copy of the subscriber list in order; a raise is logged and dropped.\<close>

fun notify_all :: "reaction \<Rightarrow> event \<Rightarrow> subscriber list \<Rightarrow> session_log \<Rightarrow> session_log" where
  "notify_all react ev [] s = s"
| "notify_all react ev (f # fs) s = notify_all react ev fs (fst (react f ev s))"

definition notify :: "reaction \<Rightarrow> event \<Rightarrow> session_log \<Rightarrow> session_log" where
  "notify react ev s = notify_all react ev (sl_subscribers s) s"

section \<open>Append\<close>

definition payload_request_id :: "pylib \<Rightarrow> json \<Rightarrow> string" where
  "payload_request_id L data = str_or_empty L (jget ''request_id'' data)"

definition payload_content :: "json \<Rightarrow> json" where
  "payload_content data = (case jget ''content'' data of None \<Rightarrow> JNull | Some c \<Rightarrow> c)"

definition payload_outcome :: "pylib \<Rightarrow> json \<Rightarrow> string" where
  "payload_outcome L data = str_or_empty L (jget ''outcome'' data)"

definition check_user_request :: "pylib \<Rightarrow> string \<Rightarrow> json \<Rightarrow> session_log \<Rightarrow> unit result" where
  "check_user_request L rid content s =
     (case sl_fingerprints s rid of
        None \<Rightarrow> Inr ()
      | Some fp \<Rightarrow> if fp \<noteq> request_fingerprint L content then Inl ValueError else Inr ())"

definition index_user_message :: "pylib \<Rightarrow> event \<Rightarrow> session_log \<Rightarrow> session_log" where
  "index_user_message L ev s =
     (let rid = payload_request_id L (ev_data ev) in
      if ev_type ev = ''user/message'' \<and> rid \<noteq> [] then
        s\<lparr>sl_user_requests := (sl_user_requests s)(rid \<mapsto> opt_str (ev_message_id ev)),
          sl_fingerprints := (sl_fingerprints s)
            (rid \<mapsto> request_fingerprint L (payload_content (ev_data ev)))\<rparr>
      else s)"

definition index_turn_end :: "pylib \<Rightarrow> event \<Rightarrow> session_log \<Rightarrow> session_log" where
  "index_turn_end L ev s =
     (let rid = payload_request_id L (ev_data ev) in
      if ev_type ev = ''turn/end'' \<and> rid \<noteq> [] then
        s\<lparr>sl_turn_outcomes := (sl_turn_outcomes s)(rid \<mapsto> payload_outcome L (ev_data ev))\<rparr>
      else s)"

text \<open>
  \<open>append(type_, data, message_id)\<close> at clock reading \<open>now\<close>: the checks, which build the
  event, and the commit. The payload is a dict or the dump of a payload model, so it is given
  by its entries.
\<close>

definition append_checks ::
  "pylib \<Rightarrow> int \<Rightarrow> string \<Rightarrow> (pyval \<times> pyval) list \<Rightarrow> string option \<Rightarrow> session_log \<Rightarrow> event result" where
  "append_checks L now ty data mid s =
     (if sl_appending s then Inl ValueError
      else if ty \<notin> set ALL_EVENT_TYPES then Inl ValueError
      else bind_r (snapshot_json (PDict data)) (\<lambda>payload.
           bind_r (if ty = ''user/message'' \<and> payload_request_id L payload \<noteq> []
                   then check_user_request L (payload_request_id L payload)
                          (payload_content payload) s
                   else Inr ()) (\<lambda>_.
           Inr \<lparr>ev_type = ty, ev_seq = sl_next_seq s, ev_time = now,
                ev_message_id = none_if_empty mid, ev_data = payload\<rparr>)))"

definition commit_event :: "pylib \<Rightarrow> reaction \<Rightarrow> event \<Rightarrow> session_log \<Rightarrow> session_log" where
  "commit_event L react ev s =
     (let s1 = s\<lparr>sl_appending := True, sl_events := sl_events s @ [ev],
                 sl_next_seq := sl_next_seq s + 1\<rparr>;
          s2 = index_turn_end L ev (index_user_message L ev s1);
          s3 = notify react ev s2
      in s3\<lparr>sl_appending := False\<rparr>)"

definition append_event ::
  "pylib \<Rightarrow> reaction \<Rightarrow> int \<Rightarrow> string \<Rightarrow> (pyval \<times> pyval) list \<Rightarrow> string option \<Rightarrow> session_log
   \<Rightarrow> session_log \<times> event result" where
  "append_event L react now ty data mid s =
     (case append_checks L now ty data mid s of
        Inl e \<Rightarrow> (s, Inl e)
      | Inr ev \<Rightarrow> (commit_event L react ev s, Inr ev))"

text \<open>
  \<open>append_user_message\<close>: \<open>None\<close> when the request is already in the log. The message id is
  the caller's, else derived from session and request, else a fresh one (\<open>fresh\<close>).
\<close>

definition derived_user_message_id ::
  "pylib \<Rightarrow> string \<Rightarrow> string \<Rightarrow> string \<Rightarrow> string" where
  "derived_user_message_id L fresh sid rid =
     (if rid \<noteq> [] then ''user_'' @ lib_text_digest L (sid @ [CHR 0x00] @ rid) else fresh)"

definition append_user_message ::
  "pylib \<Rightarrow> reaction \<Rightarrow> int \<Rightarrow> string \<Rightarrow> string \<Rightarrow> json list \<Rightarrow> (pyval \<times> pyval) list
   \<Rightarrow> string option \<Rightarrow> session_log \<Rightarrow> session_log \<times> event option result" where
  "append_user_message L react now fresh rid content metadata mid s =
     (if rid \<noteq> [] \<and> rid \<in> dom (sl_user_requests s) then
        (case sl_fingerprints s rid of
           None \<Rightarrow> (s, Inr None)
         | Some fp \<Rightarrow> if fp \<noteq> request_fingerprint L (JList content)
                      then (s, Inl ValueError) else (s, Inr None))
      else
        let mid' = (case mid of Some m \<Rightarrow> m
                    | None \<Rightarrow> derived_user_message_id L fresh (sl_session_id s) rid);
            data = [(PStr ''content'', PList (map py_of_json content)),
                    (PStr ''metadata'', PDict metadata),
                    (PStr ''request_id'', PStr rid)];
            r = append_event L react now ''user/message'' data (Some mid') s
        in (fst r, bind_r (snd r) (\<lambda>ev. Inr (Some ev))))"

section \<open>Reset and recovery\<close>

definition clear_log :: "int \<Rightarrow> session_log \<Rightarrow> session_log" where
  "clear_log next s =
     s\<lparr>sl_events := [], sl_next_seq := next, sl_user_requests := Map.empty,
       sl_fingerprints := Map.empty, sl_turn_outcomes := Map.empty\<rparr>"

definition reset_log :: "int \<Rightarrow> session_log \<Rightarrow> session_log \<times> unit result" where
  "reset_log start_seq s =
     (if sl_appending s then (s, Inl ValueError) else (clear_log (max 0 start_seq) s, Inr ()))"

definition reindex :: "pylib \<Rightarrow> event \<Rightarrow> session_log \<Rightarrow> session_log" where
  "reindex L ev s =
     (if ev_type ev = ''user/message'' then index_user_message L ev s
      else if ev_type ev = ''turn/end'' then index_turn_end L ev s
      else s)"

text \<open>
  The loop of \<open>load\<close>. A raise in the middle leaves what was restored so far in place, and
  the next sequence number at 0.
\<close>

fun load_loop :: "pylib \<Rightarrow> int \<Rightarrow> event list \<Rightarrow> session_log \<Rightarrow> session_log \<times> unit result" where
  "load_loop L index [] s = (s, Inr ())"
| "load_loop L index (e # es) s =
     (if ev_type e \<notin> set ALL_EVENT_TYPES then
        if ev_type e \<in> set IGNORABLE_EVENT_TYPES then load_loop L (index + 1) es s
        else (s, Inl ValueError)
      else if ev_seq e \<noteq> index then (s, Inl ValueError)
      else case snapshot_json (py_of_json (ev_data e)) of
        Inl x \<Rightarrow> (s, Inl x)
      | Inr snapshot \<Rightarrow>
          let restored = e\<lparr>ev_seq := index, ev_data := snapshot\<rparr>;
              s' = reindex L restored (s\<lparr>sl_events := sl_events s @ [restored]\<rparr>)
          in load_loop L (index + 1) es s')"

definition load_events :: "pylib \<Rightarrow> event list \<Rightarrow> session_log \<Rightarrow> session_log \<times> unit result" where
  "load_events L es s =
     (let r = load_loop L 0 es (clear_log 0 s) in
      case snd r of
        Inl x \<Rightarrow> r
      | Inr _ \<Rightarrow> ((fst r)\<lparr>sl_next_seq := int (length (sl_events (fst r)))\<rparr>, Inr ()))"

section \<open>Subscribers that call back into the log\<close>

text \<open>
  What a subscriber can do to the log during a notification is a list of calls of its public
  operations. The two that would change the history check the publishing flag.
\<close>

datatype log_action =
    ActAppend string "(pyval \<times> pyval) list" "string option"
  | ActReset int
  | ActSubscribe subscriber
  | ActDispose subscriber

fun run_action :: "pylib \<Rightarrow> int \<Rightarrow> log_action \<Rightarrow> session_log \<Rightarrow> session_log" where
  "run_action L now (ActAppend ty data mid) s =
     fst (append_event L (\<lambda>_ _ t. (t, False)) now ty data mid s)"
| "run_action L now (ActReset n) s = fst (reset_log n s)"
| "run_action L now (ActSubscribe f) s = subscribe f s"
| "run_action L now (ActDispose f) s = dispose_subscriber f s"

definition react_by ::
  "pylib \<Rightarrow> int \<Rightarrow> (subscriber \<Rightarrow> event \<Rightarrow> log_action list \<times> bool) \<Rightarrow> reaction" where
  "react_by L now acts f ev s = (fold (run_action L now) (fst (acts f ev)) s, snd (acts f ev))"

text \<open>Two logs that differ at most in who listens.\<close>

definition same_facts :: "session_log \<Rightarrow> session_log \<Rightarrow> bool" where
  "same_facts s t \<longleftrightarrow> t = s\<lparr>sl_subscribers := sl_subscribers t\<rparr>"

lemma same_facts_refl [simp]: "same_facts s s"
  by (simp add: same_facts_def)

lemma same_facts_trans: "same_facts s t \<Longrightarrow> same_facts t u \<Longrightarrow> same_facts s u"
proof -
  assume t: "same_facts s t" and u: "same_facts t u"
  have "u = (s\<lparr>sl_subscribers := sl_subscribers t\<rparr>)\<lparr>sl_subscribers := sl_subscribers u\<rparr>"
    using t u unfolding same_facts_def by metis
  then show ?thesis by (simp add: same_facts_def)
qed

lemma same_facts_fields:
  assumes "same_facts s t"
  shows "sl_session_id t = sl_session_id s" "sl_events t = sl_events s"
    "sl_next_seq t = sl_next_seq s" "sl_appending t = sl_appending s"
    "sl_user_requests t = sl_user_requests s" "sl_fingerprints t = sl_fingerprints s"
    "sl_turn_outcomes t = sl_turn_outcomes s"
  by (subst assms [unfolded same_facts_def], simp)+

lemma append_event_reentrant:
  "sl_appending s \<Longrightarrow> append_event L react now ty data mid s = (s, Inl ValueError)"
  by (simp add: append_event_def append_checks_def)

lemma run_action_same_facts: "sl_appending s \<Longrightarrow> same_facts s (run_action L now a s)"
  by (cases a)
    (simp_all add: append_event_reentrant reset_log_def subscribe_def dispose_subscriber_def
      same_facts_def)

lemma fold_actions_same_facts:
  "sl_appending s \<Longrightarrow> same_facts s (fold (run_action L now) as s)"
proof (induction as arbitrary: s)
  case Nil
  then show ?case by simp
next
  case (Cons a as)
  have 1: "same_facts s (run_action L now a s)"
    by (rule run_action_same_facts [OF Cons.prems])
  moreover have "sl_appending (run_action L now a s)"
    using 1 Cons.prems by (simp add: same_facts_fields)
  ultimately show ?case using Cons.IH by (auto intro: same_facts_trans)
qed

lemma notify_all_same_facts:
  "sl_appending s \<Longrightarrow> same_facts s (notify_all (react_by L now acts) ev fs s)"
proof (induction fs arbitrary: s)
  case Nil
  then show ?case by simp
next
  case (Cons f fs)
  have 1: "same_facts s (fst (react_by L now acts f ev s))"
    by (simp add: react_by_def fold_actions_same_facts Cons.prems)
  moreover have "sl_appending (fst (react_by L now acts f ev s))"
    using 1 Cons.prems by (simp add: same_facts_fields)
  ultimately show ?case using Cons.IH by (auto intro: same_facts_trans)
qed

section \<open>The indexes\<close>

lemma index_fields [simp]:
  "sl_events (index_user_message L ev s) = sl_events s"
  "sl_events (index_turn_end L ev s) = sl_events s"
  "sl_next_seq (index_user_message L ev s) = sl_next_seq s"
  "sl_next_seq (index_turn_end L ev s) = sl_next_seq s"
  "sl_appending (index_user_message L ev s) = sl_appending s"
  "sl_appending (index_turn_end L ev s) = sl_appending s"
  "sl_subscribers (index_user_message L ev s) = sl_subscribers s"
  "sl_subscribers (index_turn_end L ev s) = sl_subscribers s"
  "sl_session_id (index_user_message L ev s) = sl_session_id s"
  "sl_session_id (index_turn_end L ev s) = sl_session_id s"
  by (simp_all add: index_user_message_def index_turn_end_def Let_def)

lemma index_eq_reindex: "index_turn_end L ev (index_user_message L ev s) = reindex L ev s"
  by (cases "ev_type ev = ''user/message''")
    (simp_all add: reindex_def index_user_message_def index_turn_end_def)

lemma reindex_fields [simp]:
  "sl_events (reindex L ev s) = sl_events s"
  "sl_next_seq (reindex L ev s) = sl_next_seq s"
  "sl_appending (reindex L ev s) = sl_appending s"
  "sl_subscribers (reindex L ev s) = sl_subscribers s"
  "sl_session_id (reindex L ev s) = sl_session_id s"
  by (simp_all add: reindex_def)

text \<open>The three indexes as one value, and what a rebuild from a list of events gives.\<close>

definition indexes ::
  "session_log \<Rightarrow> (string \<rightharpoonup> string) \<times> (string \<rightharpoonup> string) \<times> (string \<rightharpoonup> string)" where
  "indexes s = (sl_user_requests s, sl_fingerprints s, sl_turn_outcomes s)"

lemma indexes_reindex_cong: "indexes s = indexes t \<Longrightarrow> indexes (reindex L ev s) = indexes (reindex L ev t)"
  by (simp add: indexes_def reindex_def index_user_message_def index_turn_end_def Let_def)

lemma indexes_fold_cong:
  "indexes s = indexes t \<Longrightarrow> indexes (fold (reindex L) es s) = indexes (fold (reindex L) es t)"
proof (induction es arbitrary: s t)
  case Nil
  then show ?case by simp
next
  case (Cons e es)
  have "indexes (reindex L e s) = indexes (reindex L e t)"
    by (rule indexes_reindex_cong [OF Cons.prems])
  then show ?case by (auto dest: Cons.IH)
qed

definition rebuilt_indexes where
  "rebuilt_indexes L es = indexes (fold (reindex L) es (new_log [] 0))"

lemma rebuilt_indexes_snoc:
  "indexes s = rebuilt_indexes L es \<Longrightarrow> indexes (reindex L ev s) = rebuilt_indexes L (es @ [ev])"
  by (auto simp: rebuilt_indexes_def dest: indexes_reindex_cong [where ev = ev and L = L])

section \<open>The invariant of the log\<close>

definition contiguous :: "event list \<Rightarrow> int \<Rightarrow> bool" where
  "contiguous es next \<longleftrightarrow> 0 \<le> next - int (length es) \<and>
     (\<forall>i < length es. ev_seq (es ! i) = next - int (length es) + int i)"

lemma contiguous_Nil [simp]: "contiguous [] next \<longleftrightarrow> 0 \<le> next"
  by (simp add: contiguous_def)

lemma contiguous_snoc:
  "contiguous es next \<Longrightarrow> ev_seq e = next \<Longrightarrow> contiguous (es @ [e]) (next + 1)"
  by (auto simp: contiguous_def nth_append less_Suc_eq)

definition log_inv :: "pylib \<Rightarrow> session_log \<Rightarrow> bool" where
  "log_inv L s \<longleftrightarrow> \<not> sl_appending s \<and> contiguous (sl_events s) (sl_next_seq s) \<and>
     (\<forall>e \<in> set (sl_events s). ev_type e \<in> set ALL_EVENT_TYPES) \<and>
     indexes s = rebuilt_indexes L (sl_events s)"

lemma log_inv_new: "log_inv L (new_log sid start)"
  by (simp add: log_inv_def new_log_def rebuilt_indexes_def indexes_def)

text \<open>A commit, and the checks that guard it.\<close>

lemma commit_event_same_facts:
  "\<exists>u. same_facts (reindex L ev (s\<lparr>sl_appending := True, sl_events := sl_events s @ [ev],
              sl_next_seq := sl_next_seq s + 1\<rparr>)) u \<and>
       commit_event L (react_by L now acts) ev s = u\<lparr>sl_appending := False\<rparr>"
  unfolding commit_event_def Let_def notify_def index_eq_reindex
  by (rule exI, rule conjI [rotated], rule refl) (rule notify_all_same_facts, simp)

lemma commit_event_facts:
  fixes L now acts ev s
  defines "t \<equiv> commit_event L (react_by L now acts) ev s"
  shows "sl_events t = sl_events s @ [ev]" "sl_next_seq t = sl_next_seq s + 1"
    "\<not> sl_appending t" "sl_session_id t = sl_session_id s"
    "indexes t = indexes (reindex L ev s)"
proof -
  let ?v = "s\<lparr>sl_appending := True, sl_events := sl_events s @ [ev],
              sl_next_seq := sl_next_seq s + 1\<rparr>"
  obtain u where u: "same_facts (reindex L ev ?v) u" and t: "t = u\<lparr>sl_appending := False\<rparr>"
    using commit_event_same_facts unfolding t_def by blast
  note f = same_facts_fields [OF u]
  show "sl_events t = sl_events s @ [ev]" "sl_next_seq t = sl_next_seq s + 1"
    "\<not> sl_appending t" "sl_session_id t = sl_session_id s"
    using f by (simp_all add: t)
  have "indexes t = indexes (reindex L ev ?v)" using f by (simp add: t indexes_def)
  also have "\<dots> = indexes (reindex L ev s)" by (rule indexes_reindex_cong) (simp add: indexes_def)
  finally show "indexes t = indexes (reindex L ev s)" .
qed

definition bound_to_other_content :: "pylib \<Rightarrow> json \<Rightarrow> session_log \<Rightarrow> bool" where
  "bound_to_other_content L payload s \<longleftrightarrow> payload_request_id L payload \<noteq> [] \<and>
     (\<exists>fp. sl_fingerprints s (payload_request_id L payload) = Some fp \<and>
           fp \<noteq> request_fingerprint L (payload_content payload))"

lemma check_user_request_Inr_iff:
  "check_user_request L rid c s = Inr u \<longleftrightarrow>
     \<not> (\<exists>fp. sl_fingerprints s rid = Some fp \<and> fp \<noteq> request_fingerprint L c)"
  by (auto simp: check_user_request_def split: option.splits)

lemma append_checks_Inr:
  assumes "append_checks L now ty data mid s = Inr ev"
  shows "\<not> sl_appending s" "ty \<in> set ALL_EVENT_TYPES" "ev_type ev = ty"
    "ev_seq ev = sl_next_seq s" "ev_time ev = now" "ev_message_id ev = none_if_empty mid"
    "snapshot_json (PDict data) = Inr (ev_data ev)"
    "\<not> (ty = ''user/message'' \<and> bound_to_other_content L (ev_data ev) s)"
  using assms
  by (auto simp: append_checks_def result_simps check_user_request_Inr_iff
      bound_to_other_content_def simp del: snapshot_json.simps split: if_splits)

lemma append_event_Inl: "append_event L react now ty data mid s = (t, Inl e) \<Longrightarrow> t = s"
  by (auto simp: append_event_def split: sum.splits)

lemma append_event_Inr:
  assumes "append_event L react now ty data mid s = (t, Inr ev)"
  shows "append_checks L now ty data mid s = Inr ev" "t = commit_event L react ev s"
  using assms by (auto simp: append_event_def split: sum.splits)

lemma append_event_inv:
  assumes "append_event L (react_by L now acts) now ty data mid s = (t, r)" and "log_inv L s"
  shows "log_inv L t"
proof (cases r)
  case (Inl e)
  then show ?thesis using append_event_Inl assms by blast
next
  case (Inr ev)
  note ok = append_event_Inr [OF assms(1) [unfolded Inr]]
  note checks = append_checks_Inr [OF ok(1)]
  show ?thesis
    using assms(2) checks contiguous_snoc [of "sl_events s" "sl_next_seq s" ev]
    unfolding ok(2) log_inv_def commit_event_facts
    by (simp add: commit_event_facts rebuilt_indexes_snoc)
qed

text \<open>The other operations.\<close>

lemma append_user_message_cases:
  obtains (seen) "append_user_message L react now fresh rid content metadata mid s = (s, Inr None)"
  | (conflict) "append_user_message L react now fresh rid content metadata mid s = (s, Inl ValueError)"
  | (append) data m where
      "append_user_message L react now fresh rid content metadata mid s =
         (fst (append_event L react now ''user/message'' data (Some m) s),
          bind_r (snd (append_event L react now ''user/message'' data (Some m) s)) (\<lambda>ev. Inr (Some ev)))"
proof (cases "rid \<noteq> [] \<and> rid \<in> dom (sl_user_requests s)")
  case True
  then have "append_user_message L react now fresh rid content metadata mid s \<in>
      {(s, Inr None), (s, Inl ValueError)}"
    by (cases "sl_fingerprints s rid") (auto simp: append_user_message_def)
  then show ?thesis using seen conflict by blast
next
  case False
  show ?thesis
    by (rule append) (simp only: append_user_message_def False if_False Let_def)
qed

lemma append_user_message_inv:
  assumes "append_user_message L (react_by L now acts) now fresh rid content metadata mid s = (t, r)"
    and "log_inv L s"
  shows "log_inv L t"
proof (rule append_user_message_cases [of L "react_by L now acts" now fresh rid content metadata mid s])
  fix data m
  assume "append_user_message L (react_by L now acts) now fresh rid content metadata mid s =
      (fst (append_event L (react_by L now acts) now ''user/message'' data (Some m) s),
       bind_r (snd (append_event L (react_by L now acts) now ''user/message'' data (Some m) s))
         (\<lambda>ev. Inr (Some ev)))"
  then have "append_event L (react_by L now acts) now ''user/message'' data (Some m) s =
      (t, snd (append_event L (react_by L now acts) now ''user/message'' data (Some m) s))"
    using assms(1) by (simp add: prod_eq_iff)
  then show ?thesis using assms(2) by (rule append_event_inv)
qed (use assms in simp_all)

lemma indexes_clear_log: "indexes (clear_log n s) = rebuilt_indexes L []"
  by (simp add: indexes_def clear_log_def rebuilt_indexes_def new_log_def)

lemma reset_log_inv: "reset_log n s = (t, r) \<Longrightarrow> log_inv L s \<Longrightarrow> log_inv L t"
  by (auto simp: reset_log_def log_inv_def indexes_clear_log [of _ s L] simp flip: indexes_clear_log
      split: if_splits) (simp_all add: clear_log_def)

section \<open>Load\<close>

definition loadable :: "int \<Rightarrow> event list \<Rightarrow> bool" where
  "loadable k es \<longleftrightarrow> (\<forall>i < length es. ev_type (es ! i) \<in> set ALL_EVENT_TYPES \<and>
     ev_seq (es ! i) = k + int i)"

lemma loadable_Cons [simp]:
  "loadable k (e # es) \<longleftrightarrow> ev_type e \<in> set ALL_EVENT_TYPES \<and> ev_seq e = k \<and> loadable (k + 1) es"
  by (auto simp: loadable_def nth_Cons split: nat.splits)

lemma loadable_Nil [simp]: "loadable k []"
  by (simp add: loadable_def)

lemma load_loop_restored:
  "ev_seq e = k \<Longrightarrow> e\<lparr>ev_seq := k, ev_data := ev_data e\<rparr> = e"
  by auto

lemma load_loop_spec:
  "snd (load_loop L k es s) = (if loadable k es then Inr () else Inl ValueError) \<and>
   (loadable k es \<longrightarrow>
      sl_events (fst (load_loop L k es s)) = sl_events s @ es \<and>
      indexes (fst (load_loop L k es s)) = indexes (fold (reindex L) es s) \<and>
      sl_appending (fst (load_loop L k es s)) = sl_appending s \<and>
      sl_subscribers (fst (load_loop L k es s)) = sl_subscribers s \<and>
      sl_session_id (fst (load_loop L k es s)) = sl_session_id s)"
proof (induction es arbitrary: k s)
  case Nil
  then show ?case by simp
next
  case (Cons e es)
  show ?case
  proof (cases "ev_type e \<in> set ALL_EVENT_TYPES \<and> ev_seq e = k")
    case False
    then show ?thesis by (auto simp: IGNORABLE_EVENT_TYPES_def)
  next
    case True
    let ?s = "reindex L e (s\<lparr>sl_events := sl_events s @ [e]\<rparr>)"
    have step: "load_loop L k (e # es) s = load_loop L (k + 1) es ?s"
      using True by (simp add: load_loop_restored Let_def)
    have "indexes (fold (reindex L) es ?s) = indexes (fold (reindex L) (e # es) s)"
      by (simp, rule indexes_fold_cong, rule indexes_reindex_cong) (simp add: indexes_def)
    then show ?thesis
      using True Cons.IH [of "k + 1" ?s] by (simp add: step del: load_loop.simps)
  qed
qed

lemma load_events_ok_iff: "snd (load_events L es s) = Inr () \<longleftrightarrow> loadable 0 es"
  using load_loop_spec [of L 0 es "clear_log 0 s"]
  by (auto simp: load_events_def Let_def split: sum.splits if_splits)

lemma load_events_ok:
  assumes "loadable 0 es"
  shows "snd (load_events L es s) = Inr ()" "sl_events (fst (load_events L es s)) = es"
    "sl_next_seq (fst (load_events L es s)) = int (length es)"
    "indexes (fst (load_events L es s)) = rebuilt_indexes L es"
    "sl_appending (fst (load_events L es s)) = sl_appending s"
    "sl_subscribers (fst (load_events L es s)) = sl_subscribers s"
proof -
  note spec = load_loop_spec [of L 0 es "clear_log 0 s"]
  have eq: "load_events L es s = ((fst (load_loop L 0 es (clear_log 0 s)))
      \<lparr>sl_next_seq := int (length (sl_events (fst (load_loop L 0 es (clear_log 0 s)))))\<rparr>, Inr ())"
    using spec assms by (simp add: load_events_def Let_def)
  have "indexes (fold (reindex L) es (clear_log 0 s)) = rebuilt_indexes L es"
    unfolding rebuilt_indexes_def
    by (rule indexes_fold_cong) (simp add: indexes_def clear_log_def new_log_def)
  then show "indexes (fst (load_events L es s)) = rebuilt_indexes L es"
    using spec assms by (simp add: eq) (simp add: indexes_def)
  show "snd (load_events L es s) = Inr ()" "sl_events (fst (load_events L es s)) = es"
    "sl_next_seq (fst (load_events L es s)) = int (length es)"
    "sl_appending (fst (load_events L es s)) = sl_appending s"
    "sl_subscribers (fst (load_events L es s)) = sl_subscribers s"
    using spec assms by (simp_all add: eq) (simp_all add: clear_log_def)
qed

lemma loadable_contiguous: "loadable 0 es \<Longrightarrow> contiguous es (int (length es))"
  by (auto simp: loadable_def contiguous_def)

lemma load_events_inv:
  assumes "loadable 0 es" and "\<not> sl_appending s"
  shows "log_inv L (fst (load_events L es s))"
proof -
  have "\<forall>e \<in> set es. ev_type e \<in> set ALL_EVENT_TYPES"
    using assms(1) by (auto simp: loadable_def in_set_conv_nth)
  then show ?thesis
    using load_events_ok [OF assms(1), of L s] assms by (simp add: log_inv_def loadable_contiguous)
qed

section \<open>Pages of the log\<close>

lemma contiguous_after:
  assumes "contiguous es next" and "es \<noteq> []"
  shows "filter (\<lambda>e. after < ev_seq e) es = drop (nat (max 0 (after - ev_seq (hd es) + 1))) es"
proof -
  let ?k = "nat (max 0 (after - ev_seq (hd es) + 1))"
  have hd: "ev_seq (hd es) = next - int (length es)"
    using assms by (auto simp: contiguous_def hd_conv_nth)
  have nth: "ev_seq (es ! i) = ev_seq (hd es) + int i" if "i < length es" for i
    using assms(1) that by (simp add: contiguous_def hd)
  have "filter (\<lambda>e. after < ev_seq e) (take ?k es) = []"
    by (auto simp: filter_empty_conv in_set_conv_nth nth)
  moreover have "filter (\<lambda>e. after < ev_seq e) (drop ?k es) = drop ?k es"
    by (auto simp: filter_id_conv in_set_conv_nth nth)
  ultimately show ?thesis
    by (metis append_Nil append_take_drop_id filter_append)
qed

section \<open>The log as a history that only grows\<close>

text \<open>
  What a reader of the log relies on, for any operation that adds to a history: a raise
  changes nothing, a success adds one entry at the next position.
\<close>

locale growing_history =
  fixes add :: "'op \<Rightarrow> 's \<Rightarrow> 's \<times> 'e result"
    and hist :: "'s \<Rightarrow> 'e list"
    and pos :: "'e \<Rightarrow> int"
    and next_pos :: "'s \<Rightarrow> int"
    and ok :: "'s \<Rightarrow> bool"
  assumes add_raise: "add x s = (t, Inl err) \<Longrightarrow> t = s"
    and add_success: "ok s \<Longrightarrow> add x s = (t, Inr e) \<Longrightarrow>
      hist t = hist s @ [e] \<and> pos e = next_pos s \<and> next_pos t = next_pos s + 1"
    and add_ok: "ok s \<Longrightarrow> add x s = (t, r) \<Longrightarrow> ok t"
begin

lemma add_cases:
  assumes "ok s"
  shows "fst (add x s) = s \<or> (\<exists>e. hist (fst (add x s)) = hist s @ [e] \<and> pos e = next_pos s \<and>
           next_pos (fst (add x s)) = next_pos s + 1)"
  using assms add_raise add_success by (cases "add x s"; cases "snd (add x s)") auto

lemma run_ok: "ok s \<Longrightarrow> ok (fold (\<lambda>x s. fst (add x s)) xs s)"
proof (induction xs arbitrary: s)
  case (Cons x xs)
  then show ?case using add_ok [OF Cons.prems surjective_pairing] by simp
qed simp

lemma run_extends:
  "ok s \<Longrightarrow> \<exists>es. hist (fold (\<lambda>x s. fst (add x s)) xs s) = hist s @ es \<and>
     map pos es = map (\<lambda>i. next_pos s + int i) [0..<length es] \<and>
     next_pos (fold (\<lambda>x s. fst (add x s)) xs s) = next_pos s + int (length es)"
proof (induction xs arbitrary: s)
  case Nil
  then show ?case by simp
next
  case (Cons x xs)
  let ?t = "fst (add x s)"
  have "ok ?t" by (rule add_ok [OF Cons.prems surjective_pairing])
  then obtain es where es: "hist (fold (\<lambda>x s. fst (add x s)) xs ?t) = hist ?t @ es"
      "map pos es = map (\<lambda>i. next_pos ?t + int i) [0..<length es]"
      "next_pos (fold (\<lambda>x s. fst (add x s)) xs ?t) = next_pos ?t + int (length es)"
    using Cons.IH by blast
  consider "?t = s" | e where "hist ?t = hist s @ [e]" "pos e = next_pos s" "next_pos ?t = next_pos s + 1"
    using add_cases [OF Cons.prems, of x] by blast
  then show ?case
  proof cases
    case 1
    then show ?thesis using es by (intro exI [of _ es]) simp
  next
    case 2
    have "map pos (e # es) = map (\<lambda>i. next_pos s + int i) (0 # map Suc [0..<length es])"
      using 2 es(2) by simp
    also have "0 # map Suc [0..<length es] = [0..<length (e # es)]"
      by (simp add: map_Suc_upt upt_conv_Cons del: upt_Suc)
    finally show ?thesis using 2 es by (intro exI [of _ "e # es"]) simp
  qed
qed

end

text \<open>One call of \<open>append\<close>: clock, type, payload, message id.\<close>

type_synonym append_call = "int \<times> string \<times> (pyval \<times> pyval) list \<times> string option"

definition append_call ::
  "pylib \<Rightarrow> (subscriber \<Rightarrow> event \<Rightarrow> log_action list \<times> bool) \<Rightarrow> append_call
   \<Rightarrow> session_log \<Rightarrow> session_log \<times> event result" where
  "append_call L acts c s =
     (case c of (now, ty, data, mid) \<Rightarrow> append_event L (react_by L now acts) now ty data mid s)"

interpretation slog: growing_history "append_call L acts" sl_events ev_seq sl_next_seq "log_inv L"
  for L acts
proof unfold_locales
  fix x s t err assume "append_call L acts x s = (t, Inl err)"
  then show "t = s" by (cases x) (auto simp: append_call_def dest: append_event_Inl)
next
  fix s x t e assume "log_inv L s" and add: "append_call L acts x s = (t, Inr e)"
  obtain now ty data mid where x: "x = (now, ty, data, mid)" by (cases x)
  note ok = append_event_Inr [OF add [unfolded append_call_def x prod.case]]
  show "sl_events t = sl_events s @ [e] \<and> ev_seq e = sl_next_seq s \<and> sl_next_seq t = sl_next_seq s + 1"
    using append_checks_Inr [OF ok(1)] by (simp add: ok(2) commit_event_facts)
next
  fix s x t r assume "log_inv L s" and "append_call L acts x s = (t, r)"
  then show "log_inv L t" by (cases x) (auto simp: append_call_def intro: append_event_inv)
qed

section \<open>Reachable logs\<close>

inductive log_reachable :: "pylib \<Rightarrow> session_log \<Rightarrow> bool" for L where
  start: "log_reachable L (new_log sid start_seq)"
| append: "log_reachable L s \<Longrightarrow>
     append_event L (react_by L now acts) now ty data mid s = (t, r) \<Longrightarrow> log_reachable L t"
| append_user: "log_reachable L s \<Longrightarrow>
     append_user_message L (react_by L now acts) now fresh rid content metadata mid s = (t, r')
     \<Longrightarrow> log_reachable L t"
| reset: "log_reachable L s \<Longrightarrow> reset_log n s = (t, r'') \<Longrightarrow> log_reachable L t"
| load: "log_reachable L s \<Longrightarrow> load_events L es s = (t, Inr ()) \<Longrightarrow> log_reachable L t"
| subscribe: "log_reachable L s \<Longrightarrow> log_reachable L (subscribe f s)"
| dispose: "log_reachable L s \<Longrightarrow> log_reachable L (dispose_subscriber f s)"

lemma log_reachable_log_inv: "log_reachable L s \<Longrightarrow> log_inv L s"
proof (induction rule: log_reachable.induct)
  case (load s es t)
  then have "loadable 0 es" using load_events_ok_iff [of L es s] by simp
  then show ?case using load load_events_inv [of es s L] by (simp add: log_inv_def)
next
  case (subscribe s f)
  then show ?case by (simp add: log_inv_def subscribe_def indexes_def)
next
  case (dispose s f)
  then show ?case by (simp add: log_inv_def dispose_subscriber_def indexes_def)
qed (blast intro: log_inv_new append_event_inv append_user_message_inv reset_log_inv)+

section \<open>Properties\<close>

text \<open>
  Any history of a log, with loads that fail and with subscribers that load: the flag says that no load has failed since
  the last reset or the last load that went through. A load that fails leaves events behind and the counter at 0.
\<close>

datatype log_call = Calls log_action | Loads "event list"

fun run_call :: "pylib \<Rightarrow> int \<Rightarrow> log_call \<Rightarrow> session_log \<Rightarrow> session_log" where
  "run_call L now (Calls a) s = run_action L now a s"
| "run_call L now (Loads es) s = fst (load_events L es s)"

type_synonym log_calls = "subscriber \<Rightarrow> event \<Rightarrow> log_call list \<times> bool"

definition react_calls :: "pylib \<Rightarrow> int \<Rightarrow> log_calls \<Rightarrow> reaction" where
  "react_calls L now acts f ev s = (fold (run_call L now) (fst (acts f ev)) s, snd (acts f ev))"

definition all_loadable :: "log_calls \<Rightarrow> bool" where
  "all_loadable acts \<longleftrightarrow> (\<forall>f ev es. Loads es \<in> set (fst (acts f ev)) \<longrightarrow> loadable 0 es)"

inductive log_history :: "pylib \<Rightarrow> bool \<Rightarrow> session_log \<Rightarrow> bool" for L where
  started: "log_history L True (new_log sid start_seq)"
| appended: "log_history L b s \<Longrightarrow> append_event L (react_calls L now acts) now ty data mid s = (t, r) \<Longrightarrow>
     log_history L (b \<and> all_loadable acts) t"
| user_appended: "log_history L b s \<Longrightarrow>
     append_user_message L (react_calls L now acts) now fresh rid content metadata mid s = (t, r') \<Longrightarrow>
     log_history L (b \<and> all_loadable acts) t"
| resetted: "log_history L b s \<Longrightarrow> reset_log n s = (t, Inr ()) \<Longrightarrow> log_history L True t"
| loaded: "log_history L b s \<Longrightarrow> load_events L es s = (t, r'') \<Longrightarrow> log_history L (r'' = Inr ()) t"
| subscribed: "log_history L b s \<Longrightarrow> log_history L b (subscribe f s)"
| disposed: "log_history L b s \<Longrightarrow> log_history L b (dispose_subscriber f s)"

text \<open>What holds in all of them, and the numbering.\<close>

definition indexed :: "pylib \<Rightarrow> session_log \<Rightarrow> bool" where
  "indexed L s \<longleftrightarrow> (\<forall>e \<in> set (sl_events s). ev_type e \<in> set ALL_EVENT_TYPES) \<and> indexes s = rebuilt_indexes L (sl_events s)"

definition sound_log :: "pylib \<Rightarrow> bool \<Rightarrow> bool \<Rightarrow> session_log \<Rightarrow> bool" where
  "sound_log L b flag s \<longleftrightarrow> indexed L s \<and> sl_appending s = flag \<and> (b \<longrightarrow> contiguous (sl_events s) (sl_next_seq s))"

lemma kept_weaken: "sound_log L b flag s \<Longrightarrow> (c \<Longrightarrow> b) \<Longrightarrow> sound_log L c flag s"
  by (auto simp: sound_log_def)

lemma load_loop_partial:
  "\<exists>pre. sl_events (fst (load_loop L k es s)) = sl_events s @ pre \<and> (\<forall>e \<in> set pre. ev_type e \<in> set ALL_EVENT_TYPES) \<and>
     indexes (fst (load_loop L k es s)) = indexes (fold (reindex L) pre s) \<and>
     sl_appending (fst (load_loop L k es s)) = sl_appending s \<and> sl_next_seq (fst (load_loop L k es s)) = sl_next_seq s"
proof (induction es arbitrary: k s)
  case Nil
  show ?case by (rule exI [of _ "[]"]) simp
next
  case (Cons e es)
  show ?case
  proof (cases "ev_type e \<in> set ALL_EVENT_TYPES \<and> ev_seq e = k")
    case False
    then have "fst (load_loop L k (e # es) s) = s" by (auto simp: IGNORABLE_EVENT_TYPES_def)
    then show ?thesis by (intro exI [of _ "[]"]) simp
  next
    case True
    let ?s = "reindex L e (s\<lparr>sl_events := sl_events s @ [e]\<rparr>)"
    have step: "load_loop L k (e # es) s = load_loop L (k + 1) es ?s"
      using True by (simp add: load_loop_restored Let_def)
    obtain pre where pre: "sl_events (fst (load_loop L (k + 1) es ?s)) = sl_events ?s @ pre" "\<forall>e \<in> set pre. ev_type e \<in> set ALL_EVENT_TYPES"
      "indexes (fst (load_loop L (k + 1) es ?s)) = indexes (fold (reindex L) pre ?s)"
      "sl_appending (fst (load_loop L (k + 1) es ?s)) = sl_appending ?s" "sl_next_seq (fst (load_loop L (k + 1) es ?s)) = sl_next_seq ?s"
      using Cons.IH [of "k + 1" ?s] by blast
    have "indexes (fold (reindex L) pre ?s) = indexes (fold (reindex L) (e # pre) s)"
      by (simp, rule indexes_fold_cong, rule indexes_reindex_cong) (simp add: indexes_def)
    then show ?thesis
      using True pre unfolding step by (intro exI [of _ "e # pre"]) auto
  qed
qed

lemma load_indexed: "indexed L (fst (load_events L es s)) \<and> sl_appending (fst (load_events L es s)) = sl_appending s"
proof -
  let ?r = "load_loop L 0 es (clear_log 0 s)"
  obtain pre where pre: "sl_events (fst ?r) = pre" "\<forall>e \<in> set pre. ev_type e \<in> set ALL_EVENT_TYPES"
    "indexes (fst ?r) = indexes (fold (reindex L) pre (clear_log 0 s))" "sl_appending (fst ?r) = sl_appending s"
    using load_loop_partial [of L 0 es "clear_log 0 s"] by (auto simp: clear_log_def)
  have "indexes (fold (reindex L) pre (clear_log 0 s)) = rebuilt_indexes L pre"
    unfolding rebuilt_indexes_def by (rule indexes_fold_cong) (simp add: indexes_def clear_log_def new_log_def)
  moreover have "sl_events (fst (load_events L es s)) = sl_events (fst ?r)" "indexes (fst (load_events L es s)) = indexes (fst ?r)"
    "sl_appending (fst (load_events L es s)) = sl_appending (fst ?r)"
    by (simp_all add: load_events_def Let_def indexes_def split: sum.split)
  ultimately show ?thesis using pre by (simp add: indexed_def)
qed

lemma load_kept: "sound_log L b flag s \<Longrightarrow> sound_log L (loadable 0 es) flag (fst (load_events L es s))"
  using load_indexed [of L es s] load_events_ok(2,3) [of es L s] loadable_contiguous [of es] by (auto simp: sound_log_def)

lemma same_facts_kept: "same_facts s t \<Longrightarrow> sound_log L b flag s \<Longrightarrow> sound_log L b flag t"
  using same_facts_fields [of s t] by (simp add: sound_log_def indexed_def indexes_def)

lemma run_calls_kept:
  assumes "sound_log L b True s" and "\<And>es. Loads es \<in> set cs \<Longrightarrow> b \<Longrightarrow> loadable 0 es"
  shows "sound_log L b True (fold (run_call L now) cs s)"
  using assms
proof (induction cs arbitrary: s)
  case (Cons c cs)
  have "sound_log L b True (run_call L now c s)"
  proof (cases c)
    case (Calls a)
    then show ?thesis
      using same_facts_kept [OF run_action_same_facts Cons.prems(1)] Cons.prems(1) by (simp add: sound_log_def)
  next
    case (Loads es)
    then show ?thesis using load_kept [OF Cons.prems(1), of es] Cons.prems(2) by (auto intro: kept_weaken)
  qed
  then show ?case using Cons by simp
qed simp

lemma notify_kept:
  assumes "sound_log L b True s" and "b \<Longrightarrow> all_loadable acts"
  shows "sound_log L b True (notify_all (react_calls L now acts) ev fs s)"
  using assms(1)
proof (induction fs arbitrary: s)
  case (Cons f fs)
  have "sound_log L b True (fst (react_calls L now acts f ev s))"
    using run_calls_kept [OF Cons.prems] assms(2) by (auto simp: react_calls_def all_loadable_def)
  then show ?case using Cons.IH by simp
qed simp

lemma append_kept:
  assumes "append_event L (react_calls L now acts) now ty data mid s = (t, r)" and "sound_log L b False s"
  shows "sound_log L (b \<and> all_loadable acts) False t"
proof (cases r)
  case (Inl e)
  then show ?thesis using append_event_Inl assms by (blast intro: kept_weaken)
next
  case (Inr ev)
  note ok = append_event_Inr [OF assms(1) [unfolded Inr]]
  note checks = append_checks_Inr [OF ok(1)]
  let ?v = "s\<lparr>sl_appending := True, sl_events := sl_events s @ [ev], sl_next_seq := sl_next_seq s + 1\<rparr>"
  let ?w = "reindex L ev ?v"
  have fields: "sl_events ?w = sl_events s @ [ev]" "sl_next_seq ?w = sl_next_seq s + 1" "sl_appending ?w"
    by (simp_all add: reindex_def index_user_message_def index_turn_end_def Let_def)
  have "indexes ?w = indexes (reindex L ev s)" by (rule indexes_reindex_cong) (simp add: indexes_def)
  then have "sound_log L b True ?w"
    using assms(2) checks contiguous_snoc [of "sl_events s" "sl_next_seq s" ev] fields
    by (simp add: sound_log_def indexed_def rebuilt_indexes_snoc)
  then have "sound_log L (b \<and> all_loadable acts) True (notify (react_calls L now acts) ev ?w)"
    unfolding notify_def by (intro notify_kept) (auto intro: kept_weaken)
  then show ?thesis unfolding ok(2) commit_event_def Let_def index_eq_reindex by (simp add: sound_log_def indexed_def indexes_def)
qed

lemma user_append_kept:
  assumes "append_user_message L (react_calls L now acts) now fresh rid content metadata mid s = (t, r)" and "sound_log L b False s"
  shows "sound_log L (b \<and> all_loadable acts) False t"
proof (rule append_user_message_cases [of L "react_calls L now acts" now fresh rid content metadata mid s])
  fix data m
  assume "append_user_message L (react_calls L now acts) now fresh rid content metadata mid s =
      (fst (append_event L (react_calls L now acts) now ''user/message'' data (Some m) s),
       bind_r (snd (append_event L (react_calls L now acts) now ''user/message'' data (Some m) s)) (\<lambda>ev. Inr (Some ev)))"
  then have "append_event L (react_calls L now acts) now ''user/message'' data (Some m) s =
      (t, snd (append_event L (react_calls L now acts) now ''user/message'' data (Some m) s))"
    using assms(1) by (simp add: prod_eq_iff)
  then show ?thesis using assms(2) by (rule append_kept)
qed (use assms in \<open>auto intro: kept_weaken\<close>)

lemma log_history_kept: "log_history L b s \<Longrightarrow> sound_log L b False s"
proof (induction rule: log_history.induct)
  case (started sid start_seq)
  then show ?case using log_inv_new [of L sid start_seq] by (simp add: log_inv_def sound_log_def indexed_def)
next
  case (resetted b s n t)
  then show ?case using indexes_clear_log [of "max 0 n" s L]
    by (auto simp: reset_log_def sound_log_def indexed_def clear_log_def contiguous_def split: if_splits)
next
  case (loaded b s es t r'')
  then show ?case using load_kept [of L b False s es] load_events_ok_iff [of L es s] by (auto intro: kept_weaken)
next
  case (subscribed b s f)
  then show ?case by (simp add: sound_log_def indexed_def subscribe_def indexes_def)
next
  case (disposed b s f)
  then show ?case by (simp add: sound_log_def indexed_def dispose_subscriber_def indexes_def)
qed (blast intro: append_kept user_append_kept)+

text \<open>
  C1: in every log that is reached by appends, user messages, resets, loads (those that fail included) and subscriptions,
  whatever the subscribers call on the log while they are notified, every event has a registered type, no append is in
  progress, and the idempotence indexes are exactly those a rebuild from the events gives. The sequence numbers of the
  events run without gap up to \<open>seq\<close>, unless a load, of the owner or of a subscriber, has failed since the last reset
  or the last load of the owner that went through.
\<close>

theorem log_history_consistent:
  assumes "log_history L b s"
  shows "list_all (\<lambda>e. ev_type e \<in> set ALL_EVENT_TYPES) (sl_events s) \<and> \<not> sl_appending s \<and>
     (sl_user_requests s, sl_fingerprints s, sl_turn_outcomes s) = indexes (fold (reindex L) (sl_events s) (new_log [] 0)) \<and>
     (b \<longrightarrow> 0 \<le> log_seq s + 1 - int (length (sl_events s)) \<and>
        map ev_seq (sl_events s) = map (\<lambda>i. log_seq s + 1 - int (length (sl_events s)) + int i) [0..<length (sl_events s)])"
  using log_history_kept [OF assms]
  by (auto simp: sound_log_def indexed_def contiguous_def log_seq_def indexes_def rebuilt_indexes_def list_all_iff intro!: nth_equalityI)

definition sample_lib :: pylib where
  "sample_lib = \<lparr>lib_str = (\<lambda>_. ''?''), lib_dumps = (\<lambda>_. ''{}''),
     lib_digest = (\<lambda>j. if j = JList [JObj [(''text'', JStr ''hi'')]] then ''a'' else ''b''),
     lib_text_digest = (\<lambda>t. t), lib_int = (\<lambda>_. Inl ValueError),
     lib_dict = (\<lambda>_. Inl TypeError)\<rparr>"

definition sample_content :: "json list" where
  "sample_content = [JObj [(''text'', JStr ''hi''), (''id'', JStr ''b1'')]]"

definition sample_log :: session_log where
  "sample_log = fst (append_user_message sample_lib (react_by sample_lib 7 (\<lambda>_ _. ([], False))) 7 ''m0''
     ''r1'' sample_content [] None (new_log ''s'' 0))"

lemma sample_log_reachable: "log_reachable sample_lib sample_log"
  unfolding sample_log_def
  by (rule log_reachable.append_user [OF log_reachable.start surjective_pairing])

lemma sample_log_history: "log_history sample_lib True sample_log"
proof -
  have quiet: "react_by sample_lib 7 (\<lambda>_ _. ([], False)) = react_calls sample_lib 7 (\<lambda>_ _. ([], False))"
    by (intro ext) (simp add: react_by_def react_calls_def)
  have "log_history sample_lib (True \<and> all_loadable (\<lambda>_ _. ([], False))) sample_log"
    unfolding sample_log_def quiet by (rule log_history.user_appended [OF log_history.started surjective_pairing])
  then show ?thesis by (simp add: all_loadable_def)
qed

theorem log_history_consistent_witness:
  "map ev_seq (sl_events sample_log) = map (\<lambda>i. log_seq sample_log + 1 - int (length (sl_events sample_log)) + int i) [0..<length (sl_events sample_log)]"
  using log_history_consistent [OF sample_log_history] by blast

text \<open>After a load that fails at the second event, the next event gets the number of the first.\<close>

lemma failed_load_reuses_number:
  "map ev_seq (sl_events (fst (append_event sample_lib (react_calls sample_lib 7 (\<lambda>_ _. ([], False))) 7 ''turn/start'' [] None
     (fst (load_events sample_lib [hd (sl_events sample_log), hd (sl_events sample_log)] (new_log ''s'' 0)))))) = [0, 0]"
  by code_simp

lemma snapshot_dict_iff:
  "snapshot_json (PDict data) = Inr j \<longleftrightarrow> (\<exists>kvs. j = JObj kvs \<and> PDict data = py_of_json (JObj kvs))"
proof
  assume "snapshot_json (PDict data) = Inr j"
  then show "\<exists>kvs. j = JObj kvs \<and> PDict data = py_of_json (JObj kvs)"
    using snapshot_json_copy [of "PDict data" j]
    by (cases j) (auto simp del: snapshot_json.simps)
next
  assume "\<exists>kvs. j = JObj kvs \<and> PDict data = py_of_json (JObj kvs)"
  then show "snapshot_json (PDict data) = Inr j" by (metis snapshot_of_json)
qed

text \<open>
  an append is accepted exactly when no append is in progress, the type is registered,
  the payload is JSON-pure and, for a user message with a request id, the request is not
  already bound to a different content; a refused append leaves the log as it was.
\<close>

theorem append_event_accepts_iff:
  "((\<exists>ev. snd (append_event L react now ty data mid s) = Inr ev) =
     (\<not> sl_appending s \<and> ty \<in> set ALL_EVENT_TYPES \<and>
      (\<exists>kvs. PDict data = py_of_json (JObj kvs) \<and>
         \<not> (ty = ''user/message'' \<and> bound_to_other_content L (JObj kvs) s))))
   \<and> (\<forall>e. snd (append_event L react now ty data mid s) = Inl e \<longrightarrow>
          fst (append_event L react now ty data mid s) = s)"
proof -
  have "(\<exists>ev. snd (append_event L react now ty data mid s) = Inr ev) =
      (\<exists>ev. append_checks L now ty data mid s = Inr ev)"
    by (auto simp: append_event_def split: sum.splits)
  also have "\<dots> = (\<not> sl_appending s \<and> ty \<in> set ALL_EVENT_TYPES \<and>
      (\<exists>j. snapshot_json (PDict data) = Inr j \<and>
         \<not> (ty = ''user/message'' \<and> bound_to_other_content L j s)))"
    by (auto simp: append_checks_def result_simps check_user_request_Inr_iff
        bound_to_other_content_def simp del: snapshot_json.simps)
  finally show ?thesis
    by (auto simp: append_event_def snapshot_dict_iff simp del: snapshot_json.simps py_of_json.simps
        split: sum.splits)
qed

theorem append_event_accepts_iff_witness:
  "fst (append_event sample_lib (\<lambda>_ _ t. (t, False)) 7 ''turn/unknown'' [] None sample_log) = sample_log"
proof -
  have "append_checks sample_lib 7 ''turn/unknown'' [] None sample_log = Inl ValueError"
    by (simp add: append_checks_def ALL_EVENT_TYPES_def SURFACE_EVENT_TYPES_def)
  then have "snd (append_event sample_lib (\<lambda>_ _ t. (t, False)) 7 ''turn/unknown'' [] None sample_log) = Inl ValueError"
    by (simp add: append_event_def)
  then show ?thesis
    using append_event_accepts_iff [of sample_lib "\<lambda>_ _ t. (t, False)" 7 "''turn/unknown''" "[]" None sample_log] by blast
qed

text \<open>
  whatever the subscribers call while an event is published, the history afterwards is the
  old one plus that event, and the log accepts appends again.
\<close>

theorem publishing_cannot_reenter:
  assumes "append_event L (react_by L now acts) now ty data mid s = (t, Inr ev)"
  shows "sl_events t = sl_events s @ [ev] \<and> sl_next_seq t = sl_next_seq s + 1 \<and>
     ev_seq ev = sl_next_seq s \<and> \<not> sl_appending t \<and>
     append_event L react now ty' data' mid' (s\<lparr>sl_appending := True\<rparr>)
       = (s\<lparr>sl_appending := True\<rparr>, Inl ValueError)"
  using append_event_Inr [OF assms] append_checks_Inr
  by (simp add: commit_event_facts append_event_reentrant)

text \<open>A subscriber that answers every event with an append of its own and an unsubscription.\<close>

definition noisy :: "subscriber \<Rightarrow> event \<Rightarrow> log_action list \<times> bool" where
  "noisy f ev = ([ActAppend ''turn/start'' [] None, ActReset 0, ActDispose f], True)"

lemma noisy_append:
  "append_event sample_lib (react_by sample_lib 5 noisy) 5 ''turn/start'' [] None
     (subscribe 3 (new_log ''s'' 4)) =
   ((new_log ''s'' 5)\<lparr>sl_events := [\<lparr>ev_type = ''turn/start'', ev_seq = 4, ev_time = 5,
       ev_message_id = None, ev_data = JObj []\<rparr>]\<rparr>,
    Inr \<lparr>ev_type = ''turn/start'', ev_seq = 4, ev_time = 5, ev_message_id = None, ev_data = JObj []\<rparr>)"
  by (simp add: append_event_def append_checks_def commit_event_def notify_def subscribe_def
      new_log_def ALL_EVENT_TYPES_def SURFACE_EVENT_TYPES_def index_user_message_def
      index_turn_end_def react_by_def noisy_def reset_log_def dispose_subscriber_def)

theorem publishing_cannot_reenter_witness:
  "sl_events (fst (append_event sample_lib (react_by sample_lib 5 noisy) 5 ''turn/start'' [] None
     (subscribe 3 (new_log ''s'' 4)))) =
   [\<lparr>ev_type = ''turn/start'', ev_seq = 4, ev_time = 5, ev_message_id = None, ev_data = JObj []\<rparr>]"
  using publishing_cannot_reenter [OF noisy_append] noisy_append
  by (simp add: subscribe_def new_log_def)

section \<open>Idempotent user messages\<close>

lemma map_r_map_py [simp]: "map_r snapshot_json (map py_of_json js) = Inr js"
  by (induction js) auto

definition request_bound :: "string \<Rightarrow> string \<Rightarrow> session_log \<Rightarrow> bool" where
  "request_bound rid fp s \<longleftrightarrow> rid \<in> dom (sl_user_requests s) \<and> sl_fingerprints s rid = Some fp"

lemma request_bound_cong: "indexes s = indexes t \<Longrightarrow> request_bound rid fp s = request_bound rid fp t"
  by (simp add: indexes_def request_bound_def)

lemma request_bound_reindex:
  assumes "request_bound rid fp s"
    and "ev_type ev = ''user/message'' \<longrightarrow> payload_request_id L (ev_data ev) = rid \<longrightarrow>
      request_fingerprint L (payload_content (ev_data ev)) = fp"
  shows "request_bound rid fp (reindex L ev s)"
  using assms
  by (auto simp: request_bound_def reindex_def index_user_message_def index_turn_end_def Let_def)

text \<open>An append keeps every binding: the check refuses a different content.\<close>

lemma append_event_keeps_binding:
  assumes "append_event L (react_by L now acts) now ty data mid s = (t, r)"
    and "request_bound rid fp s" and "rid \<noteq> []"
  shows "request_bound rid fp t"
proof (cases r)
  case (Inl e)
  then show ?thesis using append_event_Inl assms by blast
next
  case (Inr ev)
  note ok = append_event_Inr [OF assms(1) [unfolded Inr]]
  have "request_bound rid fp (reindex L ev s)"
    using append_checks_Inr(3,8) [OF ok(1)] assms(2,3)
    by (intro request_bound_reindex) (auto simp: bound_to_other_content_def request_bound_def)
  then show ?thesis by (simp add: ok(2) request_bound_cong [OF commit_event_facts(5)])
qed

lemma append_calls_keep_binding:
  "request_bound rid fp s \<Longrightarrow> rid \<noteq> [] \<Longrightarrow>
   request_bound rid fp (fold (\<lambda>c s. fst (append_call L acts c s)) cs s)"
proof (induction cs arbitrary: s)
  case (Cons c cs)
  have "request_bound rid fp (fst (append_call L acts c s))"
    using Cons.prems
    by (cases c) (auto simp: append_call_def intro: append_event_keeps_binding [OF surjective_pairing])
  then show ?case using Cons by simp
qed simp

lemma append_user_message_new:
  assumes "\<not> (rid \<noteq> [] \<and> rid \<in> dom (sl_user_requests s))"
  obtains m where "append_user_message L react now fresh rid content metadata mid s =
     (let r = append_event L react now ''user/message''
        [(PStr ''content'', PList (map py_of_json content)), (PStr ''metadata'', PDict metadata),
         (PStr ''request_id'', PStr rid)] (Some m) s
      in (fst r, bind_r (snd r) (\<lambda>ev. Inr (Some ev))))"
  using assms by (metis append_user_message_def)

lemma append_user_message_binds:
  assumes "append_user_message L (react_by L now acts) now fresh rid content metadata mid s = (t, Inr (Some ev))"
    and "rid \<noteq> []"
  shows "request_bound rid (request_fingerprint L (JList content)) t"
proof -
  have new: "\<not> (rid \<noteq> [] \<and> rid \<in> dom (sl_user_requests s))"
    using assms(1) by (auto simp: append_user_message_def split: if_splits option.splits)
  define data where "data = [(PStr ''content'', PList (map py_of_json content)),
       (PStr ''metadata'', PDict metadata), (PStr ''request_id'', PStr rid)]"
  obtain m where add: "append_event L (react_by L now acts) now ''user/message'' data (Some m) s = (t, Inr ev)"
  proof (rule append_user_message_new [OF new, of L "react_by L now acts" now fresh content metadata mid])
    fix m
    assume that': "\<And>m. append_event L (react_by L now acts) now ''user/message'' data (Some m) s = (t, Inr ev) \<Longrightarrow> thesis"
      and eq: "append_user_message L (react_by L now acts) now fresh rid content metadata mid s =
        (let r = append_event L (react_by L now acts) now ''user/message''
          [(PStr ''content'', PList (map py_of_json content)), (PStr ''metadata'', PDict metadata),
           (PStr ''request_id'', PStr rid)] (Some m) s
         in (fst r, bind_r (snd r) (\<lambda>ev. Inr (Some ev))))"
    obtain t' r where ap: "append_event L (react_by L now acts) now ''user/message'' data (Some m) s = (t', r)"
      by fastforce
    have "t' = t" and "bind_r r (\<lambda>ev. Inr (Some ev)) = Inr (Some ev)"
      using eq assms(1) ap by (simp_all add: Let_def data_def)
    then have "r = Inr ev" by (cases r) auto
    then show thesis using ap \<open>t' = t\<close> that' by simp
  qed
  note ok = append_event_Inr [OF add]
  have "snapshot_json (PDict data) = Inr (ev_data ev)" and "ev_type ev = ''user/message''"
    using append_checks_Inr [OF ok(1)] by simp_all
  then obtain md where
      md: "JObj [(''content'', JList content), (''metadata'', md), (''request_id'', JStr rid)] = ev_data ev"
    by (auto simp: data_def result_simps)
  from md [symmetric] have "payload_request_id L (ev_data ev) = rid" and "payload_content (ev_data ev) = JList content"
    by (simp_all add: payload_request_id_def payload_content_def jget_def)
  then have "request_bound rid (request_fingerprint L (JList content)) (reindex L ev s)"
    using assms(2) \<open>ev_type ev = ''user/message''\<close>
    by (simp add: request_bound_def reindex_def index_user_message_def)
  then show ?thesis by (simp add: ok(2) request_bound_cong [OF commit_event_facts(5)])
qed

lemma append_user_message_bound:
  assumes "request_bound rid fp s" and "rid \<noteq> []"
  shows "append_user_message L react now fresh rid content metadata mid s =
     (s, if fp = request_fingerprint L (JList content) then Inr None else Inl ValueError)"
  using assms by (auto simp: append_user_message_def request_bound_def)

text \<open>
  C2: a user message is committed once per request: after it is in the log, and after any
  further appends, offering the same request again changes nothing; a content that differs
  only in block ids is answered with \<open>None\<close>, one with another fingerprint with a raise.
\<close>

theorem user_message_idempotent:
  assumes "append_user_message L (react_by L now acts) now fresh rid content metadata mid s = (t, Inr (Some ev))"
    and "rid \<noteq> []"
    and "u = fold (\<lambda>c s. fst (append_call L acts c s)) later t"
  shows "fst (append_user_message L react now' fresh' rid content' metadata' mid' u) = u \<and>
    (strip_ids (JList content') = strip_ids (JList content) \<longrightarrow>
      snd (append_user_message L react now' fresh' rid content' metadata' mid' u) = Inr None) \<and>
    (request_fingerprint L (JList content') \<noteq> request_fingerprint L (JList content) \<longrightarrow>
      snd (append_user_message L react now' fresh' rid content' metadata' mid' u) = Inl ValueError)"
proof -
  have "request_bound rid (request_fingerprint L (JList content)) u"
    unfolding assms(3)
    by (rule append_calls_keep_binding [OF append_user_message_binds [OF assms(1,2)] assms(2)])
  note result = append_user_message_bound [OF this assms(2)]
  have "strip_ids (JList content') = strip_ids (JList content) \<Longrightarrow>
      request_fingerprint L (JList content) = request_fingerprint L (JList content')"
    by (rule request_fingerprint_cong) simp
  then show ?thesis by (auto simp: result)
qed

lemma sample_log_append:
  "\<exists>ev. append_user_message sample_lib (react_by sample_lib 7 (\<lambda>_ _. ([], False))) 7 ''m0''
     ''r1'' sample_content [] None (new_log ''s'' 0) = (sample_log, Inr (Some ev))"
  by (simp add: sample_log_def append_user_message_def append_event_def append_checks_def new_log_def
      ALL_EVENT_TYPES_def SURFACE_EVENT_TYPES_def sample_content_def payload_request_id_def jget_def
      check_user_request_def Let_def)

theorem user_message_idempotent_witness:
  "append_user_message sample_lib (react_by sample_lib 8 (\<lambda>_ _. ([], False))) 8 ''m1'' ''r1''
     [JObj [(''text'', JStr ''hi''), (''id'', JStr ''b2'')]] [] None sample_log = (sample_log, Inr None) \<and>
   append_user_message sample_lib (react_by sample_lib 8 (\<lambda>_ _. ([], False))) 8 ''m1'' ''r1''
     [JObj [(''text'', JStr ''bye''), (''id'', JStr ''b2'')]] [] None sample_log = (sample_log, Inl ValueError)"
proof -
  obtain ev where ev: "append_user_message sample_lib (react_by sample_lib 7 (\<lambda>_ _. ([], False))) 7 ''m0''
     ''r1'' sample_content [] None (new_log ''s'' 0) = (sample_log, Inr (Some ev))"
    using sample_log_append by blast
  have r1: "''r1'' \<noteq> []" and same: "sample_log = fold (\<lambda>c s. fst (append_call sample_lib (\<lambda>_ _. ([], False)) c s)) [] sample_log"
    by simp_all
  let ?app = "\<lambda>c. append_user_message sample_lib (react_by sample_lib 8 (\<lambda>_ _. ([], False))) 8 ''m1'' ''r1''
     c [] None sample_log"
  let ?c = "[JObj [(''text'', JStr ''hi''), (''id'', JStr ''b2'')]]"
  let ?d = "[JObj [(''text'', JStr ''bye''), (''id'', JStr ''b2'')]]"
  note idem = user_message_idempotent [OF ev r1 same]
  have "strip_ids (JList ?c) = strip_ids (JList sample_content)"
    by (simp add: sample_content_def)
  then have 1: "snd (?app ?c) = Inr None" using idem by blast
  have "request_fingerprint sample_lib (JList ?d) \<noteq> request_fingerprint sample_lib (JList sample_content)"
    by (simp add: sample_content_def request_fingerprint_def sample_lib_def)
  then have 2: "snd (?app ?d) = Inl ValueError" using idem by blast
  have "fst (?app c) = sample_log" for c using idem by blast
  then show ?thesis using 1 2 by (simp add: prod_eq_iff)
qed

text \<open>
  loading a stored sequence of events succeeds exactly when every type is registered and
  the sequence numbers are 0, 1, 2, \<dots>; it then yields a consistent log.
\<close>

theorem load_events_accepts_iff:
  "(snd (load_events L es s) = Inr () \<longleftrightarrow>
     (\<forall>i < length es. ev_type (es ! i) \<in> set ALL_EVENT_TYPES \<and> ev_seq (es ! i) = int i)) \<and>
   (snd (load_events L es s) = Inr () \<and> \<not> sl_appending s \<longrightarrow>
     log_inv L (fst (load_events L es s)) \<and> sl_events (fst (load_events L es s)) = es \<and>
     log_seq (fst (load_events L es s)) = int (length es) - 1)"
proof -
  have "loadable 0 es \<longleftrightarrow>
      (\<forall>i < length es. ev_type (es ! i) \<in> set ALL_EVENT_TYPES \<and> ev_seq (es ! i) = int i)"
    by (simp add: loadable_def)
  then show ?thesis
    using load_events_ok_iff [of L es s] load_events_inv [of es s L] load_events_ok [of es L s]
    by (auto simp: log_seq_def)
qed

theorem load_events_accepts_iff_witness:
  "log_inv sample_lib (fst (load_events sample_lib
     [\<lparr>ev_type = ''turn/end'', ev_seq = 0, ev_time = 1, ev_message_id = None,
       ev_data = JObj [(''request_id'', JStr ''r''), (''outcome'', JStr ''error'')]\<rparr>] (new_log ''s'' 9)))"
  using load_events_accepts_iff [of sample_lib
     "[\<lparr>ev_type = ''turn/end'', ev_seq = 0, ev_time = 1, ev_message_id = None,
       ev_data = JObj [(''request_id'', JStr ''r''), (''outcome'', JStr ''error'')]\<rparr>]" "new_log ''s'' 9"]
  by (simp add: ALL_EVENT_TYPES_def SURFACE_EVENT_TYPES_def new_log_def)

text \<open>
  a restart loses nothing: loading the events of a reachable log that started at 0 into
  any idle log gives back its events, its water mark and its idempotence indexes, so the
  duplicates it refused are still refused and \<open>request_state\<close> answers as before.
\<close>

theorem restart_restores_log:
  assumes "log_reachable L s" and "sl_next_seq s = int (length (sl_events s))" and "\<not> sl_appending u"
  shows "\<exists>t. load_events L (sl_events s) u = (t, Inr ()) \<and>
     sl_events t = sl_events s \<and> log_seq t = log_seq s \<and>
     sl_user_requests t = sl_user_requests s \<and> sl_fingerprints t = sl_fingerprints s \<and>
     (\<forall>rid. request_state t rid = request_state s rid)"
proof -
  have inv: "log_inv L s" by (rule log_reachable_log_inv [OF assms(1)])
  then have "loadable 0 (sl_events s)"
    using assms(2) by (auto simp: log_inv_def contiguous_def loadable_def)
  note ok = load_events_ok [OF this, of L u]
  let ?t = "fst (load_events L (sl_events s) u)"
  have "indexes ?t = indexes s" using ok(4) inv by (simp add: log_inv_def)
  then show ?thesis
    using ok(1,2,3) assms(1,2)
    by (intro exI [of _ ?t]) (auto simp: prod_eq_iff indexes_def log_seq_def request_state_def)
qed

lemma append_user_message_facts:
  assumes "append_user_message L (react_by L now acts) now fresh rid content metadata mid s = (t, Inr (Some ev))"
  shows "sl_events t = sl_events s @ [ev]" "sl_next_seq t = sl_next_seq s + 1"
proof -
  obtain data m where "append_event L (react_by L now acts) now ''user/message'' data (Some m) s = (t, Inr ev)"
  proof (rule append_user_message_cases [of L "react_by L now acts" now fresh rid content metadata mid s])
    fix data m
    assume that': "\<And>data m. append_event L (react_by L now acts) now ''user/message'' data (Some m) s = (t, Inr ev) \<Longrightarrow> thesis"
      and eq: "append_user_message L (react_by L now acts) now fresh rid content metadata mid s =
      (fst (append_event L (react_by L now acts) now ''user/message'' data (Some m) s),
       bind_r (snd (append_event L (react_by L now acts) now ''user/message'' data (Some m) s))
         (\<lambda>ev. Inr (Some ev)))"
    obtain t' r where ap: "append_event L (react_by L now acts) now ''user/message'' data (Some m) s = (t', r)"
      by fastforce
    have "t' = t" and "bind_r r (\<lambda>ev. Inr (Some ev)) = Inr (Some ev)"
      using eq assms ap by simp_all
    then have "r = Inr ev" by (cases r) auto
    then show thesis using ap \<open>t' = t\<close> that' by simp
  qed (use assms in simp_all)
  from append_event_Inr(2) [OF this] show "sl_events t = sl_events s @ [ev]" "sl_next_seq t = sl_next_seq s + 1"
    by (simp_all add: commit_event_facts)
qed

lemma sample_log_next_seq: "sl_next_seq sample_log = int (length (sl_events sample_log))"
proof -
  obtain ev where ev: "append_user_message sample_lib (react_by sample_lib 7 (\<lambda>_ _. ([], False))) 7 ''m0''
     ''r1'' sample_content [] None (new_log ''s'' 0) = (sample_log, Inr (Some ev))"
    using sample_log_append by blast
  then show ?thesis by (simp add: append_user_message_facts [OF ev] new_log_def)
qed

theorem restart_restores_log_witness:
  "\<exists>t. load_events sample_lib (sl_events sample_log) (new_log ''s'' 3) = (t, Inr ()) \<and>
     sl_user_requests t = sl_user_requests sample_log"
  using restart_restores_log [OF sample_log_reachable sample_log_next_seq, of "new_log ''s'' 3"]
  by (auto simp: new_log_def)

text \<open>
  a page of the log holds the events after \<open>after_seq\<close>, oldest first and at most
  \<open>max 1 limit\<close> of them, and \<open>has_more\<close> is set exactly when some are left over.
\<close>

theorem tail_is_page:
  assumes "log_reachable L s"
  shows "tail s after limit =
     (take (nat (max 1 limit)) (filter (\<lambda>e. after < ev_seq e) (sl_events s)),
      nat (max 1 limit) < length (filter (\<lambda>e. after < ev_seq e) (sl_events s)))"
proof (cases "sl_events s")
  case Nil
  then show ?thesis by (simp add: tail_def)
next
  case (Cons e es)
  have "contiguous (sl_events s) (sl_next_seq s)"
    using log_reachable_log_inv [OF assms] by (simp add: log_inv_def)
  note after = contiguous_after [OF this, of after]
  define k m where "k = nat (max 0 (after - ev_seq e + 1))" and "m = nat (max 1 limit)"
  have "max 0 (after - ev_seq e + 1) = int k" by (simp add: k_def)
  moreover have "filter (\<lambda>e. after < ev_seq e) (e # es) = drop k (e # es)"
    using after by (simp add: Cons k_def)
  moreover have "int k + int (length (take m (drop k (e # es)))) < int (length (e # es)) \<longleftrightarrow>
      m < length (drop k (e # es))"
    by (simp add: min_def) arith
  ultimately show ?thesis by (simp only: tail_def Cons list.case Let_def m_def nat_int)
qed

theorem tail_is_page_witness: "snd (tail sample_log (-5) 0) = False"
proof -
  obtain ev where ev: "append_user_message sample_lib (react_by sample_lib 7 (\<lambda>_ _. ([], False))) 7 ''m0''
     ''r1'' sample_content [] None (new_log ''s'' 0) = (sample_log, Inr (Some ev))"
    using sample_log_append by blast
  have "length (sl_events sample_log) = 1" by (simp add: append_user_message_facts [OF ev] new_log_def)
  then have "length (filter (\<lambda>e. -5 < ev_seq e) (sl_events sample_log)) \<le> 1"
    by (metis length_filter_le)
  then show ?thesis by (simp add: tail_is_page [OF sample_log_reachable])
qed

end
