(* ===== verification/Message.thy ===== *)
theory Message
  imports Json
begin

text \<open>
  Messages and their content blocks
  (\<open>packages/ftre-agent/src/ftre_agent/message/_block.py\<close>, \<open>_msg.py\<close>): the seven block
  classes, \<open>Msg\<close> with its two validators, the content accessors and the factories, and the
  time stamps the read side derives from event times.

  Pydantic's own field validation is a parameter (\<open>pydantic\<close>): a function from a JSON
  payload to the object or a raise. The validators the classes add to it are modelled.
\<close>

section \<open>Time stamps\<close>

text \<open>
  \<open>datetime.fromtimestamp(ms / 1000, tz=UTC).isoformat()\<close>: the civil date of the day
  number, with six fraction digits unless the milliseconds are zero. Event times are clock
  readings, far inside the years 1 to 9999 that \<open>datetime\<close> accepts.
\<close>

definition year_of_era :: "int \<Rightarrow> int" where
  "year_of_era doe = (doe - doe div 1460 + doe div 36524 - doe div 146096) div 365"

definition day_of_year :: "int \<Rightarrow> int \<Rightarrow> int" where
  "day_of_year doe yoe = doe - (365 * yoe + yoe div 4 - yoe div 100)"

definition civil_of_month :: "int \<Rightarrow> int \<Rightarrow> int \<Rightarrow> int \<times> int \<times> int" where
  "civil_of_month year doy mp =
     ((if mp < 10 then year else year + 1), (if mp < 10 then mp + 3 else mp - 9),
      doy - (153 * mp + 2) div 5 + 1)"

definition civil_of_doy :: "int \<Rightarrow> int \<Rightarrow> int \<times> int \<times> int" where
  "civil_of_doy year doy = civil_of_month year doy ((5 * doy + 2) div 153)"

definition civil_of_doe :: "int \<Rightarrow> int \<Rightarrow> int \<times> int \<times> int" where
  "civil_of_doe era doe =
     civil_of_doy (year_of_era doe + era * 400) (day_of_year doe (year_of_era doe))"

definition civil_from_days :: "int \<Rightarrow> int \<times> int \<times> int" where
  "civil_from_days days = civil_of_doe ((days + 719468) div 146097) ((days + 719468) mod 146097)"

definition pad_str :: "nat \<Rightarrow> string \<Rightarrow> string" where
  "pad_str w s = replicate (w - length s) (CHR ''0'') @ s"

definition pad_int :: "nat \<Rightarrow> int \<Rightarrow> string" where
  "pad_int w i = pad_str w (str_of_int i)"

definition iso_date :: "int \<times> int \<times> int \<Rightarrow> string" where
  "iso_date c = pad_int 4 (fst c) @ ''-'' @ pad_int 2 (fst (snd c)) @ ''-'' @ pad_int 2 (snd (snd c))"

definition iso_time :: "int \<Rightarrow> string" where
  "iso_time secs = pad_int 2 (secs div 3600) @ '':'' @ pad_int 2 (secs mod 3600 div 60) @ '':'' @
     pad_int 2 (secs mod 60)"

definition iso_from_ms :: "int \<Rightarrow> string" where
  "iso_from_ms ms =
     iso_date (civil_from_days (ms div 86400000)) @ ''T'' @ iso_time (ms mod 86400000 div 1000) @
     (if ms mod 1000 = 0 then [] else ''.'' @ pad_int 6 (ms mod 1000 * 1000)) @ ''+00:00''"

lemmas iso_defs = iso_from_ms_def iso_date_def iso_time_def pad_int_def pad_str_def
  civil_from_days_def civil_of_doe_def civil_of_doy_def civil_of_month_def day_of_year_def
  year_of_era_def str_of_int_def digit_char_def

lemma iso_from_ms_example: "iso_from_ms 1752000000500 = ''2025-07-08T18:40:00.500000+00:00''"
  by (simp add: iso_defs pos_digits.simps)

section \<open>Blocks\<close>

datatype tool_call_state = PENDING | ASKING | ALLOWED | SUBMITTED | FINISHED

datatype tool_result_state = SUCCESS | ERROR | INTERRUPTED | DENIED | RUNNING

datatype source = Base64Source string string | URLSource string string

record text_block =
  tb_text :: string
  tb_id :: string
  tb_created_at :: string
  tb_finished_at :: "string option"

record thinking_block =
  thb_thinking :: string
  thb_id :: string
  thb_created_at :: string
  thb_finished_at :: "string option"

record data_block =
  db_source :: source
  db_name :: "string option"
  db_id :: string
  db_created_at :: string
  db_finished_at :: "string option"

datatype hint = HintText string | HintParts "json list"

record hint_block =
  hb_hint :: hint
  hb_source :: "string option"
  hb_id :: string
  hb_created_at :: string
  hb_finished_at :: "string option"

record tool_call_block =
  tcb_id :: string
  tcb_name :: string
  tcb_arguments :: jdict
  tcb_state :: tool_call_state
  tcb_created_at :: string
  tcb_finished_at :: "string option"

text \<open>An element of a tool output: a typed block, or a raw JSON part of another type.\<close>

datatype out_part = OutText text_block | OutData data_block | OutRaw json

datatype tool_output = OutputText string | OutputParts "out_part list"

record tool_result_block =
  trb_id :: string
  trb_name :: string
  trb_output :: tool_output
  trb_state :: tool_result_state
  trb_metadata :: jdict
  trb_created_at :: string
  trb_finished_at :: "string option"

record extension_block =
  eb_original_type :: string
  eb_data :: jdict
  eb_id :: string
  eb_created_at :: string
  eb_finished_at :: "string option"

datatype content_block =
    TextB text_block
  | ThinkingB thinking_block
  | DataB data_block
  | HintB hint_block
  | ToolCallB tool_call_block
  | ToolResultB tool_result_block
  | ExtensionB extension_block

definition ContentBlockTypes :: "string list" where
  "ContentBlockTypes = [''text'', ''thinking'', ''data'', ''hint'', ''tool_call'', ''tool_result'', ''extension'']"

fun block_type :: "content_block \<Rightarrow> string" where
  "block_type (TextB b) = ''text''"
| "block_type (ThinkingB b) = ''thinking''"
| "block_type (DataB b) = ''data''"
| "block_type (HintB b) = ''hint''"
| "block_type (ToolCallB b) = ''tool_call''"
| "block_type (ToolResultB b) = ''tool_result''"
| "block_type (ExtensionB b) = ''extension''"

fun block_id :: "content_block \<Rightarrow> string" where
  "block_id (TextB b) = tb_id b"
| "block_id (ThinkingB b) = thb_id b"
| "block_id (DataB b) = db_id b"
| "block_id (HintB b) = hb_id b"
| "block_id (ToolCallB b) = tcb_id b"
| "block_id (ToolResultB b) = trb_id b"
| "block_id (ExtensionB b) = eb_id b"

section \<open>Messages\<close>

record token_usage =
  prompt_tokens :: int
  completion_tokens :: int
  total_tokens :: int

record msg_token =
  mt_usage :: token_usage
  mt_last_call_usage :: token_usage

datatype msg_name = DEFAULT | COMPACT | COMPACT_FAST

datatype role = RoleUser | RoleAssistant | RoleSystem

record msg =
  msg_name :: msg_name
  msg_content :: "content_block list"
  msg_role :: role
  msg_id :: string
  msg_metadata :: jdict
  msg_created_at :: string
  msg_seq :: int
  msg_token :: "msg_token option"
  msg_finished_at :: "string option"
  msg_finished_reason :: "string option"
  msg_structured_output :: "jdict option"
  msg_error :: "jdict option"

subsection \<open>Validators\<close>

text \<open>
  \<open>_preserve_unknown_blocks\<close>: an element of the raw content whose type is not one of the
  block types is wrapped into an extension block that keeps the original. \<open>now\<close> is the
  default creation time.
\<close>

definition preserve_block :: "pylib \<Rightarrow> string \<Rightarrow> json \<Rightarrow> json" where
  "preserve_block L now raw =
     (case raw of
        JObj kvs \<Rightarrow>
          let raw_type = jget ''type'' raw in
          if (\<exists>t \<in> set ContentBlockTypes. raw_type = Some (JStr t)) then raw
          else
            let block_id = str_or_default L (jget ''id'' raw)
                  (''extension_'' @ take 16 (lib_text_digest L (lib_dumps L raw)))
            in JObj
              [(''type'', JStr ''extension''),
               (''original_type'', JStr (str_or_default L raw_type ''unknown'')),
               (''data'', raw),
               (''id'', JStr block_id),
               (''created_at'', JStr (str_or_default L (jget ''created_at'' raw) now)),
               (''finished_at'', (case jget ''finished_at'' raw of None \<Rightarrow> JNull | Some v \<Rightarrow> v))]
      | _ \<Rightarrow> raw)"

definition preserve_unknown_blocks :: "pylib \<Rightarrow> string \<Rightarrow> json \<Rightarrow> json" where
  "preserve_unknown_blocks L now v =
     (case v of JList xs \<Rightarrow> JList (map (preserve_block L now) xs) | _ \<Rightarrow> v)"

text \<open>\<open>_validate_role_content\<close>: what each role may carry.\<close>

definition role_allows :: "role \<Rightarrow> content_block \<Rightarrow> bool" where
  "role_allows r b =
     (case r of
        RoleUser \<Rightarrow> block_type b \<in> {''text'', ''data'', ''extension''}
      | RoleSystem \<Rightarrow> block_type b \<in> {''text'', ''extension''}
      | RoleAssistant \<Rightarrow> True)"

definition validate_role_content :: "msg \<Rightarrow> msg result" where
  "validate_role_content m =
     (if \<not> list_all (role_allows (msg_role m)) (msg_content m) then Inl ValueError
      else if msg_token m \<noteq> None \<and> msg_role m \<noteq> RoleAssistant then Inl ValueError
      else Inr m)"

record pydantic =
  pv_msg :: "json \<Rightarrow> msg result"
  pv_text :: "json \<Rightarrow> text_block result"
  pv_data :: "json \<Rightarrow> data_block result"

text \<open>\<open>Msg.model_validate(payload)\<close>.\<close>

definition preserve_payload :: "pylib \<Rightarrow> string \<Rightarrow> jdict \<Rightarrow> json" where
  "preserve_payload L now payload =
     (case dict_get payload ''content'' of
        None \<Rightarrow> JObj payload
      | Some v \<Rightarrow> JObj (dict_set ''content'' (preserve_unknown_blocks L now v) payload))"

definition msg_model_validate :: "pylib \<Rightarrow> pydantic \<Rightarrow> string \<Rightarrow> jdict \<Rightarrow> msg result" where
  "msg_model_validate L P now payload =
     bind_r (pv_msg P (preserve_payload L now payload)) validate_role_content"

subsection \<open>Accessors\<close>

text \<open>\<open>_find_block(block_type, block_id)\<close>.\<close>

definition block_is :: "string \<Rightarrow> string \<Rightarrow> content_block \<Rightarrow> bool" where
  "block_is ty i b \<longleftrightarrow> block_type b = ty \<and> block_id b = i"

definition find_block :: "msg \<Rightarrow> string \<Rightarrow> string \<Rightarrow> content_block option" where
  "find_block m ty i = find_first (block_is ty i) (msg_content m)"

definition has_content_blocks :: "msg \<Rightarrow> string list option \<Rightarrow> bool" where
  "has_content_blocks m types =
     (case types of None \<Rightarrow> msg_content m \<noteq> []
      | Some tys \<Rightarrow> list_ex (\<lambda>b. block_type b \<in> set tys) (msg_content m))"

definition get_content_blocks :: "msg \<Rightarrow> string list option \<Rightarrow> content_block list" where
  "get_content_blocks m types =
     (case types of None \<Rightarrow> msg_content m
      | Some tys \<Rightarrow> filter (\<lambda>b. block_type b \<in> set tys) (msg_content m))"

fun join_with :: "string \<Rightarrow> string list \<Rightarrow> string" where
  "join_with sep [] = []"
| "join_with sep [x] = x"
| "join_with sep (x # y # ys) = x @ sep @ join_with sep (y # ys)"

definition texts_of :: "content_block list \<Rightarrow> string list" where
  "texts_of bs = concat (map (\<lambda>b. case b of TextB t \<Rightarrow> [tb_text t] | _ \<Rightarrow> []) bs)"

definition get_text_content :: "string \<Rightarrow> msg \<Rightarrow> string option" where
  "get_text_content sep m =
     (let gathered = texts_of (msg_content m)
      in if gathered \<noteq> [] then Some (join_with sep gathered) else None)"

subsection \<open>Factories\<close>

text \<open>
  The fields a factory leaves out take their defaults: sequence number \<open>-1\<close>, no token, no
  finish. The constructor runs the role check.
\<close>

definition base_msg :: "role \<Rightarrow> msg_name \<Rightarrow> content_block list \<Rightarrow> string \<Rightarrow> string \<Rightarrow> msg" where
  "base_msg r n content i created =
     \<lparr>msg_name = n, msg_content = content, msg_role = r, msg_id = i, msg_metadata = [],
      msg_created_at = created, msg_seq = - 1, msg_token = None, msg_finished_at = None,
      msg_finished_reason = None, msg_structured_output = None, msg_error = None\<rparr>"

lemma base_msg_simps [simp]:
  "msg_name (base_msg r n c i t) = n" "msg_content (base_msg r n c i t) = c"
  "msg_role (base_msg r n c i t) = r" "msg_id (base_msg r n c i t) = i"
  "msg_seq (base_msg r n c i t) = - 1" "msg_token (base_msg r n c i t) = None"
  "msg_finished_at (base_msg r n c i t) = None"
  by (simp_all add: base_msg_def)

text \<open>\<open>_to_blocks\<close> of a string; \<open>gen\<close> and \<open>now\<close> are the block's default id and time.\<close>

definition to_blocks :: "string \<Rightarrow> string \<Rightarrow> string \<Rightarrow> content_block list" where
  "to_blocks gen now content =
     (if content = [] then []
      else [TextB \<lparr>tb_text = content, tb_id = gen, tb_created_at = now, tb_finished_at = None\<rparr>])"

section \<open>Facts\<close>

lemma block_is_type: "block_is ty i b \<Longrightarrow> block_type b = ty"
  by (simp add: block_is_def)

lemma block_is_text [simp]: "block_is ''text'' i b \<longleftrightarrow> (\<exists>t. b = TextB t \<and> tb_id t = i)"
  by (cases b) (auto simp: block_is_def)

lemma block_is_thinking [simp]: "block_is ''thinking'' i b \<longleftrightarrow> (\<exists>t. b = ThinkingB t \<and> thb_id t = i)"
  by (cases b) (auto simp: block_is_def)

lemma block_is_tool_call [simp]: "block_is ''tool_call'' i b \<longleftrightarrow> (\<exists>t. b = ToolCallB t \<and> tcb_id t = i)"
  by (cases b) (auto simp: block_is_def)

lemma block_is_tool_result [simp]: "block_is ''tool_result'' i b \<longleftrightarrow> (\<exists>t. b = ToolResultB t \<and> trb_id t = i)"
  by (cases b) (auto simp: block_is_def)

lemma validate_role_content_Inr_iff:
  "validate_role_content m = Inr m' \<longleftrightarrow> m' = m \<and> list_all (role_allows (msg_role m)) (msg_content m) \<and>
     (msg_token m = None \<or> msg_role m = RoleAssistant)"
  by (auto simp: validate_role_content_def)

lemma preserve_block_known [simp]:
  "jget ''type'' (preserve_block L now raw) = Some (JStr t) \<Longrightarrow> is_obj raw \<Longrightarrow>
     t \<in> set ContentBlockTypes"
  by (auto simp: preserve_block_def is_obj_def jget_def ContentBlockTypes_def Let_def
      split: json.splits if_splits)

end
