(* ===== verification/Events.thy ===== *)
theory Events
  imports SessionLog Message
begin

text \<open>
  The payload table of the wire protocol
  (\<open>packages/ftre-agent/src/ftre_agent/session/events.py\<close>): one record per payload class,
  the thirteen event kinds, and the envelope. Fields the classes declare as \<open>Any\<close>, and the
  open user parts, stay JSON values.
\<close>

record user_message_data =
  um_content :: json
  um_metadata :: jdict
  um_request_id :: string

record tool_result_data =
  tr_tool_call_id :: string
  tr_name :: string
  tr_output :: "json list"
  tr_state :: string
  tr_metadata :: jdict

record hint_data =
  hd_hint :: hint
  hd_source :: "string option"

record compact_data =
  cd_mode :: string
  cd_summary_text :: string
  cd_through_message_id :: string
  cd_trigger :: string
  cd_tokens_before :: int
  cd_tokens_after :: int
  cd_tool_results :: int
  cd_tool_result_ids :: "string list"

record assistant_chunk_data =
  ac_kind :: string
  ac_delta :: string
  ac_block_id :: "string option"
  ac_tool_call_id :: "string option"

record tool_call_start_data =
  tcs_tool_call_id :: string
  tcs_name :: string
  tcs_arguments :: jdict

record tool_result_start_data =
  trs_tool_call_id :: string
  trs_name :: string

record approval_asked_data =
  aa_tool_call_id :: string
  aa_name :: string
  aa_arguments :: jdict
  aa_reason :: string
  aa_rule_id :: "string option"

record turn_start_data =
  ts_turn_id :: string
  ts_request_id :: string
  ts_trigger :: string
  ts_command_name :: string
  ts_agent_id :: string
  ts_model :: string

record turn_retry_data =
  try_turn_id :: string
  try_code :: string
  try_message :: string
  try_attempt :: int
  try_max_attempts :: int

record turn_end_data =
  te_turn_id :: string
  te_request_id :: string
  te_outcome :: string
  te_reason :: string
  te_error :: "jdict option"
  te_usage :: "jdict option"
  te_iterations :: int
  te_metadata :: jdict

record session_status_data =
  ss_status :: string
  ss_reason :: string

datatype event_data =
    UserMessage user_message_data
  | AssistantMessage jdict
  | ToolResult tool_result_data
  | HintMessage hint_data
  | CompactMessage compact_data
  | AssistantChunk assistant_chunk_data
  | ToolCallStart tool_call_start_data
  | ToolResultStart tool_result_start_data
  | ApprovalAsked approval_asked_data
  | TurnStart turn_start_data
  | TurnRetry turn_retry_data
  | TurnEnd turn_end_data
  | SessionStatus session_status_data

record session_event =
  se_seq :: int
  se_time :: int
  se_message_id :: "string option"
  se_data :: event_data

text \<open>The discriminator of each class.\<close>

fun event_type :: "event_data \<Rightarrow> string" where
  "event_type (UserMessage d) = ''user/message''"
| "event_type (AssistantMessage d) = ''assistant/message''"
| "event_type (ToolResult d) = ''tool/result''"
| "event_type (HintMessage d) = ''hint/message''"
| "event_type (CompactMessage d) = ''compact/message''"
| "event_type (AssistantChunk d) = ''assistant/chunk''"
| "event_type (ToolCallStart d) = ''tool/call-start''"
| "event_type (ToolResultStart d) = ''tool/result-start''"
| "event_type (ApprovalAsked d) = ''approval/asked''"
| "event_type (TurnStart d) = ''turn/start''"
| "event_type (TurnRetry d) = ''turn/retry''"
| "event_type (TurnEnd d) = ''turn/end''"
| "event_type (SessionStatus d) = ''session/status''"

lemma event_types_registered: "event_type d \<in> set ALL_EVENT_TYPES"
  by (cases d) (simp_all add: ALL_EVENT_TYPES_def SURFACE_EVENT_TYPES_def)

end
