(* ===== verification/Derive.thy ===== *)
theory Derive
  imports Events
begin

text \<open>
  The read-side fold from events to messages
  (\<open>packages/ftre-agent/src/ftre_agent/session/derive.py\<close>). The fold state is the message
  table, its insertion order and the index from tool calls to the messages that own them;
  \<open>apply_event\<close> is one event, with the branches of \<open>_apply_event\<close> in order, and
  \<open>derive_messages\<close> the whole log.

  The code mutates message objects in place. Each object is held by the table under its own
  id and nowhere else, so a mutation is an update of the table at that id.
\<close>

section \<open>Fold state\<close>

record fold_state =
  fs_messages :: "string \<rightharpoonup> msg"
  fs_order :: "string list"
  fs_tool_calls :: "string \<rightharpoonup> string"

definition empty_fold :: fold_state where
  "empty_fold = \<lparr>fs_messages = Map.empty, fs_order = [], fs_tool_calls = Map.empty\<rparr>"

text \<open>In-place change of the message held under an id.\<close>

definition alter :: "string \<Rightarrow> (msg \<Rightarrow> msg) \<Rightarrow> fold_state \<Rightarrow> fold_state" where
  "alter k f st =
     (case fs_messages st k of
        None \<Rightarrow> st
      | Some m \<Rightarrow> st\<lparr>fs_messages := (fs_messages st)(k \<mapsto> f m)\<rparr>)"

definition touch :: "session_event \<Rightarrow> msg \<Rightarrow> msg" where
  "touch ev m = m\<lparr>msg_seq := max (msg_seq m) (se_seq ev)\<rparr>"

definition add_block :: "content_block \<Rightarrow> msg \<Rightarrow> msg" where
  "add_block b m = m\<lparr>msg_content := msg_content m @ [b]\<rparr>"

definition tool_call_ids :: "content_block list \<Rightarrow> string list" where
  "tool_call_ids bs = concat (map (\<lambda>b. case b of ToolCallB t \<Rightarrow> [tcb_id t] | _ \<Rightarrow> []) bs)"

definition insert_message :: "msg \<Rightarrow> fold_state \<Rightarrow> fold_state" where
  "insert_message m st =
     st\<lparr>fs_order := (if fs_messages st (msg_id m) = None then fs_order st @ [msg_id m]
                     else fs_order st),
        fs_messages := (fs_messages st)(msg_id m \<mapsto> m),
        fs_tool_calls := fold (\<lambda>i t. t(i \<mapsto> msg_id m)) (tool_call_ids (msg_content m))
                              (fs_tool_calls st)\<rparr>"

definition ensure_assistant :: "string \<Rightarrow> session_event \<Rightarrow> fold_state \<Rightarrow> fold_state" where
  "ensure_assistant mid ev st =
     (case fs_messages st mid of
        None \<Rightarrow> insert_message
          ((base_msg RoleAssistant DEFAULT [] mid (iso_from_ms (se_time ev)))\<lparr>msg_seq := se_seq ev\<rparr>) st
      | Some m \<Rightarrow> alter mid (touch ev) st)"

text \<open>\<open>seal_previous_assistant\<close>: the loop over \<open>reversed(self.order)\<close>.\<close>

fun seal_loop :: "session_event \<Rightarrow> string list \<Rightarrow> fold_state \<Rightarrow> fold_state" where
  "seal_loop ev [] st = st"
| "seal_loop ev (mid # mids) st =
     (case fs_messages st mid of
        None \<Rightarrow> seal_loop ev mids st
      | Some m \<Rightarrow>
          (case msg_role m of
             RoleAssistant \<Rightarrow>
               if msg_finished_at m = None then
                 alter mid (\<lambda>m. touch ev (m\<lparr>msg_finished_at := Some (iso_from_ms (se_time ev)),
                                             msg_finished_reason := Some ''completed''\<rparr>)) st
               else st
           | RoleUser \<Rightarrow> st
           | RoleSystem \<Rightarrow> seal_loop ev mids st))"

definition seal_previous_assistant :: "session_event \<Rightarrow> fold_state \<Rightarrow> fold_state" where
  "seal_previous_assistant ev st = seal_loop ev (rev (fs_order st)) st"

text \<open>\<open>_tool_owner\<close>: the index, else the last assistant message that holds the call.\<close>

definition tool_owner :: "fold_state \<Rightarrow> string \<Rightarrow> string option" where
  "tool_owner st call_id =
     (case fs_tool_calls st call_id of
        Some owner \<Rightarrow> Some owner
      | None \<Rightarrow>
          find_first (\<lambda>mid. case fs_messages st mid of None \<Rightarrow> False
              | Some m \<Rightarrow> msg_role m = RoleAssistant \<and> find_block m ''tool_call'' call_id \<noteq> None)
            (rev (fs_order st)))"

section \<open>User content\<close>

text \<open>
  \<open>_normalize_user_content\<close>. A part that is not a dict becomes a text part; \<open>text\<close> and
  \<open>data\<close> parts keep their kind (a data part that does not validate falls through); every
  other kind is rendered as a labelled text.
\<close>

definition text_or_data :: "pylib \<Rightarrow> jdict \<Rightarrow> string" where
  "text_or_data L part =
     str_or_default L (dict_get part ''text'') (str_or_empty L (dict_get part ''data''))"

definition not_none :: "json option \<Rightarrow> json option" where
  "not_none x = (case x of Some JNull \<Rightarrow> None | _ \<Rightarrow> x)"

text \<open>\<open>part.get("text")\<close>, else \<open>data\<close>, else \<open>path or url\<close>; \<open>JNull\<close> for \<open>None\<close>.\<close>

definition readable_value :: "jdict \<Rightarrow> json" where
  "readable_value part =
     (case not_none (dict_get part ''text'') of
        Some v \<Rightarrow> v
      | None \<Rightarrow>
          (case not_none (dict_get part ''data'') of
             Some v \<Rightarrow> v
           | None \<Rightarrow>
               (case dict_get part ''path'' of
                  Some p \<Rightarrow> if jtruthy p then p
                            else (case dict_get part ''url'' of None \<Rightarrow> JNull | Some u \<Rightarrow> u)
                | None \<Rightarrow> (case dict_get part ''url'' of None \<Rightarrow> JNull | Some u \<Rightarrow> u))))"

definition is_container :: "json \<Rightarrow> bool" where
  "is_container v = (case v of JObj _ \<Rightarrow> True | JList _ \<Rightarrow> True | _ \<Rightarrow> False)"

definition labelled_text :: "pylib \<Rightarrow> string \<Rightarrow> json \<Rightarrow> string" where
  "labelled_text L part_type value =
     (let v = (if is_container value then JStr (lib_dumps L value) else value);
          label = (if part_type \<noteq> ''skill'' then ''['' @ part_type @ '']'' else ''[skill]'')
      in if v = JNull \<or> v = JStr [] then label else py_strip (label @ '' '' @ py_str L v))"

definition part_of :: "pylib \<Rightarrow> json \<Rightarrow> jdict" where
  "part_of L raw =
     (case raw of JObj kvs \<Rightarrow> kvs
      | _ \<Rightarrow> [(''type'', JStr ''text''), (''text'', JStr (py_str L raw))])"

text \<open>\<open>finished_at\<close> is handed to the block class, which accepts a string or \<open>None\<close>.\<close>

definition finished_at_of :: "jdict \<Rightarrow> string option result" where
  "finished_at_of part =
     (case dict_get part ''finished_at'' of
        None \<Rightarrow> Inr None
      | Some JNull \<Rightarrow> Inr None
      | Some (JStr s) \<Rightarrow> Inr (Some s)
      | _ \<Rightarrow> Inl ValueError)"

definition normalize_part ::
  "pylib \<Rightarrow> pydantic \<Rightarrow> string \<Rightarrow> string \<Rightarrow> nat \<Rightarrow> json \<Rightarrow> content_block result" where
  "normalize_part L P mid time_iso index raw =
     (let part = part_of L raw;
          part_type = str_or_default L (dict_get part ''type'') ''text'';
          bid = str_or_default L (dict_get part ''id'') (mid @ '':block:'' @ str_of_int (int index));
          created = str_or_default L (dict_get part ''created_at'') time_iso
      in bind_r (finished_at_of part) (\<lambda>finished.
           let text = (\<lambda>t. TextB \<lparr>tb_text = t, tb_id = bid, tb_created_at = created,
                                  tb_finished_at = finished\<rparr>);
               fallback = text (labelled_text L part_type (readable_value part))
           in Inr
             (if part_type = ''text'' then text (text_or_data L part)
              else if part_type = ''data'' then
                (case pv_data P (JObj part) of
                   Inr d \<Rightarrow> DataB (d\<lparr>db_id := bid, db_created_at := created,
                                     db_finished_at := finished\<rparr>)
                 | Inl _ \<Rightarrow> fallback)
              else fallback)))"

fun normalize_parts ::
  "pylib \<Rightarrow> pydantic \<Rightarrow> string \<Rightarrow> string \<Rightarrow> nat \<Rightarrow> json list \<Rightarrow> content_block list result" where
  "normalize_parts L P mid time_iso index [] = Inr []"
| "normalize_parts L P mid time_iso index (raw # raws) =
     bind_r (normalize_part L P mid time_iso index raw) (\<lambda>b.
     bind_r (normalize_parts L P mid time_iso (Suc index) raws) (\<lambda>bs. Inr (b # bs)))"

definition normalize_user_content ::
  "pylib \<Rightarrow> pydantic \<Rightarrow> json \<Rightarrow> string \<Rightarrow> string \<Rightarrow> content_block list result" where
  "normalize_user_content L P content mid time_iso =
     (case content of
        JStr s \<Rightarrow> normalize_parts L P mid time_iso 0 [JObj [(''type'', JStr ''text''), (''text'', JStr s)]]
      | JList raws \<Rightarrow> normalize_parts L P mid time_iso 0 raws
      | _ \<Rightarrow> Inr [])"

section \<open>Tool results and chunks\<close>

definition parse_result_state :: "string \<Rightarrow> tool_result_state" where
  "parse_result_state s =
     (if s = ''error'' then ERROR else if s = ''interrupted'' then INTERRUPTED
      else if s = ''denied'' then DENIED else if s = ''running'' then RUNNING else SUCCESS)"

text \<open>\<open>_to_output_blocks\<close>.\<close>

definition to_output_block :: "pydantic \<Rightarrow> json \<Rightarrow> out_part result" where
  "to_output_block P part =
     (case part of
        JObj kvs \<Rightarrow>
          let part_type = (case dict_get kvs ''type'' of None \<Rightarrow> JStr ''text'' | Some t \<Rightarrow> t) in
          if part_type = JStr ''text'' then bind_r (pv_text P part) (\<lambda>t. Inr (OutText t))
          else if part_type = JStr ''data'' then bind_r (pv_data P part) (\<lambda>d. Inr (OutData d))
          else Inr (OutRaw part)
      | _ \<Rightarrow> Inr (OutRaw part))"

definition to_output_blocks :: "pydantic \<Rightarrow> json list \<Rightarrow> out_part list result" where
  "to_output_blocks P parts = map_r (to_output_block P) parts"

text \<open>\<open>_ensure_running_tool_result\<close>.\<close>

definition ensure_running_tool_result :: "string \<Rightarrow> string \<Rightarrow> int \<Rightarrow> msg \<Rightarrow> msg" where
  "ensure_running_tool_result call_id name time m =
     (case find_block m ''tool_result'' call_id of
        Some _ \<Rightarrow> m
      | None \<Rightarrow> add_block (ToolResultB
          \<lparr>trb_id = call_id, trb_name = name, trb_output = OutputParts [], trb_state = RUNNING,
           trb_metadata = [], trb_created_at = iso_from_ms time, trb_finished_at = None\<rparr>) m)"

definition chunk_block_id :: "assistant_chunk_data \<Rightarrow> string \<Rightarrow> string \<Rightarrow> string" where
  "chunk_block_id d kind mid =
     (case ac_block_id d of
        Some b \<Rightarrow> if b \<noteq> [] then b else ''assistant_'' @ kind @ ''_'' @ mid
      | None \<Rightarrow> ''assistant_'' @ kind @ ''_'' @ mid)"

definition extend_text :: "string \<Rightarrow> content_block \<Rightarrow> content_block" where
  "extend_text delta b =
     (case b of
        TextB t \<Rightarrow> TextB (t\<lparr>tb_text := tb_text t @ delta\<rparr>)
      | ThinkingB t \<Rightarrow> ThinkingB (t\<lparr>thb_thinking := thb_thinking t @ delta\<rparr>)
      | _ \<Rightarrow> b)"

definition chunk_into :: "string \<Rightarrow> string \<Rightarrow> string \<Rightarrow> int \<Rightarrow> msg \<Rightarrow> msg" where
  "chunk_into kind bid delta time m =
     (case find_block m kind bid of
        Some _ \<Rightarrow> m\<lparr>msg_content := update_first (block_is kind bid) (extend_text delta) (msg_content m)\<rparr>
      | None \<Rightarrow>
          add_block
            (if kind = ''text'' then
               TextB \<lparr>tb_text = delta, tb_id = bid, tb_created_at = iso_from_ms time, tb_finished_at = None\<rparr>
             else
               ThinkingB \<lparr>thb_thinking = delta, thb_id = bid, thb_created_at = iso_from_ms time,
                          thb_finished_at = None\<rparr>) m)"

definition append_assistant_chunk :: "session_event \<Rightarrow> assistant_chunk_data \<Rightarrow> fold_state \<Rightarrow> fold_state" where
  "append_assistant_chunk ev d st =
     (let mid = opt_str (se_message_id ev); kind = ac_kind d in
      if mid = [] \<or> kind \<notin> {''text'', ''thinking''} then st
      else alter mid (\<lambda>m. touch ev (chunk_into kind (chunk_block_id d kind mid) (ac_delta d) (se_time ev) m))
             (ensure_assistant mid ev st))"

definition result_text_id :: "string \<Rightarrow> string" where
  "result_text_id call_id = ''tool_result_'' @ call_id @ ''_text''"

definition extend_output :: "string \<Rightarrow> string \<Rightarrow> int \<Rightarrow> tool_result_block \<Rightarrow> tool_result_block" where
  "extend_output call_id delta time b =
     (let parts = (case trb_output b of
            OutputText s \<Rightarrow> [OutText \<lparr>tb_text = s, tb_id = result_text_id call_id,
                              tb_created_at = trb_created_at b, tb_finished_at = None\<rparr>]
          | OutputParts ps \<Rightarrow> ps);
          fresh = OutText \<lparr>tb_text = delta, tb_id = result_text_id call_id,
                    tb_created_at = iso_from_ms time, tb_finished_at = None\<rparr>;
          parts' = (case rev parts of
              OutText t # rest \<Rightarrow> rev rest @ [OutText (t\<lparr>tb_text := tb_text t @ delta\<rparr>)]
            | _ \<Rightarrow> parts @ [fresh])
      in b\<lparr>trb_output := OutputParts parts'\<rparr>)"

definition map_result :: "(tool_result_block \<Rightarrow> tool_result_block) \<Rightarrow> content_block \<Rightarrow> content_block" where
  "map_result f b = (case b of ToolResultB r \<Rightarrow> ToolResultB (f r) | _ \<Rightarrow> b)"

definition map_call :: "(tool_call_block \<Rightarrow> tool_call_block) \<Rightarrow> content_block \<Rightarrow> content_block" where
  "map_call f b = (case b of ToolCallB c \<Rightarrow> ToolCallB (f c) | _ \<Rightarrow> b)"

definition result_finished :: "msg \<Rightarrow> string \<Rightarrow> bool" where
  "result_finished m call_id =
     (case find_block m ''tool_result'' call_id of
        Some (ToolResultB r) \<Rightarrow> trb_finished_at r \<noteq> None
      | _ \<Rightarrow> False)"

definition result_chunk_into :: "session_event \<Rightarrow> string \<Rightarrow> string \<Rightarrow> msg \<Rightarrow> msg" where
  "result_chunk_into ev call_id delta m =
     (let name = (case find_block m ''tool_call'' call_id of Some (ToolCallB c) \<Rightarrow> tcb_name c | _ \<Rightarrow> []);
          m1 = ensure_running_tool_result call_id name (se_time ev) m
      in if result_finished m1 call_id then m1
         else touch ev (m1\<lparr>msg_content := update_first (block_is ''tool_result'' call_id)
                (map_result (extend_output call_id delta (se_time ev))) (msg_content m1)\<rparr>))"

definition append_tool_result_chunk :: "session_event \<Rightarrow> assistant_chunk_data \<Rightarrow> fold_state \<Rightarrow> fold_state" where
  "append_tool_result_chunk ev d st =
     (let call_id = opt_str (ac_tool_call_id d) in
      if call_id = [] then st
      else case tool_owner st call_id of
             None \<Rightarrow> st
           | Some owner \<Rightarrow> alter owner (result_chunk_into ev call_id (ac_delta d)) st)"

section \<open>One event\<close>

definition apply_user_message :: "pylib \<Rightarrow> pydantic \<Rightarrow> session_event \<Rightarrow> user_message_data \<Rightarrow> fold_state \<Rightarrow> fold_state result" where
  "apply_user_message L P ev d st =
     (let st1 = seal_previous_assistant ev st;
          mid = str_or (opt_str (se_message_id ev)) (''user_'' @ str_of_int (se_seq ev));
          content = (if jtruthy (um_content d) then um_content d else JList [])
      in bind_r (normalize_user_content L P content mid (iso_from_ms (se_time ev))) (\<lambda>blocks.
         bind_r (validate_role_content
           ((base_msg RoleUser DEFAULT blocks mid (iso_from_ms (se_time ev)))
              \<lparr>msg_metadata := um_metadata d, msg_seq := se_seq ev\<rparr>))
         (\<lambda>m. Inr (insert_message m st1))))"

definition apply_assistant_message :: "pylib \<Rightarrow> pydantic \<Rightarrow> string \<Rightarrow> session_event \<Rightarrow> jdict \<Rightarrow> fold_state \<Rightarrow> fold_state result" where
  "apply_assistant_message L P now ev payload st =
     bind_r (msg_model_validate L P now payload) (\<lambda>m.
       let mid = opt_str (se_message_id ev);
           m1 = (if mid \<noteq> [] \<and> msg_id m \<noteq> mid then m\<lparr>msg_id := mid\<rparr> else m)
       in Inr (insert_message (touch ev m1) st))"

definition apply_hint :: "session_event \<Rightarrow> hint_data \<Rightarrow> fold_state \<Rightarrow> fold_state" where
  "apply_hint ev d st =
     (let mid = opt_str (se_message_id ev); now = iso_from_ms (se_time ev) in
      if mid = [] then st
      else alter mid (\<lambda>m. touch ev (add_block (HintB
             \<lparr>hb_hint = hd_hint d, hb_source = hd_source d, hb_id = ''hint_'' @ str_of_int (se_seq ev),
              hb_created_at = now, hb_finished_at = Some now\<rparr>) m))
           (ensure_assistant mid ev st))"

text \<open>The notice of a fast compaction, in UTF-8.\<close>

definition fast_text_1 :: string where
  "fast_text_1 = [CHR 0xE5, CHR 0xB7, CHR 0xB2, CHR 0xE5, CHR 0xBF, CHR 0xAB, CHR 0xE9, CHR 0x80, CHR 0x9F,
     CHR 0xE5, CHR 0x8E, CHR 0x8B, CHR 0xE7, CHR 0xBC, CHR 0xA9, CHR 0xEF, CHR 0xBC, CHR 0x9A]"

definition fast_text_2 :: string where
  "fast_text_2 = [CHR 0x20, CHR 0xE4, CHR 0xB8, CHR 0xAA, CHR 0xE8, CHR 0xBE, CHR 0x83, CHR 0xE6, CHR 0x97,
     CHR 0xA9, CHR 0xE7, CHR 0x9A, CHR 0x84, CHR 0xE5, CHR 0xB7, CHR 0xA5, CHR 0xE5, CHR 0x85,
     CHR 0xB7, CHR 0xE8, CHR 0xBE, CHR 0x93, CHR 0xE5, CHR 0x87, CHR 0xBA, CHR 0xE5, CHR 0xB7,
     CHR 0xB2, CHR 0xE8, CHR 0xA2, CHR 0xAB, CHR 0xE8, CHR 0xA3, CHR 0x81, CHR 0xE5, CHR 0x89,
     CHR 0xAA, CHR 0xEF, CHR 0xBC, CHR 0x8C, CHR 0xE5, CHR 0x85, CHR 0xB6, CHR 0xE5, CHR 0x8E,
     CHR 0x9F, CHR 0xE5, CHR 0xA7, CHR 0x8B, CHR 0xE5, CHR 0x86, CHR 0x85, CHR 0xE5, CHR 0xAE,
     CHR 0xB9, CHR 0xE4, CHR 0xB8, CHR 0x8D, CHR 0xE5, CHR 0x86, CHR 0x8D, CHR 0xE5, CHR 0x8F,
     CHR 0xAF, CHR 0xE8, CHR 0xA7, CHR 0x81, CHR 0xEF, CHR 0xBC, CHR 0x88, CHR 0xE7, CHR 0xBA,
     CHR 0xA6, CHR 0xE8, CHR 0x8A, CHR 0x82, CHR 0xE7, CHR 0x9C, CHR 0x81, CHR 0x20]"

definition fast_text_3 :: string where
  "fast_text_3 = [CHR 0x20, CHR 0x74, CHR 0x6F, CHR 0x6B, CHR 0x65, CHR 0x6E, CHR 0x73, CHR 0xEF, CHR 0xBC,
     CHR 0x89, CHR 0xE3, CHR 0x80, CHR 0x82, CHR 0xE5, CHR 0x90, CHR 0x8E, CHR 0xE7, CHR 0xBB,
     CHR 0xAD, CHR 0xE5, CHR 0xA6, CHR 0x82, CHR 0xE9, CHR 0x9C, CHR 0x80, CHR 0xE7, CHR 0x9B,
     CHR 0xB8, CHR 0xE5, CHR 0x85, CHR 0xB3, CHR 0xE4, CHR 0xBF, CHR 0xA1, CHR 0xE6, CHR 0x81,
     CHR 0xAF, CHR 0xE8, CHR 0xAF, CHR 0xB7, CHR 0xE9, CHR 0x87, CHR 0x8D, CHR 0xE6, CHR 0x96,
     CHR 0xB0, CHR 0xE8, CHR 0x8E, CHR 0xB7, CHR 0xE5, CHR 0x8F, CHR 0x96, CHR 0xE3, CHR 0x80,
     CHR 0x82]"

definition compact_fast_text :: "int \<Rightarrow> int \<Rightarrow> string" where
  "compact_fast_text tool_results saved =
     fast_text_1 @ str_of_int tool_results @ fast_text_2 @ str_of_int saved @ fast_text_3"

definition compact_fast_meta :: "compact_data \<Rightarrow> jdict" where
  "compact_fast_meta d =
     (let ids = filter (\<lambda>i. i \<noteq> []) (cd_tool_result_ids d) in
      [(''mode'', JStr ''fast''), (''tool_results'', JInt (cd_tool_results d)),
       (''tokens_before'', JInt (cd_tokens_before d)), (''tokens_after'', JInt (cd_tokens_after d))] @
      (if ids \<noteq> [] then [(''tool_result_ids'', JList (map JStr ids))] else []))"

definition compact_meta :: "compact_data \<Rightarrow> jdict" where
  "compact_meta d =
     [(''through_message_id'', JStr (cd_through_message_id d)), (''trigger'', JStr (cd_trigger d)),
      (''tokens_before'', JInt (cd_tokens_before d)), (''tokens_after'', JInt (cd_tokens_after d))]"

definition compact_message :: "session_event \<Rightarrow> compact_data \<Rightarrow> msg" where
  "compact_message ev d =
     (let mid = opt_str (se_message_id ev); now = iso_from_ms (se_time ev);
          mode = str_or (cd_mode d) ''summary'';
          block = (\<lambda>t. TextB \<lparr>tb_text = t, tb_id = ''compact_'' @ mid, tb_created_at = now,
                              tb_finished_at = None\<rparr>)
      in if mode = ''fast'' then
           (base_msg RoleAssistant COMPACT_FAST
              [block (compact_fast_text (cd_tool_results d)
                        (max 0 (cd_tokens_before d - cd_tokens_after d)))] mid now)
             \<lparr>msg_seq := se_seq ev, msg_finished_at := Some now,
              msg_finished_reason := Some ''completed'',
              msg_metadata := [(''context_compact'', JObj (compact_fast_meta d))]\<rparr>
         else
           (base_msg RoleUser COMPACT [block (cd_summary_text d)] mid now)
             \<lparr>msg_seq := se_seq ev,
              msg_metadata := [(''hide'', JBool True), (''context_compact'', JObj (compact_meta d))]\<rparr>)"

definition apply_compact :: "session_event \<Rightarrow> compact_data \<Rightarrow> fold_state \<Rightarrow> fold_state result" where
  "apply_compact ev d st =
     bind_r (validate_role_content (compact_message ev d))
       (\<lambda>m. Inr (insert_message m (seal_previous_assistant ev st)))"

definition add_call_block :: "session_event \<Rightarrow> tool_call_start_data \<Rightarrow> msg \<Rightarrow> msg" where
  "add_call_block ev d m =
     touch ev (add_block (ToolCallB
       \<lparr>tcb_id = tcs_tool_call_id d, tcb_name = tcs_name d, tcb_arguments = tcs_arguments d,
        tcb_state = PENDING, tcb_created_at = iso_from_ms (se_time ev), tcb_finished_at = None\<rparr>) m)"

definition apply_call_start :: "session_event \<Rightarrow> tool_call_start_data \<Rightarrow> fold_state \<Rightarrow> fold_state" where
  "apply_call_start ev d st =
     (let mid = opt_str (se_message_id ev) in
      if mid = [] then st
      else
        let st1 = ensure_assistant mid ev st in
        case fs_messages st1 mid of
          None \<Rightarrow> st1
        | Some m \<Rightarrow>
            if find_block m ''tool_call'' (tcs_tool_call_id d) = None then
              (alter mid (add_call_block ev d) st1)
                \<lparr>fs_tool_calls := (fs_tool_calls st1)(tcs_tool_call_id d \<mapsto> msg_id m)\<rparr>
            else st1)"

definition apply_result_start :: "session_event \<Rightarrow> tool_result_start_data \<Rightarrow> fold_state \<Rightarrow> fold_state" where
  "apply_result_start ev d st =
     (if trs_tool_call_id d = [] then st
      else case tool_owner st (trs_tool_call_id d) of
             None \<Rightarrow> st
           | Some owner \<Rightarrow>
               alter owner (\<lambda>m. touch ev (ensure_running_tool_result (trs_tool_call_id d) (trs_name d)
                                            (se_time ev) m)) st)"

definition finish_call :: "int \<Rightarrow> tool_call_block \<Rightarrow> tool_call_block" where
  "finish_call time c = c\<lparr>tcb_state := FINISHED, tcb_finished_at := Some (iso_from_ms time)\<rparr>"

definition result_into :: "session_event \<Rightarrow> tool_result_data \<Rightarrow> out_part list \<Rightarrow> msg \<Rightarrow> msg" where
  "result_into ev d output m =
     (let i = tr_tool_call_id d; now = iso_from_ms (se_time ev);
          kept = remove_first (block_is ''tool_result'' i) (msg_content m);
          block = ToolResultB
            \<lparr>trb_id = i, trb_name = tr_name d, trb_output = OutputParts output,
             trb_state = parse_result_state (str_or (tr_state d) ''success''),
             trb_metadata = tr_metadata d, trb_created_at = now, trb_finished_at = Some now\<rparr>
      in touch ev (m\<lparr>msg_content := update_first (block_is ''tool_call'' i)
                       (map_call (finish_call (se_time ev))) (kept @ [block])\<rparr>))"

definition apply_tool_result :: "pydantic \<Rightarrow> session_event \<Rightarrow> tool_result_data \<Rightarrow> fold_state \<Rightarrow> fold_state result" where
  "apply_tool_result P ev d st =
     (case tool_owner st (tr_tool_call_id d) of
        None \<Rightarrow> Inr st
      | Some owner \<Rightarrow>
          bind_r (to_output_blocks P (tr_output d)) (\<lambda>output.
            Inr (alter owner (result_into ev d output) st)))"

definition turn_reason :: "turn_end_data \<Rightarrow> string" where
  "turn_reason d =
     (let reason = str_or (te_reason d) (str_or (te_outcome d) ''completed'') in
      if reason \<in> {''crashed'', ''cancelled'', ''paused''} then
        (if reason = ''crashed'' then ''interrupted'' else ''completed'')
      else reason)"

text \<open>The usage of a turn, when it carries a total.\<close>

definition turn_usage :: "pylib \<Rightarrow> turn_end_data \<Rightarrow> token_usage option result" where
  "turn_usage L d =
     (case te_usage d of
        None \<Rightarrow> Inr None
      | Some u \<Rightarrow>
          if not_none (dict_get u ''total_tokens'') = None then Inr None
          else
            bind_r (int_or_zero L (dict_get u ''prompt_tokens'')) (\<lambda>p.
            bind_r (int_or_zero L (dict_get u ''completion_tokens'')) (\<lambda>c.
            bind_r (int_or_zero L (dict_get u ''total_tokens'')) (\<lambda>t.
            Inr (Some \<lparr>prompt_tokens = p, completion_tokens = c, total_tokens = t\<rparr>)))))"

definition set_usage :: "token_usage \<Rightarrow> msg \<Rightarrow> msg" where
  "set_usage u m =
     m\<lparr>msg_token := Some (case msg_token m of
        None \<Rightarrow> \<lparr>mt_usage = u, mt_last_call_usage = u\<rparr>
      | Some t \<Rightarrow> t\<lparr>mt_usage := u\<rparr>)\<rparr>"

definition end_turn :: "session_event \<Rightarrow> turn_end_data \<Rightarrow> token_usage option \<Rightarrow> msg \<Rightarrow> msg" where
  "end_turn ev d usage m =
     (let m1 = (if msg_finished_at m = None
                then m\<lparr>msg_finished_at := Some (iso_from_ms (se_time ev))\<rparr> else m);
          m2 = m1\<lparr>msg_finished_reason := Some (turn_reason d)\<rparr>;
          m3 = (case te_error d of Some e \<Rightarrow> if e \<noteq> [] then m2\<lparr>msg_error := Some e\<rparr> else m2 | None \<Rightarrow> m2);
          m4 = (case usage of None \<Rightarrow> m3 | Some u \<Rightarrow> set_usage u m3)
      in touch ev m4)"

definition apply_turn_end :: "pylib \<Rightarrow> session_event \<Rightarrow> turn_end_data \<Rightarrow> fold_state \<Rightarrow> fold_state result" where
  "apply_turn_end L ev d st =
     (let mid = opt_str (se_message_id ev) in
      if mid = [] then Inr st
      else case fs_messages st mid of
             None \<Rightarrow> Inr st
           | Some m \<Rightarrow>
               if msg_role m \<noteq> RoleAssistant then Inr st
               else bind_r (turn_usage L d) (\<lambda>u. Inr (alter mid (end_turn ev d u) st)))"

fun apply_event :: "pylib \<Rightarrow> pydantic \<Rightarrow> string \<Rightarrow> fold_state \<Rightarrow> session_event \<Rightarrow> fold_state result" where
  "apply_event L P now st ev =
     (case se_data ev of
        UserMessage d \<Rightarrow> apply_user_message L P ev d st
      | AssistantMessage payload \<Rightarrow> apply_assistant_message L P now ev payload st
      | HintMessage d \<Rightarrow> Inr (apply_hint ev d st)
      | CompactMessage d \<Rightarrow> apply_compact ev d st
      | ToolCallStart d \<Rightarrow> Inr (apply_call_start ev d st)
      | ToolResultStart d \<Rightarrow> Inr (apply_result_start ev d st)
      | ToolResult d \<Rightarrow> apply_tool_result P ev d st
      | AssistantChunk d \<Rightarrow>
          Inr (if ac_kind d \<in> {''text'', ''thinking''} then append_assistant_chunk ev d st
               else if ac_kind d = ''tool_result_text'' then append_tool_result_chunk ev d st
               else st)
      | TurnEnd d \<Rightarrow> apply_turn_end L ev d st
      | ApprovalAsked d \<Rightarrow> Inr st
      | TurnStart d \<Rightarrow> Inr st
      | TurnRetry d \<Rightarrow> Inr st
      | SessionStatus d \<Rightarrow> Inr st)"

definition messages_of :: "fold_state \<Rightarrow> msg list" where
  "messages_of st = map (\<lambda>mid. the (fs_messages st mid)) (fs_order st)"

definition fold_events :: "pylib \<Rightarrow> pydantic \<Rightarrow> string \<Rightarrow> session_event list \<Rightarrow> fold_state result" where
  "fold_events L P now evs = fold_r (apply_event L P now) empty_fold evs"

definition derive_messages :: "pylib \<Rightarrow> pydantic \<Rightarrow> string \<Rightarrow> session_event list \<Rightarrow> msg list result" where
  "derive_messages L P now evs = bind_r (fold_events L P now evs) (\<lambda>st. Inr (messages_of st))"

section \<open>A fold that fills a table\<close>

text \<open>
  The contract between the fold and its readers: the table and its order agree, every step
  keeps that and only appends to the order.
\<close>

locale table_fold =
  fixes step :: "'s \<Rightarrow> 'e \<Rightarrow> 's result"
    and table :: "'s \<Rightarrow> 'k \<rightharpoonup> 'm"
    and order :: "'s \<Rightarrow> 'k list"
    and key :: "'m \<Rightarrow> 'k"
    and wf :: "'s \<Rightarrow> bool"
  assumes wf_order: "wf s \<Longrightarrow> distinct (order s) \<and> set (order s) = dom (table s)"
    and wf_key: "wf s \<Longrightarrow> table s k = Some m \<Longrightarrow> key m = k"
    and step_wf: "wf s \<Longrightarrow> step s e = Inr t \<Longrightarrow> wf t"
    and step_order: "wf s \<Longrightarrow> step s e = Inr t \<Longrightarrow> \<exists>new. order t = order s @ new"
begin

lemma run_wf: "wf s \<Longrightarrow> fold_r step s es = Inr t \<Longrightarrow> wf t"
  using fold_r_invariant [where P = wf and f = step and xs = es] step_wf by blast

lemma run_order: "wf s \<Longrightarrow> fold_r step s es = Inr t \<Longrightarrow> \<exists>new. order t = order s @ new"
proof (induction es arbitrary: s)
  case Nil
  then show ?case by simp
next
  case (Cons e es)
  then obtain u where u: "step s e = Inr u" and rest: "fold_r step u es = Inr t"
    by (auto simp: result_simps)
  obtain new where "order u = order s @ new" using step_order Cons.prems(1) u by blast
  then show ?case using Cons.IH [OF step_wf [OF Cons.prems(1) u] rest] by auto
qed

lemma listing_keys: "wf s \<Longrightarrow> map key (map (\<lambda>k. the (table s k)) (order s)) = order s"
proof -
  assume wf: "wf s"
  have "key (the (table s k)) = k" if "k \<in> set (order s)" for k
    using that wf_order [OF wf] wf_key [OF wf] by auto
  then show ?thesis by (simp add: map_idI)
qed

end

section \<open>Well-formed fold states\<close>

definition fold_wf :: "fold_state \<Rightarrow> bool" where
  "fold_wf st \<longleftrightarrow> distinct (fs_order st) \<and> set (fs_order st) = dom (fs_messages st) \<and>
     (\<forall>k m. fs_messages st k = Some m \<longrightarrow> msg_id m = k) \<and>
     (\<forall>c w. fs_tool_calls st c = Some w \<longrightarrow> w \<in> dom (fs_messages st))"

text \<open>What every step keeps: well-formedness, and the order up to new entries.\<close>

definition grows :: "fold_state \<Rightarrow> fold_state \<Rightarrow> bool" where
  "grows st st' \<longleftrightarrow> (fold_wf st \<longrightarrow> fold_wf st') \<and> (\<exists>new. fs_order st' = fs_order st @ new)"

lemma grows_refl [simp]: "grows st st"
  by (simp add: grows_def)

lemma grows_trans: "grows a b \<Longrightarrow> grows b c \<Longrightarrow> grows a c"
  by (auto simp: grows_def)

named_theorems keeps_id \<open>updates that keep a message's id\<close>

lemma touch_id [keeps_id]: "msg_id (touch ev m) = msg_id m"
  by (simp add: touch_def)

lemma add_block_id [keeps_id]: "msg_id (add_block b m) = msg_id m"
  by (simp add: add_block_def)

lemma ensure_running_id [keeps_id]: "msg_id (ensure_running_tool_result i n t m) = msg_id m"
  by (simp add: ensure_running_tool_result_def keeps_id split: option.splits)

lemma chunk_into_id [keeps_id]: "msg_id (chunk_into k b d t m) = msg_id m"
  by (simp add: chunk_into_def keeps_id split: option.splits)

lemma result_chunk_id [keeps_id]: "msg_id (result_chunk_into ev i d m) = msg_id m"
  by (simp add: result_chunk_into_def Let_def keeps_id)

lemma add_call_block_id [keeps_id]: "msg_id (add_call_block ev d m) = msg_id m"
  by (simp add: add_call_block_def keeps_id)

lemma result_into_id [keeps_id]: "msg_id (result_into ev d out m) = msg_id m"
  by (simp add: result_into_def Let_def keeps_id)

lemma end_turn_id [keeps_id]: "msg_id (end_turn ev d u m) = msg_id m"
  by (simp add: end_turn_def Let_def set_usage_def keeps_id split: option.splits)

lemma alter_simps [simp]:
  "fs_order (alter k f st) = fs_order st" "fs_tool_calls (alter k f st) = fs_tool_calls st"
  "dom (fs_messages (alter k f st)) = dom (fs_messages st)"
  by (auto simp: alter_def split: option.splits)

lemma alter_lookup:
  "fs_messages (alter k f st) = (\<lambda>j. if j = k then map_option f (fs_messages st k) else fs_messages st j)"
  by (auto simp: alter_def fun_eq_iff split: option.splits)

lemma grows_alter: "(\<And>m. msg_id (f m) = msg_id m) \<Longrightarrow> grows st (alter k f st)"
  by (cases "fs_messages st k") (auto simp: grows_def fold_wf_def alter_def)

lemma fold_upd_lookup: "fold (\<lambda>i t. t(i \<mapsto> v)) is t c = (if c \<in> set is then Some v else t c)"
  by (induction "is" arbitrary: t) auto

lemma grows_insert: "grows st (insert_message m st)"
  by (auto simp: grows_def fold_wf_def insert_message_def fold_upd_lookup split: if_splits)

lemma grows_ensure: "grows st (ensure_assistant mid ev st)"
  by (auto simp: ensure_assistant_def keeps_id intro: grows_insert grows_alter split: option.splits)

lemma grows_seal_loop: "grows st (seal_loop ev mids st)"
  by (induction ev mids st rule: seal_loop.induct)
    (auto simp: touch_def intro!: grows_alter split: option.splits role.splits)

lemma grows_seal: "grows st (seal_previous_assistant ev st)"
  unfolding seal_previous_assistant_def by (rule grows_seal_loop)

lemma grows_append_chunk: "grows st (append_assistant_chunk ev d st)"
  unfolding append_assistant_chunk_def Let_def
  by (auto intro: grows_trans [OF grows_ensure grows_alter] simp: keeps_id)

lemma grows_result_chunk: "grows st (append_tool_result_chunk ev d st)"
  unfolding append_tool_result_chunk_def Let_def
  by (auto intro: grows_alter simp: keeps_id split: option.splits)

lemma grows_hint: "grows st (apply_hint ev d st)"
  unfolding apply_hint_def Let_def
  by (auto intro!: grows_trans [OF grows_ensure grows_alter] simp: keeps_id)

lemma grows_set_call:
  assumes "grows st t" and "fold_wf t \<Longrightarrow> k \<in> dom (fs_messages t)"
  shows "grows st (t\<lparr>fs_tool_calls := (fs_tool_calls t)(c \<mapsto> k)\<rparr>)"
proof -
  have "fold_wf (t\<lparr>fs_tool_calls := (fs_tool_calls t)(c \<mapsto> k)\<rparr>)" if wf: "fold_wf t"
  proof -
    have "\<forall>c' w. ((fs_tool_calls t)(c \<mapsto> k)) c' = Some w \<longrightarrow> w \<in> dom (fs_messages t)"
      using wf assms(2) [OF wf] unfolding fold_wf_def fun_upd_def by (metis option.inject)
    then show ?thesis using wf unfolding fold_wf_def by simp
  qed
  then show ?thesis using assms(1) by (auto simp: grows_def)
qed

lemma grows_call_start: "grows st (apply_call_start ev d st)"
proof -
  let ?mid = "opt_str (se_message_id ev)"
  let ?st = "ensure_assistant ?mid ev st"
  let ?t = "alter ?mid (add_call_block ev d) ?st"
  have t: "grows st ?t" by (rule grows_trans [OF grows_ensure grows_alter]) (simp add: keeps_id)
  have dom: "msg_id m \<in> dom (fs_messages ?t)" if m: "fs_messages ?st ?mid = Some m" and wf: "fold_wf ?t" for m
  proof -
    have look: "fs_messages ?t ?mid = Some (add_call_block ev d m)" by (simp add: alter_lookup m)
    then have "msg_id (add_call_block ev d m) = ?mid" using wf unfolding fold_wf_def by blast
    then show ?thesis using look by (simp only: keeps_id) (rule domI)
  qed
  have "grows st (?t\<lparr>fs_tool_calls := (fs_tool_calls ?st)(tcs_tool_call_id d \<mapsto> msg_id m)\<rparr>)"
    if "fs_messages ?st ?mid = Some m" for m
    using grows_set_call [OF t dom [OF that]] by simp
  then show ?thesis using grows_ensure
    by (simp add: apply_call_start_def Let_def split: option.split)
qed

lemma grows_result_start: "grows st (apply_result_start ev d st)"
  unfolding apply_result_start_def
  by (auto intro!: grows_alter simp: keeps_id split: option.splits)

lemma grows_event: "apply_event L P now st ev = Inr st' \<Longrightarrow> grows st st'"
proof (cases "se_data ev")
  case (UserMessage d)
  assume "apply_event L P now st ev = Inr st'"
  then show ?thesis
    using grows_trans [OF grows_seal grows_insert]
    by (auto simp: UserMessage apply_user_message_def Let_def result_simps)
next
  case (AssistantMessage payload)
  assume "apply_event L P now st ev = Inr st'"
  then show ?thesis
    by (auto simp: AssistantMessage apply_assistant_message_def Let_def result_simps intro: grows_insert)
next
  case (ToolResult d)
  assume "apply_event L P now st ev = Inr st'"
  then show ?thesis
    by (auto simp: ToolResult apply_tool_result_def result_simps keeps_id intro: grows_alter
        split: option.splits)
next
  case (HintMessage d)
  assume "apply_event L P now st ev = Inr st'"
  then show ?thesis by (auto simp: HintMessage grows_hint)
next
  case (CompactMessage d)
  assume "apply_event L P now st ev = Inr st'"
  then show ?thesis
    using grows_trans [OF grows_seal grows_insert]
    by (auto simp: CompactMessage apply_compact_def result_simps)
next
  case (AssistantChunk d)
  assume "apply_event L P now st ev = Inr st'"
  then show ?thesis
    by (auto simp: AssistantChunk grows_append_chunk grows_result_chunk split: if_splits)
next
  case (ToolCallStart d)
  assume "apply_event L P now st ev = Inr st'"
  then show ?thesis by (auto simp: ToolCallStart grows_call_start)
next
  case (ToolResultStart d)
  assume "apply_event L P now st ev = Inr st'"
  then show ?thesis by (auto simp: ToolResultStart grows_result_start)
next
  case (TurnEnd d)
  assume "apply_event L P now st ev = Inr st'"
  then show ?thesis
    by (auto simp: TurnEnd apply_turn_end_def Let_def result_simps keeps_id intro: grows_alter
        split: option.splits if_splits)
qed auto

lemma fold_wf_empty [simp]: "fold_wf empty_fold"
  by (simp add: fold_wf_def empty_fold_def)

interpretation derive: table_fold "apply_event L P now" fs_messages fs_order msg_id fold_wf
  for L P now
proof unfold_locales
  fix st ev st' assume "fold_wf st" "apply_event L P now st ev = Inr st'"
  then show "fold_wf st'" and "\<exists>new. fs_order st' = fs_order st @ new"
    using grows_event by (auto simp: grows_def)
qed (auto simp: fold_wf_def)

lemma derive_messages_Inr:
  assumes "derive_messages L P now evs = Inr ms"
  obtains st where "fold_events L P now evs = Inr st" "ms = messages_of st" "fold_wf st"
    "map msg_id ms = fs_order st"
proof -
  obtain st where st: "fold_events L P now evs = Inr st" "ms = messages_of st"
    using assms by (auto simp: derive_messages_def result_simps)
  then have wf: "fold_wf st"
    using derive.run_wf [OF fold_wf_empty] by (auto simp: fold_events_def)
  then have "map msg_id ms = fs_order st"
    using derive.listing_keys st(2) by (simp add: messages_of_def)
  then show thesis using that st wf by blast
qed

section \<open>Properties\<close>

text \<open>
  C3: the derived transcript never lists a message id twice, its order follows the first
  appearance of each message, and a longer log only appends to it: events that arrive later
  may change a message but never move or drop one.
\<close>

theorem derived_history_is_stable:
  assumes "derive_messages L P now evs = Inr ms"
    and "derive_messages L P now (evs @ later) = Inr ms'"
  shows "distinct (map msg_id ms') \<and> (\<exists>new. map msg_id ms' = map msg_id ms @ new)"
proof -
  obtain st where st: "fold_events L P now evs = Inr st" "fold_wf st" "map msg_id ms = fs_order st"
    using derive_messages_Inr [OF assms(1)] by blast
  obtain st' where st': "fold_events L P now (evs @ later) = Inr st'" "fold_wf st'"
      "map msg_id ms' = fs_order st'"
    using derive_messages_Inr [OF assms(2)] by blast
  have "fold_r (apply_event L P now) st later = Inr st'"
    using st(1) st'(1) by (simp add: fold_events_def fold_r_append)
  then have "\<exists>new. fs_order st' = fs_order st @ new" by (rule derive.run_order [OF st(2)])
  then show ?thesis using st st' by (simp add: fold_wf_def)
qed

definition sample_pydantic :: pydantic where
  "sample_pydantic =
     \<lparr>pv_msg = (\<lambda>j. case jget ''id'' j of
          Some (JStr i) \<Rightarrow> Inr (base_msg RoleAssistant DEFAULT
             [TextB \<lparr>tb_text = ''done'', tb_id = ''b'', tb_created_at = ''t'', tb_finished_at = None\<rparr>] i ''t'')
        | _ \<Rightarrow> Inl ValueError),
      pv_text = (\<lambda>j. Inl ValueError), pv_data = (\<lambda>j. Inl ValueError)\<rparr>"

definition user_event :: "int \<Rightarrow> string \<Rightarrow> json \<Rightarrow> session_event" where
  "user_event seq mid content =
     \<lparr>se_seq = seq, se_time = 0, se_message_id = Some mid,
      se_data = UserMessage \<lparr>um_content = content, um_metadata = [], um_request_id = []\<rparr>\<rparr>"

definition chunk_event :: "int \<Rightarrow> int \<Rightarrow> string \<Rightarrow> string \<Rightarrow> string \<Rightarrow> session_event" where
  "chunk_event seq time mid bid delta =
     \<lparr>se_seq = seq, se_time = time, se_message_id = Some mid,
      se_data = AssistantChunk \<lparr>ac_kind = ''text'', ac_delta = delta, ac_block_id = Some bid,
                                 ac_tool_call_id = None\<rparr>\<rparr>"

definition message_event :: "int \<Rightarrow> string \<Rightarrow> jdict \<Rightarrow> session_event" where
  "message_event seq mid payload =
     \<lparr>se_seq = seq, se_time = 0, se_message_id = Some mid, se_data = AssistantMessage payload\<rparr>"

lemmas sample_event_defs = user_event_def chunk_event_def message_event_def sample_pydantic_def

lemma sample_derive:
  "derive_messages sample_lib sample_pydantic ''now''
     [chunk_event 0 0 ''a1'' ''b'' ''do'', chunk_event 1 0 ''a1'' ''b'' ''ne''] =
   Inr [(base_msg RoleAssistant DEFAULT
      [TextB \<lparr>tb_text = ''done'', tb_id = ''b'', tb_created_at = iso_from_ms 0, tb_finished_at = None\<rparr>]
      ''a1'' (iso_from_ms 0))\<lparr>msg_seq := 1\<rparr>]"
  by (simp add: derive_messages_def fold_events_def chunk_event_def empty_fold_def
      append_assistant_chunk_def ensure_assistant_def insert_message_def alter_def touch_def
      chunk_into_def find_block_def chunk_block_id_def add_block_def extend_text_def
      messages_of_def tool_call_ids_def base_msg_def Let_def block_is_def)

lemma derive_messages_Nil: "derive_messages L P now [] = Inr []"
  by (simp add: derive_messages_def fold_events_def messages_of_def empty_fold_def)

theorem derived_history_is_stable_witness:
  "\<exists>ms. derive_messages sample_lib sample_pydantic ''now''
     [chunk_event 0 0 ''a1'' ''b'' ''do'', chunk_event 1 0 ''a1'' ''b'' ''ne''] = Inr ms \<and>
     distinct (map msg_id ms) \<and> (\<exists>new. map msg_id ms = map msg_id [] @ new)"
  using derived_history_is_stable [OF derive_messages_Nil, of sample_lib sample_pydantic "''now''"
       "[chunk_event 0 0 ''a1'' ''b'' ''do'', chunk_event 1 0 ''a1'' ''b'' ''ne'']"] sample_derive
  by simp

subsection \<open>Chunks and whole values\<close>

definition is_chunk_of :: "string \<Rightarrow> session_event \<Rightarrow> bool" where
  "is_chunk_of mid ev \<longleftrightarrow> se_message_id ev = Some mid \<and>
     (\<exists>d. se_data ev = AssistantChunk d \<and> ac_kind d \<in> {''text'', ''thinking''})"

text \<open>Two states that differ at most in the message held under \<open>mid\<close>, created if missing.\<close>

definition draft_of :: "string \<Rightarrow> fold_state \<Rightarrow> fold_state \<Rightarrow> bool" where
  "draft_of mid st st' \<longleftrightarrow> st' = st \<or>
     (\<exists>m. fs_messages st' = (fs_messages st)(mid \<mapsto> m)) \<and>
     fs_order st' = (if fs_messages st mid = None then fs_order st @ [mid] else fs_order st) \<and>
     fs_tool_calls st' = fs_tool_calls st"

lemma draft_alter: "draft_of mid st st' \<Longrightarrow> draft_of mid st (alter mid f st')"
  by (cases "fs_messages st' mid") (auto simp: draft_of_def alter_def)

lemma draft_ensure: "draft_of mid st st' \<Longrightarrow> draft_of mid st (ensure_assistant mid ev st')"
proof (cases "fs_messages st' mid")
  case None
  assume "draft_of mid st st'"
  with None have "st' = st" by (auto simp: draft_of_def)
  with None show ?thesis
    by (auto simp: draft_of_def ensure_assistant_def insert_message_def tool_call_ids_def)
next
  case (Some m)
  assume "draft_of mid st st'"
  with Some show ?thesis by (simp add: ensure_assistant_def draft_alter)
qed

lemma draft_chunk:
  assumes "is_chunk_of mid ev" and "draft_of mid st st'" and "apply_event L P now st' ev = Inr st''"
  shows "draft_of mid st st''"
proof -
  obtain d where d: "se_message_id ev = Some mid" "se_data ev = AssistantChunk d"
      "ac_kind d \<in> {''text'', ''thinking''}"
    using assms(1) by (auto simp: is_chunk_of_def)
  have "st'' = append_assistant_chunk ev d st'" using assms(3) d by auto
  then show ?thesis
    using d assms(2) by (auto simp: append_assistant_chunk_def Let_def intro: draft_alter draft_ensure)
qed

lemma draft_insert:
  assumes "draft_of mid st st'" and "msg_id m = mid"
  shows "insert_message m st' = insert_message m st"
  using assms
  by (auto simp: draft_of_def insert_message_def fun_upd_idem intro!: fold_state.equality split: if_splits)

lemma chunks_total:
  "\<forall>ev \<in> set evs. is_chunk_of mid ev \<Longrightarrow> draft_of mid st st' \<Longrightarrow>
   \<exists>st''. fold_r (apply_event L P now) st' evs = Inr st'' \<and> draft_of mid st st''"
proof (induction evs arbitrary: st')
  case Nil
  then show ?case by simp
next
  case (Cons ev evs)
  obtain u where u: "apply_event L P now st' ev = Inr u"
    using Cons.prems(1) by (auto simp: is_chunk_of_def)
  have "draft_of mid st u" using draft_chunk [OF _ Cons.prems(2) u] Cons.prems(1) by simp
  then show ?case using Cons.IH Cons.prems(1) u by simp
qed

text \<open>
  streamed chunks are provisional. However many text and thinking chunks of a message
  were folded, once its \<open>assistant/message\<close> arrives the whole fold state is the one that
  message alone would have given: a lost, repeated or reordered chunk leaves no trace.
\<close>

theorem whole_value_replaces_chunks:
  assumes "\<forall>ev \<in> set chunks. is_chunk_of mid ev" and "mid \<noteq> []"
  shows "fold_r (apply_event L P now) st (chunks @ [message_event seq mid payload]) =
         fold_r (apply_event L P now) st [message_event seq mid payload]"
proof -
  obtain u where u: "fold_r (apply_event L P now) st chunks = Inr u" and draft: "draft_of mid st u"
    using chunks_total [OF assms(1), of st st L P now] by (auto simp: draft_of_def)
  have "apply_event L P now u (message_event seq mid payload) =
      apply_event L P now st (message_event seq mid payload)"
  proof (cases "msg_model_validate L P now payload")
    case (Inl e)
    then show ?thesis by (simp add: message_event_def apply_assistant_message_def)
  next
    case (Inr m)
    then show ?thesis
      using draft_insert [OF draft] assms(2)
      by (simp add: message_event_def apply_assistant_message_def keeps_id)
  qed
  then show ?thesis using u by (simp add: fold_r_append)
qed

theorem whole_value_replaces_chunks_witness:
  "fold_r (apply_event sample_lib sample_pydantic ''now'') empty_fold
     ([chunk_event 0 0 ''a1'' ''b'' ''xx''] @ [message_event 1 ''a1'' [(''id'', JStr ''a1'')]]) =
   fold_r (apply_event sample_lib sample_pydantic ''now'') empty_fold
     [message_event 1 ''a1'' [(''id'', JStr ''a1'')]]"
  by (rule whole_value_replaces_chunks) (simp_all add: is_chunk_of_def chunk_event_def)

lemma text_chunk_step:
  assumes "mid \<noteq> []" and "bid \<noteq> []" and "fs_messages st mid = Some m"
    and "msg_content m = [TextB t]" and "tb_id t = bid"
  shows "\<exists>st' m'. apply_event L P now st (chunk_event seq time mid bid delta) = Inr st' \<and>
     fs_messages st' mid = Some m' \<and> msg_content m' = [TextB (t\<lparr>tb_text := tb_text t @ delta\<rparr>)] \<and>
     (\<forall>k. k \<noteq> mid \<longrightarrow> fs_messages st' k = fs_messages st k)"
  using assms
  by (simp add: chunk_event_def append_assistant_chunk_def ensure_assistant_def alter_def touch_def
      chunk_into_def find_block_def chunk_block_id_def extend_text_def Let_def)

lemma text_chunks_extend:
  assumes "mid \<noteq> []" and "bid \<noteq> []"
  shows "fs_messages st mid = Some m \<Longrightarrow> msg_content m = [TextB t] \<Longrightarrow> tb_id t = bid \<Longrightarrow>
    \<exists>st' m'. fold_r (apply_event L P now) st (map (\<lambda>(s, c, d). chunk_event s c mid bid d) cs) = Inr st' \<and>
     fs_messages st' mid = Some m' \<and>
     msg_content m' = [TextB (t\<lparr>tb_text := tb_text t @ concat (map (\<lambda>(s, c, d). d) cs)\<rparr>)] \<and>
     (\<forall>k. k \<noteq> mid \<longrightarrow> fs_messages st' k = fs_messages st k)"
proof (induction cs arbitrary: st m t)
  case Nil
  then show ?case by simp
next
  case (Cons c cs)
  obtain s tm d where c: "c = (s, tm, d)" by (cases c)
  obtain st1 m1 where 1: "apply_event L P now st (chunk_event s tm mid bid d) = Inr st1"
      "fs_messages st1 mid = Some m1" "msg_content m1 = [TextB (t\<lparr>tb_text := tb_text t @ d\<rparr>)]"
      "\<forall>k. k \<noteq> mid \<longrightarrow> fs_messages st1 k = fs_messages st k"
    using text_chunk_step [OF assms Cons.prems, of L P now s tm d] by blast
  show ?case
    using Cons.IH [OF 1(2,3)] Cons.prems(3) 1(1,4) by (simp add: c)
qed

text \<open>
  until then the reader sees the stream as one block: the chunks of a new message with one
  block id are a single text block whose text is their concatenation, created when the first
  arrived, and no other message changes.
\<close>

theorem streamed_text_is_concatenation:
  assumes "fs_messages st mid = None" and "mid \<noteq> []" and "bid \<noteq> []"
  shows "\<exists>st' m. fold_r (apply_event L P now) st
        (map (\<lambda>(s, c, d). chunk_event s c mid bid d) ((s0, time0, d0) # cs)) = Inr st' \<and>
     fs_messages st' mid = Some m \<and>
     msg_content m = [TextB \<lparr>tb_text = concat (d0 # map (\<lambda>(s, c, d). d) cs), tb_id = bid,
                       tb_created_at = iso_from_ms time0, tb_finished_at = None\<rparr>] \<and>
     (\<forall>k. k \<noteq> mid \<longrightarrow> fs_messages st' k = fs_messages st k)"
proof -
  let ?t = "\<lparr>tb_text = d0, tb_id = bid, tb_created_at = iso_from_ms time0, tb_finished_at = None\<rparr>"
  obtain st1 m1 where 1: "apply_event L P now st (chunk_event s0 time0 mid bid d0) = Inr st1"
      "fs_messages st1 mid = Some m1" "msg_content m1 = [TextB ?t]"
      "\<forall>k. k \<noteq> mid \<longrightarrow> fs_messages st1 k = fs_messages st k"
    using assms
    by (simp add: chunk_event_def append_assistant_chunk_def ensure_assistant_def alter_def touch_def
        insert_message_def chunk_into_def find_block_def chunk_block_id_def add_block_def
        tool_call_ids_def Let_def)
  show ?thesis
    using text_chunks_extend [OF assms(2,3) 1(2,3), of L P now cs] 1(1,4) by simp
qed

theorem streamed_text_is_concatenation_witness:
  "\<exists>st' m. fold_r (apply_event sample_lib sample_pydantic ''now'') empty_fold
        (map (\<lambda>(s, c, d). chunk_event s c ''a1'' ''b'' d) [(0, 5, ''do''), (1, 6, ''ne'')]) = Inr st' \<and>
     fs_messages st' ''a1'' = Some m \<and>
     msg_content m = [TextB \<lparr>tb_text = ''done'', tb_id = ''b'',
                       tb_created_at = iso_from_ms 5, tb_finished_at = None\<rparr>]"
proof -
  have none: "fs_messages empty_fold ''a1'' = None" by (simp add: empty_fold_def)
  have "\<exists>st' m. fold_r (apply_event sample_lib sample_pydantic ''now'') empty_fold
        (map (\<lambda>(s, c, d). chunk_event s c ''a1'' ''b'' d) ((0, 5, ''do'') # [(1, 6, ''ne'')])) = Inr st' \<and>
     fs_messages st' ''a1'' = Some m \<and>
     msg_content m = [TextB \<lparr>tb_text = concat (''do'' # map (\<lambda>(s, c, d). d) [(1::int, 6::int, ''ne'')]),
        tb_id = ''b'', tb_created_at = iso_from_ms 5, tb_finished_at = None\<rparr>] \<and>
     (\<forall>k. k \<noteq> ''a1'' \<longrightarrow> fs_messages st' k = fs_messages empty_fold k)"
    by (rule streamed_text_is_concatenation [OF none]) simp_all
  then show ?thesis by (simp del: fold_r.simps apply_event.simps) blast
qed

end
