(* ===== verification/Transcript.thy ===== *)
theory Transcript
  imports Derive
begin

text \<open>
  What the fold of \<open>Derive\<close> does with tool results, with user messages and with turn
  ends: the properties of single events.
\<close>

subsection \<open>Tool results\<close>

lemma filter_remove_first: "filter (\<lambda>b. \<not> P b) (remove_first P xs) = filter (\<lambda>b. \<not> P b) xs"
  by (induction xs) auto

lemma filter_remove_first_other: "(\<And>b. P b \<Longrightarrow> \<not> Q b) \<Longrightarrow> filter Q (remove_first P xs) = filter Q xs"
  by (induction xs) auto

lemma filter_remove_first_unique: "length (filter P xs) \<le> 1 \<Longrightarrow> filter P (remove_first P xs) = []"
  by (induction xs) (simp_all split: if_splits)

lemma filter_update_first_other:
  "(\<And>b. P b \<Longrightarrow> \<not> Q b \<and> \<not> Q (f b)) \<Longrightarrow> filter Q (update_first P f xs) = filter Q xs"
  by (induction xs) auto

lemma find_first_filter: "find_first P xs = (case filter P xs of [] \<Rightarrow> None | x # _ \<Rightarrow> Some x)"
  by (induction xs) auto

lemma result_into_content:
  "msg_content (result_into ev d out m) =
     update_first (block_is ''tool_call'' (tr_tool_call_id d)) (map_call (finish_call (se_time ev)))
       (remove_first (block_is ''tool_result'' (tr_tool_call_id d)) (msg_content m) @
        [ToolResultB
            \<lparr>trb_id = tr_tool_call_id d, trb_name = tr_name d, trb_output = OutputParts out,
             trb_state = parse_result_state (str_or (tr_state d) ''success''),
             trb_metadata = tr_metadata d, trb_created_at = iso_from_ms (se_time ev),
             trb_finished_at = Some (iso_from_ms (se_time ev))\<rparr>])"
  by (simp add: result_into_def touch_def Let_def)

lemma result_into_role [simp]: "msg_role (result_into ev d out m) = msg_role m"
  by (simp add: result_into_def touch_def Let_def)

lemma result_into_results:
  assumes "length (filter (block_is ''tool_result'' (tr_tool_call_id d)) (msg_content m)) \<le> 1"
  shows "filter (block_is ''tool_result'' (tr_tool_call_id d)) (msg_content (result_into ev d out m)) =
      [ToolResultB
            \<lparr>trb_id = tr_tool_call_id d, trb_name = tr_name d, trb_output = OutputParts out,
             trb_state = parse_result_state (str_or (tr_state d) ''success''),
             trb_metadata = tr_metadata d, trb_created_at = iso_from_ms (se_time ev),
             trb_finished_at = Some (iso_from_ms (se_time ev))\<rparr>]"
proof -
  let ?P = "block_is ''tool_result'' (tr_tool_call_id d)"
  have "filter ?P (update_first (block_is ''tool_call'' (tr_tool_call_id d)) (map_call (finish_call (se_time ev))) xs)
      = filter ?P xs" for xs
    by (rule filter_update_first_other) (auto simp: map_call_def)
  then show ?thesis
    using filter_remove_first_unique [OF assms] by (simp add: result_into_content)
qed

lemma result_into_call:
  assumes "find_block m ''tool_call'' (tr_tool_call_id d) = Some (ToolCallB c)"
  shows "find_block (result_into ev d out m) ''tool_call'' (tr_tool_call_id d) =
         Some (ToolCallB (finish_call (se_time ev) c))"
proof -
  let ?P = "block_is ''tool_call'' (tr_tool_call_id d)"
  let ?R = "remove_first (block_is ''tool_result'' (tr_tool_call_id d)) (msg_content m)"
  have "filter ?P ?R = filter ?P (msg_content m)"
    by (rule filter_remove_first_other) auto
  then have "find_first ?P ?R = Some (ToolCallB c)"
    using assms unfolding find_block_def by (metis find_first_filter)
  then have "find_first ?P (update_first ?P (map_call (finish_call (se_time ev))) (?R @ xs)) =
      Some (map_call (finish_call (se_time ev)) (ToolCallB c))" for xs
    by (intro find_first_update_first) (auto simp: find_first_append map_call_def finish_call_def)
  then show ?thesis
    unfolding find_block_def result_into_content by (simp add: map_call_def)
qed

lemma result_into_no_call:
  assumes "find_block m ''tool_call'' (tr_tool_call_id d) = None"
  shows "find_block (result_into ev d out m) ''tool_call'' (tr_tool_call_id d) = None"
proof -
  let ?P = "block_is ''tool_call'' (tr_tool_call_id d)"
  let ?R = "remove_first (block_is ''tool_result'' (tr_tool_call_id d)) (msg_content m)"
  have "filter ?P ?R = filter ?P (msg_content m)"
    by (rule filter_remove_first_other) auto
  then have "find_first ?P ?R = None"
    using assms unfolding find_block_def by (metis find_first_filter)
  then show ?thesis
    unfolding find_block_def result_into_content
    by (subst update_first_none) (simp_all add: find_first_append)
qed

lemma result_into_others:
  "filter (\<lambda>b. block_id b \<noteq> tr_tool_call_id d) (msg_content (result_into ev d out m)) =
   filter (\<lambda>b. block_id b \<noteq> tr_tool_call_id d) (msg_content m)"
proof -
  let ?Q = "\<lambda>b. block_id b \<noteq> tr_tool_call_id d"
  have 1: "filter ?Q (update_first (block_is ''tool_call'' (tr_tool_call_id d))
      (map_call (finish_call (se_time ev))) xs) = filter ?Q xs" for xs
    by (rule filter_update_first_other) (auto simp: map_call_def finish_call_def)
  have 2: "filter ?Q (remove_first (block_is ''tool_result'' (tr_tool_call_id d)) xs) = filter ?Q xs" for xs
    by (rule filter_remove_first_other) auto
  show ?thesis by (simp add: result_into_content 1 2)
qed

text \<open>A finished result keeps late chunks out.\<close>

lemma result_chunk_finished:
  assumes "result_finished m i"
  shows "result_chunk_into ev i delta m = m"
proof -
  have "find_block m ''tool_result'' i \<noteq> None"
    using assms by (auto simp: result_finished_def split: option.splits)
  then have "ensure_running_tool_result i n t m = m" for n t
    by (auto simp: ensure_running_tool_result_def)
  then show ?thesis using assms by (simp add: result_chunk_into_def)
qed

lemma result_into_finished:
  assumes "length (filter (block_is ''tool_result'' (tr_tool_call_id d)) (msg_content m)) \<le> 1"
  shows "result_finished (result_into ev d out m) (tr_tool_call_id d)"
  unfolding result_finished_def find_block_def find_first_filter result_into_results [OF assms] by simp

lemma alter_same: "(\<And>m. fs_messages st k = Some m \<Longrightarrow> f m = m) \<Longrightarrow> alter k f st = st"
  by (cases "fs_messages st k") (auto simp: alter_def fun_upd_idem intro!: fold_state.equality)

lemma tool_owner_result_into:
  assumes "tool_owner st (tr_tool_call_id d) = Some w"
  shows "tool_owner (alter w (result_into ev d out) st) (tr_tool_call_id d) = Some w"
proof -
  let ?i = "tr_tool_call_id d"
  have "(find_block (result_into ev d out m) ''tool_call'' ?i = None) =
      (find_block m ''tool_call'' ?i = None)" for m
  proof (cases "find_block m ''tool_call'' ?i")
    case None
    then show ?thesis using result_into_no_call by simp
  next
    case (Some b)
    then obtain c where "b = ToolCallB c"
      using find_first_Some unfolding find_block_def by fastforce
    then show ?thesis using Some result_into_call by simp
  qed
  then have "(\<lambda>mid. case fs_messages (alter w (result_into ev d out) st) mid of None \<Rightarrow> False
        | Some m \<Rightarrow> msg_role m = RoleAssistant \<and> find_block m ''tool_call'' ?i \<noteq> None) =
      (\<lambda>mid. case fs_messages st mid of None \<Rightarrow> False
        | Some m \<Rightarrow> msg_role m = RoleAssistant \<and> find_block m ''tool_call'' ?i \<noteq> None)"
    by (auto simp: fun_eq_iff alter_lookup simp del: not_None_eq split: option.splits)
  then show ?thesis using assms by (simp only: tool_owner_def alter_simps)
qed

text \<open>
  a \<open>tool/result\<close> settles its call. Whatever was streamed for it before, the owner message
  then holds exactly one result block of that call: finished, with the output and the state
  of the event; the call block itself is marked finished; every other block and every other message is
  untouched; and chunks of the same call that arrive later change nothing at all.
\<close>

theorem tool_result_settles_call:
  assumes step: "apply_event L P now st ev = Inr st'" and ev: "se_data ev = ToolResult d"
    and owner: "tool_owner st (tr_tool_call_id d) = Some w" and m: "fs_messages st w = Some m"
    and unique: "length (filter (block_is ''tool_result'' (tr_tool_call_id d)) (msg_content m)) \<le> 1"
    and late: "se_data late = AssistantChunk c" "ac_kind c = ''tool_result_text''"
      "ac_tool_call_id c = Some (tr_tool_call_id d)" and time: "t = iso_from_ms (se_time ev)"
  shows "(\<exists>m' out. fs_messages st' w = Some m' \<and>
      filter (block_is ''tool_result'' (tr_tool_call_id d)) (msg_content m') =
        [ToolResultB \<lparr>trb_id = tr_tool_call_id d, trb_name = tr_name d, trb_output = OutputParts out,
           trb_state = parse_result_state (str_or (tr_state d) ''success''),
           trb_metadata = tr_metadata d, trb_created_at = t, trb_finished_at = Some t\<rparr>] \<and>
      to_output_blocks P (tr_output d) = Inr out \<and>
      find_block m' ''tool_call'' (tr_tool_call_id d) =
        map_option (map_call (\<lambda>c. c\<lparr>tcb_state := FINISHED, tcb_finished_at := Some t\<rparr>))
          (find_block m ''tool_call'' (tr_tool_call_id d)) \<and>
      filter (\<lambda>b. block_id b \<noteq> tr_tool_call_id d) (msg_content m') =
        filter (\<lambda>b. block_id b \<noteq> tr_tool_call_id d) (msg_content m)) \<and>
    (\<forall>k. k \<noteq> w \<longrightarrow> fs_messages st' k = fs_messages st k) \<and>
    apply_event L P now st' late = Inr st'"
proof -
  let ?i = "tr_tool_call_id d"
  obtain out where out: "to_output_blocks P (tr_output d) = Inr out"
      and st': "st' = alter w (result_into ev d out) st"
    using step ev owner by (auto simp: apply_tool_result_def result_simps)
  have look: "fs_messages st' w = Some (result_into ev d out m)"
    using m by (simp add: st' alter_lookup)
  have call: "find_block (result_into ev d out m) ''tool_call'' ?i =
      map_option (map_call (\<lambda>c. c\<lparr>tcb_state := FINISHED, tcb_finished_at := Some t\<rparr>))
        (find_block m ''tool_call'' ?i)"
  proof (cases "find_block m ''tool_call'' ?i")
    case None
    then show ?thesis using result_into_no_call by simp
  next
    case (Some b)
    then obtain c where "b = ToolCallB c"
      using find_first_Some unfolding find_block_def by fastforce
    then show ?thesis
      using Some result_into_call by (simp add: map_call_def finish_call_def time)
  qed
  have "append_tool_result_chunk late c st' = st'"
  proof (cases "?i = []")
    case False
    have "alter w (result_chunk_into late ?i (ac_delta c)) st' = st'"
      by (rule alter_same)
        (use look result_into_finished [OF unique] in \<open>auto intro: result_chunk_finished\<close>)
    then show ?thesis
      using late False tool_owner_result_into [OF owner]
      by (simp add: append_tool_result_chunk_def st')
  qed (simp add: append_tool_result_chunk_def late)
  then have "apply_event L P now st' late = Inr st'" using late by simp
  moreover have "\<forall>k. k \<noteq> w \<longrightarrow> fs_messages st' k = fs_messages st k"
    by (simp add: st' alter_lookup)
  ultimately show ?thesis
    using look out call result_into_results [OF unique] result_into_others time by blast
qed

definition call_state :: fold_state where
  "call_state =
     \<lparr>fs_messages = [''a1'' \<mapsto> base_msg RoleAssistant DEFAULT
        [ToolCallB \<lparr>tcb_id = ''c1'', tcb_name = ''read'', tcb_arguments = [], tcb_state = PENDING,
                    tcb_created_at = ''t'', tcb_finished_at = None\<rparr>,
         ToolResultB \<lparr>trb_id = ''c1'', trb_name = ''read'', trb_output = OutputParts [],
                    trb_state = RUNNING, trb_metadata = [], trb_created_at = ''t'',
                    trb_finished_at = None\<rparr>] ''a1'' ''t''],
      fs_order = [''a1''], fs_tool_calls = [''c1'' \<mapsto> ''a1'']\<rparr>"

definition result_event :: "int \<Rightarrow> string \<Rightarrow> json list \<Rightarrow> session_event" where
  "result_event seq call_id output =
     \<lparr>se_seq = seq, se_time = 0, se_message_id = None,
      se_data = ToolResult \<lparr>tr_tool_call_id = call_id, tr_name = ''read'', tr_output = output,
                            tr_state = ''success'', tr_metadata = []\<rparr>\<rparr>"

definition late_event :: session_event where
  "late_event = \<lparr>se_seq = 9, se_time = 0, se_message_id = None,
     se_data = AssistantChunk \<lparr>ac_kind = ''tool_result_text'', ac_delta = ''late'', ac_block_id = None,
                               ac_tool_call_id = Some ''c1''\<rparr>\<rparr>"

theorem tool_result_settles_call_witness:
  "\<exists>st'. apply_event sample_lib sample_pydantic ''now'' call_state
       (result_event 3 ''c1'' [JStr ''x'']) = Inr st' \<and>
     apply_event sample_lib sample_pydantic ''now'' st' late_event = Inr st' \<and>
     (\<exists>m'. fs_messages st' ''a1'' = Some m' \<and> length (filter (block_is ''tool_result'' ''c1'') (msg_content m')) = 1)"
proof -
  let ?d = "\<lparr>tr_tool_call_id = ''c1'', tr_name = ''read'', tr_output = [JStr ''x''],
                            tr_state = ''success'', tr_metadata = []\<rparr>"
  let ?c = "\<lparr>ac_kind = ''tool_result_text'', ac_delta = ''late'', ac_block_id = None,
                               ac_tool_call_id = Some ''c1''\<rparr>"
  have data: "se_data (result_event 3 ''c1'' [JStr ''x'']) = ToolResult ?d"
    by (simp add: result_event_def)
  have owner: "tool_owner call_state (tr_tool_call_id ?d) = Some ''a1''"
    by (simp add: tool_owner_def call_state_def)
  obtain st' where st': "apply_event sample_lib sample_pydantic ''now'' call_state
       (result_event 3 ''c1'' [JStr ''x'']) = Inr st'"
    using owner by (simp add: data apply_tool_result_def to_output_blocks_def to_output_block_def)
  obtain m where m: "fs_messages call_state ''a1'' = Some m"
    and one: "length (filter (block_is ''tool_result'' (tr_tool_call_id ?d)) (msg_content m)) \<le> 1"
    by (simp add: call_state_def)
  have late: "se_data late_event = AssistantChunk ?c" by (simp add: late_event_def)
  show ?thesis
    using tool_result_settles_call [OF st' data owner m one late _ _ refl] st' by auto
qed

subsection \<open>User messages\<close>

definition sealed :: "session_event \<Rightarrow> msg \<Rightarrow> msg" where
  "sealed ev = (\<lambda>m. touch ev (m\<lparr>msg_finished_at := Some (iso_from_ms (se_time ev)),
                                   msg_finished_reason := Some ''completed''\<rparr>))"

text \<open>The message a user message seals: the nearest one that is not a system message.\<close>

definition open_assistant :: "fold_state \<Rightarrow> msg option" where
  "open_assistant st =
     (case find_first (\<lambda>m. msg_role m \<noteq> RoleSystem) (rev (messages_of st)) of
        Some m \<Rightarrow> if msg_role m = RoleAssistant \<and> msg_finished_at m = None then Some m else None
      | None \<Rightarrow> None)"

lemma find_first_map: "find_first P (map f xs) = map_option f (find_first (\<lambda>x. P (f x)) xs)"
  by (induction xs) auto

lemma seal_loop_spec:
  assumes "set ids \<subseteq> dom (fs_messages st)"
  shows "seal_loop ev ids st =
    (case find_first (\<lambda>k. msg_role (the (fs_messages st k)) \<noteq> RoleSystem) ids of
       None \<Rightarrow> st
     | Some k \<Rightarrow>
         (let m = the (fs_messages st k) in
          if msg_role m = RoleAssistant \<and> msg_finished_at m = None then alter k (sealed ev) st else st))"
  using assms
proof (induction ids)
  case Nil
  then show ?case by simp
next
  case (Cons k ids)
  then obtain m where m: "fs_messages st k = Some m" by auto
  show ?case
    using Cons m by (cases "msg_role m") (auto simp: sealed_def Let_def)
qed

lemma seal_spec:
  assumes "fold_wf st"
  shows "seal_previous_assistant ev st =
    (case open_assistant st of None \<Rightarrow> st | Some m \<Rightarrow> alter (msg_id m) (sealed ev) st)"
proof -
  let ?f = "find_first (\<lambda>k. msg_role (the (fs_messages st k)) \<noteq> RoleSystem) (rev (fs_order st))"
  have sub: "set (rev (fs_order st)) \<subseteq> dom (fs_messages st)"
    using assms by (simp add: fold_wf_def)
  have o: "open_assistant st = (case ?f of None \<Rightarrow> None
      | Some k \<Rightarrow> (let m = the (fs_messages st k) in
          if msg_role m = RoleAssistant \<and> msg_finished_at m = None then Some m else None))"
    unfolding open_assistant_def messages_of_def rev_map find_first_map Let_def
    by (cases ?f) simp_all
  show ?thesis
  proof (cases ?f)
    case None
    have "open_assistant st = None" unfolding o None by simp
    then show ?thesis unfolding seal_previous_assistant_def seal_loop_spec [OF sub] None by simp
  next
    case (Some k)
    have "k \<in> dom (fs_messages st)" using find_first_Some [OF Some] sub by auto
    then obtain m where m: "fs_messages st k = Some m" "msg_id m = k"
      using assms unfolding fold_wf_def by blast
    have "open_assistant st = (if msg_role m = RoleAssistant \<and> msg_finished_at m = None then Some m else None)"
      unfolding o Some using m by simp
    then show ?thesis
      unfolding seal_previous_assistant_def seal_loop_spec [OF sub] Some using m by simp
  qed
qed

text \<open>Parts whose \<open>finished_at\<close> the block class accepts.\<close>

definition part_ok :: "json \<Rightarrow> bool" where
  "part_ok raw = (case jget ''finished_at'' raw of
     None \<Rightarrow> True | Some JNull \<Rightarrow> True | Some (JStr s) \<Rightarrow> True | _ \<Rightarrow> False)"

lemma finished_at_total: "part_ok raw \<Longrightarrow> \<exists>f. finished_at_of (part_of L raw) = Inr f"
  by (cases raw) (auto simp: part_ok_def finished_at_of_def part_of_def jget_def split: option.splits json.splits)

lemma normalize_part_total:
  assumes "part_ok raw"
  shows "\<exists>b. normalize_part L P mid t n raw = Inr b \<and> block_type b \<in> {''text'', ''data''}"
proof -
  obtain f where "finished_at_of (part_of L raw) = Inr f"
    using finished_at_total [OF assms] by blast
  then show ?thesis by (auto simp: normalize_part_def Let_def split: sum.splits)
qed

lemma normalize_parts_total:
  "list_all part_ok raws \<Longrightarrow> \<exists>bs. normalize_parts L P mid t n raws = Inr bs \<and>
     length bs = length raws \<and> list_all (\<lambda>b. block_type b \<in> {''text'', ''data''}) bs"
proof (induction raws arbitrary: n)
  case Nil
  then show ?case by simp
next
  case (Cons raw raws)
  then obtain b where "normalize_part L P mid t n raw = Inr b" "block_type b \<in> {''text'', ''data''}"
    using normalize_part_total [of raw L P mid t n] by auto
  moreover obtain bs where "normalize_parts L P mid t (Suc n) raws = Inr bs"
      "length bs = length raws" "list_all (\<lambda>b. block_type b \<in> {''text'', ''data''}) bs"
    using Cons.IH [of "Suc n"] Cons.prems by auto
  ultimately show ?case by simp
qed

lemma validate_user_blocks:
  "list_all (\<lambda>b. block_type b \<in> {''text'', ''data''}) bs \<Longrightarrow>
   validate_role_content ((base_msg RoleUser n bs i t)\<lparr>msg_metadata := md, msg_seq := q\<rparr>) =
   Inr ((base_msg RoleUser n bs i t)\<lparr>msg_metadata := md, msg_seq := q\<rparr>)"
  by (auto simp: validate_role_content_def base_msg_def role_allows_def list_all_iff)

text \<open>
  an accepted user message always enters the transcript. Whatever its parts are (known or unknown
  kinds, values that are not dicts, data that does not validate), the fold succeeds, the new message
  has one text or data block per part, the one assistant message it interrupts is closed as
  completed at its time, and nothing else changes.
\<close>

theorem user_message_is_recorded:
  assumes "fold_wf st" and "se_data ev = UserMessage d" and "um_content d = JList raws"
    and "list_all part_ok raws" and "se_message_id ev = Some mid" and "mid \<noteq> []"
    and "fs_messages st mid = None"
  shows "\<exists>st' m. apply_event L P now st ev = Inr st' \<and> fs_messages st' mid = Some m \<and>
      msg_role m = RoleUser \<and> length (msg_content m) = length raws \<and>
      list_all (\<lambda>b. block_type b \<in> {''text'', ''data''}) (msg_content m) \<and>
      fs_order st' = fs_order st @ [mid] \<and>
      (\<forall>k. k \<noteq> mid \<longrightarrow> fs_messages st' k =
         (if map_option msg_id (open_assistant st) = Some k
          then map_option (sealed ev) (fs_messages st k) else fs_messages st k))"
proof -
  let ?t = "iso_from_ms (se_time ev)"
  have c: "(if jtruthy (um_content d) then um_content d else JList []) = JList raws"
    using assms(3) by simp
  obtain bs where bs: "normalize_parts L P mid ?t 0 raws = Inr bs" "length bs = length raws"
      "list_all (\<lambda>b. block_type b \<in> {''text'', ''data''}) bs"
    using normalize_parts_total [OF assms(4), of L P mid ?t 0] by blast
  define m where "m = (base_msg RoleUser DEFAULT bs mid ?t)\<lparr>msg_metadata := um_metadata d, msg_seq := se_seq ev\<rparr>"
  have id: "msg_id m = mid" by (simp add: m_def)
  let ?s = "seal_previous_assistant ev st"
  have step: "apply_event L P now st ev = Inr (insert_message m ?s)"
    using assms(2,5,6) bs validate_user_blocks [OF bs(3)]
    by (simp add: apply_user_message_def Let_def c normalize_user_content_def m_def)
  have s: "fs_order ?s = fs_order st" "fs_messages ?s k = (if map_option msg_id (open_assistant st) = Some k
          then map_option (sealed ev) (fs_messages st k) else fs_messages st k)" for k
    by (auto simp: seal_spec [OF assms(1)] alter_lookup split: option.split)
  have none: "fs_messages ?s mid = None" using assms(7) by (simp add: s)
  show ?thesis
    by (rule exI [of _ "insert_message m ?s"], rule exI [of _ m])
      (use bs id none s in \<open>simp add: step insert_message_def m_def del: apply_event.simps\<close>)
qed

lemma call_state_wf: "fold_wf call_state"
  by (auto simp: fold_wf_def call_state_def)

theorem user_message_is_recorded_witness:
  "\<exists>st' m m1. apply_event sample_lib sample_pydantic ''now'' call_state
       (user_event 5 ''u1'' (JList [JInt 3, JObj [(''type'', JStr ''image'')]])) = Inr st' \<and>
     fs_messages st' ''u1'' = Some m \<and> length (msg_content m) = 2 \<and>
     fs_messages st' ''a1'' = Some m1 \<and> msg_finished_reason m1 = Some ''completed''"
proof -
  let ?raws = "[JInt 3, JObj [(''type'', JStr ''image'')]]"
  let ?d = "\<lparr>um_content = JList ?raws, um_metadata = [], um_request_id = []\<rparr>"
  let ?ev = "user_event 5 ''u1'' (JList ?raws)"
  have parts: "list_all part_ok ?raws" by (simp add: part_ok_def jget_def)
  have data: "se_data ?ev = UserMessage ?d" "se_message_id ?ev = Some ''u1''"
    by (simp_all add: user_event_def)
  have new: "fs_messages call_state ''u1'' = None" by (simp add: call_state_def)
  obtain m0 where m0: "fs_messages call_state ''a1'' = Some m0" "msg_id m0 = ''a1''"
      "open_assistant call_state = Some m0"
    by (simp add: call_state_def open_assistant_def messages_of_def)
  have sealed: "msg_finished_reason (sealed ?ev m0) = Some ''completed''"
    by (simp add: sealed_def touch_def)
  obtain st' m where *: "apply_event sample_lib sample_pydantic ''now'' call_state ?ev = Inr st'"
      "fs_messages st' ''u1'' = Some m" "length (msg_content m) = length ?raws"
      "\<forall>k. k \<noteq> ''u1'' \<longrightarrow> fs_messages st' k =
         (if map_option msg_id (open_assistant call_state) = Some k
          then map_option (sealed ?ev) (fs_messages call_state k) else fs_messages call_state k)"
    using user_message_is_recorded [OF call_state_wf data(1) _ parts data(2) _ new,
        of sample_lib sample_pydantic "''now''"] by auto
  have "fs_messages st' ''a1'' = Some (sealed ?ev m0)" using *(4) m0 by simp
  then show ?thesis using *(1-3) sealed by (simp del: apply_event.simps)
qed

end
