(* ===== verification/InboxModels.thy ===== *)
theory InboxModels
  imports Message
begin

text \<open>
  The persistent model of the inbox (\<open>packages/ftre-inbox/src/ftre_inbox/models.py\<close>): a
  queued input, the pending queues of a session, their validation, and both directions of the
  JSON they are stored as.

  \<open>Msg.model_dump\<close> is a parameter, like the validation it is read back with.
\<close>

section \<open>Items\<close>

datatype queue_target = NextTurn | NextStep

datatype queue_source = FromUser | FromPlugin | FromSystem

record queue_item =
  qi_request_id :: string
  qi_sequence :: int
  qi_session_id :: string
  qi_channel_id :: string
  qi_content :: string
  qi_attachments :: "jdict list"
  qi_source :: queue_source
  qi_history :: "string option"
  qi_messages :: "msg list"
  qi_agent_id :: string

text \<open>\<open>normalized_messages\<close>; \<open>gen\<close> and \<open>now\<close> are the defaults of the message and its block.\<close>

definition normalized_messages :: "string \<Rightarrow> string \<Rightarrow> string \<Rightarrow> queue_item \<Rightarrow> msg list" where
  "normalized_messages gen_msg gen_block now item =
     (if qi_messages item \<noteq> [] then qi_messages item
      else [(base_msg RoleUser DEFAULT (to_blocks gen_block now (qi_content item)) gen_msg now)
              \<lparr>msg_metadata := [(''request_id'', JStr (qi_request_id item))]\<rparr>])"

fun target_name :: "queue_target \<Rightarrow> string" where
  "target_name NextTurn = ''next-turn''"
| "target_name NextStep = ''next-step''"

fun source_name :: "queue_source \<Rightarrow> string" where
  "source_name FromUser = ''user''"
| "source_name FromPlugin = ''plugin''"
| "source_name FromSystem = ''system''"

definition opt_json :: "string option \<Rightarrow> json" where
  "opt_json x = (case x of None \<Rightarrow> JNull | Some s \<Rightarrow> JStr s)"

definition item_to_json :: "(msg \<Rightarrow> json) \<Rightarrow> queue_target \<Rightarrow> queue_item \<Rightarrow> json" where
  "item_to_json dump target item = JObj
     [(''request_id'', JStr (qi_request_id item)),
      (''sequence'', JInt (qi_sequence item)),
      (''session_id'', JStr (qi_session_id item)),
      (''channel_id'', JStr (qi_channel_id item)),
      (''content'', JStr (qi_content item)),
      (''attachments'', JList (map JObj (qi_attachments item))),
      (''source'', JStr (source_name (qi_source item))),
      (''history_message_id'', opt_json (qi_history item)),
      (''messages'', JList (map dump (qi_messages item))),
      (''agent_id'', JStr (qi_agent_id item)),
      (''target'', JStr (target_name target))]"

definition parse_target :: "json \<Rightarrow> queue_target result" where
  "parse_target v =
     (if \<not> hashable v then Inl TypeError
      else if v = JStr ''next-turn'' then Inr NextTurn
      else if v = JStr ''next-step'' then Inr NextStep
      else Inl ValueError)"

definition parse_source :: "json \<Rightarrow> queue_source result" where
  "parse_source v =
     (if \<not> hashable v then Inl TypeError
      else if v = JStr ''user'' then Inr FromUser
      else if v = JStr ''plugin'' then Inr FromPlugin
      else if v = JStr ''system'' then Inr FromSystem
      else Inl ValueError)"

definition validate_message :: "pylib \<Rightarrow> pydantic \<Rightarrow> string \<Rightarrow> json \<Rightarrow> msg result" where
  "validate_message L P now v =
     (case v of
        JObj kvs \<Rightarrow> msg_model_validate L P now kvs
      | _ \<Rightarrow> bind_r (pv_msg P v) validate_role_content)"

definition parse_history :: "pylib \<Rightarrow> jdict \<Rightarrow> string option" where
  "parse_history L value =
     none_if_empty (case dict_get value ''history_message_id'' of
        None \<Rightarrow> None
      | Some v \<Rightarrow> if jtruthy v then Some (py_str L v) else None)"

definition item_from_json ::
  "pylib \<Rightarrow> pydantic \<Rightarrow> string \<Rightarrow> json \<Rightarrow> (queue_item \<times> queue_target) result" where
  "item_from_json L P now raw =
     (case raw of
        JObj value \<Rightarrow>
          bind_r (parse_target (get_or value ''target'' JNull)) (\<lambda>target.
          bind_r (parse_source (get_or value ''source'' (JStr ''user''))) (\<lambda>source.
          case get_or value ''messages'' JNull of
            JList raw_messages \<Rightarrow>
              bind_r (dict_item value ''request_id'') (\<lambda>rid.
              bind_r (bind_r (dict_item value ''sequence'') (py_int L)) (\<lambda>seq.
              bind_r (dict_item value ''session_id'') (\<lambda>sid.
              bind_r (bind_r (iter_json (get_or value ''attachments'' (JList []))) (map_r (py_dict L))) (\<lambda>atts.
              bind_r (map_r (validate_message L P now) raw_messages) (\<lambda>messages.
              Inr (\<lparr>qi_request_id = py_str L rid, qi_sequence = seq, qi_session_id = py_str L sid,
                    qi_channel_id = py_str L (get_or value ''channel_id'' (JStr [])),
                    qi_content = py_str L (get_or value ''content'' (JStr [])),
                    qi_attachments = atts, qi_source = source,
                    qi_history = parse_history L value, qi_messages = messages,
                    qi_agent_id = str_or_default L (dict_get value ''agent_id'') ''default''\<rparr>,
                   target))))))
          | _ \<Rightarrow> Inl TypeError))
      | _ \<Rightarrow> Inl AttributeError)"

section \<open>The queues of a session\<close>

record inbox_snapshot =
  is_session_id :: string
  is_revision :: int
  is_next_sequence :: int
  is_next_turn :: "queue_item list"
  is_next_step :: "queue_item list"
  is_capacity :: int

text \<open>\<open>sorted\<close> is stable, and so is \<open>sort_key\<close>.\<close>

definition snapshot_pending :: "inbox_snapshot \<Rightarrow> queue_item list" where
  "snapshot_pending sn = sort_key qi_sequence (is_next_turn sn @ is_next_step sn)"

definition has_pending :: "inbox_snapshot \<Rightarrow> bool" where
  "has_pending sn \<longleftrightarrow> is_next_turn sn \<noteq> [] \<or> is_next_step sn \<noteq> []"

record mutable_inbox =
  mi_session_id :: string
  mi_revision :: int
  mi_next_sequence :: int
  mi_next_turn :: "queue_item list"
  mi_next_step :: "queue_item list"

definition new_inbox :: "string \<Rightarrow> mutable_inbox" where
  "new_inbox sid = \<lparr>mi_session_id = sid, mi_revision = 0, mi_next_sequence = 1, mi_next_turn = [],
                    mi_next_step = []\<rparr>"

definition inbox_snapshot_of :: "int \<Rightarrow> mutable_inbox \<Rightarrow> inbox_snapshot" where
  "inbox_snapshot_of capacity st =
     \<lparr>is_session_id = mi_session_id st, is_revision = mi_revision st,
      is_next_sequence = mi_next_sequence st, is_next_turn = mi_next_turn st,
      is_next_step = mi_next_step st, is_capacity = capacity\<rparr>"

definition all_items :: "mutable_inbox \<Rightarrow> queue_item list" where
  "all_items st = mi_next_turn st @ mi_next_step st"

definition inbox_validate :: "mutable_inbox \<Rightarrow> unit result" where
  "inbox_validate st =
     (if \<not> distinct (map qi_request_id (all_items st)) then Inl ValueError
      else if \<not> distinct (map qi_sequence (all_items st)) then Inl ValueError
      else if \<not> sorted (map qi_sequence (mi_next_turn st)) then Inl ValueError
      else if \<not> sorted (map qi_sequence (mi_next_step st)) then Inl ValueError
      else Inr ())"

definition inbox_to_json :: "(msg \<Rightarrow> json) \<Rightarrow> mutable_inbox \<Rightarrow> json" where
  "inbox_to_json dump st = JObj
     [(''schema_version'', JInt 3),
      (''session_id'', JStr (mi_session_id st)),
      (''revision'', JInt (mi_revision st)),
      (''next_sequence'', JInt (mi_next_sequence st)),
      (''next_turn'', JList (map (item_to_json dump NextTurn) (mi_next_turn st))),
      (''next_step'', JList (map (item_to_json dump NextStep) (mi_next_step st)))]"

definition queue_from_json ::
  "pylib \<Rightarrow> pydantic \<Rightarrow> string \<Rightarrow> queue_target \<Rightarrow> json \<Rightarrow> queue_item list result" where
  "queue_from_json L P now wanted v =
     bind_r (iter_json v) (map_r (\<lambda>raw.
       bind_r (item_from_json L P now raw) (\<lambda>(item, target).
         if target \<noteq> wanted then Inl ValueError else Inr item)))"

definition inbox_from_json :: "pylib \<Rightarrow> pydantic \<Rightarrow> string \<Rightarrow> json \<Rightarrow> mutable_inbox result" where
  "inbox_from_json L P now raw =
     (case raw of
        JObj value \<Rightarrow>
          let version = get_or value ''schema_version'' JNull in
          if \<not> hashable version then Inl TypeError
          else if \<not> (equals_int version 1 \<or> equals_int version 2 \<or> equals_int version 3) then Inl ValueError
          else
            bind_r (dict_item value ''session_id'') (\<lambda>sid.
            bind_r (py_int L (get_or value ''revision'' (JInt 0))) (\<lambda>revision.
            bind_r (py_int L (get_or value ''next_sequence'' (JInt 1))) (\<lambda>next_sequence.
            bind_r (queue_from_json L P now NextTurn (get_or value ''next_turn'' (JList []))) (\<lambda>turns.
            bind_r (queue_from_json L P now NextStep (get_or value ''next_step'' (JList []))) (\<lambda>steps.
            let st = \<lparr>mi_session_id = py_str L sid, mi_revision = revision,
                      mi_next_sequence = next_sequence, mi_next_turn = turns, mi_next_step = steps\<rparr>
            in bind_r (inbox_validate st) (\<lambda>_. Inr st))))))
      | _ \<Rightarrow> Inl AttributeError)"

section \<open>Round trip\<close>

text \<open>
  What a stored item must satisfy to come back unchanged: the two fields whose empty value
  the reader replaces are not empty, and pydantic reads back the messages it dumped.
\<close>

definition storable :: "pylib \<Rightarrow> pydantic \<Rightarrow> (msg \<Rightarrow> json) \<Rightarrow> queue_item \<Rightarrow> bool" where
  "storable L P dump item \<longleftrightarrow> qi_agent_id item \<noteq> [] \<and> qi_history item \<noteq> Some [] \<and>
     (\<forall>m \<in> set (qi_messages item). \<forall>now. validate_message L P now (dump m) = Inr m)"

lemma parse_names [simp]:
  "parse_target (JStr (target_name t)) = Inr t" "parse_source (JStr (source_name s)) = Inr s"
  by (cases t, simp_all add: parse_target_def hashable_def)
    (cases s, simp_all add: parse_source_def hashable_def)

lemma map_r_map_id: "(\<And>x. x \<in> set xs \<Longrightarrow> f (g x) = Inr x) \<Longrightarrow> map_r f (map g xs) = Inr xs"
  by (induction xs) auto

lemma item_round_trip:
  assumes "storable L P dump item"
  shows "item_from_json L P now (item_to_json dump target item) = Inr (item, target)"
proof -
  have messages: "map_r (validate_message L P now) (map dump (qi_messages item)) = Inr (qi_messages item)"
    by (rule map_r_map_id) (use assms in \<open>simp add: storable_def\<close>)
  have atts: "map_r (py_dict L) (map JObj (qi_attachments item)) = Inr (qi_attachments item)"
    by (rule map_r_map_id) (simp add: py_dict_def)
  have history: "none_if_empty (if jtruthy (opt_json (qi_history item)) then Some (py_str L (opt_json (qi_history item))) else None) = qi_history item"
    using assms by (auto simp: storable_def opt_json_def py_str_def split: option.split)
  show ?thesis
    using assms messages atts history
    by (simp add: item_from_json_def item_to_json_def get_or_def dict_item_def iter_json_def
        parse_history_def py_str_def str_or_default_def storable_def)
qed

lemma queue_round_trip:
  assumes "\<forall>i \<in> set items. storable L P dump i"
  shows "queue_from_json L P now t (JList (map (item_to_json dump t) items)) = Inr items"
  unfolding queue_from_json_def iter_json_def
  using assms by (auto simp: item_round_trip intro!: map_r_map_id)

lemma inbox_reads_back:
  assumes "\<forall>i \<in> set (all_items st). storable L P dump i"
  shows "inbox_from_json L P now (inbox_to_json dump st) = bind_r (inbox_validate st) (\<lambda>_. Inr st)"
proof -
  have "queue_from_json L P now NextTurn (JList (map (item_to_json dump NextTurn) (mi_next_turn st))) = Inr (mi_next_turn st)"
    "queue_from_json L P now NextStep (JList (map (item_to_json dump NextStep) (mi_next_step st))) = Inr (mi_next_step st)"
    using assms by (auto intro!: queue_round_trip simp: all_items_def)
  then show ?thesis
    by (cases st) (simp add: inbox_from_json_def inbox_to_json_def get_or_def dict_item_def hashable_def
        equals_int_def py_str_def Let_def)
qed

text \<open>
  what a session's inbox is stored as reads back as that inbox, items, order, counters
  and all, exactly when it passes validation.
\<close>

theorem inbox_round_trip:
  assumes "\<forall>i \<in> set (all_items st). storable L P dump i"
  shows "inbox_from_json L P now (inbox_to_json dump st) = bind_r (inbox_validate st) (\<lambda>_. Inr st)"
  by (rule inbox_reads_back [OF assms])

definition sample_dump :: "msg \<Rightarrow> json" where
  "sample_dump m = JObj [(''id'', JStr (msg_id m))]"

definition sample_item :: "string \<Rightarrow> int \<Rightarrow> queue_item" where
  "sample_item rid seq =
     \<lparr>qi_request_id = rid, qi_sequence = seq, qi_session_id = ''s1'', qi_channel_id = ''ws'',
      qi_content = ''hi'', qi_attachments = [[(''name'', JStr ''a.png'')]], qi_source = FromUser,
      qi_history = None,
      qi_messages = [base_msg RoleUser DEFAULT [] ''m'' ''t''], qi_agent_id = ''default''\<rparr>"

definition item_pydantic :: pydantic where
  "item_pydantic =
     \<lparr>pv_msg = (\<lambda>j. Inr (base_msg RoleUser DEFAULT [] ''m'' ''t'')),
      pv_text = (\<lambda>j. Inl ValueError), pv_data = (\<lambda>j. Inl ValueError)\<rparr>"

lemma sample_item_storable: "storable L item_pydantic sample_dump (sample_item rid seq)"
  by (simp add: storable_def sample_item_def sample_dump_def validate_message_def
      msg_model_validate_def item_pydantic_def validate_role_content_def)

theorem inbox_round_trip_witness:
  "\<forall>L now. inbox_from_json L item_pydantic now (inbox_to_json sample_dump
     ((new_inbox ''s1'')\<lparr>mi_next_sequence := 3, mi_next_turn := [sample_item ''r1'' 1],
                          mi_next_step := [sample_item ''r2'' 2]\<rparr>)) =
   Inr ((new_inbox ''s1'')\<lparr>mi_next_sequence := 3, mi_next_turn := [sample_item ''r1'' 1],
                          mi_next_step := [sample_item ''r2'' 2]\<rparr>)"
proof (intro allI)
  fix L now
  let ?st = "(new_inbox ''s1'')\<lparr>mi_next_sequence := 3, mi_next_turn := [sample_item ''r1'' 1],
                          mi_next_step := [sample_item ''r2'' 2]\<rparr>"
  have "\<forall>i \<in> set (all_items ?st). storable L item_pydantic sample_dump i"
    by (simp add: all_items_def sample_item_storable)
  moreover have "inbox_validate ?st = Inr ()"
    by (simp add: inbox_validate_def all_items_def sample_item_def)
  ultimately show "inbox_from_json L item_pydantic now (inbox_to_json sample_dump ?st) = Inr ?st"
    using inbox_round_trip [of ?st L item_pydantic sample_dump now] by simp
qed

end
