(* ===== verification/InboxRepository.thy ===== *)
theory InboxRepository
  imports InboxModels "HOL-Library.Multiset"
begin

text \<open>
  The persistent owner of the queues
  (\<open>packages/ftre-inbox/src/ftre_inbox/repository.py\<close>): the states by session, the file of
  each session, and every operation. Each operation runs under the lock of its session from
  its first read to its commit, so it is one step here.

  A file holds the JSON value written to it (\<open>json.loads\<close> reads back what \<open>json.dumps\<close>
  wrote), or text that does not parse. A write is atomic and either happens or raises: the argument \<open>io\<close> of an operation
  says which.
\<close>

section \<open>State\<close>

record repo_config =
  rc_capacity :: int
  rc_session_exists :: "(string \<Rightarrow> bool) option"
  rc_request_seen :: "(string \<Rightarrow> string \<Rightarrow> bool) option"
  rc_dump :: "msg \<Rightarrow> json"

datatype inbox_file = JsonFile json | BrokenFile

record inbox_repo =
  ir_states :: "(string, mutable_inbox) dict"
  ir_disk :: "string \<rightharpoonup> inbox_file"
  ir_corrupt :: "(string \<times> inbox_file) list"

definition new_repo :: "(string \<rightharpoonup> inbox_file) \<Rightarrow> inbox_repo" where
  "new_repo disk = \<lparr>ir_states = [], ir_disk = disk, ir_corrupt = []\<rparr>"

text \<open>\<open>path_for\<close>: a session id that is not a plain directory name is refused.\<close>

definition path_for :: "string \<Rightarrow> string result" where
  "path_for sid =
     (if sid = [] \<or> (\<exists>c \<in> set sid. c \<in> {CHR ''/'', CHR 0x5C, CHR '':''}) \<or> str_contains ''..'' sid
      then Inl ValueError else Inr sid)"

text \<open>\<open>_state\<close>: \<open>setdefault\<close> on the table.\<close>

definition state_of :: "inbox_repo \<Rightarrow> string \<Rightarrow> mutable_inbox" where
  "state_of r sid = (case dict_get (ir_states r) sid of None \<Rightarrow> new_inbox sid | Some st \<Rightarrow> st)"

definition put_state :: "string \<Rightarrow> mutable_inbox \<Rightarrow> inbox_repo \<Rightarrow> inbox_repo" where
  "put_state sid st r = r\<lparr>ir_states := dict_set sid st (ir_states r)\<rparr>"

definition items_of :: "queue_target \<Rightarrow> mutable_inbox \<Rightarrow> queue_item list" where
  "items_of t st = (case t of NextTurn \<Rightarrow> mi_next_turn st | NextStep \<Rightarrow> mi_next_step st)"

definition set_items :: "queue_target \<Rightarrow> queue_item list \<Rightarrow> mutable_inbox \<Rightarrow> mutable_inbox" where
  "set_items t items st =
     (case t of NextTurn \<Rightarrow> st\<lparr>mi_next_turn := items\<rparr> | NextStep \<Rightarrow> st\<lparr>mi_next_step := items\<rparr>)"

text \<open>\<open>_find\<close>: the queue and index of the first item with the request id.\<close>

definition find_item :: "mutable_inbox \<Rightarrow> string \<Rightarrow> (queue_target \<times> nat) option" where
  "find_item st rid =
     (case index_of (\<lambda>i. qi_request_id i = rid) (mi_next_turn st) of
        Some n \<Rightarrow> Some (NextTurn, n)
      | None \<Rightarrow> map_option (Pair NextStep) (index_of (\<lambda>i. qi_request_id i = rid) (mi_next_step st)))"

definition bump_revision :: "mutable_inbox \<Rightarrow> mutable_inbox" where
  "bump_revision st = st\<lparr>mi_revision := mi_revision st + 1\<rparr>"

text \<open>\<open>_commit\<close>.\<close>

definition commit_state :: "repo_config \<Rightarrow> bool \<Rightarrow> mutable_inbox \<Rightarrow> inbox_repo \<Rightarrow> inbox_repo \<times> unit result" where
  "commit_state C io st r =
     (case path_for (mi_session_id st) of
        Inl e \<Rightarrow> (r, Inl e)
      | Inr sid \<Rightarrow>
          if \<not> io then (r, Inl OSError)
          else (r\<lparr>ir_disk := (ir_disk r)(sid \<mapsto> JsonFile (inbox_to_json (rc_dump C) st))\<rparr>, Inr ()))"

text \<open>The end of a mutation: the new state is already in place when it is validated and written.\<close>

definition finish ::
  "repo_config \<Rightarrow> bool \<Rightarrow> bool \<Rightarrow> string \<Rightarrow> mutable_inbox \<Rightarrow> 'a \<Rightarrow> inbox_repo \<Rightarrow> inbox_repo \<times> 'a result" where
  "finish C io check sid st x r =
     (let r1 = put_state sid st r in
      case (if check then inbox_validate st else Inr ()) of
        Inl e \<Rightarrow> (r1, Inl e)
      | Inr _ \<Rightarrow>
          let c = commit_state C io st r1 in (fst c, bind_r (snd c) (\<lambda>_. Inr x)))"

section \<open>Operations\<close>

definition repo_snapshot :: "repo_config \<Rightarrow> string \<Rightarrow> inbox_repo \<Rightarrow> inbox_repo \<times> inbox_snapshot" where
  "repo_snapshot C sid r =
     (put_state sid (state_of r sid) r, inbox_snapshot_of (rc_capacity C) (state_of r sid))"

definition enqueue :: "queue_item \<Rightarrow> queue_target \<Rightarrow> mutable_inbox \<Rightarrow> mutable_inbox" where
  "enqueue item target st =
     (let queued = (if qi_sequence item \<le> 0 then item\<lparr>qi_sequence := mi_next_sequence st\<rparr> else item)
      in bump_revision (set_items target (items_of target st @ [queued])
           (st\<lparr>mi_next_sequence := max (mi_next_sequence st) (qi_sequence queued + 1)\<rparr>)))"

definition total_items :: "mutable_inbox \<Rightarrow> int" where
  "total_items st = int (length (mi_next_turn st)) + int (length (mi_next_step st))"

definition admit ::
  "repo_config \<Rightarrow> bool \<Rightarrow> queue_item \<Rightarrow> queue_target \<Rightarrow> inbox_repo \<Rightarrow> inbox_repo \<times> (bool \<times> int) result" where
  "admit C io item target r =
     (let sid = qi_session_id item; st = state_of r sid; r1 = put_state sid st r in
      if (case rc_session_exists C of None \<Rightarrow> False | Some f \<Rightarrow> \<not> f sid) then (r, Inl ValueError)
      else case find_item st (qi_request_id item) of
        Some (t, n) \<Rightarrow> (r1, Inr (False, int n + 1))
      | None \<Rightarrow>
          if (case rc_request_seen C of None \<Rightarrow> False | Some f \<Rightarrow> f sid (qi_request_id item))
          then (r1, Inr (False, 0))
          else if rc_capacity C \<le> total_items st then (r1, Inl OverflowError)
          else let st' = enqueue item target st in finish C io True sid st' (True, total_items st') r)"

text \<open>\<open>claim\<close>: positions first, then removal from the highest index down.\<close>

fun locate_all :: "mutable_inbox \<Rightarrow> string list \<Rightarrow> (queue_target \<times> nat) list option" where
  "locate_all st [] = Some []"
| "locate_all st (rid # rids) =
     (case find_item st rid of
        None \<Rightarrow> None
      | Some loc \<Rightarrow> map_option ((#) loc) (locate_all st rids))"

text \<open>\<open>sorted(key=index, reverse=True)\<close> keeps the order of equal elements.\<close>

definition by_index_desc :: "(queue_target \<times> nat) list \<Rightarrow> (queue_target \<times> nat) list" where
  "by_index_desc locs = rev (sort_key snd (rev locs))"

fun pop_all :: "(queue_target \<times> nat) list \<Rightarrow> mutable_inbox \<Rightarrow> mutable_inbox \<times> unit result" where
  "pop_all [] st = (st, Inr ())"
| "pop_all ((t, n) # locs) st =
     (if n < length (items_of t st) then pop_all locs (set_items t (list_pop n (items_of t st)) st)
      else (st, Inl IndexError))"

definition claim ::
  "repo_config \<Rightarrow> bool \<Rightarrow> string \<Rightarrow> string list \<Rightarrow> inbox_repo \<Rightarrow> inbox_repo \<times> queue_item list result" where
  "claim C io sid rids r =
     (if rids = [] then (r, Inr [])
      else let st = state_of r sid; r1 = put_state sid st r in
        case locate_all st rids of
          None \<Rightarrow> (r1, Inr [])
        | Some locs \<Rightarrow>
            let claimed = map (\<lambda>(t, n). items_of t st ! n) locs;
                popped = pop_all (by_index_desc locs) st
            in case snd popped of
                 Inl e \<Rightarrow> (put_state sid (fst popped) r, Inl e)
               | Inr _ \<Rightarrow> finish C io True sid (bump_revision (fst popped)) claimed r)"

definition remove_item ::
  "repo_config \<Rightarrow> bool \<Rightarrow> string \<Rightarrow> string \<Rightarrow> inbox_repo \<Rightarrow> inbox_repo \<times> queue_item option result" where
  "remove_item C io sid rid r =
     (let st = state_of r sid in
      case find_item st rid of
        None \<Rightarrow> (put_state sid st r, Inr None)
      | Some (t, n) \<Rightarrow>
          finish C io False sid (bump_revision (set_items t (list_pop n (items_of t st)) st))
            (Some (items_of t st ! n)) r)"

definition edited :: "string \<Rightarrow> jdict list \<Rightarrow> queue_item \<Rightarrow> queue_item" where
  "edited content atts item = item\<lparr>qi_content := content, qi_attachments := atts, qi_messages := []\<rparr>"

definition edit_item ::
  "repo_config \<Rightarrow> bool \<Rightarrow> string \<Rightarrow> string \<Rightarrow> string \<Rightarrow> jdict list \<Rightarrow> inbox_repo \<Rightarrow> inbox_repo \<times> queue_item option result" where
  "edit_item C io sid rid content atts r =
     (let st = state_of r sid in
      case find_item st rid of
        None \<Rightarrow> (put_state sid st r, Inr None)
      | Some (t, n) \<Rightarrow>
          let item = edited content atts (items_of t st ! n)
          in finish C io False sid (bump_revision (set_items t ((items_of t st)[n := item]) st)) (Some item) r)"

definition promoted :: "nat \<Rightarrow> mutable_inbox \<Rightarrow> mutable_inbox" where
  "promoted n st =
     (let item = (mi_next_turn st ! n)\<lparr>qi_source := FromUser\<rparr>
      in bump_revision (st\<lparr>mi_next_turn := list_pop n (mi_next_turn st),
                           mi_next_step := sort_key qi_sequence (mi_next_step st @ [item])\<rparr>))"

definition promote ::
  "repo_config \<Rightarrow> bool \<Rightarrow> string \<Rightarrow> string \<Rightarrow> inbox_repo \<Rightarrow> inbox_repo \<times> queue_item option result" where
  "promote C io sid rid r =
     (let st = state_of r sid in
      case find_item st rid of
        None \<Rightarrow> (put_state sid st r, Inr None)
      | Some (NextStep, n) \<Rightarrow> (put_state sid st r, Inr (Some (mi_next_step st ! n)))
      | Some (NextTurn, n) \<Rightarrow>
          finish C io True sid (promoted n st) (Some ((mi_next_turn st ! n)\<lparr>qi_source := FromUser\<rparr>)) r)"

definition delete_session :: "bool \<Rightarrow> string \<Rightarrow> inbox_repo \<Rightarrow> inbox_repo \<times> unit result" where
  "delete_session io sid r =
     (let r1 = r\<lparr>ir_states := dict_pop sid (ir_states r)\<rparr> in
      case path_for sid of
        Inl e \<Rightarrow> (r1, Inl e)
      | Inr p \<Rightarrow>
          if ir_disk r p = None then (r1, Inr ())
          else if \<not> io then (r1, Inl OSError)
          else (r1\<lparr>ir_disk := (ir_disk r)(p := None)\<rparr>, Inr ()))"

definition recoverable_sessions :: "inbox_repo \<Rightarrow> string list" where
  "recoverable_sessions r =
     map fst (filter (\<lambda>(sid, st). mi_next_turn st \<noteq> [] \<or> mi_next_step st \<noteq> []) (ir_states r))"

definition close_repo :: "inbox_repo \<Rightarrow> inbox_repo" where
  "close_repo r = r\<lparr>ir_states := []\<rparr>"

section \<open>Loading\<close>

definition has_run_target :: "json option \<Rightarrow> bool" where
  "has_run_target v =
     (case v of
        Some (JList raws) \<Rightarrow> list_ex (\<lambda>i. jget ''target_run_id'' i \<noteq> None) raws
      | _ \<Rightarrow> False)"

text \<open>Whether a file that was read is written again in the current schema.\<close>

definition needs_rewrite :: "json \<Rightarrow> bool" where
  "needs_rewrite raw \<longleftrightarrow>
     \<not> (\<exists>v. jget ''schema_version'' raw = Some v \<and> equals_int v 3) \<or>
     (\<exists>v. jget ''inflight'' raw = Some v \<and> jtruthy v) \<or>
     has_run_target (jget ''next_turn'' raw) \<or> has_run_target (jget ''next_step'' raw)"

definition set_aside :: "string \<Rightarrow> inbox_file \<Rightarrow> inbox_repo \<Rightarrow> inbox_repo" where
  "set_aside name f r =
     r\<lparr>ir_disk := (ir_disk r)(name := None), ir_corrupt := ir_corrupt r @ [(name, f)]\<rparr>"

definition load_one ::
  "repo_config \<Rightarrow> pylib \<Rightarrow> pydantic \<Rightarrow> string \<Rightarrow> bool \<Rightarrow> string \<Rightarrow> inbox_repo \<Rightarrow> inbox_repo" where
  "load_one C L P now io name r =
     (case ir_disk r name of
        None \<Rightarrow> r
      | Some BrokenFile \<Rightarrow> set_aside name BrokenFile r
      | Some (JsonFile raw) \<Rightarrow>
          (case inbox_from_json L P now raw of
             Inl e \<Rightarrow> set_aside name (JsonFile raw) r
           | Inr st \<Rightarrow>
               let r1 = put_state (mi_session_id st) st r in
               if \<not> needs_rewrite raw then r1
               else let c = commit_state C io st r1 in
                    case snd c of
                      Inr _ \<Rightarrow> fst c
                    | Inl e \<Rightarrow> set_aside name (JsonFile raw) (fst c)))"

text \<open>\<open>load_all\<close> over the files in the order the directory listing gives them.\<close>

fun load_all ::
  "repo_config \<Rightarrow> pylib \<Rightarrow> pydantic \<Rightarrow> string \<Rightarrow> bool \<Rightarrow> string list \<Rightarrow> inbox_repo \<Rightarrow> inbox_repo" where
  "load_all C L P now io [] r = r"
| "load_all C L P now io (name # names) r = load_all C L P now io names (load_one C L P now io name r)"

section \<open>Positions\<close>

lemma items_set_items [simp]:
  "items_of t (set_items t xs st) = xs" "t \<noteq> u \<Longrightarrow> items_of u (set_items t xs st) = items_of u st"
  by (cases t; cases u; simp add: items_of_def set_items_def)+

lemma set_items_fields [simp]:
  "mi_session_id (set_items t xs st) = mi_session_id st" "mi_revision (set_items t xs st) = mi_revision st"
  "mi_next_sequence (set_items t xs st) = mi_next_sequence st"
  by (cases t; simp add: set_items_def)+

lemma bump_fields [simp]:
  "mi_session_id (bump_revision st) = mi_session_id st"
  "mi_next_sequence (bump_revision st) = mi_next_sequence st"
  "mi_next_turn (bump_revision st) = mi_next_turn st" "mi_next_step (bump_revision st) = mi_next_step st"
  "items_of t (bump_revision st) = items_of t st" "all_items (bump_revision st) = all_items st"
  by (simp_all add: bump_revision_def items_of_def all_items_def split: queue_target.split)

lemma mset_all_items: "mset (all_items st) = mset (items_of NextTurn st) + mset (items_of NextStep st)"
  by (simp add: all_items_def items_of_def)

lemma mset_set_items:
  "mset (all_items (set_items t xs st)) + mset (items_of t st) = mset (all_items st) + mset xs"
  by (cases t) (simp_all add: all_items_def set_items_def items_of_def)

lemma mset_list_pop: "n < length xs \<Longrightarrow> mset xs = {# xs ! n #} + mset (list_pop n xs)"
  unfolding list_pop_def by (subst id_take_nth_drop [of n xs]) simp_all

lemma list_pop_nth: "m < n \<Longrightarrow> n < length xs \<Longrightarrow> list_pop n xs ! m = xs ! m"
  by (simp add: list_pop_def nth_append)

lemma length_list_pop: "n < length xs \<Longrightarrow> length (list_pop n xs) = length xs - 1"
  by (simp add: list_pop_def)

lemma sorted_wrt_list_pop: "sorted_wrt R xs \<Longrightarrow> sorted_wrt R (list_pop n xs)"
proof (cases "n < length xs")
  case True
  assume "sorted_wrt R xs"
  then have "sorted_wrt R (take n xs @ xs ! n # drop (Suc n) xs)"
    using True by (simp add: id_take_nth_drop [symmetric])
  then show ?thesis by (simp add: list_pop_def sorted_wrt_append)
qed (simp add: list_pop_def sorted_wrt_take)

lemma find_item_Some:
  assumes "find_item st rid = Some (t, n)"
  shows "n < length (items_of t st)" "qi_request_id (items_of t st ! n) = rid"
  using assms index_of_Some
  by (auto simp: find_item_def items_of_def split: option.splits)

lemma find_item_None_iff: "find_item st rid = None \<longleftrightarrow> rid \<notin> qi_request_id ` set (all_items st)"
proof -
  have "find_item st rid = None \<longleftrightarrow> index_of (\<lambda>i. qi_request_id i = rid) (mi_next_turn st) = None \<and>
      index_of (\<lambda>i. qi_request_id i = rid) (mi_next_step st) = None"
    by (auto simp: find_item_def split: option.splits)
  then show ?thesis unfolding index_of_None_iff all_items_def by auto
qed

lemma locate_all_Some:
  assumes "locate_all st rids = Some locs"
  shows "length locs = length rids"
    "\<And>t n. (t, n) \<in> set locs \<Longrightarrow> n < length (items_of t st)"
    "map (\<lambda>(t, n). qi_request_id (items_of t st ! n)) locs = rids"
proof -
  have "length locs = length rids \<and> (\<forall>(t, n) \<in> set locs. n < length (items_of t st)) \<and>
      map (\<lambda>(t, n). qi_request_id (items_of t st ! n)) locs = rids"
    using assms
  proof (induction rids arbitrary: locs)
    case Nil
    then show ?case by simp
  next
    case (Cons rid rids)
    then obtain t n rest where "find_item st rid = Some (t, n)" "locate_all st rids = Some rest"
        "locs = (t, n) # rest"
      by (auto split: option.splits)
    then show ?case using Cons.IH find_item_Some by auto
  qed
  then show "length locs = length rids" "\<And>t n. (t, n) \<in> set locs \<Longrightarrow> n < length (items_of t st)"
    "map (\<lambda>(t, n). qi_request_id (items_of t st ! n)) locs = rids" by auto
qed

text \<open>Removal from the highest index down takes out exactly the located items.\<close>

lemma pop_all_spec:
  assumes "sorted_wrt (\<lambda>a b. snd b \<le> snd a) locs" and "distinct locs"
    and "\<forall>(t, n) \<in> set locs. n < length (items_of t st)"
  shows "snd (pop_all locs st) = Inr () \<and>
    mset (all_items st) = mset (map (\<lambda>(t, n). items_of t st ! n) locs) + mset (all_items (fst (pop_all locs st))) \<and>
    (\<forall>R t. sorted_wrt R (items_of t st) \<longrightarrow> sorted_wrt R (items_of t (fst (pop_all locs st)))) \<and>
    (\<forall>t. set (items_of t (fst (pop_all locs st))) \<subseteq> set (items_of t st)) \<and>
    mi_session_id (fst (pop_all locs st)) = mi_session_id st \<and>
    mi_next_sequence (fst (pop_all locs st)) = mi_next_sequence st"
  using assms
proof (induction locs arbitrary: st)
  case Nil
  then show ?case by simp
next
  case (Cons loc locs)
  obtain t n where loc: "loc = (t, n)" by fastforce
  let ?st = "set_items t (list_pop n (items_of t st)) st"
  have n: "n < length (items_of t st)" using Cons.prems(3) loc by simp
  have before: "m \<le> n \<and> (u = t \<longrightarrow> m < n) \<and> m < length (items_of u st)" if "(u, m) \<in> set locs" for u m
    using that Cons.prems loc by (fastforce simp: le_less)
  have same: "items_of u ?st ! m = items_of u st ! m \<and> m < length (items_of u ?st)"
    if "(u, m) \<in> set locs" for u m
    using before [OF that] n by (cases "u = t") (auto simp: list_pop_nth length_list_pop)
  have map_eq: "map (\<lambda>(t, n). items_of t ?st ! n) locs = map (\<lambda>(t, n). items_of t st ! n) locs"
    using same by auto
  have IH: "snd (pop_all locs ?st) = Inr () \<and>
    mset (all_items ?st) = mset (map (\<lambda>(t, n). items_of t ?st ! n) locs) + mset (all_items (fst (pop_all locs ?st))) \<and>
    (\<forall>R t. sorted_wrt R (items_of t ?st) \<longrightarrow> sorted_wrt R (items_of t (fst (pop_all locs ?st)))) \<and>
    (\<forall>t. set (items_of t (fst (pop_all locs ?st))) \<subseteq> set (items_of t ?st)) \<and>
    mi_session_id (fst (pop_all locs ?st)) = mi_session_id ?st \<and>
    mi_next_sequence (fst (pop_all locs ?st)) = mi_next_sequence ?st"
    by (rule Cons.IH) (use Cons.prems same in auto)
  have "mset (all_items ?st) + mset (items_of t st) = mset (all_items st) + mset (list_pop n (items_of t st))"
    by (rule mset_set_items)
  then have one: "mset (all_items st) = {# items_of t st ! n #} + mset (all_items ?st)"
    unfolding mset_list_pop [OF n] by simp
  have kept: "sorted_wrt R (items_of u ?st)" if "sorted_wrt R (items_of u st)" for R u
    using that by (cases "u = t") (auto intro: sorted_wrt_list_pop)
  have pop: "pop_all (loc # locs) st = pop_all locs ?st" using n loc by simp
  have rest: "mset (all_items ?st) = mset (map (\<lambda>(t, n). items_of t st ! n) locs) +
      mset (all_items (fst (pop_all locs ?st)))"
    using IH unfolding map_eq by blast
  have all: "mset (all_items st) = mset (map (\<lambda>(t, n). items_of t st ! n) (loc # locs)) +
      mset (all_items (fst (pop_all locs ?st)))"
    unfolding one rest loc by simp
  have sub: "set (items_of u ?st) \<subseteq> set (items_of u st)" for u
    by (cases "u = t") (auto simp: list_pop_def dest: in_set_takeD in_set_dropD)
  then have "\<forall>u. set (items_of u (fst (pop_all locs ?st))) \<subseteq> set (items_of u st)"
    using IH by blast
  then show ?case
    unfolding pop using IH all kept by (metis (lifting) set_items_fields(1,3))
qed

lemma by_index_desc_props:
  "sorted_wrt (\<lambda>a b. snd b \<le> snd a) (by_index_desc locs)" "mset (by_index_desc locs) = mset locs"
  "set (by_index_desc locs) = set locs" "distinct (by_index_desc locs) = distinct locs"
proof -
  have "sorted_wrt (\<lambda>a b. snd a \<le> snd b) (sort_key snd (rev locs))"
    using sorted_sort_key [of snd "rev locs"] by (simp add: sorted_map)
  then show "sorted_wrt (\<lambda>a b. snd b \<le> snd a) (by_index_desc locs)"
    by (simp add: by_index_desc_def sorted_wrt_rev)
qed (simp_all add: by_index_desc_def)

section \<open>The invariant of one inbox\<close>

definition item_key :: "queue_item \<Rightarrow> string \<times> int" where
  "item_key i = (qi_request_id i, qi_sequence i)"

text \<open>What \<open>validate\<close> checks, and that the counter is ahead of every item.\<close>

definition inbox_inv :: "mutable_inbox \<Rightarrow> bool" where
  "inbox_inv st \<longleftrightarrow> inbox_validate st = Inr () \<and>
     (\<forall>i \<in> set (all_items st). qi_sequence i < mi_next_sequence st) \<and> 0 < mi_next_sequence st"

lemma inbox_validate_iff:
  "inbox_validate st = Inr () \<longleftrightarrow> distinct (map qi_request_id (all_items st)) \<and>
     distinct (map qi_sequence (all_items st)) \<and> (\<forall>t. sorted (map qi_sequence (items_of t st)))"
proof -
  have "(\<forall>t. sorted (map qi_sequence (items_of t st))) \<longleftrightarrow>
      sorted (map qi_sequence (mi_next_turn st)) \<and> sorted (map qi_sequence (mi_next_step st))"
    by (metis (full_types) items_of_def queue_target.exhaust queue_target.simps(3,4))
  then show ?thesis by (simp add: inbox_validate_def)
qed

lemma distinct_map_mset_mono:
  "mset (map f ys) \<subseteq># mset (map f xs) \<Longrightarrow> distinct (map f xs) \<Longrightarrow> distinct (map f ys)"
  unfolding distinct_count_atmost_1
  by (metis (no_types, lifting) le_zero_eq le_eq_less_or_eq less_one mset_subset_eq_count mset_subset_eqD set_mset_mset not_in_iff)

lemma keys_maps:
  "mset (map qi_request_id xs) = image_mset fst (mset (map item_key xs))"
  "mset (map qi_sequence xs) = image_mset snd (mset (map item_key xs))"
  by (simp_all add: item_key_def multiset.map_comp comp_def)

text \<open>Every operation but admission keeps a part of the keys, and the queues sorted.\<close>

lemma inbox_inv_mono:
  assumes "inbox_inv st"
    and keys: "mset (map item_key (all_items st')) \<subseteq># mset (map item_key (all_items st))"
    and "\<And>t. sorted (map qi_sequence (items_of t st'))" and "mi_next_sequence st' = mi_next_sequence st"
  shows "inbox_inv st'"
proof -
  have "mset (map qi_request_id (all_items st')) \<subseteq># mset (map qi_request_id (all_items st))"
    "mset (map qi_sequence (all_items st')) \<subseteq># mset (map qi_sequence (all_items st))"
    unfolding keys_maps by (rule image_mset_subseteq_mono [OF keys])+
  note sub = this
  have "distinct (map qi_request_id (all_items st'))" "distinct (map qi_sequence (all_items st'))"
    using assms(1) distinct_map_mset_mono [OF sub(1)] distinct_map_mset_mono [OF sub(2)]
    by (simp_all add: inbox_inv_def inbox_validate_iff)
  moreover have "qi_sequence i < mi_next_sequence st" if "i \<in> set (all_items st')" for i
  proof -
    have "qi_sequence i \<in> set_mset (mset (map qi_sequence (all_items st')))" using that by auto
    then have "qi_sequence i \<in> set_mset (mset (map qi_sequence (all_items st)))"
      using sub(2) by (meson mset_subset_eqD)
    then show ?thesis using assms(1) by (auto simp: inbox_inv_def)
  qed
  ultimately show ?thesis
    using assms by (simp add: inbox_inv_def inbox_validate_iff)
qed

section \<open>What the operations do to an inbox\<close>

lemma sorted_snoc_max:
  "sorted (map f xs) \<Longrightarrow> (\<And>x. x \<in> set xs \<Longrightarrow> f x \<le> f y) \<Longrightarrow> sorted (map f (xs @ [y]))"
  by (auto simp: sorted_append)

lemma items_of_subset: "set (items_of t st) \<subseteq> set (all_items st)"
  by (cases t) (auto simp: items_of_def all_items_def)

text \<open>An admitted item as it is stored; the counter gives a sequence to those that bring none.\<close>

definition numbered :: "queue_item \<Rightarrow> mutable_inbox \<Rightarrow> queue_item" where
  "numbered item st = (if qi_sequence item \<le> 0 then item\<lparr>qi_sequence := mi_next_sequence st\<rparr> else item)"

lemma enqueue_facts:
  "items_of u (enqueue item t st) = (if u = t then items_of t st @ [numbered item st] else items_of u st)"
  "mset (all_items (enqueue item t st)) = {# numbered item st #} + mset (all_items st)"
  "mi_next_sequence (enqueue item t st) = max (mi_next_sequence st) (qi_sequence (numbered item st) + 1)"
  "mi_session_id (enqueue item t st) = mi_session_id st"
  by (cases t; cases u; simp add: enqueue_def numbered_def Let_def items_of_def set_items_def
      bump_revision_def all_items_def)+

lemma enqueue_inv:
  assumes inv: "inbox_inv st" and new: "find_item st (qi_request_id item) = None" and "qi_sequence item \<le> 0"
  shows "inbox_inv (enqueue item t st)"
proof -
  let ?n = "numbered item st"
  have n: "qi_sequence ?n = mi_next_sequence st" "qi_request_id ?n = qi_request_id item"
    using assms(3) by (simp_all add: numbered_def)
  have below: "qi_sequence i < mi_next_sequence st" if "i \<in> set (all_items st)" for i
    using inv that by (simp add: inbox_inv_def)
  have fresh: "mi_next_sequence st \<notin> qi_sequence ` set (all_items st)"
    using below by (metis image_iff less_irrefl)
  have dist: "mset (map f (all_items (enqueue item t st))) = mset (f ?n # map f (all_items st))" for f :: "queue_item \<Rightarrow> 'a"
    by (simp add: enqueue_facts(2))
  have "distinct (map qi_request_id (all_items (enqueue item t st)))"
    "distinct (map qi_sequence (all_items (enqueue item t st)))"
    unfolding mset_eq_imp_distinct_iff [OF dist]
    using inv new fresh by (auto simp: n inbox_inv_def inbox_validate_iff find_item_None_iff)
  moreover have "sorted (map qi_sequence (items_of u (enqueue item t st)))" for u
    using inv below items_of_subset [of t st]
    by (auto simp: enqueue_facts(1) n inbox_inv_def inbox_validate_iff less_imp_le intro!: sorted_snoc_max
        simp del: map_append)
  moreover have "qi_sequence i < mi_next_sequence (enqueue item t st)" if "i \<in> set (all_items (enqueue item t st))" for i
  proof -
    have "i \<in> set_mset (mset (all_items (enqueue item t st)))" using that by simp
    then have "i \<in># {# ?n #} + mset (all_items st)" unfolding enqueue_facts(2) .
    then show ?thesis using below [of i] n by (auto simp: enqueue_facts(3))
  qed
  ultimately show ?thesis
    using inv by (simp add: inbox_inv_def inbox_validate_iff enqueue_facts(3) less_max_iff_disj)
qed

lemma pop_one_inv:
  assumes "inbox_inv st" and "n < length (items_of t st)"
  shows "inbox_inv (bump_revision (set_items t (list_pop n (items_of t st)) st))"
    and "mset (all_items st) = {# items_of t st ! n #} + mset (all_items (bump_revision (set_items t (list_pop n (items_of t st)) st)))"
proof -
  have all: "mset (all_items st) = {# items_of t st ! n #} + mset (all_items (set_items t (list_pop n (items_of t st)) st))"
    using pop_all_spec [of "[(t, n)]" st] assms(2) by simp
  then show "mset (all_items st) = {# items_of t st ! n #} + mset (all_items (bump_revision (set_items t (list_pop n (items_of t st)) st)))"
    by simp
  show "inbox_inv (bump_revision (set_items t (list_pop n (items_of t st)) st))"
  proof (rule inbox_inv_mono [OF assms(1)])
    show "mset (map item_key (all_items (bump_revision (set_items t (list_pop n (items_of t st)) st))))
        \<subseteq># mset (map item_key (all_items st))"
      by (simp add: all)
    show "sorted (map qi_sequence (items_of u (bump_revision (set_items t (list_pop n (items_of t st)) st))))" for u
      using assms(1) by (cases "u = t")
        (auto simp: inbox_inv_def inbox_validate_iff sorted_map intro: sorted_wrt_list_pop)
  qed simp
qed

lemma claim_inv:
  assumes "inbox_inv st" and locs: "locate_all st rids = Some locs" and "distinct rids"
  shows "snd (pop_all (by_index_desc locs) st) = Inr ()"
    and "inbox_inv (bump_revision (fst (pop_all (by_index_desc locs) st)))"
    and "mset (all_items st) = mset (map (\<lambda>(t, n). items_of t st ! n) locs) +
      mset (all_items (fst (pop_all (by_index_desc locs) st)))"
    and "mi_session_id (fst (pop_all (by_index_desc locs) st)) = mi_session_id st"
    and "\<And>t. set (items_of t (fst (pop_all (by_index_desc locs) st))) \<subseteq> set (items_of t st)"
proof -
  have "distinct (map (\<lambda>(t, n). qi_request_id (items_of t st ! n)) locs)"
    using locate_all_Some(3) [OF locs] assms(3) by simp
  then have "distinct locs" by (simp add: distinct_map)
  then have spec: "snd (pop_all (by_index_desc locs) st) = Inr () \<and>
    mset (all_items st) = mset (map (\<lambda>(t, n). items_of t st ! n) (by_index_desc locs)) +
      mset (all_items (fst (pop_all (by_index_desc locs) st))) \<and>
    (\<forall>R t. sorted_wrt R (items_of t st) \<longrightarrow> sorted_wrt R (items_of t (fst (pop_all (by_index_desc locs) st)))) \<and>
    (\<forall>t. set (items_of t (fst (pop_all (by_index_desc locs) st))) \<subseteq> set (items_of t st)) \<and>
    mi_session_id (fst (pop_all (by_index_desc locs) st)) = mi_session_id st \<and>
    mi_next_sequence (fst (pop_all (by_index_desc locs) st)) = mi_next_sequence st"
    by (intro pop_all_spec) (use locate_all_Some(2) [OF locs] in \<open>auto simp: by_index_desc_props\<close>)
  then show "snd (pop_all (by_index_desc locs) st) = Inr ()"
    "mi_session_id (fst (pop_all (by_index_desc locs) st)) = mi_session_id st"
    "\<And>t. set (items_of t (fst (pop_all (by_index_desc locs) st))) \<subseteq> set (items_of t st)" by simp_all
  show all: "mset (all_items st) = mset (map (\<lambda>(t, n). items_of t st ! n) locs) +
      mset (all_items (fst (pop_all (by_index_desc locs) st)))"
    using spec by (simp add: by_index_desc_props(2))
  show "inbox_inv (bump_revision (fst (pop_all (by_index_desc locs) st)))"
  proof (rule inbox_inv_mono [OF assms(1)])
    show "sorted (map qi_sequence (items_of u (bump_revision (fst (pop_all (by_index_desc locs) st)))))" for u
      using assms(1) spec by (simp add: inbox_inv_def inbox_validate_iff sorted_map)
    show "mset (map item_key (all_items (bump_revision (fst (pop_all (by_index_desc locs) st)))))
        \<subseteq># mset (map item_key (all_items st))"
      using all by (simp add: mset_map)
  qed (use spec in simp)
qed

lemma edit_inv:
  assumes "inbox_inv st" and "n < length (items_of t st)"
  shows "inbox_inv (bump_revision (set_items t ((items_of t st)[n := edited c a (items_of t st ! n)]) st))"
    and "map qi_request_id (all_items (bump_revision (set_items t ((items_of t st)[n := edited c a (items_of t st ! n)]) st)))
      = map qi_request_id (all_items st)"
proof -
  have keys: "map item_key ((items_of t st)[n := edited c a (items_of t st ! n)]) = map item_key (items_of t st)"
    using assms(2) by (auto simp: map_update edited_def item_key_def intro!: list_update_same_conv [THEN iffD2])
  then have seqs: "map qi_sequence ((items_of t st)[n := edited c a (items_of t st ! n)]) = map qi_sequence (items_of t st)"
    and ids: "map qi_request_id ((items_of t st)[n := edited c a (items_of t st ! n)]) = map qi_request_id (items_of t st)"
    using assms(2) by (auto simp: map_update edited_def intro!: list_update_same_conv [THEN iffD2])
  show "inbox_inv (bump_revision (set_items t ((items_of t st)[n := edited c a (items_of t st ! n)]) st))"
  proof (rule inbox_inv_mono [OF assms(1)])
    show "sorted (map qi_sequence (items_of u (bump_revision (set_items t ((items_of t st)[n := edited c a (items_of t st ! n)]) st))))" for u
      using assms(1) seqs by (cases "u = t") (auto simp: inbox_inv_def inbox_validate_iff)
    show "mset (map item_key (all_items (bump_revision (set_items t ((items_of t st)[n := edited c a (items_of t st ! n)]) st))))
        \<subseteq># mset (map item_key (all_items st))"
      using keys by (cases t) (simp_all add: all_items_def set_items_def items_of_def)
  qed simp
  show "map qi_request_id (all_items (bump_revision (set_items t ((items_of t st)[n := edited c a (items_of t st ! n)]) st)))
      = map qi_request_id (all_items st)"
    using ids by (cases t) (simp_all add: all_items_def set_items_def items_of_def)
qed

lemma promote_inv:
  assumes "inbox_inv st" and "n < length (mi_next_turn st)"
  shows "inbox_inv (promoted n st)"
    and "mset (map qi_request_id (all_items (promoted n st))) = mset (map qi_request_id (all_items st))"
    and "mi_session_id (promoted n st) = mi_session_id st"
proof -
  let ?i = "(mi_next_turn st ! n)\<lparr>qi_source := FromUser\<rparr>"
  have all: "mset (all_items (promoted n st)) + {# mi_next_turn st ! n #} = mset (all_items st) + {# ?i #}"
    using mset_list_pop [OF assms(2)] by (simp add: promoted_def Let_def all_items_def)
  have "mset (map item_key (all_items (promoted n st))) + {# item_key ?i #} =
      mset (map item_key (all_items st)) + {# item_key ?i #}"
    using arg_cong [OF all, of "image_mset item_key"] by (simp add: item_key_def)
  then have keys: "mset (map item_key (all_items (promoted n st))) = mset (map item_key (all_items st))"
    by simp
  show "inbox_inv (promoted n st)"
  proof (rule inbox_inv_mono [OF assms(1)])
    show "sorted (map qi_sequence (items_of u (promoted n st)))" for u
    proof (cases u)
      case NextTurn
      have "sorted_wrt (\<lambda>a b. qi_sequence a \<le> qi_sequence b) (mi_next_turn st)"
        using assms(1) by (simp add: inbox_inv_def inbox_validate_def sorted_map split: if_splits)
      then show ?thesis
        using sorted_wrt_list_pop by (simp add: NextTurn items_of_def promoted_def Let_def sorted_map)
    next
      case NextStep
      then show ?thesis by (simp add: items_of_def promoted_def Let_def)
    qed
    show "mset (map item_key (all_items (promoted n st))) \<subseteq># mset (map item_key (all_items st))"
      by (simp only: keys subset_mset.order_refl)
    show "mi_next_sequence (promoted n st) = mi_next_sequence st" by (simp add: promoted_def Let_def)
  qed
  show "mset (map qi_request_id (all_items (promoted n st))) = mset (map qi_request_id (all_items st))"
    unfolding keys_maps keys ..
  show "mi_session_id (promoted n st) = mi_session_id st" by (simp add: promoted_def Let_def)
qed

section \<open>Sequences of operations\<close>

text \<open>
  What can happen to a repository: its operations, and a restart, which drops the memory (after
  a close or a crash between two operations) and loads the files in some order.
\<close>

datatype repo_op =
    OpAdmit queue_item queue_target
  | OpClaim string "string list"
  | OpRemove string string
  | OpEdit string string string "jdict list"
  | OpPromote string string
  | OpSnapshot string
  | OpDelete string
  | OpRestart "string list"

fun repo_step ::
  "repo_config \<Rightarrow> pylib \<Rightarrow> pydantic \<Rightarrow> string \<Rightarrow> bool \<Rightarrow> repo_op \<Rightarrow> inbox_repo \<Rightarrow> inbox_repo" where
  "repo_step C L P now io (OpAdmit item t) r = fst (admit C io item t r)"
| "repo_step C L P now io (OpClaim sid rids) r = fst (claim C io sid rids r)"
| "repo_step C L P now io (OpRemove sid rid) r = fst (remove_item C io sid rid r)"
| "repo_step C L P now io (OpEdit sid rid c a) r = fst (edit_item C io sid rid c a r)"
| "repo_step C L P now io (OpPromote sid rid) r = fst (promote C io sid rid r)"
| "repo_step C L P now io (OpSnapshot sid) r = fst (repo_snapshot C sid r)"
| "repo_step C L P now io (OpDelete sid) r = fst (delete_session io sid r)"
| "repo_step C L P now io (OpRestart names) r = load_all C L P now io names (close_repo r)"

text \<open>
  What the service passes in: items without a sequence of their own (it leaves the number to
  the repository) that can be stored, and claims of distinct requests.
\<close>

fun op_ok :: "repo_config \<Rightarrow> pylib \<Rightarrow> pydantic \<Rightarrow> repo_op \<Rightarrow> bool" where
  "op_ok C L P (OpAdmit item t) \<longleftrightarrow> qi_sequence item \<le> 0 \<and> storable L P (rc_dump C) item"
| "op_ok C L P (OpClaim sid rids) \<longleftrightarrow> distinct rids"
| "op_ok C L P _ \<longleftrightarrow> True"

inductive repo_reachable :: "repo_config \<Rightarrow> pylib \<Rightarrow> pydantic \<Rightarrow> inbox_repo \<Rightarrow> bool" for C L P where
  empty: "repo_reachable C L P (new_repo Map.empty)"
| step: "repo_reachable C L P r \<Longrightarrow> op_ok C L P op \<Longrightarrow> repo_reachable C L P (repo_step C L P now io op r)"

definition inbox_ok :: "repo_config \<Rightarrow> pylib \<Rightarrow> pydantic \<Rightarrow> string \<Rightarrow> mutable_inbox \<Rightarrow> bool" where
  "inbox_ok C L P sid st \<longleftrightarrow> mi_session_id st = sid \<and> inbox_inv st \<and>
     (\<forall>i \<in> set (all_items st). storable L P (rc_dump C) i)"

definition file_ok :: "repo_config \<Rightarrow> pylib \<Rightarrow> pydantic \<Rightarrow> string \<Rightarrow> inbox_file \<Rightarrow> bool" where
  "file_ok C L P name f \<longleftrightarrow> (\<exists>st. f = JsonFile (inbox_to_json (rc_dump C) st) \<and> inbox_ok C L P name st)"

definition repo_inv :: "repo_config \<Rightarrow> pylib \<Rightarrow> pydantic \<Rightarrow> inbox_repo \<Rightarrow> bool" where
  "repo_inv C L P r \<longleftrightarrow> (\<forall>sid. inbox_ok C L P sid (state_of r sid)) \<and>
     (\<forall>name f. ir_disk r name = Some f \<longrightarrow> file_ok C L P name f) \<and> ir_corrupt r = []"

subsection \<open>Each operation keeps the invariant\<close>

lemma new_inbox_ok [simp]: "inbox_ok C L P sid (new_inbox sid)"
  by (simp add: inbox_ok_def new_inbox_def inbox_inv_def inbox_validate_def all_items_def)

lemma state_of_put [simp]: "state_of (put_state sid st r) sid' = (if sid' = sid then st else state_of r sid')"
  by (simp add: state_of_def put_state_def)

lemma put_fields [simp]:
  "ir_disk (put_state sid st r) = ir_disk r" "ir_corrupt (put_state sid st r) = ir_corrupt r"
  by (simp_all add: put_state_def)

lemma put_state_inv: "repo_inv C L P r \<Longrightarrow> inbox_ok C L P sid st \<Longrightarrow> repo_inv C L P (put_state sid st r)"
  by (simp add: repo_inv_def)

lemma path_for_Inr: "path_for sid = Inr p \<Longrightarrow> p = sid"
  by (simp add: path_for_def split: if_splits)

lemma state_of_disk [simp]: "state_of (r\<lparr>ir_disk := d\<rparr>) sid = state_of r sid"
  by (simp add: state_of_def)

lemma commit_state_of [simp]:
  "state_of (fst (commit_state C io st r)) sid = state_of r sid"
  "ir_corrupt (fst (commit_state C io st r)) = ir_corrupt r"
  by (auto simp: commit_state_def split: sum.split)

lemma commit_inv:
  assumes "repo_inv C L P r" and "inbox_ok C L P (mi_session_id st) st"
  shows "repo_inv C L P (fst (commit_state C io st r))"
  using assms path_for_Inr [of "mi_session_id st"]
  by (auto simp: commit_state_def repo_inv_def file_ok_def split: sum.split)

lemma finish_inv:
  assumes "repo_inv C L P r" and "inbox_ok C L P sid st"
  shows "repo_inv C L P (fst (finish C io check sid st x r))"
  using commit_inv [OF put_state_inv [OF assms]] put_state_inv [OF assms] assms(2)
  by (auto simp: finish_def Let_def inbox_ok_def split: sum.split)

lemma finish_state_of: "state_of (fst (finish C io check sid st x r)) sid' = (if sid' = sid then st else state_of r sid')"
  by (auto simp: finish_def Let_def split: sum.split)

lemma inbox_ok_mono:
  assumes "inbox_ok C L P sid st" and "inbox_inv st'" and "mi_session_id st' = mi_session_id st"
    and "set (all_items st') \<subseteq> set (all_items st)"
  shows "inbox_ok C L P sid st'"
  using assms by (auto simp: inbox_ok_def)

lemma mset_subset_set: "mset xs = A + mset ys \<Longrightarrow> set ys \<subseteq> set xs"
  by (metis set_mset_mset set_mset_union sup_ge2)

lemma enqueue_ok:
  assumes ok: "inbox_ok C L P sid st" and "find_item st (qi_request_id item) = None"
    and "op_ok C L P (OpAdmit item t)"
  shows "inbox_ok C L P sid (enqueue item t st)"
proof -
  have "set (all_items (enqueue item t st)) = insert (numbered item st) (set (all_items st))"
    using arg_cong [OF enqueue_facts(2), of set_mset item t st] by simp
  then show ?thesis
    using ok enqueue_inv [of st item t] assms(2,3)
    by (auto simp: inbox_ok_def enqueue_facts(4) numbered_def storable_def)
qed

lemma claim_ok:
  assumes ok: "inbox_ok C L P sid st" and locs: "locate_all st rids = Some locs" and "distinct rids"
  shows "inbox_ok C L P sid (bump_revision (fst (pop_all (by_index_desc locs) st)))"
proof -
  have inv: "inbox_inv st" using ok by (simp add: inbox_ok_def)
  note c = claim_inv [OF inv locs assms(3)]
  show ?thesis
    by (rule inbox_ok_mono [OF ok c(2)]) (use c(4) mset_subset_set [OF c(3)] in auto)
qed

lemma remove_ok:
  assumes ok: "inbox_ok C L P sid st" and found: "find_item st rid = Some (t, n)"
  shows "inbox_ok C L P sid (bump_revision (set_items t (list_pop n (items_of t st)) st))"
proof -
  have inv: "inbox_inv st" using ok by (simp add: inbox_ok_def)
  note p = pop_one_inv [OF inv find_item_Some(1) [OF found]]
  show ?thesis by (rule inbox_ok_mono [OF ok p(1)]) (use mset_subset_set [OF p(2)] in auto)
qed

lemma storable_edited: "storable L P d i \<Longrightarrow> storable L P d (edited c a i)"
  by (simp add: storable_def edited_def)

lemma edit_ok:
  assumes ok: "inbox_ok C L P sid st" and found: "find_item st rid = Some (t, n)"
  shows "inbox_ok C L P sid (bump_revision (set_items t ((items_of t st)[n := edited c a (items_of t st ! n)]) st))"
proof -
  have inv: "inbox_inv st" using ok by (simp add: inbox_ok_def)
  note e = edit_inv [OF inv find_item_Some(1) [OF found], of c a]
  let ?new = "(items_of t st)[n := edited c a (items_of t st ! n)]"
  have stored: "storable L P (rc_dump C) i" if "i \<in> set (items_of u st)" for i u
    using that ok items_of_subset by (auto simp: inbox_ok_def)
  have "storable L P (rc_dump C) (edited c a (items_of t st ! n))"
    by (rule storable_edited [OF stored [OF nth_mem [OF find_item_Some(1) [OF found]]]])
  then have "storable L P (rc_dump C) i" if "i \<in> set ?new" for i
    using that stored set_update_subset_insert [of "items_of t st" n] by blast
  then have "storable L P (rc_dump C) i" if "i \<in> set (all_items (set_items t ?new st))" for i
    using that stored [of i NextTurn] stored [of i NextStep]
    by (cases t) (auto simp: all_items_def set_items_def items_of_def)
  then show ?thesis using e(1) ok by (simp add: inbox_ok_def)
qed

lemma promote_ok:
  assumes ok: "inbox_ok C L P sid st" and n: "n < length (mi_next_turn st)"
  shows "inbox_ok C L P sid (promoted n st)"
proof -
  have inv: "inbox_inv st" using ok by (simp add: inbox_ok_def)
  note p = promote_inv [OF inv n]
  have "mset (all_items (promoted n st)) + {# mi_next_turn st ! n #} =
      mset (all_items st) + {# (mi_next_turn st ! n)\<lparr>qi_source := FromUser\<rparr> #}"
    using mset_list_pop [OF n] by (simp add: promoted_def Let_def all_items_def)
  then have "set (all_items (promoted n st)) \<subseteq> insert ((mi_next_turn st ! n)\<lparr>qi_source := FromUser\<rparr>) (set (all_items st))"
    by (metis add_mset_add_single set_mset_add_mset_insert set_mset_mset subset_insertI)
  moreover have "storable L P (rc_dump C) ((mi_next_turn st ! n)\<lparr>qi_source := FromUser\<rparr>)"
  proof -
    have "mi_next_turn st ! n \<in> set (all_items st)" using n by (simp add: all_items_def)
    then show ?thesis using ok by (auto simp: inbox_ok_def storable_def)
  qed
  ultimately show ?thesis using p ok by (auto simp: inbox_ok_def)
qed

lemma find_next_turn: "find_item st rid = Some (NextTurn, n) \<Longrightarrow> n < length (mi_next_turn st)"
  using find_item_Some(1) [of st rid NextTurn n] by (simp add: items_of_def)

text \<open>
  Every operation but deletion and restart leaves the repository alone, creates the empty
  state, or finishes a mutation with a good inbox.
\<close>

definition mutation :: "repo_config \<Rightarrow> pylib \<Rightarrow> pydantic \<Rightarrow> bool \<Rightarrow> string \<Rightarrow> inbox_repo \<Rightarrow> inbox_repo \<Rightarrow> bool" where
  "mutation C L P io sid r r' \<longleftrightarrow> r' = r \<or> r' = put_state sid (state_of r sid) r \<or>
     (\<exists>check st. inbox_ok C L P sid st \<and> r' = fst (finish C io check sid st () r))"

lemma finish_fst: "fst (finish C io check sid st x r) = fst (finish C io check sid st () r)"
  by (simp add: finish_def Let_def split: sum.split)

lemma mutation_finish: "inbox_ok C L P sid st \<Longrightarrow> mutation C L P io sid r (fst (finish C io check sid st x r))"
  unfolding mutation_def using finish_fst by metis

lemma mutation_same [simp]: "mutation C L P io sid r r" "mutation C L P io sid r (put_state sid (state_of r sid) r)"
  by (simp_all add: mutation_def)

lemma inv_ok: "repo_inv C L P r \<Longrightarrow> inbox_ok C L P sid (state_of r sid)"
  by (simp add: repo_inv_def)

lemma admit_mutation:
  assumes "repo_inv C L P r" and "op_ok C L P (OpAdmit item t)"
  shows "mutation C L P io (qi_session_id item) r (fst (admit C io item t r))"
  using assms by (auto simp: admit_def Let_def simp del: op_ok.simps split: option.split
      intro!: mutation_finish enqueue_ok inv_ok)

lemma claim_mutation:
  assumes "repo_inv C L P r" and "distinct rids"
  shows "mutation C L P io sid r (fst (claim C io sid rids r))"
proof (cases "locate_all (state_of r sid) rids")
  case None
  then show ?thesis by (simp add: claim_def Let_def)
next
  case (Some locs)
  have ok: "inbox_ok C L P sid (state_of r sid)" by (rule inv_ok [OF assms(1)])
  then have inv: "inbox_inv (state_of r sid)" by (simp add: inbox_ok_def)
  show ?thesis
    using claim_inv(1) [OF inv Some assms(2)]
    by (auto simp: claim_def Let_def Some intro!: mutation_finish claim_ok [OF ok Some assms(2)])
qed

lemma remove_mutation: "repo_inv C L P r \<Longrightarrow> mutation C L P io sid r (fst (remove_item C io sid rid r))"
  by (auto simp: remove_item_def Let_def split: option.split intro!: mutation_finish remove_ok inv_ok)

lemma edit_mutation: "repo_inv C L P r \<Longrightarrow> mutation C L P io sid r (fst (edit_item C io sid rid c a r))"
  by (auto simp: edit_item_def Let_def split: option.split intro!: mutation_finish edit_ok inv_ok)

lemma promote_mutation: "repo_inv C L P r \<Longrightarrow> mutation C L P io sid r (fst (promote C io sid rid r))"
  by (auto simp: promote_def Let_def split: option.split queue_target.split
      intro!: mutation_finish promote_ok inv_ok find_next_turn)

lemma snapshot_mutation: "mutation C L P io sid r (fst (repo_snapshot C sid r))"
  by (simp add: repo_snapshot_def)

lemmas mutations = admit_mutation claim_mutation remove_mutation edit_mutation promote_mutation snapshot_mutation

lemma mutation_inv: "mutation C L P io sid r r' \<Longrightarrow> repo_inv C L P r \<Longrightarrow> repo_inv C L P r'"
  by (auto simp: mutation_def intro: put_state_inv finish_inv inv_ok)

lemma state_of_pop:
  "state_of (r\<lparr>ir_states := dict_pop sid (ir_states r)\<rparr>) sid' = (if sid' = sid then new_inbox sid else state_of r sid')"
  by (simp add: state_of_def)

lemma delete_step_inv:
  assumes "repo_inv C L P r"
  shows "repo_inv C L P (fst (delete_session io sid r))"
proof -
  have base: "repo_inv C L P (r\<lparr>ir_states := dict_pop sid (ir_states r)\<rparr>)"
    using assms by (simp add: repo_inv_def state_of_pop)
  then show ?thesis
    by (auto simp: delete_session_def Let_def repo_inv_def split: sum.split)
qed

lemma no_run_target: "has_run_target (Some (JList (map (item_to_json d t) xs))) = False"
  by (auto simp: has_run_target_def list_ex_iff item_to_json_def jget_def)

lemma fresh_file_schema [simp]: "\<not> needs_rewrite (inbox_to_json d st)"
  by (simp add: needs_rewrite_def inbox_to_json_def jget_def equals_int_def no_run_target)

text \<open>The inbox a session's file holds.\<close>

definition file_state :: "repo_config \<Rightarrow> pylib \<Rightarrow> pydantic \<Rightarrow> inbox_repo \<Rightarrow> string \<Rightarrow> mutable_inbox \<Rightarrow> bool" where
  "file_state C L P r sid st \<longleftrightarrow> ir_disk r sid = Some (JsonFile (inbox_to_json (rc_dump C) st)) \<and> inbox_ok C L P sid st"

lemma file_stateE:
  assumes "repo_inv C L P r" and "ir_disk r sid = Some f"
  obtains st where "file_state C L P r sid st"
  using assms unfolding repo_inv_def file_ok_def file_state_def by metis

lemma load_one_file:
  assumes "file_state C L P r sid st"
  shows "load_one C L P now io sid r = put_state sid st r"
proof -
  have "inbox_from_json L P now (inbox_to_json (rc_dump C) st) = Inr st"
    using assms by (subst inbox_reads_back) (auto simp: file_state_def inbox_ok_def inbox_inv_def)
  then show ?thesis using assms by (simp add: load_one_def Let_def file_state_def inbox_ok_def)
qed

lemma load_one_inv:
  assumes "repo_inv C L P r"
  shows "repo_inv C L P (load_one C L P now io sid r)" "ir_disk (load_one C L P now io sid r) = ir_disk r"
proof -
  have "repo_inv C L P (load_one C L P now io sid r) \<and> ir_disk (load_one C L P now io sid r) = ir_disk r"
  proof (cases "ir_disk r sid")
    case None
    then show ?thesis using assms by (simp add: load_one_def)
  next
    case (Some f)
    then obtain st where st: "file_state C L P r sid st" using file_stateE [OF assms] by blast
    then show ?thesis
      using put_state_inv [OF assms, of sid st] by (simp add: load_one_file [OF st]) (simp add: file_state_def)
  qed
  then show "repo_inv C L P (load_one C L P now io sid r)" "ir_disk (load_one C L P now io sid r) = ir_disk r"
    by simp_all
qed

lemma load_one_state_of:
  assumes "repo_inv C L P r"
  shows "state_of (load_one C L P now io name r) sid = state_of r sid \<or> sid = name \<and>
    file_state C L P r sid (state_of (load_one C L P now io name r) sid)"
proof (cases "ir_disk r name")
  case None
  then show ?thesis by (simp add: load_one_def)
next
  case (Some f)
  then obtain st where st: "file_state C L P r name st" using file_stateE [OF assms] by blast
  then show ?thesis by (simp add: load_one_file [OF st])
qed

lemma load_all_inv:
  "repo_inv C L P r \<Longrightarrow> repo_inv C L P (load_all C L P now io names r) \<and>
     ir_disk (load_all C L P now io names r) = ir_disk r"
  by (induction names arbitrary: r) (simp_all add: load_one_inv)

lemma file_state_unique:
  assumes "file_state C L P r sid st" and "file_state C L P r sid st'"
  shows "st' = st"
  using load_one_file [OF assms(1)] load_one_file [OF assms(2)]
  by (metis state_of_put)

lemma file_state_disk: "ir_disk r' = ir_disk r \<Longrightarrow> file_state C L P r' sid st = file_state C L P r sid st"
  by (simp add: file_state_def)

text \<open>A state already loaded from the file stays; a listed file is loaded.\<close>

lemma load_all_state_of:
  "repo_inv C L P r \<Longrightarrow> file_state C L P r sid st \<Longrightarrow> sid \<in> set names \<or> state_of r sid = st \<Longrightarrow>
   state_of (load_all C L P now io names r) sid = st"
proof (induction names arbitrary: r)
  case Nil
  then show ?case by simp
next
  case (Cons name names)
  let ?r = "load_one C L P now io name r"
  have "file_state C L P ?r sid st"
    using Cons.prems(2) file_state_disk [OF load_one_inv(2) [OF Cons.prems(1)]] by blast
  moreover have "sid \<in> set names \<or> state_of ?r sid = st"
  proof (cases "sid = name")
    case True
    then show ?thesis using load_one_file Cons.prems(2) by simp
  next
    case False
    then show ?thesis using Cons.prems load_one_state_of [OF Cons.prems(1), of now io name sid] by auto
  qed
  ultimately show ?case using Cons.IH load_one_inv(1) [OF Cons.prems(1)] by simp
qed

lemma load_all_no_file:
  "repo_inv C L P r \<Longrightarrow> ir_disk r sid = None \<Longrightarrow> state_of (load_all C L P now io names r) sid = state_of r sid"
proof (induction names arbitrary: r)
  case Nil
  then show ?case by simp
next
  case (Cons name names)
  have "state_of (load_one C L P now io name r) sid = state_of r sid"
    using load_one_state_of [OF Cons.prems(1), of now io name sid] Cons.prems(2) by (auto simp: file_state_def)
  then show ?case
    using Cons.IH [of "load_one C L P now io name r"] load_one_inv [OF Cons.prems(1)] Cons.prems(2) by simp
qed

lemma close_inv: "repo_inv C L P r \<Longrightarrow> repo_inv C L P (close_repo r)"
  by (simp add: repo_inv_def close_repo_def state_of_def)

fun op_session :: "repo_op \<Rightarrow> string" where
  "op_session (OpAdmit item t) = qi_session_id item"
| "op_session (OpClaim sid rids) = sid"
| "op_session (OpRemove sid rid) = sid"
| "op_session (OpEdit sid rid c a) = sid"
| "op_session (OpPromote sid rid) = sid"
| "op_session (OpSnapshot sid) = sid"
| "op_session (OpDelete sid) = sid"
| "op_session (OpRestart names) = []"

lemma repo_step_mutation:
  assumes "repo_inv C L P r" and "op_ok C L P op"
    and "\<forall>names. op \<noteq> OpRestart names" and "\<forall>sid. op \<noteq> OpDelete sid"
  shows "mutation C L P io (op_session op) r (repo_step C L P now io op r)"
  using assms by (cases op) (simp_all add: mutations)

lemma repo_step_inv:
  assumes "repo_inv C L P r" and "op_ok C L P op"
  shows "repo_inv C L P (repo_step C L P now io op r)"
proof -
  consider names where "op = OpRestart names" | sid where "op = OpDelete sid"
    | "\<forall>names. op \<noteq> OpRestart names" "\<forall>sid. op \<noteq> OpDelete sid" by (cases op) auto
  then show ?thesis
  proof cases
    case 1
    then show ?thesis using load_all_inv [OF close_inv [OF assms(1)]] by simp
  next
    case 2
    then show ?thesis using delete_step_inv [OF assms(1)] by simp
  next
    case 3
    then show ?thesis using mutation_inv [OF repo_step_mutation [OF assms] assms(1)] by blast
  qed
qed

lemma repo_reachable_inv: "repo_reachable C L P r \<Longrightarrow> repo_inv C L P r"
proof (induction rule: repo_reachable.induct)
  case empty
  then show ?case by (simp add: repo_inv_def new_repo_def state_of_def)
qed (simp add: repo_step_inv)

end
