(* ===== verification/InboxLedger.thy ===== *)
theory InboxLedger
  imports InboxRepository SessionLog
begin

text \<open>
  What the inbox promises to those who put input into it: it is consistent at every moment,
  loses and duplicates nothing, survives restarts, and answers each request the way the
  service expects.
\<close>

section \<open>A ledger\<close>

text \<open>
  A container whose steps add and remove entries. The client's lemma: over any sequence of
  steps, what is in the container and what has left it is what was there and what came in.
\<close>

fun all_ok :: "('o \<Rightarrow> 's \<Rightarrow> 's) \<Rightarrow> ('s \<Rightarrow> 'o \<Rightarrow> bool) \<Rightarrow> 's \<Rightarrow> 'o list \<Rightarrow> bool" where
  "all_ok step ok s [] \<longleftrightarrow> True"
| "all_ok step ok s (a # as) \<longleftrightarrow> ok s a \<and> all_ok step ok (step a s) as"

fun total :: "('o \<Rightarrow> 's \<Rightarrow> 's) \<Rightarrow> ('s \<Rightarrow> 'o \<Rightarrow> 'k multiset) \<Rightarrow> 's \<Rightarrow> 'o list \<Rightarrow> 'k multiset" where
  "total step f s [] = {#}"
| "total step f s (a # as) = f s a + total step f (step a s) as"

locale ledger =
  fixes step :: "'o \<Rightarrow> 's \<Rightarrow> 's" and good :: "'s \<Rightarrow> bool" and ok :: "'s \<Rightarrow> 'o \<Rightarrow> bool"
    and pending :: "'s \<Rightarrow> 'k multiset" and added gone :: "'s \<Rightarrow> 'o \<Rightarrow> 'k multiset"
  assumes good_step: "good s \<Longrightarrow> ok s a \<Longrightarrow> good (step a s)"
    and balance: "good s \<Longrightarrow> ok s a \<Longrightarrow> pending (step a s) + gone s a = pending s + added s a"
begin

lemma run_good: "good s \<Longrightarrow> all_ok step ok s as \<Longrightarrow> good (fold step as s)"
  by (induction as arbitrary: s) (auto intro: good_step)

lemma run_balance:
  "good s \<Longrightarrow> all_ok step ok s as \<Longrightarrow>
   pending (fold step as s) + total step gone s as = pending s + total step added s as"
proof (induction as arbitrary: s)
  case Nil
  then show ?case by simp
next
  case (Cons a as)
  then have "pending (fold step as (step a s)) + total step gone (step a s) as =
      pending (step a s) + total step added (step a s) as"
    by (simp add: good_step)
  moreover have "pending (step a s) + gone s a = pending s + added s a"
    using Cons.prems by (simp add: balance)
  ultimately show ?case by (simp add: ac_simps)
qed

end

section \<open>Memory and disk agree\<close>

definition pending_ids :: "string \<Rightarrow> inbox_repo \<Rightarrow> string multiset" where
  "pending_ids sid r = mset (map qi_request_id (all_items (state_of r sid)))"

definition added_ids :: "repo_config \<Rightarrow> string \<Rightarrow> inbox_repo \<Rightarrow> repo_op \<Rightarrow> string multiset" where
  "added_ids C sid r op =
     (case op of
        OpAdmit item t \<Rightarrow>
          (case snd (admit C True item t r) of
             Inr (True, n) \<Rightarrow> if qi_session_id item = sid then {# qi_request_id item #} else {#}
           | _ \<Rightarrow> {#})
      | _ \<Rightarrow> {#})"

definition gone_ids :: "repo_config \<Rightarrow> string \<Rightarrow> inbox_repo \<Rightarrow> repo_op \<Rightarrow> string multiset" where
  "gone_ids C sid r op =
     (case op of
        OpClaim s rids \<Rightarrow>
          (case snd (claim C True s rids r) of
             Inr items \<Rightarrow> if s = sid then mset (map qi_request_id items) else {#}
           | Inl e \<Rightarrow> {#})
      | OpRemove s rid \<Rightarrow>
          (case snd (remove_item C True s rid r) of
             Inr (Some item) \<Rightarrow> if s = sid then {# qi_request_id item #} else {#}
           | _ \<Rightarrow> {#})
      | OpDelete s \<Rightarrow> if s = sid then pending_ids sid r else {#}
      | _ \<Rightarrow> {#})"

text \<open>Restarts see every file; every other operation is as the service calls it.\<close>

definition run_ok :: "repo_config \<Rightarrow> pylib \<Rightarrow> pydantic \<Rightarrow> inbox_repo \<Rightarrow> repo_op \<Rightarrow> bool" where
  "run_ok C L P r op \<longleftrightarrow> op_ok C L P op \<and>
     (case op of OpRestart names \<Rightarrow> dom (ir_disk r) \<subseteq> set names | _ \<Rightarrow> True)"

definition mirrored :: "repo_config \<Rightarrow> pylib \<Rightarrow> pydantic \<Rightarrow> string \<Rightarrow> inbox_repo \<Rightarrow> bool" where
  "mirrored C L P sid r \<longleftrightarrow> repo_inv C L P r \<and>
     (file_state C L P r sid (state_of r sid) \<or> ir_disk r sid = None \<and> all_items (state_of r sid) = [])"

lemma file_state_put_other [simp]:
  "file_state C L P (put_state s st r) sid st' = file_state C L P r sid st'"
  by (simp add: file_state_def)

lemma mirrored_put_same: "mirrored C L P sid r \<Longrightarrow> mirrored C L P sid (put_state s (state_of r s) r)"
  using put_state_inv [of C L P r s "state_of r s"]
  by (auto simp: mirrored_def repo_inv_def)

lemma finish_commits:
  assumes "inbox_ok C L P s st" and "path_for s = Inr s"
  shows "snd (finish C True check s st x r) = Inr x"
    and "ir_disk (fst (finish C True check s st x r)) s = Some (JsonFile (inbox_to_json (rc_dump C) st))"
proof -
  have "inbox_validate st = Inr ()" "mi_session_id st = s"
    using assms(1) by (simp_all add: inbox_ok_def inbox_inv_def)
  then show "snd (finish C True check s st x r) = Inr x"
    and "ir_disk (fst (finish C True check s st x r)) s = Some (JsonFile (inbox_to_json (rc_dump C) st))"
    using assms(2) by (simp_all add: finish_def Let_def commit_state_def)
qed

lemma finish_other_disk:
  "mi_session_id st = s \<Longrightarrow> sid \<noteq> s \<Longrightarrow> ir_disk (fst (finish C io check s st x r)) sid = ir_disk r sid"
  using path_for_Inr [of s]
  by (auto simp: finish_def Let_def commit_state_def split: sum.split)

lemma finish_mirrored:
  assumes "mirrored C L P sid r" and ok: "inbox_ok C L P s st" and "path_for sid = Inr sid"
  shows "mirrored C L P sid (fst (finish C True check s st x r))"
proof -
  have inv: "repo_inv C L P (fst (finish C True check s st x r))"
    by (rule finish_inv) (use assms in \<open>simp_all add: mirrored_def\<close>)
  show ?thesis
  proof (cases "s = sid")
    case True
    then show ?thesis
      using inv finish_commits(2) [of C L P s st check x r] assms
      by (simp add: mirrored_def finish_state_of file_state_def)
  next
    case False
    have "mi_session_id st = s" using ok by (simp add: inbox_ok_def)
    then have "ir_disk (fst (finish C True check s st x r)) sid = ir_disk r sid"
      using False finish_other_disk by metis
    then show ?thesis
      using inv assms(1) False by (simp add: mirrored_def finish_state_of file_state_def)
  qed
qed

lemma mutation_mirrored:
  assumes "mirrored C L P sid r" and "mutation C L P True s r r'" and "path_for sid = Inr sid"
  shows "mirrored C L P sid r'"
  using assms finish_mirrored [OF assms(1) _ assms(3)]
  by (auto simp: mutation_def intro: mirrored_put_same)

lemma delete_mirrored:
  assumes "mirrored C L P sid r" and "path_for sid = Inr sid"
  shows "mirrored C L P sid (fst (delete_session True s r))"
proof -
  have inv: "repo_inv C L P (fst (delete_session True s r))"
    using assms(1) by (simp add: mirrored_def delete_step_inv)
  have empty: "all_items (new_inbox sid) = []" by (simp add: new_inbox_def all_items_def)
  show ?thesis
    using inv assms path_for_Inr [of s]
    by (cases "s = sid")
      (auto simp: mirrored_def delete_session_def Let_def state_of_pop file_state_def empty split: sum.split)
qed

lemma state_of_close [simp]: "state_of (close_repo r) sid = new_inbox sid"
  by (simp add: state_of_def close_repo_def)

lemma disk_close [simp]: "ir_disk (close_repo r) = ir_disk r"
  by (simp add: close_repo_def)

lemma restart_state_of:
  assumes m: "mirrored C L P sid r" and "dom (ir_disk r) \<subseteq> set names"
  shows "state_of (load_all C L P now io names (close_repo r)) sid = state_of r sid \<or>
    all_items (state_of r sid) = [] \<and> all_items (state_of (load_all C L P now io names (close_repo r)) sid) = []"
    and "mirrored C L P sid (load_all C L P now io names (close_repo r))"
proof -
  let ?r = "load_all C L P now io names (close_repo r)"
  have inv: "repo_inv C L P (close_repo r)" using m close_inv by (simp add: mirrored_def)
  have r: "repo_inv C L P ?r" "ir_disk ?r = ir_disk r" using load_all_inv [OF inv] by auto
  have "(state_of ?r sid = state_of r sid \<or>
      all_items (state_of r sid) = [] \<and> all_items (state_of ?r sid) = []) \<and> mirrored C L P sid ?r"
  proof (cases "file_state C L P r sid (state_of r sid)")
    case True
    then have "file_state C L P (close_repo r) sid (state_of r sid)" "sid \<in> set names"
      using assms(2) by (auto simp: file_state_def)
    then have "state_of ?r sid = state_of r sid" using load_all_state_of [OF inv] by blast
    then show ?thesis using True r by (simp add: mirrored_def file_state_def)
  next
    case False
    then have none: "ir_disk r sid = None" "all_items (state_of r sid) = []"
      using m by (auto simp: mirrored_def)
    then have "state_of ?r sid = new_inbox sid" using load_all_no_file [OF inv, of sid] by simp
    then show ?thesis using none r by (simp add: mirrored_def new_inbox_def all_items_def)
  qed
  then show "state_of ?r sid = state_of r sid \<or>
      all_items (state_of r sid) = [] \<and> all_items (state_of ?r sid) = []" "mirrored C L P sid ?r" by auto
qed

lemma step_mirrored:
  assumes "mirrored C L P sid r" and "run_ok C L P r op" and "path_for sid = Inr sid"
  shows "mirrored C L P sid (repo_step C L P now True op r)"
proof -
  have inv: "repo_inv C L P r" using assms(1) by (simp add: mirrored_def)
  have ok: "op_ok C L P op" using assms(2) by (simp add: run_ok_def)
  consider names where "op = OpRestart names" | s where "op = OpDelete s"
    | "\<forall>names. op \<noteq> OpRestart names" "\<forall>s. op \<noteq> OpDelete s" by (cases op) auto
  then show ?thesis
  proof cases
    case 1
    then show ?thesis using restart_state_of(2) [OF assms(1)] assms(2) by (simp add: run_ok_def)
  next
    case 2
    then show ?thesis using delete_mirrored [OF assms(1,3)] by simp
  next
    case 3
    show ?thesis by (rule mutation_mirrored [OF assms(1) repo_step_mutation [OF inv ok 3] assms(3)])
  qed
qed

section \<open>The balance of one step\<close>

lemma pending_finish: "pending_ids sid (fst (finish C io check s st x r)) =
    (if sid = s then mset (map qi_request_id (all_items st)) else pending_ids sid r)"
  by (simp add: pending_ids_def finish_state_of)

lemma pending_put_same [simp]: "pending_ids sid (put_state s (state_of r s) r) = pending_ids sid r"
  by (simp add: pending_ids_def)

lemma mutation_pending_other: "mutation C L P io s r r' \<Longrightarrow> sid \<noteq> s \<Longrightarrow> pending_ids sid r' = pending_ids sid r"
  by (auto simp: mutation_def pending_finish)

lemma admit_cases:
  obtains (same) "fst (admit C io item t r) = r \<or>
        fst (admit C io item t r) = put_state (qi_session_id item) (state_of r (qi_session_id item)) r"
      "\<forall>n. snd (admit C io item t r) \<noteq> Inr (True, n)"
  | (new) "find_item (state_of r (qi_session_id item)) (qi_request_id item) = None"
      "admit C io item t r = finish C io True (qi_session_id item) (enqueue item t (state_of r (qi_session_id item)))
         (True, total_items (enqueue item t (state_of r (qi_session_id item)))) r"
proof (cases "find_item (state_of r (qi_session_id item)) (qi_request_id item)")
  case (Some loc)
  then show thesis
    by (intro same) (auto simp: admit_def Let_def split: option.splits prod.splits if_splits)
next
  case None
  show thesis
  proof (cases "(case rc_session_exists C of None \<Rightarrow> False | Some f \<Rightarrow> \<not> f (qi_session_id item)) \<or>
      (case rc_request_seen C of None \<Rightarrow> False | Some f \<Rightarrow> f (qi_session_id item) (qi_request_id item)) \<or>
      rc_capacity C \<le> total_items (state_of r (qi_session_id item))")
    case True
    then show thesis using None by (intro same) (auto simp: admit_def Let_def)
  next
    case False
    then show thesis using None by (intro new) (auto simp: admit_def Let_def)
  qed
qed

lemma admit_balance:
  assumes "repo_inv C L P r" and ok: "op_ok C L P (OpAdmit item t)" and "path_for sid = Inr sid"
  shows "pending_ids sid (fst (admit C True item t r)) = pending_ids sid r + added_ids C sid r (OpAdmit item t)"
proof (cases "qi_session_id item = sid")
  case False
  have "mutation C L P True (qi_session_id item) r (fst (admit C True item t r))"
    by (rule admit_mutation [OF assms(1,2)])
  then show ?thesis
    using False by (auto simp: added_ids_def mutation_pending_other split: sum.split bool.split)
next
  case True
  show ?thesis
  proof (cases rule: admit_cases [of C True item t r])
    case same
    then have "pending_ids sid (fst (admit C True item t r)) = pending_ids sid r" by auto
    moreover have "added_ids C sid r (OpAdmit item t) = {#}"
      using same(2) by (auto simp: added_ids_def split: sum.split bool.split)
    ultimately show ?thesis by simp
  next
    case new
    have "inbox_ok C L P sid (enqueue item t (state_of r sid))"
      using enqueue_ok [OF inv_ok [OF assms(1)] new(1) ok] by (simp add: True)
    note f = finish_commits(1) [OF this assms(3)]
    show ?thesis
      by (simp add: new(2) True added_ids_def pending_finish f)
        (simp add: pending_ids_def enqueue_facts(2) numbered_def)
  qed
qed

lemma claim_balance:
  assumes inv: "repo_inv C L P r" and "distinct rids" and "path_for sid = Inr sid"
  shows "pending_ids sid (fst (claim C True s rids r)) + gone_ids C sid r (OpClaim s rids) = pending_ids sid r"
proof (cases "s = sid")
  case False
  then show ?thesis
    using mutation_pending_other [OF claim_mutation [OF inv assms(2)], of sid s True]
    by (auto simp: gone_ids_def split: sum.split)
next
  case True
  show ?thesis
  proof (cases "locate_all (state_of r sid) rids")
    case None
    then show ?thesis by (auto simp: True claim_def Let_def gone_ids_def)
  next
    case (Some locs)
    have ok: "inbox_ok C L P sid (state_of r sid)" by (rule inv_ok [OF inv])
    then have i: "inbox_inv (state_of r sid)" by (simp add: inbox_ok_def)
    note c = claim_inv [OF i Some assms(2)]
    note f = finish_commits(1) [OF claim_ok [OF ok Some assms(2)] assms(3)]
    have "pending_ids sid r = image_mset qi_request_id (mset (map (\<lambda>(t, n). items_of t (state_of r sid) ! n) locs)) +
        image_mset qi_request_id (mset (all_items (fst (pop_all (by_index_desc locs) (state_of r sid)))))"
      using c(3) by (simp add: pending_ids_def)
    then show ?thesis
      using c(1) by (cases "rids = []") (simp_all add: True claim_def Let_def Some gone_ids_def f pending_finish multiset.map_comp)
  qed
qed

lemma remove_balance:
  assumes inv: "repo_inv C L P r" and "path_for sid = Inr sid"
  shows "pending_ids sid (fst (remove_item C True s rid r)) + gone_ids C sid r (OpRemove s rid) = pending_ids sid r"
proof (cases "s = sid")
  case False
  then show ?thesis
    using mutation_pending_other [OF remove_mutation [OF inv], of sid s True]
    by (auto simp: gone_ids_def split: sum.split option.split)
next
  case True
  show ?thesis
  proof (cases "find_item (state_of r sid) rid")
    case None
    then show ?thesis by (simp add: True remove_item_def Let_def gone_ids_def)
  next
    case (Some loc)
    obtain t n where loc: "loc = (t, n)" by fastforce
    have ok: "inbox_ok C L P sid (state_of r sid)" by (rule inv_ok [OF inv])
    then have i: "inbox_inv (state_of r sid)" by (simp add: inbox_ok_def)
    have found: "find_item (state_of r sid) rid = Some (t, n)" using Some loc by simp
    note p = pop_one_inv(2) [OF i find_item_Some(1) [OF found]]
    note f = finish_commits(1) [OF remove_ok [OF ok found] assms(2)]
    have "pending_ids sid r = {# qi_request_id (items_of t (state_of r sid) ! n) #} +
        image_mset qi_request_id (mset (all_items (bump_revision (set_items t (list_pop n (items_of t (state_of r sid))) (state_of r sid)))))"
      using p by (simp add: pending_ids_def)
    then show ?thesis
      by (simp add: True remove_item_def Let_def found gone_ids_def f pending_finish del: bump_fields)
  qed
qed

lemma edit_balance_io:
  assumes inv: "repo_inv C L P r"
  shows "pending_ids sid (fst (edit_item C io s rid c a r)) = pending_ids sid r"
proof (cases "s = sid")
  case False
  then show ?thesis using mutation_pending_other [OF edit_mutation [OF inv], of sid s io] by simp
next
  case True
  have "inbox_inv (state_of r sid)" using inv_ok [OF inv, of sid] by (simp add: inbox_ok_def)
  from edit_inv(2) [OF this find_item_Some(1)] show ?thesis
    by (auto simp: True edit_item_def Let_def pending_finish split: option.split simp del: bump_fields mset_map)
      (auto simp: pending_ids_def simp del: bump_fields mset_map)
qed

lemma promote_balance_io:
  assumes inv: "repo_inv C L P r"
  shows "pending_ids sid (fst (promote C io s rid r)) = pending_ids sid r"
proof (cases "s = sid")
  case False
  then show ?thesis using mutation_pending_other [OF promote_mutation [OF inv], of sid s io] by simp
next
  case True
  have "inbox_inv (state_of r sid)" using inv_ok [OF inv, of sid] by (simp add: inbox_ok_def)
  from promote_inv(2) [OF this find_next_turn] show ?thesis
    by (auto simp: True promote_def Let_def pending_finish split: option.split queue_target.split simp del: mset_map)
      (auto simp: pending_ids_def simp del: mset_map)
qed

lemma delete_balance:
  "pending_ids sid (fst (delete_session io s r)) + gone_ids C sid r (OpDelete s) = pending_ids sid r"
  by (auto simp: delete_session_def Let_def pending_ids_def gone_ids_def state_of_pop new_inbox_def
      all_items_def split: sum.split)

lemma restart_balance:
  assumes "mirrored C L P sid r" and "dom (ir_disk r) \<subseteq> set names"
  shows "pending_ids sid (load_all C L P now io names (close_repo r)) = pending_ids sid r"
  using restart_state_of(1) [OF assms, of now io] by (auto simp: pending_ids_def)

lemma step_balance:
  assumes m: "mirrored C L P sid r" and ok: "run_ok C L P r op" and path: "path_for sid = Inr sid"
  shows "pending_ids sid (repo_step C L P now True op r) + gone_ids C sid r op =
         pending_ids sid r + added_ids C sid r op"
proof -
  have inv: "repo_inv C L P r" using m by (simp add: mirrored_def)
  show ?thesis
  proof (cases op)
    case (OpAdmit item t)
    then show ?thesis using admit_balance [OF inv _ path] ok by (simp add: run_ok_def gone_ids_def)
  next
    case (OpClaim s rids)
    then show ?thesis using claim_balance [OF inv _ path] ok by (simp add: run_ok_def added_ids_def)
  next
    case (OpRemove s rid)
    then show ?thesis using remove_balance [OF inv path] by (simp add: added_ids_def)
  next
    case (OpEdit s rid c a)
    then show ?thesis using edit_balance_io [OF inv] by (simp add: gone_ids_def added_ids_def)
  next
    case (OpPromote s rid)
    then show ?thesis using promote_balance_io [OF inv] by (simp add: gone_ids_def added_ids_def)
  next
    case (OpSnapshot s)
    then show ?thesis by (simp add: repo_snapshot_def gone_ids_def added_ids_def)
  next
    case (OpDelete s)
    then show ?thesis using delete_balance by (simp add: added_ids_def)
  next
    case (OpRestart names)
    then show ?thesis using restart_balance [OF m] ok by (simp add: run_ok_def gone_ids_def added_ids_def)
  qed
qed

interpretation inbox: ledger "repo_step C L P now True" "\<lambda>r. mirrored C L P sid r \<and> path_for sid = Inr sid"
    "run_ok C L P" "pending_ids sid" "added_ids C sid" "gone_ids C sid"
  for C L P now sid
  by unfold_locales (use step_mirrored step_balance in blast)+

subsection \<open>Writes that fail\<close>

text \<open>
  Now each operation comes with what its write does. \<open>entered_ids\<close> are the requests an admission put into memory,
  reported as admitted or not; \<open>left_ids\<close> those an operation that succeeded handed out, removed or deleted.
\<close>

definition entered_ids :: "repo_config \<Rightarrow> string \<Rightarrow> inbox_repo \<Rightarrow> bool \<times> repo_op \<Rightarrow> string multiset" where
  "entered_ids C sid r a =
     (case snd a of OpAdmit item t \<Rightarrow> pending_ids sid (fst (admit C (fst a) item t r)) - pending_ids sid r | _ \<Rightarrow> {#})"

definition left_ids :: "repo_config \<Rightarrow> string \<Rightarrow> inbox_repo \<Rightarrow> bool \<times> repo_op \<Rightarrow> string multiset" where
  "left_ids C sid r a =
     (case snd a of
        OpClaim s rids \<Rightarrow>
          (case snd (claim C (fst a) s rids r) of
             Inr items \<Rightarrow> if s = sid then mset (map qi_request_id items) else {#}
           | Inl e \<Rightarrow> {#})
      | OpRemove s rid \<Rightarrow>
          (case snd (remove_item C (fst a) s rid r) of
             Inr (Some item) \<Rightarrow> if s = sid then {# qi_request_id item #} else {#}
           | _ \<Rightarrow> {#})
      | OpDelete s \<Rightarrow> if s = sid \<and> snd (delete_session (fst a) s r) = Inr () then pending_ids sid r else {#}
      | _ \<Rightarrow> {#})"

abbreviation io_step :: "repo_config \<Rightarrow> pylib \<Rightarrow> pydantic \<Rightarrow> string \<Rightarrow> bool \<times> repo_op \<Rightarrow> inbox_repo \<Rightarrow> inbox_repo" where
  "io_step C L P now a r \<equiv> repo_step C L P now (fst a) (snd a) r"

abbreviation state_ids :: "mutable_inbox \<Rightarrow> string multiset" where
  "state_ids st \<equiv> mset (map qi_request_id (all_items st))"

lemma same_file_state: "ir_disk r' sid = ir_disk r sid \<Longrightarrow> file_state C L P r' sid st = file_state C L P r sid st"
  by (simp add: file_state_def)

lemma finish_written:
  "snd (finish C io check s st x r) = Inr y \<Longrightarrow> mi_session_id st = s \<Longrightarrow>
     y = x \<and> ir_disk (fst (finish C io check s st x r)) s = Some (JsonFile (inbox_to_json (rc_dump C) st))"
  using path_for_Inr [of s] by (auto simp: finish_def Let_def commit_state_def split: sum.splits if_splits)

lemma finish_disk:
  "mi_session_id st = s \<Longrightarrow> ir_disk (fst (finish C io check s st x r)) s = ir_disk r s \<or>
     ir_disk (fst (finish C io check s st x r)) s = Some (JsonFile (inbox_to_json (rc_dump C) st))"
  using path_for_Inr [of s] by (auto simp: finish_def Let_def commit_state_def split: sum.splits)

lemma written_file:
  assumes "inbox_ok C L P sid st" and "ir_disk r sid = Some (JsonFile (inbox_to_json (rc_dump C) st))" and "file_state C L P r sid st'"
  shows "st' = st"
proof -
  have "file_state C L P r sid st" using assms(1,2) by (simp add: file_state_def)
  from file_state_unique [OF this assms(3)] show ?thesis .
qed

lemma mutation_file:
  assumes "mutation C L P io sid r r'" and "file_state C L P r' sid st"
  shows "file_state C L P r sid st \<or> state_ids st = pending_ids sid r'"
proof -
  from assms(1) consider "ir_disk r' = ir_disk r" | check st' where "inbox_ok C L P sid st'" "r' = fst (finish C io check sid st' () r)"
    by (auto simp: mutation_def)
  then show ?thesis
  proof cases
    case 1
    then show ?thesis using assms(2) same_file_state [of r' sid r] by simp
  next
    case (2 check st')
    have id: "mi_session_id st' = sid" using 2(1) by (simp add: inbox_ok_def)
    from finish_disk [OF id, of C io check "()" r] show ?thesis
    proof
      assume "ir_disk (fst (finish C io check sid st' () r)) sid = ir_disk r sid"
      then show ?thesis using assms(2) same_file_state 2(2) by blast
    next
      assume "ir_disk (fst (finish C io check sid st' () r)) sid = Some (JsonFile (inbox_to_json (rc_dump C) st'))"
      then have "st = st'" using written_file [OF 2(1)] assms(2) 2(2) by blast
      then show ?thesis using 2(2) by (simp add: pending_finish)
    qed
  qed
qed

lemma mutation_file_other: "mutation C L P io s r r' \<Longrightarrow> sid \<noteq> s \<Longrightarrow> ir_disk r' sid = ir_disk r sid"
  by (auto simp: mutation_def finish_other_disk inbox_ok_def)

text \<open>What a claim that answers with items does, whatever the disk does.\<close>

lemma claim_leaves:
  assumes inv: "repo_inv C L P r" and "distinct rids"
  shows "pending_ids sid (fst (claim C io sid rids r)) + left_ids C sid r (io, OpClaim sid rids) \<subseteq># pending_ids sid r"
    and "left_ids C sid r (io, OpClaim sid rids) \<noteq> {#} \<Longrightarrow> file_state C L P (fst (claim C io sid rids r)) sid st \<Longrightarrow>
      state_ids st = pending_ids sid (fst (claim C io sid rids r))"
proof -
  have "pending_ids sid (fst (claim C io sid rids r)) + left_ids C sid r (io, OpClaim sid rids) \<subseteq># pending_ids sid r \<and>
      (left_ids C sid r (io, OpClaim sid rids) \<noteq> {#} \<longrightarrow> file_state C L P (fst (claim C io sid rids r)) sid st \<longrightarrow>
        state_ids st = pending_ids sid (fst (claim C io sid rids r)))"
  proof (cases "rids = [] \<or> locate_all (state_of r sid) rids = None")
    case True
    then show ?thesis by (auto simp: claim_def Let_def left_ids_def)
  next
    case False
    then obtain locs where locs: "locate_all (state_of r sid) rids = Some locs" and ne: "rids \<noteq> []" by auto
    have ok: "inbox_ok C L P sid (state_of r sid)" by (rule inv_ok [OF inv])
    then have i: "inbox_inv (state_of r sid)" by (simp add: inbox_ok_def)
    let ?items = "map (\<lambda>(t, n). items_of t (state_of r sid) ! n) locs"
    let ?st = "bump_revision (fst (pop_all (by_index_desc locs) (state_of r sid)))"
    note c = claim_inv [OF i locs assms(2)]
    note ok' = claim_ok [OF ok locs assms(2)]
    have run: "claim C io sid rids r = finish C io True sid ?st ?items r"
      using c(1) ne by (simp add: claim_def Let_def locs)
    have split: "pending_ids sid r = mset (map qi_request_id ?items) + state_ids ?st"
      using arg_cong [OF c(3), of "image_mset qi_request_id"] by (simp add: pending_ids_def multiset.map_comp)
    have id: "mi_session_id ?st = sid" using ok' by (simp add: inbox_ok_def)
    have mem: "pending_ids sid (fst (claim C io sid rids r)) = state_ids ?st" unfolding run by (simp add: pending_finish)
    show ?thesis
    proof (cases "snd (finish C io True sid ?st ?items r)")
      case (Inl e)
      then have "left_ids C sid r (io, OpClaim sid rids) = {#}" by (simp add: left_ids_def run)
      then show ?thesis using mem split by simp
    next
      case (Inr y)
      note w = finish_written [OF Inr id]
      have left: "left_ids C sid r (io, OpClaim sid rids) = mset (map qi_request_id ?items)"
        using Inr w by (simp add: left_ids_def run)
      have "st = ?st" if "file_state C L P (fst (claim C io sid rids r)) sid st"
        using written_file [OF ok' _ that] w run by simp
      then show ?thesis using left mem split by (auto simp: ac_simps)
    qed
  qed
  then show "pending_ids sid (fst (claim C io sid rids r)) + left_ids C sid r (io, OpClaim sid rids) \<subseteq># pending_ids sid r"
    and "left_ids C sid r (io, OpClaim sid rids) \<noteq> {#} \<Longrightarrow> file_state C L P (fst (claim C io sid rids r)) sid st \<Longrightarrow>
      state_ids st = pending_ids sid (fst (claim C io sid rids r))" by blast+
qed

lemma remove_leaves:
  assumes inv: "repo_inv C L P r"
  shows "pending_ids sid (fst (remove_item C io sid rid r)) + left_ids C sid r (io, OpRemove sid rid) \<subseteq># pending_ids sid r"
    and "left_ids C sid r (io, OpRemove sid rid) \<noteq> {#} \<Longrightarrow> file_state C L P (fst (remove_item C io sid rid r)) sid st \<Longrightarrow>
      state_ids st = pending_ids sid (fst (remove_item C io sid rid r))"
proof -
  have "pending_ids sid (fst (remove_item C io sid rid r)) + left_ids C sid r (io, OpRemove sid rid) \<subseteq># pending_ids sid r \<and>
      (left_ids C sid r (io, OpRemove sid rid) \<noteq> {#} \<longrightarrow> file_state C L P (fst (remove_item C io sid rid r)) sid st \<longrightarrow>
        state_ids st = pending_ids sid (fst (remove_item C io sid rid r)))"
  proof (cases "find_item (state_of r sid) rid")
    case None
    then show ?thesis by (simp add: remove_item_def Let_def left_ids_def)
  next
    case (Some loc)
    obtain t n where loc: "loc = (t, n)" by fastforce
    have ok: "inbox_ok C L P sid (state_of r sid)" by (rule inv_ok [OF inv])
    then have i: "inbox_inv (state_of r sid)" by (simp add: inbox_ok_def)
    have found: "find_item (state_of r sid) rid = Some (t, n)" using Some loc by simp
    let ?item = "items_of t (state_of r sid) ! n"
    let ?st = "bump_revision (set_items t (list_pop n (items_of t (state_of r sid))) (state_of r sid))"
    note ok' = remove_ok [OF ok found]
    have run: "remove_item C io sid rid r = finish C io False sid ?st (Some ?item) r"
      by (simp add: remove_item_def Let_def found)
    have split: "pending_ids sid r = {# qi_request_id ?item #} + state_ids ?st"
      using pop_one_inv(2) [OF i find_item_Some(1) [OF found]] by (simp add: pending_ids_def)
    have id: "mi_session_id ?st = sid" using ok' by (simp add: inbox_ok_def)
    have mem: "pending_ids sid (fst (remove_item C io sid rid r)) = state_ids ?st" unfolding run by (simp add: pending_finish)
    show ?thesis
    proof (cases "snd (finish C io False sid ?st (Some ?item) r)")
      case (Inl e)
      then have "left_ids C sid r (io, OpRemove sid rid) = {#}" by (simp add: left_ids_def run)
      then show ?thesis using mem split by simp
    next
      case (Inr y)
      note w = finish_written [OF Inr id]
      have left: "left_ids C sid r (io, OpRemove sid rid) = {# qi_request_id ?item #}"
        using Inr w by (simp add: left_ids_def run)
      have "st = ?st" if "file_state C L P (fst (remove_item C io sid rid r)) sid st"
        using written_file [OF ok' _ that] w run by simp
      then show ?thesis using left mem split by (auto simp: ac_simps)
    qed
  qed
  then show "pending_ids sid (fst (remove_item C io sid rid r)) + left_ids C sid r (io, OpRemove sid rid) \<subseteq># pending_ids sid r"
    and "left_ids C sid r (io, OpRemove sid rid) \<noteq> {#} \<Longrightarrow> file_state C L P (fst (remove_item C io sid rid r)) sid st \<Longrightarrow>
      state_ids st = pending_ids sid (fst (remove_item C io sid rid r))" by blast+
qed

text \<open>
  One operation: what it hands out comes out of memory, and the file is the old one, with nothing handed out, or holds
  what is in memory now.
\<close>

lemma io_step_bound:
  assumes inv: "repo_inv C L P r" and ok: "op_ok C L P op" and path: "path_for sid = Inr sid"
  shows "pending_ids sid (repo_step C L P now io op r) + left_ids C sid r (io, op) \<subseteq># pending_ids sid r + entered_ids C sid r (io, op) \<or>
    (\<exists>names. op = OpRestart names)"
    and "file_state C L P (repo_step C L P now io op r) sid st \<Longrightarrow>
      file_state C L P r sid st \<and> left_ids C sid r (io, op) = {#} \<or> state_ids st = pending_ids sid (repo_step C L P now io op r)"
proof -
  let ?r = "repo_step C L P now io op r"
  have other: "pending_ids sid ?r = pending_ids sid r" "file_state C L P ?r sid st = file_state C L P r sid st"
    if "mutation C L P io s r ?r" "sid \<noteq> s" for s
    using mutation_pending_other [OF that] same_file_state [OF mutation_file_other [OF that]] by auto
  have "(pending_ids sid ?r + left_ids C sid r (io, op) \<subseteq># pending_ids sid r + entered_ids C sid r (io, op) \<or> (\<exists>names. op = OpRestart names)) \<and>
    (file_state C L P ?r sid st \<longrightarrow> file_state C L P r sid st \<and> left_ids C sid r (io, op) = {#} \<or> state_ids st = pending_ids sid ?r)"
  proof (cases op)
    case (OpAdmit item t)
    have "pending_ids sid ?r \<subseteq># pending_ids sid r + entered_ids C sid r (io, op)"
      using OpAdmit subset_eq_diff_conv [of "pending_ids sid ?r" "pending_ids sid r" "pending_ids sid ?r - pending_ids sid r"]
      by (simp add: entered_ids_def add.commute)
    moreover have "left_ids C sid r (io, op) = {#}" using OpAdmit by (simp add: left_ids_def)
    ultimately show ?thesis
      using admit_mutation [OF inv, of item t io] ok OpAdmit mutation_file [of C L P io sid r ?r st] other(2) by fastforce
  next
    case (OpClaim s rids)
    have d: "distinct rids" using ok OpClaim by simp
    have m: "mutation C L P io s r ?r" using claim_mutation [OF inv d] OpClaim by simp
    have e: "entered_ids C sid r (io, op) = {#}" using OpClaim by (simp add: entered_ids_def)
    show ?thesis
    proof (cases "s = sid")
      case True
      then show ?thesis
        using claim_leaves [OF inv d, of sid io] mutation_file [of C L P io sid r ?r st] m OpClaim e by fastforce
    next
      case False
      then have "left_ids C sid r (io, op) = {#}" using OpClaim by (simp add: left_ids_def split: sum.split)
      then show ?thesis using other [OF m] False e by auto
    qed
  next
    case (OpRemove s rid)
    have m: "mutation C L P io s r ?r" using remove_mutation [OF inv] OpRemove by simp
    have e: "entered_ids C sid r (io, op) = {#}" using OpRemove by (simp add: entered_ids_def)
    show ?thesis
    proof (cases "s = sid")
      case True
      then show ?thesis
        using remove_leaves [OF inv, of sid io rid] mutation_file [of C L P io sid r ?r st] m OpRemove e by fastforce
    next
      case False
      then have "left_ids C sid r (io, op) = {#}" using OpRemove by (simp add: left_ids_def split: sum.split option.split)
      then show ?thesis using other [OF m] False e by auto
    qed
  next
    case (OpEdit s rid c a)
    have m: "mutation C L P io s r ?r" using edit_mutation [OF inv] OpEdit by simp
    have "pending_ids sid ?r = pending_ids sid r" using edit_balance_io [OF inv] OpEdit by simp
    then show ?thesis
      using mutation_file [of C L P io sid r ?r st] m OpEdit other(2) [OF m] by (cases "sid = s") (auto simp: entered_ids_def left_ids_def)
  next
    case (OpPromote s rid)
    have m: "mutation C L P io s r ?r" using promote_mutation [OF inv] OpPromote by simp
    have "pending_ids sid ?r = pending_ids sid r" using promote_balance_io [OF inv] OpPromote by simp
    then show ?thesis
      using mutation_file [of C L P io sid r ?r st] m OpPromote other(2) [OF m] by (cases "sid = s") (auto simp: entered_ids_def left_ids_def)
  next
    case (OpSnapshot s)
    then show ?thesis by (auto simp: repo_snapshot_def entered_ids_def left_ids_def file_state_def)
  next
    case (OpDelete s)
    then show ?thesis
      using path by (cases "s = sid")
        (auto simp: delete_session_def Let_def pending_ids_def left_ids_def entered_ids_def state_of_pop new_inbox_def
          all_items_def file_state_def split: sum.splits if_splits dest: path_for_Inr)
  next
    case (OpRestart names)
    then have "ir_disk ?r = ir_disk r" using load_all_inv [OF close_inv [OF inv]] by simp
    then show ?thesis using OpRestart same_file_state [of ?r sid r] by (auto simp: left_ids_def)
  qed
  then show "pending_ids sid ?r + left_ids C sid r (io, op) \<subseteq># pending_ids sid r + entered_ids C sid r (io, op) \<or> (\<exists>names. op = OpRestart names)"
    and "file_state C L P ?r sid st \<Longrightarrow> file_state C L P r sid st \<and> left_ids C sid r (io, op) = {#} \<or> state_ids st = pending_ids sid ?r"
    by blast+
qed

text \<open>After a restart memory holds what the file holds, or nothing.\<close>

lemma restart_reads_file:
  assumes inv: "repo_inv C L P r"
  shows "pending_ids sid (load_all C L P now io names (close_repo r)) = {#} \<or>
    (\<exists>st. file_state C L P r sid st \<and> pending_ids sid (load_all C L P now io names (close_repo r)) = state_ids st)"
proof (cases "ir_disk r sid")
  case None
  then show ?thesis
    using load_all_no_file [OF close_inv [OF inv], of sid] by (simp add: pending_ids_def new_inbox_def all_items_def)
next
  case (Some f)
  then have "file_ok C L P sid f" using inv by (simp add: repo_inv_def)
  then obtain st where st: "file_state C L P r sid st" using Some unfolding file_ok_def file_state_def by blast
  show ?thesis
  proof (cases "sid \<in> set names")
    case True
    have "file_state C L P (close_repo r) sid st" using st by (simp add: file_state_def)
    from load_all_state_of [OF close_inv [OF inv] this] True st show ?thesis by (auto simp: pending_ids_def)
  next
    case False
    have "state_of (load_all C L P now io names q) sid = state_of q sid" if "repo_inv C L P q" for q
      using that False
    proof (induction names arbitrary: q)
      case (Cons name names)
      have "state_of (load_one C L P now io name q) sid = state_of q sid"
        using load_one_state_of [OF Cons.prems(1), of now io name sid] Cons.prems(2) by auto
      then show ?case using Cons.IH [of "load_one C L P now io name q"] load_one_inv [OF Cons.prems(1)] Cons.prems by simp
    qed simp
    then show ?thesis using close_inv [OF inv] by (simp add: pending_ids_def new_inbox_def all_items_def)
  qed
qed

lemma empty_mirrored: "mirrored C L P sid (new_repo Map.empty)"
proof -
  have "repo_inv C L P (new_repo Map.empty)" by (rule repo_reachable_inv [OF repo_reachable.empty])
  then show ?thesis by (simp add: mirrored_def new_repo_def state_of_def new_inbox_def all_items_def)
qed

section \<open>Properties\<close>

text \<open>
  at every moment, whatever sequence of admissions, claims, removals, edits, promotions,
  deletions and restarts went before, and whichever of their writes failed: in every inbox
  the request ids and the sequence numbers are unique, each queue is in sequence order, and
  the counter is ahead of every item; every file on disk reads back as such an inbox, so no
  restart ever sets one aside as corrupt.
\<close>

theorem inbox_always_consistent:
  assumes "repo_reachable C L P r"
  shows "(\<forall>sid. distinct (map qi_request_id (all_items (state_of r sid))) \<and>
      distinct (map qi_sequence (all_items (state_of r sid))) \<and>
      sorted (map qi_sequence (mi_next_turn (state_of r sid))) \<and>
      sorted (map qi_sequence (mi_next_step (state_of r sid))) \<and>
      (\<forall>i \<in> set (all_items (state_of r sid)). qi_sequence i < mi_next_sequence (state_of r sid))) \<and>
    (\<forall>sid f. ir_disk r sid = Some f \<longrightarrow> (\<exists>raw st. f = JsonFile raw \<and>
      inbox_from_json L P now raw = Inr st \<and> mi_session_id st = sid)) \<and>
    ir_corrupt r = []"
proof -
  have inv: "repo_inv C L P r" by (rule repo_reachable_inv [OF assms])
  have inv_sid: "inbox_inv (state_of r sid)" for sid using inv_ok [OF inv] by (simp add: inbox_ok_def)
  have "distinct (map qi_request_id (all_items (state_of r sid))) \<and>
      distinct (map qi_sequence (all_items (state_of r sid))) \<and>
      sorted (map qi_sequence (mi_next_turn (state_of r sid))) \<and>
      sorted (map qi_sequence (mi_next_step (state_of r sid))) \<and>
      (\<forall>i \<in> set (all_items (state_of r sid)). qi_sequence i < mi_next_sequence (state_of r sid))" for sid
    using inv_sid [of sid] by (auto simp: inbox_inv_def inbox_validate_def split: if_splits)
  moreover have "\<exists>raw st. f = JsonFile raw \<and> inbox_from_json L P now raw = Inr st \<and> mi_session_id st = sid"
    if "ir_disk r sid = Some f" for sid f
  proof -
    obtain st where st: "f = JsonFile (inbox_to_json (rc_dump C) st)" "inbox_ok C L P sid st"
      using inv \<open>ir_disk r sid = Some f\<close> unfolding repo_inv_def file_ok_def by blast
    then have "inbox_from_json L P now (inbox_to_json (rc_dump C) st) = Inr st"
      by (subst inbox_reads_back) (auto simp: inbox_ok_def inbox_inv_def)
    then show ?thesis using st by (auto simp: inbox_ok_def)
  qed
  moreover have "ir_corrupt r = []" using inv by (simp add: repo_inv_def)
  ultimately show ?thesis by blast
qed

text \<open>
  Over a run with failing writes: what has been handed out, removed or deleted, together with what is in memory, has been
  put in; and so it is together with what a restart would read.
\<close>

definition bounded_by :: "repo_config \<Rightarrow> pylib \<Rightarrow> pydantic \<Rightarrow> string \<Rightarrow> string multiset \<Rightarrow> string multiset \<Rightarrow> inbox_repo \<Rightarrow> bool" where
  "bounded_by C L P sid out ent r \<longleftrightarrow> repo_inv C L P r \<and> out + pending_ids sid r \<subseteq># ent \<and>
     (\<forall>st. file_state C L P r sid st \<longrightarrow> out + state_ids st \<subseteq># ent)"

lemma io_step_bounded:
  assumes b: "bounded_by C L P sid out ent r" and ok: "run_ok C L P r (snd a)" and path: "path_for sid = Inr sid"
  shows "bounded_by C L P sid (out + left_ids C sid r a) (ent + entered_ids C sid r a) (io_step C L P now a r)"
proof -
  obtain io op where a: "a = (io, op)" by fastforce
  let ?r = "repo_step C L P now io op r" let ?l = "left_ids C sid r (io, op)" let ?e = "entered_ids C sid r (io, op)"
  have inv: "repo_inv C L P r" and mem: "out + pending_ids sid r \<subseteq># ent"
    and disk: "\<And>st. file_state C L P r sid st \<Longrightarrow> out + state_ids st \<subseteq># ent" using b by (simp_all add: bounded_by_def)
  have op: "op_ok C L P op" using ok a by (simp add: run_ok_def)
  have mem': "out + ?l + pending_ids sid ?r \<subseteq># ent + ?e"
  proof (cases "\<exists>names. op = OpRestart names")
    case True
    then obtain names where op: "op = OpRestart names" by blast
    have none: "?l = {#}" "?e = {#}" using op by (simp_all add: left_ids_def entered_ids_def)
    have "out \<subseteq># ent" using mem by (meson mset_subset_eq_add_left subset_mset.order_trans)
    then have "out + pending_ids sid ?r \<subseteq># ent" using restart_reads_file [OF inv, of sid now io names] disk op by auto
    then show ?thesis using none by simp
  next
    case False
    then have "pending_ids sid ?r + ?l \<subseteq># pending_ids sid r + ?e" using io_step_bound(1) [OF inv op path] by blast
    then have "out + (pending_ids sid ?r + ?l) \<subseteq># out + (pending_ids sid r + ?e)" by (rule subset_mset.add_left_mono)
    also have "\<dots> = (out + pending_ids sid r) + ?e" by (simp only: add.assoc)
    also have "\<dots> \<subseteq># ent + ?e" using mem by (rule subset_mset.add_right_mono)
    finally show ?thesis by (simp only: ac_simps)
  qed
  have "out + ?l + state_ids st \<subseteq># ent + ?e" if "file_state C L P ?r sid st" for st
    using io_step_bound(2) [OF inv op path that]
  proof
    assume "file_state C L P r sid st \<and> ?l = {#}"
    then have "out + state_ids st \<subseteq># ent" "?l = {#}" using disk by auto
    then show ?thesis by (metis add.right_neutral mset_subset_eq_add_left subset_mset.order_trans)
  qed (use mem' in simp)
  then show ?thesis using mem' repo_step_inv [OF inv op] by (simp add: a bounded_by_def)
qed

lemma io_run_bounded:
  assumes "bounded_by C L P sid out ent r" and "all_ok (io_step C L P now) (\<lambda>r a. run_ok C L P r (snd a)) r as" and "path_for sid = Inr sid"
  shows "bounded_by C L P sid (out + total (io_step C L P now) (left_ids C sid) r as)
     (ent + total (io_step C L P now) (entered_ids C sid) r as) (fold (io_step C L P now) as r)"
  using assms(1,2)
proof (induction as arbitrary: r out ent)
  case (Cons a as)
  have "bounded_by C L P sid (out + left_ids C sid r a) (ent + entered_ids C sid r a) (io_step C L P now a r)"
    using io_step_bounded [OF Cons.prems(1) _ assms(3)] Cons.prems(2) by simp
  from Cons.IH [OF this] Cons.prems(2) show ?case by (simp add: add.assoc)
qed simp

text \<open>When no write fails nothing is missing.\<close>

lemma written_step:
  assumes m: "mirrored C L P sid r" and ok: "run_ok C L P r op" and path: "path_for sid = Inr sid"
  shows "entered_ids C sid r (True, op) = added_ids C sid r op" "left_ids C sid r (True, op) = gone_ids C sid r op"
proof -
  have inv: "repo_inv C L P r" using m by (simp add: mirrored_def)
  show "entered_ids C sid r (True, op) = added_ids C sid r op"
    using admit_balance [OF inv _ path] ok by (cases op) (auto simp: entered_ids_def added_ids_def run_ok_def)
  show "left_ids C sid r (True, op) = gone_ids C sid r op"
    using path by (cases op) (auto simp: left_ids_def gone_ids_def delete_session_def Let_def split: sum.splits option.splits)
qed

interpretation written: ledger "io_step C L P now" "\<lambda>r. mirrored C L P sid r \<and> path_for sid = Inr sid"
    "\<lambda>r a. fst a \<and> run_ok C L P r (snd a)" "pending_ids sid" "entered_ids C sid" "left_ids C sid"
  for C L P now sid
proof unfold_locales
  fix r :: inbox_repo and a :: "bool \<times> repo_op"
  assume good: "mirrored C L P sid r \<and> path_for sid = Inr sid" and "fst a \<and> run_ok C L P r (snd a)"
  then obtain op where a: "a = (True, op)" and ok: "run_ok C L P r op" by (cases a) auto
  show "mirrored C L P sid (io_step C L P now a r) \<and> path_for sid = Inr sid" using step_mirrored good ok by (simp add: a)
  show "pending_ids sid (io_step C L P now a r) + left_ids C sid r a = pending_ids sid r + entered_ids C sid r a"
    using step_balance [of C L P sid r op now] written_step [of C L P sid r op] good ok by (simp add: a)
qed

lemma all_ok_conj: "list_all p as \<Longrightarrow> all_ok f q r as \<Longrightarrow> all_ok f (\<lambda>r a. p a \<and> q r a) r as"
  by (induction as arbitrary: r) auto

text \<open>
  C4: nothing is handed out twice and nothing is invented, whatever writes fail; nothing is lost while none fails. Over any
  run from an empty repository, with restarts anywhere in it that see every file: the requests of a session that were
  claimed, removed or deleted and those that are pending were, counted with multiplicity, put in by admissions. If no write
  of the run failed, these are all that were put in. (A write that fails may hide requests until a restart, see
  \<open>failed_claim_write_hides_items\<close>.)
\<close>

theorem inbox_conserves_requests:
  assumes "all_ok (io_step C L P now) (\<lambda>r a. run_ok C L P r (snd a)) (new_repo Map.empty) ops"
    and "path_for sid = Inr sid"
  shows "total (io_step C L P now) (left_ids C sid) (new_repo Map.empty) ops +
      pending_ids sid (fold (io_step C L P now) ops (new_repo Map.empty))
        \<subseteq># total (io_step C L P now) (entered_ids C sid) (new_repo Map.empty) ops \<and>
    (list_all fst ops \<longrightarrow>
      total (io_step C L P now) (left_ids C sid) (new_repo Map.empty) ops +
      pending_ids sid (fold (io_step C L P now) ops (new_repo Map.empty))
        = total (io_step C L P now) (entered_ids C sid) (new_repo Map.empty) ops)"
proof -
  have none: "pending_ids sid (new_repo Map.empty) = {#}"
    by (simp add: pending_ids_def new_repo_def state_of_def new_inbox_def all_items_def)
  have "bounded_by C L P sid {#} {#} (new_repo Map.empty)"
    using none repo_reachable_inv [OF repo_reachable.empty] by (simp add: bounded_by_def file_state_def new_repo_def)
  from io_run_bounded [OF this assms]
  have "total (io_step C L P now) (left_ids C sid) (new_repo Map.empty) ops +
      pending_ids sid (fold (io_step C L P now) ops (new_repo Map.empty))
        \<subseteq># total (io_step C L P now) (entered_ids C sid) (new_repo Map.empty) ops"
    by (simp add: bounded_by_def)
  moreover have "list_all fst ops \<longrightarrow> total (io_step C L P now) (left_ids C sid) (new_repo Map.empty) ops +
      pending_ids sid (fold (io_step C L P now) ops (new_repo Map.empty))
        = total (io_step C L P now) (entered_ids C sid) (new_repo Map.empty) ops"
    using written.run_balance [OF _ all_ok_conj [OF _ assms(1)], where sid = sid] empty_mirrored assms(2) none
    by (auto simp: ac_simps)
  ultimately show ?thesis ..
qed

text \<open>
  a restart after any such run brings back every inbox as it was, item for item and in
  order.
\<close>

theorem restart_keeps_pending:
  assumes "all_ok (repo_step C L P now True) (run_ok C L P) (new_repo Map.empty) ops"
    and "path_for sid = Inr sid"
    and "r = fold (repo_step C L P now True) ops (new_repo Map.empty)"
    and "dom (ir_disk r) \<subseteq> set names"
  shows "all_items (state_of (repo_step C L P now' io (OpRestart names) r) sid) = all_items (state_of r sid)"
proof -
  have "mirrored C L P sid r"
    using inbox.run_good [OF _ assms(1)] empty_mirrored assms(2,3) by blast
  then show ?thesis using restart_state_of(1) [OF _ assms(4), of C L P sid now' io] by auto
qed

subsection \<open>Answers\<close>

lemma sorted_strict:
  assumes "inbox_inv st"
  shows "sorted (map qi_sequence (items_of t st)) \<and> distinct (map qi_sequence (items_of t st)) \<and>
    distinct (map qi_request_id (items_of t st))"
  using assms by (cases t) (auto simp: inbox_inv_def inbox_validate_def items_of_def all_items_def split: if_splits)

lemma same_sorted_items:
  assumes "sorted (map f xs)" "distinct (map f xs)" "sorted (map f ys)" "distinct (map f ys)" "set xs = set ys"
  shows "xs = ys"
  by (rule map_sorted_distinct_set_unique [of f]) (use assms in \<open>simp_all add: distinct_map\<close>)

text \<open>Ids are unique over both queues, so an item is in one queue only.\<close>

lemma one_queue:
  assumes inv: "inbox_inv st" and "i \<in> set (items_of t st)" and "j \<in> set (items_of u st)"
    and "qi_request_id i = qi_request_id j"
  shows "t = u \<and> i = j"
proof -
  have d: "distinct (map qi_request_id (mi_next_turn st @ mi_next_step st))"
    using inv by (simp add: inbox_inv_def inbox_validate_iff all_items_def)
  have one: "i = j"
    by (rule inj_onD [of qi_request_id "set (mi_next_turn st @ mi_next_step st)"])
      (use assms d in \<open>auto simp: distinct_map items_of_def simp del: map_append split: queue_target.splits\<close>)
  have "set (mi_next_turn st) \<inter> set (mi_next_step st) = {}" using d by auto
  then have "t = u" using assms(2,3) one by (cases t; cases u) (auto simp: items_of_def)
  then show ?thesis using one by simp
qed

lemma claimed_queues:
  assumes inv: "inbox_inv st" and locs: "locate_all st rids = Some locs" and d: "distinct rids"
  shows "items_of t (fst (pop_all (by_index_desc locs) st)) =
    filter (\<lambda>i. qi_request_id i \<notin> set rids) (items_of t st)"
proof -
  let ?st = "fst (pop_all (by_index_desc locs) st)"
  let ?taken = "map (\<lambda>(t, n). items_of t st ! n) locs"
  note c = claim_inv [OF inv locs d]
  have ids: "map qi_request_id ?taken = rids"
    using locate_all_Some(3) [OF locs] by (simp add: case_prod_unfold comp_def)
  have split: "mset (map qi_request_id (all_items st)) = mset rids + mset (map qi_request_id (all_items ?st))"
    using arg_cong [OF c(3), of "image_mset qi_request_id"] ids by (metis image_mset_union mset_map)
  have "distinct (map qi_request_id (all_items st))"
    using inv by (simp add: inbox_inv_def inbox_validate_iff)
  then have "distinct (rids @ map qi_request_id (all_items ?st))"
    using mset_eq_imp_distinct_iff [of "rids @ map qi_request_id (all_items ?st)" "map qi_request_id (all_items st)"] split
    by (simp del: distinct_append)
  then have gone: "qi_request_id i \<notin> set rids" if "i \<in> set (items_of u ?st)" for i u
    using that items_of_subset by fastforce
  have inv': "inbox_inv (bump_revision ?st)" by (rule c(2))
  have "set (items_of t ?st) = {i \<in> set (items_of t st). qi_request_id i \<notin> set rids}"
  proof safe
    fix i assume "i \<in> set (items_of t ?st)"
    then show "i \<in> set (items_of t st)" using c(5) by blast
  next
    fix i assume "i \<in> set (items_of t ?st)" and "qi_request_id i \<in> set rids"
    then show False using gone by blast
  next
    fix i assume i: "i \<in> set (items_of t st)" and "qi_request_id i \<notin> set rids"
    have "qi_request_id ` set ?taken = set rids" using ids by (metis list.set_map)
    then have "i \<notin> set ?taken" using \<open>qi_request_id i \<notin> set rids\<close> by blast
    moreover have "i \<in> set_mset (mset (all_items st))" using i items_of_subset by auto
    ultimately have "i \<in> set (all_items ?st)" unfolding c(3) by simp
    then have "i \<in> set (items_of NextTurn ?st) \<or> i \<in> set (items_of NextStep ?st)"
      by (simp add: all_items_def items_of_def)
    then obtain u where u: "i \<in> set (items_of u ?st)" by blast
    then have "i \<in> set (items_of u st)" using c(5) by blast
    then have "u = t" using one_queue [OF inv _ i] by simp
    then show "i \<in> set (items_of t ?st)" using u by simp
  qed
  then show ?thesis
    using sorted_strict [OF inv', of t] sorted_strict [OF inv, of t]
    by (intro same_sorted_items [of qi_sequence]) (auto simp: sorted_filter distinct_map_filter)
qed

lemma locate_all_None: "locate_all st rids = None \<longleftrightarrow> \<not> set rids \<subseteq> qi_request_id ` set (all_items st)"
proof (induction rids)
  case Nil
  then show ?case by simp
next
  case (Cons rid rids)
  then show ?case
    using find_item_None_iff [of st rid] by (auto split: option.split)
qed

lemma claim_outcome:
  assumes "repo_reachable C L P r" and "path_for sid = Inr sid" and "distinct rids" and "rids \<noteq> []"
    and "(r', res) = claim C True sid rids r"
  shows "if set rids \<subseteq> qi_request_id ` set (all_items (state_of r sid)) then
      (\<exists>items. res = Inr items \<and> map qi_request_id items = rids \<and>
         set items \<subseteq> set (all_items (state_of r sid))) \<and>
      (\<forall>t. items_of t (state_of r' sid) =
         filter (\<lambda>i. qi_request_id i \<notin> set rids) (items_of t (state_of r sid))) \<and>
      ir_disk r' sid = Some (JsonFile (inbox_to_json (rc_dump C) (state_of r' sid)))
    else res = Inr [] \<and> state_of r' sid = state_of r sid \<and> ir_disk r' = ir_disk r"
proof (cases "locate_all (state_of r sid) rids")
  case None
  then show ?thesis
    using assms(4,5) locate_all_None [of "state_of r sid" rids] by (auto simp: claim_def Let_def)
next
  case (Some locs)
  have ok: "inbox_ok C L P sid (state_of r sid)" by (rule inv_ok [OF repo_reachable_inv [OF assms(1)]])
  then have inv: "inbox_inv (state_of r sid)" by (simp add: inbox_ok_def)
  note f = finish_commits [OF claim_ok [OF ok Some assms(3)] assms(2)]
  let ?items = "map (\<lambda>(t, n). items_of t (state_of r sid) ! n) locs"
  have claim: "claim C True sid rids r = finish C True True sid
      (bump_revision (fst (pop_all (by_index_desc locs) (state_of r sid)))) ?items r"
    using assms(4) claim_inv(1) [OF inv Some assms(3)] by (simp add: claim_def Let_def Some)
  have "set ?items \<subseteq> set (all_items (state_of r sid))"
    using locate_all_Some(2) [OF Some] items_of_subset by (force dest: nth_mem)
  moreover have "map qi_request_id ?items = rids"
    using locate_all_Some(3) [OF Some] by (simp add: case_prod_unfold comp_def)
  moreover have "res = Inr ?items" using assms(5) f(1) unfolding claim by (metis snd_conv)
  moreover have st: "state_of r' sid = bump_revision (fst (pop_all (by_index_desc locs) (state_of r sid)))"
    using assms(5) finish_state_of unfolding claim by (metis fst_conv)
  moreover have "ir_disk r' sid = Some (JsonFile (inbox_to_json (rc_dump C) (state_of r' sid)))"
    using assms(5) f(2) unfolding claim st by (metis fst_conv)
  moreover have "set rids \<subseteq> qi_request_id ` set (all_items (state_of r sid))"
    using Some locate_all_None by (metis option.distinct(1))
  ultimately show ?thesis using claimed_queues [OF inv Some assms(3)] by (simp only: if_True) auto
qed

text \<open>
  a claim is all or nothing. When every requested item is pending, the caller gets exactly
  those items in the order asked for, the queues keep the others in their order, and the file
  already shows the queues without them; otherwise the caller gets nothing and no item moves.
\<close>

theorem claim_is_all_or_nothing:
  assumes "repo_reachable C L P r" and "path_for sid = Inr sid" and "distinct rids" and "rids \<noteq> []"
    and "(r', res) = claim C True sid rids r"
  shows "if set rids \<subseteq> qi_request_id ` set (all_items (state_of r sid)) then
      (\<exists>items. res = Inr items \<and> map qi_request_id items = rids \<and>
         set items \<subseteq> set (all_items (state_of r sid))) \<and>
      (\<forall>t. items_of t (state_of r' sid) =
         filter (\<lambda>i. qi_request_id i \<notin> set rids) (items_of t (state_of r sid))) \<and>
      ir_disk r' sid = Some (JsonFile (inbox_to_json (rc_dump C) (state_of r' sid)))
    else res = Inr [] \<and> state_of r' sid = state_of r sid \<and> ir_disk r' = ir_disk r"
  by (rule claim_outcome [OF assms])

lemma total_items_length: "total_items st = int (length (all_items st))"
  by (simp add: total_items_def all_items_def)

lemma length_enqueue: "length (all_items (enqueue item t st)) = length (all_items st) + 1"
  using arg_cong [OF enqueue_facts(2) [of item t st], of size] by simp

lemma admit_reply:
  assumes "repo_reachable C L P r" and "op_ok C L P (OpAdmit item t)" and "path_for sid = Inr sid"
    and "qi_session_id item = sid" and "rc_session_exists C = None" and "(r', res) = admit C True item t r"
  shows "if \<exists>n. res = Inr (True, n)
    then res = Inr (True, int (length (all_items (state_of r sid))) + 1) \<and>
      find_item (state_of r sid) (qi_request_id item) = None \<and>
      int (length (all_items (state_of r sid))) < rc_capacity C \<and>
      (\<forall>u. items_of u (state_of r' sid) = items_of u (state_of r sid) @
         (if u = t then [item\<lparr>qi_sequence := mi_next_sequence (state_of r sid)\<rparr>] else [])) \<and>
      ir_disk r' sid = Some (JsonFile (inbox_to_json (rc_dump C) (state_of r' sid)))
    else state_of r' sid = state_of r sid \<and> ir_disk r' = ir_disk r \<and>
      res = (case find_item (state_of r sid) (qi_request_id item) of
               Some (u, n) \<Rightarrow> Inr (False, int n + 1)
             | None \<Rightarrow>
                 if (\<exists>f. rc_request_seen C = Some f \<and> f sid (qi_request_id item)) then Inr (False, 0)
                 else Inl OverflowError)"
proof (cases rule: admit_cases [of C True item t r])
  case same
  have "\<not> (\<exists>n. res = Inr (True, n))" using same(2) assms(6) by (metis snd_conv)
  moreover have "res = (case find_item (state_of r sid) (qi_request_id item) of
               Some (u, n) \<Rightarrow> Inr (False, int n + 1)
             | None \<Rightarrow>
                 if (\<exists>f. rc_request_seen C = Some f \<and> f sid (qi_request_id item)) then Inr (False, 0)
                 else Inl OverflowError)"
  proof (cases "find_item (state_of r sid) (qi_request_id item)")
    case (Some loc)
    then show ?thesis using assms(4,5,6) by (auto simp: admit_def Let_def split: prod.splits)
  next
    case None
    have "inbox_ok C L P sid (enqueue item t (state_of r sid))"
      using enqueue_ok [OF inv_ok [OF repo_reachable_inv [OF assms(1)]] None assms(2)] .
    note f = finish_commits(1) [OF this assms(3)]
    show ?thesis
      using None assms(4,5,6) same(2)
      by (auto simp: admit_def Let_def f split: option.splits if_splits)
  qed
  ultimately show ?thesis using same(1) assms(4,6) by (auto dest: arg_cong [of _ _ fst])
next
  case new
  have ok: "inbox_ok C L P sid (enqueue item t (state_of r sid))"
    using enqueue_ok [OF inv_ok [OF repo_reachable_inv [OF assms(1)]] _ assms(2), of sid] new(1) assms(4) by simp
  note f = finish_commits [OF ok assms(3)]
  have res: "res = Inr (True, int (length (all_items (state_of r sid))) + 1)"
    using arg_cong [OF assms(6), of snd] new(2) assms(4)
    by (simp add: f(1) total_items_length length_enqueue)
  have st: "state_of r' sid = enqueue item t (state_of r sid)"
    using arg_cong [OF assms(6), of fst] new(2) assms(4) by (simp add: finish_state_of)
  have disk: "ir_disk r' sid = Some (JsonFile (inbox_to_json (rc_dump C) (enqueue item t (state_of r sid))))"
    using arg_cong [OF assms(6), of fst] new(2) assms(4) by (simp add: f(2))
  have cap: "int (length (all_items (state_of r sid))) < rc_capacity C"
  proof (rule ccontr)
    assume "\<not> ?thesis"
    then have "\<forall>n. snd (admit C True item t r) \<noteq> Inr (True, n)"
      using new(1) assms(4,5) by (auto simp: admit_def Let_def total_items_length split: option.split)
    then show False using arg_cong [OF assms(6), of snd] res by (metis snd_conv)
  qed
  have "numbered item (state_of r sid) = item\<lparr>qi_sequence := mi_next_sequence (state_of r sid)\<rparr>"
    using assms(2) by (simp add: numbered_def)
  then show ?thesis
    using new(1) assms(4) by (simp add: res st disk cap enqueue_facts(1))
qed

text \<open>
  admission answers as it promises. A request that is pending is not queued again and is
  answered with its position, one the session has already seen with 0, one that exceeds the capacity
  with an overflow; in these cases nothing changes. Every other request goes to the end of its
  queue with the next sequence number, is counted, and is on disk before the answer.
\<close>

theorem admit_outcome:
  assumes "repo_reachable C L P r" and "op_ok C L P (OpAdmit item t)" and "path_for sid = Inr sid"
    and "qi_session_id item = sid" and "rc_session_exists C = None" and "(r', res) = admit C True item t r"
  shows "if \<exists>n. res = Inr (True, n)
    then res = Inr (True, int (length (all_items (state_of r sid))) + 1) \<and>
      find_item (state_of r sid) (qi_request_id item) = None \<and>
      int (length (all_items (state_of r sid))) < rc_capacity C \<and>
      (\<forall>u. items_of u (state_of r' sid) = items_of u (state_of r sid) @
         (if u = t then [item\<lparr>qi_sequence := mi_next_sequence (state_of r sid)\<rparr>] else [])) \<and>
      ir_disk r' sid = Some (JsonFile (inbox_to_json (rc_dump C) (state_of r' sid)))
    else state_of r' sid = state_of r sid \<and> ir_disk r' = ir_disk r \<and>
      res = (case find_item (state_of r sid) (qi_request_id item) of
               Some (u, n) \<Rightarrow> Inr (False, int n + 1)
             | None \<Rightarrow>
                 if (\<exists>f. rc_request_seen C = Some f \<and> f sid (qi_request_id item)) then Inr (False, 0)
                 else Inl OverflowError)"
  by (rule admit_reply [OF assms])

text \<open>
  the order of memory and disk shows when a write fails. A claim whose write raises has
  already dropped the items from memory, so nobody holds them until a restart reads the old
  file again.
\<close>

lemma failed_claim_write_hides_items:
  assumes "repo_reachable C L P r" and "path_for sid = Inr sid" and "distinct rids" and "rids \<noteq> []"
    and "set rids \<subseteq> qi_request_id ` set (all_items (state_of r sid))"
    and "(r', res) = claim C False sid rids r"
  shows "res = Inl OSError \<and> ir_disk r' = ir_disk r \<and>
    (\<forall>t. items_of t (state_of r' sid) =
       filter (\<lambda>i. qi_request_id i \<notin> set rids) (items_of t (state_of r sid)))"
proof -
  have ok: "inbox_ok C L P sid (state_of r sid)" by (rule inv_ok [OF repo_reachable_inv [OF assms(1)]])
  then have inv: "inbox_inv (state_of r sid)" by (simp add: inbox_ok_def)
  obtain locs where locs: "locate_all (state_of r sid) rids = Some locs"
    using assms(5) locate_all_None [of "state_of r sid" rids] by blast
  let ?st = "bump_revision (fst (pop_all (by_index_desc locs) (state_of r sid)))"
  have claim: "claim C False sid rids r = finish C False True sid ?st
      (map (\<lambda>(t, n). items_of t (state_of r sid) ! n) locs) r"
    using assms(4) claim_inv(1) [OF inv locs assms(3)] by (simp add: claim_def Let_def locs)
  have st: "inbox_validate ?st = Inr ()" "mi_session_id ?st = sid"
    using claim_ok [OF ok locs assms(3)] by (simp_all add: inbox_ok_def inbox_inv_def)
  have "res = Inl OSError" "ir_disk r' = ir_disk r" "state_of r' sid = ?st"
    using arg_cong [OF assms(6), of fst] arg_cong [OF assms(6), of snd] st assms(2)
    by (simp_all add: claim finish_def Let_def commit_state_def)
  then show ?thesis using claimed_queues [OF inv locs assms(3)] by simp
qed

section \<open>Concrete runs\<close>

definition sample_config :: repo_config where
  "sample_config = \<lparr>rc_capacity = 2, rc_session_exists = None, rc_request_seen = None, rc_dump = sample_dump\<rparr>"

abbreviation sample_step :: "repo_op \<Rightarrow> inbox_repo \<Rightarrow> inbox_repo" where
  "sample_step \<equiv> repo_step sample_config sample_lib item_pydantic ''now'' True"

definition two_queued :: inbox_repo where
  "two_queued = fold sample_step
     [OpAdmit (sample_item ''r1'' 0) NextTurn, OpAdmit (sample_item ''r2'' 0) NextStep] (new_repo Map.empty)"

lemma sample_ops_ok:
  "op_ok sample_config sample_lib item_pydantic (OpAdmit (sample_item rid 0) t)"
  using sample_item_storable by (simp add: sample_config_def) (simp add: sample_item_def)

lemma two_queued_reachable: "repo_reachable sample_config sample_lib item_pydantic two_queued"
  unfolding two_queued_def fold.simps comp_apply id_apply
  by (intro repo_reachable.intros sample_ops_ok)

lemma s1_path: "path_for ''s1'' = Inr ''s1''"
  by (simp add: path_for_def)

lemma two_queued_eval:
  "state_of two_queued ''s1'' = \<lparr>mi_session_id = ''s1'', mi_revision = 2, mi_next_sequence = 3,
     mi_next_turn = [sample_item ''r1'' 1], mi_next_step = [sample_item ''r2'' 2]\<rparr>"
  "dom (ir_disk two_queued) = {''s1''}"
  by (simp_all add: two_queued_def admit_def finish_def commit_state_def path_for_def Let_def
      enqueue_def find_item_def new_repo_def state_of_def new_inbox_def sample_config_def sample_item_def
      total_items_def inbox_validate_def all_items_def items_of_def set_items_def bump_revision_def put_state_def)

theorem inbox_always_consistent_witness:
  "repo_reachable sample_config sample_lib item_pydantic two_queued \<and> ir_corrupt two_queued = [] \<and>
   distinct (map qi_sequence (all_items (state_of two_queued ''s1'')))"
  using inbox_always_consistent [OF two_queued_reachable] two_queued_reachable by blast

theorem inbox_conserves_requests_witness:
  "let ops = [(True, OpAdmit (sample_item ''r1'' 0) NextTurn), (False, OpClaim ''s1'' [''r1''])];
       step = io_step sample_config sample_lib item_pydantic ''now'' in
   total step (left_ids sample_config ''s1'') (new_repo Map.empty) ops + pending_ids ''s1'' (fold step ops (new_repo Map.empty))
     \<subseteq># total step (entered_ids sample_config ''s1'') (new_repo Map.empty) ops"
proof -
  have "all_ok (io_step sample_config sample_lib item_pydantic ''now'') (\<lambda>r a. run_ok sample_config sample_lib item_pydantic r (snd a))
      (new_repo Map.empty) [(True, OpAdmit (sample_item ''r1'' 0) NextTurn), (False, OpClaim ''s1'' [''r1''])]"
    using sample_ops_ok [of "''r1''" NextTurn] by (simp add: run_ok_def del: repo_step.simps)
  from inbox_conserves_requests [OF this s1_path] show ?thesis unfolding Let_def by blast
qed

theorem restart_keeps_pending_witness:
  "all_items (state_of (sample_step (OpRestart [''s1'']) two_queued) ''s1'') =
     [sample_item ''r1'' 1, sample_item ''r2'' 2]"
proof -
  have "all_ok sample_step (run_ok sample_config sample_lib item_pydantic) (new_repo Map.empty)
      [OpAdmit (sample_item ''r1'' 0) NextTurn, OpAdmit (sample_item ''r2'' 0) NextStep]"
    using sample_ops_ok [of "''r1''" NextTurn] sample_ops_ok [of "''r2''" NextStep]
    by (simp add: run_ok_def del: repo_step.simps)
  then have "all_items (state_of (sample_step (OpRestart [''s1'']) two_queued) ''s1'') =
      all_items (state_of two_queued ''s1'')"
    by (rule restart_keeps_pending [OF _ s1_path two_queued_def]) (simp add: two_queued_eval)
  then show ?thesis by (simp add: two_queued_eval all_items_def)
qed

theorem claim_is_all_or_nothing_witness:
  "(\<exists>items. snd (claim sample_config True ''s1'' [''r2'', ''r1''] two_queued) = Inr items \<and>
      map qi_request_id items = [''r2'', ''r1'']) \<and>
   all_items (state_of (fst (claim sample_config True ''s1'' [''r2'', ''r1''] two_queued)) ''s1'') = []"
proof -
  note c = claim_is_all_or_nothing [OF two_queued_reachable s1_path, of "[''r2'', ''r1'']",
      OF _ _ surjective_pairing [symmetric]]
  have ids: "set [''r2'', ''r1''] \<subseteq> qi_request_id ` set (all_items (state_of two_queued ''s1''))"
    by (simp add: two_queued_eval all_items_def sample_item_def)
  have "\<forall>t. items_of t (state_of (fst (claim sample_config True ''s1'' [''r2'', ''r1''] two_queued)) ''s1'') = []"
    using c ids by (simp add: two_queued_eval items_of_def sample_item_def split: queue_target.split)
  then have "all_items (state_of (fst (claim sample_config True ''s1'' [''r2'', ''r1''] two_queued)) ''s1'') = []"
    using items_of_def [of NextTurn] items_of_def [of NextStep] by (metis all_items_def append_Nil queue_target.simps(3,4))
  then show ?thesis using c ids by auto
qed

theorem admit_outcome_witness:
  "snd (admit sample_config True (sample_item ''r3'' 0) NextTurn two_queued) = Inl OverflowError \<and>
   state_of (fst (admit sample_config True (sample_item ''r3'' 0) NextTurn two_queued)) ''s1'' = state_of two_queued ''s1''"
proof -
  have none: "find_item (state_of two_queued ''s1'') (qi_request_id (sample_item ''r3'' 0)) = None"
    by (simp add: two_queued_eval find_item_def sample_item_def)
  have "rc_session_exists sample_config = None" "rc_request_seen sample_config = None"
    "rc_capacity sample_config = 2" "qi_session_id (sample_item ''r3'' 0) = ''s1''"
    "length (all_items (state_of two_queued ''s1'')) = 2"
    by (simp_all add: sample_config_def sample_item_def two_queued_eval all_items_def)
  then show ?thesis
    using admit_outcome [OF two_queued_reachable sample_ops_ok s1_path _ _ surjective_pairing [symmetric],
        of "''r3''" NextTurn] none
    by (auto split: if_splits)
qed

theorem failed_claim_write_hides_items_witness:
  "snd (claim sample_config False ''s1'' [''r1''] two_queued) = Inl OSError \<and>
   ir_disk (fst (claim sample_config False ''s1'' [''r1''] two_queued)) = ir_disk two_queued \<and>
   items_of NextTurn (state_of (fst (claim sample_config False ''s1'' [''r1''] two_queued)) ''s1'') = []"
proof -
  have ids: "set [''r1''] \<subseteq> qi_request_id ` set (all_items (state_of two_queued ''s1''))"
    by (simp add: two_queued_eval all_items_def sample_item_def)
  note f = failed_claim_write_hides_items [OF two_queued_reachable s1_path _ _ ids surjective_pairing [symmetric]]
  have "items_of NextTurn (state_of (fst (claim sample_config False ''s1'' [''r1''] two_queued)) ''s1'') =
      filter (\<lambda>i. qi_request_id i \<notin> set [''r1'']) (items_of NextTurn (state_of two_queued ''s1''))"
    using f by simp
  then show ?thesis
    using f by (simp add: two_queued_eval items_of_def [of NextTurn] sample_item_def)
qed

end
