(* ===== verification/InboxService.thy ===== *)
theory InboxService
  imports InboxLedger
begin

text \<open>
  The service over the queues (\<open>packages/ftre-inbox/src/ftre_inbox/service.py\<close>): admission of
  external messages, the two delivery points (before a reasoning step, and after a turn), the
  hooks that may veto a claim, and what is reported to observers.

  The host of the service (agent service, session service, hooks) is the parameter
  \<open>inbox_host\<close>: the answers it gives to the calls the service makes. Between the moment a
  delivery looks at the queues and the moment it claims, other tasks may act on the
  repository: the argument \<open>env\<close> is what they did.
\<close>

section \<open>The host\<close>

datatype admission = AllowAdmission | RejectAdmission string | OtherAdmission

datatype claim_decision = EnterClaim string | RejectKeep | RejectDiscard | OtherDecision

text \<open>What \<open>AgentService.run\<close> returned: a dict, or an object whose attributes may be missing.\<close>

datatype raw_result =
    RawDict jdict
  | RawObject "string option" "json option" "bool option"

record agent_request =
  rq_session_id :: string
  rq_request_id :: string
  rq_messages :: "msg list"
  rq_agent_id :: string
  rq_channel_id :: string
  rq_source :: queue_source
  rq_metadata_agent :: string
  rq_attachments :: "jdict list"
  rq_history :: "string option"

record inbox_host =
  h_lib :: pylib
  h_hooks :: bool
  h_before_admit :: "queue_item \<Rightarrow> queue_target \<Rightarrow> admission"
  h_before_claim :: "(queue_item \<Rightarrow> inbox_snapshot \<Rightarrow> bool) option"
  h_claim_hook :: "queue_item \<Rightarrow> queue_target \<Rightarrow> claim_decision"
  h_sessions :: bool
  h_session_agent :: "string \<Rightarrow> json option"
  h_prev_assistant :: "string \<Rightarrow> string option"
  h_append_user :: "queue_item \<Rightarrow> string option \<Rightarrow> jdict option result"
  h_agent :: bool
  h_views :: "(string \<times> string) list"
  h_is_busy :: "(string \<Rightarrow> bool result) option"
  h_status :: "(string \<Rightarrow> string result) option"
  h_ensure :: "string \<Rightarrow> queue_item \<Rightarrow> unit result"
  h_run :: "agent_request \<Rightarrow> raw_result result"
  h_exn_str :: "exn \<Rightarrow> string"
  h_fresh :: "string \<Rightarrow> string"

section \<open>State\<close>

datatype inbox_event =
    Changed string
  | Admitted string string queue_target queue_item bool
  | Claimed string "string list"
  | Deferred string string string
  | Discarded string string string
  | Delivered string string string
  | ErrorEvent string string string string bool
  | FailedEvent string string string

datatype receipt_outcome = ReceiptResult raw_result | ReceiptError exn

record inbox_service =
  sv_repo :: inbox_repo
  sv_closed :: bool
  sv_tasks :: "string list"
  sv_requested :: "string list"
  sv_wait_idle :: "string list"
  sv_receipts :: "(string \<times> string) list"
  sv_resolved :: "((string \<times> string) \<times> receipt_outcome) list"
  sv_events :: "inbox_event list"

definition new_service :: "inbox_repo \<Rightarrow> inbox_service" where
  "new_service r = \<lparr>sv_repo = r, sv_closed = False, sv_tasks = [], sv_requested = [], sv_wait_idle = [],
                    sv_receipts = [], sv_resolved = [], sv_events = []\<rparr>"

text \<open>\<open>_observe\<close> and \<open>_publish\<close>: without a hook runtime nobody is told.\<close>

definition emit :: "inbox_host \<Rightarrow> inbox_event \<Rightarrow> inbox_service \<Rightarrow> inbox_service" where
  "emit H ev s = (if h_hooks H then s\<lparr>sv_events := sv_events s @ [ev]\<rparr> else s)"

definition with_repo :: "inbox_service \<Rightarrow> inbox_repo \<Rightarrow> inbox_service" where
  "with_repo s r = s\<lparr>sv_repo := r\<rparr>"

text \<open>The future of a receipt is completed once and forgotten.\<close>

definition resolve :: "queue_item \<Rightarrow> receipt_outcome \<Rightarrow> inbox_service \<Rightarrow> inbox_service" where
  "resolve item out s =
     (let k = (qi_session_id item, qi_request_id item) in
      if k \<in> set (sv_receipts s)
      then s\<lparr>sv_receipts := removeAll k (sv_receipts s), sv_resolved := sv_resolved s @ [(k, out)]\<rparr>
      else s)"

section \<open>Messages in\<close>

text \<open>\<open>_content_text\<close>.\<close>

definition text_part :: "pylib \<Rightarrow> json \<Rightarrow> string" where
  "text_part L part =
     (case part of
        JObj kvs \<Rightarrow> if get_or kvs ''type'' (JStr ''text'') = JStr ''text''
                    then py_str L (get_or kvs ''text'' (JStr [])) else []
      | _ \<Rightarrow> [])"

definition content_text :: "pylib \<Rightarrow> json option \<Rightarrow> string" where
  "content_text L v =
     (case v of
        Some (JStr s) \<Rightarrow> s
      | Some (JList parts) \<Rightarrow> concat (map (text_part L) parts)
      | _ \<Rightarrow> str_or_empty L v)"

text \<open>The two envelopes the service accepts.\<close>

record inbound_message =
  im_session_id :: string
  im_request_id :: string
  im_channel_id :: string
  im_content :: string
  im_attachments :: "jdict list"
  im_source :: string
  im_metadata :: jdict

datatype inbound = FromChannel inbound_message | FromAgentRun inbound_message "msg list"

fun envelope :: "inbound \<Rightarrow> inbound_message" where
  "envelope (FromChannel m) = m"
| "envelope (FromAgentRun m ms) = m"

definition message_texts :: "msg list \<Rightarrow> string list" where
  "message_texts ms = filter (\<lambda>t. t \<noteq> []) (map (\<lambda>m. opt_str (get_text_content [CHR 0x0A] m)) ms)"

definition source_of :: "string \<Rightarrow> queue_source" where
  "source_of s = (if s = ''plugin'' then FromPlugin else if s = ''system'' then FromSystem else FromUser)"

text \<open>The attachments of an agent run come from its metadata.\<close>

definition metadata_attachments :: "pylib \<Rightarrow> jdict \<Rightarrow> jdict list result" where
  "metadata_attachments L md = bind_r (iter_json (get_or md ''attachments'' (JList []))) (map_r (py_dict L))"

definition item_from_message :: "pylib \<Rightarrow> inbound \<Rightarrow> queue_item result" where
  "item_from_message L msg =
     (let m = envelope msg;
          item = (\<lambda>content atts ms.
            \<lparr>qi_request_id = im_request_id m, qi_sequence = 0, qi_session_id = im_session_id m,
             qi_channel_id = im_channel_id m, qi_content = content, qi_attachments = atts,
             qi_source = source_of (im_source m), qi_history = None, qi_messages = ms,
             qi_agent_id = str_or_empty L (dict_get (im_metadata m) ''agent_id'')\<rparr>)
      in case msg of
           FromChannel m \<Rightarrow> Inr (item (im_content m) (im_attachments m) [])
         | FromAgentRun m ms \<Rightarrow>
             bind_r (metadata_attachments L (im_metadata m)) (\<lambda>atts.
               Inr (item (join_with [CHR 0x0A] (message_texts ms)) atts ms)))"

definition resolve_session_agent :: "inbox_host \<Rightarrow> queue_item \<Rightarrow> queue_item" where
  "resolve_session_agent H item =
     (if qi_agent_id item \<noteq> [] \<or> \<not> h_sessions H
      then item\<lparr>qi_agent_id := str_or (qi_agent_id item) ''default''\<rparr>
      else item\<lparr>qi_agent_id := str_or_default (h_lib H) (h_session_agent H (qi_session_id item)) ''default''\<rparr>)"

section \<open>Admission\<close>

record ingress =
  ing_accepted :: bool
  ing_session_id :: string
  ing_request_id :: string
  ing_created :: bool
  ing_error :: "(string \<times> bool option) option"

definition refuse :: "string \<Rightarrow> string \<Rightarrow> string \<Rightarrow> bool option \<Rightarrow> ingress" where
  "refuse sid rid code retryable =
     \<lparr>ing_accepted = False, ing_session_id = sid, ing_request_id = rid, ing_created = False,
      ing_error = Some (code, retryable)\<rparr>"

text \<open>After the repository accepted: snapshot, publish, report the item, open a receipt.\<close>

definition report_admission ::
  "inbox_host \<Rightarrow> repo_config \<Rightarrow> queue_item \<Rightarrow> queue_target \<Rightarrow> bool \<Rightarrow> inbox_service \<Rightarrow> inbox_service" where
  "report_admission H C item target created s =
     (let sid = qi_session_id item; rid = qi_request_id item;
          shot = repo_snapshot C sid (sv_repo s);
          s1 = emit H (Changed sid) (with_repo s (fst shot));
          s2 = (case find_first (\<lambda>i. qi_request_id i = rid) (snapshot_pending (snd shot)) of
                  None \<Rightarrow> s1
                | Some i \<Rightarrow> emit H (Admitted sid rid target i created) s1)
      in if target = NextTurn \<and> created \<and> (sid, rid) \<notin> set (sv_receipts s2)
         then s2\<lparr>sv_receipts := sv_receipts s2 @ [(sid, rid)]\<rparr> else s2)"

definition service_admit ::
  "inbox_host \<Rightarrow> repo_config \<Rightarrow> bool \<Rightarrow> inbound \<Rightarrow> queue_target \<Rightarrow> inbox_service \<Rightarrow> inbox_service \<times> ingress result" where
  "service_admit H C io msg target s =
     (if sv_closed s then
        (s, Inr (refuse (im_session_id (envelope msg)) (im_request_id (envelope msg)) ''inbox-closed'' None))
      else case item_from_message (h_lib H) msg of
        Inl e \<Rightarrow> (s, Inl e)
      | Inr raw \<Rightarrow>
          let item = resolve_session_agent H raw; sid = qi_session_id item; rid = qi_request_id item in
          case (if h_hooks H then h_before_admit H item target else AllowAdmission) of
            RejectAdmission reason \<Rightarrow> (s, Inr (refuse sid rid ''admission-rejected'' (Some False)))
          | OtherAdmission \<Rightarrow> (s, Inl TypeError)
          | AllowAdmission \<Rightarrow>
              let a = admit C io item target (sv_repo s); s1 = with_repo s (fst a) in
              case snd a of
                Inl e \<Rightarrow>
                  if e = OverflowError then (s1, Inr (refuse sid rid ''queue-full'' (Some True)))
                  else if e = ValueError then (s1, Inr (refuse sid rid ''session-not-found'' (Some False)))
                  else (s1, Inl e)
              | Inr (created, position) \<Rightarrow>
                  (report_admission H C item target created s1,
                   Inr \<lparr>ing_accepted = True, ing_session_id = sid, ing_request_id = rid,
                        ing_created = created, ing_error = None\<rparr>))"

section \<open>Scheduling\<close>

text \<open>
  \<open>_agent_busy\<close>: a view of the session in a busy state, else the probe; a probe that raises
  counts as busy. \<open>_agent_paused\<close>: there a raise counts as not paused.
\<close>

definition busy_states :: "string list" where
  "busy_states = [''running'', ''processing'', ''compacting'', ''paused'', ''stopping'', ''awaiting_confirmation'']"

definition agent_busy :: "inbox_host \<Rightarrow> string \<Rightarrow> bool" where
  "agent_busy H sid \<longleftrightarrow> h_agent H \<and>
     (list_ex (\<lambda>(s, state). s = sid \<and> state \<in> set busy_states) (h_views H) \<or>
      (case h_is_busy H of
         None \<Rightarrow> False
       | Some probe \<Rightarrow> (case probe sid of Inr b \<Rightarrow> b | Inl e \<Rightarrow> True)))"

definition agent_paused :: "inbox_host \<Rightarrow> string \<Rightarrow> bool" where
  "agent_paused H sid \<longleftrightarrow> h_agent H \<and>
     (list_ex (\<lambda>(s, state). s = sid \<and> state = ''paused'') (h_views H) \<or>
      (case h_status H of
         None \<Rightarrow> False
       | Some probe \<Rightarrow> (case probe sid of Inr st \<Rightarrow> st = ''paused'' | Inl e \<Rightarrow> False)))"

definition agent_can_receive :: "inbox_host \<Rightarrow> string \<Rightarrow> bool" where
  "agent_can_receive H sid \<longleftrightarrow> h_agent H \<and> \<not> agent_busy H sid"

definition add_once :: "'a \<Rightarrow> 'a list \<Rightarrow> 'a list" where
  "add_once x xs = (if x \<in> set xs then xs else xs @ [x])"

definition schedule_next_turn :: "inbox_host \<Rightarrow> string \<Rightarrow> bool \<Rightarrow> inbox_service \<Rightarrow> inbox_service" where
  "schedule_next_turn H sid wait s =
     (if sv_closed s \<or> \<not> h_agent H then s
      else s\<lparr>sv_requested := add_once sid (sv_requested s),
             sv_wait_idle := (if wait then add_once sid (sv_wait_idle s) else sv_wait_idle s),
             sv_tasks := add_once sid (sv_tasks s)\<rparr>)"

definition handle_after_run :: "inbox_host \<Rightarrow> string \<Rightarrow> string \<Rightarrow> bool \<Rightarrow> inbox_service \<Rightarrow> inbox_service" where
  "handle_after_run H sid status paused s =
     (if status = ''completed'' \<and> \<not> paused then schedule_next_turn H sid True s else s)"

definition followup ::
  "inbox_host \<Rightarrow> repo_config \<Rightarrow> bool \<Rightarrow> inbound \<Rightarrow> inbox_service \<Rightarrow> inbox_service \<times> ingress result" where
  "followup H C io msg s =
     (let was_busy = agent_busy H (im_session_id (envelope msg));
          a = service_admit H C io msg NextTurn s
      in case snd a of
           Inl e \<Rightarrow> a
         | Inr ack \<Rightarrow>
             if ing_created ack \<and> \<not> was_busy \<and> agent_can_receive H (ing_session_id ack)
             then (schedule_next_turn H (ing_session_id ack) False (fst a), Inr ack) else a)"

definition steer ::
  "inbox_host \<Rightarrow> repo_config \<Rightarrow> bool \<Rightarrow> inbound \<Rightarrow> inbox_service \<Rightarrow> inbox_service \<times> ingress result" where
  "steer H C io msg s = service_admit H C io msg NextStep s"

definition inject ::
  "inbox_host \<Rightarrow> repo_config \<Rightarrow> bool \<Rightarrow> inbound \<Rightarrow> inbox_service \<Rightarrow> inbox_service \<times> ingress result" where
  "inject H C io msg s = service_admit H C io msg NextStep s"

section \<open>Queue operations\<close>

definition edit_published :: "inbox_host \<Rightarrow> string \<Rightarrow> inbox_repo \<times> queue_item option result \<Rightarrow> inbox_service \<Rightarrow> inbox_service \<times> bool result" where
  "edit_published H sid a s =
     (let s1 = with_repo s (fst a) in
      case snd a of
        Inl e \<Rightarrow> (s1, Inl e)
      | Inr None \<Rightarrow> (s1, Inr False)
      | Inr (Some item) \<Rightarrow> (emit H (Changed sid) s1, Inr True))"

definition service_edit :: "inbox_host \<Rightarrow> repo_config \<Rightarrow> bool \<Rightarrow> string \<Rightarrow> string \<Rightarrow> string \<Rightarrow> jdict list \<Rightarrow> inbox_service \<Rightarrow> inbox_service \<times> bool result" where
  "service_edit H C io sid rid content atts s =
     edit_published H sid (edit_item C io sid rid content atts (sv_repo s)) s"

definition service_remove :: "inbox_host \<Rightarrow> repo_config \<Rightarrow> bool \<Rightarrow> string \<Rightarrow> string \<Rightarrow> inbox_service \<Rightarrow> inbox_service \<times> bool result" where
  "service_remove H C io sid rid s = edit_published H sid (remove_item C io sid rid (sv_repo s)) s"

definition service_promote :: "inbox_host \<Rightarrow> repo_config \<Rightarrow> bool \<Rightarrow> string \<Rightarrow> string \<Rightarrow> inbox_service \<Rightarrow> inbox_service \<times> bool result" where
  "service_promote H C io sid rid s = edit_published H sid (promote C io sid rid (sv_repo s)) s"

text \<open>\<open>cancel\<close>: of a pending request, else of the running turn (\<open>cancelled\<close> is the agent's answer).\<close>

definition service_cancel ::
  "inbox_host \<Rightarrow> repo_config \<Rightarrow> bool \<Rightarrow> bool \<Rightarrow> string \<Rightarrow> string option \<Rightarrow> inbox_service \<Rightarrow> inbox_service \<times> bool result" where
  "service_cancel H C io cancelled sid rid s =
     (if opt_str rid \<noteq> [] then service_remove H C io sid (opt_str rid) s
      else if \<not> h_agent H then (s, Inr False) else (s, Inr cancelled))"

definition placement :: "inbox_snapshot \<Rightarrow> queue_item \<Rightarrow> string" where
  "placement sn item =
     (if qi_request_id item \<in> set (map qi_request_id (is_next_turn sn)) then ''queued''
      else if qi_source item = FromUser then ''steering'' else ''context'')"

definition wire_item :: "inbox_snapshot \<Rightarrow> queue_item \<Rightarrow> json" where
  "wire_item sn item = JObj
     [(''id'', JStr (qi_request_id item)),
      (''placement'', JStr (placement sn item)),
      (''message'', JObj
         [(''content'', JList [JObj [(''type'', JStr ''text''), (''text'', JStr (qi_content item))]]),
          (''attachments'', JList (map JObj (qi_attachments item)))])]"

definition wire_snapshot :: "repo_config \<Rightarrow> string \<Rightarrow> inbox_service \<Rightarrow> inbox_service \<times> json" where
  "wire_snapshot C sid s =
     (let shot = repo_snapshot C sid (sv_repo s); sn = snd shot in
      (with_repo s (fst shot), JObj
        [(''session_id'', JStr sid), (''revision'', JInt (is_revision sn)),
         (''items'', JList (map (wire_item sn) (snapshot_pending sn)))]))"

definition service_delete_session :: "bool \<Rightarrow> string \<Rightarrow> inbox_service \<Rightarrow> inbox_service \<times> unit result" where
  "service_delete_session io sid s =
     (let d = delete_session io sid (sv_repo s) in
      (s\<lparr>sv_tasks := removeAll sid (sv_tasks s), sv_requested := removeAll sid (sv_requested s),
         sv_wait_idle := removeAll sid (sv_wait_idle s),
         sv_receipts := filter (\<lambda>k. fst k \<noteq> sid) (sv_receipts s), sv_repo := fst d\<rparr>, snd d))"

definition close_service :: "inbox_service \<Rightarrow> inbox_service" where
  "close_service s =
     s\<lparr>sv_closed := True, sv_tasks := [], sv_requested := [], sv_wait_idle := [], sv_receipts := [],
       sv_repo := close_repo (sv_repo s)\<rparr>"

section \<open>Bus messages\<close>

record bus_message =
  bm_type :: string
  bm_id :: string
  bm_from_session :: string
  bm_from_channel :: string
  bm_data :: jdict
  bm_request_id :: string
  bm_metadata :: jdict

definition bus_inbound :: "pylib \<Rightarrow> bus_message \<Rightarrow> inbound result" where
  "bus_inbound L bm =
     bind_r (case dict_get (bm_data bm) ''attachments'' of
               None \<Rightarrow> Inr []
             | Some v \<Rightarrow> if jtruthy v then bind_r (iter_json v) (map_r (py_dict L)) else Inr [])
       (\<lambda>atts. Inr (FromChannel
         \<lparr>im_session_id = str_or_default L (dict_get (bm_data bm) ''session_id'') (bm_from_session bm),
          im_request_id = str_or (bm_request_id bm) (bm_id bm), im_channel_id = bm_from_channel bm,
          im_content = content_text L (dict_get (bm_data bm) ''content''), im_attachments = atts,
          im_source = str_or_default L (dict_get (bm_data bm) ''source'') ''user'',
          im_metadata = bm_metadata bm\<rparr>))"

definition handle_bus_message ::
  "inbox_host \<Rightarrow> repo_config \<Rightarrow> bool \<Rightarrow> bool \<Rightarrow> bus_message \<Rightarrow> inbox_service \<Rightarrow> inbox_service \<times> ingress result" where
  "handle_bus_message H C io cancelled bm s =
     (let L = h_lib H; sid = str_or_default L (dict_get (bm_data bm) ''session_id'') (bm_from_session bm) in
      if bm_type bm = ''turn_cancel'' then
        let c = service_cancel H C io cancelled sid
                  (none_if_empty (Some (str_or_empty L (dict_get (bm_data bm) ''request_id'')))) s
        in (fst c, bind_r (snd c) (\<lambda>done. Inr
             \<lparr>ing_accepted = True, ing_session_id = sid, ing_request_id = bm_request_id bm,
              ing_created = done, ing_error = None\<rparr>))
      else case bus_inbound L bm of
        Inl e \<Rightarrow> (s, Inl e)
      | Inr msg \<Rightarrow>
          let mode = str_or_default L (dict_get (bm_data bm) ''mode'') ''queue'' in
          if mode = ''queue'' then followup H C io msg s
          else if mode = ''steer'' then steer H C io msg s
          else (s, Inr (refuse sid (str_or (bm_request_id bm) (bm_id bm)) ''invalid_mode'' (Some False))))"

section \<open>Before a claim\<close>

datatype batch_decision = BatchEnter | BatchKeep | BatchDiscard queue_item

text \<open>\<open>_before_claim_batch\<close>: every candidate has to be let in, the first veto decides.\<close>

definition claim_vote :: "inbox_host \<Rightarrow> inbox_snapshot \<Rightarrow> queue_item \<Rightarrow> batch_decision" where
  "claim_vote H sn c =
     (if (case h_before_claim H of None \<Rightarrow> False | Some f \<Rightarrow> \<not> f c sn) then BatchKeep
      else if \<not> h_hooks H then BatchEnter
      else case h_claim_hook H c
             (if qi_request_id c \<in> set (map qi_request_id (is_next_step sn)) then NextStep else NextTurn) of
        EnterClaim rid \<Rightarrow> if rid = qi_request_id c then BatchEnter else BatchKeep
      | RejectDiscard \<Rightarrow> BatchDiscard c
      | RejectKeep \<Rightarrow> BatchKeep
      | OtherDecision \<Rightarrow> BatchKeep)"

fun before_claim_batch :: "inbox_host \<Rightarrow> inbox_snapshot \<Rightarrow> queue_item list \<Rightarrow> batch_decision" where
  "before_claim_batch H sn [] = BatchEnter"
| "before_claim_batch H sn (c # cs) =
     (case claim_vote H sn c of BatchEnter \<Rightarrow> before_claim_batch H sn cs | d \<Rightarrow> d)"

text \<open>\<open>_candidate_batch\<close>.\<close>

definition candidate_batch :: "inbox_snapshot \<Rightarrow> queue_item list" where
  "candidate_batch sn =
     (if is_next_step sn \<noteq> [] then is_next_step sn @ take 1 (is_next_turn sn) else take 1 (is_next_turn sn))"

text \<open>
  \<open>_persist_user_messages\<close>: user input enters the session log before it is claimed, under
  its request id. Only the first message of a batch carries the previous assistant message.
\<close>

fun persist_loop ::
  "inbox_host \<Rightarrow> queue_item list \<Rightarrow> string option \<Rightarrow> (string, string) dict \<Rightarrow> (string, string) dict result" where
  "persist_loop H [] prev ids = Inr ids"
| "persist_loop H (c # cs) prev ids =
     (if qi_source c \<noteq> FromUser then persist_loop H cs prev ids
      else case h_append_user H c prev of
        Inl e \<Rightarrow> Inl e
      | Inr None \<Rightarrow> persist_loop H cs None ids
      | Inr (Some ev) \<Rightarrow>
          persist_loop H cs None
            (dict_set (qi_request_id c) (str_or_empty (h_lib H) (dict_get ev ''message_id'')) ids))"

definition persist_user_messages :: "inbox_host \<Rightarrow> queue_item list \<Rightarrow> (string, string) dict result" where
  "persist_user_messages H cs =
     (if \<not> h_sessions H then Inr []
      else persist_loop H cs (case cs of [] \<Rightarrow> None | c # _ \<Rightarrow> h_prev_assistant H (qi_session_id c)) [])"

definition attach_history_ids :: "(string, string) dict \<Rightarrow> queue_item list \<Rightarrow> queue_item list" where
  "attach_history_ids ids items =
     map (\<lambda>i. case dict_get ids (qi_request_id i) of
                None \<Rightarrow> i
              | Some h \<Rightarrow> i\<lparr>qi_history := Some h\<rparr>) items"

definition defer_item :: "inbox_host \<Rightarrow> string \<Rightarrow> queue_item \<Rightarrow> string \<Rightarrow> inbox_service \<Rightarrow> inbox_service" where
  "defer_item H sid item reason s = emit H (Deferred sid (qi_request_id item) reason) s"

definition discard_item ::
  "inbox_host \<Rightarrow> repo_config \<Rightarrow> bool \<Rightarrow> string \<Rightarrow> queue_item \<Rightarrow> string \<Rightarrow> inbox_service \<Rightarrow> inbox_service \<times> unit result" where
  "discard_item H C io sid item reason s =
     (let d = remove_item C io sid (qi_request_id item) (sv_repo s); s1 = with_repo s (fst d) in
      case snd d of
        Inl e \<Rightarrow> (s1, Inl e)
      | Inr None \<Rightarrow> (emit H (Changed sid) s1, Inr ())
      | Inr (Some i) \<Rightarrow>
          (emit H (Changed sid) (emit H (Discarded sid (qi_request_id item) reason) s1), Inr ()))"

section \<open>Delivery\<close>

text \<open>
  The part both delivery points share: look at the queues, pick the candidates, ask, persist,
  and claim. It returns the claimed items with their history ids.
\<close>

definition claim_batch ::
  "inbox_host \<Rightarrow> repo_config \<Rightarrow> bool \<Rightarrow> (inbox_repo \<Rightarrow> inbox_repo) \<Rightarrow> string \<Rightarrow> inbox_snapshot \<Rightarrow> queue_item list
   \<Rightarrow> inbox_service \<Rightarrow> inbox_service \<times> queue_item list result" where
  "claim_batch H C io env sid sn candidates s =
     (case before_claim_batch H sn candidates of
        BatchKeep \<Rightarrow> (defer_item H sid (hd candidates) ''before-claim-rejected'' s, Inr [])
      | BatchDiscard c \<Rightarrow>
          let d = discard_item H C io sid c ''before-claim-discard'' s
          in (fst d, bind_r (snd d) (\<lambda>_. Inr []))
      | BatchEnter \<Rightarrow>
          (case persist_user_messages H candidates of
             Inl e \<Rightarrow> (s, Inl e)
           | Inr ids \<Rightarrow>
               let c = claim C io sid (map qi_request_id candidates) (env (sv_repo s));
                   s1 = with_repo s (fst c)
               in case snd c of
                    Inl e \<Rightarrow> (s1, Inl e)
                  | Inr [] \<Rightarrow> (s1, Inr [])
                  | Inr items \<Rightarrow>
                      (emit H (Claimed sid (map qi_request_id items)) (emit H (Changed sid) s1),
                       Inr (attach_history_ids ids items))))"

definition deliver_next_step ::
  "inbox_host \<Rightarrow> repo_config \<Rightarrow> bool \<Rightarrow> (inbox_repo \<Rightarrow> inbox_repo) \<Rightarrow> string \<Rightarrow> inbox_service
   \<Rightarrow> inbox_service \<times> queue_item list result" where
  "deliver_next_step H C io env sid s =
     (if sv_closed s then (s, Inr [])
      else let shot = repo_snapshot C sid (sv_repo s); sn = snd shot; s1 = with_repo s (fst shot) in
        if is_next_step sn = [] then (s1, Inr []) else claim_batch H C io env sid sn (is_next_step sn) s1)"

subsection \<open>Running a turn\<close>

text \<open>\<open>_run_result_info\<close> and \<open>_result_paused\<close>.\<close>

definition result_status :: "pylib \<Rightarrow> raw_result \<Rightarrow> string" where
  "result_status L r =
     (case r of
        RawDict d \<Rightarrow> str_or_default L (dict_get d ''status'') ''completed''
      | RawObject status error paused \<Rightarrow> (case status of None \<Rightarrow> ''completed'' | Some st \<Rightarrow> st))"

definition result_error :: "raw_result \<Rightarrow> json" where
  "result_error r =
     (case r of
        RawDict d \<Rightarrow> get_or d ''error'' JNull
      | RawObject status error paused \<Rightarrow> (case error of None \<Rightarrow> JNull | Some e \<Rightarrow> e))"

definition run_result_info :: "pylib \<Rightarrow> raw_result \<Rightarrow> string \<times> string \<times> bool" where
  "run_result_info L r =
     (let status = result_status L r in
      case result_error r of
        JObj error \<Rightarrow>
          (status,
           str_or_default L (dict_get error ''message'') (str_or_default L (dict_get error ''code'') status),
           jtruthy (get_or error ''retryable'' (JBool (status \<noteq> ''failed''))))
      | e \<Rightarrow> (status, (if jtruthy e then py_str L e else status), status \<noteq> ''failed''))"

definition result_paused :: "raw_result \<Rightarrow> bool" where
  "result_paused r =
     (case r of
        RawDict d \<Rightarrow> jtruthy (get_or d ''paused'' (JBool False))
      | RawObject status error paused \<Rightarrow> (case paused of None \<Rightarrow> False | Some b \<Rightarrow> b))"

definition execution_identity :: "queue_item \<Rightarrow> string" where
  "execution_identity item = qi_session_id item @ '':'' @ str_or (qi_agent_id item) ''default''"

definition ensure_agent :: "inbox_host \<Rightarrow> queue_item \<Rightarrow> string result" where
  "ensure_agent H item =
     (if \<not> h_agent H then Inl RuntimeError
      else bind_r (h_ensure H (execution_identity item) item) (\<lambda>_. Inr (execution_identity item)))"

definition to_agent_request :: "inbox_host \<Rightarrow> queue_item \<Rightarrow> string \<Rightarrow> agent_request" where
  "to_agent_request H item agent_id =
     \<lparr>rq_session_id = qi_session_id item, rq_request_id = qi_request_id item,
      rq_messages = normalized_messages (h_fresh H ''message'') (h_fresh H ''block'') (h_fresh H ''now'') item,
      rq_agent_id = agent_id, rq_channel_id = qi_channel_id item, rq_source = qi_source item,
      rq_metadata_agent = str_or (qi_agent_id item) ''default'', rq_attachments = qi_attachments item,
      rq_history = none_if_empty (qi_history item)\<rparr>"

definition report_failure :: "inbox_host \<Rightarrow> string \<Rightarrow> queue_item \<Rightarrow> string \<Rightarrow> bool \<Rightarrow> inbox_service \<Rightarrow> inbox_service" where
  "report_failure H sid item reason retryable s =
     emit H (FailedEvent sid (qi_request_id item) reason)
       (emit H (ErrorEvent sid (qi_request_id item) ''agent-run'' reason retryable) s)"

definition run_item :: "inbox_host \<Rightarrow> queue_item \<Rightarrow> raw_result result" where
  "run_item H item = bind_r (ensure_agent H item) (\<lambda>agent_id. h_run H (to_agent_request H item agent_id))"

text \<open>\<open>_deliver\<close>: stops at the first item whose turn does not complete.\<close>

fun deliver :: "inbox_host \<Rightarrow> string \<Rightarrow> queue_item list \<Rightarrow> inbox_service \<Rightarrow> inbox_service \<times> bool result" where
  "deliver H sid [] s = (s, Inr True)"
| "deliver H sid (item # items) s =
     (case run_item H item of
        Inl Cancelled \<Rightarrow> (s, Inl Cancelled)
      | Inl e \<Rightarrow>
          (resolve item (ReceiptError e) (report_failure H sid item (h_exn_str H e) False s), Inr False)
      | Inr r \<Rightarrow>
          let (status, reason, retryable) = run_result_info (h_lib H) r in
          if result_paused r then (resolve item (ReceiptResult r) s, Inr False)
          else if status \<in> {''failed'', ''error'', ''cancelled'', ''interrupted''} then
            (resolve item (ReceiptResult r) (report_failure H sid item reason retryable s), Inr False)
          else deliver H sid items
            (resolve item (ReceiptResult r) (emit H (Delivered sid (qi_request_id item) status) s)))"

text \<open>
  \<open>_dispatch_next_turn\<close>. With \<open>wait_for_idle\<close> the task polls until the agent is idle or the
  service is closed; the step is what it does then. The first part may raise, which is
  reported; the end forgets the task and starts it again if it was asked for meanwhile.
\<close>

definition dispatch_body ::
  "inbox_host \<Rightarrow> repo_config \<Rightarrow> bool \<Rightarrow> (inbox_repo \<Rightarrow> inbox_repo) \<Rightarrow> string \<Rightarrow> bool \<Rightarrow> inbox_service
   \<Rightarrow> inbox_service \<times> unit result" where
  "dispatch_body H C io env sid wait s =
     (if (if wait then sv_closed s \<or> agent_paused H sid else \<not> agent_can_receive H sid) then (s, Inr ())
      else let shot = repo_snapshot C sid (sv_repo s); sn = snd shot; s1 = with_repo s (fst shot) in
        if is_next_turn sn = [] then (s1, Inr ())
        else let c = claim_batch H C io env sid sn (take 1 (is_next_turn sn)) s1 in
          case snd c of
            Inl e \<Rightarrow> (fst c, Inl e)
          | Inr [] \<Rightarrow> (fst c, Inr ())
          | Inr items \<Rightarrow>
              let d = deliver H sid items (fst c) in
              case snd d of
                Inl e \<Rightarrow> (fst d, Inl e)
              | Inr ok \<Rightarrow> (emit H (Changed sid) (fst d), Inr ()))"

definition dispatch_next_turn ::
  "inbox_host \<Rightarrow> repo_config \<Rightarrow> bool \<Rightarrow> (inbox_repo \<Rightarrow> inbox_repo) \<Rightarrow> string \<Rightarrow> inbox_service
   \<Rightarrow> inbox_service \<times> unit result" where
  "dispatch_next_turn H C io env sid s =
     (let wait = sid \<in> set (sv_wait_idle s);
          s1 = s\<lparr>sv_requested := removeAll sid (sv_requested s), sv_wait_idle := removeAll sid (sv_wait_idle s)\<rparr>;
          b = dispatch_body H C io env sid wait s1;
          res = (case snd b of
                   Inr u \<Rightarrow> (fst b, Inr ())
                 | Inl Cancelled \<Rightarrow> (fst b, Inl Cancelled)
                 | Inl e \<Rightarrow> (emit H (ErrorEvent sid [] ''next-turn-claim'' (h_exn_str H e) True) (fst b), Inr ()));
          s2 = (fst res)\<lparr>sv_tasks := removeAll sid (sv_tasks (fst res))\<rparr>
      in (if sid \<in> set (sv_requested s2) \<and> \<not> sv_closed s2
          then schedule_next_turn H sid (sid \<in> set (sv_wait_idle s2))
                 (s2\<lparr>sv_requested := removeAll sid (sv_requested s2), sv_wait_idle := removeAll sid (sv_wait_idle s2)\<rparr>)
          else s2, snd res))"

end
