(* ===== verification/InboxDelivery.thy ===== *)
theory InboxDelivery
  imports InboxService
begin

text \<open>
  What the inbox service does with pending input: who may stop a delivery, what is delivered,
  in which order, and how each run is reported.
\<close>

section \<open>Consent\<close>

lemma before_claim_enter_iff: "before_claim_batch H sn cs = BatchEnter \<longleftrightarrow> (\<forall>c \<in> set cs. claim_vote H sn c = BatchEnter)"
  by (induction cs) (auto split: batch_decision.split)

lemma before_claim_discard: "before_claim_batch H sn cs = BatchDiscard c \<Longrightarrow> c \<in> set cs"
proof (induction cs)
  case Nil
  then show ?case by simp
next
  case (Cons a cs)
  have "claim_vote H sn a = BatchDiscard c \<Longrightarrow> a = c"
    by (auto simp: claim_vote_def split: if_splits claim_decision.splits option.splits)
  then show ?case using Cons by (auto split: batch_decision.splits)
qed

lemma emit_fields [simp]:
  "sv_repo (emit H ev s) = sv_repo s" "sv_closed (emit H ev s) = sv_closed s"
  "sv_tasks (emit H ev s) = sv_tasks s" "sv_requested (emit H ev s) = sv_requested s"
  "sv_wait_idle (emit H ev s) = sv_wait_idle s" "sv_receipts (emit H ev s) = sv_receipts s"
  "sv_resolved (emit H ev s) = sv_resolved s"
  by (simp_all add: emit_def)

lemma with_repo_fields [simp]:
  "sv_repo (with_repo s r) = r" "sv_closed (with_repo s r) = sv_closed s"
  "sv_receipts (with_repo s r) = sv_receipts s" "sv_events (with_repo s r) = sv_events s"
  "sv_resolved (with_repo s r) = sv_resolved s"
  by (simp_all add: with_repo_def)

lemma attach_ids [simp]: "map qi_request_id (attach_history_ids ids items) = map qi_request_id items"
  by (auto simp: attach_history_ids_def split: option.splits)

lemma attach_nil [simp]: "attach_history_ids ids items = [] \<longleftrightarrow> items = []"
  by (simp add: attach_history_ids_def)

lemma snapshot_reachable:
  "repo_reachable C L P r \<Longrightarrow> repo_reachable C L P (fst (repo_snapshot C sid r))"
  using repo_reachable.step [of C L P r "OpSnapshot sid"] by simp

lemma snapshot_state_of [simp]: "state_of (fst (repo_snapshot C sid r)) sid' = state_of r sid'"
  by (simp add: repo_snapshot_def)

lemma snapshot_disk [simp]: "ir_disk (fst (repo_snapshot C sid r)) = ir_disk r"
  by (simp add: repo_snapshot_def)

lemma snapshot_items [simp]:
  "is_next_turn (snd (repo_snapshot C sid r)) = mi_next_turn (state_of r sid)"
  "is_next_step (snd (repo_snapshot C sid r)) = mi_next_step (state_of r sid)"
  by (simp_all add: repo_snapshot_def inbox_snapshot_of_def)


subsection \<open>The common part\<close>




section \<open>Vetoes\<close>

lemma locate_one: "find_item st rid = Some (t, n) \<Longrightarrow> locate_all st [rid] = Some [(t, n)]"
  by simp

lemma removed_queues:
  assumes inv: "inbox_inv st" and found: "find_item st rid = Some (t, n)"
  shows "items_of u (bump_revision (set_items t (list_pop n (items_of t st)) st)) =
    filter (\<lambda>i. qi_request_id i \<noteq> rid) (items_of u st)"
  using claimed_queues [OF inv locate_one [OF found], of u] find_item_Some(1) [OF found]
  by (simp add: by_index_desc_def)

lemma remove_outcome:
  assumes "repo_reachable C L P r" and "path_for sid = Inr sid"
  shows "(\<forall>u. items_of u (state_of (fst (remove_item C True sid rid r)) sid) =
      filter (\<lambda>i. qi_request_id i \<noteq> rid) (items_of u (state_of r sid))) \<and>
    (\<exists>x. snd (remove_item C True sid rid r) = Inr x)"
proof -
  have ok: "inbox_ok C L P sid (state_of r sid)" by (rule inv_ok [OF repo_reachable_inv [OF assms(1)]])
  then have inv: "inbox_inv (state_of r sid)" by (simp add: inbox_ok_def)
  show ?thesis
  proof (cases "find_item (state_of r sid) rid")
    case None
    then have "filter (\<lambda>i. qi_request_id i \<noteq> rid) (items_of u (state_of r sid)) = items_of u (state_of r sid)" for u
      using items_of_subset [of u "state_of r sid"] by (force simp: find_item_None_iff filter_id_conv)
    then show ?thesis using None by (simp add: remove_item_def Let_def)
  next
    case (Some loc)
    obtain t n where loc: "loc = (t, n)" by fastforce
    have found: "find_item (state_of r sid) rid = Some (t, n)" using Some loc by simp
    note f = finish_commits(1) [OF remove_ok [OF ok found] assms(2)]
    show ?thesis
      using removed_queues [OF inv found] by (simp add: remove_item_def Let_def found f finish_state_of)
  qed
qed

lemma discard_repo:
  "sv_repo (fst (discard_item H C io sid c reason s)) = fst (remove_item C io sid (qi_request_id c) (sv_repo s))"
  "(\<exists>x. snd (remove_item C io sid (qi_request_id c) (sv_repo s)) = Inr x) \<Longrightarrow> snd (discard_item H C io sid c reason s) = Inr ()"
  by (auto simp: discard_item_def Let_def split: sum.split option.split)

text \<open>
  one veto is enough. When the hooks do not let every candidate of a next-step delivery in,
  nothing is delivered: a veto that keeps leaves both queues as they were, and a veto that discards
  removes the vetoed request and nothing else.
\<close>

theorem veto_stops_delivery:
  assumes "repo_reachable C L P (sv_repo s)" and "path_for sid = Inr sid" and "\<not> sv_closed s"
    and "cs = mi_next_step (state_of (sv_repo s) sid)"
    and "\<exists>c \<in> set cs. claim_vote H (snd (repo_snapshot C sid (sv_repo s))) c \<noteq> BatchEnter"
  shows "\<exists>s'. deliver_next_step H C True env sid s = (s', Inr []) \<and>
    (case before_claim_batch H (snd (repo_snapshot C sid (sv_repo s))) cs of
       BatchDiscard c \<Rightarrow> c \<in> set cs \<and> (\<forall>t. items_of t (state_of (sv_repo s') sid) =
         filter (\<lambda>i. qi_request_id i \<noteq> qi_request_id c) (items_of t (state_of (sv_repo s) sid)))
     | _ \<Rightarrow> state_of (sv_repo s') sid = state_of (sv_repo s) sid)"
proof -
  let ?sn = "snd (repo_snapshot C sid (sv_repo s))"
  let ?s = "with_repo s (fst (repo_snapshot C sid (sv_repo s)))"
  have cs: "cs \<noteq> []" using assms(5) by auto
  have step: "deliver_next_step H C True env sid s = claim_batch H C True env sid ?sn cs ?s"
    using assms(3,4) cs by (simp add: deliver_next_step_def Let_def)
  have "before_claim_batch H ?sn cs \<noteq> BatchEnter" using assms(5) by (auto simp: before_claim_enter_iff)
  then show ?thesis
  proof (cases "before_claim_batch H ?sn cs")
    case (BatchDiscard c)
    have r: "repo_reachable C L P (sv_repo ?s)" using snapshot_reachable [OF assms(1)] by simp
    note rem = remove_outcome [OF r assms(2), of "qi_request_id c"]
    show ?thesis
      using rem discard_repo [where s = ?s and c = c] before_claim_discard [OF BatchDiscard]
      by (simp add: step claim_batch_def BatchDiscard Let_def)
  qed (simp_all add: step claim_batch_def defer_item_def)
qed

section \<open>Turns\<close>

lemma deliver_repo [simp]: "sv_repo (fst (deliver H sid items s)) = sv_repo s"
  by (induction items arbitrary: s)
    (auto simp: Let_def resolve_def report_failure_def split: sum.split exn.split prod.split)

text \<open>
  turns are first come, first served and one at a time. An idle agent whose hooks let the
  head of the queue in is given that request, the one with the smallest sequence number, and no
  other; the next-step queue is not touched; and whether the run completes, fails or raises, the
  request does not return to the queue.
\<close>

theorem next_turn_is_fifo:
  assumes "repo_reachable C L P (sv_repo s)" and "path_for sid = Inr sid"
    and "mi_next_turn (state_of (sv_repo s) sid) = i # rest"
    and "if wait then \<not> sv_closed s \<and> \<not> agent_paused H sid else agent_can_receive H sid"
    and "claim_vote H (snd (repo_snapshot C sid (sv_repo s))) i = BatchEnter"
    and "persist_user_messages H [i] = Inr ids"
    and "dispatch_body H C True (\<lambda>r. r) sid wait s = (s', res)"
  shows "mi_next_turn (state_of (sv_repo s') sid) = rest \<and>
    mi_next_step (state_of (sv_repo s') sid) = mi_next_step (state_of (sv_repo s) sid) \<and>
    (\<forall>j \<in> set rest. qi_sequence i < qi_sequence j) \<and>
    res = (case run_item H (hd (attach_history_ids ids [i])) of Inl Cancelled \<Rightarrow> Inl Cancelled | _ \<Rightarrow> Inr ())"
proof -
  let ?r = "fst (repo_snapshot C sid (sv_repo s))" and ?st = "state_of (sv_repo s) sid"
  have r: "repo_reachable C L P ?r" by (rule snapshot_reachable [OF assms(1)])
  have inv: "inbox_inv ?st" using inv_ok [OF repo_reachable_inv [OF assms(1)]] by (simp add: inbox_ok_def)
  obtain r' res' where c: "(r', res') = claim C True sid [qi_request_id i] ?r" by (metis surj_pair)
  have i_in: "i \<in> set (all_items ?st)" using assms(3) by (simp add: all_items_def)
  have ids_in: "set [qi_request_id i] \<subseteq> qi_request_id ` set (all_items (state_of ?r sid))"
    using i_in by simp
  have one: "distinct [qi_request_id i]" "[qi_request_id i] \<noteq> []" by simp_all
  note out = claim_outcome [OF r assms(2) one c]
  have d: "distinct (map qi_request_id (all_items ?st))" using inv by (simp add: inbox_inv_def inbox_validate_iff)
  have got: "res' = Inr [i]"
  proof -
    obtain items where items: "res' = Inr items" "map qi_request_id items = [qi_request_id i]"
        "set items \<subseteq> set (all_items (state_of ?r sid))"
      using out ids_in by auto
    then obtain x where x: "items = [x]" "qi_request_id x = qi_request_id i" by auto
    then have "x = i" using items(3) i_in d by (auto simp: distinct_map dest: inj_onD)
    then show ?thesis using items x by simp
  qed
  have queues: "items_of t (state_of r' sid) = filter (\<lambda>j. qi_request_id j \<noteq> qi_request_id i) (items_of t ?st)" for t
    using out ids_in by simp
  have "filter (\<lambda>j. qi_request_id j \<noteq> qi_request_id i) rest = rest"
    "filter (\<lambda>j. qi_request_id j \<noteq> qi_request_id i) (mi_next_step ?st) = mi_next_step ?st"
    using assms(3) d by (auto simp: all_items_def filter_id_conv image_iff)
  then have q: "mi_next_turn (state_of r' sid) = rest" "mi_next_step (state_of r' sid) = mi_next_step ?st"
    using queues [of NextTurn] queues [of NextStep] assms(3) by (simp_all add: items_of_def)
  have order: "\<forall>j \<in> set rest. qi_sequence i < qi_sequence j"
    using sorted_strict [OF inv, of NextTurn] assms(3) by (force simp: items_of_def le_less)
  let ?s1 = "emit H (Claimed sid [qi_request_id i]) (emit H (Changed sid) (with_repo (with_repo s ?r) r'))"
  have batch: "claim_batch H C True (\<lambda>r. r) sid (snd (repo_snapshot C sid (sv_repo s))) [i] (with_repo s ?r) =
      (?s1, Inr (attach_history_ids ids [i]))"
    using assms(5,6) c [symmetric] got by (simp add: claim_batch_def Let_def)
  obtain i' where i': "attach_history_ids ids [i] = [i']" by (simp add: attach_history_ids_def)
  have body: "dispatch_body H C True (\<lambda>r. r) sid wait s = (let d = deliver H sid [i'] ?s1 in
              case snd d of
                Inl e \<Rightarrow> (fst d, Inl e)
              | Inr ok \<Rightarrow> (emit H (Changed sid) (fst d), Inr ()))"
    using assms(3,4) batch i' by (simp add: dispatch_body_def Let_def)
  have repo: "sv_repo s' = r'"
    using body assms(7) deliver_repo [of H sid "[i']" ?s1] by (auto simp: Let_def split: sum.splits)
  have "res = (case run_item H i' of Inl Cancelled \<Rightarrow> Inl Cancelled | _ \<Rightarrow> Inr ())"
    using body assms(7) by (auto simp: Let_def split: sum.splits exn.splits prod.splits if_splits)
  then show ?thesis using repo q order i' by simp
qed

section \<open>Runs and receipts\<close>

definition failed_statuses :: "string set" where
  "failed_statuses = {''failed'', ''error'', ''cancelled'', ''interrupted''}"

text \<open>A run after which the delivery goes on.\<close>

definition completes :: "inbox_host \<Rightarrow> queue_item \<Rightarrow> bool" where
  "completes H item =
     (case run_item H item of
        Inl e \<Rightarrow> False
      | Inr r \<Rightarrow> \<not> result_paused r \<and> result_status (h_lib H) r \<notin> failed_statuses)"

definition outcome_of :: "inbox_host \<Rightarrow> queue_item \<Rightarrow> receipt_outcome" where
  "outcome_of H item = (case run_item H item of Inl e \<Rightarrow> ReceiptError e | Inr r \<Rightarrow> ReceiptResult r)"

definition receipt_key :: "queue_item \<Rightarrow> string \<times> string" where
  "receipt_key item = (qi_session_id item, qi_request_id item)"

lemma run_result_status: "fst (run_result_info L r) = result_status L r"
  by (simp add: run_result_info_def Let_def split: json.split)

lemma resolve_fields [simp]:
  "sv_receipts (resolve item out s) = removeAll (receipt_key item) (sv_receipts s)"
  "sv_resolved (resolve item out s) = sv_resolved s @
     (if receipt_key item \<in> set (sv_receipts s) then [(receipt_key item, out)] else [])"
  by (auto simp: resolve_def receipt_key_def Let_def)

lemma report_failure_fields [simp]:
  "sv_receipts (report_failure H sid item reason r s) = sv_receipts s"
  "sv_resolved (report_failure H sid item reason r s) = sv_resolved s"
  by (simp_all add: report_failure_def)

text \<open>One item: either the delivery ends with it, or it goes on.\<close>

lemma deliver_one:
  assumes "run_item H item \<noteq> Inl Cancelled"
  shows "\<exists>s'. sv_receipts s' = removeAll (receipt_key item) (sv_receipts s) \<and>
    sv_resolved s' = sv_resolved s @ (if receipt_key item \<in> set (sv_receipts s) then [(receipt_key item, outcome_of H item)] else []) \<and>
    deliver H sid (item # items) s = (if completes H item then deliver H sid items s' else (s', Inr False))"
proof (cases "run_item H item")
  case (Inl e)
  let ?s = "resolve item (ReceiptError e) (report_failure H sid item (h_exn_str H e) False s)"
  have "deliver H sid (item # items) s = (?s, Inr False)" using Inl assms by (cases e) simp_all
  then show ?thesis using Inl by (intro exI [of _ ?s]) (simp add: completes_def outcome_of_def)
next
  case (Inr r)
  obtain status reason retryable where i: "run_result_info (h_lib H) r = (status, reason, retryable)"
    by (cases "run_result_info (h_lib H) r") auto
  have status: "status = result_status (h_lib H) r" using run_result_status [of "h_lib H" r] i by simp
  let ?s = "resolve item (ReceiptResult r) (if result_paused r then s
      else if status \<in> failed_statuses then report_failure H sid item reason retryable s
      else emit H (Delivered sid (qi_request_id item) status) s)"
  have "deliver H sid (item # items) s = (if completes H item then deliver H sid items ?s else (?s, Inr False))"
    using Inr by (auto simp: completes_def i status failed_statuses_def)
  then show ?thesis using Inr by (intro exI [of _ ?s]) (simp add: outcome_of_def)
qed

text \<open>
  every run that was started is answered exactly once. A delivery works through its items
  until the first whose run does not complete; it reports success when there is none; and the receipts of the
  items it ran, and no others, are resolved, each with the outcome of its own run.
\<close>

theorem deliver_answers_each_run:
  assumes "\<forall>i \<in> set items. run_item H i \<noteq> Inl Cancelled"
    and "distinct (map receipt_key items)" and "\<forall>i \<in> set items. receipt_key i \<in> set (sv_receipts s)"
    and "handled = take (Suc (length (takeWhile (completes H) items))) items"
  shows "snd (deliver H sid items s) = Inr (list_all (completes H) items) \<and>
    sv_resolved (fst (deliver H sid items s)) = sv_resolved s @ map (\<lambda>i. (receipt_key i, outcome_of H i)) handled \<and>
    sv_receipts (fst (deliver H sid items s)) = filter (\<lambda>k. k \<notin> set (map receipt_key handled)) (sv_receipts s)"
  using assms
proof (induction items arbitrary: s handled)
  case Nil
  then show ?case by simp
next
  case (Cons i items)
  obtain s' where s': "sv_receipts s' = removeAll (receipt_key i) (sv_receipts s)"
      "sv_resolved s' = sv_resolved s @ [(receipt_key i, outcome_of H i)]"
      "deliver H sid (i # items) s = (if completes H i then deliver H sid items s' else (s', Inr False))"
    using deliver_one [of H i s sid items] Cons.prems(1,3) by auto
  show ?case
  proof (cases "completes H i")
    case False
    then have d: "deliver H sid (i # items) s = (s', Inr False)" using s'(3) by simp
    show ?thesis unfolding d using False s'(1,2) Cons.prems(4)
      by (simp add: removeAll_filter_not_eq eq_commute)
  next
    case True
    have "receipt_key i \<notin> receipt_key ` set items" using Cons.prems(2) by simp
    then have "\<forall>j \<in> set items. receipt_key j \<noteq> receipt_key i" by (metis image_eqI)
    then have "\<forall>j \<in> set items. receipt_key j \<in> set (sv_receipts s')"
      using Cons.prems(3) s'(1) by simp
    then have "snd (deliver H sid items s') = Inr (list_all (completes H) items) \<and>
      sv_resolved (fst (deliver H sid items s')) = sv_resolved s' @ map (\<lambda>i. (receipt_key i, outcome_of H i))
          (take (Suc (length (takeWhile (completes H) items))) items) \<and>
      sv_receipts (fst (deliver H sid items s')) = filter (\<lambda>k. k \<notin> set (map receipt_key
          (take (Suc (length (takeWhile (completes H) items))) items))) (sv_receipts s')"
      using Cons.prems(1,2) by (intro Cons.IH) auto
    then show ?thesis
      using True s' Cons.prems(4) 
      by (simp add: removeAll_filter_not_eq del: deliver.simps(2)) (auto intro: filter_cong)
  qed
qed

section \<open>Admission\<close>

lemma resolved_agent: "qi_agent_id (resolve_session_agent H item) \<noteq> []" if "\<And>j. jtruthy j \<Longrightarrow> py_str (h_lib H) j \<noteq> []"
  using that by (auto simp: resolve_session_agent_def str_or_def str_or_default_def split: option.split)

lemma report_repo: "state_of (sv_repo (report_admission H C item t created s)) sid = state_of (sv_repo s) sid"
  "ir_disk (sv_repo (report_admission H C item t created s)) = ir_disk (sv_repo s)"
  by (auto simp: report_admission_def Let_def split: option.split)

lemma report_receipts:
  "set (sv_receipts (report_admission H C item t created s)) =
     (if t = NextTurn \<and> created then insert (receipt_key item) (set (sv_receipts s)) else set (sv_receipts s))"
  by (auto simp: report_admission_def Let_def receipt_key_def split: option.split)

text \<open>
  an acknowledgement means what it says. When the service accepts a channel message, the
  request is pending afterwards unless the session had already seen it; \<open>created\<close> tells
  whether it was new, and then it is on disk and, for a next turn, has a receipt to wait on.
  When the service refuses, the queues are as they were.
\<close>

theorem admission_ack_is_truthful:
  assumes "repo_reachable C L P (sv_repo s)" and "rc_session_exists C = None"
    and "path_for (im_session_id m) = Inr (im_session_id m)"
    and "\<And>j. jtruthy j \<Longrightarrow> py_str (h_lib H) j \<noteq> []"
    and "service_admit H C True (FromChannel m) t s = (s', Inr ack)"
    and "st = state_of (sv_repo s) (im_session_id m)" and "st' = state_of (sv_repo s') (im_session_id m)"
  shows "ing_session_id ack = im_session_id m \<and> ing_request_id ack = im_request_id m \<and>
    (ing_accepted ack \<longrightarrow>
       (im_request_id m \<in> qi_request_id ` set (all_items st') \<or>
        (\<exists>f. rc_request_seen C = Some f \<and> f (im_session_id m) (im_request_id m))) \<and>
       (ing_created ack \<longleftrightarrow> length (all_items st') = length (all_items st) + 1) \<and>
       (ing_created ack \<longrightarrow> im_request_id m \<notin> qi_request_id ` set (all_items st) \<and>
          ir_disk (sv_repo s') (im_session_id m) = Some (JsonFile (inbox_to_json (rc_dump C) st')) \<and>
          (t = NextTurn \<longrightarrow> (im_session_id m, im_request_id m) \<in> set (sv_receipts s')))) \<and>
    (\<not> ing_accepted ack \<longrightarrow> ing_error ack \<noteq> None \<and> st' = st)"
proof (cases "sv_closed s")
  case True
  then show ?thesis using assms(5,6,7) by (auto simp: service_admit_def refuse_def)
next
  case False
  obtain raw where raw: "item_from_message (h_lib H) (FromChannel m) = Inr raw"
      "qi_session_id raw = im_session_id m" "qi_request_id raw = im_request_id m" "qi_sequence raw = 0"
      "qi_history raw = None" "qi_messages raw = []"
    by (simp add: item_from_message_def)
  define item where "item = resolve_session_agent H raw"
  have item: "qi_session_id item = im_session_id m" "qi_request_id item = im_request_id m"
      "qi_sequence item = 0" "qi_history item = None" "qi_messages item = []"
    using raw by (simp_all add: item_def resolve_session_agent_def)
  have ok: "op_ok C L P (OpAdmit item t)"
    using item resolved_agent [OF assms(4), of raw] by (simp add: storable_def item_def)
  obtain r' res where a: "(r', res) = admit C True item t (sv_repo s)" by (metis surj_pair)
  note reply = admit_reply [OF assms(1) ok assms(3) item(1) assms(2) a]
  have svc: "service_admit H C True (FromChannel m) t s =
      (case (if h_hooks H then h_before_admit H item t else AllowAdmission) of
            RejectAdmission reason \<Rightarrow> (s, Inr (refuse (im_session_id m) (im_request_id m) ''admission-rejected'' (Some False)))
          | OtherAdmission \<Rightarrow> (s, Inl TypeError)
          | AllowAdmission \<Rightarrow>
              (case res of
                Inl e \<Rightarrow>
                  if e = OverflowError then (with_repo s r', Inr (refuse (im_session_id m) (im_request_id m) ''queue-full'' (Some True)))
                  else if e = ValueError then (with_repo s r', Inr (refuse (im_session_id m) (im_request_id m) ''session-not-found'' (Some False)))
                  else (with_repo s r', Inl e)
              | Inr (created, position) \<Rightarrow>
                  (report_admission H C item t created (with_repo s r'),
                   Inr \<lparr>ing_accepted = True, ing_session_id = im_session_id m, ing_request_id = im_request_id m,
                        ing_created = created, ing_error = None\<rparr>)))"
    using False raw(1) a [symmetric] item
    by (cases res; cases "h_before_admit H item t")
      (simp_all add: service_admit_def Let_def item_def [symmetric] split: prod.split)
  consider (new) n where "res = Inr (True, n)" | (old) n where "res = Inr (False, n)" | (error) e where "res = Inl e"
    by (metis (full_types) obj_sumE surj_pair)
  then show ?thesis
  proof cases
    case new
    then have q: "\<forall>u. items_of u (state_of r' (im_session_id m)) = items_of u st @
         (if u = t then [item\<lparr>qi_sequence := mi_next_sequence st\<rparr>] else [])"
        "find_item st (im_request_id m) = None"
        "ir_disk r' (im_session_id m) = Some (JsonFile (inbox_to_json (rc_dump C) (state_of r' (im_session_id m))))"
      using reply assms(6) item(2) by auto
    have len: "length (all_items (state_of r' (im_session_id m))) = length (all_items st) + 1"
      using q(1) [rule_format, of NextTurn] q(1) [rule_format, of NextStep]
      by (cases t) (simp_all add: all_items_def items_of_def)
    have mem: "im_request_id m \<in> qi_request_id ` set (all_items (state_of r' (im_session_id m)))"
    proof -
      have "item\<lparr>qi_sequence := mi_next_sequence st\<rparr> \<in> set (items_of t (state_of r' (im_session_id m)))"
        using q(1) by simp
      then have "item\<lparr>qi_sequence := mi_next_sequence st\<rparr> \<in> set (all_items (state_of r' (im_session_id m)))"
        using items_of_subset by blast
      then show ?thesis using item(2) by (force simp: image_iff)
    qed
    show ?thesis
      using assms(5,6,7) new len mem q(2,3) item(1,2)
      by (auto simp: svc refuse_def report_repo report_receipts receipt_key_def find_item_None_iff
          split: admission.splits if_splits)
  next
    case old
    then have "state_of r' (im_session_id m) = st"
        "case find_item st (im_request_id m) of Some x \<Rightarrow> True | None \<Rightarrow>
           (\<exists>f. rc_request_seen C = Some f \<and> f (im_session_id m) (im_request_id m))"
      using reply assms(6) item(2) by (auto split: option.splits if_splits)
    then show ?thesis
      using assms(5,6,7) old find_item_None_iff [of st "im_request_id m"]
      by (auto simp: svc refuse_def report_repo split: admission.splits if_splits option.splits)
  next
    case error
    then have "state_of r' (im_session_id m) = st" using reply assms(6) by auto
    then show ?thesis
      using assms(5,6,7) error by (auto simp: svc refuse_def split: admission.splits if_splits)
  qed
qed

section \<open>A concrete host\<close>

definition sample_host :: inbox_host where
  "sample_host =
     \<lparr>h_lib = sample_lib, h_hooks = True, h_before_admit = (\<lambda>i t. AllowAdmission), h_before_claim = None,
      h_claim_hook = (\<lambda>c t. EnterClaim (qi_request_id c)), h_sessions = False,
      h_session_agent = (\<lambda>s. None), h_prev_assistant = (\<lambda>s. None),
      h_append_user = (\<lambda>c p. Inr None), h_agent = True, h_views = [], h_is_busy = None, h_status = None,
      h_ensure = (\<lambda>a i. Inr ()), h_run = (\<lambda>q. Inr (RawDict [])), h_exn_str = (\<lambda>e. ''error''),
      h_fresh = (\<lambda>k. k)\<rparr>"

definition strict_host :: inbox_host where
  "strict_host = sample_host\<lparr>h_claim_hook := (\<lambda>c t. RejectDiscard)\<rparr>"

abbreviation sample_service :: inbox_service where
  "sample_service \<equiv> new_service two_queued"

lemma sample_service_fields [simp]:
  "sv_repo sample_service = two_queued" "sv_closed sample_service = False"
  by (simp_all add: new_service_def)

lemma sample_votes [simp]: "claim_vote sample_host sn c = BatchEnter"
  by (simp add: claim_vote_def sample_host_def)

lemma sample_persist [simp]: "persist_user_messages sample_host cs = Inr []"
  by (simp add: persist_user_messages_def sample_host_def)



theorem veto_stops_delivery_witness:
  "\<exists>s'. deliver_next_step strict_host sample_config True (\<lambda>r. r) ''s1'' sample_service = (s', Inr []) \<and>
     items_of NextStep (state_of (sv_repo s') ''s1'') = [] \<and>
     items_of NextTurn (state_of (sv_repo s') ''s1'') = [sample_item ''r1'' 1]"
proof -
  have reach: "repo_reachable sample_config sample_lib item_pydantic (sv_repo sample_service)"
    using two_queued_reachable by simp
  have step: "mi_next_step (state_of two_queued ''s1'') = [sample_item ''r2'' 2]" by (simp add: two_queued_eval)
  have vote: "claim_vote strict_host sn c = BatchDiscard c" for sn c
    by (simp add: claim_vote_def strict_host_def sample_host_def)
  have id: "qi_request_id (sample_item ''r2'' 2) = ''r2''" "qi_request_id (sample_item ''r1'' 1) = ''r1''"
    by (simp_all add: sample_item_def)
  obtain s' where "deliver_next_step strict_host sample_config True (\<lambda>r. r) ''s1'' sample_service = (s', Inr [])"
      "\<forall>t. items_of t (state_of (sv_repo s') ''s1'') =
         filter (\<lambda>i. qi_request_id i \<noteq> ''r2'') (items_of t (state_of two_queued ''s1''))"
    using veto_stops_delivery [OF reach s1_path _ refl, of strict_host] step by (auto simp: vote id)
  then have q: "items_of t (state_of (sv_repo s') ''s1'') =
      filter (\<lambda>i. qi_request_id i \<noteq> ''r2'') (items_of t (state_of two_queued ''s1''))" for t by blast
  have "items_of NextStep (state_of (sv_repo s') ''s1'') = []" "items_of NextTurn (state_of (sv_repo s') ''s1'') = [sample_item ''r1'' 1]"
    unfolding q using id by (simp_all add: two_queued_eval items_of_def)
  then show ?thesis using \<open>deliver_next_step strict_host _ _ _ _ _ = _\<close> by blast
qed

theorem next_turn_is_fifo_witness:
  "mi_next_turn (state_of (sv_repo (fst (dispatch_body sample_host sample_config True (\<lambda>r. r) ''s1'' False sample_service))) ''s1'') = [] \<and>
   snd (dispatch_body sample_host sample_config True (\<lambda>r. r) ''s1'' False sample_service) = Inr ()"
proof -
  have reach: "repo_reachable sample_config sample_lib item_pydantic (sv_repo sample_service)"
    using two_queued_reachable by simp
  have turn: "mi_next_turn (state_of (sv_repo sample_service) ''s1'') = sample_item ''r1'' 1 # []"
    by (simp add: two_queued_eval)
  have ready: "if False then \<not> sv_closed sample_service \<and> \<not> agent_paused sample_host ''s1'' else agent_can_receive sample_host ''s1''"
    by (simp add: agent_can_receive_def agent_busy_def sample_host_def)
  have run: "run_item sample_host i = Inr (RawDict [])" for i
    by (simp add: run_item_def ensure_agent_def sample_host_def)
  show ?thesis
    using next_turn_is_fifo [OF reach s1_path turn ready sample_votes sample_persist surjective_pairing]
    by (simp add: run)
qed

theorem deliver_answers_each_run_witness:
  "snd (deliver sample_host ''s1'' [sample_item ''r1'' 1] (sample_service\<lparr>sv_receipts := [(''s1'', ''r1'')]\<rparr>)) = Inr True \<and>
   sv_receipts (fst (deliver sample_host ''s1'' [sample_item ''r1'' 1] (sample_service\<lparr>sv_receipts := [(''s1'', ''r1'')]\<rparr>))) = []"
proof -
  have run: "run_item sample_host i = Inr (RawDict [])" for i
    by (simp add: run_item_def ensure_agent_def sample_host_def)
  have key: "receipt_key (sample_item ''r1'' 1) = (''s1'', ''r1'')" by (simp add: receipt_key_def sample_item_def)
  have goes_on: "completes sample_host i" for i
    by (simp add: completes_def run result_paused_def result_status_def get_or_def str_or_default_def failed_statuses_def)
  have "\<forall>i \<in> set [sample_item ''r1'' 1]. run_item sample_host i \<noteq> Inl Cancelled"
    "distinct (map receipt_key [sample_item ''r1'' 1])"
    "\<forall>i \<in> set [sample_item ''r1'' 1]. receipt_key i \<in> set (sv_receipts (sample_service\<lparr>sv_receipts := [(''s1'', ''r1'')]\<rparr>))"
    by (simp_all add: run key)
  from deliver_answers_each_run [OF this refl, of "''s1''"] show ?thesis
    by (simp add: goes_on key del: deliver.simps(2))
qed

theorem admission_ack_is_truthful_witness:
  "\<exists>s' ack. service_admit sample_host sample_config True (FromChannel
      \<lparr>im_session_id = ''s1'', im_request_id = ''r1'', im_channel_id = ''ws'', im_content = ''again'',
       im_attachments = [], im_source = ''user'', im_metadata = []\<rparr>) NextTurn sample_service = (s', Inr ack) \<and>
     ing_accepted ack \<and> \<not> ing_created ack"
proof -
  let ?m = "\<lparr>im_session_id = ''s1'', im_request_id = ''r1'', im_channel_id = ''ws'', im_content = ''again'',
       im_attachments = [], im_source = ''user'', im_metadata = []\<rparr>"
  have reach: "repo_reachable sample_config sample_lib item_pydantic (sv_repo sample_service)"
    using two_queued_reachable by simp
  have str: "\<And>j. jtruthy j \<Longrightarrow> py_str (h_lib sample_host) j \<noteq> []"
    by (auto simp: py_str_def sample_host_def sample_lib_def split: json.splits)
  have "\<exists>s' ack. service_admit sample_host sample_config True (FromChannel ?m) NextTurn sample_service = (s', Inr ack) \<and> ing_accepted ack"
    by (simp add: service_admit_def item_from_message_def Let_def sample_host_def resolve_session_agent_def
        admit_def sample_config_def find_item_def two_queued_eval sample_item_def)
  then obtain s' ack where a: "service_admit sample_host sample_config True (FromChannel ?m) NextTurn sample_service = (s', Inr ack)"
      "ing_accepted ack" by blast
  have "''r1'' \<in> qi_request_id ` set (all_items (state_of two_queued ''s1''))"
    by (simp add: two_queued_eval all_items_def sample_item_def)
  then have "\<not> ing_created ack"
    using admission_ack_is_truthful [OF reach _ _ str a(1) refl refl] s1_path a(2) by (auto simp: sample_config_def)
  then show ?thesis using a by blast
qed

end
