(* ===== verification/WireNormalize.thy ===== *)
theory WireNormalize
  imports Json "HOL-Library.Multiset" "HOL-Library.Sublist"
begin

text \<open>
  Cleaning the chat history before a provider call
  (\<open>packages/ftre-llm/src/ftre_llm/wire/normalize.py\<close>).

  \<open>normalize_messages\<close> is the \<open>while index < len(messages)\<close> loop, as recursion on the
  messages that remain; it is what stands between a history that was cut short by a crash or
  a cancellation and a provider that refuses an assistant message with tool calls unless the
  result of every call follows it. The two counters of the code feed a log line and are left
  out. \<open>normalize_usage\<close> is modelled on a usage given as a dict or missing; the SDK objects
  it also accepts become dicts by their own methods.
\<close>

section \<open>Blank text\<close>

text \<open>
  The width in bytes of the white space character at the head of a UTF-8 string, and 0 when
  there is none: the ASCII blanks, U+0085, U+00A0, U+1680, U+2000 to U+200A, U+2028, U+2029,
  U+202F, U+205F and U+3000, which are the characters \<open>str.strip\<close> removes.
\<close>

fun blank_width :: "string \<Rightarrow> nat" where
  "blank_width [] = 0"
| "blank_width [c] = (if is_blank c then 1 else 0)"
| "blank_width [c, d] = (if is_blank c then 1 else if c = CHR 0xC2 \<and> d \<in> {CHR 0x85, CHR 0xA0} then 2 else 0)"
| "blank_width (c # d # e # cs) =
     (if is_blank c then 1
      else if c = CHR 0xC2 \<and> d \<in> {CHR 0x85, CHR 0xA0} then 2
      else if [c, d, e] = [CHR 0xE1, CHR 0x9A, CHR 0x80] \<or> [c, d, e] = [CHR 0xE2, CHR 0x81, CHR 0x9F] \<or>
        [c, d, e] = [CHR 0xE3, CHR 0x80, CHR 0x80] \<or>
        c = CHR 0xE2 \<and> d = CHR 0x80 \<and>
          (e \<in> {CHR 0xA8, CHR 0xA9, CHR 0xAF} \<or>
           128 \<le> (of_char e :: nat) \<and> (of_char e :: nat) \<le> 138) then 3
      else 0)"

function all_blank :: "string \<Rightarrow> bool" where
  "all_blank s = (if s = [] then True else if blank_width s = 0 then False
     else all_blank (drop (blank_width s) s))"
  by pat_completeness auto
termination
proof (relation "measure length")
  fix s :: string assume "s \<noteq> []" and "blank_width s \<noteq> 0"
  then show "(drop (blank_width s) s, s) \<in> measure length" by simp
qed simp

declare all_blank.simps [simp del]

section \<open>The messages\<close>

definition role_of :: "jdict \<Rightarrow> json option" where
  "role_of m = dict_get m ''role''"

definition is_tool :: "jdict \<Rightarrow> bool" where
  "is_tool m \<longleftrightarrow> role_of m = Some (JStr ''tool'')"

definition is_assistant :: "jdict \<Rightarrow> bool" where
  "is_assistant m \<longleftrightarrow> role_of m = Some (JStr ''assistant'')"

definition truthy_key :: "jdict \<Rightarrow> string \<Rightarrow> bool" where
  "truthy_key m k = (case dict_get m k of None \<Rightarrow> False | Some v \<Rightarrow> jtruthy v)"

definition content_empty :: "jdict \<Rightarrow> bool" where
  "content_empty m = (case dict_get m ''content'' of
     None \<Rightarrow> True
   | Some v \<Rightarrow> v = JNull \<or> v = JList [] \<or> (case v of JStr s \<Rightarrow> all_blank s | _ \<Rightarrow> False))"

definition normalize_assistant_content :: "jdict \<Rightarrow> jdict" where
  "normalize_assistant_content m =
     (if content_empty m then dict_set ''content'' (JStr []) m else m)"

definition has_assistant_payload :: "bool \<Rightarrow> jdict \<Rightarrow> bool" where
  "has_assistant_payload keep m \<longleftrightarrow>
     truthy_key m ''content'' \<or> keep \<and> truthy_key m ''reasoning_content''"

definition is_nonempty_str :: "json \<Rightarrow> bool" where
  "is_nonempty_str v = (case v of JStr s \<Rightarrow> s \<noteq> [] | _ \<Rightarrow> False)"

text \<open>\<open>[call.get("id") for call in tool_calls if isinstance(call, dict)]\<close>.\<close>

definition call_ids :: "json list \<Rightarrow> json list" where
  "call_ids calls = map (\<lambda>c. case jget ''id'' c of None \<Rightarrow> JNull | Some v \<Rightarrow> v) (filter is_obj calls)"

definition valid_call_ids :: "json list \<Rightarrow> bool" where
  "valid_call_ids calls \<longleftrightarrow> length (call_ids calls) = length calls \<and>
     list_all is_nonempty_str (call_ids calls) \<and> distinct (call_ids calls)"

definition result_ids :: "jdict list \<Rightarrow> json list" where
  "result_ids following = map (\<lambda>m. get_or m ''tool_call_id'' JNull) following"

text \<open>The conjuncts in the order of the code; building the set of result ids hashes them.\<close>

definition complete_pair :: "json list \<Rightarrow> jdict list \<Rightarrow> bool result" where
  "complete_pair calls following =
     (if \<not> valid_call_ids calls then Inr False
      else if length following \<noteq> length (call_ids calls) then Inr False
      else if \<not> list_all hashable (result_ids following) then Inl TypeError
      else Inr (set (result_ids following) = set (call_ids calls) \<and>
                list_all is_nonempty_str (result_ids following)))"

definition keep_if :: "bool \<Rightarrow> jdict \<Rightarrow> jdict list" where
  "keep_if b m = (if b then [m] else [])"

function normalize_messages :: "bool \<Rightarrow> jdict list \<Rightarrow> jdict list result" where
  "normalize_messages keep [] = Inr []"
| "normalize_messages keep (m # rest) =
     (if is_tool m then normalize_messages keep rest
      else if \<not> is_assistant m
      then bind_r (normalize_messages keep rest) (\<lambda>out. Inr (m # out))
      else let current = normalize_assistant_content m in
        if \<not> truthy_key current ''tool_calls''
        then bind_r (normalize_messages keep rest)
               (\<lambda>out. Inr (keep_if (has_assistant_payload keep current) current @ out))
        else bind_r (iter_json (get_or current ''tool_calls'' JNull)) (\<lambda>calls.
          let following = takeWhile is_tool rest in
          bind_r (complete_pair calls following) (\<lambda>complete.
            if complete
            then bind_r (normalize_messages keep (dropWhile is_tool rest))
                   (\<lambda>out. Inr (current # following @ out))
            else let stripped = dict_pop ''tool_calls'' current in
              bind_r (normalize_messages keep rest)
                (\<lambda>out. Inr (keep_if (has_assistant_payload keep stripped) stripped @ out)))))"
  by pat_completeness auto
termination
proof (relation "measure (length \<circ> snd)")
  fix keep :: bool and m :: jdict and rest :: "jdict list"
  show "((keep, dropWhile is_tool rest), (keep, m # rest)) \<in> measure (length \<circ> snd)"
    using length_dropWhile_le [of is_tool rest] by simp
qed simp_all

declare normalize_messages.simps(2) [simp del]

definition alias_usage :: "string \<Rightarrow> string \<Rightarrow> jdict \<Rightarrow> jdict" where
  "alias_usage canonical responses_field u = (case dict_get u canonical of
     Some _ \<Rightarrow> u
   | None \<Rightarrow> (case dict_get u responses_field of None \<Rightarrow> u | Some v \<Rightarrow> dict_set canonical v u))"

definition normalize_usage :: "jdict option \<Rightarrow> jdict option" where
  "normalize_usage u = map_option (\<lambda>d. alias_usage ''completion_tokens'' ''output_tokens''
     (alias_usage ''prompt_tokens'' ''input_tokens'' d)) u"

section \<open>What a provider accepts\<close>

text \<open>
  A tool message only ever appears among the results that directly follow an assistant
  message with tool calls, one for each call; every other assistant message says something.
\<close>

definition fit_assistant :: "jdict \<Rightarrow> bool" where
  "fit_assistant m \<longleftrightarrow> is_assistant m \<and> \<not> is_tool m \<and> normalize_assistant_content m = m"

inductive provider_ready :: "bool \<Rightarrow> jdict list \<Rightarrow> bool" for keep where
  ready_nil: "provider_ready keep []"
| ready_other: "\<not> is_tool m \<Longrightarrow> \<not> is_assistant m \<Longrightarrow> provider_ready keep ms \<Longrightarrow>
    provider_ready keep (m # ms)"
| ready_text: "fit_assistant m \<Longrightarrow> \<not> truthy_key m ''tool_calls'' \<Longrightarrow> has_assistant_payload keep m \<Longrightarrow>
    provider_ready keep ms \<Longrightarrow> provider_ready keep (m # ms)"
| ready_calls: "fit_assistant m \<Longrightarrow> truthy_key m ''tool_calls'' \<Longrightarrow>
    iter_json (get_or m ''tool_calls'' JNull) = Inr calls \<Longrightarrow> valid_call_ids calls \<Longrightarrow>
    list_all is_tool results \<Longrightarrow> mset (result_ids results) = mset (call_ids calls) \<Longrightarrow>
    provider_ready keep ms \<Longrightarrow> provider_ready keep (m # results @ ms)"

inductive_cases provider_ready_ConsE: "provider_ready keep (m # ms)"

lemma normalize_content_idem [simp]:
  "normalize_assistant_content (normalize_assistant_content m) = normalize_assistant_content m"
  by (simp add: normalize_assistant_content_def)

lemma normalize_content_key:
  "k \<noteq> ''content'' \<Longrightarrow> dict_get (normalize_assistant_content m) k = dict_get m k"
  by (simp add: normalize_assistant_content_def)

lemma fit_normalized: "is_assistant m \<Longrightarrow> \<not> is_tool m \<Longrightarrow> fit_assistant (normalize_assistant_content m)"
  by (simp add: fit_assistant_def is_assistant_def is_tool_def role_of_def normalize_content_key)

lemma delete_fixed: "k \<noteq> k' \<Longrightarrow> dict_set k v m = m \<Longrightarrow> dict_set k v (dict_pop k' m) = dict_pop k' m"
  by (metis delete_update)

lemma fit_stripped:
  assumes "fit_assistant m"
  shows "fit_assistant (dict_pop ''tool_calls'' m)"
    and "\<not> truthy_key (dict_pop ''tool_calls'' m) ''tool_calls''"
  using assms
  by (auto simp: fit_assistant_def is_assistant_def is_tool_def role_of_def truthy_key_def
      normalize_assistant_content_def content_empty_def split: if_splits intro!: delete_fixed)

section \<open>The loop produces a ready history\<close>

lemma valid_call_ids_mset:
  assumes "complete_pair calls following = Inr True"
  shows "valid_call_ids calls" and "mset (result_ids following) = mset (call_ids calls)"
proof -
  from assms have v: "valid_call_ids calls" and l: "length (result_ids following) = length (call_ids calls)"
    and s: "set (result_ids following) = set (call_ids calls)"
    by (auto simp: complete_pair_def result_ids_def split: if_splits)
  then have d: "distinct (call_ids calls)" by (simp add: valid_call_ids_def)
  then have "distinct (result_ids following)" using l s by (metis card_distinct distinct_card)
  then show "valid_call_ids calls" and "mset (result_ids following) = mset (call_ids calls)"
    using v d s by (auto simp: set_eq_iff_mset_eq_distinct)
qed

lemma complete_pair_ready:
  assumes "valid_call_ids calls" and m: "mset (result_ids following) = mset (call_ids calls)"
  shows "complete_pair calls following = Inr True"
proof -
  have s: "set (result_ids following) = set (call_ids calls)" using m by (metis set_mset_mset)
  have l: "length (result_ids following) = length (call_ids calls)" using m by (metis size_mset)
  have ne: "list_all is_nonempty_str (result_ids following)"
    using assms(1) s by (simp add: valid_call_ids_def list_all_iff)
  then have "list_all hashable (result_ids following)"
    by (auto simp: list_all_iff is_nonempty_str_def hashable_def split: json.splits)
  then show ?thesis using assms(1) s l ne by (simp add: complete_pair_def result_ids_def)
qed

lemma keep_if_ready:
  assumes "fit_assistant m" and "\<not> truthy_key m ''tool_calls''" and "provider_ready keep ms"
  shows "provider_ready keep (keep_if (has_assistant_payload keep m) m @ ms)"
  using assms by (auto simp: keep_if_def intro: ready_text)

lemma normalize_ready: "normalize_messages keep ms = Inr out \<Longrightarrow> provider_ready keep out"
proof (induction keep ms arbitrary: out rule: normalize_messages.induct)
  case (1 keep)
  then show ?case by (auto intro: ready_nil)
next
  case (2 keep m rest)
  let ?c = "normalize_assistant_content m"
  consider (tool) "is_tool m" | (other) "\<not> is_tool m" "\<not> is_assistant m"
    | (plain) "\<not> is_tool m" "is_assistant m" "\<not> truthy_key ?c ''tool_calls''"
    | (calls) "\<not> is_tool m" "is_assistant m" "truthy_key ?c ''tool_calls''" by blast
  then show ?case
  proof cases
    case tool
    then show ?thesis using 2 by (simp add: normalize_messages.simps(2))
  next
    case other
    then show ?thesis using 2
      by (auto simp: normalize_messages.simps(2) result_simps intro: ready_other)
  next
    case plain
    note f = fit_normalized [OF plain(2,1)]
    show ?thesis using plain 2
      by (auto simp: normalize_messages.simps(2) result_simps Let_def intro: keep_if_ready [OF f])
  next
    case calls
    note f = fit_normalized [OF calls(2,1)]
    from "2.prems" calls obtain cs b where cs: "iter_json (get_or ?c ''tool_calls'' JNull) = Inr cs"
      and b: "complete_pair cs (takeWhile is_tool rest) = Inr b"
      by (auto simp: normalize_messages.simps(2) result_simps Let_def)
    show ?thesis
    proof (cases b)
      case True
      then obtain tl where "normalize_messages keep (dropWhile is_tool rest) = Inr tl"
        and out: "out = ?c # takeWhile is_tool rest @ tl"
        using "2.prems" calls cs b by (auto simp: normalize_messages.simps(2) result_simps Let_def)
      then have "provider_ready keep tl" using "2.IH" (4) calls cs b True by simp
      moreover have "list_all is_tool (takeWhile is_tool rest)"
        by (auto simp: list_all_iff dest: set_takeWhileD)
      ultimately show ?thesis
        unfolding out using valid_call_ids_mset b True f calls(3) cs by (auto intro: ready_calls)
    next
      case False
      then obtain tl where tl: "normalize_messages keep rest = Inr tl"
        and out: "out = keep_if (has_assistant_payload keep (dict_pop ''tool_calls'' ?c))
            (dict_pop ''tool_calls'' ?c) @ tl"
        using "2.prems" calls cs b by (auto simp: normalize_messages.simps(2) result_simps Let_def)
      then have "provider_ready keep tl" using "2.IH" (5) calls cs b False by simp
      then show ?thesis unfolding out by (intro keep_if_ready fit_stripped [OF f])
    qed
  qed
qed

lemma ready_head: "provider_ready keep ms \<Longrightarrow> takeWhile is_tool ms = [] \<and> dropWhile is_tool ms = ms"
  by (cases rule: provider_ready.cases, assumption) (auto simp: fit_assistant_def)

lemma ready_fixed: "provider_ready keep ms \<Longrightarrow> normalize_messages keep ms = Inr ms"
proof (induction rule: provider_ready.induct)
  case ready_nil
  then show ?case by simp
next
  case (ready_other m ms)
  then show ?case by (simp add: normalize_messages.simps(2))
next
  case (ready_text m ms)
  then show ?case
    by (simp add: normalize_messages.simps(2) fit_assistant_def Let_def keep_if_def)
next
  case (ready_calls m calls results ms)
  note h = ready_head [OF ready_calls.hyps(7)]
  have "takeWhile is_tool (results @ ms) = results" "dropWhile is_tool (results @ ms) = ms"
    using ready_calls.hyps(5) h by (simp_all add: list_all_iff)
  then show ?case
    using ready_calls complete_pair_ready [OF ready_calls.hyps(4,6)]
    by (simp add: normalize_messages.simps(2) fit_assistant_def Let_def)
qed

definition is_plain :: "jdict \<Rightarrow> bool" where
  "is_plain m \<longleftrightarrow> \<not> is_tool m \<and> \<not> is_assistant m"

lemma not_plain [simp]: "is_tool m \<Longrightarrow> \<not> is_plain m" "is_assistant m \<Longrightarrow> \<not> is_plain m"
  by (simp_all add: is_plain_def)

lemma role_normalized [simp]:
  "is_assistant (normalize_assistant_content m) = is_assistant m"
  "is_tool (normalize_assistant_content m) = is_tool m"
  "is_assistant (dict_pop ''tool_calls'' m) = is_assistant m"
  "is_tool (dict_pop ''tool_calls'' m) = is_tool m"
  by (simp_all add: is_assistant_def is_tool_def role_of_def normalize_content_key)

lemma filter_keep_if: "filter P (keep_if b m) = (if P m then keep_if b m else [])"
  by (simp add: keep_if_def)

lemma plain_results [simp]: "filter is_plain (takeWhile is_tool ms) = []"
  by (induction ms) auto

lemma plain_after_results: "filter is_plain (dropWhile is_tool ms) = filter is_plain ms"
  by (induction ms) auto

lemma tool_not_assistant: "is_tool m \<Longrightarrow> \<not> is_assistant m"
  by (simp add: is_assistant_def is_tool_def)

lemma normalize_keeps_plain:
  "normalize_messages keep ms = Inr out \<Longrightarrow> filter is_plain out = filter is_plain ms"
proof (induction keep ms arbitrary: out rule: normalize_messages.induct)
  case (1 keep)
  then show ?case by simp
next
  case (2 keep m rest)
  then show ?case
    by (auto simp: normalize_messages.simps(2) result_simps Let_def filter_keep_if plain_after_results
        is_plain_def [of m] split: if_splits)
qed

lemma tools_split:
  "filter is_tool ms = takeWhile is_tool ms @ filter is_tool (dropWhile is_tool ms)"
  by (induction ms) auto

lemma normalize_tools_subseq:
  "normalize_messages keep ms = Inr out \<Longrightarrow> subseq (filter is_tool out) (filter is_tool ms)"
proof (induction keep ms arbitrary: out rule: normalize_messages.induct)
  case (1 keep)
  then show ?case by simp
next
  case (2 keep m rest)
  have results: "filter is_tool (takeWhile is_tool rest) = takeWhile is_tool rest"
    by (auto simp: filter_id_conv dest: set_takeWhileD)
  show ?case using 2
    by (auto simp: normalize_messages.simps(2) result_simps Let_def filter_keep_if results
        tool_not_assistant tools_split [of rest] subseq_append' split: if_splits)
qed

text \<open>
  Whatever the history looks like, what is sent is ready for the provider: tool results
  stand only directly behind the assistant message that asked for them, one for each of its
  calls, and no empty assistant message is left. User and system messages are all kept,
  unchanged and in order, and the results that remain are a subsequence of those recorded.
\<close>

theorem normalized_history_is_ready:
  assumes "normalize_messages keep ms = Inr out"
  shows "provider_ready keep out \<and> filter is_plain out = filter is_plain ms \<and>
    subseq (filter is_tool out) (filter is_tool ms)"
  using normalize_ready [OF assms] normalize_keeps_plain [OF assms] normalize_tools_subseq [OF assms]
  by blast

definition sample_message :: "string \<Rightarrow> json \<Rightarrow> jdict" where
  "sample_message r content = [(''role'', JStr r), (''content'', content)]"

definition sample_result :: "string \<Rightarrow> jdict" where
  "sample_result i = sample_message ''tool'' (JStr ''out'') @ [(''tool_call_id'', JStr i)]"

definition sample_calls :: "string list \<Rightarrow> json" where
  "sample_calls ids = JList (map (\<lambda>i. JObj [(''id'', JStr i)]) ids)"

text \<open>Call \<open>a\<close> is answered, the results of \<open>b\<close> and \<open>c\<close> are not all there.\<close>

definition sample_history :: "jdict list" where
  "sample_history =
     [sample_message ''user'' (JStr ''hi''),
      sample_message ''assistant'' JNull @ [(''tool_calls'', sample_calls [''a''])],
      sample_result ''a'',
      sample_message ''assistant'' JNull @ [(''tool_calls'', sample_calls [''b'', ''c''])],
      sample_result ''b'']"

lemmas normalize_eval = normalize_messages.simps(2) Let_def is_tool_def is_assistant_def role_of_def
  normalize_assistant_content_def content_empty_def truthy_key_def get_or_def iter_json_def
  complete_pair_def valid_call_ids_def call_ids_def result_ids_def is_obj_def jget_def
  is_nonempty_str_def hashable_def has_assistant_payload_def keep_if_def

lemma normalized_history_is_ready_witness:
  "provider_ready False (take 3 (sample_history [1 := sample_message ''assistant'' (JStr []) @
     [(''tool_calls'', sample_calls [''a''])]]))"
proof -
  have "normalize_messages False sample_history =
      Inr (take 3 (sample_history [1 := sample_message ''assistant'' (JStr []) @
        [(''tool_calls'', sample_calls [''a''])]]))"
    by (simp add: sample_history_def sample_message_def sample_result_def sample_calls_def normalize_eval)
  from normalized_history_is_ready [OF this] show ?thesis by blast
qed

text \<open>
  A history is sent unchanged exactly when it is already ready; so a sound history loses
  nothing to the cleaning, and cleaning twice is cleaning once.
\<close>

theorem unchanged_iff_ready: "normalize_messages keep ms = Inr ms \<longleftrightarrow> provider_ready keep ms"
  using normalize_ready ready_fixed by blast

end
