(* ===== verification/Floats.thy ===== *)
theory Floats
  imports Json
begin

text \<open>
  The floats of Python as far as the settings and thresholds use them: a finite one is a mantissa and a
  binary exponent, rounded to 53 bits where Python rounds; \<open>Infinite True\<close> is the negative infinity.
\<close>

datatype pyfloat = Finite int int | Infinite bool | NotANumber

text \<open>\<open>float(i)\<close>: the nearest double, ties to even, and a raise beyond the largest one.\<close>

definition round_half_even :: "int \<Rightarrow> nat \<Rightarrow> int" where
  "round_half_even a k =
     (let q = a div 2 ^ k; r = a mod 2 ^ k; half = 2 ^ (k - 1)
      in if r > half \<or> r = half \<and> odd q then q + 1 else q)"

function bit_length :: "int \<Rightarrow> nat" where
  "bit_length a = (if a \<le> 0 then 0 else Suc (bit_length (a div 2)))"
  by pat_completeness auto
termination by (relation "measure nat") auto

declare bit_length.simps [simp del]

definition float_of_int :: "int \<Rightarrow> pyfloat result" where
  "float_of_int i =
     (let a = \<bar>i\<bar>; n = bit_length a
      in if n \<le> 53 then Inr (Finite i 0)
         else let m = round_half_even a (n - 53)
           in if 2 ^ 1024 \<le> m * 2 ^ (n - 53) then Inl OverflowError
              else Inr (Finite (sgn i * m) (int (n - 53))))"

fun py_float :: "(string \<Rightarrow> pyfloat result) \<Rightarrow> json \<Rightarrow> pyfloat result" where
  "py_float F (JBool b) = Inr (Finite (if b then 1 else 0) 0)"
| "py_float F (JInt i) = float_of_int i"
| "py_float F (JFloat m e) = Inr (Finite m e)"
| "py_float F (JStr s) = F s"
| "py_float F _ = Inl TypeError"

section \<open>Arithmetic and comparison\<close>

definition round_float :: "int \<Rightarrow> int \<Rightarrow> pyfloat" where
  "round_float m e =
     (let n = bit_length \<bar>m\<bar> in if n \<le> 53 then Finite m e else Finite (round_half_even m (n - 53)) (e + int (n - 53)))"

text \<open>\<open>a / b\<close> of integers with \<open>b > 0\<close>: enough bits of the quotient, and one that says whether there are more.\<close>

definition float_div :: "int \<Rightarrow> int \<Rightarrow> pyfloat" where
  "float_div a b =
     (let s = 55 + bit_length b - bit_length \<bar>a\<bar>; q = (a * 2 ^ s) div b; r = (a * 2 ^ s) mod b
      in round_float (2 * q + (if r = 0 then 0 else 1)) (- int s - 1))"

fun float_less :: "pyfloat \<Rightarrow> pyfloat \<Rightarrow> bool" where
  "float_less (Finite m e) (Finite m' e') =
     (m * 2 ^ nat (e - min e e') < m' * 2 ^ nat (e' - min e e'))"
| "float_less (Finite m e) (Infinite neg) = (\<not> neg)"
| "float_less (Infinite neg) (Finite m e) = neg"
| "float_less (Infinite neg) (Infinite neg') = (neg \<and> \<not> neg')"
| "float_less _ _ = False"

definition float_ge :: "pyfloat \<Rightarrow> pyfloat \<Rightarrow> bool" where
  "float_ge x y \<longleftrightarrow> x \<noteq> NotANumber \<and> y \<noteq> NotANumber \<and> \<not> float_less x y"

text \<open>\<open>max(x, y)\<close> and \<open>min(x, y)\<close>: the first argument unless the second is beyond it.\<close>

definition float_max :: "pyfloat \<Rightarrow> pyfloat \<Rightarrow> pyfloat" where
  "float_max x y = (if float_less x y then y else x)"

definition float_min :: "pyfloat \<Rightarrow> pyfloat \<Rightarrow> pyfloat" where
  "float_min x y = (if float_less y x then y else x)"

end
