(* ===== verification/LlmPolicy.thy ===== *)
theory LlmPolicy
  imports Floats
begin

text \<open>
  Failures of an LLM call and the recovery policy
  (\<open>packages/ftre-llm/src/ftre_llm/errors.py\<close> and the package
  \<open>packages/ftre-llm-recovery\<close>: \<open>config.py\<close>, \<open>policy.py\<close>, \<open>plugin.py\<close>).

  \<open>provider_exn\<close> is what \<open>LLMError.classify\<close> looks at in an exception of the SDK: its class
  and base classes by name, the attributes \<open>code\<close>, \<open>status_code\<close> and
  \<open>response.status_code\<close>, and its text. \<open>raised\<close> is how a stream or a call may end early.
  A float is a mantissa with a binary exponent, an infinity or not a number; the conversion
  of a text to a float is a parameter.
\<close>

section \<open>Errors\<close>

record llm_error =
  le_message :: string
  le_code :: string

record provider_exn =
  px_classes :: "string list"
  px_code :: "string option"
  px_status :: "int option"
  px_response_status :: "int option"
  px_text :: string

datatype raised = RLLM llm_error | ROther provider_exn | RCancelled

definition TYPE_MAP :: "(string \<times> string) list" where
  "TYPE_MAP =
     [(''openai.RateLimitError'', ''rate_limit''),
      (''openai.APITimeoutError'', ''timeout''),
      (''openai.APIConnectionError'', ''network''),
      (''openai.AuthenticationError'', ''auth_error''),
      (''openai.PermissionDeniedError'', ''content_filter''),
      (''openai.BadRequestError'', ''bad_request''),
      (''openai.InternalServerError'', ''internal_server_error''),
      (''openai.APIError'', ''api_error'')]"

definition CODE_OVERRIDES :: "(string, string) dict" where
  "CODE_OVERRIDES =
     [(''invalid_request_error'', ''bad_request''),
      (''bad_request'', ''bad_request''),
      (''rate_limit_exceeded'', ''rate_limit''),
      (''context_length_exceeded'', ''bad_request''),
      (''invalid_api_key'', ''auth_error''),
      (''authentication_error'', ''auth_error''),
      (''permission_denied'', ''content_filter'')]"

definition UNRETRYABLE_CODES :: "string list" where
  "UNRETRYABLE_CODES = [''auth_error'', ''bad_request'', ''content_filter'']"

definition is_instance :: "provider_exn \<Rightarrow> string \<Rightarrow> bool" where
  "is_instance x c \<longleftrightarrow> c \<in> set (px_classes x)"

text \<open>The code the SDK itself names, when it is one of the known ones.\<close>

definition override_code :: "provider_exn \<Rightarrow> string option" where
  "override_code x =
     (if is_instance x ''openai.APIError'' \<and> none_if_empty (px_code x) \<noteq> None
      then dict_get CODE_OVERRIDES (opt_str (px_code x)) else None)"

definition status_of :: "provider_exn \<Rightarrow> int option" where
  "status_of x = (case px_status x of None \<Rightarrow> px_response_status x | Some s \<Rightarrow> Some s)"

definition status_code :: "provider_exn \<Rightarrow> string option" where
  "status_code x =
     (case status_of x of
        None \<Rightarrow> None
      | Some s \<Rightarrow>
          if s = 400 then Some ''bad_request''
          else if s = 401 then Some ''auth_error''
          else if s = 402 then Some ''bad_request''
          else if s = 403 then Some ''content_filter''
          else None)"

definition names_bad_parameter :: "provider_exn \<Rightarrow> bool" where
  "names_bad_parameter x \<longleftrightarrow>
     str_contains ''invalidparameter'' (py_lower (px_text x)) \<or>
     str_contains ''invalid parameter'' (py_lower (px_text x))"

definition class_code :: "provider_exn \<Rightarrow> string option" where
  "class_code x = map_option snd (find_first (\<lambda>p. is_instance x (fst p)) TYPE_MAP)"

definition classify_code :: "provider_exn \<Rightarrow> string" where
  "classify_code x =
     (case override_code x of Some c \<Rightarrow> c
      | None \<Rightarrow> (case status_code x of Some c \<Rightarrow> c
        | None \<Rightarrow> if names_bad_parameter x then ''bad_request''
          else (case class_code x of Some c \<Rightarrow> c
            | None \<Rightarrow>
                if is_instance x ''httpx.RemoteProtocolError'' then ''network''
                else if is_instance x ''httpx.ReadTimeout'' then ''timeout''
                else ''unknown'')))"

definition classify :: "provider_exn \<Rightarrow> llm_error" where
  "classify x = \<lparr>le_message = px_text x, le_code = classify_code x\<rparr>"

text \<open>\<open>exc if isinstance(exc, LLMError) else LLMError.classify(exc)\<close>.\<close>

fun as_llm_error :: "raised \<Rightarrow> llm_error option" where
  "as_llm_error (RLLM e) = Some e"
| "as_llm_error (ROther x) = Some (classify x)"
| "as_llm_error RCancelled = None"

section \<open>Recovery configuration\<close>

text \<open>\<open>max(0.0, x)\<close>: the second argument only when it is greater.\<close>

fun max_zero :: "pyfloat \<Rightarrow> pyfloat" where
  "max_zero (Finite m e) = (if m > 0 then Finite m e else Finite 0 0)"
| "max_zero (Infinite neg) = (if neg then Finite 0 0 else Infinite False)"
| "max_zero NotANumber = Finite 0 0"

fun nonneg_float :: "pyfloat \<Rightarrow> bool" where
  "nonneg_float (Finite m e) = (0 \<le> m)"
| "nonneg_float (Infinite neg) = (\<not> neg)"
| "nonneg_float NotANumber = False"

lemma max_zero_nonneg [simp]: "nonneg_float (max_zero x)"
  by (cases x) auto

record retry_rule =
  rr_action :: string
  rr_delay :: "pyfloat option"

record recovery_config =
  rc_rules :: "(string, retry_rule) dict"
  rc_exclude_codes :: "string set"

definition parse_delay :: "(string \<Rightarrow> pyfloat result) \<Rightarrow> json \<Rightarrow> pyfloat option result" where
  "parse_delay F v =
     (if v = JNull then Inr None
      else case py_float F v of
        Inr x \<Rightarrow> Inr (Some (max_zero x))
      | Inl e \<Rightarrow> if e \<in> {TypeError, ValueError} then Inr None else Inl e)"

text \<open>
  One entry of \<open>rules\<close>. The membership test \<open>action not in {"retry", "stop"}\<close> hashes the
  value, which raises for a list or a dict.
\<close>

definition add_rule ::
  "(string \<Rightarrow> pyfloat result) \<Rightarrow> (string, retry_rule) dict \<Rightarrow> string \<times> json \<Rightarrow>
   (string, retry_rule) dict result" where
  "add_rule F rules kv =
     (case snd kv of
        JObj rule \<Rightarrow>
          (let action = get_or rule ''action'' JNull
           in if \<not> hashable action then Inl TypeError
              else case action of
                JStr a \<Rightarrow>
                  if a \<in> {''retry'', ''stop''}
                  then bind_r (parse_delay F (get_or rule ''delay'' JNull))
                    (\<lambda>d. Inr (dict_set (fst kv) \<lparr>rr_action = a, rr_delay = d\<rparr> rules))
                  else Inr rules
              | _ \<Rightarrow> Inr rules)
      | _ \<Rightarrow> Inr rules)"

text \<open>\<open>frozenset(item.strip().lower() for item in value if isinstance(item, str) and item.strip())\<close>.\<close>

definition code_set :: "json list \<Rightarrow> string set" where
  "code_set items = set (List.map_filter (\<lambda>j. case j of
     JStr s \<Rightarrow> if py_strip s = [] then None else Some (py_lower (py_strip s)) | _ \<Rightarrow> None) items)"

definition codes_of :: "json option \<Rightarrow> string set" where
  "codes_of v = (case v of Some (JList items) \<Rightarrow> code_set items | _ \<Rightarrow> {})"

definition root_of :: "json \<Rightarrow> jdict" where
  "root_of raw = (case raw of JObj d \<Rightarrow> d | _ \<Rightarrow> [])"

definition parse_recovery_config :: "(string \<Rightarrow> pyfloat result) \<Rightarrow> json \<Rightarrow> recovery_config result" where
  "parse_recovery_config F raw =
     bind_r (case dict_get (root_of raw) ''rules'' of
               Some (JObj raw_rules) \<Rightarrow> fold_r (add_rule F) [] raw_rules
             | _ \<Rightarrow> Inr [])
       (\<lambda>rules. Inr \<lparr>rc_rules = rules,
          rc_exclude_codes = codes_of (dict_get (root_of raw) ''exclude_codes'')\<rparr>)"

section \<open>The decision\<close>

record llm_error_payload =
  ep_error_code :: string
  ep_error_message :: string
  ep_attempt :: nat
  ep_max_attempts :: nat

record error_decision =
  ed_action :: string
  ed_delay :: "pyfloat option"

definition overflow_markers :: "string list" where
  "overflow_markers = [''overflow'', ''context_length'', ''context length'', ''too_long'', ''too long'']"

definition has_overflow_marker :: "string \<Rightarrow> bool" where
  "has_overflow_marker s \<longleftrightarrow> list_ex (\<lambda>m. str_contains m s) overflow_markers"

definition payload_code :: "llm_error_payload \<Rightarrow> string" where
  "payload_code p = py_lower (py_strip (ep_error_code p))"

definition error_text :: "llm_error_payload \<Rightarrow> string" where
  "error_text p = py_lower (payload_code p @ '' '' @ ep_error_message p)"

definition decide :: "llm_error_payload \<Rightarrow> recovery_config \<Rightarrow> error_decision option" where
  "decide p c =
     (if payload_code p = [] \<or> payload_code p \<in> rc_exclude_codes c \<or> has_overflow_marker (error_text p)
      then None
      else case dict_get (rc_rules c) (payload_code p) of
        None \<Rightarrow> None
      | Some rule \<Rightarrow> Some \<lparr>ed_action = rr_action rule, ed_delay = rr_delay rule\<rparr>)"

text \<open>The listener: its own decision, or whatever the rest of the chain says.\<close>

definition on_error ::
  "recovery_config \<Rightarrow> llm_error_payload \<Rightarrow> error_decision option result \<Rightarrow>
   error_decision option result" where
  "on_error c p next = (case decide p c of Some d \<Rightarrow> Inr (Some d) | None \<Rightarrow> next)"

section \<open>What the policy guarantees\<close>

definition rule_ok :: "retry_rule \<Rightarrow> bool" where
  "rule_ok r \<longleftrightarrow> rr_action r \<in> {''retry'', ''stop''} \<and>
     (case rr_delay r of None \<Rightarrow> True | Some d \<Rightarrow> nonneg_float d)"

lemma parse_delay_ok: "parse_delay F v = Inr d \<Longrightarrow> (case d of None \<Rightarrow> True | Some x \<Rightarrow> nonneg_float x)"
  by (auto simp: parse_delay_def split: if_splits sum.splits)

lemma set_dict_set: "set (dict_set k v d) \<subseteq> insert (k, v) (set d)"
  by (induction d) auto

lemma add_rule_ok:
  assumes "\<forall>kr \<in> set rules. rule_ok (snd kr)" and "add_rule F rules kv = Inr rules'"
  shows "\<forall>kr \<in> set rules'. rule_ok (snd kr)"
proof (cases "rules' = rules")
  case True
  then show ?thesis using assms(1) by simp
next
  case False
  then obtain a d j where r: "rules' = dict_set (fst kv) \<lparr>rr_action = a, rr_delay = d\<rparr> rules"
    and "a \<in> {''retry'', ''stop''}" and "parse_delay F j = Inr d"
    using assms(2) by (auto simp: add_rule_def Let_def result_simps split: json.splits if_splits)
  then have "rule_ok \<lparr>rr_action = a, rr_delay = d\<rparr>" using parse_delay_ok by (auto simp: rule_ok_def)
  then show ?thesis using assms(1) set_dict_set [of "fst kv" "\<lparr>rr_action = a, rr_delay = d\<rparr>" rules]
    by (auto simp: r)
qed

lemma parsed_rules_ok:
  assumes "parse_recovery_config F raw = Inr c"
  shows "\<forall>kr \<in> set (rc_rules c). rule_ok (snd kr)"
proof -
  have loop: "\<forall>kr \<in> set rules. rule_ok (snd kr)" if "fold_r (add_rule F) [] raw_rules = Inr rules"
    for rules raw_rules
    by (rule fold_r_invariant [OF _ _ that]) (auto dest: add_rule_ok)
  show ?thesis using assms
    by (auto simp: parse_recovery_config_def result_simps split: option.splits json.splits
        dest!: loop)
qed

lemma lower_char_idem [simp]: "lower_char (lower_char c) = lower_char c"
proof (cases "65 \<le> (of_char c :: nat) \<and> (of_char c :: nat) \<le> 90")
  case True
  then show ?thesis by (auto simp: lower_char_def of_char_of)
next
  case False
  then have "lower_char c = c" by (auto simp: lower_char_def)
  then show ?thesis by simp
qed

lemma py_lower_idem [simp]: "py_lower (py_lower s) = py_lower s"
  by (simp add: py_lower_def)

text \<open>
  The recovery policy only speaks when the user configured that very error code: the code
  is not excluded and nothing hints at a context overflow (which belongs to compaction), the
  action is retry or stop, and a delay is never negative or not a number. The code is looked
  up in lower case, so a rule whose key has a capital letter never applies.
\<close>

theorem recovery_only_as_configured:
  assumes "parse_recovery_config F raw = Inr c" and "decide p c = Some d"
  shows "ed_action d \<in> {''retry'', ''stop''} \<and>
    (case ed_delay d of None \<Rightarrow> True | Some x \<Rightarrow> nonneg_float x) \<and>
    payload_code p \<noteq> [] \<and> payload_code p \<notin> rc_exclude_codes c \<and>
    \<not> has_overflow_marker (error_text p) \<and>
    (\<exists>k rule. (k, rule) \<in> set (rc_rules c) \<and> k = payload_code p \<and> py_lower k = k \<and>
       d = \<lparr>ed_action = rr_action rule, ed_delay = rr_delay rule\<rparr>)"
proof -
  obtain rule where r: "dict_get (rc_rules c) (payload_code p) = Some rule"
    and d: "d = \<lparr>ed_action = rr_action rule, ed_delay = rr_delay rule\<rparr>"
    and g: "payload_code p \<noteq> []" "payload_code p \<notin> rc_exclude_codes c"
      "\<not> has_overflow_marker (error_text p)"
    using assms(2) by (auto simp: decide_def split: if_splits option.splits)
  have m: "(payload_code p, rule) \<in> set (rc_rules c)" using r by (rule map_of_SomeD)
  then have "rule_ok rule" using parsed_rules_ok [OF assms(1)] by fastforce
  moreover have "py_lower (payload_code p) = payload_code p" by (simp add: payload_code_def)
  ultimately show ?thesis using g m d by (auto simp: rule_ok_def)
qed

definition no_float :: "string \<Rightarrow> pyfloat result" where
  "no_float s = Inl ValueError"

definition sample_recovery :: json where
  "sample_recovery = JObj [(''rules'', JObj [(''timeout'',
     JObj [(''action'', JStr ''retry''), (''delay'', JInt (- 2))])])]"

definition sample_payload :: llm_error_payload where
  "sample_payload = \<lparr>ep_error_code = '' Timeout '', ep_error_message = ''slow'', ep_attempt = 1,
     ep_max_attempts = 3\<rparr>"

lemma recovery_only_as_configured_witness:
  "\<exists>c. parse_recovery_config no_float sample_recovery = Inr c \<and>
     (\<exists>d. decide sample_payload c = Some d \<and> ed_action d = ''retry'' \<and> ed_delay d = Some (Finite 0 0))"
proof -
  let ?c = "\<lparr>rc_rules = [(''timeout'', \<lparr>rr_action = ''retry'', rr_delay = Some (Finite 0 0)\<rparr>)],
     rc_exclude_codes = {}\<rparr>"
  have c: "parse_recovery_config no_float sample_recovery = Inr ?c"
    by (simp add: parse_recovery_config_def sample_recovery_def root_of_def add_rule_def Let_def
        get_or_def hashable_def parse_delay_def float_of_int_def bit_length.simps codes_of_def)
  have d: "decide sample_payload ?c = Some \<lparr>ed_action = ''retry'', ed_delay = Some (Finite 0 0)\<rparr>"
    by code_simp
  show ?thesis using recovery_only_as_configured [OF c d] c d by auto
qed

text \<open>
  A rule whose action is a list makes reading the configuration raise, although the
  parser means to skip rules it cannot read; the plugin then does not start.
\<close>

lemma malformed_rule_stops_plugin:
  "parse_recovery_config F (JObj [(''rules'', JObj [(''timeout'', JObj [(''action'', JList [])])])]) =
   Inl TypeError"
  by (simp add: parse_recovery_config_def root_of_def add_rule_def get_or_def hashable_def)

lemma classify_status:
  assumes "override_code x = None" and "status_of x = Some s" and "s \<in> {400, 401, 402, 403}"
  shows "classify_code x \<in> set UNRETRYABLE_CODES"
  using assms by (auto simp: classify_code_def status_code_def UNRETRYABLE_CODES_def)

end
