(* ===== verification/BlockAssembler.thy ===== *)
theory BlockAssembler
  imports Json
begin

text \<open>
  The LLM stream protocol and the assembler that checks it and rebuilds the blocks
  (\<open>packages/ftre-llm/src/ftre_llm/events.py\<close>, \<open>block_assembler.py\<close>).

  \<open>chunk\<close> has the seven chunk classes; \<open>OtherChunk\<close> is any other object a stream may
  yield, with its class name. \<open>feed\<close> raises before it changes anything, so a raise leaves
  the state as it was. The specification (\<open>chunk_ok\<close>, \<open>open_of\<close>) is stated on the list of
  chunks alone, without the assembler's state: what may come next, and what each block
  contains. The locale \<open>incremental_checker\<close> is the interface the runner relies on: a
  consumer that accepts a chunk exactly when the history allows it.
\<close>

section \<open>Chunks\<close>

record llm_failure =
  lf_message :: string
  lf_code :: string

record finish_reason =
  fr_kind :: string
  fr_failure :: "llm_failure option"
  fr_raw :: string
  fr_response_metadata :: jdict

datatype chunk =
    BlockStart int string
  | TextDelta int string
  | ReasoningDelta int string
  | ToolCallDelta int string string string
  | BlockEnd int jdict
  | UsageChunk "jdict option"
  | FinishChunk finish_reason
  | OtherChunk string

section \<open>The assembler\<close>

record open_block =
  ob_index :: int
  ob_type :: string
  ob_text :: string
  ob_call_id :: string
  ob_name :: string
  ob_arguments :: string

definition new_open_block :: "int \<Rightarrow> string \<Rightarrow> open_block" where
  "new_open_block i t = \<lparr>ob_index = i, ob_type = t, ob_text = [], ob_call_id = [], ob_name = [],
     ob_arguments = []\<rparr>"

record assembler =
  as_open :: "(int, open_block) dict"
  as_next_index :: int
  as_blocks :: "(int, jdict) dict"
  as_usage :: "jdict option"
  as_finish :: "finish_reason option"
  as_finished :: bool
  as_pending :: "int set"

definition new_assembler :: assembler where
  "new_assembler = \<lparr>as_open = [], as_next_index = 0, as_blocks = [], as_usage = None,
     as_finish = None, as_finished = False, as_pending = {}\<rparr>"

definition STREAM_PROTOCOL :: exn where
  "STREAM_PROTOCOL = LLMError ''STREAM_PROTOCOL''"

definition STREAM_CLOSED :: exn where
  "STREAM_CLOSED = LLMError ''STREAM_CLOSED''"

definition BLOCK_TYPES :: "string list" where
  "BLOCK_TYPES = [''text'', ''reasoning'', ''tool-call'']"

definition wire_type :: "string \<Rightarrow> string" where
  "wire_type t = (if t = ''reasoning'' then ''thinking'' else t)"

definition finalize_block :: "open_block \<Rightarrow> jdict" where
  "finalize_block b =
     (if ob_type b = ''text'' then [(''type'', JStr ''text''), (''text'', JStr (ob_text b))]
      else if ob_type b = ''reasoning''
      then [(''type'', JStr ''thinking''), (''thinking'', JStr (ob_text b))]
      else [(''type'', JStr ''tool-call''), (''id'', JStr (ob_call_id b)),
            (''name'', JStr (ob_name b)), (''arguments'', JStr (ob_arguments b))])"

definition require_open :: "assembler \<Rightarrow> int \<Rightarrow> open_block result" where
  "require_open a i = (case dict_get (as_open a) i of
     None \<Rightarrow> Inl STREAM_PROTOCOL | Some b \<Rightarrow> Inr b)"

definition feed_start :: "assembler \<Rightarrow> int \<Rightarrow> string \<Rightarrow> assembler result" where
  "feed_start a i t =
     (if i \<noteq> as_next_index a then Inl STREAM_PROTOCOL
      else if t \<notin> set BLOCK_TYPES then Inl STREAM_PROTOCOL
      else Inr (a\<lparr>as_open := dict_set i (new_open_block i t) (as_open a),
                  as_pending := insert i (as_pending a),
                  as_next_index := as_next_index a + 1\<rparr>))"

definition feed_delta :: "assembler \<Rightarrow> int \<Rightarrow> string \<Rightarrow> string \<Rightarrow> assembler result" where
  "feed_delta a i expected txt = bind_r (require_open a i) (\<lambda>b.
     if ob_type b \<noteq> expected then Inl STREAM_PROTOCOL
     else Inr (a\<lparr>as_open := dict_set i (b\<lparr>ob_text := ob_text b @ txt\<rparr>) (as_open a)\<rparr>))"

definition extend_call :: "string \<Rightarrow> string \<Rightarrow> string \<Rightarrow> open_block \<Rightarrow> open_block" where
  "extend_call call_id name args b =
     b\<lparr>ob_call_id := str_or call_id (ob_call_id b), ob_name := str_or name (ob_name b),
       ob_arguments := ob_arguments b @ args\<rparr>"

definition feed_tool_delta ::
  "assembler \<Rightarrow> int \<Rightarrow> string \<Rightarrow> string \<Rightarrow> string \<Rightarrow> assembler result" where
  "feed_tool_delta a i call_id name args = bind_r (require_open a i) (\<lambda>b.
     if ob_type b \<noteq> ''tool-call'' then Inl STREAM_PROTOCOL
     else Inr (a\<lparr>as_open := dict_set i (extend_call call_id name args b) (as_open a)\<rparr>))"

definition wire_type_agrees :: "string \<Rightarrow> jdict \<Rightarrow> bool" where
  "wire_type_agrees t block = (case dict_get block ''type'' of None \<Rightarrow> True
     | Some w \<Rightarrow> \<not> jtruthy w \<or> w = JStr (wire_type t))"

definition feed_end :: "assembler \<Rightarrow> int \<Rightarrow> jdict \<Rightarrow> assembler result" where
  "feed_end a i block = bind_r (require_open a i) (\<lambda>b.
     if \<not> wire_type_agrees (ob_type b) block then Inl STREAM_PROTOCOL
     else Inr (a\<lparr>as_open := dict_pop i (as_open a), as_pending := as_pending a - {i},
                 as_blocks := dict_set i (finalize_block b) (as_blocks a)\<rparr>))"

definition feed :: "assembler \<Rightarrow> chunk \<Rightarrow> assembler result" where
  "feed a c =
     (if as_finished a then Inl STREAM_PROTOCOL
      else case c of
        BlockStart i t \<Rightarrow> feed_start a i t
      | TextDelta i txt \<Rightarrow> feed_delta a i ''text'' txt
      | ReasoningDelta i txt \<Rightarrow> feed_delta a i ''reasoning'' txt
      | ToolCallDelta i call_id name args \<Rightarrow> feed_tool_delta a i call_id name args
      | BlockEnd i block \<Rightarrow> feed_end a i block
      | UsageChunk u \<Rightarrow> Inr (a\<lparr>as_usage := u\<rparr>)
      | FinishChunk r \<Rightarrow> Inr (a\<lparr>as_finish := Some r, as_finished := True\<rparr>)
      | OtherChunk cls \<Rightarrow> Inl STREAM_PROTOCOL)"

definition validate :: "assembler \<Rightarrow> unit result" where
  "validate a = (if as_pending a \<noteq> {} then Inl STREAM_PROTOCOL
     else if \<not> as_finished a then Inl STREAM_CLOSED else Inr ())"

definition is_tool_call :: "jdict \<Rightarrow> bool" where
  "is_tool_call b \<longleftrightarrow> dict_get b ''type'' = Some (JStr ''tool-call'')"

definition blocks :: "assembler \<Rightarrow> jdict list" where
  "blocks a =
     (let result = List.map_filter (dict_get (as_blocks a)) (sort (map fst (as_blocks a)))
      in case as_finish a of
           Some r \<Rightarrow> if fr_kind r = ''max-tokens'' then filter (\<lambda>b. \<not> is_tool_call b) result else result
         | None \<Rightarrow> result)"

definition feed_all :: "chunk list \<Rightarrow> assembler result" where
  "feed_all cs = fold_r feed new_assembler cs"

lemmas assembler_defs = feed_def feed_start_def feed_delta_def feed_tool_delta_def feed_end_def
  require_open_def new_assembler_def new_open_block_def

section \<open>What a stream means\<close>

fun block_starts :: "chunk list \<Rightarrow> string list" where
  "block_starts [] = []"
| "block_starts (BlockStart i t # cs) = t # block_starts cs"
| "block_starts (c # cs) = block_starts cs"

fun text_piece :: "int \<Rightarrow> chunk \<Rightarrow> string" where
  "text_piece i (TextDelta j t) = (if j = i then t else [])"
| "text_piece i (ReasoningDelta j t) = (if j = i then t else [])"
| "text_piece i c = []"

fun argument_piece :: "int \<Rightarrow> chunk \<Rightarrow> string" where
  "argument_piece i (ToolCallDelta j call_id name args) = (if j = i then args else [])"
| "argument_piece i c = []"

fun call_id_piece :: "int \<Rightarrow> chunk \<Rightarrow> string" where
  "call_id_piece i (ToolCallDelta j call_id name args) = (if j = i then call_id else [])"
| "call_id_piece i c = []"

fun name_piece :: "int \<Rightarrow> chunk \<Rightarrow> string" where
  "name_piece i (ToolCallDelta j call_id name args) = (if j = i then name else [])"
| "name_piece i c = []"

text \<open>The last piece that is not empty.\<close>

definition last_piece :: "(chunk \<Rightarrow> string) \<Rightarrow> chunk list \<Rightarrow> string" where
  "last_piece f cs = fold (\<lambda>c acc. str_or (f c) acc) cs []"

definition all_pieces :: "(chunk \<Rightarrow> string) \<Rightarrow> chunk list \<Rightarrow> string" where
  "all_pieces f cs = concat (map f cs)"

fun is_end_of :: "int \<Rightarrow> chunk \<Rightarrow> bool" where
  "is_end_of i (BlockEnd j b) = (j = i)"
| "is_end_of i c = False"

fun is_finish :: "chunk \<Rightarrow> bool" where
  "is_finish (FinishChunk r) = True"
| "is_finish c = False"

definition started :: "chunk list \<Rightarrow> int \<Rightarrow> bool" where
  "started cs i \<longleftrightarrow> 0 \<le> i \<and> nat i < length (block_starts cs)"

definition ended :: "chunk list \<Rightarrow> int \<Rightarrow> bool" where
  "ended cs i \<longleftrightarrow> list_ex (is_end_of i) cs"

definition open_of :: "chunk list \<Rightarrow> int \<Rightarrow> open_block" where
  "open_of cs i = \<lparr>ob_index = i, ob_type = block_starts cs ! nat i,
     ob_text = all_pieces (text_piece i) cs, ob_call_id = last_piece (call_id_piece i) cs,
     ob_name = last_piece (name_piece i) cs, ob_arguments = all_pieces (argument_piece i) cs\<rparr>"

definition open_with :: "chunk list \<Rightarrow> int \<Rightarrow> string \<Rightarrow> bool" where
  "open_with cs i t \<longleftrightarrow> started cs i \<and> \<not> ended cs i \<and> block_starts cs ! nat i = t"

text \<open>Which chunk may follow which history.\<close>

definition chunk_ok :: "chunk list \<Rightarrow> chunk \<Rightarrow> bool" where
  "chunk_ok cs c \<longleftrightarrow> \<not> list_ex is_finish cs \<and>
     (case c of
        BlockStart i t \<Rightarrow> i = int (length (block_starts cs)) \<and> t \<in> set BLOCK_TYPES
      | TextDelta i txt \<Rightarrow> open_with cs i ''text''
      | ReasoningDelta i txt \<Rightarrow> open_with cs i ''reasoning''
      | ToolCallDelta i call_id name args \<Rightarrow> open_with cs i ''tool-call''
      | BlockEnd i block \<Rightarrow> started cs i \<and> \<not> ended cs i \<and>
          wire_type_agrees (block_starts cs ! nat i) block
      | UsageChunk u \<Rightarrow> True
      | FinishChunk r \<Rightarrow> True
      | OtherChunk cls \<Rightarrow> False)"

definition all_closed :: "chunk list \<Rightarrow> bool" where
  "all_closed cs \<longleftrightarrow> (\<forall>i \<in> set [0..<length (block_starts cs)]. ended cs (int i))"

lemma block_starts_append [simp]: "block_starts (xs @ ys) = block_starts xs @ block_starts ys"
  by (induction xs rule: block_starts.induct) auto

lemma pieces_snoc [simp]:
  "all_pieces f (cs @ [c]) = all_pieces f cs @ f c"
  "last_piece f (cs @ [c]) = str_or (f c) (last_piece f cs)"
  "all_pieces f [] = []" "last_piece f [] = []"
  by (simp_all add: all_pieces_def last_piece_def)

lemma ended_snoc [simp]:
  "ended (cs @ [c]) i \<longleftrightarrow> ended cs i \<or> is_end_of i c" "\<not> ended [] i"
  by (auto simp: ended_def)

lemma started_Nil [simp]: "\<not> started [] i"
  by (simp add: started_def)


fun finish_of :: "chunk list \<Rightarrow> finish_reason option" where
  "finish_of [] = None"
| "finish_of (FinishChunk r # cs) = Some r"
| "finish_of (c # cs) = finish_of cs"

definition usage_of :: "chunk list \<Rightarrow> jdict option" where
  "usage_of cs = fold (\<lambda>c acc. case c of UsageChunk u \<Rightarrow> u | _ \<Rightarrow> acc) cs None"

lemma finish_of_append [simp]:
  "finish_of (xs @ ys) = (case finish_of xs of None \<Rightarrow> finish_of ys | Some r \<Rightarrow> Some r)"
  by (induction xs rule: finish_of.induct) auto

lemma finish_of_None_iff: "finish_of cs = None \<longleftrightarrow> \<not> list_ex is_finish cs"
  by (induction cs rule: finish_of.induct) auto

lemma usage_of_snoc [simp]:
  "usage_of (cs @ [c]) = (case c of UsageChunk u \<Rightarrow> u | _ \<Rightarrow> usage_of cs)" "usage_of [] = None"
  by (cases c; simp add: usage_of_def) (simp add: usage_of_def)

section \<open>The assembler mirrors the history\<close>

definition untouched :: "chunk list \<Rightarrow> int \<Rightarrow> bool" where
  "untouched cs i \<longleftrightarrow> \<not> ended cs i \<and> all_pieces (text_piece i) cs = [] \<and>
     all_pieces (argument_piece i) cs = [] \<and> last_piece (call_id_piece i) cs = [] \<and>
     last_piece (name_piece i) cs = []"

definition mirrors :: "chunk list \<Rightarrow> assembler \<Rightarrow> bool" where
  "mirrors cs a \<longleftrightarrow>
     as_next_index a = int (length (block_starts cs)) \<and>
     (\<forall>i. dict_get (as_open a) i =
        (if started cs i \<and> \<not> ended cs i then Some (open_of cs i) else None)) \<and>
     (\<forall>i. dict_get (as_blocks a) i =
        (if ended cs i then Some (finalize_block (open_of cs i)) else None)) \<and>
     (\<forall>i. \<not> started cs i \<longrightarrow> untouched cs i) \<and>
     as_pending a = {i. started cs i \<and> \<not> ended cs i} \<and>
     as_finished a = list_ex is_finish cs \<and> as_finish a = finish_of cs \<and>
     as_usage a = usage_of cs \<and> dict_wf (as_blocks a)"

lemma mirrors_new: "mirrors [] new_assembler"
  by (simp add: mirrors_def new_assembler_def untouched_def usage_of_def)

lemma feed_iff_chunk_ok:
  assumes "mirrors cs a"
  shows "(\<exists>a'. feed a c = Inr a') \<longleftrightarrow> chunk_ok cs c"
  using assms
  by (cases c)
    (auto simp: mirrors_def assembler_defs chunk_ok_def open_with_def open_of_def split: if_splits)

lemma feed_error: "feed a c = Inl e \<Longrightarrow> e = STREAM_PROTOCOL"
  by (cases c) (auto simp: assembler_defs result_simps split: if_splits option.splits)

lemma started_snoc: "started (cs @ [c]) i \<longleftrightarrow>
    started cs i \<or> (i = int (length (block_starts cs)) \<and> block_starts [c] \<noteq> [])"
  by (cases c) (auto simp: started_def)

lemma block_starts_snoc_nth:
  "started cs i \<Longrightarrow> block_starts (cs @ [c]) ! nat i = block_starts cs ! nat i"
  by (simp add: started_def nth_append)


text \<open>A chunk that touches no block but \<open>i\<close>.\<close>

definition silent_at :: "int \<Rightarrow> chunk \<Rightarrow> bool" where
  "silent_at j c \<longleftrightarrow> block_starts [c] = [] \<and> text_piece j c = [] \<and> argument_piece j c = [] \<and>
     call_id_piece j c = [] \<and> name_piece j c = []"

lemma silent_open_of: "silent_at j c \<Longrightarrow> open_of (cs @ [c]) j = open_of cs j"
  by (simp add: silent_at_def open_of_def)

lemma silent_untouched: "silent_at j c \<Longrightarrow> \<not> is_end_of j c \<Longrightarrow> untouched cs j \<Longrightarrow> untouched (cs @ [c]) j"
  by (simp add: silent_at_def untouched_def)

lemma mirrors_ended_started: "mirrors cs a \<Longrightarrow> ended cs i \<Longrightarrow> started cs i"
  by (auto simp: mirrors_def untouched_def)

lemma mirrorsD:
  assumes "mirrors cs a"
  shows "as_next_index a = int (length (block_starts cs))"
    and "dict_get (as_open a) i =
      (if started cs i \<and> \<not> ended cs i then Some (open_of cs i) else None)"
    and "dict_get (as_blocks a) i =
      (if ended cs i then Some (finalize_block (open_of cs i)) else None)"
    and "\<not> started cs i \<Longrightarrow> untouched cs i"
    and "as_pending a = {i. started cs i \<and> \<not> ended cs i}"
    and "as_finished a = list_ex is_finish cs" and "as_finish a = finish_of cs"
    and "as_usage a = usage_of cs" and "dict_wf (as_blocks a)"
  using assms by (simp_all add: mirrors_def)

lemma mirrorsI:
  assumes "as_next_index a = int (length (block_starts cs))"
    and "\<And>i. dict_get (as_open a) i =
      (if started cs i \<and> \<not> ended cs i then Some (open_of cs i) else None)"
    and "\<And>i. dict_get (as_blocks a) i =
      (if ended cs i then Some (finalize_block (open_of cs i)) else None)"
    and "\<And>i. \<not> started cs i \<Longrightarrow> untouched cs i"
    and "as_pending a = {i. started cs i \<and> \<not> ended cs i}"
    and "as_finished a = list_ex is_finish cs" and "as_finish a = finish_of cs"
    and "as_usage a = usage_of cs" and "dict_wf (as_blocks a)"
  shows "mirrors cs a"
  using assms by (simp add: mirrors_def)

lemma mirrors_start:
  assumes m: "mirrors cs a" and i: "i = int (length (block_starts cs))"
    and c: "c = BlockStart i t"
  shows "mirrors (cs @ [c]) (a\<lparr>as_open := dict_set i (new_open_block i t) (as_open a),
     as_pending := insert i (as_pending a), as_next_index := as_next_index a + 1\<rparr>)"
proof -
  have ns: "\<not> started cs i" by (simp add: i started_def)
  then have u: "untouched cs i" using m by (simp add: mirrors_def)
  then have ne: "\<not> ended cs i" by (simp add: untouched_def)
  have st: "started (cs @ [c]) j \<longleftrightarrow> started cs j \<or> j = i" for j
    using c i by (auto simp add: started_snoc)
  have en: "ended (cs @ [c]) j \<longleftrightarrow> ended cs j" for j by (simp add: c)
  have oi: "open_of (cs @ [c]) i = new_open_block i t"
    using u c by (simp add: open_of_def new_open_block_def untouched_def i nth_append)
  have oj: "open_of (cs @ [c]) j = open_of cs j" if "started cs j" for j
    using that c by (simp add: open_of_def nth_append started_def)
  note es = mirrors_ended_started [OF m]
  show ?thesis
  proof (rule mirrorsI; (unfold en)?)
    fix j
    show "dict_get (as_open (a\<lparr>as_open := dict_set i (new_open_block i t) (as_open a),
     as_pending := insert i (as_pending a), as_next_index := as_next_index a + 1\<rparr>)) j =
        (if started (cs @ [c]) j \<and> \<not> ended cs j then Some (open_of (cs @ [c]) j) else None)"
      using oi oj ne by (cases "j = i") (simp_all add: mirrorsD(2) [OF m] st)
    show "dict_get (as_blocks (a\<lparr>as_open := dict_set i (new_open_block i t) (as_open a),
     as_pending := insert i (as_pending a), as_next_index := as_next_index a + 1\<rparr>)) j =
        (if ended cs j then Some (finalize_block (open_of (cs @ [c]) j)) else None)"
      using oj [OF es, of j] by (simp add: mirrorsD(3) [OF m])
    show "untouched (cs @ [c]) j" if "\<not> started (cs @ [c]) j"
    proof -
      have "\<not> started cs j" using that st by blast
      then show ?thesis using mirrorsD(4) [OF m] by (simp add: untouched_def c)
    qed
  qed (use ne in \<open>auto simp: mirrorsD [OF m] started_snoc c i split: option.splits\<close>)
qed

lemma mirrors_delta:
  assumes m: "mirrors cs a" and op: "started cs i" "\<not> ended cs i"
    and c: "block_starts [c] = []" "\<And>j. j \<noteq> i \<Longrightarrow> silent_at j c" "\<And>j. \<not> is_end_of j c"
    "\<not> is_finish c" "\<And>u. c \<noteq> UsageChunk u"
    and b: "open_of (cs @ [c]) i = b"
  shows "mirrors (cs @ [c]) (a\<lparr>as_open := dict_set i b (as_open a)\<rparr>)"
proof -
  have st: "started (cs @ [c]) j \<longleftrightarrow> started cs j" for j using c(1) by (simp add: started_snoc)
  have en: "ended (cs @ [c]) j \<longleftrightarrow> ended cs j" for j using c(3) by simp
  have oj: "open_of (cs @ [c]) j = open_of cs j" if "j \<noteq> i" for j
    using silent_open_of c(2) that by blast
  have us: "usage_of (cs @ [c]) = usage_of cs" using c(5) by (cases c) auto
  have fi: "finish_of [c] = None" using c(4) by (cases c) auto
  show ?thesis
  proof (rule mirrorsI; (unfold st en)?)
    fix j
    show "untouched (cs @ [c]) j" if "\<not> started cs j"
    proof -
      have "j \<noteq> i" using that op by auto
      then show ?thesis using silent_untouched [OF c(2) c(3)] mirrorsD(4) [OF m that] by blast
    qed
    show "dict_get (as_open (a\<lparr>as_open := dict_set i b (as_open a)\<rparr>)) j =
        (if started cs j \<and> \<not> ended cs j then Some (open_of (cs @ [c]) j) else None)"
      using op b oj by (cases "j = i") (simp_all add: mirrorsD [OF m])
    show "dict_get (as_blocks (a\<lparr>as_open := dict_set i b (as_open a)\<rparr>)) j =
        (if ended cs j then Some (finalize_block (open_of (cs @ [c]) j)) else None)"
      using op oj by (cases "j = i") (simp_all add: mirrorsD [OF m])
  qed (simp_all add: mirrorsD [OF m] c us fi del: usage_of_snoc split: option.splits)
qed

lemma mirrors_end:
  assumes m: "mirrors cs a" and op: "started cs i" "\<not> ended cs i" and c: "c = BlockEnd i b"
  shows "mirrors (cs @ [c]) (a\<lparr>as_open := dict_pop i (as_open a), as_pending := as_pending a - {i},
     as_blocks := dict_set i (finalize_block (open_of cs i)) (as_blocks a)\<rparr>)"
proof -
  have st: "started (cs @ [c]) j \<longleftrightarrow> started cs j" for j by (simp add: c started_snoc)
  have oj: "open_of (cs @ [c]) j = open_of cs j" for j
    by (rule silent_open_of) (simp add: silent_at_def c)
  show ?thesis
  proof (rule mirrorsI; (unfold st oj)?)
    fix j
    show "untouched (cs @ [c]) j" if "\<not> started cs j"
      using mirrorsD(4) [OF m that] that op by (auto simp: c untouched_def)
  qed (use op in \<open>auto simp: mirrorsD [OF m] c split: option.splits\<close>)
qed

lemma mirrors_plain:
  assumes m: "mirrors cs a" and c: "(\<exists>u. c = UsageChunk u) \<or> (\<exists>r. c = FinishChunk r)"
    and nf: "\<not> list_ex is_finish cs" and f: "feed a c = Inr a'"
  shows "mirrors (cs @ [c]) a'"
proof -
  have st: "started (cs @ [c]) j \<longleftrightarrow> started cs j" for j using c by (auto simp: started_snoc)
  have oj: "open_of (cs @ [c]) j = open_of cs j" for j
    using c by (intro silent_open_of) (auto simp: silent_at_def)
  have en: "ended (cs @ [c]) j \<longleftrightarrow> ended cs j" for j using c by auto
  have un: "untouched (cs @ [c]) j \<longleftrightarrow> untouched cs j" for j using c by (auto simp: untouched_def)
  have fo: "finish_of cs = None" using nf by (simp add: finish_of_None_iff)
  have "\<not> as_finished a" using nf by (simp add: mirrorsD [OF m])
  then have a': "a' = (case c of UsageChunk u \<Rightarrow> a\<lparr>as_usage := u\<rparr>
      | FinishChunk r \<Rightarrow> a\<lparr>as_finish := Some r, as_finished := True\<rparr> | _ \<Rightarrow> a)"
    using c f by (auto simp: feed_def)
  show ?thesis
    by (rule mirrorsI; (unfold st oj en un)?)
      (insert c, auto simp: a' fo mirrorsD [OF m] mirrorsD(4) [OF m] nf)
qed

lemma feed_mirrors:
  assumes m: "mirrors cs a" and f: "feed a c = Inr a'"
  shows "mirrors (cs @ [c]) a'"
proof -
  have op: "dict_get (as_open a) i = Some b \<longleftrightarrow> started cs i \<and> \<not> ended cs i \<and> b = open_of cs i" for i b
    using m by (auto simp: mirrors_def)
  have nf: "\<not> list_ex is_finish cs" using m f by (auto simp: mirrors_def feed_def split: if_splits)
  have nx: "as_next_index a = int (length (block_starts cs))" using m by (simp add: mirrors_def)
  show ?thesis
  proof (cases c)
    case (BlockStart i t)
    then show ?thesis using f nx mirrors_start [OF m, of i c t]
      by (auto simp: feed_def feed_start_def split: if_splits)
  next
    case (TextDelta i t)
    then show ?thesis using f
      by (auto simp: feed_def feed_delta_def require_open_def op result_simps open_of_def silent_at_def
          split: if_splits option.splits intro!: mirrors_delta [OF m])
  next
    case (ReasoningDelta i t)
    then show ?thesis using f
      by (auto simp: feed_def feed_delta_def require_open_def op result_simps open_of_def silent_at_def
          split: if_splits option.splits intro!: mirrors_delta [OF m])
  next
    case (ToolCallDelta i call_id name args)
    then show ?thesis using f
      by (auto simp: feed_def feed_tool_delta_def require_open_def op result_simps open_of_def
          silent_at_def extend_call_def split: if_splits option.splits intro!: mirrors_delta [OF m])
  next
    case (BlockEnd i b)
    then show ?thesis using f
      by (auto simp: feed_def feed_end_def require_open_def op result_simps
          split: if_splits option.splits intro!: mirrors_end [OF m])
  next
    case (UsageChunk u)
    then show ?thesis using mirrors_plain [OF m _ nf f] by blast
  next
    case (FinishChunk r)
    then show ?thesis using mirrors_plain [OF m _ nf f] by blast
  next
    case (OtherChunk cls)
    then show ?thesis using f by (simp add: feed_def split: if_splits)
  qed
qed

section \<open>Checking a stream chunk by chunk\<close>

locale incremental_checker =
  fixes init :: 's
    and step :: "'s \<Rightarrow> 'c \<Rightarrow> 's result"
    and rep :: "'c list \<Rightarrow> 's \<Rightarrow> bool"
    and ok :: "'c list \<Rightarrow> 'c \<Rightarrow> bool"
  assumes rep_init: "rep [] init"
    and rep_step: "rep cs s \<Longrightarrow> step s c = Inr s' \<Longrightarrow> rep (cs @ [c]) s'"
    and step_iff: "rep cs s \<Longrightarrow> (\<exists>s'. step s c = Inr s') \<longleftrightarrow> ok cs c"
begin

lemma run_rep: "fold_r step init cs = Inr s \<Longrightarrow> rep cs s"
proof (induction cs arbitrary: s rule: rev_induct)
  case Nil
  then show ?case using rep_init by simp
next
  case (snoc c cs)
  then show ?case by (auto simp: fold_r_append result_simps intro: rep_step)
qed

lemma run_iff: "(\<exists>s. fold_r step init cs = Inr s) \<longleftrightarrow> (\<forall>k < length cs. ok (take k cs) (cs ! k))"
proof (induction cs rule: rev_induct)
  case Nil
  then show ?case by simp
next
  case (snoc c cs)
  have "(\<exists>s. fold_r step init (cs @ [c]) = Inr s) \<longleftrightarrow>
      (\<exists>s. fold_r step init cs = Inr s) \<and> ok cs c"
    using step_iff run_rep by (fastforce simp: fold_r_append result_simps)
  also have "\<dots> \<longleftrightarrow> (\<forall>k < length (cs @ [c]). ok (take k (cs @ [c])) ((cs @ [c]) ! k))"
    unfolding snoc.IH by (auto simp: less_Suc_eq nth_append)
  finally show ?case .
qed

end

interpretation asm: incremental_checker new_assembler feed mirrors chunk_ok
  by unfold_locales (auto intro: mirrors_new feed_mirrors simp: feed_iff_chunk_ok)

definition obeys_protocol :: "chunk list \<Rightarrow> bool" where
  "obeys_protocol cs \<longleftrightarrow> (\<forall>k \<in> set [0..<length cs]. chunk_ok (take k cs) (cs ! k))"

lemma feed_all_iff: "(\<exists>a. feed_all cs = Inr a) \<longleftrightarrow> obeys_protocol cs"
  by (auto simp: feed_all_def obeys_protocol_def asm.run_iff)

lemma feed_all_mirrors: "feed_all cs = Inr a \<Longrightarrow> mirrors cs a"
  by (simp add: feed_all_def asm.run_rep)

lemma no_pending_iff: "mirrors cs a \<Longrightarrow> as_pending a = {} \<longleftrightarrow> all_closed cs"
proof -
  assume m: "mirrors cs a"
  have "(\<forall>i. started cs i \<longrightarrow> ended cs i) \<longleftrightarrow> all_closed cs"
  proof
    assume "\<forall>i. started cs i \<longrightarrow> ended cs i"
    then show "all_closed cs" by (auto simp: all_closed_def started_def)
  next
    assume c: "all_closed cs"
    show "\<forall>i. started cs i \<longrightarrow> ended cs i"
    proof (intro allI impI)
      fix i assume "started cs i"
      then show "ended cs i" using c by (auto simp: all_closed_def started_def dest!: bspec [of _ _ "nat i"])
    qed
  qed
  then show ?thesis by (auto simp: mirrorsD(5) [OF m])
qed

lemma validate_outcome:
  assumes "feed_all cs = Inr a"
  shows "validate a = (if \<not> all_closed cs then Inl STREAM_PROTOCOL
     else if \<not> list_ex is_finish cs then Inl STREAM_CLOSED else Inr ())"
  using no_pending_iff [OF feed_all_mirrors [OF assms]] mirrorsD(6) [OF feed_all_mirrors [OF assms]]
  by (simp add: validate_def)

lemma accepts_iff:
  "(\<exists>a. feed_all cs = Inr a \<and> validate a = Inr ()) \<longleftrightarrow>
   obeys_protocol cs \<and> all_closed cs \<and> list_ex is_finish cs"
proof
  assume "\<exists>a. feed_all cs = Inr a \<and> validate a = Inr ()"
  then show "obeys_protocol cs \<and> all_closed cs \<and> list_ex is_finish cs"
    using feed_all_iff [of cs] by (auto simp: validate_outcome split: if_splits)
next
  assume a: "obeys_protocol cs \<and> all_closed cs \<and> list_ex is_finish cs"
  then obtain s where "feed_all cs = Inr s" using feed_all_iff [of cs] by auto
  then show "\<exists>a. feed_all cs = Inr a \<and> validate a = Inr ()"
    using a by (auto simp: validate_outcome)
qed

text \<open>
  C6: A stream passes the assembler and its final validation exactly when it obeys the
  protocol: blocks start at 0, 1, 2 and so on with a known type, deltas and ends name a block
  that is open and of their kind, every block is closed, and there is one finish, the last
  chunk. The right-hand side speaks of the chunks alone.
\<close>

theorem assembler_accepts_iff:
  "(\<exists>a. feed_all cs = Inr a \<and> validate a = Inr ()) \<longleftrightarrow>
   obeys_protocol cs \<and> all_closed cs \<and> list_ex is_finish cs"
  by (rule accepts_iff)

lemma map_filter_all:
  "(\<And>x. x \<in> set xs \<Longrightarrow> f x = Some (g x)) \<Longrightarrow> List.map_filter f xs = map g xs"
  by (induction xs) (auto simp: List.map_filter_simps)

text \<open>The blocks the history defines, in the order they were opened.\<close>

definition spec_blocks :: "chunk list \<Rightarrow> jdict list" where
  "spec_blocks cs = map (\<lambda>i. finalize_block (open_of cs (int i))) [0..<length (block_starts cs)]"

lemma blocks_of_mirror:
  assumes m: "mirrors cs a" and c: "all_closed cs"
  shows "List.map_filter (dict_get (as_blocks a)) (sort (map fst (as_blocks a))) = spec_blocks cs"
proof -
  let ?n = "length (block_starts cs)"
  have st: "started cs i \<longleftrightarrow> i \<in> set (map int [0..<?n])" for i
    by (auto simp: started_def image_iff Bex_def intro: exI [of _ "nat i"])
  have ended: "ended cs i \<longleftrightarrow> started cs i" for i
  proof
    show "ended cs i \<Longrightarrow> started cs i" by (rule mirrors_ended_started [OF m])
  next
    assume "started cs i"
    then show "ended cs i" using c by (auto simp: st all_closed_def)
  qed
  have keys: "i \<in> set (map fst (as_blocks a)) \<longleftrightarrow> ended cs i" for i
    using mirrorsD(3) [OF m, of i] map_of_eq_None_iff [of "as_blocks a" i] by (auto split: if_splits)
  have "set (map fst (as_blocks a)) = set (map int [0..<?n])"
    using keys ended st by auto
  moreover have "distinct (map fst (as_blocks a))" by (rule mirrorsD(9) [OF m])
  moreover have "distinct (map int [0..<?n])" "sorted (map int [0..<?n])"
    by (simp_all add: distinct_map sorted_map sorted_wrt_upt)
  ultimately have sorted: "sort (map fst (as_blocks a)) = map int [0..<?n]"
    by (metis sorted_list_of_set_sort_remdups distinct_remdups_id sorted_sort_id)
  show ?thesis unfolding sorted spec_blocks_def
    by (subst map_filter_all [where g = "\<lambda>i. finalize_block (open_of cs i)"])
      (use ended st in \<open>auto simp: mirrorsD(3) [OF m]\<close>)
qed

text \<open>
  However the deltas of different blocks are interleaved and in whatever order blocks end,
  an accepted stream yields the blocks in the order they were opened, each holding the
  concatenation of its own deltas (and for a tool call the last id and name that were not
  empty); a stream cut off by max-tokens yields no tool call.
\<close>

theorem assembled_blocks:
  assumes "feed_all cs = Inr a" and "validate a = Inr ()"
  shows "blocks a = (case finish_of cs of
      Some r \<Rightarrow> if fr_kind r = ''max-tokens''
        then filter (\<lambda>b. \<not> is_tool_call b) (spec_blocks cs) else spec_blocks cs
    | None \<Rightarrow> spec_blocks cs)"
proof -
  have m: "mirrors cs a" by (rule feed_all_mirrors [OF assms(1)])
  have c: "all_closed cs" using assms by (simp add: validate_outcome split: if_splits)
  show ?thesis
    using blocks_of_mirror [OF m c] by (simp add: blocks_def Let_def mirrorsD(7) [OF m])
qed

definition sample_finish :: "string \<Rightarrow> finish_reason" where
  "sample_finish k = \<lparr>fr_kind = k, fr_failure = None, fr_raw = [], fr_response_metadata = []\<rparr>"

definition sample_stream :: "string \<Rightarrow> chunk list" where
  "sample_stream k = [BlockStart 0 ''reasoning'', ReasoningDelta 0 ''a'', BlockStart 1 ''tool-call'',
     ToolCallDelta 1 ''c1'' ''read'' ''{'', ReasoningDelta 0 ''b'', ToolCallDelta 1 [] [] ''}'',
     BlockEnd 1 [(''type'', JStr ''tool-call'')], BlockEnd 0 [], UsageChunk None,
     FinishChunk (sample_finish k)]"

lemma assembled_blocks_witness:
  "(\<exists>a. feed_all (sample_stream ''stop'') = Inr a \<and> blocks a =
     [[(''type'', JStr ''thinking''), (''thinking'', JStr ''ab'')],
      [(''type'', JStr ''tool-call''), (''id'', JStr ''c1''), (''name'', JStr ''read''),
       (''arguments'', JStr ''{}'')]])"
proof -
  obtain a where a: "feed_all (sample_stream ''stop'') = Inr a" "validate a = Inr ()"
    by (simp add: sample_stream_def sample_finish_def feed_all_def assembler_defs validate_def
        BLOCK_TYPES_def extend_call_def wire_type_agrees_def wire_type_def)
  show ?thesis
    using a(1) assembled_blocks [OF a]
    by (simp add: sample_stream_def sample_finish_def spec_blocks_def open_of_def all_pieces_def
        last_piece_def finalize_block_def upt_rec)
qed

end
