(* ===== verification/LlmService.thy ===== *)
theory LlmService
  imports LlmPolicy BlockAssembler
begin

text \<open>
  The LLM service (\<open>packages/ftre-llm/src/ftre_llm/service.py\<close>, \<open>contracts.py\<close>) and the
  model lookup that feeds it (\<open>ConfigService.resolve_llm\<close> in
  \<open>src/ftre/services/config/service.py\<close>).

  The service keeps a table from route names to adapter factories; a registration owns its
  routes and can be replaced or disposed. A factory is an opaque number (the code compares
  factories with \<open>is\<close>). Registrations live in a list of the state, addressed by position,
  where the code hands out objects. What a factory builds is a parameter: an adapter, which
  answers a request with a \<open>chunk_stream\<close>, the chunks it yields and how it ends
  (\<open>None\<close>: exhausted).
\<close>

section \<open>Contracts\<close>

record llm_call_config =
  lc_provider :: string
  lc_model :: string
  lc_api_type :: "string option"
  lc_reasoning_effort :: "string option"
  lc_temperature :: "pyfloat option"
  lc_max_tokens :: "json option"
  lc_stop :: "string list"
  lc_timeout :: pyfloat

record llm_credentials =
  cr_api_key :: string
  cr_api_base :: string

record llm_message =
  lm_role :: string
  lm_content :: json
  lm_name :: "json option"
  lm_extra :: jdict

definition message_from_value :: "pylib \<Rightarrow> jdict \<Rightarrow> llm_message" where
  "message_from_value L d =
     \<lparr>lm_role = py_str L (get_or d ''role'' (JStr ''user'')),
      lm_content = get_or d ''content'' (JStr []),
      lm_name = (case dict_get d ''name'' of None \<Rightarrow> None | Some JNull \<Rightarrow> None | Some v \<Rightarrow> Some v),
      lm_extra = dict_pop ''name'' (dict_pop ''content'' (dict_pop ''role'' d))\<rparr>"

definition message_to_mapping :: "llm_message \<Rightarrow> jdict" where
  "message_to_mapping m =
     (let base = dict_set ''content'' (lm_content m) (dict_set ''role'' (JStr (lm_role m)) (lm_extra m))
      in case lm_name m of None \<Rightarrow> base | Some n \<Rightarrow> dict_set ''name'' n base)"

record llm_request =
  lq_config :: llm_call_config
  lq_messages :: "llm_message list"
  lq_system :: "string option"
  lq_tools :: "jdict list"
  lq_session_id :: string
  lq_turn_id :: string
  lq_purpose :: string
  lq_agent_id :: string
  lq_attempt :: int
  lq_max_attempts :: int

text \<open>The coordinates are checked when a request is made.\<close>

definition check_request :: "llm_request \<Rightarrow> llm_request result" where
  "check_request q = (if lq_attempt q < 1 \<or> lq_max_attempts q < lq_attempt q then Inl ValueError else Inr q)"

definition wire_messages :: "llm_request \<Rightarrow> jdict list" where
  "wire_messages q =
     (let ms = map message_to_mapping (lq_messages q)
      in case none_if_empty (lq_system q) of None \<Rightarrow> ms
         | Some s \<Rightarrow> [(''role'', JStr ''system''), (''content'', JStr s)] # ms)"

type_synonym chunk_stream = "chunk list \<times> raised option"

type_synonym adapter = "llm_request \<Rightarrow> chunk_stream"

record adapter_args =
  aa_model :: string
  aa_api_key :: string
  aa_api_base :: string
  aa_api_type :: "string option"
  aa_max_tokens :: "json option"
  aa_reasoning_effort :: string

section \<open>Configured models\<close>

definition is_positive_int :: "json \<Rightarrow> bool" where
  "is_positive_int v = (case v of JInt i \<Rightarrow> i > 0 | JBool b \<Rightarrow> b | _ \<Rightarrow> False)"

definition is_str :: "json \<Rightarrow> bool" where
  "is_str v = (case v of JStr s \<Rightarrow> True | _ \<Rightarrow> False)"

definition str_items :: "json \<Rightarrow> json list" where
  "str_items v = (case v of JList xs \<Rightarrow> filter is_str xs | _ \<Rightarrow> [])"

text \<open>\<open>d.get(a) or e.get(a) or default\<close>.\<close>

definition first_truthy :: "json option list \<Rightarrow> json \<Rightarrow> json" where
  "first_truthy vs d = (case find_first jtruthy (List.map_filter id vs) of None \<Rightarrow> d | Some v \<Rightarrow> v)"

definition set_if :: "bool \<Rightarrow> string \<Rightarrow> json \<Rightarrow> jdict \<Rightarrow> jdict" where
  "set_if b k v d = (if b then dict_set k v d else d)"

definition resolved_entry :: "string \<Rightarrow> string \<Rightarrow> jdict \<Rightarrow> jdict \<Rightarrow> jdict" where
  "resolved_entry provider_name model_id provider entry =
     (let api = first_truthy [dict_get entry ''api_type'', dict_get provider ''api_type''] (JStr ''completions'');
          base = [(''provider'', JStr provider_name), (''model'', JStr model_id),
                  (''api_key'', get_or provider ''api_key'' (JStr [])),
                  (''api_base'', get_or provider ''api_base'' (JStr [])),
                  (''api_type'', if is_str api then api else JStr ''completions''),
                  (''reasoning_effort'', get_or entry ''reasoning_effort'' (JStr [])),
                  (''vision'', JBool (jtruthy (get_or entry ''vision'' (JBool False))))];
          window = get_or entry ''context_window'' JNull;
          max_output = get_or entry ''max_output'' JNull;
          efforts = get_or entry ''reasoning_effort_values'' JNull
      in set_if (case efforts of JList _ \<Rightarrow> True | _ \<Rightarrow> False) ''reasoning_effort_values'' (JList (str_items efforts))
        (set_if (is_positive_int max_output) ''max_output'' max_output
          (set_if (is_positive_int window) ''context_window'' window base)))"

definition model_entry_of :: "jdict \<Rightarrow> string \<Rightarrow> jdict option" where
  "model_entry_of provider model_id =
     (case dict_get provider ''models'' of
        Some (JList models) \<Rightarrow>
          find_first (\<lambda>d. dict_get d ''id'' = Some (JStr model_id))
            (List.map_filter (\<lambda>j. case j of JObj d \<Rightarrow> Some d | _ \<Rightarrow> None) models)
      | _ \<Rightarrow> None)"

definition resolve_llm :: "jdict \<Rightarrow> string \<Rightarrow> string \<Rightarrow> jdict option result" where
  "resolve_llm config provider_name model_id =
     (if provider_name = [] \<or> model_id = [] then Inr None
      else case get_or config ''providers'' (JObj []) of
        JObj providers \<Rightarrow>
          (case get_or providers provider_name (JObj []) of
             JObj provider \<Rightarrow> Inr (map_option (resolved_entry provider_name model_id provider)
               (model_entry_of provider model_id))
           | _ \<Rightarrow> Inr None)
      | _ \<Rightarrow> Inl AttributeError)"

section \<open>The route table\<close>

record registration =
  rg_providers :: "string list"
  rg_factory :: nat
  rg_disposed :: bool

record llm_service =
  ls_adapters :: "(string, nat) dict"
  ls_registrations :: "registration list"
  ls_prepared :: "nat set"
  ls_updates :: "(string \<times> string list) list"

definition new_llm_service :: llm_service where
  "new_llm_service = \<lparr>ls_adapters = [], ls_registrations = [], ls_prepared = {}, ls_updates = []\<rparr>"

definition INVALID_ADAPTER :: exn where "INVALID_ADAPTER = ServiceError ''INVALID_ADAPTER''"
definition DUPLICATE_ADAPTER :: exn where "DUPLICATE_ADAPTER = ServiceError ''DUPLICATE_ADAPTER''"

definition bad_names :: "string list \<Rightarrow> bool" where
  "bad_names names \<longleftrightarrow> names = [] \<or> list_ex (\<lambda>n. py_strip n = []) names"

definition routed :: "llm_service \<Rightarrow> string \<Rightarrow> bool" where
  "routed s p \<longleftrightarrow> dict_get (ls_adapters s) p \<noteq> None"

definition set_routes :: "string list \<Rightarrow> nat \<Rightarrow> (string, nat) dict \<Rightarrow> (string, nat) dict" where
  "set_routes names f t = fold (\<lambda>p. dict_set p f) names t"

definition drop_routes :: "string list \<Rightarrow> nat \<Rightarrow> (string, nat) dict \<Rightarrow> (string, nat) dict" where
  "drop_routes names f t =
     fold (\<lambda>p u. if dict_get u p = Some f then dict_pop p u else u) names t"

definition queue_update :: "string \<Rightarrow> string list \<Rightarrow> llm_service \<Rightarrow> llm_service" where
  "queue_update op names s = s\<lparr>ls_updates := ls_updates s @ [(op, dedupe names)]\<rparr>"

text \<open>The new registration is the last of the list.\<close>

definition register_adapter :: "string list \<Rightarrow> nat \<Rightarrow> llm_service \<Rightarrow> llm_service result" where
  "register_adapter providers f s =
     (let names = dedupe providers
      in if bad_names names then Inl INVALID_ADAPTER
         else if list_ex (routed s) names then Inl DUPLICATE_ADAPTER
         else Inr (queue_update ''register'' names
           (s\<lparr>ls_adapters := set_routes names f (ls_adapters s),
              ls_registrations := ls_registrations s @
                [\<lparr>rg_providers = names, rg_factory = f, rg_disposed = False\<rparr>]\<rparr>)))"

definition owned_routes :: "registration \<Rightarrow> llm_service \<Rightarrow> string list" where
  "owned_routes r s = filter (\<lambda>p. dict_get (ls_adapters s) p = Some (rg_factory r)) (rg_providers r)"

definition dispose_adapter :: "nat \<Rightarrow> llm_service \<Rightarrow> llm_service \<times> bool" where
  "dispose_adapter i s =
     (let r = ls_registrations s ! i
      in if rg_disposed r then (s, False)
         else let s' = s\<lparr>ls_registrations := (ls_registrations s)[i := r\<lparr>rg_disposed := True\<rparr>],
                         ls_adapters := drop_routes (rg_providers r) (rg_factory r) (ls_adapters s)\<rparr>
           in (if owned_routes r s = [] then s' else queue_update ''dispose'' (owned_routes r s) s', True))"

definition replace_adapter :: "nat \<Rightarrow> string list \<Rightarrow> llm_service \<Rightarrow> (llm_service \<times> bool) result" where
  "replace_adapter i providers s =
     (let r = ls_registrations s ! i; target = dedupe providers
      in if rg_disposed r then Inr (s, False)
         else if bad_names target then Inl INVALID_ADAPTER
         else if list_ex (\<lambda>p. routed s p \<and> p \<notin> set (rg_providers r)) target then Inl DUPLICATE_ADAPTER
         else Inr (queue_update ''replace'' target
           (s\<lparr>ls_adapters := set_routes target (rg_factory r)
                (drop_routes (rg_providers r) (rg_factory r) (ls_adapters s)),
              ls_registrations := (ls_registrations s)[i := r\<lparr>rg_providers := target\<rparr>]\<rparr>), True))"

definition list_providers :: "llm_service \<Rightarrow> string list" where
  "list_providers s = map fst (ls_adapters s)"

text \<open>Shutting down cancels the prepared calls and empties both tables.\<close>

definition close_llm_service :: "llm_service \<Rightarrow> llm_service \<times> nat set" where
  "close_llm_service s = (s\<lparr>ls_prepared := {}, ls_adapters := []\<rparr>, ls_prepared s)"

section \<open>Preparing and running a call\<close>

record model_info =
  mi_max_output :: "json option"
  mi_effort_values :: "string list"

definition positive_int :: "json option \<Rightarrow> json option" where
  "positive_int v = (case v of None \<Rightarrow> None | Some j \<Rightarrow> if is_positive_int j then Some j else None)"

definition model_info_of :: "jdict \<Rightarrow> model_info result" where
  "model_info_of vals =
     bind_r (case dict_get vals ''reasoning_effort_values'' of None \<Rightarrow> Inr [] | Some v \<Rightarrow> iter_json v)
       (\<lambda>items. Inr \<lparr>mi_max_output = positive_int (dict_get vals ''max_output''),
          mi_effort_values = List.map_filter (\<lambda>j. case j of JStr s \<Rightarrow> Some s | _ \<Rightarrow> None) items\<rparr>)"

record prepared_call =
  pc_id :: nat
  pc_config :: llm_call_config
  pc_adapter :: adapter
  pc_used :: bool

text \<open>
  What the service uses of its surroundings: the credential lookup and the factories.
\<close>

record llm_host =
  lh_lib :: pylib
  lh_resolve :: "string \<Rightarrow> string \<Rightarrow> jdict result"
  lh_make :: "nat \<Rightarrow> adapter_args \<Rightarrow> adapter result"

definition route_of :: "pylib \<Rightarrow> llm_call_config \<Rightarrow> jdict \<Rightarrow> string" where
  "route_of L c vals =
     str_or (opt_str (lc_api_type c)) (str_or_default L (dict_get vals ''api_type'') (lc_provider c))"

definition effective_config :: "string \<Rightarrow> model_info \<Rightarrow> llm_call_config \<Rightarrow> llm_call_config" where
  "effective_config route info c =
     c\<lparr>lc_api_type := Some route,
       lc_max_tokens := (case lc_max_tokens c of None \<Rightarrow> mi_max_output info | Some m \<Rightarrow> Some m)\<rparr>"

definition unsupported_effort :: "model_info \<Rightarrow> llm_call_config \<Rightarrow> bool" where
  "unsupported_effort info c \<longleftrightarrow> none_if_empty (lc_reasoning_effort c) \<noteq> None \<and>
     mi_effort_values info \<noteq> [] \<and> opt_str (lc_reasoning_effort c) \<notin> set (mi_effort_values info)"

definition credentials_of :: "pylib \<Rightarrow> jdict \<Rightarrow> llm_credentials option \<Rightarrow> llm_credentials" where
  "credentials_of L vals given = (case given of Some c \<Rightarrow> c
     | None \<Rightarrow> \<lparr>cr_api_key = py_str L (get_or vals ''api_key'' (JStr [])),
                cr_api_base = py_str L (get_or vals ''api_base'' (JStr []))\<rparr>)"

definition adapter_args_of :: "llm_call_config \<Rightarrow> llm_credentials \<Rightarrow> adapter_args" where
  "adapter_args_of c cr = \<lparr>aa_model = lc_model c, aa_api_key = cr_api_key cr,
     aa_api_base = cr_api_base cr, aa_api_type = lc_api_type c, aa_max_tokens = lc_max_tokens c,
     aa_reasoning_effort = opt_str (lc_reasoning_effort c)\<rparr>"

definition make_adapter :: "llm_host \<Rightarrow> nat \<Rightarrow> adapter_args \<Rightarrow> adapter result" where
  "make_adapter H f args = (case lh_make H f args of
     Inr a \<Rightarrow> Inr a
   | Inl (ServiceError c) \<Rightarrow> Inl (ServiceError c)
   | Inl _ \<Rightarrow> Inl INVALID_ADAPTER)"

definition add_prepared ::
  "llm_call_config \<Rightarrow> adapter \<Rightarrow> llm_service \<Rightarrow> llm_service \<times> prepared_call" where
  "add_prepared c a s =
     (let i = Suc (Max (insert 0 (ls_prepared s)))
      in (s\<lparr>ls_prepared := insert i (ls_prepared s)\<rparr>,
          \<lparr>pc_id = i, pc_config = c, pc_adapter = a, pc_used = False\<rparr>))"

definition prepare_call ::
  "llm_host \<Rightarrow> llm_service \<Rightarrow> llm_call_config \<Rightarrow> llm_credentials option \<Rightarrow> bool \<Rightarrow>
   (llm_service \<times> prepared_call) result" where
  "prepare_call H s c given cancelled =
     (if cancelled then Inl (ServiceError ''ABORTED'')
      else bind_r (lh_resolve H (lc_provider c) (lc_model c)) (\<lambda>vals.
        let route = route_of (lh_lib H) c vals
        in case dict_get (ls_adapters s) route of
             None \<Rightarrow> Inl (ServiceError ''NO_ADAPTER'')
           | Some f \<Rightarrow> bind_r (model_info_of vals) (\<lambda>info.
               let effective = effective_config route info c;
                   supplied = credentials_of (lh_lib H) vals given
               in if unsupported_effort info effective
                  then Inl (ServiceError ''UNSUPPORTED_REASONING_EFFORT'')
                  else if cr_api_key supplied = [] then Inl (ServiceError ''MISSING_CREDENTIAL'')
                  else bind_r (make_adapter H f (adapter_args_of effective supplied))
                    (\<lambda>a. Inr (add_prepared effective a s)))))"

definition runtime_error :: provider_exn where
  "runtime_error = \<lparr>px_classes = [''RuntimeError''], px_code = None, px_status = None,
     px_response_status = None, px_text = ''PreparedLlmCall.stream() can only be called once''\<rparr>"

text \<open>
  A prepared call runs once, with the configuration it was prepared for, and leaves the set of
  calls to cancel at shutdown when its stream is over.
\<close>

definition prepared_stream ::
  "llm_service \<Rightarrow> prepared_call \<Rightarrow> llm_request \<Rightarrow> llm_service \<times> prepared_call \<times> chunk_stream" where
  "prepared_stream s pc q =
     (if pc_used pc then (s, pc, ([], Some (ROther runtime_error)))
      else (s\<lparr>ls_prepared := ls_prepared s - {pc_id pc}\<rparr>, pc\<lparr>pc_used := True\<rparr>,
            pc_adapter pc (q\<lparr>lq_config := pc_config pc\<rparr>)))"

section \<open>Who owns a route\<close>

datatype route_op =
    Register "string list" nat
  | Dispose nat
  | Replace nat "string list"

text \<open>An operation of a caller that holds registration \<open>i\<close>; a raise changes nothing.\<close>

fun route_step :: "llm_service \<Rightarrow> route_op \<Rightarrow> llm_service" where
  "route_step s (Register names f) = (case register_adapter names f s of Inl e \<Rightarrow> s | Inr s' \<Rightarrow> s')"
| "route_step s (Dispose i) = (if i < length (ls_registrations s) then fst (dispose_adapter i s) else s)"
| "route_step s (Replace i names) =
     (if i < length (ls_registrations s)
      then case replace_adapter i names s of Inl e \<Rightarrow> s | Inr (s', ok) \<Rightarrow> s' else s)"

inductive routes_reachable :: "llm_service \<Rightarrow> bool" where
  start: "routes_reachable new_llm_service"
| step: "routes_reachable s \<Longrightarrow> routes_reachable (route_step s op)"

definition owns :: "llm_service \<Rightarrow> nat \<Rightarrow> string \<Rightarrow> bool" where
  "owns s i p \<longleftrightarrow> i < length (ls_registrations s) \<and> \<not> rg_disposed (ls_registrations s ! i) \<and>
     p \<in> set (rg_providers (ls_registrations s ! i))"

definition routes_ok :: "llm_service \<Rightarrow> bool" where
  "routes_ok s \<longleftrightarrow>
     (\<forall>p. routed s p \<longrightarrow> (\<exists>i. owns s i p)) \<and>
     (\<forall>i p. owns s i p \<longrightarrow> dict_get (ls_adapters s) p = Some (rg_factory (ls_registrations s ! i))) \<and>
     (\<forall>i j p. owns s i p \<longrightarrow> owns s j p \<longrightarrow> i = j)"

lemma get_set_routes [simp]:
  "dict_get (set_routes names f t) p = (if p \<in> set names then Some f else dict_get t p)"
  unfolding set_routes_def by (induction names arbitrary: t) auto

lemma get_drop_routes [simp]:
  "dict_get (drop_routes names f t) p =
     (if p \<in> set names \<and> dict_get t p = Some f then None else dict_get t p)"
  unfolding drop_routes_def by (induction names arbitrary: t) auto

lemma queue_update_simps [simp]:
  "ls_adapters (queue_update op names s) = ls_adapters s"
  "ls_registrations (queue_update op names s) = ls_registrations s"
  by (simp_all add: queue_update_def)

lemma owns_queue_update [simp]: "owns (queue_update op names s) i p = owns s i p"
  by (simp add: owns_def)

lemma routes_ok_register:
  assumes ok: "routes_ok s" and r: "register_adapter names f s = Inr s'"
  shows "routes_ok s'"
proof -
  have fresh: "\<not> routed s p" if "p \<in> set (dedupe names)" for p
    using r that by (auto simp: register_adapter_def Let_def list_ex_iff split: if_splits)
  have ad: "dict_get (ls_adapters s') p = (if p \<in> set names then Some f else dict_get (ls_adapters s) p)"
    and rg: "ls_registrations s' = ls_registrations s @
      [\<lparr>rg_providers = dedupe names, rg_factory = f, rg_disposed = False\<rparr>]" for p
    using r by (auto simp: register_adapter_def Let_def split: if_splits)
  have ow: "owns s' i p \<longleftrightarrow> owns s i p \<or> i = length (ls_registrations s) \<and> p \<in> set names" for i p
    by (auto simp: owns_def rg nth_append less_Suc_eq)
  have no: "\<not> owns s i p" if "p \<in> set names" for i p
  proof
    assume "owns s i p"
    then have "routed s p" using ok by (auto simp: routes_ok_def routed_def)
    then show False using fresh [of p] that by simp
  qed
  have old: "ls_registrations s' ! i = ls_registrations s ! i" if "owns s i p" for i p
    using that by (simp add: owns_def rg nth_append)
  show ?thesis unfolding routes_ok_def
  proof (intro conjI allI impI)
    fix p assume "routed s' p"
    then show "\<exists>i. owns s' i p" using ok by (auto simp: routed_def ad ow routes_ok_def split: if_splits)
  next
    fix i p assume "owns s' i p"
    then show "dict_get (ls_adapters s') p = Some (rg_factory (ls_registrations s' ! i))"
      using ok no old by (auto simp: ow ad rg routes_ok_def)
  next
    fix i j p assume "owns s' i p" and "owns s' j p"
    then show "i = j" using ok no by (auto simp: ow routes_ok_def)
  qed
qed


lemma routes_okD:
  assumes "routes_ok s"
  shows "routed s p \<Longrightarrow> \<exists>i. owns s i p"
    and "owns s i p \<Longrightarrow> dict_get (ls_adapters s) p = Some (rg_factory (ls_registrations s ! i))"
    and "owns s i p \<Longrightarrow> owns s j p \<Longrightarrow> i = j"
  using assms unfolding routes_ok_def by blast+

text \<open>A table in which only the routes of registration \<open>i\<close> changed.\<close>

lemma routes_ok_update:
  assumes ok: "routes_ok s" and i: "i < length (ls_registrations s)"
    and live: "\<not> rg_disposed (ls_registrations s ! i)"
    and rg: "ls_registrations s' = (ls_registrations s)[i := r]"
    and same: "rg_factory r = rg_factory (ls_registrations s ! i)"
    and mine: "\<And>p. \<not> rg_disposed r \<Longrightarrow> p \<in> set (rg_providers r) \<Longrightarrow>
      dict_get (ls_adapters s') p = Some (rg_factory r) \<and> (routed s p \<longrightarrow> owns s i p)"
    and gone: "\<And>p. owns s i p \<Longrightarrow> rg_disposed r \<or> p \<notin> set (rg_providers r) \<Longrightarrow>
      dict_get (ls_adapters s') p = None"
    and other: "\<And>p. \<not> owns s i p \<Longrightarrow> rg_disposed r \<or> p \<notin> set (rg_providers r) \<Longrightarrow>
      dict_get (ls_adapters s') p = dict_get (ls_adapters s) p"
  shows "routes_ok s'"
proof -
  let ?new = "\<lambda>p. \<not> rg_disposed r \<and> p \<in> set (rg_providers r)"
  have ow: "owns s' j p \<longleftrightarrow> (if j = i then ?new p else owns s j p)" for j p
    using i by (auto simp: owns_def rg)
  have clash: "\<not> owns s j p" if "?new p" "j \<noteq> i" for j p
  proof
    assume o: "owns s j p"
    then have "routed s p" using routes_okD(2) [OF ok o] by (simp add: routed_def)
    then have "owns s i p" using mine that by blast
    then show False using routes_okD(3) [OF ok o] that by blast
  qed
  show ?thesis unfolding routes_ok_def
  proof (intro conjI allI impI)
    fix p assume rt: "routed s' p"
    show "\<exists>j. owns s' j p"
    proof (cases "?new p")
      case True
      then show ?thesis using ow by auto
    next
      case False
      then have no: "\<not> owns s i p" using gone rt by (auto simp: routed_def)
      then have "routed s p" using other False rt by (auto simp: routed_def)
      then obtain j where "owns s j p" using routes_okD(1) [OF ok] by blast
      then have "owns s' j p" using ow no by auto
      then show ?thesis by blast
    qed
  next
    fix j p assume o: "owns s' j p"
    show "dict_get (ls_adapters s') p = Some (rg_factory (ls_registrations s' ! j))"
    proof (cases "j = i")
      case True
      then show ?thesis using o ow mine i rg by auto
    next
      case False
      then have oj: "owns s j p" using o ow by simp
      then have "\<not> ?new p" using clash False by blast
      moreover have "\<not> owns s i p" using routes_okD(3) [OF ok oj] False by blast
      ultimately show ?thesis using other routes_okD(2) [OF ok oj] False rg by simp
    qed
  next
    fix j k p assume "owns s' j p" and "owns s' k p"
    then show "j = k" using ow clash routes_okD(3) [OF ok] by (metis (full_types))
  qed
qed

lemma owns_live:
  "i < length (ls_registrations s) \<Longrightarrow> \<not> rg_disposed (ls_registrations s ! i) \<Longrightarrow>
   owns s i p \<longleftrightarrow> p \<in> set (rg_providers (ls_registrations s ! i))"
  by (simp add: owns_def)

lemma dispose_tables:
  assumes "i < length (ls_registrations s)" and "\<not> rg_disposed (ls_registrations s ! i)"
    and "routes_ok s"
  shows "dict_get (ls_adapters (fst (dispose_adapter i s))) p =
      (if owns s i p then None else dict_get (ls_adapters s) p)"
    and "ls_registrations (fst (dispose_adapter i s)) =
      (ls_registrations s)[i := (ls_registrations s ! i)\<lparr>rg_disposed := True\<rparr>]"
  using assms(1,2) routes_okD(2) [OF assms(3), of i p]
  by (auto simp: dispose_adapter_def Let_def owns_live)

lemma routes_ok_dispose:
  assumes ok: "routes_ok s" and i: "i < length (ls_registrations s)"
  shows "routes_ok (fst (dispose_adapter i s))"
proof (cases "rg_disposed (ls_registrations s ! i)")
  case True
  then show ?thesis using ok by (simp add: dispose_adapter_def)
next
  case False
  show ?thesis
    by (rule routes_ok_update [OF ok i False dispose_tables(2) [OF i False ok]])
      (simp_all add: dispose_tables(1) [OF i False ok])
qed

lemma replace_tables:
  assumes r: "replace_adapter i providers s = Inr (s', True)" and i: "i < length (ls_registrations s)"
    and ok: "routes_ok s"
  shows "\<not> rg_disposed (ls_registrations s ! i)"
    and "ls_registrations s' =
      (ls_registrations s)[i := (ls_registrations s ! i)\<lparr>rg_providers := dedupe providers\<rparr>]"
    and "dict_get (ls_adapters s') p =
      (if p \<in> set providers then Some (rg_factory (ls_registrations s ! i))
       else if owns s i p then None else dict_get (ls_adapters s) p)"
    and "p \<in> set providers \<Longrightarrow> routed s p \<Longrightarrow> owns s i p"
  using r i routes_okD(2) [OF ok, of i p]
  by (auto simp: replace_adapter_def Let_def owns_def list_ex_iff split: if_splits)

lemma routes_ok_replace:
  assumes ok: "routes_ok s" and i: "i < length (ls_registrations s)"
    and r: "replace_adapter i providers s = Inr (s', b)"
  shows "routes_ok s'"
proof (cases b)
  case True
  then have r': "replace_adapter i providers s = Inr (s', True)" using r by simp
  note tables = replace_tables [OF r' i ok]
  show ?thesis
    by (rule routes_ok_update [OF ok i tables(1,2)]) (auto simp: tables(1,3,4))
next
  case False
  then show ?thesis using ok r by (auto simp: replace_adapter_def Let_def split: if_splits)
qed

lemma reachable_routes_ok: "routes_reachable s \<Longrightarrow> routes_ok s"
proof (induction rule: routes_reachable.induct)
  case start
  then show ?case by (simp add: routes_ok_def routed_def owns_def new_llm_service_def)
next
  case (step s op)
  then show ?case
    by (cases op) (auto split: sum.splits intro: routes_ok_register routes_ok_dispose routes_ok_replace)
qed

text \<open>
  Whatever plugins register, replace and dispose, in any order, each route belongs to one
  live registration and leads to its factory, and every live registration has all its routes.
\<close>

theorem routes_have_one_owner:
  assumes "routes_reachable s"
  shows "(routed s p \<longleftrightarrow> (\<exists>i. owns s i p)) \<and>
    (owns s i p \<longrightarrow> dict_get (ls_adapters s) p = Some (rg_factory (ls_registrations s ! i))) \<and>
    (owns s i p \<and> owns s j p \<longrightarrow> i = j)"
proof -
  note ok = routes_okD [OF reachable_routes_ok [OF assms]]
  show ?thesis using ok(1,2,3) by (fastforce simp: routed_def)
qed

definition sample_routes :: llm_service where
  "sample_routes = route_step (route_step new_llm_service (Register [''completions''] 1)) (Replace 0 [''chat''])"

lemma sample_routes_reachable: "routes_reachable sample_routes"
  unfolding sample_routes_def by (intro routes_reachable.intros)

lemma routes_have_one_owner_witness:
  "(\<exists>i. owns sample_routes i ''chat'') \<and> \<not> (\<exists>i. owns sample_routes i ''completions'')"
proof -
  have "routed sample_routes ''chat''" and "\<not> routed sample_routes ''completions''"
    by code_simp+
  then show ?thesis
    using routes_have_one_owner [OF sample_routes_reachable, of "''chat''"]
      routes_have_one_owner [OF sample_routes_reachable, of "''completions''"] by blast
qed

text \<open>
  Disposing or replacing a registration touches its own routes only: its old routes stop
  resolving, the new ones resolve to it at once, every other route stays, and a replacement
  that would take a route of somebody else is refused.
\<close>

theorem release_is_exact:
  assumes "routes_reachable s" and "i < length (ls_registrations s)"
    and "\<not> rg_disposed (ls_registrations s ! i)"
  shows "dict_get (ls_adapters (fst (dispose_adapter i s))) p =
      (if owns s i p then None else dict_get (ls_adapters s) p) \<and>
    (case replace_adapter i providers s of
       Inl e \<Rightarrow> bad_names (dedupe providers) \<or> (\<exists>q \<in> set providers. \<exists>j. j \<noteq> i \<and> owns s j q)
     | Inr (s', done_it) \<Rightarrow> done_it \<and> dict_get (ls_adapters s') p =
         (if p \<in> set providers then Some (rg_factory (ls_registrations s ! i))
          else if owns s i p then None else dict_get (ls_adapters s) p))"
proof -
  note ok = reachable_routes_ok [OF assms(1)]
  have b: "b" if "replace_adapter i providers s = Inr (s', b)" for s' b
    using that assms(3) by (auto simp: replace_adapter_def Let_def split: if_splits)
  have e: "bad_names (dedupe providers) \<or> (\<exists>q \<in> set providers. \<exists>j. j \<noteq> i \<and> owns s j q)"
    if "replace_adapter i providers s = Inl e" for e
    using that assms(3) routes_okD(1) [OF ok] owns_live [OF assms(2,3)]
    by (auto simp: replace_adapter_def Let_def list_ex_iff split: if_splits) metis
  show ?thesis
    using dispose_tables(1) [OF assms(2,3) ok] e b replace_tables(3) [OF _ assms(2) ok]
    by (auto split: sum.splits)
qed

lemma release_is_exact_witness:
  "\<not> routed (fst (dispose_adapter 0 sample_routes)) ''chat''"
proof -
  have "0 < length (ls_registrations sample_routes)"
    and "\<not> rg_disposed (ls_registrations sample_routes ! 0)" and "owns sample_routes 0 ''chat''"
    by code_simp+
  with release_is_exact [OF sample_routes_reachable, of 0 "''chat''" "[]"] show ?thesis
    by (simp add: routed_def)
qed

section \<open>Calls\<close>

lemma prepare_call_cases:
  assumes "prepare_call H s c given cancelled = Inr (s', pc)"
  obtains vals route f info a where "\<not> cancelled"
    and "lh_resolve H (lc_provider c) (lc_model c) = Inr vals"
    and "route = route_of (lh_lib H) c vals" and "dict_get (ls_adapters s) route = Some f"
    and "model_info_of vals = Inr info"
    and "cr_api_key (credentials_of (lh_lib H) vals given) \<noteq> []"
    and "lh_make H f (adapter_args_of (effective_config route info c)
           (credentials_of (lh_lib H) vals given)) = Inr a"
    and "(s', pc) = add_prepared (effective_config route info c) a s"
  using assms
  by (auto simp: prepare_call_def Let_def result_simps make_adapter_def
      split: if_splits option.splits sum.splits exn.splits)

lemma fresh_prepared:
  assumes "finite (ls_prepared s)"
  shows "Suc (Max (insert 0 (ls_prepared s))) \<notin> ls_prepared s"
proof
  assume "Suc (Max (insert 0 (ls_prepared s))) \<in> ls_prepared s"
  then have "Suc (Max (insert 0 (ls_prepared s))) \<le> Max (insert 0 (ls_prepared s))"
    using assms by (intro Max_ge) auto
  then show False by simp
qed

text \<open>
  A call is only prepared with credentials and with the adapter that its route leads to,
  built for the very configuration the call keeps; it runs once, with that configuration
  whatever the request says, a second run raises without reaching the adapter, and a call
  that has run is no longer among those shutdown cancels.
\<close>

theorem prepared_call_runs_once:
  assumes "prepare_call H s c given cancelled = Inr (s1, pc)" and "finite (ls_prepared s)"
    and "prepared_stream s1 pc q = (s2, pc2, out)"
  shows "(\<exists>route f args. dict_get (ls_adapters s) route = Some f \<and> lc_api_type (pc_config pc) = Some route \<and>
      lh_make H f args = Inr (pc_adapter pc) \<and> aa_api_key args \<noteq> [] \<and>
      aa_model args = lc_model c \<and> aa_max_tokens args = lc_max_tokens (pc_config pc)) \<and>
    out = pc_adapter pc (q\<lparr>lq_config := pc_config pc\<rparr>) \<and>
    ls_prepared s1 = insert (pc_id pc) (ls_prepared s) \<and> ls_prepared s2 = ls_prepared s \<and>
    prepared_stream s2 pc2 q' = (s2, pc2, ([], Some (ROther runtime_error)))"
proof -
  from assms(1) obtain vals route f info a where v:
    "dict_get (ls_adapters s) route = Some f"
    "cr_api_key (credentials_of (lh_lib H) vals given) \<noteq> []"
    "lh_make H f (adapter_args_of (effective_config route info c)
           (credentials_of (lh_lib H) vals given)) = Inr a"
    and p: "(s1, pc) = add_prepared (effective_config route info c) a s"
    by (rule prepare_call_cases)
  have pc: "pc_adapter pc = a" "pc_config pc = effective_config route info c" "\<not> pc_used pc"
    "pc_id pc = Suc (Max (insert 0 (ls_prepared s)))"
    "s1 = s\<lparr>ls_prepared := insert (pc_id pc) (ls_prepared s)\<rparr>"
    using p by (simp_all add: add_prepared_def Let_def)
  have "\<exists>route f args. dict_get (ls_adapters s) route = Some f \<and> lc_api_type (pc_config pc) = Some route \<and>
      lh_make H f args = Inr (pc_adapter pc) \<and> aa_api_key args \<noteq> [] \<and>
      aa_model args = lc_model c \<and> aa_max_tokens args = lc_max_tokens (pc_config pc)"
    using v by (intro exI [of _ route] exI [of _ f] exI conjI) (auto simp: pc effective_config_def adapter_args_of_def)
  then show ?thesis using assms(3) pc fresh_prepared [OF assms(2)]
    by (auto simp: prepared_stream_def)
qed

definition sample_lib :: pylib where
  "sample_lib = \<lparr>lib_str = (\<lambda>j. []), lib_dumps = (\<lambda>j. []), lib_digest = (\<lambda>j. []),
     lib_text_digest = (\<lambda>t. t), lib_int = (\<lambda>t. Inl ValueError), lib_dict = (\<lambda>j. Inl TypeError)\<rparr>"

definition sample_host :: llm_host where
  "sample_host = \<lparr>lh_lib = sample_lib, lh_resolve = (\<lambda>p m. Inr [(''api_key'', JStr ''k'')]),
     lh_make = (\<lambda>f args. Inr (\<lambda>q. ([FinishChunk (sample_finish ''stop'')], None)))\<rparr>"

definition sample_config :: llm_call_config where
  "sample_config = \<lparr>lc_provider = ''acme'', lc_model = ''m'', lc_api_type = Some ''chat'',
     lc_reasoning_effort = None, lc_temperature = None, lc_max_tokens = None, lc_stop = [],
     lc_timeout = Finite 120 0\<rparr>"

definition sample_request :: llm_request where
  "sample_request = \<lparr>lq_config = sample_config, lq_messages = [], lq_system = None, lq_tools = [],
     lq_session_id = ''s'', lq_turn_id = ''t'', lq_purpose = ''conversation'', lq_agent_id = ''a'',
     lq_attempt = 1, lq_max_attempts = 1\<rparr>"

lemma prepared_call_runs_once_witness:
  "\<exists>s1 pc s2 pc2. prepare_call sample_host sample_routes sample_config None False = Inr (s1, pc) \<and>
     prepared_stream s1 pc sample_request = (s2, pc2, ([FinishChunk (sample_finish ''stop'')], None)) \<and>
     prepared_stream s2 pc2 sample_request = (s2, pc2, ([], Some (ROther runtime_error)))"
proof -
  obtain s1 pc where p: "prepare_call sample_host sample_routes sample_config None False = Inr (s1, pc)"
    and a: "pc_adapter pc = (\<lambda>q. ([FinishChunk (sample_finish ''stop'')], None))"
    by (simp add: prepare_call_def sample_host_def sample_routes_def sample_config_def route_of_def
        new_llm_service_def register_adapter_def replace_adapter_def Let_def bad_names_def routed_def
        set_routes_def drop_routes_def queue_update_def py_strip_def is_blank_def model_info_of_def
        unsupported_effort_def effective_config_def credentials_of_def get_or_def py_str_def
        make_adapter_def add_prepared_def positive_int_def List.map_filter_simps)
  have f: "finite (ls_prepared sample_routes)"
    by (simp add: sample_routes_def new_llm_service_def register_adapter_def replace_adapter_def
        Let_def bad_names_def routed_def queue_update_def py_strip_def is_blank_def)
  obtain s2 pc2 out where o2: "prepared_stream s1 pc sample_request = (s2, pc2, out)"
    by (metis prod_cases3)
  from prepared_call_runs_once [OF p f o2, of sample_request] p o2 a show ?thesis by auto
qed

end
