(* ===== verification/LlmFallback.thy ===== *)
theory LlmFallback
  imports LlmService
begin

text \<open>
  The fallback package (\<open>packages/ftre-llm-fallback/src/ftre_llm_fallback/config.py\<close>,
  \<open>stream.py\<close>, \<open>plugin.py\<close>): it wraps the stream of the primary model and, when the last
  attempt fails before anything was shown, answers with one stream of a backup model.

  An asynchronous generator is the list of chunks it yields with how it ends. The backup call
  runs through the modelled service: \<open>resolve_llm\<close> of the host's configuration, then
  \<open>prepare_call\<close>, then \<open>prepared_stream\<close>.
\<close>

section \<open>Configuration\<close>

record fallback_config =
  fc_provider :: string
  fc_model :: string
  fc_errors :: "string set"
  fc_exclude_errors :: "string set"

definition fallback_enabled :: "fallback_config \<Rightarrow> bool" where
  "fallback_enabled c \<longleftrightarrow> fc_provider c \<noteq> [] \<and> fc_model c \<noteq> [] \<and> fc_errors c \<noteq> {}"

definition stripped_str :: "json option \<Rightarrow> string" where
  "stripped_str v = (case v of Some (JStr s) \<Rightarrow> py_strip s | _ \<Rightarrow> [])"

definition parse_fallback_config :: "json \<Rightarrow> fallback_config" where
  "parse_fallback_config raw =
     \<lparr>fc_provider = stripped_str (dict_get (root_of raw) ''provider''),
      fc_model = stripped_str (dict_get (root_of raw) ''model''),
      fc_errors = codes_of (dict_get (root_of raw) ''errors''),
      fc_exclude_errors = codes_of (dict_get (root_of raw) ''exclude_errors'')\<rparr>"

section \<open>When to switch\<close>

record stream_payload =
  sp_agent_id :: string
  sp_session_id :: string
  sp_turn_id :: string
  sp_messages :: "llm_message list"
  sp_tools :: "jdict list"
  sp_cancelled :: bool
  sp_attempt :: int
  sp_max_attempts :: int
  sp_purpose :: string

text \<open>The coordinates are checked when a payload is made.\<close>

definition check_payload :: "stream_payload \<Rightarrow> stream_payload result" where
  "check_payload p =
     (if sp_attempt p < 1 then Inl ValueError else if sp_max_attempts p < 1 then Inl ValueError
      else if sp_attempt p > sp_max_attempts p then Inl ValueError else Inr p)"

definition can_fallback :: "stream_payload \<Rightarrow> fallback_config \<Rightarrow> string \<Rightarrow> string \<Rightarrow> bool" where
  "can_fallback p c code message =
     (if sp_attempt p \<noteq> sp_max_attempts p \<or> sp_cancelled p \<or> \<not> fallback_enabled c then False
      else if code = [] \<or> code \<in> fc_exclude_errors c \<or>
        has_overflow_marker (py_lower (py_strip (code @ '' '' @ message))) then False
      else code \<in> fc_errors c)"

fun commits_output :: "chunk \<Rightarrow> bool" where
  "commits_output (UsageChunk u) = False"
| "commits_output (TextDelta i t) = (t \<noteq> [])"
| "commits_output (ReasoningDelta i t) = (t \<noteq> [])"
| "commits_output (ToolCallDelta i call_id name args) = (call_id \<noteq> [] \<or> name \<noteq> [] \<or> args \<noteq> [])"
| "commits_output (BlockStart i t) = True"
| "commits_output (BlockEnd i b) = True"
| "commits_output (FinishChunk r) = False"
| "commits_output (OtherChunk cls) = False"

definition failure_details :: "finish_reason \<Rightarrow> string \<times> string" where
  "failure_details r = (case fr_failure r of None \<Rightarrow> ([], [])
     | Some f \<Rightarrow> (py_lower (lf_code f), lf_message f))"

definition error_finish :: "llm_error \<Rightarrow> finish_reason" where
  "error_finish e = \<lparr>fr_kind = ''error'',
     fr_failure = Some \<lparr>lf_message = le_message e, lf_code = le_code e\<rparr>, fr_raw = [],
     fr_response_metadata = []\<rparr>"

section \<open>The primary stream\<close>

text \<open>
  How the first loop is left: the generator returns, an exception passes through, the stream
  is exhausted without a finish, or the failure is kept back and the backup is tried.
\<close>

datatype primary_end = Returns | Raises raised | Exhausted | TryBackup finish_reason

fun primary_loop ::
  "stream_payload \<Rightarrow> fallback_config \<Rightarrow> bool \<Rightarrow> chunk list \<Rightarrow> raised option \<Rightarrow>
   chunk list \<times> primary_end" where
  "primary_loop p c committed [] ending =
     (case ending of
        None \<Rightarrow> ([], Exhausted)
      | Some x \<Rightarrow>
          (case as_llm_error x of
             None \<Rightarrow> ([], Raises x)
           | Some e \<Rightarrow>
               if committed then ([], Raises x)
               else if \<not> can_fallback p c (le_code e) (le_message e) then ([], Raises x)
               else ([], TryBackup (error_finish e))))"
| "primary_loop p c committed (FinishChunk r # cs) ending =
     (if fr_kind r = ''aborted'' then ([FinishChunk r], Returns)
      else if fr_kind r = ''error''
      then (if committed \<or> \<not> can_fallback p c (fst (failure_details r)) (snd (failure_details r))
            then ([FinishChunk r], Returns) else ([], TryBackup r))
      else ([FinishChunk r], Returns))"
| "primary_loop p c committed (x # cs) ending =
     (let (out, e) = primary_loop p c (committed \<or> commits_output x) cs ending in (x # out, e))"

section \<open>The backup stream\<close>

fun json_int :: "json \<Rightarrow> bool" where
  "json_int (JInt i) = True"
| "json_int (JBool b) = True"
| "json_int j = False"

definition backup_config :: "pylib \<Rightarrow> jdict \<Rightarrow> llm_call_config result" where
  "backup_config L resolved = bind_r (dict_item resolved ''model'') (\<lambda>model.
     Inr \<lparr>lc_provider = str_or_default L (dict_get resolved ''provider'') ''backup'',
          lc_model = py_str L model,
          lc_api_type = Some (str_or_default L (dict_get resolved ''api_type'') ''completions''),
          lc_reasoning_effort = none_if_empty (Some (str_or_empty L (dict_get resolved ''reasoning_effort''))),
          lc_temperature = None,
          lc_max_tokens = (case dict_get resolved ''max_output'' of
             Some v \<Rightarrow> if json_int v then Some v else None | None \<Rightarrow> None),
          lc_stop = [], lc_timeout = Finite 120 0\<rparr>)"

definition backup_credentials :: "pylib \<Rightarrow> jdict \<Rightarrow> llm_credentials" where
  "backup_credentials L resolved =
     \<lparr>cr_api_key = str_or_empty L (dict_get resolved ''api_key''),
      cr_api_base = str_or_empty L (dict_get resolved ''api_base'')\<rparr>"

definition prepare_backup_call ::
  "llm_host \<Rightarrow> llm_service \<Rightarrow> jdict \<Rightarrow> (llm_service \<times> prepared_call) result" where
  "prepare_backup_call H s resolved = bind_r (backup_config (lh_lib H) resolved) (\<lambda>c.
     prepare_call H s c (Some (backup_credentials (lh_lib H) resolved)) False)"

definition backup_request :: "stream_payload \<Rightarrow> llm_call_config \<Rightarrow> llm_request result" where
  "backup_request p c = check_request
     \<lparr>lq_config = c, lq_messages = sp_messages p, lq_system = None, lq_tools = sp_tools p,
      lq_session_id = sp_session_id p, lq_turn_id = sp_turn_id p, lq_purpose = sp_purpose p,
      lq_agent_id = sp_agent_id p, lq_attempt = sp_attempt p, lq_max_attempts = sp_max_attempts p\<rparr>"

text \<open>
  The second loop: a failing finish is swallowed, any other finish ends the generator, and a
  stream that runs out or raises has failed. A cancellation passes through.
\<close>

datatype backup_end = BackupDone | BackupFailed | BackupCancelled

fun backup_loop :: "chunk list \<Rightarrow> raised option \<Rightarrow> chunk list \<times> backup_end" where
  "backup_loop [] ending = ([], if ending = Some RCancelled then BackupCancelled else BackupFailed)"
| "backup_loop (FinishChunk r # cs) ending =
     (if fr_kind r \<in> {''error'', ''aborted''} then backup_loop cs ending
      else ([FinishChunk r], BackupDone))"
| "backup_loop (x # cs) ending = (let (out, e) = backup_loop cs ending in (x # out, e))"

definition backup_stream ::
  "llm_host \<Rightarrow> llm_service \<Rightarrow> stream_payload \<Rightarrow> prepared_call \<Rightarrow> finish_reason \<Rightarrow>
   llm_service \<times> chunk_stream" where
  "backup_stream H s p pc primary_error =
     (case backup_request p (pc_config pc) of
        Inl e \<Rightarrow> (s, ([FinishChunk primary_error], None))
      | Inr q \<Rightarrow>
          (let (s', pc', (cs, ending)) = prepared_stream s pc q; (out, e) = backup_loop cs ending
           in (s', case e of
                 BackupDone \<Rightarrow> (out, None)
               | BackupFailed \<Rightarrow> (out @ [FinishChunk primary_error], None)
               | BackupCancelled \<Rightarrow> (out, Some RCancelled))))"

definition run_backup ::
  "llm_host \<Rightarrow> llm_service \<Rightarrow> jdict \<Rightarrow> stream_payload \<Rightarrow> fallback_config \<Rightarrow> finish_reason \<Rightarrow>
   llm_service \<times> chunk_stream" where
  "run_backup H s config p c primary_error =
     (case resolve_llm config (fc_provider c) (fc_model c) of
        Inr (Some resolved) \<Rightarrow>
          (case prepare_backup_call H s resolved of
             Inr (s', pc) \<Rightarrow> backup_stream H s' p pc primary_error
           | Inl Cancelled \<Rightarrow> (s, ([], Some RCancelled))
           | Inl _ \<Rightarrow> (s, ([FinishChunk primary_error], None)))
      | _ \<Rightarrow> (s, ([FinishChunk primary_error], None)))"

definition stream_with_fallback ::
  "llm_host \<Rightarrow> llm_service \<Rightarrow> jdict \<Rightarrow> stream_payload \<Rightarrow> fallback_config \<Rightarrow> chunk_stream \<Rightarrow>
   llm_service \<times> chunk_stream" where
  "stream_with_fallback H s config p c primary =
     (case primary_loop p c False (fst primary) (snd primary) of
        (out, Returns) \<Rightarrow> (s, (out, None))
      | (out, Exhausted) \<Rightarrow> (s, (out, None))
      | (out, Raises x) \<Rightarrow> (s, (out, Some x))
      | (out, TryBackup r) \<Rightarrow>
          (let (s', (answer, ending)) = run_backup H s config p c r in (s', (out @ answer, ending))))"

definition on_stream ::
  "llm_host \<Rightarrow> llm_service \<Rightarrow> jdict \<Rightarrow> json \<Rightarrow> stream_payload \<Rightarrow> chunk_stream \<Rightarrow>
   llm_service \<times> chunk_stream" where
  "on_stream H s config raw p primary =
     (if \<not> fallback_enabled (parse_fallback_config raw) then (s, primary)
      else stream_with_fallback H s config p (parse_fallback_config raw) primary)"

section \<open>Never two models in one answer\<close>

text \<open>What a consumer sees of a stream: everything up to the first finish.\<close>

fun up_to_finish :: "chunk list \<Rightarrow> raised option \<Rightarrow> chunk_stream" where
  "up_to_finish [] ending = ([], ending)"
| "up_to_finish (FinishChunk r # cs) ending = ([FinishChunk r], None)"
| "up_to_finish (x # cs) ending = (let (out, e) = up_to_finish cs ending in (x # out, e))"

text \<open>The failure \<open>r\<close> of the primary stream after the chunks \<open>pre\<close>, with its code.\<close>

definition fails_after :: "chunk list \<Rightarrow> chunk_stream \<Rightarrow> finish_reason \<Rightarrow> string \<Rightarrow> string \<Rightarrow> bool" where
  "fails_after pre primary r code message \<longleftrightarrow>
     (\<exists>rest. fst primary = pre @ FinishChunk r # rest \<and> fr_kind r = ''error'' \<and>
        (code, message) = failure_details r) \<or>
     (\<exists>x e. fst primary = pre \<and> snd primary = Some x \<and> as_llm_error x = Some e \<and>
        r = error_finish e \<and> code = le_code e \<and> message = le_message e)"

lemma primary_loop_cons:
  "\<not> is_finish x \<Longrightarrow> primary_loop p c committed (x # cs) ending =
     (let (out, e) = primary_loop p c (committed \<or> commits_output x) cs ending in (x # out, e))"
  by (cases x) simp_all

lemma up_to_finish_cons:
  "\<not> is_finish x \<Longrightarrow> up_to_finish (x # cs) ending =
     (let (out, e) = up_to_finish cs ending in (x # out, e))"
  by (cases x) simp_all

lemma is_finishE: "is_finish x \<Longrightarrow> (\<And>r. x = FinishChunk r \<Longrightarrow> P) \<Longrightarrow> P"
  by (cases x) simp_all

lemma primary_loop_through:
  "primary_loop p c committed cs ending = (out, k) \<Longrightarrow> (\<forall>r. k \<noteq> TryBackup r) \<Longrightarrow>
   up_to_finish cs ending = (out, case k of Raises x \<Rightarrow> Some x | _ \<Rightarrow> None)"
proof (induction cs arbitrary: committed out)
  case Nil
  then show ?case by (auto split: option.splits if_splits)
next
  case (Cons x cs)
  show ?case
  proof (cases "is_finish x")
    case True
    then show ?thesis using Cons.prems by (auto elim!: is_finishE split: if_splits)
  next
    case False
    obtain out' where "primary_loop p c (committed \<or> commits_output x) cs ending = (out', k)"
      and "out = x # out'"
      using Cons.prems False by (auto simp: primary_loop_cons split: prod.splits)
    then show ?thesis using Cons.IH Cons.prems(2) False by (simp add: up_to_finish_cons)
  qed
qed

lemma primary_loop_backup:
  "primary_loop p c committed cs ending = (pre, TryBackup r) \<Longrightarrow>
   \<not> committed \<and> (\<forall>x \<in> set pre. \<not> commits_output x \<and> \<not> is_finish x) \<and>
   (\<exists>code message. fails_after pre (cs, ending) r code message \<and> can_fallback p c code message)"
proof (induction cs arbitrary: committed pre)
  case Nil
  then show ?case by (auto simp: fails_after_def split: option.splits if_splits)
next
  case (Cons x cs)
  show ?case
  proof (cases "is_finish x")
    case True
    then obtain r' where x: "x = FinishChunk r'" by (rule is_finishE)
    then have "pre = [] \<and> r' = r \<and> fr_kind r = ''error'' \<and> \<not> committed \<and>
        can_fallback p c (fst (failure_details r)) (snd (failure_details r))"
      using Cons.prems by (auto split: if_splits)
    moreover from this have "fails_after pre (x # cs, ending) r (fst (failure_details r))
        (snd (failure_details r))" by (simp add: x fails_after_def)
    ultimately show ?thesis by (auto simp: x)
  next
    case False
    obtain pre' where l: "primary_loop p c (committed \<or> commits_output x) cs ending = (pre', TryBackup r)"
      and pre: "pre = x # pre'"
      using Cons.prems False by (auto simp: primary_loop_cons split: prod.splits)
    from Cons.IH [OF l] obtain code message where ih: "\<not> (committed \<or> commits_output x)"
      "\<forall>x \<in> set pre'. \<not> commits_output x \<and> \<not> is_finish x"
      "fails_after pre' (cs, ending) r code message" "can_fallback p c code message"
      by blast
    then have "fails_after pre (x # cs, ending) r code message"
      by (auto simp: fails_after_def pre)
    then show ?thesis using ih False pre by auto
  qed
qed

lemma can_fallback_iff: "can_fallback p c code message \<longleftrightarrow>
    sp_attempt p = sp_max_attempts p \<and> \<not> sp_cancelled p \<and> fallback_enabled c \<and> code \<noteq> [] \<and>
    code \<in> fc_errors c \<and> code \<notin> fc_exclude_errors c \<and>
    \<not> has_overflow_marker (py_lower (py_strip (code @ '' '' @ message)))"
  by (auto simp: can_fallback_def)

text \<open>
  C7: The answer comes from one model. Either the consumer sees exactly the primary stream up
  to its finish, or the primary showed nothing that commits to it, failed on the last attempt
  without a cancellation with a code the user listed and did not exclude, with no hint at a
  context overflow, and the rest of the answer is that of the backup.
\<close>

theorem fallback_never_mixes_models:
  assumes "stream_with_fallback H s config p c primary = (s', (out, ending))"
  shows "(s' = s \<and> (out, ending) = up_to_finish (fst primary) (snd primary)) \<or>
    (\<exists>pre r code message answer.
       out = pre @ answer \<and> run_backup H s config p c r = (s', (answer, ending)) \<and>
       (\<forall>x \<in> set pre. \<not> commits_output x \<and> \<not> is_finish x) \<and>
       fails_after pre primary r code message \<and>
       sp_attempt p = sp_max_attempts p \<and> \<not> sp_cancelled p \<and>
       code \<in> fc_errors c \<and> code \<notin> fc_exclude_errors c \<and>
       \<not> has_overflow_marker (py_lower (py_strip (code @ '' '' @ message))))"
proof -
  obtain o1 k where l: "primary_loop p c False (fst primary) (snd primary) = (o1, k)"
    by fastforce
  show ?thesis
  proof (cases "\<exists>r. k = TryBackup r")
    case True
    then obtain r where r: "primary_loop p c False (fst primary) (snd primary) = (o1, TryBackup r)"
      using l by auto
    obtain answer where "run_backup H s config p c r = (s', (answer, ending))" and "out = o1 @ answer"
      using assms r by (auto simp: stream_with_fallback_def split: prod.splits)
    moreover from primary_loop_backup [OF r] obtain code message where
      "\<forall>x \<in> set o1. \<not> commits_output x \<and> \<not> is_finish x"
      "fails_after o1 primary r code message" "can_fallback p c code message" by auto
    ultimately show ?thesis unfolding can_fallback_iff by blast
  next
    case False
    then have "up_to_finish (fst primary) (snd primary) =
        (o1, case k of Raises x \<Rightarrow> Some x | _ \<Rightarrow> None)"
      by (intro primary_loop_through [OF l]) auto
    moreover have "s' = s \<and> out = o1 \<and> ending = (case k of Raises x \<Rightarrow> Some x | _ \<Rightarrow> None)"
      using assms l False by (cases k) (auto simp: stream_with_fallback_def)
    ultimately show ?thesis by simp
  qed
qed

definition sample_fallback :: fallback_config where
  "sample_fallback = \<lparr>fc_provider = ''acme'', fc_model = ''m'', fc_errors = {''timeout''},
     fc_exclude_errors = {}\<rparr>"

definition sample_models :: jdict where
  "sample_models = [(''providers'', JObj [(''acme'', JObj
     [(''api_key'', JStr ''k''), (''models'', JList [JObj [(''id'', JStr ''m''), (''api_type'', JStr ''chat'')]])])])]"

definition sample_call :: stream_payload where
  "sample_call = \<lparr>sp_agent_id = ''a'', sp_session_id = ''s'', sp_turn_id = ''t'', sp_messages = [],
     sp_tools = [], sp_cancelled = False, sp_attempt = 3, sp_max_attempts = 3,
     sp_purpose = ''conversation''\<rparr>"

definition sample_failure :: "string \<Rightarrow> finish_reason" where
  "sample_failure code = \<lparr>fr_kind = ''error'', fr_failure = Some \<lparr>lf_message = ''late'', lf_code = code\<rparr>,
     fr_raw = [], fr_response_metadata = []\<rparr>"

lemma sample_failure_simps [simp]:
  "fr_kind (sample_failure code) = ''error''"
  "failure_details (sample_failure code) = (py_lower code, ''late'')"
  by (simp_all add: sample_failure_def failure_details_def)

lemma lower_timeout [simp]: "py_lower ''timeout'' = ''timeout''" "py_lower ''Timeout'' = ''timeout''"
  by code_simp+

text \<open>A service with one route whose adapter answers with the given chunks.\<close>

definition host_with :: "chunk list \<Rightarrow> llm_host" where
  "host_with cs = sample_host\<lparr>lh_make := (\<lambda>f args. Inr (\<lambda>q. (cs, None)))\<rparr>"

lemma sample_routes_simps [simp]:
  "dict_get (ls_adapters sample_routes) ''chat'' = Some 1" "ls_prepared sample_routes = {}"
  by (simp_all add: sample_routes_def new_llm_service_def register_adapter_def replace_adapter_def
      Let_def bad_names_def routed_def set_routes_def drop_routes_def queue_update_def py_strip_def
      is_blank_def)

lemma run_backup_sample:
  "run_backup (host_with cs) sample_routes sample_models sample_call sample_fallback r =
     (let (out, e) = backup_loop cs None
      in (sample_routes, case e of BackupDone \<Rightarrow> (out, None)
            | BackupFailed \<Rightarrow> (out @ [FinishChunk r], None)
            | BackupCancelled \<Rightarrow> (out, Some RCancelled)))"
  by (simp add: run_backup_def sample_models_def sample_fallback_def resolve_llm_def get_or_def
      model_entry_of_def resolved_entry_def Let_def first_truthy_def set_if_def is_str_def str_items_def
      is_positive_int_def List.map_filter_simps prepare_backup_call_def backup_config_def dict_item_def
      backup_credentials_def prepare_call_def host_with_def sample_host_def route_of_def
      str_or_default_def str_or_empty_def py_str_def model_info_of_def unsupported_effort_def
      effective_config_def credentials_of_def make_adapter_def add_prepared_def positive_int_def
      backup_stream_def backup_request_def check_request_def sample_call_def prepared_stream_def
      none_if_empty_def split: prod.splits)

lemma can_fallback_sample: "can_fallback sample_call sample_fallback ''timeout'' ''late''"
  by code_simp

lemma fallback_sample:
  "stream_with_fallback (host_with cs) sample_routes sample_models sample_call sample_fallback
     ([UsageChunk None, FinishChunk (sample_failure ''timeout'')], None) =
   (let (out, e) = backup_loop cs None
    in (sample_routes, case e of BackupDone \<Rightarrow> (UsageChunk None # out, None)
          | BackupFailed \<Rightarrow> (UsageChunk None # out @ [FinishChunk (sample_failure ''timeout'')], None)
          | BackupCancelled \<Rightarrow> (UsageChunk None # out, Some RCancelled)))"
proof -
  have "primary_loop sample_call sample_fallback False
      [UsageChunk None, FinishChunk (sample_failure ''timeout'')] None =
      ([UsageChunk None], TryBackup (sample_failure ''timeout''))"
    using can_fallback_sample by simp
  then show ?thesis
    by (simp add: stream_with_fallback_def run_backup_sample Let_def split: prod.splits backup_end.splits)
qed

lemma fallback_never_mixes_models_witness:
  "stream_with_fallback (host_with [FinishChunk (sample_finish ''stop'')]) sample_routes sample_models
     sample_call sample_fallback ([UsageChunk None, FinishChunk (sample_failure ''timeout'')], None) =
     (sample_routes, ([UsageChunk None, FinishChunk (sample_finish ''stop'')], None)) \<and>
   (\<exists>pre. [UsageChunk None, FinishChunk (sample_finish ''stop'')] = pre @ [FinishChunk (sample_finish ''stop'')] \<and>
      (\<forall>x \<in> set pre. \<not> commits_output x))"
proof -
  have f: "stream_with_fallback (host_with [FinishChunk (sample_finish ''stop'')]) sample_routes sample_models
     sample_call sample_fallback ([UsageChunk None, FinishChunk (sample_failure ''timeout'')], None) =
     (sample_routes, ([UsageChunk None, FinishChunk (sample_finish ''stop'')], None))"
    by (simp add: fallback_sample sample_finish_def)
  show ?thesis
    using fallback_never_mixes_models [OF f] f
    by (auto simp: run_backup_sample sample_finish_def)
qed

text \<open>
  When the backup breaks off in the middle of its answer, the consumer has already been
  given the partial answer, and then gets the failure of the primary. (The code's comment
  says that a partial answer of a failing backup is not passed on.)
\<close>

lemma partial_backup_is_shown:
  "stream_with_fallback (host_with [BlockStart 0 ''text'', TextDelta 0 ''par'', FinishChunk (sample_failure ''x'')])
     sample_routes sample_models sample_call sample_fallback
     ([UsageChunk None, FinishChunk (sample_failure ''timeout'')], None) =
   (sample_routes, ([UsageChunk None, BlockStart 0 ''text'', TextDelta 0 ''par'',
     FinishChunk (sample_failure ''timeout'')], None))"
  by (simp add: fallback_sample)

text \<open>
  A failure that arrives as a finish is matched against the configured codes in lower
  case, the same failure raised as an exception is matched as it is; with the code
  \<open>Timeout\<close> the first is taken over and the second is not.
\<close>

lemma raised_code_is_not_lowered:
  "snd (primary_loop sample_call sample_fallback False [FinishChunk (sample_failure ''Timeout'')] None) =
     TryBackup (sample_failure ''Timeout'') \<and>
   snd (primary_loop sample_call sample_fallback False []
     (Some (RLLM \<lparr>le_message = ''late'', le_code = ''Timeout''\<rparr>))) =
     Raises (RLLM \<lparr>le_message = ''late'', le_code = ''Timeout''\<rparr>)"
proof -
  have "\<not> can_fallback sample_call sample_fallback ''Timeout'' ''late''" by code_simp
  then show ?thesis using can_fallback_sample by simp
qed

section \<open>The protocol survives a switch\<close>

lemma obeys_protocol_snoc:
  "obeys_protocol (cs @ [c]) \<longleftrightarrow> obeys_protocol cs \<and> chunk_ok cs c"
  by (auto simp: obeys_protocol_def nth_append less_Suc_eq)

lemma obeys_protocol_Nil [simp]: "obeys_protocol []"
  by (simp add: obeys_protocol_def)

lemma obeys_protocol_prefix: "obeys_protocol (xs @ ys) \<Longrightarrow> obeys_protocol xs"
  by (induction ys rule: rev_induct) (auto simp: obeys_protocol_snoc simp flip: append_assoc)

fun is_usage :: "chunk \<Rightarrow> bool" where
  "is_usage (UsageChunk u) = True"
| "is_usage c = False"

text \<open>Chunks that commit to nothing can, in a sound stream, only be usage reports.\<close>

lemma uncommitted_is_usage:
  "obeys_protocol pre \<Longrightarrow> \<forall>x \<in> set pre. \<not> commits_output x \<and> \<not> is_finish x \<Longrightarrow>
   list_all is_usage pre \<and> block_starts pre = []"
proof (induction pre rule: rev_induct)
  case Nil
  then show ?case by simp
next
  case (snoc x pre)
  then have ih: "list_all is_usage pre" "block_starts pre = []" by (auto simp: obeys_protocol_snoc)
  then show ?case using snoc.prems
    by (cases x) (auto simp: obeys_protocol_snoc chunk_ok_def open_with_def started_def)
qed

lemma usage_neutral:
  assumes "list_all is_usage us"
  shows "block_starts us = []" and "ended (us @ cs) i = ended cs i"
    and "list_ex is_finish (us @ cs) = list_ex is_finish cs"
    and "open_of (us @ cs) i = open_of cs i" and "finish_of (us @ cs) = finish_of cs"
proof -
  have u: "\<exists>v. x = UsageChunk v" if "x \<in> set us" for x
    using assms that by (cases x) (auto simp: list_all_iff)
  show starts: "block_starts us = []" using assms
    by (induction us) (auto elim!: is_usage.elims)
  show "ended (us @ cs) i = ended cs i" using u by (fastforce simp: ended_def list_ex_iff)
  show "list_ex is_finish (us @ cs) = list_ex is_finish cs" using u by (fastforce simp: list_ex_iff)
  have pieces: "concat (map f us) = []" "fold (\<lambda>c acc. str_or (f c) acc) us [] = []"
    if "\<And>v. f (UsageChunk v) = []" for f :: "chunk \<Rightarrow> string"
    using assms that by (induction us) (auto elim!: is_usage.elims)
  show "open_of (us @ cs) i = open_of cs i"
    by (simp add: open_of_def all_pieces_def last_piece_def starts pieces)
  show "finish_of (us @ cs) = finish_of cs" using assms
    by (induction us) (auto elim!: is_usage.elims)
qed

lemma usage_chunk_ok: "list_all is_usage us \<Longrightarrow> chunk_ok (us @ cs) c = chunk_ok cs c"
  using usage_neutral(3) [of us "[]"]
  by (simp add: chunk_ok_def open_with_def started_def usage_neutral split: chunk.splits)

lemma usage_obeys: "list_all is_usage us \<Longrightarrow> obeys_protocol us"
proof (induction us rule: rev_induct)
  case (snoc x us)
  then show ?case
    using usage_neutral(3) [of us "[]"]
    by (auto simp: obeys_protocol_snoc chunk_ok_def elim!: is_usage.elims)
qed simp

lemma usage_prefix_obeys: "list_all is_usage us \<Longrightarrow> obeys_protocol (us @ cs) = obeys_protocol cs"
  by (induction cs rule: rev_induct)
    (auto simp: obeys_protocol_snoc usage_chunk_ok usage_obeys simp flip: append_assoc)

lemma usage_prefix_blocks:
  "list_all is_usage us \<Longrightarrow> all_closed (us @ cs) = all_closed cs \<and> spec_blocks (us @ cs) = spec_blocks cs"
  by (simp add: all_closed_def spec_blocks_def usage_neutral)

text \<open>
  Switching models never breaks the stream protocol: when the primary obeyed it up to its
  failure, the answer as a whole is accepted by the assembler exactly when the backup's part
  alone is, and it yields the backup's blocks.
\<close>

theorem fallback_keeps_protocol:
  assumes "obeys_protocol (fst primary)"
    and "primary_loop p c False (fst primary) (snd primary) = (pre, TryBackup r)"
    and "run_backup H s config p c r = (s', (answer, ending))"
  shows "stream_with_fallback H s config p c primary = (s', (pre @ answer, ending)) \<and>
    ((\<exists>a. feed_all (pre @ answer) = Inr a \<and> validate a = Inr ()) \<longleftrightarrow>
     (\<exists>a. feed_all answer = Inr a \<and> validate a = Inr ())) \<and>
    spec_blocks (pre @ answer) = spec_blocks answer \<and> finish_of (pre @ answer) = finish_of answer"
proof -
  from primary_loop_backup [OF assms(2)] have q: "\<forall>x \<in> set pre. \<not> commits_output x \<and> \<not> is_finish x"
    and "\<exists>rest. fst primary = pre @ rest"
    by (auto simp: fails_after_def)
  then have "obeys_protocol pre" using assms(1) obeys_protocol_prefix by metis
  then have u: "list_all is_usage pre" using q uncommitted_is_usage by blast
  show ?thesis
    unfolding accepts_iff usage_prefix_obeys [OF u] usage_neutral(3) [OF u]
    using usage_prefix_blocks [OF u, of answer] usage_neutral(5) [OF u, of answer] assms(2,3)
    by (simp add: stream_with_fallback_def)
qed

lemma fallback_keeps_protocol_witness:
  "\<exists>answer. run_backup (host_with (sample_stream ''stop'')) sample_routes sample_models sample_call
       sample_fallback (sample_failure ''timeout'') = (sample_routes, (answer, None)) \<and>
     (\<exists>a. feed_all (UsageChunk None # answer) = Inr a \<and> validate a = Inr ())"
proof -
  let ?H = "host_with (sample_stream ''stop'')"
  have b: "backup_loop (sample_stream ''stop'') None = (sample_stream ''stop'', BackupDone)"
    by (simp add: sample_stream_def sample_finish_def)
  have r: "run_backup ?H sample_routes sample_models sample_call sample_fallback
      (sample_failure ''timeout'') = (sample_routes, (sample_stream ''stop'', None))"
    by (simp add: run_backup_sample b)
  have o: "obeys_protocol (fst ([UsageChunk None, FinishChunk (sample_failure ''timeout'')], None :: raised option))"
    by (simp add: obeys_protocol_def chunk_ok_def upt_rec)
  have l: "primary_loop sample_call sample_fallback False
      (fst ([UsageChunk None, FinishChunk (sample_failure ''timeout'')], None :: raised option))
      (snd ([UsageChunk None, FinishChunk (sample_failure ''timeout'')], None :: raised option)) =
      ([UsageChunk None], TryBackup (sample_failure ''timeout''))"
    using can_fallback_sample by simp
  have a: "\<exists>a. feed_all (sample_stream ''stop'') = Inr a \<and> validate a = Inr ()"
    by (simp add: sample_stream_def sample_finish_def feed_all_def assembler_defs validate_def
        BLOCK_TYPES_def extend_call_def wire_type_agrees_def wire_type_def)
  show ?thesis using fallback_keeps_protocol [OF o l r] r a by simp
qed

end
