(* ===== verification/Reasoning.thy ===== *)
theory Reasoning
  imports LlmFallback Events
begin

text \<open>
  One reasoning action of the agent: the call of the model with its retries
  (\<open>packages/ftre-agent-runtime/src/ftre_agent_runtime/executors/reasoning.py\<close>, the result
  types of \<open>run_state.py\<close>, and \<open>append_reply_blocks\<close> of \<open>message_context.py\<close>).

  The executor is a generator of session events. \<open>run\<close> is what outlives an attempt: the
  context, the events emitted so far, the token totals; \<open>attempt\<close> is what each attempt starts
  afresh. The environment \<open>llm_env\<close> gives, for each attempt, the stream that the provider and
  its hooks produce, the answer of the \<open>llm/error\<close> hook, the cancellation flags read when the
  attempt fails, and \<open>json.loads\<close>; new ids are numbered draws of \<open>en_uuid\<close>. Tracing and log
  lines are left out, and so is the text of errors the executor makes itself.
\<close>

section \<open>Results\<close>

record tool_call =
  tc_id :: string
  tc_name :: string
  tc_input :: json

record turn_result =
  tn_text :: string
  tn_reasoning :: string
  tn_tool_calls :: "tool_call list"
  tn_finish_reason :: string
  tn_usage :: "jdict option"
  tn_error :: "llm_error option"

text \<open>\<open>Raised\<close>: a cancellation leaves the executor; \<open>NoResult\<close>: no attempt was allowed.\<close>

datatype reasoning_outcome = Result turn_result | Raised raised | NoResult

type_synonym emitted = "string option \<times> event_data"

record run =
  rn_context :: "msg list"
  rn_events :: "emitted list"
  rn_uuid :: nat
  rn_token_usage :: token_usage
  rn_last_usage :: "token_usage option"
  rn_delays :: "pyfloat list"

record attempt =
  at_assembler :: assembler
  at_text :: "string list"
  at_reasoning :: "string list"
  at_calls :: "tool_call list"
  at_finish :: string
  at_usage :: "jdict option"
  at_text_block :: "string option"
  at_thinking_block :: "string option"
  at_started :: "string set"

definition new_attempt :: attempt where
  "new_attempt = \<lparr>at_assembler = new_assembler, at_text = [], at_reasoning = [], at_calls = [],
     at_finish = ''unknown'', at_usage = None, at_text_block = None, at_thinking_block = None,
     at_started = {}\<rparr>"

record llm_env =
  en_lib :: pylib
  en_stream :: "nat \<Rightarrow> chunk_stream"
  en_error_hook :: "llm_error_payload \<Rightarrow> error_decision option result"
  en_run_cancelled :: "nat \<Rightarrow> bool"
  en_cancel_set :: "nat \<Rightarrow> bool"
  en_sleep_cancelled :: "nat \<Rightarrow> bool"
  en_loads :: "string \<Rightarrow> json option"
  en_uuid :: "nat \<Rightarrow> string"
  en_now :: string
  en_turn_id :: string
  en_retry_delay :: pyfloat

section \<open>The context\<close>

fun extend_reply :: "string \<Rightarrow> content_block list \<Rightarrow> msg list \<Rightarrow> msg list option" where
  "extend_reply i bs [] = None"
| "extend_reply i bs (m # ms) =
     (case extend_reply i bs ms of
        Some ms' \<Rightarrow> Some (m # ms')
      | None \<Rightarrow> if msg_role m = RoleAssistant \<and> msg_id m = i
          then Some (m\<lparr>msg_content := msg_content m @ bs\<rparr> # ms) else None)"

text \<open>The last assistant message with the id takes the blocks, or a new one is added.\<close>

definition append_reply_blocks :: "string \<Rightarrow> string \<Rightarrow> content_block list \<Rightarrow> msg list \<Rightarrow> msg list" where
  "append_reply_blocks now i bs context =
     (if bs = [] then context
      else case extend_reply i bs context of
        Some context' \<Rightarrow> context'
      | None \<Rightarrow> context @ [base_msg RoleAssistant DEFAULT bs i now])"

section \<open>Consuming one chunk\<close>

definition emit_event :: "string \<Rightarrow> event_data \<Rightarrow> run \<Rightarrow> run" where
  "emit_event mid d rn = rn\<lparr>rn_events := rn_events rn @ [(Some mid, d)]\<rparr>"

definition draw :: "llm_env \<Rightarrow> run \<Rightarrow> string \<times> run" where
  "draw E rn = (en_uuid E (rn_uuid rn), rn\<lparr>rn_uuid := Suc (rn_uuid rn)\<rparr>)"

definition block_for :: "llm_env \<Rightarrow> string option \<Rightarrow> run \<Rightarrow> string \<times> run" where
  "block_for E b rn = (case b of Some i \<Rightarrow> (i, rn) | None \<Rightarrow> draw E rn)"

definition assistant_chunk_event :: "string \<Rightarrow> string \<Rightarrow> string \<Rightarrow> event_data" where
  "assistant_chunk_event kind delta block = AssistantChunk
     \<lparr>ac_kind = kind, ac_delta = delta, ac_block_id = Some block, ac_tool_call_id = None\<rparr>"

text \<open>Any exception that is not an LLM error, by its class.\<close>

definition local_error :: "string \<Rightarrow> raised" where
  "local_error cls = ROther \<lparr>px_classes = [cls], px_code = None, px_status = None,
     px_response_status = None, px_text = []\<rparr>"

fun raised_of :: "exn \<Rightarrow> raised" where
  "raised_of (LLMError c) = RLLM \<lparr>le_message = [], le_code = c\<rparr>"
| "raised_of e = local_error ''Exception''"

definition text_field :: "jdict \<Rightarrow> string \<Rightarrow> string option" where
  "text_field d k = (case get_or d k (JStr []) of JStr s \<Rightarrow> Some s | _ \<Rightarrow> None)"

definition parse_arguments :: "llm_env \<Rightarrow> string \<Rightarrow> json" where
  "parse_arguments E s = (if s = [] then JObj []
     else case en_loads E s of None \<Rightarrow> JNull | Some j \<Rightarrow> j)"

definition start_event :: "string \<Rightarrow> string \<Rightarrow> json \<Rightarrow> event_data" where
  "start_event i n parsed = ToolCallStart \<lparr>tcs_tool_call_id = i, tcs_name = n,
     tcs_arguments = (case parsed of JObj d \<Rightarrow> d | _ \<Rightarrow> [])\<rparr>"

text \<open>
  A tool-call block whose id, name or arguments is not text is refused here; the code refuses
  it when it parses the arguments or builds the event.
\<close>

definition finish_call_block ::
  "llm_env \<Rightarrow> string \<Rightarrow> jdict \<Rightarrow> attempt \<times> run \<Rightarrow> raised + attempt \<times> run" where
  "finish_call_block E mid block s =
     (case (text_field block ''id'', text_field block ''name'', text_field block ''arguments'') of
        (Some i, Some n, Some args) \<Rightarrow>
          (let parsed = parse_arguments E args;
               rn = (if i \<in> at_started (fst s) then snd s
                     else emit_event mid (start_event i n parsed) (snd s))
           in Inr ((fst s)\<lparr>at_started := insert i (at_started (fst s)),
                 at_calls := at_calls (fst s) @ [\<lparr>tc_id = i, tc_name = n, tc_input = parsed\<rparr>]\<rparr>, rn))
      | _ \<Rightarrow> Inl (local_error ''TypeError''))"

definition valid_usage :: "jdict option \<Rightarrow> jdict option" where
  "valid_usage u = (case u of None \<Rightarrow> None
     | Some d \<Rightarrow> if \<forall>k \<in> {''prompt_tokens'', ''completion_tokens'', ''total_tokens''}. dict_get d k \<noteq> None
         then Some d else None)"

definition usage_of_dict :: "pylib \<Rightarrow> jdict \<Rightarrow> token_usage result" where
  "usage_of_dict L d =
     bind_r (int_or_zero L (dict_get d ''prompt_tokens'')) (\<lambda>p.
     bind_r (int_or_zero L (dict_get d ''completion_tokens'')) (\<lambda>c.
     bind_r (int_or_zero L (dict_get d ''total_tokens'')) (\<lambda>t.
       Inr \<lparr>prompt_tokens = p, completion_tokens = c, total_tokens = t\<rparr>)))"

definition add_usage :: "token_usage \<Rightarrow> token_usage \<Rightarrow> token_usage" where
  "add_usage a b = \<lparr>prompt_tokens = prompt_tokens a + prompt_tokens b,
     completion_tokens = completion_tokens a + completion_tokens b,
     total_tokens = total_tokens a + total_tokens b\<rparr>"

definition record_usage :: "pylib \<Rightarrow> jdict option \<Rightarrow> run \<Rightarrow> run result" where
  "record_usage L u rn =
     (case valid_usage u of
        None \<Rightarrow> Inr rn
      | Some d \<Rightarrow> bind_r (usage_of_dict L d) (\<lambda>x.
          Inr (rn\<lparr>rn_last_usage := Some x, rn_token_usage := add_usage (rn_token_usage rn) x\<rparr>)))"

definition failure_of_finish :: "finish_reason \<Rightarrow> llm_error" where
  "failure_of_finish r = (case fr_failure r of
     Some f \<Rightarrow> \<lparr>le_message = lf_message f, le_code = lf_code f\<rparr>
   | None \<Rightarrow> \<lparr>le_message = fr_kind r,
       le_code = (if fr_kind r = ''error'' then ''ERROR'' else ''ABORTED'')\<rparr>)"

definition react_finish ::
  "llm_env \<Rightarrow> finish_reason \<Rightarrow> attempt \<times> run \<Rightarrow> raised + attempt \<times> run" where
  "react_finish E r s =
     (if fr_kind r \<in> {''error'', ''aborted''} then Inl (RLLM (failure_of_finish r))
      else case record_usage (en_lib E) (at_usage (fst s)) (snd s) of
        Inl e \<Rightarrow> Inl (raised_of e)
      | Inr rn \<Rightarrow> Inr ((fst s)\<lparr>at_finish := fr_kind r\<rparr>, rn))"

definition block_kind :: "jdict \<Rightarrow> string" where
  "block_kind d = (case dict_get d ''type'' of Some (JStr s) \<Rightarrow> s | _ \<Rightarrow> [])"

text \<open>What the executor does with a chunk the assembler has taken.\<close>

fun react :: "llm_env \<Rightarrow> string \<Rightarrow> chunk \<Rightarrow> attempt \<times> run \<Rightarrow> raised + attempt \<times> run" where
  "react E mid (TextDelta i t) (a, rn) =
     (let (b, rn') = block_for E (at_text_block a) rn
      in Inr (a\<lparr>at_text := at_text a @ [t], at_text_block := Some b\<rparr>,
              emit_event mid (assistant_chunk_event ''text'' t b) rn'))"
| "react E mid (ReasoningDelta i t) (a, rn) =
     (let (b, rn') = block_for E (at_thinking_block a) rn
      in Inr (a\<lparr>at_reasoning := at_reasoning a @ [t], at_thinking_block := Some b\<rparr>,
              emit_event mid (assistant_chunk_event ''thinking'' t b) rn'))"
| "react E mid (BlockEnd i block) (a, rn) =
     (if block_kind block = ''tool-call'' then finish_call_block E mid block (a, rn)
      else if block_kind block = ''text'' then Inr (a\<lparr>at_text_block := None\<rparr>, rn)
      else if block_kind block = ''thinking'' then Inr (a\<lparr>at_thinking_block := None\<rparr>, rn)
      else Inr (a, rn))"
| "react E mid (UsageChunk u) (a, rn) = Inr (a\<lparr>at_usage := u\<rparr>, rn)"
| "react E mid (FinishChunk r) (a, rn) = react_finish E r (a, rn)"
| "react E mid (BlockStart i t) (a, rn) = Inr (a, rn)"
| "react E mid (ToolCallDelta i c n args) (a, rn) = Inr (a, rn)"
| "react E mid (OtherChunk cls) (a, rn) = Inr (a, rn)"

definition consume :: "llm_env \<Rightarrow> string \<Rightarrow> attempt \<times> run \<Rightarrow> chunk \<Rightarrow> raised + attempt \<times> run" where
  "consume E mid s c =
     (case feed (at_assembler (fst s)) c of
        Inl e \<Rightarrow> Inl (raised_of e)
      | Inr asm \<Rightarrow> react E mid c ((fst s)\<lparr>at_assembler := asm\<rparr>, snd s))"

text \<open>The \<open>async for\<close> loop: the state at its end, and the exception that ended it, if any.\<close>

fun consume_all ::
  "llm_env \<Rightarrow> string \<Rightarrow> attempt \<times> run \<Rightarrow> chunk list \<Rightarrow> raised option \<Rightarrow>
   (attempt \<times> run) \<times> raised option" where
  "consume_all E mid s [] ending = (s, ending)"
| "consume_all E mid s (c # cs) ending =
     (case consume E mid s c of
        Inl x \<Rightarrow> (s, Some x)
      | Inr s' \<Rightarrow> consume_all E mid s' cs ending)"

section \<open>The end of an attempt\<close>

definition thinking_blocks :: "llm_env \<Rightarrow> string \<Rightarrow> run \<Rightarrow> content_block list \<times> run" where
  "thinking_blocks E full rn =
     (if full = [] then ([], rn)
      else let (i, rn') = draw E rn in ([ThinkingB \<lparr>thb_thinking = full, thb_id = i,
        thb_created_at = en_now E, thb_finished_at = None\<rparr>], rn'))"

definition text_blocks :: "llm_env \<Rightarrow> string \<Rightarrow> run \<Rightarrow> content_block list \<times> run" where
  "text_blocks E full rn =
     (if full = [] then ([], rn)
      else let (i, rn') = draw E rn in (to_blocks i (en_now E) full, rn'))"

definition partial_blocks :: "llm_env \<Rightarrow> attempt \<Rightarrow> run \<Rightarrow> content_block list \<times> run" where
  "partial_blocks E a rn =
     (let (th, rn1) = thinking_blocks E (concat (at_reasoning a)) rn;
          (tx, rn2) = text_blocks E (concat (at_text a)) rn1
      in (th @ tx, rn2))"

text \<open>\<open>tool_call.input or {}\<close> must be a dict.\<close>

definition call_block :: "llm_env \<Rightarrow> tool_call \<Rightarrow> content_block result" where
  "call_block E c =
     bind_r (if jtruthy (tc_input c) then (case tc_input c of JObj d \<Rightarrow> Inr d | _ \<Rightarrow> Inl ValueError)
             else Inr [])
       (\<lambda>args. Inr (ToolCallB \<lparr>tcb_id = tc_id c, tcb_name = tc_name c, tcb_arguments = args,
          tcb_state = PENDING, tcb_created_at = en_now E, tcb_finished_at = None\<rparr>))"

definition append_to_context :: "llm_env \<Rightarrow> string \<Rightarrow> content_block list \<Rightarrow> run \<Rightarrow> run" where
  "append_to_context E mid bs rn =
     rn\<lparr>rn_context := append_reply_blocks (en_now E) mid bs (rn_context rn)\<rparr>"

definition kept_calls :: "attempt \<Rightarrow> tool_call list" where
  "kept_calls a = (if at_finish a = ''max-tokens'' then [] else at_calls a)"

definition turn_result_of :: "attempt \<Rightarrow> turn_result" where
  "turn_result_of a = \<lparr>tn_text = concat (at_text a), tn_reasoning = concat (at_reasoning a),
     tn_tool_calls = kept_calls a, tn_finish_reason = at_finish a, tn_usage = at_usage a,
     tn_error = None\<rparr>"

text \<open>
  The stream is over without an exception: validation, the reply blocks, the result. The ids
  drawn for blocks of a reply that fails are spent; nothing else of the run changes.
\<close>

definition succeed :: "llm_env \<Rightarrow> string \<Rightarrow> attempt \<Rightarrow> run \<Rightarrow> run \<times> (raised + turn_result)" where
  "succeed E mid a rn =
     (case validate (at_assembler a) of
        Inl e \<Rightarrow> (rn, Inl (raised_of e))
      | Inr u \<Rightarrow>
          (let (bs, rn') = partial_blocks E a rn
           in case map_r (call_block E) (kept_calls a) of
                Inl e \<Rightarrow> (rn', Inl (raised_of e))
              | Inr calls \<Rightarrow> (append_to_context E mid (bs @ calls) rn', Inr (turn_result_of a))))"

text \<open>One attempt: the state of the attempt at its end is kept for the partial answer.\<close>

definition run_attempt ::
  "llm_env \<Rightarrow> string \<Rightarrow> chunk_stream \<Rightarrow> run \<Rightarrow> attempt \<times> run \<times> (raised + turn_result)" where
  "run_attempt E mid stream rn =
     (case consume_all E mid (new_attempt, rn) (fst stream) (snd stream) of
        ((a, rn'), Some x) \<Rightarrow> (a, rn', Inl x)
      | ((a, rn'), None) \<Rightarrow> (a, succeed E mid a rn'))"

section \<open>Deciding about a failure\<close>

definition dispatch_llm_error ::
  "llm_env \<Rightarrow> nat \<Rightarrow> nat \<Rightarrow> llm_error \<Rightarrow> error_decision option result" where
  "dispatch_llm_error E k mx e =
     (if en_run_cancelled E k \<or> en_cancel_set E k then Inr None
      else case en_error_hook E \<lparr>ep_error_code = le_code e, ep_error_message = le_message e,
          ep_attempt = k, ep_max_attempts = mx\<rparr> of
        Inr d \<Rightarrow> Inr d
      | Inl Cancelled \<Rightarrow> Inl Cancelled
      | Inl _ \<Rightarrow> Inr None)"

definition should_retry :: "llm_env \<Rightarrow> nat \<Rightarrow> nat \<Rightarrow> llm_error \<Rightarrow> error_decision option \<Rightarrow> bool" where
  "should_retry E k mx e decision =
     (if k \<ge> mx \<or> en_run_cancelled E k then False
      else case decision of
        Some d \<Rightarrow> ed_action d = ''retry''
      | None \<Rightarrow> le_code e \<notin> set UNRETRYABLE_CODES \<and> \<not> k \<ge> mx)"

definition retry_delay :: "llm_env \<Rightarrow> error_decision option \<Rightarrow> pyfloat" where
  "retry_delay E decision = (case decision of
     Some d \<Rightarrow> (case ed_delay d of Some x \<Rightarrow> max_zero x | None \<Rightarrow> en_retry_delay E)
   | None \<Rightarrow> en_retry_delay E)"

definition retry_event :: "llm_env \<Rightarrow> nat \<Rightarrow> nat \<Rightarrow> llm_error \<Rightarrow> emitted" where
  "retry_event E k mx e = (None, TurnRetry \<lparr>try_turn_id = en_turn_id E, try_code = le_code e,
     try_message = le_message e, try_attempt = int k, try_max_attempts = int mx - 1\<rparr>)"

definition error_result :: "llm_error \<Rightarrow> turn_result" where
  "error_result e = \<lparr>tn_text = [], tn_reasoning = [], tn_tool_calls = [],
     tn_finish_reason = ''error'', tn_usage = None, tn_error = Some e\<rparr>"

definition keep_partial :: "llm_env \<Rightarrow> string \<Rightarrow> attempt \<Rightarrow> run \<Rightarrow> run" where
  "keep_partial E mid a rn = (let (bs, rn') = partial_blocks E a rn in append_to_context E mid bs rn')"

datatype failure_step = GiveUp run reasoning_outcome | TryAgain run

text \<open>
  The two exception branches. The blocks of a partial answer are built before the decision and
  only enter the context when there is no further attempt.
\<close>

definition on_failure ::
  "llm_env \<Rightarrow> string \<Rightarrow> nat \<Rightarrow> nat \<Rightarrow> attempt \<Rightarrow> run \<Rightarrow> raised \<Rightarrow> failure_step" where
  "on_failure E mid k mx a rn x =
     (case as_llm_error x of
        None \<Rightarrow> GiveUp (keep_partial E mid a rn) (Raised x)
      | Some e \<Rightarrow>
          (let (bs, rn1) = partial_blocks E a rn
           in case dispatch_llm_error E k mx e of
                Inl _ \<Rightarrow> GiveUp rn1 (Raised RCancelled)
              | Inr decision \<Rightarrow>
                  if \<not> should_retry E k mx e decision
                  then GiveUp (append_to_context E mid bs rn1) (Result (error_result e))
                  else let rn2 = rn1\<lparr>rn_events := rn_events rn1 @ [retry_event E k mx e],
                                     rn_delays := rn_delays rn1 @ [retry_delay E decision]\<rparr>
                    in if en_sleep_cancelled E k then GiveUp rn2 (Raised RCancelled)
                       else TryAgain rn2))"

section \<open>The retry loop\<close>

text \<open>\<open>n\<close> attempts are left of \<open>mx\<close>; the next one is number \<open>mx - n + 1\<close>.\<close>

fun retry_loop :: "llm_env \<Rightarrow> string \<Rightarrow> nat \<Rightarrow> nat \<Rightarrow> run \<Rightarrow> run \<times> reasoning_outcome" where
  "retry_loop E mid mx 0 rn = (rn, NoResult)"
| "retry_loop E mid mx (Suc n) rn =
     (case run_attempt E mid (en_stream E (mx - n)) rn of
        (a, rn', Inr r) \<Rightarrow> (rn', Result r)
      | (a, rn', Inl x) \<Rightarrow>
          (case on_failure E mid (mx - n) mx a rn' x of
             GiveUp rn'' res \<Rightarrow> (rn'', res)
           | TryAgain rn'' \<Rightarrow> retry_loop E mid mx n rn''))"

definition add_hint :: "llm_env \<Rightarrow> string \<Rightarrow> string \<Rightarrow> run \<Rightarrow> run" where
  "add_hint E mid h rn =
     (if h = [] then rn
      else let (i, rn1) = draw E rn
        in emit_event mid (HintMessage \<lparr>hd_hint = HintText h, hd_source = Some ''system''\<rparr>)
             (append_to_context E mid
               [HintB \<lparr>hb_hint = HintText h, hb_source = Some ''system'', hb_id = i,
                  hb_created_at = en_now E, hb_finished_at = Some (en_now E)\<rparr>] rn1))"

definition reason ::
  "llm_env \<Rightarrow> string \<Rightarrow> string option \<Rightarrow> int \<Rightarrow> run \<Rightarrow> run \<times> reasoning_outcome" where
  "reason E mid hint max_retries rn =
     (let mx = nat (1 + max_retries) in retry_loop E mid mx mx (add_hint E mid (opt_str hint) rn))"

section \<open>What an attempt leaves behind\<close>

fun stream_text :: "chunk list \<Rightarrow> string" where
  "stream_text [] = []"
| "stream_text (TextDelta i t # cs) = t @ stream_text cs"
| "stream_text (c # cs) = stream_text cs"

fun stream_reasoning :: "chunk list \<Rightarrow> string" where
  "stream_reasoning [] = []"
| "stream_reasoning (ReasoningDelta i t # cs) = t @ stream_reasoning cs"
| "stream_reasoning (c # cs) = stream_reasoning cs"

definition is_retry :: "emitted \<Rightarrow> bool" where
  "is_retry e = (case snd e of TurnRetry d \<Rightarrow> True | _ \<Rightarrow> False)"

definition retries :: "run \<Rightarrow> emitted list" where
  "retries rn = filter is_retry (rn_events rn)"

text \<open>Two runs that differ in nothing a failed attempt could have left behind.\<close>

definition same_record :: "run \<Rightarrow> run \<Rightarrow> bool" where
  "same_record rn rn' \<longleftrightarrow> rn_context rn' = rn_context rn \<and> retries rn' = retries rn"

lemma same_record_refl [simp]: "same_record rn rn"
  by (simp add: same_record_def)

lemma same_record_trans [trans]: "same_record a b \<Longrightarrow> same_record b c \<Longrightarrow> same_record a c"
  by (simp add: same_record_def)

lemma draw_same: "draw E rn = (i, rn') \<Longrightarrow> same_record rn rn'"
  by (auto simp: draw_def same_record_def retries_def)

lemma block_for_same: "block_for E b rn = (i, rn') \<Longrightarrow> same_record rn rn'"
  by (auto simp: block_for_def draw_same split: option.splits)

lemma emit_same:
  "same_record rn rn' \<Longrightarrow> (\<forall>x. d \<noteq> TurnRetry x) \<Longrightarrow> same_record rn (emit_event mid d rn')"
  by (cases d) (auto simp: same_record_def retries_def emit_event_def is_retry_def)

lemma record_usage_same: "record_usage L u rn = Inr rn' \<Longrightarrow> same_record rn rn'"
  by (auto simp: record_usage_def result_simps same_record_def retries_def split: option.splits)

lemma react_same: "react E mid c (a, rn) = Inr (a', rn') \<Longrightarrow> same_record rn rn'"
  by (cases c)
    (auto simp: finish_call_block_def react_finish_def Let_def assistant_chunk_event_def start_event_def
      split: prod.splits option.splits if_splits sum.splits
      intro!: emit_same dest: block_for_same record_usage_same)

lemma react_parts:
  assumes "react E mid c (a, rn) = Inr (a', rn')"
  shows "at_assembler a' = at_assembler a"
    and "concat (at_text a') = concat (at_text a) @ stream_text [c]"
    and "concat (at_reasoning a') = concat (at_reasoning a) @ stream_reasoning [c]"
  using assms
  by (cases c; force simp: finish_call_block_def react_finish_def Let_def
      split: prod.splits option.splits if_splits sum.splits)+

lemma stream_text_Cons: "stream_text (c # cs) = stream_text [c] @ stream_text cs"
  by (cases c) simp_all

lemma stream_reasoning_Cons: "stream_reasoning (c # cs) = stream_reasoning [c] @ stream_reasoning cs"
  by (cases c) simp_all

lemma consume_all_same:
  "consume_all E mid (a, rn) cs ending = ((a', rn'), how) \<Longrightarrow> same_record rn rn'"
proof (induction cs arbitrary: a rn)
  case Nil
  then show ?case by simp
next
  case (Cons c cs)
  show ?case
  proof (cases "consume E mid (a, rn) c")
    case (Inl x)
    then show ?thesis using Cons.prems by simp
  next
    case (Inr s)
    obtain a1 rn1 where s: "s = (a1, rn1)" by fastforce
    have "same_record rn rn1" using Inr s
      by (auto simp: consume_def split: sum.splits dest: react_same)
    moreover have "same_record rn1 rn'" using Cons Inr s by simp
    ultimately show ?thesis by (rule same_record_trans)
  qed
qed

lemma consume_all_ok:
  "consume_all E mid (a, rn) cs ending = ((a', rn'), None) \<Longrightarrow>
   ending = None \<and> fold_r feed (at_assembler a) cs = Inr (at_assembler a') \<and>
   concat (at_text a') = concat (at_text a) @ stream_text cs \<and>
   concat (at_reasoning a') = concat (at_reasoning a) @ stream_reasoning cs"
proof (induction cs arbitrary: a rn)
  case Nil
  then show ?case by simp
next
  case (Cons c cs)
  then obtain a1 rn1 where s: "consume E mid (a, rn) c = Inr (a1, rn1)"
    and rest: "consume_all E mid (a1, rn1) cs ending = ((a', rn'), None)"
    by (auto split: sum.splits)
  from s obtain asm where f: "feed (at_assembler a) c = Inr asm"
    and r: "react E mid c (a\<lparr>at_assembler := asm\<rparr>, rn) = Inr (a1, rn1)"
    by (auto simp: consume_def split: sum.splits)
  from Cons.IH [OF rest] react_parts [OF r] f show ?case
    by (simp add: stream_text_Cons [of c cs] stream_reasoning_Cons [of c cs])
qed

lemma blocks_same:
  "thinking_blocks E s rn = (bs, rn') \<Longrightarrow> same_record rn rn'"
  "text_blocks E s rn = (bs, rn') \<Longrightarrow> same_record rn rn'"
  by (auto simp: thinking_blocks_def text_blocks_def dest: draw_same split: if_splits prod.splits)

lemma partial_blocks_same: "partial_blocks E a rn = (bs, rn') \<Longrightarrow> same_record rn rn'"
  by (auto simp: partial_blocks_def Let_def split: prod.splits
      intro: same_record_trans dest!: blocks_same)

fun block_text :: "content_block \<Rightarrow> string" where
  "block_text (TextB b) = tb_text b"
| "block_text b = []"

fun block_thinking :: "content_block \<Rightarrow> string" where
  "block_thinking (ThinkingB b) = thb_thinking b"
| "block_thinking b = []"

definition says :: "content_block list \<Rightarrow> string \<Rightarrow> string \<Rightarrow> bool" where
  "says bs txt thinking \<longleftrightarrow> concat (map block_text bs) = txt \<and> concat (map block_thinking bs) = thinking"

lemma partial_blocks_say:
  "partial_blocks E a rn = (bs, rn') \<Longrightarrow> says bs (concat (at_text a)) (concat (at_reasoning a))"
  by (auto simp: partial_blocks_def thinking_blocks_def text_blocks_def says_def to_blocks_def
      split: prod.splits if_splits)

lemma call_blocks_silent:
  "map_r (call_block E) calls = Inr bs \<Longrightarrow> concat (map block_text bs) = [] \<and> concat (map block_thinking bs) = []"
  by (induction calls arbitrary: bs) (auto simp: result_simps call_block_def)

lemma run_attempt_failed: "run_attempt E mid stream rn = (a, rn', Inl x) \<Longrightarrow> same_record rn rn'"
  by (auto simp: run_attempt_def succeed_def Let_def
      split: prod.splits option.splits sum.splits
      dest!: consume_all_same partial_blocks_same intro: same_record_trans)

definition accepted_stream :: "chunk list \<Rightarrow> bool" where
  "accepted_stream cs \<longleftrightarrow> obeys_protocol cs \<and> all_closed cs \<and> list_ex is_finish cs"

lemma run_attempt_ok:
  assumes "run_attempt E mid stream rn = (a, rn', Inr r)"
  shows "snd stream = None \<and> accepted_stream (fst stream) \<and>
    tn_text r = stream_text (fst stream) \<and> tn_reasoning r = stream_reasoning (fst stream) \<and>
    tn_error r = None \<and> retries rn' = retries rn \<and>
    (\<exists>bs. says bs (tn_text r) (tn_reasoning r) \<and>
       rn_context rn' = append_reply_blocks (en_now E) mid bs (rn_context rn))"
proof -
  from assms obtain rn1 where c: "consume_all E mid (new_attempt, rn) (fst stream) (snd stream) = ((a, rn1), None)"
    and s: "succeed E mid a rn1 = (rn', Inr r)"
    by (auto simp: run_attempt_def split: prod.splits option.splits)
  from s obtain bs rn2 calls where v: "validate (at_assembler a) = Inr ()"
    and p: "partial_blocks E a rn1 = (bs, rn2)" and cb: "map_r (call_block E) (kept_calls a) = Inr calls"
    and rn': "rn' = append_to_context E mid (bs @ calls) rn2" and r: "r = turn_result_of a"
    by (auto simp: succeed_def Let_def split: sum.splits prod.splits)
  note ok = consume_all_ok [OF c]
  have f: "feed_all (fst stream) = Inr (at_assembler a)"
    using ok by (simp add: new_attempt_def feed_all_def)
  have same: "same_record rn rn2"
    using consume_all_same [OF c] partial_blocks_same [OF p] by (rule same_record_trans)
  have "says (bs @ calls) (tn_text r) (tn_reasoning r)"
    using partial_blocks_say [OF p] call_blocks_silent [OF cb] by (simp add: says_def r turn_result_of_def)
  moreover have "accepted_stream (fst stream)"
    using f v accepts_iff [of "fst stream"] by (auto simp: accepted_stream_def)
  moreover have "retries rn' = retries rn"
    using same by (simp add: rn' same_record_def append_to_context_def retries_def)
  moreover have "rn_context rn' = append_reply_blocks (en_now E) mid (bs @ calls) (rn_context rn)"
    using same by (simp add: rn' same_record_def append_to_context_def)
  ultimately show ?thesis using ok by (auto simp: r turn_result_of_def new_attempt_def)
qed

lemma on_failure_again:
  assumes "on_failure E mid k mx a rn x = TryAgain rn'"
  shows "rn_context rn' = rn_context rn" and "k < mx" and "\<not> en_run_cancelled E k"
    and "\<exists>e decision. as_llm_error x = Some e \<and> dispatch_llm_error E k mx e = Inr decision \<and>
      should_retry E k mx e decision \<and> retries rn' = retries rn @ [retry_event E k mx e]"
proof -
  from assms obtain e bs rn1 decision where e: "as_llm_error x = Some e"
    and p: "partial_blocks E a rn = (bs, rn1)" and d: "dispatch_llm_error E k mx e = Inr decision"
    and s: "should_retry E k mx e decision"
    and rn': "rn' = rn1\<lparr>rn_events := rn_events rn1 @ [retry_event E k mx e],
        rn_delays := rn_delays rn1 @ [retry_delay E decision]\<rparr>"
    by (auto simp: on_failure_def Let_def split: option.splits prod.splits sum.splits if_splits)
  have same: "same_record rn rn1" using p by (rule partial_blocks_same)
  show "rn_context rn' = rn_context rn" using same by (simp add: rn' same_record_def)
  show "k < mx" "\<not> en_run_cancelled E k" using s by (auto simp: should_retry_def split: if_splits)
  have "retries rn' = retries rn @ [retry_event E k mx e]"
    using same by (simp add: rn' same_record_def retries_def is_retry_def retry_event_def)
  then show "\<exists>e decision. as_llm_error x = Some e \<and> dispatch_llm_error E k mx e = Inr decision \<and>
      should_retry E k mx e decision \<and> retries rn' = retries rn @ [retry_event E k mx e]"
    using e d s by blast
qed

lemma on_failure_gives_up:
  assumes "on_failure E mid k mx a rn x = GiveUp rn' out"
  shows "out \<noteq> NoResult"
    and "out = Result r \<Longrightarrow> \<exists>e decision. as_llm_error x = Some e \<and> r = error_result e \<and>
      dispatch_llm_error E k mx e = Inr decision \<and> \<not> should_retry E k mx e decision \<and>
      retries rn' = retries rn"
  using assms
  by (auto simp: on_failure_def Let_def append_to_context_def same_record_def retries_def
      split: option.splits prod.splits sum.splits if_splits dest!: partial_blocks_same)

text \<open>How attempt \<open>k\<close>, started in \<open>rn0\<close>, ended the loop.\<close>

definition ends_loop :: "llm_env \<Rightarrow> string \<Rightarrow> nat \<Rightarrow> nat \<Rightarrow> run \<Rightarrow> run \<Rightarrow> reasoning_outcome \<Rightarrow> bool" where
  "ends_loop E mid mx k rn0 rn' out \<longleftrightarrow>
     (\<exists>a r. run_attempt E mid (en_stream E k) rn0 = (a, rn', Inr r) \<and> out = Result r) \<or>
     (\<exists>a rn1 x. run_attempt E mid (en_stream E k) rn0 = (a, rn1, Inl x) \<and>
        on_failure E mid k mx a rn1 x = GiveUp rn' out)"

lemma retry_loop_last:
  "retry_loop E mid mx n rn = (rn', out) \<Longrightarrow> 0 < n \<Longrightarrow> n \<le> mx \<Longrightarrow>
   \<exists>k rn0. mx - n < k \<and> k \<le> mx \<and> rn_context rn0 = rn_context rn \<and>
     length (retries rn0) = length (retries rn) + (k - (mx - n) - 1) \<and>
     ends_loop E mid mx k rn0 rn' out"
proof (induction n arbitrary: rn)
  case 0
  then show ?case by simp
next
  case (Suc n)
  let ?k = "mx - n"
  obtain a rn1 res where at: "run_attempt E mid (en_stream E ?k) rn = (a, rn1, res)" by (metis prod_cases3)
  have here: ?case if "ends_loop E mid mx ?k rn rn' out"
    using that Suc.prems(3) by (intro exI [of _ ?k] exI [of _ rn]) auto
  show ?case
  proof (cases res)
    case (Inr r)
    then have "rn' = rn1 \<and> out = Result r" using Suc.prems(1) at by simp
    then show ?thesis using at Inr here by (auto simp: ends_loop_def)
  next
    case (Inl x)
    show ?thesis
    proof (cases "on_failure E mid ?k mx a rn1 x")
      case (GiveUp rn2 out2)
      then have "rn' = rn2 \<and> out = out2" using Suc.prems(1) at Inl by simp
      then show ?thesis using at Inl here GiveUp by (auto simp: ends_loop_def)
    next
      case (TryAgain rn2)
      note again = on_failure_again [OF TryAgain]
      have "0 < n" using again(2) Suc.prems(3) by simp
      have "same_record rn rn1" using at Inl by (intro run_attempt_failed) simp
      then have ctx: "rn_context rn2 = rn_context rn"
        and len: "length (retries rn2) = Suc (length (retries rn))"
        using again(1,4) by (auto simp: same_record_def)
      have "retry_loop E mid mx n rn2 = (rn', out)" using Suc.prems(1) at Inl TryAgain by simp
      from Suc.IH [OF this \<open>0 < n\<close>] Suc.prems(3) obtain k rn0 where "mx - n < k" "k \<le> mx"
        "rn_context rn0 = rn_context rn2" "ends_loop E mid mx k rn0 rn' out"
        "length (retries rn0) = length (retries rn2) + (k - (mx - n) - 1)" by auto
      then show ?thesis using ctx len Suc.prems(3) by (intro exI [of _ k] exI [of _ rn0]) auto
    qed
  qed
qed

lemma add_hint_retries: "retries (add_hint E mid h rn) = retries rn"
  by (auto simp: add_hint_def draw_def emit_event_def append_to_context_def retries_def is_retry_def)

lemma reason_last:
  assumes "reason E mid hint max_retries rn = (rn', out)" and "0 \<le> max_retries"
  obtains k rn0 where "1 \<le> k" and "int k \<le> 1 + max_retries"
    and "rn_context rn0 = rn_context (add_hint E mid (opt_str hint) rn)"
    and "length (retries rn0) = length (retries rn) + (k - 1)"
    and "ends_loop E mid (nat (1 + max_retries)) k rn0 rn' out"
proof -
  have "retry_loop E mid (nat (1 + max_retries)) (nat (1 + max_retries))
      (add_hint E mid (opt_str hint) rn) = (rn', out)"
    using assms(1) by (simp only: reason_def Let_def)
  from retry_loop_last [OF this] assms(2) obtain k rn0 where "0 < k" "k \<le> nat (1 + max_retries)"
    "rn_context rn0 = rn_context (add_hint E mid (opt_str hint) rn)"
    "length (retries rn0) = length (retries rn) + (k - 1)"
    "ends_loop E mid (nat (1 + max_retries)) k rn0 rn' out"
    by (auto simp: add_hint_retries)
  then show ?thesis using assms(2) by (intro that [of k rn0]) auto
qed

text \<open>
  A successful reasoning is the answer of one attempt, whose stream obeyed the protocol and
  ran to its end: text and reasoning are those of that stream alone, and the context gains one
  group of blocks that says the same. Failed attempts before it left nothing but one retry
  event each.
\<close>

theorem success_is_one_attempt:
  assumes "reason E mid hint max_retries rn = (rn', Result r)" and "0 \<le> max_retries"
    and "tn_error r = None"
  shows "\<exists>k. 1 \<le> k \<and> int k \<le> 1 + max_retries \<and> snd (en_stream E k) = None \<and>
    accepted_stream (fst (en_stream E k)) \<and> tn_text r = stream_text (fst (en_stream E k)) \<and>
    tn_reasoning r = stream_reasoning (fst (en_stream E k)) \<and>
    length (retries rn') = length (retries rn) + (k - 1) \<and>
    (\<exists>bs. says bs (tn_text r) (tn_reasoning r) \<and>
       rn_context rn' = append_reply_blocks (en_now E) mid bs
         (rn_context (add_hint E mid (opt_str hint) rn)))"
proof -
  obtain k rn0 where k: "1 \<le> k" "int k \<le> 1 + max_retries"
    and ctx: "rn_context rn0 = rn_context (add_hint E mid (opt_str hint) rn)"
    and len: "length (retries rn0) = length (retries rn) + (k - 1)"
    and e: "ends_loop E mid (nat (1 + max_retries)) k rn0 rn' (Result r)"
    by (rule reason_last [OF assms(1,2)])
  have "\<exists>a. run_attempt E mid (en_stream E k) rn0 = (a, rn', Inr r)"
    using e on_failure_gives_up(2) [of E mid k "nat (1 + max_retries)"] assms(3)
    by (fastforce simp: ends_loop_def error_result_def)
  then obtain a where "run_attempt E mid (en_stream E k) rn0 = (a, rn', Inr r)" ..
  from run_attempt_ok [OF this] show ?thesis using k ctx len by (intro exI [of _ k]) auto
qed

definition sample_env :: "(nat \<Rightarrow> chunk_stream) \<Rightarrow> llm_env" where
  "sample_env streams = \<lparr>en_lib = sample_lib, en_stream = streams, en_error_hook = (\<lambda>p. Inr None),
     en_run_cancelled = (\<lambda>k. False), en_cancel_set = (\<lambda>k. False), en_sleep_cancelled = (\<lambda>k. False),
     en_loads = (\<lambda>s. None), en_uuid = (\<lambda>n. replicate n (CHR ''u'')), en_now = ''now'',
     en_turn_id = ''t'', en_retry_delay = Finite 1 0\<rparr>"

definition empty_run :: run where
  "empty_run = \<lparr>rn_context = [], rn_events = [], rn_uuid = 0,
     rn_token_usage = \<lparr>prompt_tokens = 0, completion_tokens = 0, total_tokens = 0\<rparr>,
     rn_last_usage = None, rn_delays = []\<rparr>"

definition hello_stream :: "chunk list" where
  "hello_stream = [BlockStart 0 ''text'', TextDelta 0 ''hel'', TextDelta 0 ''lo'',
     BlockEnd 0 [(''type'', JStr ''text'')], FinishChunk (sample_finish ''stop'')]"

text \<open>The first attempt breaks off after some text, the second one answers.\<close>

definition flaky_env :: llm_env where
  "flaky_env = sample_env (\<lambda>k. if k = 1
     then ([BlockStart 0 ''text'', TextDelta 0 ''par'', FinishChunk (sample_failure ''timeout'')], None)
     else (hello_stream, None))"

lemmas reason_eval = reason_def retry_loop.simps run_attempt_def consume_def assembler_defs
  BLOCK_TYPES_def block_for_def draw_def emit_event_def react_finish_def succeed_def validate_def
  partial_blocks_def thinking_blocks_def text_blocks_def append_to_context_def
  append_reply_blocks_def to_blocks_def on_failure_def dispatch_llm_error_def should_retry_def
  UNRETRYABLE_CODES_def error_result_def turn_result_of_def kept_calls_def record_usage_def
  valid_usage_def failure_of_finish_def block_kind_def wire_type_agrees_def wire_type_def
  new_attempt_def add_hint_def sample_env_def empty_run_def Let_def

lemma flaky_run:
  "\<exists>rn' r. reason flaky_env ''m'' None 1 empty_run = (rn', Result r) \<and> tn_error r = None \<and>
     tn_text r = ''hello''"
  by (simp add: reason_eval flaky_env_def hello_stream_def sample_finish_def sample_failure_def
      numeral_2_eq_2)

lemma success_is_one_attempt_witness:
  "\<exists>rn' r bs. reason flaky_env ''m'' None 1 empty_run = (rn', Result r) \<and>
     says bs ''hello'' [] \<and> length (retries rn') = 1 \<and>
     rn_context rn' = append_reply_blocks ''now'' ''m'' bs []"
proof -
  obtain rn' r where r: "reason flaky_env ''m'' None 1 empty_run = (rn', Result r)"
    and ok: "tn_error r = None" and said: "tn_text r = ''hello''"
    using flaky_run by blast
  from success_is_one_attempt [OF r _ ok] obtain k bs where
    k: "1 \<le> k" "int k \<le> 2" "tn_text r = stream_text (fst (en_stream flaky_env k))"
    "tn_reasoning r = stream_reasoning (fst (en_stream flaky_env k))"
    "length (retries rn') = length (retries empty_run) + (k - 1)"
    "says bs (tn_text r) (tn_reasoning r)"
    "rn_context rn' = append_reply_blocks (en_now flaky_env) ''m'' bs
       (rn_context (add_hint flaky_env ''m'' (opt_str None) empty_run))"
    by auto
  have "k = 2"
  proof (rule ccontr)
    assume "k \<noteq> 2"
    then have "k = 1" using k(1,2) by linarith
    then show False using k(3) said by (simp add: flaky_env_def sample_env_def)
  qed
  then show ?thesis using r said k
    by (auto simp: flaky_env_def sample_env_def hello_stream_def empty_run_def retries_def add_hint_def)
qed

text \<open>
  The model is asked at most \<open>1 + max_retries\<close> times and the executor always comes to an
  end with a result or a cancellation. It reports a failure only for a reason: the last
  attempt was used, the run was cancelled, the recovery hook chose not to retry, or there was
  no hook decision and the failure is one of those that never go away.
\<close>

theorem failure_is_reported_for_a_reason:
  assumes "reason E mid hint max_retries rn = (rn', out)" and "0 \<le> max_retries"
  shows "out \<noteq> NoResult \<and>
    (\<forall>r e. out = Result r \<longrightarrow> tn_error r = Some e \<longrightarrow>
       (\<exists>k decision. 1 \<le> k \<and> int k \<le> 1 + max_retries \<and>
          length (retries rn') = length (retries rn) + (k - 1) \<and>
          dispatch_llm_error E k (nat (1 + max_retries)) e = Inr decision \<and>
          (int k = 1 + max_retries \<or> en_run_cancelled E k \<or>
           (case decision of Some d \<Rightarrow> ed_action d \<noteq> ''retry''
            | None \<Rightarrow> le_code e \<in> set UNRETRYABLE_CODES))))"
proof -
  obtain k rn0 where k: "1 \<le> k" "int k \<le> 1 + max_retries"
    and len: "length (retries rn0) = length (retries rn) + (k - 1)"
    and e: "ends_loop E mid (nat (1 + max_retries)) k rn0 rn' out"
    by (rule reason_last [OF assms])
  have "out \<noteq> NoResult" using e by (auto simp: ends_loop_def dest: on_failure_gives_up(1))
  moreover have "\<exists>decision. length (retries rn') = length (retries rn) + (k - 1) \<and>
          dispatch_llm_error E k (nat (1 + max_retries)) e' = Inr decision \<and>
          (int k = 1 + max_retries \<or> en_run_cancelled E k \<or>
           (case decision of Some d \<Rightarrow> ed_action d \<noteq> ''retry''
            | None \<Rightarrow> le_code e' \<in> set UNRETRYABLE_CODES))"
    if out: "out = Result r" and err: "tn_error r = Some e'" for r e'
  proof -
    have "\<not> (\<exists>a. run_attempt E mid (en_stream E k) rn0 = (a, rn', Inr r))"
      using err run_attempt_ok by fastforce
    then obtain a rn1 x where f: "run_attempt E mid (en_stream E k) rn0 = (a, rn1, Inl x)"
      and g: "on_failure E mid k (nat (1 + max_retries)) a rn1 x = GiveUp rn' out"
      using e out by (auto simp: ends_loop_def)
    from on_failure_gives_up(2) [OF g out] err obtain decision where
      d: "dispatch_llm_error E k (nat (1 + max_retries)) e' = Inr decision"
      and n: "\<not> should_retry E k (nat (1 + max_retries)) e' decision" and "retries rn' = retries rn1"
      by (auto simp: error_result_def)
    moreover have "retries rn1 = retries rn0"
      using run_attempt_failed [OF f] by (simp add: same_record_def)
    ultimately show ?thesis using len k
      by (intro exI [of _ decision]) (auto simp: should_retry_def split: if_splits option.splits)
  qed
  ultimately show ?thesis using k by blast
qed

definition refused_env :: llm_env where
  "refused_env = sample_env (\<lambda>k. ([FinishChunk (sample_failure ''auth_error'')], None))"

lemma failure_is_reported_for_a_reason_witness:
  "\<exists>rn' r e. reason refused_env ''m'' None 3 empty_run = (rn', Result r) \<and> tn_error r = Some e \<and>
     le_code e = ''auth_error'' \<and> length (retries rn') < 3"
proof -
  have "\<exists>rn' r e. reason refused_env ''m'' None 3 empty_run = (rn', Result r) \<and> tn_error r = Some e \<and>
      le_code e = ''auth_error'' \<and> retries rn' = []"
    by (simp add: reason_eval refused_env_def sample_failure_def eval_nat_numeral retries_def)
  then obtain rn' r e where r: "reason refused_env ''m'' None 3 empty_run = (rn', Result r)"
    and e: "tn_error r = Some e" "le_code e = ''auth_error''" and "retries rn' = []" by blast
  with failure_is_reported_for_a_reason [OF r] show ?thesis by auto
qed

end
