(* ===== verification/Acting.thy ===== *)
theory Acting
  imports Reasoning "HOL-Library.Multiset"
begin

text \<open>
  Running tools (\<open>packages/ftre-agent-runtime/src/ftre_agent_runtime/tool_calls.py\<close>,
  \<open>executors/acting.py\<close>, the context updates of \<open>message_context.py\<close> and the confirmation
  handling of \<open>react_runner.py\<close>).

  What a tool does is a parameter: \<open>ta_exec\<close> gives, for a call, how \<open>ToolView.execute\<close> ends
  when its task runs, \<open>ta_lost\<close> the calls whose task dies without a result of its own (it was
  cancelled before it started), and \<open>ta_cancelled\<close> whether the gathering itself was
  cancelled. Tasks are keyed by call id, as in the code. The run keeps a log of the calls
  whose tool was really executed (\<open>ac_executed\<close>), which the code does not have: it lets a
  theorem say what happened outside.
\<close>

section \<open>Results of tools\<close>

record tool_execution =
  tx_output :: string
  tx_status :: string
  tx_error :: "string option"
  tx_metadata :: jdict
  tx_event :: "string option"

datatype exec_outcome =
    Execution tool_execution
  | NotAnExecution
  | ExecCancelled
  | ExecRaises string

text \<open>\<open>tl_event\<close> is the hint text of the event a tool returned.\<close>

record tool_outcome =
  tl_call_id :: string
  tl_name :: string
  tl_result :: string
  tl_error :: "string option"
  tl_status :: string
  tl_metadata :: jdict
  tl_event :: "string option"

record tool_env =
  ta_exec :: "tool_call \<Rightarrow> exec_outcome"
  ta_lost :: "tool_call \<Rightarrow> bool"
  ta_cancelled :: bool

definition plain_outcome :: "string \<Rightarrow> string \<Rightarrow> string \<Rightarrow> string option \<Rightarrow> string \<Rightarrow> tool_outcome" where
  "plain_outcome i n res err status = \<lparr>tl_call_id = i, tl_name = n, tl_result = res, tl_error = err,
     tl_status = status, tl_metadata = [], tl_event = None\<rparr>"

definition PARSE_ERROR_TEXT :: string where
  "PARSE_ERROR_TEXT = ''[PARSE_ERROR] Tool call arguments were malformed JSON.''"
definition CANCELLED_TEXT :: string where
  "CANCELLED_TEXT = ''[CANCELLED] Tool execution was cancelled.''"
definition INTERRUPTED_TEXT :: string where
  "INTERRUPTED_TEXT = ''[INTERRUPTED] Tool execution was interrupted.''"
definition LOST_TEXT :: string where
  "LOST_TEXT = ''[INTERRUPTED] Tool result was lost.''"
definition NOT_RESULT_TEXT :: string where
  "NOT_RESULT_TEXT = ''ToolView.execute must return ToolExecutionResult''"

definition outcome_of_execution :: "tool_call \<Rightarrow> tool_execution \<Rightarrow> tool_outcome" where
  "outcome_of_execution c x =
     (let base = \<lparr>tl_call_id = tc_id c, tl_name = tc_name c, tl_result = tx_output x,
                  tl_error = tx_error x, tl_status = tx_status x, tl_metadata = tx_metadata x,
                  tl_event = tx_event x\<rparr>
      in if tx_status x = ''cancelled'' then base\<lparr>tl_event := None\<rparr>
         else if tx_status x = ''failed''
         then base\<lparr>tl_result := str_or (tx_output x) (str_or (opt_str (tx_error x)) ''Tool failed'')\<rparr>
         else base)"

definition run_one :: "tool_env \<Rightarrow> tool_call \<Rightarrow> tool_outcome" where
  "run_one T c =
     (if tc_input c = JNull
      then plain_outcome (tc_id c) (tc_name c) PARSE_ERROR_TEXT (Some ''malformed JSON arguments'') ''failed''
      else case ta_exec T c of
        Execution x \<Rightarrow> outcome_of_execution c x
      | NotAnExecution \<Rightarrow> plain_outcome (tc_id c) (tc_name c) NOT_RESULT_TEXT (Some NOT_RESULT_TEXT) ''failed''
      | ExecCancelled \<Rightarrow> plain_outcome (tc_id c) (tc_name c) CANCELLED_TEXT None ''cancelled''
      | ExecRaises s \<Rightarrow> plain_outcome (tc_id c) (tc_name c) s (Some s) ''failed'')"

text \<open>A call reaches its tool unless its arguments did not parse or its task died first.\<close>

definition reaches_tool :: "tool_env \<Rightarrow> tool_call \<Rightarrow> bool" where
  "reaches_tool T c \<longleftrightarrow> \<not> ta_lost T c \<and> tc_input c \<noteq> JNull"

section \<open>Spawning and gathering\<close>

text \<open>\<open>tool_tasks[call.id] = spawn(call)\<close>: a later call with the same id takes the key.\<close>

definition spawn_all :: "tool_call list \<Rightarrow> (string, tool_call) dict" where
  "spawn_all calls = dict_by tc_id calls"

definition name_of_call :: "tool_call list \<Rightarrow> string \<Rightarrow> string" where
  "name_of_call calls i = (case find_first (\<lambda>c. tc_id c = i) calls of None \<Rightarrow> i | Some c \<Rightarrow> tc_name c)"

definition finished_task :: "tool_env \<Rightarrow> tool_call list \<Rightarrow> string \<times> tool_call \<Rightarrow> string \<times> tool_outcome" where
  "finished_task T calls task =
     (fst task,
      if ta_lost T (snd task)
      then plain_outcome (fst task) (name_of_call calls (fst task)) INTERRUPTED_TEXT None
        (if ta_cancelled T then ''cancelled'' else ''failed'')
      else run_one T (snd task))"

definition gather_results ::
  "tool_env \<Rightarrow> tool_call list \<Rightarrow> (string, tool_call) dict \<Rightarrow> tool_outcome list \<times> bool" where
  "gather_results T calls tasks =
     (let finished = map (finished_task T calls) tasks;
          results = map (\<lambda>c. case dict_get finished (tc_id c) of Some r \<Rightarrow> r
            | None \<Rightarrow> plain_outcome (tc_id c) (tc_name c) LOST_TEXT None ''failed'') calls
      in (results, ta_cancelled T \<or> list_ex (\<lambda>r. tl_status r = ''cancelled'') results))"

section \<open>The context\<close>

definition call_is :: "string \<Rightarrow> content_block \<Rightarrow> bool" where
  "call_is i b = (case b of ToolCallB c \<Rightarrow> tcb_id c = i | _ \<Rightarrow> False)"

definition set_block_state :: "tool_call_state \<Rightarrow> content_block \<Rightarrow> content_block" where
  "set_block_state st b = (case b of ToolCallB c \<Rightarrow> ToolCallB (c\<lparr>tcb_state := st\<rparr>) | _ \<Rightarrow> b)"

fun set_tool_call_state :: "string \<Rightarrow> tool_call_state \<Rightarrow> msg list \<Rightarrow> msg list \<times> bool" where
  "set_tool_call_state i st [] = ([], False)"
| "set_tool_call_state i st (m # ms) =
     (if list_ex (call_is i) (msg_content m)
      then (m\<lparr>msg_content := update_first (call_is i) (set_block_state st) (msg_content m)\<rparr> # ms, True)
      else let (ms', hit) = set_tool_call_state i st ms in (m # ms', hit))"

definition context_blocks :: "msg list \<Rightarrow> content_block list" where
  "context_blocks ms = concat (map msg_content ms)"

definition calls_of :: "content_block list \<Rightarrow> tool_call_block list" where
  "calls_of bs = List.map_filter (\<lambda>b. case b of ToolCallB c \<Rightarrow> Some c | _ \<Rightarrow> None) bs"

definition results_of :: "content_block list \<Rightarrow> tool_result_block list" where
  "results_of bs = List.map_filter (\<lambda>b. case b of ToolResultB r \<Rightarrow> Some r | _ \<Rightarrow> None) bs"

definition tool_calls_in_state :: "tool_call_state \<Rightarrow> msg list \<Rightarrow> tool_call_block list" where
  "tool_calls_in_state st ms = filter (\<lambda>c. tcb_state c = st) (calls_of (context_blocks ms))"

definition add_tool_result ::
  "string \<Rightarrow> string \<Rightarrow> string \<Rightarrow> string \<Rightarrow> string \<Rightarrow> tool_result_state \<Rightarrow> jdict \<Rightarrow> msg list \<Rightarrow> msg list" where
  "add_tool_result now mid i n content st meta ms = append_reply_blocks now mid
     [ToolResultB \<lparr>trb_id = i, trb_name = n, trb_output = OutputText content, trb_state = st,
        trb_metadata = meta, trb_created_at = now, trb_finished_at = None\<rparr>] ms"

section \<open>Executing a batch\<close>

record acting =
  ac_context :: "msg list"
  ac_events :: "emitted list"
  ac_uuid :: nat
  ac_executed :: "string list"

definition tell :: "string \<Rightarrow> event_data \<Rightarrow> acting \<Rightarrow> acting" where
  "tell mid d s = s\<lparr>ac_events := ac_events s @ [(Some mid, d)]\<rparr>"

definition mark :: "string \<Rightarrow> tool_call_state \<Rightarrow> acting \<Rightarrow> acting" where
  "mark i st s = s\<lparr>ac_context := fst (set_tool_call_state i st (ac_context s))\<rparr>"

definition truthy_meta :: "jdict \<Rightarrow> string \<Rightarrow> bool" where
  "truthy_meta d k = (case dict_get d k of None \<Rightarrow> False | Some v \<Rightarrow> jtruthy v)"

definition needs_approval :: "tool_outcome \<Rightarrow> bool" where
  "needs_approval r = truthy_meta (tl_metadata r) ''approval_required''"

definition str_of_meta :: "jdict \<Rightarrow> string \<Rightarrow> string option" where
  "str_of_meta d k = (case dict_get d k of Some (JStr s) \<Rightarrow> Some s | _ \<Rightarrow> None)"

definition dict_or_empty :: "json \<Rightarrow> jdict" where
  "dict_or_empty v = (case v of JObj d \<Rightarrow> d | _ \<Rightarrow> [])"

definition ask_approval :: "string \<Rightarrow> acting \<Rightarrow> tool_call \<times> tool_outcome \<Rightarrow> acting" where
  "ask_approval mid s cr = tell mid
     (ApprovalAsked \<lparr>aa_tool_call_id = tc_id (fst cr), aa_name = tc_name (fst cr),
        aa_arguments = dict_or_empty (tc_input (fst cr)),
        aa_reason = opt_str (str_of_meta (tl_metadata (snd cr)) ''reason''),
        aa_rule_id = str_of_meta (tl_metadata (snd cr)) ''rule_id''\<rparr>)
     (mark (tc_id (fst cr)) ASKING s)"

definition has_error :: "tool_outcome \<Rightarrow> bool" where
  "has_error r \<longleftrightarrow> none_if_empty (tl_error r) \<noteq> None"

definition result_text_json :: "string \<Rightarrow> json" where
  "result_text_json s = JObj [(''type'', JStr ''text''), (''text'', JStr s)]"

definition text_delta_event :: "string \<Rightarrow> string \<Rightarrow> event_data" where
  "text_delta_event i delta = AssistantChunk \<lparr>ac_kind = ''tool_result_text'', ac_delta = delta,
     ac_block_id = None, ac_tool_call_id = Some i\<rparr>"

text \<open>The fixed texts end in Chinese words, given here by their UTF-8 bytes.\<close>

definition bytes :: "nat list \<Rightarrow> string" where
  "bytes ns = map char_of ns"

definition DONE_SUFFIX :: string where
  "DONE_SUFFIX = ''] '' @ bytes [229, 183, 178, 229, 174, 140, 230, 136, 144]"

definition record_result :: "string \<Rightarrow> string \<Rightarrow> acting \<Rightarrow> tool_call \<times> tool_outcome \<Rightarrow> acting" where
  "record_result now mid s cr =
     (let c = fst cr; r = snd cr;
          s1 = mark (tc_id c) FINISHED s;
          s2 = s1\<lparr>ac_context := add_tool_result now mid (tc_id c) (tc_name c)
                 (str_or (tl_result r) (''['' @ tc_name c @ DONE_SUFFIX))
                 (if \<not> has_error r then SUCCESS else ERROR) (tl_metadata r) (ac_context s1)\<rparr>;
          s3 = (if tl_result r = [] then s2 else tell mid (text_delta_event (tc_id c) (tl_result r)) s2)
      in tell mid (ToolResult \<lparr>tr_tool_call_id = tc_id c, tr_name = tc_name c,
           tr_output = [result_text_json (tl_result r)],
           tr_state = (if has_error r then ''error'' else ''success''),
           tr_metadata = tl_metadata r\<rparr>) s3)"

datatype batch_end = BatchDone | BatchPaused | BatchCancelled

definition add_hint_block :: "llm_env \<Rightarrow> string \<Rightarrow> acting \<Rightarrow> string \<Rightarrow> acting" where
  "add_hint_block E mid s h = tell mid (HintMessage \<lparr>hd_hint = HintText h, hd_source = Some ''tool''\<rparr>)
     (s\<lparr>ac_uuid := Suc (ac_uuid s),
        ac_context := append_reply_blocks (en_now E) mid
          [HintB \<lparr>hb_hint = HintText h, hb_source = Some ''tool'', hb_id = en_uuid E (ac_uuid s),
             hb_created_at = en_now E, hb_finished_at = Some (en_now E)\<rparr>] (ac_context s)\<rparr>)"

definition announce :: "string \<Rightarrow> acting \<Rightarrow> tool_call \<Rightarrow> acting" where
  "announce mid s c = tell mid (ToolResultStart \<lparr>trs_tool_call_id = tc_id c, trs_name = tc_name c\<rparr>) s"

definition execute_calls ::
  "llm_env \<Rightarrow> tool_env \<Rightarrow> string \<Rightarrow> tool_call list \<Rightarrow> acting \<Rightarrow> acting \<times> batch_end" where
  "execute_calls E T mid calls s =
     (let s1 = foldl (announce mid) s calls;
          s2 = s1\<lparr>ac_executed := ac_executed s1 @ map tc_id (filter (reaches_tool T) calls)\<rparr>;
          (results, cancelled) = gather_results T calls (spawn_all calls);
          pairs = zip calls results;
          asking = filter (\<lambda>cr. needs_approval (snd cr)) pairs
      in if asking \<noteq> [] then (foldl (ask_approval mid) s2 asking, BatchPaused)
         else let s3 = foldl (record_result (en_now E) mid) s2 pairs;
                  s4 = foldl (add_hint_block E mid) s3 (List.map_filter tl_event results)
           in (s4, if cancelled then BatchCancelled else BatchDone))"

section \<open>Resuming after a confirmation\<close>

definition pending_calls :: "msg list \<Rightarrow> tool_call_block list" where
  "pending_calls ms =
     (let resulted = map trb_id (results_of (context_blocks ms))
      in filter (\<lambda>c. tcb_id c \<notin> set resulted) (calls_of (context_blocks ms)))"

definition call_of_block :: "tool_call_block \<Rightarrow> tool_call" where
  "call_of_block b = \<lparr>tc_id = tcb_id b, tc_name = tcb_name b, tc_input = JObj (tcb_arguments b)\<rparr>"

definition denied_text :: "string \<Rightarrow> string" where
  "denied_text n = ''[USER_DENIED] '' @
     bytes [231, 148, 168, 230, 136, 183, 230, 139, 146, 231, 187, 157, 228, 186, 134, 229, 183, 165, 229, 133, 183] @
     '' ['' @ n @ ''] '' @ bytes [231, 154, 132, 230, 137, 167, 232, 161, 140]"

definition deny_call :: "string \<Rightarrow> string \<Rightarrow> acting \<Rightarrow> tool_call \<Rightarrow> acting" where
  "deny_call now mid s c =
     (let s1 = announce mid s c;
          s2 = s1\<lparr>ac_context := add_tool_result now mid (tc_id c) (tc_name c)
                 (denied_text (tc_name c)) DENIED [] (ac_context s1)\<rparr>;
          s3 = mark (tc_id c) FINISHED s2
      in tell mid (ToolResult \<lparr>tr_tool_call_id = tc_id c, tr_name = tc_name c,
           tr_output = [result_text_json (denied_text (tc_name c))], tr_state = ''denied'',
           tr_metadata = []\<rparr>)
         (tell mid (text_delta_event (tc_id c) (denied_text (tc_name c))) s3))"

definition resume_execute ::
  "llm_env \<Rightarrow> tool_env \<Rightarrow> string \<Rightarrow> acting \<Rightarrow> acting \<times> batch_end" where
  "resume_execute E T mid s =
     (let blocks = pending_calls (ac_context s);
          calls = map call_of_block blocks;
          allowed_ids = set (map tcb_id (filter (\<lambda>b. tcb_state b = ALLOWED) blocks));
          allowed = filter (\<lambda>c. tc_id c \<in> allowed_ids) calls;
          denied = filter (\<lambda>c. tc_id c \<notin> allowed_ids) calls;
          (s1, e) = (if allowed = [] then (s, BatchDone) else execute_calls E T mid allowed s)
      in if e = BatchCancelled then (s1, e) else (foldl (deny_call (en_now E) mid) s1 denied, e))"

record confirmation =
  cf_reply_id :: string
  cf_tool_call_id :: string
  cf_approved :: bool

text \<open>The message that holds the call; \<open>owner.id\<close> becomes the current message.\<close>

definition owner_of_call :: "string \<Rightarrow> msg list \<Rightarrow> msg option" where
  "owner_of_call i ms = find_first (\<lambda>m. list_ex (call_is i) (msg_content m)) ms"

text \<open>The answer: the context, the message id, and whether nothing is awaited any more.\<close>

definition accept_confirmation ::
  "confirmation \<Rightarrow> string \<Rightarrow> msg list \<Rightarrow> (msg list \<times> string \<times> bool) result" where
  "accept_confirmation ev mid ms =
     (case find_first (\<lambda>c. tcb_id c = cf_tool_call_id ev) (calls_of (context_blocks ms)) of
        None \<Rightarrow> Inl RuntimeError
      | Some target \<Rightarrow>
          (let expected = (if cf_approved ev then ALLOWED else FINISHED);
               mid' = (case owner_of_call (cf_tool_call_id ev) ms of None \<Rightarrow> mid | Some m \<Rightarrow> msg_id m);
               settle = (\<lambda>ms'. Inr (ms', mid', tool_calls_in_state ASKING ms' = []))
           in if tcb_state target = ASKING
              then settle (fst (set_tool_call_state (cf_tool_call_id ev) expected ms))
              else if tcb_state target \<noteq> expected then Inl RuntimeError
              else settle ms))"

section \<open>One result for each call\<close>

lemma run_one_id [simp]: "tl_call_id (run_one T c) = tc_id c"
  by (simp add: run_one_def plain_outcome_def outcome_of_execution_def Let_def split: exec_outcome.splits)

lemma get_spawn_all: "dict_get (spawn_all calls) i = find_first (\<lambda>c. tc_id c = i) (rev calls)"
  by (simp add: spawn_all_def dict_by_get)

lemma dict_get_map_snd:
  "dict_get (map (\<lambda>kv. (fst kv, f (fst kv) (snd kv))) d) k = map_option (f k) (dict_get d k)"
  by (induction d) auto

definition task_outcome :: "tool_env \<Rightarrow> tool_call list \<Rightarrow> string \<Rightarrow> tool_call \<Rightarrow> tool_outcome" where
  "task_outcome T calls i c =
     (if ta_lost T c then plain_outcome i (name_of_call calls i) INTERRUPTED_TEXT None
        (if ta_cancelled T then ''cancelled'' else ''failed'')
      else run_one T c)"

lemma finished_task_eq: "finished_task T calls = (\<lambda>kv. (fst kv, task_outcome T calls (fst kv) (snd kv)))"
  by (simp add: finished_task_def task_outcome_def fun_eq_iff)

text \<open>The call whose task answers for the id of a call: the last one with that id.\<close>

definition task_call :: "tool_call list \<Rightarrow> tool_call \<Rightarrow> tool_call" where
  "task_call calls c = (case find_first (\<lambda>d. tc_id d = tc_id c) (rev calls) of Some d \<Rightarrow> d | None \<Rightarrow> c)"

lemma find_last_call:
  assumes "c \<in> set calls"
  shows "find_first (\<lambda>d. tc_id d = tc_id c) (rev calls) = Some (task_call calls c)"
    and "tc_id (task_call calls c) = tc_id c" and "task_call calls c \<in> set calls"
proof -
  have "find_first (\<lambda>d. tc_id d = tc_id c) (rev calls) \<noteq> None"
    using assms by (auto simp: find_first_None_iff)
  then show f: "find_first (\<lambda>d. tc_id d = tc_id c) (rev calls) = Some (task_call calls c)"
    by (auto simp: task_call_def)
  then show "tc_id (task_call calls c) = tc_id c" and "task_call calls c \<in> set calls"
    using find_first_Some [OF f] by simp_all
qed

lemma task_call_unique:
  "distinct (map tc_id calls) \<Longrightarrow> c \<in> set calls \<Longrightarrow> task_call calls c = c"
  using find_last_call(2,3) [of c calls] by (auto simp: distinct_map inj_on_def)

lemma gathered:
  "fst (gather_results T calls (spawn_all calls)) =
     map (\<lambda>c. task_outcome T calls (tc_id c) (task_call calls c)) calls"
  unfolding gather_results_def Let_def fst_conv
proof (rule map_cong [OF refl])
  fix c assume c: "c \<in> set calls"
  show "(case dict_get (map (finished_task T calls) (spawn_all calls)) (tc_id c) of
      None \<Rightarrow> plain_outcome (tc_id c) (tc_name c) LOST_TEXT None ''failed'' | Some r \<Rightarrow> r) =
    task_outcome T calls (tc_id c) (task_call calls c)"
    unfolding finished_task_eq dict_get_map_snd get_spawn_all find_last_call(1) [OF c] by simp
qed

lemma task_outcome_id: "tc_id c = i \<Longrightarrow> tl_call_id (task_outcome T calls i c) = i"
  by (auto simp: task_outcome_def plain_outcome_def)

text \<open>
  Gathering yields exactly one result for each call, in the order of the calls and under
  the call's own id, however tasks end: with a result, an exception, a cancellation or not at
  all. When ids are distinct it is the result of that call's own task. The batch counts as
  cancelled exactly when the gathering was cancelled or some result says so.
\<close>

theorem one_result_per_call:
  "map tl_call_id (fst (gather_results T calls (spawn_all calls))) = map tc_id calls \<and>
   (distinct (map tc_id calls) \<longrightarrow> fst (gather_results T calls (spawn_all calls)) =
      map (\<lambda>c. task_outcome T calls (tc_id c) c) calls) \<and>
   (snd (gather_results T calls (spawn_all calls)) \<longleftrightarrow> ta_cancelled T \<or>
      (\<exists>r \<in> set (fst (gather_results T calls (spawn_all calls))). tl_status r = ''cancelled''))"
proof -
  have "map tl_call_id (fst (gather_results T calls (spawn_all calls))) = map tc_id calls"
    unfolding gathered by (auto intro!: task_outcome_id find_last_call(2))
  moreover have "fst (gather_results T calls (spawn_all calls)) =
      map (\<lambda>c. task_outcome T calls (tc_id c) c) calls" if "distinct (map tc_id calls)"
    unfolding gathered using task_call_unique [OF that] by simp
  moreover have "snd (gather_results T calls (spawn_all calls)) \<longleftrightarrow> ta_cancelled T \<or>
      (\<exists>r \<in> set (fst (gather_results T calls (spawn_all calls))). tl_status r = ''cancelled'')"
    by (simp add: gather_results_def Let_def list_ex_iff)
  ultimately show ?thesis by blast
qed

section \<open>What a batch leaves in the context\<close>

lemma extend_reply_blocks:
  "extend_reply i bs ms = Some ms' \<Longrightarrow> mset (context_blocks ms') = mset (context_blocks ms) + mset bs"
  by (induction ms arbitrary: ms') (auto simp: context_blocks_def split: option.splits if_splits)

lemma append_reply_mset:
  "mset (context_blocks (append_reply_blocks now mid bs ms)) = mset (context_blocks ms) + mset bs"
  by (auto simp: append_reply_blocks_def extend_reply_blocks split: option.splits)
    (simp add: context_blocks_def)

lemma results_of_append [simp]: "results_of (xs @ ys) = results_of xs @ results_of ys"
  by (simp add: results_of_def List.map_filter_def)

lemma calls_of_append [simp]: "calls_of (xs @ ys) = calls_of xs @ calls_of ys"
  by (simp add: calls_of_def List.map_filter_def)

lemma mset_map_filter_eq:
  "mset xs = mset ys \<Longrightarrow> mset (List.map_filter f xs) = mset (List.map_filter f ys)"
  unfolding List.map_filter_def by (metis mset_filter mset_map)

lemma mset_results:
  "mset xs = mset ys \<Longrightarrow> mset (results_of xs) = mset (results_of ys)"
  unfolding results_of_def by (rule mset_map_filter_eq)

definition context_results :: "msg list \<Rightarrow> tool_result_block multiset" where
  "context_results ms = mset (results_of (context_blocks ms))"

lemma context_results_append:
  "context_results (append_reply_blocks now mid bs ms) = context_results ms + mset (results_of bs)"
proof -
  have "mset (context_blocks (append_reply_blocks now mid bs ms)) = mset (context_blocks ms @ bs)"
    by (simp add: append_reply_mset)
  from mset_results [OF this] show ?thesis by (simp add: context_results_def)
qed

lemma results_of_update:
  "results_of (update_first (call_is i) (set_block_state st) bs) = results_of bs"
  by (induction bs)
    (auto simp: results_of_def List.map_filter_simps call_is_def set_block_state_def
      split: content_block.splits)

lemma context_results_mark [simp]:
  "context_results (fst (set_tool_call_state i st ms)) = context_results ms"
proof -
  have "results_of (context_blocks (fst (set_tool_call_state i st ms))) = results_of (context_blocks ms)"
    by (induction ms) (auto simp: context_blocks_def results_of_update split: prod.splits)
  then show ?thesis by (simp add: context_results_def)
qed

definition result_block_of :: "string \<Rightarrow> tool_call \<Rightarrow> tool_outcome \<Rightarrow> tool_result_block" where
  "result_block_of now c r = \<lparr>trb_id = tc_id c, trb_name = tc_name c,
     trb_output = OutputText (str_or (tl_result r) (''['' @ tc_name c @ DONE_SUFFIX)),
     trb_state = (if has_error r then ERROR else SUCCESS), trb_metadata = tl_metadata r,
     trb_created_at = now, trb_finished_at = None\<rparr>"

lemma context_results_record:
  "context_results (ac_context (record_result now mid s (c, r))) =
     context_results (ac_context s) + {#result_block_of now c r#}"
  by (simp add: record_result_def Let_def tell_def mark_def add_tool_result_def context_results_append
      result_block_of_def results_of_def List.map_filter_simps)

lemma context_results_record_all:
  "context_results (ac_context (foldl (record_result now mid) s pairs)) =
     context_results (ac_context s) + mset (map (\<lambda>cr. result_block_of now (fst cr) (snd cr)) pairs)"
proof (induction pairs arbitrary: s)
  case (Cons cr pairs)
  then show ?case by (cases cr) (simp add: context_results_record)
qed simp

lemma context_results_hints:
  "context_results (ac_context (foldl (add_hint_block E mid) s hs)) = context_results (ac_context s)"
  by (induction hs arbitrary: s)
    (simp_all add: add_hint_block_def tell_def context_results_append results_of_def List.map_filter_simps)

lemma context_results_ask:
  "context_results (ac_context (foldl (ask_approval mid) s crs)) = context_results (ac_context s)"
  by (induction crs arbitrary: s) (simp_all add: ask_approval_def tell_def mark_def)

lemma announce_keeps [simp]:
  "ac_context (foldl (announce mid) s calls) = ac_context s"
  "ac_executed (foldl (announce mid) s calls) = ac_executed s"
  by (induction calls arbitrary: s) (simp_all add: announce_def tell_def)

text \<open>
  C10: A batch of calls with distinct ids is settled as a whole or held back as a whole. When no
  result asks for approval, the context gains exactly one result for each call, with the text,
  state and metadata of that call's outcome; when some result does, the context gains none.
\<close>

theorem batch_is_settled_or_held:
  assumes "execute_calls E T mid calls s = (s', e)" and "distinct (map tc_id calls)"
  shows "context_results (ac_context s') = context_results (ac_context s) +
    (if e = BatchPaused then {#}
     else mset (map (\<lambda>c. result_block_of (en_now E) c (task_outcome T calls (tc_id c) c)) calls)) \<and>
    (e = BatchPaused \<longleftrightarrow> (\<exists>c \<in> set calls. needs_approval (task_outcome T calls (tc_id c) c)))"
proof -
  let ?out = "\<lambda>c. task_outcome T calls (tc_id c) c"
  have res: "fst (gather_results T calls (spawn_all calls)) = map ?out calls"
    unfolding gathered using task_call_unique [OF assms(2)] by simp
  obtain cancelled where g: "gather_results T calls (spawn_all calls) = (map ?out calls, cancelled)"
    using res by (cases "gather_results T calls (spawn_all calls)") auto
  have pairs: "zip calls (map ?out calls) = map (\<lambda>c. (c, ?out c)) calls"
    by (simp add: zip_map2 map_idI zip_same_conv_map)
  show ?thesis
  proof (cases "\<exists>c \<in> set calls. needs_approval (?out c)")
    case True
    then have "filter (\<lambda>cr. needs_approval (snd cr)) (map (\<lambda>c. (c, ?out c)) calls) \<noteq> []"
      by (auto simp: filter_empty_conv)
    then show ?thesis using assms(1) True
      by (auto simp: execute_calls_def Let_def g pairs context_results_ask)
  next
    case False
    then have "filter (\<lambda>cr. needs_approval (snd cr)) (map (\<lambda>c. (c, ?out c)) calls) = []"
      by (auto simp: filter_empty_conv)
    then have "e \<noteq> BatchPaused \<and> context_results (ac_context s') = context_results (ac_context s) +
        mset (map (\<lambda>c. result_block_of (en_now E) c (?out c)) calls)"
      using assms(1)
      by (auto simp: execute_calls_def Let_def g pairs context_results_hints context_results_record_all
          comp_def split: if_splits)
    then show ?thesis using False by simp
  qed
qed

definition sample_tool_call :: "string \<Rightarrow> tool_call" where
  "sample_tool_call i = \<lparr>tc_id = i, tc_name = ''bash'', tc_input = JObj []\<rparr>"

definition sample_execution :: "jdict \<Rightarrow> tool_execution" where
  "sample_execution meta = \<lparr>tx_output = ''ok'', tx_status = ''completed'', tx_error = None,
     tx_metadata = meta, tx_event = None\<rparr>"

text \<open>Call \<open>b\<close> needs an approval, every other call runs.\<close>

definition sample_tools :: tool_env where
  "sample_tools = \<lparr>ta_exec = (\<lambda>c. Execution (sample_execution
       (if tc_id c = ''b'' then [(''approval_required'', JBool True)] else []))),
     ta_lost = (\<lambda>c. False), ta_cancelled = False\<rparr>"

lemma one_result_per_call_witness:
  "distinct (map tc_id [sample_tool_call ''a'', sample_tool_call ''c'']) \<and>
   fst (gather_results sample_tools [sample_tool_call ''a'', sample_tool_call ''c'']
       (spawn_all [sample_tool_call ''a'', sample_tool_call ''c''])) =
     map (\<lambda>c. task_outcome sample_tools [sample_tool_call ''a'', sample_tool_call ''c''] (tc_id c) c)
       [sample_tool_call ''a'', sample_tool_call ''c'']"
  using one_result_per_call [of sample_tools "[sample_tool_call ''a'', sample_tool_call ''c'']"]
  by (simp add: sample_tool_call_def)

definition sample_block :: "string \<Rightarrow> tool_call_state \<Rightarrow> tool_call_block" where
  "sample_block i st = \<lparr>tcb_id = i, tcb_name = ''bash'', tcb_arguments = [],
     tcb_state = st, tcb_created_at = ''now'', tcb_finished_at = None\<rparr>"

definition sample_call_block :: "string \<Rightarrow> content_block" where
  "sample_call_block i = ToolCallB (sample_block i PENDING)"

definition sample_acting :: "string list \<Rightarrow> acting" where
  "sample_acting ids = \<lparr>ac_context = [base_msg RoleAssistant DEFAULT (map sample_call_block ids) ''m'' ''now''],
     ac_events = [], ac_uuid = 0, ac_executed = []\<rparr>"

definition still_env :: llm_env where
  "still_env = sample_env (\<lambda>k. ([], None))"

lemmas acting_eval = execute_calls_def gather_results_def spawn_all_def dict_by_def finished_task_def run_one_def
  outcome_of_execution_def Let_def announce_def tell_def reaches_tool_def needs_approval_def
  truthy_meta_def ask_approval_def mark_def call_is_def set_block_state_def record_result_def
  has_error_def add_tool_result_def append_reply_blocks_def base_msg_def sample_tool_call_def
  sample_execution_def sample_tools_def sample_call_block_def sample_block_def sample_acting_def still_env_def
  sample_env_def pending_calls_def results_of_def calls_of_def context_blocks_def List.map_filter_simps
  call_of_block_def resume_execute_def accept_confirmation_def owner_of_call_def deny_call_def
  tool_calls_in_state_def

lemma batch_is_settled_or_held_witness:
  "\<exists>s' e. execute_calls still_env sample_tools ''m'' [sample_tool_call ''a'', sample_tool_call ''c'']
       (sample_acting [''a'', ''c'']) = (s', e) \<and>
     image_mset trb_id (context_results (ac_context s')) = {#''a'', ''c''#} \<and> e \<noteq> BatchPaused"
proof -
  let ?calls = "[sample_tool_call ''a'', sample_tool_call ''c'']"
  obtain s' e where r: "execute_calls still_env sample_tools ''m'' ?calls (sample_acting [''a'', ''c'']) = (s', e)"
    by fastforce
  have d: "distinct (map tc_id ?calls)" by (simp add: sample_tool_call_def)
  have n: "\<not> (\<exists>c \<in> set ?calls. needs_approval (task_outcome sample_tools ?calls (tc_id c) c))"
    by (simp add: acting_eval task_outcome_def)
  have "context_results (ac_context (sample_acting [''a'', ''c''])) = {#}"
    by (simp add: acting_eval context_results_def)
  then show ?thesis
    using batch_is_settled_or_held [OF r d] n r by (auto simp: result_block_of_def sample_tool_call_def)
qed

lemma sample_tool_call_simps [simp]:
  "tc_id (sample_tool_call i) = i" "tc_name (sample_tool_call i) = ''bash''"
  "tc_input (sample_tool_call i) = JObj []"
  by (simp_all add: sample_tool_call_def)

lemma sample_block_simps [simp]:
  "tcb_id (sample_block i st) = i" "tcb_state (sample_block i st) = st"
  "sample_block i st\<lparr>tcb_state := st'\<rparr> = sample_block i st'"
  "call_of_block (sample_block i st) = sample_tool_call i"
  by (simp_all add: sample_block_def call_of_block_def sample_tool_call_def)

definition after_batch :: "acting \<times> batch_end" where
  "after_batch = execute_calls still_env sample_tools ''m''
     [sample_tool_call ''a'', sample_tool_call ''b''] (sample_acting [''a'', ''b''])"

definition after_approval :: "(msg list \<times> string \<times> bool) result" where
  "after_approval = accept_confirmation
     \<lparr>cf_reply_id = ''r'', cf_tool_call_id = ''b'', cf_approved = True\<rparr> ''m'' (ac_context (fst after_batch))"

definition after_resume :: "acting \<times> batch_end" where
  "after_resume = (case after_approval of
     Inl e \<Rightarrow> after_batch
   | Inr (ms, mid, clear) \<Rightarrow> resume_execute still_env
       (sample_tools\<lparr>ta_exec := (\<lambda>c. Execution (sample_execution []))\<rparr>) mid
       ((fst after_batch)\<lparr>ac_context := ms\<rparr>))"

lemma base_msg_content [simp]:
  "base_msg r n c i t\<lparr>msg_content := c'\<rparr> = base_msg r n c' i t"
  by (simp add: base_msg_def)

abbreviation ok_outcome :: "string \<Rightarrow> jdict \<Rightarrow> tool_outcome" where
  "ok_outcome i meta \<equiv> outcome_of_execution (sample_tool_call i) (sample_execution meta)"

lemma ok_outcome_simps [simp]:
  "needs_approval (ok_outcome i meta) = truthy_meta meta ''approval_required''"
  "tl_status (ok_outcome i meta) = ''completed''" "tl_result (ok_outcome i meta) = ''ok''"
  "tl_event (ok_outcome i meta) = None" "has_error (ok_outcome i meta) = False"
  "tl_metadata (ok_outcome i meta) = meta"
  by (simp_all add: needs_approval_def outcome_of_execution_def sample_execution_def has_error_def)

lemma sample_gathered:
  "gather_results sample_tools [sample_tool_call ''a'', sample_tool_call ''b'']
     (spawn_all [sample_tool_call ''a'', sample_tool_call ''b'']) =
   ([ok_outcome ''a'' [], ok_outcome ''b'' [(''approval_required'', JBool True)]], False)"
  "gather_results (sample_tools\<lparr>ta_exec := (\<lambda>c. Execution (sample_execution []))\<rparr>)
     [sample_tool_call ''b''] (spawn_all [sample_tool_call ''b'']) = ([ok_outcome ''b'' []], False)"
  by (simp_all add: gather_results_def spawn_all_def dict_by_def sample_tools_def finished_task_def run_one_def)

lemma sample_reaches [simp]:
  "reaches_tool sample_tools (sample_tool_call i)"
  "reaches_tool (sample_tools\<lparr>ta_exec := f\<rparr>) (sample_tool_call i)"
  by (simp_all add: reaches_tool_def sample_tools_def)

lemma batch_eval:
  "snd after_batch = BatchPaused" "ac_executed (fst after_batch) = [''a'', ''b'']"
  "ac_context (fst after_batch) = [base_msg RoleAssistant DEFAULT
     [ToolCallB (sample_block ''a'' PENDING), ToolCallB (sample_block ''b'' ASKING)] ''m'' ''now'']"
  by (simp_all add: after_batch_def execute_calls_def sample_gathered truthy_meta_def Let_def
      announce_def tell_def ask_approval_def mark_def sample_acting_def call_is_def
      sample_call_block_def set_block_state_def)

lemma approval_eval:
  "after_approval = Inr ([base_msg RoleAssistant DEFAULT
     [ToolCallB (sample_block ''a'' PENDING), ToolCallB (sample_block ''b'' ALLOWED)] ''m'' ''now''],
     ''m'', True)"
  by (simp add: after_approval_def batch_eval accept_confirmation_def calls_of_def context_blocks_def
      List.map_filter_simps set_block_state_def owner_of_call_def call_is_def
      tool_calls_in_state_def)

lemma pending_eval:
  "pending_calls [base_msg RoleAssistant DEFAULT
     [ToolCallB (sample_block ''a'' PENDING), ToolCallB (sample_block ''b'' ALLOWED)] ''m'' ''now''] =
   [sample_block ''a'' PENDING, sample_block ''b'' ALLOWED]"
  by (simp add: pending_calls_def calls_of_def results_of_def context_blocks_def List.map_filter_simps)

section \<open>A call of a held batch\<close>

text \<open>The user's answers, one after the other.\<close>

fun accept_all :: "confirmation list \<Rightarrow> string \<Rightarrow> msg list \<Rightarrow> (msg list \<times> string) result" where
  "accept_all [] mid ms = Inr (ms, mid)"
| "accept_all (ev # evs) mid ms =
     (case accept_confirmation ev mid ms of Inl e \<Rightarrow> Inl e | Inr (ms', mid', _) \<Rightarrow> accept_all evs mid' ms')"

text \<open>The call of an id is in the context, nobody has answered for it, and it has no result.\<close>

definition unsettled :: "string \<Rightarrow> msg list \<Rightarrow> bool" where
  "unsettled i ms \<longleftrightarrow> i \<in> set (map tcb_id (calls_of (context_blocks ms))) \<and>
     (\<forall>b \<in> set (calls_of (context_blocks ms)). tcb_id b = i \<longrightarrow> tcb_state b = PENDING) \<and>
     i \<notin> set (map trb_id (results_of (context_blocks ms)))"

lemma calls_of_update:
  assumes "i \<noteq> j"
  shows "filter (\<lambda>b. tcb_id b = j) (calls_of (update_first (call_is i) (set_block_state st) bs)) =
     filter (\<lambda>b. tcb_id b = j) (calls_of bs)"
  using assms by (induction bs)
    (auto simp: calls_of_def List.map_filter_simps call_is_def set_block_state_def split: content_block.splits)

lemma mark_keeps_other_calls:
  assumes "i \<noteq> j"
  shows "filter (\<lambda>b. tcb_id b = j) (calls_of (context_blocks (fst (set_tool_call_state i st ms)))) =
    filter (\<lambda>b. tcb_id b = j) (calls_of (context_blocks ms))"
  by (induction ms) (auto simp: context_blocks_def calls_of_update [OF assms] split: prod.splits)

lemma unsettled_iff:
  "unsettled i ms \<longleftrightarrow> filter (\<lambda>b. tcb_id b = i) (calls_of (context_blocks ms)) \<noteq> [] \<and>
     list_all (\<lambda>b. tcb_state b = PENDING) (filter (\<lambda>b. tcb_id b = i) (calls_of (context_blocks ms))) \<and>
     (\<forall>r. r \<in># context_results ms \<longrightarrow> trb_id r \<noteq> i)"
  unfolding unsettled_def context_results_def list_all_iff filter_empty_conv set_map set_mset_mset image_iff set_filter by blast

lemma mark_keeps_unsettled: "i \<noteq> j \<Longrightarrow> unsettled j (fst (set_tool_call_state i st ms)) = unsettled j ms"
  by (simp add: unsettled_iff mark_keeps_other_calls)

lemma ask_keeps_unsettled:
  "i \<notin> set (map (tc_id \<circ> fst) crs) \<Longrightarrow> unsettled i (ac_context (foldl (ask_approval mid) s crs)) = unsettled i (ac_context s)"
  by (induction crs arbitrary: s) (auto simp: ask_approval_def tell_def mark_def mark_keeps_unsettled)

lemma ask_keeps_executed: "ac_executed (foldl (ask_approval mid) s crs) = ac_executed s"
  by (induction crs arbitrary: s) (simp_all add: ask_approval_def tell_def mark_def)

text \<open>An answer concerns a call that waits for one, so it leaves the others alone.\<close>

lemma accept_keeps_unsettled:
  assumes "accept_confirmation ev mid ms = Inr (ms', mid', clear)" and "unsettled i ms"
  shows "unsettled i ms'"
proof -
  obtain target where t: "find_first (\<lambda>c. tcb_id c = cf_tool_call_id ev) (calls_of (context_blocks ms)) = Some target"
    using assms(1) by (auto simp: accept_confirmation_def split: option.splits)
  have target: "target \<in> set (calls_of (context_blocks ms))" "tcb_id target = cf_tool_call_id ev"
    using find_first_Some [OF t] by simp_all
  show ?thesis
  proof (cases "cf_tool_call_id ev = i")
    case True
    then have "tcb_state target = PENDING" using assms(2) target by (simp add: unsettled_def)
    then show ?thesis using assms(1) t by (auto simp: accept_confirmation_def Let_def split: if_splits)
  next
    case False
    then show ?thesis using assms t mark_keeps_unsettled [OF False]
      by (auto simp: accept_confirmation_def Let_def split: if_splits)
  qed
qed

lemma accept_all_keeps_unsettled: "accept_all evs mid ms = Inr (ms', mid') \<Longrightarrow> unsettled i ms \<Longrightarrow> unsettled i ms'"
  by (induction evs arbitrary: mid ms) (auto split: sum.splits dest: accept_keeps_unsettled)

text \<open>A batch adds results for its own calls only.\<close>

lemma execute_adds_own_results:
  assumes "r \<in># context_results (ac_context (fst (execute_calls E T mid calls s)))"
  shows "r \<in># context_results (ac_context s) \<or> trb_id r \<in> tc_id ` set calls"
  using assms
  by (auto simp: execute_calls_def Let_def context_results_ask context_results_hints context_results_record_all
      result_block_of_def split: prod.splits if_splits dest: set_zip_leftD)

lemma context_results_deny:
  "context_results (ac_context (deny_call now mid s c)) = context_results (ac_context s) +
     {#\<lparr>trb_id = tc_id c, trb_name = tc_name c, trb_output = OutputText (denied_text (tc_name c)), trb_state = DENIED,
        trb_metadata = [], trb_created_at = now, trb_finished_at = None\<rparr>#}"
  by (simp add: deny_call_def Let_def tell_def mark_def announce_def add_tool_result_def context_results_append
      results_of_def List.map_filter_simps)

lemma denied_results:
  "set_mset (context_results (ac_context (foldl (deny_call now mid) s cs))) = set_mset (context_results (ac_context s)) \<union>
     {\<lparr>trb_id = tc_id c, trb_name = tc_name c, trb_output = OutputText (denied_text (tc_name c)), trb_state = DENIED,
        trb_metadata = [], trb_created_at = now, trb_finished_at = None\<rparr> | c. c \<in> set cs}"
  by (induction cs arbitrary: s) (auto simp: context_results_deny)

lemma resume_denies_unsettled:
  assumes "resume_execute E T mid s = (s', e)" and "e \<noteq> BatchCancelled" and u: "unsettled i (ac_context s)"
  shows "(\<exists>r. r \<in># context_results (ac_context s') \<and> trb_id r = i) \<and>
    (\<forall>r. r \<in># context_results (ac_context s') \<and> trb_id r = i \<longrightarrow> trb_state r = DENIED)"
proof -
  let ?blocks = "pending_calls (ac_context s)"
  let ?ids = "set (map tcb_id (filter (\<lambda>b. tcb_state b = ALLOWED) ?blocks))"
  let ?allowed = "filter (\<lambda>c. tc_id c \<in> ?ids) (map call_of_block ?blocks)"
  let ?denied = "filter (\<lambda>c. tc_id c \<notin> ?ids) (map call_of_block ?blocks)"
  obtain s1 where s1: "(if ?allowed = [] then (s, BatchDone) else execute_calls E T mid ?allowed s) = (s1, e)"
    and s': "s' = foldl (deny_call (en_now E) mid) s1 ?denied"
    using assms(1,2) by (auto simp: resume_execute_def Let_def split: prod.splits if_splits)
  have free: "i \<notin> ?ids" using u by (auto simp: unsettled_def pending_calls_def Let_def)
  have none: "r \<in># context_results (ac_context s1) \<Longrightarrow> trb_id r \<noteq> i" for r
    using execute_adds_own_results [of r E T mid ?allowed s] s1 u free by (auto simp: unsettled_iff split: if_splits)
  obtain b where b: "b \<in> set (calls_of (context_blocks (ac_context s)))" "tcb_id b = i" using u by (auto simp: unsettled_def)
  then have "b \<in> set ?blocks" using u by (auto simp: pending_calls_def Let_def unsettled_def)
  then have "call_of_block b \<in> set ?denied" using b free by (auto simp: call_of_block_def)
  moreover have "tc_id (call_of_block b) = i" using b by (simp add: call_of_block_def)
  ultimately show ?thesis unfolding s' denied_results using none by force
qed

text \<open>
  C11: A call that ran in a batch which was held for the approval of another call is reported to the model as denied. When a
  batch of calls with distinct ids is paused, every call that reaches its tool has run, but no result is kept; whatever
  confirmations the user then gives, and whatever the resumed batch does short of being cancelled, the results in the
  context for such a call, of which there is at least one, all say that it was denied. (The code's comments say that a
  batch with a pending approval executes nothing.)
\<close>

theorem executed_call_is_reported_denied:
  assumes "execute_calls E T mid calls s = (s1, BatchPaused)" and "distinct (map tc_id calls)" and "c \<in> set calls"
    and "reaches_tool T c" and "\<not> needs_approval (task_outcome T calls (tc_id c) c)" and "unsettled (tc_id c) (ac_context s)"
    and "accept_all evs mid (ac_context s1) = Inr (ms, mid')"
    and "resume_execute E' T' mid' (s1\<lparr>ac_context := ms\<rparr>) = (s2, e)" and "e \<noteq> BatchCancelled"
  shows "tc_id c \<in> set (ac_executed s1) \<and>
    (\<exists>r. r \<in># context_results (ac_context s2) \<and> trb_id r = tc_id c) \<and>
    (\<forall>r. r \<in># context_results (ac_context s2) \<and> trb_id r = tc_id c \<longrightarrow> trb_state r = DENIED)"
proof -
  let ?out = "\<lambda>c. task_outcome T calls (tc_id c) c"
  have res: "fst (gather_results T calls (spawn_all calls)) = map ?out calls"
    unfolding gathered using task_call_unique [OF assms(2)] by simp
  obtain cancelled where g: "gather_results T calls (spawn_all calls) = (map ?out calls, cancelled)"
    using res by (cases "gather_results T calls (spawn_all calls)") auto
  have pairs: "zip calls (map ?out calls) = map (\<lambda>c. (c, ?out c)) calls"
    by (simp add: zip_map2 map_idI zip_same_conv_map)
  let ?asking = "filter (\<lambda>cr. needs_approval (snd cr)) (map (\<lambda>c. (c, ?out c)) calls)"
  let ?s0 = "(foldl (announce mid) s calls)\<lparr>ac_executed := ac_executed s @ map tc_id (filter (reaches_tool T) calls)\<rparr>"
  have s0: "ac_context ?s0 = ac_context s" "tc_id c \<in> set (ac_executed ?s0)" using assms(3,4) by simp_all
  have s1: "s1 = foldl (ask_approval mid) ?s0 ?asking" using assms(1) by (simp add: execute_calls_def Let_def g pairs split: if_splits)
  have "tc_id c \<notin> set (map (tc_id \<circ> fst) ?asking)"
    using assms(2,3,5) by (auto simp: distinct_map inj_on_def)
  then have "unsettled (tc_id c) (ac_context s1)" using assms(6) s0(1) by (simp add: s1 ask_keeps_unsettled)
  then have "unsettled (tc_id c) (ac_context (s1\<lparr>ac_context := ms\<rparr>))" using accept_all_keeps_unsettled [OF assms(7)] by simp
  from resume_denies_unsettled [OF assms(8,9) this] show ?thesis using s0(2) by (simp add: s1 ask_keeps_executed)
qed

theorem executed_call_is_reported_denied_witness:
  "snd after_batch = BatchPaused \<and> ac_executed (fst after_batch) = [''a'', ''b''] \<and> snd after_resume = BatchDone \<and>
   map (\<lambda>r. (trb_id r, trb_state r)) (results_of (context_blocks (ac_context (fst after_resume)))) =
     [(''b'', SUCCESS), (''a'', DENIED)] \<and>
   (\<exists>r. r \<in># context_results (ac_context (fst after_resume)) \<and> trb_id r = ''a'' \<and> trb_state r = DENIED)"
proof -
  have ran: "snd after_resume = BatchDone"
    and results: "map (\<lambda>r. (trb_id r, trb_state r)) (results_of (context_blocks (ac_context (fst after_resume)))) = [(''b'', SUCCESS), (''a'', DENIED)]"
    by (simp_all add: batch_eval approval_eval after_resume_def resume_execute_def pending_eval
      execute_calls_def sample_gathered truthy_meta_def Let_def announce_def tell_def mark_def
      record_result_def add_tool_result_def append_reply_blocks_def call_is_def set_block_state_def
      deny_call_def results_of_def context_blocks_def List.map_filter_simps
      del: set_map set_filter)
  have held: "execute_calls still_env sample_tools ''m'' [sample_tool_call ''a'', sample_tool_call ''b''] (sample_acting [''a'', ''b'']) =
      (fst after_batch, BatchPaused)" using batch_eval(1) unfolding after_batch_def by (metis prod.collapse)
  obtain ms where ms: "accept_confirmation \<lparr>cf_reply_id = ''r'', cf_tool_call_id = ''b'', cf_approved = True\<rparr> ''m'' (ac_context (fst after_batch)) = Inr (ms, ''m'', True)"
    using approval_eval unfolding after_approval_def by blast
  then have answered: "accept_all [\<lparr>cf_reply_id = ''r'', cf_tool_call_id = ''b'', cf_approved = True\<rparr>] ''m'' (ac_context (fst after_batch)) = Inr (ms, ''m'')"
    by simp
  have resumed: "resume_execute still_env (sample_tools\<lparr>ta_exec := (\<lambda>c. Execution (sample_execution []))\<rparr>) ''m''
      ((fst after_batch)\<lparr>ac_context := ms\<rparr>) = (fst after_resume, BatchDone)"
    using ran ms unfolding after_resume_def after_approval_def by (simp add: prod_eq_iff)
  have id: "tc_id (sample_tool_call i) = i" for i by (simp add: sample_tool_call_def)
  have free: "unsettled (tc_id (sample_tool_call ''a'')) (ac_context (sample_acting [''a'', ''b'']))"
    by (simp add: unsettled_def sample_acting_def sample_call_block_def context_blocks_def calls_of_def results_of_def
        List.map_filter_simps id)
  have quiet: "\<not> needs_approval (task_outcome sample_tools [sample_tool_call ''a'', sample_tool_call ''b'']
      (tc_id (sample_tool_call ''a'')) (sample_tool_call ''a''))"
    by (simp add: task_outcome_def sample_tools_def run_one_def truthy_meta_def)
  from executed_call_is_reported_denied [OF held _ _ sample_reaches(1) quiet free answered resumed]
  show ?thesis using batch_eval ran results by (auto simp: id)
qed

text \<open>
  A tool that was cancelled, or that failed with an exception without a text, is recorded
  in the context as a success.
\<close>

lemma cancelled_result_is_recorded_as_success:
  "trb_state (result_block_of now c (plain_outcome i n CANCELLED_TEXT None ''cancelled'')) = SUCCESS \<and>
   trb_state (result_block_of now c (outcome_of_execution c \<lparr>tx_output = [], tx_status = ''failed'',
     tx_error = Some [], tx_metadata = [], tx_event = None\<rparr>)) = SUCCESS"
  by (simp add: result_block_of_def has_error_def plain_outcome_def outcome_of_execution_def)

end
