(* ===== verification/ToolPermission.thy ===== *)
theory ToolPermission
  imports Json "HOL-Library.Multiset"
begin

text \<open>
  What decides whether a tool may be called, before any tool is looked up
  (\<open>src/ftre/services/tools/permission.py\<close>, \<open>approval.py\<close>, \<open>filtering.py\<close>;
  \<open>packages/ftre-agent/src/ftre_agent/tool/permission.py\<close> and \<open>definition.py\<close>): the
  permission engine, the approval port, the allow and deny lists of a profile, and the
  declaration of a tool with the schema shown to the model.

  \<open>tool_lib\<close> carries what the code takes from the standard library: \<open>str\<close> and friends,
  \<open>re.fullmatch\<close> (\<open>None\<close> where the pattern does not compile) and \<open>repr\<close> of a name.
\<close>

record tool_lib =
  tb_lib :: pylib
  tb_fullmatch :: "string \<Rightarrow> string \<Rightarrow> bool option"
  tb_repr :: "string \<Rightarrow> string"

section \<open>Permission rules\<close>

datatype permission_behavior = ALLOW | DENY | ASK

record permission_request =
  pq_tool_name :: string
  pq_arguments :: jdict

record permission_rule =
  pr_id :: string
  pr_tool_name :: string
  pr_argument_regex :: "(string, string) dict"
  pr_behavior :: permission_behavior
  pr_priority :: int
  pr_enabled :: bool

record permission_decision =
  pd_behavior :: permission_behavior
  pd_reason :: string
  pd_rule_id :: "string option"

record permission_context =
  pc_rules :: "permission_rule list"
  pc_default :: permission_behavior

definition argument_matches :: "tool_lib \<Rightarrow> jdict \<Rightarrow> string \<times> string \<Rightarrow> bool" where
  "argument_matches B args np =
     (case dict_get args (fst np) of
        None \<Rightarrow> False
      | Some v \<Rightarrow> tb_fullmatch B (snd np) (py_str (tb_lib B) v) = Some True)"

definition rule_matches :: "tool_lib \<Rightarrow> permission_request \<Rightarrow> permission_rule \<Rightarrow> bool" where
  "rule_matches B q r \<longleftrightarrow>
     pr_enabled r \<and> pr_tool_name r \<in> {''*'', pq_tool_name q} \<and>
     list_all (argument_matches B (pq_arguments q)) (pr_argument_regex r)"

definition evaluate ::
  "tool_lib \<Rightarrow> permission_request \<Rightarrow> permission_rule list \<Rightarrow> permission_behavior \<Rightarrow> permission_decision" where
  "evaluate B q rules dflt =
     (let matched = filter (rule_matches B q) rules
      in if matched = []
         then \<lparr>pd_behavior = dflt, pd_reason = ''No permission rule matched'', pd_rule_id = None\<rparr>
         else let highest = Max (set (map pr_priority matched));
                  candidates = filter (\<lambda>r. pr_priority r = highest) matched
           in if 1 < card (set (map pr_behavior candidates))
              then \<lparr>pd_behavior = DENY, pd_reason = ''Conflicting permission rules at the same priority'',
                     pd_rule_id = None\<rparr>
              else \<lparr>pd_behavior = pr_behavior (hd candidates),
                     pd_reason = ''Matched permission rule: '' @ pr_id (hd candidates),
                     pd_rule_id = Some (pr_id (hd candidates))\<rparr>)"

text \<open>
  What the rules promise: the matching rules of the highest priority decide, and only when
  they are of one mind; the default decides when no rule matches. Nothing depends on the
  order of the rules.
\<close>

definition deciding :: "tool_lib \<Rightarrow> permission_request \<Rightarrow> permission_rule set \<Rightarrow> permission_rule set" where
  "deciding B q R = {r \<in> R. rule_matches B q r \<and>
     (\<forall>r' \<in> R. rule_matches B q r' \<longrightarrow> pr_priority r' \<le> pr_priority r)}"

definition policy ::
  "tool_lib \<Rightarrow> permission_request \<Rightarrow> permission_rule set \<Rightarrow> permission_behavior \<Rightarrow> permission_behavior" where
  "policy B q R dflt =
     (if deciding B q R = {} then dflt
      else if pr_behavior ` deciding B q R = {ALLOW} then ALLOW
      else if pr_behavior ` deciding B q R = {ASK} then ASK
      else DENY)"

lemma candidates_deciding:
  assumes "filter (rule_matches B q) rules \<noteq> []"
  shows "set (filter (\<lambda>r. pr_priority r = Max (set (map pr_priority (filter (rule_matches B q) rules))))
      (filter (rule_matches B q) rules)) = deciding B q (set rules)"
    and "deciding B q (set rules) \<noteq> {}"
proof -
  let ?m = "filter (rule_matches B q) rules"
  let ?h = "Max (set (map pr_priority ?m))"
  have ne: "set (map pr_priority ?m) \<noteq> {}" and fin: "finite (set (map pr_priority ?m))"
    using assms by (simp_all del: set_filter)
  have le: "pr_priority r \<le> ?h" if "r \<in> set ?m" for r
    using that fin by (intro Max_ge) auto
  obtain top where top: "top \<in> set ?m" "pr_priority top = ?h"
    using Max_in [OF fin ne] by (metis imageE set_map)
  show "set (filter (\<lambda>r. pr_priority r = ?h) ?m) = deciding B q (set rules)"
  proof (intro equalityI subsetI)
    fix r assume "r \<in> set (filter (\<lambda>r. pr_priority r = ?h) ?m)"
    then show "r \<in> deciding B q (set rules)" using le by (auto simp: deciding_def)
  next
    fix r assume r: "r \<in> deciding B q (set rules)"
    then have m: "r \<in> set ?m" by (auto simp: deciding_def)
    moreover have "?h \<le> pr_priority r" using r top by (auto simp: deciding_def)
    with le [OF m] have "pr_priority r = ?h" by (rule antisym)
    with m show "r \<in> set (filter (\<lambda>r. pr_priority r = ?h) ?m)" by (simp del: set_map)
  qed
  then show "deciding B q (set rules) \<noteq> {}" using top by force
qed

lemma one_behavior:
  assumes "finite R" and "R \<noteq> {}"
  shows "1 < card (pr_behavior ` R) \<longleftrightarrow> (\<forall>b. pr_behavior ` R \<noteq> {b})"
proof -
  have "card (pr_behavior ` R) \<noteq> 0" using assms by simp
  then show ?thesis by (metis card_1_singleton_iff One_nat_def less_one linorder_neqE_nat not_less_iff_gr_or_eq)
qed

text \<open>
  C13: The permission engine implements the policy above: what it answers depends only on the
  set of the rules, a rule it names is one of the rules that decide, and a conflict at the
  highest priority is a refusal.
\<close>

theorem evaluate_implements_policy:
  "pd_behavior (evaluate B q rules dflt) = policy B q (set rules) dflt \<and>
   (\<forall>i. pd_rule_id (evaluate B q rules dflt) = Some i \<longrightarrow>
      (\<exists>r \<in> deciding B q (set rules). pr_id r = i \<and> pr_behavior r = policy B q (set rules) dflt))"
proof (cases "filter (rule_matches B q) rules = []")
  case True
  then have "deciding B q (set rules) = {}" by (auto simp: deciding_def filter_empty_conv)
  then show ?thesis using True by (simp add: evaluate_def policy_def)
next
  case False
  define cs where "cs = filter (\<lambda>r. pr_priority r = Max (set (map pr_priority (filter (rule_matches B q) rules))))
      (filter (rule_matches B q) rules)"
  have cs: "set cs = deciding B q (set rules)" and ne: "deciding B q (set rules) \<noteq> {}"
    unfolding cs_def using candidates_deciding [OF False] by auto
  then have hd: "hd cs \<in> deciding B q (set rules)" by (metis hd_in_set set_empty)
  have fin: "finite (deciding B q (set rules))" using cs by (metis List.finite_set)
  have ev: "evaluate B q rules dflt =
      (if 1 < card (set (map pr_behavior cs))
       then \<lparr>pd_behavior = DENY, pd_reason = ''Conflicting permission rules at the same priority'',
              pd_rule_id = None\<rparr>
       else \<lparr>pd_behavior = pr_behavior (hd cs), pd_reason = ''Matched permission rule: '' @ pr_id (hd cs),
              pd_rule_id = Some (pr_id (hd cs))\<rparr>)"
    using False by (simp add: evaluate_def Let_def cs_def)
  show ?thesis
  proof (cases "1 < card (set (map pr_behavior cs))")
    case True
    then have "\<forall>b. pr_behavior ` deciding B q (set rules) \<noteq> {b}"
      using one_behavior [OF fin ne] cs by simp
    then show ?thesis using True ev ne by (simp add: policy_def)
  next
    case False
    then obtain b where b: "pr_behavior ` deciding B q (set rules) = {b}"
      using one_behavior [OF fin ne] cs by auto
    then have "pr_behavior (hd cs) = b" using hd by blast
    moreover have "policy B q (set rules) dflt = b"
      using b ne by (cases b) (auto simp: policy_def)
    ultimately show ?thesis using False ev hd by auto
  qed
qed

definition sample_tool_lib :: tool_lib where
  "sample_tool_lib = \<lparr>tb_lib = \<lparr>lib_str = (\<lambda>j. []), lib_dumps = (\<lambda>j. []), lib_digest = (\<lambda>j. []),
       lib_text_digest = (\<lambda>s. s), lib_int = (\<lambda>s. Inl ValueError), lib_dict = (\<lambda>j. Inl TypeError)\<rparr>,
     tb_fullmatch = (\<lambda>p s. Some (p = s)), tb_repr = (\<lambda>s. s)\<rparr>"

definition sample_rule :: "string \<Rightarrow> permission_behavior \<Rightarrow> int \<Rightarrow> permission_rule" where
  "sample_rule i b p = \<lparr>pr_id = i, pr_tool_name = ''bash'', pr_argument_regex = [], pr_behavior = b,
     pr_priority = p, pr_enabled = True\<rparr>"

lemma evaluate_implements_policy_witness:
  "pd_rule_id (evaluate sample_tool_lib \<lparr>pq_tool_name = ''bash'', pq_arguments = []\<rparr>
       [sample_rule ''a'' ALLOW 1, sample_rule ''b'' ASK 2] ALLOW) = Some ''b'' \<and>
   policy sample_tool_lib \<lparr>pq_tool_name = ''bash'', pq_arguments = []\<rparr>
     {sample_rule ''a'' ALLOW 1, sample_rule ''b'' ASK 2} ALLOW = ASK"
proof -
  have "evaluate sample_tool_lib \<lparr>pq_tool_name = ''bash'', pq_arguments = []\<rparr>
       [sample_rule ''a'' ALLOW 1, sample_rule ''b'' ASK 2] ALLOW =
     \<lparr>pd_behavior = ASK, pd_reason = ''Matched permission rule: b'', pd_rule_id = Some ''b''\<rparr>"
    by (simp add: evaluate_def rule_matches_def sample_rule_def)
  then show ?thesis
    using evaluate_implements_policy [of sample_tool_lib "\<lparr>pq_tool_name = ''bash'', pq_arguments = []\<rparr>"
        "[sample_rule ''a'' ALLOW 1, sample_rule ''b'' ASK 2]" ALLOW]
    by simp
qed

section \<open>The approval port\<close>

datatype approval_outcome = AO_ALLOWED | AO_REJECTED | AO_CANCELLED | AO_UNAVAILABLE

record approval_request =
  aq_call_id :: string
  aq_tool_name :: string
  aq_arguments :: jdict
  aq_metadata :: jdict

record approval_decision =
  ad_outcome :: approval_outcome
  ad_reason :: string

text \<open>What a handler answers; a value of another type is refused.\<close>

datatype handler_answer = Decides approval_decision | AnswersOther | HandlerRaises string | HandlerCancelled

type_synonym approval_service = "(approval_request \<Rightarrow> handler_answer) option"

definition outcome_value :: "approval_outcome \<Rightarrow> string" where
  "outcome_value x = (case x of AO_ALLOWED \<Rightarrow> ''allowed'' | AO_REJECTED \<Rightarrow> ''rejected''
     | AO_CANCELLED \<Rightarrow> ''cancelled'' | AO_UNAVAILABLE \<Rightarrow> ''unavailable'')"

definition request_approval :: "approval_service \<Rightarrow> approval_request \<Rightarrow> handler_answer" where
  "request_approval h q =
     (case h of
        None \<Rightarrow> Decides \<lparr>ad_outcome = AO_UNAVAILABLE, ad_reason = ''approval handler is unavailable''\<rparr>
      | Some f \<Rightarrow> (case f q of
          AnswersOther \<Rightarrow> HandlerRaises ''Approval handler must return ApprovalDecision''
        | a \<Rightarrow> a))"

section \<open>Allow and deny lists\<close>

text \<open>\<open>coerce_tool_name_list\<close>: a single name stands for the list with it; anything malformed is refused.\<close>

definition coerce_tool_name_list :: "json \<Rightarrow> string list result" where
  "coerce_tool_name_list v =
     (let v' = (case v of JStr s \<Rightarrow> JList [JStr s] | _ \<Rightarrow> v)
      in case v' of
           JNull \<Rightarrow> Inr []
         | JList xs \<Rightarrow> map_r (\<lambda>x. case x of JStr s \<Rightarrow> if py_strip s = [] then Inl ValueError else Inr s
             | _ \<Rightarrow> Inl ValueError) xs
         | _ \<Rightarrow> Inl ValueError)"

section \<open>Tool declarations\<close>

record tool_parameter =
  tp_name :: string
  tp_type :: string
  tp_description :: string
  tp_required :: bool
  tp_enum :: "json list"

definition parameter_types :: "string list" where
  "parameter_types = [''string'', ''number'', ''integer'', ''boolean'', ''array'', ''object'']"

definition make_parameter :: "tool_parameter \<Rightarrow> tool_parameter result" where
  "make_parameter p =
     (if py_strip (tp_name p) = [] then Inl ValueError
      else if tp_type p \<notin> set parameter_types then Inl ValueError else Inr p)"

definition property_of :: "tool_parameter \<Rightarrow> json" where
  "property_of p = JObj ([(''type'', JStr (tp_type p)), (''description'', JStr (tp_description p))] @
     (if tp_enum p = [] then [] else [(''enum'', JList (tp_enum p))]))"

definition to_openai_dict :: "string \<Rightarrow> string \<Rightarrow> tool_parameter list \<Rightarrow> json" where
  "to_openai_dict n d ps =
     JObj [(''type'', JStr ''function''),
       (''function'', JObj [(''name'', JStr n), (''description'', JStr d),
          (''parameters'', JObj [(''type'', JStr ''object''),
             (''properties'', JObj (fold (\<lambda>p d. dict_set (tp_name p) (property_of p) d) ps [])),
             (''required'', JList (map (\<lambda>p. JStr (tp_name p)) (filter tp_required ps)))])])]"

end
