(* ===== verification/ToolService.thy ===== *)
theory ToolService
  imports Acting ToolPermission
begin

text \<open>
  The tool service (\<open>src/ftre/services/tools/service.py\<close>, \<open>scope.py\<close>, \<open>types.py\<close>):
  contributions of tools and restrictions on them, what an agent in a session sees, and the
  controlled execution of one call: hook, permission, approval, injection, the tool, hook.

  A contribution carries the identity of its declaration, because the code compares
  contributions when it removes one. A tool is a function from its arguments to what it returns or
  raises. Objects of the running process that are injected into arguments are JSON values here,
  and the disposer a registration returns is the operation with its flag as an argument.
\<close>

section \<open>State\<close>

text \<open>
  What a tool function returns: an execution result, a pair of a value and a mapping, a string,
  or another object with its \<open>str\<close> and, when it is an event, the hint in it.
\<close>

datatype tool_value =
    ExecutionValue tool_execution
  | PairValue string jdict
  | TextValue string
  | ObjectValue string "string option"

datatype fn_answer = Returns tool_value | FnRaises string | FnCancelled

record tool_fn =
  fn_injected :: "(string \<times> string) list"
  fn_run :: "jdict \<Rightarrow> fn_answer"

record tool_definition =
  td_identity :: nat
  td_name :: string
  td_description :: string
  td_parameters :: "tool_parameter list"
  td_callable :: "tool_fn option"

record contribution =
  cb_name :: string
  cb_owner :: string
  cb_source :: string
  cb_scope :: string
  cb_definition :: tool_definition

record restriction =
  rn_agent_id :: string
  rn_owner :: string
  rn_allow :: "string list"
  rn_deny :: "string list"
  rn_session_id :: "string option"
  rn_max_scope :: string

record tool_service =
  ts_items :: "contribution list"
  ts_restrictions :: "restriction list"
  ts_preparers :: "(string \<times> nat) list"
  ts_engine :: bool
  ts_approval :: "approval_service option"

definition new_tool_service :: "bool \<Rightarrow> approval_service option \<Rightarrow> tool_service" where
  "new_tool_service engine approval = \<lparr>ts_items = [], ts_restrictions = [], ts_preparers = [],
     ts_engine = engine, ts_approval = approval\<rparr>"

section \<open>Registering and disposing\<close>

definition same_contribution :: "contribution \<Rightarrow> contribution \<Rightarrow> bool" where
  "same_contribution a b \<longleftrightarrow> cb_name a = cb_name b \<and> cb_owner a = cb_owner b \<and> cb_source a = cb_source b \<and>
     cb_scope a = cb_scope b \<and> td_identity (cb_definition a) = td_identity (cb_definition b)"

definition register_tool ::
  "tool_definition \<Rightarrow> string \<Rightarrow> string \<Rightarrow> string \<Rightarrow> tool_service \<Rightarrow> (tool_service \<times> contribution) result" where
  "register_tool d owner scope source s =
     (if list_ex (\<lambda>c. td_name (cb_definition c) = td_name d \<and> cb_scope c = scope) (ts_items s) then Inl ValueError
      else let c = \<lparr>cb_name = td_name d, cb_owner = owner, cb_source = source, cb_scope = scope, cb_definition = d\<rparr>
        in Inr (s\<lparr>ts_items := ts_items s @ [c]\<rparr>, c))"

text \<open>The disposer: the flag of the closure after the call, the service, and the answer.\<close>

definition dispose_tool :: "contribution \<Rightarrow> bool \<Rightarrow> tool_service \<Rightarrow> bool \<times> tool_service \<times> bool" where
  "dispose_tool c disposed s =
     (if disposed then (True, s, False)
      else if list_ex (same_contribution c) (ts_items s)
      then (True, s\<lparr>ts_items := remove_first (same_contribution c) (ts_items s)\<rparr>, True)
      else (True, s, False))"

definition restrict_tools :: "restriction \<Rightarrow> tool_service \<Rightarrow> tool_service result" where
  "restrict_tools r s =
     (if rn_max_scope r \<notin> {''global'', ''agent'', ''session''} then Inl ValueError
      else Inr (s\<lparr>ts_restrictions := ts_restrictions s @ [r]\<rparr>))"

text \<open>Two restrictions are equal when their allow and deny sets are.\<close>

definition same_restriction :: "restriction \<Rightarrow> restriction \<Rightarrow> bool" where
  "same_restriction a b \<longleftrightarrow> rn_agent_id a = rn_agent_id b \<and> rn_owner a = rn_owner b \<and>
     set (rn_allow a) = set (rn_allow b) \<and> set (rn_deny a) = set (rn_deny b) \<and>
     rn_session_id a = rn_session_id b \<and> rn_max_scope a = rn_max_scope b"

definition dispose_restriction :: "restriction \<Rightarrow> bool \<Rightarrow> tool_service \<Rightarrow> bool \<times> tool_service \<times> bool" where
  "dispose_restriction r disposed s =
     (if disposed then (True, s, False)
      else if list_ex (same_restriction r) (ts_restrictions s)
      then (True, s\<lparr>ts_restrictions := remove_first (same_restriction r) (ts_restrictions s)\<rparr>, True)
      else (True, s, False))"

definition register_preparer :: "string \<Rightarrow> nat \<Rightarrow> tool_service \<Rightarrow> tool_service" where
  "register_preparer owner p s = s\<lparr>ts_preparers := ts_preparers s @ [(owner, p)]\<rparr>"

definition dispose_preparer :: "string \<Rightarrow> nat \<Rightarrow> bool \<Rightarrow> tool_service \<Rightarrow> bool \<times> tool_service \<times> bool" where
  "dispose_preparer owner p disposed s =
     (if disposed then (True, s, False)
      else if (owner, p) \<in> set (ts_preparers s)
      then (True, s\<lparr>ts_preparers := remove1 (owner, p) (ts_preparers s)\<rparr>, True)
      else (True, s, False))"

section \<open>What is visible\<close>

definition scope_rank :: "string \<Rightarrow> nat" where
  "scope_rank sc = (if has_prefix ''session:'' sc then 2 else if has_prefix ''agent:'' sc then 1 else 0)"

definition max_rank :: "restriction \<Rightarrow> nat" where
  "max_rank r = (if rn_max_scope r = ''global'' then 0 else if rn_max_scope r = ''agent'' then 1 else 2)"

definition in_scope :: "string option \<Rightarrow> string option \<Rightarrow> contribution \<Rightarrow> bool" where
  "in_scope agent sess c \<longleftrightarrow> cb_scope c = ''global'' \<or>
     cb_scope c = ''agent:'' @ (case agent of None \<Rightarrow> ''None'' | Some a \<Rightarrow> a) \<or>
     (case sess of None \<Rightarrow> False | Some i \<Rightarrow> cb_scope c = ''session:'' @ i)"

definition applies_to :: "string option \<Rightarrow> string option \<Rightarrow> restriction \<Rightarrow> bool" where
  "applies_to agent sess r \<longleftrightarrow> agent = Some (rn_agent_id r) \<and>
     (rn_session_id r = None \<or> rn_session_id r = sess)"

definition restrict_step :: "string option \<Rightarrow> string option \<Rightarrow> contribution list \<Rightarrow> restriction \<Rightarrow> contribution list" where
  "restrict_step agent sess cs r =
     (if \<not> applies_to agent sess r then cs
      else let cs1 = (if rn_allow r = [] then cs
               else filter (\<lambda>c. cb_name c \<in> set (rn_allow r) \<or> max_rank r < scope_rank (cb_scope c)) cs)
        in if rn_deny r = [] then cs1
           else filter (\<lambda>c. cb_name c \<notin> set (rn_deny r) \<or> max_rank r < scope_rank (cb_scope c)) cs1)"

definition by_name :: "contribution list \<Rightarrow> (string, contribution) dict" where
  "by_name cs = dict_by cb_name cs"

definition visible :: "tool_service \<Rightarrow> string option \<Rightarrow> string option \<Rightarrow> contribution list" where
  "visible s agent sess =
     (let candidates = foldl (restrict_step agent sess) (filter (in_scope agent sess) (ts_items s))
            (rev (ts_restrictions s));
          items = map snd (by_name candidates)
      in if agent = None then filter (\<lambda>c. cb_scope c = ''global'') items else items)"

definition get_tool :: "tool_service \<Rightarrow> string \<Rightarrow> string option \<Rightarrow> string option \<Rightarrow> contribution option" where
  "get_tool s n agent sess = find_first (\<lambda>c. cb_name c = n) (visible s agent sess)"

text \<open>
  \<open>prepare_view\<close>: the preparers may change the service, as \<open>prep\<close> says of each, or raise. A profile
  configuration that is not a dict has no \<open>get\<close>.
\<close>

definition view_filter :: "json option \<Rightarrow> contribution list \<Rightarrow> contribution list result" where
  "view_filter config cs =
     (case config of
        None \<Rightarrow> Inr cs
      | Some v \<Rightarrow>
          if \<not> jtruthy v then Inr cs
          else (case v of
            JObj d \<Rightarrow>
              bind_r (coerce_tool_name_list (get_or d ''allow'' JNull)) (\<lambda>allow.
              bind_r (coerce_tool_name_list (get_or d ''deny'' JNull)) (\<lambda>deny.
                Inr (filter (\<lambda>c. cb_name c \<notin> set deny \<and> (allow = [] \<or> cb_name c \<in> set allow)) cs)))
          | _ \<Rightarrow> Inl AttributeError))"

definition prepare_view ::
  "(nat \<Rightarrow> tool_service \<Rightarrow> tool_service result) \<Rightarrow> string \<Rightarrow> string \<Rightarrow> json option \<Rightarrow> tool_service \<Rightarrow>
   (tool_service \<times> contribution list) result" where
  "prepare_view prep agent sess config s =
     bind_r (fold_r (\<lambda>s' op. prep (snd op) s') s (ts_preparers s)) (\<lambda>s'.
     bind_r (view_filter config (visible s' (Some agent) (Some sess))) (\<lambda>view. Inr (s', view)))"

section \<open>Execution of one call\<close>

datatype before_hook = BeforeAllow | BeforeDeny string | BeforeArguments jdict | BeforeFails string | BeforeCancels

datatype after_hook = AfterResult tool_execution | AfterFails string | AfterCancels

text \<open>The context of a call: its metadata, and what the hooks answer. \<open>tk_cancelled\<close> is the cancellation event when the tool is about to run.\<close>

record call_context =
  tk_call_id :: string
  tk_metadata :: jdict
  tk_permission :: "permission_context option"
  tk_cancelled :: bool
  tk_before :: "jdict \<Rightarrow> before_hook"
  tk_after :: "jdict \<Rightarrow> tool_execution \<Rightarrow> after_hook"

definition failed_execution :: "string \<Rightarrow> jdict \<Rightarrow> tool_execution" where
  "failed_execution err meta = \<lparr>tx_output = [], tx_status = ''failed'', tx_error = Some err,
     tx_metadata = meta, tx_event = None\<rparr>"

definition cancelled_execution :: tool_execution where
  "cancelled_execution = \<lparr>tx_output = [], tx_status = ''cancelled'', tx_error = Some ''cancelled'',
     tx_metadata = [], tx_event = None\<rparr>"

definition completed_execution :: "string \<Rightarrow> jdict \<Rightarrow> string option \<Rightarrow> tool_execution" where
  "completed_execution out meta ev = \<lparr>tx_output = out, tx_status = ''completed'', tx_error = None,
     tx_metadata = meta, tx_event = ev\<rparr>"

definition normalize_result :: "tool_value \<Rightarrow> tool_execution" where
  "normalize_result v = (case v of
     ExecutionValue x \<Rightarrow> x
   | PairValue out meta \<Rightarrow> completed_execution out meta None
   | TextValue out \<Rightarrow> completed_execution out [] None
   | ObjectValue out ev \<Rightarrow> completed_execution out [] ev)"

text \<open>An injected parameter the model did not supply takes the value of its key in the runtime context.\<close>

definition inject_one :: "jdict \<Rightarrow> jdict \<Rightarrow> string \<times> string \<Rightarrow> jdict" where
  "inject_one runtime args pk =
     (if dict_get args (fst pk) = None then dict_set (fst pk) (get_or runtime (snd pk) JNull) args else args)"

definition resolve_injections :: "tool_definition \<Rightarrow> jdict \<Rightarrow> jdict \<Rightarrow> jdict" where
  "resolve_injections d args runtime =
     (case td_callable d of None \<Rightarrow> args | Some f \<Rightarrow> foldl (inject_one runtime) args (fn_injected f))"

definition permission_decision ::
  "tool_lib \<Rightarrow> tool_service \<Rightarrow> contribution \<Rightarrow> jdict \<Rightarrow> call_context \<Rightarrow> permission_decision option" where
  "permission_decision B s c args ctx =
     (if \<not> ts_engine s then None
      else case tk_permission ctx of
        None \<Rightarrow> None
      | Some pc \<Rightarrow> Some (evaluate B \<lparr>pq_tool_name = td_name (cb_definition c), pq_arguments = args\<rparr>
          (pc_rules pc) (pc_default pc)))"

definition dispatch_after :: "call_context \<Rightarrow> jdict \<Rightarrow> tool_execution \<Rightarrow> exec_outcome" where
  "dispatch_after ctx args x =
     (case tk_after ctx args x of
        AfterResult y \<Rightarrow> Execution y
      | AfterFails t \<Rightarrow> ExecRaises t
      | AfterCancels \<Rightarrow> ExecCancelled)"

definition missing_callable :: "string \<Rightarrow> string" where
  "missing_callable n = ''Tool '' @ [CHR 0x27] @ n @ [CHR 0x27] @ '' has no execute callable''"

text \<open>The last stage: the answer to the caller, and the arguments the tool ran with, if it ran.\<close>

definition run_tool :: "contribution \<Rightarrow> jdict \<Rightarrow> call_context \<Rightarrow> exec_outcome \<times> jdict option" where
  "run_tool c args ctx =
     (let vals = resolve_injections (cb_definition c) args (tk_metadata ctx)
      in if tk_cancelled ctx then (dispatch_after ctx args cancelled_execution, None)
         else case td_callable (cb_definition c) of
           None \<Rightarrow> (dispatch_after ctx args (failed_execution (missing_callable (td_name (cb_definition c))) []), None)
         | Some f \<Rightarrow>
             (dispatch_after ctx args
               (case fn_run f vals of
                  Returns v \<Rightarrow> normalize_result v
                | FnRaises t \<Rightarrow> failed_execution t []
                | FnCancelled \<Rightarrow> cancelled_execution), Some vals))"

definition json_or_null :: "string option \<Rightarrow> json" where
  "json_or_null x = (case x of None \<Rightarrow> JNull | Some t \<Rightarrow> JStr t)"

definition approved_run ::
  "tool_service \<Rightarrow> contribution \<Rightarrow> jdict \<Rightarrow> call_context \<Rightarrow> permission_decision \<Rightarrow> exec_outcome \<times> jdict option" where
  "approved_run s c args ctx d =
     (case ts_approval s of
        None \<Rightarrow> (Execution (failed_execution ''approval unavailable''
          [(''approval_required'', JBool True), (''reason'', JStr (pd_reason d)),
           (''rule_id'', json_or_null (pd_rule_id d))]), None)
      | Some h \<Rightarrow>
          (case request_approval h \<lparr>aq_call_id = tk_call_id ctx, aq_tool_name = td_name (cb_definition c),
               aq_arguments = args, aq_metadata = tk_metadata ctx\<rparr> of
             Decides a \<Rightarrow>
               if ad_outcome a = AO_ALLOWED then run_tool c args ctx
               else (Execution (failed_execution (str_or (ad_reason a) (outcome_value (ad_outcome a)))
                 [(''approval_required'', JBool True), (''reason'', JStr (ad_reason a))]), None)
           | AnswersOther \<Rightarrow> (ExecRaises [], None)
           | HandlerRaises t \<Rightarrow> (ExecRaises t, None)
           | HandlerCancelled \<Rightarrow> (ExecCancelled, None)))"

definition checked_run ::
  "tool_lib \<Rightarrow> tool_service \<Rightarrow> contribution \<Rightarrow> jdict \<Rightarrow> call_context \<Rightarrow> exec_outcome \<times> jdict option" where
  "checked_run B s c args ctx =
     (case permission_decision B s c args ctx of
        None \<Rightarrow> run_tool c args ctx
      | Some d \<Rightarrow>
          (case pd_behavior d of
             DENY \<Rightarrow> (Execution (failed_execution (pd_reason d) []), None)
           | ASK \<Rightarrow> approved_run s c args ctx d
           | ALLOW \<Rightarrow> run_tool c args ctx))"

definition execute_contribution ::
  "tool_lib \<Rightarrow> tool_service \<Rightarrow> contribution \<Rightarrow> jdict \<Rightarrow> call_context \<Rightarrow> exec_outcome \<times> jdict option" where
  "execute_contribution B s c args ctx =
     (case tk_before ctx args of
        BeforeFails t \<Rightarrow> (ExecRaises t, None)
      | BeforeCancels \<Rightarrow> (ExecCancelled, None)
      | BeforeDeny why \<Rightarrow> (Execution (failed_execution (str_or why ''Tool denied'') []), None)
      | BeforeArguments args' \<Rightarrow> checked_run B s c args' ctx
      | BeforeAllow \<Rightarrow> checked_run B s c args ctx)"

definition view_get :: "contribution list \<Rightarrow> string \<Rightarrow> contribution option" where
  "view_get view n = find_first (\<lambda>c. td_name (cb_definition c) = n) view"

definition view_execute ::
  "tool_lib \<Rightarrow> tool_service \<Rightarrow> contribution list \<Rightarrow> string \<Rightarrow> jdict \<Rightarrow> call_context \<Rightarrow> exec_outcome \<times> jdict option" where
  "view_execute B s view n args ctx =
     (case view_get view n of
        None \<Rightarrow> (Execution (failed_execution (''tool '' @ tb_repr B n @ '' is not visible'') []), None)
      | Some c \<Rightarrow> execute_contribution B s c args ctx)"

section \<open>Which contribution is seen\<close>

definition permits :: "restriction \<Rightarrow> contribution \<Rightarrow> bool" where
  "permits r c \<longleftrightarrow> max_rank r < scope_rank (cb_scope c) \<or>
     (rn_allow r = [] \<or> cb_name c \<in> set (rn_allow r)) \<and> cb_name c \<notin> set (rn_deny r)"

lemma filter_split_iff:
  "(\<exists>pre post. filter P xs = pre @ x # post \<and> (\<forall>y \<in> set post. key y \<noteq> key x)) \<longleftrightarrow>
     P x \<and> (\<exists>pre post. xs = pre @ x # post \<and> (\<forall>y \<in> set post. key y = key x \<longrightarrow> \<not> P y))"
proof -
  have "(\<exists>pre post. filter P xs = pre @ x # post \<and> (\<forall>y \<in> set post. key y \<noteq> key x)) \<longleftrightarrow>
      find_first (\<lambda>y. key y = key x) (rev (filter P xs)) = Some x"
    unfolding find_last_iff by auto
  also have "\<dots> \<longleftrightarrow> find_first (\<lambda>y. P y \<and> key y = key x) (rev xs) = Some x"
    by (simp add: rev_filter find_first_of_filter)
  also have "\<dots> \<longleftrightarrow> P x \<and> (\<exists>pre post. xs = pre @ x # post \<and> (\<forall>y \<in> set post. key y = key x \<longrightarrow> \<not> P y))"
    unfolding find_last_iff by auto
  finally show ?thesis .
qed

definition candidate :: "tool_service \<Rightarrow> string option \<Rightarrow> string option \<Rightarrow> contribution \<Rightarrow> bool" where
  "candidate s agent sess c \<longleftrightarrow> in_scope agent sess c \<and>
     (\<forall>r \<in> set (ts_restrictions s). applies_to agent sess r \<longrightarrow> permits r c)"

lemma restrict_step_filter:
  "restrict_step agent sess cs r = filter (\<lambda>c. applies_to agent sess r \<longrightarrow> permits r c) cs"
  by (auto simp: restrict_step_def permits_def Let_def intro!: filter_cong)

lemma restrict_all:
  "foldl (restrict_step agent sess) cs rs =
     filter (\<lambda>c. \<forall>r \<in> set rs. applies_to agent sess r \<longrightarrow> permits r c) cs"
  by (induction rs arbitrary: cs) (auto simp: restrict_step_filter intro!: filter_cong)

lemma candidates_filter:
  "foldl (restrict_step agent sess) (filter (in_scope agent sess) (ts_items s)) (rev (ts_restrictions s)) =
     filter (candidate s agent sess) (ts_items s)"
  by (auto simp: restrict_all candidate_def intro!: filter_cong)

text \<open>
  An agent sees a contribution exactly when it is, among the registered ones that are in the
  agent's or session's scope and that every applicable restriction permits, the last one
  registered under its name; names are never seen twice.
\<close>

theorem visible_is_last_permitted:
  "(c \<in> set (visible s (Some a) sess) \<longleftrightarrow>
     candidate s (Some a) sess c \<and>
     (\<exists>pre post. ts_items s = pre @ c # post \<and>
        (\<forall>c' \<in> set post. cb_name c' = cb_name c \<longrightarrow> \<not> candidate s (Some a) sess c'))) \<and>
   distinct (map cb_name (visible s (Some a) sess))"
proof -
  let ?P = "candidate s (Some a) sess"
  have v: "visible s (Some a) sess = map snd (dict_by cb_name (filter ?P (ts_items s)))"
    by (simp add: visible_def Let_def candidates_filter by_name_def)
  have "c \<in> set (visible s (Some a) sess) \<longleftrightarrow>
      (\<exists>pre post. filter ?P (ts_items s) = pre @ c # post \<and> (\<forall>c' \<in> set post. cb_name c' \<noteq> cb_name c))"
    unfolding v dict_by_values ..
  also have "\<dots> \<longleftrightarrow> ?P c \<and> (\<exists>pre post. ts_items s = pre @ c # post \<and>
        (\<forall>c' \<in> set post. cb_name c' = cb_name c \<longrightarrow> \<not> ?P c'))"
    by (rule filter_split_iff)
  finally have "c \<in> set (visible s (Some a) sess) \<longleftrightarrow> ?P c \<and> (\<exists>pre post. ts_items s = pre @ c # post \<and>
        (\<forall>c' \<in> set post. cb_name c' = cb_name c \<longrightarrow> \<not> ?P c'))" .
  moreover have "distinct (map cb_name (visible s (Some a) sess))"
    unfolding v dict_by_value_keys by (rule dict_by_wf)
  ultimately show ?thesis by blast
qed

definition sample_definition :: "nat \<Rightarrow> tool_definition" where
  "sample_definition k = \<lparr>td_identity = k, td_name = ''q'', td_description = [], td_parameters = [],
     td_callable = Some \<lparr>fn_injected = [(''sid'', ''session_id'')], fn_run = (\<lambda>a. Returns (TextValue ''done''))\<rparr>\<rparr>"

definition sample_contribution :: "nat \<Rightarrow> string \<Rightarrow> contribution" where
  "sample_contribution k scope = \<lparr>cb_name = ''q'', cb_owner = ''o'', cb_source = ''mcp'', cb_scope = scope,
     cb_definition = sample_definition k\<rparr>"

lemma sample_contribution_simps [simp]:
  "cb_name (sample_contribution k sc) = ''q''" "cb_scope (sample_contribution k sc) = sc"
  "td_name (cb_definition (sample_contribution k sc)) = ''q''"
  "td_name (sample_definition k) = ''q''"
  "cb_definition (sample_contribution k sc) = sample_definition k"
  by (simp_all add: sample_contribution_def sample_definition_def)

text \<open>A project tool of the session, and a global tool of the same name registered after it.\<close>

definition late_global :: tool_service where
  "late_global = \<lparr>ts_items = [sample_contribution 1 ''session:s'', sample_contribution 2 ''global''],
     ts_restrictions = [], ts_preparers = [], ts_engine = True, ts_approval = None\<rparr>"

lemma late_global_registers:
  "bind_r (register_tool (sample_definition 1) ''o'' ''session:s'' ''mcp'' (new_tool_service True None))
     (\<lambda>r. bind_r (register_tool (sample_definition 2) ''o'' ''global'' ''mcp'' (fst r)) (\<lambda>r'. Inr (fst r'))) =
   Inr late_global"
  by (simp add: register_tool_def new_tool_service_def late_global_def Let_def sample_contribution_def
      sample_definition_def)

text \<open>
  The code means a contribution of the session to override one of the same name at a lower scope;
  the order of registration decides instead, and here the global tool hides it.
\<close>

lemma visible_is_last_permitted_witness:
  "sample_contribution 2 ''global'' \<in> set (visible late_global (Some ''a'') (Some ''s'')) \<and>
   sample_contribution 1 ''session:s'' \<notin> set (visible late_global (Some ''a'') (Some ''s''))"
proof -
  have c: "candidate late_global (Some ''a'') (Some ''s'') (sample_contribution 2 ''global'')"
    by (simp add: candidate_def in_scope_def late_global_def)
  have items: "ts_items late_global = [sample_contribution 1 ''session:s'', sample_contribution 2 ''global'']"
    by (simp add: late_global_def)
  have ne: "sample_contribution 1 ''session:s'' \<noteq> sample_contribution 2 ''global''"
    by (simp add: sample_contribution_def)
  have "\<not> (\<exists>pre post. ts_items late_global = pre @ sample_contribution 1 ''session:s'' # post \<and>
        (\<forall>c' \<in> set post. cb_name c' = cb_name (sample_contribution 1 ''session:s'') \<longrightarrow>
           \<not> candidate late_global (Some ''a'') (Some ''s'') c'))"
    using c ne by (auto simp: items Cons_eq_append_conv)
  moreover have "\<exists>pre post. ts_items late_global = pre @ sample_contribution 2 ''global'' # post \<and>
        (\<forall>c' \<in> set post. cb_name c' = cb_name (sample_contribution 2 ''global'') \<longrightarrow>
           \<not> candidate late_global (Some ''a'') (Some ''s'') c')"
    unfolding items by (intro exI [of _ "[sample_contribution 1 ''session:s'']"] exI [of _ "[]"]) simp
  ultimately show ?thesis
    using c visible_is_last_permitted [of "sample_contribution 2 ''global''" late_global "''a''" "Some ''s''"]
      visible_is_last_permitted [of "sample_contribution 1 ''session:s''" late_global "''a''" "Some ''s''"]
    by blast
qed

section \<open>When a tool runs\<close>

definition approved_by :: "tool_service \<Rightarrow> contribution \<Rightarrow> jdict \<Rightarrow> call_context \<Rightarrow> bool" where
  "approved_by s c args ctx \<longleftrightarrow> (\<exists>h a. ts_approval s = Some h \<and> ad_outcome a = AO_ALLOWED \<and>
     request_approval h \<lparr>aq_call_id = tk_call_id ctx, aq_tool_name = td_name (cb_definition c),
       aq_arguments = args, aq_metadata = tk_metadata ctx\<rparr> = Decides a)"

definition may_run :: "tool_lib \<Rightarrow> tool_service \<Rightarrow> contribution \<Rightarrow> jdict \<Rightarrow> call_context \<Rightarrow> bool" where
  "may_run B s c args ctx \<longleftrightarrow>
     (case permission_decision B s c args ctx of
        None \<Rightarrow> True
      | Some d \<Rightarrow> pd_behavior d = ALLOW \<or> pd_behavior d = ASK \<and> approved_by s c args ctx)"

lemma run_tool_ran:
  "snd (run_tool c args ctx) = Some given \<longleftrightarrow>
     \<not> tk_cancelled ctx \<and> td_callable (cb_definition c) \<noteq> None \<and>
     given = resolve_injections (cb_definition c) args (tk_metadata ctx)"
  by (auto simp: run_tool_def Let_def split: option.splits)

lemma approved_run_ran:
  "snd (approved_run s c args ctx d) = Some given \<longleftrightarrow>
     approved_by s c args ctx \<and> snd (run_tool c args ctx) = Some given"
  by (auto simp: approved_run_def approved_by_def split: option.splits handler_answer.splits)

lemma checked_run_ran:
  "snd (checked_run B s c args ctx) = Some given \<longleftrightarrow>
     may_run B s c args ctx \<and> snd (run_tool c args ctx) = Some given"
  by (auto simp: checked_run_def may_run_def approved_run_ran split: option.splits permission_behavior.splits)

definition checked_arguments :: "call_context \<Rightarrow> jdict \<Rightarrow> jdict option" where
  "checked_arguments ctx args = (case tk_before ctx args of
     BeforeAllow \<Rightarrow> Some args | BeforeArguments args' \<Rightarrow> Some args' | _ \<Rightarrow> None)"

text \<open>
  C12: A tool runs exactly when it is in the agent's view, the hook let the call pass, the permission
  rules allow the very arguments the hook left, or ask for an approval that was then
  given, and the call was not cancelled; the tool then receives those arguments with only
  missing injected parameters added.
\<close>

theorem tool_runs_iff_cleared:
  "snd (view_execute B s view n args ctx) = Some given \<longleftrightarrow>
     (\<exists>c args'. view_get view n = Some c \<and> checked_arguments ctx args = Some args' \<and>
        may_run B s c args' ctx \<and> \<not> tk_cancelled ctx \<and> td_callable (cb_definition c) \<noteq> None \<and>
        given = resolve_injections (cb_definition c) args' (tk_metadata ctx))"
  by (auto simp: view_execute_def execute_contribution_def checked_arguments_def checked_run_ran run_tool_ran
      split: option.splits before_hook.splits)

section \<open>An approval in the host\<close>

text \<open>
  The scheduler of the runtime over a view of the service: each call has its context. The provider
  plugin of the service installs a permission engine and no approval port.
\<close>

definition service_tools ::
  "tool_lib \<Rightarrow> tool_service \<Rightarrow> contribution list \<Rightarrow> (tool_call \<Rightarrow> call_context) \<Rightarrow> tool_env" where
  "service_tools B s view ctx = \<lparr>ta_exec = (\<lambda>c. fst (view_execute B s view (tc_name c) (dict_or_empty (tc_input c)) (ctx c))),
     ta_lost = (\<lambda>c. False), ta_cancelled = False\<rparr>"

definition asks_first ::
  "tool_lib \<Rightarrow> tool_service \<Rightarrow> contribution list \<Rightarrow> (tool_call \<Rightarrow> call_context) \<Rightarrow> tool_call \<Rightarrow> bool" where
  "asks_first B s view ctx c \<longleftrightarrow>
     (\<exists>k d args. view_get view (tc_name c) = Some k \<and> checked_arguments (ctx c) (dict_or_empty (tc_input c)) = Some args \<and>
        permission_decision B s k args (ctx c) = Some d \<and> pd_behavior d = ASK)"

definition approval_metadata :: "permission_decision \<Rightarrow> jdict" where
  "approval_metadata d = [(''approval_required'', JBool True), (''reason'', JStr (pd_reason d)),
     (''rule_id'', json_or_null (pd_rule_id d))]"

lemma asked_execution:
  assumes "asks_first B s view ctx c" and "ts_approval s = None"
  shows "\<exists>d. view_execute B s view (tc_name c) (dict_or_empty (tc_input c)) (ctx c) =
     (Execution (failed_execution ''approval unavailable'' (approval_metadata d)), None)"
  using assms
  by (auto simp: asks_first_def view_execute_def execute_contribution_def checked_arguments_def checked_run_def
      approved_run_def approval_metadata_def split: before_hook.splits)

lemma outcome_metadata [simp]: "tl_metadata (outcome_of_execution c x) = tx_metadata x"
  by (simp add: outcome_of_execution_def Let_def)

lemma asked_outcome:
  assumes "asks_first B s view ctx c" and "ts_approval s = None" and "tc_input c = JObj d"
  shows "needs_approval (task_outcome (service_tools B s view ctx) calls (tc_id c) c)"
proof -
  obtain p where "view_execute B s view (tc_name c) (dict_or_empty (tc_input c)) (ctx c) =
     (Execution (failed_execution ''approval unavailable'' (approval_metadata p)), None)"
    using asked_execution [OF assms(1,2)] by blast
  then have "tl_metadata (task_outcome (service_tools B s view ctx) calls (tc_id c) c) = approval_metadata p"
    by (simp add: task_outcome_def run_one_def service_tools_def assms(3)) (simp add: failed_execution_def)
  then show ?thesis by (simp add: needs_approval_def truthy_meta_def approval_metadata_def)
qed

definition asked_for :: "string \<Rightarrow> emitted list \<Rightarrow> bool" where
  "asked_for i es \<longleftrightarrow> (\<exists>m d. (m, ApprovalAsked d) \<in> set es \<and> aa_tool_call_id d = i)"

lemma asked_for_mono: "asked_for i es \<Longrightarrow> set es \<subseteq> set es' \<Longrightarrow> asked_for i es'"
  by (auto simp: asked_for_def)

lemma ask_events: "ac_events (foldl (ask_approval mid) s crs) =
    ac_events s @ map (\<lambda>cr. (Some mid, ApprovalAsked \<lparr>aa_tool_call_id = tc_id (fst cr), aa_name = tc_name (fst cr),
        aa_arguments = dict_or_empty (tc_input (fst cr)),
        aa_reason = opt_str (str_of_meta (tl_metadata (snd cr)) ''reason''),
        aa_rule_id = str_of_meta (tl_metadata (snd cr)) ''rule_id''\<rparr>)) crs"
  by (induction crs arbitrary: s) (simp_all add: ask_approval_def tell_def mark_def)

lemma fold_asks_for:
  "cr \<in> set crs \<Longrightarrow> asked_for (tc_id (fst cr)) (ac_events (foldl (ask_approval mid) s crs))"
  unfolding asked_for_def ask_events by (cases cr) (force intro!: exI [of _ "Some mid"])

lemma batch_asks:
  assumes "distinct (map tc_id calls)" and "c \<in> set calls"
    and "needs_approval (task_outcome T calls (tc_id c) c)"
  shows "snd (execute_calls E T mid calls s) = BatchPaused \<and>
    asked_for (tc_id c) (ac_events (fst (execute_calls E T mid calls s)))"
proof -
  let ?out = "\<lambda>c. task_outcome T calls (tc_id c) c"
  have res: "fst (gather_results T calls (spawn_all calls)) = map ?out calls"
    unfolding gathered using task_call_unique [OF assms(1)] by simp
  obtain x where g: "gather_results T calls (spawn_all calls) = (map ?out calls, x)"
    using res by (cases "gather_results T calls (spawn_all calls)") auto
  have pairs: "zip calls (map ?out calls) = map (\<lambda>c. (c, ?out c)) calls"
    by (simp add: zip_map2 map_idI zip_same_conv_map)
  let ?asking = "filter (\<lambda>cr. needs_approval (snd cr)) (map (\<lambda>c. (c, ?out c)) calls)"
  have mem: "(c, ?out c) \<in> set ?asking" using assms by auto
  then have "?asking \<noteq> []" by (metis empty_iff empty_set)
  then obtain s2 where "execute_calls E T mid calls s = (foldl (ask_approval mid) s2 ?asking, BatchPaused)"
    by (simp add: execute_calls_def Let_def g pairs)
  then show ?thesis using fold_asks_for [OF mem, of mid s2] by simp
qed

lemma deny_events: "set (ac_events s) \<subseteq> set (ac_events (foldl (deny_call now mid) s cs))"
proof (induction cs arbitrary: s)
  case Nil
  then show ?case by simp
next
  case (Cons c cs)
  have "set (ac_events s) \<subseteq> set (ac_events (deny_call now mid s c))"
    by (auto simp: deny_call_def Let_def tell_def mark_def announce_def)
  then show ?case using Cons [of "deny_call now mid s c"] by auto
qed

text \<open>
  Without an approval port an approval has no effect: when the user has allowed a pending call whose
  permission is still ASK, the resumed run asks for the same approval again and is paused
  again, and the tool does not run. The confirmation of the runtime and the permission check of the host do
  not know of each other.
\<close>

theorem approval_is_asked_again:
  assumes "ts_approval s = None"
    and "b \<in> set (pending_calls (ac_context st))" and "tcb_state b = ALLOWED"
    and "distinct (map tcb_id (pending_calls (ac_context st)))"
    and "asks_first B s view ctx (call_of_block b)"
    and "resume_execute E (service_tools B s view ctx) mid st = (st', e)"
  shows "e = BatchPaused \<and> asked_for (tcb_id b) (ac_events st') \<and>
    snd (view_execute B s view (tcb_name b) (tcb_arguments b) (ctx (call_of_block b))) = None"
proof -
  let ?blocks = "pending_calls (ac_context st)"
  let ?ids = "set (map tcb_id (filter (\<lambda>b. tcb_state b = ALLOWED) ?blocks))"
  let ?calls = "filter (\<lambda>c. tc_id c \<in> ?ids) (map call_of_block ?blocks)"
  have ids: "map tc_id (map call_of_block ?blocks) = map tcb_id ?blocks"
    by (simp add: call_of_block_def)
  have d: "distinct (map tc_id ?calls)"
    using assms(4) unfolding ids [symmetric] by (rule distinct_map_filter)
  have m: "call_of_block b \<in> set ?calls" using assms(2,3) by (auto simp: call_of_block_def)
  have n: "needs_approval (task_outcome (service_tools B s view ctx) ?calls (tc_id (call_of_block b)) (call_of_block b))"
    by (rule asked_outcome [OF assms(5,1)]) (simp add: call_of_block_def)
  have i: "tc_id (call_of_block b) = tcb_id b" by (simp add: call_of_block_def)
  obtain st1 e1 where x: "execute_calls E (service_tools B s view ctx) mid ?calls st = (st1, e1)"
    by fastforce
  from batch_asks [OF d m n, of E mid st] x have e1: "e1 = BatchPaused" "asked_for (tcb_id b) (ac_events st1)"
    by (simp_all add: i)
  have "?calls \<noteq> []" using m by (metis empty_iff empty_set)
  then obtain denied where "resume_execute E (service_tools B s view ctx) mid st =
      (foldl (deny_call (en_now E) mid) st1 denied, e1)"
    unfolding resume_execute_def Let_def by (simp only: x e1(1) if_False prod.case batch_end.distinct)
  then have "e = BatchPaused" and "asked_for (tcb_id b) (ac_events st')"
    using assms(6) e1 asked_for_mono [OF e1(2) deny_events] by auto
  moreover have "snd (view_execute B s view (tcb_name b) (tcb_arguments b) (ctx (call_of_block b))) = None"
    using asked_execution [OF assms(5,1)] by (auto simp: call_of_block_def dict_or_empty_def)
  ultimately show ?thesis by simp
qed

definition sample_context :: "tool_call \<Rightarrow> call_context" where
  "sample_context c = \<lparr>tk_call_id = tc_id c, tk_metadata = [],
     tk_permission = Some \<lparr>pc_rules = [], pc_default = ASK\<rparr>, tk_cancelled = False,
     tk_before = (\<lambda>a. BeforeAllow), tk_after = (\<lambda>a x. AfterResult x)\<rparr>"

definition allowed_block :: tool_call_block where
  "allowed_block = \<lparr>tcb_id = ''i'', tcb_name = ''q'', tcb_arguments = [], tcb_state = ALLOWED,
     tcb_created_at = [], tcb_finished_at = None\<rparr>"

definition approved_state :: acting where
  "approved_state = \<lparr>ac_context = [base_msg RoleAssistant DEFAULT [ToolCallB allowed_block] ''m'' []],
     ac_events = [], ac_uuid = 0, ac_executed = []\<rparr>"

lemma pending_approved: "pending_calls (ac_context approved_state) = [allowed_block]"
  by (simp add: approved_state_def pending_calls_def Let_def context_blocks_def results_of_def calls_of_def
      List.map_filter_simps)

lemma sample_asks_first:
  "asks_first sample_tool_lib late_global [sample_contribution 2 ''global''] sample_context (call_of_block allowed_block)"
  by (simp add: asks_first_def view_get_def call_of_block_def allowed_block_def checked_arguments_def
      sample_context_def permission_decision_def late_global_def evaluate_def dict_or_empty_def)

lemma approval_is_asked_again_witness:
  "\<exists>st'. resume_execute still_env (service_tools sample_tool_lib late_global [sample_contribution 2 ''global''] sample_context)
      ''m'' approved_state = (st', BatchPaused) \<and> asked_for ''i'' (ac_events st')"
proof -
  obtain st' e where r: "resume_execute still_env
      (service_tools sample_tool_lib late_global [sample_contribution 2 ''global''] sample_context) ''m'' approved_state = (st', e)"
    by fastforce
  have "ts_approval late_global = None" by (simp add: late_global_def)
  from approval_is_asked_again [OF this, of allowed_block approved_state, OF _ _ _ sample_asks_first r]
  have "e = BatchPaused \<and> asked_for ''i'' (ac_events st')"
    by (simp add: pending_approved) (simp add: allowed_block_def)
  then show ?thesis using r by blast
qed

end
