(* ===== verification/ReactLoop.thy ===== *)
theory ReactLoop
  imports Acting WireNormalize
begin

text \<open>
  The agent's main loop (\<open>packages/ftre-agent-runtime/src/ftre_agent_runtime/react_runner.py\<close>:
  \<open>decide\<close>, \<open>_loop\<close>, \<open>run\<close>, \<open>_finalize\<close>; \<open>run_state.py\<close>; the exit executor of
  \<open>executors/acting.py\<close>).

  \<open>react_env\<close> says, for each round, what the hooks and the outside world answer: the messages
  contributed before a reasoning (as converted by \<open>add_raw\<close>), the environment of the model
  call (which depends on whether tools are offered) and of the tools, the stop decision, and whether a cancellation is set. The loop runs on
  fuel; a theorem gives a bound on the rounds, so that enough fuel always yields a result.
\<close>

section \<open>State\<close>

datatype run_status = IDLE | RUN_RUNNING | PAUSED | COMPLETED | RUN_ERROR | CANCELLED

datatype finished_reason = FR_COMPLETED | FR_INTERRUPTED | FR_EXCEED_MAX_ITERS | FR_ERROR

record run_state =
  rs_status :: run_status
  rs_iteration :: int
  rs_done_reason :: "finished_reason option"
  rs_error :: "string option"
  rs_error_code :: "string option"
  rs_reply_id :: string
  rs_message_id :: string
  rs_empty_retries :: nat
  rs_in_finalization :: bool
  rs_max_iterations :: "int option"
  rs_continuation_count :: int
  rs_max_continuations :: int

definition is_done :: "run_state \<Rightarrow> bool" where
  "is_done st \<longleftrightarrow> rs_status st \<in> {COMPLETED, RUN_ERROR, CANCELLED}"

definition start_run :: "run_state \<Rightarrow> run_state" where
  "start_run st = st\<lparr>rs_status := RUN_RUNNING, rs_iteration := 0, rs_error := None,
     rs_error_code := None, rs_done_reason := None, rs_empty_retries := 0,
     rs_in_finalization := False, rs_reply_id := [], rs_message_id := []\<rparr>"

datatype action =
    DoReason "string option" bool
  | DoAct "tool_call list"
  | DoExit finished_reason "string option" "string option"

section \<open>The decision\<close>

definition MAX_EMPTY_RESPONSE_RETRIES :: nat where
  "MAX_EMPTY_RESPONSE_RETRIES = 2"

definition FINALIZATION_RETRY_PROMPT :: string where
  "FINALIZATION_RETRY_PROMPT = bytes
     [232, 175, 183, 230, 160, 185, 230, 141, 174, 228, 184, 138, 233, 157, 162, 231, 154, 132, 229, 175,
      185, 232, 175, 157, 239, 188, 140, 231, 155, 180, 230, 142, 165, 231, 187, 153, 229, 135, 186, 229,
      155, 158, 229, 164, 141, 231, 148, 168, 230, 136, 183, 231, 154, 132, 230, 156, 128, 231, 187, 136,
      229, 134, 133, 229, 174, 185, 227, 128, 130]"

definition EMPTY_FINAL_RESPONSE_MESSAGE :: string where
  "EMPTY_FINAL_RESPONSE_MESSAGE = bytes
     [230, 168, 161, 229, 158, 139, 229, 164, 154, 230, 172, 161, 233, 135, 141, 232, 175, 149, 229, 144,
      142, 228, 187, 141, 230, 156, 170, 231, 148, 159, 230, 136, 144, 229, 143, 175, 232, 167, 129, 231,
      154, 132, 230, 156, 128, 231, 187, 136, 230, 150, 135, 230, 156, 172, 229, 155, 158, 229, 164, 141,
      227, 128, 130]"

definition over_limit :: "run_state \<Rightarrow> bool" where
  "over_limit st = (case rs_max_iterations st of None \<Rightarrow> False | Some m \<Rightarrow> m \<le> rs_iteration st)"

text \<open>Rules 4 to 6, for an answer without tool calls and without visible text.\<close>

definition decide_empty :: "run_state \<Rightarrow> run_state \<times> action" where
  "decide_empty st =
     (if rs_in_finalization st
      then (st, DoExit FR_ERROR (Some EMPTY_FINAL_RESPONSE_MESSAGE) (Some ''empty_response''))
      else if rs_empty_retries st < MAX_EMPTY_RESPONSE_RETRIES
      then (st\<lparr>rs_empty_retries := rs_empty_retries st + 1\<rparr>, DoReason None False)
      else (st\<lparr>rs_in_finalization := True\<rparr>, DoReason (Some FINALIZATION_RETRY_PROMPT) True))"

definition decide_action :: "run_state \<Rightarrow> turn_result option \<Rightarrow> run_state \<times> action" where
  "decide_action st prev =
     (case prev of
        None \<Rightarrow>
          if over_limit st then (st, DoExit FR_EXCEED_MAX_ITERS None None)
          else (st, DoReason None False)
      | Some r \<Rightarrow>
          (case tn_error r of
             Some e \<Rightarrow> (st, DoExit FR_ERROR (Some (''['' @ le_code e @ ''] '' @ le_message e)) (Some (le_code e)))
           | None \<Rightarrow>
               if tn_tool_calls r \<noteq> [] then (st, DoAct (tn_tool_calls r))
               else if \<not> all_blank (tn_text r) then (st, DoExit FR_COMPLETED None None)
               else decide_empty st))"

section \<open>Ending a run\<close>

fun status_of_reason :: "finished_reason \<Rightarrow> run_status" where
  "status_of_reason FR_COMPLETED = COMPLETED"
| "status_of_reason FR_INTERRUPTED = CANCELLED"
| "status_of_reason FR_ERROR = RUN_ERROR"
| "status_of_reason FR_EXCEED_MAX_ITERS = COMPLETED"

definition finalize :: "finished_reason \<Rightarrow> run_state \<Rightarrow> run_state" where
  "finalize r st = st\<lparr>rs_done_reason := Some r, rs_status := status_of_reason r\<rparr>"

text \<open>\<open>ExitExecutor._finalize\<close>.\<close>

definition exit_finalize ::
  "finished_reason \<Rightarrow> string option \<Rightarrow> string option \<Rightarrow> run_state \<Rightarrow> run_state" where
  "exit_finalize r err code st =
     (let st1 = st\<lparr>rs_done_reason := Some r,
            rs_status := (if r = FR_INTERRUPTED then CANCELLED else if r = FR_ERROR then RUN_ERROR
              else COMPLETED)\<rparr>;
          st2 = (case none_if_empty err of None \<Rightarrow> st1 | Some e \<Rightarrow> st1\<lparr>rs_error := Some e\<rparr>)
      in case none_if_empty code of None \<Rightarrow> st2 | Some c \<Rightarrow> st2\<lparr>rs_error_code := Some c\<rparr>)"

section \<open>The environment\<close>

datatype before_answer = Contributes "msg list" | BeforeCancelled | BeforeRaises

datatype stop_answer = StopTurn | ContinueTurn string | StopRaises

record react_env =
  rx_before :: "int \<Rightarrow> before_answer"
  rx_llm :: "int \<Rightarrow> bool \<Rightarrow> llm_env"
  rx_tools :: "int \<Rightarrow> tool_env"
  rx_stop :: "int \<Rightarrow> stop_answer"
  rx_cancel_set :: "int \<Rightarrow> bool"
  rx_max_retries :: int

text \<open>
  \<open>lx_last\<close> is \<open>reasoning_executor.result\<close>, which keeps the result of the last reasoning;
  \<open>lx_raised\<close> says that \<open>run\<close> raises the exception again after it has written the final state.
\<close>

record loop_state =
  lx_state :: run_state
  lx_run :: run
  lx_executed :: "string list"
  lx_last :: "turn_result option"
  lx_raised :: bool

text \<open>How the loop is left: it ended on its own, or an exception of the round went through \<open>run\<close>.\<close>

datatype round_end = Goes loop_state "turn_result option" | Ends loop_state

definition current_message :: "run_state \<Rightarrow> string" where
  "current_message st = str_or (rs_message_id st) (rs_reply_id st)"

definition set_state :: "(run_state \<Rightarrow> run_state) \<Rightarrow> loop_state \<Rightarrow> loop_state" where
  "set_state f s = s\<lparr>lx_state := f (lx_state s)\<rparr>"

definition raising :: "loop_state \<Rightarrow> loop_state" where
  "raising s = s\<lparr>lx_raised := True\<rparr>"

lemma raising_simps [simp]:
  "lx_state (raising s) = lx_state s" "lx_run (raising s) = lx_run s"
  by (simp_all add: raising_def)

section \<open>Rounds\<close>

text \<open>A contributed message whose id is already in the context is skipped.\<close>

definition add_raw :: "msg list \<Rightarrow> msg \<Rightarrow> msg list" where
  "add_raw ms m = (if msg_id m \<noteq> [] \<and> list_ex (\<lambda>x. msg_id x = msg_id m) ms then ms else ms @ [m])"

definition rotate_message :: "llm_env \<Rightarrow> msg list \<Rightarrow> loop_state \<Rightarrow> loop_state" where
  "rotate_message E contributed s =
     (if list_ex (\<lambda>m. msg_role m = RoleAssistant \<and> msg_id m = rs_message_id (lx_state s))
           (rn_context (lx_run s)) \<and> list_ex (\<lambda>m. msg_role m = RoleUser) contributed
      then let (i, rn) = draw E (lx_run s)
        in s\<lparr>lx_state := (lx_state s)\<lparr>rs_message_id := i\<rparr>, lx_run := rn\<rparr>
      else s)"

definition reasoning_round :: "react_env \<Rightarrow> loop_state \<Rightarrow> string option \<Rightarrow> bool \<Rightarrow> round_end" where
  "reasoning_round X s hint no_tools =
     (let k = rs_iteration (lx_state s) + 1; E = rx_llm X k no_tools;
          s1 = set_state (\<lambda>st. st\<lparr>rs_iteration := k\<rparr>) s
      in case rx_before X k of
           BeforeCancelled \<Rightarrow> Ends (set_state (finalize FR_INTERRUPTED) s1)
         | BeforeRaises \<Rightarrow> Ends (raising (set_state (finalize FR_ERROR) s1))
         | Contributes ms \<Rightarrow>
             (let s2 = s1\<lparr>lx_run := (lx_run s1)\<lparr>rn_context := foldl add_raw (rn_context (lx_run s1)) ms\<rparr>\<rparr>;
                  s3 = rotate_message E ms s2;
                  (rn, out) = reason E (current_message (lx_state s3)) hint (rx_max_retries X)
                    (lx_run s3);
                  s4 = s3\<lparr>lx_run := rn\<rparr>
              in case out of
                   Result r \<Rightarrow> Goes (s4\<lparr>lx_last := Some r\<rparr>) (Some r)
                 | NoResult \<Rightarrow> Goes s4 (lx_last s4)
                 | Raised x \<Rightarrow> Ends (set_state (finalize FR_INTERRUPTED) s4)))"

definition acting_round :: "react_env \<Rightarrow> loop_state \<Rightarrow> tool_call list \<Rightarrow> round_end" where
  "acting_round X s calls =
     (let k = rs_iteration (lx_state s); rn = lx_run s;
          (a, e) = execute_calls (rx_llm X k False) (rx_tools X k) (current_message (lx_state s)) calls
            \<lparr>ac_context = rn_context rn, ac_events = rn_events rn, ac_uuid = rn_uuid rn,
             ac_executed = lx_executed s\<rparr>;
          s1 = s\<lparr>lx_run := rn\<lparr>rn_context := ac_context a, rn_events := ac_events a,
                 rn_uuid := ac_uuid a\<rparr>, lx_executed := ac_executed a\<rparr>
      in case e of
           BatchPaused \<Rightarrow> Ends (set_state (\<lambda>st. st\<lparr>rs_status := PAUSED\<rparr>) s1)
         | BatchCancelled \<Rightarrow> Ends (set_state (finalize FR_INTERRUPTED) s1)
         | BatchDone \<Rightarrow> Goes s1 None)"

definition may_continue :: "react_env \<Rightarrow> run_state \<Rightarrow> bool" where
  "may_continue X st \<longleftrightarrow> \<not> rx_cancel_set X (rs_iteration st) \<and>
     rs_continuation_count st < rs_max_continuations st"

definition continue_with :: "react_env \<Rightarrow> string \<Rightarrow> loop_state \<Rightarrow> loop_state" where
  "continue_with X prompt s =
     (let E = rx_llm X (rs_iteration (lx_state s)) False; mid = current_message (lx_state s);
          (i, rn) = draw E (lx_run s)
      in s\<lparr>lx_state := (lx_state s)\<lparr>rs_continuation_count := rs_continuation_count (lx_state s) + 1\<rparr>,
           lx_run := emit_event mid (HintMessage \<lparr>hd_hint = HintText prompt, hd_source = Some ''system''\<rparr>)
             (append_to_context E mid
               [HintB \<lparr>hb_hint = HintText prompt, hb_source = Some ''system'', hb_id = i,
                  hb_created_at = en_now E, hb_finished_at = Some (en_now E)\<rparr>] rn)\<rparr>)"

definition exit_round ::
  "react_env \<Rightarrow> loop_state \<Rightarrow> finished_reason \<Rightarrow> string option \<Rightarrow> string option \<Rightarrow> round_end" where
  "exit_round X s r err code =
     (let leave = Ends (set_state (exit_finalize r err code) s)
      in if r \<noteq> FR_COMPLETED then leave
         else case rx_stop X (rs_iteration (lx_state s)) of
           StopRaises \<Rightarrow> Ends (raising (set_state (finalize FR_ERROR) s))
         | StopTurn \<Rightarrow> leave
         | ContinueTurn prompt \<Rightarrow>
             if may_continue X (lx_state s) then Goes (continue_with X prompt s) None else leave)"

definition loop_round :: "react_env \<Rightarrow> loop_state \<Rightarrow> turn_result option \<Rightarrow> round_end" where
  "loop_round X s prev =
     (let (st, act) = decide_action (lx_state s) prev; s1 = s\<lparr>lx_state := st\<rparr>
      in case act of
           DoReason hint no_tools \<Rightarrow> reasoning_round X s1 hint no_tools
         | DoAct calls \<Rightarrow> acting_round X s1 calls
         | DoExit r err code \<Rightarrow> exit_round X s1 r err code)"

fun react_loop :: "nat \<Rightarrow> react_env \<Rightarrow> loop_state \<Rightarrow> turn_result option \<Rightarrow> loop_state option" where
  "react_loop 0 X s prev = None"
| "react_loop (Suc fuel) X s prev =
     (case loop_round X s prev of
        Goes s' prev' \<Rightarrow> react_loop fuel X s' prev'
      | Ends s' \<Rightarrow> Some s')"

section \<open>The loop comes to an end\<close>

definition rounds_left :: "int \<Rightarrow> loop_state \<Rightarrow> turn_result option \<Rightarrow> nat" where
  "rounds_left m s prev =
     2 * nat (m - rs_iteration (lx_state s)) + 2 * (2 - rs_empty_retries (lx_state s)) +
     (if rs_in_finalization (lx_state s) then 0 else 2) + (if prev = None then 0 else 1)"

text \<open>Every reasoning is paid for by the limit, an empty retry or the one finalization.\<close>

definition within_bound :: "int \<Rightarrow> run_state \<Rightarrow> bool" where
  "within_bound m st \<longleftrightarrow> rs_max_iterations st = Some m \<and> rs_empty_retries st \<le> 2 \<and>
     rs_iteration st \<le> m + int (rs_empty_retries st) + (if rs_in_finalization st then 1 else 0)"

definition counters :: "run_state \<Rightarrow> int \<times> nat \<times> bool \<times> int option" where
  "counters st = (rs_iteration st, rs_empty_retries st, rs_in_finalization st, rs_max_iterations st)"

lemma within_bound_counters: "counters st' = counters st \<Longrightarrow> within_bound m st' = within_bound m st"
  by (simp add: counters_def within_bound_def)

lemma rounds_left_counters:
  "counters (lx_state s') = counters (lx_state s) \<Longrightarrow> rounds_left m s' prev = rounds_left m s prev"
  by (simp add: counters_def rounds_left_def)

lemma rotate_counters [simp]: "counters (lx_state (rotate_message E ms s)) = counters (lx_state s)"
  by (auto simp: rotate_message_def counters_def split: prod.splits)

lemma finalize_counters [simp]:
  "counters (finalize r st) = counters st" "counters (exit_finalize r e c st) = counters st"
  by (simp_all add: finalize_def exit_finalize_def counters_def Let_def split: option.splits)

definition bump :: "run_state \<Rightarrow> run_state" where
  "bump st = st\<lparr>rs_iteration := rs_iteration st + 1\<rparr>"

lemma counters_cong_bump: "counters (st\<lparr>rs_iteration := rs_iteration st + 1\<rparr>) = counters (bump st)"
  by (simp add: bump_def)

fun state_after :: "round_end \<Rightarrow> run_state" where
  "state_after (Goes s prev) = lx_state s"
| "state_after (Ends s) = lx_state s"

lemma reasoning_counters:
  "counters (state_after (reasoning_round X s hint no_tools)) = counters (bump (lx_state s))"
proof -
  have r: "counters (lx_state (rotate_message E ms (s'\<lparr>lx_run := rn\<rparr>))) = counters (lx_state s')"
    for E ms s' rn by simp
  show ?thesis
    by (auto simp: reasoning_round_def Let_def set_state_def bump_def r
        split: before_answer.splits prod.splits reasoning_outcome.splits)
qed

lemma acting_counters: "counters (state_after (acting_round X s calls)) = counters (lx_state s)"
  by (auto simp: acting_round_def Let_def set_state_def counters_def finalize_def
      split: prod.splits batch_end.splits)

lemma acting_prev: "acting_round X s calls = Goes s' prev \<Longrightarrow> prev = None"
  by (auto simp: acting_round_def Let_def split: prod.splits batch_end.splits)

lemma exit_counters: "counters (state_after (exit_round X s r e c)) = counters (lx_state s)"
  by (auto simp: exit_round_def Let_def set_state_def continue_with_def
      split: stop_answer.splits prod.splits) (simp_all add: counters_def)

lemma exit_goes: "exit_round X s r e c = Goes s' prev \<Longrightarrow> prev = None \<and> r = FR_COMPLETED"
  by (auto simp: exit_round_def Let_def split: stop_answer.splits if_splits)

lemma decide_cases:
  assumes "decide_action st prev = (st', act)"
  shows "(\<exists>hint no_tools. act = DoReason hint no_tools \<and>
        (st' = st \<and> prev = None \<and> \<not> over_limit st \<or>
         st' = st\<lparr>rs_empty_retries := rs_empty_retries st + 1\<rparr> \<and> rs_empty_retries st < 2 \<or>
         st' = st\<lparr>rs_in_finalization := True\<rparr> \<and> \<not> rs_in_finalization st)) \<or>
    (\<exists>calls. act = DoAct calls \<and> st' = st \<and> prev \<noteq> None) \<or>
    (\<exists>r e c. act = DoExit r e c \<and> st' = st \<and> (r = FR_COMPLETED \<longrightarrow> prev \<noteq> None))"
  using assms
  by (auto simp: decide_action_def decide_empty_def MAX_EMPTY_RESPONSE_RETRIES_def
      split: option.splits if_splits)

lemma round_bounds:
  assumes w: "within_bound m (lx_state s)" and m: "0 \<le> m"
  shows "within_bound m (state_after (loop_round X s prev))"
    and "loop_round X s prev = Goes s' prev' \<Longrightarrow> rounds_left m s' prev' < rounds_left m s prev"
proof -
  obtain st act where d: "decide_action (lx_state s) prev = (st, act)" by fastforce
  let ?s1 = "s\<lparr>lx_state := st\<rparr>"
  have "within_bound m (state_after (loop_round X s prev)) \<and>
    (\<forall>s' prev'. loop_round X s prev = Goes s' prev' \<longrightarrow> rounds_left m s' prev' < rounds_left m s prev)"
    using decide_cases [OF d]
  proof (elim disjE exE conjE)
    fix hint no_tools
    assume a: "act = DoReason hint no_tools"
      and "st = lx_state s" "prev = None" "\<not> over_limit (lx_state s)"
    then have lr: "loop_round X s prev = reasoning_round X ?s1 hint no_tools"
      using d by (simp add: loop_round_def)
    note c = reasoning_counters [of X ?s1 hint no_tools]
    have lim: "rs_iteration (lx_state s) < m"
      using \<open>\<not> over_limit (lx_state s)\<close> w by (auto simp: over_limit_def within_bound_def)
    have "within_bound m (bump (lx_state s))" using w lim by (auto simp: within_bound_def bump_def)
    then have "within_bound m (state_after (loop_round X s prev))"
      using within_bound_counters [OF c] \<open>st = lx_state s\<close> by (simp add: lr)
    moreover have "rounds_left m s' prev' < rounds_left m s prev"
      if "loop_round X s prev = Goes s' prev'" for s' prev'
    proof -
      have "reasoning_round X ?s1 hint no_tools = Goes s' prev'" using that by (simp only: lr)
      moreover have "nat (m - rs_iteration (lx_state s)) = Suc (nat (m - (rs_iteration (lx_state s) + 1)))"
        using lim by linarith
      ultimately show ?thesis using c \<open>st = lx_state s\<close> \<open>prev = None\<close>
        by (simp add: counters_def bump_def rounds_left_def)
    qed
    ultimately show ?thesis by blast
  next
    fix hint no_tools
    assume a: "act = DoReason hint no_tools"
      and st: "st = (lx_state s)\<lparr>rs_empty_retries := rs_empty_retries (lx_state s) + 1\<rparr>"
      and er: "rs_empty_retries (lx_state s) < 2"
    then have lr: "loop_round X s prev = reasoning_round X ?s1 hint no_tools"
      using d by (simp add: loop_round_def)
    note c = reasoning_counters [of X ?s1 hint no_tools]
    have "within_bound m (bump st)" using w er st by (auto simp: within_bound_def bump_def)
    then have "within_bound m (state_after (loop_round X s prev))"
      using within_bound_counters [OF c] by (simp add: lr)
    moreover have "rounds_left m s' prev' < rounds_left m s prev"
      if "loop_round X s prev = Goes s' prev'" for s' prev'
      using c that er by (auto simp: lr st counters_def bump_def rounds_left_def)
    ultimately show ?thesis by blast
  next
    fix hint no_tools
    assume a: "act = DoReason hint no_tools"
      and st: "st = (lx_state s)\<lparr>rs_in_finalization := True\<rparr>"
      and nf: "\<not> rs_in_finalization (lx_state s)"
    then have lr: "loop_round X s prev = reasoning_round X ?s1 hint no_tools"
      using d by (simp add: loop_round_def)
    note c = reasoning_counters [of X ?s1 hint no_tools]
    have "within_bound m (bump st)" using w nf st by (auto simp: within_bound_def bump_def)
    then have "within_bound m (state_after (loop_round X s prev))"
      using within_bound_counters [OF c] by (simp add: lr)
    moreover have "rounds_left m s' prev' < rounds_left m s prev"
      if "loop_round X s prev = Goes s' prev'" for s' prev'
      using c that nf by (auto simp: lr st counters_def bump_def rounds_left_def)
    ultimately show ?thesis by blast
  next
    fix calls assume "act = DoAct calls" and st: "st = lx_state s" and "prev \<noteq> None"
    then have lr: "loop_round X s prev = acting_round X ?s1 calls" using d by (simp add: loop_round_def)
    note c = acting_counters [of X ?s1 calls]
    have "within_bound m (state_after (loop_round X s prev))"
      using within_bound_counters [OF c] w st by (simp add: lr)
    moreover have "rounds_left m s' prev' < rounds_left m s prev"
      if "loop_round X s prev = Goes s' prev'" for s' prev'
      using c that st acting_prev [of X ?s1 calls s' prev'] \<open>prev \<noteq> None\<close>
      by (simp add: lr counters_def rounds_left_def)
    ultimately show ?thesis by blast
  next
    fix r e cd assume "act = DoExit r e cd" and st: "st = lx_state s"
      and p: "r = FR_COMPLETED \<longrightarrow> prev \<noteq> None"
    then have lr: "loop_round X s prev = exit_round X ?s1 r e cd" using d by (simp add: loop_round_def)
    note c = exit_counters [of X ?s1 r e cd]
    have "within_bound m (state_after (loop_round X s prev))"
      using within_bound_counters [OF c] w st by (simp add: lr)
    moreover have "rounds_left m s' prev' < rounds_left m s prev"
      if "loop_round X s prev = Goes s' prev'" for s' prev'
      using c that st exit_goes [of X ?s1 r e cd s' prev'] p
      by (simp add: lr counters_def rounds_left_def)
    ultimately show ?thesis by blast
  qed
  then show "within_bound m (state_after (loop_round X s prev))"
    and "loop_round X s prev = Goes s' prev' \<Longrightarrow> rounds_left m s' prev' < rounds_left m s prev"
    by blast+
qed

lemma loop_ends:
  "within_bound m (lx_state s) \<Longrightarrow> 0 \<le> m \<Longrightarrow> rounds_left m s prev < fuel \<Longrightarrow>
   \<exists>s'. react_loop fuel X s prev = Some s' \<and> within_bound m (lx_state s')"
proof (induction fuel arbitrary: s prev)
  case 0
  then show ?case by simp
next
  case (Suc fuel)
  note b = round_bounds [OF Suc.prems(1,2), of X prev]
  show ?case
  proof (cases "loop_round X s prev")
    case (Goes s' prev')
    then show ?thesis using Suc.IH [of s' prev'] b Suc.prems(2,3) by force
  next
    case (Ends s')
    then show ?thesis using b(1) by simp
  qed
qed

text \<open>
  C8: A run with a limit of \<open>m\<close> iterations always comes to an end, whatever the model, the
  tools and the hooks answer: \<open>2 m + 7\<close> rounds of the loop are enough, and at most \<open>m + 3\<close> of them are reasoning
  rounds, the three beyond the limit being the two retries and the one finalization
  after an empty answer. (One reasoning round may ask the provider several times, as often as its retries allow, see \<open>TurnExecutor\<close>.
  Tool and hook calls are taken to return.)
\<close>

theorem loop_is_bounded:
  assumes "rs_max_iterations (lx_state s) = Some m" and "0 \<le> m" and "rs_iteration (lx_state s) = 0"
    and "rs_empty_retries (lx_state s) = 0" and "\<not> rs_in_finalization (lx_state s)"
    and "2 * nat m + 7 \<le> fuel"
  shows "\<exists>s'. react_loop fuel X s None = Some s' \<and> rs_iteration (lx_state s') \<le> m + 3"
proof -
  have "within_bound m (lx_state s)" using assms by (simp add: within_bound_def)
  moreover have "rounds_left m s None < fuel" using assms by (simp add: rounds_left_def)
  ultimately obtain s' where "react_loop fuel X s None = Some s'" "within_bound m (lx_state s')"
    using loop_ends assms(2) by blast
  then show ?thesis by (auto simp: within_bound_def split: if_splits)
qed

definition idle_state :: "int \<Rightarrow> loop_state" where
  "idle_state m = \<lparr>lx_state = \<lparr>rs_status = RUN_RUNNING, rs_iteration = 0, rs_done_reason = None,
       rs_error = None, rs_error_code = None, rs_reply_id = ''r'', rs_message_id = ''m'',
       rs_empty_retries = 0, rs_in_finalization = False, rs_max_iterations = Some m,
       rs_continuation_count = 0, rs_max_continuations = 3\<rparr>,
     lx_run = empty_run, lx_executed = [], lx_last = None, lx_raised = False\<rparr>"

text \<open>A model that never says anything.\<close>

definition silent_env :: react_env where
  "silent_env = \<lparr>rx_before = (\<lambda>k. Contributes []),
     rx_llm = (\<lambda>k no_tools. sample_env (\<lambda>j. ([FinishChunk (sample_finish ''stop'')], None))),
     rx_tools = (\<lambda>k. sample_tools), rx_stop = (\<lambda>k. ContinueTurn ''go on''),
     rx_cancel_set = (\<lambda>k. False), rx_max_retries = 0\<rparr>"

lemma loop_is_bounded_witness:
  "\<exists>s'. react_loop 107 silent_env (idle_state 50) None = Some s' \<and> rs_iteration (lx_state s') \<le> 53"
  using loop_is_bounded [of "idle_state 50" 50 107 silent_env] by (simp add: idle_state_def)

section \<open>How the loop ends\<close>

definition settled :: "run_state \<Rightarrow> bool" where
  "settled st \<longleftrightarrow> is_done st \<and> (\<exists>r. rs_done_reason st = Some r \<and> rs_status st = status_of_reason r)"

lemma settled_finalize [simp]: "settled (finalize r st)"
  by (cases r) (simp_all add: settled_def finalize_def is_done_def)

lemma settled_exit [simp]: "settled (exit_finalize r e c st)"
  by (cases r) (auto simp: settled_def exit_finalize_def is_done_def Let_def split: option.splits)

fun is_approval :: "event_data \<Rightarrow> bool" where
  "is_approval (ApprovalAsked d) = True"
| "is_approval _ = False"

definition asked_approval :: "emitted list \<Rightarrow> bool" where
  "asked_approval es \<longleftrightarrow> list_ex (\<lambda>e. is_approval (snd e)) es"

lemma asked_approval_append [simp]:
  "asked_approval (xs @ ys) \<longleftrightarrow> asked_approval xs \<or> asked_approval ys"
  by (simp add: asked_approval_def)

lemma ask_approval_asks [simp]: "asked_approval (ac_events (ask_approval mid s cr))"
  by (simp add: ask_approval_def tell_def mark_def asked_approval_def)

lemma ask_keeps_asked:
  "asked_approval (ac_events s) \<Longrightarrow> asked_approval (ac_events (foldl (ask_approval mid) s crs))"
  by (induction crs arbitrary: s) simp_all

lemma asked_by_fold: "crs \<noteq> [] \<Longrightarrow> asked_approval (ac_events (foldl (ask_approval mid) s crs))"
  by (cases crs) (simp_all add: ask_keeps_asked)

lemma paused_batch_asked:
  "execute_calls E T mid calls s = (a, BatchPaused) \<Longrightarrow> asked_approval (ac_events a)"
  by (auto simp: execute_calls_def Let_def intro: asked_by_fold split: prod.splits if_splits)

definition left_properly :: "loop_state \<Rightarrow> bool" where
  "left_properly s \<longleftrightarrow> settled (lx_state s) \<or>
     rs_status (lx_state s) = PAUSED \<and> asked_approval (rn_events (lx_run s))"

lemma round_leaves_properly: "loop_round X s prev = Ends s' \<Longrightarrow> left_properly s'"
proof -
  assume r: "loop_round X s prev = Ends s'"
  obtain st act where d: "decide_action (lx_state s) prev = (st, act)" by fastforce
  show ?thesis
  proof (cases act)
    case (DoReason hint no_tools)
    then show ?thesis using r d
      by (auto simp: loop_round_def reasoning_round_def Let_def set_state_def left_properly_def
          split: before_answer.splits prod.splits reasoning_outcome.splits)
  next
    case (DoExit fr e c)
    then show ?thesis using r d
      by (auto simp: loop_round_def exit_round_def Let_def set_state_def left_properly_def
          split: stop_answer.splits if_splits)
  next
    case (DoAct calls)
    then show ?thesis using r d
      by (auto simp: loop_round_def acting_round_def Let_def set_state_def left_properly_def
          dest: paused_batch_asked split: batch_end.splits prod.splits)
  qed
qed

text \<open>
  C9: However the loop of a run is left, it is left in a state the host can read: either finished,
  with a reason of the run and the status that belongs to that reason, or paused, and then a request
  for approval has been published.
\<close>

theorem loop_leaves_properly:
  assumes "react_loop fuel X s prev = Some s'"
  shows "settled (lx_state s') \<or>
    rs_status (lx_state s') = PAUSED \<and> asked_approval (rn_events (lx_run s'))"
  using assms
  by (induction fuel X s prev rule: react_loop.induct)
    (auto simp: left_properly_def dest: round_leaves_properly split: round_end.splits)

lemma loop_leaves_properly_witness:
  "\<exists>s'. react_loop 107 silent_env (idle_state 50) None = Some s' \<and>
     (settled (lx_state s') \<or> rs_status (lx_state s') = PAUSED \<and> asked_approval (rn_events (lx_run s')))"
proof -
  have "within_bound 50 (lx_state (idle_state 50))" and "rounds_left 50 (idle_state 50) None < 107"
    by (simp_all add: within_bound_def rounds_left_def idle_state_def)
  then obtain s' where "react_loop 107 silent_env (idle_state 50) None = Some s'"
    using loop_ends by (metis zero_le_numeral)
  then show ?thesis using loop_leaves_properly by blast
qed

end
