(* ===== verification/Provider.thy ===== *)
theory Provider
  imports Acting WireNormalize
begin

text \<open>
  Between the messages of the agent and those of a provider
  (\<open>packages/ftre-agent/src/ftre_agent/message/_convert.py\<close> and the conversion half of
  \<open>packages/ftre-agent-runtime/src/ftre_agent_runtime/message_context.py\<close>): one content part
  and one block, one message and a list of blocks, one stored message and the sequence of
  provider messages it stands for.

  \<open>provider_lib\<close> is what the code takes from outside: \<open>str\<close> and friends, \<open>json.dumps\<close> and
  \<open>json.loads\<close>, and reading a file as base64 text. Default ids and times of new blocks are
  arguments.
\<close>

record provider_lib =
  pl_lib :: pylib
  pl_dumps :: "json \<Rightarrow> string"
  pl_loads :: "string \<Rightarrow> json option"
  pl_read :: "json \<Rightarrow> string option"

abbreviation newline :: string where
  "newline \<equiv> [CHR 0x0A]"

section \<open>From blocks to provider messages\<close>

definition opt_jstr :: "string option \<Rightarrow> json" where
  "opt_jstr x = (case x of None \<Rightarrow> JNull | Some s \<Rightarrow> JStr s)"

definition source_json :: "source \<Rightarrow> json" where
  "source_json s = (case s of
     Base64Source d m \<Rightarrow> JObj [(''type'', JStr ''base64''), (''data'', JStr d), (''media_type'', JStr m)]
   | URLSource u m \<Rightarrow> JObj [(''type'', JStr ''url''), (''url'', JStr u), (''media_type'', JStr m)])"

definition data_block_json :: "data_block \<Rightarrow> json" where
  "data_block_json b = JObj [(''type'', JStr ''data''), (''source'', source_json (db_source b)),
     (''name'', opt_jstr (db_name b)), (''id'', JStr (db_id b)), (''created_at'', JStr (db_created_at b)),
     (''finished_at'', opt_jstr (db_finished_at b))]"

definition output_chunk :: "provider_lib \<Rightarrow> out_part \<Rightarrow> string" where
  "output_chunk B p = (case p of
     OutText t \<Rightarrow> tb_text t
   | OutData d \<Rightarrow> pl_dumps B (data_block_json d)
   | OutRaw v \<Rightarrow>
       if is_obj v \<and> jget ''type'' v = Some (JStr ''text'')
       then py_str (pl_lib B) (case jget ''text'' v of None \<Rightarrow> JStr [] | Some t \<Rightarrow> t)
       else pl_dumps B v)"

definition tool_result_content :: "provider_lib \<Rightarrow> tool_output \<Rightarrow> string" where
  "tool_result_content B out = (case out of
     OutputText s \<Rightarrow> s
   | OutputParts ps \<Rightarrow> join_with newline (filter (\<lambda>c. c \<noteq> []) (map (output_chunk B) ps)))"

definition text_part :: "string \<Rightarrow> json" where
  "text_part s = JObj [(''type'', JStr ''text''), (''text'', JStr s)]"

definition image_part :: "string \<Rightarrow> json" where
  "image_part url = JObj [(''type'', JStr ''image_url''), (''image_url'', JObj [(''url'', JStr url)])]"

definition data_url :: "source \<Rightarrow> string" where
  "data_url s = (case s of Base64Source d m \<Rightarrow> ''data:'' @ m @ '';base64,'' @ d | URLSource u m \<Rightarrow> u)"

definition str_value :: "json \<Rightarrow> string result" where
  "str_value v = (case v of JStr s \<Rightarrow> Inr s | _ \<Rightarrow> Inl TypeError)"

text \<open>The texts of the text parts of a hint; joining them refuses one that is not a string.\<close>

definition hint_text :: "hint \<Rightarrow> string result" where
  "hint_text h = (case h of
     HintText s \<Rightarrow> Inr s
   | HintParts ps \<Rightarrow>
       bind_r (map_r (\<lambda>p. str_value (case jget ''text'' p of None \<Rightarrow> JStr [] | Some t \<Rightarrow> t))
           (filter (\<lambda>p. jget ''type'' p = Some (JStr ''text'')) ps))
         (\<lambda>ts. Inr (join_with newline ts)))"

definition to_openai_part :: "provider_lib \<Rightarrow> content_block \<Rightarrow> json result" where
  "to_openai_part B b = (case b of
     TextB t \<Rightarrow> Inr (text_part (tb_text t))
   | ThinkingB t \<Rightarrow> Inr (JObj [(''type'', JStr ''thinking''), (''thinking'', JStr (thb_thinking t))])
   | DataB d \<Rightarrow> Inr (image_part (data_url (db_source d)))
   | HintB h \<Rightarrow> bind_r (hint_text (hb_hint h)) (\<lambda>s. Inr (text_part s))
   | ToolCallB c \<Rightarrow> Inr (JObj [(''type'', JStr ''toolCall''), (''id'', JStr (tcb_id c)),
       (''name'', JStr (tcb_name c)), (''arguments'', JObj (tcb_arguments c))])
   | ToolResultB r \<Rightarrow> Inr (text_part (tool_result_content B (trb_output r)))
   | ExtensionB e \<Rightarrow> Inr (text_part (pl_dumps B (JObj (eb_data e)))))"

definition role_string :: "role \<Rightarrow> string" where
  "role_string r = (case r of RoleUser \<Rightarrow> ''user'' | RoleAssistant \<Rightarrow> ''assistant'' | RoleSystem \<Rightarrow> ''system'')"

definition call_json :: "provider_lib \<Rightarrow> tool_call_block \<Rightarrow> json" where
  "call_json B c = JObj [(''id'', JStr (tcb_id c)), (''type'', JStr ''function''),
     (''function'', JObj [(''name'', JStr (tcb_name c)), (''arguments'', JStr (pl_dumps B (JObj (tcb_arguments c))))])]"

definition thinkings_of :: "content_block list \<Rightarrow> string list" where
  "thinkings_of bs = concat (map (\<lambda>b. case b of ThinkingB t \<Rightarrow> [thb_thinking t] | _ \<Rightarrow> []) bs)"

text \<open>\<open>to_openai_message(blocks, role="tool")\<close>: the first result of the blocks.\<close>

definition tool_message :: "provider_lib \<Rightarrow> tool_result_block option \<Rightarrow> jdict" where
  "tool_message B r = [(''role'', JStr ''tool''),
     (''tool_call_id'', JStr (case r of None \<Rightarrow> [] | Some x \<Rightarrow> trb_id x)),
     (''content'', JStr (case r of None \<Rightarrow> [] | Some x \<Rightarrow> tool_result_content B (trb_output x)))]"

definition is_part :: "content_block \<Rightarrow> bool" where
  "is_part b = (case b of ToolCallB c \<Rightarrow> False | ThinkingB t \<Rightarrow> False | _ \<Rightarrow> True)"

text \<open>The other roles.\<close>

definition to_openai_message :: "provider_lib \<Rightarrow> content_block list \<Rightarrow> role \<Rightarrow> jdict result" where
  "to_openai_message B bs r =
     bind_r (map_r (to_openai_part B) (filter is_part bs)) (\<lambda>parts.
       Inr ([(''role'', JStr (role_string r)), (''content'', if parts = [] then JStr [] else JList parts)] @
         (if r = RoleAssistant then [(''reasoning_content'', JStr (join_with newline (thinkings_of bs)))] else []) @
         (if calls_of bs = [] then [] else [(''tool_calls'', JList (map (call_json B) (calls_of bs)))])))"

section \<open>One stored message, several provider messages\<close>

record unfolding_state =
  uf_messages :: "jdict list"
  uf_pending :: "content_block list"
  uf_reasoning_used :: bool
  uf_groups_used :: nat

definition add_reasoning :: "json option \<Rightarrow> bool \<Rightarrow> jdict \<Rightarrow> jdict" where
  "add_reasoning reasoning used d =
     (case reasoning of
        Some v \<Rightarrow> if \<not> used \<and> jtruthy v \<and> \<not> truthy_key d ''reasoning_content''
          then dict_set ''reasoning_content'' v d else d
      | None \<Rightarrow> d)"

definition add_group :: "json list \<Rightarrow> nat \<Rightarrow> jdict \<Rightarrow> jdict" where
  "add_group groups used d =
     (if used < length groups
      then (case groups ! used of
          JList items \<Rightarrow> if items = [] then d
            else dict_set ''responses_output_items'' (JList (filter is_obj items)) d
        | _ \<Rightarrow> d)
      else d)"

definition flush_assistant ::
  "provider_lib \<Rightarrow> role \<Rightarrow> json option \<Rightarrow> json list \<Rightarrow> unfolding_state \<Rightarrow> unfolding_state result" where
  "flush_assistant B r reasoning groups s =
     (if uf_pending s = [] then Inr s
      else bind_r (to_openai_message B (uf_pending s) r) (\<lambda>d.
        Inr (s\<lparr>uf_messages := uf_messages s @
                 [add_group groups (uf_groups_used s) (add_reasoning reasoning (uf_reasoning_used s) d)],
               uf_pending := [], uf_reasoning_used := True,
               uf_groups_used := (if uf_groups_used s < length groups then uf_groups_used s + 1 else uf_groups_used s)\<rparr>)))"

definition hint_message :: "provider_lib \<Rightarrow> hint_block \<Rightarrow> jdict result" where
  "hint_message B h = (case hb_hint h of
     HintText s \<Rightarrow> Inr [(''role'', JStr ''user''), (''content'', JStr s)]
   | HintParts ps \<Rightarrow> to_openai_message B [HintB h] RoleUser)"

definition unfold_block ::
  "provider_lib \<Rightarrow> role \<Rightarrow> json option \<Rightarrow> json list \<Rightarrow> unfolding_state \<Rightarrow> content_block \<Rightarrow> unfolding_state result" where
  "unfold_block B r reasoning groups s b =
     (case b of
        HintB h \<Rightarrow> bind_r (flush_assistant B r reasoning groups s) (\<lambda>s'.
          bind_r (hint_message B h) (\<lambda>d. Inr (s'\<lparr>uf_messages := uf_messages s' @ [d]\<rparr>)))
      | ToolResultB x \<Rightarrow> bind_r (flush_assistant B r reasoning groups s) (\<lambda>s'.
          Inr (s'\<lparr>uf_messages := uf_messages s' @ [tool_message B (Some x)]\<rparr>))
      | _ \<Rightarrow> Inr (s\<lparr>uf_pending := uf_pending s @ [b]\<rparr>))"

definition group_list :: "jdict \<Rightarrow> json list" where
  "group_list meta = (case dict_get meta ''responses_output_item_groups'' of Some (JList gs) \<Rightarrow> gs | _ \<Rightarrow> [])"

definition msg_to_dicts :: "provider_lib \<Rightarrow> msg \<Rightarrow> jdict list result" where
  "msg_to_dicts B m =
     (let reasoning = dict_get (msg_metadata m) ''reasoning_content''; groups = group_list (msg_metadata m);
          s0 = \<lparr>uf_messages = [], uf_pending = [], uf_reasoning_used = False, uf_groups_used = 0\<rparr>
      in bind_r (fold_r (unfold_block B (msg_role m) reasoning groups) s0 (msg_content m)) (\<lambda>s.
         bind_r (flush_assistant B (msg_role m) reasoning groups s) (\<lambda>s'.
           if uf_messages s' \<noteq> [] then Inr (uf_messages s')
           else bind_r (to_openai_message B [] (msg_role m)) (\<lambda>d.
             Inr [case reasoning of Some v \<Rightarrow> if jtruthy v then dict_set ''reasoning_content'' v d else d
                  | None \<Rightarrow> d]))))"

definition context_messages :: "provider_lib \<Rightarrow> msg list \<Rightarrow> jdict list result" where
  "context_messages B ms = bind_r (map_r (msg_to_dicts B) ms) (\<lambda>dss. Inr (concat dss))"

definition get_messages :: "provider_lib \<Rightarrow> msg list \<Rightarrow> string \<Rightarrow> jdict list result" where
  "get_messages B ms system_prompt =
     bind_r (context_messages B ms) (\<lambda>ds.
       Inr ([(''role'', JStr ''system''), (''content'', JStr system_prompt)] # ds))"

section \<open>Calls and their results on the wire\<close>

datatype exchange = Call json | Answer jdict

definition wire_calls :: "jdict \<Rightarrow> json list" where
  "wire_calls d = (case dict_get d ''tool_calls'' of Some (JList cs) \<Rightarrow> cs | _ \<Rightarrow> [])"

definition wire_exchanges :: "jdict list \<Rightarrow> exchange list" where
  "wire_exchanges ds = concat (map (\<lambda>d. if is_tool d then [Answer d] else map Call (wire_calls d)) ds)"

definition block_exchanges :: "provider_lib \<Rightarrow> content_block list \<Rightarrow> exchange list" where
  "block_exchanges B bs = concat (map (\<lambda>b. case b of
     ToolCallB c \<Rightarrow> [Call (call_json B c)]
   | ToolResultB r \<Rightarrow> [Answer (tool_message B (Some r))]
   | _ \<Rightarrow> []) bs)"

lemma wire_exchanges_simps [simp]:
  "wire_exchanges [] = []" "wire_exchanges (ds @ es) = wire_exchanges ds @ wire_exchanges es"
  by (simp_all add: wire_exchanges_def)

lemma block_exchanges_simps [simp]:
  "block_exchanges B [] = []" "block_exchanges B (bs @ cs) = block_exchanges B bs @ block_exchanges B cs"
  by (simp_all add: block_exchanges_def)

lemma tool_message_wire [simp]: "wire_exchanges [tool_message B r] = [Answer (tool_message B r)]"
  by (simp add: wire_exchanges_def is_tool_def role_of_def tool_message_def)

definition held :: "content_block \<Rightarrow> bool" where
  "held b = (case b of HintB h \<Rightarrow> False | ToolResultB r \<Rightarrow> False | _ \<Rightarrow> True)"

lemma held_exchanges: "list_all held bs \<Longrightarrow> block_exchanges B bs = map (Call \<circ> call_json B) (calls_of bs)"
proof (induction bs)
  case Nil
  then show ?case by (simp add: calls_of_def List.map_filter_simps)
next
  case (Cons b bs)
  then show ?case
    by (cases b) (simp_all add: held_def block_exchanges_def calls_of_def List.map_filter_simps)
qed

lemma message_keys:
  assumes "to_openai_message B bs r = Inr d"
  shows "dict_get d ''role'' = Some (JStr (role_string r))"
    and "wire_calls d = map (call_json B) (calls_of bs)"
  using assms by (auto simp: to_openai_message_def result_simps wire_calls_def)

lemma same_wire:
  assumes "dict_get d' ''role'' = dict_get d ''role''" and "dict_get d' ''tool_calls'' = dict_get d ''tool_calls''"
    and "\<not> is_tool d"
  shows "wire_exchanges [d'] = map Call (wire_calls d)"
  using assms by (simp add: wire_exchanges_def is_tool_def role_of_def wire_calls_def)

lemma extras_keep [simp]:
  "dict_get (add_group gs n (add_reasoning v u d)) ''role'' = dict_get d ''role''"
  "dict_get (add_group gs n (add_reasoning v u d)) ''tool_calls'' = dict_get d ''tool_calls''"
  by (auto simp: add_group_def add_reasoning_def split: json.split option.split)

lemma message_wire:
  assumes "to_openai_message B bs r = Inr d" and "list_all held bs"
    and "dict_get d' ''role'' = dict_get d ''role''" and "dict_get d' ''tool_calls'' = dict_get d ''tool_calls''"
  shows "wire_exchanges [d'] = block_exchanges B bs"
proof -
  have "\<not> is_tool d"
    using message_keys(1) [OF assms(1)] by (cases r) (auto simp: is_tool_def role_of_def role_string_def)
  then have "wire_exchanges [d'] = map Call (wire_calls d)"
    using assms(3,4) by (intro same_wire)
  then show ?thesis by (simp add: message_keys(2) [OF assms(1)] held_exchanges [OF assms(2)])
qed

definition progress :: "provider_lib \<Rightarrow> unfolding_state \<Rightarrow> exchange list" where
  "progress B s = wire_exchanges (uf_messages s) @ block_exchanges B (uf_pending s)"

lemma flush_progress:
  assumes "flush_assistant B r v gs s = Inr s'" and "list_all held (uf_pending s)"
  shows "progress B s' = progress B s \<and> uf_pending s' = [] \<and> (uf_messages s' = [] \<longleftrightarrow> uf_messages s = [] \<and> uf_pending s = [])"
proof (cases "uf_pending s = []")
  case True
  then show ?thesis using assms(1) by (simp add: flush_assistant_def)
next
  case False
  then obtain d where d: "to_openai_message B (uf_pending s) r = Inr d"
    and s': "s' = s\<lparr>uf_messages := uf_messages s @
                 [add_group gs (uf_groups_used s) (add_reasoning v (uf_reasoning_used s) d)],
               uf_pending := [], uf_reasoning_used := True,
               uf_groups_used := (if uf_groups_used s < length gs then uf_groups_used s + 1 else uf_groups_used s)\<rparr>"
    using assms(1) by (auto simp: flush_assistant_def result_simps)
  have "wire_exchanges [add_group gs (uf_groups_used s) (add_reasoning v (uf_reasoning_used s) d)] =
      block_exchanges B (uf_pending s)"
    by (rule message_wire [OF d assms(2)]) simp_all
  then show ?thesis using False by (simp add: s' progress_def)
qed

lemma hint_message_wire: "hint_message B h = Inr d \<Longrightarrow> wire_exchanges [d] = []"
proof (cases "hb_hint h")
  case (HintText s)
  then show "hint_message B h = Inr d \<Longrightarrow> ?thesis"
    by (auto simp: hint_message_def wire_exchanges_def is_tool_def role_of_def wire_calls_def)
next
  case (HintParts ps)
  assume "hint_message B h = Inr d"
  then have m: "to_openai_message B [HintB h] RoleUser = Inr d" using HintParts by (simp add: hint_message_def)
  have "\<not> is_tool d" using message_keys(1) [OF m] by (simp add: is_tool_def role_of_def role_string_def)
  then show ?thesis using message_keys(2) [OF m]
    by (simp add: wire_exchanges_def calls_of_def List.map_filter_simps)
qed

lemma unfold_progress:
  assumes "unfold_block B r v gs s b = Inr s'" and "list_all held (uf_pending s)"
  shows "progress B s' = progress B s @ block_exchanges B [b] \<and> list_all held (uf_pending s')"
proof (cases "held b")
  case True
  then have "s' = s\<lparr>uf_pending := uf_pending s @ [b]\<rparr>"
    using assms(1) by (cases b) (auto simp: unfold_block_def held_def)
  then show ?thesis using assms(2) True by (simp add: progress_def)
next
  case False
  then obtain t d where t: "flush_assistant B r v gs s = Inr t" and s': "s' = t\<lparr>uf_messages := uf_messages t @ [d]\<rparr>"
    and d: "wire_exchanges [d] = block_exchanges B [b]"
    using assms(1)
    by (cases b) (auto simp: unfold_block_def held_def result_simps block_exchanges_def dest: hint_message_wire)
  then show ?thesis using flush_progress [OF t assms(2)] by (auto simp: progress_def)
qed

lemma unfold_all_progress:
  assumes "fold_r (unfold_block B r v gs) s bs = Inr s'" and "list_all held (uf_pending s)"
  shows "progress B s' = progress B s @ block_exchanges B bs \<and> list_all held (uf_pending s')"
  using assms
proof (induction bs arbitrary: s)
  case Nil
  then show ?case by simp
next
  case (Cons b bs)
  from Cons.prems(1) obtain t where t: "unfold_block B r v gs s b = Inr t"
    and rest: "fold_r (unfold_block B r v gs) t bs = Inr s'"
    by (auto simp: result_simps)
  note step = unfold_progress [OF t Cons.prems(2)]
  have "progress B s' = progress B t @ block_exchanges B bs \<and> list_all held (uf_pending s')"
    using step by (intro Cons.IH [OF rest]) simp
  then show ?case using step block_exchanges_simps(2) [of B "[b]" bs] by simp
qed

lemma msg_to_dicts_wire:
  assumes "msg_to_dicts B m = Inr ds"
  shows "wire_exchanges ds = block_exchanges B (msg_content m)"
proof -
  define v where "v = dict_get (msg_metadata m) ''reasoning_content''"
  define gs where "gs = group_list (msg_metadata m)"
  define s0 where "s0 = \<lparr>uf_messages = [], uf_pending = [], uf_reasoning_used = False, uf_groups_used = 0\<rparr>"
  obtain s s' where s: "fold_r (unfold_block B (msg_role m) v gs) s0 (msg_content m) = Inr s"
    and s': "flush_assistant B (msg_role m) v gs s = Inr s'"
    and out: "(if uf_messages s' \<noteq> [] then Inr (uf_messages s')
           else bind_r (to_openai_message B [] (msg_role m)) (\<lambda>d.
             Inr [case v of Some v \<Rightarrow> if jtruthy v then dict_set ''reasoning_content'' v d else d
                  | None \<Rightarrow> d])) = Inr ds"
    using assms by (auto simp: msg_to_dicts_def Let_def result_simps v_def [symmetric] gs_def [symmetric] s0_def [symmetric])
  have "progress B s = block_exchanges B (msg_content m)" "list_all held (uf_pending s)"
    using unfold_all_progress [OF s] by (simp_all add: s0_def progress_def)
  with flush_progress [OF s'] have p: "wire_exchanges (uf_messages s') = block_exchanges B (msg_content m)"
    by (auto simp: progress_def)
  show ?thesis
  proof (cases "uf_messages s' = []")
    case False
    then show ?thesis using out p by simp
  next
    case True
    then obtain d where d: "to_openai_message B [] (msg_role m) = Inr d"
      and ds: "ds = [case v of Some v \<Rightarrow> if jtruthy v then dict_set ''reasoning_content'' v d else d | None \<Rightarrow> d]"
      using out by (auto simp: result_simps)
    have "wire_exchanges ds = block_exchanges B []"
      unfolding ds by (rule message_wire [OF d]) (auto split: option.split)
    then show ?thesis using True p by simp
  qed
qed

text \<open>
  C14: The conversion of a context to provider messages loses no exchange. What \<open>get_messages\<close> builds from the messages of the
  context it is given carries every tool call and every tool result of them exactly once and in their order, behind the
  system prompt, however the blocks of a reply are spread over provider messages. (What an adapter then makes of these
  messages, dropping calls without a result and results without a call, is \<open>WireNormalize\<close>; which messages the context has,
  after a compaction for instance, is \<open>ContextView\<close>.)
\<close>

theorem exchanges_survive_conversion:
  assumes "get_messages B ms system_prompt = Inr ds"
  shows "hd ds = [(''role'', JStr ''system''), (''content'', JStr system_prompt)] \<and>
    wire_exchanges ds = block_exchanges B (context_blocks ms)"
proof -
  obtain dss where dss: "map_r (msg_to_dicts B) ms = Inr dss"
    and ds: "ds = [(''role'', JStr ''system''), (''content'', JStr system_prompt)] # concat dss"
    using assms by (auto simp: get_messages_def context_messages_def result_simps)
  have "list_all2 (\<lambda>m ds. msg_to_dicts B m = Inr ds) ms dss" using dss by (simp add: map_r_Inr_iff)
  then have "wire_exchanges (concat dss) = block_exchanges B (context_blocks ms)"
    by (induction rule: list_all2_induct) (simp_all add: context_blocks_def msg_to_dicts_wire)
  moreover have "wire_exchanges [[(''role'', JStr ''system''), (''content'', JStr system_prompt)]] = []"
    by (simp add: wire_exchanges_def is_tool_def role_of_def wire_calls_def)
  ultimately show ?thesis
    using wire_exchanges_simps(2) [of "[[(''role'', JStr ''system''), (''content'', JStr system_prompt)]]" "concat dss"]
    by (simp add: ds)
qed

definition sample_provider :: provider_lib where
  "sample_provider = \<lparr>pl_lib = \<lparr>lib_str = (\<lambda>j. []), lib_dumps = (\<lambda>j. []), lib_digest = (\<lambda>j. []),
       lib_text_digest = (\<lambda>s. s), lib_int = (\<lambda>s. Inl ValueError), lib_dict = (\<lambda>j. Inl TypeError)\<rparr>,
     pl_dumps = (\<lambda>j. ''{}''), pl_loads = (\<lambda>s. if s = ''{}'' then Some (JObj []) else None),
     pl_read = (\<lambda>p. None)\<rparr>"

definition sample_call :: tool_call_block where
  "sample_call = sample_block ''c'' FINISHED"

definition sample_answer :: tool_result_block where
  "sample_answer = \<lparr>trb_id = ''c'', trb_name = ''bash'', trb_output = OutputText ''ok'', trb_state = SUCCESS,
     trb_metadata = [], trb_created_at = [], trb_finished_at = None\<rparr>"

lemma exchanges_survive_conversion_witness:
  "\<exists>ds. get_messages sample_provider [base_msg RoleAssistant DEFAULT [ToolCallB sample_call, ToolResultB sample_answer] ''m'' []] ''p'' = Inr ds \<and>
     length ds = 3 \<and> wire_exchanges ds = [Call (call_json sample_provider sample_call),
       Answer (tool_message sample_provider (Some sample_answer))]"
proof -
  let ?ms = "[base_msg RoleAssistant DEFAULT [ToolCallB sample_call, ToolResultB sample_answer] ''m'' []]"
  have e: "\<exists>ds. get_messages sample_provider ?ms ''p'' = Inr ds \<and> length ds = 3"
    by (simp add: get_messages_def context_messages_def msg_to_dicts_def base_msg_def Let_def unfold_block_def
        flush_assistant_def to_openai_message_def is_part_def)
  then obtain ds where ds: "get_messages sample_provider ?ms ''p'' = Inr ds" "length ds = 3" by blast
  from exchanges_survive_conversion [OF ds(1)] ds show ?thesis
    by (simp add: context_blocks_def block_exchanges_def)
qed

section \<open>From provider messages to blocks\<close>

text \<open>
  A new block takes the default id and time it is given. The validation of the block classes
  refuses a field of the wrong type.
\<close>

definition str_field :: "json \<Rightarrow> string result" where
  "str_field v = (case v of JStr s \<Rightarrow> Inr s | _ \<Rightarrow> Inl ValueError)"

definition opt_str_field :: "json \<Rightarrow> string option result" where
  "opt_str_field v = (case v of JNull \<Rightarrow> Inr None | JStr s \<Rightarrow> Inr (Some s) | _ \<Rightarrow> Inl ValueError)"

definition dict_field :: "json \<Rightarrow> jdict result" where
  "dict_field v = (case v of JObj d \<Rightarrow> Inr d | _ \<Rightarrow> Inl ValueError)"

definition new_text :: "string \<Rightarrow> string \<Rightarrow> string \<Rightarrow> content_block" where
  "new_text now s i = TextB \<lparr>tb_text = s, tb_id = i, tb_created_at = now, tb_finished_at = None\<rparr>"

definition new_thinking :: "string \<Rightarrow> string \<Rightarrow> string \<Rightarrow> content_block" where
  "new_thinking now s i = ThinkingB \<lparr>thb_thinking = s, thb_id = i, thb_created_at = now, thb_finished_at = None\<rparr>"

definition new_data :: "string \<Rightarrow> source \<Rightarrow> string option \<Rightarrow> string \<Rightarrow> content_block" where
  "new_data now src n i = DataB \<lparr>db_source = src, db_name = n, db_id = i, db_created_at = now, db_finished_at = None\<rparr>"

definition new_call :: "string \<Rightarrow> string \<Rightarrow> string \<Rightarrow> jdict \<Rightarrow> content_block" where
  "new_call now i n args = ToolCallB \<lparr>tcb_id = i, tcb_name = n, tcb_arguments = args, tcb_state = PENDING,
     tcb_created_at = now, tcb_finished_at = None\<rparr>"

text \<open>\<open>data:image/png;base64,xxxx\<close>: the media type and whether the payload is base64.\<close>

definition partition_comma :: "string \<Rightarrow> string \<times> string" where
  "partition_comma s = (takeWhile (\<lambda>c. c \<noteq> CHR '','') s, drop 1 (dropWhile (\<lambda>c. c \<noteq> CHR '','') s))"

definition source_of_url :: "string \<Rightarrow> source" where
  "source_of_url url =
     (if has_prefix ''data:'' url
      then let (header, payload) = partition_comma url;
               mt = str_or (drop 5 (takeWhile (\<lambda>c. c \<noteq> CHR '';'') header)) ''image/png''
        in if str_contains '';base64'' header then Base64Source payload mt else URLSource url mt
      else URLSource url ''image/png'')"

definition load_failed :: "string \<Rightarrow> string" where
  "load_failed path = ''['' @ bytes [229, 155, 190, 231, 137, 135, 229, 138, 160, 232, 189, 189, 229, 164, 177, 232, 180, 165] @
     '': '' @ path @ '']''"

definition from_openai_part :: "provider_lib \<Rightarrow> string \<Rightarrow> jdict \<Rightarrow> (string \<Rightarrow> content_block) result" where
  "from_openai_part B now d =
     (let ptype = get_or d ''type'' (JStr ''text'')
      in if ptype = JStr ''text'' then bind_r (str_field (get_or d ''text'' (JStr []))) (\<lambda>s. Inr (new_text now s))
         else if ptype = JStr ''thinking''
         then bind_r (str_field (get_or d ''thinking'' (JStr []))) (\<lambda>s. Inr (new_thinking now s))
         else if ptype = JStr ''image_url''
         then let info = get_or d ''image_url'' (JObj [])
           in bind_r (case info of JObj u \<Rightarrow> (case get_or u ''url'' (JStr []) of JStr s \<Rightarrow> Inr s | _ \<Rightarrow> Inl AttributeError)
                | v \<Rightarrow> Inr (py_str (pl_lib B) v)) (\<lambda>url.
              bind_r (opt_str_field (get_or d ''name'' JNull)) (\<lambda>n. Inr (new_data now (source_of_url url) n)))
         else if ptype = JStr ''image_file''
         then let path = get_or d ''path'' (JStr [])
           in (case pl_read B path of
                None \<Rightarrow> Inr (new_text now (load_failed (py_str (pl_lib B) path)))
              | Some b64 \<Rightarrow>
                  bind_r (str_field (get_or d ''mime_type'' (JStr ''image/png''))) (\<lambda>mime.
                  bind_r (opt_str_field (get_or d ''name'' JNull)) (\<lambda>n. Inr (new_data now (Base64Source b64 mime) n))))
         else if ptype = JStr ''toolCall''
         then bind_r (str_field (get_or d ''id'' (JStr []))) (\<lambda>i.
              bind_r (str_field (get_or d ''name'' (JStr []))) (\<lambda>n.
              bind_r (let a = get_or d ''arguments'' JNull in if jtruthy a then dict_field a else Inr []) (\<lambda>args.
                Inr (\<lambda>_. new_call now i n args))))
         else Inr (new_text now (pl_dumps B (JObj d))))"

definition from_part :: "provider_lib \<Rightarrow> string \<Rightarrow> json \<Rightarrow> (string \<Rightarrow> content_block) result" where
  "from_part B now p = (case p of JObj d \<Rightarrow> from_openai_part B now d | v \<Rightarrow> Inr (new_text now (py_str (pl_lib B) v)))"

definition parsed_arguments :: "provider_lib \<Rightarrow> json \<Rightarrow> json" where
  "parsed_arguments B v =
     (if \<not> jtruthy v then JObj []
      else case v of JStr s \<Rightarrow> (case pl_loads B s of Some j \<Rightarrow> j | None \<Rightarrow> JObj []) | _ \<Rightarrow> JObj [])"

definition from_call :: "provider_lib \<Rightarrow> string \<Rightarrow> jdict \<Rightarrow> content_block result" where
  "from_call B now tc =
     (let fn = (case dict_get tc ''function'' of Some (JObj f) \<Rightarrow> f | _ \<Rightarrow> [])
      in bind_r (str_field (get_or tc ''id'' (JStr []))) (\<lambda>i.
         bind_r (str_field (get_or fn ''name'' (JStr []))) (\<lambda>n.
         bind_r (dict_field (parsed_arguments B (get_or fn ''arguments'' (JStr [])))) (\<lambda>args.
           Inr (new_call now i n args)))))"

definition objects_of :: "json list \<Rightarrow> jdict list" where
  "objects_of xs = List.map_filter (\<lambda>v. case v of JObj d \<Rightarrow> Some d | _ \<Rightarrow> None) xs"

definition raw_output :: "json \<Rightarrow> tool_output result" where
  "raw_output v = (case v of JStr s \<Rightarrow> Inr (OutputText s) | JList xs \<Rightarrow> Inr (OutputParts (map OutRaw xs)) | _ \<Rightarrow> Inl ValueError)"

definition number_blocks :: "(nat \<Rightarrow> string) \<Rightarrow> (string \<Rightarrow> content_block) list \<Rightarrow> content_block list" where
  "number_blocks gen fs = map (\<lambda>(i, f). f (gen i)) (enumerate 0 fs)"

definition from_openai_message ::
  "provider_lib \<Rightarrow> (nat \<Rightarrow> string) \<Rightarrow> string \<Rightarrow> jdict \<Rightarrow> content_block list result" where
  "from_openai_message B gen now d =
     (if get_or d ''role'' (JStr ''user'') = JStr ''tool''
      then bind_r (str_field (get_or d ''tool_call_id'' (JStr []))) (\<lambda>i.
           bind_r (str_field (get_or d ''name'' (JStr []))) (\<lambda>n.
           bind_r (raw_output (get_or d ''content'' (JStr []))) (\<lambda>out.
             Inr [ToolResultB \<lparr>trb_id = i, trb_name = n, trb_output = out, trb_state = SUCCESS, trb_metadata = [],
               trb_created_at = now, trb_finished_at = None\<rparr>])))
      else bind_r (case get_or d ''content'' JNull of
               JList parts \<Rightarrow> map_r (from_part B now) parts
             | JStr s \<Rightarrow> Inr (if s = [] then [] else [new_text now s])
             | _ \<Rightarrow> Inr []) (\<lambda>parts.
           let thinking = (case get_or d ''reasoning_content'' JNull of
               JStr s \<Rightarrow> if s = [] then [] else [new_thinking now s] | _ \<Rightarrow> [])
           in bind_r (case get_or d ''tool_calls'' JNull of
                 JList tcs \<Rightarrow> map_r (from_call B now) (objects_of tcs) | _ \<Rightarrow> Inr []) (\<lambda>calls.
                Inr (number_blocks gen (parts @ thinking) @ calls))))"

section \<open>A reply survives the conversion both ways\<close>

definition plain :: "content_block \<Rightarrow> bool" where
  "plain b = (case b of TextB t \<Rightarrow> True | ThinkingB t \<Rightarrow> True | ToolCallB c \<Rightarrow> True | _ \<Rightarrow> False)"

definition call_key :: "tool_call_block \<Rightarrow> string \<times> string \<times> jdict" where
  "call_key c = (tcb_id c, tcb_name c, tcb_arguments c)"

lemma plain_parts:
  "list_all plain bs \<Longrightarrow> map_r (to_openai_part B) (filter is_part bs) = Inr (map text_part (texts_of bs))"
proof (induction bs)
  case Nil
  then show ?case by (simp add: texts_of_def)
next
  case (Cons b bs)
  then show ?case by (cases b) (simp_all add: plain_def is_part_def to_openai_part_def texts_of_def)
qed

lemma parts_back: "map_r (from_part B now) (map text_part ts) = Inr (map (new_text now) ts)"
  by (induction ts) (simp_all add: from_part_def text_part_def from_openai_part_def get_or_def str_field_def)

lemma projections_append [simp]:
  "texts_of (xs @ ys) = texts_of xs @ texts_of ys"
  "thinkings_of (xs @ ys) = thinkings_of xs @ thinkings_of ys"
  by (simp_all add: texts_of_def thinkings_of_def)

lemma new_texts:
  "texts_of (map (\<lambda>(i, f). f (gen i)) (enumerate n (map (new_text now) ts))) = ts"
  "thinkings_of (map (\<lambda>(i, f). f (gen i)) (enumerate n (map (new_text now) ts))) = []"
  "calls_of (map (\<lambda>(i, f). f (gen i)) (enumerate n (map (new_text now) ts))) = []"
  by (induction ts arbitrary: n)
    (simp_all add: texts_of_def thinkings_of_def calls_of_def new_text_def List.map_filter_simps)

lemma new_thinkings:
  "texts_of (map (\<lambda>(i, f). f (gen i)) (enumerate n (map (new_thinking now) ts))) = []"
  "thinkings_of (map (\<lambda>(i, f). f (gen i)) (enumerate n (map (new_thinking now) ts))) = ts"
  "calls_of (map (\<lambda>(i, f). f (gen i)) (enumerate n (map (new_thinking now) ts))) = []"
  by (induction ts arbitrary: n)
    (simp_all add: texts_of_def thinkings_of_def calls_of_def new_thinking_def List.map_filter_simps)

lemma new_calls:
  assumes "\<And>c. c \<in> set cs \<Longrightarrow> pl_loads B (pl_dumps B (JObj (tcb_arguments c))) = Some (JObj (tcb_arguments c))
     \<and> pl_dumps B (JObj (tcb_arguments c)) \<noteq> []"
  shows "map_r (from_call B now) (objects_of (map (call_json B) cs)) =
     Inr (map (\<lambda>c. new_call now (tcb_id c) (tcb_name c) (tcb_arguments c)) cs)"
  using assms
proof (induction cs)
  case Nil
  then show ?case by (simp add: objects_of_def List.map_filter_simps)
next
  case (Cons c cs)
  have "parsed_arguments B (JStr (pl_dumps B (JObj (tcb_arguments c)))) = JObj (tcb_arguments c)"
    using Cons.prems [of c] by (simp add: parsed_arguments_def)
  then have "from_call B now [(''id'', JStr (tcb_id c)), (''type'', JStr ''function''),
      (''function'', JObj [(''name'', JStr (tcb_name c)), (''arguments'', JStr (pl_dumps B (JObj (tcb_arguments c))))])] =
      Inr (new_call now (tcb_id c) (tcb_name c) (tcb_arguments c))"
    by (simp add: from_call_def get_or_def str_field_def dict_field_def)
  then show ?case using Cons by (simp add: objects_of_def List.map_filter_simps call_json_def)
qed

lemma new_call_projections:
  "texts_of (map (\<lambda>c. new_call now (tcb_id c) (tcb_name c) (tcb_arguments c)) cs) = []"
  "thinkings_of (map (\<lambda>c. new_call now (tcb_id c) (tcb_name c) (tcb_arguments c)) cs) = []"
  "map call_key (calls_of (map (\<lambda>c. new_call now (tcb_id c) (tcb_name c) (tcb_arguments c)) cs)) = map call_key cs"
  by (induction cs)
    (simp_all add: texts_of_def thinkings_of_def calls_of_def new_call_def call_key_def List.map_filter_simps)

text \<open>
  A reply of texts, reasoning and tool calls that becomes a provider message and is read back gives
  the same texts, the same calls with their ids, names and arguments, and the reasoning as
  one text. It relies on \<open>json.loads\<close> undoing \<open>json.dumps\<close> on the arguments at hand.
\<close>

theorem reply_round_trip:
  assumes "list_all plain bs"
    and "\<And>c. c \<in> set (calls_of bs) \<Longrightarrow>
      pl_loads B (pl_dumps B (JObj (tcb_arguments c))) = Some (JObj (tcb_arguments c)) \<and>
      pl_dumps B (JObj (tcb_arguments c)) \<noteq> []"
  shows "\<exists>d bs'. to_openai_message B bs RoleAssistant = Inr d \<and> from_openai_message B gen now d = Inr bs' \<and>
    texts_of bs' = texts_of bs \<and> map call_key (calls_of bs') = map call_key (calls_of bs) \<and>
    join_with newline (thinkings_of bs') = join_with newline (thinkings_of bs) \<and> length (thinkings_of bs') \<le> 1"
proof -
  let ?th = "join_with newline (thinkings_of bs)"
  let ?ths = "if ?th = [] then [] else [?th]"
  let ?calls = "map (\<lambda>c. new_call now (tcb_id c) (tcb_name c) (tcb_arguments c)) (calls_of bs)"
  define d where "d = [(''role'', JStr ''assistant''),
      (''content'', if texts_of bs = [] then JStr [] else JList (map text_part (texts_of bs))),
      (''reasoning_content'', JStr ?th)] @
      (if calls_of bs = [] then [] else [(''tool_calls'', JList (map (call_json B) (calls_of bs)))])"
  have to: "to_openai_message B bs RoleAssistant = Inr d"
    by (simp add: to_openai_message_def plain_parts [OF assms(1)] d_def role_string_def)
  have calls: "map_r (from_call B now) (objects_of (map (call_json B) (calls_of bs))) = Inr ?calls"
    by (rule new_calls [OF assms(2)])
  have read: "from_openai_message B gen now d =
      Inr (number_blocks gen (map (new_text now) (texts_of bs) @ map (new_thinking now) ?ths) @ ?calls)"
    using calls by (cases "calls_of bs = []")
      (simp_all add: from_openai_message_def d_def get_or_def split del: if_split, auto simp: parts_back)
  show ?thesis
    using to read
    by (intro exI [of _ d] exI [of _ "number_blocks gen (map (new_text now) (texts_of bs) @
          map (new_thinking now) ?ths) @ ?calls"])
      (simp add: number_blocks_def enumerate_append_eq new_texts new_thinkings new_call_projections
        del: map_map list.map)
qed

definition said_blocks :: "content_block list" where
  "said_blocks = [new_thinking [] ''hm'' ''1'', new_text [] ''hello'' ''2'', new_call [] ''c'' ''bash'' []]"

lemma reply_round_trip_witness:
  "\<exists>d bs'. to_openai_message sample_provider said_blocks RoleAssistant = Inr d \<and>
     from_openai_message sample_provider (\<lambda>n. []) [] d = Inr bs' \<and> texts_of bs' = [''hello''] \<and>
     map call_key (calls_of bs') = [(''c'', ''bash'', [])]"
proof -
  have p: "list_all plain said_blocks" "texts_of said_blocks = [''hello'']"
    and c: "calls_of said_blocks = [\<lparr>tcb_id = ''c'', tcb_name = ''bash'', tcb_arguments = [], tcb_state = PENDING,
      tcb_created_at = [], tcb_finished_at = None\<rparr>]"
    by (simp_all add: said_blocks_def new_thinking_def new_text_def new_call_def plain_def texts_of_def calls_of_def
        List.map_filter_simps)
  have "\<And>c. c \<in> set (calls_of said_blocks) \<Longrightarrow>
      pl_loads sample_provider (pl_dumps sample_provider (JObj (tcb_arguments c))) = Some (JObj (tcb_arguments c)) \<and>
      pl_dumps sample_provider (JObj (tcb_arguments c)) \<noteq> []"
    by (simp add: c sample_provider_def)
  from reply_round_trip [OF p(1) this, of "\<lambda>n. []" "[]"] show ?thesis by (auto simp: p(2) c call_key_def)
qed

end
