(* ===== verification/ReactRun.thy ===== *)
theory ReactRun
  imports ReactLoop Provider
begin

text \<open>
  A run of the agent (\<open>react_runner.py\<close>: \<open>run\<close>, \<open>_prepare_new_reply\<close>, \<open>set_llm\<close>,
  \<open>_capture_assistant_baseline\<close>, \<open>build_final_assistant_events\<close>; \<open>message_context.py\<close>:
  \<open>add_user\<close>, \<open>add_raw\<close>).

  A task of the event loop is a number, and \<open>rl_done\<close> says which tasks have come to an end. The main
  loop is the one of theory ReactLoop on its fuel; a run that is out of fuel has no value.
\<close>

section \<open>State\<close>

record runner =
  ru_loop :: loop_state
  ru_task :: "nat option"
  ru_baseline :: "(string, string) dict"
  ru_emitted :: "string list"

datatype raw_message = RawMsg msg | RawDict jdict

datatype run_input = NewText string | NewMessages "raw_message list" | Confirm confirmation

text \<open>
  \<open>rl_fingerprint\<close> is the canonical JSON of a message, \<open>rl_gen\<close> gives the default ids of the blocks of
  a message that is added, \<open>rl_uuid\<close> the random ids of messages and replies.
\<close>

record run_lib =
  rl_provider :: provider_lib
  rl_fingerprint :: "msg \<Rightarrow> string"
  rl_gen :: "nat \<Rightarrow> nat \<Rightarrow> string"
  rl_uuid :: "nat \<Rightarrow> string"
  rl_now :: string
  rl_done :: "nat \<Rightarrow> bool"
  rl_max_iterations :: "int option"
  rl_model :: string

definition context_of :: "runner \<Rightarrow> msg list" where
  "context_of u = rn_context (lx_run (ru_loop u))"

definition set_context :: "msg list \<Rightarrow> runner \<Rightarrow> runner" where
  "set_context ms u = u\<lparr>ru_loop := (ru_loop u)\<lparr>lx_run := (lx_run (ru_loop u))\<lparr>rn_context := ms\<rparr>\<rparr>\<rparr>"

definition update_run_state :: "(run_state \<Rightarrow> run_state) \<Rightarrow> runner \<Rightarrow> runner" where
  "update_run_state f u = u\<lparr>ru_loop := set_state f (ru_loop u)\<rparr>"

section \<open>Adding messages\<close>

definition add_user :: "run_lib \<Rightarrow> string \<Rightarrow> string \<Rightarrow> msg list \<Rightarrow> string \<Rightarrow> msg list" where
  "add_user R mid bid ms content = ms @ [base_msg RoleUser DEFAULT
     [TextB \<lparr>tb_text = content, tb_id = bid, tb_created_at = rl_now R, tb_finished_at = None\<rparr>] mid (rl_now R)]"

definition role_of_dict :: "jdict \<Rightarrow> role" where
  "role_of_dict d = (let r = get_or d ''role'' (JStr ''user'')
     in if r = JStr ''user'' then RoleUser else if r = JStr ''system'' then RoleSystem else RoleAssistant)"

definition object_items :: "json list \<Rightarrow> json" where
  "object_items xs = JList (filter is_obj xs)"

definition raw_metadata :: "jdict \<Rightarrow> jdict" where
  "raw_metadata d =
     (let meta = (case dict_get d ''metadata'' of Some (JObj m) \<Rightarrow> m | _ \<Rightarrow> [])
      in case dict_get d ''responses_output_items'' of
           Some (JList items) \<Rightarrow> dict_set ''responses_output_item_groups'' (JList [object_items items]) meta
         | _ \<Rightarrow> (case dict_get d ''response_metadata'' of
               Some (JObj rm) \<Rightarrow> (case dict_get rm ''output_items'' of
                   Some (JList items) \<Rightarrow> dict_set ''responses_output_item_groups'' (JList [object_items items]) meta
                 | _ \<Rightarrow> meta)
             | _ \<Rightarrow> meta))"

text \<open>An id that is not text is refused by the message class; a falsy one is replaced.\<close>

definition raw_id :: "string \<Rightarrow> jdict \<Rightarrow> string result" where
  "raw_id fresh d = (case get_or d ''id'' JNull of
     JStr s \<Rightarrow> Inr (str_or s fresh)
   | v \<Rightarrow> if jtruthy v then Inl ValueError else Inr fresh)"

definition add_raw_dict :: "run_lib \<Rightarrow> nat \<Rightarrow> msg list \<Rightarrow> jdict \<Rightarrow> msg list result" where
  "add_raw_dict R k ms d =
     bind_r (from_openai_message (rl_provider R) (rl_gen R k) (rl_now R) d) (\<lambda>blocks.
       if (case get_or d ''id'' JNull of JStr s \<Rightarrow> s \<noteq> [] \<and> list_ex (\<lambda>m. msg_id m = s) ms | _ \<Rightarrow> False) then Inr ms
       else bind_r (raw_id (rl_uuid R k) d) (\<lambda>i.
         bind_r (validate_role_content
             ((base_msg (role_of_dict d) DEFAULT blocks i (rl_now R))\<lparr>msg_metadata := raw_metadata d\<rparr>))
           (\<lambda>m. Inr (ms @ [m]))))"

text \<open>A \<open>Msg\<close> is appended as it is, without looking for its id.\<close>

definition add_raw_message :: "run_lib \<Rightarrow> msg list \<Rightarrow> nat \<times> raw_message \<Rightarrow> msg list result" where
  "add_raw_message R ms km = (case snd km of RawMsg m \<Rightarrow> Inr (ms @ [m]) | RawDict d \<Rightarrow> add_raw_dict R (fst km) ms d)"

section \<open>The entry of a run\<close>

definition capture_baseline :: "run_lib \<Rightarrow> runner \<Rightarrow> runner" where
  "capture_baseline R u = u\<lparr>ru_baseline := fold (\<lambda>m d. dict_set (msg_id m) (rl_fingerprint R m) d)
       (filter (\<lambda>m. msg_role m = RoleAssistant) (context_of u)) [], ru_emitted := []\<rparr>"

definition is_running :: "run_lib \<Rightarrow> runner \<Rightarrow> bool" where
  "is_running R u = (case ru_task u of None \<Rightarrow> False | Some t \<Rightarrow> \<not> rl_done R t)"

definition default_iterations :: "run_lib \<Rightarrow> int option option \<Rightarrow> int option" where
  "default_iterations R given = (case given of None \<Rightarrow> rl_max_iterations R | Some m \<Rightarrow> m)"

fun add_all :: "run_lib \<Rightarrow> msg list \<Rightarrow> (nat \<times> raw_message) list \<Rightarrow> msg list \<times> bool" where
  "add_all R ms [] = (ms, True)"
| "add_all R ms (x # xs) = (case add_raw_message R ms x of
     Inl e \<Rightarrow> (ms, False) | Inr ms' \<Rightarrow> add_all R ms' xs)"

text \<open>The context with the input added, and whether all of it could be.\<close>

definition added_messages :: "run_lib \<Rightarrow> run_input \<Rightarrow> msg list \<Rightarrow> msg list \<times> bool" where
  "added_messages R input ms = (case input of
     NewText s \<Rightarrow> (add_user R (rl_uuid R 0) (rl_gen R 0 0) ms s, True)
   | NewMessages raws \<Rightarrow> add_all R ms (enumerate 0 raws)
   | Confirm ev \<Rightarrow> (ms, True))"

definition reset_usage :: "run \<Rightarrow> run" where
  "reset_usage rn = rn\<lparr>rn_token_usage := \<lparr>prompt_tokens = 0, completion_tokens = 0, total_tokens = 0\<rparr>,
     rn_last_usage := None\<rparr>"

definition start_loop :: "run_lib \<Rightarrow> int option option \<Rightarrow> loop_state \<Rightarrow> loop_state" where
  "start_loop R max_iterations s =
     (set_state (\<lambda>st. (start_run st)\<lparr>rs_max_iterations := default_iterations R max_iterations\<rparr>) s)\<lparr>lx_run := reset_usage (lx_run s)\<rparr>"

text \<open>
  The guards of \<open>_prepare_new_reply\<close>, then the state of the new run, and whether it got that far. The random
  ids of the reply and of its first message come after those of the messages.
\<close>

definition prepare_new_reply ::
  "run_lib \<Rightarrow> nat \<Rightarrow> int option option \<Rightarrow> run_input \<Rightarrow> runner \<Rightarrow> runner \<times> bool" where
  "prepare_new_reply R task max_iterations input u =
     (if tool_calls_in_state ASKING (context_of u) \<noteq> [] then (u, False)
      else if is_running R u then (u, False)
      else let u1 = u\<lparr>ru_task := Some task, ru_loop := start_loop R max_iterations (ru_loop u)\<rparr>;
               (ms, complete) = added_messages R input (context_of u1)
        in if \<not> complete then (set_context ms u1, False)
           else (update_run_state (\<lambda>st. st\<lparr>rs_reply_id := rl_uuid R 1, rs_message_id := rl_uuid R 2\<rparr>)
               (capture_baseline R (set_context ms u1)), True))"

text \<open>
  How a run ends: it returns, it raises after its final state is written, or it raises before its loop.
\<close>

datatype run_end = RunReturns runner | RunRaises runner | RunRefused runner

text \<open>The executors are created with the loop.\<close>

definition fresh_loop :: "loop_state \<Rightarrow> loop_state" where
  "fresh_loop s = s\<lparr>lx_last := None, lx_raised := False\<rparr>"

definition loop_end :: "runner \<Rightarrow> loop_state option \<Rightarrow> run_end option" where
  "loop_end u x = map_option (\<lambda>s. if lx_raised s then RunRaises (u\<lparr>ru_loop := s\<rparr>)
     else RunReturns (u\<lparr>ru_loop := s\<rparr>)) x"

definition loop_of_acting :: "acting \<Rightarrow> loop_state \<Rightarrow> loop_state" where
  "loop_of_acting a s = s\<lparr>lx_run := (lx_run s)\<lparr>rn_context := ac_context a, rn_events := ac_events a, rn_uuid := ac_uuid a\<rparr>,
     lx_executed := ac_executed a\<rparr>"

definition acting_of_loop :: "loop_state \<Rightarrow> acting" where
  "acting_of_loop s = \<lparr>ac_context = rn_context (lx_run s), ac_events = rn_events (lx_run s), ac_uuid = rn_uuid (lx_run s),
     ac_executed = lx_executed s\<rparr>"

definition accept_into :: "confirmation \<Rightarrow> msg list \<times> string \<times> bool \<Rightarrow> runner \<Rightarrow> runner" where
  "accept_into ev x u = update_run_state (\<lambda>st. st\<lparr>rs_message_id := fst (snd x),
       rs_reply_id := str_or (cf_reply_id ev) (rs_reply_id st)\<rparr>) (set_context (fst x) u)"

text \<open>
  The resumed batch, then the main loop. The events of the batch go out as they come; that the batch
  has asked for an approval again is not looked at. The cancellation it raises is the internal
  exception of the runtime, which \<open>run\<close> takes for any other exception.
\<close>

definition resume_run :: "nat \<Rightarrow> react_env \<Rightarrow> runner \<Rightarrow> run_end option" where
  "resume_run fuel X u =
     (let k = rs_iteration (lx_state (ru_loop u));
          (a, e) = resume_execute (rx_llm X k False) (rx_tools X k) (current_message (lx_state (ru_loop u)))
            (acting_of_loop (ru_loop u));
          s = loop_of_acting a (ru_loop u)
      in if e = BatchCancelled then Some (RunRaises (u\<lparr>ru_loop := raising (set_state (finalize FR_ERROR) s)\<rparr>))
         else loop_end u (react_loop fuel X (fresh_loop s) None))"

definition react_run ::
  "run_lib \<Rightarrow> nat \<Rightarrow> react_env \<Rightarrow> nat \<Rightarrow> int option option \<Rightarrow> run_input \<Rightarrow> runner \<Rightarrow> run_end option" where
  "react_run R fuel X task max_iterations input u =
     (case input of
        Confirm ev \<Rightarrow>
          (let u0 = capture_baseline R (update_run_state
                 (\<lambda>st. st\<lparr>rs_max_iterations := default_iterations R max_iterations\<rparr>) u)
           in case accept_confirmation ev (rs_message_id (lx_state (ru_loop u0))) (context_of u0) of
                Inl e \<Rightarrow> Some (RunRefused (case owner_of_call (cf_tool_call_id ev) (context_of u0) of
                    None \<Rightarrow> u0 | Some m \<Rightarrow> accept_into ev (context_of u0, msg_id m, False) u0))
              | Inr x \<Rightarrow>
                  (let u1 = accept_into ev x u0
                   in if \<not> snd (snd x) then Some (RunReturns (update_run_state (\<lambda>st. st\<lparr>rs_status := PAUSED\<rparr>) u1))
                      else resume_run fuel X (update_run_state (\<lambda>st. st\<lparr>rs_status := RUN_RUNNING\<rparr>)
                             (u1\<lparr>ru_task := Some task\<rparr>))))
      | _ \<Rightarrow>
          (case prepare_new_reply R task max_iterations input u of
             (u1, False) \<Rightarrow> Some (RunRefused u1)
           | (u1, True) \<Rightarrow> loop_end u1 (react_loop fuel X (fresh_loop (ru_loop u1)) None)))"

section \<open>The final snapshots\<close>

text \<open>The messages a run has added or changed, each with whether the usage of the run is its own.\<close>

definition is_candidate :: "run_lib \<Rightarrow> runner \<Rightarrow> msg \<Rightarrow> bool" where
  "is_candidate R u m \<longleftrightarrow> msg_role m = RoleAssistant \<and> msg_content m \<noteq> [] \<and> msg_id m \<notin> set (ru_emitted u) \<and>
     dict_get (ru_baseline u) (msg_id m) \<noteq> Some (rl_fingerprint R m)"

definition reason_text :: "finished_reason \<Rightarrow> string" where
  "reason_text r = (case r of FR_COMPLETED \<Rightarrow> ''completed'' | FR_INTERRUPTED \<Rightarrow> ''interrupted''
     | FR_EXCEED_MAX_ITERS \<Rightarrow> ''exceed_max_iters'' | FR_ERROR \<Rightarrow> ''error'')"

definition final_message :: "run_lib \<Rightarrow> runner \<Rightarrow> msg \<Rightarrow> msg" where
  "final_message R u m =
     (let st = lx_state (ru_loop u); rn = lx_run (ru_loop u);
          m1 = m\<lparr>msg_metadata := (if rl_model R = [] then msg_metadata m
                   else dict_set ''model'' (JStr (rl_model R)) (msg_metadata m)),
                 msg_finished_at := (case msg_finished_at m of None \<Rightarrow> Some (rl_now R) | t \<Rightarrow> t),
                 msg_finished_reason := (case msg_finished_reason m of
                     None \<Rightarrow> map_option reason_text (rs_done_reason st) | r \<Rightarrow> r)\<rparr>
      in case rn_last_usage rn of
           Some lu \<Rightarrow> if msg_id m = rs_message_id st
             then m1\<lparr>msg_token := Some \<lparr>mt_usage = rn_token_usage rn, mt_last_call_usage = lu\<rparr>\<rparr> else m1
         | None \<Rightarrow> m1)"

definition build_final_assistant_events :: "run_lib \<Rightarrow> runner \<Rightarrow> runner \<times> msg list" where
  "build_final_assistant_events R u =
     (let cs = filter (is_candidate R u) (context_of u)
      in (u\<lparr>ru_emitted := ru_emitted u @ map msg_id cs\<rparr>, map (final_message R u) cs))"

text \<open>
  At the end of a run exactly the assistant messages it has added or changed are published, in order
  and marked as finished: an assistant message with content is left out only when it was published
  before or is unchanged since the run began. A second call publishes nothing.
\<close>

theorem snapshots_are_published_once:
  "map msg_id (snd (build_final_assistant_events R u)) =
     map msg_id (filter (\<lambda>m. msg_role m = RoleAssistant \<and> msg_content m \<noteq> [] \<and>
       \<not> (msg_id m \<in> set (ru_emitted u) \<or> dict_get (ru_baseline u) (msg_id m) = Some (rl_fingerprint R m)))
       (context_of u)) \<and>
   list_all (\<lambda>m. msg_finished_at m \<noteq> None) (snd (build_final_assistant_events R u)) \<and>
   snd (build_final_assistant_events R (fst (build_final_assistant_events R u))) = []"
proof -
  have "msg_id (final_message R u m) = msg_id m" for m
    by (auto simp: final_message_def Let_def split: option.splits)
  then have ids: "map msg_id (snd (build_final_assistant_events R u)) =
      map msg_id (filter (is_candidate R u) (context_of u))"
    by (simp add: build_final_assistant_events_def Let_def)
  have cands: "is_candidate R u = (\<lambda>m. msg_role m = RoleAssistant \<and> msg_content m \<noteq> [] \<and>
       \<not> (msg_id m \<in> set (ru_emitted u) \<or> dict_get (ru_baseline u) (msg_id m) = Some (rl_fingerprint R m)))"
    by (auto simp: is_candidate_def fun_eq_iff)
  have "msg_finished_at (final_message R u m) \<noteq> None" for m
    by (auto simp: final_message_def Let_def split: option.splits)
  then have fin: "list_all (\<lambda>m. msg_finished_at m \<noteq> None) (snd (build_final_assistant_events R u))"
    by (simp add: build_final_assistant_events_def Let_def list_all_iff)
  have "filter (is_candidate R (fst (build_final_assistant_events R u))) (context_of u) = []"
    by (auto simp: filter_empty_conv is_candidate_def build_final_assistant_events_def Let_def)
  then have "snd (build_final_assistant_events R (fst (build_final_assistant_events R u))) = []"
    by (simp add: build_final_assistant_events_def Let_def context_of_def)
  then show ?thesis using ids fin by (simp add: cands)
qed

section \<open>One run at a time\<close>

lemma run_while_running:
  assumes "is_running R u" and "\<forall>ev. input \<noteq> Confirm ev"
  shows "react_run R fuel X task m input u = Some (RunRefused u)"
  using assms by (cases input) (simp_all add: react_run_def prepare_new_reply_def)

text \<open>A run keeps the task it took, and takes the one it was started in.\<close>

lemma task_of_run:
  assumes "react_run R fuel X task m input u = Some e" and "\<forall>ev. input \<noteq> Confirm ev"
    and "tool_calls_in_state ASKING (context_of u) = []" and "\<not> is_running R u"
  shows "case e of RunReturns v \<Rightarrow> ru_task v = Some task | RunRaises v \<Rightarrow> ru_task v = Some task
    | RunRefused v \<Rightarrow> ru_task v = Some task"
  using assms
  by (cases input)
    (auto simp: react_run_def prepare_new_reply_def Let_def loop_end_def update_run_state_def capture_baseline_def
      set_context_def split: prod.splits bool.splits if_splits)

end
