(* ===== verification/TurnExecutor.thy ===== *)
theory TurnExecutor
  imports ReactRun
begin

text \<open>
  One turn (\<open>packages/ftre-agent-runtime/src/ftre_agent_runtime/turn_executor.py\<close>, \<open>state.py\<close>,
  \<open>protocol.py\<close>): the state machine from building the agent to the end of the turn, the events it
  writes into the session log, and the recovery of a failed request.

  \<open>turn_env\<close> is the rest of the host: which appends to the session log fail, the stored messages at each
  load, whether the agent can be built, what a run of the agent does, and what the recovery hook
  answers. The loop of the state machine runs on fuel.
\<close>

section \<open>State\<close>

record runtime_input =
  ri_session_id :: string
  ri_request_id :: string
  ri_channel_id :: string
  ri_source :: string
  ri_metadata :: jdict

datatype turn_status = BUILDING | TURN_RUNNING | FINALIZING | TURN_COMPLETED | TURN_CANCELLED | TURN_ERROR

record turn =
  tu_id :: string
  tu_inbound :: runtime_input
  tu_status :: turn_status
  tu_user_message_id :: string
  tu_agent_id :: string
  tu_agent :: "runner option"
  tu_messages :: "raw_message list"
  tu_final_content :: string
  tu_retry_count :: int
  tu_retry_tokens :: "string list"
  tu_paused :: bool
  tu_emitted_ids :: "string list"
  tu_last_message :: "string option"
  tu_confirm :: "confirmation option"
  tu_log :: "emitted list"
  tu_appends :: nat
  tu_loads :: nat
  tu_runs :: nat
  tu_asked :: nat

text \<open>The counters of the last four fields number the calls of the environment.\<close>

definition new_turn :: "string \<Rightarrow> runtime_input \<Rightarrow> string \<Rightarrow> string \<Rightarrow> confirmation option \<Rightarrow> turn" where
  "new_turn i inbound agent_id user_message confirm =
     \<lparr>tu_id = i, tu_inbound = inbound, tu_status = BUILDING, tu_user_message_id = user_message,
      tu_agent_id = agent_id, tu_agent = None, tu_messages = [], tu_final_content = [], tu_retry_count = 0,
      tu_retry_tokens = [], tu_paused = False, tu_emitted_ids = [], tu_last_message = None,
      tu_confirm = confirm, tu_log = [], tu_appends = 0, tu_loads = 0, tu_runs = 0, tu_asked = 0\<rparr>"

datatype recovery_answer = NoRetry | HookFails | RetryWith string int string

datatype build_answer = BuildOk | BuildFails | BuildCancelled

record turn_env =
  tv_append_fails :: "nat \<Rightarrow> bool"
  tv_records :: "nat \<Rightarrow> msg list result"
  tv_session_exists :: bool
  tv_build :: build_answer
  tv_first_input :: jdict
  tv_runner :: "msg list \<Rightarrow> runner"
  tv_run :: "nat \<Rightarrow> runner \<Rightarrow> run_input \<Rightarrow> run_end"
  tv_run_cancelled :: "nat \<Rightarrow> bool"
  tv_recover :: "nat \<Rightarrow> string \<Rightarrow> string \<Rightarrow> int \<Rightarrow> recovery_answer"
  tv_cancelled :: "nat \<Rightarrow> bool"
  tv_lib :: run_lib
  tv_dump :: "msg \<Rightarrow> jdict"
  tv_strip :: "string \<Rightarrow> string"
  tv_model :: string

section \<open>Writing events\<close>

text \<open>An append to the session log; a failed one raises, after the turn has noted the message.\<close>

definition log_event :: "turn_env \<Rightarrow> emitted \<Rightarrow> turn \<Rightarrow> turn \<times> bool" where
  "log_event V e t =
     (if tv_append_fails V (tu_appends t) then (t\<lparr>tu_appends := tu_appends t + 1\<rparr>, False)
      else (t\<lparr>tu_appends := tu_appends t + 1, tu_log := tu_log t @ [e]\<rparr>, True))"

definition note_message :: "emitted \<Rightarrow> turn \<Rightarrow> turn" where
  "note_message e t = (case none_if_empty (fst e) of None \<Rightarrow> t | Some i \<Rightarrow> t\<lparr>tu_last_message := Some i\<rparr>)"

definition append_turn_event :: "turn_env \<Rightarrow> turn \<Rightarrow> emitted \<Rightarrow> turn \<times> bool" where
  "append_turn_event V t e = log_event V e (note_message e t)"

fun append_events :: "turn_env \<Rightarrow> turn \<Rightarrow> emitted list \<Rightarrow> turn \<times> bool" where
  "append_events V t [] = (t, True)"
| "append_events V t (e # es) =
     (case append_turn_event V t e of (t', True) \<Rightarrow> append_events V t' es | (t', False) \<Rightarrow> (t', False))"

definition final_text :: "turn_env \<Rightarrow> msg \<Rightarrow> string" where
  "final_text V m = tv_strip V (concat (texts_of (msg_content m)))"

definition append_snapshot :: "turn_env \<Rightarrow> turn \<Rightarrow> msg \<Rightarrow> turn \<times> bool" where
  "append_snapshot V t m =
     (if msg_id m \<noteq> [] \<and> msg_id m \<in> set (tu_emitted_ids t) then (t, True)
      else let t1 = (if final_text V m = [] then t else t\<lparr>tu_final_content := final_text V m\<rparr>);
               (t2, ok) = append_turn_event V t1 (Some (msg_id m), AssistantMessage (tv_dump V m))
        in (if ok \<and> msg_id m \<noteq> [] then t2\<lparr>tu_emitted_ids := tu_emitted_ids t2 @ [msg_id m]\<rparr> else t2, ok))"

fun append_snapshots :: "turn_env \<Rightarrow> turn \<Rightarrow> msg list \<Rightarrow> turn" where
  "append_snapshots V t [] = t"
| "append_snapshots V t (m # ms) =
     (case append_snapshot V t m of (t', True) \<Rightarrow> append_snapshots V t' ms | (t', False) \<Rightarrow> t')"

definition append_final_assistant :: "turn_env \<Rightarrow> turn \<Rightarrow> turn" where
  "append_final_assistant V t =
     (case tu_agent t of
        None \<Rightarrow> t
      | Some u \<Rightarrow> (let (u', ms) = build_final_assistant_events (tv_lib V) u
          in append_snapshots V (t\<lparr>tu_agent := Some u'\<rparr>) ms))"

definition turn_trigger :: "turn \<Rightarrow> string" where
  "turn_trigger t =
     (if tu_confirm t \<noteq> None then ''confirm''
      else if ri_channel_id (tu_inbound t) = ''cron'' then ''cron''
      else if ri_source (tu_inbound t) = ''plugin'' then ''plugin''
      else if ri_source (tu_inbound t) = ''system'' then ''system'' else ''user'')"

definition turn_start :: "turn_env \<Rightarrow> turn \<Rightarrow> emitted" where
  "turn_start V t = (None, TurnStart \<lparr>ts_turn_id = tu_id t, ts_request_id = ri_request_id (tu_inbound t),
     ts_trigger = turn_trigger t, ts_command_name = [], ts_agent_id = tu_agent_id t, ts_model = tv_model V\<rparr>)"

definition usage_json :: "token_usage \<Rightarrow> jdict option" where
  "usage_json u = (if total_tokens u = 0 then None
     else Some [(''prompt_tokens'', JInt (prompt_tokens u)), (''completion_tokens'', JInt (completion_tokens u)),
       (''total_tokens'', JInt (total_tokens u))])"

definition turn_end :: "turn \<Rightarrow> string \<Rightarrow> string \<Rightarrow> emitted" where
  "turn_end t outcome why =
     (tu_last_message t, TurnEnd \<lparr>te_turn_id = tu_id t, te_request_id = ri_request_id (tu_inbound t),
        te_outcome = outcome, te_reason = why,
        te_error = (case tu_agent t of
            Some u \<Rightarrow> if outcome = ''error''
              then Some [(''code'', JStr (str_or (opt_str (rs_error_code (lx_state (ru_loop u)))) ''turn_error'')),
                (''message'', JStr (str_or (opt_str (rs_error (lx_state (ru_loop u))))
                   (''Turn '' @ bytes [230, 137, 167, 232, 161, 140, 229, 164, 177, 232, 180, 165])))]
              else None
          | None \<Rightarrow> None),
        te_usage = (case tu_agent t of Some u \<Rightarrow> usage_json (rn_token_usage (lx_run (ru_loop u))) | None \<Rightarrow> None),
        te_iterations = (case tu_agent t of Some u \<Rightarrow> rs_iteration (lx_state (ru_loop u)) | None \<Rightarrow> 0),
        te_metadata = []\<rparr>)"

section \<open>Recovery of a failed request\<close>

definition load_records :: "turn_env \<Rightarrow> turn \<Rightarrow> turn \<times> msg list result" where
  "load_records V t = (t\<lparr>tu_loads := tu_loads t + 1\<rparr>, tv_records V (tu_loads t))"

text \<open>The stored messages become the context of the agent and the input of the next run.\<close>

definition refresh_agent_context :: "turn_env \<Rightarrow> turn \<Rightarrow> turn" where
  "refresh_agent_context V t =
     (case tu_agent t of
        None \<Rightarrow> t
      | Some u \<Rightarrow>
          (case load_records V t of
             (t', Inr ms) \<Rightarrow> if ms = [] then t'
               else t'\<lparr>tu_agent := Some (set_context ms u), tu_messages := map RawMsg ms\<rparr>
           | (t', Inl e) \<Rightarrow> t'))"

definition default_reason :: string where
  "default_reason = ''Turn '' @ bytes [229, 164, 177, 232, 180, 165, 239, 188, 140, 232, 191, 155, 229, 133, 165,
     230, 129, 162, 229, 164, 141, 233, 135, 141, 232, 175, 149]"

definition retry_notice :: "turn \<Rightarrow> string \<Rightarrow> int \<Rightarrow> emitted" where
  "retry_notice t why mx = (None, TurnRetry \<lparr>try_turn_id = tu_id t, try_code = ''request_error_recovery'',
     try_message = str_or why default_reason, try_attempt = tu_retry_count t, try_max_attempts = max 0 mx\<rparr>)"

datatype recovery = Recovered turn | NotRecovered turn | RecoveryRaises turn

definition request_error_recovery :: "turn_env \<Rightarrow> string \<Rightarrow> string \<Rightarrow> turn \<Rightarrow> recovery" where
  "request_error_recovery V code message t =
     (let t1 = t\<lparr>tu_asked := tu_asked t + 1\<rparr>
      in case tv_recover V (tu_asked t) code message (tu_retry_count t) of
           HookFails \<Rightarrow> NotRecovered t1
         | NoRetry \<Rightarrow> NotRecovered t1
         | RetryWith token mx why \<Rightarrow>
             if tv_cancelled V (tu_asked t) then NotRecovered t1
             else if token \<in> set (tu_retry_tokens t1) then NotRecovered t1
             else if tu_retry_count t1 \<ge> mx then NotRecovered t1
             else let t2 = refresh_agent_context V (t1\<lparr>tu_retry_tokens := tu_retry_tokens t1 @ [token],
                        tu_retry_count := tu_retry_count t1 + 1\<rparr>)
               in (case log_event V (retry_notice t2 why mx) t2 of
                     (t3, True) \<Rightarrow> Recovered t3
                   | (t3, False) \<Rightarrow> RecoveryRaises t3))"

section \<open>The states\<close>

text \<open>A state handler returns the next status, or an exception goes through it.\<close>

datatype handled = Next turn turn_status | HandlerRaised turn | HandlerWasCancelled turn

definition build_turn :: "turn_env \<Rightarrow> turn \<Rightarrow> handled" where
  "build_turn V t =
     (if \<not> tv_session_exists V then HandlerRaised t
      else case load_records V t of
        (t1, Inl e) \<Rightarrow> HandlerRaised t1
      | (t1, Inr ms) \<Rightarrow>
          (case tv_build V of
             BuildFails \<Rightarrow> HandlerRaised t1
           | BuildCancelled \<Rightarrow> HandlerWasCancelled t1
           | BuildOk \<Rightarrow>
               if tu_confirm t = None
               then Next (t1\<lparr>tu_agent := Some (tv_runner V []),
                      tu_messages := (if ms = [] then [RawDict (tv_first_input V)] else map RawMsg ms)\<rparr>) TURN_RUNNING
               else Next (t1\<lparr>tu_agent := Some (tv_runner V ms)\<rparr>) TURN_RUNNING))"

definition turn_input :: "turn \<Rightarrow> run_input" where
  "turn_input t = (case tu_confirm t of Some ev \<Rightarrow> Confirm ev | None \<Rightarrow> NewMessages (tu_messages t))"

definition runner_of_end :: "run_end \<Rightarrow> runner" where
  "runner_of_end e = (case e of RunReturns u \<Rightarrow> u | RunRaises u \<Rightarrow> u | RunRefused u \<Rightarrow> u)"

definition events_since :: "runner \<Rightarrow> runner \<Rightarrow> emitted list" where
  "events_since u u' = drop (length (rn_events (lx_run (ru_loop u)))) (rn_events (lx_run (ru_loop u')))"

definition after_error :: "turn_env \<Rightarrow> string \<Rightarrow> string \<Rightarrow> turn_status \<Rightarrow> turn \<Rightarrow> handled" where
  "after_error V code message otherwise t =
     (case request_error_recovery V code message t of
        Recovered t' \<Rightarrow> Next t' TURN_RUNNING
      | NotRecovered t' \<Rightarrow> Next t' otherwise
      | RecoveryRaises t' \<Rightarrow> HandlerRaised t')"

definition after_exception :: "turn_env \<Rightarrow> turn \<Rightarrow> handled" where
  "after_exception V t = after_error V ''request_exception'' ''Agent request raised'' TURN_ERROR t"

definition is_error_end :: "run_state \<Rightarrow> bool" where
  "is_error_end st \<longleftrightarrow> (case rs_done_reason st of None \<Rightarrow> True | Some r \<Rightarrow> r = FR_ERROR)"

text \<open>The agent has returned. The \<open>try\<close> of \<open>_run\<close> covers the recovery after an error result too.\<close>

definition after_run :: "turn_env \<Rightarrow> run_state \<Rightarrow> turn \<Rightarrow> handled" where
  "after_run V st t =
     (if rs_status st = PAUSED then Next (t\<lparr>tu_paused := True\<rparr>) FINALIZING
      else if is_error_end st
      then (case request_error_recovery V (str_or (opt_str (rs_error_code st)) ''request_error'')
              (str_or (opt_str (rs_error st)) ''Agent request failed'') t of
          Recovered t' \<Rightarrow> Next t' TURN_RUNNING
        | NotRecovered t' \<Rightarrow> Next t' FINALIZING
        | RecoveryRaises t' \<Rightarrow> after_exception V t')
      else Next t FINALIZING)"

definition run_turn :: "turn_env \<Rightarrow> turn \<Rightarrow> handled" where
  "run_turn V t =
     (case tu_agent t of
        None \<Rightarrow> HandlerRaised t
      | Some u \<Rightarrow>
          (let e = tv_run V (tu_runs t) u (turn_input t); u' = runner_of_end e;
               (t1, ok) = append_events V (t\<lparr>tu_final_content := [], tu_agent := Some u', tu_runs := tu_runs t + 1\<rparr>)
                 (events_since u u')
           in if tv_run_cancelled V (tu_runs t) then Next t1 TURN_CANCELLED
              else if \<not> ok then after_exception V t1
              else case e of
                RunReturns v \<Rightarrow> after_run V (lx_state (ru_loop v)) t1
              | _ \<Rightarrow> after_exception V t1))"

definition advance :: "turn_env \<Rightarrow> turn \<Rightarrow> handled" where
  "advance V t = (case tu_status t of
     BUILDING \<Rightarrow> build_turn V t
   | TURN_RUNNING \<Rightarrow> run_turn V t
   | FINALIZING \<Rightarrow> Next t TURN_COMPLETED
   | s \<Rightarrow> Next t s)"

definition is_final :: "turn_status \<Rightarrow> bool" where
  "is_final s \<longleftrightarrow> s \<in> {TURN_COMPLETED, TURN_CANCELLED, TURN_ERROR}"

fun drive_loop :: "nat \<Rightarrow> turn_env \<Rightarrow> turn \<Rightarrow> turn option" where
  "drive_loop 0 V t = None"
| "drive_loop (Suc n) V t =
     (if is_final (tu_status t) then Some t
      else case advance V t of
        Next t' s \<Rightarrow> drive_loop n V (t'\<lparr>tu_status := s\<rparr>)
      | HandlerRaised t' \<Rightarrow> Some (t'\<lparr>tu_status := TURN_ERROR\<rparr>)
      | HandlerWasCancelled t' \<Rightarrow> Some (t'\<lparr>tu_status := TURN_CANCELLED\<rparr>))"

section \<open>The end of a turn\<close>

definition turn_outcome :: "turn \<Rightarrow> string \<times> string" where
  "turn_outcome t =
     (let st = map_option (\<lambda>u. lx_state (ru_loop u)) (tu_agent t);
          done = (case st of None \<Rightarrow> None | Some s \<Rightarrow> rs_done_reason s);
          status = map_option rs_status st
      in if tu_paused t then (''paused'', ''paused'')
         else if tu_status t = TURN_CANCELLED \<or> status = Some CANCELLED then (''cancelled'', ''interrupted'')
         else if tu_status t = TURN_ERROR \<or> done = Some FR_ERROR \<and> status \<noteq> Some COMPLETED
         then (''error'', case done of None \<Rightarrow> ''error'' | Some r \<Rightarrow> reason_text r)
         else (''completed'', case done of None \<Rightarrow> ''completed'' | Some r \<Rightarrow> reason_text r))"

record run_result =
  rr_session_id :: string
  rr_turn_id :: string
  rr_status :: string
  rr_user_message_id :: string
  rr_final_content :: string
  rr_failed :: bool
  rr_paused :: bool

definition public_status :: "turn \<Rightarrow> string \<Rightarrow> string" where
  "public_status t outcome =
     (if outcome = ''error'' then ''failed''
      else if outcome = ''cancelled'' then ''cancelled''
      else case tu_status t of TURN_CANCELLED \<Rightarrow> ''cancelled'' | TURN_ERROR \<Rightarrow> ''failed'' | _ \<Rightarrow> ''completed'')"

definition close_turn :: "turn_env \<Rightarrow> turn \<Rightarrow> turn \<times> run_result" where
  "close_turn V t =
     (let (outcome, why) = turn_outcome t;
          t1 = append_final_assistant V t;
          t2 = fst (log_event V (turn_end t1 outcome why) t1);
          st = public_status t2 outcome
      in (t2, \<lparr>rr_session_id = ri_session_id (tu_inbound t2), rr_turn_id = tu_id t2, rr_status = st,
            rr_user_message_id = tu_user_message_id t2, rr_final_content = tu_final_content t2,
            rr_failed = (st = ''failed''), rr_paused = tu_paused t2\<rparr>))"

definition drive :: "nat \<Rightarrow> turn_env \<Rightarrow> turn \<Rightarrow> (turn \<times> run_result) option" where
  "drive n V t = map_option (close_turn V) (drive_loop n V t)"

text \<open>\<open>execute\<close>: the start of the turn is written first; when that fails nothing else happens.\<close>

definition execute_turn :: "nat \<Rightarrow> turn_env \<Rightarrow> turn \<Rightarrow> (turn \<times> run_result) option result" where
  "execute_turn n V t =
     (case log_event V (turn_start V t) t of
        (t', False) \<Rightarrow> Inl RuntimeError
      | (t', True) \<Rightarrow> Inr (drive n V t'))"

section \<open>What the handlers keep\<close>

definition turn_of_recovery :: "recovery \<Rightarrow> turn" where
  "turn_of_recovery r = (case r of Recovered t \<Rightarrow> t | NotRecovered t \<Rightarrow> t | RecoveryRaises t \<Rightarrow> t)"

definition turn_of :: "handled \<Rightarrow> turn" where
  "turn_of h = (case h of Next t s \<Rightarrow> t | HandlerRaised t \<Rightarrow> t | HandlerWasCancelled t \<Rightarrow> t)"

text \<open>
  A relation between the turn before and after that the small steps of a turn respect: writing
  an event, asking for a recovery, granting a retry, reloading the context, pausing.
\<close>

locale turn_relation =
  fixes K :: "turn \<Rightarrow> turn \<Rightarrow> bool"
  assumes K_refl [simp]: "K t t"
    and K_trans: "K a b \<Longrightarrow> K b c \<Longrightarrow> K a c"
    and K_log: "K t (fst (log_event V e t))"
    and K_note: "K t (note_message e t)"
    and K_asked: "K t (t\<lparr>tu_asked := j\<rparr>)"
    and K_granted: "K t (t\<lparr>tu_retry_tokens := ts, tu_retry_count := k\<rparr>)"
    and K_refresh: "K t (refresh_agent_context V t)"
    and K_paused: "K t (t\<lparr>tu_paused := True\<rparr>)"
begin

lemma append_turn_event_kept: "append_turn_event V t e = (t', ok) \<Longrightarrow> K t t'"
  using K_trans [OF K_note [of t e] K_log [of "note_message e t" V e]] by (simp add: append_turn_event_def)

lemma append_events_kept: "append_events V t es = (t', ok) \<Longrightarrow> K t t'"
proof (induction es arbitrary: t)
  case Nil
  then show ?case by simp
next
  case (Cons e es)
  then show ?case
    by (auto split: prod.splits bool.splits dest!: append_turn_event_kept intro: K_trans)
qed

lemma recovery_kept: "K t (turn_of_recovery (request_error_recovery V code message t))"
proof (cases "tv_recover V (tu_asked t) code message (tu_retry_count t)")
  case (RetryWith token mx why)
  let ?t1 = "t\<lparr>tu_asked := tu_asked t + 1\<rparr>"
  let ?t2 = "?t1\<lparr>tu_retry_tokens := tu_retry_tokens ?t1 @ [token], tu_retry_count := tu_retry_count ?t1 + 1\<rparr>"
  let ?t3 = "refresh_agent_context V ?t2"
  obtain t4 ok where l: "log_event V (retry_notice ?t3 why mx) ?t3 = (t4, ok)" by fastforce
  have "K ?t3 t4" using K_log [of ?t3 V "retry_notice ?t3 why mx"] l by simp
  then have "K t t4"
    by (rule K_trans [OF K_trans [OF K_trans [OF K_asked K_granted] K_refresh]])
  then show ?thesis using RetryWith l K_asked
    by (cases ok) (simp_all add: request_error_recovery_def Let_def turn_of_recovery_def)
qed (simp_all add: request_error_recovery_def turn_of_recovery_def K_asked)

lemma after_exception_kept: "K t (turn_of (after_exception V t))"
  using recovery_kept [of t V "''request_exception''" "''Agent request raised''"]
  by (cases "request_error_recovery V ''request_exception'' ''Agent request raised'' t")
    (simp_all add: after_exception_def after_error_def turn_of_def turn_of_recovery_def)

lemma after_run_kept: "K t (turn_of (after_run V st t))"
proof -
  let ?code = "str_or (opt_str (rs_error_code st)) ''request_error''"
  let ?message = "str_or (opt_str (rs_error st)) ''Agent request failed''"
  show ?thesis
    using recovery_kept [of t V ?code ?message] after_exception_kept K_paused [of t]
    by (cases "request_error_recovery V ?code ?message t")
      (auto simp: after_run_def turn_of_def turn_of_recovery_def intro: K_trans)
qed

end

section \<open>A turn comes to an end\<close>

definition bounded_recovery :: "turn_env \<Rightarrow> int \<Rightarrow> bool" where
  "bounded_recovery V M \<longleftrightarrow>
     (\<forall>k code message n token mx why. tv_recover V k code message n = RetryWith token mx why \<longrightarrow> mx \<le> M)"

definition retries_recorded :: "int \<Rightarrow> turn \<Rightarrow> bool" where
  "retries_recorded M t \<longleftrightarrow> distinct (tu_retry_tokens t) \<and> tu_retry_count t = int (length (tu_retry_tokens t)) \<and>
     tu_retry_count t \<le> max 0 M"

text \<open>What the events and the runs of a turn leave alone.\<close>

definition same_retries :: "turn \<Rightarrow> turn \<Rightarrow> bool" where
  "same_retries t t' \<longleftrightarrow> tu_retry_tokens t' = tu_retry_tokens t \<and> tu_retry_count t' = tu_retry_count t \<and>
     tu_paused t' = tu_paused t"

lemma same_retries_refl [simp]: "same_retries t t"
  by (simp add: same_retries_def)

lemma same_retries_trans: "same_retries a b \<Longrightarrow> same_retries b c \<Longrightarrow> same_retries a c"
  by (simp add: same_retries_def)

lemma same_recorded: "same_retries t t' \<Longrightarrow> retries_recorded M t' = retries_recorded M t"
  by (simp add: same_retries_def retries_recorded_def)

lemma log_event_same: "log_event V e t = (t', ok) \<Longrightarrow> same_retries t t'"
  by (auto simp: log_event_def same_retries_def split: if_splits)

lemma append_turn_event_same: "append_turn_event V t e = (t', ok) \<Longrightarrow> same_retries t t'"
  by (auto simp: append_turn_event_def note_message_def log_event_def same_retries_def split: if_splits option.splits)

lemma append_events_same: "append_events V t es = (t', ok) \<Longrightarrow> same_retries t t'"
proof (induction es arbitrary: t)
  case Nil
  then show ?case by simp
next
  case (Cons e es)
  then show ?case
    by (auto split: prod.splits bool.splits dest!: append_turn_event_same intro: same_retries_trans)
qed

lemma refresh_same: "same_retries t (refresh_agent_context V t)"
  by (auto simp: refresh_agent_context_def load_records_def same_retries_def split: option.splits sum.splits)

lemma recovery_recorded:
  assumes "retries_recorded M t" and "bounded_recovery V M"
  shows "retries_recorded M (turn_of_recovery (request_error_recovery V code message t)) \<and>
    tu_retry_count t \<le> tu_retry_count (turn_of_recovery (request_error_recovery V code message t)) \<and>
    tu_paused (turn_of_recovery (request_error_recovery V code message t)) = tu_paused t"
    and "request_error_recovery V code message t = Recovered t' \<Longrightarrow>
      tu_retry_count t' = tu_retry_count t + 1 \<and> tu_retry_count t < M"
proof -
  let ?t1 = "t\<lparr>tu_asked := tu_asked t + 1\<rparr>"
  let ?r = "request_error_recovery V code message t"
  have t1: "same_retries t ?t1" by (simp add: same_retries_def)
  have main: "(retries_recorded M (turn_of_recovery ?r) \<and> tu_retry_count t \<le> tu_retry_count (turn_of_recovery ?r) \<and>
      tu_paused (turn_of_recovery ?r) = tu_paused t) \<and>
      (\<forall>t'. ?r = Recovered t' \<longrightarrow> tu_retry_count t' = tu_retry_count t + 1 \<and> tu_retry_count t < M)"
  proof (cases "tv_recover V (tu_asked t) code message (tu_retry_count t)")
    case (RetryWith token mx why)
    show ?thesis
    proof (cases "tv_cancelled V (tu_asked t) \<or> token \<in> set (tu_retry_tokens t) \<or> tu_retry_count t \<ge> mx")
      case True
      then have "?r = NotRecovered ?t1" using RetryWith by (auto simp: request_error_recovery_def Let_def)
      then show ?thesis using assms(1) t1 same_recorded [OF t1] by (simp add: turn_of_recovery_def)
    next
      case False
      have mx: "mx \<le> M" using assms(2) RetryWith unfolding bounded_recovery_def by blast
      let ?t2 = "?t1\<lparr>tu_retry_tokens := tu_retry_tokens ?t1 @ [token], tu_retry_count := tu_retry_count ?t1 + 1\<rparr>"
      let ?t3 = "refresh_agent_context V ?t2"
      obtain t4 ok where l: "log_event V (retry_notice ?t3 why mx) ?t3 = (t4, ok)" by fastforce
      have s: "same_retries ?t2 t4" using refresh_same log_event_same [OF l] by (rule same_retries_trans)
      have r: "?r = (if ok then Recovered t4 else RecoveryRaises t4)"
        using RetryWith False l by (simp add: request_error_recovery_def Let_def)
      have "retries_recorded M ?t2" using assms(1) False mx by (auto simp: retries_recorded_def)
      then have "retries_recorded M t4" using same_recorded [OF s] by simp
      moreover have "tu_retry_count t4 = tu_retry_count t + 1" and "tu_paused t4 = tu_paused t"
        using s by (simp_all add: same_retries_def)
      ultimately show ?thesis using r False mx by (auto simp: turn_of_recovery_def)
    qed
  qed (use assms(1) same_recorded [OF t1] in \<open>simp_all add: request_error_recovery_def turn_of_recovery_def\<close>)
  then show "retries_recorded M (turn_of_recovery ?r) \<and> tu_retry_count t \<le> tu_retry_count (turn_of_recovery ?r) \<and>
      tu_paused (turn_of_recovery ?r) = tu_paused t" by blast
  from main show "?r = Recovered t' \<Longrightarrow> tu_retry_count t' = tu_retry_count t + 1 \<and> tu_retry_count t < M" by blast
qed

text \<open>What a handler leaves: the records of the retries, and where the machine goes from there.\<close>

definition good_step :: "int \<Rightarrow> turn \<Rightarrow> handled \<Rightarrow> bool" where
  "good_step M t h \<longleftrightarrow> retries_recorded M (turn_of h) \<and> tu_retry_count t \<le> tu_retry_count (turn_of h) \<and>
     (\<forall>t'. h = Next t' TURN_RUNNING \<longrightarrow> tu_retry_count t < tu_retry_count t' \<and> tu_retry_count t' \<le> M) \<and>
     (\<forall>t'. h \<noteq> Next t' BUILDING) \<and>
     (tu_paused (turn_of h) = tu_paused t \<or> (\<exists>t'. h = Next t' FINALIZING))"

lemma after_error_good:
  assumes "retries_recorded M t" and "bounded_recovery V M" and "otherwise \<in> {FINALIZING, TURN_ERROR}"
  shows "good_step M t (after_error V code message otherwise t)"
  using recovery_recorded [OF assms(1,2), of code message] assms(3)
  by (cases "request_error_recovery V code message t")
    (force simp: after_error_def good_step_def turn_of_def turn_of_recovery_def)+

lemma good_step_weaken:
  assumes "good_step M t1 h" and "tu_retry_count t \<le> tu_retry_count t1" and "tu_paused t1 = tu_paused t"
  shows "good_step M t h"
  using assms by (auto simp: good_step_def)

lemma after_exception_good:
  "retries_recorded M t \<Longrightarrow> bounded_recovery V M \<Longrightarrow> good_step M t (after_exception V t)"
  by (simp add: after_exception_def after_error_good)

lemma after_run_good:
  assumes "retries_recorded M t" and "bounded_recovery V M"
  shows "good_step M t (after_run V st t)"
proof (cases "rs_status st = PAUSED \<or> \<not> is_error_end st")
  case True
  then show ?thesis using assms(1)
    by (auto simp: after_run_def good_step_def turn_of_def retries_recorded_def)
next
  case False
  let ?code = "str_or (opt_str (rs_error_code st)) ''request_error''"
  let ?message = "str_or (opt_str (rs_error st)) ''Agent request failed''"
  let ?r = "request_error_recovery V ?code ?message t"
  note rec = recovery_recorded [OF assms, of ?code ?message]
  show ?thesis
  proof (cases ?r)
    case (RecoveryRaises t')
    have "good_step M t' (after_exception V t')"
      using rec RecoveryRaises by (intro after_exception_good [OF _ assms(2)]) (simp add: turn_of_recovery_def)
    then have "good_step M t (after_exception V t')"
      using rec RecoveryRaises by (auto intro: good_step_weaken simp: turn_of_recovery_def)
    then show ?thesis using False RecoveryRaises by (simp add: after_run_def)
  next
    case (Recovered t')
    then show ?thesis using False rec(1) rec(2) [OF Recovered]
      by (force simp: after_run_def good_step_def turn_of_def turn_of_recovery_def)
  next
    case (NotRecovered t')
    then show ?thesis using False rec(1)
      by (force simp: after_run_def good_step_def turn_of_def turn_of_recovery_def)
  qed
qed

lemma run_turn_good:
  assumes "retries_recorded M t" and "bounded_recovery V M"
  shows "good_step M t (run_turn V t)"
proof (cases "tu_agent t")
  case None
  then show ?thesis using assms(1) by (simp add: run_turn_def good_step_def turn_of_def)
next
  case (Some u)
  define e where "e = tv_run V (tu_runs t) u (turn_input t)"
  obtain t1 ok where a: "append_events V (t\<lparr>tu_final_content := [], tu_agent := Some (runner_of_end e), tu_runs := tu_runs t + 1\<rparr>)
      (events_since u (runner_of_end e)) = (t1, ok)" by fastforce
  have s: "same_retries t t1"
    by (rule same_retries_trans [OF _ append_events_same [OF a]]) (simp add: same_retries_def)
  then have r: "retries_recorded M t1" and c: "tu_retry_count t \<le> tu_retry_count t1" "tu_paused t1 = tu_paused t"
    using same_recorded [OF s] assms(1) by (simp_all add: same_retries_def)
  have "good_step M t1 (Next t1 TURN_CANCELLED)" using r by (simp add: good_step_def turn_of_def)
  moreover note after_exception_good [OF r assms(2)] after_run_good [OF r assms(2)]
  ultimately have "good_step M t1 (run_turn V t)"
    unfolding run_turn_def Some using a
    by (auto simp: Let_def e_def [symmetric] split: run_end.splits)
  then show ?thesis using c by (rule good_step_weaken)
qed

lemma advance_good:
  assumes "retries_recorded M t" and "bounded_recovery V M" and "tu_status t = TURN_RUNNING"
  shows "good_step M t (advance V t)"
  using run_turn_good [OF assms(1,2)] assms(3) by (simp add: advance_def)

lemma build_keeps:
  "same_retries t (turn_of (build_turn V t)) \<and> (\<forall>t' s. build_turn V t = Next t' s \<longrightarrow> s = TURN_RUNNING)"
  by (auto simp: build_turn_def load_records_def turn_of_def same_retries_def
      split: prod.splits sum.splits build_answer.splits)

definition steps_left :: "int \<Rightarrow> turn \<Rightarrow> nat" where
  "steps_left M t = (case tu_status t of
     BUILDING \<Rightarrow> nat (max 0 M - tu_retry_count t) + 4
   | TURN_RUNNING \<Rightarrow> nat (max 0 M - tu_retry_count t) + 3
   | FINALIZING \<Rightarrow> 2
   | _ \<Rightarrow> 1)"

definition well_paused :: "turn \<Rightarrow> bool" where
  "well_paused t \<longleftrightarrow> (tu_paused t \<longrightarrow> tu_status t \<in> {FINALIZING, TURN_COMPLETED})"

lemma status_simps [simp]:
  "retries_recorded M (t\<lparr>tu_status := s\<rparr>) = retries_recorded M t"
  "tu_status (t\<lparr>tu_status := s\<rparr>) = s"
  by (simp_all add: retries_recorded_def)

lemma advance_step:
  assumes "retries_recorded M t" and "bounded_recovery V M" and "\<not> is_final (tu_status t)" and "well_paused t"
  shows "case advance V t of
      Next t' s \<Rightarrow> retries_recorded M t' \<and> well_paused (t'\<lparr>tu_status := s\<rparr>) \<and> steps_left M (t'\<lparr>tu_status := s\<rparr>) < steps_left M t
    | HandlerRaised t' \<Rightarrow> retries_recorded M t' \<and> \<not> tu_paused t'
    | HandlerWasCancelled t' \<Rightarrow> retries_recorded M t' \<and> \<not> tu_paused t'"
proof (cases "tu_status t")
  case BUILDING
  then have np: "\<not> tu_paused t" using assms(4) by (auto simp: well_paused_def)
  show ?thesis
  proof (cases "build_turn V t")
    case (Next t' s)
    then have "same_retries t t'" and s: "s = TURN_RUNNING"
      using build_keeps [of t V] by (simp_all add: turn_of_def)
    then show ?thesis using BUILDING Next np same_recorded assms(1)
      by (simp add: advance_def well_paused_def steps_left_def same_retries_def retries_recorded_def)
  qed (use BUILDING np same_recorded assms(1) build_keeps [of t V] in
      \<open>simp_all add: advance_def turn_of_def same_retries_def retries_recorded_def\<close>)
next
  case TURN_RUNNING
  then have np: "\<not> tu_paused t" using assms(4) by (auto simp: well_paused_def)
  note g = advance_good [OF assms(1,2) TURN_RUNNING]
  show ?thesis
  proof (cases "advance V t")
    case (Next t' s)
    then have r: "retries_recorded M t'" and c: "tu_retry_count t \<le> tu_retry_count t'"
      and run: "s = TURN_RUNNING \<Longrightarrow> tu_retry_count t < tu_retry_count t' \<and> tu_retry_count t' \<le> M" and nb: "s \<noteq> BUILDING"
      and p: "tu_paused t' \<Longrightarrow> s = FINALIZING"
      using g np by (auto simp: good_step_def turn_of_def)
    have "steps_left M (t'\<lparr>tu_status := s\<rparr>) < steps_left M t"
      using TURN_RUNNING run nb by (cases s) (auto simp: steps_left_def)
    then show ?thesis using Next r p by (auto simp: well_paused_def)
  qed (use g np in \<open>auto simp: good_step_def turn_of_def\<close>)
next
  case FINALIZING
  then show ?thesis using assms(1,4) by (simp add: advance_def well_paused_def steps_left_def)
qed (use assms(3) in \<open>simp_all add: is_final_def\<close>)

lemma drive_ends:
  assumes "retries_recorded M t" and "bounded_recovery V M" and "well_paused t" and "steps_left M t < n"
  shows "\<exists>t'. drive_loop n V t = Some t' \<and> retries_recorded M t' \<and> is_final (tu_status t') \<and> well_paused t'"
  using assms(1,3,4)
proof (induction n arbitrary: t)
  case 0
  then show ?case by simp
next
  case (Suc n)
  show ?case
  proof (cases "is_final (tu_status t)")
    case True
    then show ?thesis using Suc.prems by simp
  next
    case False
    note step = advance_step [OF Suc.prems(1) assms(2) False Suc.prems(2)]
    show ?thesis
    proof (cases "advance V t")
      case (Next t' s)
      then show ?thesis using Suc.IH [of "t'\<lparr>tu_status := s\<rparr>"] Suc.prems(3) step False by simp
    qed (use step False in \<open>simp_all add: is_final_def well_paused_def\<close>)
  qed
qed

text \<open>
  C15: A turn always comes to an end, however runs of the agent fail and whatever the recovery hook asks
  for, as long as the attempts it asks for are bounded by \<open>M\<close>: it takes at most \<open>M + 5\<close> steps of
  the state machine and grants at most \<open>M\<close> retries, each for a different progress token.
\<close>

theorem turn_ends_within_retries:
  assumes "bounded_recovery V M" and "nat (max 0 M) + 5 \<le> n"
  shows "\<exists>t'. drive_loop n V (new_turn i inbound agent_id user_message confirm) = Some t' \<and>
    is_final (tu_status t') \<and> distinct (tu_retry_tokens t') \<and>
    tu_retry_count t' = int (length (tu_retry_tokens t')) \<and> tu_retry_count t' \<le> max 0 M"
proof -
  let ?t = "new_turn i inbound agent_id user_message confirm"
  have "retries_recorded M ?t" "well_paused ?t" "steps_left M ?t < n"
    using assms(2) by (simp_all add: new_turn_def retries_recorded_def well_paused_def steps_left_def)
  from drive_ends [OF this(1) assms(1) this(2,3)] show ?thesis by (auto simp: retries_recorded_def)
qed

text \<open>A model whose hook raises in each first round, and a recovery that asks for one more attempt.\<close>

definition raising_env :: react_env where
  "raising_env = silent_env\<lparr>rx_before := (\<lambda>k. BeforeRaises)\<rparr>"

definition sample_run_lib :: run_lib where
  "sample_run_lib = \<lparr>rl_provider = sample_provider, rl_fingerprint = (\<lambda>m. msg_id m), rl_gen = (\<lambda>k j. ''b''),
     rl_uuid = (\<lambda>k. ''u''), rl_now = ''t'', rl_done = (\<lambda>k. False), rl_max_iterations = Some 5, rl_model = ''gpt''\<rparr>"

definition sample_runner :: runner where
  "sample_runner = \<lparr>ru_loop = idle_state 5, ru_task = None, ru_baseline = [], ru_emitted = []\<rparr>"

definition failing_env :: turn_env where
  "failing_env = \<lparr>tv_append_fails = (\<lambda>k. False), tv_records = (\<lambda>k. Inr []), tv_session_exists = True,
     tv_build = BuildOk, tv_first_input = [], tv_runner = (\<lambda>ms. sample_runner),
     tv_run = (\<lambda>k u input. case react_run sample_run_lib 9 raising_env 1 None input u of Some e \<Rightarrow> e | None \<Rightarrow> RunRefused u),
     tv_run_cancelled = (\<lambda>k. False), tv_recover = (\<lambda>k code message n. RetryWith ''token'' 1 []),
     tv_cancelled = (\<lambda>k. False), tv_lib = sample_run_lib, tv_dump = (\<lambda>m. []), tv_strip = (\<lambda>s. s), tv_model = ''gpt''\<rparr>"

definition sample_input :: runtime_input where
  "sample_input = \<lparr>ri_session_id = ''s'', ri_request_id = ''q'', ri_channel_id = ''web'', ri_source = ''user'', ri_metadata = []\<rparr>"

lemma turn_ends_within_retries_witness:
  "\<exists>t'. drive_loop 6 failing_env (new_turn ''i'' sample_input ''a'' ''m'' None) = Some t' \<and>
    is_final (tu_status t') \<and> tu_retry_count t' \<le> 1"
proof -
  have "bounded_recovery failing_env 1" by (simp add: bounded_recovery_def failing_env_def)
  from turn_ends_within_retries [OF this, of 6] show ?thesis by fastforce
qed

section \<open>The retry of a failed request\<close>

text \<open>The runs of the turn are runs of the agent in the task of the turn.\<close>

definition runs_in_task :: "turn_env \<Rightarrow> nat \<Rightarrow> (nat \<Rightarrow> react_env) \<Rightarrow> nat \<Rightarrow> int option option \<Rightarrow> bool" where
  "runs_in_task V fuel X task m \<longleftrightarrow> \<not> rl_done (tv_lib V) task \<and>
     (\<forall>k u input e. react_run (tv_lib V) fuel (X k) task m input u = Some e \<longrightarrow> tv_run V k u input = e)"

definition agent_task :: "turn \<Rightarrow> nat option" where
  "agent_task t = (case tu_agent t of None \<Rightarrow> None | Some u \<Rightarrow> ru_task u)"

definition same_agent_task :: "turn \<Rightarrow> turn \<Rightarrow> bool" where
  "same_agent_task t t' \<longleftrightarrow> agent_task t' = agent_task t \<and> (tu_agent t' = None \<longleftrightarrow> tu_agent t = None) \<and> tu_confirm t' = tu_confirm t"

lemma same_agent_task_trans: "same_agent_task a b \<Longrightarrow> same_agent_task b c \<Longrightarrow> same_agent_task a c"
  by (simp add: same_agent_task_def)

interpretation task: turn_relation same_agent_task
proof
  show "same_agent_task t (refresh_agent_context V t)" for t V
    by (auto simp: refresh_agent_context_def load_records_def same_agent_task_def agent_task_def set_context_def
        split: option.splits sum.splits)
qed (auto intro: same_agent_task_trans
    simp: same_agent_task_def agent_task_def log_event_def note_message_def split: option.splits)

lemma refused_run:
  assumes "runs_in_task V fuel X task m" and "tu_confirm t = None" and "agent_task t = Some task"
    and "\<not> tv_run_cancelled V (tu_runs t)"
  shows "run_turn V t = after_exception V (t\<lparr>tu_final_content := [], tu_runs := tu_runs t + 1\<rparr>)"
proof -
  obtain u where u: "tu_agent t = Some u" "ru_task u = Some task"
    using assms(3) by (auto simp: agent_task_def split: option.splits)
  have "is_running (tv_lib V) u" using assms(1) u by (simp add: is_running_def runs_in_task_def)
  then have "react_run (tv_lib V) fuel (X (tu_runs t)) task m (turn_input t) u = Some (RunRefused u)"
    using assms(2) by (intro run_while_running) (auto simp: turn_input_def)
  then have e: "tv_run V (tu_runs t) u (turn_input t) = RunRefused u" using assms(1) by (auto simp: runs_in_task_def)
  have same: "t\<lparr>tu_final_content := [], tu_agent := Some u, tu_runs := Suc (tu_runs t)\<rparr> =
      t\<lparr>tu_final_content := [], tu_runs := Suc (tu_runs t)\<rparr>"
    using u(1) by (cases t) simp
  show ?thesis using assms(4)
    by (simp add: run_turn_def u e Let_def runner_of_end_def events_since_def same)
qed

text \<open>
  A request that is recovered in an ordinary turn is never sent again. The run that failed has left
  its mark on the runner, the turn's own task is still running, and so the retry is turned away as
  a second concurrent run: it publishes no event and asks no model, and counts as one more
  failure.
\<close>

theorem recovered_request_is_refused:
  assumes "runs_in_task V fuel X task m" and "tu_confirm t = None"
    and "tu_agent t = Some u" and "\<not> is_running (tv_lib V) u" and "tool_calls_in_state ASKING (context_of u) = []"
    and "react_run (tv_lib V) fuel (X (tu_runs t)) task m (turn_input t) u = Some e"
    and "run_turn V t = Next t' TURN_RUNNING" and "\<not> tv_run_cancelled V (tu_runs t')"
  shows "run_turn V t' = after_exception V (t'\<lparr>tu_final_content := [], tu_runs := tu_runs t' + 1\<rparr>)"
proof (rule refused_run [OF assms(1) _ _ assms(8)])
  have e: "tv_run V (tu_runs t) u (turn_input t) = e" using assms(1,6) by (auto simp: runs_in_task_def)
  have ru: "ru_task (runner_of_end e) = Some task"
    using task_of_run [OF assms(6) _ assms(5,4)] assms(2)
    by (cases e) (auto simp: runner_of_end_def turn_input_def)
  obtain t1 ok where a: "append_events V (t\<lparr>tu_final_content := [], tu_agent := Some (runner_of_end e), tu_runs := tu_runs t + 1\<rparr>)
      (events_since u (runner_of_end e)) = (t1, ok)" by fastforce
  have t1: "agent_task t1 = Some task" "tu_confirm t1 = None"
    using task.append_events_kept [OF a] assms(2) ru by (auto simp: same_agent_task_def agent_task_def)
  have "Next t' TURN_RUNNING = after_exception V t1 \<or> (\<exists>st. Next t' TURN_RUNNING = after_run V st t1)"
    using assms(7) unfolding run_turn_def assms(3) option.case e Let_def a prod.case
    by (auto split: if_splits run_end.splits) metis
  then have "same_agent_task t1 t'"
    using task.after_exception_kept [of t1 V] task.after_run_kept [of t1 V] by (metis handled.simps(10) turn_of_def)
  then show "tu_confirm t' = None" and "agent_task t' = Some task"
    using t1 by (simp_all add: same_agent_task_def)
qed

lemma recovered_request_is_refused_witness:
  "\<exists>t'. run_turn failing_env
      ((new_turn ''i'' sample_input ''a'' ''m'' None)\<lparr>tu_status := TURN_RUNNING, tu_agent := Some sample_runner\<rparr>) =
      Next t' TURN_RUNNING \<and>
    run_turn failing_env t' = after_exception failing_env (t'\<lparr>tu_final_content := [], tu_runs := tu_runs t' + 1\<rparr>)"
proof -
  let ?t = "(new_turn ''i'' sample_input ''a'' ''m'' None)\<lparr>tu_status := TURN_RUNNING, tu_agent := Some sample_runner\<rparr>"
  have idle: "\<not> is_running (tv_lib failing_env) sample_runner" "tool_calls_in_state ASKING (context_of sample_runner) = []"
    by (simp_all add: is_running_def sample_runner_def context_of_def idle_state_def empty_run_def tool_calls_in_state_def context_blocks_def calls_of_def)
  have tasks: "runs_in_task failing_env 9 (\<lambda>k. raising_env) 1 None"
    by (simp add: runs_in_task_def failing_env_def sample_run_lib_def)
  obtain u s where ready: "prepare_new_reply sample_run_lib 1 None (NewMessages []) sample_runner = (u, True)"
      and loop: "react_loop 9 raising_env (fresh_loop (ru_loop u)) None = Some s" "lx_raised s"
        "rn_events (lx_run s) = rn_events (lx_run (ru_loop sample_runner))"
    by (simp add: prepare_new_reply_def sample_runner_def idle_state_def empty_run_def context_of_def added_messages_def
        tool_calls_in_state_def context_blocks_def calls_of_def is_running_def start_loop_def set_state_def start_run_def
        reset_usage_def set_context_def capture_baseline_def update_run_state_def fresh_loop_def eval_nat_numeral
        loop_round_def decide_action_def over_limit_def default_iterations_def sample_run_lib_def reasoning_round_def
        raising_env_def raising_def)
  have e: "react_run (tv_lib failing_env) 9 raising_env 1 None (turn_input ?t) sample_runner = Some (RunRaises (u\<lparr>ru_loop := s\<rparr>))"
    using loop(1,2) ready by (simp add: react_run_def turn_input_def new_turn_def loop_end_def failing_env_def)
  then have r: "tv_run failing_env 0 sample_runner (turn_input ?t) = RunRaises (u\<lparr>ru_loop := s\<rparr>)"
    by (simp add: failing_env_def)
  have "\<exists>t'. run_turn failing_env ?t = Next t' TURN_RUNNING"
    using r loop(3)
    by (simp add: run_turn_def new_turn_def Let_def runner_of_end_def events_since_def after_exception_def after_error_def
        request_error_recovery_def failing_env_def refresh_agent_context_def load_records_def log_event_def)
  then obtain t' where t': "run_turn failing_env ?t = Next t' TURN_RUNNING" by blast
  have "run_turn failing_env t' = after_exception failing_env (t'\<lparr>tu_final_content := [], tu_runs := tu_runs t' + 1\<rparr>)"
    by (rule recovered_request_is_refused [OF tasks _ _ idle e t']) (simp_all add: new_turn_def failing_env_def)
  with t' show ?thesis by blast
qed

text \<open>
  Were it not refused, the retry would see the history twice: it is put into the context of the agent and
  given to the run as its input, which adds each message again.
\<close>

lemma refreshed_context_is_doubled:
  assumes "tu_agent t = Some u" and "tv_records V (tu_loads t) = Inr ms" and "ms \<noteq> []"
  shows "\<exists>v. tu_agent (refresh_agent_context V t) = Some v \<and> context_of v = ms \<and>
    added_messages R (NewMessages (tu_messages (refresh_agent_context V t))) (context_of v) = (ms @ ms, True)"
proof -
  have add: "add_all R xs (enumerate n (map RawMsg ys)) = (xs @ ys, True)" for xs ys n
    by (induction ys arbitrary: xs n) (simp_all add: add_raw_message_def)
  show ?thesis using assms
    by (simp add: refresh_agent_context_def load_records_def context_of_def set_context_def added_messages_def add)
qed

section \<open>The log of a turn\<close>

definition log_grows :: "turn \<Rightarrow> turn \<Rightarrow> bool" where
  "log_grows t t' \<longleftrightarrow> tu_id t' = tu_id t \<and> tu_inbound t' = tu_inbound t \<and> (\<exists>es. tu_log t' = tu_log t @ es)"

lemma log_grows_trans: "log_grows a b \<Longrightarrow> log_grows b c \<Longrightarrow> log_grows a c"
  by (auto simp: log_grows_def)

interpretation turn_log: turn_relation log_grows
proof
  show "log_grows t (refresh_agent_context V t)" for t V
    by (auto simp: refresh_agent_context_def load_records_def log_grows_def split: option.splits sum.splits)
qed (auto intro: log_grows_trans simp: log_grows_def log_event_def note_message_def split: option.splits)

lemma run_turn_grows: "log_grows t (turn_of (run_turn V t))"
proof (cases "tu_agent t")
  case None
  then show ?thesis by (simp add: run_turn_def turn_of_def)
next
  case (Some u)
  define e where "e = tv_run V (tu_runs t) u (turn_input t)"
  obtain t1 ok where a: "append_events V (t\<lparr>tu_final_content := [], tu_agent := Some (runner_of_end e), tu_runs := tu_runs t + 1\<rparr>)
      (events_since u (runner_of_end e)) = (t1, ok)" by fastforce
  have "log_grows t t1" by (rule log_grows_trans [OF _ turn_log.append_events_kept [OF a]]) (simp add: log_grows_def)
  moreover have "log_grows t1 (turn_of (run_turn V t))"
    using turn_log.after_exception_kept [of t1 V] turn_log.after_run_kept [of t1 V]
    unfolding run_turn_def Some option.case e_def [symmetric] Let_def a prod.case
    by (auto simp: turn_of_def [of "Next t1 TURN_CANCELLED"] split: run_end.splits)
  ultimately show ?thesis by (rule log_grows_trans)
qed

lemma advance_grows: "log_grows t (turn_of (advance V t))"
proof -
  have "log_grows t (turn_of (build_turn V t))"
    by (auto simp: build_turn_def load_records_def turn_of_def log_grows_def
        split: prod.splits sum.splits build_answer.splits)
  then show ?thesis using run_turn_grows [of t V]
    by (cases "tu_status t") (simp_all add: advance_def turn_of_def)
qed

lemma log_grows_status [simp]: "log_grows t (t'\<lparr>tu_status := s\<rparr>) = log_grows t t'"
    "log_grows (t\<lparr>tu_status := s\<rparr>) t' = log_grows t t'"
  by (simp_all add: log_grows_def)

lemma drive_grows: "drive_loop n V t = Some t' \<Longrightarrow> log_grows t t'"
proof (induction n arbitrary: t)
  case 0
  then show ?case by simp
next
  case (Suc n)
  show ?case
  proof (cases "is_final (tu_status t)")
    case False
    show ?thesis using Suc False advance_grows [of t V]
      by (cases "advance V t") (auto simp: turn_of_def intro: log_grows_trans dest!: Suc.IH)
  qed (use Suc.prems in simp)
qed

lemma append_snapshots_grows: "log_grows t (append_snapshots V t ms) \<and>
    tu_status (append_snapshots V t ms) = tu_status t \<and> tu_paused (append_snapshots V t ms) = tu_paused t"
proof (induction ms arbitrary: t)
  case Nil
  then show ?case by simp
next
  case (Cons m ms)
  have one: "log_grows t t1 \<and> tu_status t1 = tu_status t \<and> tu_paused t1 = tu_paused t" if "append_snapshot V t m = (t1, ok)" for t1 ok
    using that by (auto simp: append_snapshot_def append_turn_event_def note_message_def log_event_def log_grows_def Let_def
        split: if_splits option.splits)
  obtain t1 ok where s: "append_snapshot V t m = (t1, ok)" by fastforce
  show ?case using one [OF s] Cons.IH [of t1] s by (cases ok) (auto intro: log_grows_trans)
qed

lemma append_final_grows: "log_grows t (append_final_assistant V t) \<and>
    tu_status (append_final_assistant V t) = tu_status t \<and> tu_paused (append_final_assistant V t) = tu_paused t"
proof (cases "tu_agent t")
  case None
  then show ?thesis by (simp add: append_final_assistant_def)
next
  case (Some u)
  obtain u' ms where b: "build_final_assistant_events (tv_lib V) u = (u', ms)" by fastforce
  have "log_grows t (t\<lparr>tu_agent := Some u'\<rparr>)" by (simp add: log_grows_def)
  then show ?thesis using append_snapshots_grows [of "t\<lparr>tu_agent := Some u'\<rparr>" V ms] Some b
    by (auto simp: append_final_assistant_def intro: log_grows_trans)
qed

text \<open>How the outcome of the last event and the result handed back go together.\<close>

lemma outcome_agrees:
  assumes "is_final (tu_status t)" and "well_paused t" and "tu_status t' = tu_status t"
  shows "(public_status t' (fst (turn_outcome t)) = ''failed'') = (fst (turn_outcome t) = ''error'')"
    and "(public_status t' (fst (turn_outcome t)) = ''cancelled'') = (fst (turn_outcome t) = ''cancelled'')"
    and "tu_paused t = (fst (turn_outcome t) = ''paused'')"
  using assms
  by (auto simp: public_status_def turn_outcome_def Let_def is_final_def well_paused_def split: turn_status.splits)

text \<open>
  The session log shows every turn that starts as one bracket: its first event is the start and its last
  the end of this turn, whatever happens in between. The end tells the same as the result that the
  caller gets: the turn has failed, was cancelled or paused in both or in neither.
\<close>

theorem turn_is_logged_as_bracket:
  assumes "bounded_recovery V M" and "nat (max 0 M) + 5 \<le> n" and "\<forall>k. \<not> tv_append_fails V k"
  shows "\<exists>t r middle i e.
    execute_turn n V (new_turn tid inbound agent_id user_message confirm) = Inr (Some (t, r)) \<and>
    tu_log t = turn_start V (new_turn tid inbound agent_id user_message confirm) # middle @ [(i, TurnEnd e)] \<and>
    te_turn_id e = tid \<and> rr_turn_id r = tid \<and>
    (rr_status r = ''failed'' \<longleftrightarrow> te_outcome e = ''error'') \<and>
    (rr_status r = ''cancelled'' \<longleftrightarrow> te_outcome e = ''cancelled'') \<and>
    (rr_paused r \<longleftrightarrow> te_outcome e = ''paused'')"
proof -
  let ?t0 = "new_turn tid inbound agent_id user_message confirm"
  let ?t1 = "?t0\<lparr>tu_appends := 1, tu_log := [turn_start V ?t0]\<rparr>"
  have start: "log_event V (turn_start V ?t0) ?t0 = (?t1, True)"
    using assms(3) by (simp add: log_event_def new_turn_def)
  have "retries_recorded M ?t1" "well_paused ?t1" "steps_left M ?t1 < n"
    using assms(2) by (simp_all add: new_turn_def retries_recorded_def well_paused_def steps_left_def)
  from drive_ends [OF this(1) assms(1) this(2,3)] obtain t2
    where d: "drive_loop n V ?t1 = Some t2" "is_final (tu_status t2)" "well_paused t2" by blast
  obtain outcome why where out: "turn_outcome t2 = (outcome, why)" by fastforce
  let ?t3 = "append_final_assistant V t2"
  have p: "tu_status ?t3 = tu_status t2" "tu_paused ?t3 = tu_paused t2" using append_final_grows [of t2 V] by auto
  have "log_grows ?t1 ?t3"
    using append_final_grows [of t2 V] by (blast intro: log_grows_trans [OF drive_grows [OF d(1)]])
  then obtain es where "tu_log ?t3 = tu_log ?t1 @ es" and "tu_id ?t3 = tu_id ?t1" unfolding log_grows_def by blast
  moreover have "tu_log ?t1 = [turn_start V ?t0]" and "tu_id ?t1 = tid" by (simp_all add: new_turn_def)
  ultimately have g: "tu_log ?t3 = turn_start V ?t0 # es" "tu_id ?t3 = tid" by simp_all
  obtain i e where te: "turn_end ?t3 outcome why = (i, TurnEnd e)" "te_outcome e = outcome" "te_turn_id e = tid"
    using g(2) unfolding turn_end_def by fastforce
  let ?t4 = "?t3\<lparr>tu_appends := tu_appends ?t3 + 1, tu_log := tu_log ?t3 @ [(i, TurnEnd e)]\<rparr>"
  have c: "close_turn V t2 = (?t4, \<lparr>rr_session_id = ri_session_id (tu_inbound ?t4), rr_turn_id = tid,
      rr_status = public_status ?t4 outcome, rr_user_message_id = tu_user_message_id ?t4,
      rr_final_content = tu_final_content ?t4, rr_failed = (public_status ?t4 outcome = ''failed''), rr_paused = tu_paused t2\<rparr>)"
    using assms(3) te g(2) p(2) by (simp add: close_turn_def out log_event_def Let_def)
  have x: "execute_turn n V ?t0 = Inr (Some (close_turn V t2))"
    unfolding execute_turn_def start prod.case drive_def d(1) by simp
  have "tu_status ?t4 = tu_status t2" using p(1) by simp
  note agree = outcome_agrees [OF d(2,3) this, unfolded out fst_conv]
  show ?thesis
    by (rule exI [of _ ?t4], rule exI [of _ "snd (close_turn V t2)"], rule exI [of _ es], rule exI [of _ i], rule exI [of _ e])
      (use x c agree g(1) te(2,3) in simp)
qed

lemma turn_is_logged_as_bracket_witness:
  "\<exists>t r middle i e. execute_turn 6 failing_env (new_turn ''i'' sample_input ''a'' ''m'' None) = Inr (Some (t, r)) \<and>
    tu_log t = turn_start failing_env (new_turn ''i'' sample_input ''a'' ''m'' None) # middle @ [(i, TurnEnd e)] \<and>
    (rr_status r = ''failed'' \<longleftrightarrow> te_outcome e = ''error'')"
proof -
  have "bounded_recovery failing_env 1" and "\<forall>k. \<not> tv_append_fails failing_env k"
    by (simp_all add: bounded_recovery_def failing_env_def)
  from turn_is_logged_as_bracket [OF this(1) _ this(2), of 6 "''i''" sample_input "''a''" "''m''" None] show ?thesis by fastforce
qed

end
