(* ===== verification/ContextView.thy ===== *)
theory ContextView
  imports Provider
begin

text \<open>
  What the model gets to see of a long history: the view that compaction markers ask for
  (\<open>packages/ftre-compaction/src/ftre_compaction/context.py\<close>), stored messages as provider messages
  (\<open>src/ftre/services/session/message/converter.py\<close>) and the estimate of their size
  (\<open>token_counter.py\<close>).

  The block that replaces a trimmed output takes its id and time from \<open>gen\<close> and \<open>now\<close>. The view
  is made of copies, so a message of the view and its original are different values here.
\<close>

section \<open>The view\<close>

definition TRIMMED_TOOL_RESULT_PLACEHOLDER :: string where
  "TRIMMED_TOOL_RESULT_PLACEHOLDER = bytes [91, 229, 183, 178, 229, 142, 139, 231, 188, 169, 232, 163, 129, 229, 137, 170,
     239, 188, 154, 229, 142, 159, 229, 167, 139, 229, 183, 165, 229, 133, 183, 232, 190, 147, 229, 135, 186, 228, 184,
     141, 229, 134, 141, 229, 143, 175, 232, 167, 129, 93]"

definition LEGACY_TRIMMED_TOOL_RESULT_PLACEHOLDER :: string where
  "LEGACY_TRIMMED_TOOL_RESULT_PLACEHOLDER =
     bytes [91, 229, 183, 165, 229, 133, 183, 232, 190, 147, 229, 135, 186, 229, 183, 178, 229, 142, 139, 231, 188, 169, 93]"

definition compact_metadata :: "msg \<Rightarrow> jdict" where
  "compact_metadata m = (case dict_get (msg_metadata m) ''context_compact'' of Some (JObj d) \<Rightarrow> d | _ \<Rightarrow> [])"

definition nonnegative_int :: "pylib \<Rightarrow> json option \<Rightarrow> nat" where
  "nonnegative_int L v = (case int_or_zero L v of Inr i \<Rightarrow> nat i | Inl e \<Rightarrow> 0)"

definition result_ids :: "msg list \<Rightarrow> string list" where
  "result_ids ms = map trb_id (results_of (concat (map msg_content ms)))"

definition trim_by_count :: "pylib \<Rightarrow> msg list \<Rightarrow> string list \<Rightarrow> jdict \<Rightarrow> string list" where
  "trim_by_count L before ids meta =
     ids @ take (nonnegative_int L (dict_get meta ''tool_results'')) (filter (\<lambda>i. i \<notin> set ids) (result_ids before))"

text \<open>One fast marker names the results it trims, or trims the oldest ones by count.\<close>

definition trim_step :: "pylib \<Rightarrow> msg list \<Rightarrow> string list \<Rightarrow> nat \<times> msg \<Rightarrow> string list" where
  "trim_step L ms ids im =
     (if msg_name (snd im) \<noteq> COMPACT_FAST then ids
      else let meta = compact_metadata (snd im)
        in case dict_get meta ''tool_result_ids'' of
             Some (JList xs) \<Rightarrow> if xs \<noteq> [] then ids @ map (py_str L) (filter jtruthy xs)
               else trim_by_count L (take (fst im) ms) ids meta
           | _ \<Rightarrow> trim_by_count L (take (fst im) ms) ids meta)"

definition trimmed_ids :: "pylib \<Rightarrow> msg list \<Rightarrow> string list" where
  "trimmed_ids L ms = foldl (trim_step L ms) [] (enumerate 0 ms)"

definition is_anchor :: "msg \<Rightarrow> bool" where
  "is_anchor m \<longleftrightarrow> msg_role m = RoleUser \<and> msg_name m = COMPACT"

text \<open>The messages from the summary on: what comes after the last message it covers, or after itself.\<close>

definition after_summary :: "pylib \<Rightarrow> msg list \<Rightarrow> nat \<Rightarrow> msg list" where
  "after_summary L ms anchor =
     (let compact = ms ! anchor; through = str_or_empty L (dict_get (compact_metadata compact) ''through_message_id'')
      in case index_of (\<lambda>m. msg_id m = through) ms of
           Some t \<Rightarrow> compact # filter (\<lambda>m. msg_id m \<noteq> msg_id compact) (drop (Suc t) ms)
         | None \<Rightarrow> compact # drop (Suc anchor) ms)"

definition last_index_of :: "('a \<Rightarrow> bool) \<Rightarrow> 'a list \<Rightarrow> nat option" where
  "last_index_of P xs = map_option (\<lambda>i. length xs - Suc i) (index_of P (rev xs))"

definition placeholder_block :: "string \<Rightarrow> string \<Rightarrow> out_part" where
  "placeholder_block gen now = OutText \<lparr>tb_text = TRIMMED_TOOL_RESULT_PLACEHOLDER, tb_id = gen, tb_created_at = now, tb_finished_at = None\<rparr>"

definition trim_block :: "string \<Rightarrow> string \<Rightarrow> string list \<Rightarrow> content_block \<Rightarrow> content_block" where
  "trim_block gen now ids b = (case b of
     ToolResultB r \<Rightarrow> if trb_id r \<in> set ids then ToolResultB (r\<lparr>trb_output := OutputParts [placeholder_block gen now]\<rparr>) else b
   | _ \<Rightarrow> b)"

definition trim_message :: "string \<Rightarrow> string \<Rightarrow> string list \<Rightarrow> msg \<Rightarrow> msg" where
  "trim_message gen now ids m = m\<lparr>msg_content := map (trim_block gen now ids) (msg_content m)\<rparr>"

definition build_context_view :: "pylib \<Rightarrow> string \<Rightarrow> string \<Rightarrow> msg list \<Rightarrow> msg list" where
  "build_context_view L gen now ms =
     (let view = (case last_index_of is_anchor ms of None \<Rightarrow> ms | Some i \<Rightarrow> after_summary L ms i)
      in map (trim_message gen now (trimmed_ids L ms)) view)"

subsection \<open>What it keeps\<close>

lemma last_index_of_split:
  assumes "P c" and "list_all (\<lambda>x. \<not> P x) post"
  shows "last_index_of P (pre @ c # post) = Some (length pre)"
proof -
  have "index_of P (rev post @ c # rev pre) = Some (length post)" using assms
  proof (induction post rule: rev_induct)
    case (snoc x xs)
    then show ?case by simp
  qed simp
  then show ?thesis by (simp add: last_index_of_def)
qed

lemma last_index_of_none: "last_index_of P xs = None \<longleftrightarrow> list_all (\<lambda>x. \<not> P x) xs"
  by (auto simp: last_index_of_def index_of_None_iff list_all_iff)

lemma last_index_of_Some: "last_index_of P xs = Some i \<Longrightarrow> i < length xs \<and> P (xs ! i)"
proof -
  assume "last_index_of P xs = Some i"
  then obtain j where j: "index_of P (rev xs) = Some j" "i = length xs - Suc j" by (auto simp: last_index_of_def)
  then have "j < length xs" "P (rev xs ! j)" using index_of_Some [OF j(1)] by simp_all
  then show ?thesis using j(2) by (simp add: rev_nth)
qed

lemma after_summary_head: "\<exists>rest. after_summary L ms a = ms ! a # rest"
  by (auto simp: after_summary_def Let_def split: option.splits)

lemma index_of_split:
  assumes "P x" and "list_all (\<lambda>y. \<not> P y) pre"
  shows "index_of P (pre @ x # post) = Some (length pre)"
  using assms by (induction pre) auto

lemma trim_block_simps [simp]:
  "block_id (trim_block gen now ids b) = block_id b" "block_type (trim_block gen now ids b) = block_type b"
  by (simp_all add: trim_block_def split: content_block.splits)

lemma calls_of_trimmed [simp]: "calls_of (map (trim_block gen now ids) bs) = calls_of bs"
  by (induction bs) (auto simp: calls_of_def List.map_filter_simps trim_block_def split: content_block.splits)

lemma result_ids_trimmed [simp]: "map trb_id (results_of (map (trim_block gen now ids) bs)) = map trb_id (results_of bs)"
  by (induction bs) (auto simp: results_of_def List.map_filter_simps trim_block_def split: content_block.splits)

lemma view_after_summary:
  assumes "distinct (map msg_id (pre1 @ t # pre2 @ c # post))" and "is_anchor c" and "list_all (\<lambda>m. \<not> is_anchor m) post"
    and "str_or_empty L (dict_get (compact_metadata c) ''through_message_id'') = msg_id t"
  shows "\<exists>ids view. view = build_context_view L gen now (pre1 @ t # pre2 @ c # post) \<and>
    view = map (trim_message gen now ids) (c # pre2 @ post) \<and>
    map msg_id view = msg_id c # map msg_id (pre2 @ post) \<and>
    calls_of (context_blocks view) = calls_of (context_blocks (c # pre2 @ post)) \<and>
    map trb_id (results_of (context_blocks view)) = map trb_id (results_of (context_blocks (c # pre2 @ post)))"
proof -
  let ?ms = "pre1 @ t # pre2 @ c # post"
  let ?ids = "trimmed_ids L ?ms"
  have a: "last_index_of is_anchor ?ms = Some (length (pre1 @ t # pre2))"
    using last_index_of_split [OF assms(2,3), of "pre1 @ t # pre2"] by simp
  have "msg_id t \<notin> msg_id ` set pre1" using assms(1) by auto
  then have "list_all (\<lambda>m. msg_id m \<noteq> msg_id t) pre1" unfolding list_all_iff by (metis imageI)
  then have i: "index_of (\<lambda>m. msg_id m = msg_id t) ?ms = Some (length pre1)"
    by (intro index_of_split) simp_all
  have other: "filter (\<lambda>m. msg_id m \<noteq> msg_id c) (pre2 @ c # post) = pre2 @ post"
  proof -
    have "\<forall>m \<in> set pre2 \<union> set post. msg_id m \<noteq> msg_id c" using assms(1) by (auto simp: image_iff)
    then show ?thesis by (simp add: filter_id_conv)
  qed
  have "after_summary L ?ms (length (pre1 @ t # pre2)) = c # pre2 @ post"
    using other assms(4) i by (simp add: after_summary_def Let_def nth_append)
  then have v: "build_context_view L gen now ?ms = map (trim_message gen now ?ids) (c # pre2 @ post)"
    by (simp add: build_context_view_def a)
  have blocks: "context_blocks (map (trim_message gen now ?ids) ms) = map (trim_block gen now ?ids) (context_blocks ms)" for ms
    by (simp add: context_blocks_def map_concat comp_def trim_message_def)
  show ?thesis
    by (intro exI [of _ ?ids] exI [of _ "build_context_view L gen now ?ms"] conjI refl)
      (simp_all only: v blocks, simp_all add: trim_message_def)
qed

text \<open>
  After a summary the model sees the summary and then every message that came after the last
  one it covers, each once and in order, and nothing of what it covers. Nothing but the outputs of
  trimmed tool results is changed: calls stay paired with their results.
\<close>

theorem view_is_summary_and_rest:
  assumes "distinct (map msg_id (pre1 @ t # pre2 @ c # post))" and "is_anchor c" and "list_all (\<lambda>m. \<not> is_anchor m) post"
    and "str_or_empty L (dict_get (compact_metadata c) ''through_message_id'') = msg_id t"
  shows "\<exists>ids view. view = build_context_view L gen now (pre1 @ t # pre2 @ c # post) \<and>
    view = map (trim_message gen now ids) (c # pre2 @ post) \<and>
    map msg_id view = msg_id c # map msg_id (pre2 @ post) \<and>
    calls_of (context_blocks view) = calls_of (context_blocks (c # pre2 @ post)) \<and>
    map trb_id (results_of (context_blocks view)) = map trb_id (results_of (context_blocks (c # pre2 @ post)))"
  using view_after_summary [OF assms] .

lemma view_is_summary_and_rest_witness:
  "\<exists>ids view. view = build_context_view (pl_lib sample_provider) ''g'' ''t''
      ([] @ base_msg RoleUser DEFAULT [] ''a'' [] # [] @
        (base_msg RoleUser COMPACT [] ''c'' [])\<lparr>msg_metadata := [(''context_compact'', JObj [(''through_message_id'', JStr ''a'')])]\<rparr> #
        [base_msg RoleAssistant DEFAULT [] ''b'' []]) \<and>
    map msg_id view = [''c'', ''b'']"
proof -
  let ?t = "base_msg RoleUser DEFAULT [] ''a'' []"
  let ?c = "(base_msg RoleUser COMPACT [] ''c'' [])\<lparr>msg_metadata := [(''context_compact'', JObj [(''through_message_id'', JStr ''a'')])]\<rparr>"
  let ?b = "base_msg RoleAssistant DEFAULT [] ''b'' []"
  have "distinct (map msg_id ([] @ ?t # [] @ ?c # [?b]))" "is_anchor ?c" "list_all (\<lambda>m. \<not> is_anchor m) [?b]"
    "str_or_empty (pl_lib sample_provider) (dict_get (compact_metadata ?c) ''through_message_id'') = msg_id ?t"
    by (simp_all add: base_msg_def is_anchor_def compact_metadata_def)
  from view_is_summary_and_rest [OF this, of "''g''" "''t''"] show ?thesis by (auto simp: base_msg_def)
qed

end
