(* ===== verification/TokenEstimate.thy ===== *)
theory TokenEstimate
  imports ContextView
begin

text \<open>
  Stored messages as provider messages (\<open>src/ftre/services/session/message/converter.py\<close>) and the
  estimate of their size in tokens (\<open>token_counter.py\<close>).

  Text is kept in UTF-8, so the estimate, which counts characters, decodes it first.
\<close>

section \<open>Stored messages as provider messages\<close>

definition IMAGE_OMITTED_NOTICE :: string where
  "IMAGE_OMITTED_NOTICE = bytes [91, 229, 155, 190, 231, 137, 135, 233, 153, 132, 228, 187, 182, 229, 183, 178, 231, 156,
     129, 231, 149, 165, 239, 188, 154, 229, 189, 147, 229, 137, 141, 230, 168, 161, 229, 158, 139, 228, 184, 141, 230,
     148, 175, 230, 140, 129, 232, 167, 134, 232, 167, 137, 232, 190, 147, 229, 133, 165, 93]"

definition SUMMARY_PREFIX :: string where
  "SUMMARY_PREFIX = bytes [91, 229, 142, 134, 229, 143, 178, 228, 184, 138, 228, 184, 139, 230, 150, 135, 230, 145, 152,
     232, 166, 129, 93, 10]"

definition text_block_json :: "text_block \<Rightarrow> json" where
  "text_block_json t = JObj [(''type'', JStr ''text''), (''text'', JStr (tb_text t)), (''id'', JStr (tb_id t)),
     (''created_at'', JStr (tb_created_at t)), (''finished_at'', opt_jstr (tb_finished_at t))]"

definition out_part_json :: "out_part \<Rightarrow> json" where
  "out_part_json p = (case p of OutText t \<Rightarrow> text_block_json t | OutData d \<Rightarrow> data_block_json d | OutRaw v \<Rightarrow> v)"

definition part_text :: "provider_lib \<Rightarrow> out_part \<Rightarrow> string option" where
  "part_text B p = (case p of
     OutText t \<Rightarrow> Some (tb_text t)
   | OutData d \<Rightarrow> None
   | OutRaw v \<Rightarrow> if is_obj v \<and> jget ''type'' v = Some (JStr ''text'')
       then Some (py_str (pl_lib B) (case jget ''text'' v of None \<Rightarrow> JStr [] | Some t \<Rightarrow> t)) else None)"

text \<open>Text parts are joined without a separator; one part that is not text makes it JSON.\<close>

definition stored_result_text :: "provider_lib \<Rightarrow> tool_output \<Rightarrow> string" where
  "stored_result_text B out = (case out of
     OutputText s \<Rightarrow> s
   | OutputParts ps \<Rightarrow> if list_all (\<lambda>p. part_text B p \<noteq> None) ps then concat (List.map_filter (part_text B) ps)
       else pl_dumps B (JList (map out_part_json ps)))"

definition stored_result_message :: "provider_lib \<Rightarrow> tool_result_block \<Rightarrow> jdict" where
  "stored_result_message B r = [(''role'', JStr ''tool''), (''tool_call_id'', JStr (trb_id r)),
     (''content'', JStr (stored_result_text B (trb_output r)))]"

definition is_data_part :: "json \<Rightarrow> bool" where
  "is_data_part p \<longleftrightarrow> is_obj p \<and> jget ''type'' p = Some (JStr ''data'')"

definition stored_hint_message :: "provider_lib \<Rightarrow> bool \<Rightarrow> hint_block \<Rightarrow> jdict" where
  "stored_hint_message B images h =
     [(''role'', JStr ''user''), (''content'', case hb_hint h of
        HintText s \<Rightarrow> JStr s
      | HintParts ps \<Rightarrow>
          let kept = map (\<lambda>p. if is_obj p then p else text_part (py_str (pl_lib B) p))
                (filter (\<lambda>p. images \<or> \<not> is_data_part p) ps);
              parts = kept @ (if \<not> images \<and> list_ex is_data_part ps then [text_part IMAGE_OMITTED_NOTICE] else [])
          in if parts = [] then JStr [] else JList parts)]"

text \<open>A text block of the notice; its id and time do not reach the provider.\<close>

definition omitted_block :: content_block where
  "omitted_block = TextB \<lparr>tb_text = IMAGE_OMITTED_NOTICE, tb_id = [], tb_created_at = [], tb_finished_at = None\<rparr>"

definition is_data_block :: "content_block \<Rightarrow> bool" where
  "is_data_block b = (case b of DataB d \<Rightarrow> True | _ \<Rightarrow> False)"

definition has_body :: "jdict \<Rightarrow> bool" where
  "has_body d \<longleftrightarrow> truthy_key d ''content'' \<or> truthy_key d ''tool_calls'' \<or> truthy_key d ''reasoning_content''"

definition regular_message :: "provider_lib \<Rightarrow> bool \<Rightarrow> msg \<Rightarrow> jdict option result" where
  "regular_message B images m =
     (let kept = filter (\<lambda>b. images \<or> \<not> is_data_block b) (msg_content m);
          blocks = kept @ (if \<not> images \<and> list_ex is_data_block (msg_content m) then [omitted_block] else [])
      in bind_r (to_openai_message B blocks (msg_role m)) (\<lambda>d. Inr (if has_body d then Some d else None)))"

record splitting =
  sp_output :: "jdict list"
  sp_pending :: "content_block list"
  sp_group :: nat

definition with_group :: "json list \<Rightarrow> nat \<Rightarrow> jdict \<Rightarrow> jdict" where
  "with_group groups i d =
     (if i < length groups
      then (case groups ! i of
          JList items \<Rightarrow> dict_set ''responses_output_items'' (JList (filter is_obj items)) d
        | _ \<Rightarrow> d)
      else d)"

definition split_flush :: "provider_lib \<Rightarrow> json list \<Rightarrow> splitting \<Rightarrow> splitting result" where
  "split_flush B groups s =
     (if sp_pending s = [] then Inr s
      else bind_r (to_openai_message B (sp_pending s) RoleAssistant) (\<lambda>d.
        Inr (if has_body d
             then s\<lparr>sp_output := sp_output s @ [with_group groups (sp_group s) d], sp_pending := [], sp_group := sp_group s + 1\<rparr>
             else s\<lparr>sp_pending := []\<rparr>)))"

definition split_block :: "provider_lib \<Rightarrow> bool \<Rightarrow> json list \<Rightarrow> splitting \<Rightarrow> content_block \<Rightarrow> splitting result" where
  "split_block B images groups s b =
     (case b of
        ToolResultB r \<Rightarrow> bind_r (split_flush B groups s) (\<lambda>s'.
          Inr (s'\<lparr>sp_output := sp_output s' @ [stored_result_message B r]\<rparr>))
      | HintB h \<Rightarrow> bind_r (split_flush B groups s) (\<lambda>s'.
          Inr (s'\<lparr>sp_output := sp_output s' @ [stored_hint_message B images h]\<rparr>))
      | _ \<Rightarrow> Inr (s\<lparr>sp_pending := sp_pending s @ [if is_data_block b \<and> \<not> images then omitted_block else b]\<rparr>))"

definition assistant_messages :: "provider_lib \<Rightarrow> bool \<Rightarrow> msg \<Rightarrow> jdict list result" where
  "assistant_messages B images m =
     (let groups = group_list (msg_metadata m)
      in bind_r (fold_r (split_block B images groups) \<lparr>sp_output = [], sp_pending = [], sp_group = 0\<rparr> (msg_content m)) (\<lambda>s.
         bind_r (split_flush B groups s) (\<lambda>s'. Inr (sp_output s'))))"

definition summary_text :: "msg \<Rightarrow> string" where
  "summary_text m = opt_str (get_text_content newline m)"

definition stored_messages :: "provider_lib \<Rightarrow> bool \<Rightarrow> msg \<Rightarrow> jdict list result" where
  "stored_messages B images m =
     (if msg_name m = COMPACT
      then Inr (if summary_text m = [] then []
        else [[(''role'', JStr ''user''), (''content'', JStr (SUMMARY_PREFIX @ summary_text m))]])
      else if msg_role m = RoleAssistant then assistant_messages B images m
      else bind_r (regular_message B images m) (\<lambda>d. Inr (case d of None \<Rightarrow> [] | Some x \<Rightarrow> [x])))"

definition to_openai :: "provider_lib \<Rightarrow> bool \<Rightarrow> msg list \<Rightarrow> jdict list result" where
  "to_openai B images ms = bind_r (map_r (stored_messages B images) ms) (\<lambda>dss. Inr (concat dss))"

section \<open>Size in tokens\<close>

definition MESSAGE_OVERHEAD :: nat where
  "MESSAGE_OVERHEAD = 4"

definition IMAGE_TOKEN_FALLBACK :: nat where
  "IMAGE_TOKEN_FALLBACK = 85"

text \<open>The code points of UTF-8 bytes.\<close>

fun code_points :: "nat list \<Rightarrow> nat list" where
  "code_points [] = []"
| "code_points (a # as) =
     (if a < 128 then a # code_points as
      else case as of
        [] \<Rightarrow> [a]
      | b # bs \<Rightarrow>
          if a < 224 then ((a - 192) * 64 + (b - 128)) # code_points bs
          else (case bs of
              [] \<Rightarrow> [a]
            | c # cs \<Rightarrow>
                if a < 240 then ((a - 224) * 4096 + (b - 128) * 64 + (c - 128)) # code_points cs
                else (case cs of
                    [] \<Rightarrow> [a]
                  | d # ds \<Rightarrow> ((a - 240) * 262144 + (b - 128) * 4096 + (c - 128) * 64 + (d - 128)) # code_points ds)))"

definition chars :: "string \<Rightarrow> nat list" where
  "chars s = code_points (map of_char s)"

definition is_cjk :: "nat \<Rightarrow> bool" where
  "is_cjk c \<longleftrightarrow> 0x4E00 \<le> c \<and> c \<le> 0x9FFF \<or> 0x3040 \<le> c \<and> c \<le> 0x30FF \<or> 0xAC00 \<le> c \<and> c \<le> 0xD7AF \<or> 0x3400 \<le> c \<and> c \<le> 0x4DBF"

definition estimate_text_tokens :: "string \<Rightarrow> nat" where
  "estimate_text_tokens s =
     (let cs = chars s; cjk = length (filter is_cjk cs) in cjk + (length cs - cjk + 3) div 4)"

text \<open>The text of a field; one that is not text raises unless it is falsy.\<close>

definition field_tokens :: "json option \<Rightarrow> nat result" where
  "field_tokens v = (case v of
     None \<Rightarrow> Inr 0
   | Some (JStr s) \<Rightarrow> Inr (estimate_text_tokens s)
   | Some j \<Rightarrow> if jtruthy j then Inl TypeError else Inr 0)"

definition part_tokens :: "json \<Rightarrow> nat result" where
  "part_tokens p =
     (if \<not> is_obj p then Inr 0
      else if jget ''type'' p = Some (JStr ''text'') then field_tokens (jget ''text'' p)
      else if jget ''type'' p = Some (JStr ''image_url'') then Inr IMAGE_TOKEN_FALLBACK
      else Inr 0)"

definition sum_r :: "('a \<Rightarrow> nat result) \<Rightarrow> 'a list \<Rightarrow> nat result" where
  "sum_r f xs = bind_r (map_r f xs) (\<lambda>ns. Inr (sum_list ns))"

definition call_tokens :: "provider_lib \<Rightarrow> json \<Rightarrow> nat result" where
  "call_tokens B tc =
     (let fn = (case jget ''function'' tc of Some j \<Rightarrow> if jtruthy j then j else JObj [] | None \<Rightarrow> JObj []);
          arguments = (case jget ''arguments'' fn of None \<Rightarrow> [] | Some (JStr s) \<Rightarrow> s | Some v \<Rightarrow> pl_dumps B v)
      in bind_r (field_tokens (jget ''name'' fn)) (\<lambda>n. Inr (n + estimate_text_tokens arguments)))"

definition list_of :: "json option \<Rightarrow> json list" where
  "list_of v = (case v of Some (JList xs) \<Rightarrow> xs | _ \<Rightarrow> [])"

definition estimate_message :: "provider_lib \<Rightarrow> jdict \<Rightarrow> nat result" where
  "estimate_message B d =
     bind_r (field_tokens (dict_get d ''name'')) (\<lambda>n.
     bind_r (case dict_get d ''content'' of
         Some (JStr s) \<Rightarrow> Inr (estimate_text_tokens s)
       | Some (JList ps) \<Rightarrow> sum_r part_tokens ps
       | _ \<Rightarrow> Inr 0) (\<lambda>c.
     bind_r (sum_r (call_tokens B) (list_of (dict_get d ''tool_calls''))) (\<lambda>t.
       Inr (MESSAGE_OVERHEAD + n + c + t))))"

definition estimate_messages_tokens :: "provider_lib \<Rightarrow> msg list \<Rightarrow> nat result" where
  "estimate_messages_tokens B ms = bind_r (to_openai B False ms) (sum_r (estimate_message B))"

subsection \<open>The estimate adds up\<close>

lemma map_r_append: "map_r f (xs @ ys) = bind_r (map_r f xs) (\<lambda>as. bind_r (map_r f ys) (\<lambda>bs. Inr (as @ bs)))"
proof (induction xs)
  case Nil
  then show ?case by (cases "map_r f ys") auto
next
  case (Cons x xs)
  then show ?case by (simp add: bind_r_assoc)
qed

lemma sum_r_append_Inr:
  "sum_r f (xs @ ys) = Inr n \<longleftrightarrow> (\<exists>a b. sum_r f xs = Inr a \<and> sum_r f ys = Inr b \<and> n = a + b)"
  by (auto simp: sum_r_def map_r_append result_simps)

lemma to_openai_append:
  "to_openai B images (xs @ ys) = Inr ds \<longleftrightarrow> (\<exists>as bs. to_openai B images xs = Inr as \<and> to_openai B images ys = Inr bs \<and> ds = as @ bs)"
  by (auto simp: to_openai_def map_r_append result_simps)

lemma estimate_append:
  "estimate_messages_tokens B (xs @ ys) = Inr n \<longleftrightarrow>
     (\<exists>a b. estimate_messages_tokens B xs = Inr a \<and> estimate_messages_tokens B ys = Inr b \<and> n = a + b)"
proof
  assume "estimate_messages_tokens B (xs @ ys) = Inr n"
  then obtain ds where "to_openai B False (xs @ ys) = Inr ds" "sum_r (estimate_message B) ds = Inr n"
    by (auto simp: estimate_messages_tokens_def result_simps)
  then show "\<exists>a b. estimate_messages_tokens B xs = Inr a \<and> estimate_messages_tokens B ys = Inr b \<and> n = a + b"
    by (auto simp: estimate_messages_tokens_def to_openai_append sum_r_append_Inr)
next
  assume "\<exists>a b. estimate_messages_tokens B xs = Inr a \<and> estimate_messages_tokens B ys = Inr b \<and> n = a + b"
  then obtain a b as bs where "to_openai B False xs = Inr as" "to_openai B False ys = Inr bs"
      "sum_r (estimate_message B) as = Inr a" "sum_r (estimate_message B) bs = Inr b" "n = a + b"
    by (auto simp: estimate_messages_tokens_def result_simps)
  then have "to_openai B False (xs @ ys) = Inr (as @ bs)" and "sum_r (estimate_message B) (as @ bs) = Inr n"
    by (auto simp: to_openai_append sum_r_append_Inr)
  then show "estimate_messages_tokens B (xs @ ys) = Inr n" by (simp add: estimate_messages_tokens_def)
qed

lemma estimate_Nil [simp]: "estimate_messages_tokens B [] = Inr 0"
  by (simp add: estimate_messages_tokens_def to_openai_def sum_r_def)

lemma estimate_concat:
  "estimate_messages_tokens B (concat xss) = Inr n \<longleftrightarrow> sum_r (estimate_messages_tokens B) xss = Inr n"
proof (induction xss arbitrary: n)
  case Nil
  then show ?case by (auto simp: sum_r_def)
next
  case (Cons xs xss)
  have "sum_r (estimate_messages_tokens B) ([xs] @ xss) = Inr n \<longleftrightarrow>
      (\<exists>a b. estimate_messages_tokens B xs = Inr a \<and> sum_r (estimate_messages_tokens B) xss = Inr b \<and> n = a + b)"
    unfolding sum_r_append_Inr by (auto simp: sum_r_def result_simps)
  then show ?case using Cons.IH by (auto simp: estimate_append)
qed

end
