(* ===== verification/CompactionConfig.thy ===== *)
theory CompactionConfig
  imports TokenEstimate Floats
begin

text \<open>
  Settings of the compaction package (\<open>packages/ftre-compaction/src/ftre_compaction/config.py\<close>) and of a
  model (\<open>packages/ftre-agent/src/ftre_agent/config.py\<close>), both read from the raw configuration, which is
  whatever JSON the user has written.

  \<open>fl_float\<close> is \<open>float\<close> on a text.
\<close>

record config_lib =
  fl_lib :: pylib
  fl_float :: "string \<Rightarrow> pyfloat result"

section \<open>The configuration of a model\<close>

record llm_config =
  lc_provider :: string
  lc_api_key :: json
  lc_api_base :: json
  lc_api_type :: string
  lc_name :: json
  lc_id :: string
  lc_context_window :: "int option"
  lc_max_output :: "int option"
  lc_vision :: bool
  lc_reasoning_effort :: string
  lc_reasoning_effort_values :: "string list"
  lc_model :: string

definition empty_llm_config :: llm_config where
  "empty_llm_config = \<lparr>lc_provider = [], lc_api_key = JStr [], lc_api_base = JStr [], lc_api_type = ''completions'',
     lc_name = JStr [], lc_id = [], lc_context_window = None, lc_max_output = None, lc_vision = False,
     lc_reasoning_effort = [], lc_reasoning_effort_values = [], lc_model = []\<rparr>"

text \<open>\<open>value.get(key, default)\<close> on a value that may not be a dict.\<close>

definition attr_get :: "json \<Rightarrow> string \<Rightarrow> json \<Rightarrow> json result" where
  "attr_get v k d = (case v of JObj kvs \<Rightarrow> Inr (get_or kvs k d) | _ \<Rightarrow> Inl AttributeError)"

definition json_or :: "json \<Rightarrow> json \<Rightarrow> json" where
  "json_or v w = (if jtruthy v then v else w)"

definition find_model_entry :: "jdict \<Rightarrow> string \<Rightarrow> jdict result" where
  "find_model_entry provider model_id =
     (if model_id = [] then Inr []
      else bind_r (iter_json (json_or (get_or provider ''models'' (JList [])) (JList []))) (\<lambda>ms.
        Inr (case find_first (\<lambda>m. is_obj m \<and> jget ''id'' m = Some (JStr model_id)) ms of
            Some (JObj d) \<Rightarrow> d | _ \<Rightarrow> [])))"

text \<open>\<open>v if isinstance(v, int) else None\<close>; a bool is an int.\<close>

definition int_or_none :: "json option \<Rightarrow> int option" where
  "int_or_none v = (case v of Some (JInt i) \<Rightarrow> Some i | Some (JBool b) \<Rightarrow> Some (if b then 1 else 0) | _ \<Rightarrow> None)"

definition str_or_none :: "json \<Rightarrow> string option" where
  "str_or_none v = (case v of JStr s \<Rightarrow> Some s | _ \<Rightarrow> None)"

definition config_of_entry :: "string \<Rightarrow> string \<Rightarrow> jdict \<Rightarrow> jdict \<Rightarrow> llm_config" where
  "config_of_entry provider_name model_id provider entry =
     \<lparr>lc_provider = provider_name, lc_api_key = get_or provider ''api_key'' (JStr []),
      lc_api_base = get_or provider ''api_base'' (JStr []),
      lc_api_type = (case str_or_none (json_or (get_or entry ''api_type'' JNull)
          (json_or (get_or provider ''api_type'' JNull) (JStr ''completions''))) of Some s \<Rightarrow> s | None \<Rightarrow> ''completions''),
      lc_name = get_or entry ''name'' (JStr []), lc_id = model_id,
      lc_context_window = int_or_none (dict_get entry ''context_window''),
      lc_max_output = int_or_none (dict_get entry ''max_output''),
      lc_vision = jtruthy (get_or entry ''vision'' (JBool False)),
      lc_reasoning_effort = opt_str (str_or_none (get_or entry ''reasoning_effort'' (JStr []))),
      lc_reasoning_effort_values = (case dict_get entry ''reasoning_effort_values'' of
          Some (JList vs) \<Rightarrow> List.map_filter str_or_none vs | _ \<Rightarrow> []),
      lc_model = model_id\<rparr>"

definition build_llm_config :: "jdict \<Rightarrow> string \<Rightarrow> string \<Rightarrow> llm_config result" where
  "build_llm_config data provider_name model_id =
     (if provider_name = [] \<or> model_id = [] then Inr empty_llm_config
      else bind_r (attr_get (get_or data ''providers'' (JObj [])) provider_name (JObj [])) (\<lambda>provider.
        if \<not> jtruthy provider then Inr empty_llm_config
        else (case provider of
            JObj p \<Rightarrow> bind_r (find_model_entry p model_id) (\<lambda>entry. Inr (config_of_entry provider_name model_id p entry))
          | _ \<Rightarrow> Inl AttributeError)))"

definition sanitize_agent_effort :: "string \<Rightarrow> llm_config \<Rightarrow> string" where
  "sanitize_agent_effort effort llm =
     (if effort = [] then []
      else if lc_reasoning_effort llm = [] \<and> lc_reasoning_effort_values llm = [] then [] else effort)"

text \<open>A model that the provider does not list is configured all the same.\<close>

lemma unlisted_model_is_configured:
  "find_first (\<lambda>m. is_obj m \<and> jget ''id'' m = Some (JStr ''ghost'')) models = None \<Longrightarrow>
   build_llm_config [(''providers'', JObj [(''p'', JObj [(''models'', JList models)])])] ''p'' ''ghost'' =
     Inr (config_of_entry ''p'' ''ghost'' [(''models'', JList models)] [])"
  "lc_model (config_of_entry ''p'' ''ghost'' [(''models'', JList models)] []) = ''ghost''"
  by (auto simp: build_llm_config_def attr_get_def get_or_def find_model_entry_def json_or_def iter_json_def config_of_entry_def)

section \<open>The settings of the compaction\<close>

record compaction_config =
  cc_precompact_threshold :: pyfloat
  cc_compact_threshold :: pyfloat
  cc_safety_buffer :: int
  cc_llm :: "llm_config option"
  cc_chunk_tokens :: int
  cc_chunk_parallelism :: int
  cc_chunk_timeout :: pyfloat
  cc_chunk_retries :: int

text \<open>The literals 0.7 and 0.8 are the nearest doubles.\<close>

definition default_compaction_config :: compaction_config where
  "default_compaction_config =
     \<lparr>cc_precompact_threshold = Finite 3152519739159347 (- 52), cc_compact_threshold = Finite 3602879701896397 (- 52),
      cc_safety_buffer = 1024, cc_llm = None, cc_chunk_tokens = 200000, cc_chunk_parallelism = 4,
      cc_chunk_timeout = Finite 120 0, cc_chunk_retries = 1\<rparr>"

text \<open>\<open>mapping.get(first, mapping.get(second, default))\<close>, where the default is kept apart.\<close>

definition two_names :: "jdict \<Rightarrow> string \<Rightarrow> string \<Rightarrow> json option" where
  "two_names d k1 k2 = (case dict_get d k1 of None \<Rightarrow> dict_get d k2 | v \<Rightarrow> v)"

definition number_setting :: "config_lib \<Rightarrow> jdict \<Rightarrow> string \<Rightarrow> string \<Rightarrow> pyfloat \<Rightarrow> pyfloat result" where
  "number_setting F d k1 k2 dflt =
     (case two_names d k1 k2 of
        None \<Rightarrow> Inr dflt
      | Some v \<Rightarrow> (case py_float (fl_float F) v of
            Inl TypeError \<Rightarrow> Inr dflt | Inl ValueError \<Rightarrow> Inr dflt | r \<Rightarrow> r))"

definition integer_setting :: "config_lib \<Rightarrow> jdict \<Rightarrow> string \<Rightarrow> string \<Rightarrow> int \<Rightarrow> int result" where
  "integer_setting F d k1 k2 dflt =
     (case two_names d k1 k2 of
        None \<Rightarrow> Inr (max 0 dflt)
      | Some v \<Rightarrow> (case py_int (fl_lib F) v of
            Inl TypeError \<Rightarrow> Inr (max 0 dflt) | Inl ValueError \<Rightarrow> Inr (max 0 dflt)
          | Inl e \<Rightarrow> Inl e | Inr i \<Rightarrow> Inr (max 0 i)))"

definition mapping_or_empty :: "json \<Rightarrow> jdict" where
  "mapping_or_empty v = (case v of JObj d \<Rightarrow> d | _ \<Rightarrow> [])"

definition parse_compact_llm :: "jdict \<Rightarrow> jdict \<Rightarrow> llm_config option result" where
  "parse_compact_llm root agents =
     (case get_or agents ''compact_generation'' (JObj []) of
        JObj raw \<Rightarrow>
          (case (get_or raw ''provider'' (JStr []), get_or raw ''model'' (JStr [])) of
             (JStr provider, JStr model) \<Rightarrow>
               if provider = [] \<or> model = [] then Inr None
               else bind_r (build_llm_config root provider model) (\<lambda>built.
                 Inr (if lc_model built = [] then None else Some built))
           | _ \<Rightarrow> Inr None)
      | _ \<Rightarrow> Inr None)"

definition threshold_setting :: "config_lib \<Rightarrow> jdict \<Rightarrow> pyfloat \<Rightarrow> pyfloat result" where
  "threshold_setting F context dflt =
     bind_r (number_setting F context ''compactThreshold'' ''compact_threshold'' dflt) (\<lambda>t.
       if two_names context ''compactThreshold'' ''compact_threshold'' = None
       then number_setting F context ''threshold'' ''threshold'' t else Inr t)"

definition parse_compaction_config :: "config_lib \<Rightarrow> json \<Rightarrow> compaction_config \<Rightarrow> compaction_config result" where
  "parse_compaction_config F raw base =
     (let root = mapping_or_empty raw; agents = mapping_or_empty (get_or root ''agents'' (JObj []));
          context = mapping_or_empty (get_or agents ''context'' (JObj []))
      in bind_r (threshold_setting F context (cc_compact_threshold base)) (\<lambda>threshold.
         bind_r (parse_compact_llm root agents) (\<lambda>llm.
         bind_r (number_setting F context ''precompactThreshold'' ''precompact_threshold'' (cc_precompact_threshold base)) (\<lambda>pre.
         bind_r (integer_setting F context ''safetyBuffer'' ''safety_buffer'' (cc_safety_buffer base)) (\<lambda>safety.
         bind_r (integer_setting F context ''chunkTokens'' ''chunk_tokens'' (cc_chunk_tokens base)) (\<lambda>tokens.
         bind_r (integer_setting F context ''chunkParallelism'' ''chunk_parallelism'' (cc_chunk_parallelism base)) (\<lambda>parallel.
         bind_r (number_setting F context ''chunkTimeoutSeconds'' ''chunk_timeout_seconds'' (cc_chunk_timeout base)) (\<lambda>timeout.
         bind_r (integer_setting F context ''chunkRetryAttempts'' ''chunk_retry_attempts'' (cc_chunk_retries base)) (\<lambda>retries.
           Inr \<lparr>cc_precompact_threshold = pre, cc_compact_threshold = threshold, cc_safety_buffer = safety,
             cc_llm = (case llm of None \<Rightarrow> cc_llm base | l \<Rightarrow> l),
             cc_chunk_tokens = min 1000000 (max 16000 tokens), cc_chunk_parallelism = min 8 (max 1 parallel),
             cc_chunk_timeout = float_min (Finite 600 0) (float_max (Finite 5 0) timeout),
             cc_chunk_retries = min 2 (max 0 retries)\<rparr>)))))))))"

subsection \<open>Bounds\<close>

lemma integer_setting_nonneg: "integer_setting F d k1 k2 dflt = Inr i \<Longrightarrow> 0 \<le> i"
  by (auto simp: integer_setting_def split: option.splits sum.splits exn.splits)

lemma timeout_clamped:
  "float_ge (float_min (Finite 600 0) (float_max (Finite 5 0) t)) (Finite 5 0) \<and>
   float_ge (Finite 600 0) (float_min (Finite 600 0) (float_max (Finite 5 0) t))"
  by (cases t) (auto simp: float_ge_def float_min_def float_max_def min.commute [of 0])

text \<open>
  Whatever the user writes into the configuration, the settings the compaction works with are within
  their bounds: a chunk has between 16000 and 1000000 tokens, at most eight run at once, each for
  five seconds to ten minutes with at most two retries, and no safety margin is negative.
\<close>

theorem settings_are_bounded:
  assumes "parse_compaction_config F raw base = Inr c"
  shows "16000 \<le> cc_chunk_tokens c \<and> cc_chunk_tokens c \<le> 1000000 \<and>
    1 \<le> cc_chunk_parallelism c \<and> cc_chunk_parallelism c \<le> 8 \<and>
    0 \<le> cc_chunk_retries c \<and> cc_chunk_retries c \<le> 2 \<and> 0 \<le> cc_safety_buffer c \<and>
    float_ge (cc_chunk_timeout c) (Finite 5 0) \<and> float_ge (Finite 600 0) (cc_chunk_timeout c)"
  using assms integer_setting_nonneg timeout_clamped
  by (auto simp: parse_compaction_config_def Let_def result_simps)

definition sample_config_lib :: config_lib where
  "sample_config_lib = \<lparr>fl_lib = pl_lib sample_provider, fl_float = (\<lambda>t. Inl ValueError)\<rparr>"

lemma settings_are_bounded_witness:
  "\<exists>c. parse_compaction_config sample_config_lib (JObj [(''agents'', JObj [(''context'', JObj [(''chunkTokens'', JInt 5), (''safetyBuffer'', JInt (- 3))])])])
      default_compaction_config = Inr c \<and> 16000 \<le> cc_chunk_tokens c \<and> 0 \<le> cc_safety_buffer c"
proof -
  let ?raw = "JObj [(''agents'', JObj [(''context'', JObj [(''chunkTokens'', JInt 5), (''safetyBuffer'', JInt (- 3))])])]"
  have "\<exists>c. parse_compaction_config sample_config_lib ?raw default_compaction_config = Inr c"
    by (simp add: parse_compaction_config_def mapping_or_empty_def get_or_def threshold_setting_def number_setting_def
        two_names_def parse_compact_llm_def integer_setting_def)
  then obtain c where "parse_compaction_config sample_config_lib ?raw default_compaction_config = Inr c" by blast
  with settings_are_bounded [OF this] show ?thesis by blast
qed

text \<open>Bad values fall back to the defaults, but a configuration whose providers are not a mapping stops the parser.\<close>

lemma bad_providers_raise:
  "parse_compaction_config F (JObj [(''agents'', JObj [(''compact_generation'', JObj [(''provider'', JStr ''p''), (''model'', JStr ''m'')])]),
     (''providers'', JList [])]) default_compaction_config = Inl AttributeError"
  by (simp add: parse_compaction_config_def mapping_or_empty_def get_or_def threshold_setting_def number_setting_def
      two_names_def parse_compact_llm_def build_llm_config_def attr_get_def)

end
