(* ===== verification/CompactionSummary.thy ===== *)
theory CompactionSummary
  imports CompactionConfig
begin

text \<open>
  The pure half of the compaction service (\<open>packages/ftre-compaction/src/ftre_compaction/service.py\<close>, the
  functions of the module): cutting a history into chunks, the text and the prompt of a chunk, reading
  the sections of a summary and merging the summaries of the chunks.

  The wording of the prompts is a parameter; where its pieces go is modelled. The regular expressions
  of the code are written out as searches. Matching without regard to case is that of ASCII.
\<close>

section \<open>Text\<close>

text \<open>The number of bytes of the white space character at the head of a text, zero if there is none.\<close>

definition blank_head :: "nat list \<Rightarrow> nat" where
  "blank_head bs = (case bs of
     [] \<Rightarrow> 0
   | a # as \<Rightarrow>
       if a \<in> {9, 10, 11, 12, 13, 28, 29, 30, 31, 32} then 1
       else if a = 194 \<and> take 1 as \<in> {[133], [160]} then 2
       else if a = 225 \<and> take 2 as = [154, 128] \<or>
               a = 226 \<and> take 1 as = [128] \<and> (\<exists>c \<in> set (take 1 (drop 1 as)). 128 \<le> c \<and> c \<le> 138 \<or> c \<in> {168, 169, 175}) \<or>
               a = 226 \<and> take 2 as = [129, 159] \<or> a = 227 \<and> take 2 as = [128, 128] then 3
       else 0)"

definition head_blank :: "string \<Rightarrow> nat" where
  "head_blank s = blank_head (map of_char (take 3 s))"

text \<open>The same at the end, on the reversed text.\<close>

definition last_blank :: "string \<Rightarrow> nat" where
  "last_blank r =
     (let bs = map of_char (take 3 r)
      in if blank_head (take 1 bs) = 1 then 1
         else if blank_head (rev (take 2 bs)) = 2 then 2
         else if blank_head (rev bs) = 3 then 3 else 0)"

function strip_by :: "(string \<Rightarrow> nat) \<Rightarrow> string \<Rightarrow> string" where
  "strip_by f s = (if f s = 0 \<or> s = [] then s else strip_by f (drop (f s) s))"
  by pat_completeness auto
termination by (relation "measure (\<lambda>(f, s). length s)") auto

declare strip_by.simps [simp del]

definition strip :: "string \<Rightarrow> string" where
  "strip s = rev (strip_by last_blank (rev (strip_by head_blank s)))"

text \<open>A prefix without regard to case, and the text before and after the first match.\<close>

definition ci_prefix :: "string \<Rightarrow> string \<Rightarrow> bool" where
  "ci_prefix p s \<longleftrightarrow> map lower_char (take (length p) s) = p"

fun split_at :: "string \<Rightarrow> string \<Rightarrow> (string \<times> string) option" where
  "split_at p [] = (if p = [] then Some ([], []) else None)"
| "split_at p (c # cs) =
     (if ci_prefix p (c # cs) then Some ([], drop (length p) (c # cs))
      else map_option (\<lambda>ab. (c # fst ab, snd ab)) (split_at p cs))"

definition open_tag :: "string \<Rightarrow> string" where
  "open_tag s = ''<'' @ s @ ''>''"

definition close_tag :: "string \<Rightarrow> string" where
  "close_tag s = ''</'' @ s @ ''>''"

text \<open>\<open>re.search("<s>(.*?)</s>", text, DOTALL | IGNORECASE)\<close>: the first node, up to its first end.\<close>

definition node_text :: "string \<Rightarrow> string \<Rightarrow> string option" where
  "node_text s x = (case split_at (open_tag s) x of
     None \<Rightarrow> None
   | Some ab \<Rightarrow> map_option fst (split_at (close_tag s) (snd ab)))"

text \<open>Removing fences and analysis nodes; the counter is the rest of a match that is left out.\<close>

fun drop_fences :: "nat \<Rightarrow> string \<Rightarrow> string" where
  "drop_fences n [] = []"
| "drop_fences (Suc n) (c # cs) = drop_fences n cs"
| "drop_fences 0 (c # cs) =
     (if has_prefix ''```'' (c # cs) then drop_fences (if ci_prefix ''xml'' (drop 2 cs) then 5 else 2) cs
      else c # drop_fences 0 cs)"

fun drop_analysis :: "nat \<Rightarrow> string \<Rightarrow> string" where
  "drop_analysis n [] = []"
| "drop_analysis (Suc n) (c # cs) = drop_analysis n cs"
| "drop_analysis 0 (c # cs) =
     (if ci_prefix (open_tag ''analysis'') (c # cs)
      then (case split_at (close_tag ''analysis'') (drop 9 cs) of
          Some ab \<Rightarrow> drop_analysis (9 + length (fst ab) + length (close_tag ''analysis'')) cs
        | None \<Rightarrow> c # drop_analysis 0 cs)
      else c # drop_analysis 0 cs)"

section \<open>Sections\<close>

definition SECTION_ORDER :: "string list" where
  "SECTION_ORDER = [''primary_request_and_intent'', ''key_technical_concepts'', ''files_and_code_sections'',
     ''errors_and_fixes'', ''problem_solving'', ''all_user_messages'', ''pending_tasks'', ''current_work'', ''next_step'']"

definition LLM_SECTION_ORDER :: "string list" where
  "LLM_SECTION_ORDER = filter (\<lambda>s. s \<noteq> ''all_user_messages'') SECTION_ORDER"

type_synonym sections = "(string, string) dict"

definition parse_chunk_sections :: "string \<Rightarrow> sections option" where
  "parse_chunk_sections raw =
     (let clean = strip (drop_analysis 0 (strip (drop_fences 0 raw)));
          found = map (\<lambda>s. (s, case node_text s clean of None \<Rightarrow> [] | Some x \<Rightarrow> strip x)) LLM_SECTION_ORDER
      in if list_all (\<lambda>kv. snd kv = []) found then None else Some found)"

definition blank_line :: string where
  "blank_line = newline @ newline"

definition section_of :: "sections \<Rightarrow> string \<Rightarrow> string" where
  "section_of part s = strip (opt_str (dict_get part s))"

definition section_body :: "sections list \<Rightarrow> string \<Rightarrow> string \<Rightarrow> string" where
  "section_body parts user_messages s =
     join_with blank_line (filter (\<lambda>v. v \<noteq> [])
       (if s = ''all_user_messages'' then [strip user_messages] else map (\<lambda>part. section_of part s) parts))"

definition section_lines :: "sections list \<Rightarrow> string \<Rightarrow> string \<Rightarrow> string list" where
  "section_lines parts user_messages s =
     [''  '' @ open_tag s, section_body parts user_messages s, ''  '' @ close_tag s]"

definition merge_chunk_summaries :: "sections list \<Rightarrow> string \<Rightarrow> string option" where
  "merge_chunk_summaries parts user_messages =
     (if \<not> list_ex (\<lambda>part. list_ex (\<lambda>s. section_of part s \<noteq> []) SECTION_ORDER) parts then None
      else Some (join_with newline ([''<state_snapshot>''] @
        concat (map (section_lines parts user_messages) SECTION_ORDER) @ [''</state_snapshot>''])))"

section \<open>The messages of the user\<close>

definition is_user_message :: "msg \<Rightarrow> bool" where
  "is_user_message m \<longleftrightarrow> msg_role m = RoleUser \<and> msg_name m = DEFAULT \<and> \<not> truthy_key (msg_metadata m) ''hide''"

definition user_message_texts :: "msg list \<Rightarrow> string list" where
  "user_message_texts ms =
     filter (\<lambda>t. t \<noteq> []) (map (\<lambda>m. strip (opt_str (get_text_content newline m))) (filter is_user_message ms))"

definition USER_LABEL :: string where
  "USER_LABEL = bytes [231, 148, 168, 230, 136, 183, 230, 182, 136, 230, 129, 175] @ '' ''"

definition carried_messages :: "string option \<Rightarrow> string list" where
  "carried_messages previous = (case previous of
     None \<Rightarrow> []
   | Some s \<Rightarrow> if s = [] then [] else (case node_text ''all_user_messages'' s of
         None \<Rightarrow> [] | Some x \<Rightarrow> if strip x = [] then [] else [strip x]))"

definition numbered_texts :: "string list \<Rightarrow> string list" where
  "numbered_texts ts = map (\<lambda>(i, t). USER_LABEL @ str_of_int (int i) @ '': '' @ t) (enumerate 1 ts)"

definition build_user_messages_section :: "msg list \<Rightarrow> string option \<Rightarrow> string" where
  "build_user_messages_section ms previous =
     join_with blank_line (carried_messages previous @ numbered_texts (user_message_texts ms))"

section \<open>Chunks\<close>

record chunking =
  ch_done :: "msg list list"
  ch_current :: "msg list"
  ch_tokens :: nat

text \<open>\<open>cost\<close> is the estimate of one message.\<close>

definition chunk_step :: "(msg \<Rightarrow> nat result) \<Rightarrow> nat \<Rightarrow> chunking \<Rightarrow> msg \<Rightarrow> chunking result" where
  "chunk_step cost limit s m =
     bind_r (cost m) (\<lambda>n.
       Inr (if ch_current s \<noteq> [] \<and> ch_tokens s + n > limit
            then \<lparr>ch_done = ch_done s @ [ch_current s], ch_current = [m], ch_tokens = n\<rparr>
            else s\<lparr>ch_current := ch_current s @ [m], ch_tokens := ch_tokens s + n\<rparr>))"

definition chunk_by :: "(msg \<Rightarrow> nat result) \<Rightarrow> int \<Rightarrow> msg list \<Rightarrow> msg list list result" where
  "chunk_by cost chunk_tokens ms =
     bind_r (fold_r (chunk_step cost (nat (max 1 chunk_tokens))) \<lparr>ch_done = [], ch_current = [], ch_tokens = 0\<rparr> ms) (\<lambda>s.
       Inr (ch_done s @ (if ch_current s = [] then [] else [ch_current s])))"

definition chunk_messages_by_tokens :: "provider_lib \<Rightarrow> msg list \<Rightarrow> int \<Rightarrow> msg list list result" where
  "chunk_messages_by_tokens B ms chunk_tokens = chunk_by (\<lambda>m. estimate_messages_tokens B [m]) chunk_tokens ms"

section \<open>The text of a chunk\<close>

definition content_text :: "provider_lib \<Rightarrow> bool \<Rightarrow> json option \<Rightarrow> string" where
  "content_text B thinking v = (case v of
     Some (JStr s) \<Rightarrow> s
   | Some (JList ps) \<Rightarrow> join_with newline (filter (\<lambda>t. t \<noteq> []) (List.map_filter (\<lambda>p.
       if \<not> is_obj p then None
       else if jget ''type'' p = Some (JStr ''text'') then Some (py_str (pl_lib B) (case jget ''text'' p of None \<Rightarrow> JStr [] | Some t \<Rightarrow> t))
       else if thinking \<and> jget ''type'' p = Some (JStr ''thinking'')
       then Some (py_str (pl_lib B) (case jget ''thinking'' p of None \<Rightarrow> JStr [] | Some t \<Rightarrow> t))
       else None) ps))
   | Some j \<Rightarrow> if jtruthy j then py_str (pl_lib B) j else []
   | None \<Rightarrow> [])"

definition call_text :: "provider_lib \<Rightarrow> json \<Rightarrow> string" where
  "call_text B tc =
     (let fn = (case jget ''function'' tc of Some j \<Rightarrow> if jtruthy j then j else JObj [] | None \<Rightarrow> JObj [])
      in ''[Assistant tool call]: '' @ py_str (pl_lib B) (case jget ''name'' fn of None \<Rightarrow> JStr ''?'' | Some n \<Rightarrow> n) @ ''('' @
         py_str (pl_lib B) (case jget ''arguments'' fn of None \<Rightarrow> JStr ''{}'' | Some a \<Rightarrow> a) @ '')'')"

definition result_state_text :: "tool_result_state \<Rightarrow> string" where
  "result_state_text st = (case st of SUCCESS \<Rightarrow> ''success'' | ERROR \<Rightarrow> ''error'' | INTERRUPTED \<Rightarrow> ''interrupted''
     | DENIED \<Rightarrow> ''denied'' | RUNNING \<Rightarrow> ''running'')"

definition tool_states :: "msg list \<Rightarrow> (string, string) dict" where
  "tool_states ms = fold (\<lambda>r d. dict_set (trb_id r) (result_state_text (trb_state r)) d) (results_of (concat (map msg_content ms))) []"

definition result_line :: "provider_lib \<Rightarrow> (string, string) dict \<Rightarrow> jdict \<Rightarrow> string" where
  "result_line B states d =
     (let i = py_str (pl_lib B) (get_or d ''tool_call_id'' (JStr []));
          r = content_text B True (dict_get d ''content'');
          shown = (if length (chars r) > 2000 then take_chars 2000 r @ newline @ ''[truncated]'' else r);
          failed = (case dict_get states i of Some st \<Rightarrow> st \<in> {''error'', ''interrupted'', ''denied''} | None \<Rightarrow> False)
      in ''['' @ (if failed then ''Tool error'' else ''Tool result'') @ '']: '' @ shown)"

definition line_if :: "string \<Rightarrow> string \<Rightarrow> string list" where
  "line_if label t = (if t = [] then [] else [label @ t])"

definition serialize_one :: "provider_lib \<Rightarrow> (string, string) dict \<Rightarrow> jdict \<Rightarrow> string list" where
  "serialize_one B states d =
     (let r = dict_get d ''role''
      in if r = Some (JStr ''user'') then line_if ''[User]: '' (content_text B True (dict_get d ''content''))
         else if r = Some (JStr ''assistant'')
         then line_if ''[Assistant reasoning]: '' (str_or_empty (pl_lib B) (dict_get d ''reasoning_content'')) @
              line_if ''[Assistant]: '' (content_text B False (dict_get d ''content'')) @
              map (call_text B) (list_of (dict_get d ''tool_calls''))
         else if r = Some (JStr ''tool'') then [result_line B states d] else [])"

definition serialize_messages :: "provider_lib \<Rightarrow> msg list \<Rightarrow> string result" where
  "serialize_messages B ms =
     bind_r (to_openai B False ms) (\<lambda>ds.
       Inr (join_with blank_line (concat (map (serialize_one B (tool_states ms)) ds))))"

section \<open>The prompt of a chunk\<close>

fun lines_of :: "string \<Rightarrow> string list" where
  "lines_of [] = [[]]"
| "lines_of (c # cs) = (if c = CHR 0x0A then [] # lines_of cs
     else case lines_of cs of [] \<Rightarrow> [[c]] | l # ls \<Rightarrow> (c # l) # ls)"

definition is_space :: "nat \<Rightarrow> bool" where
  "is_space c \<longleftrightarrow> c \<in> {9, 10, 11, 12, 13, 28, 29, 30, 31, 32, 133, 160, 5760, 8232, 8233, 8239, 8287, 12288} \<or>
     8192 \<le> c \<and> c \<le> 8202"

text \<open>Markdown marks and punctuation, ASCII and Chinese.\<close>

definition is_mark :: "nat \<Rightarrow> bool" where
  "is_mark c \<longleftrightarrow> is_space c \<or> c \<in> of_char ` set ''#*-|>[]`,.!?;:\"(){}'' \<or> c = 39 \<or>
     c \<in> {65292, 12290, 65281, 65311, 65307, 65306, 8220, 8221, 8216, 8217, 65288, 65289, 12304, 12305, 12298, 12299, 8230, 8212}"

definition estimate_body_chars :: "string \<Rightarrow> nat" where
  "estimate_body_chars s =
     (let kept = filter (\<lambda>l. \<not> has_prefix ''[Assistant tool call]:'' l \<and> \<not> has_prefix ''[Tool result]:'' l) (lines_of s)
      in length (filter (\<lambda>c. \<not> is_mark c) (concat (map chars kept))))"

record prompt_wording =
  pw_system :: string
  pw_min_1 :: string
  pw_min_2 :: string
  pw_update :: string
  pw_create :: string
  pw_focus :: string
  pw_chunk_1 :: string
  pw_chunk_2 :: string

definition build_prompt :: "prompt_wording \<Rightarrow> string option \<Rightarrow> string list \<Rightarrow> nat \<Rightarrow> string \<Rightarrow> string list" where
  "build_prompt W previous context min_chars focus =
     (let base = pw_min_1 W @ str_of_int (int min_chars) @ pw_min_2 W;
          shown = (case previous of Some s \<Rightarrow> s \<noteq> [] | None \<Rightarrow> False)
      in map (\<lambda>t. ''<conversation>'' @ newline @ t @ newline @ ''</conversation>'') context @
         (if shown then [''<previous-summary>'' @ newline @ opt_str previous @ newline @ ''</previous-summary>''] else []) @
         [(if shown then pw_update W else pw_create W) @ base @
          (if strip focus = [] then [] else pw_focus W @ strip focus)])"

definition chunk_prompt :: "prompt_wording \<Rightarrow> string \<Rightarrow> string option \<Rightarrow> string \<Rightarrow> string list" where
  "chunk_prompt W context previous focus =
     (let parts = build_prompt W previous [context] (max 120 (min 12000 (estimate_body_chars context div 20))) focus
      in butlast parts @ [last parts @ pw_chunk_1 W @
           join_with newline (map (\<lambda>s. open_tag s @ ''...'' @ close_tag s) LLM_SECTION_ORDER) @ pw_chunk_2 W])"

definition summary_chunk_max_tokens :: "llm_config \<Rightarrow> int" where
  "summary_chunk_max_tokens c = (case lc_max_output c of
     Some n \<Rightarrow> if 0 < n then max 512 (min 8192 n) else 4096 | None \<Rightarrow> 4096)"

section \<open>Chunks are a greedy partition\<close>

definition total :: "(msg \<Rightarrow> nat result) \<Rightarrow> msg list \<Rightarrow> nat \<Rightarrow> bool" where
  "total cost ms n \<longleftrightarrow> sum_r cost ms = Inr n"

lemma total_simps [simp]: "total cost [] n \<longleftrightarrow> n = 0" "total cost [m] n \<longleftrightarrow> cost m = Inr n"
  by (auto simp: total_def sum_r_def result_simps)

lemma total_append: "total cost (xs @ ys) n \<longleftrightarrow> (\<exists>a b. total cost xs a \<and> total cost ys b \<and> n = a + b)"
  by (simp add: total_def sum_r_append_Inr)

text \<open>A chunk is small or a single message, and the first message of the next did not fit into it.\<close>

definition small_chunk :: "(msg \<Rightarrow> nat result) \<Rightarrow> nat \<Rightarrow> msg list \<Rightarrow> bool" where
  "small_chunk cost limit c \<longleftrightarrow> c \<noteq> [] \<and> (length c = 1 \<or> (\<exists>n \<le> limit. total cost c n))"

definition next_did_not_fit :: "(msg \<Rightarrow> nat result) \<Rightarrow> nat \<Rightarrow> msg list \<Rightarrow> msg list \<Rightarrow> bool" where
  "next_did_not_fit cost limit c d \<longleftrightarrow> (\<exists>n > limit. total cost (c @ [hd d]) n)"

definition chunking_ok :: "(msg \<Rightarrow> nat result) \<Rightarrow> nat \<Rightarrow> chunking \<Rightarrow> bool" where
  "chunking_ok cost limit s \<longleftrightarrow> total cost (ch_current s) (ch_tokens s) \<and>
     (ch_current s = [] \<longrightarrow> ch_done s = []) \<and>
     (ch_current s \<noteq> [] \<longrightarrow> list_all (small_chunk cost limit) (ch_done s @ [ch_current s]) \<and>
       successively (next_did_not_fit cost limit) (ch_done s @ [ch_current s]))"

lemma chunk_step_ok:
  assumes "chunking_ok cost limit s" and "chunk_step cost limit s m = Inr s'"
  shows "chunking_ok cost limit s' \<and> concat (ch_done s') @ ch_current s' = concat (ch_done s) @ ch_current s @ [m]"
proof -
  obtain n where n: "cost m = Inr n" using assms(2) by (auto simp: chunk_step_def result_simps)
  have t: "total cost (ch_current s) (ch_tokens s)" using assms(1) by (simp add: chunking_ok_def)
  show ?thesis
  proof (cases "ch_current s \<noteq> [] \<and> ch_tokens s + n > limit")
    case True
    have "next_did_not_fit cost limit (ch_current s) [m]"
      using True t n by (auto simp: next_did_not_fit_def total_append)
    then show ?thesis using True assms n
      by (auto simp: chunk_step_def chunking_ok_def small_chunk_def successively_append_iff)
  next
    case False
    have s': "s' = s\<lparr>ch_current := ch_current s @ [m], ch_tokens := ch_tokens s + n\<rparr>"
      using False assms(2) n by (auto simp: chunk_step_def)
    have t': "total cost (ch_current s @ [m]) (ch_tokens s + n)" using t n by (auto simp: total_append)
    show ?thesis
    proof (cases "ch_current s = []")
      case True
      then have "ch_done s = []" using assms(1) by (simp add: chunking_ok_def)
      then show ?thesis using True t' by (simp add: s' chunking_ok_def small_chunk_def)
    next
      case cur: False
      have "small_chunk cost limit (ch_current s @ [m])"
        using False cur t' unfolding small_chunk_def by (metis Nil_is_append_conv linorder_not_less)
      moreover have "next_did_not_fit cost limit x (ch_current s @ [m]) = next_did_not_fit cost limit x (ch_current s)" for x
        using cur by (simp add: next_did_not_fit_def)
      ultimately show ?thesis using assms(1) cur t'
        by (auto simp: s' chunking_ok_def successively_append_iff)
    qed
  qed
qed

lemma chunk_fold_ok:
  assumes "chunking_ok cost limit s" and "fold_r (chunk_step cost limit) s ms = Inr s'"
  shows "chunking_ok cost limit s' \<and> concat (ch_done s') @ ch_current s' = concat (ch_done s) @ ch_current s @ ms"
  using assms
proof (induction ms arbitrary: s)
  case Nil
  then show ?case by simp
next
  case (Cons m ms)
  then obtain s1 where s1: "chunk_step cost limit s m = Inr s1" "fold_r (chunk_step cost limit) s1 ms = Inr s'"
    by (auto simp: result_simps)
  from chunk_step_ok [OF Cons.prems(1) s1(1)] Cons.IH [OF _ s1(2)] show ?case by simp
qed

text \<open>
  C16: Cutting a history into chunks loses, repeats and reorders nothing. No chunk is empty, each is within
  the token limit unless it is one oversized message, and no chunk could have taken the first
  message of the next.
\<close>

theorem chunks_partition_history:
  assumes "chunk_messages_by_tokens B ms chunk_tokens = Inr chunks"
  shows "concat chunks = ms \<and>
    list_all (small_chunk (\<lambda>m. estimate_messages_tokens B [m]) (nat (max 1 chunk_tokens))) chunks \<and>
    successively (next_did_not_fit (\<lambda>m. estimate_messages_tokens B [m]) (nat (max 1 chunk_tokens))) chunks"
proof -
  let ?cost = "\<lambda>m. estimate_messages_tokens B [m]" and ?limit = "nat (max 1 chunk_tokens)"
  obtain s where f: "fold_r (chunk_step ?cost ?limit) \<lparr>ch_done = [], ch_current = [], ch_tokens = 0\<rparr> ms = Inr s"
    and c: "chunks = ch_done s @ (if ch_current s = [] then [] else [ch_current s])"
    using assms by (auto simp: chunk_messages_by_tokens_def chunk_by_def result_simps)
  have "chunking_ok ?cost ?limit \<lparr>ch_done = [], ch_current = [], ch_tokens = 0\<rparr>" by (simp add: chunking_ok_def)
  from chunk_fold_ok [OF this f] c show ?thesis by (auto simp: chunking_ok_def)
qed

section \<open>No message of the user is lost\<close>

lemma strip_by_stops: "f (strip_by f s) = 0 \<or> strip_by f s = []"
  by (induction f s rule: strip_by.induct) (subst (1 2) strip_by.simps, auto)

lemma strip_by_suffix: "\<exists>pre. s = pre @ strip_by f s"
proof (induction f s rule: strip_by.induct)
  case (1 f s)
  show ?case
  proof (cases "f s = 0 \<or> s = []")
    case True
    then show ?thesis by (subst strip_by.simps) auto
  next
    case False
    then obtain pre where "drop (f s) s = pre @ strip_by f (drop (f s) s)" using 1 by blast
    then have "s = (take (f s) s @ pre) @ strip_by f (drop (f s) s)" by (metis append_assoc append_take_drop_id)
    moreover have "strip_by f s = strip_by f (drop (f s) s)" using False by (subst strip_by.simps) simp
    ultimately show ?thesis by metis
  qed
qed

lemma strip_by_fixed: "f s = 0 \<or> s = [] \<Longrightarrow> strip_by f s = s"
  by (subst strip_by.simps) simp

lemma strip_by_drop: "f (c # s) = 1 \<Longrightarrow> strip_by f (c # s) = strip_by f s"
  by (subst strip_by.simps) simp

lemma blank_head_mono: "blank_head bs \<noteq> 0 \<Longrightarrow> blank_head (bs @ cs) \<noteq> 0"
  by (cases bs; cases "tl bs"; cases "tl (tl bs)") (auto simp: blank_head_def split: if_splits)

lemma blank_head_ascii: "blank_head bs = 0 \<Longrightarrow> bs \<noteq> [] \<Longrightarrow> list_all (\<lambda>c. c < 128) (take 2 cs) \<Longrightarrow> blank_head (bs @ cs) = 0"
  by (cases bs; cases "tl bs"; cases "tl (tl bs)"; cases cs; cases "tl cs")
    (auto simp: blank_head_def split: if_splits)

lemma blank_head_take [simp]: "blank_head (take 3 bs) = blank_head bs"
  by (cases bs; cases "tl bs"; cases "tl (tl bs)") (simp_all add: blank_head_def)

lemma head_blank_eq: "head_blank s = blank_head (map of_char s)"
  by (simp add: head_blank_def flip: take_map)

lemma last_blank_ascii: "blank_head [of_char c] = 1 \<Longrightarrow> last_blank (c # r) = 1"
  by (simp add: last_blank_def Let_def)

text \<open>What is stripped neither begins nor ends with white space.\<close>

lemma strip_ends: "head_blank (strip u) = 0" "strip_by last_blank (rev (strip u)) = rev (strip u)"
proof -
  let ?y = "strip_by head_blank u" and ?v = "strip_by last_blank (rev (strip_by head_blank u))"
  obtain pre where "rev ?y = pre @ ?v" using strip_by_suffix by blast
  then have y: "?y = rev ?v @ rev pre" by (metis rev_append rev_rev_ident)
  have "?y = strip u @ rev pre" using y by (simp only: strip_def)
  then have "head_blank ?y = blank_head (map of_char (strip u) @ map of_char (rev pre))"
    by (simp only: head_blank_eq [of "strip u @ rev pre"] map_append)
  moreover have "head_blank ?y = 0" using strip_by_stops [of head_blank u] by (auto simp: head_blank_def blank_head_def)
  ultimately show "head_blank (strip u) = 0"
    using blank_head_mono [of "map of_char (strip u)" "map of_char (rev pre)"] head_blank_eq [of "strip u"] by force
  show "strip_by last_blank (rev (strip u)) = rev (strip u)"
    unfolding strip_def rev_rev_ident by (rule strip_by_fixed) (rule strip_by_stops)
qed

lemma strip_padded: "strip (newline @ strip u @ newline @ ''  '') = strip u"
proof -
  have h: "strip_by head_blank (newline @ strip u @ newline @ ''  '') = (if strip u = [] then [] else strip u @ newline @ ''  '')"
  proof (cases "strip u = []")
    case True
    then show ?thesis by (simp add: strip_by_drop strip_by_fixed head_blank_eq blank_head_def)
  next
    case False
    have "head_blank (strip u @ newline @ ''  '') = 0"
      using blank_head_ascii [OF strip_ends(1) [of u, unfolded head_blank_eq]] False by (simp add: head_blank_eq)
    then show ?thesis using False by (simp add: strip_by_drop strip_by_fixed head_blank_eq blank_head_def)
  qed
  have "strip_by last_blank (rev (strip u @ newline @ ''  '')) = strip_by last_blank (rev (strip u))"
    by (simp add: strip_by_drop last_blank_ascii blank_head_def)
  then have "rev (strip_by last_blank (rev (strip_by head_blank (newline @ strip u @ newline @ ''  '')))) = strip u"
    unfolding h using strip_ends(2) [of u] by (cases "strip u = []") (simp_all add: strip_by_fixed)
  then show ?thesis by (simp only: strip_def [of "newline @ strip u @ newline @ ''  ''"])
qed

text \<open>Searching a tag: it begins with its only bracket, so a match cannot straddle.\<close>

definition ci_contains :: "string \<Rightarrow> string \<Rightarrow> bool" where
  "ci_contains p s \<longleftrightarrow> split_at p s \<noteq> None"

definition tag_like :: "string \<Rightarrow> bool" where
  "tag_like p \<longleftrightarrow> p \<noteq> [] \<and> hd p = CHR ''<'' \<and> CHR ''<'' \<notin> set (tl p) \<and> CHR 0x0A \<notin> set p \<and> map lower_char p = p"

lemma ci_prefix_self: "map lower_char p = p \<Longrightarrow> ci_prefix p (p @ post)"
  by (simp add: ci_prefix_def)

lemma ci_prefix_nth: "ci_prefix p s \<Longrightarrow> i < length p \<Longrightarrow> i < length s \<and> lower_char (s ! i) = p ! i"
proof -
  assume a: "ci_prefix p s" and i: "i < length p"
  have l: "length (take (length p) s) = length p" using a unfolding ci_prefix_def by (metis length_map)
  then have "i < length s" using i by simp
  moreover have "map lower_char (take (length p) s) ! i = p ! i" using a by (simp add: ci_prefix_def)
  ultimately show ?thesis using i l by simp
qed

lemma ci_prefix_append: "ci_prefix p (xs @ ys) \<Longrightarrow> length p \<le> length xs \<Longrightarrow> ci_prefix p xs"
  by (simp add: ci_prefix_def)

lemma split_at_first:
  assumes "tag_like p" and "\<not> ci_contains p pre"
  shows "split_at p (pre @ p @ post) = Some (pre, post)"
  using assms(2)
proof (induction pre)
  case Nil
  have "ci_prefix p (p @ post)" using assms(1) by (intro ci_prefix_self) (simp add: tag_like_def)
  moreover obtain c cs where "p = c # cs" using assms(1) by (cases p) (auto simp: tag_like_def)
  ultimately show ?case by (cases "p @ post") auto
next
  case (Cons c pre)
  have "\<not> ci_prefix p (c # pre @ p @ post)"
  proof
    assume m: "ci_prefix p (c # pre @ p @ post)"
    show False
    proof (cases "length p \<le> length (c # pre)")
      case True
      then have "ci_prefix p (c # pre)" using ci_prefix_append [of p "c # pre" "p @ post"] m by simp
      then show ?thesis using Cons.prems by (simp add: ci_contains_def)
    next
      case False
      let ?i = "length (c # pre)"
      have "lower_char ((c # pre @ p @ post) ! ?i) = p ! ?i" using ci_prefix_nth [OF m, of ?i] False by simp
      moreover have "(c # pre @ p @ post) ! ?i = CHR ''<''" using assms(1) by (cases p) (auto simp: tag_like_def nth_append)
      moreover have "p ! ?i \<in> set (tl p)" using False by (cases p) auto
      ultimately show ?thesis using assms(1) by (auto simp: tag_like_def lower_char_def)
    qed
  qed
  moreover have "\<not> ci_contains p pre" using Cons.prems by (auto simp: ci_contains_def split: if_splits)
  ultimately show ?case using Cons.IH by simp
qed

lemma ci_prefix_extend: "ci_prefix p xs \<Longrightarrow> ci_prefix p (xs @ ys)"
proof -
  assume a: "ci_prefix p xs"
  have "length (take (length p) xs) = length p" using a unfolding ci_prefix_def by (metis length_map)
  then show ?thesis using a by (simp add: ci_prefix_def)
qed

lemma contains_lines:
  assumes "tag_like p"
  shows "ci_contains p (xs @ newline @ ys) \<longleftrightarrow> ci_contains p xs \<or> ci_contains p ys"
proof (induction xs)
  case Nil
  have "\<not> ci_prefix p (CHR 0x0A # ys)"
    using ci_prefix_nth [of p "CHR 0x0A # ys" 0] assms by (cases p) (auto simp: tag_like_def lower_char_def)
  then show ?case using assms by (auto simp: ci_contains_def tag_like_def)
next
  case (Cons c xs)
  have "ci_prefix p (c # xs @ newline @ ys) \<longleftrightarrow> ci_prefix p (c # xs)"
  proof
    assume m: "ci_prefix p (c # xs @ newline @ ys)"
    have "length p \<le> length (c # xs)"
    proof (rule ccontr)
      assume l: "\<not> length p \<le> length (c # xs)"
      then have "lower_char ((c # xs @ newline @ ys) ! length (c # xs)) = p ! length (c # xs)"
        using ci_prefix_nth [OF m, of "length (c # xs)"] by simp
      then have "p ! length (c # xs) = CHR 0x0A" by (simp add: nth_append lower_char_def)
      moreover have "p ! length (c # xs) \<in> set p" using l by (simp only: linorder_not_le nth_mem)
      ultimately show False using assms by (simp add: tag_like_def)
    qed
    then show "ci_prefix p (c # xs)" using ci_prefix_append [of p "c # xs" "newline @ ys"] m by simp
  next
    assume "ci_prefix p (c # xs)"
    then show "ci_prefix p (c # xs @ newline @ ys)" using ci_prefix_extend [of p "c # xs" "newline @ ys"] by simp
  qed
  moreover have "\<And>s. ci_contains p (c # s) \<longleftrightarrow> ci_prefix p (c # s) \<or> ci_contains p s" by (auto simp: ci_contains_def)
  ultimately show ?case using Cons.IH by simp
qed

lemma join_with_Cons: "ls \<noteq> [] \<Longrightarrow> join_with sep (l # ls) = l @ sep @ join_with sep ls"
  by (cases ls) auto

lemma join_with_append: "xs \<noteq> [] \<Longrightarrow> ys \<noteq> [] \<Longrightarrow> join_with sep (xs @ ys) = join_with sep xs @ sep @ join_with sep ys"
proof (induction xs)
  case (Cons x xs)
  then show ?case by (cases "xs = []") (simp_all add: join_with_Cons)
qed simp

lemma contains_join:
  assumes "tag_like p"
  shows "ci_contains p (join_with newline ls) \<longleftrightarrow> list_ex (ci_contains p) ls"
proof (induction ls)
  case Nil
  then show ?case using assms by (simp add: ci_contains_def tag_like_def)
next
  case (Cons l ls)
  show ?case
  proof (cases "ls = []")
    case False
    then show ?thesis using Cons contains_lines [OF assms, of l "join_with newline ls"] by (simp add: join_with_Cons)
  qed simp
qed

definition before_users :: "sections list \<Rightarrow> string \<Rightarrow> string list" where
  "before_users parts users = [''<state_snapshot>''] @ concat (map (section_lines parts users) (take 5 SECTION_ORDER))"

definition after_users :: "sections list \<Rightarrow> string \<Rightarrow> string list" where
  "after_users parts users = concat (map (section_lines parts users) (drop 6 SECTION_ORDER)) @ [''</state_snapshot>'']"

lemma merged_lines:
  "merge_chunk_summaries parts users = Some s \<Longrightarrow>
     s = join_with newline (before_users parts users) @ newline @ ''  '' @ open_tag ''all_user_messages'' @
       (newline @ strip users @ newline @ ''  '') @ close_tag ''all_user_messages'' @ newline @
       join_with newline (after_users parts users)"
proof -
  assume m: "merge_chunk_summaries parts users = Some s"
  have body: "section_body parts users ''all_user_messages'' = strip users" by (simp add: section_body_def)
  have "[''<state_snapshot>''] @ concat (map (section_lines parts users) SECTION_ORDER) @ [''</state_snapshot>''] =
      before_users parts users @ section_lines parts users ''all_user_messages'' @ after_users parts users"
    by (simp add: before_users_def after_users_def SECTION_ORDER_def)
  then have "s = join_with newline (before_users parts users @ section_lines parts users ''all_user_messages'' @ after_users parts users)"
    using m by (simp add: merge_chunk_summaries_def split: if_splits)
  moreover have "before_users parts users \<noteq> []" "after_users parts users \<noteq> []"
    by (simp_all add: before_users_def after_users_def)
  ultimately show ?thesis
    by (simp add: join_with_append join_with_Cons section_lines_def body)
qed

lemma user_tags: "tag_like (open_tag ''all_user_messages'')" "tag_like (close_tag ''all_user_messages'')"
  by (simp_all add: tag_like_def open_tag_def close_tag_def lower_char_def)

text \<open>The sections of the model that come before the messages of the user.\<close>

definition free_of_tag :: "sections list \<Rightarrow> bool" where
  "free_of_tag parts \<longleftrightarrow> list_all (\<lambda>s. \<not> ci_contains (open_tag ''all_user_messages'') (section_body parts [] s)) (take 5 SECTION_ORDER)"

lemma section_body_other: "s \<noteq> ''all_user_messages'' \<Longrightarrow> section_body parts u s = section_body parts [] s"
  by (simp add: section_body_def)

lemma lower_char_bracket: "lower_char c = CHR ''<'' \<longleftrightarrow> c = CHR ''<''"
proof
  assume a: "lower_char c = CHR ''<''"
  show "c = CHR ''<''"
  proof (rule ccontr)
    assume "c \<noteq> CHR ''<''"
    then have r: "65 \<le> (of_char c :: nat)" "(of_char c :: nat) \<le> 90" "char_of ((of_char c :: nat) + 32) = CHR ''<''"
      using a by (auto simp: lower_char_def split: if_splits)
    have "(of_char (char_of ((of_char c :: nat) + 32)) :: nat) = of_char c + 32" using r(1,2) by (simp add: of_char_of)
    then have "(of_char c :: nat) + 32 = of_char (CHR ''<'')" using r(3) by metis
    then show False using r(1) by simp
  qed
qed (simp add: lower_char_def)

lemma contains_step: "tag_like p \<Longrightarrow> c \<noteq> CHR ''<'' \<Longrightarrow> ci_contains p (c # s) = ci_contains p s"
  using ci_prefix_nth [of p "c # s" 0] by (cases p) (auto simp: ci_contains_def tag_like_def lower_char_bracket split: if_splits)

lemma contains_none: "tag_like p \<Longrightarrow> CHR ''<'' \<notin> set s \<Longrightarrow> \<not> ci_contains p s"
proof (induction s)
  case Nil
  then show ?case by (simp add: ci_contains_def tag_like_def)
next
  case (Cons c s)
  then show ?case using contains_step by auto
qed

lemma contains_other:
  assumes "CHR ''<'' \<notin> set y" and "y \<noteq> []" and "lower_char (hd y) \<noteq> CHR ''a''"
  shows "\<not> ci_contains (open_tag ''all_user_messages'') (''  '' @ CHR ''<'' # y)"
proof -
  let ?p = "open_tag ''all_user_messages''"
  have "\<not> ci_prefix ?p (CHR ''<'' # y)"
    using ci_prefix_nth [of ?p "CHR ''<'' # y" 1] assms(2,3) by (cases y) (auto simp: open_tag_def)
  then have "\<not> ci_contains ?p (CHR ''<'' # y)"
    using contains_none [OF user_tags(1) assms(1)] by (simp add: ci_contains_def)
  then show ?thesis by (simp add: contains_step [OF user_tags(1)])
qed

lemma other_tags_free:
  assumes "x \<in> set (take 5 SECTION_ORDER)"
  shows "\<not> ci_contains (open_tag ''all_user_messages'') (''  '' @ open_tag x)"
    and "\<not> ci_contains (open_tag ''all_user_messages'') (''  '' @ close_tag x)"
proof -
  have x: "CHR ''<'' \<notin> set x \<and> x \<noteq> [] \<and> lower_char (hd x) \<noteq> CHR ''a''"
    using assms by (auto simp: SECTION_ORDER_def lower_char_def)
  show "\<not> ci_contains (open_tag ''all_user_messages'') (''  '' @ open_tag x)"
    using contains_other [of "x @ ''>''"] x by (simp add: open_tag_def [of x])
  show "\<not> ci_contains (open_tag ''all_user_messages'') (''  '' @ close_tag x)"
    using contains_other [of "CHR ''/'' # x @ ''>''"] x by (simp add: close_tag_def lower_char_def)
qed

lemma users_node_opens:
  assumes "merge_chunk_summaries parts users = Some s" and "free_of_tag parts"
  shows "\<exists>rest. split_at (open_tag ''all_user_messages'') s = Some (join_with newline (before_users parts users) @ newline @ ''  '',
    (newline @ strip users @ newline @ ''  '') @ close_tag ''all_user_messages'' @ rest)"
proof -
  let ?open = "open_tag ''all_user_messages''"
  have "\<not> ci_contains ?open (section_body parts users x)" if "x \<in> set (take 5 SECTION_ORDER)" for x
  proof -
    have "x \<noteq> ''all_user_messages''" using that by (auto simp: SECTION_ORDER_def)
    then have "section_body parts users x = section_body parts [] x" by (rule section_body_other)
    then show ?thesis using that assms(2) unfolding free_of_tag_def list_all_iff by simp
  qed
  moreover have "\<not> ci_contains ?open ''<state_snapshot>''"
    using contains_other [of "''state_snapshot>''"] by (simp add: contains_step [OF user_tags(1)] lower_char_def)
  ultimately have "\<not> list_ex (ci_contains ?open) (before_users parts users)"
    using other_tags_free unfolding before_users_def section_lines_def list_ex_iff by auto
  moreover have blank: "\<not> ci_contains p ''  ''" if "tag_like p" for p
    using that by (cases p) (auto simp: ci_contains_def ci_prefix_def tag_like_def lower_char_def)
  ultimately have pre: "\<not> ci_contains ?open (join_with newline (before_users parts users) @ newline @ ''  '')"
    using user_tags(1) by (simp only: contains_lines contains_join blank) simp
  show ?thesis
    using split_at_first [OF user_tags(1) pre] merged_lines [OF assms(1)] by simp
qed

lemma merged_nonempty: "merge_chunk_summaries parts users = Some s \<Longrightarrow> s \<noteq> []"
  using merged_lines by fastforce

lemma no_tag_in_blank: "tag_like p \<Longrightarrow> \<not> ci_contains p ''  '' \<and> \<not> ci_contains p []"
  using contains_none [of p "''  ''"] contains_none [of p "[]"] by simp

lemma carried_from_merged:
  assumes "merge_chunk_summaries parts users = Some s" and "free_of_tag parts"
    and "\<not> ci_contains (close_tag ''all_user_messages'') (strip users)"
  shows "carried_messages (Some s) = (if strip users = [] then [] else [strip users])"
proof -
  let ?close = "close_tag ''all_user_messages''" and ?pad = "newline @ strip users @ newline @ ''  ''"
  have mid: "\<not> ci_contains ?close ?pad"
    using contains_lines [OF user_tags(2), of "[]" "strip users @ newline @ ''  ''"] contains_lines [OF user_tags(2), of "strip users" "''  ''"]
      assms(3) no_tag_in_blank [OF user_tags(2)] by simp
  obtain rest pre where "split_at (open_tag ''all_user_messages'') s = Some (pre, ?pad @ ?close @ rest)"
    using users_node_opens [OF assms(1,2)] by blast
  then have "node_text ''all_user_messages'' s = Some ?pad"
    using split_at_first [OF user_tags(2) mid] by (simp add: node_text_def)
  then show ?thesis using strip_padded [of users] merged_nonempty [OF assms(1)] by (simp add: carried_messages_def)
qed

text \<open>A text of the user that closes the list cuts off all later ones at the next compaction.\<close>

lemma closing_tag_cuts:
  assumes "merge_chunk_summaries parts users = Some s" and "free_of_tag parts"
    and "strip users = a @ close_tag ''all_user_messages'' @ b" and "\<not> ci_contains (close_tag ''all_user_messages'') a"
  shows "carried_messages (Some s) = (if strip (newline @ a) = [] then [] else [strip (newline @ a)])"
proof -
  let ?close = "close_tag ''all_user_messages''"
  have mid: "\<not> ci_contains ?close (newline @ a)"
    using contains_lines [OF user_tags(2), of "[]" a] assms(4) no_tag_in_blank [OF user_tags(2)] by simp
  obtain rest pre where "split_at (open_tag ''all_user_messages'') s = Some (pre, (newline @ a) @ ?close @ b @ newline @ ''  '' @ ?close @ rest)"
    using users_node_opens [OF assms(1,2)] assms(3) by force
  then have "node_text ''all_user_messages'' s = Some (newline @ a)"
    using split_at_first [OF user_tags(2) mid, of "b @ newline @ ''  '' @ ?close @ rest"] by (simp add: node_text_def)
  then show ?thesis using merged_nonempty [OF assms(1)] by (simp add: carried_messages_def)
qed

subsection \<open>The section of the user is stripped\<close>

lemma head_blank_append:
  "head_blank x = 0 \<Longrightarrow> x \<noteq> [] \<Longrightarrow> head_blank (x @ blank_line @ y) = 0"
  unfolding head_blank_eq map_append by (rule blank_head_ascii) (simp_all add: blank_line_def numeral_2_eq_2)

lemma blank_head_bytes: "blank_head (32 # xs) = 1" "blank_head (58 # xs) = 0"
  by (simp_all add: blank_head_def)

lemma last_blank_append:
  assumes "last_blank (rev t) = 0" and "t \<noteq> []"
  shows "last_blank (rev (x @ '': '' @ t)) = 0"
proof -
  obtain c cs where r: "rev t = c # cs" using assms(2) by (cases "rev t") auto
  show ?thesis using assms(1) r
    by (cases cs; cases "tl cs") (auto simp: last_blank_def Let_def blank_head_bytes take_Cons' split: if_splits)
qed

lemma strip_fixed:
  "head_blank x = 0 \<Longrightarrow> last_blank (rev x) = 0 \<Longrightarrow> strip x = x"
  by (simp add: strip_def strip_by_fixed)

lemma last_blank_strip: "last_blank (rev (strip x)) = 0"
  using strip_by_stops [of last_blank "rev (strip_by head_blank x)"] unfolding strip_def rev_rev_ident
  by (auto simp: last_blank_def blank_head_def)

lemma strip_idem [simp]: "strip (strip x) = strip x"
  by (intro strip_fixed strip_ends last_blank_strip)

lemma texts_stripped: "t \<in> set (user_message_texts ms) \<Longrightarrow> strip t = t \<and> t \<noteq> []"
  by (auto simp: user_message_texts_def)

lemma head_blank_join:
  "xs \<noteq> [] \<Longrightarrow> hd xs \<noteq> [] \<Longrightarrow> head_blank (hd xs) = 0 \<Longrightarrow> head_blank (join_with blank_line xs) = 0"
  by (cases xs; cases "tl xs") (auto simp: head_blank_append)

lemma last_blank_join:
  "xs \<noteq> [] \<Longrightarrow> (\<And>y. last_blank (rev (y @ last xs)) = 0) \<Longrightarrow> last_blank (rev (join_with blank_line xs)) = 0"
proof (induction xs rule: rev_induct)
  case (snoc x xs)
  have "last_blank (rev (y @ x)) = 0" for y using snoc.prems(2) [of y] by simp
  from this [of "[]"] this [of "join_with blank_line xs @ blank_line"] show ?case
    by (cases "xs = []") (simp_all add: join_with_append)
qed simp

lemma head_blank_label: "head_blank (USER_LABEL @ y) = 0"
  by (simp add: head_blank_eq USER_LABEL_def bytes_def blank_head_def)

lemma enumerated_in:
  "x \<in> set (map (\<lambda>(i, t). f i t) (enumerate n ts)) \<Longrightarrow> \<exists>i. \<exists>t \<in> set ts. x = f i t"
proof (induction ts arbitrary: n)
  case (Cons a ts)
  then show ?case by (metis (no_types, lifting) enumerate_simps(2) list.set_intros list.simps(9) old.prod.case set_ConsD)
qed simp

lemma enumerated_all:
  "t \<in> set ts \<Longrightarrow> \<exists>i. f i t \<in> set (map (\<lambda>(i, t). f i t) (enumerate n ts))"
proof (induction ts arbitrary: n)
  case (Cons a ts)
  show ?case
  proof (cases "t = a")
    case False
    then obtain i where "f i t \<in> set (map (\<lambda>(i, t). f i t) (enumerate (Suc n) ts))" using Cons by fastforce
    then show ?thesis by (intro exI [of _ i]) simp
  qed auto
qed simp

lemma section_stripped: "strip (build_user_messages_section ms previous) = build_user_messages_section ms previous"
proof -
  let ?xs = "carried_messages previous @ numbered_texts (user_message_texts ms)"
  have carried: "\<exists>x. carried_messages previous = [strip x] \<and> strip x \<noteq> []" if "carried_messages previous \<noteq> []"
    using that by (auto simp: carried_messages_def split: option.splits if_splits)
  have numbered: "\<exists>i t. x = USER_LABEL @ i @ '': '' @ t \<and> t \<in> set (user_message_texts ms)"
    if "x \<in> set (numbered_texts (user_message_texts ms))" for x
    using enumerated_in [OF that [unfolded numbered_texts_def]] by blast
  show ?thesis
  proof (cases "?xs = []")
    case True
    then show ?thesis by (simp add: build_user_messages_section_def strip_def strip_by_fixed)
  next
    case False
    have "hd ?xs \<noteq> [] \<and> head_blank (hd ?xs) = 0"
    proof (cases "carried_messages previous = []")
      case True
      then have "hd ?xs \<in> set (numbered_texts (user_message_texts ms))" using False by (cases "numbered_texts (user_message_texts ms)") auto
      then show ?thesis using numbered head_blank_label by (fastforce simp: USER_LABEL_def bytes_def)
    next
      case c: False
      then show ?thesis using carried strip_ends(1) by auto
    qed
    then have h: "head_blank (join_with blank_line ?xs) = 0" using False head_blank_join by blast
    have "last_blank (rev (join_with blank_line ?xs)) = 0"
    proof (cases "numbered_texts (user_message_texts ms) = []")
      case True
      then show ?thesis using False carried last_blank_strip by auto
    next
      case n: False
      then have "last ?xs \<in> set (numbered_texts (user_message_texts ms))" by simp
      then obtain i t where t: "last ?xs = USER_LABEL @ i @ '': '' @ t" "t \<in> set (user_message_texts ms)" using numbered by blast
      have "last_blank (rev t) = 0" "t \<noteq> []" using texts_stripped [OF t(2)] last_blank_strip [of t] by simp_all
      then have "last_blank (rev (y @ last ?xs)) = 0" for y
        using last_blank_append [of t "y @ USER_LABEL @ i"] by (simp add: t(1))
      then show ?thesis using last_blank_join [OF False] by blast
    qed
    with h show ?thesis by (simp add: build_user_messages_section_def strip_fixed)
  qed
qed

lemma section_has_texts: "t \<in> set (user_message_texts ms) \<Longrightarrow> str_contains t (build_user_messages_section ms previous)"
proof -
  assume "t \<in> set (user_message_texts ms)"
  then obtain i :: nat where "USER_LABEL @ str_of_int (int i) @ '': '' @ t \<in> set (numbered_texts (user_message_texts ms))"
    using enumerated_all [of t "user_message_texts ms" "\<lambda>i t. USER_LABEL @ str_of_int (int i) @ '': '' @ t" 1]
    unfolding numbered_texts_def by blast
  then have "\<exists>x \<in> set (numbered_texts (user_message_texts ms)). \<exists>l. x = l @ t" by (metis append.assoc)
  then obtain x l where x: "x \<in> set (carried_messages previous @ numbered_texts (user_message_texts ms))" "x = l @ t" by auto
  have join: "\<exists>us vs. join_with sep xs = us @ y @ vs" if "y \<in> set xs" for sep y and xs :: "string list"
    using that
  proof (induction xs)
    case (Cons z zs)
    show ?case
    proof (cases "y \<in> set zs")
      case True
      then obtain us vs where "join_with sep zs = us @ y @ vs" using Cons.IH by blast
      moreover have "zs \<noteq> []" using True by auto
      ultimately have "join_with sep (z # zs) = (z @ sep @ us) @ y @ vs" by (simp add: join_with_Cons)
      then show ?thesis by blast
    next
      case False
      then have "y = z" using Cons.prems by simp
      then show ?thesis by (cases "zs = []") (auto simp: join_with_Cons intro: exI [of _ "[]"])
    qed
  qed simp
  from join [OF x(1), of blank_line] show ?thesis
    unfolding str_contains_iff build_user_messages_section_def x(2) by (metis append.assoc)
qed

text \<open>
  C17: Compaction keeps the messages of the user word for word. A summary contains each text of the user in the messages it
  covers (visible messages, white space at both ends stripped). If moreover the model's sections do not themselves open a list of user messages, and no text of the user contains the
  tag that closes it, then the next compaction takes the whole list over unchanged, in front of the texts written since.
\<close>

theorem user_messages_survive_compaction:
  assumes "merge_chunk_summaries parts (build_user_messages_section ms previous) = Some s"
  shows "list_all (\<lambda>t. str_contains t s) (user_message_texts ms) \<and>
    (free_of_tag parts \<and> \<not> ci_contains (close_tag ''all_user_messages'') (build_user_messages_section ms previous) \<and>
       build_user_messages_section ms previous \<noteq> [] \<longrightarrow>
     (\<exists>rest. build_user_messages_section ms' (Some s) = build_user_messages_section ms previous @ rest))"
proof
  have "str_contains x s" if "str_contains x (build_user_messages_section ms previous)" for x
    using merged_lines [OF assms] that unfolding section_stripped str_contains_iff by (metis append.assoc)
  then show "list_all (\<lambda>t. str_contains t s) (user_message_texts ms)"
    using section_has_texts by (simp add: list_all_iff)
  show "free_of_tag parts \<and> \<not> ci_contains (close_tag ''all_user_messages'') (build_user_messages_section ms previous) \<and>
       build_user_messages_section ms previous \<noteq> [] \<longrightarrow>
     (\<exists>rest. build_user_messages_section ms' (Some s) = build_user_messages_section ms previous @ rest)"
  proof
    assume n: "free_of_tag parts \<and> \<not> ci_contains (close_tag ''all_user_messages'') (build_user_messages_section ms previous) \<and>
       build_user_messages_section ms previous \<noteq> []"
    have "carried_messages (Some s) = [build_user_messages_section ms previous]"
      using carried_from_merged [OF assms] n by (simp add: section_stripped)
    then show "\<exists>rest. build_user_messages_section ms' (Some s) = build_user_messages_section ms previous @ rest"
      by (cases "numbered_texts (user_message_texts ms')") (simp_all add: build_user_messages_section_def [of ms' "Some s"])
  qed
qed

definition sample_user_message :: msg where
  "sample_user_message = base_msg RoleUser DEFAULT [TextB \<lparr>tb_text = ''hi'', tb_id = [], tb_created_at = [], tb_finished_at = None\<rparr>] ''m'' []"

lemma strip_samples: "strip [] = []" "strip ''hi'' = ''hi''" "strip ''x'' = ''x''"
  by (simp_all add: strip_fixed head_blank_def last_blank_def blank_head_def Let_def)

lemma sample_texts: "user_message_texts [sample_user_message] = [''hi'']"
  by (simp add: user_message_texts_def sample_user_message_def is_user_message_def base_msg_def truthy_key_def
      get_text_content_def texts_of_def strip_samples)

lemma user_messages_survive_compaction_witness:
  "\<exists>s. merge_chunk_summaries [[(''current_work'', ''x'')]] (build_user_messages_section [sample_user_message] None) = Some s \<and>
    str_contains ''hi'' s \<and> (\<exists>rest. build_user_messages_section [sample_user_message] (Some s) =
      build_user_messages_section [sample_user_message] None @ rest)"
proof -
  let ?parts = "[[(''current_work'', ''x'')]]" and ?users = "build_user_messages_section [sample_user_message] None"
  have "\<exists>s. merge_chunk_summaries ?parts ?users = Some s"
    by (simp add: merge_chunk_summaries_def SECTION_ORDER_def section_of_def strip_samples)
  then obtain s where s: "merge_chunk_summaries ?parts ?users = Some s" by blast
  have free: "free_of_tag ?parts"
    using no_tag_in_blank [OF user_tags(1)]
    by (simp add: free_of_tag_def SECTION_ORDER_def section_body_def section_of_def strip_samples)
  have "CHR ''<'' \<notin> set USER_LABEL" by code_simp
  then have "CHR ''<'' \<notin> set ?users"
    by (simp add: build_user_messages_section_def carried_messages_def sample_texts numbered_texts_def
        str_of_int_def pos_digits.simps digit_char_def)
  then have closed: "\<not> ci_contains (close_tag ''all_user_messages'') ?users" by (rule contains_none [OF user_tags(2)])
  have "?users \<noteq> []" by (simp add: build_user_messages_section_def carried_messages_def sample_texts numbered_texts_def USER_LABEL_def bytes_def)
  then have "\<exists>rest. build_user_messages_section [sample_user_message] (Some s) = ?users @ rest"
    using user_messages_survive_compaction [OF s, of "[sample_user_message]"] free closed by blast
  moreover have "str_contains ''hi'' s" using user_messages_survive_compaction [OF s] by (simp add: sample_texts)
  ultimately show ?thesis using s by blast
qed

lemma chunks_partition_history_witness:
  "\<exists>chunks. chunk_messages_by_tokens sample_provider [sample_user_message, sample_user_message] 5 = Inr chunks \<and>
    concat chunks = [sample_user_message, sample_user_message]"
proof -
  have "\<exists>n. estimate_messages_tokens sample_provider [sample_user_message] = Inr n"
    by (simp add: estimate_messages_tokens_def to_openai_def stored_messages_def sample_user_message_def base_msg_def
        regular_message_def to_openai_message_def is_part_def is_data_block_def to_openai_part_def calls_of_def
        List.map_filter_simps has_body_def truthy_key_def role_string_def sum_r_def estimate_message_def field_tokens_def
        part_tokens_def text_part_def is_obj_def jget_def list_of_def)
  then obtain n where n: "estimate_messages_tokens sample_provider [sample_user_message] = Inr n" by blast
  then have "\<exists>chunks. chunk_messages_by_tokens sample_provider [sample_user_message, sample_user_message] 5 = Inr chunks"
    by (simp add: chunk_messages_by_tokens_def chunk_by_def chunk_step_def)
  then show ?thesis using chunks_partition_history by blast
qed

end
