(* ===== verification/Compaction.thy ===== *)
theory Compaction
  imports CompactionSummary Derive "HOL-Library.Char_ord" "HOL-Library.List_Lexorder"
begin

text \<open>
  The compaction service of one session
  (\<open>packages/ftre-compaction/src/ftre_compaction/service.py\<close>, class \<open>CompactionService\<close>) and the hooks
  that call it (\<open>hooks.py\<close>).

  \<open>compaction_env\<close> is the rest of the host: the stored messages and the reported usage at each call,
  what the model answers for each run of the summary, chunk and attempt, and which events the
  sink refuses. Chunks run side by side, but each only has its own answer, so their order does not
  show in the result.
\<close>

section \<open>State\<close>

datatype failure_reason = NoHistory | NoSummary | NotSmaller

record start_data =
  sd_messages :: nat
  sd_tokens :: int
  sd_model :: string
  sd_chunks :: nat
  sd_chunk_tokens :: int
  sd_parallelism :: int
  sd_user_messages :: nat

datatype maintenance = MStart start_data | MDone compact_data | MFailed failure_reason

datatype chunk_answer = AnswerText string | AnswerFails | AnswerCancelled

record compaction_env =
  ce_lib :: provider_lib
  ce_gen :: string
  ce_now :: string
  ce_history :: "nat \<Rightarrow> msg list result"
  ce_usage :: "nat \<Rightarrow> int result"
  ce_has_llm :: bool
  ce_answer :: "nat \<Rightarrow> nat \<Rightarrow> nat \<Rightarrow> string list \<Rightarrow> chunk_answer"
  ce_sink_fails :: "nat \<Rightarrow> bool"
  ce_wording :: prompt_wording

text \<open>The counters number the calls of the environment.\<close>

record compacting =
  cs_events :: "maintenance list"
  cs_progress :: nat
  cs_loads :: nat
  cs_usages :: nat
  cs_runs :: nat
  cs_emits :: nat

definition emit_maintenance :: "compaction_env \<Rightarrow> maintenance \<Rightarrow> compacting \<Rightarrow> compacting \<times> unit result" where
  "emit_maintenance X ev s =
     (if ce_sink_fails X (cs_emits s) then (s\<lparr>cs_emits := cs_emits s + 1\<rparr>, Inl RuntimeError)
      else (s\<lparr>cs_emits := cs_emits s + 1, cs_events := cs_events s @ [ev]\<rparr>, Inr ()))"

text \<open>A sink that refuses the notice of a failure does not matter.\<close>

definition emit_failed :: "compaction_env \<Rightarrow> failure_reason \<Rightarrow> compacting \<Rightarrow> compacting" where
  "emit_failed X why s = fst (emit_maintenance X (MFailed why) s)"

definition mark_progress :: "compacting \<Rightarrow> compacting" where
  "mark_progress s = s\<lparr>cs_progress := cs_progress s + 1\<rparr>"

definition load_context :: "compaction_env \<Rightarrow> compacting \<Rightarrow> compacting \<times> msg list result" where
  "load_context X s = (s\<lparr>cs_loads := cs_loads s + 1\<rparr>,
     bind_r (ce_history X (cs_loads s)) (\<lambda>ms. Inr (build_context_view (pl_lib (ce_lib X)) (ce_gen X) (ce_now X) ms)))"

definition token_usage_of :: "compaction_env \<Rightarrow> compacting \<Rightarrow> compacting \<times> int result" where
  "token_usage_of X s = (s\<lparr>cs_usages := cs_usages s + 1\<rparr>, ce_usage X (cs_usages s))"

section \<open>The water mark\<close>

definition prompt_budget :: "llm_config \<Rightarrow> compaction_config \<Rightarrow> int \<Rightarrow> int" where
  "prompt_budget cfg cc cw = cw - max 0 (case lc_max_output cfg of None \<Rightarrow> 0 | Some m \<Rightarrow> m) - max 0 (cc_safety_buffer cc)"

definition should_compact ::
  "compaction_env \<Rightarrow> llm_config \<Rightarrow> compaction_config \<Rightarrow> pyfloat option \<Rightarrow> int \<Rightarrow> compacting \<Rightarrow> compacting \<times> bool result" where
  "should_compact X cfg cc threshold extra s =
     (case lc_context_window cfg of
        None \<Rightarrow> (s, Inr False)
      | Some cw \<Rightarrow>
          if cw \<le> 0 then (s, Inr False)
          else if prompt_budget cfg cc cw \<le> 0 then (s, Inr True)
          else (case token_usage_of X s of
              (s', Inl e) \<Rightarrow> (s', Inl e)
            | (s', Inr used) \<Rightarrow>
                let estimated = used + max 0 extra
                in (s', Inr (0 < estimated \<and>
                     float_ge (float_div estimated (prompt_budget cfg cc cw))
                       (case threshold of None \<Rightarrow> cc_compact_threshold cc | Some t \<Rightarrow> t)))))"

section \<open>The fast compaction\<close>

definition result_text :: "provider_lib \<Rightarrow> tool_result_block \<Rightarrow> string" where
  "result_text B r = (case trb_output r of
     OutputText s \<Rightarrow> s | OutputParts ps \<Rightarrow> concat (List.map_filter (part_text B) ps))"

definition without_summary :: "msg list \<Rightarrow> msg list" where
  "without_summary ms = (case ms of m # rest \<Rightarrow> if msg_name m = COMPACT then rest else ms | [] \<Rightarrow> [])"

text \<open>Where the protected turns begin: at the user message that opens the oldest of them.\<close>

definition protected_start :: "int \<Rightarrow> msg list \<Rightarrow> nat" where
  "protected_start keep ms =
     (let users = take (nat keep) (rev (filter (\<lambda>i. msg_role (ms ! i) = RoleUser) [0..<length ms]))
      in if users = [] then length ms else last users)"

definition trimmable :: "provider_lib \<Rightarrow> int \<Rightarrow> msg list \<Rightarrow> tool_result_block list" where
  "trimmable B keep ms =
     filter (\<lambda>r. result_text B r \<notin> {LEGACY_TRIMMED_TOOL_RESULT_PLACEHOLDER, TRIMMED_TOOL_RESULT_PLACEHOLDER})
       (results_of (concat (map msg_content (take (protected_start keep ms) ms))))"

definition emptied_block :: "string \<Rightarrow> string \<Rightarrow> string list \<Rightarrow> content_block \<Rightarrow> content_block" where
  "emptied_block gen now ids b = (case b of
     ToolResultB r \<Rightarrow> if trb_id r \<in> set ids
       then ToolResultB (r\<lparr>trb_output := OutputParts [OutText \<lparr>tb_text = [], tb_id = gen, tb_created_at = now, tb_finished_at = None\<rparr>]\<rparr>)
       else b
   | _ \<Rightarrow> b)"

definition fast_data :: "tool_result_block list \<Rightarrow> nat \<Rightarrow> nat \<Rightarrow> compact_data" where
  "fast_data rs before after =
     \<lparr>cd_mode = ''fast'', cd_summary_text = [], cd_through_message_id = [], cd_trigger = ''auto'',
      cd_tokens_before = int before, cd_tokens_after = int after, cd_tool_results = int (length rs),
      cd_tool_result_ids = sort (remdups (map trb_id rs))\<rparr>"

definition trim_results :: "compaction_env \<Rightarrow> int \<Rightarrow> msg list \<Rightarrow> compacting \<Rightarrow> compacting \<times> bool result" where
  "trim_results X keep ms s =
     (let rs = trimmable (ce_lib X) keep ms;
          emptied = map (\<lambda>m. m\<lparr>msg_content := map (emptied_block (ce_gen X) (ce_now X) (map trb_id rs)) (msg_content m)\<rparr>) ms
      in if rs = [] then (s, Inr False)
         else (case (estimate_messages_tokens (ce_lib X) ms, estimate_messages_tokens (ce_lib X) emptied) of
             (Inr before, Inr after) \<Rightarrow>
               (case emit_maintenance X (MDone (fast_data rs before after)) s of
                  (s', Inl e) \<Rightarrow> (s', Inl e)
                | (s', Inr u) \<Rightarrow> (mark_progress s', Inr True))
           | (Inl e, _) \<Rightarrow> (s, Inl e)
           | (Inr n, Inl e) \<Rightarrow> (s, Inl e)))"

definition compress_fast :: "compaction_env \<Rightarrow> int \<Rightarrow> compacting \<Rightarrow> compacting \<times> bool result" where
  "compress_fast X keep s =
     (case load_context X s of
        (s1, Inl e) \<Rightarrow> (s1, Inl e)
      | (s1, Inr view) \<Rightarrow>
          if without_summary view = [] then (s1, Inr False) else trim_results X keep (without_summary view) s1)"

section \<open>The summary\<close>

datatype chunk_outcome = ChunkSections sections | ChunkEmpty | ChunkFailed | ChunkCancelled

definition answer_of :: "compaction_env \<Rightarrow> llm_config \<Rightarrow> nat \<Rightarrow> nat \<Rightarrow> nat \<Rightarrow> string list \<Rightarrow> chunk_answer" where
  "answer_of X llm k i attempt prompt =
     (if \<not> ce_has_llm X \<or> strip (lc_provider llm) = [] then AnswerFails else ce_answer X k i attempt prompt)"

fun try_chunk :: "nat \<Rightarrow> (nat \<Rightarrow> chunk_answer) \<Rightarrow> nat \<Rightarrow> chunk_outcome" where
  "try_chunk 0 answer attempt = ChunkEmpty"
| "try_chunk (Suc n) answer attempt =
     (case answer attempt of
        AnswerCancelled \<Rightarrow> ChunkCancelled
      | AnswerFails \<Rightarrow> try_chunk n answer (attempt + 1)
      | AnswerText t \<Rightarrow> (case parse_chunk_sections t of
            Some parts \<Rightarrow> ChunkSections parts | None \<Rightarrow> try_chunk n answer (attempt + 1)))"

definition run_chunk ::
  "compaction_env \<Rightarrow> llm_config \<Rightarrow> compaction_config \<Rightarrow> string option \<Rightarrow> string \<Rightarrow> nat \<Rightarrow> nat \<times> msg list \<Rightarrow> chunk_outcome" where
  "run_chunk X llm cc previous focus k im =
     (case serialize_messages (ce_lib X) (snd im) of
        Inl e \<Rightarrow> ChunkFailed
      | Inr context \<Rightarrow>
          if strip context = [] then ChunkEmpty
          else try_chunk (nat (max 0 (min 2 (cc_chunk_retries cc))) + 1)
            (\<lambda>attempt. answer_of X llm k (fst im) attempt
               (pw_system (ce_wording X) # chunk_prompt (ce_wording X) context (if fst im = 0 then previous else None) focus)) 0)"

text \<open>The results in the order of the chunks: the first that has no sections decides.\<close>

fun collect_sections :: "chunk_outcome list \<Rightarrow> sections list option result" where
  "collect_sections [] = Inr (Some [])"
| "collect_sections (ChunkSections p # cs) = bind_r (collect_sections cs) (\<lambda>r. Inr (map_option ((#) p) r))"
| "collect_sections (ChunkCancelled # cs) = Inl Cancelled"
| "collect_sections (c # cs) = Inr None"

definition run_compact_llm ::
  "compaction_env \<Rightarrow> llm_config \<Rightarrow> compaction_config \<Rightarrow> msg list \<Rightarrow> msg list list \<Rightarrow> string option \<Rightarrow> string \<Rightarrow>
   compacting \<Rightarrow> compacting \<times> string option result" where
  "run_compact_llm X llm cc head chunks previous focus s =
     (s\<lparr>cs_runs := cs_runs s + 1\<rparr>,
      bind_r (collect_sections (map (run_chunk X llm cc previous focus (cs_runs s)) (enumerate 0 chunks))) (\<lambda>parts.
        Inr (case parts of None \<Rightarrow> None
          | Some ps \<Rightarrow> merge_chunk_summaries ps (build_user_messages_section head previous))))"

definition select_compact_llm :: "llm_config \<Rightarrow> compaction_config \<Rightarrow> llm_config" where
  "select_compact_llm cfg cc = (case cc_llm cc of None \<Rightarrow> cfg | Some c \<Rightarrow> c)"

text \<open>A second run when the first has no summary.\<close>

definition summarize ::
  "compaction_env \<Rightarrow> llm_config \<Rightarrow> compaction_config \<Rightarrow> msg list \<Rightarrow> msg list list \<Rightarrow> string option \<Rightarrow> string \<Rightarrow>
   compacting \<Rightarrow> compacting \<times> string option result" where
  "summarize X llm cc head chunks previous focus s =
     (case run_compact_llm X llm cc head chunks previous focus s of
        (s1, Inr None) \<Rightarrow> run_compact_llm X llm cc head chunks previous focus s1
      | r \<Rightarrow> r)"

definition summary_size :: "provider_lib \<Rightarrow> string \<Rightarrow> nat result" where
  "summary_size B summary = estimate_messages_tokens B [base_msg RoleUser DEFAULT
     [TextB \<lparr>tb_text = summary, tb_id = [], tb_created_at = [], tb_finished_at = None\<rparr>] [] []]"

definition summary_data :: "string \<Rightarrow> string \<Rightarrow> string \<Rightarrow> int \<Rightarrow> int \<Rightarrow> compact_data" where
  "summary_data summary through trigger before after =
     \<lparr>cd_mode = ''summary'', cd_summary_text = summary, cd_through_message_id = through, cd_trigger = trigger,
      cd_tokens_before = before, cd_tokens_after = after, cd_tool_results = 0, cd_tool_result_ids = []\<rparr>"

text \<open>What is done with a summary, or without one.\<close>

definition finish_compact ::
  "compaction_env \<Rightarrow> string \<Rightarrow> string \<Rightarrow> int \<Rightarrow> compacting \<times> string option result \<Rightarrow> compacting \<times> string option result" where
  "finish_compact X trigger through before sr =
     (case sr of
        (s, Inl e) \<Rightarrow> (s, Inl e)
      | (s, Inr None) \<Rightarrow>
          (case compress_fast X 0 (emit_failed X NoSummary s) of
             (s', Inl Cancelled) \<Rightarrow> (s', Inl Cancelled)
           | (s', r) \<Rightarrow> (s', Inr None))
      | (s, Inr (Some summary)) \<Rightarrow>
          (case summary_size (ce_lib X) summary of
             Inl e \<Rightarrow> (s, Inl e)
           | Inr after \<Rightarrow>
               if before \<le> int after then (emit_failed X NotSmaller s, Inr None)
               else (case emit_maintenance X (MDone (summary_data summary through trigger before (int after))) s of
                   (s', Inl e) \<Rightarrow> (s', Inl e)
                 | (s', Inr u) \<Rightarrow> (mark_progress s', Inr (Some summary)))))"

definition compact_head ::
  "compaction_env \<Rightarrow> llm_config \<Rightarrow> compaction_config \<Rightarrow> string \<Rightarrow> string \<Rightarrow> string option \<Rightarrow> msg list \<Rightarrow>
   compacting \<Rightarrow> compacting \<times> string option result" where
  "compact_head X cfg cc trigger focus previous head s =
     (case token_usage_of X s of
        (s1, Inl e) \<Rightarrow> (s1, Inl e)
      | (s1, Inr before) \<Rightarrow>
          (case chunk_messages_by_tokens (ce_lib X) head (cc_chunk_tokens cc) of
             Inl e \<Rightarrow> (s1, Inl e)
           | Inr chunks \<Rightarrow>
               (case emit_maintenance X (MStart \<lparr>sd_messages = length head, sd_tokens = before,
                    sd_model = lc_model (select_compact_llm cfg cc), sd_chunks = length chunks,
                    sd_chunk_tokens = cc_chunk_tokens cc, sd_parallelism = cc_chunk_parallelism cc,
                    sd_user_messages = length (user_message_texts head)\<rparr>) s1 of
                  (s2, Inl e) \<Rightarrow> (s2, Inl e)
                | (s2, Inr u) \<Rightarrow> finish_compact X trigger (msg_id (last head)) before
                    (summarize X (select_compact_llm cfg cc) cc head chunks previous focus s2))))"

definition do_compact ::
  "compaction_env \<Rightarrow> llm_config \<Rightarrow> compaction_config \<Rightarrow> string \<Rightarrow> string \<Rightarrow> compacting \<Rightarrow> compacting \<times> string option result" where
  "do_compact X cfg cc trigger focus s =
     (case load_context X s of
        (s1, Inl e) \<Rightarrow> (s1, Inl e)
      | (s1, Inr []) \<Rightarrow> (emit_failed X NoHistory s1, Inr None)
      | (s1, Inr (m # ms)) \<Rightarrow>
          (let previous = (if msg_name m = COMPACT then none_if_empty (get_text_content newline m) else None);
               head = without_summary (m # ms)
           in if head = [] then (s1, Inr None)
              else if (case lc_context_window cfg of None \<Rightarrow> True | Some cw \<Rightarrow> cw \<le> 0) then (s1, Inr None)
              else compact_head X cfg cc trigger focus previous head s1))"

section \<open>The hooks\<close>

definition compact_if_needed ::
  "compaction_env \<Rightarrow> llm_config \<Rightarrow> compaction_config \<Rightarrow> pyfloat option \<Rightarrow> int \<Rightarrow> string \<Rightarrow> compacting \<Rightarrow> compacting \<times> bool result" where
  "compact_if_needed X cfg cc threshold extra trigger s =
     (case should_compact X cfg cc threshold extra s of
        (s1, Inl e) \<Rightarrow> (s1, Inl e)
      | (s1, Inr False) \<Rightarrow> (s1, Inr False)
      | (s1, Inr True) \<Rightarrow>
          (case do_compact X cfg cc trigger [] s1 of
             (s2, Inl e) \<Rightarrow> (s2, Inl e)
           | (s2, Inr r) \<Rightarrow> (s2, Inr (cs_progress s1 < cs_progress s2))))"

text \<open>Compact and look at the water mark once more; the maintenance marks that were set come third.\<close>

definition run_compaction ::
  "compaction_env \<Rightarrow> llm_config \<Rightarrow> compaction_config \<Rightarrow> pyfloat \<Rightarrow> int \<Rightarrow> bool \<Rightarrow> bool \<Rightarrow> compacting \<Rightarrow>
   compacting \<times> bool result \<times> bool list" where
  "run_compaction X cfg cc threshold extra cancelled can_mark s =
     (if cancelled then (s, Inr False, [])
      else case should_compact X cfg cc (Some threshold) extra s of
        (s1, Inl e) \<Rightarrow> (s1, Inl e, [])
      | (s1, Inr False) \<Rightarrow> (s1, Inr False, [])
      | (s1, Inr True) \<Rightarrow>
          (let marks = (if can_mark then [True, False] else [])
           in case do_compact X cfg cc ''auto'' [] s1 of
             (s2, Inl e) \<Rightarrow> (s2, Inl e, marks)
           | (s2, Inr r) \<Rightarrow>
               (case should_compact X cfg cc (Some threshold) extra s2 of
                  (s3, Inl e) \<Rightarrow> (s3, Inl e, marks)
                | (s3, Inr still) \<Rightarrow> (s3, if still then Inl RuntimeError else Inr True, marks))))"

definition is_overflow :: "string \<Rightarrow> bool" where
  "is_overflow code \<longleftrightarrow> list_ex (\<lambda>t. str_contains t (py_lower code)) [''overflow'', ''context_length'', ''too_long'']"

datatype error_answer = PassOn | AskRetry string int

definition on_request_error ::
  "compaction_env \<Rightarrow> llm_config \<Rightarrow> compaction_config \<Rightarrow> string \<Rightarrow> string \<Rightarrow> bool \<Rightarrow> bool \<Rightarrow> compacting \<Rightarrow>
   compacting \<times> error_answer result" where
  "on_request_error X cfg cc session code cancelled cancelled_after s =
     (if cancelled \<or> \<not> is_overflow code then (s, Inr PassOn)
      else case compact_if_needed X cfg cc (Some (Finite 0 0)) 0 ''auto'' s of
        (s', Inl Cancelled) \<Rightarrow> (s', Inl Cancelled)
      | (s', Inl e) \<Rightarrow> (s', Inr PassOn)
      | (s', Inr r) \<Rightarrow>
          (s', Inr (if \<not> cancelled_after \<and> cs_progress s < cs_progress s'
             then AskRetry (''compaction:'' @ session @ '':'' @ str_of_int (int (cs_progress s'))) 1 else PassOn)))"

datatype claim_answer = EnterClaim | RejectKeep

definition on_before_claim ::
  "compaction_env \<Rightarrow> llm_config \<Rightarrow> compaction_config \<Rightarrow> string \<Rightarrow> compacting \<Rightarrow> compacting \<times> claim_answer result" where
  "on_before_claim X cfg cc content s =
     (case should_compact X cfg cc (Some (cc_compact_threshold cc)) (max 1 (int (length (chars content) div 3))) s of
        (s1, Inl Cancelled) \<Rightarrow> (s1, Inl Cancelled)
      | (s1, Inl e) \<Rightarrow> (s1, Inr RejectKeep)
      | (s1, Inr False) \<Rightarrow> (s1, Inr EnterClaim)
      | (s1, Inr True) \<Rightarrow>
          (case do_compact X cfg cc ''auto'' [] s1 of
             (s2, Inl Cancelled) \<Rightarrow> (s2, Inl Cancelled)
           | (s2, Inl e) \<Rightarrow> (s2, Inr RejectKeep)
           | (s2, Inr r) \<Rightarrow> (s2, Inr EnterClaim)))"

section \<open>Progress means that something was written\<close>

definition is_done :: "maintenance \<Rightarrow> bool" where
  "is_done ev = (case ev of MDone d \<Rightarrow> True | _ \<Rightarrow> False)"

text \<open>The counter of the progress counts the finished compactions among the new events.\<close>

definition progress_counts :: "compacting \<Rightarrow> compacting \<Rightarrow> bool" where
  "progress_counts s s' \<longleftrightarrow> (\<exists>es. cs_events s' = cs_events s @ es \<and> cs_progress s' = cs_progress s + length (filter is_done es))"

lemma progress_refl [simp]: "progress_counts s s"
  by (simp add: progress_counts_def)

lemma progress_trans: "progress_counts a b \<Longrightarrow> progress_counts b c \<Longrightarrow> progress_counts a c"
  by (auto simp: progress_counts_def)

lemma progress_failed: "progress_counts s (emit_failed X why s)"
  by (auto simp: emit_failed_def emit_maintenance_def progress_counts_def is_done_def)

lemma progress_done:
  "emit_maintenance X (MDone d) s = (s', Inr u) \<Longrightarrow> progress_counts s (mark_progress s')"
  "emit_maintenance X ev s = (s', Inl e) \<Longrightarrow> progress_counts s s'"
  "emit_maintenance X (MStart d') s = (s', Inr u) \<Longrightarrow> progress_counts s s'"
  by (auto simp: emit_maintenance_def progress_counts_def is_done_def mark_progress_def split: if_splits)

lemma progress_load: "load_context X s = (s', r) \<Longrightarrow> progress_counts s s'"
  by (auto simp: load_context_def progress_counts_def)

lemma progress_usage: "token_usage_of X s = (s', r) \<Longrightarrow> progress_counts s s'"
  by (auto simp: token_usage_of_def progress_counts_def)

lemma progress_should: "should_compact X cfg cc t extra s = (s', r) \<Longrightarrow> progress_counts s s'"
  by (auto simp: should_compact_def Let_def split: option.splits if_splits prod.splits sum.splits dest: progress_usage)

lemma progress_trim: "trim_results X keep ms s = (s', r) \<Longrightarrow> progress_counts s s'"
  by (auto simp: trim_results_def Let_def split: if_splits prod.splits sum.splits dest: progress_done)

lemma progress_fast: "progress_counts s (fst (compress_fast X keep s))"
proof -
  obtain s1 r where l: "load_context X s = (s1, r)" by fastforce
  have "progress_counts s1 (fst (trim_results X keep ms s1))" for ms
    using progress_trim [of X keep ms s1] by (cases "trim_results X keep ms s1") auto
  then show ?thesis using progress_load [OF l] l
    by (cases r) (auto simp: compress_fast_def intro: progress_trans)
qed

lemma progress_summarize: "summarize X llm cc head chunks previous focus s = (s', r) \<Longrightarrow> progress_counts s s'"
  by (auto simp: summarize_def run_compact_llm_def progress_counts_def split: prod.splits sum.splits option.splits)

lemma progress_finish: "progress_counts (fst sr) (fst (finish_compact X trigger through before sr))"
proof (cases sr)
  case (Pair s r)
  have "progress_counts s (fst (compress_fast X 0 (emit_failed X NoSummary s)))"
    by (rule progress_trans [OF progress_failed progress_fast])
  then show ?thesis using Pair progress_failed
    by (auto simp: finish_compact_def split: sum.splits option.splits prod.splits exn.splits dest: progress_done)
qed

lemma progress_head: "compact_head X cfg cc trigger focus previous head s = (s', r) \<Longrightarrow> progress_counts s s'"
proof -
  assume a: "compact_head X cfg cc trigger focus previous head s = (s', r)"
  have f: "progress_counts s1 (fst (finish_compact X trigger through before (summarize X llm cc head chunks previous focus s1)))"
    for s1 through before llm chunks
    using progress_summarize [of X llm cc head chunks previous focus s1]
      progress_finish [of "summarize X llm cc head chunks previous focus s1" X trigger through before]
    by (cases "summarize X llm cc head chunks previous focus s1") (auto intro: progress_trans)
  show ?thesis using a
    by (auto simp: compact_head_def split: prod.splits sum.splits)
      (metis f fst_conv progress_done(2,3) progress_trans progress_usage)+
qed

lemma progress_do: "do_compact X cfg cc trigger focus s = (s', r) \<Longrightarrow> progress_counts s s'"
  by (auto simp: do_compact_def Let_def split: prod.splits sum.splits list.splits if_splits option.splits
      dest!: progress_load progress_head intro: progress_trans progress_failed)

text \<open>
  After a context overflow a request is only sent again when a compaction has really been written: the
  hook asks for a retry only for an overflow, at most one, and only with a finished compaction among the
  events it has caused.
\<close>

theorem retry_needs_written_compaction:
  assumes "on_request_error X cfg cc session code cancelled cancelled_after s = (s', Inr (AskRetry token n))"
  shows "is_overflow code \<and> \<not> cancelled \<and> \<not> cancelled_after \<and> n = 1 \<and>
    (\<exists>es d. cs_events s' = cs_events s @ es \<and> MDone d \<in> set es)"
proof -
  obtain r where c: "compact_if_needed X cfg cc (Some (Finite 0 0)) 0 ''auto'' s = (s', Inr r)"
    and less: "cs_progress s < cs_progress s'" and rest: "is_overflow code" "\<not> cancelled" "\<not> cancelled_after" "n = 1"
    using assms by (auto simp: on_request_error_def split: if_splits prod.splits sum.splits exn.splits)
  have "progress_counts s s'" using c
    by (auto simp: compact_if_needed_def split: prod.splits sum.splits bool.splits
        dest!: progress_should progress_do intro: progress_trans)
  then obtain es where es: "cs_events s' = cs_events s @ es" "cs_progress s' = cs_progress s + length (filter is_done es)"
    by (auto simp: progress_counts_def)
  then have "filter is_done es \<noteq> []" using less by auto
  then obtain ev where ev: "ev \<in> set es" "is_done ev" by (metis filter_False)
  then obtain d where "ev = MDone d" by (auto simp: is_done_def split: maintenance.splits)
  then show ?thesis using rest es(1) ev(1) by blast
qed

section \<open>After a compaction\<close>




section \<open>Where the code differs from its documents\<close>

text \<open>A compaction that fails without a raise, for instance because the model answers nothing, lets the message in.\<close>

lemma failed_compaction_enters:
  "should_compact X cfg cc (Some (cc_compact_threshold cc)) (max 1 (int (length (chars content) div 3))) s = (s1, Inr True) \<Longrightarrow>
   do_compact X cfg cc ''auto'' [] s1 = (s2, Inr None) \<Longrightarrow> on_before_claim X cfg cc content s = (s2, Inr EnterClaim)"
  by (simp add: on_before_claim_def)

text \<open>
  A message stored while a summary is written comes before the summary \<open>c1\<close>. The next summary \<open>c2\<close>, which
  covers that message, then does not remove the first one: the older summary follows the newer one.
\<close>

lemma stale_summary_returns:
  assumes "distinct (map msg_id (pre @ t # [c1] @ c2 # post))" and "is_anchor c2" and "list_all (\<lambda>m. \<not> is_anchor m) post"
    and "str_or_empty L (dict_get (compact_metadata c2) ''through_message_id'') = msg_id t"
  shows "map msg_id (build_context_view L gen now (pre @ t # [c1] @ c2 # post)) = msg_id c2 # msg_id c1 # map msg_id post"
  using view_after_summary [OF assms, of gen now] by auto

section \<open>Samples\<close>

lemma summary_size_total: "\<exists>n. summary_size B t = Inr n"
  by (cases "t = []") (simp_all add: summary_size_def estimate_messages_tokens_def to_openai_def stored_messages_def
    base_msg_def regular_message_def to_openai_message_def is_part_def is_data_block_def to_openai_part_def calls_of_def
    List.map_filter_simps has_body_def truthy_key_def role_string_def sum_r_def estimate_message_def field_tokens_def
    part_tokens_def text_part_def is_obj_def jget_def list_of_def)

lemma parsed_sections_merge:
  assumes "parse_chunk_sections raw = Some p"
  shows "\<exists>s. merge_chunk_summaries [p] users = Some s"
proof -
  let ?f = "\<lambda>s. case node_text s (strip (drop_analysis 0 (strip (drop_fences 0 raw)))) of None \<Rightarrow> [] | Some x \<Rightarrow> strip x"
  have p: "p = map (\<lambda>s. (s, ?f s)) LLM_SECTION_ORDER" and "\<not> list_all (\<lambda>kv. snd kv = []) p"
    using assms by (auto simp: parse_chunk_sections_def Let_def split: if_splits)
  then obtain s where s: "s \<in> set LLM_SECTION_ORDER" "?f s \<noteq> []" by (auto simp: list_all_iff)
  have "section_of p s = strip (?f s)" using s(1) by (simp add: section_of_def p map_of_map_restrict)
  moreover have "strip (?f s) = ?f s" by (simp split: option.splits add: strip_samples(1))
  ultimately have "section_of p s \<noteq> []" using s(2) by (simp only: not_False_eq_True)
  moreover have "s \<in> set SECTION_ORDER" using s(1) by (auto simp: LLM_SECTION_ORDER_def)
  ultimately have "\<exists>s \<in> set SECTION_ORDER. section_of p s \<noteq> []" by (rule bexI)
  then show ?thesis by (auto simp: merge_chunk_summaries_def list_ex_iff)
qed

definition sample_wording :: prompt_wording where
  "sample_wording = \<lparr>pw_system = ''s'', pw_min_1 = ''a'', pw_min_2 = ''b'', pw_update = ''u'', pw_create = ''c'', pw_focus = ''f'',
     pw_chunk_1 = ''d'', pw_chunk_2 = ''e''\<rparr>"

definition sample_compaction :: "int \<Rightarrow> compaction_env" where
  "sample_compaction used = \<lparr>ce_lib = sample_provider, ce_gen = ''g'', ce_now = ''t'', ce_history = (\<lambda>k. Inr ([] @ [sample_user_message])),
     ce_usage = (\<lambda>k. Inr used), ce_has_llm = True, ce_answer = (\<lambda>k i a p. AnswerText ''<next_step>x</next_step>''),
     ce_sink_fails = (\<lambda>k. False), ce_wording = sample_wording\<rparr>"

definition sample_llm :: llm_config where
  "sample_llm = empty_llm_config\<lparr>lc_provider := ''p'', lc_model := ''m'', lc_context_window := Some 1000\<rparr>"

definition idle_compacting :: compacting where
  "idle_compacting = \<lparr>cs_events = [], cs_progress = 0, cs_loads = 0, cs_usages = 0, cs_runs = 0, cs_emits = 0\<rparr>"

lemma sample_clean: "strip (drop_analysis 0 (strip (drop_fences 0 ''<next_step>x</next_step>''))) = ''<next_step>x</next_step>''"
  by code_simp
lemma sample_node: "node_text ''next_step'' ''<next_step>x</next_step>'' = Some ''x''"
  by code_simp
lemma sample_parsed: "parse_chunk_sections ''<next_step>x</next_step>'' \<noteq> None"
  by (simp only: parse_chunk_sections_def sample_clean Let_def)
    (simp add: LLM_SECTION_ORDER_def SECTION_ORDER_def sample_node strip_samples)

lemma sample_serialized: "serialize_messages sample_provider [sample_user_message] = Inr ''[User]: hi''"
  by (simp add: serialize_messages_def to_openai_def stored_messages_def sample_user_message_def base_msg_def regular_message_def
    to_openai_message_def is_part_def is_data_block_def to_openai_part_def calls_of_def List.map_filter_simps has_body_def
    truthy_key_def role_string_def text_part_def serialize_one_def line_if_def content_text_def is_obj_def jget_def py_str_def)

lemma sample_estimate: "\<exists>n. estimate_messages_tokens sample_provider [sample_user_message] = Inr n"
  by (simp add: estimate_messages_tokens_def to_openai_def stored_messages_def sample_user_message_def base_msg_def
      regular_message_def to_openai_message_def is_part_def is_data_block_def to_openai_part_def calls_of_def
      List.map_filter_simps has_body_def truthy_key_def role_string_def sum_r_def estimate_message_def field_tokens_def
      part_tokens_def text_part_def is_obj_def jget_def list_of_def)

lemma sample_view: "build_context_view L gen now [sample_user_message] = [sample_user_message]"
  by (simp add: build_context_view_def last_index_of_def is_anchor_def sample_user_message_def base_msg_def trim_message_def trim_block_def)

lemma sample_summarized:
  "\<exists>used s' text d. do_compact (sample_compaction used) sample_llm default_compaction_config ''auto'' [] idle_compacting = (s', Inr (Some text)) \<and>
     last (cs_events s') = MDone d \<and> cs_progress s' = 1"
proof -
  obtain p where p: "parse_chunk_sections ''<next_step>x</next_step>'' = Some p" using sample_parsed by blast
  obtain st where t: "merge_chunk_summaries [p] (build_user_messages_section [sample_user_message] None) = Some st"
    using parsed_sections_merge [OF p] by blast
  obtain n where n: "summary_size sample_provider st = Inr n" using summary_size_total by blast
  obtain k where k: "estimate_messages_tokens sample_provider [sample_user_message] = Inr k" using sample_estimate by blast
  let ?X = "sample_compaction (int n + 1)"
  have kept: "strip ''[User]: hi'' \<noteq> []" "strip ''p'' \<noteq> []"
    by (simp_all add: strip_fixed head_blank_def last_blank_def blank_head_def Let_def)
  have chunk: "run_chunk ?X sample_llm default_compaction_config None [] 0 (0, [sample_user_message]) = ChunkSections p"
    using kept p by (simp add: run_chunk_def sample_compaction_def sample_serialized default_compaction_config_def answer_of_def sample_llm_def)
  have one: "chunk_messages_by_tokens sample_provider [sample_user_message] j = Inr [[sample_user_message]]" for j
    using k by (simp add: chunk_messages_by_tokens_def chunk_by_def chunk_step_def)
  have name: "msg_name sample_user_message = DEFAULT" by (simp add: sample_user_message_def)
  show ?thesis
    by (rule exI [of _ "int n + 1"])
      (use chunk t n in \<open>simp add: do_compact_def load_context_def idle_compacting_def sample_view without_summary_def name
        sample_compaction_def [of "int n + 1"] compact_head_def token_usage_of_def one emit_maintenance_def summarize_def run_compact_llm_def
        finish_compact_def mark_progress_def sample_llm_def empty_llm_config_def select_compact_llm_def default_compaction_config_def\<close>)
qed


lemma sample_retry:
  "\<exists>used s' token. on_request_error (sample_compaction used) sample_llm default_compaction_config ''s'' ''context_length'' False False
      idle_compacting = (s', Inr (AskRetry token 1))"
proof -
  obtain used s' st where run: "do_compact (sample_compaction used) sample_llm default_compaction_config ''auto'' [] idle_compacting = (s', Inr (Some st))"
    and one: "cs_progress s' = 1" using sample_summarized by blast
  have over: "is_overflow ''context_length''" by code_simp
  have needed: "compact_if_needed (sample_compaction used) sample_llm default_compaction_config (Some (Finite 0 0)) 0 ''auto'' idle_compacting = (s', Inr True)"
    using run one by (simp add: compact_if_needed_def should_compact_def prompt_budget_def sample_llm_def empty_llm_config_def
      default_compaction_config_def idle_compacting_def)
  show ?thesis by (rule exI [of _ used], rule exI [of _ s'])
      (simp add: on_request_error_def over needed one, simp add: idle_compacting_def)
qed



lemma retry_needs_written_compaction_witness:
  "\<exists>used s' es d token. on_request_error (sample_compaction used) sample_llm default_compaction_config ''s'' ''context_length'' False False
      idle_compacting = (s', Inr (AskRetry token 1)) \<and> cs_events s' = es \<and> MDone d \<in> set es"
proof -
  obtain used s' token where run: "on_request_error (sample_compaction used) sample_llm default_compaction_config ''s'' ''context_length'' False False
      idle_compacting = (s', Inr (AskRetry token 1))" using sample_retry by blast
  from retry_needs_written_compaction [OF run] run show ?thesis by (auto simp: idle_compacting_def)
qed

end
