(* ===== verification/AgentRegistry.thy ===== *)
theory AgentRegistry
  imports Prelude
begin

text \<open>
  Identities of agents and the scopes of hooks
  (\<open>packages/ftre-agent/src/ftre_agent/registry.py\<close> and \<open>src/ftre/kernel/hooks/scope.py\<close>).

  An identity is a fresh object of Python, here a number that is never given out twice. A context
  is what a listener was registered in: the identity it is isolated by, per key.
\<close>

section \<open>Scope carriers\<close>

datatype scope_carrier = Carrier (sc_key: string) (sc_identity: nat) (sc_parent: "scope_carrier option")

fun parent_loop :: "nat list \<Rightarrow> scope_carrier option \<Rightarrow> unit result" where
  "parent_loop seen None = Inr ()"
| "parent_loop seen (Some (Carrier key i parent)) =
     (if i \<in> set seen then Inl ValueError else parent_loop (seen @ [i]) parent)"

definition make_carrier :: "string \<Rightarrow> nat \<Rightarrow> scope_carrier option \<Rightarrow> scope_carrier result" where
  "make_carrier key identity parent =
     (if py_strip key = [] then Inl ValueError
      else bind_r (parent_loop [identity] parent) (\<lambda>u. Inr (Carrier key identity parent)))"

fun identities :: "scope_carrier \<Rightarrow> nat list" where
  "identities (Carrier key i parent) = i # (case parent of None \<Rightarrow> [] | Some c \<Rightarrow> identities c)"

type_synonym hook_ctx = "(string, nat) dict"

definition scoped_isolate :: "hook_ctx \<Rightarrow> scope_carrier \<Rightarrow> hook_ctx" where
  "scoped_isolate base c = dict_set (sc_key c) (sc_identity c) base"

text \<open>The filter a dispatch in the scope of \<open>c\<close> puts on the context of each listener.\<close>

definition event_filter :: "scope_carrier \<Rightarrow> hook_ctx \<Rightarrow> bool" where
  "event_filter c listener = list_ex (\<lambda>i. dict_get listener (sc_key c) = Some i) (identities c)"

lemma parent_loop_iff:
  "parent_loop seen p = Inr () \<longleftrightarrow>
     (case p of None \<Rightarrow> True | Some c \<Rightarrow> distinct (identities c) \<and> set seen \<inter> set (identities c) = {})"
proof (induction seen p rule: parent_loop.induct)
  case (2 seen key i parent)
  then show ?case by (auto split: option.splits)
qed simp

text \<open>A carrier that can be built names each lifetime once.\<close>

lemma carrier_identities_distinct: "make_carrier key i p = Inr c \<Longrightarrow> distinct (identities c)"
  by (auto simp: make_carrier_def bind_r_Inr_iff parent_loop_iff split: if_splits option.splits)

section \<open>The registry\<close>

record agent_record =
  ag_identity :: nat
  ag_state :: string

text \<open>\<open>rg_fresh\<close> counts the identities that were created.\<close>

record agent_registry =
  rg_records :: "(string, agent_record) dict"
  rg_fresh :: nat

definition new_registry :: agent_registry where
  "new_registry = \<lparr>rg_records = [], rg_fresh = 0\<rparr>"

definition register_agent :: "string \<Rightarrow> string \<Rightarrow> agent_registry \<Rightarrow> agent_registry \<times> agent_record result" where
  "register_agent agent state g =
     (if py_strip agent = [] then (g, Inl ValueError)
      else case dict_get (rg_records g) agent of
        None \<Rightarrow> (let r = \<lparr>ag_identity = rg_fresh g, ag_state = state\<rparr>
          in (\<lparr>rg_records = dict_set agent r (rg_records g), rg_fresh = Suc (rg_fresh g)\<rparr>, Inr r))
      | Some r \<Rightarrow> (let r' = r\<lparr>ag_state := state\<rparr> in (g\<lparr>rg_records := dict_set agent r' (rg_records g)\<rparr>, Inr r')))"

definition ensure_record :: "string \<Rightarrow> string \<Rightarrow> agent_registry \<Rightarrow> agent_registry \<times> agent_record result" where
  "ensure_record agent state g =
     (case dict_get (rg_records g) agent of Some r \<Rightarrow> (g, Inr r) | None \<Rightarrow> register_agent agent state g)"

definition set_agent_state :: "string \<Rightarrow> string \<Rightarrow> agent_registry \<Rightarrow> agent_registry \<times> unit result" where
  "set_agent_state agent state g =
     (case dict_get (rg_records g) agent of
        None \<Rightarrow> (g, Inl KeyError)
      | Some r \<Rightarrow> (g\<lparr>rg_records := dict_set agent (r\<lparr>ag_state := state\<rparr>) (rg_records g)\<rparr>, Inr ()))"

definition dispose_agent :: "string \<Rightarrow> agent_registry \<Rightarrow> agent_registry \<times> bool" where
  "dispose_agent agent g =
     (g\<lparr>rg_records := dict_pop agent (rg_records g)\<rparr>, dict_get (rg_records g) agent \<noteq> None)"

definition list_agents :: "agent_registry \<Rightarrow> (string \<times> string) list" where
  "list_agents g = map (\<lambda>(a, r). (a, ag_state r)) (rg_records g)"

definition tool_scope :: "string \<Rightarrow> agent_registry \<Rightarrow> string result" where
  "tool_scope agent g = (if dict_get (rg_records g) agent = None then Inl KeyError else Inr (''agent:'' @ agent))"

definition scope_identity :: "string \<Rightarrow> agent_registry \<Rightarrow> nat result" where
  "scope_identity agent g = (case dict_get (rg_records g) agent of None \<Rightarrow> Inl KeyError | Some r \<Rightarrow> Inr (ag_identity r))"

definition scope_carrier_of :: "string \<Rightarrow> string option \<Rightarrow> agent_registry \<Rightarrow> scope_carrier result" where
  "scope_carrier_of agent parent g =
     bind_r (case parent of
         None \<Rightarrow> Inr None
       | Some p \<Rightarrow> bind_r (scope_identity p g) (\<lambda>i. bind_r (make_carrier ''agent'' i None) (\<lambda>c. Inr (Some c))))
       (\<lambda>c. bind_r (scope_identity agent g) (\<lambda>i. make_carrier ''agent'' i c))"

lemma scope_identity_iff: "scope_identity a g = Inr i \<longleftrightarrow> (\<exists>r. dict_get (rg_records g) a = Some r \<and> ag_identity r = i)"
  by (auto simp: scope_identity_def split: option.splits)

section \<open>Reachable registries\<close>

inductive registry_step :: "agent_registry \<Rightarrow> agent_registry \<Rightarrow> bool" where
  registers: "registry_step g (fst (register_agent a st g))"
| ensures: "registry_step g (fst (ensure_record a st g))"
| sets: "registry_step g (fst (set_agent_state a st g))"
| disposes: "registry_step g (fst (dispose_agent a g))"

definition registry_ok :: "agent_registry \<Rightarrow> bool" where
  "registry_ok g \<longleftrightarrow> dict_wf (rg_records g) \<and> distinct (map (ag_identity \<circ> snd) (rg_records g)) \<and>
     (\<forall>r \<in> snd ` set (rg_records g). ag_identity r < rg_fresh g)"

lemma update_identities:
  assumes "dict_wf d" and "dict_get d k = Some r" and "f r' = f r"
  shows "map (f \<circ> snd) (dict_set k r' d) = map (f \<circ> snd) d"
  using assms by (induction d) (auto split: if_splits)

lemma registry_ok_update:
  assumes "registry_ok g" and "dict_get (rg_records g) a = Some r" and "ag_identity r' = ag_identity r"
  shows "registry_ok (g\<lparr>rg_records := dict_set a r' (rg_records g)\<rparr>)"
proof -
  have "map (ag_identity \<circ> snd) (dict_set a r' (rg_records g)) = map (ag_identity \<circ> snd) (rg_records g)"
    using assms by (intro update_identities) (simp_all add: registry_ok_def)
  moreover have "ag_identity r < rg_fresh g" using assms(1) map_of_SomeD [OF assms(2)] by (force simp: registry_ok_def)
  ultimately show ?thesis using assms(1,3) by (auto simp: registry_ok_def dest!: mem_dict_set)
qed

lemma registry_ok_register: "registry_ok g \<Longrightarrow> registry_ok (fst (register_agent a st g))"
proof (cases "dict_get (rg_records g) a")
  case None
  assume ok: "registry_ok g"
  have "a \<notin> fst ` set (rg_records g)" using None by (simp add: map_of_eq_None_iff)
  then show ?thesis using ok None
    by (auto simp: register_agent_def registry_ok_def dict_set_new Let_def)
next
  case (Some r)
  assume ok: "registry_ok g"
  show ?thesis using registry_ok_update [OF ok Some, of "r\<lparr>ag_state := st\<rparr>"] ok Some
    by (simp add: register_agent_def Let_def)
qed

lemma registry_ok_dispose: "registry_ok g \<Longrightarrow> registry_ok (fst (dispose_agent a g))"
proof -
  assume ok: "registry_ok g"
  then show ?thesis
    by (auto simp: dispose_agent_def registry_ok_def dict_pop_filter intro: distinct_map_filter)
qed

lemma registry_ok_set: "registry_ok g \<Longrightarrow> registry_ok (fst (set_agent_state a st g))"
  using registry_ok_update by (auto simp: set_agent_state_def split: option.splits)

lemma registry_step_ok: "registry_step g g' \<Longrightarrow> registry_ok g \<Longrightarrow> registry_ok g'"
  by (induction rule: registry_step.induct)
    (auto simp: ensure_record_def registry_ok_register registry_ok_dispose registry_ok_set split: option.splits)

lemma registry_step_fresh: "registry_step g g' \<Longrightarrow> rg_fresh g \<le> rg_fresh g'"
  by (induction rule: registry_step.induct)
    (auto simp: register_agent_def ensure_record_def set_agent_state_def dispose_agent_def Let_def split: option.splits)

text \<open>A lifetime that has ended never comes back: its identity stays gone.\<close>

definition gone :: "nat \<Rightarrow> agent_registry \<Rightarrow> bool" where
  "gone i g \<longleftrightarrow> i < rg_fresh g \<and> i \<notin> (ag_identity \<circ> snd) ` set (rg_records g)"

lemma gone_update:
  "gone i g \<Longrightarrow> dict_get (rg_records g) a = Some r \<Longrightarrow> ag_identity r' = ag_identity r \<Longrightarrow>
   gone i (g\<lparr>rg_records := dict_set a r' (rg_records g)\<rparr>)"
  using map_of_SomeD [of "rg_records g" a r] by (auto simp: gone_def image_iff dest!: mem_dict_set)

lemma gone_register: "gone i g \<Longrightarrow> gone i (fst (register_agent a st g))"
proof (cases "dict_get (rg_records g) a")
  case None
  assume "gone i g"
  then have "gone i \<lparr>rg_records = dict_set a r (rg_records g), rg_fresh = Suc (rg_fresh g)\<rparr>" if "ag_identity r = rg_fresh g" for r
    using that by (auto simp: gone_def image_iff dest!: mem_dict_set)
  then show ?thesis using \<open>gone i g\<close> None by (auto simp: register_agent_def Let_def)
next
  case (Some r)
  assume "gone i g"
  then show ?thesis using Some gone_update [OF _ Some] by (auto simp: register_agent_def Let_def)
qed

lemma gone_step: "registry_step g g' \<Longrightarrow> gone i g \<Longrightarrow> gone i g'"
proof (induction rule: registry_step.induct)
  case (disposes g a)
  then show ?case by (auto simp: dispose_agent_def gone_def dict_pop_filter)
qed (auto simp: ensure_record_def set_agent_state_def gone_register gone_update split: option.splits)

lemma gone_steps: "registry_step\<^sup>*\<^sup>* g g' \<Longrightarrow> gone i g \<Longrightarrow> gone i g'"
  by (induction rule: rtranclp_induct) (auto intro: gone_step)

lemma steps_ok: "registry_step\<^sup>*\<^sup>* g g' \<Longrightarrow> registry_ok g \<Longrightarrow> registry_ok g'"
  by (induction rule: rtranclp_induct) (auto intro: registry_step_ok)

lemma carrier_of_identities:
  "scope_carrier_of b p g = Inr c \<Longrightarrow> sc_key c = ''agent'' \<and>
     set (identities c) \<subseteq> (ag_identity \<circ> snd) ` set (rg_records g)"
  by (auto simp: scope_carrier_of_def scope_identity_def make_carrier_def bind_r_Inr_iff split: option.splits if_splits
      dest!: map_of_SomeD) force+

text \<open>
  A listener that was registered in the scope of an agent is never called for a later life of that
  agent, nor for any other agent: once the agent is disposed, whatever is registered
  afterwards, under the same name or another, no dispatch in an agent scope passes the filter of its context.
\<close>

theorem disposed_scope_stays_silent:
  assumes "registry_ok g" and "scope_identity a g = Inr i"
    and "registry_step\<^sup>*\<^sup>* (fst (dispose_agent a g)) g'" and "scope_carrier_of b p g' = Inr c"
    and "make_carrier ''agent'' i up = Inr mine"
  shows "\<not> event_filter c (scoped_isolate base mine)"
proof -
  obtain r where r: "dict_get (rg_records g) a = Some r" "ag_identity r = i"
    using assms(2) by (auto simp: scope_identity_def split: option.splits)
  have "gone i (fst (dispose_agent a g))"
  proof -
    have mem: "(a, r) \<in> set (rg_records g)" using r(1) by (rule map_of_SomeD)
    have "ag_identity (snd kv) \<noteq> i" if "kv \<in> set (rg_records g)" "fst kv \<noteq> a" for kv
    proof
      assume "ag_identity (snd kv) = i"
      then have "kv = (a, r)" using assms(1) mem that(1) r(2)
        by (auto simp: registry_ok_def distinct_map inj_on_def)
      then show False using that(2) by simp
    qed
    then have "i \<notin> (ag_identity \<circ> snd) ` set (filter (\<lambda>kv. fst kv \<noteq> a) (rg_records g))" by fastforce
    then show ?thesis using assms(1) mem r(2)
      by (auto simp: gone_def dispose_agent_def registry_ok_def dict_pop_filter)
  qed
  then have "gone i g'" using gone_steps assms(3) by blast
  then have "i \<notin> set (identities c)" using carrier_of_identities [OF assms(4)] by (auto simp: gone_def)
  moreover have "sc_identity mine = i" "sc_key mine = ''agent''"
    using assms(5) by (auto simp: make_carrier_def bind_r_Inr_iff split: if_splits)
  ultimately show ?thesis using carrier_of_identities [OF assms(4)]
    by (auto simp: event_filter_def scoped_isolate_def list_ex_iff)
qed

lemma disposed_scope_stays_silent_witness:
  "\<not> event_filter (Carrier ''agent'' 1 None) (scoped_isolate [] (Carrier ''agent'' 0 None))"
proof -
  let ?g = "fst (register_agent ''a'' ''ready'' new_registry)"
  let ?g' = "fst (register_agent ''a'' ''ready'' (fst (dispose_agent ''a'' ?g)))"
  have strip: "py_strip ''a'' \<noteq> []" "py_strip ''agent'' \<noteq> []" by code_simp+
  have "registry_ok ?g" by (rule registry_ok_register) (simp add: registry_ok_def new_registry_def)
  moreover have "scope_identity ''a'' ?g = Inr 0"
    using strip by (simp add: scope_identity_def register_agent_def new_registry_def Let_def)
  moreover have "registry_step\<^sup>*\<^sup>* (fst (dispose_agent ''a'' ?g)) ?g'"
    by (rule r_into_rtranclp) (rule registry_step.registers)
  moreover have "scope_carrier_of ''a'' None ?g' = Inr (Carrier ''agent'' 1 None)"
    using strip by (simp add: scope_carrier_of_def scope_identity_def register_agent_def dispose_agent_def new_registry_def
        make_carrier_def Let_def)
  moreover have "make_carrier ''agent'' 0 None = Inr (Carrier ''agent'' 0 None)" using strip by (simp add: make_carrier_def)
  ultimately show ?thesis by (rule disposed_scope_stays_silent)
qed

text \<open>Listeners of a parent hear the dispatches of its child, not those of its siblings.\<close>

lemma scope_is_heard_iff:
  assumes "registry_ok g" and "scope_identity a g = Inr i" and "scope_identity b g = Inr j"
    and "scope_carrier_of b p g = Inr c" and "sc_key mine = ''agent''" and "sc_identity mine = i"
  shows "event_filter c (scoped_isolate base mine) \<longleftrightarrow> a = b \<or> p = Some a"
proof -
  have same: "x = y" if h: "scope_identity x g = Inr k" "scope_identity y g = Inr k" for x y k
  proof -
    obtain r r' where rr: "(x, r) \<in> set (rg_records g)" "(y, r') \<in> set (rg_records g)" "ag_identity r = ag_identity r'"
      using h by (auto simp: scope_identity_iff dest!: map_of_SomeD)
    have "inj_on (ag_identity \<circ> snd) (set (rg_records g))" using assms(1) by (simp add: registry_ok_def distinct_map)
    then have "(x, r) = (y, r')" by (rule inj_onD) (use rr in simp_all)
    then show ?thesis by simp
  qed
  have "set (identities c) = (case p of None \<Rightarrow> {j} | Some q \<Rightarrow> {j, (case scope_identity q g of Inr k \<Rightarrow> k)})"
    and pk: "p = Some q \<Longrightarrow> \<exists>k. scope_identity q g = Inr k" "sc_key c = ''agent''" for q
    using assms(3,4) by (auto simp: scope_carrier_of_def make_carrier_def bind_r_Inr_iff split: option.splits if_splits)
  then show ?thesis using assms(2,3,5,6) same
    by (cases p) (auto simp: event_filter_def scoped_isolate_def list_ex_iff)
qed

end
