(* ===== verification/AgentService.thy ===== *)
theory AgentService
  imports AgentRegistry Message
begin

text \<open>
  The service through which hosts reach agents (\<open>packages/ftre-agent/src/ftre_agent/service.py\<close>): creation,
  one run at a time per agent, answers kept by request, reservations for the inbox.

  An entry is an object that a running task keeps hold of after its agent is gone, so entries are
  addresses into \<open>as_heap\<close>. An operation that awaits is split where it does: \<open>_start\<close> is what
  happens up to the first \<open>await\<close>, \<open>_finish\<close> what happens when the awaited call is back. Observers
  only see views. The runtime is a parameter: whether a session is active, and how a run ends.
\<close>

section \<open>State\<close>

datatype agent_exn =
    ServiceClosed | FactoryAlreadyRegistered | FactoryNotRegistered | InvalidFactory | FactoryMismatch
  | AgentNotFound | AgentAlreadyExists | AgentIsBusy | InvalidRunRequest | Raises exn

type_synonym 'a agent_answer = "agent_exn + 'a"

record agent_spec =
  sp_agent :: string
  sp_session :: "string option"

record agent_entry =
  en_session :: "string option"
  en_state :: string
  en_run_id :: "string option"

record run_request =
  rq_session :: string
  rq_id :: string
  rq_messages :: "msg list"
  rq_agent :: "string option"
  rq_channel :: string
  rq_source :: string
  rq_metadata :: jdict

record agent_result =
  ar_session :: string
  ar_turn :: string
  ar_status :: string
  ar_run_id :: string
  ar_error :: "string option"
  ar_paused :: bool

record reservation =
  rv_id :: string
  rv_agent :: string
  rv_session :: string
  rv_request :: string
  rv_expires :: int

type_synonym run_key = "string \<times> string"

record agent_service =
  as_factory :: "nat option"
  as_control :: bool
  as_closed :: bool
  as_tokens :: nat
  as_registry :: agent_registry
  as_entries :: "(string, nat) dict"
  as_heap :: "agent_entry list"
  as_reservations :: "(string, reservation) dict"
  as_completed :: "(run_key, agent_result) dict"
  as_fingerprints :: "(run_key, string) dict"
  as_inflight :: "string list"

definition fresh_service :: agent_service where
  "fresh_service = \<lparr>as_factory = None, as_control = False, as_closed = False, as_tokens = 0, as_registry = new_registry,
     as_entries = [], as_heap = [], as_reservations = [], as_completed = [], as_fingerprints = [], as_inflight = []\<rparr>"

definition set_inflight :: "string \<Rightarrow> agent_service \<Rightarrow> agent_service" where
  "set_inflight a s = s\<lparr>as_inflight := (if a \<in> set (as_inflight s) then as_inflight s else as_inflight s @ [a])\<rparr>"

definition drop_inflight :: "string \<Rightarrow> agent_service \<Rightarrow> agent_service" where
  "drop_inflight a s = s\<lparr>as_inflight := filter (\<lambda>b. b \<noteq> a) (as_inflight s)\<rparr>"

definition clear_service :: "agent_service \<Rightarrow> agent_service" where
  "clear_service s = s\<lparr>as_factory := None, as_control := False, as_entries := [], as_reservations := [], as_completed := [],
     as_fingerprints := [], as_inflight := [],
     as_registry := fold (\<lambda>a g. fst (dispose_agent a g)) (map fst (list_agents (as_registry s))) (as_registry s)\<rparr>"

section \<open>The factory\<close>

definition start_service :: "agent_service \<Rightarrow> agent_service" where
  "start_service s = s\<lparr>as_closed := False\<rparr>"

definition close_agents :: "agent_service \<Rightarrow> agent_service" where
  "close_agents s = clear_service (s\<lparr>as_closed := True\<rparr>)"

text \<open>\<open>missing\<close> are the operations the control port of the factory does not have.\<close>

definition register_factory :: "string list \<Rightarrow> agent_service \<Rightarrow> agent_service \<times> nat agent_answer" where
  "register_factory missing s =
     (if as_closed s then (s, Inl ServiceClosed)
      else if as_factory s \<noteq> None then (s, Inl FactoryAlreadyRegistered)
      else if missing \<noteq> [] then (s, Inl InvalidFactory)
      else (s\<lparr>as_factory := Some (as_tokens s), as_control := True, as_tokens := Suc (as_tokens s),
          as_registry := (if dict_get (rg_records (as_registry s)) ''default'' = None
            then fst (register_agent ''default'' ''ready'' (as_registry s)) else as_registry s)\<rparr>, Inr (as_tokens s)))"

definition unregister_factory :: "nat \<Rightarrow> agent_service \<Rightarrow> agent_service \<times> bool agent_answer" where
  "unregister_factory token s =
     (case as_factory s of
        None \<Rightarrow> (s, Inr False)
      | Some t \<Rightarrow> if t \<noteq> token then (s, Inl FactoryMismatch) else (clear_service s, Inr True))"

definition factory_or_raise :: "agent_service \<Rightarrow> unit agent_answer" where
  "factory_or_raise s =
     (if as_closed s then Inl ServiceClosed else if as_factory s = None then Inl FactoryNotRegistered else Inr ())"

definition control_or_raise :: "agent_service \<Rightarrow> unit agent_answer" where
  "control_or_raise s =
     (case factory_or_raise s of Inl e \<Rightarrow> Inl e | Inr u \<Rightarrow> if as_control s then Inr () else Inl InvalidFactory)"

section \<open>Creation\<close>

text \<open>\<open>create\<close> and \<open>resume\<close> up to the call of the factory, and after it.\<close>

definition create_start :: "bool \<Rightarrow> agent_spec \<Rightarrow> agent_service \<Rightarrow> unit agent_answer" where
  "create_start can_create sp s =
     (case factory_or_raise s of
        Inl e \<Rightarrow> Inl e
      | Inr u \<Rightarrow>
          if py_strip (sp_agent sp) = [] then Inl InvalidRunRequest
          else if dict_get (as_entries s) (sp_agent sp) \<noteq> None then Inl AgentAlreadyExists
          else if \<not> can_create then Inl InvalidFactory else Inr ())"

definition create_finish :: "agent_spec \<Rightarrow> agent_service \<Rightarrow> agent_service" where
  "create_finish sp s = s\<lparr>as_registry := fst (register_agent (sp_agent sp) ''idle'' (as_registry s)),
     as_heap := as_heap s @ [\<lparr>en_session = sp_session sp, en_state = ''idle'', en_run_id = None\<rparr>],
     as_entries := dict_set (sp_agent sp) (length (as_heap s)) (as_entries s)\<rparr>"

text \<open>\<open>entry.spec.session_id or agent_id\<close>.\<close>

definition session_of :: "string \<Rightarrow> agent_entry \<Rightarrow> string" where
  "session_of agent en = (case none_if_empty (en_session en) of None \<Rightarrow> agent | Some x \<Rightarrow> x)"

definition upd_entry :: "nat \<Rightarrow> (agent_entry \<Rightarrow> agent_entry) \<Rightarrow> agent_service \<Rightarrow> agent_service" where
  "upd_entry p f s = s\<lparr>as_heap := (as_heap s)[p := f (as_heap s ! p)]\<rparr>"

section \<open>Status\<close>

definition agent_status :: "(string \<Rightarrow> string) \<Rightarrow> string \<Rightarrow> agent_service \<Rightarrow> string" where
  "agent_status control x s =
     (case dict_get (as_entries s) x of
        None \<Rightarrow> if as_control s then control x else ''idle''
      | Some p \<Rightarrow> if en_state (as_heap s ! p) = ''paused'' then ''paused''
          else if as_control s then control (session_of x (as_heap s ! p)) else ''idle'')"

record agent_view =
  av_agent :: string
  av_state :: string
  av_session :: "string option"
  av_run_id :: "string option"

definition view_of :: "(string \<Rightarrow> string) \<Rightarrow> string \<Rightarrow> agent_service \<Rightarrow> agent_view agent_answer" where
  "view_of control agent s =
     (case dict_get (as_entries s) agent of
        None \<Rightarrow> Inl AgentNotFound
      | Some p \<Rightarrow> Inr \<lparr>av_agent = agent, av_state = agent_status control agent s,
          av_session = en_session (as_heap s ! p), av_run_id = en_run_id (as_heap s ! p)\<rparr>)"

definition list_views :: "(string \<Rightarrow> string) \<Rightarrow> agent_service \<Rightarrow> agent_view agent_answer list" where
  "list_views control s = map (\<lambda>a. view_of control a s) (map fst (as_entries s))"

section \<open>Reservations\<close>

definition expire_reservations :: "int \<Rightarrow> agent_service \<Rightarrow> agent_service" where
  "expire_reservations now s = s\<lparr>as_reservations := filter (\<lambda>kv. \<not> rv_expires (snd kv) \<le> now) (as_reservations s)\<rparr>"

definition consume_reservation :: "string \<Rightarrow> string \<Rightarrow> string \<Rightarrow> agent_service \<Rightarrow> agent_service" where
  "consume_reservation agent session request s = s\<lparr>as_reservations :=
     remove_first (\<lambda>kv. rv_agent (snd kv) = agent \<and> rv_session (snd kv) = session \<and> rv_request (snd kv) = request) (as_reservations s)\<rparr>"

text \<open>\<open>lease\<close> is the lease with its lower bound, in the unit of \<open>now\<close>; \<open>i\<close> is the generated id.\<close>

definition try_reserve ::
  "int \<Rightarrow> int \<Rightarrow> string \<Rightarrow> (string \<Rightarrow> bool) \<Rightarrow> string \<Rightarrow> string \<Rightarrow> string \<Rightarrow> agent_service \<Rightarrow>
   agent_service \<times> reservation option agent_answer" where
  "try_reserve now lease i active agent session request s =
     (case factory_or_raise s of
        Inl e \<Rightarrow> (s, Inl e)
      | Inr u \<Rightarrow>
          if py_strip agent = [] \<or> session = [] \<or> request = [] then (s, Inl InvalidRunRequest)
          else if dict_get (as_entries s) agent = None then (s, Inl AgentNotFound)
          else (let s1 = expire_reservations now s in
            if agent \<in> set (as_inflight s1) then (s1, Inr None)
            else case control_or_raise s1 of
              Inl e \<Rightarrow> (s1, Inl e)
            | Inr v \<Rightarrow>
                if active session then (s1, Inr None)
                else if list_ex (\<lambda>kv. rv_agent (snd kv) = agent) (as_reservations s1) then (s1, Inr None)
                else (let r = \<lparr>rv_id = i, rv_agent = agent, rv_session = session, rv_request = request, rv_expires = now + lease\<rparr>
                  in (s1\<lparr>as_reservations := dict_set i r (as_reservations s1)\<rparr>, Inr (Some r)))))"

definition release_reservation :: "string \<Rightarrow> agent_service \<Rightarrow> agent_service \<times> bool" where
  "release_reservation i s = (s\<lparr>as_reservations := dict_pop i (as_reservations s)\<rparr>, dict_get (as_reservations s) i \<noteq> None)"

definition is_busy :: "int \<Rightarrow> (string \<Rightarrow> string) \<Rightarrow> string \<Rightarrow> agent_service \<Rightarrow> agent_service \<times> bool" where
  "is_busy now control x s =
     (let s1 = expire_reservations now s
      in (s1, agent_status control x s1 \<in> {''running'', ''processing'', ''compacting'', ''paused''} \<or>
           list_ex (\<lambda>kv. rv_session (snd kv) = x) (as_reservations s1)))"

section \<open>Runs\<close>

definition run_fingerprint :: "(json \<Rightarrow> string) \<Rightarrow> run_request \<Rightarrow> string" where
  "run_fingerprint dumps q = dumps (JObj
     [(''messages'', JList (map (\<lambda>m. JObj
        [(''role'', JStr (case msg_role m of RoleUser \<Rightarrow> ''user'' | RoleAssistant \<Rightarrow> ''assistant'' | RoleSystem \<Rightarrow> ''system'')),
         (''name'', JStr (case msg_name m of DEFAULT \<Rightarrow> ''default'' | COMPACT \<Rightarrow> ''compact'' | COMPACT_FAST \<Rightarrow> ''compact_fast'')),
         (''text'', case get_text_content [char_of (10::nat)] m of None \<Rightarrow> JNull | Some t \<Rightarrow> JStr t)]) (rq_messages q))),
      (''metadata'', JObj (rq_metadata q)),
      (''agent_id'', case rq_agent q of None \<Rightarrow> JNull | Some a \<Rightarrow> JStr a),
      (''channel_id'', JStr (rq_channel q)),
      (''source'', JStr (rq_source q))])"

definition request_key :: "run_request \<Rightarrow> run_key" where
  "request_key q = (rq_session q, rq_id q)"

datatype run_answer = Cached agent_result | Started nat

definition set_state_of :: "string \<Rightarrow> string \<Rightarrow> agent_service \<Rightarrow> agent_service \<times> unit agent_answer" where
  "set_state_of agent state s =
     (case set_agent_state agent state (as_registry s) of
        (g, Inl e) \<Rightarrow> (s\<lparr>as_registry := g\<rparr>, Inl (Raises e)) | (g, Inr u) \<Rightarrow> (s\<lparr>as_registry := g\<rparr>, Inr ()))"

text \<open>The run is admitted: \<open>run\<close> and \<open>stream\<close> from the change of the state on.\<close>

definition admit_run :: "string \<Rightarrow> nat \<Rightarrow> run_request \<Rightarrow> agent_service \<Rightarrow> agent_service \<times> unit agent_answer" where
  "admit_run agent p q s =
     set_state_of agent ''running'' (consume_reservation agent (rq_session q) (rq_id q) (set_inflight agent
       (upd_entry p (\<lambda>en. en\<lparr>en_state := ''running'', en_run_id := Some (rq_id q)\<rparr>) s)))"

text \<open>\<open>setdefault\<close>.\<close>

definition bind_fingerprint :: "run_key \<Rightarrow> string \<Rightarrow> agent_service \<Rightarrow> agent_service" where
  "bind_fingerprint key fp s = s\<lparr>as_fingerprints :=
     (if dict_get (as_fingerprints s) key = None then dict_set key fp (as_fingerprints s) else as_fingerprints s)\<rparr>"

definition run_start ::
  "(json \<Rightarrow> string) \<Rightarrow> int \<Rightarrow> (string \<Rightarrow> bool) \<Rightarrow> string \<Rightarrow> run_request \<Rightarrow> agent_service \<Rightarrow>
   agent_service \<times> run_answer agent_answer" where
  "run_start dumps now active agent q s =
     (case factory_or_raise s of
        Inl e \<Rightarrow> (s, Inl e)
      | Inr u \<Rightarrow>
     (case dict_get (as_entries s) agent of
        None \<Rightarrow> (s, Inl AgentNotFound)
      | Some p \<Rightarrow>
          let session = session_of agent (as_heap s ! p); key = request_key q; fp = run_fingerprint dumps q in
          if rq_session q \<noteq> session then (s, Inl InvalidRunRequest)
          else if dict_get (as_fingerprints s) key \<notin> {None, Some fp} then (s, Inl InvalidRunRequest)
          else (case dict_get (as_completed s) key of
              Some r \<Rightarrow> (s, Inr (Cached r))
            | None \<Rightarrow>
                let s1 = expire_reservations now (bind_fingerprint key fp s) in
                if en_state (as_heap s1 ! p) = ''paused'' then (s1, Inl AgentIsBusy)
                else if agent \<in> set (as_inflight s1) then (s1, Inl AgentIsBusy)
                else (case control_or_raise s1 of
                    Inl e \<Rightarrow> (s1, Inl e)
                  | Inr v \<Rightarrow>
                      if active session then (s1, Inl AgentIsBusy)
                      else (case admit_run agent p q s1 of
                          (s2, Inl e) \<Rightarrow> (s2, Inl e) | (s2, Inr w) \<Rightarrow> (s2, Inr (Started p)))))))"

datatype run_ending = Returns agent_result | IsCancelled | Fails exn

definition state_from_result :: "agent_result \<Rightarrow> string" where
  "state_from_result r = (if ar_paused r then ''paused''
     else if ar_status r = ''cancelled'' then ''cancelled'' else if ar_status r = ''failed'' then ''failed'' else ''idle'')"

definition with_run_id :: "agent_result \<Rightarrow> string \<Rightarrow> agent_result" where
  "with_run_id r i = (if ar_run_id r \<noteq> [] then r else r\<lparr>ar_run_id := i\<rparr>)"

definition ended_result :: "run_key \<Rightarrow> string \<Rightarrow> string \<Rightarrow> agent_result" where
  "ended_result key status code =
     \<lparr>ar_session = fst key, ar_turn = snd key, ar_status = status, ar_run_id = snd key, ar_error = Some code, ar_paused = False\<rparr>"

text \<open>What is kept of the end of a run, the state of its entry, and what the caller gets.\<close>

definition outcome_of_end :: "run_key \<Rightarrow> run_ending \<Rightarrow> agent_result \<times> string \<times> agent_result agent_answer" where
  "outcome_of_end key how = (case how of
     Returns r \<Rightarrow> (let r' = with_run_id r (snd key) in (r', state_from_result r', Inr r'))
   | IsCancelled \<Rightarrow> (ended_result key ''cancelled'' ''cancelled'', ''cancelled'', Inl (Raises Cancelled))
   | Fails e \<Rightarrow> (ended_result key ''failed'' ''agent_run_error'', ''failed'', Inl (Raises e)))"

text \<open>The \<open>finally\<close> block; what it raises replaces the answer.\<close>

definition leave_run :: "string \<Rightarrow> nat \<Rightarrow> agent_service \<Rightarrow> agent_service \<times> unit agent_answer" where
  "leave_run agent p s =
     (let s1 = drop_inflight agent s;
          s2 = (if en_state (as_heap s1 ! p) = ''running'' then upd_entry p (\<lambda>en. en\<lparr>en_state := ''idle''\<rparr>) s1 else s1)
      in case set_state_of agent (en_state (as_heap s2 ! p)) s2 of
           (s3, Inl e) \<Rightarrow> (s3, Inl e)
         | (s3, Inr u) \<Rightarrow> (s3, if dict_get (as_entries s3) agent = None then Inl AgentNotFound else Inr ()))"

definition run_finish ::
  "string \<Rightarrow> nat \<Rightarrow> run_key \<Rightarrow> run_ending \<Rightarrow> agent_service \<Rightarrow> agent_service \<times> agent_result agent_answer" where
  "run_finish agent p key how s =
     (case outcome_of_end key how of
        (r, state, answer) \<Rightarrow>
          (case leave_run agent p (upd_entry p (\<lambda>en. en\<lparr>en_state := state\<rparr>) (s\<lparr>as_completed := dict_set key r (as_completed s)\<rparr>)) of
             (s', Inl e) \<Rightarrow> (s', Inl e) | (s', Inr u) \<Rightarrow> (s', answer)))"

definition stream_start ::
  "int \<Rightarrow> (string \<Rightarrow> bool) \<Rightarrow> bool \<Rightarrow> string \<Rightarrow> run_request \<Rightarrow> agent_service \<Rightarrow> agent_service \<times> nat agent_answer" where
  "stream_start now active can_stream agent q s =
     (case factory_or_raise s of
        Inl e \<Rightarrow> (s, Inl e)
      | Inr u \<Rightarrow>
     (case dict_get (as_entries s) agent of
        None \<Rightarrow> (s, Inl AgentNotFound)
      | Some p \<Rightarrow>
          let s1 = expire_reservations now s; session = session_of agent (as_heap s1 ! p) in
          if agent \<in> set (as_inflight s1) then (s1, Inl AgentIsBusy)
          else (case control_or_raise s1 of
              Inl e \<Rightarrow> (s1, Inl e)
            | Inr v \<Rightarrow>
                if active session then (s1, Inl AgentIsBusy)
                else if rq_session q \<noteq> session then (s1, Inl InvalidRunRequest)
                else if \<not> can_stream then (s1, Inl InvalidFactory)
                else (case admit_run agent p q s1 of
                    (s2, Inl e) \<Rightarrow> (s2, Inl e) | (s2, Inr w) \<Rightarrow> (s2, Inr p)))))"

definition stream_finish :: "string \<Rightarrow> nat \<Rightarrow> bool \<Rightarrow> agent_service \<Rightarrow> agent_service \<times> unit agent_answer" where
  "stream_finish agent p completed s =
     leave_run agent p (if completed then upd_entry p (\<lambda>en. en\<lparr>en_state := ''idle''\<rparr>) s else s)"

section \<open>Cancelling, resuming and disposing\<close>

definition cancel_start :: "string \<Rightarrow> agent_service \<Rightarrow> agent_service \<times> nat option agent_answer" where
  "cancel_start agent s =
     (case dict_get (as_entries s) agent of
        None \<Rightarrow> (s, map_sum id (\<lambda>u. None) (control_or_raise s))
      | Some p \<Rightarrow> (case set_state_of agent ''stopping'' (upd_entry p (\<lambda>en. en\<lparr>en_state := ''stopping''\<rparr>) s) of
            (s', Inl e) \<Rightarrow> (s', Inl e) | (s', Inr u) \<Rightarrow> (s', Inr (Some p))))"

definition cancel_finish :: "string \<Rightarrow> nat \<Rightarrow> bool \<Rightarrow> agent_service \<Rightarrow> agent_service \<times> unit agent_answer" where
  "cancel_finish agent p stopped s =
     (let state = (if stopped then ''cancelled'' else ''idle'')
      in case set_state_of agent state (upd_entry p (\<lambda>en. en\<lparr>en_state := state\<rparr>) s) of
           (s', Inl e) \<Rightarrow> (s', Inl e)
         | (s', Inr u) \<Rightarrow> (s', if dict_get (as_entries s') agent = None then Inl AgentNotFound else Inr ()))"

definition dispose_start :: "string \<Rightarrow> agent_service \<Rightarrow> nat agent_answer" where
  "dispose_start agent s = (case dict_get (as_entries s) agent of None \<Rightarrow> Inl AgentNotFound | Some p \<Rightarrow> Inr p)"

definition dispose_finish :: "string \<Rightarrow> nat \<Rightarrow> agent_service \<Rightarrow> agent_service" where
  "dispose_finish agent p s =
     (let session = session_of agent (as_heap s ! p);
          gone_keys = filter (\<lambda>k. fst k = session) (map fst (as_completed s))
      in s\<lparr>as_entries := dict_pop agent (as_entries s), as_registry := fst (dispose_agent agent (as_registry s)),
           as_completed := fold dict_pop gone_keys (as_completed s),
           as_fingerprints := fold dict_pop gone_keys (as_fingerprints s)\<rparr>)"

definition of_session :: "string \<Rightarrow> agent_service \<Rightarrow> (string \<times> nat) list" where
  "of_session session s = filter (\<lambda>(a, p). en_session (as_heap s ! p) = Some session) (as_entries s)"

text \<open>After the control port has deleted the session.\<close>

definition delete_agent_session :: "string \<Rightarrow> agent_service \<Rightarrow> agent_service" where
  "delete_agent_session session s = fold (\<lambda>(a, p) t. case dispose_start a t of Inl e \<Rightarrow> t | Inr p' \<Rightarrow> dispose_finish a p' t) (of_session session s) s"

text \<open>After the control port has applied the confirmation; \<open>None\<close> when what it answers is not a run result.\<close>

fun resume_loop :: "string \<Rightarrow> (string \<times> nat) list \<Rightarrow> agent_service \<Rightarrow> agent_service \<times> unit agent_answer" where
  "resume_loop state [] s = (s, Inr ())"
| "resume_loop state ((a, p) # rest) s =
     (case set_state_of a state (upd_entry p (\<lambda>en. en\<lparr>en_state := state\<rparr>) s) of
        (s', Inl e) \<Rightarrow> (s', Inl e)
      | (s', Inr u) \<Rightarrow> if dict_get (as_entries s') a = None then (s', Inl AgentNotFound) else resume_loop state rest s')"

definition resume_confirmation :: "string \<Rightarrow> agent_result option \<Rightarrow> agent_service \<Rightarrow> agent_service \<times> unit agent_answer" where
  "resume_confirmation session r s =
     resume_loop (case r of None \<Rightarrow> ''idle'' | Some x \<Rightarrow> state_from_result x) (of_session session s) s"

end
