(* ===== verification/AgentRuns.thy ===== *)
theory AgentRuns
  imports AgentService "HOL-Library.Sublist"
begin

text \<open>
  The agent service with the tasks that use it. \<open>aw_tasks\<close> are the runs and streams between their
  start and their end, \<open>aw_started\<close> the runs that were started for a session that was not disposed since.
  Any of the operations may come between the start and the end of another; \<open>delete_agent_session\<close> is the
  disposals it makes. Not among the steps are \<open>close\<close> and \<open>unregister_factory\<close>: they forget the running
  agents also while a run is under way, so they are for a service at rest.
\<close>

section \<open>The world\<close>

record run_task =
  rt_agent :: string
  rt_entry :: nat
  rt_key :: run_key
  rt_stream :: bool

record agent_world =
  aw_service :: agent_service
  aw_tasks :: "run_task list"
  aw_started :: "(string \<times> run_key) list"

abbreviation on_service :: "agent_service \<Rightarrow> agent_world \<Rightarrow> agent_world" where
  "on_service s w \<equiv> w\<lparr>aw_service := s\<rparr>"

definition forget_session :: "string \<Rightarrow> agent_world \<Rightarrow> agent_world" where
  "forget_session x w = w\<lparr>aw_started := filter (\<lambda>ak. fst (snd ak) \<noteq> x) (aw_started w)\<rparr>"

inductive agent_step :: "agent_world \<Rightarrow> agent_world \<Rightarrow> bool" where
  factory_registered: "agent_step w (on_service (fst (register_factory missing (aw_service w))) w)"
| created: "py_strip (sp_agent sp) \<noteq> [] \<Longrightarrow> agent_step w (on_service (create_finish sp (aw_service w)) w)"
| reserved: "agent_step w (on_service (fst (try_reserve now lease i active agent session request (aw_service w))) w)"
| released: "agent_step w (on_service (fst (release_reservation i (aw_service w))) w)"
| asked_busy: "agent_step w (on_service (fst (is_busy now control x (aw_service w))) w)"
| run_answered: "run_start dumps now active agent q (aw_service w) = (s, r) \<Longrightarrow> \<forall>p. r \<noteq> Inr (Started p) \<Longrightarrow> agent_step w (on_service s w)"
| run_started: "run_start dumps now active agent q (aw_service w) = (s, Inr (Started p)) \<Longrightarrow>
    agent_step w \<lparr>aw_service = s,
      aw_tasks = aw_tasks w @ [\<lparr>rt_agent = agent, rt_entry = p, rt_key = request_key q, rt_stream = False\<rparr>],
      aw_started = aw_started w @ [(agent, request_key q)]\<rparr>"
| run_ended: "t \<in> set (aw_tasks w) \<Longrightarrow> \<not> rt_stream t \<Longrightarrow>
    agent_step w (w\<lparr>aw_service := fst (run_finish (rt_agent t) (rt_entry t) (rt_key t) how (aw_service w)),
      aw_tasks := remove1 t (aw_tasks w)\<rparr>)"
| stream_refused: "stream_start now active can agent q (aw_service w) = (s, Inl e) \<Longrightarrow> agent_step w (on_service s w)"
| stream_started: "stream_start now active can agent q (aw_service w) = (s, Inr p) \<Longrightarrow>
    agent_step w (w\<lparr>aw_service := s,
      aw_tasks := aw_tasks w @ [\<lparr>rt_agent = agent, rt_entry = p, rt_key = request_key q, rt_stream = True\<rparr>]\<rparr>)"
| stream_ended: "t \<in> set (aw_tasks w) \<Longrightarrow> rt_stream t \<Longrightarrow>
    agent_step w (w\<lparr>aw_service := fst (stream_finish (rt_agent t) (rt_entry t) all (aw_service w)),
      aw_tasks := remove1 t (aw_tasks w)\<rparr>)"
| cancel_began: "agent_step w (on_service (fst (cancel_start agent (aw_service w))) w)"
| cancel_ended: "p < length (as_heap (aw_service w)) \<Longrightarrow>
    agent_step w (on_service (fst (cancel_finish agent p stopped (aw_service w))) w)"
| disposed: "p < length (as_heap (aw_service w)) \<Longrightarrow>
    agent_step w (forget_session (session_of agent (as_heap (aw_service w) ! p))
      (on_service (dispose_finish agent p (aw_service w)) w))"
| confirmed: "agent_step w (on_service (fst (resume_confirmation session r (aw_service w))) w)"

section \<open>What the operations leave alone\<close>

text \<open>Operations that neither create nor dispose nor start nor end a run.\<close>

definition calm :: "agent_service \<Rightarrow> agent_service \<Rightarrow> bool" where
  "calm s t \<longleftrightarrow> as_entries t = as_entries s \<and> length (as_heap t) = length (as_heap s) \<and>
     fst ` set (rg_records (as_registry s)) \<subseteq> fst ` set (rg_records (as_registry t)) \<and>
     as_completed t = as_completed s \<and> as_inflight t = as_inflight s \<and>
     subseq (as_reservations t) (as_reservations s)"

lemma calm_refl [simp]: "calm s s"
  by (simp add: calm_def)

lemma calm_trans: "calm a b \<Longrightarrow> calm b c \<Longrightarrow> calm a c"
  by (auto simp: calm_def intro: subseq_order.trans)

lemma calm_upd [simp]: "calm s (upd_entry p f s)"
  by (simp add: calm_def upd_entry_def)

lemma calm_expire [simp]: "calm s (expire_reservations now s)"
  by (simp add: calm_def expire_reservations_def)

lemma subseq_remove_first: "subseq (remove_first P xs) xs"
  by (induction xs) auto

lemma calm_consume [simp]: "calm s (consume_reservation a x r s)"
  by (simp add: calm_def consume_reservation_def subseq_remove_first)

lemma calm_fingerprints [simp]: "calm s (s\<lparr>as_fingerprints := f\<rparr>)"
  by (simp add: calm_def)

lemma calm_set_state [simp]: "calm s (fst (set_state_of a st s))"
  by (auto simp: calm_def set_state_of_def set_agent_state_def keys_dict_set split: option.splits)

lemma calm_pop: "subseq (dict_pop k d) d"
  by (simp add: dict_pop_filter)

lemma calm_release [simp]: "calm s (fst (release_reservation i s))"
  by (simp add: calm_def release_reservation_def calm_pop)

lemma calm_busy [simp]: "calm s (fst (is_busy now control x s))"
  by (simp add: is_busy_def Let_def)

lemma calm_cancel_start [simp]: "calm s (fst (cancel_start a s))"
  using calm_trans [OF calm_upd calm_set_state]
  by (auto simp: cancel_start_def split: option.splits prod.splits sum.splits) (metis fst_conv)+

lemma calm_cancel_finish [simp]: "calm s (fst (cancel_finish a p b s))"
  using calm_trans [OF calm_upd calm_set_state]
  by (auto simp: cancel_finish_def Let_def split: prod.splits sum.splits) (metis fst_conv)+

lemma calm_resume_loop [simp]: "calm s (fst (resume_loop st xs s))"
proof (induction st xs s rule: resume_loop.induct)
  case (2 state a p rest s)
  have "calm s (fst (set_state_of a state (upd_entry p (\<lambda>en. en\<lparr>en_state := state\<rparr>) s)))"
    by (rule calm_trans [OF calm_upd calm_set_state])
  then show ?case using 2 by (auto split: prod.splits sum.splits intro: calm_trans)
qed simp

lemma calm_resume [simp]: "calm s (fst (resume_confirmation x r s))"
  by (simp add: resume_confirmation_def)

section \<open>The invariant\<close>

definition service_ok :: "agent_service \<Rightarrow> run_task list \<Rightarrow> bool" where
  "service_ok s ts \<longleftrightarrow>
     dict_wf (as_entries s) \<and>
     (\<forall>(a, p) \<in> set (as_entries s). p < length (as_heap s) \<and> a \<in> fst ` set (rg_records (as_registry s))) \<and>
     (\<forall>t \<in> set ts. rt_entry t < length (as_heap s)) \<and>
     distinct (map rt_agent ts) \<and> set (as_inflight s) = rt_agent ` set ts \<and>
     distinct (map (rv_agent \<circ> snd) (as_reservations s))"

text \<open>Every run that was started is still under way or has its result kept.\<close>

definition started_ok :: "(run_key, agent_result) dict \<Rightarrow> run_task list \<Rightarrow> (string \<times> run_key) list \<Rightarrow> bool" where
  "started_ok done_runs ts started \<longleftrightarrow> distinct started \<and>
     (\<forall>(a, k) \<in> set started. dict_get done_runs k \<noteq> None \<or>
        (\<exists>t \<in> set ts. \<not> rt_stream t \<and> rt_agent t = a \<and> rt_key t = k))"

definition world_ok :: "agent_world \<Rightarrow> bool" where
  "world_ok w \<longleftrightarrow> service_ok (aw_service w) (aw_tasks w) \<and>
     started_ok (as_completed (aw_service w)) (aw_tasks w) (aw_started w)"

lemma distinct_subseq_map: "subseq xs ys \<Longrightarrow> distinct (map f ys) \<Longrightarrow> distinct (map f xs)"
  by (induction rule: list_emb.induct) (auto dest: list_emb_set)

lemma service_calm:
  assumes "service_ok s ts" and "calm s t"
  shows "service_ok t ts"
  using assms distinct_subseq_map [of "as_reservations t" "as_reservations s" "rv_agent \<circ> snd"]
  by (auto simp: service_ok_def calm_def)

text \<open>How a run is admitted.\<close>

lemma admit_run_calm:
  assumes "agent \<notin> set (as_inflight s)" and "agent \<in> fst ` set (rg_records (as_registry s))"
    and "admit_run agent p q s = (t, r)"
  shows "r = Inr () \<and> calm (s\<lparr>as_inflight := as_inflight s @ [agent]\<rparr>) t"
proof -
  let ?s = "upd_entry p (\<lambda>en. en\<lparr>en_state := ''running'', en_run_id := Some (rq_id q)\<rparr>) s"
  let ?u = "consume_reservation agent (rq_session q) (rq_id q) (set_inflight agent ?s)"
  have "set_inflight agent ?s = upd_entry p (\<lambda>en. en\<lparr>en_state := ''running'', en_run_id := Some (rq_id q)\<rparr>) (s\<lparr>as_inflight := as_inflight s @ [agent]\<rparr>)"
    using assms(1) by (simp add: set_inflight_def upd_entry_def)
  then have "calm (s\<lparr>as_inflight := as_inflight s @ [agent]\<rparr>) (fst (set_state_of agent ''running'' ?u))"
    using calm_trans [OF calm_trans [OF calm_upd calm_consume] calm_set_state] by metis
  moreover have "snd (set_state_of agent ''running'' ?u) = Inr ()"
    using assms(2) by (auto simp: set_state_of_def set_agent_state_def consume_reservation_def set_inflight_def upd_entry_def
        map_of_eq_None_iff split: option.splits)
  ultimately show ?thesis using assms(3) by (simp add: admit_run_def)
qed

lemma admit_answer:
  "(case a of (s2, Inl e) \<Rightarrow> (s2, Inl e) | (s2, Inr w) \<Rightarrow> (s2, Inr c)) = (fst a, map_sum id (\<lambda>w. c) (snd a))"
  by (cases a) (auto split: sum.splits)

lemma run_start_cases:
  assumes "run_start dumps now active agent q s = (t, r)" and "\<not> (calm s t \<and> (\<forall>p. r \<noteq> Inr (Started p)))"
  shows "\<exists>p u. u = expire_reservations now (bind_fingerprint (request_key q) (run_fingerprint dumps q) s) \<and>
    dict_get (as_entries s) agent = Some p \<and> dict_get (as_completed s) (request_key q) = None \<and>
    agent \<notin> set (as_inflight s) \<and> calm s u \<and> t = fst (admit_run agent p q u) \<and>
    r = map_sum id (\<lambda>x. Started p) (snd (admit_run agent p q u))"
proof -
  let ?u = "expire_reservations now (bind_fingerprint (request_key q) (run_fingerprint dumps q) s)"
  have c: "calm s ?u" unfolding bind_fingerprint_def by (rule calm_trans [OF calm_fingerprints calm_expire])
  have i: "as_inflight ?u = as_inflight s" by (simp add: expire_reservations_def bind_fingerprint_def)
  show ?thesis using assms c i
    by (auto simp: run_start_def admit_answer Let_def split: sum.splits option.splits if_splits)
qed

lemma stream_start_cases:
  assumes "stream_start now active can agent q s = (t, r)" and "\<not> (calm s t \<and> (\<exists>e. r = Inl e))"
  shows "\<exists>p u. u = expire_reservations now s \<and> dict_get (as_entries s) agent = Some p \<and>
    agent \<notin> set (as_inflight s) \<and> calm s u \<and> t = fst (admit_run agent p q u) \<and>
    r = map_sum id (\<lambda>x. p) (snd (admit_run agent p q u))"
proof -
  have i: "as_inflight (expire_reservations now s) = as_inflight s" by (simp add: expire_reservations_def)
  show ?thesis using assms i
    by (auto simp: stream_start_def admit_answer Let_def split: sum.splits option.splits if_splits)
qed

lemma leave_run_calm:
  "leave_run agent p s = (t, r) \<Longrightarrow> calm (drop_inflight agent s) t"
proof -
  assume l: "leave_run agent p s = (t, r)"
  let ?s1 = "drop_inflight agent s"
  let ?s2 = "if en_state (as_heap ?s1 ! p) = ''running'' then upd_entry p (\<lambda>en. en\<lparr>en_state := ''idle''\<rparr>) ?s1 else ?s1"
  have "t = fst (set_state_of agent (en_state (as_heap ?s2 ! p)) ?s2)"
    using l by (auto simp: leave_run_def Let_def split: prod.splits sum.splits)
  moreover have "calm ?s1 ?s2" by simp
  ultimately show ?thesis using calm_trans calm_set_state by blast
qed

section \<open>One run at a time\<close>

text \<open>A run that is admitted, and one that ends.\<close>

lemma service_admit:
  assumes "service_ok s ts" and "dict_get (as_entries s) agent = Some p" and "agent \<notin> set (as_inflight s)"
    and "calm s u" and "admit_run agent p q u = (t, e)"
  shows "e = Inr () \<and> as_completed t = as_completed s \<and>
    service_ok t (ts @ [\<lparr>rt_agent = agent, rt_entry = p, rt_key = k, rt_stream = st\<rparr>])"
proof -
  have mem: "(agent, p) \<in> set (as_entries s)" using assms(2) by (rule map_of_SomeD)
  have u: "agent \<notin> set (as_inflight u)" "agent \<in> fst ` set (rg_records (as_registry u))"
    using assms(1,3,4) mem by (auto simp: service_ok_def calm_def)
  then have e: "e = Inr ()" and c: "calm (u\<lparr>as_inflight := as_inflight u @ [agent]\<rparr>) t"
    using admit_run_calm assms(5) by blast+
  have uw: "service_ok u ts" by (rule service_calm [OF assms(1,4)])
  have p: "p < length (as_heap u)" using assms(1,4) mem by (auto simp: service_ok_def calm_def)
  have "service_ok (u\<lparr>as_inflight := as_inflight u @ [agent]\<rparr>) (ts @ [\<lparr>rt_agent = agent, rt_entry = p, rt_key = k, rt_stream = st\<rparr>])"
    using uw p u(1) by (auto simp: service_ok_def)
  from service_calm [OF this c] show ?thesis using e c assms(4) by (simp add: calm_def)
qed

lemma service_admits:
  assumes "world_ok w" and "dict_get (as_entries (aw_service w)) agent = Some p" and "agent \<notin> set (as_inflight (aw_service w))"
    and "calm (aw_service w) u"
  shows "snd (admit_run agent p q u) = Inr ()"
  using service_admit [of "aw_service w" "aw_tasks w" agent p u q "fst (admit_run agent p q u)"] assms
  by (simp add: world_ok_def)

lemma service_leave:
  assumes "service_ok s ts" and "x \<in> set ts" and "calm (drop_inflight (rt_agent x) s) t"
  shows "service_ok t (remove1 x ts)"
proof -
  have d: "distinct (map rt_agent ts)" using assms(1) by (simp add: service_ok_def)
  then have rest: "set (remove1 x ts) = set ts - {x}" by (simp add: distinct_map)
  have "rt_agent ` set (remove1 x ts) = rt_agent ` set ts - {rt_agent x}"
    using d assms(2) unfolding rest by (auto simp: distinct_map inj_on_def)
  moreover have "distinct (map rt_agent (remove1 x ts))"
    using d unfolding distinct_map rest by (auto intro: inj_on_subset)
  ultimately have "service_ok (drop_inflight (rt_agent x) s) (remove1 x ts)"
    using assms(1) rest by (auto simp: service_ok_def drop_inflight_def)
  then show ?thesis using service_calm assms(3) by blast
qed

lemma run_finish_calm:
  assumes "run_finish agent p k how s = (t, r)"
  shows "\<exists>x. calm (drop_inflight agent (s\<lparr>as_completed := dict_set k x (as_completed s)\<rparr>)) t"
proof -
  obtain x st ans where o: "outcome_of_end k how = (x, st, ans)" by (cases "outcome_of_end k how") auto
  let ?s1 = "s\<lparr>as_completed := dict_set k x (as_completed s)\<rparr>"
  let ?s2 = "upd_entry p (\<lambda>en. en\<lparr>en_state := st\<rparr>) ?s1"
  have "calm (drop_inflight agent ?s2) t"
    using assms o by (auto simp: run_finish_def split: prod.splits sum.splits dest!: leave_run_calm)
  moreover have "calm (drop_inflight agent ?s1) (drop_inflight agent ?s2)" by (simp add: calm_def drop_inflight_def upd_entry_def)
  ultimately show ?thesis using calm_trans by blast
qed

lemma try_reserve_service:
  assumes "service_ok s ts"
  shows "service_ok (fst (try_reserve now lease i active agent session request s)) ts \<and>
    as_completed (fst (try_reserve now lease i active agent session request s)) = as_completed s"
proof -
  let ?u = "expire_reservations now s"
  have u: "service_ok ?u ts" using service_calm [OF assms] by simp
  have c: "as_completed ?u = as_completed s" by (simp add: expire_reservations_def)
  have "service_ok (?u\<lparr>as_reservations := dict_set i r (as_reservations ?u)\<rparr>) ts"
    if "\<not> list_ex (\<lambda>kv. rv_agent (snd kv) = agent) (as_reservations ?u)" "rv_agent r = agent" for r
  proof -
    have "distinct (map (rv_agent \<circ> snd) d) \<Longrightarrow> \<forall>kv \<in> set d. rv_agent (snd kv) \<noteq> agent \<Longrightarrow>
        distinct (map (rv_agent \<circ> snd) (dict_set i r d))" for d
      using that(2) by (induction d) (auto dest!: mem_dict_set)
    then show ?thesis using u that(1) by (auto simp: service_ok_def list_ex_iff)
  qed
  then show ?thesis using u c assms
    by (auto simp: try_reserve_def Let_def split: sum.splits)
qed

lemma create_service:
  assumes "service_ok s ts" and "py_strip (sp_agent sp) \<noteq> []"
  shows "service_ok (create_finish sp s) ts"
proof -
  have "fst ` set (rg_records (fst (register_agent a ''idle'' g))) = insert a (fst ` set (rg_records g))" if "py_strip a \<noteq> []" for a g
    using that by (auto simp: register_agent_def Let_def keys_dict_set map_of_eq_None_iff split: option.splits
        dest: map_of_SomeD)
  then show ?thesis using assms
    by (fastforce simp: service_ok_def create_finish_def dest!: mem_dict_set)
qed

lemma dispose_service:
  assumes "service_ok s ts"
  shows "service_ok (dispose_finish agent p s) ts"
  using assms by (auto simp: service_ok_def dispose_finish_def Let_def dispose_agent_def dict_pop_filter
      intro: distinct_map_filter)

lemma register_factory_calm [simp]: "calm s (fst (register_factory missing s))"
  by (auto simp: register_factory_def calm_def register_agent_def Let_def keys_dict_set split: option.splits)

lemma get_fold_pop: "dict_get (fold dict_pop ks d) k = (if k \<in> set ks then None else dict_get d k)"
  by (induction ks arbitrary: d) auto

lemma disposed_completed:
  "fst k \<noteq> session_of agent (as_heap s ! p) \<Longrightarrow>
   dict_get (as_completed (dispose_finish agent p s)) k = dict_get (as_completed s) k"
  by (auto simp: dispose_finish_def Let_def get_fold_pop)

lemma started_mono:
  "started_ok c ts started \<Longrightarrow> (\<And>k. dict_get c k \<noteq> None \<Longrightarrow> dict_get c' k \<noteq> None) \<Longrightarrow> set ts \<subseteq> set ts' \<Longrightarrow> started_ok c' ts' started"
  by (fastforce simp: started_ok_def)

lemma world_calm: "world_ok w \<Longrightarrow> calm (aw_service w) s \<Longrightarrow> world_ok (on_service s w)"
  using service_calm by (auto simp: world_ok_def calm_def)

lemma started_finished:
  assumes "started_ok c ts started"
  shows "started_ok (dict_set (rt_key t) x c) (remove1 t ts) started"
  unfolding started_ok_def
proof (intro conjI ballI, goal_cases)
  case 1
  show ?case using assms by (simp add: started_ok_def)
next
  case (2 ak)
  obtain a k where ak: "ak = (a, k)" by (cases ak)
  show ?case
  proof (cases "k = rt_key t")
    case False
    consider "dict_get c k \<noteq> None" | t' where "t' \<in> set ts" "\<not> rt_stream t'" "rt_agent t' = a" "rt_key t' = k"
      using assms 2 ak by (auto simp: started_ok_def)
    then show ?thesis
    proof cases
      case (2 t')
      then have "t' \<noteq> t" using False by auto
      then have "t' \<in> set (remove1 t ts)" using 2 by (simp add: in_set_remove1)
      then show ?thesis using 2 ak by auto
    qed (simp add: ak)
  qed (simp add: ak)
qed

lemma started_streamed:
  assumes "started_ok c ts started" and "rt_stream t"
  shows "started_ok c (remove1 t ts) started"
proof -
  have "t' \<in> set (remove1 t ts)" if "t' \<in> set ts" "\<not> rt_stream t'" for t'
    using that assms(2) by (metis in_set_remove1)
  then show ?thesis using assms(1) unfolding started_ok_def by blast
qed

lemma not_run_again:
  assumes "world_ok w" and "(agent, request_key q) \<in> set (aw_started w)"
    and "run_start dumps now active agent q (aw_service w) = (s, r)"
  shows "r \<noteq> Inr (Started p)"
proof
  assume r: "r = Inr (Started p)"
  then have "dict_get (as_completed (aw_service w)) (request_key q) = None" "agent \<notin> set (as_inflight (aw_service w))"
    using run_start_cases [OF assms(3)] by auto
  then show False using assms(1,2) by (fastforce simp: world_ok_def started_ok_def service_ok_def)
qed

lemma step_world_ok: "agent_step w w' \<Longrightarrow> world_ok w \<Longrightarrow> world_ok w'"
proof (induction rule: agent_step.induct)
  case (created sp w)
  then show ?case using create_service by (auto simp: world_ok_def create_finish_def)
next
  case (reserved w now lease i active agent session request)
  then show ?case
    using try_reserve_service [of "aw_service w" "aw_tasks w" now lease i active agent session request] by (simp add: world_ok_def)
next
  case (run_answered dumps now active agent q w s r)
  have "calm (aw_service w) s"
  proof (rule ccontr)
    assume "\<not> calm (aw_service w) s"
    then obtain p u where c: "dict_get (as_entries (aw_service w)) agent = Some p" "agent \<notin> set (as_inflight (aw_service w))"
        "calm (aw_service w) u" "s = fst (admit_run agent p q u)" "r = map_sum id (\<lambda>x. Started p) (snd (admit_run agent p q u))"
      using run_start_cases [OF run_answered(1)] by blast
    have "snd (admit_run agent p q u) = Inr ()" by (rule service_admits [OF run_answered(3) c(1,2,3)])
    then show False using c(5) run_answered(2) by simp
  qed
  then show ?case using world_calm run_answered(3) by blast
next
  case (run_started dumps now active agent q w s p)
  obtain p' u where c: "dict_get (as_entries (aw_service w)) agent = Some p'" "agent \<notin> set (as_inflight (aw_service w))"
      "calm (aw_service w) u" "s = fst (admit_run agent p' q u)" "Inr (Started p) = map_sum id (\<lambda>x. Started p') (snd (admit_run agent p' q u))"
    using run_start_cases [OF run_started(1)] by blast
  have p: "p' = p" using c(5) by (cases "snd (admit_run agent p' q u)") auto
  have ok: "service_ok (aw_service w) (aw_tasks w)" using run_started(2) by (simp add: world_ok_def)
  have new: "(agent, request_key q) \<notin> set (aw_started w)" using not_run_again [OF run_started(2) _ run_started(1)] by blast
  from service_admit [OF ok c(1,2,3), of q s "snd (admit_run agent p' q u)"] p c(4)
  show ?case using run_started(2) new by (auto simp: world_ok_def started_ok_def)
next
  case (run_ended t w how)
  obtain x where x: "calm (drop_inflight (rt_agent t) ((aw_service w)\<lparr>as_completed := dict_set (rt_key t) x (as_completed (aw_service w))\<rparr>))
      (fst (run_finish (rt_agent t) (rt_entry t) (rt_key t) how (aw_service w)))"
    using run_finish_calm [of "rt_agent t" "rt_entry t" "rt_key t" how "aw_service w"] by (metis prod.collapse)
  have "service_ok ((aw_service w)\<lparr>as_completed := dict_set (rt_key t) x (as_completed (aw_service w))\<rparr>) (aw_tasks w)"
    using run_ended(3) by (simp add: world_ok_def service_ok_def)
  from service_leave [OF this run_ended(1)] x have "service_ok (fst (run_finish (rt_agent t) (rt_entry t) (rt_key t) how (aw_service w))) (remove1 t (aw_tasks w))"
    by blast
  moreover have "started_ok (dict_set (rt_key t) x (as_completed (aw_service w))) (remove1 t (aw_tasks w)) (aw_started w)"
    using run_ended(3) by (simp add: world_ok_def started_finished)
  ultimately show ?case using x by (simp add: world_ok_def calm_def drop_inflight_def)
next
  case (stream_refused now active can agent q w s e)
  have "calm (aw_service w) s"
  proof (rule ccontr)
    assume "\<not> calm (aw_service w) s"
    then obtain p u where c: "dict_get (as_entries (aw_service w)) agent = Some p" "agent \<notin> set (as_inflight (aw_service w))"
        "calm (aw_service w) u" "s = fst (admit_run agent p q u)" "Inl e = map_sum id (\<lambda>x. p) (snd (admit_run agent p q u))"
      using stream_start_cases [OF stream_refused(1)] by blast
    have "snd (admit_run agent p q u) = Inr ()" by (rule service_admits [OF stream_refused(2) c(1,2,3)])
    then show False using c(5) by simp
  qed
  then show ?case using world_calm stream_refused(2) by blast
next
  case (stream_started now active can agent q w s p)
  obtain p' u where c: "dict_get (as_entries (aw_service w)) agent = Some p'" "agent \<notin> set (as_inflight (aw_service w))"
      "calm (aw_service w) u" "s = fst (admit_run agent p' q u)" "Inr p = map_sum id (\<lambda>x. p') (snd (admit_run agent p' q u))"
    using stream_start_cases [OF stream_started(1)] by blast
  have p: "p' = p" using c(5) by (cases "snd (admit_run agent p' q u)") auto
  have ok: "service_ok (aw_service w) (aw_tasks w)" using stream_started(2) by (simp add: world_ok_def)
  from service_admit [OF ok c(1,2,3), of q s "snd (admit_run agent p' q u)"] p c(4)
  show ?case using stream_started(2) by (fastforce simp: world_ok_def started_ok_def)
next
  case (stream_ended t w all)
  let ?s = "if all then upd_entry (rt_entry t) (\<lambda>en. en\<lparr>en_state := ''idle''\<rparr>) (aw_service w) else aw_service w"
  have ok: "service_ok ?s (aw_tasks w)" using stream_ended(3) service_calm [OF _ calm_upd] by (simp add: world_ok_def)
  have c: "calm (drop_inflight (rt_agent t) ?s) (fst (stream_finish (rt_agent t) (rt_entry t) all (aw_service w)))"
    unfolding stream_finish_def using leave_run_calm [of "rt_agent t" "rt_entry t" ?s] by (metis prod.collapse)
  from service_leave [OF ok stream_ended(1) c]
  show ?case using stream_ended c started_streamed [of _ "aw_tasks w" "aw_started w" t]
    by (simp add: world_ok_def calm_def drop_inflight_def upd_entry_def split: if_splits)
next
  case (disposed p w agent)
  then show ?case using dispose_service
    by (auto simp: world_ok_def forget_session_def started_ok_def disposed_completed)
qed (auto intro: world_calm)

text \<open>All worlds the service can be in between its start and its end.\<close>

definition new_world :: agent_world where
  "new_world = \<lparr>aw_service = fresh_service, aw_tasks = [], aw_started = []\<rparr>"

abbreviation world_reachable :: "agent_world \<Rightarrow> bool" where
  "world_reachable w \<equiv> agent_step\<^sup>*\<^sup>* new_world w"

lemma reachable_world_ok: "world_reachable w \<Longrightarrow> world_ok w"
proof (induction rule: rtranclp_induct)
  case base
  show ?case by (simp add: new_world_def fresh_service_def world_ok_def service_ok_def started_ok_def)
next
  case (step v w)
  then show ?case using step_world_ok by blast
qed

text \<open>
  An agent does one thing at a time: whatever tasks create, run, stream, cancel and dispose agents in
  whatever order, no two runs or streams of one agent are ever under way together, the service knows exactly which
  agents are busy, and no agent is reserved twice.
\<close>

theorem one_run_per_agent:
  assumes "world_reachable w"
  shows "distinct (map rt_agent (aw_tasks w)) \<and> set (as_inflight (aw_service w)) = rt_agent ` set (aw_tasks w) \<and>
    distinct (map (rv_agent \<circ> snd) (as_reservations (aw_service w)))"
  using reachable_world_ok [OF assms] by (simp add: world_ok_def service_ok_def)

text \<open>
  C19: A request is run at most once by an agent, however often it is sent: no run of the same agent and request is
  started twice before the session is disposed, and another attempt is refused while the
  first is under way and answered from what is kept afterwards, whether the run succeeded or not.
\<close>

theorem request_is_run_once:
  assumes "world_reachable w"
  shows "distinct (aw_started w) \<and>
    (\<forall>agent q. (agent, request_key q) \<in> set (aw_started w) \<longrightarrow>
      (\<forall>dumps now active p. snd (run_start dumps now active agent q (aw_service w)) \<noteq> Inr (Started p)))"
proof -
  have ok: "world_ok w" by (rule reachable_world_ok [OF assms])
  then show ?thesis using not_run_again [OF ok] by (auto simp: world_ok_def started_ok_def) (metis prod.collapse)
qed

section \<open>Samples\<close>

definition sample_run :: run_request where
  "sample_run = \<lparr>rq_session = ''s'', rq_id = ''r'', rq_messages = [], rq_agent = None, rq_channel = [], rq_source = ''user'', rq_metadata = []\<rparr>"

definition sample_service :: agent_service where
  "sample_service = create_finish \<lparr>sp_agent = ''a'', sp_session = Some ''s''\<rparr> (fst (register_factory [] fresh_service))"

lemma sample_started:
  "snd (run_start (\<lambda>j. []) 0 (\<lambda>x. False) ''a'' sample_run sample_service) = Inr (Started 0)"
  by code_simp

lemma sample_world:
  "\<exists>w :: agent_world. world_reachable w \<and> map rt_agent (aw_tasks w) = [''a''] \<and> aw_started w = [(''a'', request_key sample_run)]"
proof -
  obtain s where run: "run_start (\<lambda>j. []) 0 (\<lambda>x. False) ''a'' sample_run sample_service = (s, Inr (Started 0))"
    using sample_started by (metis prod.collapse)
  let ?w1 = "on_service (fst (register_factory [] (aw_service new_world))) new_world"
  let ?w2 = "on_service (create_finish \<lparr>sp_agent = ''a'', sp_session = Some ''s''\<rparr> (aw_service ?w1)) ?w1"
  let ?w3 = "\<lparr>aw_service = s, aw_tasks = aw_tasks ?w2 @ [\<lparr>rt_agent = ''a'', rt_entry = 0, rt_key = request_key sample_run, rt_stream = False\<rparr>],
      aw_started = aw_started ?w2 @ [(''a'', request_key sample_run)]\<rparr>"
  have w2: "aw_service ?w2 = sample_service" "aw_tasks ?w2 = []" "aw_started ?w2 = []"
    by (simp_all add: sample_service_def new_world_def)
  have "agent_step new_world ?w1" by (rule factory_registered)
  moreover have "agent_step ?w1 ?w2" by (rule created) code_simp
  moreover have "agent_step ?w2 ?w3" by (rule run_started) (use run w2(1) in simp)
  ultimately have r: "world_reachable ?w3" by (meson converse_rtranclp_into_rtranclp rtranclp.rtrancl_refl)
  have "map rt_agent (aw_tasks ?w3) = [''a'']" "aw_started ?w3 = [(''a'', request_key sample_run)]" using w2(2,3) by simp_all
  with r show ?thesis by (intro exI [of _ ?w3] conjI)
qed

lemma one_run_per_agent_witness:
  "\<exists>w :: agent_world. map rt_agent (aw_tasks w) = [''a''] \<and> set (as_inflight (aw_service w)) = {''a''}"
proof -
  obtain w :: agent_world where w: "world_reachable w" "map rt_agent (aw_tasks w) = [''a'']" "aw_started w = [(''a'', request_key sample_run)]"
    using sample_world by (elim exE conjE) (rule that)
  have "rt_agent ` set (aw_tasks w) = set (map rt_agent (aw_tasks w))" by simp
  also have "\<dots> = {''a''}" unfolding w(2) by simp
  finally show ?thesis using one_run_per_agent [OF w(1)] w(2) by (intro exI [of _ w]) simp
qed

lemma request_is_run_once_witness:
  "\<exists>w :: agent_world. aw_started w = [(''a'', request_key sample_run)] \<and>
    snd (run_start (\<lambda>j. []) 0 (\<lambda>x. False) ''a'' sample_run (aw_service w)) \<noteq> Inr (Started 0)"
proof -
  obtain w :: agent_world where w: "world_reachable w" "map rt_agent (aw_tasks w) = [''a'']" "aw_started w = [(''a'', request_key sample_run)]"
    using sample_world by (elim exE conjE) (rule that)
  then have "(''a'', request_key sample_run) \<in> set (aw_started w)" by simp
  then have "snd (run_start (\<lambda>j. []) 0 (\<lambda>x. False) ''a'' sample_run (aw_service w)) \<noteq> Inr (Started 0)"
    using request_is_run_once [OF w(1)] by blast
  with w(3) show ?thesis by (intro exI [of _ w] conjI)
qed

section \<open>Where the code is weaker than it looks\<close>

text \<open>
  Two tasks may both find that an agent does not exist and create it: the second replaces the entry of the
  first, whose runtime is then never disposed.
\<close>

lemma concurrent_creates_lose_one:
  assumes "service_ok s ts" and "create_start True sp s = Inr ()"
  shows "dict_get (as_entries (create_finish sp (create_finish sp s))) (sp_agent sp) = Some (Suc (length (as_heap s))) \<and>
    length (as_heap s) \<notin> snd ` set (as_entries (create_finish sp (create_finish sp s)))"
  using assms by (auto simp: create_finish_def service_ok_def dest!: mem_dict_set)

text \<open>
  An agent disposed during its run makes the run end with a \<open>KeyError\<close> of the registry, whatever the run returned;
  the result is kept all the same, for a session that is gone.
\<close>

lemma disposed_run_raises:
  assumes "dict_get (rg_records (as_registry s)) agent = None" and "run_finish agent p k how s = (t, r)"
  shows "r = Inl (Raises KeyError) \<and> dict_get (as_completed t) k \<noteq> None"
proof -
  have raises: "set_state_of agent st u = (u, Inl (Raises KeyError))" if "dict_get (rg_records (as_registry u)) agent = None" for st u
    using that by (simp add: set_state_of_def set_agent_state_def)
  obtain x st ans where o: "outcome_of_end k how = (x, st, ans)" by (cases "outcome_of_end k how") auto
  let ?u = "upd_entry p (\<lambda>en. en\<lparr>en_state := st\<rparr>) (s\<lparr>as_completed := dict_set k x (as_completed s)\<rparr>)"
  have "snd (leave_run agent p ?u) = Inl (Raises KeyError) \<and> as_completed (fst (leave_run agent p ?u)) = dict_set k x (as_completed s)"
    using assms(1) by (simp add: leave_run_def Let_def raises drop_inflight_def upd_entry_def)
  then show ?thesis using assms(2) o by (auto simp: run_finish_def split: prod.splits)
qed

text \<open>A request that was only refused keeps its id bound to its content, also when its agent is disposed.\<close>

lemma refused_request_stays_bound:
  "dict_get (as_completed s) k = None \<Longrightarrow>
   dict_get (as_fingerprints (dispose_finish agent p s)) k = dict_get (as_fingerprints s) k"
  by (auto simp: dispose_finish_def Let_def get_fold_pop map_of_eq_None_iff)

text \<open>
  Agents whose session is the implicit one, named like the agent, are neither resumed after a confirmation
  nor disposed with their session.
\<close>

lemma implicit_session_is_left_out:
  assumes "\<forall>(a, p) \<in> set (as_entries s). en_session (as_heap s ! p) = None"
  shows "resume_confirmation x r s = (s, Inr ()) \<and> delete_agent_session x s = s"
proof -
  have "of_session x s = []" using assms by (auto simp: of_session_def filter_empty_conv)
  then show ?thesis by (simp add: resume_confirmation_def delete_agent_session_def)
qed

text \<open>A stream may start on an agent that waits for a confirmation, which a run may not.\<close>

lemma stream_on_paused_agent:
  assumes "service_ok s ts" and "factory_or_raise s = Inr ()" and "as_control s" and "dict_get (as_entries s) agent = Some p"
    and "en_state (as_heap s ! p) = ''paused''" and "agent \<notin> set (as_inflight s)" and "rq_session q = session_of agent (as_heap s ! p)"
  shows "\<exists>t. stream_start now (\<lambda>x. False) True agent q s = (t, Inr p)"
proof -
  let ?u = "expire_reservations now s"
  have "agent \<in> fst ` set (rg_records (as_registry ?u))"
    using assms(1,4) by (auto simp: service_ok_def expire_reservations_def dest!: map_of_SomeD)
  then have "snd (admit_run agent p q ?u) = Inr ()"
    using admit_run_calm [of agent ?u p q] assms(6) by (metis calm_def calm_expire prod.collapse)
  moreover have "control_or_raise ?u = Inr ()" "as_heap ?u = as_heap s" "as_inflight ?u = as_inflight s"
    using assms(2,3) by (simp_all add: control_or_raise_def factory_or_raise_def expire_reservations_def split: if_splits)
  ultimately show ?thesis using assms(2,4,6,7)
    by (auto simp: stream_start_def admit_answer Let_def)
qed

end
