(* ===== verification/Hooks.thy ===== *)
theory Hooks
  imports AgentRegistry "HOL-Library.Sublist"
begin

text \<open>
  Hooks: their contracts (\<open>packages/ftre-agent/src/ftre_agent/hooks.py\<close>, class \<open>HookSpec\<close>) and the runtime that
  registers and calls listeners (\<open>src/ftre/kernel/hooks/runtime.py\<close>).

  The event service below is Cordis, which is not part of the repository: \<open>cordis\<close> holds the
  operations the runtime uses of it, on a state of its own, and \<open>cordis_laws\<close> what its documentation and
  \<open>hooks/README.md\<close> promise of them. A registration is an object that the callback keeps hold of, so
  registrations are addresses into \<open>hr_objects\<close>.
\<close>

section \<open>Contracts\<close>

datatype hook_mode = Emit | Parallel | Serial | Bail | Waterfall

datatype failure_policy = Observe | Propagate

datatype hook_scope = GlobalScope | AgentScope

text \<open>The types a payload and a result may have are names of classes; \<open>hs_default\<close> is the identity of the function.\<close>

record hook_spec =
  hs_name :: string
  hs_domain :: string
  hs_mode :: hook_mode
  hs_failure :: failure_policy
  hs_payload :: "string list option"
  hs_result :: "string list option"
  hs_default :: "nat option"
  hs_scope :: hook_scope

definition before_slash :: "string \<Rightarrow> string" where
  "before_slash s = takeWhile (\<lambda>c. c \<noteq> CHR ''/'') s"

definition check_hook_spec :: "hook_spec \<Rightarrow> unit result" where
  "check_hook_spec h =
     (if hs_name h = [] \<or> CHR ''/'' \<notin> set (hs_name h) then Inl ValueError
      else if hs_domain h = [] \<or> CHR ''/'' \<in> set (hs_domain h) then Inl ValueError
      else if before_slash (hs_name h) \<noteq> hs_domain h then Inl ValueError
      else if hs_mode h = Waterfall \<and> hs_default h = None then Inl ValueError
      else Inr ())"

text \<open>\<open>isinstance(value, types)\<close> with the classes of the value.\<close>

definition has_type :: "('v \<Rightarrow> string list) \<Rightarrow> string list option \<Rightarrow> 'v \<Rightarrow> bool" where
  "has_type classes ts v = (case ts of None \<Rightarrow> True | Some xs \<Rightarrow> list_ex (\<lambda>t. t \<in> set (classes v)) xs)"

definition validate_value :: "('v \<Rightarrow> string list) \<Rightarrow> string list option \<Rightarrow> 'v \<Rightarrow> unit result" where
  "validate_value classes ts v = (if has_type classes ts v then Inr () else Inl TypeError)"

section \<open>The runtime\<close>

record listener_registration =
  rn_spec :: hook_spec
  rn_owner :: string
  rn_scope :: string
  rn_order :: nat
  rn_once :: bool
  rn_active :: nat
  rn_disposed :: bool
  rn_lifecycle :: bool
  rn_drained :: bool
  rn_called :: bool

record hook_diagnostic =
  hd_hook :: string
  hd_owner :: string
  hd_scope :: string
  hd_order :: nat
  hd_active :: nat
  hd_exception :: exn

record 'c cordis =
  co_on :: "string \<Rightarrow> bool \<Rightarrow> bool \<Rightarrow> bool \<Rightarrow> nat \<Rightarrow> 'c \<Rightarrow> 'c"
  co_off :: "nat \<Rightarrow> 'c \<Rightarrow> 'c"
  co_called :: "nat \<Rightarrow> 'c \<Rightarrow> 'c"
  co_listeners :: "'c \<Rightarrow> string \<Rightarrow> nat list"
  co_eager :: bool

record 'c hook_runtime =
  hr_specs :: "(string, hook_spec) dict"
  hr_entries :: "(string, nat list) dict"
  hr_objects :: "listener_registration list"
  hr_diagnostics :: "hook_diagnostic list"
  hr_cordis :: 'c

text \<open>
  \<open>on\<close> and \<open>once\<close> (the flag \<open>once\<close>) add a callback at the end, or in front with \<open>prepend\<close>; a disposer removes it, and
  a call removes a callback that was added with \<open>once\<close>.
\<close>

definition cordis_laws :: "'c cordis \<Rightarrow> bool" where
  "cordis_laws C \<longleftrightarrow>
     (\<forall>s name once prepend global i. co_listeners C (co_on C name once prepend global i s) name =
        (if prepend then i # co_listeners C s name else co_listeners C s name @ [i])) \<and>
     (\<forall>s name other once prepend global i. other \<noteq> name \<longrightarrow>
        co_listeners C (co_on C name once prepend global i s) other = co_listeners C s other) \<and>
     (\<forall>s name i. co_listeners C (co_off C i s) name = filter (\<lambda>j. j \<noteq> i) (co_listeners C s name)) \<and>
     (\<forall>s name i. co_listeners C (co_called C i s) name = filter (\<lambda>j. j \<noteq> i) (co_listeners C s name) \<or>
        co_listeners C (co_called C i s) name = co_listeners C s name)"

definition entries_of :: "string \<Rightarrow> 'c hook_runtime \<Rightarrow> nat list" where
  "entries_of name h = (case dict_get (hr_entries h) name of None \<Rightarrow> [] | Some xs \<Rightarrow> xs)"

definition upd_reg :: "nat \<Rightarrow> (listener_registration \<Rightarrow> listener_registration) \<Rightarrow> 'c hook_runtime \<Rightarrow> 'c hook_runtime" where
  "upd_reg i f h = h\<lparr>hr_objects := (hr_objects h)[i := f (hr_objects h ! i)]\<rparr>"

record hook_receipt =
  hc_hook :: string
  hc_owner :: string
  hc_scope :: string
  hc_order :: nat
  hc_once :: bool
  hc_registration :: nat

text \<open>
  The registration \<open>g\<close> becomes part of the mirror and of the events. Registrations whose life cycle has ended
  leave the mirror first; with \<open>prepend\<close> the others move up by one.
\<close>

definition live_entries :: "string \<Rightarrow> 'c hook_runtime \<Rightarrow> nat list" where
  "live_entries name r = filter (\<lambda>i. \<not> rn_lifecycle (hr_objects r ! i)) (entries_of name r)"

definition shift_orders :: "nat list \<Rightarrow> 'c hook_runtime \<Rightarrow> 'c hook_runtime" where
  "shift_orders is r = fold (\<lambda>i. upd_reg i (\<lambda>g. g\<lparr>rn_order := rn_order g + 1\<rparr>)) is r"

definition add_registration :: "'c cordis \<Rightarrow> bool \<Rightarrow> bool \<Rightarrow> listener_registration \<Rightarrow> 'c hook_runtime \<Rightarrow> 'c hook_runtime" where
  "add_registration C prepend global g r =
     (let name = hs_name (rn_spec g); kept = live_entries name r; new = length (hr_objects r);
          r1 = (if prepend then shift_orders kept r else r)
      in r1\<lparr>hr_specs := dict_set name (rn_spec g) (hr_specs r), hr_objects := hr_objects r1 @ [g],
           hr_entries := dict_set name (if prepend then new # kept else kept @ [new]) (hr_entries r),
           hr_cordis := co_on C name (rn_once g) prepend global new (hr_cordis r)\<rparr>)"

text \<open>\<open>callable\<close>: the listener can be called; \<open>scoped\<close>: a context was given.\<close>

definition register_hook ::
  "'c cordis \<Rightarrow> hook_spec \<Rightarrow> bool \<Rightarrow> string \<Rightarrow> bool \<Rightarrow> bool \<Rightarrow> bool \<Rightarrow> bool \<Rightarrow> 'c hook_runtime \<Rightarrow>
   'c hook_runtime \<times> hook_receipt result" where
  "register_hook C h callable owner prepend once scoped all_scopes r =
     (if py_strip owner = [] then (r, Inl ValueError)
      else if \<not> callable then (r, Inl TypeError)
      else if hs_scope h = AgentScope \<and> \<not> scoped \<and> \<not> all_scopes then (r, Inl ValueError)
      else if dict_get (hr_specs r) (hs_name h) \<notin> {None, Some h} then (r, Inl ValueError)
      else
        let order = (if prepend then 0 else length (live_entries (hs_name h) r));
            scope = (if all_scopes \<or> \<not> scoped then ''global'' else ''agent'');
            g = \<lparr>rn_spec = h, rn_owner = owner, rn_scope = scope, rn_order = order, rn_once = once,
              rn_active = 0, rn_disposed = False, rn_lifecycle = False, rn_drained = True, rn_called = False\<rparr>
        in (add_registration C prepend (hs_scope h = GlobalScope \<or> all_scopes) g r,
            Inr \<lparr>hc_hook = hs_name h, hc_owner = owner, hc_scope = scope, hc_order = order, hc_once = once,
              hc_registration = length (hr_objects r)\<rparr>))"

text \<open>
  \<open>rn_called\<close> is the flag \<open>disposed\<close> in the closure of the disposer. The result is whether there are calls to wait for.
\<close>

definition dispose_hook :: "'c cordis \<Rightarrow> nat \<Rightarrow> 'c hook_runtime \<Rightarrow> 'c hook_runtime \<times> bool" where
  "dispose_hook C i r =
     (if rn_called (hr_objects r ! i) then (r, False)
      else (let r1 = upd_reg i (\<lambda>g. g\<lparr>rn_called := True, rn_disposed := True\<rparr>) r
        in (r1\<lparr>hr_cordis := co_off C i (hr_cordis r1)\<rparr>, 0 < rn_active (hr_objects r1 ! i))))"

definition lifecycle_dispose :: "'c cordis \<Rightarrow> nat \<Rightarrow> 'c hook_runtime \<Rightarrow> 'c hook_runtime \<times> bool" where
  "lifecycle_dispose C i r = dispose_hook C i (upd_reg i (\<lambda>g. g\<lparr>rn_lifecycle := True\<rparr>) r)"

section \<open>Calls\<close>

definition enter_call :: "nat \<Rightarrow> 'c hook_runtime \<Rightarrow> 'c hook_runtime" where
  "enter_call i = upd_reg i (\<lambda>g. g\<lparr>rn_active := rn_active g + 1, rn_drained := (if rn_active g = 0 then False else rn_drained g)\<rparr>)"

definition release_call :: "nat \<Rightarrow> 'c hook_runtime \<Rightarrow> 'c hook_runtime" where
  "release_call i = upd_reg i (\<lambda>g. g\<lparr>rn_active := rn_active g - 1, rn_drained := (rn_active g \<le> 1 \<or> rn_drained g)\<rparr>)"

definition mark_once :: "nat \<Rightarrow> 'c hook_runtime \<Rightarrow> 'c hook_runtime" where
  "mark_once i r = (if rn_once (hr_objects r ! i) then upd_reg i (\<lambda>g. g\<lparr>rn_disposed := True\<rparr>) r else r)"

definition record_failure :: "hook_spec \<Rightarrow> nat \<Rightarrow> exn \<Rightarrow> 'c hook_runtime \<Rightarrow> 'c hook_runtime" where
  "record_failure h i e r =
     (let g = hr_objects r ! i
      in r\<lparr>hr_diagnostics := hr_diagnostics r @ [\<lparr>hd_hook = hs_name h, hd_owner = rn_owner g, hd_scope = rn_scope g,
            hd_order = rn_order g, hd_active = rn_active g, hd_exception = e\<rparr>]\<rparr>)"

text \<open>The value of a listener that failed, \<open>None\<close> for the null of a policy that only observes.\<close>

definition handle_failure :: "hook_spec \<Rightarrow> nat \<Rightarrow> exn \<Rightarrow> 'c hook_runtime \<Rightarrow> 'c hook_runtime \<times> 'v option result" where
  "handle_failure h i e r = (record_failure h i e r, if hs_failure h = Observe then Inr None else Inl e)"

text \<open>
  What an asynchronous listener of a waterfall does: it returns, raises, awaits \<open>next_()\<close> and goes on with what that gave,
  or calls \<open>next_()\<close> without ever awaiting what it returns. A plain function as listener is not modelled; those of the
  repository are all coroutine functions.
\<close>

datatype 'v behaviour =
    Gives "'v option"
  | Throws exn
  | AwaitsNext "'v option result \<Rightarrow> 'v behaviour"
  | DropsNext "unit result \<Rightarrow> 'v behaviour"

text \<open>\<open>next_once\<close>: the second call raises inside the listener. \<open>drp\<close> is what a call that is not awaited does.\<close>

primrec run_listener ::
  "'v behaviour \<Rightarrow> ('s \<Rightarrow> 's \<times> 'v option result) \<Rightarrow> ('s \<Rightarrow> 's) \<Rightarrow> bool \<Rightarrow> 's \<Rightarrow> 's \<times> 'v option result" where
  "run_listener (Gives v) nxt drp called s = (s, Inr v)"
| "run_listener (Throws e) nxt drp called s = (s, Inl e)"
| "run_listener (AwaitsNext k) nxt drp called s =
     (if called then run_listener (k (Inl RuntimeError)) nxt drp True s
      else (case nxt s of (s', v) \<Rightarrow> run_listener (k v) nxt drp True s'))"
| "run_listener (DropsNext k) nxt drp called s =
     (if called then run_listener (k (Inl RuntimeError)) nxt drp True s
      else run_listener (k (Inr ())) nxt drp True (drp s))"

primrec never_drops :: "'v behaviour \<Rightarrow> bool" where
  "never_drops (Gives v) = True"
| "never_drops (Throws e) = True"
| "never_drops (AwaitsNext k) = (\<forall>v. never_drops (k v))"
| "never_drops (DropsNext k) = False"

type_synonym 'c dispatching = "'c hook_runtime \<times> nat list"

text \<open>An asynchronous listener in its wrapper; a cancellation is not an \<open>Exception\<close>.\<close>

definition finish_listener :: "hook_spec \<Rightarrow> nat \<Rightarrow> 'c dispatching \<times> 'v option result \<Rightarrow> 'c dispatching \<times> 'v option result" where
  "finish_listener h i sv =
     (case sv of
        ((r, tr), Inr v) \<Rightarrow> ((mark_once i (release_call i r), tr), Inr v)
      | ((r, tr), Inl e) \<Rightarrow>
          if e = Cancelled then ((mark_once i (release_call i r), tr), Inl e)
          else (case handle_failure h i e r of (r', v) \<Rightarrow> ((mark_once i (release_call i r'), tr), v)))"

text \<open>
  The wrapper counts a call before its listener runs. When \<open>next_()\<close> is called and not awaited the coroutine of the
  wrapper is never started, but the call has been counted, if Cordis calls the next callback at once (\<open>co_eager\<close>).
\<close>

definition enter_listener :: "'c cordis \<Rightarrow> nat \<Rightarrow> 'c hook_runtime \<Rightarrow> 'c hook_runtime" where
  "enter_listener C i r = enter_call i (r\<lparr>hr_cordis := co_called C i (hr_cordis r)\<rparr>)"

definition drop_next :: "'c cordis \<Rightarrow> nat list \<Rightarrow> 'c dispatching \<Rightarrow> 'c dispatching" where
  "drop_next C rest s = (case rest of [] \<Rightarrow> s | i # is \<Rightarrow> if co_eager C then (enter_listener C i (fst s), snd s) else s)"

fun waterfall ::
  "'c cordis \<Rightarrow> hook_spec \<Rightarrow> (nat \<Rightarrow> 'v behaviour) \<Rightarrow> 'v behaviour \<Rightarrow> nat list \<Rightarrow> 'c dispatching \<Rightarrow>
   'c dispatching \<times> 'v option result" where
  "waterfall C h listeners inner [] s = run_listener inner (\<lambda>s. (s, Inl TypeError)) (\<lambda>s. s) False s"
| "waterfall C h listeners inner (i # rest) (r, tr) =
     finish_listener h i (run_listener (listeners i) (waterfall C h listeners inner rest) (drop_next C rest) False
       (enter_listener C i r, tr @ [i]))"

text \<open>
  A dispatch of a waterfall, with \<open>heard\<close> the listeners whose context passes the filter of the dispatch. The null a
  failed observer leaves is a value of its own class.
\<close>

definition result_classes :: "('v \<Rightarrow> string list) \<Rightarrow> 'v option \<Rightarrow> string list" where
  "result_classes classes v = (case v of None \<Rightarrow> [''NoneType''] | Some x \<Rightarrow> classes x)"

definition dispatch_waterfall ::
  "'c cordis \<Rightarrow> ('v \<Rightarrow> string list) \<Rightarrow> hook_spec \<Rightarrow> (nat \<Rightarrow> bool) \<Rightarrow> bool \<Rightarrow> 'v \<Rightarrow> (nat \<Rightarrow> 'v behaviour) \<Rightarrow> 'v behaviour \<Rightarrow>
   'c hook_runtime \<Rightarrow> 'c dispatching \<times> 'v option result" where
  "dispatch_waterfall C classes h heard scoped payload listeners inner r =
     (if dict_get (hr_specs r) (hs_name h) \<notin> {None, Some h} then ((r, []), Inl ValueError)
      else if hs_scope h = AgentScope \<and> \<not> scoped then ((r, []), Inl ValueError)
      else case validate_value classes (hs_payload h) payload of
        Inl e \<Rightarrow> ((r, []), Inl e)
      | Inr u \<Rightarrow>
          (case waterfall C h listeners inner (filter heard (co_listeners C (hr_cordis r) (hs_name h))) (r, []) of
             (s, Inl e) \<Rightarrow> (s, Inl e)
           | (s, Inr v) \<Rightarrow> (s, bind_r (validate_value (result_classes classes) (hs_result h) v) (\<lambda>u. Inr v))))"

section \<open>One listener after the other\<close>

lemma listener_uses_next_once:
  "run_listener b nxt drp called s = (s', v) \<Longrightarrow>
     s' = s \<or> \<not> called \<and> (s' = fst (nxt s) \<or> \<not> never_drops b \<and> s' = drp s)"
proof (induction b arbitrary: called s)
  case (AwaitsNext k)
  show ?case
  proof (cases called)
    case True
    then show ?thesis using AwaitsNext.prems AwaitsNext.IH [OF rangeI, of "Inl RuntimeError" True s] by auto
  next
    case False
    obtain s1 w where "nxt s = (s1, w)" by fastforce
    then show ?thesis using AwaitsNext False by fastforce
  qed
next
  case (DropsNext k)
  then show ?case by (cases called) fastforce+
qed simp_all

text \<open>What a dispatch does to the registrations: none keeps a call more or less than it had.\<close>

definition same_calls :: "'c hook_runtime \<Rightarrow> 'c hook_runtime \<Rightarrow> bool" where
  "same_calls r r' \<longleftrightarrow> map rn_active (hr_objects r') = map rn_active (hr_objects r)"

lemma same_calls_refl [simp]: "same_calls r r"
  by (simp add: same_calls_def)

lemma same_calls_trans: "same_calls a b \<Longrightarrow> same_calls b c \<Longrightarrow> same_calls a c"
  by (simp add: same_calls_def)

lemma same_calls_cordis [simp]: "same_calls (r\<lparr>hr_cordis := c\<rparr>) r'  = same_calls r r'"
  by (simp add: same_calls_def)

lemma map_list_update_same: "f x = f (xs ! i) \<Longrightarrow> map f (xs[i := x]) = map f xs"
  by (cases "i < length xs") (simp_all add: map_update list_update_same_conv list_update_beyond)

lemma same_calls_once [simp]: "same_calls r (mark_once i r)"
  by (simp add: same_calls_def mark_once_def upd_reg_def map_list_update_same)

lemma same_calls_failure: "handle_failure h i e r = (r', v) \<Longrightarrow> same_calls r r'"
  by (auto simp: handle_failure_def record_failure_def same_calls_def Let_def)

lemma enter_release:
  assumes "same_calls (enter_call i r) r'"
  shows "same_calls r (release_call i r')"
proof (cases "i < length (hr_objects r)")
  case True
  have l: "map rn_active (hr_objects r') = (map rn_active (hr_objects r))[i := rn_active (hr_objects r ! i) + 1]"
    using assms by (simp add: same_calls_def enter_call_def upd_reg_def map_update)
  then have n: "length (hr_objects r') = length (hr_objects r)" by (metis length_list_update length_map)
  then have "rn_active (hr_objects r' ! i) = rn_active (hr_objects r ! i) + 1"
    using l True by (metis nth_list_update_eq length_map nth_map)
  then show ?thesis using l True n
    by (simp add: same_calls_def release_call_def upd_reg_def map_update) (metis list_update_id list_update_overwrite nth_map)
next
  case False
  then show ?thesis using assms
    by (simp add: same_calls_def enter_call_def release_call_def upd_reg_def) (metis length_map list_update_beyond not_less)
qed

text \<open>A call is never given back that was not taken.\<close>

definition more_calls :: "'c hook_runtime \<Rightarrow> 'c hook_runtime \<Rightarrow> bool" where
  "more_calls r r' \<longleftrightarrow> list_all2 (\<le>) (map rn_active (hr_objects r)) (map rn_active (hr_objects r'))"

lemma more_calls_refl [simp]: "more_calls r r"
  by (simp add: more_calls_def list_all2_conv_all_nth)

lemma more_calls_trans: "more_calls a b \<Longrightarrow> more_calls b c \<Longrightarrow> more_calls a c"
  unfolding more_calls_def by (rule list_all2_trans [of "(\<le>)" "(\<le>)"]) (use order_trans in blast)+

lemma upd_reg_at: "j < length (hr_objects r) \<Longrightarrow> hr_objects (upd_reg i f r) ! j = (if j = i then f (hr_objects r ! i) else hr_objects r ! j)"
  "length (hr_objects (upd_reg i f r)) = length (hr_objects r)"
  by (simp_all add: upd_reg_def nth_list_update)

lemma same_more_calls: "same_calls a b \<Longrightarrow> more_calls a b"
  by (simp add: more_calls_def same_calls_def list_all2_conv_all_nth)

lemma more_calls_enter: "more_calls r (enter_listener C i r)"
  by (auto simp: more_calls_def enter_listener_def enter_call_def upd_reg_at list_all2_conv_all_nth)

lemma enter_release_more:
  assumes "more_calls (enter_listener C i r) r'"
  shows "more_calls r (release_call i r')"
proof -
  have l: "length (hr_objects r') = length (hr_objects r)"
    using assms by (simp add: more_calls_def enter_listener_def enter_call_def upd_reg_at list_all2_conv_all_nth)
  have "rn_active (hr_objects r ! j) + (if j = i then 1 else 0) \<le> rn_active (hr_objects r' ! j)" if "j < length (hr_objects r)" for j
    using assms that l by (auto simp: more_calls_def enter_listener_def enter_call_def upd_reg_at list_all2_conv_all_nth split: if_splits)
  then show ?thesis using l by (fastforce simp: more_calls_def release_call_def upd_reg_at list_all2_conv_all_nth)
qed

lemma finish_call_calls:
  assumes "finish_listener h i ((r, tr), v) = ((r', tr'), w)"
  shows "tr' = tr \<and> same_calls (release_call i r) r'"
proof -
  have "same_calls (release_call i r) (mark_once i (release_call i r1))" if "hr_objects r1 = hr_objects r" for r1
  proof -
    have "same_calls (release_call i r) (release_call i r1)" using that by (simp add: same_calls_def release_call_def upd_reg_def)
    then show ?thesis using same_calls_once same_calls_trans by blast
  qed
  then show ?thesis using assms
    by (auto simp: finish_listener_def handle_failure_def record_failure_def Let_def split: sum.splits if_splits)
qed

lemma waterfall_visits:
  assumes "waterfall C h listeners inner is (r, tr) = ((r', tr'), v)"
  shows "more_calls r r' \<and> ((\<forall>i \<in> set is. never_drops (listeners i)) \<longrightarrow> same_calls r r') \<and> (\<exists>p. prefix p is \<and> tr' = tr @ p)"
  using assms
proof (induction "is" arbitrary: r tr r' tr' v)
  case Nil
  then show ?case using listener_uses_next_once [of inner "\<lambda>s. (s, Inl TypeError)" "\<lambda>s. s" False "(r, tr)"] by auto
next
  case (Cons i rest)
  let ?r1 = "enter_listener C i r" let ?quiet = "\<forall>j \<in> set (i # rest). never_drops (listeners j)"
  obtain r2 tr2 w where run: "run_listener (listeners i) (waterfall C h listeners inner rest) (drop_next C rest) False (?r1, tr @ [i]) = ((r2, tr2), w)"
    by (metis prod.collapse)
  have fin: "finish_listener h i ((r2, tr2), w) = ((r', tr'), v)" using Cons.prems run by simp
  have ran: "(r2, tr2) = (?r1, tr @ [i]) \<or> (r2, tr2) = fst (waterfall C h listeners inner rest (?r1, tr @ [i])) \<or>
      \<not> never_drops (listeners i) \<and> (r2, tr2) = drop_next C rest (?r1, tr @ [i])"
    using listener_uses_next_once [OF run] by blast
  have "more_calls ?r1 r2 \<and> (?quiet \<longrightarrow> same_calls ?r1 r2) \<and> (\<exists>p. prefix p rest \<and> tr2 = (tr @ [i]) @ p)"
    using ran
  proof (elim disjE)
    assume "(r2, tr2) = fst (waterfall C h listeners inner rest (?r1, tr @ [i]))"
    then show ?thesis using Cons.IH [of ?r1 "tr @ [i]" r2 tr2] by (metis prod.collapse list.set_intros(2))
  next
    assume d: "\<not> never_drops (listeners i) \<and> (r2, tr2) = drop_next C rest (?r1, tr @ [i])"
    then have "more_calls ?r1 r2 \<and> tr2 = tr @ [i]"
      using more_calls_enter by (auto simp: drop_next_def split: list.splits if_splits)
    then show ?thesis using d by (intro conjI exI [of _ "[]"]) auto
  qed auto
  then obtain p where p: "more_calls ?r1 r2" "?quiet \<longrightarrow> same_calls ?r1 r2" "prefix p rest" "tr2 = (tr @ [i]) @ p" by blast
  have "same_calls r (release_call i r2)" if ?quiet
    using enter_release [of i "r\<lparr>hr_cordis := co_called C i (hr_cordis r)\<rparr>" r2] p(2) that by (simp add: enter_listener_def)
  moreover have "more_calls r (release_call i r2)" using enter_release_more [OF p(1)] .
  ultimately show ?case using finish_call_calls [OF fin] p(3,4) same_calls_trans more_calls_trans same_more_calls
    by (intro conjI exI [of _ "i # p"]) (blast | simp)+
qed

text \<open>
  An event service for the examples: per hook the callbacks in the order in which they are called.
\<close>

type_synonym event_lists = "string \<Rightarrow> nat list"

definition listed_events :: "event_lists cordis" where
  "listed_events = \<lparr>co_on = \<lambda>name once prepend global i s. s(name := if prepend then i # s name else s name @ [i]),
     co_off = \<lambda>i s name. filter (\<lambda>j. j \<noteq> i) (s name), co_called = \<lambda>i s. s, co_listeners = \<lambda>s. s, co_eager = True\<rparr>"

lemma listed_events_laws: "cordis_laws listed_events"
  by (simp add: cordis_laws_def listed_events_def)

definition new_runtime :: "'c \<Rightarrow> 'c hook_runtime" where
  "new_runtime c = \<lparr>hr_specs = [], hr_entries = [], hr_objects = [], hr_diagnostics = [], hr_cordis = c\<rparr>"

definition build_hook :: hook_spec where
  "build_hook = \<lparr>hs_name = ''agent/build'', hs_domain = ''agent'', hs_mode = Waterfall, hs_failure = Observe, hs_payload = None,
     hs_result = Some [''Result''], hs_default = Some 0, hs_scope = GlobalScope\<rparr>"

definition built_runtime :: "event_lists hook_runtime" where
  "built_runtime = fst (register_hook listed_events build_hook True ''b'' False False False False
     (fst (register_hook listed_events build_hook True ''a'' False False False False (new_runtime (\<lambda>name. [])))))"

lemma built_runtime: "dict_get (hr_specs built_runtime) ''agent/build'' = Some build_hook"
  "co_listeners listed_events (hr_cordis built_runtime) ''agent/build'' = [0, 1]"
  by code_simp+

text \<open>
  C20: Whatever the asynchronous listeners of a hook do - await the rest of the chain, once or twice, call it without
  awaiting it, leave it alone, raise or return - a dispatch runs each of them at most once and in the order in which they
  are registered, never skipping one, and no count of calls under way drops below what it was. When every listener awaits
  what it calls, the dispatch leaves every count as it was: no call stays open.
\<close>

theorem listeners_run_once_in_order:
  assumes "dispatch_waterfall C classes h heard scoped payload listeners inner r = ((r', tr), v)"
    and "is = filter heard (co_listeners C (hr_cordis r) (hs_name h))"
  shows "prefix tr is \<and> list_all2 (\<le>) (map rn_active (hr_objects r)) (map rn_active (hr_objects r')) \<and>
    ((\<forall>i \<in> set is. never_drops (listeners i)) \<longrightarrow> map rn_active (hr_objects r') = map rn_active (hr_objects r))"
proof (cases "waterfall C h listeners inner is (r, [])")
  case (Pair s w)
  obtain r2 tr2 where s: "s = (r2, tr2)" by fastforce
  note v = waterfall_visits [OF Pair [unfolded s]]
  have "r' = r2 \<and> tr = tr2 \<or> r' = r \<and> tr = []"
    using assms Pair s by (auto simp: dispatch_waterfall_def split: if_splits sum.splits)
  then show ?thesis using v more_calls_refl [of r] unfolding more_calls_def same_calls_def by auto
qed

theorem listeners_run_once_in_order_witness:
  "\<exists>r' tr v. dispatch_waterfall listed_events (\<lambda>v. v) build_hook (\<lambda>i. True) True []
     (\<lambda>i. AwaitsNext (\<lambda>a. AwaitsNext (\<lambda>b. Gives (Some [''Result''])))) (Gives None) built_runtime = ((r', tr), v) \<and>
   prefix tr [0, 1] \<and> map rn_active (hr_objects r') = map rn_active (hr_objects built_runtime)"
proof -
  let ?d = "dispatch_waterfall listed_events (\<lambda>v. v) build_hook (\<lambda>i. True) True []
     (\<lambda>i. AwaitsNext (\<lambda>a. AwaitsNext (\<lambda>b. Gives (Some [''Result''])))) (Gives None) built_runtime"
  obtain r' tr v where d: "?d = ((r', tr), v)" by (metis prod.collapse)
  show ?thesis using listeners_run_once_in_order [OF d refl] d built_runtime(2) by (auto simp: build_hook_def)
qed

text \<open>
  A listener that calls \<open>next_()\<close> and does not await it: the listener behind it never runs, but its call has been counted
  and is never given back, so an unload of it waits for ever.
\<close>

lemma dropped_call_stays_open:
  "(case dispatch_waterfall listed_events (\<lambda>v. v) build_hook (\<lambda>i. True) True []
      (\<lambda>i. if i = 0 then DropsNext (\<lambda>u. Gives (Some [''Result''])) else Gives (Some [''Result''])) (Gives None) built_runtime of
     ((r, tr), v) \<Rightarrow> (tr, map rn_active (hr_objects r), map rn_drained (hr_objects r))) = ([0], [0, 1], [True, False])"
  by code_simp

section \<open>A failing observer\<close>

text \<open>
  A hook whose listeners only observe is still stopped by one that fails: the null that stands for the failed
  listener is refused by the type of the result, so the dispatch raises although the policy of the hook is to go on.
\<close>

theorem failing_observer_stops_dispatch:
  assumes "hs_failure h = Observe" and "hs_result h = Some ts" and "''NoneType'' \<notin> set ts"
    and "filter heard (co_listeners C (hr_cordis r) (hs_name h)) = i # rest" and "listeners i = Throws e" and "e \<noteq> Cancelled"
    and "dict_get (hr_specs r) (hs_name h) = Some h" and "scoped" and "has_type classes (hs_payload h) payload"
  shows "snd (dispatch_waterfall C classes h heard scoped payload listeners inner r) = Inl TypeError"
proof -
  have "snd (waterfall C h listeners inner (i # rest) (r, [])) = Inr None"
    using assms(1,5,6) by (simp add: finish_listener_def handle_failure_def record_failure_def Let_def)
  then show ?thesis using assms
    by (auto simp: dispatch_waterfall_def validate_value_def has_type_def result_classes_def list_ex_iff split: prod.splits)
qed

theorem failing_observer_stops_dispatch_witness:
  "snd (dispatch_waterfall listed_events (\<lambda>v. v) build_hook (\<lambda>i. True) True [] (\<lambda>i. Throws KeyError) (Gives (Some [''Result'']))
     built_runtime) = Inl TypeError"
  by (rule failing_observer_stops_dispatch [where ts = "[''Result'']" and i = 0 and rest = "[1]" and e = KeyError])
    (use built_runtime in \<open>simp_all add: build_hook_def has_type_def\<close>)

section \<open>The mirror of the registrations\<close>

text \<open>
  Any sequence of operations: registering, disposing by hand or with the life cycle, and the calls of
  listeners, whose end may come at any later time.
\<close>

inductive hook_step :: "'c cordis \<Rightarrow> 'c hook_runtime \<Rightarrow> 'c hook_runtime \<Rightarrow> bool" for C where
  registered: "hook_step C r (fst (register_hook C h callable owner prepend once scoped all_scopes r))"
| disposed_by_hand: "i < length (hr_objects r) \<Longrightarrow> hook_step C r (fst (dispose_hook C i r))"
| disposed_by_cycle: "i < length (hr_objects r) \<Longrightarrow> hook_step C r (fst (lifecycle_dispose C i r))"
| entered: "i < length (hr_objects r) \<Longrightarrow> hook_step C r (enter_call i (r\<lparr>hr_cordis := co_called C i (hr_cordis r)\<rparr>))"
| left: "i < length (hr_objects r) \<Longrightarrow> 0 < rn_active (hr_objects r ! i) \<Longrightarrow> hook_step C r (mark_once i (release_call i r))"
| failed: "hook_step C r (record_failure h i e r)"

definition reg_ok :: "listener_registration \<Rightarrow> bool" where
  "reg_ok g \<longleftrightarrow> rn_drained g = (rn_active g = 0) \<and> (rn_lifecycle g \<longrightarrow> rn_called g)"

definition mirror_ok :: "listener_registration list \<Rightarrow> nat list \<Rightarrow> nat list \<Rightarrow> bool" where
  "mirror_ok objs entries listeners \<longleftrightarrow> subseq listeners entries \<and> distinct entries \<and>
     (\<forall>i \<in> set entries. i < length objs) \<and> (\<forall>i \<in> set listeners. \<not> rn_called (objs ! i))"

definition runtime_ok :: "'c cordis \<Rightarrow> 'c hook_runtime \<Rightarrow> bool" where
  "runtime_ok C r \<longleftrightarrow> list_all reg_ok (hr_objects r) \<and>
     (\<forall>name. mirror_ok (hr_objects r) (entries_of name r) (co_listeners C (hr_cordis r) name))"

lemma reg_ok_upd: "list_all reg_ok xs \<Longrightarrow> reg_ok x \<Longrightarrow> list_all reg_ok (xs[i := x])"
  using set_update_subset_insert [of xs i x] by (auto simp: list_all_iff)

lemma mirrored_upd: "mirror_ok objs es ls \<Longrightarrow> rn_called x = rn_called (objs ! i) \<Longrightarrow> mirror_ok (objs[i := x]) es ls"
  by (cases "i < length objs") (auto simp: mirror_ok_def nth_list_update list_update_beyond)

lemma mirrored_less: "mirror_ok objs es ls \<Longrightarrow> subseq ls' ls \<Longrightarrow> mirror_ok objs es ls'"
  by (auto simp: mirror_ok_def dest: list_emb_set intro: subseq_order.trans)

lemma mirrored_off: "mirror_ok objs es ls \<Longrightarrow> mirror_ok (objs[i := x]) es (filter (\<lambda>j. j \<noteq> i) ls)"
  by (auto simp: mirror_ok_def intro: subseq_order.trans [OF subseq_filter_left])

lemma runtime_ok_upd:
  assumes "runtime_ok C r" and "reg_ok (f (hr_objects r ! i))" and "rn_called (f (hr_objects r ! i)) = rn_called (hr_objects r ! i)"
  shows "runtime_ok C (upd_reg i f r)"
  using assms by (simp add: runtime_ok_def upd_reg_def entries_of_def reg_ok_upd mirrored_upd)

lemma reg_ok_nth: "runtime_ok C r \<Longrightarrow> i < length (hr_objects r) \<Longrightarrow> reg_ok (hr_objects r ! i)"
  by (simp add: runtime_ok_def list_all_length)

lemma runtime_ok_less:
  assumes "runtime_ok C r" and "\<And>name. subseq (co_listeners C c name) (co_listeners C (hr_cordis r) name)"
  shows "runtime_ok C (r\<lparr>hr_cordis := c\<rparr>)"
  using assms by (auto simp: runtime_ok_def entries_of_def intro: mirrored_less)

lemma dispose_ok:
  assumes "cordis_laws C" and "reg_ok ((hr_objects r ! i)\<lparr>rn_called := True, rn_disposed := True\<rparr>)"
    and "runtime_ok C r0" and "\<not> rn_called (hr_objects r ! i)" and "r = upd_reg i f r0 \<or> r = r0"
  shows "runtime_ok C (fst (dispose_hook C i r))"
proof -
  let ?x = "(hr_objects r ! i)\<lparr>rn_called := True, rn_disposed := True\<rparr>"
  have r: "fst (dispose_hook C i r) = r\<lparr>hr_objects := (hr_objects r)[i := ?x], hr_cordis := co_off C i (hr_cordis r)\<rparr>"
    using assms(4) by (simp add: dispose_hook_def Let_def upd_reg_def)
  have o: "(hr_objects r)[i := ?x] = (hr_objects r0)[i := ?x]" "hr_entries r = hr_entries r0" "hr_cordis r = hr_cordis r0"
    using assms(5) by (auto simp: upd_reg_def)
  have l: "co_listeners C (co_off C i (hr_cordis r0)) name = filter (\<lambda>j. j \<noteq> i) (co_listeners C (hr_cordis r0) name)" for name
    using assms(1) by (simp add: cordis_laws_def)
  show ?thesis using assms(2,3) unfolding r
    by (simp add: runtime_ok_def entries_of_def o l reg_ok_upd mirrored_off)
qed

lemma shift_orders_ok:
  "runtime_ok C r \<Longrightarrow> \<forall>i \<in> set is. i < length (hr_objects r) \<Longrightarrow>
   runtime_ok C (shift_orders is r) \<and> length (hr_objects (shift_orders is r)) = length (hr_objects r) \<and>
   hr_entries (shift_orders is r) = hr_entries r \<and> hr_cordis (shift_orders is r) = hr_cordis r"
proof (induction "is" arbitrary: r)
  case (Cons i js)
  let ?up = "\<lambda>g. g\<lparr>rn_order := rn_order g + 1\<rparr>"
  have "reg_ok (?up (hr_objects r ! i))" using reg_ok_nth [OF Cons.prems(1)] Cons.prems(2) by (auto simp: reg_ok_def)
  then have "runtime_ok C (upd_reg i ?up r)" by (intro runtime_ok_upd [OF Cons.prems(1)]) simp_all
  from Cons.IH [OF this] Cons.prems(2) show ?case by (simp add: shift_orders_def upd_reg_def)
qed (simp add: shift_orders_def)

lemma mirrored_new:
  assumes "mirror_ok objs es ls" and "subseq ls kept" and "set kept \<subseteq> set es" and "distinct kept" and "\<not> rn_called g"
  shows "mirror_ok (objs @ [g]) (length objs # kept) (length objs # ls)"
    and "mirror_ok (objs @ [g]) (kept @ [length objs]) (ls @ [length objs])"
proof -
  have b: "\<forall>i \<in> set kept. i < length objs" using assms(1,3) by (auto simp: mirror_ok_def)
  moreover have "\<forall>i \<in> set ls. i < length objs \<and> \<not> rn_called (objs ! i)"
    using b assms(1,2) by (auto simp: mirror_ok_def dest: list_emb_set)
  ultimately show "mirror_ok (objs @ [g]) (length objs # kept) (length objs # ls)"
    "mirror_ok (objs @ [g]) (kept @ [length objs]) (ls @ [length objs])"
    using assms(2,4,5) by (auto simp: mirror_ok_def nth_append list_emb_append_mono)
qed

lemma mirrored_elsewhere:
  assumes "mirror_ok objs es ls" shows "mirror_ok (objs @ [g]) es ls"
proof -
  have "\<forall>i \<in> set ls. i < length objs" using assms by (auto simp: mirror_ok_def dest: list_emb_set)
  then show ?thesis using assms by (auto simp: mirror_ok_def nth_append)
qed

lemma live_listeners:
  assumes "runtime_ok C r"
  shows "subseq (co_listeners C (hr_cordis r) name) (live_entries name r)"
proof -
  let ?ls = "co_listeners C (hr_cordis r) name"
  have m: "mirror_ok (hr_objects r) (entries_of name r) ?ls" using assms by (simp add: runtime_ok_def)
  have "\<not> rn_lifecycle (hr_objects r ! i)" if "i \<in> set ?ls" for i
  proof -
    have "i < length (hr_objects r)" "\<not> rn_called (hr_objects r ! i)" using m that by (auto simp: mirror_ok_def dest: list_emb_set)
    then show ?thesis using reg_ok_nth [OF assms] by (auto simp: reg_ok_def)
  qed
  then have "filter (\<lambda>i. \<not> rn_lifecycle (hr_objects r ! i)) ?ls = ?ls" by (simp add: filter_id_conv)
  then show ?thesis using m subseq_filter [of ?ls "entries_of name r" "\<lambda>i. \<not> rn_lifecycle (hr_objects r ! i)"]
    by (simp add: mirror_ok_def live_entries_def)
qed

lemma add_registration_ok:
  assumes "cordis_laws C" and "runtime_ok C r" and "reg_ok g" and "\<not> rn_called g"
  shows "runtime_ok C (add_registration C prepend global g r)"
proof -
  let ?name = "hs_name (rn_spec g)" and ?new = "length (hr_objects r)"
  let ?kept = "live_entries ?name r" and ?ls = "co_listeners C (hr_cordis r) ?name"
  define r1 where "r1 = (if prepend then shift_orders ?kept r else r)"
  have kept: "set ?kept \<subseteq> set (entries_of ?name r)" "distinct ?kept" "\<forall>i \<in> set ?kept. i < ?new"
    using assms(2) by (auto simp: live_entries_def runtime_ok_def mirror_ok_def)
  have r1: "runtime_ok C r1" "length (hr_objects r1) = ?new" "hr_entries r1 = hr_entries r" "hr_cordis r1 = hr_cordis r"
    using shift_orders_ok [OF assms(2) kept(3)] assms(2) by (simp_all add: r1_def)
  have m: "mirror_ok (hr_objects r1) (entries_of n r) (co_listeners C (hr_cordis r) n)" for n
    using r1 by (simp add: runtime_ok_def entries_of_def)
  have new: "co_listeners C (co_on C ?name (rn_once g) prepend global ?new (hr_cordis r)) n =
      (if n = ?name then if prepend then ?new # ?ls else ?ls @ [?new] else co_listeners C (hr_cordis r) n)" for n
    using assms(1) by (auto simp: cordis_laws_def)
  let ?t = "add_registration C prepend global g r"
  have t: "hr_objects ?t = hr_objects r1 @ [g]"
    "entries_of n ?t = (if n = ?name then if prepend then ?new # ?kept else ?kept @ [?new] else entries_of n r)"
    "hr_cordis ?t = co_on C ?name (rn_once g) prepend global ?new (hr_cordis r)" for n
    by (auto simp: add_registration_def Let_def r1_def entries_of_def)
  note here = mirrored_new [OF m live_listeners [OF assms(2)] kept(1,2) assms(4), unfolded r1(2)]
  have "mirror_ok (hr_objects ?t) (entries_of n ?t) (co_listeners C (hr_cordis ?t) n)" for n
    using here mirrored_elsewhere [OF m] by (simp add: t new)
  moreover have "list_all reg_ok (hr_objects ?t)" using r1(1) assms(3) by (simp add: t runtime_ok_def)
  ultimately show ?thesis by (simp add: runtime_ok_def)
qed

lemma step_runtime_ok: "hook_step C r r' \<Longrightarrow> cordis_laws C \<Longrightarrow> runtime_ok C r \<Longrightarrow> runtime_ok C r'"
proof (induction rule: hook_step.induct)
  case (registered r h callable owner prepend once scoped all_scopes)
  then show ?case by (simp add: register_hook_def Let_def add_registration_ok reg_ok_def)
next
  case (disposed_by_hand i r)
  show ?case
  proof (cases "rn_called (hr_objects r ! i)")
    case True
    then show ?thesis using disposed_by_hand by (simp add: dispose_hook_def)
  next
    case False
    have "reg_ok ((hr_objects r ! i)\<lparr>rn_called := True, rn_disposed := True\<rparr>)"
      using reg_ok_nth [OF disposed_by_hand(3,1)] by (simp add: reg_ok_def)
    then show ?thesis using dispose_ok [OF disposed_by_hand(2)] disposed_by_hand(3) False by blast
  qed
next
  case (disposed_by_cycle i r)
  let ?f = "\<lambda>g. g\<lparr>rn_lifecycle := True\<rparr>"
  have i: "hr_objects (upd_reg i ?f r) ! i = ?f (hr_objects r ! i)" using disposed_by_cycle(1) by (simp add: upd_reg_def)
  have g: "reg_ok (hr_objects r ! i)" using reg_ok_nth disposed_by_cycle(1,3) by blast
  show ?case
  proof (cases "rn_called (hr_objects r ! i)")
    case True
    then have "runtime_ok C (upd_reg i ?f r)" using g by (intro runtime_ok_upd [OF disposed_by_cycle(3)]) (simp_all add: reg_ok_def)
    then show ?thesis using True i by (simp add: lifecycle_dispose_def dispose_hook_def)
  next
    case False
    have "runtime_ok C (fst (dispose_hook C i (upd_reg i ?f r)))"
      by (rule dispose_ok [OF disposed_by_cycle(2) _ disposed_by_cycle(3), where f = ?f]) (use g i False in \<open>simp_all add: reg_ok_def\<close>)
    then show ?thesis by (simp add: lifecycle_dispose_def)
  qed
next
  case (entered i r)
  have less: "subseq (co_listeners C (co_called C i (hr_cordis r)) n) (co_listeners C (hr_cordis r) n)" for n
  proof -
    have "co_listeners C (co_called C i (hr_cordis r)) n = filter (\<lambda>j. j \<noteq> i) (co_listeners C (hr_cordis r) n) \<or>
        co_listeners C (co_called C i (hr_cordis r)) n = co_listeners C (hr_cordis r) n"
      using entered(2) by (auto simp: cordis_laws_def)
    then show ?thesis by (metis subseq_filter_left subseq_order.refl)
  qed
  have g: "reg_ok (hr_objects r ! i)" using reg_ok_nth entered(1,3) by blast
  have "runtime_ok C (r\<lparr>hr_cordis := co_called C i (hr_cordis r)\<rparr>)" using runtime_ok_less [OF entered(3) less] .
  then show ?case unfolding enter_call_def by (rule runtime_ok_upd) (use g in \<open>auto simp: reg_ok_def\<close>)
next
  case (left i r)
  have g: "reg_ok (hr_objects r ! i)" using reg_ok_nth left(1,4) by blast
  have ok: "runtime_ok C (release_call i r)" unfolding release_call_def
    by (rule runtime_ok_upd [OF left(4)]) (use g left(2) in \<open>auto simp: reg_ok_def\<close>)
  have "length (hr_objects (release_call i r)) = length (hr_objects r)" by (simp add: release_call_def upd_reg_def)
  then have "reg_ok (hr_objects (release_call i r) ! i)" using reg_ok_nth [OF ok] left(1) by presburger
  then have "runtime_ok C (upd_reg i (\<lambda>g. g\<lparr>rn_disposed := True\<rparr>) (release_call i r))"
    by (intro runtime_ok_upd [OF ok]) (simp_all add: reg_ok_def)
  then show ?case using ok by (simp add: mark_once_def)
next
  case (failed r h i e)
  then show ?case by (simp add: handle_failure_def record_failure_def Let_def runtime_ok_def entries_of_def)
qed

text \<open>
  However plugins come and go, the mirror the runtime keeps of its listeners explains the calls: the listeners the
  event service calls for a hook are entries of the mirror, in the same order, none that is disposed among them; and a
  registration is marked as drained exactly when no call of it is under way, which is what an unload waits for.
\<close>

theorem mirror_explains_calls:
  assumes "cordis_laws C" and "\<forall>name. co_listeners C c name = []" and "(hook_step C)\<^sup>*\<^sup>* (new_runtime c) r"
  shows "subseq (co_listeners C (hr_cordis r) name) (entries_of name r) \<and>
    (\<forall>i \<in> set (co_listeners C (hr_cordis r) name). \<not> rn_called (hr_objects r ! i)) \<and>
    (\<forall>g \<in> set (hr_objects r). rn_drained g = (rn_active g = 0))"
proof -
  from assms(3) have "runtime_ok C r"
  proof (induction rule: rtranclp_induct)
    case base
    show ?case using assms(2) by (simp add: new_runtime_def runtime_ok_def mirror_ok_def entries_of_def)
  next
    case (step r r')
    then show ?case using step_runtime_ok [OF step(2) assms(1)] by blast
  qed
  then show ?thesis by (auto simp: runtime_ok_def mirror_ok_def list_all_iff reg_ok_def)
qed

lemma built_runtime_reached: "(hook_step listed_events)\<^sup>*\<^sup>* (new_runtime (\<lambda>name. [])) built_runtime"
  unfolding built_runtime_def
  by (rule rtranclp.rtrancl_into_rtrancl, rule rtranclp.rtrancl_into_rtrancl, rule rtranclp.rtrancl_refl) (rule registered)+

theorem mirror_explains_calls_witness:
  "subseq [0, 1] (entries_of ''agent/build'' built_runtime) \<and> list_all (\<lambda>g. rn_drained g = (rn_active g = 0)) (hr_objects built_runtime)"
  using mirror_explains_calls [OF listed_events_laws _ built_runtime_reached, of "''agent/build''"] built_runtime(2)
  by (simp add: listed_events_def list_all_iff)

end
