(* ===== verification/EventWire.thy ===== *)
theory EventWire
  imports Derive
begin

text \<open>
  Events on the wire. The log keeps an event as a dictionary whose payload is the dump of a payload class
  (\<open>session/events.py\<close>); \<open>_apply_event\<close> of \<open>session/derive.py\<close> reads the dictionary field by field. \<open>dump_data\<close>
  is the dump, \<open>typed_event\<close> the reading, and \<open>fold_dicts\<close> the projection as it runs over the dictionaries of a log.
\<close>

section \<open>Dumps\<close>

definition json_opt :: "('a \<Rightarrow> json) \<Rightarrow> 'a option \<Rightarrow> json" where
  "json_opt f x = (case x of None \<Rightarrow> JNull | Some v \<Rightarrow> f v)"

definition dump_hint :: "hint \<Rightarrow> json" where
  "dump_hint h = (case h of HintText s \<Rightarrow> JStr s | HintParts ps \<Rightarrow> JList ps)"

definition dump_compact :: "compact_data \<Rightarrow> jdict" where
  "dump_compact d =
     [(''mode'', JStr (cd_mode d)), (''summary_text'', JStr (cd_summary_text d)),
      (''through_message_id'', JStr (cd_through_message_id d)), (''trigger'', JStr (cd_trigger d)),
      (''tokens_before'', JInt (cd_tokens_before d)), (''tokens_after'', JInt (cd_tokens_after d)),
      (''tool_results'', JInt (cd_tool_results d)), (''tool_result_ids'', JList (map JStr (cd_tool_result_ids d)))]"

definition dump_turn_end :: "turn_end_data \<Rightarrow> jdict" where
  "dump_turn_end d =
     [(''turn_id'', JStr (te_turn_id d)), (''request_id'', JStr (te_request_id d)), (''outcome'', JStr (te_outcome d)),
      (''reason'', JStr (te_reason d)), (''error'', json_opt JObj (te_error d)), (''usage'', json_opt JObj (te_usage d)),
      (''iterations'', JInt (te_iterations d)), (''metadata'', JObj (te_metadata d))]"

fun dump_data :: "event_data \<Rightarrow> jdict" where
  "dump_data (UserMessage d) =
     [(''content'', um_content d), (''metadata'', JObj (um_metadata d)), (''request_id'', JStr (um_request_id d))]"
| "dump_data (AssistantMessage p) = [(''message'', JObj p)]"
| "dump_data (ToolResult d) =
     [(''tool_call_id'', JStr (tr_tool_call_id d)), (''name'', JStr (tr_name d)), (''output'', JList (tr_output d)),
      (''state'', JStr (tr_state d)), (''metadata'', JObj (tr_metadata d))]"
| "dump_data (HintMessage d) = [(''hint'', dump_hint (hd_hint d)), (''source'', json_opt JStr (hd_source d))]"
| "dump_data (CompactMessage d) = dump_compact d"
| "dump_data (AssistantChunk d) =
     [(''kind'', JStr (ac_kind d)), (''delta'', JStr (ac_delta d)), (''block_id'', json_opt JStr (ac_block_id d)),
      (''tool_call_id'', json_opt JStr (ac_tool_call_id d))]"
| "dump_data (ToolCallStart d) =
     [(''tool_call_id'', JStr (tcs_tool_call_id d)), (''name'', JStr (tcs_name d)), (''arguments'', JObj (tcs_arguments d))]"
| "dump_data (ToolResultStart d) = [(''tool_call_id'', JStr (trs_tool_call_id d)), (''name'', JStr (trs_name d))]"
| "dump_data (ApprovalAsked d) =
     [(''tool_call_id'', JStr (aa_tool_call_id d)), (''name'', JStr (aa_name d)), (''arguments'', JObj (aa_arguments d)),
      (''reason'', JStr (aa_reason d)), (''rule_id'', json_opt JStr (aa_rule_id d))]"
| "dump_data (TurnStart d) =
     [(''turn_id'', JStr (ts_turn_id d)), (''request_id'', JStr (ts_request_id d)), (''trigger'', JStr (ts_trigger d)),
      (''command_name'', JStr (ts_command_name d)), (''agent_id'', JStr (ts_agent_id d)), (''model'', JStr (ts_model d))]"
| "dump_data (TurnRetry d) =
     [(''turn_id'', JStr (try_turn_id d)), (''code'', JStr (try_code d)), (''message'', JStr (try_message d)),
      (''attempt'', JInt (try_attempt d)), (''max_attempts'', JInt (try_max_attempts d))]"
| "dump_data (TurnEnd d) = dump_turn_end d"
| "dump_data (SessionStatus d) = [(''status'', JStr (ss_status d)), (''reason'', JStr (ss_reason d))]"

text \<open>The dictionary of an event in the log.\<close>

definition event_dict :: "event \<Rightarrow> jdict" where
  "event_dict ev =
     [(''type'', JStr (ev_type ev)), (''seq'', JInt (ev_seq ev)), (''time'', JInt (ev_time ev)),
      (''message_id'', json_opt JStr (ev_message_id ev)), (''data'', ev_data ev)]"

section \<open>Reading\<close>

text \<open>\<open>str(data.get(k) or "")\<close>, \<open>dict(data.get(k) or {})\<close>, \<open>list(data.get(k) or [])\<close>.\<close>

definition text_at :: "pylib \<Rightarrow> jdict \<Rightarrow> string \<Rightarrow> string" where
  "text_at L d k = str_or_empty L (dict_get d k)"

definition dict_at :: "pylib \<Rightarrow> jdict \<Rightarrow> string \<Rightarrow> jdict result" where
  "dict_at L d k = (case dict_get d k of None \<Rightarrow> Inr [] | Some v \<Rightarrow> if jtruthy v then py_dict L v else Inr [])"

definition list_at :: "jdict \<Rightarrow> string \<Rightarrow> json list result" where
  "list_at d k = (case dict_get d k of None \<Rightarrow> Inr [] | Some v \<Rightarrow> if jtruthy v then iter_json v else Inr [])"

definition maybe_text :: "jdict \<Rightarrow> string \<Rightarrow> string option" where
  "maybe_text d k = (case dict_get d k of Some (JStr s) \<Rightarrow> Some s | _ \<Rightarrow> None)"

definition maybe_dict :: "jdict \<Rightarrow> string \<Rightarrow> jdict option" where
  "maybe_dict d k = (case dict_get d k of Some (JObj e) \<Rightarrow> Some e | _ \<Rightarrow> None)"

definition number_field :: "jdict \<Rightarrow> string \<Rightarrow> int" where
  "number_field d k = (case dict_get d k of Some (JInt i) \<Rightarrow> i | _ \<Rightarrow> 0)"

text \<open>A hint block accepts a text or a list, and a text or nothing as its source.\<close>

definition read_hint :: "jdict \<Rightarrow> hint_data result" where
  "read_hint d =
     (let source = (case dict_get d ''source'' of None \<Rightarrow> Inr None | Some JNull \<Rightarrow> Inr None | Some (JStr s) \<Rightarrow> Inr (Some s)
                    | _ \<Rightarrow> Inl ValueError)
      in bind_r source (\<lambda>src. case dict_get d ''hint'' of
           Some (JStr s) \<Rightarrow> Inr \<lparr>hd_hint = HintText s, hd_source = src\<rparr>
         | Some (JList ps) \<Rightarrow> Inr \<lparr>hd_hint = HintParts ps, hd_source = src\<rparr>
         | _ \<Rightarrow> Inl ValueError))"

definition read_compact :: "pylib \<Rightarrow> jdict \<Rightarrow> compact_data result" where
  "read_compact L d =
     bind_r (int_or_zero L (dict_get d ''tool_results'')) (\<lambda>n.
     bind_r (int_or_zero L (dict_get d ''tokens_before'')) (\<lambda>before.
     bind_r (int_or_zero L (dict_get d ''tokens_after'')) (\<lambda>after.
     bind_r (list_at d ''tool_result_ids'') (\<lambda>ids.
       Inr \<lparr>cd_mode = text_at L d ''mode'', cd_summary_text = text_at L d ''summary_text'',
         cd_through_message_id = text_at L d ''through_message_id'', cd_trigger = text_at L d ''trigger'',
         cd_tokens_before = before, cd_tokens_after = after, cd_tool_results = n,
         cd_tool_result_ids = map (py_str L) (filter jtruthy ids)\<rparr>))))"

definition read_turn_end :: "pylib \<Rightarrow> jdict \<Rightarrow> turn_end_data result" where
  "read_turn_end L d =
     bind_r (dict_at L d ''metadata'') (\<lambda>meta.
       Inr \<lparr>te_turn_id = text_at L d ''turn_id'', te_request_id = text_at L d ''request_id'',
         te_outcome = text_at L d ''outcome'', te_reason = text_at L d ''reason'', te_error = maybe_dict d ''error'',
         te_usage = maybe_dict d ''usage'', te_iterations = number_field d ''iterations'', te_metadata = meta\<rparr>)"

text \<open>
  The payload by the type of the event. The last six kinds change no message, so the fold does not read them. A type
  that is not known changes nothing either: it is read as a status.
\<close>

definition read_data :: "pylib \<Rightarrow> string \<Rightarrow> jdict \<Rightarrow> event_data result" where
  "read_data L ty d =
     (if ty = ''user/message'' then bind_r (dict_at L d ''metadata'') (\<lambda>meta.
        Inr (UserMessage \<lparr>um_content = get_or d ''content'' JNull, um_metadata = meta, um_request_id = text_at L d ''request_id''\<rparr>))
      else if ty = ''assistant/message'' then (case dict_get d ''message'' of
          Some (JObj p) \<Rightarrow> Inr (AssistantMessage p)
        | Some v \<Rightarrow> if jtruthy v then Inl ValueError else Inr (AssistantMessage [])
        | None \<Rightarrow> Inr (AssistantMessage []))
      else if ty = ''tool/result'' then bind_r (list_at d ''output'') (\<lambda>output. bind_r (dict_at L d ''metadata'') (\<lambda>meta.
        Inr (ToolResult \<lparr>tr_tool_call_id = text_at L d ''tool_call_id'', tr_name = text_at L d ''name'', tr_output = output,
          tr_state = text_at L d ''state'', tr_metadata = meta\<rparr>)))
      else if ty = ''hint/message'' then bind_r (read_hint d) (\<lambda>h. Inr (HintMessage h))
      else if ty = ''compact/message'' then bind_r (read_compact L d) (\<lambda>c. Inr (CompactMessage c))
      else if ty = ''assistant/chunk'' then
        Inr (AssistantChunk \<lparr>ac_kind = text_at L d ''kind'', ac_delta = text_at L d ''delta'',
          ac_block_id = maybe_text d ''block_id'', ac_tool_call_id = maybe_text d ''tool_call_id''\<rparr>)
      else if ty = ''tool/call-start'' then bind_r (dict_at L d ''arguments'') (\<lambda>args.
        Inr (ToolCallStart \<lparr>tcs_tool_call_id = text_at L d ''tool_call_id'', tcs_name = text_at L d ''name'', tcs_arguments = args\<rparr>))
      else if ty = ''tool/result-start'' then
        Inr (ToolResultStart \<lparr>trs_tool_call_id = text_at L d ''tool_call_id'', trs_name = text_at L d ''name''\<rparr>)
      else if ty = ''turn/end'' then bind_r (read_turn_end L d) (\<lambda>t. Inr (TurnEnd t))
      else if ty = ''approval/asked'' then
        Inr (ApprovalAsked \<lparr>aa_tool_call_id = text_at L d ''tool_call_id'', aa_name = text_at L d ''name'',
          aa_arguments = (case maybe_dict d ''arguments'' of None \<Rightarrow> [] | Some a \<Rightarrow> a), aa_reason = text_at L d ''reason'',
          aa_rule_id = maybe_text d ''rule_id''\<rparr>)
      else if ty = ''turn/start'' then
        Inr (TurnStart \<lparr>ts_turn_id = text_at L d ''turn_id'', ts_request_id = text_at L d ''request_id'',
          ts_trigger = text_at L d ''trigger'', ts_command_name = text_at L d ''command_name'',
          ts_agent_id = text_at L d ''agent_id'', ts_model = text_at L d ''model''\<rparr>)
      else if ty = ''turn/retry'' then
        Inr (TurnRetry \<lparr>try_turn_id = text_at L d ''turn_id'', try_code = text_at L d ''code'', try_message = text_at L d ''message'',
          try_attempt = number_field d ''attempt'', try_max_attempts = number_field d ''max_attempts''\<rparr>)
      else Inr (SessionStatus \<lparr>ss_status = text_at L d ''status'', ss_reason = text_at L d ''reason''\<rparr>))"

text \<open>The envelope; \<open>data\<close> of another kind than a dictionary has no \<open>get\<close>.\<close>

definition event_payload :: "jdict \<Rightarrow> jdict result" where
  "event_payload e = (case dict_get e ''data'' of
     Some (JObj d) \<Rightarrow> Inr d | Some v \<Rightarrow> if jtruthy v then Inl AttributeError else Inr [] | None \<Rightarrow> Inr [])"

definition event_number :: "jdict \<Rightarrow> int" where
  "event_number e = (case dict_get e ''seq'' of
     Some (JInt i) \<Rightarrow> i | Some (JBool b) \<Rightarrow> (if b then 1 else 0) | Some (JFloat m x) \<Rightarrow> trunc_float m x | _ \<Rightarrow> -1)"

definition typed_event :: "pylib \<Rightarrow> jdict \<Rightarrow> session_event result" where
  "typed_event L e =
     bind_r (int_or_zero L (dict_get e ''time'')) (\<lambda>time. bind_r (event_payload e) (\<lambda>d.
     bind_r (read_data L (text_at L e ''type'') d) (\<lambda>data.
       Inr \<lparr>se_seq = event_number e, se_time = time, se_message_id = maybe_text e ''message_id'', se_data = data\<rparr>)))"

definition apply_dict :: "pylib \<Rightarrow> pydantic \<Rightarrow> string \<Rightarrow> fold_state \<Rightarrow> jdict \<Rightarrow> fold_state result" where
  "apply_dict L P now st e = bind_r (typed_event L e) (apply_event L P now st)"

definition fold_dicts :: "pylib \<Rightarrow> pydantic \<Rightarrow> string \<Rightarrow> jdict list \<Rightarrow> msg list result" where
  "fold_dicts L P now es = bind_r (fold_r (apply_dict L P now) empty_fold es) (\<lambda>st. Inr (messages_of st))"

section \<open>What is written is read back\<close>

text \<open>The event a typed payload becomes when the log commits it.\<close>

definition wire_event :: "session_event \<Rightarrow> event" where
  "wire_event ev = \<lparr>ev_type = event_type (se_data ev), ev_seq = se_seq ev, ev_time = se_time ev,
     ev_message_id = se_message_id ev, ev_data = JObj (dump_data (se_data ev))\<rparr>"

definition ids_named :: "event_data \<Rightarrow> bool" where
  "ids_named d = (case d of CompactMessage c \<Rightarrow> [] \<notin> set (cd_tool_result_ids c) | _ \<Rightarrow> True)"

lemma fields [simp]:
  "text_at L ((k, JStr s) # d) k = s"
  "k' \<noteq> k \<Longrightarrow> text_at L ((k', v) # d) k = text_at L d k"
  "maybe_text ((k, json_opt JStr x) # d) k = x"
  "k' \<noteq> k \<Longrightarrow> maybe_text ((k', v) # d) k = maybe_text d k"
  "maybe_dict ((k, json_opt JObj y) # d) k = y"
  "maybe_dict ((k, JObj z) # d) k = Some z"
  "k' \<noteq> k \<Longrightarrow> maybe_dict ((k', v) # d) k = maybe_dict d k"
  "number_field ((k, JInt i) # d) k = i"
  "k' \<noteq> k \<Longrightarrow> number_field ((k', v) # d) k = number_field d k"
  "dict_at L ((k, JObj z) # d) k = Inr z"
  "k' \<noteq> k \<Longrightarrow> dict_at L ((k', v) # d) k = dict_at L d k"
  "list_at ((k, JList xs) # d) k = Inr xs"
  "k' \<noteq> k \<Longrightarrow> list_at ((k', v) # d) k = list_at d k"
  by (auto simp: text_at_def maybe_text_def maybe_dict_def number_field_def dict_at_def list_at_def json_opt_def
    py_dict_def iter_json_def split: option.splits)

lemma read_hint_dump: "read_hint (dump_data (HintMessage h)) = Inr h"
  by (cases h) (auto simp: read_hint_def json_opt_def dump_hint_def split: option.splits hint.splits)

lemma read_compact_dump:
  assumes "[] \<notin> set (cd_tool_result_ids c)"
  shows "read_compact L (dump_compact c) = Inr c"
proof -
  have "int_or_zero L (Some (JInt i)) = Inr i" for i by (simp add: int_or_zero_def)
  moreover have "map (py_str L) (filter jtruthy (map JStr (cd_tool_result_ids c))) = cd_tool_result_ids c"
    using assms by (induction "cd_tool_result_ids c" arbitrary: c) (auto simp: filter_map comp_def py_str_def filter_id_conv intro!: map_idI)
  ultimately show ?thesis by (simp add: read_compact_def dump_compact_def)
qed

lemma read_turn_end_dump: "read_turn_end L (dump_turn_end t) = Inr t"
  by (simp add: read_turn_end_def dump_turn_end_def)

lemma read_dump: "ids_named d \<Longrightarrow> read_data L (event_type d) (dump_data d) = Inr d"
proof (cases d)
  case (HintMessage h)
  then show ?thesis using read_hint_dump [of h] by (simp add: read_data_def del: dump_data.simps)
qed (auto simp: read_data_def get_or_def ids_named_def read_compact_dump read_turn_end_dump)

theorem wire_event_reads_back:
  assumes "ids_named (se_data ev)"
  shows "typed_event L (event_dict (wire_event ev)) = Inr ev"
proof -
  have "int_or_zero L (Some (JInt i)) = Inr i" for i by (simp add: int_or_zero_def)
  then show ?thesis using read_dump [OF assms]
    by (simp add: typed_event_def event_dict_def wire_event_def event_payload_def event_number_def)
qed

lemma fold_dicts_typed:
  assumes "\<forall>ev \<in> set evs. ids_named (se_data ev)"
  shows "fold_dicts L P now (map (event_dict \<circ> wire_event) evs) = derive_messages L P now evs"
proof -
  have "fold_r (apply_dict L P now) st (map (event_dict \<circ> wire_event) evs) = fold_r (apply_event L P now) st evs" for st
    using assms by (induction evs arbitrary: st) (auto simp: apply_dict_def wire_event_reads_back intro!: arg_cong2 [where f = bind_r])
  then show ?thesis by (simp add: fold_dicts_def derive_messages_def fold_events_def)
qed

lemma fold_dicts_Nil [simp]: "fold_dicts L P now [] = Inr []"
  by (simp add: fold_dicts_def messages_of_def empty_fold_def)

end
