(* ===== verification/LegacyLog.thy ===== *)
theory LegacyLog
  imports EventWire "HOL-Library.Sublist"
begin

text \<open>
  The event logs of older versions (\<open>src/ftre/services/session/persistence/snapshot.py\<close>): a session that still
  has a \<open>session.jsonl\<close> is read once, repaired where the process died in a turn, and turned into messages. A line
  of the file is blank, broken (not JSON or not text), or a JSON value.
\<close>

datatype legacy_line = BlankLine | BrokenLine | JsonLine json

section \<open>Rows of chunks\<close>

definition row_kind :: "json option \<Rightarrow> string option" where
  "row_kind ty =
     (if ty = Some (JStr ''text-chunks'') then Some ''text''
      else if ty = Some (JStr ''thinking-chunks'') then Some ''thinking''
      else if ty = Some (JStr ''tool-result-chunks'') then Some ''tool_result_text''
      else None)"

definition int_of :: "json \<Rightarrow> int option" where
  "int_of j = (case j of JInt i \<Rightarrow> Some i | JBool b \<Rightarrow> Some (if b then 1 else 0) | _ \<Rightarrow> None)"

definition str_of :: "json \<Rightarrow> string option" where
  "str_of j = (case j of JStr s \<Rightarrow> Some s | _ \<Rightarrow> None)"

definition all_of :: "('a \<Rightarrow> 'b option) \<Rightarrow> 'a list \<Rightarrow> 'b list option" where
  "all_of f xs = (if list_all (\<lambda>x. f x \<noteq> None) xs then Some (map (the \<circ> f) xs) else None)"

definition list_in :: "jdict \<Rightarrow> string \<Rightarrow> json list option" where
  "list_in d k = (case dict_get d k of Some (JList xs) \<Rightarrow> Some xs | _ \<Rightarrow> None)"

definition chunk_of_row :: "jdict \<Rightarrow> string \<Rightarrow> jdict \<Rightarrow> int \<Rightarrow> int \<Rightarrow> string \<Rightarrow> jdict" where
  "chunk_of_row row kind data seq time delta =
     [(''type'', JStr ''assistant/chunk''), (''seq'', JInt seq), (''time'', JInt time),
      (''message_id'', get_or row ''message_id'' JNull),
      (''data'', JObj [(''kind'', JStr kind), (''delta'', JStr delta), (''block_id'', get_or data ''block_id'' JNull),
        (''tool_call_id'', get_or data ''tool_call_id'' JNull)])]"

text \<open>\<open>time0\<close> is the time of the first delta, \<open>dt\<close> the gaps before the others.\<close>

fun row_events :: "(int \<Rightarrow> int \<Rightarrow> string \<Rightarrow> jdict) \<Rightarrow> int \<Rightarrow> int \<Rightarrow> string list \<Rightarrow> int list \<Rightarrow> jdict list" where
  "row_events mk seq time [] gaps = []"
| "row_events mk seq time (x # xs) [] = mk seq time x # row_events mk (seq + 1) time xs []"
| "row_events mk seq time (x # xs) (g # gs) = mk seq time x # row_events mk (seq + 1) (time + g) xs gs"

definition decode_legacy_row :: "jdict \<Rightarrow> jdict list result" where
  "decode_legacy_row row =
     (case row_kind (dict_get row ''type'') of
        None \<Rightarrow> Inr [row]
      | Some kind \<Rightarrow>
          if fst ` set row \<noteq> {''type'', ''seq0'', ''time0'', ''message_id'', ''data''} then Inl ValueError
          else (case (int_of (get_or row ''seq0'' JNull), int_of (get_or row ''time0'' JNull), maybe_dict row ''data'') of
              (Some seq0, Some time0, Some data) \<Rightarrow>
                if fst ` set data \<noteq> {''kind'', ''block_id'', ''tool_call_id'', ''dt'', ''deltas''} \<or> dict_get data ''kind'' \<noteq> Some (JStr kind)
                then Inl ValueError
                else (case (list_in data ''deltas'', list_in data ''dt'') of
                    (Some raw, Some raw_gaps) \<Rightarrow>
                      (case (all_of str_of raw, all_of int_of raw_gaps) of
                         (Some deltas, Some gaps) \<Rightarrow>
                           if length deltas < 3 \<or> length gaps + 1 \<noteq> length deltas then Inl ValueError
                           else Inr (row_events (chunk_of_row row kind data) seq0 time0 deltas gaps)
                       | _ \<Rightarrow> Inl ValueError)
                  | _ \<Rightarrow> Inl ValueError)
            | _ \<Rightarrow> Inl ValueError))"

lemma length_row_events [simp]: "length (row_events mk seq time xs gs) = length xs"
  by (induction mk seq time xs gs rule: row_events.induct) simp_all

section \<open>Reading a file\<close>

text \<open>
  The events read and, when the last line was torn, the number of lines the file is cut to.
\<close>

definition last_nonblank :: "legacy_line list \<Rightarrow> nat option" where
  "last_nonblank ls = (case filter (\<lambda>i. ls ! i \<noteq> BlankLine) [0..<length ls] of [] \<Rightarrow> None | is \<Rightarrow> Some (last is))"

definition is_header :: "nat \<Rightarrow> jdict \<Rightarrow> bool" where
  "is_header index d \<longleftrightarrow> index = 0 \<and> dict_get d ''format'' = Some (JStr ''ftre-session-log'')"

definition read_line :: "nat \<Rightarrow> json \<Rightarrow> jdict list result" where
  "read_line index j =
     (case j of
        JObj d \<Rightarrow>
          if is_header index d then
            (if equals_int (get_or d ''v'' JNull) 1 then Inr [] else Inl ValueError)
          else if \<not> hashable (get_or d ''type'' JNull) then Inl TypeError
          else if row_kind (dict_get d ''type'') \<noteq> None then decode_legacy_row d
          else if dict_get d ''type'' \<noteq> None \<and> dict_get d ''seq'' \<noteq> None then Inr [d]
          else Inl ValueError
      | _ \<Rightarrow> Inl TypeError)"

fun read_lines :: "nat option \<Rightarrow> nat \<Rightarrow> legacy_line list \<Rightarrow> (jdict list \<times> nat option) result" where
  "read_lines last_line index [] = Inr ([], None)"
| "read_lines last_line index (BlankLine # ls) = read_lines last_line (Suc index) ls"
| "read_lines last_line index (BrokenLine # ls) = (if last_line = Some index then Inr ([], Some index) else Inl ValueError)"
| "read_lines last_line index (JsonLine j # ls) =
     bind_r (read_line index j) (\<lambda>es. bind_r (read_lines last_line (Suc index) ls) (\<lambda>(rest, cut). Inr (es @ rest, cut)))"

definition read_legacy_events :: "legacy_line list \<Rightarrow> (jdict list \<times> nat option) result" where
  "read_legacy_events ls = read_lines (last_nonblank ls) 0 ls"

section \<open>Repair\<close>

record repair_state =
  rp_calls :: "(string, string \<times> string) dict"
  rp_turn :: "jdict option"
  rp_assistant :: "string option"

definition nothing_open :: repair_state where
  "nothing_open = \<lparr>rp_calls = [], rp_turn = None, rp_assistant = None\<rparr>"

definition scan_step :: "pylib \<Rightarrow> json option \<Rightarrow> jdict \<Rightarrow> jdict \<Rightarrow> repair_state \<Rightarrow> repair_state" where
  "scan_step L ty e d st =
     (if ty = Some (JStr ''turn/start'') then \<lparr>rp_calls = [], rp_turn = Some d, rp_assistant = None\<rparr>
      else if ty = Some (JStr ''turn/end'') then nothing_open
      else if ty = Some (JStr ''tool/call-start'') \<and> rp_turn st \<noteq> None then
        (let owner = str_or_default L (dict_get e ''message_id'') (opt_str (rp_assistant st));
             call = text_at L d ''tool_call_id''
         in st\<lparr>rp_assistant := Some owner,
               rp_calls := (if call \<noteq> [] then dict_set call (text_at L d ''name'', owner) (rp_calls st) else rp_calls st)\<rparr>)
      else if ty \<in> {Some (JStr ''assistant/chunk''), Some (JStr ''assistant/message''), Some (JStr ''hint/message'')} \<and> rp_turn st \<noteq> None then
        (let mid = text_at L e ''message_id'' in if mid \<noteq> [] then st\<lparr>rp_assistant := Some mid\<rparr> else st)
      else if ty = Some (JStr ''tool/result'') then
        st\<lparr>rp_calls := dict_pop (text_at L d ''tool_call_id'') (rp_calls st)\<rparr>
      else st)"

definition scan_event :: "pylib \<Rightarrow> repair_state \<Rightarrow> jdict \<Rightarrow> repair_state result" where
  "scan_event L st e = bind_r (event_payload e) (\<lambda>d. Inr (scan_step L (dict_get e ''type'') e d st))"

definition scan_events :: "pylib \<Rightarrow> jdict list \<Rightarrow> repair_state result" where
  "scan_events L es = fold_r (scan_event L) nothing_open es"

definition crashed_text :: string where
  "crashed_text = ''[CRASHED] '' @ [CHR 0xE6, CHR 0x89, CHR 0xA7, CHR 0xE8, CHR 0xA1, CHR 0x8C, CHR 0xE4, CHR 0xB8, CHR 0xAD, CHR 0xE6, CHR 0x96,
     CHR 0xAD, CHR 0xEF, CHR 0xBC, CHR 0x8C, CHR 0xE7, CHR 0xBB, CHR 0x93, CHR 0xE6, CHR 0x9E, CHR 0x9C, CHR 0xE6, CHR 0x9C, CHR 0xAA, CHR 0xE7, CHR 0x9F, CHR 0xA5]"

definition crashed_message :: string where
  "crashed_message = ''Gateway '' @ [CHR 0xE5, CHR 0xBC, CHR 0x82, CHR 0xE5, CHR 0xB8, CHR 0xB8, CHR 0xE9, CHR 0x80, CHR 0x80, CHR 0xE5, CHR 0x87, CHR 0xBA,
     CHR 0xEF, CHR 0xBC, CHR 0x8C] @ ''turn '' @ [CHR 0xE7, CHR 0x94, CHR 0xB1] @ '' migration '' @ [CHR 0xE6, CHR 0x94, CHR 0xB6, CHR 0xE5, CHR 0xB0, CHR 0xBE]"

definition or_null :: "string \<Rightarrow> json" where
  "or_null s = (if s = [] then JNull else JStr s)"

definition synthetic :: "(string \<times> json)" where
  "synthetic = (''metadata'', JObj [(''synthetic'', JBool True)])"

definition repaired_result :: "int \<Rightarrow> nat \<Rightarrow> string \<times> string \<times> string \<Rightarrow> jdict" where
  "repaired_result now seq call =
     (case call of (tool, name, owner) \<Rightarrow>
       [(''type'', JStr ''tool/result''), (''seq'', JInt (int seq)), (''time'', JInt now), (''message_id'', or_null owner),
        (''data'', JObj [(''tool_call_id'', JStr tool), (''name'', JStr name),
          (''output'', JList [JObj [(''type'', JStr ''text''), (''text'', JStr crashed_text)]]),
          (''state'', JStr ''interrupted''), synthetic])])"

definition repaired_end :: "pylib \<Rightarrow> int \<Rightarrow> nat \<Rightarrow> repair_state \<Rightarrow> jdict \<Rightarrow> jdict" where
  "repaired_end L now seq st turn =
     [(''type'', JStr ''turn/end''), (''seq'', JInt (int seq)), (''time'', JInt now), (''message_id'', json_opt JStr (rp_assistant st)),
      (''data'', JObj [(''turn_id'', JStr (text_at L turn ''turn_id'')), (''request_id'', JStr (text_at L turn ''request_id'')),
        (''outcome'', JStr ''cancelled''), (''reason'', JStr ''crashed''),
        (''error'', JObj [(''code'', JStr ''crashed''), (''message'', JStr crashed_message)]),
        (''usage'', JNull), (''iterations'', JInt 0), synthetic])]"

definition repair_events :: "pylib \<Rightarrow> int \<Rightarrow> nat \<Rightarrow> repair_state \<Rightarrow> jdict list" where
  "repair_events L now n st =
     (let calls = rp_calls st;
          results = map (\<lambda>(i, call). repaired_result now (n + i) call) (zip [0..<length calls] calls)
      in results @ (case rp_turn st of None \<Rightarrow> [] | Some turn \<Rightarrow> [repaired_end L now (n + length calls) st turn]))"

definition repair_legacy_events :: "pylib \<Rightarrow> int \<Rightarrow> jdict list \<Rightarrow> jdict list result" where
  "repair_legacy_events L now es = bind_r (scan_events L es) (\<lambda>st. Inr (es @ repair_events L now (length es) st))"

section \<open>A repaired log is at rest\<close>

definition repair_ok :: "repair_state \<Rightarrow> bool" where
  "repair_ok st \<longleftrightarrow> dict_wf (rp_calls st) \<and> (rp_turn st = None \<longrightarrow> st = nothing_open)"

lemma scan_step_ok: "repair_ok st \<Longrightarrow> repair_ok (scan_step L ty e d st)"
  by (cases "rp_turn st") (simp_all add: scan_step_def Let_def repair_ok_def nothing_open_def)

lemma scan_event_ok: "scan_event L st e = Inr st' \<Longrightarrow> repair_ok st \<Longrightarrow> repair_ok st'"
  by (auto simp: scan_event_def bind_r_Inr_iff scan_step_ok)

lemma scan_events_ok:
  assumes "scan_events L es = Inr st" shows "repair_ok st"
proof -
  have "fold_r (scan_event L) s es = Inr s' \<Longrightarrow> repair_ok s \<Longrightarrow> repair_ok s'" for s s'
    by (induction es arbitrary: s) (auto simp: bind_r_Inr_iff dest: scan_event_ok)
  then show ?thesis using assms by (simp add: scan_events_def repair_ok_def nothing_open_def)
qed

lemma scan_result:
  "scan_event L st (repaired_result now n (tool, name, owner)) = Inr (st\<lparr>rp_calls := dict_pop tool (rp_calls st)\<rparr>)"
  by (simp add: scan_event_def scan_step_def repaired_result_def event_payload_def)

lemma scan_end: "scan_event L st (repaired_end L now n s turn) = Inr nothing_open"
  by (simp add: scan_event_def scan_step_def repaired_end_def event_payload_def)

lemma scan_results:
  assumes "dict_wf (rp_calls st)"
  shows "fold_r (scan_event L) st (map (\<lambda>(i, call). repaired_result now (n + i) call) (zip [k..<k + length (rp_calls st)] (rp_calls st))) =
    Inr (st\<lparr>rp_calls := []\<rparr>)"
  using assms
proof (induction "rp_calls st" arbitrary: st k)
  case (Cons c cs)
  obtain tool name owner where c: "c = (tool, name, owner)" by (cases c) auto
  let ?st = "st\<lparr>rp_calls := cs\<rparr>"
  have calls: "rp_calls st = (tool, name, owner) # cs" using Cons.hyps(2) c by simp
  have pop: "dict_pop tool (rp_calls st) = cs"
    using Cons.prems unfolding calls by (simp add: dict_pop_filter filter_id_conv) force
  then have pop': "dict_pop tool cs = cs" by (simp add: calls dict_pop_filter)
  have "[k..<k + length (rp_calls st)] = k # [Suc k..<Suc k + length cs]" by (simp add: calls upt_conv_Cons del: upt_Suc)
  moreover have "fold_r (scan_event L) ?st (map (\<lambda>(i, call). repaired_result now (n + i) call) (zip [Suc k..<Suc k + length cs] cs)) =
      Inr (st\<lparr>rp_calls := []\<rparr>)"
    using Cons.hyps(1) [of ?st "Suc k"] Cons.prems by (simp add: calls)
  ultimately show ?case by (simp add: calls scan_result pop' del: upt_Suc)
qed simp

text \<open>
  A log that broke off in the middle of a turn is closed by its repair: every tool call that was open gets a result and
  the turn an end, so a second repair finds nothing to add; what the log held is kept as it was.
\<close>

theorem repair_closes_log:
  assumes "repair_legacy_events L now es = Inr es'"
  shows "repair_legacy_events L later es' = Inr es' \<and> prefix es es' \<and> scan_events L es' = Inr nothing_open"
proof -
  obtain st where st: "scan_events L es = Inr st" and es': "es' = es @ repair_events L now (length es) st"
    using assms by (auto simp: repair_legacy_events_def bind_r_Inr_iff)
  have ok: "repair_ok st" using scan_events_ok [OF st] .
  let ?results = "map (\<lambda>(i, call). repaired_result now (length es + i) call) (zip [0..<length (rp_calls st)] (rp_calls st))"
  have results: "fold_r (scan_event L) st ?results = Inr (st\<lparr>rp_calls := []\<rparr>)"
    using scan_results [of st L now "length es" 0] ok by (simp add: repair_ok_def)
  have "fold_r (scan_event L) st (repair_events L now (length es) st) = Inr nothing_open"
  proof (cases "rp_turn st")
    case None
    then show ?thesis using ok by (simp add: repair_ok_def nothing_open_def repair_events_def)
  next
    case (Some turn)
    then show ?thesis using results by (simp add: repair_events_def Let_def fold_r_append scan_end)
  qed
  then have closed: "scan_events L es' = Inr nothing_open"
    using st by (simp add: scan_events_def es' fold_r_append)
  then show ?thesis by (simp add: es' repair_legacy_events_def repair_events_def nothing_open_def)
qed

definition torn_log :: "jdict list" where
  "torn_log =
     [[(''type'', JStr ''turn/start''), (''seq'', JInt 0), (''time'', JInt 5), (''data'', JObj [(''turn_id'', JStr ''t'')])],
      [(''type'', JStr ''tool/call-start''), (''seq'', JInt 1), (''time'', JInt 6), (''message_id'', JStr ''m''),
       (''data'', JObj [(''tool_call_id'', JStr ''c''), (''name'', JStr ''shell'')])]]"

theorem repair_closes_log_witness:
  "\<exists>es'. repair_legacy_events sample_lib 7 torn_log = Inr es' \<and> length es' = 4 \<and> repair_legacy_events sample_lib 9 es' = Inr es'"
proof -
  have "(case repair_legacy_events sample_lib 7 torn_log of Inl e \<Rightarrow> False | Inr es' \<Rightarrow> length es' = 4)" by code_simp
  then show ?thesis using repair_closes_log [of sample_lib 7 torn_log] by (auto split: sum.splits)
qed

end
