(* ===== verification/SessionStore.thy ===== *)
theory SessionStore
  imports LegacyLog
begin

text \<open>
  Sessions on disk: the file of a session (\<open>src/ftre/services/session/entity/state.py\<close>), the directory that
  holds them (\<open>persistence/json_store.py\<close>) and the repository over both (\<open>persistence/repository.py\<close>).

  A directory holds at most one \<open>session.json\<close>, whose content is a JSON value or cannot be read, an event log of an
  older version, quarantined files, and other files. Validation of a file is Pydantic's: a parameter with \<open>meta_laws\<close>.
  A write succeeds or fails; the retries of a replace that fails for a moment are part of the write.
\<close>

section \<open>The file of a session\<close>

record session_header =
  sh_id :: string
  sh_agent :: string
  sh_channel :: string
  sh_title :: string
  sh_workspace :: string
  sh_created :: string
  sh_updated :: string
  sh_last_user_text :: string

record session_file =
  sf_version :: int
  sf_header :: session_header
  sf_metadata :: jdict
  sf_seq :: int
  sf_messages :: "json list"
  sf_requests :: "(string, jdict) dict"
  sf_extensions :: jdict
  sf_extra :: jdict

definition CURRENT_SCHEMA_VERSION :: int where
  "CURRENT_SCHEMA_VERSION = 5"

definition SUPPORTED_SCHEMA_VERSIONS :: "int list" where
  "SUPPORTED_SCHEMA_VERSIONS = [2, 3, 4, CURRENT_SCHEMA_VERSION]"

definition dump_header :: "session_header \<Rightarrow> jdict" where
  "dump_header h =
     [(''id'', JStr (sh_id h)), (''agent_id'', JStr (sh_agent h)), (''channel_id'', JStr (sh_channel h)),
      (''title'', JStr (sh_title h)), (''workspace'', JStr (sh_workspace h)), (''created_at'', JStr (sh_created h)),
      (''updated_at'', JStr (sh_updated h)), (''last_user_text'', JStr (sh_last_user_text h))]"

definition dump_file :: "session_file \<Rightarrow> jdict" where
  "dump_file f =
     [(''schema_version'', JInt (sf_version f)), (''session'', JObj (dump_header (sf_header f))),
      (''metadata'', JObj (sf_metadata f)), (''seq'', JInt (sf_seq f)), (''messages'', JList (sf_messages f)),
      (''requests'', JObj (map (\<lambda>(k, r). (k, JObj r)) (sf_requests f))), (''extensions'', JObj (sf_extensions f))]
     @ sf_extra f"

definition field_names :: "string list" where
  "field_names = [''schema_version'', ''session'', ''metadata'', ''seq'', ''messages'', ''requests'', ''extensions'']"

text \<open>Versions before 5 had a cursor and a revision; the cursor became \<open>seq\<close>.\<close>

definition cursor_seq :: "json option \<Rightarrow> int" where
  "cursor_seq c = (case c of
     Some (JInt i) \<Rightarrow> i | Some (JBool b) \<Rightarrow> (if b then 1 else 0) | Some (JFloat m e) \<Rightarrow> trunc_float m e | _ \<Rightarrow> -1)"

definition normalize_meta :: "jdict \<Rightarrow> jdict" where
  "normalize_meta d =
     (let old = dict_pop ''revision'' (dict_pop ''cursor'' d)
      in if equals_int (get_or d ''schema_version'' JNull) CURRENT_SCHEMA_VERSION then old
         else dict_set ''schema_version'' (JInt CURRENT_SCHEMA_VERSION)
           (if dict_get old ''seq'' = None then dict_set ''seq'' (JInt (cursor_seq (dict_get d ''cursor''))) old else old))"

type_synonym validator = "jdict \<Rightarrow> session_file result"

definition parse_session_meta :: "validator \<Rightarrow> json \<Rightarrow> session_file result" where
  "parse_session_meta V j =
     (case j of
        JObj d \<Rightarrow>
          (let version = get_or d ''schema_version'' JNull
           in if \<not> hashable version then Inl TypeError
              else if \<not> list_ex (equals_int version) SUPPORTED_SCHEMA_VERSIONS then Inl ValueError
              else V (normalize_meta d))
      | _ \<Rightarrow> Inl ValueError)"

text \<open>A file as the code writes it: of the current version, and what plugins added is no field of the model.\<close>

definition file_wf :: "session_file \<Rightarrow> bool" where
  "file_wf f \<longleftrightarrow> sf_version f = CURRENT_SCHEMA_VERSION \<and>
     fst ` set (sf_extra f) \<inter> set ([''cursor'', ''revision''] @ field_names) = {}"

text \<open>
  Pydantic: a dump validates to what was dumped, keys that are no fields are kept as they are, and \<open>schema_version\<close>
  is taken from the data.
\<close>

definition meta_laws :: "validator \<Rightarrow> bool" where
  "meta_laws V \<longleftrightarrow> (\<forall>f. file_wf f \<longrightarrow> V (dump_file f) = Inr f) \<and>
     (\<forall>d f. V d = Inr f \<longrightarrow> fst ` set (sf_extra f) \<subseteq> fst ` set d - set field_names \<and>
       (equals_int (get_or d ''schema_version'' JNull) CURRENT_SCHEMA_VERSION \<longrightarrow> sf_version f = CURRENT_SCHEMA_VERSION))"

lemma equals_five: "equals_int (JInt CURRENT_SCHEMA_VERSION) CURRENT_SCHEMA_VERSION"
  by (simp add: equals_int_def)

lemma normalized_keys: "''cursor'' \<notin> fst ` set (normalize_meta d)" "''revision'' \<notin> fst ` set (normalize_meta d)"
proof -
  have "dict_get (normalize_meta d) ''cursor'' = None" "dict_get (normalize_meta d) ''revision'' = None"
    by (simp_all add: normalize_meta_def Let_def)
  then show "''cursor'' \<notin> fst ` set (normalize_meta d)" "''revision'' \<notin> fst ` set (normalize_meta d)"
    by (simp_all add: map_of_eq_None_iff)
qed

lemma normalized_version:
  "equals_int (get_or (normalize_meta d) ''schema_version'' JNull) CURRENT_SCHEMA_VERSION"
  using equals_five by (simp add: normalize_meta_def Let_def get_or_def)

lemma parse_wf:
  assumes "meta_laws V" and "parse_session_meta V j = Inr f"
  shows "file_wf f"
proof -
  obtain d where d: "V (normalize_meta d) = Inr f"
    using assms(2) by (auto simp: parse_session_meta_def Let_def split: json.splits if_splits)
  then have "fst ` set (sf_extra f) \<subseteq> fst ` set (normalize_meta d) - set field_names" "sf_version f = CURRENT_SCHEMA_VERSION"
    using assms(1) normalized_version unfolding meta_laws_def by blast+
  then show ?thesis using normalized_keys [of d] by (auto simp: file_wf_def)
qed

lemma parse_dump:
  assumes "meta_laws V" and "file_wf f"
  shows "parse_session_meta V (JObj (dump_file f)) = Inr f"
proof -
  have version: "get_or (dump_file f) ''schema_version'' JNull = JInt CURRENT_SCHEMA_VERSION"
    using assms(2) by (simp add: dump_file_def get_or_def file_wf_def)
  have "dict_get (dump_file f) k = None" if "k = ''cursor'' \<or> k = ''revision''" for k
    using that assms(2) by (auto simp: dump_file_def file_wf_def map_of_eq_None_iff)
  then have "dict_pop ''revision'' (dict_pop ''cursor'' (dump_file f)) = dump_file f" by (simp add: dict_pop_absent)
  then have "normalize_meta (dump_file f) = dump_file f"
    using equals_five by (simp add: normalize_meta_def version)
  moreover have "hashable (JInt CURRENT_SCHEMA_VERSION)" by (simp add: hashable_def)
  moreover have "list_ex (equals_int (JInt CURRENT_SCHEMA_VERSION)) SUPPORTED_SCHEMA_VERSIONS"
    using equals_five by (simp add: SUPPORTED_SCHEMA_VERSIONS_def)
  ultimately show ?thesis using assms by (simp add: parse_session_meta_def version meta_laws_def)
qed

section \<open>Names\<close>

text \<open>\<open>^[A-Za-z0-9_-]+$\<close> with \<open>match\<close>: the dollar also matches before a newline at the end.\<close>

definition name_char :: "char \<Rightarrow> bool" where
  "name_char c \<longleftrightarrow> (let n = of_char c :: nat in (65 \<le> n \<and> n \<le> 90) \<or> (97 \<le> n \<and> n \<le> 122) \<or> (48 \<le> n \<and> n \<le> 57) \<or> n = 95 \<or> n = 45)"

definition name_ok :: "string \<Rightarrow> bool" where
  "name_ok s = (let core = (if s \<noteq> [] \<and> last s = CHR 0x0A then butlast s else s) in core \<noteq> [] \<and> list_all name_char core)"

definition validate_name :: "string \<Rightarrow> unit result" where
  "validate_name s = (if name_ok s then Inr () else Inl ValueError)"

section \<open>The directory\<close>

record session_dir =
  sd_state :: "json option option"
  sd_legacy :: "legacy_line list option"
  sd_corrupt :: "json option list"
  sd_rest :: bool

definition empty_dir :: session_dir where
  "empty_dir = \<lparr>sd_state = None, sd_legacy = None, sd_corrupt = [], sd_rest = False\<rparr>"

type_synonym disk = "(string, session_dir) dict"

definition dir_of :: "disk \<Rightarrow> string \<Rightarrow> session_dir" where
  "dir_of dk name = (case dict_get dk name of None \<Rightarrow> empty_dir | Some d \<Rightarrow> d)"

record session_repo =
  sr_states :: "(string, session_file) dict"
  sr_corrupt :: "string list"
  sr_external :: "(string \<times> string, string) dict"
  sr_disk :: disk

definition fresh_repo :: "disk \<Rightarrow> session_repo" where
  "fresh_repo dk = \<lparr>sr_states = [], sr_corrupt = [], sr_external = [], sr_disk = dk\<rparr>"

definition corrupt_error :: exn where
  "corrupt_error = ServiceError ''CorruptStateError''"

abbreviation file_id :: "session_file \<Rightarrow> string" where
  "file_id f \<equiv> sh_id (sf_header f)"

definition session_hint :: "string \<Rightarrow> json option \<Rightarrow> string" where
  "session_hint name text =
     (case text of
        Some (JObj d) \<Rightarrow> (case dict_get d ''session'' of
            Some (JObj s) \<Rightarrow> (case dict_get s ''id'' of Some (JStr i) \<Rightarrow> str_or i name | _ \<Rightarrow> name)
          | _ \<Rightarrow> name)
      | _ \<Rightarrow> name)"

definition parse_text :: "validator \<Rightarrow> json option \<Rightarrow> session_file result" where
  "parse_text V text = (case text of None \<Rightarrow> Inl ValueError | Some j \<Rightarrow> parse_session_meta V j)"

text \<open>A file that cannot be read is renamed, when that works; it is reported under the id it seems to have.\<close>

definition quarantine :: "bool \<Rightarrow> string \<Rightarrow> json option \<Rightarrow> session_repo \<Rightarrow> session_repo" where
  "quarantine renamed name text r =
     (let d = dir_of (sr_disk r) name
      in r\<lparr>sr_corrupt := sr_corrupt r @ [session_hint name text],
           sr_disk := (if renamed then dict_set name (d\<lparr>sd_state := None, sd_corrupt := sd_corrupt d @ [text]\<rparr>) (sr_disk r)
                       else sr_disk r)\<rparr>)"

definition load_dir :: "validator \<Rightarrow> (string \<Rightarrow> bool) \<Rightarrow> string \<times> session_dir \<Rightarrow> session_repo \<Rightarrow> session_repo" where
  "load_dir V renames nd r =
     (case sd_state (snd nd) of
        None \<Rightarrow> r
      | Some text \<Rightarrow>
          (case parse_text V text of
             Inl e \<Rightarrow> quarantine (renames (fst nd)) (fst nd) text r
           | Inr f \<Rightarrow> r\<lparr>sr_states := dict_set (file_id f) f (sr_states r)\<rparr>))"

definition external_of :: "session_file \<Rightarrow> (string \<times> string) option" where
  "external_of f =
     (case dict_get (sf_metadata f) ''external'' of
        Some (JObj x) \<Rightarrow> (case (dict_get x ''channel_id'', dict_get x ''external_key'') of
            (Some (JStr c), Some (JStr k)) \<Rightarrow> Some (c, k) | _ \<Rightarrow> None)
      | _ \<Rightarrow> None)"

definition rebuild_indexes :: "session_repo \<Rightarrow> session_repo" where
  "rebuild_indexes r =
     r\<lparr>sr_external := fold (\<lambda>(sid, f) x. case external_of f of None \<Rightarrow> x | Some k \<Rightarrow> dict_set k sid x) (sr_states r) []\<rparr>"

text \<open>
  The code visits the directories by name; the order decides only between two directories whose files carry the same id, which
  \<open>well_named\<close> below rules out, and the order in which sessions of the same time are listed.
\<close>

definition load_store :: "validator \<Rightarrow> (string \<Rightarrow> bool) \<Rightarrow> session_repo \<Rightarrow> session_repo" where
  "load_store V renames r = fold (load_dir V renames) (sr_disk r) (r\<lparr>sr_states := [], sr_corrupt := []\<rparr>)"

definition init_repo :: "validator \<Rightarrow> (string \<Rightarrow> bool) \<Rightarrow> session_repo \<Rightarrow> session_repo" where
  "init_repo V renames r = rebuild_indexes (load_store V renames r)"

section \<open>Reading and writing\<close>

definition get_state :: "session_repo \<Rightarrow> string \<Rightarrow> session_file option result" where
  "get_state r sid = (case dict_get (sr_states r) sid of
     Some f \<Rightarrow> Inr (Some f) | None \<Rightarrow> if sid \<in> set (sr_corrupt r) then Inl corrupt_error else Inr None)"

definition require_state :: "session_repo \<Rightarrow> string \<Rightarrow> session_file result" where
  "require_state r sid = bind_r (get_state r sid) (\<lambda>f. case f of None \<Rightarrow> Inl ValueError | Some f \<Rightarrow> Inr f)"

definition write_file :: "bool \<Rightarrow> session_file \<Rightarrow> disk \<Rightarrow> disk \<times> unit result" where
  "write_file ok f dk =
     (let sid = file_id f; d = dir_of dk sid
      in if \<not> name_ok sid then (dk, Inl ValueError)
         else if \<not> ok then (dict_set sid (d\<lparr>sd_rest := True\<rparr>) dk, Inl OSError)
         else (dict_set sid (d\<lparr>sd_state := Some (Some (JObj (dump_file f)))\<rparr>) dk, Inr ()))"

definition unindex :: "string \<Rightarrow> (string \<times> string, string) dict \<Rightarrow> (string \<times> string, string) dict" where
  "unindex sid x = filter (\<lambda>kv. snd kv \<noteq> sid) x"

definition commit :: "bool \<Rightarrow> session_file \<Rightarrow> session_repo \<Rightarrow> session_repo \<times> unit result" where
  "commit ok f r =
     (case write_file ok f (sr_disk r) of
        (dk, Inl e) \<Rightarrow> (r\<lparr>sr_disk := dk\<rparr>, Inl e)
      | (dk, Inr u) \<Rightarrow>
          (let x = unindex (file_id f) (sr_external r)
           in (r\<lparr>sr_disk := dk, sr_states := dict_set (file_id f) f (sr_states r),
                 sr_external := (case external_of f of None \<Rightarrow> x | Some k \<Rightarrow> dict_set k (file_id f) x)\<rparr>, Inr ())))"

definition plain_file :: "string \<Rightarrow> string \<Rightarrow> string \<Rightarrow> string \<Rightarrow> string \<Rightarrow> jdict \<Rightarrow> session_file" where
  "plain_file sid channel title workspace now metadata =
     \<lparr>sf_version = CURRENT_SCHEMA_VERSION,
      sf_header = \<lparr>sh_id = sid, sh_agent = ''default'', sh_channel = channel, sh_title = title, sh_workspace = workspace,
        sh_created = now, sh_updated = now, sh_last_user_text = []\<rparr>,
      sf_metadata = metadata, sf_seq = -1, sf_messages = [], sf_requests = [], sf_extensions = [], sf_extra = []\<rparr>"

text \<open>\<open>hex\<close> are the twelve digits of a fresh id.\<close>

definition make_session_id :: "string \<Rightarrow> string \<Rightarrow> string result" where
  "make_session_id channel hex = bind_r (validate_name channel) (\<lambda>u. Inr (channel @ ''_sess_'' @ hex))"

definition create_session :: "bool \<Rightarrow> string \<Rightarrow> string \<Rightarrow> string \<Rightarrow> string \<Rightarrow> string \<Rightarrow> session_repo \<Rightarrow> session_repo \<times> string result" where
  "create_session ok now hex channel title workspace r =
     (case make_session_id channel hex of
        Inl e \<Rightarrow> (r, Inl e)
      | Inr sid \<Rightarrow> (case commit ok (plain_file sid channel title workspace now []) r of (r', res) \<Rightarrow> (r', bind_r res (\<lambda>u. Inr sid))))"

definition create_with_state :: "bool \<Rightarrow> session_file \<Rightarrow> session_repo \<Rightarrow> session_repo \<times> string result" where
  "create_with_state ok f r =
     (if \<not> name_ok (file_id f) \<or> \<not> name_ok (sh_channel (sf_header f)) then (r, Inl ValueError)
      else if dict_get (sr_states r) (file_id f) \<noteq> None \<or> file_id f \<in> set (sr_corrupt r) then (r, Inl ValueError)
      else (case commit ok f r of (r', res) \<Rightarrow> (r', bind_r res (\<lambda>u. Inr (file_id f)))))"

definition touched :: "string \<Rightarrow> session_file \<Rightarrow> session_file" where
  "touched now f = f\<lparr>sf_header := (sf_header f)\<lparr>sh_updated := now\<rparr>\<rparr>"

text \<open>The copy that refreshes an external session is made before the write; the write may come later.\<close>

definition refreshed_external :: "string \<Rightarrow> jdict \<Rightarrow> session_file \<Rightarrow> session_file" where
  "refreshed_external now data f =
     (let old = (case dict_get (sf_metadata f) ''external'' of Some (JObj x) \<Rightarrow> x | _ \<Rightarrow> []);
          new = dict_set ''updated_at'' (JStr now) (dict_set ''data'' (JObj data) old)
      in touched now (f\<lparr>sf_metadata := dict_set ''external'' (JObj new) (sf_metadata f)\<rparr>))"

definition external_binding :: "string \<Rightarrow> string \<Rightarrow> string \<Rightarrow> jdict \<Rightarrow> jdict" where
  "external_binding now channel key data =
     [(''external'', JObj [(''channel_id'', JStr channel), (''external_key'', JStr key), (''data'', JObj data),
        (''created_at'', JStr now), (''updated_at'', JStr now)])]"

definition external_state ::
  "string \<Rightarrow> string \<Rightarrow> string \<Rightarrow> string \<Rightarrow> string \<Rightarrow> string \<Rightarrow> jdict \<Rightarrow> session_repo \<Rightarrow> session_file result" where
  "external_state now hex channel key title workspace data r =
     (if \<not> name_ok channel \<or> key = [] then Inl ValueError
      else (case dict_get (sr_external r) (channel, key) of
          Some sid \<Rightarrow> (case dict_get (sr_states r) sid of
              Some f \<Rightarrow> Inr (refreshed_external now data f)
            | None \<Rightarrow> bind_r (make_session_id channel hex) (\<lambda>new. Inr (plain_file new channel title workspace now (external_binding now channel key data))))
        | None \<Rightarrow> bind_r (make_session_id channel hex) (\<lambda>new. Inr (plain_file new channel title workspace now (external_binding now channel key data)))))"

definition get_or_create_external ::
  "bool \<Rightarrow> string \<Rightarrow> string \<Rightarrow> string \<Rightarrow> string \<Rightarrow> string \<Rightarrow> string \<Rightarrow> jdict \<Rightarrow> session_repo \<Rightarrow> session_repo \<times> string result" where
  "get_or_create_external ok now hex channel key title workspace data r =
     (case external_state now hex channel key title workspace data r of
        Inl e \<Rightarrow> (r, Inl e)
      | Inr f \<Rightarrow> (case commit ok f r of (r', res) \<Rightarrow> (r', bind_r res (\<lambda>u. Inr (file_id f)))))"

definition update_session :: "bool \<Rightarrow> string \<Rightarrow> string \<Rightarrow> string option \<Rightarrow> string option \<Rightarrow> session_repo \<Rightarrow> session_repo \<times> unit result" where
  "update_session ok now sid title workspace r =
     (case get_state r sid of
        Inl e \<Rightarrow> (r, Inl e)
      | Inr None \<Rightarrow> (r, Inr ())
      | Inr (Some f) \<Rightarrow>
          (let h = sf_header f;
               h1 = (case title of None \<Rightarrow> h | Some t \<Rightarrow> h\<lparr>sh_title := t\<rparr>);
               h2 = (case workspace of None \<Rightarrow> h1 | Some w \<Rightarrow> h1\<lparr>sh_workspace := w\<rparr>)
           in commit ok (touched now (f\<lparr>sf_header := h2\<rparr>)) r))"

definition get_metadata :: "string \<Rightarrow> session_repo \<Rightarrow> jdict result" where
  "get_metadata sid r = bind_r (get_state r sid) (\<lambda>f. Inr (case f of None \<Rightarrow> [] | Some f \<Rightarrow> sf_metadata f))"

definition put_metadata :: "string \<Rightarrow> json \<Rightarrow> jdict \<Rightarrow> jdict" where
  "put_metadata key v m = (if v = JNull then dict_pop key m else dict_set key v m)"

definition mutate_metadata ::
  "bool \<Rightarrow> string \<Rightarrow> string \<Rightarrow> string \<Rightarrow> (json \<Rightarrow> json result) \<Rightarrow> session_repo \<Rightarrow> session_repo \<times> jdict result" where
  "mutate_metadata ok now sid key updater r =
     (case require_state r sid of
        Inl e \<Rightarrow> (r, Inl e)
      | Inr f \<Rightarrow>
          (case updater (get_or (sf_metadata f) key JNull) of
             Inl e \<Rightarrow> (r, Inl e)
           | Inr v \<Rightarrow>
               (let m = put_metadata key v (sf_metadata f)
                in case commit ok (touched now (f\<lparr>sf_metadata := m\<rparr>)) r of (r', res) \<Rightarrow> (r', bind_r res (\<lambda>u. Inr m)))))"

definition update_metadata :: "bool \<Rightarrow> string \<Rightarrow> string \<Rightarrow> string \<Rightarrow> json \<Rightarrow> session_repo \<Rightarrow> session_repo \<times> jdict result" where
  "update_metadata ok now sid key v r = mutate_metadata ok now sid key (\<lambda>old. Inr v) r"

definition set_last_user_text :: "bool \<Rightarrow> string \<Rightarrow> string \<Rightarrow> session_repo \<Rightarrow> session_repo \<times> unit result" where
  "set_last_user_text ok sid text r =
     (case get_state r sid of
        Inl e \<Rightarrow> (r, Inl e)
      | Inr None \<Rightarrow> (r, Inr ())
      | Inr (Some f) \<Rightarrow> commit ok (f\<lparr>sf_header := (sf_header f)\<lparr>sh_last_user_text := text\<rparr>\<rparr>) r)"

text \<open>Removing the directory ignores what goes wrong: \<open>gone\<close> says whether it worked.\<close>

definition delete_stored :: "bool \<Rightarrow> string \<Rightarrow> session_repo \<Rightarrow> session_repo \<times> unit result" where
  "delete_stored gone sid r =
     (let r1 = r\<lparr>sr_states := dict_pop sid (sr_states r),
                sr_external := (if dict_get (sr_states r) sid = None then sr_external r else unindex sid (sr_external r))\<rparr>
      in if \<not> name_ok sid then (r1, Inl ValueError)
         else (if gone then r1\<lparr>sr_disk := dict_pop sid (sr_disk r1)\<rparr> else r1, Inr ()))"

section \<open>Lists\<close>

definition filter_states :: "string option \<Rightarrow> string option \<Rightarrow> session_repo \<Rightarrow> session_file list" where
  "filter_states channel workspace r =
     filter (\<lambda>f. (case channel of None \<Rightarrow> True | Some c \<Rightarrow> c = [] \<or> sh_channel (sf_header f) = c) \<and>
                 (case workspace of None \<Rightarrow> True | Some w \<Rightarrow> sh_workspace (sf_header f) = w)) (map snd (sr_states r))"

text \<open>\<open>epoch\<close> reads a time; the latest comes first, and sessions of the same time keep their order.\<close>

definition list_sessions :: "(string \<Rightarrow> int) \<Rightarrow> nat \<Rightarrow> nat \<Rightarrow> string option \<Rightarrow> string option \<Rightarrow> session_repo \<Rightarrow> session_file list" where
  "list_sessions epoch limit offset channel workspace r =
     take limit (drop offset (sort_key (\<lambda>f. - epoch (sh_updated (sf_header f))) (filter_states channel workspace r)))"

definition count_sessions :: "string option \<Rightarrow> string option \<Rightarrow> session_repo \<Rightarrow> nat" where
  "count_sessions channel workspace r = length (filter_states channel workspace r)"

definition list_workspaces :: "(string \<Rightarrow> int) \<Rightarrow> string option \<Rightarrow> session_repo \<Rightarrow> (string \<times> nat \<times> int) list" where
  "list_workspaces epoch channel r =
     sort_key (\<lambda>(w, n, t). - t)
       (map (\<lambda>(w, n, t). (w, n, t))
         (fold (\<lambda>f g. let w = sh_workspace (sf_header f); t = epoch (sh_updated (sf_header f))
                      in case dict_get g w of None \<Rightarrow> dict_set w (1, max 0 t) g | Some (n, u) \<Rightarrow> dict_set w (Suc n, max u t) g)
            (filter_states channel None r) []))"

definition sweep_dir :: "session_repo \<Rightarrow> string \<times> session_dir \<Rightarrow> bool" where
  "sweep_dir r nd \<longleftrightarrow> dict_get (sr_states r) (fst nd) \<noteq> None \<or> sd_state (snd nd) \<noteq> None \<or> sd_legacy (snd nd) \<noteq> None \<or>
     sd_corrupt (snd nd) \<noteq> []"

text \<open>What the sweep at the start keeps.\<close>

definition sweep_orphans :: "session_repo \<Rightarrow> session_repo" where
  "sweep_orphans r = r\<lparr>sr_disk := filter (sweep_dir r) (sr_disk r)\<rparr>"

section \<open>What is in memory is on disk\<close>

text \<open>The session a directory stands for.\<close>

definition loaded :: "validator \<Rightarrow> session_dir \<Rightarrow> session_file option" where
  "loaded V d = (case sd_state d of None \<Rightarrow> None | Some text \<Rightarrow> (case parse_text V text of Inl e \<Rightarrow> None | Inr f \<Rightarrow> Some f))"

definition disk_file :: "validator \<Rightarrow> disk \<Rightarrow> string \<Rightarrow> session_file option" where
  "disk_file V dk name = (case dict_get dk name of None \<Rightarrow> None | Some d \<Rightarrow> loaded V d)"

definition index_ok :: "(string, session_file) dict \<Rightarrow> (string \<times> string, string) dict \<Rightarrow> bool" where
  "index_ok states x \<longleftrightarrow> (\<forall>k sid. dict_get x k = Some sid \<longrightarrow> (\<exists>f. dict_get states sid = Some f \<and> external_of f = Some k))"

lemma index_okD: "index_ok states x \<Longrightarrow> dict_get x k = Some sid \<Longrightarrow> \<exists>f. dict_get states sid = Some f \<and> external_of f = Some k"
  unfolding index_ok_def by blast

text \<open>The sessions in memory are those on disk; an external key leads to a session that is bound to it.\<close>

definition store_ok :: "validator \<Rightarrow> session_repo \<Rightarrow> bool" where
  "store_ok V r \<longleftrightarrow> dict_wf (sr_disk r) \<and> dict_wf (sr_states r) \<and> dict_wf (sr_external r) \<and>
     (\<forall>name. dict_get (sr_states r) name = disk_file V (sr_disk r) name) \<and>
     (\<forall>name f. dict_get (sr_states r) name = Some f \<longrightarrow> file_id f = name \<and> file_wf f) \<and>
     index_ok (sr_states r) (sr_external r)"

text \<open>A directory that was not tampered with: each file carries the id its directory is named after.\<close>

definition well_named :: "validator \<Rightarrow> disk \<Rightarrow> bool" where
  "well_named V dk \<longleftrightarrow> dict_wf dk \<and> (\<forall>name f. disk_file V dk name = Some f \<longrightarrow> file_id f = name)"

lemma state_ok: "store_ok V r \<Longrightarrow> dict_get (sr_states r) sid = Some f \<Longrightarrow> file_id f = sid \<and> file_wf f"
  by (simp add: store_ok_def)

lemma get_state_ok: "store_ok V r \<Longrightarrow> get_state r sid = Inr (Some f) \<Longrightarrow> dict_get (sr_states r) sid = Some f \<and> file_id f = sid \<and> file_wf f"
  by (auto simp: get_state_def state_ok split: option.splits if_splits)

lemma file_wf_simps [simp]:
  "file_wf (f\<lparr>sf_header := h\<rparr>) = file_wf f" "file_wf (f\<lparr>sf_metadata := m\<rparr>) = file_wf f" "file_wf (f\<lparr>sf_seq := n\<rparr>) = file_wf f"
  "file_wf (f\<lparr>sf_messages := ms\<rparr>) = file_wf f" "file_wf (f\<lparr>sf_requests := q\<rparr>) = file_wf f"
  "file_wf (touched now f) = file_wf f" "file_id (touched now f) = file_id f"
  by (simp_all add: file_wf_def touched_def)

lemma file_wf_plain [simp]: "file_wf (plain_file sid c t w now m)" "file_id (plain_file sid c t w now m) = sid"
  by (simp_all add: file_wf_def plain_file_def)

lemma file_wf_refreshed [simp]: "file_wf (refreshed_external now data f) = file_wf f" "file_id (refreshed_external now data f) = file_id f"
  by (simp_all add: refreshed_external_def Let_def)

lemma disk_file_set [simp]:
  "disk_file V (dict_set name d dk) n = (if n = name then loaded V d else disk_file V dk n)"
  by (simp add: disk_file_def)

lemma disk_file_pop [simp]: "disk_file V (dict_pop name dk) n = (if n = name then None else disk_file V dk n)"
  by (simp add: disk_file_def)

lemma loaded_dir_of: "loaded V (dir_of dk name) = disk_file V dk name"
  by (simp add: dir_of_def disk_file_def loaded_def empty_dir_def split: option.splits)

lemma loaded_rest [simp]: "loaded V (d\<lparr>sd_rest := b\<rparr>) = loaded V d"
  by (simp add: loaded_def)

lemma loaded_dump: "meta_laws V \<Longrightarrow> file_wf f \<Longrightarrow> loaded V (d\<lparr>sd_state := Some (Some (JObj (dump_file f)))\<rparr>) = Some f"
  by (simp add: loaded_def parse_text_def parse_dump)

lemma unindex_get:
  assumes "dict_wf x" and "dict_get (unindex sid x) k = Some s"
  shows "dict_get x k = Some s \<and> s \<noteq> sid"
proof -
  have "(k, s) \<in> set x" "s \<noteq> sid" using map_of_SomeD [OF assms(2)] by (auto simp: unindex_def)
  then show ?thesis using mem_dict_get [OF assms(1)] by blast
qed

lemma unindex_wf [simp]: "dict_wf x \<Longrightarrow> dict_wf (unindex sid x)"
  by (simp add: unindex_def distinct_map_filter)

lemma store_ok_disk:
  assumes "store_ok V r" and "dict_wf dk" and "\<forall>name. disk_file V dk name = disk_file V (sr_disk r) name"
  shows "store_ok V (r\<lparr>sr_disk := dk\<rparr>)"
  using assms by (simp add: store_ok_def)

text \<open>One session is replaced, in memory and on disk, and nothing points to its old key.\<close>

lemma store_ok_set:
  assumes "store_ok V r" and "loaded V d = Some f" and "file_wf f"
  shows "store_ok V (r\<lparr>sr_disk := dict_set (file_id f) d (sr_disk r), sr_states := dict_set (file_id f) f (sr_states r),
    sr_external := (case external_of f of None \<Rightarrow> unindex (file_id f) (sr_external r)
      | Some k \<Rightarrow> dict_set k (file_id f) (unindex (file_id f) (sr_external r)))\<rparr>)" (is "store_ok V ?t")
proof -
  have wf: "dict_wf (sr_disk r)" "dict_wf (sr_states r)" "dict_wf (sr_external r)" using assms(1) by (simp_all add: store_ok_def)
  have same: "dict_get (sr_states r) name = disk_file V (sr_disk r) name" for name using assms(1) by (simp add: store_ok_def)
  have others: "\<exists>g. dict_get (sr_states ?t) s = Some g \<and> external_of g = Some k"
    if h: "dict_get (unindex (file_id f) (sr_external r)) k = Some s" for k s
  proof -
    have "dict_get (sr_external r) k = Some s" "s \<noteq> file_id f" using unindex_get [OF wf(3) h] by simp_all
    moreover have "index_ok (sr_states r) (sr_external r)" using assms(1) by (simp add: store_ok_def)
    ultimately show ?thesis using index_okD by fastforce
  qed
  have "\<exists>g. dict_get (sr_states ?t) s = Some g \<and> external_of g = Some k" if h: "dict_get (sr_external ?t) k = Some s" for k s
  proof (cases "external_of f = Some k")
    case True
    then show ?thesis using h by simp
  next
    case False
    then have "dict_get (unindex (file_id f) (sr_external r)) k = Some s" using h by (simp split: option.splits if_splits)
    then show ?thesis by (rule others)
  qed
  then have "index_ok (sr_states ?t) (sr_external ?t)" by (simp only: index_ok_def) blast
  moreover have "dict_get (sr_states ?t) name = disk_file V (sr_disk ?t) name" for name
    using same [of name] assms(2) by simp
  moreover have "file_id g = name \<and> file_wf g" if h: "dict_get (sr_states ?t) name = Some g" for name g
    using h state_ok [OF assms(1), of name g] assms(3) by (auto split: if_splits)
  moreover have "dict_wf (sr_external ?t)" using wf by (simp split: option.splits)
  moreover have "dict_wf (sr_disk ?t)" "dict_wf (sr_states ?t)" using wf(1,2) by simp_all
  ultimately show ?thesis unfolding store_ok_def by blast
qed

lemma commit_store_ok:
  assumes "meta_laws V" and "store_ok V r" and "file_wf f"
  shows "store_ok V (fst (commit ok f r))"
proof -
  let ?sid = "file_id f"
  have wf: "dict_wf (sr_disk r)" using assms(2) by (simp add: store_ok_def)
  consider "\<not> name_ok ?sid" | "name_ok ?sid" "\<not> ok" | "name_ok ?sid" ok by blast
  then show ?thesis
  proof cases
    case 1
    then show ?thesis using assms(2) by (simp add: commit_def write_file_def Let_def)
  next
    case 2
    then show ?thesis using store_ok_disk [OF assms(2)] wf
      by (simp add: commit_def write_file_def Let_def loaded_dir_of)
  next
    case 3
    then show ?thesis using store_ok_set [OF assms(2) loaded_dump [OF assms(1,3)] assms(3)]
      by (simp add: commit_def write_file_def Let_def)
  qed
qed

lemma delete_store_ok:
  assumes "store_ok V r" and "name_ok sid"
  shows "store_ok V (fst (delete_stored True sid r))"
proof -
  let ?x = "if dict_get (sr_states r) sid = None then sr_external r else unindex sid (sr_external r)"
  have wf: "dict_wf (sr_disk r)" "dict_wf (sr_states r)" "dict_wf (sr_external r)" and index: "index_ok (sr_states r) (sr_external r)"
    using assms(1) by (simp_all add: store_ok_def)
  have "\<exists>f. dict_get (dict_pop sid (sr_states r)) s = Some f \<and> external_of f = Some k" if h: "dict_get ?x k = Some s" for k s
  proof -
    have "dict_get (sr_external r) k = Some s" "dict_get (sr_states r) sid = None \<or> s \<noteq> sid"
      using h unindex_get [OF wf(3), of sid k s] by (auto split: if_splits)
    then show ?thesis using index_okD [OF index] by fastforce
  qed
  then have "index_ok (dict_pop sid (sr_states r)) ?x" by (simp add: index_ok_def)
  moreover have "dict_wf ?x" using wf by simp
  ultimately show ?thesis using assms
    by (simp add: delete_stored_def Let_def store_ok_def)
qed

section \<open>A restart\<close>

lemma load_dir_facts:
  "sr_external (load_dir V renames nd r) = sr_external r"
  "dict_get (sr_states (load_dir V renames nd r)) name =
     (case loaded V (snd nd) of Some f \<Rightarrow> if name = file_id f then Some f else dict_get (sr_states r) name | None \<Rightarrow> dict_get (sr_states r) name)"
  "dict_wf (sr_states r) \<Longrightarrow> dict_wf (sr_states (load_dir V renames nd r))"
  "dict_wf (sr_disk r) \<Longrightarrow> dict_wf (sr_disk (load_dir V renames nd r))"
  by (auto simp: load_dir_def quarantine_def Let_def loaded_def split: option.splits sum.splits)

lemma load_dir_disk:
  assumes "dict_get (sr_disk r) (fst nd) = Some (snd nd)"
  shows "disk_file V (sr_disk (load_dir V renames nd r)) name = disk_file V (sr_disk r) name"
    and "n \<noteq> fst nd \<Longrightarrow> dict_get (sr_disk (load_dir V renames nd r)) n = dict_get (sr_disk r) n"
  using assms by (auto simp: load_dir_def quarantine_def Let_def loaded_def disk_file_def dir_of_def split: option.splits sum.splits)

text \<open>Loading the directories \<open>ds\<close> adds the sessions they stand for and leaves what can be read on disk.\<close>

lemma load_fold:
  assumes "dict_wf ds" and "\<forall>n d. dict_get ds n = Some d \<longrightarrow> dict_get (sr_disk r) n = Some d"
    and "\<forall>n f. disk_file V ds n = Some f \<longrightarrow> file_id f = n" and "dict_wf (sr_disk r)" and "dict_wf (sr_states r)"
  shows "dict_get (sr_states (fold (load_dir V renames) ds r)) name =
      (case disk_file V ds name of Some f \<Rightarrow> Some f | None \<Rightarrow> dict_get (sr_states r) name) \<and>
    disk_file V (sr_disk (fold (load_dir V renames) ds r)) name = disk_file V (sr_disk r) name \<and>
    dict_wf (sr_disk (fold (load_dir V renames) ds r)) \<and> dict_wf (sr_states (fold (load_dir V renames) ds r)) \<and>
    sr_external (fold (load_dir V renames) ds r) = sr_external r"
  using assms
proof (induction ds arbitrary: r)
  case (Cons nd ds)
  obtain n d where nd: "nd = (n, d)" by fastforce
  let ?r = "load_dir V renames nd r"
  have here: "dict_get (sr_disk r) (fst nd) = Some (snd nd)" using Cons.prems(2) by (simp add: nd)
  have new: "n \<notin> fst ` set ds" using Cons.prems(1) by (simp add: nd)
  have later: "dict_get (sr_disk ?r) m = Some e" if "dict_get ds m = Some e" for m e
  proof -
    have "m \<noteq> n" using new map_of_SomeD [OF that] by force
    then show ?thesis using that load_dir_disk(2) [OF here, of m] Cons.prems(2) by (simp add: nd)
  qed
  have names: "\<forall>m f. disk_file V ds m = Some f \<longrightarrow> file_id f = m"
  proof (intro allI impI)
    fix m f
    assume h: "disk_file V ds m = Some f"
    then obtain e where "dict_get ds m = Some e" by (auto simp: disk_file_def split: option.splits)
    then have "m \<noteq> n" using new map_of_SomeD by force
    then have "disk_file V (nd # ds) m = Some f" using h by (simp add: nd disk_file_def)
    then show "file_id f = m" using Cons.prems(3) by blast
  qed
  have IH: "dict_get (sr_states (fold (load_dir V renames) ds ?r)) name =
      (case disk_file V ds name of Some f \<Rightarrow> Some f | None \<Rightarrow> dict_get (sr_states ?r) name) \<and>
    disk_file V (sr_disk (fold (load_dir V renames) ds ?r)) name = disk_file V (sr_disk ?r) name \<and>
    dict_wf (sr_disk (fold (load_dir V renames) ds ?r)) \<and> dict_wf (sr_states (fold (load_dir V renames) ds ?r)) \<and>
    sr_external (fold (load_dir V renames) ds ?r) = sr_external ?r"
    by (rule Cons.IH) (use Cons.prems later names load_dir_facts(3,4) [of _ V renames nd] in \<open>simp_all add: nd\<close>)
  have own: "file_id f = n" if "loaded V d = Some f" for f
    using Cons.prems(3) that by (auto simp: nd disk_file_def)
  have "dict_get ds n = None" using new by (simp add: map_of_eq_None_iff)
  then have "disk_file V ds n = None" by (simp add: disk_file_def)
  then have "(case disk_file V ds name of Some f \<Rightarrow> Some f | None \<Rightarrow> dict_get (sr_states ?r) name) =
      (case disk_file V (nd # ds) name of Some f \<Rightarrow> Some f | None \<Rightarrow> dict_get (sr_states r) name)"
    using own by (auto simp: nd load_dir_facts(2) disk_file_def split: option.splits)
  then show ?case using IH load_dir_disk(1) [OF here] load_dir_facts(1) by simp
qed (simp add: disk_file_def)

lemma rebuild_index_ok:
  assumes "dict_wf (sr_states r)"
  shows "index_ok (sr_states r) (sr_external (rebuild_indexes r)) \<and> dict_wf (sr_external (rebuild_indexes r))"
proof -
  let ?add = "\<lambda>(sid, f) x. case external_of f of None \<Rightarrow> x | Some k \<Rightarrow> dict_set k sid x"
  have "index_ok (sr_states r) (fold ?add xs x) \<and> dict_wf (fold ?add xs x)"
    if "set xs \<subseteq> set (sr_states r)" "index_ok (sr_states r) x" "dict_wf x" for xs x
    using that
  proof (induction xs arbitrary: x)
    case (Cons sf xs)
    obtain sid f where sf: "sf = (sid, f)" by fastforce
    have get: "dict_get (sr_states r) sid = Some f" using mem_dict_get [OF assms] Cons.prems(1) by (simp add: sf)
    have "index_ok (sr_states r) (?add sf x)"
    proof (cases "external_of f")
      case (Some k)
      then show ?thesis using get Cons.prems(2) unfolding sf index_ok_def by simp
    qed (use Cons.prems(2) in \<open>simp add: sf\<close>)
    moreover have "dict_wf (?add sf x)" using Cons.prems(3) by (simp add: sf split: option.splits)
    ultimately show ?case using Cons.IH [of "?add sf x"] Cons.prems(1) by simp
  qed simp
  from this [of "sr_states r" "[]"] have "index_ok (sr_states r) (fold ?add (sr_states r) []) \<and> dict_wf (fold ?add (sr_states r) [])"
    by (simp add: index_ok_def [of _ "[]"])
  then show ?thesis by (simp add: rebuild_indexes_def)
qed

lemma init_store_ok:
  assumes "meta_laws V" and "well_named V (sr_disk r)"
  shows "store_ok V (init_repo V renames r)"
    and "dict_get (sr_states (init_repo V renames r)) name = disk_file V (sr_disk r) name"
proof -
  let ?r = "r\<lparr>sr_states := [], sr_corrupt := []\<rparr>"
  let ?l = "load_store V renames r"
  have f: "dict_get (sr_states ?l) name = disk_file V (sr_disk r) name \<and> disk_file V (sr_disk ?l) name = disk_file V (sr_disk r) name \<and>
      dict_wf (sr_disk ?l) \<and> dict_wf (sr_states ?l)" for name
    using load_fold [of "sr_disk r" ?r V renames name] assms(2) unfolding load_store_def well_named_def
    by (simp split: option.splits)
  then show "dict_get (sr_states (init_repo V renames r)) name = disk_file V (sr_disk r) name"
    by (simp add: init_repo_def rebuild_indexes_def)
  have "file_id g = name \<and> file_wf g" if h: "disk_file V (sr_disk r) name = Some g" for name g
  proof -
    obtain t where "parse_text V t = Inr g"
      using h by (auto simp: disk_file_def loaded_def split: option.splits sum.splits)
    then have "file_wf g" using parse_wf [OF assms(1)] by (auto simp: parse_text_def split: option.splits)
    then show ?thesis using h assms(2) by (simp add: well_named_def)
  qed
  then show "store_ok V (init_repo V renames r)"
    using f rebuild_index_ok [of ?l] by (simp add: store_ok_def init_repo_def) (simp add: rebuild_indexes_def)
qed

lemma store_ok_well_named: "store_ok V r \<Longrightarrow> well_named V (sr_disk r)"
  unfolding store_ok_def well_named_def by metis

lemma mutate_store_ok:
  assumes "meta_laws V" and "store_ok V r"
  shows "store_ok V (fst (mutate_metadata ok now sid key updater r))"
  using assms commit_store_ok [OF assms] get_state_ok [OF assms(2)]
  by (auto simp: mutate_metadata_def require_state_def Let_def bind_r_Inr_iff split: sum.splits prod.splits option.splits)
    (metis file_wf_simps(2,6) fst_conv)+

text \<open>The operations of the repository, each with a write that may fail.\<close>

inductive store_step :: "validator \<Rightarrow> session_repo \<Rightarrow> session_repo \<Rightarrow> bool" for V where
  created: "store_step V r (fst (create_session ok now hex channel title workspace r))"
| created_with_state: "file_wf f \<Longrightarrow> store_step V r (fst (create_with_state ok f r))"
| external_found: "store_step V r (fst (get_or_create_external ok now hex channel key title workspace data r))"
| updated: "store_step V r (fst (update_session ok now sid title' workspace' r))"
| mutated: "store_step V r (fst (mutate_metadata ok now sid key updater r))"
| previewed: "store_step V r (fst (set_last_user_text ok sid text r))"
| committed: "file_wf f \<Longrightarrow> store_step V r (fst (commit ok f r))"
| deleted: "name_ok sid \<Longrightarrow> store_step V r (fst (delete_stored True sid r))"
| swept: "store_step V r (sweep_orphans r)"

lemma commit_answer [simp]: "fst (case commit ok f r of (r', res) \<Rightarrow> (r', g res)) = fst (commit ok f r)"
  by (simp add: case_prod_beta)

lemma external_state_wf:
  assumes "store_ok V r" and "external_state now hex channel key title workspace data r = Inr f"
  shows "file_wf f"
  using assms state_ok [OF assms(1)]
  by (auto simp: external_state_def bind_r_Inr_iff split: if_splits option.splits)

lemma sweep_store_ok: "store_ok V r \<Longrightarrow> store_ok V (sweep_orphans r)"
proof -
  assume ok: "store_ok V r"
  have wf: "dict_wf (sr_disk r)" using ok by (simp add: store_ok_def)
  have "disk_file V (filter (sweep_dir r) (sr_disk r)) name = disk_file V (sr_disk r) name" for name
  proof (cases "dict_get (sr_disk r) name")
    case None
    then have "dict_get (filter (sweep_dir r) (sr_disk r)) name = None" by (auto simp: map_of_eq_None_iff)
    then show ?thesis using None by (simp add: disk_file_def)
  next
    case (Some d)
    have mem: "(name, d) \<in> set (sr_disk r)" using Some by (rule map_of_SomeD)
    show ?thesis
    proof (cases "sweep_dir r (name, d)")
      case True
      then have "(name, d) \<in> set (filter (sweep_dir r) (sr_disk r))" using mem by simp
      then have "dict_get (filter (sweep_dir r) (sr_disk r)) name = Some d"
        by (intro mem_dict_get) (simp_all add: wf distinct_map_filter)
      then show ?thesis using Some by (simp add: disk_file_def)
    next
      case False
      then have "loaded V d = None" by (auto simp: sweep_dir_def loaded_def)
      moreover have "dict_get (filter (sweep_dir r) (sr_disk r)) name = None"
        using False mem_dict_get [OF wf] Some by (auto simp: map_of_eq_None_iff)
      ultimately show ?thesis using Some by (simp add: disk_file_def)
    qed
  qed
  then show ?thesis using store_ok_disk [OF ok] by (simp add: sweep_orphans_def wf distinct_map_filter)
qed

lemma store_step_ok: "store_step V r r' \<Longrightarrow> meta_laws V \<Longrightarrow> store_ok V r \<Longrightarrow> store_ok V r'"
proof (induction rule: store_step.induct)
  case (created r ok now hex channel title workspace)
  then show ?case by (auto simp: create_session_def commit_store_ok split: sum.splits)
next
  case (created_with_state f r ok)
  then show ?case by (auto simp: create_with_state_def commit_store_ok)
next
  case (external_found r ok now hex channel key title workspace data)
  then show ?case using external_state_wf by (auto simp: get_or_create_external_def intro: commit_store_ok split: sum.splits)
next
  case (updated r ok now sid title' workspace')
  then show ?case using get_state_ok [OF updated(2)]
    by (auto simp: update_session_def Let_def split: sum.splits option.splits intro!: commit_store_ok)
next
  case (mutated r ok now sid key updater)
  then show ?case by (simp add: mutate_store_ok)
next
  case (previewed r ok sid t)
  then show ?case using get_state_ok [OF previewed(2)]
    by (auto simp: set_last_user_text_def split: sum.splits option.splits intro!: commit_store_ok)
qed (simp_all add: commit_store_ok delete_store_ok sweep_store_ok)

text \<open>
  C27: Nothing that was stored is lost or changed by a restart, and nothing comes back: whatever sessions were created, changed,
  deleted (with a directory that really goes) or swept, and whichever
  writes failed, the sessions a new process loads from the directory are exactly those the old one had in memory, and
  an external key leads to a session bound to it. (A deletion whose directory could not be removed is reported as done all the
  same and its session comes back: \<open>undeleted_session_returns\<close>.)
\<close>

theorem restart_restores_sessions:
  assumes "meta_laws V" and "well_named V dk" and "(store_step V)\<^sup>*\<^sup>* (init_repo V renames (fresh_repo dk)) r"
  shows "dict_get (sr_states (init_repo V renames' (fresh_repo (sr_disk r)))) sid = dict_get (sr_states r) sid \<and>
    (dict_get (sr_external r) k = Some s \<longrightarrow> (\<exists>f. dict_get (sr_states r) s = Some f \<and> external_of f = Some k))"
proof -
  from assms(3) have ok: "store_ok V r"
  proof (induction rule: rtranclp_induct)
    case base
    show ?case by (rule init_store_ok) (use assms in \<open>simp_all add: fresh_repo_def\<close>)
  next
    case (step r r')
    then show ?case using store_step_ok [OF step(2) assms(1)] by blast
  qed
  have "well_named V (sr_disk (fresh_repo (sr_disk r)))" using store_ok_well_named [OF ok] by (simp add: fresh_repo_def)
  from init_store_ok(2) [OF assms(1) this] have "dict_get (sr_states (init_repo V renames' (fresh_repo (sr_disk r)))) sid = disk_file V (sr_disk r) sid"
    by (simp add: fresh_repo_def)
  moreover have "dict_get (sr_states r) sid = disk_file V (sr_disk r) sid" and index: "index_ok (sr_states r) (sr_external r)"
    using ok by (simp_all add: store_ok_def)
  ultimately show ?thesis using index_okD [OF index] by simp
qed

text \<open>A validator that accepts exactly what is dumped.\<close>

definition the_str :: "json option \<Rightarrow> string result" where
  "the_str j = (case j of Some (JStr s) \<Rightarrow> Inr s | _ \<Rightarrow> Inl ValueError)"

definition the_dict :: "json option \<Rightarrow> jdict result" where
  "the_dict j = (case j of Some (JObj d) \<Rightarrow> Inr d | _ \<Rightarrow> Inl ValueError)"

definition the_int :: "json option \<Rightarrow> int result" where
  "the_int j = (case j of Some (JInt i) \<Rightarrow> Inr i | _ \<Rightarrow> Inl ValueError)"

definition strict_header :: "jdict \<Rightarrow> session_header result" where
  "strict_header d =
     bind_r (the_str (dict_get d ''id'')) (\<lambda>i. bind_r (the_str (dict_get d ''agent_id'')) (\<lambda>a.
     bind_r (the_str (dict_get d ''channel_id'')) (\<lambda>c. bind_r (the_str (dict_get d ''title'')) (\<lambda>t.
     bind_r (the_str (dict_get d ''workspace'')) (\<lambda>w. bind_r (the_str (dict_get d ''created_at'')) (\<lambda>cr.
     bind_r (the_str (dict_get d ''updated_at'')) (\<lambda>u. bind_r (the_str (dict_get d ''last_user_text'')) (\<lambda>l.
       Inr \<lparr>sh_id = i, sh_agent = a, sh_channel = c, sh_title = t, sh_workspace = w, sh_created = cr, sh_updated = u,
         sh_last_user_text = l\<rparr>))))))))"

definition strict_meta :: validator where
  "strict_meta d =
     bind_r (the_int (dict_get d ''schema_version'')) (\<lambda>v. bind_r (the_dict (dict_get d ''session'')) (\<lambda>h.
     bind_r (strict_header h) (\<lambda>header. bind_r (the_dict (dict_get d ''metadata'')) (\<lambda>m.
     bind_r (the_int (dict_get d ''seq'')) (\<lambda>n. bind_r (list_at d ''messages'') (\<lambda>ms.
     bind_r (the_dict (dict_get d ''requests'')) (\<lambda>q.
     bind_r (map_r (\<lambda>(k, r). bind_r (the_dict (Some r)) (\<lambda>x. Inr (k, x))) q) (\<lambda>requests.
     bind_r (the_dict (dict_get d ''extensions'')) (\<lambda>e.
       Inr \<lparr>sf_version = v, sf_header = header, sf_metadata = m, sf_seq = n, sf_messages = ms, sf_requests = requests,
         sf_extensions = e, sf_extra = filter (\<lambda>kv. fst kv \<notin> set field_names) d\<rparr>)))))))))"

lemma strict_header_dump: "strict_header (dump_header h) = Inr h"
  by (simp add: strict_header_def dump_header_def the_str_def)

lemma strict_requests:
  "map_r (\<lambda>(k, r). bind_r (the_dict (Some r)) (\<lambda>x. Inr (k, x))) (map (\<lambda>(k, r). (k, JObj r)) q) = Inr q"
  by (induction q) (auto simp: the_dict_def)

lemma strict_meta_laws: "meta_laws strict_meta"
proof -
  have "strict_meta (dump_file f) = Inr f" if wf: "file_wf f" for f
  proof -
    have "fst kv \<notin> set field_names" if "kv \<in> set (sf_extra f)" for kv
      using wf that by (auto simp: file_wf_def)
    then have "filter (\<lambda>kv. fst kv \<notin> set field_names) (sf_extra f) = sf_extra f" by (simp add: filter_id_conv)
    then have "filter (\<lambda>kv. fst kv \<notin> set field_names) (dump_file f) = sf_extra f"
      by (simp add: dump_file_def field_names_def)
    then show ?thesis
      by (simp add: strict_meta_def dump_file_def the_int_def the_dict_def strict_header_dump strict_requests [unfolded the_dict_def, simplified])
  qed
  moreover have "fst ` set (sf_extra f) \<subseteq> fst ` set d - set field_names \<and>
      (equals_int (get_or d ''schema_version'' JNull) CURRENT_SCHEMA_VERSION \<longrightarrow> sf_version f = CURRENT_SCHEMA_VERSION)"
    if h: "strict_meta d = Inr f" for d f
    using h by (auto simp: strict_meta_def bind_r_Inr_iff the_int_def get_or_def equals_int_def split: option.splits json.splits)
  ultimately show ?thesis by (simp add: meta_laws_def)
qed

lemma restart_restores_sessions_witness:
  "dict_get (sr_states (init_repo strict_meta (\<lambda>n. True) (fresh_repo (sr_disk (fst (create_session True ''now'' ''0'' ''ws'' ''t'' ''w''
     (init_repo strict_meta (\<lambda>n. True) (fresh_repo [])))))))) ''ws_sess_0'' =
   Some (plain_file ''ws_sess_0'' ''ws'' ''t'' ''w'' ''now'' [])"
proof -
  let ?start = "init_repo strict_meta (\<lambda>n. True) (fresh_repo [])"
  let ?r = "fst (create_session True ''now'' ''0'' ''ws'' ''t'' ''w'' ?start)"
  have "well_named strict_meta []" by (simp add: well_named_def disk_file_def)
  moreover have "(store_step strict_meta)\<^sup>*\<^sup>* ?start ?r" by (rule r_into_rtranclp) (rule store_step.created)
  moreover have "name_ok ''ws''" "name_ok ''ws_sess_0''" by code_simp+
  then have "dict_get (sr_states ?r) ''ws_sess_0'' = Some (plain_file ''ws_sess_0'' ''ws'' ''t'' ''w'' ''now'' [])"
    by (simp add: create_session_def make_session_id_def validate_name_def commit_def write_file_def Let_def)
  ultimately show ?thesis using restart_restores_sessions [OF strict_meta_laws] by simp
qed

section \<open>Where the code is weaker than it looks\<close>

text \<open>
  The refresh of an external session copies its state before the write and holds no lock of the session: what was
  stored between the copy and the write is undone by it, whatever it was.
\<close>

lemma external_refresh_undoes:
  assumes "dict_get (sr_external r) (channel, key) = Some sid" and "dict_get (sr_states r) sid = Some f" and "file_id f = sid"
    and "name_ok channel" and "key \<noteq> []" and "name_ok sid"
    and "external_state now hex channel key title workspace data r = Inr g" and "dict_get (sr_states r') sid = Some f'"
  shows "dict_get (sr_states (fst (commit True g r'))) sid = Some (refreshed_external now data f)"
proof -
  have "g = refreshed_external now data f" using assms(1,2,4,5,7) by (simp add: external_state_def)
  then have "g = refreshed_external now data f" "file_id g = sid" using assms(3) by simp_all
  then show ?thesis using assms(6) by (simp add: commit_def write_file_def Let_def)
qed

text \<open>A session whose file was quarantined cannot be reached by any operation of the process that found it.\<close>

lemma corrupt_session_is_refused:
  assumes "dict_get (sr_states r) sid = None" and "sid \<in> set (sr_corrupt r)"
  shows "get_metadata sid r = Inl corrupt_error \<and> snd (mutate_metadata ok now sid key updater r) = Inl corrupt_error \<and>
    sid \<in> set (sr_corrupt (fst (delete_stored gone sid r)))"
  using assms by (auto simp: get_metadata_def get_state_def mutate_metadata_def require_state_def delete_stored_def Let_def)

text \<open>A directory that cannot be removed is ignored: the session is gone for the process and back after a restart.\<close>

lemma undeleted_session_returns:
  assumes "meta_laws V" and "store_ok V r" and "dict_get (sr_states r) sid = Some f" and "name_ok sid"
  shows "delete_stored False sid r = (t, res) \<Longrightarrow> res = Inr () \<and> dict_get (sr_states t) sid = None \<and>
    dict_get (sr_states (init_repo V renames (fresh_repo (sr_disk t)))) sid = Some f"
proof -
  assume d: "delete_stored False sid r = (t, res)"
  then have t: "res = Inr ()" "dict_get (sr_states t) sid = None" "sr_disk t = sr_disk r"
    using assms(4) by (auto simp: delete_stored_def Let_def)
  have "well_named V (sr_disk (fresh_repo (sr_disk r)))" using store_ok_well_named [OF assms(2)] by (simp add: fresh_repo_def)
  from init_store_ok(2) [OF assms(1) this, of renames sid] assms(2,3) t show ?thesis
    by (simp add: fresh_repo_def store_ok_def)
qed

text \<open>The pattern of names accepts a newline at the end.\<close>

lemma newline_is_accepted: "name_ok (''ws'' @ [CHR 0x0A])"
  by code_simp

end
