(* ===== verification/SessionService.thy ===== *)
theory SessionService
  imports SessionStore ContextView
begin

text \<open>
  The facade over sessions (\<open>src/ftre/services/session/service.py\<close>). In memory a session has a baseline, the
  messages of its file when it was opened, and a log of the events since; its transcript is the baseline with what the
  events derive to, message by message. A checkpoint writes the transcript, the sequence number it covers and an
  index of the requests it knows.

  A checkpoint is made in two steps, for other tasks run while it waits for the lock of its session:
  \<open>capture\<close> reads the log, \<open>write_checkpoint\<close> writes what was captured. The file system, Pydantic and the clock are
  parameters. Frames for clients and the marks for the coordinator of checkpoints are lists that grow.
\<close>

section \<open>State\<close>

record session_env =
  sx_lib :: pylib
  sx_pydantic :: pydantic
  sx_meta :: validator
  sx_now :: string
  sx_dump :: "msg \<Rightarrow> jdict"
  sx_block :: "content_block \<Rightarrow> json"

record session_svc =
  ss_repo :: session_repo
  ss_logs :: "(string, session_log) dict"
  ss_baseline :: "(string, msg list) dict"
  ss_cache :: "(string, int \<times> msg list) dict"
  ss_marks :: "(string \<times> bool) list"
  ss_frames :: "(string \<times> string \<times> event) list"
  ss_profiles :: "(string \<times> string) list"

definition fresh_svc :: "session_repo \<Rightarrow> session_svc" where
  "fresh_svc r = \<lparr>ss_repo = r, ss_logs = [], ss_baseline = [], ss_cache = [], ss_marks = [], ss_frames = [], ss_profiles = []\<rparr>"

definition in_repo :: "session_repo \<times> 'a \<Rightarrow> session_svc \<Rightarrow> session_svc \<times> 'a" where
  "in_repo ra s = (s\<lparr>ss_repo := fst ra\<rparr>, snd ra)"

definition baseline_of :: "session_svc \<Rightarrow> string \<Rightarrow> msg list" where
  "baseline_of s sid = (case dict_get (ss_baseline s) sid of None \<Rightarrow> [] | Some ms \<Rightarrow> ms)"

definition svc_state :: "session_svc \<Rightarrow> string \<Rightarrow> session_file option result" where
  "svc_state s sid = get_state (ss_repo s) sid"

section \<open>Messages of a file, and of a file with a log\<close>

definition load_message :: "session_env \<Rightarrow> json \<Rightarrow> msg result" where
  "load_message X j = (case j of
     JObj d \<Rightarrow> (case msg_model_validate (sx_lib X) (sx_pydantic X) (sx_now X) d of Inl e \<Rightarrow> Inl ValueError | Inr m \<Rightarrow> Inr m)
   | _ \<Rightarrow> Inl ValueError)"

definition load_snapshot_messages :: "session_env \<Rightarrow> session_file \<Rightarrow> msg list result" where
  "load_snapshot_messages X f = map_r (load_message X) (sf_messages f)"

definition merge_message :: "msg list \<Rightarrow> msg \<Rightarrow> msg list" where
  "merge_message ms m =
     (case last_index_of (\<lambda>x. msg_id x = msg_id m) ms of None \<Rightarrow> ms @ [m] | Some i \<Rightarrow> ms[i := m])"

definition merge_messages :: "msg list \<Rightarrow> msg list \<Rightarrow> msg list" where
  "merge_messages baseline live = foldl merge_message baseline live"

definition log_dicts :: "session_log \<Rightarrow> jdict list" where
  "log_dicts l = map event_dict (sl_events l)"

definition transcript :: "session_env \<Rightarrow> msg list \<Rightarrow> session_log \<Rightarrow> msg list result" where
  "transcript X baseline l =
     bind_r (fold_dicts (sx_lib X) (sx_pydantic X) (sx_now X) (log_dicts l)) (\<lambda>live. Inr (merge_messages baseline live))"

section \<open>The index of requests\<close>

type_synonym request_index = "(string, jdict) dict"

definition raw_or_empty :: "jdict \<Rightarrow> string \<Rightarrow> json" where
  "raw_or_empty d k = (let v = get_or d k JNull in if jtruthy v then v else JStr [])"

definition index_record :: "request_index \<Rightarrow> string \<Rightarrow> jdict" where
  "index_record idx rid = (case dict_get idx rid of None \<Rightarrow> [] | Some r \<Rightarrow> r)"

definition index_event :: "pylib \<Rightarrow> request_index \<Rightarrow> jdict \<Rightarrow> request_index result" where
  "index_event L idx e =
     bind_r (event_payload e) (\<lambda>d.
       let ty = dict_get e ''type''; rid = text_at L d ''request_id'' in Inr
       (if rid = [] then idx
        else if ty = Some (JStr ''user/message'') then
          (if dict_get idx rid = None then
             dict_set rid [(''message_id'', raw_or_empty e ''message_id''), (''run_id'', JStr []), (''status'', JStr ''pending''),
               (''fingerprint'', JStr (request_fingerprint L (get_or d ''content'' JNull)))] idx
           else idx)
        else if ty = Some (JStr ''turn/start'') then
          dict_set rid (dict_set ''status'' (JStr ''running'') (dict_set ''run_id'' (raw_or_empty d ''turn_id'') (index_record idx rid))) idx
        else if ty = Some (JStr ''turn/end'') then
          dict_set rid (dict_set ''status''
            (JStr (if str_or_default L (dict_get d ''outcome'') ''error'' = ''completed'' then ''completed'' else ''failed''))
            (index_record idx rid)) idx
        else idx))"

definition request_index_of :: "pylib \<Rightarrow> jdict list \<Rightarrow> request_index result" where
  "request_index_of L es = fold_r (index_event L) [] es"

definition metadata_request :: "pylib \<Rightarrow> msg \<Rightarrow> string" where
  "metadata_request L m = str_or_empty L (dict_get (msg_metadata m) ''request_id'')"

definition set_default :: "string \<Rightarrow> json \<Rightarrow> jdict \<Rightarrow> jdict" where
  "set_default k v d = (if dict_get d k = None then dict_set k v d else d)"

definition content_fingerprint :: "session_env \<Rightarrow> msg \<Rightarrow> string" where
  "content_fingerprint X m = request_fingerprint (sx_lib X) (JList (map (sx_block X) (msg_content m)))"

definition index_message :: "session_env \<Rightarrow> msg \<Rightarrow> request_index \<Rightarrow> request_index" where
  "index_message X m idx =
     (let rid = metadata_request (sx_lib X) m in
      if rid = [] then idx
      else
        let r = (case dict_get idx rid of Some r \<Rightarrow> r
          | None \<Rightarrow> [(''message_id'', JStr (msg_id m)), (''run_id'', JStr []), (''status'', JStr ''pending'')])
        in dict_set rid (set_default ''fingerprint'' (JStr (content_fingerprint X m)) (set_default ''message_id'' (JStr (msg_id m)) r)) idx)"

definition merge_requests :: "request_index \<Rightarrow> request_index \<Rightarrow> request_index" where
  "merge_requests old new = fold (\<lambda>(k, r). dict_set k r) new old"

section \<open>The preview of a session\<close>

fun collapse_blanks :: "string \<Rightarrow> string" where
  "collapse_blanks [] = []"
| "collapse_blanks (c # cs) =
     (if is_blank c then (case cs of [] \<Rightarrow> [CHR '' ''] | d # ds \<Rightarrow> if is_blank d then collapse_blanks cs else CHR '' '' # collapse_blanks cs)
      else c # collapse_blanks cs)"

definition LAST_USER_TEXT_MAX :: nat where
  "LAST_USER_TEXT_MAX = 200"

definition preview_of :: "msg \<Rightarrow> string" where
  "preview_of m =
     (let texts = concat (map (\<lambda>b. case b of TextB t \<Rightarrow> [py_strip (tb_text t)] | _ \<Rightarrow> []) (msg_content m))
      in py_strip (collapse_blanks (join_with '' '' (filter (\<lambda>t. t \<noteq> []) texts))))"

definition summarize_last_user_text :: "msg list \<Rightarrow> string" where
  "summarize_last_user_text ms =
     (let users = filter (\<lambda>m. msg_role m = RoleUser \<and> msg_name m = DEFAULT \<and> \<not> jtruthy (get_or (msg_metadata m) ''hide'' JNull)) (rev ms)
      in case find_first (\<lambda>p. p \<noteq> []) (map preview_of users) of None \<Rightarrow> [] | Some p \<Rightarrow> take_chars LAST_USER_TEXT_MAX p)"

definition with_preview :: "string \<Rightarrow> session_file \<Rightarrow> session_file" where
  "with_preview p f = (if p = [] then f else f\<lparr>sf_header := (sf_header f)\<lparr>sh_last_user_text := p\<rparr>\<rparr>)"

section \<open>Opening a session\<close>

definition legacy_lines :: "session_svc \<Rightarrow> string \<Rightarrow> legacy_line list option" where
  "legacy_lines s sid = sd_legacy (dir_of (sr_disk (ss_repo s)) sid)"

definition set_legacy :: "string \<Rightarrow> legacy_line list option \<Rightarrow> session_repo \<Rightarrow> session_repo" where
  "set_legacy sid ls r = r\<lparr>sr_disk := dict_set sid ((dir_of (sr_disk r) sid)\<lparr>sd_legacy := ls\<rparr>) (sr_disk r)\<rparr>"

definition last_seq :: "pylib \<Rightarrow> jdict list \<Rightarrow> int \<Rightarrow> int result" where
  "last_seq L es old = (if es = [] then Inr old else (case dict_get (last es) ''seq'' of None \<Rightarrow> Inl KeyError | Some v \<Rightarrow> py_int L v))"

definition migrated_file :: "session_env \<Rightarrow> int \<Rightarrow> legacy_line list \<Rightarrow> session_file \<Rightarrow> (session_file \<times> msg list) result" where
  "migrated_file X now ls f =
     bind_r (read_legacy_events ls) (\<lambda>(stored, cut).
     bind_r (repair_legacy_events (sx_lib X) now stored) (\<lambda>repaired.
     bind_r (fold_dicts (sx_lib X) (sx_pydantic X) (sx_now X) repaired) (\<lambda>baseline.
     bind_r (request_index_of (sx_lib X) repaired) (\<lambda>requests.
     bind_r (last_seq (sx_lib X) repaired (sf_seq f)) (\<lambda>n.
       Inr (with_preview (summarize_last_user_text baseline)
         (f\<lparr>sf_version := CURRENT_SCHEMA_VERSION, sf_seq := n, sf_messages := map (JObj \<circ> sx_dump X) baseline, sf_requests := requests\<rparr>),
         baseline))))))"

text \<open>
  \<open>migrate\<close>: the baseline of a session whose file has no messages and that still has a log of the old format. The old
  log is deleted when that works.
\<close>

definition migrate ::
  "session_env \<Rightarrow> int \<Rightarrow> bool \<Rightarrow> bool \<Rightarrow> string \<Rightarrow> legacy_line list \<Rightarrow> session_file \<Rightarrow> session_svc \<Rightarrow>
   session_svc \<times> (session_file \<times> msg list) result" where
  "migrate X now ok unlinked sid ls f s =
     (case migrated_file X now ls f of
        Inl e \<Rightarrow> (s, Inl e)
      | Inr (g, baseline) \<Rightarrow>
          (case commit ok g (ss_repo s) of
             (r, Inl e) \<Rightarrow> (s\<lparr>ss_repo := r\<rparr>, Inl e)
           | (r, Inr u) \<Rightarrow> (s\<lparr>ss_repo := (if unlinked then set_legacy sid None r else r)\<rparr>, Inr (g, baseline))))"

definition install_log :: "string \<Rightarrow> session_file \<Rightarrow> msg list \<Rightarrow> session_svc \<Rightarrow> session_svc \<times> session_log" where
  "install_log sid f baseline s =
     (let l = subscribe 0 (new_log sid (sf_seq f + 1))
      in (s\<lparr>ss_baseline := dict_set sid baseline (ss_baseline s), ss_logs := dict_set sid l (ss_logs s)\<rparr>, l))"

definition open_log :: "session_env \<Rightarrow> int \<Rightarrow> bool \<Rightarrow> bool \<Rightarrow> string \<Rightarrow> session_svc \<Rightarrow> session_svc \<times> session_log result" where
  "open_log X now ok unlinked sid s =
     (case dict_get (ss_logs s) sid of
        Some l \<Rightarrow> (s, Inr l)
      | None \<Rightarrow>
          (case svc_state s sid of
             Inl e \<Rightarrow> (s, Inl e)
           | Inr None \<Rightarrow> (s, Inl ValueError)
           | Inr (Some f) \<Rightarrow>
               (case load_snapshot_messages X f of
                  Inl e \<Rightarrow> (s, Inl e)
                | Inr baseline \<Rightarrow>
                    (case (if baseline = [] then legacy_lines s sid else None) of
                       None \<Rightarrow> (case install_log sid f baseline s of (s', l) \<Rightarrow> (s', Inr l))
                     | Some ls \<Rightarrow>
                         (case migrate X now ok unlinked sid ls f s of
                            (s', Inl e) \<Rightarrow> (s', Inl e)
                          | (s', Inr (g, ms)) \<Rightarrow> (case install_log sid g ms s' of (s'', l) \<Rightarrow> (s'', Inr l)))))))"

section \<open>Events\<close>

definition IMMEDIATE_EVENTS :: "string list" where
  "IMMEDIATE_EVENTS = [''user/message'', ''assistant/message'', ''tool/result'', ''compact/message'', ''hint/message'', ''approval/asked'', ''turn/end'']"

definition channel_of :: "session_svc \<Rightarrow> string \<Rightarrow> string" where
  "channel_of s sid = (case dict_get (sr_states (ss_repo s)) sid of None \<Rightarrow> [] | Some f \<Rightarrow> sh_channel (sf_header f))"

definition mark_dirty :: "string \<Rightarrow> bool \<Rightarrow> session_svc \<Rightarrow> session_svc" where
  "mark_dirty sid immediate s = s\<lparr>ss_marks := ss_marks s @ [(sid, immediate)]\<rparr>"

definition on_event :: "string \<Rightarrow> event \<Rightarrow> session_svc \<Rightarrow> session_svc" where
  "on_event sid ev s =
     mark_dirty sid (ev_type ev \<in> set IMMEDIATE_EVENTS)
       (s\<lparr>ss_cache := dict_pop sid (ss_cache s), ss_frames := ss_frames s @ [(sid, channel_of s sid, ev)]\<rparr>)"

text \<open>The one subscriber of a log is \<open>on_event\<close>, which does not call back into the log.\<close>

definition quiet :: reaction where
  "quiet f ev l = (l, False)"

definition store_log :: "string \<Rightarrow> session_log \<Rightarrow> session_svc \<Rightarrow> session_svc" where
  "store_log sid l s = s\<lparr>ss_logs := dict_set sid l (ss_logs s)\<rparr>"

definition append_to ::
  "session_env \<Rightarrow> int \<Rightarrow> string \<Rightarrow> (pyval \<times> pyval) list \<Rightarrow> string option \<Rightarrow> string \<Rightarrow> session_log \<Rightarrow> session_svc \<Rightarrow>
   session_svc \<times> event result" where
  "append_to X now ty data mid sid l s =
     (case append_event (sx_lib X) quiet now ty data mid l of
        (l', Inl e) \<Rightarrow> (s, Inl e) | (l', Inr ev) \<Rightarrow> (on_event sid ev (store_log sid l' s), Inr ev))"

definition append_session_event ::
  "session_env \<Rightarrow> int \<Rightarrow> bool \<Rightarrow> bool \<Rightarrow> string \<Rightarrow> string \<Rightarrow> (pyval \<times> pyval) list \<Rightarrow> string option \<Rightarrow> session_svc \<Rightarrow>
   session_svc \<times> event result" where
  "append_session_event X now ok unlinked sid ty data mid s =
     (case open_log X now ok unlinked sid s of
        (s', Inl e) \<Rightarrow> (s', Inl e) | (s', Inr l) \<Rightarrow> append_to X now ty data mid sid l s')"

section \<open>User messages, once per request\<close>

definition persisted_record :: "session_svc \<Rightarrow> string \<Rightarrow> string \<Rightarrow> jdict option result" where
  "persisted_record s sid rid = bind_r (svc_state s sid) (\<lambda>f. Inr (case f of None \<Rightarrow> None | Some f \<Rightarrow> dict_get (sf_requests f) rid))"

definition in_baseline :: "session_env \<Rightarrow> session_svc \<Rightarrow> string \<Rightarrow> string \<Rightarrow> msg option" where
  "in_baseline X s sid rid = find_first (\<lambda>m. metadata_request (sx_lib X) m = rid) (baseline_of s sid)"

definition has_persisted_request :: "session_env \<Rightarrow> string \<Rightarrow> string \<Rightarrow> session_svc \<Rightarrow> bool result" where
  "has_persisted_request X sid rid s =
     (if rid = [] then Inr False
      else bind_r (persisted_record s sid rid) (\<lambda>r. Inr (r \<noteq> None \<or> in_baseline X s sid rid \<noteq> None)))"

definition validate_persisted_request :: "session_env \<Rightarrow> string \<Rightarrow> string \<Rightarrow> json list \<Rightarrow> session_svc \<Rightarrow> unit result" where
  "validate_persisted_request X sid rid content s =
     (if rid = [] then Inr ()
      else
        let expected = request_fingerprint (sx_lib X) (JList content);
            against_baseline = (case in_baseline X s sid rid of
               None \<Rightarrow> Inr () | Some m \<Rightarrow> if content_fingerprint X m \<noteq> expected then Inl ValueError else Inr ())
        in bind_r (persisted_record s sid rid) (\<lambda>r.
             case r of
               None \<Rightarrow> against_baseline
             | Some d \<Rightarrow> (case dict_get d ''fingerprint'' of
                   Some (JStr stored) \<Rightarrow> if stored = [] then against_baseline else if stored \<noteq> expected then Inl ValueError else Inr ()
                 | _ \<Rightarrow> against_baseline)))"

text \<open>\<open>_user_msg_of_event\<close>: the message an event derives to on its own.\<close>

definition user_msg_of_event :: "session_env \<Rightarrow> event \<Rightarrow> msg result" where
  "user_msg_of_event X ev =
     bind_r (fold_dicts (sx_lib X) (sx_pydantic X) (sx_now X) [event_dict ev]) (\<lambda>ms.
       case find_first (\<lambda>m. msg_role m = RoleUser) ms of None \<Rightarrow> Inl ValueError | Some m \<Rightarrow> Inr m)"

definition preview_event :: "session_env \<Rightarrow> bool \<Rightarrow> string \<Rightarrow> event \<Rightarrow> session_svc \<Rightarrow> session_svc \<times> event option result" where
  "preview_event X ok sid ev s =
     (case user_msg_of_event X ev of
        Inl e \<Rightarrow> (s, Inl e)
      | Inr m \<Rightarrow>
          (let p = summarize_last_user_text [m]
           in if p = [] then (s, Inr (Some ev))
              else (case in_repo (set_last_user_text ok sid p (ss_repo s)) s of (s', res) \<Rightarrow> (s', bind_r res (\<lambda>u. Inr (Some ev))))))"

definition admit_user_message ::
  "session_env \<Rightarrow> int \<Rightarrow> string \<Rightarrow> bool \<Rightarrow> string \<Rightarrow> string \<Rightarrow> json list \<Rightarrow> (pyval \<times> pyval) list \<Rightarrow> session_log \<Rightarrow> session_svc \<Rightarrow>
   session_svc \<times> event option result" where
  "admit_user_message X now fresh ok sid rid content metadata l s =
     (case append_user_message (sx_lib X) quiet now fresh rid content metadata None l of
        (l', Inl e) \<Rightarrow> (s, Inl e)
      | (l', Inr None) \<Rightarrow> (s, Inr None)
      | (l', Inr (Some ev)) \<Rightarrow> preview_event X ok sid ev (on_event sid ev (store_log sid l' s)))"

definition append_user_message_if_absent ::
  "session_env \<Rightarrow> int \<Rightarrow> string \<Rightarrow> bool \<Rightarrow> bool \<Rightarrow> bool \<Rightarrow> string \<Rightarrow> string \<Rightarrow> json list \<Rightarrow> (pyval \<times> pyval) list \<Rightarrow> session_svc \<Rightarrow>
   session_svc \<times> event option result" where
  "append_user_message_if_absent X now fresh ok migrated unlinked sid rid content metadata s =
     (case bind_r (validate_persisted_request X sid rid content s) (\<lambda>u. has_persisted_request X sid rid s) of
        Inl e \<Rightarrow> (s, Inl e)
      | Inr True \<Rightarrow> (s, Inr None)
      | Inr False \<Rightarrow>
          (case open_log X now migrated unlinked sid s of
             (s', Inl e) \<Rightarrow> (s', Inl e)
           | (s', Inr l) \<Rightarrow>
               (case bind_r (validate_persisted_request X sid rid content s') (\<lambda>u. has_persisted_request X sid rid s') of
                  Inl e \<Rightarrow> (s', Inl e)
                | Inr True \<Rightarrow> (s', Inr None)
                | Inr False \<Rightarrow> admit_user_message X now fresh ok sid rid content metadata l s')))"

definition has_request_id :: "string \<Rightarrow> string \<Rightarrow> session_svc \<Rightarrow> bool result" where
  "has_request_id sid rid s = bind_r (persisted_record s sid rid) (\<lambda>r. Inr (rid \<noteq> [] \<and> r \<noteq> None))"

text \<open>Whether a request has been run: what the file says, else what this process saw.\<close>

definition persisted_status :: "session_env \<Rightarrow> session_file \<Rightarrow> string \<Rightarrow> string option" where
  "persisted_status X f rid =
     (case dict_get (sf_requests f) rid of
        None \<Rightarrow> None
      | Some d \<Rightarrow> (let st = text_at (sx_lib X) d ''status'' in if st \<in> {''completed'', ''failed'', ''running''} then Some st else None))"

definition session_request_state ::
  "session_env \<Rightarrow> int \<Rightarrow> bool \<Rightarrow> bool \<Rightarrow> string \<Rightarrow> string \<Rightarrow> session_svc \<Rightarrow> session_svc \<times> string option result" where
  "session_request_state X now ok unlinked sid rid s =
     (case svc_state s sid of
        Inl e \<Rightarrow> (s, Inl e)
      | Inr None \<Rightarrow> (s, Inr None)
      | Inr (Some f) \<Rightarrow>
          (case persisted_status X f rid of
             Some st \<Rightarrow> (s, Inr (Some st))
           | None \<Rightarrow> (case open_log X now ok unlinked sid s of
               (s', Inl e) \<Rightarrow> (s', Inl e) | (s', Inr l) \<Rightarrow> (s', Inr (request_state l rid)))))"

section \<open>Checkpoints\<close>

record checkpoint =
  ck_session :: string
  ck_messages :: "msg list"
  ck_requests :: request_index
  ck_seq :: int

definition capture :: "session_env \<Rightarrow> string \<Rightarrow> session_svc \<Rightarrow> checkpoint option result" where
  "capture X sid s =
     bind_r (svc_state s sid) (\<lambda>f.
       case (f, dict_get (ss_logs s) sid) of
         (Some _, Some l) \<Rightarrow>
           bind_r (transcript X (baseline_of s sid) l) (\<lambda>ms.
           bind_r (request_index_of (sx_lib X) (log_dicts l)) (\<lambda>idx.
             Inr (Some \<lparr>ck_session = sid, ck_messages = ms, ck_requests = fold (index_message X) ms idx, ck_seq = log_seq l\<rparr>)))
       | _ \<Rightarrow> Inr None)"

definition checkpoint_file :: "session_env \<Rightarrow> string \<Rightarrow> checkpoint \<Rightarrow> session_file \<Rightarrow> session_file" where
  "checkpoint_file X now ck f =
     with_preview (summarize_last_user_text (ck_messages ck))
       (touched now (f\<lparr>sf_version := CURRENT_SCHEMA_VERSION, sf_seq := ck_seq ck, sf_messages := map (JObj \<circ> sx_dump X) (ck_messages ck),
          sf_requests := merge_requests (sf_requests f) (ck_requests ck)\<rparr>))"

definition write_checkpoint :: "session_env \<Rightarrow> string \<Rightarrow> bool \<Rightarrow> checkpoint \<Rightarrow> session_svc \<Rightarrow> session_svc \<times> unit result" where
  "write_checkpoint X now ok ck s =
     (case svc_state s (ck_session ck) of
        Inl e \<Rightarrow> (s, Inl e)
      | Inr None \<Rightarrow> (s, Inr ())
      | Inr (Some f) \<Rightarrow>
          if ck_seq ck < sf_seq f then (s, Inr ()) else in_repo (commit ok (checkpoint_file X now ck f) (ss_repo s)) s)"

text \<open>A checkpoint without anything in between, as a flush does it.\<close>

definition flush_session :: "session_env \<Rightarrow> string \<Rightarrow> bool \<Rightarrow> string \<Rightarrow> session_svc \<Rightarrow> session_svc \<times> unit result" where
  "flush_session X now ok sid s =
     (case capture X sid s of
        Inl e \<Rightarrow> (s, Inl e) | Inr None \<Rightarrow> (s, Inr ()) | Inr (Some ck) \<Rightarrow> write_checkpoint X now ok ck s)"

section \<open>Reading\<close>

definition derived_messages ::
  "session_env \<Rightarrow> int \<Rightarrow> bool \<Rightarrow> bool \<Rightarrow> string \<Rightarrow> session_svc \<Rightarrow> session_svc \<times> msg list result" where
  "derived_messages X now ok unlinked sid s =
     (case open_log X now ok unlinked sid s of
        (s', Inl e) \<Rightarrow> (s', Inl e)
      | (s', Inr l) \<Rightarrow>
          (let compute = (case transcript X (baseline_of s' sid) l of
               Inl e \<Rightarrow> (s', Inl e)
             | Inr ms \<Rightarrow> (s'\<lparr>ss_cache := dict_set sid (log_seq l, ms) (ss_cache s')\<rparr>, Inr ms))
           in case dict_get (ss_cache s') sid of
                Some (n, ms) \<Rightarrow> if n = log_seq l then (s', Inr ms) else compute
              | None \<Rightarrow> compute))"

text \<open>Events after a position: the page, whether there is more, whether the client has to start over, the current number.\<close>

definition events_after ::
  "session_env \<Rightarrow> int \<Rightarrow> bool \<Rightarrow> bool \<Rightarrow> string \<Rightarrow> int \<Rightarrow> int \<Rightarrow> session_svc \<Rightarrow>
   session_svc \<times> (event list \<times> bool \<times> bool \<times> int) result" where
  "events_after X now ok unlinked sid after limit s =
     (case svc_state s sid of
        Inl e \<Rightarrow> (s, Inl e)
      | Inr None \<Rightarrow> (s, Inr ([], False, True, -1))
      | Inr (Some f) \<Rightarrow>
          (case open_log X now ok unlinked sid s of
             (s', Inl e) \<Rightarrow> (s', Inl e)
           | (s', Inr l) \<Rightarrow>
               (s', Inr (if after < sf_seq f \<or> log_seq l < after then ([], False, True, log_seq l)
                 else (case tail l after limit of (es, further) \<Rightarrow> (es, further, False, log_seq l))))))"

section \<open>Deleting\<close>

definition forget_live :: "string \<Rightarrow> session_svc \<Rightarrow> session_svc" where
  "forget_live sid s = s\<lparr>ss_logs := dict_pop sid (ss_logs s), ss_baseline := dict_pop sid (ss_baseline s), ss_cache := dict_pop sid (ss_cache s)\<rparr>"

definition team_members :: "json \<Rightarrow> string list" where
  "team_members team = (case team of
     JObj t \<Rightarrow> (case dict_get t ''members'' of Some (JObj ms) \<Rightarrow> map fst ms | _ \<Rightarrow> []) | _ \<Rightarrow> [])"

definition member_sessions :: "jdict \<Rightarrow> string list" where
  "member_sessions meta = (case dict_get meta ''teams'' of Some (JObj ts) \<Rightarrow> concat (map (team_members \<circ> snd) ts) | _ \<Rightarrow> [])"

definition binding_of :: "jdict \<Rightarrow> (string \<times> json) option" where
  "binding_of meta = (case dict_get meta ''team_member'' of
     Some (JObj b) \<Rightarrow> (case dict_get b ''leader_session'' of
         Some (JStr l) \<Rightarrow> if l = [] then None else Some (l, get_or b ''team_id'' (JStr [])) | _ \<Rightarrow> None)
   | _ \<Rightarrow> None)"

definition without_member :: "json \<Rightarrow> string \<Rightarrow> json \<Rightarrow> json" where
  "without_member team_id msid old =
     (let teams = (case old of JObj ts \<Rightarrow> ts | _ \<Rightarrow> [])
      in JObj (case team_id of
           JStr t \<Rightarrow> (case dict_get teams t of
               Some (JObj team) \<Rightarrow> (case dict_get team ''members'' of
                   Some (JObj ms) \<Rightarrow> dict_set t (JObj (dict_set ''members'' (JObj (dict_pop msid ms)) team)) teams | _ \<Rightarrow> teams)
             | _ \<Rightarrow> teams)
         | _ \<Rightarrow> teams))"

text \<open>Removing one session: what is live of it, then what is stored. \<open>gone\<close> says whether its directory could be removed.\<close>

definition drop_session :: "bool \<Rightarrow> string \<Rightarrow> session_svc \<Rightarrow> session_svc \<times> unit result" where
  "drop_session gone sid s =
     in_repo (delete_stored gone sid (ss_repo s)) ((forget_live sid s)\<lparr>ss_profiles := filter (\<lambda>lm. gone \<longrightarrow> fst lm \<noteq> sid) (ss_profiles s)\<rparr>)"

fun drop_sessions :: "bool \<Rightarrow> string list \<Rightarrow> session_svc \<Rightarrow> session_svc \<times> unit result" where
  "drop_sessions gone [] s = (s, Inr ())"
| "drop_sessions gone (m # ms) s = (case drop_session gone m s of (s', Inl e) \<Rightarrow> (s', Inl e) | (s', Inr u) \<Rightarrow> drop_sessions gone ms s')"

definition unbind_member :: "bool \<Rightarrow> string \<Rightarrow> string \<Rightarrow> json \<Rightarrow> string \<Rightarrow> session_svc \<Rightarrow> session_svc \<times> unit result" where
  "unbind_member ok now leader team_id msid s =
     (case in_repo (mutate_metadata ok now leader ''teams'' (\<lambda>old. Inr (without_member team_id msid old)) (ss_repo s)) s of
        (s', Inl e) \<Rightarrow> (s', if e = ValueError then Inr () else Inl e) | (s', Inr m) \<Rightarrow> (s', Inr ()))"

definition delete_profile :: "string \<Rightarrow> string \<Rightarrow> session_svc \<Rightarrow> session_svc" where
  "delete_profile leader member s = s\<lparr>ss_profiles := filter (\<lambda>lm. lm \<noteq> (leader, member)) (ss_profiles s)\<rparr>"

definition delete_session_cascade :: "bool \<Rightarrow> bool \<Rightarrow> string \<Rightarrow> string \<Rightarrow> session_svc \<Rightarrow> session_svc \<times> unit result" where
  "delete_session_cascade gone ok now sid s =
     (case get_metadata sid (ss_repo s) of
        Inl e \<Rightarrow> (s, Inl e)
      | Inr meta \<Rightarrow>
          (case drop_sessions gone (member_sessions meta) s of
             (s1, Inl e) \<Rightarrow> (s1, Inl e)
           | (s1, Inr u) \<Rightarrow>
               (case drop_session gone sid (s1\<lparr>ss_profiles := filter (\<lambda>lm. fst lm \<noteq> sid) (ss_profiles s1)\<rparr>) of
                  (s2, Inl e) \<Rightarrow> (s2, Inl e)
                | (s2, Inr v) \<Rightarrow>
                    (case binding_of meta of
                       None \<Rightarrow> (s2, Inr ())
                     | Some (leader, team_id) \<Rightarrow>
                         (case unbind_member ok now leader team_id sid s2 of
                            (s3, Inl e) \<Rightarrow> (s3, Inl e) | (s3, Inr w) \<Rightarrow> (delete_profile leader sid s3, Inr ()))))))"

end
