(* ===== verification/SessionHistory.thy ===== *)
theory SessionHistory
  imports SessionService
begin

text \<open>
  The operations that make a history out of another one: rollback of a session in place and fork of a session
  (\<open>rollback_session\<close> and \<open>fork_session\<close> of \<open>src/ftre/services/session/service.py\<close>), the messages and command records
  other components append, and the life of the service as a machine: appends, reads, checkpoints in two steps, changes of
  metadata, rollback, deletion, restart.
\<close>

section \<open>Stable messages\<close>

definition stable_block :: "content_block \<Rightarrow> bool" where
  "stable_block b = (case b of ToolResultB r \<Rightarrow> trb_state r \<noteq> RUNNING | ToolCallB c \<Rightarrow> tcb_state c = FINISHED | _ \<Rightarrow> True)"

definition is_stable_message :: "msg \<Rightarrow> bool" where
  "is_stable_message m = list_all stable_block (msg_content m)"

definition fork_busy :: exn where "fork_busy = ServiceError ''ForkBusyError''"
definition fork_target_error :: exn where "fork_target_error = ServiceError ''ForkTargetError''"
definition rollback_busy :: exn where "rollback_busy = ServiceError ''RollbackBusyError''"
definition rollback_target_error :: exn where "rollback_target_error = ServiceError ''RollbackTargetError''"

text \<open>\<open>flush_log\<close>: without a log there is nothing to write.\<close>

definition flush_log :: "session_env \<Rightarrow> string \<Rightarrow> bool \<Rightarrow> string \<Rightarrow> session_svc \<Rightarrow> session_svc \<times> unit result" where
  "flush_log X now ok sid s =
     (case dict_get (ss_logs s) sid of None \<Rightarrow> (s, Inr ()) | Some l \<Rightarrow> flush_session X now ok sid (mark_dirty sid True s))"

definition behind_log :: "session_svc \<Rightarrow> string \<Rightarrow> session_file \<Rightarrow> bool" where
  "behind_log s sid f = (case dict_get (ss_logs s) sid of None \<Rightarrow> False | Some l \<Rightarrow> sf_seq f < log_seq l)"

section \<open>Rollback\<close>

record rollback_result =
  rb_session :: string
  rb_through :: string
  rb_seq :: int
  rb_removed :: "string list"
  rb_prefill :: "json list"
  rb_title :: string
  rb_workspace :: string

text \<open>The message to roll back to, and the messages before it.\<close>

definition rollback_point :: "string \<Rightarrow> msg list \<Rightarrow> (nat \<times> msg) result" where
  "rollback_point through ms =
     (case index_of (\<lambda>m. msg_id m = through) ms of
        None \<Rightarrow> Inl rollback_target_error
      | Some i \<Rightarrow>
          if msg_role (ms ! i) \<noteq> RoleUser \<or> \<not> is_stable_message (ms ! i) then Inl rollback_target_error
          else if \<not> list_all is_stable_message (take i ms) then Inl rollback_busy
          else Inr (i, ms ! i))"

definition kept_requests :: "session_env \<Rightarrow> msg list \<Rightarrow> request_index \<Rightarrow> request_index" where
  "kept_requests X kept idx =
     filter (\<lambda>(rid, r). (rid \<noteq> [] \<and> list_ex (\<lambda>m. metadata_request (sx_lib X) m = rid) kept) \<or>
       list_ex (\<lambda>m. msg_id m = text_at (sx_lib X) r ''message_id'') kept) idx"

definition rolled_back :: "session_env \<Rightarrow> string \<Rightarrow> msg list \<Rightarrow> session_file \<Rightarrow> session_file" where
  "rolled_back X now kept f =
     (let g = touched now (f\<lparr>sf_version := CURRENT_SCHEMA_VERSION, sf_messages := map (JObj \<circ> sx_dump X) kept,
              sf_requests := kept_requests X kept (sf_requests f)\<rparr>)
      in g\<lparr>sf_header := (sf_header g)\<lparr>sh_last_user_text := summarize_last_user_text kept\<rparr>\<rparr>)"

definition switch_baseline :: "string \<Rightarrow> msg list \<Rightarrow> int \<Rightarrow> session_log option \<Rightarrow> session_svc \<Rightarrow> session_svc" where
  "switch_baseline sid kept n was s =
     (let s1 = s\<lparr>ss_baseline := dict_set sid kept (ss_baseline s), ss_cache := dict_pop sid (ss_cache s)\<rparr>
      in case was of None \<Rightarrow> s1 | Some l \<Rightarrow> store_log sid (fst (reset_log (n + 1) l)) s1)"

definition rollback_result_of :: "session_env \<Rightarrow> string \<Rightarrow> string \<Rightarrow> nat \<Rightarrow> msg list \<Rightarrow> session_file \<Rightarrow> rollback_result" where
  "rollback_result_of X sid through i ms f =
     \<lparr>rb_session = sid, rb_through = through, rb_seq = sf_seq f, rb_removed = map msg_id (drop i ms),
      rb_prefill = map (sx_block X) (msg_content (ms ! i)), rb_title = sh_title (sf_header f),
      rb_workspace = sh_workspace (sf_header f)\<rparr>"

text \<open>The part under the lock of the session: \<open>f\<close> is its file and \<open>was\<close> its log when the lock was taken.\<close>

definition rollback_locked ::
  "session_env \<Rightarrow> int \<Rightarrow> string \<Rightarrow> bool \<Rightarrow> bool \<Rightarrow> bool \<Rightarrow> string \<Rightarrow> string \<Rightarrow> session_file \<Rightarrow> session_svc \<Rightarrow>
   session_svc \<times> rollback_result result" where
  "rollback_locked X ms_now now ok migrated unlinked sid through f s =
     (case derived_messages X ms_now migrated unlinked sid s of
        (s1, Inl e) \<Rightarrow> (s1, Inl e)
      | (s1, Inr ms) \<Rightarrow>
          (case rollback_point through ms of
             Inl e \<Rightarrow> (s1, Inl e)
           | Inr (i, target) \<Rightarrow>
               (let g = rolled_back X now (take i ms) f
                in case in_repo (commit ok g (ss_repo s1)) s1 of
                     (s2, Inl e) \<Rightarrow> (s2, Inl e)
                   | (s2, Inr u) \<Rightarrow>
                       (switch_baseline sid (take i ms) (sf_seq f) (dict_get (ss_logs s) sid) s2,
                        Inr (rollback_result_of X sid through i ms g)))))"

definition rollback_session ::
  "session_env \<Rightarrow> int \<Rightarrow> string \<Rightarrow> bool \<Rightarrow> bool \<Rightarrow> bool \<Rightarrow> bool \<Rightarrow> string \<Rightarrow> string \<Rightarrow> session_svc \<Rightarrow>
   session_svc \<times> rollback_result result" where
  "rollback_session X ms_now now flushed ok migrated unlinked sid through s =
     (if through = [] then (s, Inl rollback_target_error)
      else case flush_log X now flushed sid s of
        (s1, Inl e) \<Rightarrow> (s1, Inl rollback_busy)
      | (s1, Inr u) \<Rightarrow>
          (case svc_state s1 sid of
             Inl e \<Rightarrow> (s1, Inl e)
           | Inr None \<Rightarrow> (s1, Inl ValueError)
           | Inr (Some f) \<Rightarrow>
               if behind_log s1 sid f then (s1, Inl rollback_busy)
               else rollback_locked X ms_now now ok migrated unlinked sid through f s1))"

section \<open>Fork\<close>

definition FORK_METADATA_EXCLUDE :: "string list" where
  "FORK_METADATA_EXCLUDE = [''teams'', ''team_member'', ''external'']"

record fork_result =
  fr_session :: string
  fr_title :: string
  fr_workspace :: string
  fr_parent :: string
  fr_through :: "string option"
  fr_seq :: int

text \<open>The messages a fork copies: up to the target, which is included, or all.\<close>

definition fork_selection :: "string \<Rightarrow> msg list \<Rightarrow> msg list result" where
  "fork_selection through ms =
     bind_r (if through = [] then Inr ms
       else case index_of (\<lambda>m. msg_id m = through) ms of
         None \<Rightarrow> Inl fork_target_error
       | Some i \<Rightarrow> if is_stable_message (ms ! i) then Inr (take (Suc i) ms) else Inl fork_target_error)
     (\<lambda>sel. if list_all is_stable_message sel then Inr sel else Inl fork_busy)"

definition fork_metadata :: "string \<Rightarrow> string \<Rightarrow> string \<Rightarrow> jdict \<Rightarrow> jdict" where
  "fork_metadata parent utc through meta =
     dict_set ''forked_through_message_id'' (JStr through) (dict_set ''forked_at'' (JStr utc) (dict_set ''forked_from'' (JStr parent)
       (filter (\<lambda>(k, v). k \<notin> set FORK_METADATA_EXCLUDE) meta)))"

definition fork_seq :: "msg list \<Rightarrow> int" where
  "fork_seq ms = fold max (filter (\<lambda>n. 0 \<le> n) (map msg_seq ms)) (-1)"

definition fork_title :: "string \<Rightarrow> session_header \<Rightarrow> string" where
  "fork_title parent h = ''fork of '' @ str_or (sh_title h) parent"

definition fork_file :: "session_env \<Rightarrow> string \<Rightarrow> string \<Rightarrow> string \<Rightarrow> string \<Rightarrow> string \<Rightarrow> msg list \<Rightarrow> session_file \<Rightarrow> session_file" where
  "fork_file X now utc fork parent through sel f =
     (let h = sf_header f in
      \<lparr>sf_version = CURRENT_SCHEMA_VERSION,
       sf_header = \<lparr>sh_id = fork, sh_agent = sh_agent h, sh_channel = sh_channel h, sh_title = fork_title parent h,
         sh_workspace = sh_workspace h, sh_created = now, sh_updated = now, sh_last_user_text = summarize_last_user_text sel\<rparr>,
       sf_metadata = fork_metadata parent utc through (sf_metadata f), sf_seq = fork_seq sel,
       sf_messages = map (JObj \<circ> sx_dump X) sel, sf_requests = [], sf_extensions = sf_extensions f, sf_extra = []\<rparr>)"

definition fork_result_of :: "string \<Rightarrow> string option \<Rightarrow> session_file \<Rightarrow> fork_result" where
  "fork_result_of parent through g =
     \<lparr>fr_session = file_id g, fr_title = sh_title (sf_header g), fr_workspace = sh_workspace (sf_header g), fr_parent = parent,
      fr_through = through, fr_seq = sf_seq g\<rparr>"

definition fork_prepare ::
  "session_env \<Rightarrow> int \<Rightarrow> string \<Rightarrow> string \<Rightarrow> string \<Rightarrow> bool \<Rightarrow> bool \<Rightarrow> string \<Rightarrow> string option \<Rightarrow> session_svc \<Rightarrow>
   session_svc \<times> session_file result" where
  "fork_prepare X ms_now now utc hex migrated unlinked parent through s =
     (case svc_state s parent of
        Inl e \<Rightarrow> (s, Inl e)
      | Inr None \<Rightarrow> (s, Inl ValueError)
      | Inr (Some f) \<Rightarrow>
          if behind_log s parent f then (s, Inl fork_busy)
          else case derived_messages X ms_now migrated unlinked parent s of
            (s1, Inl e) \<Rightarrow> (s1, Inl e)
          | (s1, Inr ms) \<Rightarrow>
              (s1, bind_r (fork_selection (opt_str through) ms) (\<lambda>sel.
                   bind_r (make_session_id (sh_channel (sf_header f)) hex) (\<lambda>fork.
                   Inr (fork_file X now utc fork parent (opt_str through) sel f)))))"

definition fork_session ::
  "session_env \<Rightarrow> int \<Rightarrow> string \<Rightarrow> string \<Rightarrow> string \<Rightarrow> bool \<Rightarrow> bool \<Rightarrow> bool \<Rightarrow> bool \<Rightarrow> string \<Rightarrow> string option \<Rightarrow> session_svc \<Rightarrow>
   session_svc \<times> fork_result result" where
  "fork_session X ms_now now utc hex flushed ok migrated unlinked parent through s =
     (case flush_log X now flushed parent s of
        (s1, Inl e) \<Rightarrow> (s1, Inl fork_busy)
      | (s1, Inr u) \<Rightarrow>
          (case fork_prepare X ms_now now utc hex migrated unlinked parent through s1 of
             (s2, Inl e) \<Rightarrow> (s2, Inl e)
           | (s2, Inr g) \<Rightarrow>
               (case in_repo (create_with_state ok g (ss_repo s2)) s2 of
                  (s3, res) \<Rightarrow> (s3, bind_r res (\<lambda>fork. Inr (fork_result_of parent through g))))))"

section \<open>Appends of other components\<close>

text \<open>\<open>append_external_message\<close>: a message of another session as a whole value.\<close>

definition append_external_message ::
  "session_env \<Rightarrow> int \<Rightarrow> bool \<Rightarrow> bool \<Rightarrow> string \<Rightarrow> msg \<Rightarrow> session_svc \<Rightarrow> session_svc \<times> event result" where
  "append_external_message X now ok unlinked sid m s =
     append_session_event X now ok unlinked sid ''assistant/message'' [(PStr ''message'', py_of_json (JObj (sx_dump X m)))] (Some (msg_id m)) s"

definition append_command_event :: "bool \<Rightarrow> string \<Rightarrow> string \<Rightarrow> jdict \<Rightarrow> session_svc \<Rightarrow> session_svc \<times> nat result" where
  "append_command_event ok now sid ev s =
     (if \<not> jtruthy (get_or ev ''type'' JNull) then (s, Inl ValueError)
      else case in_repo (mutate_metadata ok now sid ''_command_events''
               (\<lambda>old. Inr (JList ((case old of JList xs \<Rightarrow> xs | _ \<Rightarrow> []) @ [JObj ev]))) (ss_repo s)) s of
             (s', res) \<Rightarrow> (s', bind_r res (\<lambda>meta. Inr (case dict_get meta ''_command_events'' of Some (JList xs) \<Rightarrow> length xs | _ \<Rightarrow> 0))))"

definition get_command_events :: "string \<Rightarrow> session_svc \<Rightarrow> json list result" where
  "get_command_events sid s =
     bind_r (get_metadata sid (ss_repo s)) (\<lambda>meta. Inr (case dict_get meta ''_command_events'' of Some (JList xs) \<Rightarrow> xs | _ \<Rightarrow> []))"

text \<open>A new process over the directory the old one left.\<close>

definition restart_svc :: "session_env \<Rightarrow> (string \<Rightarrow> bool) \<Rightarrow> session_svc \<Rightarrow> session_svc" where
  "restart_svc X renames s =
     (fresh_svc (sweep_orphans (init_repo (sx_meta X) renames (fresh_repo (sr_disk (ss_repo s))))))\<lparr>ss_profiles := ss_profiles s\<rparr>"

end
