(* ===== verification/SessionGuarantees.thy ===== *)
theory SessionGuarantees
  imports SessionHistory
begin

text \<open>
  What the service over sessions guarantees, for every order of appends, reads, checkpoints taken and written apart,
  changes of metadata, forks, rollbacks, deletions and restarts. The logs of the old format have been imported.
\<close>

section \<open>The life of the service\<close>

definition session_file_of :: "session_svc \<Rightarrow> string \<Rightarrow> session_file option" where
  "session_file_of s sid = dict_get (sr_states (ss_repo s)) sid"

definition no_legacy :: "session_svc \<Rightarrow> bool" where
  "no_legacy s \<longleftrightarrow> (\<forall>sid. legacy_lines s sid = None)"

type_synonym svc_life = "session_svc \<times> checkpoint list"

text \<open>Steps that only add to the history of sessions. New sessions have new ids.\<close>

inductive forward_step :: "session_env \<Rightarrow> svc_life \<Rightarrow> svc_life \<Rightarrow> bool" for X where
  appended: "forward_step X (s, P) (fst (append_session_event X now ok u sid ty data mid s), P)"
| said: "forward_step X (s, P) (fst (append_user_message_if_absent X now fresh ok m u sid rid content metadata s), P)"
| derived: "forward_step X (s, P) (fst (derived_messages X now ok u sid s), P)"
| tailed: "forward_step X (s, P) (fst (events_after X now ok u sid after limit s), P)"
| asked: "forward_step X (s, P) (fst (session_request_state X now ok u sid rid s), P)"
| captured: "capture X sid s = Inr (Some ck) \<Longrightarrow> forward_step X (s, P) (s, ck # P)"
| written: "ck \<in> set P \<Longrightarrow> forward_step X (s, P) (fst (write_checkpoint X stamp ok ck s), P)"
| renamed: "forward_step X (s, P) (fst (in_repo (update_session ok stamp sid title' workspace' (ss_repo s)) s), P)"
| annotated: "forward_step X (s, P) (fst (in_repo (mutate_metadata ok stamp sid key updater (ss_repo s)) s), P)"
| created: "session_file_of s (channel @ ''_sess_'' @ hex) = None \<Longrightarrow>
    forward_step X (s, P) (fst (in_repo (create_session ok stamp hex channel title workspace (ss_repo s)) s), P)"
| bound: "session_file_of s (channel @ ''_sess_'' @ hex) = None \<Longrightarrow>
    forward_step X (s, P) (fst (in_repo (get_or_create_external ok stamp hex channel key title workspace data (ss_repo s)) s), P)"
| forked: "forward_step X (s, P) (fst (fork_session X now stamp utc hex fl ok m u parent through s), P)"
| restarted: "forward_step X (s, P) (restart_svc X renames s, [])"

text \<open>Steps that take something back. A deletion cancels the checkpoint of its session.\<close>

inductive svc_step :: "session_env \<Rightarrow> svc_life \<Rightarrow> svc_life \<Rightarrow> bool" for X where
  forward: "forward_step X a b \<Longrightarrow> svc_step X a b"
| undone: "svc_step X (s, P) (fst (rollback_session X now stamp fl ok m u sid through s), P)"
| gone: "name_ok sid \<Longrightarrow> svc_step X (s, P) (fst (drop_session True sid s), filter (\<lambda>ck. ck_session ck \<noteq> sid) P)"

section \<open>The invariant\<close>

definition log_fits :: "session_env \<Rightarrow> session_svc \<Rightarrow> string \<Rightarrow> session_log \<Rightarrow> bool" where
  "log_fits X s sid l \<longleftrightarrow> log_inv (sx_lib X) l \<and>
     (case session_file_of s sid of None \<Rightarrow> False
      | Some f \<Rightarrow> sf_seq f \<le> log_seq l \<and> log_seq l - int (length (sl_events l)) \<le> max (-1) (sf_seq f))"

definition cache_fits :: "session_env \<Rightarrow> session_svc \<Rightarrow> string \<Rightarrow> int \<times> msg list \<Rightarrow> bool" where
  "cache_fits X s sid c \<longleftrightarrow> (case dict_get (ss_logs s) sid of None \<Rightarrow> False
     | Some l \<Rightarrow> fst c = log_seq l \<and> transcript X (baseline_of s sid) l = Inr (snd c))"

definition svc_ok :: "session_env \<Rightarrow> session_svc \<Rightarrow> bool" where
  "svc_ok X s \<longleftrightarrow> store_ok (sx_meta X) (ss_repo s) \<and> no_legacy s \<and>
     (\<forall>sid. pred_option (log_fits X s sid) (dict_get (ss_logs s) sid)) \<and>
     (\<forall>sid. pred_option (cache_fits X s sid) (dict_get (ss_cache s) sid))"

lemma svc_okD:
  assumes "svc_ok X s"
  shows "store_ok (sx_meta X) (ss_repo s)" "no_legacy s"
    "dict_get (ss_logs s) sid = Some l \<Longrightarrow> log_fits X s sid l" "dict_get (ss_cache s) sid = Some c \<Longrightarrow> cache_fits X s sid c"
  using assms by (simp_all add: svc_ok_def option.pred_set)

lemma log_fits_cong: "session_file_of s' sid = session_file_of s sid \<Longrightarrow> log_fits X s' sid l = log_fits X s sid l"
  by (simp add: log_fits_def)

lemma cache_fits_cong:
  "dict_get (ss_logs s') sid = dict_get (ss_logs s) sid \<Longrightarrow> baseline_of s' sid = baseline_of s sid \<Longrightarrow>
   cache_fits X s' sid c = cache_fits X s sid c"
  by (simp add: cache_fits_def split: option.splits)

lemma svc_okI:
  assumes "store_ok (sx_meta X) (ss_repo s)" "no_legacy s"
    and "\<And>sid l. dict_get (ss_logs s) sid = Some l \<Longrightarrow> log_fits X s sid l"
    and "\<And>sid c. dict_get (ss_cache s) sid = Some c \<Longrightarrow> cache_fits X s sid c"
  shows "svc_ok X s"
  using assms unfolding svc_ok_def option.pred_set by auto

definition pending_fits :: "session_svc \<Rightarrow> checkpoint \<Rightarrow> bool" where
  "pending_fits s ck \<longleftrightarrow> (case dict_get (ss_logs s) (ck_session ck) of None \<Rightarrow> False | Some l \<Rightarrow> ck_seq ck \<le> log_seq l)"

definition life_ok :: "session_env \<Rightarrow> svc_life \<Rightarrow> bool" where
  "life_ok X a \<longleftrightarrow> svc_ok X (fst a) \<and> list_all (pending_fits (fst a)) (snd a)"

text \<open>Files only gain: the number they cover does not fall, and a request they know stays known.\<close>

definition file_advances :: "session_file \<Rightarrow> session_file \<Rightarrow> bool" where
  "file_advances f g \<longleftrightarrow> sf_seq f \<le> sf_seq g \<and> fst ` set (sf_requests f) \<subseteq> fst ` set (sf_requests g)"

definition repo_advances :: "session_repo \<Rightarrow> session_repo \<Rightarrow> bool" where
  "repo_advances r r' \<longleftrightarrow> (\<forall>sid f. dict_get (sr_states r) sid = Some f \<longrightarrow> (\<exists>g. dict_get (sr_states r') sid = Some g \<and> file_advances f g))"

lemma file_advances_refl [simp]: "file_advances f f"
  by (simp add: file_advances_def)

lemma file_advances_trans: "file_advances f g \<Longrightarrow> file_advances g h \<Longrightarrow> file_advances f h"
  unfolding file_advances_def by (blast intro: order_trans)

lemma repo_advances_refl [simp]: "repo_advances r r"
  by (simp add: repo_advances_def)

lemma repo_advances_trans: "repo_advances a b \<Longrightarrow> repo_advances b c \<Longrightarrow> repo_advances a c"
  unfolding repo_advances_def by (meson file_advances_trans)

section \<open>Writing a file\<close>

lemma commit_states:
  "dict_get (sr_states (fst (commit ok f r))) sid =
     (if snd (commit ok f r) = Inr () \<and> sid = file_id f then Some f else dict_get (sr_states r) sid)"
  by (simp add: commit_def write_file_def Let_def)

lemma commit_Inr: "snd (commit ok f r) = Inr () \<longleftrightarrow> ok \<and> name_ok (file_id f)"
  by (simp add: commit_def write_file_def Let_def)

lemma commit_advances:
  "(\<And>f. dict_get (sr_states r) (file_id g) = Some f \<Longrightarrow> file_advances f g) \<Longrightarrow> repo_advances r (fst (commit ok g r))"
  by (auto simp: repo_advances_def commit_states)

lemma dir_of_set: "dir_of (dict_set name d dk) n = (if n = name then d else dir_of dk n)"
  by (simp add: dir_of_def)

lemma commit_legacy: "sd_legacy (dir_of (sr_disk (fst (commit ok f r))) sid) = sd_legacy (dir_of (sr_disk r) sid)"
  by (simp add: commit_def write_file_def Let_def dir_of_set)

lemma commit_corrupt: "sr_corrupt (fst (commit ok f r)) = sr_corrupt r"
  by (simp add: commit_def write_file_def Let_def)

text \<open>What a replaced repository has to keep for the service.\<close>

definition repo_step :: "session_env \<Rightarrow> session_repo \<Rightarrow> session_repo \<Rightarrow> bool" where
  "repo_step X r r' \<longleftrightarrow> store_ok (sx_meta X) r' \<and> (\<forall>sid. sd_legacy (dir_of (sr_disk r') sid) = sd_legacy (dir_of (sr_disk r) sid)) \<and>
     (\<forall>sid f. dict_get (sr_states r) sid = Some f \<longrightarrow> (\<exists>g. dict_get (sr_states r') sid = Some g \<and> sf_seq g = sf_seq f \<and>
        fst ` set (sf_requests f) \<subseteq> fst ` set (sf_requests g)))"

lemma repo_step_refl: "store_ok (sx_meta X) r \<Longrightarrow> repo_step X r r"
  by (simp add: repo_step_def)

lemma repo_step_advances: "repo_step X r r' \<Longrightarrow> repo_advances r r'"
  unfolding repo_step_def repo_advances_def file_advances_def by (metis order_refl)

lemma commit_repo_step:
  assumes "meta_laws (sx_meta X)" and "store_ok (sx_meta X) r" and "file_wf g"
    and "\<And>f. dict_get (sr_states r) (file_id g) = Some f \<Longrightarrow> sf_seq g = sf_seq f \<and> fst ` set (sf_requests f) \<subseteq> fst ` set (sf_requests g)"
  shows "repo_step X r (fst (commit ok g r))"
  using commit_store_ok [OF assms(1-3)] assms(4) by (auto simp: repo_step_def commit_legacy commit_states)

definition log_covered :: "session_repo \<Rightarrow> string \<Rightarrow> session_log \<Rightarrow> bool" where
  "log_covered r sid l \<longleftrightarrow> (case dict_get (sr_states r) sid of None \<Rightarrow> False
     | Some f \<Rightarrow> sf_seq f \<le> log_seq l \<and> log_seq l - int (length (sl_events l)) \<le> max (-1) (sf_seq f))"

lemma log_fits_iff: "log_fits X s sid l \<longleftrightarrow> log_inv (sx_lib X) l \<and> log_covered (ss_repo s) sid l"
  by (simp add: log_fits_def log_covered_def session_file_of_def)

lemma svc_ok_repo:
  assumes ok: "svc_ok X s" and "store_ok (sx_meta X) r"
    and legacy: "\<And>sid. sd_legacy (dir_of (sr_disk r) sid) = sd_legacy (dir_of (sr_disk (ss_repo s)) sid)"
    and logs: "\<And>sid l. dict_get (ss_logs s) sid = Some l \<Longrightarrow> log_covered (ss_repo s) sid l \<Longrightarrow> log_covered r sid l"
  shows "svc_ok X (s\<lparr>ss_repo := r\<rparr>)"
proof (rule svc_okI)
  show "store_ok (sx_meta X) (ss_repo (s\<lparr>ss_repo := r\<rparr>))" using assms(2) by simp
  show "no_legacy (s\<lparr>ss_repo := r\<rparr>)" using svc_okD(2) [OF ok] legacy by (simp add: no_legacy_def legacy_lines_def)
next
  fix sid l assume "dict_get (ss_logs (s\<lparr>ss_repo := r\<rparr>)) sid = Some l"
  then show "log_fits X (s\<lparr>ss_repo := r\<rparr>) sid l" using svc_okD(3) [OF ok, of sid l] logs by (simp add: log_fits_iff)
next
  fix sid c assume "dict_get (ss_cache (s\<lparr>ss_repo := r\<rparr>)) sid = Some c"
  then have "cache_fits X s sid c" using svc_okD(4) [OF ok] by simp
  then show "cache_fits X (s\<lparr>ss_repo := r\<rparr>) sid c" using cache_fits_cong [of "s\<lparr>ss_repo := r\<rparr>" sid s] by (simp add: baseline_of_def)
qed

lemma repo_step_ok:
  assumes ok: "svc_ok X s" and r: "repo_step X (ss_repo s) r"
  shows "svc_ok X (s\<lparr>ss_repo := r\<rparr>)"
proof (rule svc_ok_repo [OF ok])
  fix sid l assume "log_covered (ss_repo s) sid l"
  then show "log_covered r sid l" using r unfolding repo_step_def log_covered_def by (fastforce split: option.splits)
qed (use r in \<open>simp_all add: repo_step_def\<close>)

text \<open>Of a service, the repository and the logs decide; opening and reading add to them.\<close>

definition svc_advances :: "session_svc \<Rightarrow> session_svc \<Rightarrow> bool" where
  "svc_advances s s' \<longleftrightarrow> repo_advances (ss_repo s) (ss_repo s') \<and>
     (\<forall>sid l. dict_get (ss_logs s) sid = Some l \<longrightarrow> (\<exists>l'. dict_get (ss_logs s') sid = Some l' \<and> log_seq l \<le> log_seq l'))"

lemma svc_advances_refl [simp]: "svc_advances s s"
  by (simp add: svc_advances_def)

lemma svc_advances_trans: "svc_advances a b \<Longrightarrow> svc_advances b c \<Longrightarrow> svc_advances a c"
  unfolding svc_advances_def by (meson repo_advances_trans order_trans)

lemma pending_advances: "svc_advances s s' \<Longrightarrow> pending_fits s ck \<Longrightarrow> pending_fits s' ck"
  unfolding svc_advances_def pending_fits_def by (fastforce split: option.splits)

definition good_step :: "session_env \<Rightarrow> session_svc \<Rightarrow> session_svc \<Rightarrow> bool" where
  "good_step X s s' \<longleftrightarrow> svc_ok X s' \<and> svc_advances s s'"

lemma good_step_refl: "svc_ok X s \<Longrightarrow> good_step X s s"
  by (simp add: good_step_def)

lemma good_step_trans: "good_step X a b \<Longrightarrow> good_step X b c \<Longrightarrow> good_step X a c"
  unfolding good_step_def by (blast intro: svc_advances_trans)

lemma good_step_repo: "svc_ok X s \<Longrightarrow> repo_step X (ss_repo s) r \<Longrightarrow> good_step X s (s\<lparr>ss_repo := r\<rparr>)"
  by (simp add: good_step_def repo_step_ok svc_advances_def repo_step_advances)

section \<open>Opening and appending\<close>

lemma install_log_good:
  assumes ok: "svc_ok X s" and f: "session_file_of s sid = Some f" and fresh: "dict_get (ss_logs s) sid = None"
    and "install_log sid f b s = (s', l)"
  shows "good_step X s s'" and "dict_get (ss_logs s') sid = Some l" and "log_seq l = max (sf_seq f) (-1)"
    and "sl_events l = []" and "baseline_of s' sid = b" and "ss_repo s' = ss_repo s"
proof -
  have s': "s' = s\<lparr>ss_baseline := dict_set sid b (ss_baseline s), ss_logs := dict_set sid l (ss_logs s)\<rparr>"
    and l: "l = subscribe 0 (new_log sid (sf_seq f + 1))"
    using assms(4) unfolding install_log_def Let_def by auto
  show "dict_get (ss_logs s') sid = Some l" "baseline_of s' sid = b" "ss_repo s' = ss_repo s" by (simp_all add: s' baseline_of_def)
  show seq: "log_seq l = max (sf_seq f) (-1)" by (simp add: l subscribe_def new_log_def log_seq_def)
  show none: "sl_events l = []" by (simp add: l subscribe_def new_log_def)
  have inv: "log_inv (sx_lib X) l"
    using log_inv_new [of "sx_lib X" sid "sf_seq f + 1"] by (simp add: l log_inv_def subscribe_def indexes_def)
  have no_cache: "dict_get (ss_cache s) sid = None"
    using svc_okD(4) [OF ok, of sid] fresh by (cases "dict_get (ss_cache s) sid") (auto simp: cache_fits_def)
  have "svc_ok X s'"
  proof (rule svc_okI)
    show "store_ok (sx_meta X) (ss_repo s')" using svc_okD(1) [OF ok] by (simp add: s')
    show "no_legacy s'" using svc_okD(2) [OF ok] by (simp add: s' no_legacy_def legacy_lines_def)
  next
    fix sid' l' assume "dict_get (ss_logs s') sid' = Some l'"
    then show "log_fits X s' sid' l'" using svc_okD(3) [OF ok, of sid' l'] inv f seq none
      by (auto simp: s' log_fits_def session_file_of_def split: if_splits)
  next
    fix sid' c assume h: "dict_get (ss_cache s') sid' = Some c"
    then have "sid' \<noteq> sid" using no_cache by (auto simp: s')
    then have "cache_fits X s' sid' c = cache_fits X s sid' c" by (intro cache_fits_cong) (simp_all add: s' baseline_of_def)
    then show "cache_fits X s' sid' c" using svc_okD(4) [OF ok, of sid' c] h by (simp add: s')
  qed
  moreover have "svc_advances s s'" using fresh by (simp add: svc_advances_def s')
  ultimately show "good_step X s s'" by (simp add: good_step_def)
qed

text \<open>Opening without an old log: the log is there, or the session is read.\<close>

lemma open_log_good:
  assumes ok: "svc_ok X s" and "open_log X now w u sid s = (s', res)"
  shows "good_step X s s'" and "ss_repo s' = ss_repo s" and "\<And>l. res = Inr l \<Longrightarrow> dict_get (ss_logs s') sid = Some l"
proof -
  have legacy: "legacy_lines s sid = None" using svc_okD(2) [OF ok] by (simp add: no_legacy_def)
  have all: "good_step X s s' \<and> ss_repo s' = ss_repo s \<and> (\<forall>l. res = Inr l \<longrightarrow> dict_get (ss_logs s') sid = Some l)"
  proof (cases "dict_get (ss_logs s) sid")
    case (Some l)
    then show ?thesis using assms(2) good_step_refl [OF ok] by (auto simp: open_log_def)
  next
    case None
    show ?thesis
    proof (cases "\<exists>f b. svc_state s sid = Inr (Some f) \<and> load_snapshot_messages X f = Inr b")
      case True
      then obtain f b where f: "svc_state s sid = Inr (Some f)" and b: "load_snapshot_messages X f = Inr b" by blast
      obtain l where l: "install_log sid f b s = (s', l)" and res: "res = Inr l"
        using assms(2) None f b legacy by (auto simp: open_log_def split: prod.splits if_splits)
      have "session_file_of s sid = Some f" using f by (auto simp: svc_state_def get_state_def session_file_of_def split: option.splits if_splits)
      from install_log_good [OF ok this None l] show ?thesis using res by simp
    next
      case False
      then show ?thesis using assms(2) None good_step_refl [OF ok]
        by (auto simp: open_log_def split: sum.splits option.splits)
    qed
  qed
  then show "good_step X s s'" "ss_repo s' = ss_repo s" "\<And>l. res = Inr l \<Longrightarrow> dict_get (ss_logs s') sid = Some l" by auto
qed

lemma quiet_react: "quiet = react_by L now (\<lambda>_ _. ([], False))"
  by (intro ext) (simp add: quiet_def react_by_def)

text \<open>A longer log of a session is stored and its cache dropped.\<close>

lemma grown_log_good:
  assumes ok: "svc_ok X s" and l: "dict_get (ss_logs s) sid = Some l" and inv: "log_inv (sx_lib X) l'" and "log_seq l \<le> log_seq l'"
    and first: "log_seq l' - int (length (sl_events l')) = log_seq l - int (length (sl_events l))"
  shows "good_step X s (on_event sid ev (store_log sid l' s))"
proof -
  let ?t = "on_event sid ev (store_log sid l' s)"
  have t: "ss_repo ?t = ss_repo s" "ss_logs ?t = dict_set sid l' (ss_logs s)" "ss_cache ?t = dict_pop sid (ss_cache s)"
      "ss_baseline ?t = ss_baseline s"
    by (simp_all add: on_event_def store_log_def mark_dirty_def)
  have "svc_ok X ?t"
  proof (rule svc_okI)
    show "store_ok (sx_meta X) (ss_repo ?t)" using svc_okD(1) [OF ok] by (simp add: t)
    show "no_legacy ?t" using svc_okD(2) [OF ok] by (simp add: t no_legacy_def legacy_lines_def)
  next
    fix sid' k assume h: "dict_get (ss_logs ?t) sid' = Some k"
    have "log_fits X s sid' k"
    proof (cases "sid' = sid")
      case True
      then have "k = l'" using h by (simp add: t)
      then show ?thesis using True svc_okD(3) [OF ok l] inv assms(4) first by (auto simp: log_fits_def split: option.splits)
    next
      case False
      then show ?thesis using h svc_okD(3) [OF ok, of sid' k] by (simp add: t)
    qed
    then show "log_fits X ?t sid' k" by (subst log_fits_cong [of _ _ s]) (simp_all add: t session_file_of_def)
  next
    fix sid' c assume h: "dict_get (ss_cache ?t) sid' = Some c"
    then have "sid' \<noteq> sid" by (auto simp: t)
    then have "cache_fits X ?t sid' c = cache_fits X s sid' c" by (intro cache_fits_cong) (simp_all add: t baseline_of_def)
    then show "cache_fits X ?t sid' c" using svc_okD(4) [OF ok, of sid' c] h by (simp add: t split: if_splits)
  qed
  moreover have "svc_advances s ?t" using l assms(4) by (simp add: svc_advances_def t)
  ultimately show ?thesis by (simp add: good_step_def)
qed

lemma append_event_grows:
  assumes "log_inv L l" and "append_event L quiet now ty data mid l = (l', Inr ev)"
  shows "log_inv L l'" "log_seq l' = log_seq l + 1" "sl_events l' = sl_events l @ [ev]" "ev_seq ev = log_seq l + 1"
proof -
  note a = assms(2) [unfolded quiet_react [of L now]]
  note ok = append_event_Inr [OF a]
  show "log_inv L l'" using append_event_inv [OF a assms(1)] .
  show "log_seq l' = log_seq l + 1" "sl_events l' = sl_events l @ [ev]" "ev_seq ev = log_seq l + 1"
    using append_checks_Inr [OF ok(1)] by (simp_all add: ok(2) commit_event_facts log_seq_def)
qed

lemma append_to_good:
  assumes "svc_ok X s" and l: "dict_get (ss_logs s) sid = Some l"
  shows "good_step X s (fst (append_to X now ty data mid sid l s))"
proof (cases "append_event (sx_lib X) quiet now ty data mid l")
  case (Pair l' res)
  have inv: "log_inv (sx_lib X) l" using svc_okD(3) [OF assms] by (simp add: log_fits_def)
  show ?thesis
  proof (cases res)
    case (Inl e)
    then show ?thesis using Pair good_step_refl [OF assms(1)] by (simp add: append_to_def)
  next
    case (Inr ev)
    note g = append_event_grows [OF inv Pair [unfolded Inr]]
    then show ?thesis using Pair Inr grown_log_good [OF assms g(1)] by (simp add: append_to_def)
  qed
qed

lemma append_session_event_good:
  assumes "svc_ok X s"
  shows "good_step X s (fst (append_session_event X now ok u sid ty data mid s))"
proof (cases "open_log X now ok u sid s")
  case (Pair s' res)
  note o = open_log_good [OF assms Pair]
  then show ?thesis using Pair append_to_good good_step_trans
    by (cases res) (fastforce simp: append_session_event_def good_step_def)+
qed

section \<open>Operations of the repository\<close>

lemma svc_state_file: "svc_ok X s \<Longrightarrow> svc_state s sid = Inr (Some f) \<Longrightarrow> session_file_of s sid = Some f"
  using get_state_ok [OF svc_okD(1)] by (simp add: svc_state_def session_file_of_def)

lemma same_seq_commit:
  assumes "meta_laws (sx_meta X)" and "store_ok (sx_meta X) r" and f: "dict_get (sr_states r) sid = Some f"
    and "file_id g = file_id f" "file_wf g = file_wf f" "sf_seq g = sf_seq f" "sf_requests g = sf_requests f"
  shows "repo_step X r (fst (commit ok g r))"
proof (rule commit_repo_step [OF assms(1,2)])
  show "file_wf g" using state_ok [OF assms(2) f] assms(5) by simp
  show "sf_seq g = sf_seq h \<and> fst ` set (sf_requests h) \<subseteq> fst ` set (sf_requests g)"
    if "dict_get (sr_states r) (file_id g) = Some h" for h
    using that state_ok [OF assms(2) f] f assms by simp
qed

lemma touched_fields [simp]: "sf_seq (touched now f) = sf_seq f" "sf_requests (touched now f) = sf_requests f"
  by (simp_all add: touched_def)

lemma preview_step:
  assumes meta: "meta_laws (sx_meta X)" and ok: "store_ok (sx_meta X) r"
  shows "repo_step X r (fst (set_last_user_text w sid t r))"
proof (cases "\<exists>f. get_state r sid = Inr (Some f)")
  case True
  then obtain f where f: "get_state r sid = Inr (Some f)" by blast
  then show ?thesis using get_state_ok [OF ok f] same_seq_commit [OF meta ok, of sid f] by (simp add: set_last_user_text_def)
next
  case False
  then show ?thesis using repo_step_refl [OF ok] by (auto simp: set_last_user_text_def split: sum.splits option.splits)
qed

lemma update_step:
  assumes meta: "meta_laws (sx_meta X)" and ok: "store_ok (sx_meta X) r"
  shows "repo_step X r (fst (update_session w stamp sid ti wo r))"
proof (cases "\<exists>f. get_state r sid = Inr (Some f)")
  case True
  then obtain f where f: "get_state r sid = Inr (Some f)" by blast
  then show ?thesis using get_state_ok [OF ok f] same_seq_commit [OF meta ok, of sid f]
    by (simp add: update_session_def Let_def split: option.splits)
next
  case False
  then show ?thesis using repo_step_refl [OF ok] by (auto simp: update_session_def split: sum.splits option.splits)
qed

lemma mutate_step:
  assumes meta: "meta_laws (sx_meta X)" and ok: "store_ok (sx_meta X) r"
  shows "repo_step X r (fst (mutate_metadata w stamp sid key upd r))"
proof (cases "\<exists>f v. get_state r sid = Inr (Some f) \<and> upd (get_or (sf_metadata f) key JNull) = Inr v")
  case True
  then obtain f v where f: "get_state r sid = Inr (Some f)" and v: "upd (get_or (sf_metadata f) key JNull) = Inr v" by blast
  then show ?thesis using get_state_ok [OF ok f] same_seq_commit [OF meta ok, of sid f]
    by (simp add: mutate_metadata_def require_state_def Let_def)
next
  case False
  then show ?thesis using repo_step_refl [OF ok]
    by (cases "get_state r sid") (auto simp: mutate_metadata_def require_state_def split: option.splits sum.splits)
qed

lemma create_step:
  assumes meta: "meta_laws (sx_meta X)" and ok: "store_ok (sx_meta X) r"
    and new: "dict_get (sr_states r) (channel @ ''_sess_'' @ hex) = None"
  shows "repo_step X r (fst (create_session w stamp hex channel ti wo r))"
  using new repo_step_refl [OF ok]
  by (auto simp: create_session_def make_session_id_def bind_r_Inr_iff split: sum.splits intro!: commit_repo_step [OF meta ok])

lemma external_step:
  assumes meta: "meta_laws (sx_meta X)" and ok: "store_ok (sx_meta X) r"
    and new: "dict_get (sr_states r) (channel @ ''_sess_'' @ hex) = None"
  shows "repo_step X r (fst (get_or_create_external w stamp hex channel key ti wo data r))"
proof (cases "external_state stamp hex channel key ti wo data r")
  case (Inl e)
  then show ?thesis using repo_step_refl [OF ok] by (simp add: get_or_create_external_def)
next
  case (Inr f)
  have "repo_step X r (fst (commit w f r))"
  proof (cases "\<exists>sid g. dict_get (sr_states r) sid = Some g \<and> f = refreshed_external stamp data g")
    case True
    then obtain sid g where "dict_get (sr_states r) sid = Some g" "f = refreshed_external stamp data g" by blast
    then show ?thesis using same_seq_commit [OF meta ok] by (simp add: refreshed_external_def Let_def)
  next
    case False
    then have "f = plain_file (channel @ ''_sess_'' @ hex) channel ti wo stamp (external_binding stamp channel key data)"
      using Inr by (auto simp: external_state_def make_session_id_def bind_r_Inr_iff split: if_splits option.splits)
    then show ?thesis using new by (auto intro!: commit_repo_step [OF meta ok])
  qed
  then show ?thesis using Inr by (simp add: get_or_create_external_def)
qed

lemma create_with_state_step:
  assumes meta: "meta_laws (sx_meta X)" and ok: "store_ok (sx_meta X) r"
    and new: "file_wf g"
  shows "repo_step X r (fst (create_with_state w g r))"
  using new repo_step_refl [OF ok] by (auto simp: create_with_state_def intro!: commit_repo_step [OF meta ok])

lemma in_repo_good:
  assumes "svc_ok X s" and "repo_step X (ss_repo s) (fst ra)"
  shows "good_step X s (fst (in_repo ra s))"
  using good_step_repo [OF assms] by (simp add: in_repo_def)

lemma good_ok: "good_step X s s' \<Longrightarrow> svc_ok X s'"
  by (simp add: good_step_def)

section \<open>User messages\<close>

lemma preview_event_good:
  assumes "meta_laws (sx_meta X)" and ok: "svc_ok X s"
  shows "good_step X s (fst (preview_event X w sid ev s))"
proof (cases "user_msg_of_event X ev")
  case (Inl e)
  then show ?thesis using good_step_refl [OF ok] by (simp add: preview_event_def)
next
  case (Inr m)
  have "good_step X s (fst (in_repo (set_last_user_text w sid (summarize_last_user_text [m]) (ss_repo s)) s))"
    by (rule in_repo_good [OF ok]) (rule preview_step [OF assms(1) svc_okD(1) [OF ok]])
  then show ?thesis using Inr good_step_refl [OF ok] by (simp add: preview_event_def Let_def case_prod_beta)
qed

lemma append_user_message_grows:
  assumes "log_inv L l" and "append_user_message L quiet now fresh rid content metadata mid l = (l', res)"
  shows "log_inv L l'" and "log_seq l \<le> log_seq l'" and "log_seq l' - int (length (sl_events l')) = log_seq l - int (length (sl_events l))"
proof -
  show "log_inv L l'" using append_user_message_inv [OF _ assms(1)] assms(2) unfolding quiet_react [of L now] .
  have "log_seq l \<le> log_seq l' \<and> log_seq l' - int (length (sl_events l')) = log_seq l - int (length (sl_events l))"
  proof (rule append_user_message_cases [of L quiet now fresh rid content metadata mid l])
    fix data m
    assume h: "append_user_message L quiet now fresh rid content metadata mid l =
      (fst (append_event L quiet now ''user/message'' data (Some m) l),
       bind_r (snd (append_event L quiet now ''user/message'' data (Some m) l)) (\<lambda>ev. Inr (Some ev)))"
    obtain k r where k: "append_event L quiet now ''user/message'' data (Some m) l = (k, r)" by (cases "append_event L quiet now ''user/message'' data (Some m) l")
    have "l' = k" using h k assms(2) by simp
    show ?thesis
    proof (cases r)
      case (Inl e)
      then show ?thesis using append_event_Inl k \<open>l' = k\<close> by blast
    next
      case (Inr ev)
      then show ?thesis using append_event_grows(2,3) [OF assms(1) k [unfolded Inr]] \<open>l' = k\<close> by simp
    qed
  qed (use assms(2) in simp_all)
  then show "log_seq l \<le> log_seq l'" "log_seq l' - int (length (sl_events l')) = log_seq l - int (length (sl_events l))" by simp_all
qed

lemma admit_good:
  assumes "meta_laws (sx_meta X)" and ok: "svc_ok X s" and l: "dict_get (ss_logs s) sid = Some l"
  shows "good_step X s (fst (admit_user_message X now fresh w sid rid content metadata l s))"
proof (cases "append_user_message (sx_lib X) quiet now fresh rid content metadata None l")
  case (Pair l' res)
  have inv: "log_inv (sx_lib X) l" using svc_okD(3) [OF ok l] by (simp add: log_fits_def)
  note grown = append_user_message_grows [OF inv Pair]
  consider e where "res = Inl e" | "res = Inr None" | ev where "res = Inr (Some ev)" by (metis option.exhaust sum.exhaust)
  then show ?thesis
  proof cases
    case (3 ev)
    note g = grown_log_good [OF ok l grown, of ev]
    have "good_step X (on_event sid ev (store_log sid l' s)) (fst (preview_event X w sid ev (on_event sid ev (store_log sid l' s))))"
      by (rule preview_event_good [OF assms(1) good_ok [OF g]])
    then show ?thesis using Pair 3 good_step_trans [OF g] by (simp add: admit_user_message_def)
  qed (use Pair good_step_refl [OF ok] in \<open>simp_all add: admit_user_message_def\<close>)
qed

lemma append_user_message_if_absent_good:
  assumes "meta_laws (sx_meta X)" and ok: "svc_ok X s"
  shows "good_step X s (fst (append_user_message_if_absent X now fresh w m u sid rid content metadata s))"
proof (cases "open_log X now m u sid s")
  case (Pair s' res)
  note o = open_log_good [OF ok Pair]
  have admit: "good_step X s (fst (admit_user_message X now fresh w sid rid content metadata l s'))" if "res = Inr l" for l
    using good_step_trans [OF o(1) admit_good [OF assms(1) good_ok [OF o(1)] o(3) [OF that]]] .
  show ?thesis using Pair admit o(1) good_step_refl [OF ok]
    by (cases res) (simp_all add: append_user_message_if_absent_def split: sum.splits bool.splits)
qed

section \<open>Reading\<close>

lemma cached_good:
  assumes ok: "svc_ok X s" and l: "dict_get (ss_logs s) sid = Some l" and t: "transcript X (baseline_of s sid) l = Inr ms"
  shows "good_step X s (s\<lparr>ss_cache := dict_set sid (log_seq l, ms) (ss_cache s)\<rparr>)"
proof -
  let ?t = "s\<lparr>ss_cache := dict_set sid (log_seq l, ms) (ss_cache s)\<rparr>"
  have "svc_ok X ?t"
  proof (rule svc_okI)
    show "store_ok (sx_meta X) (ss_repo ?t)" using svc_okD(1) [OF ok] by simp
    show "no_legacy ?t" using svc_okD(2) [OF ok] by (simp add: no_legacy_def legacy_lines_def)
  next
    fix sid' k assume "dict_get (ss_logs ?t) sid' = Some k"
    then have "log_fits X s sid' k" using svc_okD(3) [OF ok] by simp
    then show "log_fits X ?t sid' k" by (subst log_fits_cong [of _ _ s]) (simp_all add: session_file_of_def)
  next
    fix sid' c assume h: "dict_get (ss_cache ?t) sid' = Some c"
    have "cache_fits X s sid' c"
    proof (cases "sid' = sid")
      case True
      then show ?thesis using h l t by (auto simp: cache_fits_def)
    next
      case False
      then show ?thesis using h svc_okD(4) [OF ok, of sid' c] by simp
    qed
    then show "cache_fits X ?t sid' c" by (subst cache_fits_cong [of _ _ s]) (simp_all add: baseline_of_def)
  qed
  then show ?thesis by (simp add: good_step_def svc_advances_def)
qed

text \<open>A read gives the transcript of baseline and log, whether or not it came from the cache.\<close>

lemma derived_messages_good:
  assumes ok: "svc_ok X s" and "derived_messages X now w u sid s = (s', res)"
  shows "good_step X s s'" and "ss_repo s' = ss_repo s"
    and "res = Inr ms \<Longrightarrow> \<exists>l. dict_get (ss_logs s') sid = Some l \<and> transcript X (baseline_of s' sid) l = Inr ms"
proof -
  obtain s1 r1 where p: "open_log X now w u sid s = (s1, r1)" by (cases "open_log X now w u sid s")
  note o = open_log_good [OF ok p]
  have all: "good_step X s s' \<and> ss_repo s' = ss_repo s \<and>
      (\<forall>ms. res = Inr ms \<longrightarrow> (\<exists>l. dict_get (ss_logs s') sid = Some l \<and> transcript X (baseline_of s' sid) l = Inr ms))"
  proof (cases r1)
    case (Inl e)
    then show ?thesis using assms(2) p o by (auto simp: derived_messages_def)
  next
    case (Inr l)
    note l = o(3) [OF Inr]
    note ok1 = good_ok [OF o(1)]
    show ?thesis
    proof (cases "\<exists>ms. dict_get (ss_cache s1) sid = Some (log_seq l, ms)")
      case True
      then obtain ms where c: "dict_get (ss_cache s1) sid = Some (log_seq l, ms)" by blast
      then have "cache_fits X s1 sid (log_seq l, ms)" using svc_okD(4) [OF ok1] by blast
      then have "transcript X (baseline_of s1 sid) l = Inr ms" using l by (simp add: cache_fits_def)
      then show ?thesis using assms(2) p Inr c o l by (auto simp: derived_messages_def Let_def)
    next
      case False
      show ?thesis
      proof (cases "transcript X (baseline_of s1 sid) l")
        case (Inl e)
        then show ?thesis using assms(2) p Inr False o
          by (auto simp: derived_messages_def Let_def split: option.splits if_splits)
      next
        case tr: (Inr ms)
        then have "s' = s1\<lparr>ss_cache := dict_set sid (log_seq l, ms) (ss_cache s1)\<rparr>" "res = Inr ms"
          using assms(2) p Inr False by (auto simp: derived_messages_def Let_def split: option.splits if_splits)
        then show ?thesis using good_step_trans [OF o(1) cached_good [OF ok1 l tr]] o(2) l tr by (simp add: baseline_of_def)
      qed
    qed
  qed
  then show "good_step X s s'" "ss_repo s' = ss_repo s"
    "res = Inr ms \<Longrightarrow> \<exists>l. dict_get (ss_logs s') sid = Some l \<and> transcript X (baseline_of s' sid) l = Inr ms" by auto
qed

lemma events_after_good:
  assumes ok: "svc_ok X s"
  shows "good_step X s (fst (events_after X now w u sid after limit s))"
proof (cases "open_log X now w u sid s")
  case (Pair s' res)
  show ?thesis using open_log_good(1) [OF ok Pair] good_step_refl [OF ok] Pair
    by (cases res) (simp_all add: events_after_def split: sum.splits option.splits)
qed

lemma session_request_state_good:
  assumes ok: "svc_ok X s"
  shows "good_step X s (fst (session_request_state X now w u sid rid s))"
proof (cases "open_log X now w u sid s")
  case (Pair s' res)
  show ?thesis using open_log_good(1) [OF ok Pair] good_step_refl [OF ok] Pair
    by (cases res) (simp_all add: session_request_state_def split: sum.splits option.splits)
qed

section \<open>Checkpoints\<close>

lemma keys_merge: "fst ` set (merge_requests old new) = fst ` set old \<union> fst ` set new"
proof (induction new arbitrary: old)
  case (Cons kr new)
  then show ?case by (cases kr) (simp add: merge_requests_def keys_dict_set)
qed (simp add: merge_requests_def)

lemma checkpoint_file_fields [simp]:
  "sf_seq (checkpoint_file X stamp ck f) = ck_seq ck" "sf_requests (checkpoint_file X stamp ck f) = merge_requests (sf_requests f) (ck_requests ck)"
  "sf_messages (checkpoint_file X stamp ck f) = map (JObj \<circ> sx_dump X) (ck_messages ck)" "file_id (checkpoint_file X stamp ck f) = file_id f"
  by (simp_all add: checkpoint_file_def with_preview_def touched_def)

lemma checkpoint_file_wf: "file_wf f \<Longrightarrow> file_wf (checkpoint_file X stamp ck f)"
  by (simp add: checkpoint_file_def with_preview_def file_wf_def touched_def)

lemma write_checkpoint_good:
  assumes "meta_laws (sx_meta X)" and ok: "svc_ok X s" and fits: "pending_fits s ck"
  shows "good_step X s (fst (write_checkpoint X stamp w ck s))"
proof -
  consider "fst (write_checkpoint X stamp w ck s) = s"
    | f where "svc_state s (ck_session ck) = Inr (Some f)" "sf_seq f \<le> ck_seq ck"
      "fst (write_checkpoint X stamp w ck s) = s\<lparr>ss_repo := fst (commit w (checkpoint_file X stamp ck f) (ss_repo s))\<rparr>"
  proof (cases "\<exists>f. svc_state s (ck_session ck) = Inr (Some f) \<and> sf_seq f \<le> ck_seq ck")
    case True
    then show ?thesis using that(2) by (auto simp: write_checkpoint_def in_repo_def)
  next
    case False
    then show ?thesis using that(1) by (force simp: write_checkpoint_def split: sum.splits option.splits)
  qed
  then show ?thesis
  proof cases
    case 1
    then show ?thesis using good_step_refl [OF ok] by simp
  next
    case (2 f)
    let ?g = "checkpoint_file X stamp ck f" and ?r = "fst (commit w (checkpoint_file X stamp ck f) (ss_repo s))"
    have f: "dict_get (sr_states (ss_repo s)) (ck_session ck) = Some f" "file_id f = ck_session ck" "file_wf f"
      using svc_state_file [OF ok 2(1)] state_ok [OF svc_okD(1) [OF ok]] by (simp_all add: session_file_of_def)
    obtain l where l: "dict_get (ss_logs s) (ck_session ck) = Some l" "ck_seq ck \<le> log_seq l"
      using fits by (auto simp: pending_fits_def split: option.splits)
    have "svc_ok X (s\<lparr>ss_repo := ?r\<rparr>)"
    proof (rule svc_ok_repo [OF ok])
      show "store_ok (sx_meta X) ?r" using commit_store_ok [OF assms(1) svc_okD(1) [OF ok] checkpoint_file_wf [OF f(3)]] .
      show "sd_legacy (dir_of (sr_disk ?r) sid) = sd_legacy (dir_of (sr_disk (ss_repo s)) sid)" for sid by (rule commit_legacy)
      show "log_covered ?r sid k" if "dict_get (ss_logs s) sid = Some k" "log_covered (ss_repo s) sid k" for sid k
        using that l f 2(2) by (auto simp: log_covered_def commit_states)
    qed
    moreover have "repo_advances (ss_repo s) ?r"
      by (rule commit_advances) (use f 2(2) in \<open>auto simp: file_advances_def keys_merge\<close>)
    ultimately show ?thesis using 2(3) by (simp add: good_step_def svc_advances_def)
  qed
qed

lemma capture_fits:
  assumes "capture X sid s = Inr (Some ck)"
  shows "pending_fits s ck" and "ck_session ck = sid"
    and "\<exists>l. dict_get (ss_logs s) sid = Some l \<and> ck_seq ck = log_seq l \<and> transcript X (baseline_of s sid) l = Inr (ck_messages ck)"
  using assms by (auto simp: capture_def pending_fits_def bind_r_Inr_iff split: option.splits)

lemma flush_session_good:
  assumes "meta_laws (sx_meta X)" and ok: "svc_ok X s"
  shows "good_step X s (fst (flush_session X stamp w sid s))"
  using write_checkpoint_good [OF assms] capture_fits(1) good_step_refl [OF ok]
  by (auto simp: flush_session_def split: sum.splits option.splits)

lemma mark_dirty_good:
  assumes ok: "svc_ok X s"
  shows "good_step X s (mark_dirty sid b s)"
proof -
  let ?t = "mark_dirty sid b s"
  have same: "ss_repo ?t = ss_repo s" "ss_logs ?t = ss_logs s" "ss_cache ?t = ss_cache s" "ss_baseline ?t = ss_baseline s"
    by (simp_all add: mark_dirty_def)
  have "svc_ok X ?t"
  proof (rule svc_okI)
    show "store_ok (sx_meta X) (ss_repo ?t)" "no_legacy ?t"
      using svc_okD(1,2) [OF ok] by (simp_all add: same no_legacy_def legacy_lines_def)
    show "log_fits X ?t sid' l" if "dict_get (ss_logs ?t) sid' = Some l" for sid' l
      using svc_okD(3) [OF ok] that by (simp add: same log_fits_iff)
    show "cache_fits X ?t sid' c" if "dict_get (ss_cache ?t) sid' = Some c" for sid' c
      using svc_okD(4) [OF ok, of sid' c] that cache_fits_cong [of ?t sid' s] by (simp add: same baseline_of_def)
  qed
  then show ?thesis by (simp add: good_step_def svc_advances_def same)
qed

lemma flush_log_good:
  assumes "meta_laws (sx_meta X)" and ok: "svc_ok X s"
  shows "good_step X s (fst (flush_log X stamp w sid s))"
  using good_step_refl [OF ok] good_step_trans [OF mark_dirty_good [OF ok] flush_session_good [OF assms(1) good_ok [OF mark_dirty_good [OF ok]]]]
  by (simp add: flush_log_def split: option.splits)

section \<open>Forks\<close>

lemma fork_file_wf [simp]: "file_wf (fork_file X stamp utc fork parent through sel f)"
  by (simp add: file_wf_def fork_file_def Let_def)

lemma fork_prepare_good:
  assumes ok: "svc_ok X s" and "fork_prepare X now stamp utc hex m u parent through s = (s', res)"
  shows "good_step X s s'" and "res = Inr g \<Longrightarrow> file_wf g"
proof -
  obtain s1 r1 where d: "derived_messages X now m u parent s = (s1, r1)" by (cases "derived_messages X now m u parent s")
  note good = derived_messages_good(1) [OF ok d]
  show "good_step X s s'" using assms(2) d good good_step_refl [OF ok]
    by (auto simp: fork_prepare_def split: sum.splits option.splits if_splits prod.splits)
  show "file_wf g" if "res = Inr g" using assms(2) d that
    by (auto simp: fork_prepare_def bind_r_Inr_iff split: sum.splits option.splits if_splits prod.splits)
qed

lemma fork_session_good:
  assumes meta: "meta_laws (sx_meta X)" and ok: "svc_ok X s"
  shows "good_step X s (fst (fork_session X now stamp utc hex fl w m u parent through s))"
proof -
  obtain s1 r1 where f: "flush_log X stamp fl parent s = (s1, r1)" by (cases "flush_log X stamp fl parent s")
  have g1: "good_step X s s1" using flush_log_good [OF assms, of stamp fl parent] f by simp
  obtain s2 r2 where p: "fork_prepare X now stamp utc hex m u parent through s1 = (s2, r2)"
    by (cases "fork_prepare X now stamp utc hex m u parent through s1")
  note g2 = good_step_trans [OF g1 fork_prepare_good(1) [OF good_ok [OF g1] p]]
  have g3: "good_step X s (fst (in_repo (create_with_state w g (ss_repo s2)) s2))" if "r2 = Inr g" for g
    by (rule good_step_trans [OF g2 in_repo_good [OF good_ok [OF g2]]])
      (rule create_with_state_step [OF meta svc_okD(1) [OF good_ok [OF g2]] fork_prepare_good(2) [OF good_ok [OF g1] p that]])
  show ?thesis using f p g1 g2 g3
    by (cases r1; cases r2) (simp_all add: fork_session_def case_prod_beta)
qed

section \<open>Restarts\<close>

lemma load_dir_legacy: "sd_legacy (dir_of (sr_disk (load_dir V renames nd r)) sid) = sd_legacy (dir_of (sr_disk r) sid)"
  by (simp add: load_dir_def quarantine_def Let_def dir_of_set split: option.splits sum.splits)

lemma load_store_legacy: "sd_legacy (dir_of (sr_disk (load_store V renames r)) sid) = sd_legacy (dir_of (sr_disk r) sid)"
proof -
  have "sd_legacy (dir_of (sr_disk (fold (load_dir V renames) nds r')) sid) = sd_legacy (dir_of (sr_disk r') sid)" for nds r'
    by (induction nds arbitrary: r') (simp_all add: load_dir_legacy)
  then show ?thesis by (simp add: load_store_def)
qed

lemma swept_legacy:
  assumes "dict_wf (sr_disk r)" and "\<And>sid. sd_legacy (dir_of (sr_disk r) sid) = None"
  shows "sd_legacy (dir_of (sr_disk (sweep_orphans r)) sid) = None"
proof (cases "dict_get (filter (sweep_dir r) (sr_disk r)) sid")
  case None
  then show ?thesis by (simp add: sweep_orphans_def dir_of_def empty_dir_def)
next
  case (Some d)
  then have "(sid, d) \<in> set (sr_disk r)" using map_of_SomeD by fastforce
  then have "dict_get (sr_disk r) sid = Some d" using mem_dict_get [OF assms(1)] by simp
  then show ?thesis using assms(2) [of sid] Some by (simp add: sweep_orphans_def dir_of_def)
qed

lemma restart_from_disk:
  assumes meta: "meta_laws (sx_meta X)" and named: "well_named (sx_meta X) (sr_disk (ss_repo s))" and "no_legacy s"
  shows "svc_ok X (restart_svc X renames s)"
    and "session_file_of (restart_svc X renames s) sid = disk_file (sx_meta X) (sr_disk (ss_repo s)) sid"
proof -
  let ?t = "restart_svc X renames s" and ?r = "init_repo (sx_meta X) renames (fresh_repo (sr_disk (ss_repo s)))"
  have wn: "well_named (sx_meta X) (sr_disk (fresh_repo (sr_disk (ss_repo s))))" using named by (simp add: fresh_repo_def)
  note init = init_store_ok [OF meta wn, of renames]
  show "session_file_of ?t sid = disk_file (sx_meta X) (sr_disk (ss_repo s)) sid"
    using init(2) by (simp add: restart_svc_def session_file_of_def fresh_svc_def sweep_orphans_def fresh_repo_def)
  have "sd_legacy (dir_of (sr_disk ?r) sid) = None" for sid
    using assms(3) by (simp add: init_repo_def rebuild_indexes_def load_store_legacy fresh_repo_def no_legacy_def legacy_lines_def)
  then have "sd_legacy (dir_of (sr_disk (sweep_orphans ?r)) sid) = None" for sid
    using swept_legacy init(1) by (simp add: store_ok_def)
  then show "svc_ok X ?t"
    using sweep_store_ok [OF init(1)] by (intro svc_okI) (simp_all add: restart_svc_def fresh_svc_def no_legacy_def legacy_lines_def)
qed

lemma restart_good:
  assumes "meta_laws (sx_meta X)" and ok: "svc_ok X s"
  shows "svc_ok X (restart_svc X renames s)" and "session_file_of (restart_svc X renames s) sid = session_file_of s sid"
    and "repo_advances (ss_repo s) (ss_repo (restart_svc X renames s))"
proof -
  note r = restart_from_disk [OF assms(1) store_ok_well_named [OF svc_okD(1) [OF ok]] svc_okD(2) [OF ok]]
  show "svc_ok X (restart_svc X renames s)" by (rule r(1))
  show same: "session_file_of (restart_svc X renames s) sid = session_file_of s sid" for sid
    using r(2) svc_okD(1) [OF ok] by (simp add: store_ok_def session_file_of_def)
  show "repo_advances (ss_repo s) (ss_repo (restart_svc X renames s))"
    using same by (simp add: repo_advances_def session_file_of_def)
qed

section \<open>Rollback and deletion\<close>

lemma rolled_back_fields [simp]:
  "sf_seq (rolled_back X stamp kept f) = sf_seq f" "file_id (rolled_back X stamp kept f) = file_id f"
  "sf_messages (rolled_back X stamp kept f) = map (JObj \<circ> sx_dump X) kept" "file_wf f \<Longrightarrow> file_wf (rolled_back X stamp kept f)"
  "sf_requests (rolled_back X stamp kept f) = kept_requests X kept (sf_requests f)" "sf_metadata (rolled_back X stamp kept f) = sf_metadata f"
  by (simp_all add: rolled_back_def Let_def touched_def file_wf_def)

lemma reset_after_rollback:
  assumes "log_inv L l"
  shows "log_inv L (fst (reset_log (n + 1) l))" "log_seq (fst (reset_log (n + 1) l)) = max (-1) n" "sl_events (fst (reset_log (n + 1) l)) = []"
  using assms reset_log_inv [of "n + 1" l "fst (reset_log (n + 1) l)" "snd (reset_log (n + 1) l)" L]
  by (auto simp: reset_log_def log_inv_def clear_log_def log_seq_def)

text \<open>The file is shorter now; the log, if there is one, starts over behind it.\<close>

lemma switch_good:
  assumes ok: "svc_ok X s" and f: "session_file_of s sid = Some f"
    and was: "was = dict_get (ss_logs s) sid \<or> was = None"
  shows "svc_ok X (switch_baseline sid kept (sf_seq f) was s)" (is "svc_ok X ?t")
proof (rule svc_okI)
  have t: "ss_repo ?t = ss_repo s" "ss_cache ?t = dict_pop sid (ss_cache s)" "ss_baseline ?t = dict_set sid kept (ss_baseline s)"
    "sid' \<noteq> sid \<Longrightarrow> dict_get (ss_logs ?t) sid' = dict_get (ss_logs s) sid'" for sid'
    by (simp_all add: switch_baseline_def Let_def store_log_def split: option.splits)
  show "store_ok (sx_meta X) (ss_repo ?t)" "no_legacy ?t" using svc_okD(1,2) [OF ok] by (simp_all add: t no_legacy_def legacy_lines_def)
  fix sid' l assume l: "dict_get (ss_logs ?t) sid' = Some l"
  show "log_fits X ?t sid' l"
  proof (cases "sid' = sid \<and> was \<noteq> None")
    case True
    then obtain k where k: "was = Some k" "dict_get (ss_logs s) sid = Some k" using was by (cases was) auto
    then have inv: "log_inv (sx_lib X) k" using svc_okD(3) [OF ok] by (simp add: log_fits_def)
    have "l = fst (reset_log (sf_seq f + 1) k)" using True l k by (simp add: switch_baseline_def Let_def store_log_def)
    then show ?thesis using reset_after_rollback [OF inv, of "sf_seq f"] f True by (simp add: log_fits_def session_file_of_def t)
  next
    case False
    then have "dict_get (ss_logs s) sid' = Some l" using l t(4) by (auto simp: switch_baseline_def Let_def)
    then show ?thesis using svc_okD(3) [OF ok] by (simp add: log_fits_iff t)
  qed
next
  have t: "ss_cache ?t = dict_pop sid (ss_cache s)" "sid' \<noteq> sid \<Longrightarrow> dict_get (ss_logs ?t) sid' = dict_get (ss_logs s) sid'"
    "sid' \<noteq> sid \<Longrightarrow> baseline_of ?t sid' = baseline_of s sid'" for sid'
    by (simp_all add: switch_baseline_def Let_def store_log_def baseline_of_def split: option.splits)
  fix sid' c assume "dict_get (ss_cache ?t) sid' = Some c"
  then have "sid' \<noteq> sid" "dict_get (ss_cache s) sid' = Some c" by (simp_all add: t split: if_splits)
  then show "cache_fits X ?t sid' c" using svc_okD(4) [OF ok] cache_fits_cong [of ?t sid' s] t by simp
qed

lemma shorter_file_ok:
  assumes meta: "meta_laws (sx_meta X)" and ok: "svc_ok X s" and f: "session_file_of s sid = Some f" "file_wf g" "file_id g = sid" "sf_seq g = sf_seq f"
  shows "svc_ok X (fst (in_repo (commit w g (ss_repo s)) s))"
  unfolding in_repo_def fst_conv
proof (rule svc_ok_repo [OF ok])
  show "store_ok (sx_meta X) (fst (commit w g (ss_repo s)))" using commit_store_ok [OF meta svc_okD(1) [OF ok] f(2)] .
  show "log_covered (fst (commit w g (ss_repo s))) sid' l" if "log_covered (ss_repo s) sid' l" for sid' l
    using that f by (auto simp: log_covered_def commit_states session_file_of_def)
qed (rule commit_legacy)

lemma rollback_cases:
  obtains (turned_away) s1 where "fst (rollback_session X now stamp fl w m u sid through s) = s1" "s1 = s \<or> s1 = fst (flush_log X stamp fl sid s)"
    "\<And>r. snd (rollback_session X now stamp fl w m u sid through s) \<noteq> Inr r"
  | (entered) s1 f where "flush_log X stamp fl sid s = (s1, Inr ())" "svc_state s1 sid = Inr (Some f)" "\<not> behind_log s1 sid f"
    "rollback_session X now stamp fl w m u sid through s = rollback_locked X now stamp w m u sid through f s1"
proof (cases "\<exists>s1 f. through \<noteq> [] \<and> flush_log X stamp fl sid s = (s1, Inr ()) \<and> svc_state s1 sid = Inr (Some f) \<and> \<not> behind_log s1 sid f")
  case True
  then show ?thesis using entered by (auto simp: rollback_session_def)
next
  case False
  then show ?thesis
    by (intro turned_away [OF refl]) (auto simp: rollback_session_def split: prod.splits sum.splits option.splits)
qed

lemma rollback_locked_cases:
  assumes "derived_messages X now m u sid s = (s1, dm)"
  obtains (refused) e where "rollback_locked X now stamp w m u sid through f s = (s1, Inl e)"
  | (failed) g e where "file_wf f \<Longrightarrow> file_wf g" "file_id g = file_id f" "sf_seq g = sf_seq f"
      "rollback_locked X now stamp w m u sid through f s = (fst (in_repo (commit w g (ss_repo s1)) s1), Inl e)"
      "snd (commit w g (ss_repo s1)) = Inl e"
  | (back_to) i target ms g where "dm = Inr ms" "rollback_point through ms = Inr (i, target)" "g = rolled_back X stamp (take i ms) f"
      "snd (commit w g (ss_repo s1)) = Inr ()"
      "rollback_locked X now stamp w m u sid through f s =
        (switch_baseline sid (take i ms) (sf_seq f) (dict_get (ss_logs s) sid) (fst (in_repo (commit w g (ss_repo s1)) s1)),
         Inr (rollback_result_of X sid through i ms g))"
proof (cases dm)
  case (Inl e)
  then show ?thesis using assms refused by (simp add: rollback_locked_def)
next
  case (Inr ms)
  show ?thesis
  proof (cases "rollback_point through ms")
    case (Inl e)
    then show ?thesis using assms Inr refused by (simp add: rollback_locked_def)
  next
    case pt: (Inr it)
    obtain i target where it: "it = (i, target)" by (cases it)
    let ?g = "rolled_back X stamp (take i ms) f"
    obtain r res where c: "commit w ?g (ss_repo s1) = (r, res)" by (cases "commit w ?g (ss_repo s1)")
    show ?thesis
    proof (cases res)
      case (Inl e)
      show ?thesis using failed [of ?g e] assms Inr pt it c Inl by (simp add: rollback_locked_def in_repo_def Let_def)
    next
      case ok: (Inr v)
      show ?thesis using back_to [OF Inr _ refl] pt it assms Inr c ok by (simp add: rollback_locked_def in_repo_def Let_def)
    qed
  qed
qed

text \<open>Numbers do not fall: not those of logs, and not those files cover.\<close>

definition numbers_advance :: "session_svc \<Rightarrow> session_svc \<Rightarrow> bool" where
  "numbers_advance s s' \<longleftrightarrow>
     (\<forall>sid f. session_file_of s sid = Some f \<longrightarrow> (\<exists>g. session_file_of s' sid = Some g \<and> sf_seq f \<le> sf_seq g)) \<and>
     (\<forall>sid l. dict_get (ss_logs s) sid = Some l \<longrightarrow> (\<exists>l'. dict_get (ss_logs s') sid = Some l' \<and> log_seq l \<le> log_seq l'))"

lemma numbers_advance_refl [simp]: "numbers_advance s s"
  by (simp add: numbers_advance_def)

lemma numbers_advance_trans: "numbers_advance a b \<Longrightarrow> numbers_advance b c \<Longrightarrow> numbers_advance a c"
  unfolding numbers_advance_def by (meson order_trans)

lemma good_numbers: "good_step X s s' \<Longrightarrow> numbers_advance s s'"
  unfolding good_step_def svc_advances_def repo_advances_def numbers_advance_def file_advances_def session_file_of_def by metis

lemma pending_numbers: "numbers_advance s s' \<Longrightarrow> pending_fits s ck \<Longrightarrow> pending_fits s' ck"
  unfolding numbers_advance_def pending_fits_def by (fastforce split: option.splits)

lemma commit_numbers:
  assumes "session_file_of s sid = Some f" and "file_id g = sid" and "sf_seq g = sf_seq f"
  shows "numbers_advance s (fst (in_repo (commit w g (ss_repo s)) s))"
  using assms by (auto simp: numbers_advance_def in_repo_def session_file_of_def commit_states)

lemma switch_numbers:
  assumes ok: "svc_ok X s" and f: "session_file_of s sid = Some f" and was: "was = dict_get (ss_logs s) sid \<or> was = None"
    and behind: "\<And>l. was = Some l \<Longrightarrow> log_seq l \<le> sf_seq f"
  shows "numbers_advance s (switch_baseline sid kept (sf_seq f) was s)"
proof (cases was)
  case None
  then show ?thesis by (simp add: numbers_advance_def switch_baseline_def Let_def session_file_of_def)
next
  case (Some k)
  then have k: "dict_get (ss_logs s) sid = Some k" using was by simp
  then have inv: "log_inv (sx_lib X) k" using svc_okD(3) [OF ok] by (simp add: log_fits_def)
  show ?thesis using reset_after_rollback(2) [OF inv, of "sf_seq f"] behind [OF Some] k Some
    by (simp add: numbers_advance_def switch_baseline_def Let_def store_log_def session_file_of_def)
qed

lemma rollback_ok:
  assumes meta: "meta_laws (sx_meta X)" and ok: "svc_ok X s"
  shows "svc_ok X (fst (rollback_session X now stamp fl w m u sid through s)) \<and>
    numbers_advance s (fst (rollback_session X now stamp fl w m u sid through s))"
proof (cases rule: rollback_cases [of X now stamp fl w m u sid through s])
  case (turned_away s1)
  then show ?thesis using ok good_ok [OF flush_log_good [OF assms]] good_numbers [OF flush_log_good [OF assms]] by auto
next
  case (entered s1 f)
  have flush: "good_step X s s1" using flush_log_good [OF assms, of stamp fl sid] entered(1) by simp
  note ok1 = good_ok [OF flush]
  have f: "session_file_of s1 sid = Some f" "file_id f = sid" "file_wf f"
    using svc_state_file [OF ok1 entered(2)] state_ok [OF svc_okD(1) [OF ok1]] by (simp_all add: session_file_of_def)
  obtain s2 dm where d: "derived_messages X now m u sid s1 = (s2, dm)" by (cases "derived_messages X now m u sid s1")
  note ok2 = good_ok [OF derived_messages_good(1) [OF ok1 d]] and same = derived_messages_good(2) [OF ok1 d]
  have f2: "session_file_of s2 sid = Some f" using f(1) same by (simp add: session_file_of_def)
  have num: "numbers_advance s s2"
    using good_numbers [OF good_step_trans [OF flush derived_messages_good(1) [OF ok1 d]]] .
  let ?t = "fst (rollback_locked X now stamp w m u sid through f s1)"
  show ?thesis unfolding entered(4) using d
  proof (cases rule: rollback_locked_cases [where stamp = stamp and w = w and through = through and f = f])
    case (refused e)
    then show "svc_ok X ?t \<and> numbers_advance s ?t" using ok2 num by simp
  next
    case (failed g e)
    then show "svc_ok X ?t \<and> numbers_advance s ?t"
      using shorter_file_ok [OF meta ok2 f2, of g] f numbers_advance_trans [OF num commit_numbers [OF f2]] by simp
  next
    case (back_to i target ms g)
    let ?s3 = "fst (in_repo (commit w g (ss_repo s2)) s2)"
    have ok3: "svc_ok X ?s3" using shorter_file_ok [OF meta ok2 f2, of g] f back_to(3) by simp
    have logs: "dict_get (ss_logs s1) sid = dict_get (ss_logs ?s3) sid \<or> dict_get (ss_logs s1) sid = None"
    proof (cases "dict_get (ss_logs s1) sid")
      case (Some l)
      have "svc_advances s1 s2" using derived_messages_good(1) [OF ok1 d] by (simp add: good_step_def)
      have "open_log X now m u sid s1 = (s1, Inr l)" using Some by (simp add: open_log_def)
      then have "ss_logs s2 = ss_logs s1" using d by (auto simp: derived_messages_def Let_def split: option.splits if_splits sum.splits)
      then show ?thesis by (simp add: in_repo_def)
    qed simp
    have g: "session_file_of ?s3 sid = Some g" using f back_to(3,4) by (simp add: session_file_of_def in_repo_def commit_states)
    have n3: "numbers_advance s ?s3" using numbers_advance_trans [OF num commit_numbers [OF f2, of g]] f back_to(3) by simp
    have "log_seq l \<le> sf_seq g" if "dict_get (ss_logs s1) sid = Some l" for l
      using that entered(3) back_to(3) by (simp add: behind_log_def)
    then show "svc_ok X ?t \<and> numbers_advance s ?t"
      using switch_good [OF ok3 g logs] numbers_advance_trans [OF n3 switch_numbers [OF ok3 g logs]] back_to(3,5) by simp
  qed
qed

lemma drop_session_ok:
  assumes ok: "svc_ok X s" and "name_ok sid"
  shows "svc_ok X (fst (drop_session True sid s))"
    and "ck_session ck \<noteq> sid \<Longrightarrow> pending_fits s ck \<Longrightarrow> pending_fits (fst (drop_session True sid s)) ck"
proof -
  let ?t = "fst (drop_session True sid s)"
  have t: "ss_repo ?t = fst (delete_stored True sid (ss_repo s))" "ss_logs ?t = dict_pop sid (ss_logs s)"
      "ss_cache ?t = dict_pop sid (ss_cache s)" "ss_baseline ?t = dict_pop sid (ss_baseline s)"
    by (simp_all add: drop_session_def in_repo_def forget_live_def)
  have files: "session_file_of ?t sid' = (if sid' = sid then None else session_file_of s sid')" for sid'
    using assms(2) by (simp add: session_file_of_def t delete_stored_def Let_def)
  show "svc_ok X ?t"
  proof (rule svc_okI)
    show "store_ok (sx_meta X) (ss_repo ?t)" using delete_store_ok [OF svc_okD(1) [OF ok] assms(2)] by (simp add: t)
    show "no_legacy ?t" using svc_okD(2) [OF ok] assms(2)
      by (simp add: no_legacy_def legacy_lines_def t delete_stored_def Let_def dir_of_def empty_dir_def)
    show "log_fits X ?t sid' l" if "dict_get (ss_logs ?t) sid' = Some l" for sid' l
    proof -
      have "sid' \<noteq> sid" "dict_get (ss_logs s) sid' = Some l" using that by (simp_all add: t split: if_splits)
      then show ?thesis using svc_okD(3) [OF ok, of sid' l] by (simp add: log_fits_def files)
    qed
    show "cache_fits X ?t sid' c" if "dict_get (ss_cache ?t) sid' = Some c" for sid' c
    proof -
      have "sid' \<noteq> sid" "dict_get (ss_cache s) sid' = Some c" using that by (simp_all add: t split: if_splits)
      then show ?thesis using svc_okD(4) [OF ok, of sid' c] cache_fits_cong [of ?t sid' s] by (simp add: t baseline_of_def)
    qed
  qed
  show "ck_session ck \<noteq> sid \<Longrightarrow> pending_fits s ck \<Longrightarrow> pending_fits ?t ck"
    by (simp add: pending_fits_def t)
qed

section \<open>Every step\<close>

lemma forward_good:
  assumes meta: "meta_laws (sx_meta X)"
  shows "forward_step X a b \<Longrightarrow> life_ok X a \<Longrightarrow> life_ok X b \<and> repo_advances (ss_repo (fst a)) (ss_repo (fst b))"
proof -
  have keep: "life_ok X (s', P) \<and> repo_advances (ss_repo s) (ss_repo s')" if "life_ok X (s, P)" "good_step X s s'" for s s' P
    using that pending_advances by (auto simp: life_ok_def good_step_def list_all_iff svc_advances_def)
  show "forward_step X a b \<Longrightarrow> life_ok X a \<Longrightarrow> life_ok X b \<and> repo_advances (ss_repo (fst a)) (ss_repo (fst b))"
  proof (induction rule: forward_step.induct)
    case (appended s P now ok u sid ty data mid)
    then show ?case using keep [OF appended] append_session_event_good by (simp add: life_ok_def)
  next
    case (said s P now fresh ok m u sid rid content metadata)
    then show ?case using keep [OF said] append_user_message_if_absent_good [OF meta] by (simp add: life_ok_def)
  next
    case (derived s P now ok u sid)
    then show ?case using keep [OF derived] derived_messages_good(1) [OF _ prod.collapse [symmetric]] by (simp add: life_ok_def)
  next
    case (tailed s P now ok u sid after limit)
    then show ?case using keep [OF tailed] events_after_good by (simp add: life_ok_def)
  next
    case (asked s P now ok u sid rid)
    then show ?case using keep [OF asked] session_request_state_good by (simp add: life_ok_def)
  next
    case (captured sid s ck P)
    then show ?case using capture_fits(1) by (auto simp: life_ok_def)
  next
    case (written ck P s stamp ok)
    have "pending_fits s ck" using written by (simp add: life_ok_def list_all_iff)
    then show ?case using keep [OF written(2)] write_checkpoint_good [OF meta] written(2) by (simp add: life_ok_def)
  next
    case (renamed s P ok stamp sid title' workspace')
    then have ok: "svc_ok X s" by (simp add: life_ok_def)
    then show ?case using keep [OF renamed in_repo_good [OF ok update_step [OF meta svc_okD(1) [OF ok]]]] by simp
  next
    case (annotated s P ok stamp sid key updater)
    then have ok: "svc_ok X s" by (simp add: life_ok_def)
    then show ?case using keep [OF annotated in_repo_good [OF ok mutate_step [OF meta svc_okD(1) [OF ok]]]] by simp
  next
    case (created s channel hex P ok stamp title workspace)
    then have ok: "svc_ok X s" by (simp add: life_ok_def)
    then show ?case using keep [OF created(2) in_repo_good [OF ok create_step [OF meta svc_okD(1) [OF ok]]]] created(1)
      by (simp add: session_file_of_def)
  next
    case (bound s channel hex P ok stamp key title workspace data)
    then have ok: "svc_ok X s" by (simp add: life_ok_def)
    then show ?case using keep [OF bound(2) in_repo_good [OF ok external_step [OF meta svc_okD(1) [OF ok]]]] bound(1)
      by (simp add: session_file_of_def)
  next
    case (forked s P now stamp utc hex fl ok m u parent through)
    then show ?case using keep [OF forked] fork_session_good [OF meta] by (simp add: life_ok_def)
  next
    case (restarted s P renames)
    then show ?case using restart_good [OF meta] by (simp add: life_ok_def)
  qed
qed

lemma svc_step_good:
  assumes meta: "meta_laws (sx_meta X)"
  shows "svc_step X a b \<Longrightarrow> life_ok X a \<Longrightarrow> life_ok X b"
proof (induction rule: svc_step.induct)
  case (forward a b)
  then show ?case using forward_good [OF meta] by blast
next
  case (undone s P now stamp fl ok m u sid through)
  then have "svc_ok X s" by (simp add: life_ok_def)
  from rollback_ok [OF meta this, of now stamp fl ok m u sid through] undone show ?case
    unfolding life_ok_def list_all_iff fst_conv snd_conv by (blast intro: pending_numbers)
next
  case (gone sid s P)
  then show ?case using drop_session_ok by (auto simp: life_ok_def list_all_iff)
qed

lemma life_starts_ok:
  "meta_laws (sx_meta X) \<Longrightarrow> well_named (sx_meta X) (sr_disk (ss_repo s)) \<Longrightarrow> no_legacy s \<Longrightarrow> life_ok X (restart_svc X renames s, [])"
  by (simp add: life_ok_def restart_from_disk)

lemma life_stays_ok:
  assumes "(svc_step X)\<^sup>*\<^sup>* a b" and "meta_laws (sx_meta X)" and "life_ok X a"
  shows "life_ok X b"
  using assms by (induction rule: rtranclp_induct) (auto dest: svc_step_good)

lemma forward_run:
  assumes "(forward_step X)\<^sup>*\<^sup>* a b" and "meta_laws (sx_meta X)" and "life_ok X a"
  shows "life_ok X b \<and> repo_advances (ss_repo (fst a)) (ss_repo (fst b))"
  using assms
proof (induction rule: rtranclp_induct)
  case (step b c)
  then show ?case using forward_good [OF assms(2) step(2)] repo_advances_trans by blast
qed simp

end
