(* ===== verification/SessionDemo.thy ===== *)
theory SessionDemo
  imports SessionGuarantees
begin

text \<open>
  A session with one user message, as a new process creates it over an empty directory: the instance at which the properties
  of the service are shown to apply. Pydantic reads every message back as the one message there is.
\<close>

definition demo_said :: msg where
  "demo_said = (base_msg RoleUser DEFAULT [] (''user_ws_sess_0'' @ [CHR 0x00] @ ''r1'') (iso_from_ms 0))
     \<lparr>msg_metadata := [(''request_id'', JStr ''r1'')], msg_seq := 0\<rparr>"

definition demo_env :: session_env where
  "demo_env = \<lparr>sx_lib = SessionLog.sample_lib, sx_pydantic = \<lparr>pv_msg = (\<lambda>j. Inr demo_said), pv_text = (\<lambda>j. Inl ValueError), pv_data = (\<lambda>j. Inl ValueError)\<rparr>,
     sx_meta = strict_meta, sx_now = ''now'', sx_dump = (\<lambda>m. [(''id'', JStr (msg_id m))]), sx_block = (\<lambda>b. JStr (block_type b))\<rparr>"

definition demo_start :: session_svc where
  "demo_start = restart_svc demo_env (\<lambda>n. True) (fresh_svc (fresh_repo []))"

definition demo_created :: session_svc where
  "demo_created = fst (in_repo (create_session True ''t0'' ''0'' ''ws'' ''t'' ''w'' (ss_repo demo_start)) demo_start)"

definition demo_talk :: session_svc where
  "demo_talk = fst (append_user_message_if_absent demo_env 0 ''m'' True True True ''ws_sess_0'' ''r1'' []
     [(PStr ''request_id'', PStr ''r1'')] demo_created)"

lemma demo_start: "demo_start = fresh_svc (fresh_repo [])"
  by (simp add: demo_start_def restart_svc_def fresh_svc_def fresh_repo_def init_repo_def load_store_def rebuild_indexes_def sweep_orphans_def)

lemma demo_names: "name_ok ''ws''" "name_ok ''ws_sess_0''" by code_simp+

abbreviation "demo_file \<equiv> plain_file ''ws_sess_0'' ''ws'' ''t'' ''w'' ''t0'' []"

lemma demo_created: "demo_created = fresh_svc \<lparr>sr_states = [(''ws_sess_0'', demo_file)], sr_corrupt = [], sr_external = [],
  sr_disk = [(''ws_sess_0'', \<lparr>sd_state = Some (Some (JObj (dump_file demo_file))), sd_legacy = None, sd_corrupt = [], sd_rest = False\<rparr>)]\<rparr>"
  using demo_names by (simp add: demo_created_def demo_start in_repo_def create_session_def make_session_id_def validate_name_def commit_def write_file_def Let_def
    fresh_svc_def fresh_repo_def external_of_def plain_file_def unindex_def dir_of_def empty_dir_def)

definition demo_event :: event where
  "demo_event = \<lparr>ev_type = ''user/message'', ev_seq = 0, ev_time = 0, ev_message_id = Some (''user_ws_sess_0'' @ [CHR 0x00] @ ''r1''),
     ev_data = JObj [(''content'', JList []), (''metadata'', JObj [(''request_id'', JStr ''r1'')]), (''request_id'', JStr ''r1'')]\<rparr>"

definition demo_log :: session_log where
  "demo_log = \<lparr>sl_session_id = ''ws_sess_0'', sl_events = [demo_event], sl_next_seq = 1, sl_subscribers = [0], sl_appending = False,
     sl_user_requests = [''r1'' \<mapsto> ''user_ws_sess_0'' @ [CHR 0x00] @ ''r1''], sl_fingerprints = [''r1'' \<mapsto> ''b''],
     sl_turn_outcomes = (\<lambda>x. None)\<rparr>"

lemma demo_fold: "fold_dicts (sx_lib demo_env) (sx_pydantic demo_env) (sx_now demo_env) [event_dict demo_event] = Inr [demo_said]"
  by (simp add: fold_dicts_def apply_dict_def typed_event_def event_dict_def demo_event_def event_payload_def event_number_def int_or_zero_def
      read_data_def get_or_def apply_user_message_def seal_previous_assistant_def empty_fold_def Let_def normalize_user_content_def
      validate_role_content_def base_msg_def insert_message_def messages_of_def demo_said_def demo_env_def maybe_text_def iter_json_def json_opt_def)

abbreviation "demo_sid \<equiv> ''ws_sess_0''"

definition demo_opened :: session_svc where
  "demo_opened = fst (install_log demo_sid demo_file [] demo_created)"

lemma demo_state: "svc_state demo_created demo_sid = Inr (Some demo_file)" "baseline_of demo_created demo_sid = []"
  "svc_state demo_opened demo_sid = Inr (Some demo_file)" "baseline_of demo_opened demo_sid = []" "ss_logs demo_created = []"
  "legacy_lines demo_created demo_sid = None"
  by (simp_all add: demo_created fresh_svc_def svc_state_def get_state_def baseline_of_def demo_opened_def install_log_def Let_def
    legacy_lines_def dir_of_def)

lemma demo_open: "open_log demo_env 0 True True demo_sid demo_created = (demo_opened, Inr (subscribe 0 (new_log demo_sid 0)))"
proof -
  have "snd (install_log demo_sid demo_file [] demo_created) = subscribe 0 (new_log demo_sid 0)"
    by (simp add: install_log_def Let_def plain_file_def)
  moreover have "load_snapshot_messages demo_env demo_file = Inr []" by (simp add: load_snapshot_messages_def plain_file_def)
  ultimately show ?thesis by (simp add: open_log_def demo_state demo_opened_def case_prod_beta)
qed

lemma demo_unknown:
  assumes "svc_state s demo_sid = Inr (Some demo_file)" and "baseline_of s demo_sid = []"
  shows "validate_persisted_request X demo_sid ''r1'' c s = Inr ()" "has_persisted_request X demo_sid ''r1'' s = Inr False"
  using assms by (simp_all add: validate_persisted_request_def in_baseline_def persisted_record_def has_persisted_request_def plain_file_def Let_def)

lemma demo_talk: "demo_talk = on_event demo_sid demo_event (store_log demo_sid demo_log demo_opened)"
proof -
  have "append_user_message (sx_lib demo_env) quiet 0 ''m'' ''r1'' [] [(PStr ''request_id'', PStr ''r1'')] None (subscribe 0 (new_log demo_sid 0))
      = (demo_log, Inr (Some demo_event))"
    by (simp add: append_user_message_def append_event_def append_checks_def subscribe_def new_log_def ALL_EVENT_TYPES_def SURFACE_EVENT_TYPES_def
      derived_user_message_id_def commit_event_def notify_def quiet_def index_user_message_def index_turn_end_def payload_request_id_def
      payload_content_def jget_def check_user_request_def demo_log_def demo_event_def demo_env_def SessionLog.sample_lib_def request_fingerprint_def Let_def)
  moreover have "preview_event demo_env w sid demo_event s = (s, Inr (Some demo_event))" for w sid s
    by (simp add: preview_event_def user_msg_of_event_def demo_fold summarize_last_user_text_def demo_said_def base_msg_def preview_of_def
      get_or_def py_strip_def)
  ultimately show ?thesis
    by (simp add: demo_talk_def append_user_message_if_absent_def admit_user_message_def demo_unknown demo_state demo_open)
qed

lemma demo_live:
  "dict_get (ss_logs demo_talk) demo_sid = Some demo_log" "baseline_of demo_talk demo_sid = []" "session_file_of demo_talk demo_sid = Some demo_file"
  "transcript demo_env [] demo_log = Inr [demo_said]" "log_seq demo_log = 0"
proof -
  show "dict_get (ss_logs demo_talk) demo_sid = Some demo_log" "baseline_of demo_talk demo_sid = []" "session_file_of demo_talk demo_sid = Some demo_file"
    by (simp_all add: demo_talk on_event_def store_log_def mark_dirty_def baseline_of_def demo_opened_def install_log_def Let_def session_file_of_def
      demo_created fresh_svc_def)
  show "transcript demo_env [] demo_log = Inr [demo_said]"
    by (simp add: transcript_def log_dicts_def demo_log_def demo_fold merge_messages_def merge_message_def last_index_of_def)
  show "log_seq demo_log = 0" by (simp add: demo_log_def log_seq_def)
qed

lemma demo_disk: "well_named (sx_meta demo_env) (sr_disk (ss_repo (fresh_svc (fresh_repo []))))" "no_legacy (fresh_svc (fresh_repo []))"
    "meta_laws (sx_meta demo_env)"
  using strict_meta_laws
  by (simp_all add: well_named_def disk_file_def fresh_svc_def fresh_repo_def no_legacy_def legacy_lines_def dir_of_def empty_dir_def demo_env_def)

lemma demo_life: "(svc_step demo_env)\<^sup>*\<^sup>* (restart_svc demo_env (\<lambda>n. True) (fresh_svc (fresh_repo [])), []) (demo_talk, [])"
proof -
  have "svc_step demo_env (demo_start, []) (demo_created, [])" unfolding demo_created_def
    by (intro svc_step.forward forward_step.created) (simp add: session_file_of_def demo_start fresh_svc_def fresh_repo_def)
  moreover have "svc_step demo_env (demo_created, []) (demo_talk, [])" unfolding demo_talk_def
    by (intro svc_step.forward forward_step.said)
  ultimately show ?thesis unfolding demo_start_def by (meson converse_rtranclp_into_rtranclp rtranclp.rtrancl_refl)
qed

end
