(* ===== verification/SessionProperties.thy ===== *)
theory SessionProperties
  imports SessionGuarantees SessionDemo
begin

text \<open>
  The properties of the service over sessions: what a client that attaches receives, what a checkpoint keeps over a restart,
  that a request is recorded once, what rollback and fork leave. At the end, where the checkpoint loses something.
\<close>

section \<open>Attaching to a session\<close>

lemma open_existing: "dict_get (ss_logs s) sid = Some l \<Longrightarrow> open_log X now w u sid s = (s, Inr l)"
  by (simp add: open_log_def)

lemma log_covers:
  assumes "svc_ok X s" and "session_file_of s sid = Some f" and "dict_get (ss_logs s) sid = Some l"
  shows "contiguous (sl_events l) (log_seq l + 1)" "sf_seq f \<le> log_seq l" "log_seq l - int (length (sl_events l)) \<le> max (-1) (sf_seq f)" "-1 \<le> log_seq l"
proof -
  have fit: "log_fits X s sid l" using svc_okD(3) [OF assms(1,3)] .
  then have c: "contiguous (sl_events l) (sl_next_seq l)" by (simp add: log_fits_def log_inv_def)
  then show "contiguous (sl_events l) (log_seq l + 1)" by (simp add: log_seq_def)
  have "0 \<le> sl_next_seq l - int (length (sl_events l))" using c by (simp add: contiguous_def)
  then show "-1 \<le> log_seq l" by (simp add: log_seq_def)
  show "sf_seq f \<le> log_seq l" "log_seq l - int (length (sl_events l)) \<le> max (-1) (sf_seq f)"
    using fit assms(2) by (simp_all add: log_fits_def)
qed

lemma tail_numbers:
  assumes "contiguous (sl_events l) (log_seq l + 1)" and "log_seq l - int (length (sl_events l)) \<le> after" and "after \<le> log_seq l"
    and "tail l after limit = (es, further)"
  shows "map ev_seq es = map (\<lambda>i. after + 1 + int i) [0..<length es]"
    and "length es = min (nat (max 1 limit)) (nat (log_seq l - after))" and "further \<longleftrightarrow> length es < nat (log_seq l - after)"
    and "es = take (nat (max 1 limit)) (filter (\<lambda>e. after < ev_seq e) (sl_events l))"
proof -
  define n k m where "n = length (sl_events l)" and "k = nat (after - (log_seq l - int n))" and "m = nat (max 1 limit)"
  have nth: "ev_seq (sl_events l ! i) = log_seq l + 1 - int n + int i" if "i < n" for i
    using assms(1) that by (simp add: contiguous_def n_def)
  have k: "int n - int k = log_seq l - after" using assms(2) by (simp add: n_def k_def)
  have page: "es = take m (drop k (sl_events l)) \<and> (further \<longleftrightarrow> int k + int (length es) < int n)"
  proof (cases "sl_events l")
    case Nil
    then show ?thesis using assms(2-4) by (simp add: tail_def n_def k_def)
  next
    case (Cons e rest)
    then have "ev_seq e = log_seq l + 1 - int n" using nth [of 0] by (simp add: n_def)
    then have "max 0 (after - ev_seq e + 1) = int k" using assms(2) by (simp add: n_def k_def)
    then show ?thesis using assms(4) Cons by (auto simp: tail_def Let_def n_def m_def)
  qed
  have "filter (\<lambda>e. after < ev_seq e) (take k (sl_events l)) = []"
  proof -
    have "\<not> after < ev_seq (sl_events l ! i)" if "i < k" "i < n" for i using nth [OF that(2)] that(1) k by linarith
    then show ?thesis by (auto simp: filter_empty_conv in_set_conv_nth n_def)
  qed
  moreover have "filter (\<lambda>e. after < ev_seq e) (drop k (sl_events l)) = drop k (sl_events l)"
  proof -
    have "after < ev_seq (sl_events l ! (k + i))" if "k + i < n" for i using nth [OF that] k by linarith
    then show ?thesis by (auto simp: filter_id_conv in_set_conv_nth n_def)
  qed
  ultimately have "filter (\<lambda>e. after < ev_seq e) (sl_events l) = drop k (sl_events l)"
    by (metis append_Nil append_take_drop_id filter_append)
  then show "es = take (nat (max 1 limit)) (filter (\<lambda>e. after < ev_seq e) (sl_events l))" using page by (simp add: m_def)
  have "length es = min (n - k) m" using page by (simp add: n_def min.commute)
  moreover have "n - k = nat (log_seq l - after)" using k assms(3) by linarith
  ultimately show len: "length es = min (nat (max 1 limit)) (nat (log_seq l - after))" by (simp add: m_def min.commute)
  show "further \<longleftrightarrow> length es < nat (log_seq l - after)" using page k assms(3) by linarith
  show "map ev_seq es = map (\<lambda>i. after + 1 + int i) [0..<length es]"
  proof (rule nth_equalityI)
    fix i assume i: "i < length (map ev_seq es)"
    then have inside: "k + i < n" using len k assms(3) by auto
    have "es ! i = sl_events l ! (k + i)" using page i inside by (simp add: n_def)
    then have "ev_seq (es ! i) = log_seq l + 1 - int n + int (k + i)" using nth [OF inside] by simp
    then show "map ev_seq es ! i = map (\<lambda>i. after + 1 + int i) [0..<length es] ! i" using i k by simp
  qed simp
qed

lemma events_after_page:
  assumes "events_after X now w u sid after limit s = (t, Inr (es, further, again, current))"
  shows "(again \<and> es = [] \<and> \<not> further \<and>
      (\<forall>f. svc_state s sid = Inr (Some f) \<longrightarrow> after < sf_seq f \<or> current < after)) \<or>
    (\<exists>f l. \<not> again \<and> svc_state s sid = Inr (Some f) \<and> open_log X now w u sid s = (t, Inr l) \<and> sf_seq f \<le> after \<and>
      after \<le> log_seq l \<and> tail l after limit = (es, further) \<and> current = log_seq l)"
proof (cases "\<exists>f. svc_state s sid = Inr (Some f)")
  case True
  then obtain f where f: "svc_state s sid = Inr (Some f)" by blast
  obtain t' r where o: "open_log X now w u sid s = (t', r)" by (cases "open_log X now w u sid s")
  then obtain l where l: "r = Inr l" using assms f by (cases r) (simp_all add: events_after_def)
  obtain page m where page: "tail l after limit = (page, m)" by (cases "tail l after limit")
  show ?thesis
  proof (cases "after < sf_seq f \<or> log_seq l < after")
    case True
    then show ?thesis using assms f o l by (auto simp: events_after_def)
  next
    case False
    then have "es = page" "further = m" "\<not> again" "current = log_seq l" "t = t'" using assms f o l page
      by (simp_all add: events_after_def)
    then show ?thesis using f o l page False by auto
  qed
next
  case False
  then show ?thesis using assms by (simp add: events_after_def split: sum.splits option.splits)
qed

text \<open>
  C21: A client that attaches with a number is told to start over exactly when the session is not there, when the file is ahead
  of that number, or when the log has not reached it. Otherwise it gets exactly the events of the log of this process that
  have a greater number, with none missing and none twice, up to its limit, and is told whether more follow. This holds in
  every state the service reaches, whatever was checkpointed, rolled back, deleted or restarted before. The numbers are those
  of this process: what a restart forgets is numbered again, see \<open>restart_numbers_again\<close>.
\<close>

theorem attach_continues_exactly:
  assumes "meta_laws (sx_meta X)" and "well_named (sx_meta X) (sr_disk (ss_repo s0))" and "no_legacy s0"
    and "(svc_step X)\<^sup>*\<^sup>* (restart_svc X renames s0, []) (s, P)"
    and "events_after X now w u sid after limit s = (t, Inr (es, further, again, current))" and "-1 \<le> after"
  shows "(again \<longleftrightarrow> (case session_file_of s sid of None \<Rightarrow> True | Some f \<Rightarrow> after < sf_seq f \<or> current < after)) \<and>
    (if again then es = [] \<and> \<not> further
     else (\<exists>l. dict_get (ss_logs t) sid = Some l \<and> current = log_seq l \<and>
         es = take (nat (max 1 limit)) (filter (\<lambda>e. after < ev_seq e) (sl_events l))) \<and>
       map ev_seq es = map (\<lambda>i. after + 1 + int i) [0..<length es] \<and>
       length es = min (nat (max 1 limit)) (nat (current - after)) \<and> (further \<longleftrightarrow> length es < nat (current - after)))"
proof -
  have ok: "svc_ok X s" using life_stays_ok [OF assms(4,1) life_starts_ok [OF assms(1-3)]] by (simp add: life_ok_def)
  note page = events_after_page [OF assms(5)]
  show ?thesis
  proof (cases again)
    case True
    have "after < sf_seq f \<or> current < after" if "session_file_of s sid = Some f" for f
      using page True that by (auto simp: session_file_of_def svc_state_def get_state_def)
    then show ?thesis using page True by (auto split: option.split)
  next
    case False
    obtain f l where f: "svc_state s sid = Inr (Some f)" and o: "open_log X now w u sid s = (t, Inr l)"
      and range: "sf_seq f \<le> after" "after \<le> log_seq l" and page: "tail l after limit = (es, further)" "current = log_seq l"
      using page False by blast
    note open_good = open_log_good [OF ok o]
    have ok_t: "svc_ok X t" using good_ok [OF open_good(1)] .
    have here: "session_file_of s sid = Some f" using svc_state_file [OF ok f] .
    then have "session_file_of t sid = Some f" using open_good(2) by (simp add: session_file_of_def)
    note cover = log_covers [OF ok_t this open_good(3) [OF refl]]
    have "log_seq l - int (length (sl_events l)) \<le> after" using cover(3) range(1) assms(6) by simp
    from tail_numbers [OF cover(1) this range(2) page(1)] show ?thesis
      using False page(2) here range open_good(3) [OF refl] by auto
  qed
qed

text \<open>
  The log of a session that is opened after a restart goes on from the number in the file, whatever numbers had been given out
  before: a client with a number from before the restart that is not greater than the current one misses the new events up to
  it, and is not told to start over.
\<close>

lemma restart_numbers_again:
  assumes "svc_ok X (restart_svc X renames s)" and "session_file_of (restart_svc X renames s) sid = Some f"
    and "open_log X now w u sid (restart_svc X renames s) = (t, Inr l)"
  shows "log_seq l = max (-1) (sf_seq f)" "sl_events l = []"
proof -
  have none: "dict_get (ss_logs (restart_svc X renames s)) sid = None" by (simp add: restart_svc_def fresh_svc_def)
  have state: "svc_state (restart_svc X renames s) sid = Inr (Some f)"
    using assms(2) by (simp add: svc_state_def get_state_def session_file_of_def)
  have "legacy_lines (restart_svc X renames s) sid = None" using svc_okD(2) [OF assms(1)] by (simp add: no_legacy_def)
  then have "l = subscribe 0 (new_log sid (sf_seq f + 1))"
    using assms(3) none state by (auto simp: open_log_def install_log_def Let_def split: sum.splits if_splits)
  then show "log_seq l = max (-1) (sf_seq f)" "sl_events l = []" by (simp_all add: subscribe_def new_log_def log_seq_def)
qed

theorem attach_continues_exactly_witness:
  "events_after demo_env 0 True True demo_sid (-1) 10 demo_talk = (demo_talk, Inr ([demo_event], False, False, 0)) \<and> ev_seq demo_event = 0"
proof -
  have "svc_state demo_talk demo_sid = Inr (Some demo_file)" using demo_live(3) by (simp add: svc_state_def get_state_def session_file_of_def)
  then have page: "events_after demo_env 0 True True demo_sid (-1) 10 demo_talk = (demo_talk, Inr ([demo_event], False, False, 0))"
    using open_existing [OF demo_live(1)] demo_live(5)
    by (simp add: events_after_def plain_file_def) (simp add: tail_def demo_log_def demo_event_def)
  from attach_continues_exactly [OF demo_disk(3,1,2) demo_life page] page show ?thesis by simp
qed

section \<open>Reading\<close>

lemma transcript_empty [simp]: "sl_events l = [] \<Longrightarrow> transcript X b l = Inr b"
  by (simp add: transcript_def log_dicts_def merge_messages_def)

text \<open>
  C26: What is read is never stale: in every state the service reaches, the messages a read returns are those of the
  file when it was opened with what all events since derive to, although most reads come from a cache.
\<close>

theorem reads_are_fresh:
  assumes "meta_laws (sx_meta X)" and "well_named (sx_meta X) (sr_disk (ss_repo s0))" and "no_legacy s0"
    and "(svc_step X)\<^sup>*\<^sup>* (restart_svc X renames s0, []) (s, P)"
    and "open_log X now w u sid s = (s', Inr l)" and "derived_messages X now w u sid s = (t, Inr ms)"
  shows "transcript X (baseline_of s' sid) l = Inr ms"
proof -
  have ok: "svc_ok X s" using life_stays_ok [OF assms(4,1) life_starts_ok [OF assms(1-3)]] by (simp add: life_ok_def)
  note open_good = open_log_good [OF ok assms(5)]
  have lg: "dict_get (ss_logs s') sid = Some l" using open_good(3) [OF refl] .
  show ?thesis
  proof (cases "\<exists>ms'. dict_get (ss_cache s') sid = Some (log_seq l, ms')")
    case True
    then obtain ms' where c: "dict_get (ss_cache s') sid = Some (log_seq l, ms')" by blast
    then have "cache_fits X s' sid (log_seq l, ms')" using svc_okD(4) [OF good_ok [OF open_good(1)]] by blast
    then have "transcript X (baseline_of s' sid) l = Inr ms'" using lg by (simp add: cache_fits_def)
    moreover have "ms' = ms" using assms(5,6) c by (simp add: derived_messages_def)
    ultimately show ?thesis by simp
  next
    case False
    then show ?thesis using assms(5,6)
      by (auto simp: derived_messages_def Let_def split: option.splits sum.splits if_splits)
  qed
qed

theorem reads_are_fresh_witness: "transcript demo_env (baseline_of demo_talk demo_sid) demo_log = Inr [demo_said]"
proof -
  have "snd (derived_messages demo_env 0 True True demo_sid demo_talk) = Inr [demo_said]"
    using open_existing [OF demo_live(1)] demo_live by (simp add: derived_messages_def demo_talk on_event_def store_log_def mark_dirty_def
      demo_opened_def install_log_def Let_def demo_created fresh_svc_def baseline_of_def)
  then obtain t where "derived_messages demo_env 0 True True demo_sid demo_talk = (t, Inr [demo_said])" by (metis prod.collapse)
  from reads_are_fresh [OF demo_disk(3,1,2) demo_life open_existing [OF demo_live(1)] this] show ?thesis .
qed

section \<open>Checkpoints and restarts\<close>

lemma index_event_payload: "event_payload e = Inr d \<Longrightarrow> \<exists>idx'. index_event L idx e = Inr idx'"
  by (simp add: index_event_def Let_def)

lemma fold_index:
  assumes "fold_r (apply_dict L P now) st es = Inr st'"
  shows "\<exists>idx'. fold_r (index_event L) idx es = Inr idx'"
  using assms
proof (induction es arbitrary: st idx)
  case (Cons e es)
  then obtain st1 where step: "apply_dict L P now st e = Inr st1" and rest: "fold_r (apply_dict L P now) st1 es = Inr st'"
    by (auto simp: bind_r_Inr_iff)
  then obtain d where "event_payload e = Inr d" by (auto simp: apply_dict_def typed_event_def bind_r_Inr_iff)
  then obtain idx1 where "index_event L idx e = Inr idx1" using index_event_payload by blast
  then show ?case using Cons.IH [OF rest] by simp
qed simp

lemma transcript_index: "transcript X b l = Inr ms \<Longrightarrow> \<exists>idx. request_index_of (sx_lib X) (log_dicts l) = Inr idx"
  using fold_index by (force simp: transcript_def fold_dicts_def request_index_of_def bind_r_Inr_iff)

text \<open>What a flush writes when nothing fails.\<close>

lemma flush_writes:
  assumes ok: "svc_ok X s" and f: "session_file_of s sid = Some f" and l: "dict_get (ss_logs s) sid = Some l"
    and tr: "transcript X (baseline_of s sid) l = Inr ms" and "name_ok sid"
  obtains ck where "capture X sid s = Inr (Some ck)" "ck_messages ck = ms" "ck_seq ck = log_seq l" "ck_session ck = sid"
    "flush_session X stamp True sid s = in_repo (commit True (checkpoint_file X stamp ck f) (ss_repo s)) s"
    "snd (flush_session X stamp True sid s) = Inr ()"
    "session_file_of (fst (flush_session X stamp True sid s)) sid = Some (checkpoint_file X stamp ck f)"
proof -
  have state: "svc_state s sid = Inr (Some f)" using f by (simp add: svc_state_def get_state_def session_file_of_def)
  have id: "file_id f = sid" using state_ok [OF svc_okD(1) [OF ok]] f by (simp add: session_file_of_def)
  obtain idx where idx: "request_index_of (sx_lib X) (log_dicts l) = Inr idx" using transcript_index [OF tr] by blast
  define ck where "ck = \<lparr>ck_session = sid, ck_messages = ms, ck_requests = fold (index_message X) ms idx, ck_seq = log_seq l\<rparr>"
  have cap: "capture X sid s = Inr (Some ck)" using state l tr idx by (simp add: capture_def ck_def)
  have "\<not> log_seq l < sf_seq f" using log_covers(2) [OF ok f l] by simp
  then have flush: "flush_session X stamp True sid s = in_repo (commit True (checkpoint_file X stamp ck f) (ss_repo s)) s"
    using cap state by (simp add: flush_session_def write_checkpoint_def ck_def)
  show thesis
    by (rule that [OF cap]) (use flush id assms(5) in \<open>simp_all add: ck_def in_repo_def commit_Inr session_file_of_def commit_states\<close>)
qed

lemma checkpoint_answers:
  assumes "(svc_step X)\<^sup>*\<^sup>* (restart_svc X renames s0, []) (s, P)" and "well_named (sx_meta X) (sr_disk (ss_repo s0))" and "no_legacy s0"
    and "meta_laws (sx_meta X)" and l: "dict_get (ss_logs s) sid = Some l" and "transcript X (baseline_of s sid) l = Inr ms" and "name_ok sid"
  shows "\<exists>s'. flush_session X stamp True sid s = (s', Inr ())"
proof -
  have ok: "svc_ok X s" using life_stays_ok [OF assms(1,4) life_starts_ok [OF assms(4,2,3)]] by (simp add: life_ok_def)
  obtain f where "session_file_of s sid = Some f" using svc_okD(3) [OF ok l] by (auto simp: log_fits_def split: option.splits)
  from flush_writes [OF ok this assms(5-7)] show ?thesis by (metis prod.collapse)
qed

text \<open>
  C23: A checkpoint and a restart lose nothing of a session: the new process reads the same messages and numbers its
  next event where the old one would have, so a client that was attached can go on. Pydantic has to read back the
  messages it dumped.
\<close>

theorem checkpoint_survives_restart:
  assumes "meta_laws (sx_meta X)" and "well_named (sx_meta X) (sr_disk (ss_repo s0))" and "no_legacy s0"
    and "(svc_step X)\<^sup>*\<^sup>* (restart_svc X renames s0, []) (s, P)"
    and "dict_get (ss_logs s) sid = Some l" and "transcript X (baseline_of s sid) l = Inr ms" and "name_ok sid"
    and "list_all (\<lambda>m. load_message X (JObj (sx_dump X m)) = Inr m) ms"
    and "flush_session X stamp True sid s = (s', res)"
  shows "res = Inr () \<and> (\<exists>t l'. derived_messages X now w u sid (restart_svc X renames' s') = (t, Inr ms) \<and>
    dict_get (ss_logs t) sid = Some l' \<and> log_seq l' = log_seq l)"
proof -
  have ok: "svc_ok X s" using life_stays_ok [OF assms(4,1) life_starts_ok [OF assms(1-3)]] by (simp add: life_ok_def)
  obtain f where f: "session_file_of s sid = Some f"
    using svc_okD(3) [OF ok assms(5)] by (auto simp: log_fits_def split: option.splits)
  obtain ck where ck: "ck_messages ck = ms" "ck_seq ck = log_seq l" and res: "snd (flush_session X stamp True sid s) = Inr ()"
    and g: "session_file_of (fst (flush_session X stamp True sid s)) sid = Some (checkpoint_file X stamp ck f)"
    using flush_writes [OF ok f assms(5-7)] .
  let ?g = "checkpoint_file X stamp ck f" and ?r = "restart_svc X renames' s'"
  have ok': "svc_ok X s'" using good_ok [OF flush_session_good [OF assms(1) ok, of stamp True sid]] assms(9) by simp
  note r = restart_good [OF assms(1) ok', of renames']
  have stored: "session_file_of ?r sid = Some ?g" using r(2) g assms(9) by simp
  have loaded: "load_snapshot_messages X ?g = Inr ms"
    using assms(8) by (simp add: load_snapshot_messages_def ck(1) map_r_Inr_iff list_all2_conv_all_nth list_all_length)
  have none: "dict_get (ss_logs ?r) sid = None" "dict_get (ss_cache ?r) sid = None" by (simp_all add: restart_svc_def fresh_svc_def)
  obtain t k where k: "install_log sid ?g ms ?r = (t, k)" by (cases "install_log sid ?g ms ?r")
  have "svc_state ?r sid = Inr (Some ?g)" using stored by (simp add: svc_state_def get_state_def session_file_of_def)
  moreover have "legacy_lines ?r sid = None" using svc_okD(2) [OF r(1)] by (simp add: no_legacy_def)
  ultimately have opened: "open_log X now w u sid ?r = (t, Inr k)" using loaded none(1) k by (cases "ms = []") (simp_all add: open_log_def)
  note inst = install_log_good [OF r(1) stored none(1) k]
  have "ss_cache t = ss_cache ?r" using k by (auto simp: install_log_def Let_def)
  then have cache: "dict_get (ss_cache t) sid = None" using none(2) by simp
  have "derived_messages X now w u sid ?r = (t\<lparr>ss_cache := dict_set sid (log_seq k, ms) (ss_cache t)\<rparr>, Inr ms)"
    using opened cache inst(4,5) by (simp add: derived_messages_def)
  moreover have "log_seq k = log_seq l"
    using inst(3) ck(2) log_covers(4) [OF ok f assms(5)] by simp
  ultimately show ?thesis using res inst(2) assms(9) by simp
qed

theorem checkpoint_survives_restart_witness:
  "\<exists>s' t. flush_session demo_env ''t1'' True demo_sid demo_talk = (s', Inr ()) \<and>
    derived_messages demo_env 0 True True demo_sid (restart_svc demo_env (\<lambda>n. True) s') = (t, Inr [demo_said])"
proof -
  obtain s' res where flush: "flush_session demo_env ''t1'' True demo_sid demo_talk = (s', res)"
    by (cases "flush_session demo_env ''t1'' True demo_sid demo_talk")
  have "list_all (\<lambda>m. load_message demo_env (JObj (sx_dump demo_env m)) = Inr m) [demo_said]"
    by (simp add: load_message_def demo_env_def msg_model_validate_def preserve_payload_def validate_role_content_def demo_said_def base_msg_def)
  from checkpoint_survives_restart [OF demo_disk(3,1,2) demo_life demo_live(1) _ demo_names(2) this flush, of 0 True True "\<lambda>n. True"]
  show ?thesis using flush demo_live(2,4) by auto
qed

section \<open>Requests\<close>

definition records_request :: "session_env \<Rightarrow> string \<Rightarrow> event \<Rightarrow> bool" where
  "records_request X rid e \<longleftrightarrow> ev_type e = ''user/message'' \<and> payload_request_id (sx_lib X) (ev_data e) = rid"

lemma event_dict_get:
  "dict_get (event_dict e) ''type'' = Some (JStr (ev_type e))" "dict_get (event_dict e) ''data'' = Some (ev_data e)"
  by (simp_all add: event_dict_def)

lemma payload_text:
  assumes "event_payload (event_dict e) = Inr d"
  shows "text_at L d ''request_id'' = payload_request_id L (ev_data e)"
  using assms by (cases "ev_data e")
    (auto simp: event_payload_def event_dict_get text_at_def payload_request_id_def jget_def split: if_splits)

lemma index_event_keys: "index_event L idx e = Inr idx' \<Longrightarrow> dict_get idx k \<noteq> None \<Longrightarrow> dict_get idx' k \<noteq> None"
  by (auto simp: index_event_def bind_r_Inr_iff Let_def split: if_splits)

lemma index_event_records:
  assumes "index_event (sx_lib X) idx (event_dict e) = Inr idx'" and "records_request X rid e" and "rid \<noteq> []"
  shows "dict_get idx' rid \<noteq> None"
proof -
  obtain d where d: "event_payload (event_dict e) = Inr d" using assms(1) by (auto simp: index_event_def bind_r_Inr_iff)
  have "text_at (sx_lib X) d ''request_id'' = rid" using payload_text [OF d] assms(2) by (simp add: records_request_def)
  then show ?thesis using assms d
    by (cases "dict_get idx rid") (auto simp: index_event_def records_request_def event_dict_get Let_def)
qed

lemma index_fold_keys: "fold_r (index_event L) idx es = Inr idx' \<Longrightarrow> dict_get idx k \<noteq> None \<Longrightarrow> dict_get idx' k \<noteq> None"
proof (induction es arbitrary: idx)
  case (Cons e es)
  then obtain idx1 where "index_event L idx e = Inr idx1" "fold_r (index_event L) idx1 es = Inr idx'" by (auto simp: bind_r_Inr_iff)
  then show ?case using Cons.IH index_event_keys Cons.prems(2) by metis
qed simp

lemma index_fold_records:
  assumes "fold_r (index_event (sx_lib X)) idx (map event_dict es) = Inr idx'" and "list_ex (records_request X rid) es" and "rid \<noteq> []"
  shows "dict_get idx' rid \<noteq> None"
  using assms(1,2)
proof (induction es arbitrary: idx)
  case (Cons e es)
  then obtain idx1 where one: "index_event (sx_lib X) idx (event_dict e) = Inr idx1"
      and rest: "fold_r (index_event (sx_lib X)) idx1 (map event_dict es) = Inr idx'" by (auto simp: bind_r_Inr_iff)
  show ?case
  proof (cases "records_request X rid e")
    case True
    then show ?thesis using index_event_records [OF one _ assms(3)] index_fold_keys [OF rest] by blast
  next
    case False
    then show ?thesis using Cons.IH [OF rest] Cons.prems(2) by simp
  qed
qed simp

lemma index_message_keys: "dict_get idx k \<noteq> None \<Longrightarrow> dict_get (index_message X m idx) k \<noteq> None"
  by (auto simp: index_message_def Let_def)

lemma index_messages_keys: "dict_get idx k \<noteq> None \<Longrightarrow> dict_get (fold (index_message X) ms idx) k \<noteq> None"
proof (induction ms arbitrary: idx)
  case (Cons m ms)
  then show ?case using index_message_keys by simp
qed simp

definition request_known :: "session_svc \<Rightarrow> string \<Rightarrow> string \<Rightarrow> bool" where
  "request_known s sid rid = (case session_file_of s sid of None \<Rightarrow> False | Some f \<Rightarrow> dict_get (sf_requests f) rid \<noteq> None)"

lemma request_known_iff: "request_known s sid rid \<longleftrightarrow> (\<exists>f. session_file_of s sid = Some f \<and> rid \<in> fst ` set (sf_requests f))"
  by (auto simp: request_known_def map_of_eq_None_iff split: option.splits)

lemma flushed_request_known:
  assumes ok: "svc_ok X s" and l: "dict_get (ss_logs s) sid = Some l" and "list_ex (records_request X rid) (sl_events l)" and "rid \<noteq> []"
    and flush: "flush_session X stamp w sid s = (s', Inr ())"
  shows "request_known s' sid rid"
proof -
  obtain f where f: "session_file_of s sid = Some f" using svc_okD(3) [OF ok l] by (auto simp: log_fits_def split: option.splits)
  have state: "svc_state s sid = Inr (Some f)" using f by (simp add: svc_state_def get_state_def session_file_of_def)
  have id: "file_id f = sid" using state_ok [OF svc_okD(1) [OF ok]] f by (simp add: session_file_of_def)
  have "capture X sid s \<noteq> Inr None" using state l by (auto simp: capture_def bind_r_Inr_iff)
  then obtain ck where cap: "capture X sid s = Inr (Some ck)"
    using flush by (auto simp: flush_session_def split: sum.splits option.splits)
  note c = capture_fits [OF cap]
  then have seq: "ck_seq ck = log_seq l" using l by simp
  then have "\<not> ck_seq ck < sf_seq f" using log_covers(2) [OF ok f l] by simp
  then have written: "in_repo (commit w (checkpoint_file X stamp ck f) (ss_repo s)) s = (s', Inr ())"
    using flush cap state c(2) by (simp add: flush_session_def write_checkpoint_def)
  then have g: "session_file_of s' sid = Some (checkpoint_file X stamp ck f)"
    using id by (auto simp: in_repo_def session_file_of_def commit_states)
  obtain idx ms where idx: "request_index_of (sx_lib X) (log_dicts l) = Inr idx" and "ck_requests ck = fold (index_message X) ms idx"
    using cap state l by (auto simp: capture_def bind_r_Inr_iff)
  moreover have "dict_get idx rid \<noteq> None"
    using index_fold_records [of X "[]" "sl_events l"] idx assms(3,4) by (simp add: request_index_of_def log_dicts_def)
  ultimately have "dict_get (ck_requests ck) rid \<noteq> None" using index_messages_keys by metis
  then show ?thesis using g by (simp add: request_known_iff keys_merge map_of_eq_None_iff)
qed

lemma known_request_refused:
  assumes ok: "svc_ok X s" and known: "request_known s sid rid" and "rid \<noteq> []"
  shows "append_user_message_if_absent X now fresh w m u sid rid content metadata s \<in> {(s, Inr None), (s, Inl ValueError)}"
proof -
  obtain f r where f: "session_file_of s sid = Some f" "dict_get (sf_requests f) rid = Some r"
    using known by (auto simp: request_known_def split: option.splits)
  then have rec: "persisted_record s sid rid = Inr (Some r)"
    by (simp add: persisted_record_def svc_state_def get_state_def session_file_of_def)
  have has: "has_persisted_request X sid rid s = Inr True" using rec assms(3) by (simp add: has_persisted_request_def)
  have "validate_persisted_request X sid rid content s = Inr () \<or> validate_persisted_request X sid rid content s = Inl ValueError"
    using rec by (auto simp: validate_persisted_request_def Let_def split: option.splits json.splits)
  then show ?thesis using has by (auto simp: append_user_message_if_absent_def)
qed

text \<open>
  C22: A request is recorded once, as long as its session is not rolled back or deleted. When the message of a request is in
  the log of a session and a checkpoint succeeded,
  then after any number of appends, checkpoints, forks, changes of metadata, failed writes and restarts an attempt to record
  the request again changes nothing: it is answered as a repetition, or refused when the content is another. (A rollback and
  the deletion of the session forget it. The steps are taken one at a time: a refresh of an external session that overlaps a
  checkpoint can undo it, see \<open>external_refresh_undoes\<close> in \<open>SessionStore\<close>.)
\<close>

theorem recorded_request_is_not_repeated:
  assumes "meta_laws (sx_meta X)" and "well_named (sx_meta X) (sr_disk (ss_repo s0))" and "no_legacy s0"
    and "(svc_step X)\<^sup>*\<^sup>* (restart_svc X renames s0, []) (s, P)"
    and "dict_get (ss_logs s) sid = Some l" and "list_ex (records_request X rid) (sl_events l)" and "rid \<noteq> []"
    and "flush_session X stamp w sid s = (s', Inr ())" and "(forward_step X)\<^sup>*\<^sup>* (s', P) (t, Q)"
  shows "append_user_message_if_absent X now fresh w' m u sid rid content metadata t \<in> {(t, Inr None), (t, Inl ValueError)}"
proof -
  have life: "life_ok X (s, P)" using life_stays_ok [OF assms(4,1) life_starts_ok [OF assms(1-3)]] .
  then have ok: "svc_ok X s" by (simp add: life_ok_def)
  have good: "good_step X s s'" using flush_session_good [OF assms(1) ok, of stamp w sid] assms(8) by simp
  then have "life_ok X (s', P)" using life pending_advances by (auto simp: life_ok_def good_step_def list_all_iff)
  from forward_run [OF assms(9,1) this] have ok_t: "svc_ok X t" and advances: "repo_advances (ss_repo s') (ss_repo t)"
    by (simp_all add: life_ok_def)
  obtain f where "session_file_of s' sid = Some f" "rid \<in> fst ` set (sf_requests f)"
    using flushed_request_known [OF ok assms(5-8)] by (auto simp: request_known_iff)
  then have "request_known t sid rid"
    using advances unfolding request_known_iff repo_advances_def file_advances_def session_file_of_def by blast
  from known_request_refused [OF ok_t this assms(7)] show ?thesis .
qed

theorem recorded_request_is_not_repeated_witness:
  "\<exists>s'. flush_session demo_env ''t1'' True demo_sid demo_talk = (s', Inr ()) \<and>
    append_user_message_if_absent demo_env 0 ''m'' True True True demo_sid ''r1'' [JNull] [] (restart_svc demo_env (\<lambda>n. True) s')
      \<in> {(restart_svc demo_env (\<lambda>n. True) s', Inr None), (restart_svc demo_env (\<lambda>n. True) s', Inl ValueError)}"
proof -
  obtain s' where flush: "flush_session demo_env ''t1'' True demo_sid demo_talk = (s', Inr ())"
    using checkpoint_answers [OF demo_life demo_disk demo_live(1) _ demo_names(2)] demo_live(2,4) by metis
  have "list_ex (records_request demo_env ''r1'') (sl_events demo_log)"
    by (simp add: demo_log_def records_request_def demo_event_def payload_request_id_def jget_def)
  moreover have "(forward_step demo_env)\<^sup>*\<^sup>* (s', []) (restart_svc demo_env (\<lambda>n. True) s', [])"
    by (intro r_into_rtranclp forward_step.restarted)
  ultimately show ?thesis
    using recorded_request_is_not_repeated [OF demo_disk(3,1,2) demo_life demo_live(1) _ _ flush, of "''r1''" "restart_svc demo_env (\<lambda>n. True) s'" "[]"]
      flush by blast
qed

section \<open>Rollback\<close>

lemma derived_of_log:
  assumes ok: "svc_ok X s" and l: "dict_get (ss_logs s) sid = Some l" and tr: "transcript X (baseline_of s sid) l = Inr ms"
  shows "snd (derived_messages X now w u sid s) = Inr ms"
proof (cases "\<exists>ms'. dict_get (ss_cache s) sid = Some (log_seq l, ms')")
  case True
  then obtain ms' where c: "dict_get (ss_cache s) sid = Some (log_seq l, ms')" by blast
  then have "cache_fits X s sid (log_seq l, ms')" using svc_okD(4) [OF ok] by blast
  then have "ms' = ms" using l tr by (simp add: cache_fits_def)
  then show ?thesis using c open_existing [OF l] by (simp add: derived_messages_def)
next
  case False
  then show ?thesis using tr open_existing [OF l] by (auto simp: derived_messages_def Let_def split: option.splits)
qed

text \<open>A flush changes the file of its session and nothing a read depends on.\<close>

lemma flush_log_frame:
  assumes ok: "svc_ok X s" and "flush_log X stamp w sid s = (s', res)"
  shows "ss_logs s' = ss_logs s" "ss_baseline s' = ss_baseline s" "dict_get (ss_logs s) sid = None \<Longrightarrow> s' = s"
    and "other \<noteq> sid \<Longrightarrow> session_file_of s' other = session_file_of s other"
proof -
  have all: "ss_logs s' = ss_logs s \<and> ss_baseline s' = ss_baseline s \<and> (dict_get (ss_logs s) sid = None \<longrightarrow> s' = s) \<and>
      (other \<noteq> sid \<longrightarrow> session_file_of s' other = session_file_of s other)"
  proof (cases "dict_get (ss_logs s) sid")
    case None
    then show ?thesis using assms(2) by (simp add: flush_log_def)
  next
    case (Some l)
    let ?m = "mark_dirty sid True s"
    have okm: "svc_ok X ?m" using good_ok [OF mark_dirty_good [OF ok]] .
    have same: "ss_logs ?m = ss_logs s" "ss_baseline ?m = ss_baseline s" "ss_repo ?m = ss_repo s" by (simp_all add: mark_dirty_def)
    have "fst (flush_session X stamp w sid ?m) = ?m \<or>
      (\<exists>ck f. svc_state ?m sid = Inr (Some f) \<and>
         fst (flush_session X stamp w sid ?m) = fst (in_repo (commit w (checkpoint_file X stamp ck f) (ss_repo ?m)) ?m))"
    proof (cases "\<exists>ck f. capture X sid ?m = Inr (Some ck) \<and> svc_state ?m sid = Inr (Some f) \<and> sf_seq f \<le> ck_seq ck")
      case True
      then obtain ck f where c: "capture X sid ?m = Inr (Some ck)" "svc_state ?m sid = Inr (Some f)" "sf_seq f \<le> ck_seq ck" by blast
      then show ?thesis using capture_fits(2) [OF c(1)] by (auto simp: flush_session_def write_checkpoint_def)
    next
      case False
      show ?thesis
      proof (cases "\<exists>ck. capture X sid ?m = Inr (Some ck)")
        case True
        then obtain ck where ck: "capture X sid ?m = Inr (Some ck)" by blast
        then have "fst (write_checkpoint X stamp w ck ?m) = ?m" using False capture_fits(2) [OF ck]
          by (auto simp: write_checkpoint_def split: sum.splits option.splits)
        then show ?thesis using ck by (simp add: flush_session_def)
      next
        case none: False
        then show ?thesis by (auto simp: flush_session_def split: sum.splits option.splits)
      qed
    qed
    moreover have "file_id f = sid" if "svc_state ?m sid = Inr (Some f)" for f
      using state_ok [OF svc_okD(1) [OF okm]] svc_state_file [OF okm that] by (simp add: session_file_of_def)
    moreover have "s' = fst (flush_session X stamp w sid ?m)" using assms(2) Some by (simp add: flush_log_def)
    ultimately show ?thesis using same Some by (auto simp: in_repo_def session_file_of_def commit_states)
  qed
  then show "ss_logs s' = ss_logs s" "ss_baseline s' = ss_baseline s" "dict_get (ss_logs s) sid = None \<Longrightarrow> s' = s"
    "other \<noteq> sid \<Longrightarrow> session_file_of s' other = session_file_of s other" by simp_all
qed

lemma derived_after_flush:
  assumes meta: "meta_laws (sx_meta X)" and ok: "svc_ok X s" and flush: "flush_log X stamp w sid s = (s', res)"
    and d: "derived_messages X now m u sid s' = (s'', Inr ms)"
  shows "snd (derived_messages X now m u sid s) = Inr ms"
proof (cases "dict_get (ss_logs s) sid")
  case None
  then show ?thesis using flush_log_frame(3) [OF ok flush] d by simp
next
  case (Some l)
  note frame = flush_log_frame [OF ok flush]
  have ok': "svc_ok X s'" using good_ok [OF flush_log_good [OF meta ok, of stamp w sid]] flush by simp
  have l': "dict_get (ss_logs s') sid = Some l" using Some frame(1) by simp
  have open': "open_log X now m u sid s' = (s', Inr l)" using open_existing [OF l'] .
  have "transcript X (baseline_of s' sid) l = Inr ms"
  proof (cases "transcript X (baseline_of s' sid) l")
    case (Inr ms')
    then show ?thesis using derived_of_log [OF ok' l' Inr, of now m u] d by simp
  next
    case (Inl e)
    obtain k where "dict_get (ss_logs s'') sid = Some k" "transcript X (baseline_of s'' sid) k = Inr ms"
      using derived_messages_good(3) [OF ok' d refl] by blast
    moreover have "ss_logs s'' = ss_logs s'" "ss_baseline s'' = ss_baseline s'"
      using d open' by (auto simp: derived_messages_def Let_def split: option.splits sum.splits if_splits)
    ultimately show ?thesis using l' by (simp add: baseline_of_def)
  qed
  moreover have "baseline_of s' sid = baseline_of s sid" using frame(2) by (simp add: baseline_of_def)
  ultimately show ?thesis using derived_of_log [OF ok Some] by simp
qed

lemma opened_log_empty:
  assumes ok: "svc_ok X s" and "dict_get (ss_logs s) sid = None" and "open_log X now w u sid s = (s', Inr l)"
  shows "sl_events l = []"
proof -
  have "legacy_lines s sid = None" using svc_okD(2) [OF ok] by (simp add: no_legacy_def)
  then show ?thesis using assms(2,3)
    by (auto simp: open_log_def install_log_def Let_def subscribe_def new_log_def split: sum.splits option.splits if_splits)
qed

lemma rollback_point_Inr:
  assumes "rollback_point through ms = Inr (i, target)"
  shows "i < length ms" "msg_id (ms ! i) = through" "msg_role (ms ! i) = RoleUser" "list_all is_stable_message (take (Suc i) ms)" "target = ms ! i"
proof -
  have p: "index_of (\<lambda>m. msg_id m = through) ms = Some i" "msg_role (ms ! i) = RoleUser" "is_stable_message (ms ! i)"
      "list_all is_stable_message (take i ms)" "target = ms ! i"
    using assms by (auto simp: rollback_point_def split: option.splits if_splits)
  then show "i < length ms" "msg_id (ms ! i) = through" "msg_role (ms ! i) = RoleUser" "target = ms ! i" using index_of_Some [OF p(1)] by simp_all
  then show "list_all is_stable_message (take (Suc i) ms)" using p(3,4) by (simp add: take_Suc_conv_app_nth)
qed

lemma switched_log:
  assumes ok: "svc_ok X s" and l: "dict_get (ss_logs s) sid = Some l" and "was = Some l \<or> was = None \<and> sl_events l = []"
  shows "\<exists>k. dict_get (ss_logs (switch_baseline sid kept n was s)) sid = Some k \<and> sl_events k = [] \<and>
    baseline_of (switch_baseline sid kept n was s) sid = kept"
proof -
  have "log_inv (sx_lib X) l" using svc_okD(3) [OF ok l] by (simp add: log_fits_def)
  from reset_after_rollback(3) [OF this, of n] show ?thesis using assms(2,3)
    by (auto simp: switch_baseline_def Let_def store_log_def baseline_of_def)
qed

text \<open>The states a rollback that succeeds goes through: after the flush, after the read, after the write.\<close>

lemma rollback_path:
  assumes ok: "svc_ok X s" and meta: "meta_laws (sx_meta X)"
    and "rollback_session X now stamp fl w m u sid through s = (t, Inr r)"
  obtains s1 f s2 ms i l g where "flush_log X stamp fl sid s = (s1, Inr ())" "svc_ok X s1" "session_file_of s1 sid = Some f"
    "derived_messages X now m u sid s1 = (s2, Inr ms)" "rollback_point through ms = Inr (i, ms ! i)" "g = rolled_back X stamp (take i ms) f"
    "snd (commit w g (ss_repo s2)) = Inr ()"
    "t = switch_baseline sid (take i ms) (sf_seq f) (dict_get (ss_logs s1) sid) (fst (in_repo (commit w g (ss_repo s2)) s2))"
    "r = rollback_result_of X sid through i ms g" "dict_get (ss_logs s2) sid = Some l"
    "dict_get (ss_logs s1) sid = Some l \<or> dict_get (ss_logs s1) sid = None \<and> sl_events l = []"
proof (cases rule: rollback_cases [of X now stamp fl w m u sid through s])
  case (turned_away s1)
  then show ?thesis using turned_away(3) [of r] assms(3) by simp
next
  case (entered s1 f)
  have ok1: "svc_ok X s1" using good_ok [OF flush_log_good [OF meta ok, of stamp fl sid]] entered(1) by simp
  obtain s2 dm where d: "derived_messages X now m u sid s1 = (s2, dm)" by (cases "derived_messages X now m u sid s1")
  have locked: "rollback_locked X now stamp w m u sid through f s1 = (t, Inr r)" using entered(4) assms(3) by simp
  have "\<exists>i target ms g. dm = Inr ms \<and> rollback_point through ms = Inr (i, target) \<and> g = rolled_back X stamp (take i ms) f \<and>
      snd (commit w g (ss_repo s2)) = Inr () \<and>
      t = switch_baseline sid (take i ms) (sf_seq f) (dict_get (ss_logs s1) sid) (fst (in_repo (commit w g (ss_repo s2)) s2)) \<and>
      r = rollback_result_of X sid through i ms g"
    using d by (cases rule: rollback_locked_cases [where stamp = stamp and w = w and through = through and f = f]) (use locked in auto)
  then obtain i target ms g where p: "dm = Inr ms" "rollback_point through ms = Inr (i, target)" "g = rolled_back X stamp (take i ms) f"
      "snd (commit w g (ss_repo s2)) = Inr ()"
      "t = switch_baseline sid (take i ms) (sf_seq f) (dict_get (ss_logs s1) sid) (fst (in_repo (commit w g (ss_repo s2)) s2))"
      "r = rollback_result_of X sid through i ms g" by blast
  obtain s1' l where o: "open_log X now m u sid s1 = (s1', Inr l)"
    using d p(1) by (auto simp: derived_messages_def split: prod.splits sum.splits)
  have logs2: "ss_logs s2 = ss_logs s1'" using d o by (auto simp: derived_messages_def Let_def split: option.splits sum.splits if_splits)
  have was: "dict_get (ss_logs s1) sid = Some l \<or> dict_get (ss_logs s1) sid = None \<and> sl_events l = []"
    using opened_log_empty [OF ok1 _ o] o by (cases "dict_get (ss_logs s1) sid") (simp_all add: open_log_def)
  show ?thesis
    using that [OF entered(1) ok1 svc_state_file [OF ok1 entered(2)]] d p rollback_point_Inr(5) [OF p(2)] logs2 open_log_good(3) [OF ok1 o] was by simp
qed

text \<open>
  C24: A rollback that succeeds leaves exactly the messages before the chosen one, in the file and for a read that follows. The
  chosen one is a user message, everything up to it is complete, and the answer names what was removed. (A checkpoint that was
  captured before and is written after the rollback brings the messages back, see \<open>stale_checkpoint_undoes_rollback\<close>.)
\<close>

theorem rollback_leaves_prefix:
  assumes "meta_laws (sx_meta X)" and "well_named (sx_meta X) (sr_disk (ss_repo s0))" and "no_legacy s0"
    and "(svc_step X)\<^sup>*\<^sup>* (restart_svc X renames s0, []) (s, P)"
    and "rollback_session X now stamp fl w m u sid through s = (t, Inr r)"
  shows "\<exists>ms i f. snd (derived_messages X now m u sid s) = Inr ms \<and> i < length ms \<and> msg_id (ms ! i) = through \<and>
    msg_role (ms ! i) = RoleUser \<and> list_all is_stable_message (take (Suc i) ms) \<and> rb_removed r = map msg_id (drop i ms) \<and>
    session_file_of t sid = Some f \<and> sf_messages f = map (JObj \<circ> sx_dump X) (take i ms) \<and>
    snd (derived_messages X now' m' u' sid t) = Inr (take i ms)"
proof -
  have ok: "svc_ok X s" using life_stays_ok [OF assms(4,1) life_starts_ok [OF assms(1-3)]] by (simp add: life_ok_def)
  have ok_t: "svc_ok X t" using rollback_ok [OF assms(1) ok, of now stamp fl w m u sid through] assms(5) by simp
  obtain s1 f s2 ms i l g where flush: "flush_log X stamp fl sid s = (s1, Inr ())" and ok1: "svc_ok X s1"
    and f: "session_file_of s1 sid = Some f" and d: "derived_messages X now m u sid s1 = (s2, Inr ms)"
    and pt: "rollback_point through ms = Inr (i, ms ! i)" and g: "g = rolled_back X stamp (take i ms) f"
    and c: "snd (commit w g (ss_repo s2)) = Inr ()"
    and t: "t = switch_baseline sid (take i ms) (sf_seq f) (dict_get (ss_logs s1) sid) (fst (in_repo (commit w g (ss_repo s2)) s2))"
    and r: "r = rollback_result_of X sid through i ms g" and l: "dict_get (ss_logs s2) sid = Some l"
    and was: "dict_get (ss_logs s1) sid = Some l \<or> dict_get (ss_logs s1) sid = None \<and> sl_events l = []"
    using rollback_path [OF ok assms(1,5)] .
  have named: "file_id f = sid" "file_wf f" using state_ok [OF svc_okD(1) [OF ok1]] f by (simp_all add: session_file_of_def)
  have "session_file_of s2 sid = Some f" using f derived_messages_good(2) [OF ok1 d] by (simp add: session_file_of_def)
  then have ok3: "svc_ok X (fst (in_repo (commit w g (ss_repo s2)) s2))"
    using shorter_file_ok [OF assms(1) good_ok [OF derived_messages_good(1) [OF ok1 d]], of sid f g w] named g by simp
  obtain k where k: "dict_get (ss_logs t) sid = Some k" "sl_events k = []" "baseline_of t sid = take i ms"
    using switched_log [where kept = "take i ms" and n = "sf_seq f", OF ok3 _ was] l t by (auto simp: in_repo_def)
  then have "snd (derived_messages X now' m' u' sid t) = Inr (take i ms)" using derived_of_log [OF ok_t k(1)] by simp
  moreover have "session_file_of t sid = Some g" using c named g t
    by (simp add: session_file_of_def switch_baseline_def Let_def store_log_def in_repo_def commit_states split: option.splits)
  moreover have "rb_removed r = map msg_id (drop i ms)" by (simp add: r rollback_result_of_def)
  ultimately show ?thesis using rollback_point_Inr [OF pt] g derived_after_flush [OF assms(1) ok flush d] by auto
qed

text \<open>Writes that work and a target that is complete are enough: a flush is never in the way of what follows it.\<close>

lemma flushed_session:
  assumes meta: "meta_laws (sx_meta X)" and ok: "svc_ok X s" and l: "dict_get (ss_logs s) sid = Some l"
    and tr: "transcript X (baseline_of s sid) l = Inr ms" and "name_ok sid"
  obtains s1 g where "flush_log X stamp True sid s = (s1, Inr ())" "svc_ok X s1" "svc_state s1 sid = Inr (Some g)" "\<not> behind_log s1 sid g"
    "dict_get (ss_logs s1) sid = Some l" "snd (derived_messages X now m u sid s1) = Inr ms" "file_wf g" "file_id g = sid"
proof -
  let ?m = "mark_dirty sid True s"
  have okm: "svc_ok X ?m" using good_ok [OF mark_dirty_good [OF ok]] .
  have same: "dict_get (ss_logs ?m) sid = Some l" "transcript X (baseline_of ?m sid) l = Inr ms"
    using l tr by (simp_all add: mark_dirty_def baseline_of_def)
  obtain f where f: "session_file_of ?m sid = Some f" using svc_okD(3) [OF okm same(1)] by (auto simp: log_fits_def split: option.splits)
  obtain ck where ck: "ck_seq ck = log_seq l" and answer: "snd (flush_session X stamp True sid ?m) = Inr ()"
    and g: "session_file_of (fst (flush_session X stamp True sid ?m)) sid = Some (checkpoint_file X stamp ck f)"
    using flush_writes [OF okm f same(1,2) assms(5), of stamp] by metis
  let ?s1 = "fst (flush_session X stamp True sid ?m)" and ?g = "checkpoint_file X stamp ck f"
  have flush: "flush_log X stamp True sid s = (?s1, Inr ())" using l answer by (simp add: flush_log_def prod_eq_iff)
  have ok1: "svc_ok X ?s1" using good_ok [OF flush_log_good [OF meta ok, of stamp True sid]] flush by simp
  have logs: "dict_get (ss_logs ?s1) sid = Some l" "baseline_of ?s1 sid = baseline_of s sid"
    using flush_log_frame(1,2) [OF ok flush] l by (simp_all add: baseline_of_def)
  have "svc_state ?s1 sid = Inr (Some ?g)" using g by (simp add: svc_state_def get_state_def session_file_of_def)
  moreover have "\<not> behind_log ?s1 sid ?g" using logs ck by (simp add: behind_log_def)
  moreover have "snd (derived_messages X now m u sid ?s1) = Inr ms" using derived_of_log [OF ok1 logs(1)] logs(2) tr by simp
  moreover have "file_id ?g = sid \<and> file_wf ?g" using state_ok [OF svc_okD(1) [OF ok1] g [unfolded session_file_of_def]] .
  ultimately show thesis using that [OF flush ok1] logs(1) by simp
qed

lemma rollback_succeeds:
  assumes "meta_laws (sx_meta X)" and "svc_ok X s" and "dict_get (ss_logs s) sid = Some l"
    and "transcript X (baseline_of s sid) l = Inr ms" and "name_ok sid" and "through \<noteq> []" and pt: "rollback_point through ms = Inr (i, target)"
  shows "\<exists>t r. rollback_session X now stamp True True m u sid through s = (t, Inr r)"
proof -
  obtain s1 g where s1: "flush_log X stamp True sid s = (s1, Inr ())" "svc_state s1 sid = Inr (Some g)" "\<not> behind_log s1 sid g"
    and d: "snd (derived_messages X now m u sid s1) = Inr ms" and id: "file_id g = sid"
    using flushed_session [OF assms(1-5), of stamp now m u] by metis
  obtain s2 where d2: "derived_messages X now m u sid s1 = (s2, Inr ms)" using d by (metis prod.collapse)
  obtain r' where "commit True (rolled_back X stamp (take i ms) g) (ss_repo s2) = (r', Inr ())"
    using commit_Inr [of True "rolled_back X stamp (take i ms) g" "ss_repo s2"] id assms(5) by (metis prod.collapse rolled_back_fields(2))
  then show ?thesis using s1 d2 pt assms(6) by (simp add: rollback_session_def rollback_locked_def in_repo_def Let_def)
qed

theorem rollback_leaves_prefix_witness:
  "\<exists>t r. rollback_session demo_env 0 ''t1'' True True True True demo_sid (msg_id demo_said) demo_talk = (t, Inr r) \<and>
    rb_removed r = [msg_id demo_said] \<and> snd (derived_messages demo_env 0 True True demo_sid t) = Inr []"
proof -
  have ok: "svc_ok demo_env demo_talk"
    using life_stays_ok [OF demo_life demo_disk(3) life_starts_ok [OF demo_disk(3,1,2)]] by (simp add: life_ok_def)
  have pt: "rollback_point (msg_id demo_said) [demo_said] = Inr (0, demo_said)"
    by (simp add: rollback_point_def is_stable_message_def demo_said_def base_msg_def)
  have tr: "transcript demo_env (baseline_of demo_talk demo_sid) demo_log = Inr [demo_said]" using demo_live(2,4) by simp
  have "msg_id demo_said \<noteq> []" by (simp add: demo_said_def base_msg_def)
  then obtain t r where made: "rollback_session demo_env 0 ''t1'' True True True True demo_sid (msg_id demo_said) demo_talk = (t, Inr r)"
    using rollback_succeeds [OF demo_disk(3) ok demo_live(1) tr demo_names(2) _ pt] by blast
  have "snd (derived_messages demo_env 0 True True demo_sid demo_talk) = Inr [demo_said]" using derived_of_log [OF ok demo_live(1) tr] .
  then show ?thesis
    using rollback_leaves_prefix [OF demo_disk(3,1,2) demo_life made, of 0 True True] made by auto
qed

section \<open>Fork\<close>

lemma fork_selection_Inr:
  assumes "fork_selection through ms = Inr sel"
  shows "sel = take (length sel) ms" "list_all is_stable_message sel"
    and "if through = [] then sel = ms else sel \<noteq> [] \<and> msg_id (last sel) = through"
proof -
  have all: "sel = take (length sel) ms \<and> list_all is_stable_message sel \<and>
      (if through = [] then sel = ms else sel \<noteq> [] \<and> msg_id (last sel) = through)"
  proof (cases "through = []")
    case True
    then show ?thesis using assms by (auto simp: fork_selection_def bind_r_Inr_iff split: if_splits)
  next
    case False
    then obtain i where i: "index_of (\<lambda>m. msg_id m = through) ms = Some i" "sel = take (Suc i) ms" "list_all is_stable_message sel"
      using assms by (auto simp: fork_selection_def bind_r_Inr_iff split: option.splits if_splits)
    then show ?thesis using index_of_Some [OF i(1)] False by (simp add: take_Suc_conv_app_nth min_def)
  qed
  then show "sel = take (length sel) ms" "list_all is_stable_message sel"
    "if through = [] then sel = ms else sel \<noteq> [] \<and> msg_id (last sel) = through" by simp_all
qed

lemma fork_metadata_excludes: "list_all (\<lambda>k. dict_get (fork_metadata parent utc through meta) k = None) FORK_METADATA_EXCLUDE"
proof -
  have "dict_get (filter (\<lambda>(k, v). k \<notin> set FORK_METADATA_EXCLUDE) meta) k = None" if "k \<in> set FORK_METADATA_EXCLUDE" for k
    using that by (auto simp: map_of_eq_None_iff)
  then show ?thesis by (auto simp: fork_metadata_def FORK_METADATA_EXCLUDE_def list_all_iff)
qed

lemma fork_path:
  assumes "fork_session X now stamp utc hex fl w m u parent through s = (t, Inr r)"
  obtains s1 f s2 ms sel fork where "flush_log X stamp fl parent s = (s1, Inr ())" "svc_state s1 parent = Inr (Some f)"
    "derived_messages X now m u parent s1 = (s2, Inr ms)" "fork_selection (opt_str through) ms = Inr sel"
    "in_repo (create_with_state w (fork_file X stamp utc fork parent (opt_str through) sel f) (ss_repo s2)) s2 = (t, Inr fork)"
    "r = fork_result_of parent through (fork_file X stamp utc fork parent (opt_str through) sel f)"
proof -
  obtain s1 r1 where flush: "flush_log X stamp fl parent s = (s1, r1)" by (cases "flush_log X stamp fl parent s")
  obtain s2 r2 where p: "fork_prepare X now stamp utc hex m u parent through s1 = (s2, r2)"
    by (cases "fork_prepare X now stamp utc hex m u parent through s1")
  have r1: "r1 = Inr ()" using assms flush by (cases r1) (simp_all add: fork_session_def)
  obtain g where g: "r2 = Inr g" using assms flush r1 p by (cases r2) (simp_all add: fork_session_def)
  obtain t' res where c: "in_repo (create_with_state w g (ss_repo s2)) s2 = (t', res)"
    by (cases "in_repo (create_with_state w g (ss_repo s2)) s2")
  have made: "t' = t" "bind_r res (\<lambda>fork. Inr (fork_result_of parent through g)) = Inr r"
    using assms flush r1 p g c by (simp_all add: fork_session_def)
  then obtain fork where fork: "res = Inr fork" "r = fork_result_of parent through g" by (auto simp: bind_r_Inr_iff)
  obtain f where f: "svc_state s1 parent = Inr (Some f)" "\<not> behind_log s1 parent f"
    using p g by (auto simp: fork_prepare_def split: sum.splits option.splits if_splits)
  obtain s2' dm where d: "derived_messages X now m u parent s1 = (s2', dm)" by (cases "derived_messages X now m u parent s1")
  obtain ms where ms: "dm = Inr ms" using p g f d by (cases dm) (simp_all add: fork_prepare_def)
  then have "s2' = s2" "\<exists>sel i. fork_selection (opt_str through) ms = Inr sel \<and>
      make_session_id (sh_channel (sf_header f)) hex = Inr i \<and> g = fork_file X stamp utc i parent (opt_str through) sel f"
    using p g f d by (auto simp: fork_prepare_def bind_r_Inr_iff)
  then obtain sel i where sel: "fork_selection (opt_str through) ms = Inr sel" "g = fork_file X stamp utc i parent (opt_str through) sel f"
    by blast
  have "fork = i" using c fork(1) sel(2) by (auto simp: in_repo_def create_with_state_def fork_file_def Let_def bind_r_Inr_iff split: if_splits prod.splits)
  then show thesis using that [OF flush [unfolded r1] f(1)] d ms \<open>s2' = s2\<close> sel c fork made by simp
qed

lemma flush_keeps_header:
  assumes ok: "svc_ok X s" and flush: "flush_log X stamp w sid s = (s1, res)" and f: "session_file_of s sid = Some f"
    and g: "svc_state s1 sid = Inr (Some g)"
  shows "sh_channel (sf_header g) = sh_channel (sf_header f)" and "sr_corrupt (ss_repo s1) = sr_corrupt (ss_repo s)"
proof -
  have all: "sr_corrupt (ss_repo s1) = sr_corrupt (ss_repo s) \<and> (\<forall>g. session_file_of s1 sid = Some g \<longrightarrow> sh_channel (sf_header g) = sh_channel (sf_header f))"
  proof (cases "dict_get (ss_logs s) sid")
    case None
    then show ?thesis using flush f by (simp add: flush_log_def)
  next
    case (Some l)
    have "sh_channel (sf_header (checkpoint_file X stamp ck h)) = sh_channel (sf_header h)" for ck h
      by (simp add: checkpoint_file_def with_preview_def touched_def)
    then show ?thesis using flush f Some
      by (auto simp: flush_log_def flush_session_def mark_dirty_def write_checkpoint_def svc_state_def get_state_def session_file_of_def in_repo_def
        commit_corrupt commit_states dest!: capture_fits(2) split: sum.splits option.splits if_splits)
  qed
  then show "sr_corrupt (ss_repo s1) = sr_corrupt (ss_repo s)" by simp
  have "session_file_of s1 sid = Some g" using g by (auto simp: svc_state_def get_state_def session_file_of_def split: option.splits if_splits)
  then show "sh_channel (sf_header g) = sh_channel (sf_header f)" using all by blast
qed

lemma fork_succeeds:
  assumes "meta_laws (sx_meta X)" and "svc_ok X s" and "dict_get (ss_logs s) sid = Some l"
    and "transcript X (baseline_of s sid) l = Inr ms" and "name_ok sid" and "list_all is_stable_message ms" and f: "session_file_of s sid = Some f"
    and channel: "name_ok (sh_channel (sf_header f))" "name_ok (sh_channel (sf_header f) @ ''_sess_'' @ hex)"
    and new: "session_file_of s (sh_channel (sf_header f) @ ''_sess_'' @ hex) = None" "sh_channel (sf_header f) @ ''_sess_'' @ hex \<notin> set (sr_corrupt (ss_repo s))"
  shows "\<exists>t r. fork_session X now stamp utc hex True True m u sid None s = (t, Inr r)"
proof -
  let ?fork = "sh_channel (sf_header f) @ ''_sess_'' @ hex"
  obtain s1 g where s1: "flush_log X stamp True sid s = (s1, Inr ())" "svc_ok X s1" "svc_state s1 sid = Inr (Some g)" "\<not> behind_log s1 sid g"
    and d: "snd (derived_messages X now m u sid s1) = Inr ms"
    using flushed_session [OF assms(1-5), of stamp now m u] by metis
  obtain s2 where d2: "derived_messages X now m u sid s1 = (s2, Inr ms)" using d by (metis prod.collapse)
  have repo2: "ss_repo s2 = ss_repo s1" using derived_messages_good(2) [OF s1(2) d2] .
  note kept = flush_keeps_header [OF assms(2) s1(1) f s1(3)]
  have "?fork \<noteq> sid" using new(1) f by auto
  then have free: "dict_get (sr_states (ss_repo s2)) ?fork = None"
    using new(1) flush_log_frame(4) [OF assms(2) s1(1), of ?fork] repo2 by (simp add: session_file_of_def)
  have sel: "fork_selection [] ms = Inr ms" using assms(6) by (simp add: fork_selection_def)
  let ?g = "fork_file X stamp utc ?fork sid [] ms g"
  have prep: "fork_prepare X now stamp utc hex m u sid None s1 = (s2, Inr ?g)"
    using s1(3,4) d2 sel channel(1) kept(1) by (simp add: fork_prepare_def make_session_id_def validate_name_def)
  have "file_id ?g = ?fork" "sh_channel (sf_header ?g) = sh_channel (sf_header f)" using kept(1) by (simp_all add: fork_file_def Let_def)
  moreover obtain r' where "commit True ?g (ss_repo s2) = (r', Inr ())"
    using commit_Inr [of True ?g "ss_repo s2"] calculation channel(2) by (metis prod.collapse)
  ultimately have "create_with_state True ?g (ss_repo s2) = (r', Inr ?fork)"
    using free new(2) channel repo2 kept(2) by (simp add: create_with_state_def)
  then show ?thesis using s1(1) prep by (simp add: fork_session_def in_repo_def)
qed

text \<open>
  C25: A fork that succeeds creates a new session with the messages of the parent up to the chosen one, which is included, all
  complete. It knows no request and takes over no team, membership or external key. The messages of the parent stay what they
  were (its pending events are written to its file on the way), and the file of no other session changes.
\<close>

theorem fork_copies_prefix:
  assumes "meta_laws (sx_meta X)" and "well_named (sx_meta X) (sr_disk (ss_repo s0))" and "no_legacy s0"
    and "(svc_step X)\<^sup>*\<^sup>* (restart_svc X renames s0, []) (s, P)"
    and "fork_session X now stamp utc hex fl w m u parent through s = (t, Inr r)"
  shows "\<exists>ms sel g. snd (derived_messages X now m u parent s) = Inr ms \<and> sel = take (length sel) ms \<and> list_all is_stable_message sel \<and>
    (if opt_str through = [] then sel = ms else sel \<noteq> [] \<and> msg_id (last sel) = opt_str through) \<and>
    session_file_of s (fr_session r) = None \<and> session_file_of t (fr_session r) = Some g \<and>
    sf_messages g = map (JObj \<circ> sx_dump X) sel \<and> sf_requests g = [] \<and>
    list_all (\<lambda>k. dict_get (sf_metadata g) k = None) FORK_METADATA_EXCLUDE \<and>
    snd (derived_messages X now' m' u' parent t) = Inr ms \<and>
    (other = parent \<or> other = fr_session r \<or> session_file_of t other = session_file_of s other)"
proof -
  have ok: "svc_ok X s" using life_stays_ok [OF assms(4,1) life_starts_ok [OF assms(1-3)]] by (simp add: life_ok_def)
  obtain s1 f s2 ms sel fork where flush: "flush_log X stamp fl parent s = (s1, Inr ())" and f: "svc_state s1 parent = Inr (Some f)"
    and d: "derived_messages X now m u parent s1 = (s2, Inr ms)" and sel: "fork_selection (opt_str through) ms = Inr sel"
    and c: "in_repo (create_with_state w (fork_file X stamp utc fork parent (opt_str through) sel f) (ss_repo s2)) s2 = (t, Inr fork)"
    and r: "r = fork_result_of parent through (fork_file X stamp utc fork parent (opt_str through) sel f)"
    using fork_path [OF assms(5)] .
  let ?g = "fork_file X stamp utc fork parent (opt_str through) sel f"
  have ok1: "svc_ok X s1" using good_ok [OF flush_log_good [OF assms(1) ok, of stamp fl parent]] flush by simp
  have id: "file_id ?g = fork" "fr_session r = fork" by (simp_all add: fork_file_def Let_def r fork_result_of_def)
  have new: "dict_get (sr_states (ss_repo s2)) fork = None" and written: "snd (commit w ?g (ss_repo s2)) = Inr ()"
    and t: "ss_repo t = fst (commit w ?g (ss_repo s2))"
    using c id by (auto simp: in_repo_def create_with_state_def bind_r_Inr_iff split: if_splits prod.splits)
  have repo2: "ss_repo s2 = ss_repo s1" using derived_messages_good(2) [OF ok1 d] .
  have ok_t: "svc_ok X t" using good_ok [OF fork_session_good [OF assms(1) ok, of now stamp utc hex fl w m u parent through]] assms(5) by simp
  obtain l where l: "dict_get (ss_logs s2) parent = Some l" "transcript X (baseline_of s2 parent) l = Inr ms"
    using derived_messages_good(3) [OF ok1 d refl] by blast
  have "ss_logs t = ss_logs s2" "ss_baseline t = ss_baseline s2" using c by (auto simp: in_repo_def split: prod.splits)
  then have parent: "snd (derived_messages X now' m' u' parent t) = Inr ms" using derived_of_log [OF ok_t, of parent l ms] l by (simp add: baseline_of_def)
  have same: "session_file_of s1 k = session_file_of s k" if "k \<noteq> parent" for k using flush_log_frame(4) [OF ok flush that] .
  have "session_file_of s1 parent = Some f" using svc_state_file [OF ok1 f] .
  then have "fork \<noteq> parent" using new repo2 by (auto simp: session_file_of_def)
  then have "session_file_of s fork = None" using same new repo2 by (simp add: session_file_of_def)
  moreover have "session_file_of t fork = Some ?g" using written t id by (simp add: session_file_of_def commit_states)
  moreover have "session_file_of t other = session_file_of s other" if "other \<noteq> fork" "other \<noteq> parent"
    using that same [OF that(2)] t id repo2 by (simp add: session_file_of_def commit_states)
  moreover have "list_all (\<lambda>k. dict_get (sf_metadata ?g) k = None) FORK_METADATA_EXCLUDE" "sf_requests ?g = []"
      "sf_messages ?g = map (JObj \<circ> sx_dump X) sel"
    using fork_metadata_excludes by (simp_all add: fork_file_def Let_def)
  ultimately show ?thesis using derived_after_flush [OF assms(1) ok flush d] fork_selection_Inr [OF sel] id parent
    by (intro exI [of _ ms] exI [of _ sel] exI [of _ ?g]) auto
qed

theorem fork_copies_prefix_witness:
  "\<exists>t r g. fork_session demo_env 0 ''t1'' ''t1'' ''1'' True True True True demo_sid None demo_talk = (t, Inr r) \<and>
    session_file_of t (fr_session r) = Some g \<and> sf_messages g = [JObj [(''id'', JStr (msg_id demo_said))]]"
proof -
  have ok: "svc_ok demo_env demo_talk"
    using life_stays_ok [OF demo_life demo_disk(3) life_starts_ok [OF demo_disk(3,1,2)]] by (simp add: life_ok_def)
  have tr: "transcript demo_env (baseline_of demo_talk demo_sid) demo_log = Inr [demo_said]" using demo_live(2,4) by simp
  obtain t r where made: "fork_session demo_env 0 ''t1'' ''t1'' ''1'' True True True True demo_sid None demo_talk = (t, Inr r)"
  proof -
    have "list_all is_stable_message [demo_said]" by (simp add: is_stable_message_def demo_said_def base_msg_def)
    moreover have "session_file_of demo_talk ''ws_sess_1'' = None" "''ws_sess_1'' \<notin> set (sr_corrupt (ss_repo demo_talk))"
        "sh_channel (sf_header demo_file) = ''ws''"
      by (simp_all add: session_file_of_def demo_talk on_event_def store_log_def mark_dirty_def demo_opened_def install_log_def Let_def
        demo_created fresh_svc_def plain_file_def)
    moreover have "name_ok ''ws_sess_1''" by code_simp
    ultimately show thesis using that fork_succeeds [OF demo_disk(3) ok demo_live(1) tr demo_names(2) _ demo_live(3), of "''1''" 0 "''t1''" "''t1''" True True]
      demo_names(1) by auto
  qed
  obtain ms sel g where f: "snd (derived_messages demo_env 0 True True demo_sid demo_talk) = Inr ms" "sel = ms"
      "session_file_of t (fr_session r) = Some g" "sf_messages g = map (JObj \<circ> sx_dump demo_env) sel"
    using fork_copies_prefix [OF demo_disk(3,1,2) demo_life made, where other = "[]" and now' = 0 and m' = True and u' = True] by auto
  moreover have "snd (derived_messages demo_env 0 True True demo_sid demo_talk) = Inr [demo_said]" using derived_of_log [OF ok demo_live(1) tr] .
  ultimately show ?thesis using made by (simp add: demo_env_def)
qed

section \<open>Types\<close>

definition log_typed :: "session_svc \<Rightarrow> string \<Rightarrow> session_log \<Rightarrow> bool" where
  "log_typed s sid l \<longleftrightarrow> list_all (\<lambda>e. ev_type e \<in> set ALL_EVENT_TYPES) (sl_events l) \<and> \<not> sl_appending l \<and> session_file_of s sid \<noteq> None"

text \<open>
  C28: Every state of the service is well typed: a session is held under its own id with a file of the current version whose
  extra keys are no fields, a log belongs to a session and holds events of registered types, and an external key
  leads to a session that is bound to it.
\<close>

theorem service_state_is_typed:
  assumes "meta_laws (sx_meta X)" and "well_named (sx_meta X) (sr_disk (ss_repo s0))" and "no_legacy s0"
    and "(svc_step X)\<^sup>*\<^sup>* (restart_svc X renames s0, []) (s, P)"
  shows "pred_option (\<lambda>f. file_id f = sid \<and> file_wf f) (session_file_of s sid) \<and> pred_option (log_typed s sid) (dict_get (ss_logs s) sid) \<and>
    pred_option (\<lambda>owner. \<exists>f. session_file_of s owner = Some f \<and> external_of f = Some k) (dict_get (sr_external (ss_repo s)) k)"
proof -
  have ok: "svc_ok X s" using life_stays_ok [OF assms(4,1) life_starts_ok [OF assms(1-3)]] by (simp add: life_ok_def)
  have "file_id f = sid \<and> file_wf f" if "session_file_of s sid = Some f" for f
    using state_ok [OF svc_okD(1) [OF ok]] that by (simp add: session_file_of_def)
  moreover have "log_typed s sid l" if "dict_get (ss_logs s) sid = Some l" for l
    using svc_okD(3) [OF ok that] by (auto simp: log_typed_def log_fits_def log_inv_def list_all_iff split: option.splits)
  moreover have "\<exists>f. session_file_of s owner = Some f \<and> external_of f = Some k" if "dict_get (sr_external (ss_repo s)) k = Some owner" for owner
  proof -
    have "index_ok (sr_states (ss_repo s)) (sr_external (ss_repo s))" using svc_okD(1) [OF ok] by (simp add: store_ok_def)
    from index_okD [OF this that] show ?thesis by (simp add: session_file_of_def)
  qed
  ultimately show ?thesis by (simp add: option.pred_set)
qed

theorem service_state_is_typed_witness:
  "file_id demo_file = demo_sid \<and> file_wf demo_file \<and> log_typed demo_talk demo_sid demo_log"
  using service_state_is_typed [OF demo_disk(3,1,2) demo_life, of demo_sid "([], [])"] demo_live(1,3) by simp

section \<open>Where the code is weaker than it looks\<close>

text \<open>
  The index of a checkpoint gives every message of the transcript that names a request and has no event in the log of this
  process the status \<open>pending\<close>, and what a checkpoint indexes replaces what was stored: the first checkpoint after a restart
  forgets how the requests before it ended.
\<close>

definition counts_as_pending :: "request_index \<Rightarrow> string \<Rightarrow> bool" where
  "counts_as_pending idx rid \<longleftrightarrow> (case dict_get idx rid of None \<Rightarrow> False | Some r \<Rightarrow> dict_get r ''status'' = Some (JStr ''pending''))"

lemma index_message_pending:
  assumes "dict_get idx rid = None \<or> counts_as_pending idx rid"
  shows "dict_get (index_message X m idx) rid = None \<or> counts_as_pending (index_message X m idx) rid"
    and "metadata_request (sx_lib X) m = rid \<Longrightarrow> rid \<noteq> [] \<Longrightarrow> counts_as_pending (index_message X m idx) rid"
    and "counts_as_pending idx rid \<Longrightarrow> counts_as_pending (index_message X m idx) rid"
  using assms by (auto simp: index_message_def counts_as_pending_def set_default_def Let_def split: option.splits)

lemma index_messages_pending:
  assumes "m \<in> set ms" and "metadata_request (sx_lib X) m = rid" and "rid \<noteq> []" and "dict_get idx rid = None"
  shows "counts_as_pending (fold (index_message X) ms idx) rid"
proof -
  have keep: "counts_as_pending idx rid \<Longrightarrow> counts_as_pending (fold (index_message X) ms idx) rid" for ms idx
    by (induction ms arbitrary: idx) (auto simp: index_message_pending(3))
  have "m \<in> set ms \<Longrightarrow> dict_get idx rid = None \<or> counts_as_pending idx rid \<Longrightarrow> counts_as_pending (fold (index_message X) ms idx) rid" for ms idx
  proof (induction ms arbitrary: idx)
    case (Cons x ms)
    show ?case
    proof (cases "x = m")
      case True
      then show ?thesis using index_message_pending(2) [OF Cons.prems(2) assms(2,3)] keep by simp
    next
      case False
      then show ?thesis using Cons.IH [OF _ index_message_pending(1) [OF Cons.prems(2)]] Cons.prems(1) by simp
    qed
  qed simp
  then show ?thesis using assms by blast
qed

lemma merge_requests_get:
  assumes "dict_wf new"
  shows "dict_get (merge_requests old new) rid = (case dict_get new rid of None \<Rightarrow> dict_get old rid | Some r \<Rightarrow> Some r)"
  using assms
proof (induction new arbitrary: old)
  case (Cons kr new)
  obtain k v where kr: "kr = (k, v)" by fastforce
  have "dict_get new k = None" using Cons.prems by (simp add: kr map_of_eq_None_iff)
  moreover have "merge_requests old (kr # new) = merge_requests (dict_set k v old) new" by (simp add: merge_requests_def kr)
  ultimately show ?case using Cons.IH [of "dict_set k v old"] Cons.prems by (auto simp: kr split: option.splits)
qed (simp add: merge_requests_def)

lemma index_wf: "fold_r (index_event L) idx es = Inr idx' \<Longrightarrow> dict_wf idx \<Longrightarrow> dict_wf idx'"
proof (induction es arbitrary: idx)
  case (Cons e es)
  then obtain idx1 where one: "index_event L idx e = Inr idx1" and rest: "fold_r (index_event L) idx1 es = Inr idx'" by (auto simp: bind_r_Inr_iff)
  have "dict_wf idx1" using one Cons.prems(2) by (auto simp: index_event_def bind_r_Inr_iff Let_def split: if_splits)
  then show ?case using Cons.IH [OF rest] by simp
qed simp

lemma index_messages_wf: "dict_wf idx \<Longrightarrow> dict_wf (fold (index_message X) ms idx)"
  by (induction ms arbitrary: idx) (simp_all add: index_message_def Let_def)

lemma checkpoint_forgets_outcome:
  assumes ok: "svc_ok X s" and f: "session_file_of s sid = Some f" and l: "dict_get (ss_logs s) sid = Some l"
    and tr: "transcript X (baseline_of s sid) l = Inr ms" and "name_ok sid"
    and m: "m \<in> set ms" "metadata_request (sx_lib X) m = rid" "rid \<noteq> []"
    and idx: "request_index_of (sx_lib X) (log_dicts l) = Inr idx" "dict_get idx rid = None"
  shows "\<exists>g. session_file_of (fst (flush_session X stamp True sid s)) sid = Some g \<and> persisted_status X g rid = None"
proof -
  obtain ck where cap: "capture X sid s = Inr (Some ck)"
    and g: "session_file_of (fst (flush_session X stamp True sid s)) sid = Some (checkpoint_file X stamp ck f)"
    using flush_writes [OF ok f l tr assms(5), of stamp] by metis
  have state: "svc_state s sid = Inr (Some f)" using f by (simp add: svc_state_def get_state_def session_file_of_def)
  have req: "ck_requests ck = fold (index_message X) ms idx" using cap state l tr idx(1) by (auto simp: capture_def)
  have wf: "dict_wf (ck_requests ck)"
    unfolding req by (rule index_messages_wf) (use index_wf idx(1) in \<open>auto simp: request_index_of_def\<close>)
  have "counts_as_pending (ck_requests ck) rid" unfolding req using index_messages_pending [OF m idx(2)] .
  then obtain r where "dict_get (ck_requests ck) rid = Some r" "dict_get r ''status'' = Some (JStr ''pending'')"
    by (auto simp: counts_as_pending_def split: option.splits)
  then have "persisted_status X (checkpoint_file X stamp ck f) rid = None"
    using merge_requests_get [OF wf] by (simp add: persisted_status_def text_at_def Let_def)
  then show ?thesis using g by blast
qed

text \<open>
  A checkpoint that was captured before a rollback and is written after it passes the test of its age, for a rollback leaves
  the number as it is: what was rolled back is in the file again.
\<close>

lemma stale_checkpoint_undoes_rollback:
  assumes meta: "meta_laws (sx_meta X)" and ok: "svc_ok X s" and "name_ok sid" and cap: "capture X sid s = Inr (Some ck)"
    and undo: "rollback_session X now stamp fl w m u sid through s = (t, Inr r)"
  shows "\<exists>g. session_file_of (fst (write_checkpoint X stamp' True ck t)) sid = Some g \<and> sf_messages g = map (JObj \<circ> sx_dump X) (ck_messages ck)"
proof -
  obtain l where l: "dict_get (ss_logs s) sid = Some l" "ck_seq ck = log_seq l" and sid: "ck_session ck = sid" using capture_fits [OF cap] by blast
  obtain s1 f s2 ms i k g where flush: "flush_log X stamp fl sid s = (s1, Inr ())" and ok1: "svc_ok X s1"
    and f: "session_file_of s1 sid = Some f" and g: "g = rolled_back X stamp (take i ms) f"
    and c: "snd (commit w g (ss_repo s2)) = Inr ()"
    and t: "t = switch_baseline sid (take i ms) (sf_seq f) (dict_get (ss_logs s1) sid) (fst (in_repo (commit w g (ss_repo s2)) s2))"
    using rollback_path [OF ok meta undo] .
  have named: "file_id f = sid" using state_ok [OF svc_okD(1) [OF ok1] f [unfolded session_file_of_def]] by simp
  have "dict_get (ss_logs s1) sid = Some l" using flush_log_frame(1) [OF ok flush] l(1) by simp
  then have "sf_seq f \<le> ck_seq ck" using log_covers(2) [OF ok1 f] l(2) by simp
  moreover have tg: "session_file_of t sid = Some g" using c named g t
    by (simp add: session_file_of_def switch_baseline_def Let_def store_log_def in_repo_def commit_states split: option.splits)
  ultimately have "fst (write_checkpoint X stamp' True ck t) = t\<lparr>ss_repo := fst (commit True (checkpoint_file X stamp' ck g) (ss_repo t))\<rparr>"
    using sid g by (simp add: write_checkpoint_def svc_state_def get_state_def session_file_of_def in_repo_def)
  then show ?thesis using named g assms(3) by (simp add: session_file_of_def commit_states commit_Inr)
qed

text \<open>One message of the file that cannot be read keeps the whole session from being opened.\<close>

lemma bad_message_blocks_session:
  assumes "dict_get (ss_logs s) sid = None" and "svc_state s sid = Inr (Some f)" and "j \<in> set (sf_messages f)" and "load_message X j = Inl e"
  shows "\<exists>x. open_log X now w u sid s = (s, Inl x)"
proof -
  have "\<not> (\<exists>ms. load_snapshot_messages X f = Inr ms)"
    using assms(3,4) by (auto simp: load_snapshot_messages_def map_r_Inr_iff list_all2_conv_all_nth in_set_conv_nth)
  then obtain x where "load_snapshot_messages X f = Inl x" by (cases "load_snapshot_messages X f") auto
  then show ?thesis using assms(1,2) by (simp add: open_log_def)
qed

end
