(* ===== verification/ChatAdapter.thy ===== *)
theory ChatAdapter
  imports LlmService WireNormalize
begin

text \<open>
  The adapter for OpenAI's chat completions (\<open>packages/ftre-llm/src/ftre_llm/adapters/openai_completions.py\<close>,
  on the skeleton of \<open>base.py\<close>).

  The SDK is a parameter: for a request it gives an \<open>upstream\<close>, the chunks it streams, how the stream ends and
  when \<open>cancel()\<close> was called. \<open>chat_chunk\<close> holds what the adapter reads of a chunk; missing fields and empty
  ones are the same to it. \<open>stream\<close> is a generator inside a \<open>try\<close>: what was yielded before an error stays, and
  the error becomes the finish. A \<open>CancelledError\<close> passes through (\<open>Killed\<close>).
\<close>

section \<open>What the SDK streams\<close>

record tc_delta =
  td_index :: "int option"
  td_id :: string
  td_name :: string
  td_arguments :: string

record chat_choice =
  ch_reasoning :: string
  ch_content :: string
  ch_calls :: "tc_delta list"
  ch_finish :: string

record chat_chunk =
  hk_meta :: jdict
  hk_usage :: "jdict option"
  hk_choices :: "chat_choice list"

datatype ending = Exhausted | Failed provider_exn | Killed

record 'c upstream =
  up_refused :: "provider_exn option"
  up_chunks :: "'c list"
  up_ending :: ending
  up_cancel :: "nat option"

text \<open>The chunks that are read: the loop looks at the flag when a chunk arrives.\<close>

definition was_cancelled :: "'c upstream \<Rightarrow> bool" where
  "was_cancelled u = (case up_cancel u of None \<Rightarrow> False | Some k \<Rightarrow> k < length (up_chunks u))"

definition read_chunks :: "'c upstream \<Rightarrow> 'c list" where
  "read_chunks u = (case up_cancel u of None \<Rightarrow> up_chunks u | Some k \<Rightarrow> take k (up_chunks u))"

definition read_ending :: "'c upstream \<Rightarrow> ending" where
  "read_ending u = (if was_cancelled u then Exhausted else up_ending u)"

section \<open>The adapter object\<close>

record openai_adapter =
  oa_model :: string
  oa_max_tokens :: "json option"
  oa_temperature :: "json option"
  oa_reasoning_effort :: string
  oa_stop :: "string list"

definition openai_adapter_of :: "adapter_args \<Rightarrow> openai_adapter" where
  "openai_adapter_of a = \<lparr>oa_model = aa_model a, oa_max_tokens = aa_max_tokens a, oa_temperature = None,
     oa_reasoning_effort = aa_reasoning_effort a, oa_stop = []\<rparr>"

record 'c openai_sdk =
  sk_lib :: pylib
  sk_create :: "jdict \<Rightarrow> 'c upstream"
  sk_raise :: "exn \<Rightarrow> provider_exn"

definition set_opt :: "string \<Rightarrow> json option \<Rightarrow> jdict \<Rightarrow> jdict" where
  "set_opt k v d = (case v of None \<Rightarrow> d | Some j \<Rightarrow> dict_set k j d)"

definition output_limit :: "pylib \<Rightarrow> openai_adapter \<Rightarrow> json option result" where
  "output_limit L a = (case oa_max_tokens a of None \<Rightarrow> Inr None
     | Some j \<Rightarrow> bind_r (py_int L j) (\<lambda>n. Inr (Some (JInt (max 1 n)))))"

definition coerce_tools :: "llm_request \<Rightarrow> json option" where
  "coerce_tools q = (if lq_tools q = [] then None else Some (JList (map JObj (lq_tools q))))"

section \<open>The request\<close>

definition chat_message :: "jdict \<Rightarrow> jdict" where
  "chat_message m = dict_pop ''response_metadata'' (dict_pop ''responses_output_items'' m)"

definition chat_params :: "pylib \<Rightarrow> openai_adapter \<Rightarrow> llm_request \<Rightarrow> jdict result" where
  "chat_params L a q =
     bind_r (normalize_messages False (wire_messages q)) (\<lambda>ms.
     bind_r (output_limit L a) (\<lambda>limit.
     let base = [(''model'', JStr (oa_model a)), (''messages'', JList (map (JObj \<circ> chat_message) ms)),
           (''stream'', JBool True), (''stream_options'', JObj [(''include_usage'', JBool True)]),
           (''tool_choice'', JStr ''auto'')];
         effort = oa_reasoning_effort a;
         thinking = (if effort \<noteq> [] \<and> str_contains ''deepseek'' (py_lower (oa_model a))
           then Some (JObj [(''thinking'', JObj [(''type'', JStr ''enabled'')])]) else None)
     in Inr (set_opt ''tools'' (coerce_tools q)
          (set_opt ''stop'' (if oa_stop a = [] then None else Some (JList (map JStr (oa_stop a))))
          (set_opt ''extra_body'' thinking
          (set_opt ''reasoning_effort'' (if effort = [] then None else Some (JStr effort))
          (set_opt ''temperature'' (oa_temperature a) (set_opt ''max_tokens'' limit base))))))))"

section \<open>Tool calls in pieces\<close>

record tool_entry =
  tn_id :: string
  tn_name :: string
  tn_arguments :: string
  tn_emitted :: nat

definition new_entry :: tool_entry where
  "new_entry = \<lparr>tn_id = [], tn_name = [], tn_arguments = [], tn_emitted = 0\<rparr>"

type_synonym tool_items = "(int, tool_entry) dict"

definition wire_index :: "tool_items \<Rightarrow> tc_delta \<Rightarrow> int" where
  "wire_index items d = (case td_index d of None \<Rightarrow> int (length items) | Some i \<Rightarrow> i)"

definition entry_of :: "tool_items \<Rightarrow> int \<Rightarrow> tool_entry" where
  "entry_of items w = (case dict_get items w of None \<Rightarrow> new_entry | Some e \<Rightarrow> e)"

definition grow_entry :: "tc_delta \<Rightarrow> tool_entry \<Rightarrow> tool_entry" where
  "grow_entry d e = e\<lparr>tn_id := str_or (td_id d) (tn_id e), tn_name := str_or (td_name d) (tn_name e),
     tn_arguments := tn_arguments e @ td_arguments d\<rparr>"

definition feed_call :: "tool_items \<Rightarrow> tc_delta \<Rightarrow> tool_items \<times> (int \<times> string \<times> string \<times> string) option" where
  "feed_call items d =
     (let w = wire_index items d; e = grow_entry d (entry_of items w)
      in if tn_id e \<noteq> [] \<and> tn_emitted e < length (tn_arguments e)
         then (dict_set w (e\<lparr>tn_emitted := length (tn_arguments e)\<rparr>) items,
               Some (w, tn_id e, tn_name e, drop (tn_emitted e) (tn_arguments e)))
         else (dict_set w e items, None))"

definition sorted_entries :: "tool_items \<Rightarrow> (int \<times> tool_entry) list" where
  "sorted_entries items = sort_key fst items"

section \<open>One chunk\<close>

record chat_state =
  hs_items :: tool_items
  hs_usage :: "jdict option"
  hs_finish :: string
  hs_meta :: jdict
  hs_reasoning :: "string list"
  hs_text :: "string list"
  hs_reasoning_index :: "int option"
  hs_text_index :: "int option"
  hs_next :: int
  hs_tools :: "(int, int) dict"

definition new_chat :: chat_state where
  "new_chat = \<lparr>hs_items = [], hs_usage = None, hs_finish = ''unknown'', hs_meta = [], hs_reasoning = [],
     hs_text = [], hs_reasoning_index = None, hs_text_index = None, hs_next = 0, hs_tools = []\<rparr>"

definition CHAT_META_KEYS :: "string list" where
  "CHAT_META_KEYS = [''id'', ''model'', ''created'', ''system_fingerprint'']"

definition take_meta :: "string list \<Rightarrow> jdict \<Rightarrow> jdict \<Rightarrow> jdict" where
  "take_meta keys src meta =
     fold (\<lambda>k m. case get_or src k JNull of JNull \<Rightarrow> m | v \<Rightarrow> dict_set k v m) keys meta"

definition take_usage :: "jdict option \<Rightarrow> jdict option \<Rightarrow> jdict option" where
  "take_usage u old = (case normalize_usage u of None \<Rightarrow> old | Some d \<Rightarrow> if d = [] then old else Some d)"

definition reasoning_part :: "string \<Rightarrow> chat_state \<Rightarrow> chat_state \<times> chunk list" where
  "reasoning_part r s =
     (if r = [] then (s, [])
      else case hs_reasoning_index s of
        Some i \<Rightarrow> (s\<lparr>hs_reasoning := hs_reasoning s @ [r]\<rparr>, [ReasoningDelta i r])
      | None \<Rightarrow> (s\<lparr>hs_reasoning := hs_reasoning s @ [r], hs_reasoning_index := Some (hs_next s), hs_next := hs_next s + 1\<rparr>,
                 [BlockStart (hs_next s) ''reasoning'', ReasoningDelta (hs_next s) r]))"

definition content_part :: "string \<Rightarrow> chat_state \<Rightarrow> chat_state \<times> chunk list" where
  "content_part t s =
     (if t = [] then (s, [])
      else case hs_text_index s of
        Some i \<Rightarrow> (s\<lparr>hs_text := hs_text s @ [t]\<rparr>, [TextDelta i t])
      | None \<Rightarrow> (s\<lparr>hs_text := hs_text s @ [t], hs_text_index := Some (hs_next s), hs_next := hs_next s + 1\<rparr>,
                 [BlockStart (hs_next s) ''text'', TextDelta (hs_next s) t]))"

definition call_part :: "tc_delta \<Rightarrow> chat_state \<Rightarrow> chat_state \<times> chunk list" where
  "call_part d s =
     (case feed_call (hs_items s) d of
        (items, None) \<Rightarrow> (s\<lparr>hs_items := items\<rparr>, [])
      | (items, Some (w, call_id, name, fragment)) \<Rightarrow>
          (case dict_get (hs_tools s) w of
             Some i \<Rightarrow> (s\<lparr>hs_items := items\<rparr>, [ToolCallDelta i call_id name fragment])
           | None \<Rightarrow> (s\<lparr>hs_items := items, hs_tools := dict_set w (hs_next s) (hs_tools s), hs_next := hs_next s + 1\<rparr>,
                      [BlockStart (hs_next s) ''tool-call'', ToolCallDelta (hs_next s) call_id name fragment])))"

text \<open>Parts one after the other, with everything they yield.\<close>

definition then_part ::
  "(chat_state \<Rightarrow> chat_state \<times> chunk list) \<Rightarrow> chat_state \<times> chunk list \<Rightarrow> chat_state \<times> chunk list" where
  "then_part p r = (let (s, out) = p (fst r) in (s, snd r @ out))"

definition choice_parts :: "chat_choice \<Rightarrow> (chat_state \<Rightarrow> chat_state \<times> chunk list) list" where
  "choice_parts c = reasoning_part (ch_reasoning c) # content_part (ch_content c) # map call_part (ch_calls c)"

definition note_chunk :: "chat_chunk \<Rightarrow> chat_state \<Rightarrow> chat_state" where
  "note_chunk c s = s\<lparr>hs_meta := take_meta CHAT_META_KEYS (hk_meta c) (hs_meta s), hs_usage := take_usage (hk_usage c) (hs_usage s)\<rparr>"

definition note_finish :: "string \<Rightarrow> chat_state \<Rightarrow> chat_state" where
  "note_finish f s = s\<lparr>hs_finish := str_or f (hs_finish s)\<rparr>"

definition chat_step :: "chat_chunk \<Rightarrow> chat_state \<times> chunk list \<Rightarrow> chat_state \<times> chunk list" where
  "chat_step c r =
     (let r1 = (note_chunk c (fst r), snd r)
      in case hk_choices c of
           [] \<Rightarrow> r1
         | ch # _ \<Rightarrow> (let (s, out) = fold then_part (choice_parts ch) r1 in (note_finish (ch_finish ch) s, out)))"

definition chat_loop :: "chat_chunk list \<Rightarrow> chat_state \<times> chunk list" where
  "chat_loop cs = fold chat_step cs (new_chat, [])"

section \<open>The end of the stream\<close>

definition wire_thinking :: "string \<Rightarrow> jdict" where
  "wire_thinking t = [(''type'', JStr ''thinking''), (''thinking'', JStr t)]"

definition wire_text :: "string \<Rightarrow> jdict" where
  "wire_text t = [(''type'', JStr ''text''), (''text'', JStr t)]"

definition wire_call :: "string \<Rightarrow> string \<Rightarrow> string \<Rightarrow> jdict" where
  "wire_call i n args = [(''type'', JStr ''tool-call''), (''id'', JStr i), (''name'', JStr n), (''arguments'', JStr args)]"

text \<open>What is yielded, and the error that ends it.\<close>

fun close_calls :: "(int, int) dict \<Rightarrow> (int \<times> tool_entry) list \<Rightarrow> chunk list \<times> exn option" where
  "close_calls tools [] = ([], None)"
| "close_calls tools ((w, e) # es) =
     (if tn_id e = [] \<or> tn_name e = [] then close_calls tools es
      else case dict_get tools w of
        None \<Rightarrow> ([], Some KeyError)
      | Some i \<Rightarrow> (let (out, x) = close_calls tools es
                   in (BlockEnd i (wire_call (tn_id e) (tn_name e) (tn_arguments e)) # out, x)))"

definition close_texts :: "chat_state \<Rightarrow> chunk list" where
  "close_texts s =
     (case hs_reasoning_index s of None \<Rightarrow> [] | Some i \<Rightarrow> [BlockEnd i (wire_thinking (concat (hs_reasoning s)))]) @
     (case hs_text_index s of None \<Rightarrow> [] | Some i \<Rightarrow> [BlockEnd i (wire_text (concat (hs_text s)))])"

definition FINISH_KIND_MAP :: "(string, string) dict" where
  "FINISH_KIND_MAP = [(''stop'', ''stop''), (''tool_calls'', ''tool-calls''), (''length'', ''max-tokens'')]"

definition upper_char :: "char \<Rightarrow> char" where
  "upper_char c = (let n = (of_char c :: nat) in if 97 \<le> n \<and> n \<le> 122 then char_of (n - 32) else c)"

definition has_output :: "chat_state \<Rightarrow> bool" where
  "has_output s \<longleftrightarrow> hs_reasoning s \<noteq> [] \<or> hs_text s \<noteq> [] \<or> hs_items s \<noteq> []"

definition chat_finish :: "chat_state \<Rightarrow> finish_reason" where
  "chat_finish s =
     (let raw = hs_finish s;
          done_as = (\<lambda>k. \<lparr>fr_kind = k, fr_failure = None, fr_raw = raw, fr_response_metadata = hs_meta s\<rparr>)
      in case dict_get FINISH_KIND_MAP raw of
           Some k \<Rightarrow> done_as k
         | None \<Rightarrow> if has_output s then done_as ''stop''
             else \<lparr>fr_kind = ''error'',
                   fr_failure = Some \<lparr>lf_message = ''model stopped: '' @ raw, lf_code = map upper_char (str_or raw ''unknown'')\<rparr>,
                   fr_raw = raw, fr_response_metadata = hs_meta s\<rparr>)"

definition failure_finish :: "provider_exn \<Rightarrow> chunk" where
  "failure_finish x =
     (let e = classify x
      in FinishChunk \<lparr>fr_kind = ''error'', fr_failure = Some \<lparr>lf_message = le_message e, lf_code = le_code e\<rparr>,
           fr_raw = [], fr_response_metadata = []\<rparr>)"

definition usage_chunks :: "jdict option \<Rightarrow> chunk list" where
  "usage_chunks u = (case u of None \<Rightarrow> [] | Some d \<Rightarrow> [UsageChunk (Some d)])"

text \<open>What follows a generator that did not yield a finish.\<close>

definition unfinished :: "bool \<Rightarrow> chunk" where
  "unfinished cancelled = FinishChunk
     (if cancelled
      then \<lparr>fr_kind = ''aborted'', fr_failure = Some \<lparr>lf_message = ''stream cancelled by cancel()'', lf_code = ''ABORTED''\<rparr>,
            fr_raw = [], fr_response_metadata = []\<rparr>
      else \<lparr>fr_kind = ''error'', fr_failure = Some \<lparr>lf_message = ''stream ended without finish chunk'', lf_code = ''STREAM_CLOSED''\<rparr>,
            fr_raw = [], fr_response_metadata = []\<rparr>)"

definition chat_closing :: "chat_state \<Rightarrow> chunk list \<times> exn option" where
  "chat_closing s =
     (case close_calls (hs_tools s) (sorted_entries (hs_items s)) of
        (out, Some x) \<Rightarrow> (close_texts s @ out, Some x)
      | (out, None) \<Rightarrow> (close_texts s @ out @ usage_chunks (hs_usage s) @ [FinishChunk (chat_finish s)], None))"

text \<open>\<open>guarded\<close>: the rest of the generator after an error, and after a body that went through.\<close>

definition guarded :: "(exn \<Rightarrow> provider_exn) \<Rightarrow> bool \<Rightarrow> chunk list \<times> exn option \<Rightarrow> chunk list" where
  "guarded px cancelled body =
     (case body of
        (out, Some x) \<Rightarrow> (if list_ex is_finish out then out else out @ [failure_finish (px x)])
      | (out, None) \<Rightarrow> (if list_ex is_finish out then out else out @ [unfinished cancelled]))"

definition chat_answer :: "(exn \<Rightarrow> provider_exn) \<Rightarrow> chat_chunk upstream \<Rightarrow> chunk_stream" where
  "chat_answer px u =
     (case up_refused u of
        Some x \<Rightarrow> ([failure_finish x], None)
      | None \<Rightarrow>
          (let (s, out) = chat_loop (read_chunks u)
           in case read_ending u of
                Failed x \<Rightarrow> (out @ [failure_finish x], None)
              | Killed \<Rightarrow> (out, Some RCancelled)
              | Exhausted \<Rightarrow> (let (rest, x) = chat_closing s in (guarded px (was_cancelled u) (out @ rest, x), None))))"

definition chat_adapter :: "chat_chunk openai_sdk \<Rightarrow> openai_adapter \<Rightarrow> adapter" where
  "chat_adapter K a q =
     (case chat_params (sk_lib K) a q of
        Inl e \<Rightarrow> ([failure_finish (sk_raise K e)], None)
      | Inr ps \<Rightarrow> chat_answer (sk_raise K) (sk_create K ps))"

end
