(* ===== verification/ResponsesInput.thy ===== *)
theory ResponsesInput
  imports ChatAdapter
begin

text \<open>
  The chat history as input of the Responses API (\<open>_convert_messages_to_responses_input\<close> and its helpers in
  \<open>packages/ftre-llm/src/ftre_llm/adapters/openai_responses.py\<close>).

  Messages are JSON dictionaries, on which \<open>_json_safe\<close> is the identity. A raise of the code (a text that is not a
  string, a part that is not a dictionary) is an error of the result. \<open>json.dumps\<close> without sorting is a parameter.
  The claim is the one the API checks on every request: after the history went through \<open>normalize_messages\<close>, every
  function call in the input has its output behind it, and there is no output without its call.
\<close>

section \<open>Contents\<close>

definition text_or_raise :: "json \<Rightarrow> string result" where
  "text_or_raise j = (case j of JStr s \<Rightarrow> Inr s | _ \<Rightarrow> Inl TypeError)"

fun join_lines :: "string \<Rightarrow> string list \<Rightarrow> string" where
  "join_lines sep [] = []"
| "join_lines sep [x] = x"
| "join_lines sep (x # y # xs) = x @ sep @ join_lines sep (y # xs)"

definition join_json :: "string \<Rightarrow> json list \<Rightarrow> string result" where
  "join_json sep xs = bind_r (map_r text_or_raise xs) (\<lambda>ss. Inr (join_lines sep ss))"

definition part_has_type :: "string list \<Rightarrow> json \<Rightarrow> bool" where
  "part_has_type ts p = (case p of JObj d \<Rightarrow> (\<exists>t \<in> set ts. dict_get d ''type'' = Some (JStr t)) | _ \<Rightarrow> False)"

definition text_of_part :: "json \<Rightarrow> json" where
  "text_of_part p = (case p of JObj d \<Rightarrow> get_or d ''text'' (JStr []) | _ \<Rightarrow> JStr [])"

definition INPUT_TEXT :: "string list" where
  "INPUT_TEXT = [''text'', ''input_text'']"

definition image_file_id :: "jdict \<Rightarrow> json result" where
  "image_file_id d =
     (if jtruthy (get_or d ''file_id'' JNull) then Inr (get_or d ''file_id'' JNull)
      else case get_or d ''image_file'' (JObj []) of
        JObj f \<Rightarrow> Inr (get_or f ''file_id'' JNull)
      | _ \<Rightarrow> Inl AttributeError)"

definition image_url_of :: "pylib \<Rightarrow> json \<Rightarrow> json" where
  "image_url_of L img = (case img of JObj d \<Rightarrow> get_or d ''url'' (JStr []) | _ \<Rightarrow> JStr (str_or_empty L (Some img)))"

definition image_detail :: "jdict \<Rightarrow> json \<Rightarrow> json" where
  "image_detail d img =
     (case get_or d ''detail'' JNull of
        JNull \<Rightarrow> (case img of JObj i \<Rightarrow> get_or i ''detail'' JNull | _ \<Rightarrow> JNull)
      | v \<Rightarrow> v)"

definition put_if :: "string \<Rightarrow> json \<Rightarrow> jdict \<Rightarrow> jdict" where
  "put_if k v d = (if jtruthy v then dict_set k v d else d)"

definition input_image :: "pylib \<Rightarrow> jdict \<Rightarrow> json result" where
  "input_image L d =
     (let img = get_or d ''image_url'' JNull
      in bind_r (image_file_id d) (\<lambda>file.
           Inr (JObj (put_if ''detail'' (image_detail d img)
             (put_if ''file_id'' (if jtruthy file then JStr (py_str L file) else JNull)
             (put_if ''image_url'' (image_url_of L img) [(''type'', JStr ''input_image'')]))))))"

definition typed_text :: "string \<Rightarrow> json \<Rightarrow> json" where
  "typed_text t v = JObj [(''type'', JStr t), (''text'', v)]"

text \<open>A part of a user message that is not text alone; a part that is not a dictionary is left out.\<close>

definition user_part :: "pylib \<Rightarrow> json \<Rightarrow> json list result" where
  "user_part L p =
     (case p of
        JObj d \<Rightarrow>
          (if part_has_type INPUT_TEXT p then Inr [typed_text ''input_text'' (text_of_part p)]
           else if part_has_type [''image_url'', ''input_image''] p then bind_r (input_image L d) (\<lambda>i. Inr [i])
           else Inr [typed_text ''input_text'' (JStr [])])
      | _ \<Rightarrow> Inr [])"

definition user_content :: "pylib \<Rightarrow> json \<Rightarrow> json result" where
  "user_content L content =
     (case content of
        JList ps \<Rightarrow>
          (if list_all (part_has_type INPUT_TEXT) ps then bind_r (join_json [] (map text_of_part ps)) (\<lambda>s. Inr (JStr s))
           else bind_r (map_r (user_part L) ps) (\<lambda>out. Inr (JList (concat out))))
      | _ \<Rightarrow> Inr content)"

definition assistant_content :: "json \<Rightarrow> json result" where
  "assistant_content content =
     (case content of
        JList ps \<Rightarrow>
          (if list_all (part_has_type [''text'', ''output_text'']) ps then bind_r (join_json [] (map text_of_part ps)) (\<lambda>s. Inr (JStr s))
           else Inr (JList (map (\<lambda>p. typed_text ''output_text'' (text_of_part p)) ps)))
      | _ \<Rightarrow> Inr content)"

section \<open>Reasoning that is sent back\<close>

definition serialize_item :: "json \<Rightarrow> jdict" where
  "serialize_item j = (case j of JObj d \<Rightarrow> if jtruthy (get_or d ''type'' JNull) then d else [] | _ \<Rightarrow> [])"

definition pick_keys :: "string list \<Rightarrow> jdict \<Rightarrow> jdict" where
  "pick_keys ks d = List.map_filter (\<lambda>k. map_option (Pair k) (dict_get d k)) ks"

definition sanitize_reasoning_item :: "bool \<Rightarrow> json \<Rightarrow> jdict option" where
  "sanitize_reasoning_item allow_content j =
     (let value = serialize_item j;
          result = pick_keys ([''type'', ''id'', ''summary'', ''encrypted_content''] @ (if allow_content then [''content''] else [])) value
      in if dict_get value ''type'' \<noteq> Some (JStr ''reasoning'') then None
         else if \<not> truthy_key result ''encrypted_content'' \<and> \<not> truthy_key result ''summary'' \<and>
           \<not> (allow_content \<and> truthy_key result ''content'') then None
         else Some result)"

definition has_reasoning_text :: "jdict \<Rightarrow> bool" where
  "has_reasoning_text d = (case dict_get d ''content'' of
     Some (JList bs) \<Rightarrow> list_ex (\<lambda>b. part_has_type [''reasoning_text''] b \<and> jtruthy (text_of_part b)) bs | _ \<Rightarrow> False)"

definition native_item :: "pylib \<Rightarrow> jdict \<Rightarrow> bool" where
  "native_item L d \<longleftrightarrow>
     (let i = str_or_empty L (dict_get d ''id'') in i = [] \<or> has_prefix ''rs'' i) \<and>
     (truthy_key d ''encrypted_content'' \<or> truthy_key d ''summary'')"

definition replay_items_match :: "pylib \<Rightarrow> bool \<Rightarrow> jdict list \<Rightarrow> bool" where
  "replay_items_match L allow_content items \<longleftrightarrow>
     items \<noteq> [] \<and> (if allow_content then list_all has_reasoning_text items else list_all (native_item L) items)"

definition replay_candidates :: "jdict \<Rightarrow> json" where
  "replay_candidates m =
     (case get_or m ''responses_output_items'' JNull of
        JNull \<Rightarrow>
          (case (case get_or m ''response_metadata'' JNull of JObj d \<Rightarrow> get_or d ''output_items'' JNull | _ \<Rightarrow> JNull) of
             JNull \<Rightarrow> (case get_or m ''responses_output_item_groups'' JNull of JList (g # gs) \<Rightarrow> g | _ \<Rightarrow> JNull)
           | v \<Rightarrow> v)
      | v \<Rightarrow> v)"

definition reasoning_replay_items :: "pylib \<Rightarrow> bool \<Rightarrow> jdict \<Rightarrow> jdict list" where
  "reasoning_replay_items L allow_content m =
     (case replay_candidates m of
        JList cs \<Rightarrow>
          (let result = List.map_filter (sanitize_reasoning_item allow_content) cs
           in if replay_items_match L allow_content result then result else [])
      | _ \<Rightarrow> [])"

section \<open>The input items\<close>

record conversion =
  cv_instructions :: "string option"
  cv_items :: "jdict list"
  cv_legacy :: int

definition add_items :: "jdict list \<Rightarrow> conversion \<Rightarrow> conversion" where
  "add_items is s = s\<lparr>cv_items := cv_items s @ is\<rparr>"

definition system_text :: "json \<Rightarrow> string result" where
  "system_text content =
     (case content of
        JStr s \<Rightarrow> Inr s
      | JList ps \<Rightarrow> join_json [CHR 0x0A] (map text_of_part (filter (part_has_type INPUT_TEXT) ps))
      | _ \<Rightarrow> Inr [])"

definition add_instructions :: "string \<Rightarrow> conversion \<Rightarrow> conversion" where
  "add_instructions t s =
     (if t = [] then s
      else s\<lparr>cv_instructions := Some (case none_if_empty (cv_instructions s) of None \<Rightarrow> t | Some old \<Rightarrow> old @ [CHR 0x0A, CHR 0x0A] @ t)\<rparr>)"

definition role_item :: "string \<Rightarrow> json \<Rightarrow> jdict" where
  "role_item r content = [(''role'', JStr r), (''content'', content)]"

definition legacy_item :: "int \<Rightarrow> string \<Rightarrow> jdict" where
  "legacy_item n t = [(''type'', JStr ''reasoning''), (''id'', JStr (''rs_legacy_'' @ str_of_int n)), (''summary'', JList []),
     (''content'', JList [JObj [(''type'', JStr ''reasoning_text''), (''text'', JStr t)]])]"

definition function_call_item :: "json \<Rightarrow> jdict result" where
  "function_call_item tc =
     (case tc of
        JObj d \<Rightarrow> (case get_or d ''function'' (JObj []) of
            JObj f \<Rightarrow> Inr [(''type'', JStr ''function_call''), (''call_id'', get_or d ''id'' (JStr [])),
              (''name'', get_or f ''name'' (JStr [])), (''arguments'', get_or f ''arguments'' (JStr []))]
          | _ \<Rightarrow> Inl AttributeError)
      | _ \<Rightarrow> Inl AttributeError)"

definition call_output_item :: "(json \<Rightarrow> string) \<Rightarrow> jdict \<Rightarrow> jdict" where
  "call_output_item dumps m =
     (let content = get_or m ''content'' (JStr [])
      in [(''type'', JStr ''function_call_output''), (''call_id'', get_or m ''tool_call_id'' (JStr [])),
          (''output'', JStr (case content of JStr s \<Rightarrow> s | _ \<Rightarrow> dumps content))])"

record convert_options =
  co_lib :: pylib
  co_dumps :: "json \<Rightarrow> string"
  co_reasoning :: bool
  co_legacy :: bool

definition reasoning_said :: "convert_options \<Rightarrow> jdict \<Rightarrow> string option" where
  "reasoning_said O' m = (if co_reasoning O'
     then (case dict_get m ''reasoning_content'' of Some (JStr t) \<Rightarrow> if t = [] then None else Some t | _ \<Rightarrow> None) else None)"

definition replay_reasoning :: "convert_options \<Rightarrow> jdict \<Rightarrow> conversion \<Rightarrow> conversion" where
  "replay_reasoning O' m s =
     (case reasoning_said O' m of
        None \<Rightarrow> s
      | Some t \<Rightarrow>
          (case reasoning_replay_items (co_lib O') (co_legacy O') m of
             [] \<Rightarrow> if co_legacy O' then add_items [legacy_item (cv_legacy s + 1) t] (s\<lparr>cv_legacy := cv_legacy s + 1\<rparr>) else s
           | is \<Rightarrow> add_items is s))"

definition convert_assistant :: "convert_options \<Rightarrow> conversion \<Rightarrow> jdict \<Rightarrow> conversion result" where
  "convert_assistant O' s m =
     bind_r (assistant_content (get_or m ''content'' (JStr []))) (\<lambda>content.
       let s1 = replay_reasoning O' m s;
           said = (if jtruthy content then [role_item ''assistant'' content] else [])
       in if truthy_key m ''tool_calls''
          then bind_r (iter_json (get_or m ''tool_calls'' JNull)) (\<lambda>calls.
               bind_r (map_r function_call_item calls) (\<lambda>fs. Inr (add_items (said @ fs) s1)))
          else Inr (if jtruthy content \<or> reasoning_said O' m = None then add_items [role_item ''assistant'' content] s1 else s1))"

definition convert_message :: "convert_options \<Rightarrow> conversion \<Rightarrow> jdict \<Rightarrow> conversion result" where
  "convert_message O' s m =
     (let role = get_or m ''role'' (JStr []); content = get_or m ''content'' (JStr [])
      in if role = JStr ''system'' then bind_r (system_text content) (\<lambda>t. Inr (add_instructions t s))
         else if role = JStr ''user'' then bind_r (user_content (co_lib O') content) (\<lambda>c. Inr (add_items [role_item ''user'' c] s))
         else if role = JStr ''assistant'' then convert_assistant O' s m
         else if role = JStr ''tool'' then Inr (add_items [call_output_item (co_dumps O') m] s)
         else Inr s)"

definition new_conversion :: conversion where
  "new_conversion = \<lparr>cv_instructions = None, cv_items = [], cv_legacy = 0\<rparr>"

definition convert_messages :: "convert_options \<Rightarrow> jdict list \<Rightarrow> (string option \<times> jdict list) result" where
  "convert_messages O' ms =
     bind_r (fold_r (convert_message O') new_conversion ms) (\<lambda>s. Inr (cv_instructions s, cv_items s))"

definition convert_tool :: "jdict \<Rightarrow> jdict list result" where
  "convert_tool t =
     (if dict_get t ''type'' \<noteq> Some (JStr ''function'') then Inr []
      else case get_or t ''function'' (JObj []) of
        JObj f \<Rightarrow> Inr [[(''type'', JStr ''function''), (''name'', get_or f ''name'' (JStr [])),
          (''description'', get_or f ''description'' (JStr [])), (''parameters'', get_or f ''parameters'' (JObj []))]]
      | _ \<Rightarrow> Inl AttributeError)"

definition convert_tools :: "jdict list \<Rightarrow> jdict list result" where
  "convert_tools ts = bind_r (map_r convert_tool ts) (\<lambda>out. Inr (concat out))"

section \<open>Calls and their outputs\<close>

definition item_ids :: "string \<Rightarrow> jdict list \<Rightarrow> json list" where
  "item_ids t is = map (\<lambda>d. get_or d ''call_id'' JNull) (filter (\<lambda>d. dict_get d ''type'' = Some (JStr t)) is)"

abbreviation "calls_in \<equiv> item_ids ''function_call''"
abbreviation "outputs_in \<equiv> item_ids ''function_call_output''"

text \<open>Every output has its call before it, and no call is left without one.\<close>

definition paired :: "jdict list \<Rightarrow> bool" where
  "paired is \<longleftrightarrow> mset (outputs_in is) = mset (calls_in is) \<and>
     (\<forall>k \<in> set [0..<length is]. mset (outputs_in (take k is)) \<subseteq># mset (calls_in (take k is)))"

lemma item_ids_append [simp]: "item_ids t (xs @ ys) = item_ids t xs @ item_ids t ys" "item_ids t [] = []"
  by (simp_all add: item_ids_def)

lemma pairedD:
  assumes "paired is"
  shows "mset (outputs_in is) = mset (calls_in is)" and "mset (outputs_in (take k is)) \<subseteq># mset (calls_in (take k is))"
proof -
  show eq: "mset (outputs_in is) = mset (calls_in is)" using assms by (simp add: paired_def)
  show "mset (outputs_in (take k is)) \<subseteq># mset (calls_in (take k is))"
    using assms eq by (cases "k < length is") (simp_all add: paired_def)
qed

lemma paired_append:
  assumes "paired xs" "paired ys"
  shows "paired (xs @ ys)"
  unfolding paired_def
proof (intro conjI ballI)
  show "mset (outputs_in (xs @ ys)) = mset (calls_in (xs @ ys))" using assms by (simp add: pairedD(1))
  fix k show "mset (outputs_in (take k (xs @ ys))) \<subseteq># mset (calls_in (take k (xs @ ys)))"
    using subset_mset.add_mono [OF pairedD(2) [OF assms(1), of k] pairedD(2) [OF assms(2), of "k - length xs"]] by simp
qed

lemma paired_Nil [simp]: "paired []"
  by (simp add: paired_def)

lemma paired_group:
  assumes "outputs_in xs = []" "calls_in ys = []" "mset (outputs_in ys) = mset (calls_in xs)"
  shows "paired (xs @ ys)"
proof -
  have x: "outputs_in (take k xs) = []" for k
    using assms(1) by (auto simp: item_ids_def filter_empty_conv dest: in_set_takeD)
  have y: "mset (outputs_in (take k ys)) \<subseteq># mset (outputs_in ys)" for k
    by (metis append_take_drop_id item_ids_append(1) mset_append mset_subset_eq_add_left)
  show ?thesis unfolding paired_def
  proof (intro conjI ballI)
    show "mset (outputs_in (xs @ ys)) = mset (calls_in (xs @ ys))" using assms by simp
    fix k
    show "mset (outputs_in (take k (xs @ ys))) \<subseteq># mset (calls_in (take k (xs @ ys)))"
      using x [of k] y [of "k - length xs"] assms by (cases "k \<le> length xs") (simp_all add: subset_mset.add_increasing2)
  qed
qed

lemma paired_others: "outputs_in xs = [] \<Longrightarrow> calls_in xs = [] \<Longrightarrow> paired xs"
  using paired_group [of xs "[]"] by simp

section \<open>What a message contributes\<close>

definition no_call :: "jdict \<Rightarrow> bool" where
  "no_call d \<longleftrightarrow> dict_get d ''type'' \<noteq> Some (JStr ''function_call'') \<and> dict_get d ''type'' \<noteq> Some (JStr ''function_call_output'')"

lemma no_calls: "list_all no_call xs \<Longrightarrow> calls_in xs = [] \<and> outputs_in xs = []"
  by (induction xs) (auto simp: no_call_def item_ids_def)

lemma no_call_items [simp]: "no_call (role_item r c)" "no_call (legacy_item n t)"
  by (simp_all add: no_call_def role_item_def legacy_item_def)

lemma picked_type: "dict_get (pick_keys (''type'' # ks) d) ''type'' = dict_get d ''type''" if "''type'' \<notin> set ks"
proof -
  have "dict_get (pick_keys ks d) ''type'' = None" using that
    by (induction ks) (auto simp: pick_keys_def List.map_filter_simps split: option.split)
  then show ?thesis by (simp add: pick_keys_def List.map_filter_simps split: option.split)
qed

lemma sanitized_no_call: "sanitize_reasoning_item b j = Some d \<Longrightarrow> no_call d"
  using picked_type [of "[''id'', ''summary'', ''encrypted_content''] @ (if b then [''content''] else [])" "serialize_item j"]
  by (auto simp: sanitize_reasoning_item_def no_call_def Let_def split: if_splits)

lemma replay_no_call: "list_all no_call (reasoning_replay_items L b m)"
  by (auto simp: reasoning_replay_items_def Let_def list_all_iff List.map_filter_def split: json.split dest: sanitized_no_call)

lemma add_items_simps [simp]: "cv_items (add_items is s) = cv_items s @ is" "cv_items (add_instructions t s) = cv_items s"
  by (simp_all add: add_items_def add_instructions_def)

lemma replay_reasoning_items: "\<exists>seg. cv_items (replay_reasoning O' m s) = cv_items s @ seg \<and> list_all no_call seg"
  using replay_no_call [of "co_lib O'" "co_legacy O'" m]
  by (cases "reasoning_said O' m"; cases "reasoning_replay_items (co_lib O') (co_legacy O') m") (auto simp: replay_reasoning_def)

lemma call_items:
  assumes "map_r function_call_item calls = Inr fs" "valid_call_ids calls"
  shows "calls_in fs = call_ids calls \<and> outputs_in fs = []"
proof -
  have all: "list_all2 (\<lambda>c f. function_call_item c = Inr f) calls fs" using assms(1) by (simp add: map_r_Inr_iff)
  have "filter is_obj calls = calls" using assms(2)
    by (metis valid_call_ids_def call_ids_def length_map filter_id_conv length_filter_less linorder_not_less order_refl)
  then have named: "list_all (\<lambda>c. is_obj c \<and> is_nonempty_str (case jget ''id'' c of None \<Rightarrow> JNull | Some v \<Rightarrow> v)) calls"
    and ids: "call_ids calls = map (\<lambda>c. case jget ''id'' c of None \<Rightarrow> JNull | Some v \<Rightarrow> v) calls"
    using assms(2) by (auto simp: valid_call_ids_def call_ids_def list_all_iff filter_id_conv)
  have one: "dict_get f ''type'' = Some (JStr ''function_call'') \<and> get_or f ''call_id'' JNull = (case jget ''id'' c of None \<Rightarrow> JNull | Some v \<Rightarrow> v)"
    if "function_call_item c = Inr f" "is_nonempty_str (case jget ''id'' c of None \<Rightarrow> JNull | Some v \<Rightarrow> v)" for c f
    using that by (auto simp: function_call_item_def jget_def get_or_def is_nonempty_str_def split: json.splits option.splits)
  show ?thesis unfolding ids using all named
    by (induction rule: list_all2_induct) (auto simp: item_ids_def dest!: one)
qed

lemma message_no_calls:
  assumes "convert_message O' s m = Inr s'" "\<not> is_tool m" "\<not> (is_assistant m \<and> truthy_key m ''tool_calls'')"
  shows "\<exists>seg. cv_items s' = cv_items s @ seg \<and> list_all no_call seg"
proof (cases "is_assistant m")
  case True
  then have r: "get_or m ''role'' (JStr []) = JStr ''assistant''" by (simp add: is_assistant_def role_of_def get_or_def)
  obtain seg where seg: "cv_items (replay_reasoning O' m s) = cv_items s @ seg" "list_all no_call seg"
    using replay_reasoning_items by blast
  show ?thesis using assms True seg
    by (auto simp: convert_message_def r convert_assistant_def bind_r_Inr_iff Let_def split: if_splits)
next
  case False
  then show ?thesis using assms
    by (auto simp: convert_message_def is_assistant_def is_tool_def role_of_def get_or_def Let_def bind_r_Inr_iff
        split: if_splits option.splits)
qed

lemma message_calls:
  assumes "convert_message O' s m = Inr s'" "is_assistant m" "truthy_key m ''tool_calls''"
    "iter_json (get_or m ''tool_calls'' JNull) = Inr calls" "valid_call_ids calls"
  shows "\<exists>seg. cv_items s' = cv_items s @ seg \<and> calls_in seg = call_ids calls \<and> outputs_in seg = []"
proof -
  have r: "get_or m ''role'' (JStr []) = JStr ''assistant''" using assms(2) by (simp add: is_assistant_def role_of_def get_or_def)
  obtain seg where seg: "cv_items (replay_reasoning O' m s) = cv_items s @ seg" "list_all no_call seg"
    using replay_reasoning_items by blast
  obtain content fs where fs: "map_r function_call_item calls = Inr fs"
    and s': "s' = add_items ((if jtruthy content then [role_item ''assistant'' content] else []) @ fs) (replay_reasoning O' m s)"
    using assms by (auto simp: convert_message_def r convert_assistant_def bind_r_Inr_iff Let_def)
  show ?thesis using call_items [OF fs assms(5)] no_calls [OF seg(2)] no_calls [of "[role_item ''assistant'' content]"]
    by (intro exI [of _ "seg @ (if jtruthy content then [role_item ''assistant'' content] else []) @ fs"]) (auto simp: s' seg)
qed

lemma results_convert:
  "fold_r (convert_message O') s rs = Inr s' \<Longrightarrow> list_all is_tool rs \<Longrightarrow>
   cv_items s' = cv_items s @ map (call_output_item (co_dumps O')) rs"
proof (induction rs arbitrary: s)
  case (Cons m rs)
  then have "convert_message O' s m = Inr (add_items [call_output_item (co_dumps O') m] s)"
    by (simp add: convert_message_def is_tool_def role_of_def get_or_def)
  then show ?case using Cons by simp
qed simp

lemma results_ids:
  assumes "list_all is_nonempty_str (result_ids rs)"
  shows "outputs_in (map (call_output_item dumps) rs) = result_ids rs \<and> calls_in (map (call_output_item dumps) rs) = []"
  using assms
  by (induction rs) (auto simp: item_ids_def call_output_item_def result_ids_def get_or_def is_nonempty_str_def Let_def split: option.splits json.splits)

lemma ready_paired:
  assumes "provider_ready keep ms" "fold_r (convert_message O') s ms = Inr s'"
  shows "\<exists>seg. cv_items s' = cv_items s @ seg \<and> paired seg"
  using assms
proof (induction arbitrary: s)
  case ready_nil
  then show ?case by simp
next
  case (ready_other m ms)
  then obtain s1 where s1: "convert_message O' s m = Inr s1" "fold_r (convert_message O') s1 ms = Inr s'" by (auto simp: bind_r_Inr_iff)
  obtain seg where seg: "cv_items s1 = cv_items s @ seg" "list_all no_call seg"
    using message_no_calls [OF s1(1)] ready_other by auto
  obtain rest where "cv_items s' = cv_items s1 @ rest" "paired rest" using ready_other.IH [OF s1(2)] by blast
  then show ?case using seg no_calls [OF seg(2)] paired_append [OF paired_others] by (intro exI [of _ "seg @ rest"]) simp
next
  case (ready_text m ms)
  then obtain s1 where s1: "convert_message O' s m = Inr s1" "fold_r (convert_message O') s1 ms = Inr s'" by (auto simp: bind_r_Inr_iff)
  obtain seg where seg: "cv_items s1 = cv_items s @ seg" "list_all no_call seg"
    using message_no_calls [OF s1(1)] ready_text by (auto simp: fit_assistant_def)
  obtain rest where "cv_items s' = cv_items s1 @ rest" "paired rest" using ready_text.IH [OF s1(2)] by blast
  then show ?case using seg no_calls [OF seg(2)] paired_append [OF paired_others] by (intro exI [of _ "seg @ rest"]) simp
next
  case (ready_calls m calls results ms)
  then obtain s1 s2 where s1: "convert_message O' s m = Inr s1" and s2: "fold_r (convert_message O') s1 results = Inr s2"
    and rest: "fold_r (convert_message O') s2 ms = Inr s'"
    by (auto simp: bind_r_Inr_iff fold_r_append)
  obtain seg where seg: "cv_items s1 = cv_items s @ seg" "calls_in seg = call_ids calls" "outputs_in seg = []"
    using message_calls [OF s1 _ ready_calls.hyps(2) ready_calls.hyps(3,4)] ready_calls.hyps(1) by (auto simp: fit_assistant_def)
  have "list_all is_nonempty_str (result_ids results)"
    using ready_calls.hyps(4,6) by (auto simp: valid_call_ids_def list_all_iff dest: mset_eq_setD)
  note out = results_ids [OF this, of "co_dumps O'"]
  have "paired (seg @ map (call_output_item (co_dumps O')) results)"
    using seg out ready_calls.hyps(6) by (intro paired_group) simp_all
  moreover obtain rest_items where "cv_items s' = cv_items s2 @ rest_items" "paired rest_items" using ready_calls.IH [OF rest] by blast
  ultimately show ?case using seg(1) results_convert [OF s2 ready_calls.hyps(5)]
      paired_append [of "seg @ map (call_output_item (co_dumps O')) results" rest_items]
    by (intro exI [of _ "seg @ map (call_output_item (co_dumps O')) results @ rest_items"]) simp
qed

lemma conversion_paired:
  assumes "normalize_messages keep hist = Inr ms" and "convert_messages O' ms = Inr (ins, items)"
  shows "paired items"
proof -
  obtain s where s: "fold_r (convert_message O') new_conversion ms = Inr s" "items = cv_items s"
    using assms(2) by (auto simp: convert_messages_def bind_r_Inr_iff)
  show ?thesis using ready_paired [OF normalize_ready [OF assms(1)] s(1)] s(2) by (simp add: new_conversion_def)
qed

end
