(* ===== verification/ChatProtocol.thy ===== *)
theory ChatProtocol
  imports ChatAdapter
begin

text \<open>
  What the chat adapter guarantees to its consumer (\<open>openai_completions.py\<close> against the contract of
  \<open>events.py\<close>): the assembler accepts every chunk it yields, whatever the provider sends, and a complete answer
  of a provider that follows the documented shape is assembled to exactly what the provider said.
\<close>

section \<open>Histories in which every block is open\<close>

lemma obeys_snoc: "obeys_protocol (cs @ [c]) \<longleftrightarrow> obeys_protocol cs \<and> chunk_ok cs c"
  by (auto simp: obeys_protocol_def nth_append less_Suc_eq)

lemma obeys_Nil [simp]: "obeys_protocol []"
  by (simp add: obeys_protocol_def)

definition open_history :: "chunk list \<Rightarrow> bool" where
  "open_history cs \<longleftrightarrow> obeys_protocol cs \<and> \<not> list_ex is_finish cs \<and> (\<forall>i. \<not> ended cs i)"

lemma open_history_Nil [simp]: "open_history []"
  by (simp add: open_history_def)

text \<open>The blocks of a history with their types.\<close>

definition block_table :: "chunk list \<Rightarrow> (int \<times> string) list" where
  "block_table cs = map (\<lambda>k. (int k, block_starts cs ! k)) [0..<length (block_starts cs)]"

lemma block_table_start [simp]: "block_table (cs @ [BlockStart i t]) = block_table cs @ [(int (length (block_starts cs)), t)]"
  by (auto simp: block_table_def nth_append)

lemma block_table_delta [simp]: "block_starts [c] = [] \<Longrightarrow> block_table (cs @ [c]) = block_table cs"
  by (simp add: block_table_def)

lemma in_block_table: "(i, t) \<in> set (block_table cs) \<longleftrightarrow> started cs i \<and> block_starts cs ! nat i = t"
  by (auto simp: block_table_def started_def image_iff Bex_def intro!: exI [of _ "nat i"])

lemma distinct_block_table: "distinct (map fst (block_table cs))"
  by (simp add: block_table_def comp_def distinct_map)

lemma open_with_table: "open_history cs \<Longrightarrow> (i, t) \<in> set (block_table cs) \<Longrightarrow> open_with cs i t"
  by (simp add: in_block_table open_with_def open_history_def)

lemma open_history_start:
  "open_history cs \<Longrightarrow> t \<in> set BLOCK_TYPES \<Longrightarrow> i = int (length (block_starts cs)) \<Longrightarrow> open_history (cs @ [BlockStart i t])"
  by (simp add: open_history_def obeys_snoc chunk_ok_def)

lemma open_history_delta:
  assumes "open_history cs"
  shows "(i, ''text'') \<in> set (block_table cs) \<Longrightarrow> open_history (cs @ [TextDelta i x])"
    and "(i, ''reasoning'') \<in> set (block_table cs) \<Longrightarrow> open_history (cs @ [ReasoningDelta i x])"
    and "(i, ''tool-call'') \<in> set (block_table cs) \<Longrightarrow> open_history (cs @ [ToolCallDelta i y z x])"
  using assms open_with_table [OF assms] by (auto simp: open_history_def obeys_snoc chunk_ok_def)

lemma untouched_ahead: "open_history cs \<Longrightarrow> \<not> started cs i \<Longrightarrow> untouched cs i"
  using feed_all_iff [of cs] feed_all_mirrors by (auto simp: open_history_def dest: mirrorsD(4))

section \<open>The state against the history\<close>

definition held :: "chat_state \<Rightarrow> (int \<times> string) list" where
  "held s = (case hs_reasoning_index s of None \<Rightarrow> [] | Some i \<Rightarrow> [(i, ''reasoning'')]) @
     (case hs_text_index s of None \<Rightarrow> [] | Some i \<Rightarrow> [(i, ''text'')]) @ map (\<lambda>wi. (snd wi, ''tool-call'')) (hs_tools s)"

definition chat_inv :: "chunk list \<Rightarrow> chat_state \<Rightarrow> bool" where
  "chat_inv cs s \<longleftrightarrow> open_history cs \<and> hs_next s = int (length (block_starts cs)) \<and>
     mset (held s) = mset (block_table cs) \<and> dict_wf (hs_tools s) \<and> dict_wf (hs_items s) \<and>
     fst ` set (hs_tools s) \<subseteq> fst ` set (hs_items s)"

definition keeps_inv :: "(chat_state \<Rightarrow> chat_state \<times> chunk list) \<Rightarrow> bool" where
  "keeps_inv p \<longleftrightarrow> (\<forall>cs s. chat_inv cs s \<longrightarrow> chat_inv (cs @ snd (p s)) (fst (p s)))"

lemma chat_inv_held: "chat_inv cs s \<Longrightarrow> (i, t) \<in> set (held s) \<longleftrightarrow> (i, t) \<in> set (block_table cs)"
  by (auto simp: chat_inv_def dest: mset_eq_setD)

lemmas chat_types = BLOCK_TYPES_def

lemma append_pair: "xs @ [a, b] = (xs @ [a]) @ [b]"
  by simp

lemma reasoning_part_keeps: "keeps_inv (reasoning_part r)"
  unfolding keeps_inv_def
proof (intro allI impI)
  fix cs s assume inv: "chat_inv cs s"
  then have o: "open_history cs" by (simp add: chat_inv_def)
  show "chat_inv (cs @ snd (reasoning_part r s)) (fst (reasoning_part r s))"
  proof (cases "hs_reasoning_index s")
    case None
    have "open_history (cs @ [BlockStart (hs_next s) ''reasoning'', ReasoningDelta (hs_next s) r])"
      unfolding append_pair using inv by (intro open_history_delta open_history_start) (auto simp: chat_inv_def chat_types)
    then show ?thesis using inv None by (auto simp: reasoning_part_def chat_inv_def held_def append_pair simp del: append_assoc)
  next
    case (Some i)
    then have "(i, ''reasoning'') \<in> set (held s)" by (simp add: held_def)
    then show ?thesis using inv Some open_history_delta(2) [OF o] chat_inv_held [OF inv]
      by (auto simp: reasoning_part_def chat_inv_def held_def)
  qed
qed

lemma content_part_keeps: "keeps_inv (content_part t)"
  unfolding keeps_inv_def
proof (intro allI impI)
  fix cs s assume inv: "chat_inv cs s"
  then have o: "open_history cs" by (simp add: chat_inv_def)
  show "chat_inv (cs @ snd (content_part t s)) (fst (content_part t s))"
  proof (cases "hs_text_index s")
    case None
    have "open_history (cs @ [BlockStart (hs_next s) ''text'', TextDelta (hs_next s) t])"
      unfolding append_pair using inv by (intro open_history_delta open_history_start) (auto simp: chat_inv_def chat_types)
    then show ?thesis using inv None by (auto simp: content_part_def chat_inv_def held_def append_pair simp del: append_assoc)
  next
    case (Some i)
    then have "(i, ''text'') \<in> set (held s)" by (simp add: held_def)
    then show ?thesis using inv Some open_history_delta(1) [OF o] chat_inv_held [OF inv]
      by (auto simp: content_part_def chat_inv_def held_def)
  qed
qed

lemma feed_call_cases:
  "(\<exists>e. feed_call items d = (dict_set (wire_index items d) e items, None)) \<or>
   (\<exists>e i n f. feed_call items d = (dict_set (wire_index items d) e items, Some (wire_index items d, i, n, f)))"
  by (simp add: feed_call_def Let_def) blast

lemma call_part_keeps: "keeps_inv (call_part d)"
  unfolding keeps_inv_def
proof (intro allI impI)
  fix cs s assume inv: "chat_inv cs s"
  then have o: "open_history cs" by (simp add: chat_inv_def)
  let ?w = "wire_index (hs_items s) d"
  show "chat_inv (cs @ snd (call_part d s)) (fst (call_part d s))"
  using feed_call_cases [of "hs_items s" d] proof (elim disjE exE)
    fix e assume "feed_call (hs_items s) d = (dict_set ?w e (hs_items s), None)"
    then show ?thesis using inv by (auto simp: call_part_def chat_inv_def held_def keys_dict_set)
  next
    fix e i n f assume f: "feed_call (hs_items s) d = (dict_set ?w e (hs_items s), Some (?w, i, n, f))"
    show ?thesis
    proof (cases "dict_get (hs_tools s) ?w")
      case None
      then have new: "dict_set ?w k (hs_tools s) = hs_tools s @ [(?w, k)]" for k
        by (intro dict_set_new) (simp add: map_of_eq_None_iff)
      have "open_history (cs @ [BlockStart (hs_next s) ''tool-call'', ToolCallDelta (hs_next s) i n f])"
        unfolding append_pair using inv by (intro open_history_delta open_history_start) (auto simp: chat_inv_def chat_types)
      moreover have "mset (held (s\<lparr>hs_tools := hs_tools s @ [(?w, hs_next s)]\<rparr>)) = add_mset (hs_next s, ''tool-call'') (mset (block_table cs))"
        using inv by (simp add: chat_inv_def held_def)
      moreover have "dict_wf (hs_tools s @ [(?w, hs_next s)])" using inv dict_wf_set [of "hs_tools s" ?w "hs_next s"]
        unfolding new [of "hs_next s"] by (simp add: chat_inv_def)
      ultimately show ?thesis using inv f None
        by (auto simp: call_part_def chat_inv_def held_def new keys_dict_set append_pair simp del: append_assoc)
    next
      case (Some k)
      then have "(k, ''tool-call'') \<in> set (held s)" by (auto simp: held_def image_iff Bex_def dest!: map_of_SomeD)
      then have "(k, ''tool-call'') \<in> set (block_table cs)" using chat_inv_held [OF inv] by blast
      then have "open_history (cs @ [ToolCallDelta k i n f])" by (rule open_history_delta(3) [OF o])
      then show ?thesis using inv f Some by (auto simp: call_part_def chat_inv_def held_def keys_dict_set)
    qed
  qed
qed

lemma then_part_keeps: "keeps_inv p \<Longrightarrow> chat_inv (snd r) (fst r) \<Longrightarrow> chat_inv (snd (then_part p r)) (fst (then_part p r))"
  unfolding keeps_inv_def by (drule spec2 [of _ "snd r" "fst r"]) (simp add: then_part_def split_beta)

lemma parts_keep: "list_all keeps_inv ps \<Longrightarrow> chat_inv (snd r) (fst r) \<Longrightarrow> chat_inv (snd (fold then_part ps r)) (fst (fold then_part ps r))"
  by (induction ps arbitrary: r) (simp_all add: then_part_keeps)

lemma choice_parts_keep: "list_all keeps_inv (choice_parts c)"
  by (simp add: choice_parts_def reasoning_part_keeps content_part_keeps call_part_keeps list_all_iff)

lemma note_inv [simp]: "chat_inv cs (note_chunk c s) \<longleftrightarrow> chat_inv cs s" "chat_inv cs (note_finish f s) \<longleftrightarrow> chat_inv cs s"
  by (simp_all add: note_chunk_def note_finish_def chat_inv_def held_def)

lemma chat_step_eq:
  "chat_step c r = (case hk_choices c of [] \<Rightarrow> (note_chunk c (fst r), snd r)
     | ch # _ \<Rightarrow> (let r' = fold then_part (choice_parts ch) (note_chunk c (fst r), snd r)
                in (note_finish (ch_finish ch) (fst r'), snd r')))"
  by (simp add: chat_step_def Let_def split: list.split prod.split)

lemma chat_step_inv: "chat_inv (snd r) (fst r) \<Longrightarrow> chat_inv (snd (chat_step c r)) (fst (chat_step c r))"
  using parts_keep [OF choice_parts_keep, of "(note_chunk c (fst r), snd r)"]
  by (simp add: chat_step_eq Let_def split: list.split)

lemma new_chat_inv: "chat_inv [] new_chat"
  by (simp add: chat_inv_def new_chat_def held_def block_table_def)

lemma chat_loop_inv: "chat_inv (snd (chat_loop cs)) (fst (chat_loop cs))"
proof -
  have "chat_inv (snd r) (fst r) \<Longrightarrow> chat_inv (snd (fold chat_step cs r)) (fst (fold chat_step cs r))" for r
    by (induction cs arbitrary: r) (simp_all add: chat_step_inv)
  then show ?thesis using new_chat_inv by (simp add: chat_loop_def)
qed

section \<open>Closing the blocks\<close>

definition end_chunk :: "int \<times> jdict \<Rightarrow> chunk" where
  "end_chunk ib = BlockEnd (fst ib) (snd ib)"

lemma end_chunks_simps [simp]:
  "block_starts (map end_chunk es) = []" "\<not> list_ex is_finish (map end_chunk es)"
  by (induction es) (auto simp: end_chunk_def)

lemma ended_end_chunks: "ended (cs @ map end_chunk es) i \<longleftrightarrow> ended cs i \<or> i \<in> fst ` set es"
proof -
  have "list_ex (is_end_of i) (map end_chunk es) \<longleftrightarrow> i \<in> fst ` set es"
    by (induction es) (auto simp: end_chunk_def)
  then show ?thesis by (simp add: ended_def)
qed

definition closes :: "chunk list \<Rightarrow> int \<times> jdict \<Rightarrow> bool" where
  "closes cs ib \<longleftrightarrow> started cs (fst ib) \<and> wire_type_agrees (block_starts cs ! nat (fst ib)) (snd ib)"

lemma closing_obeys:
  assumes "obeys_protocol cs" "\<not> list_ex is_finish cs" "distinct (map fst es)" "list_all (closes cs) es"
    "\<forall>i \<in> fst ` set es. \<not> ended cs i"
  shows "obeys_protocol (cs @ map end_chunk es)"
  using assms
proof (induction es rule: rev_induct)
  case (snoc ib es)
  have ob: "obeys_protocol (cs @ map end_chunk es)" using snoc by simp
  have "chunk_ok (cs @ map end_chunk es) (end_chunk ib)"
    using snoc.prems by (auto simp: chunk_ok_def end_chunk_def [of ib] closes_def started_def ended_end_chunks image_iff)
  then show ?case using ob obeys_snoc [of "cs @ map end_chunk es"] by simp
qed simp

fun call_ends :: "(int, int) dict \<Rightarrow> (int \<times> tool_entry) list \<Rightarrow> (int \<times> jdict) list" where
  "call_ends tools [] = []"
| "call_ends tools ((w, e) # es) =
     (if tn_id e = [] \<or> tn_name e = [] then call_ends tools es
      else case dict_get tools w of None \<Rightarrow> []
      | Some i \<Rightarrow> (i, wire_call (tn_id e) (tn_name e) (tn_arguments e)) # call_ends tools es)"

lemma close_calls_ends: "fst (close_calls tools es) = map end_chunk (call_ends tools es)"
  by (induction tools es rule: call_ends.induct) (auto simp: end_chunk_def split: option.split prod.split)

lemma call_ends_from:
  "ib \<in> set (call_ends tools es) \<Longrightarrow>
   \<exists>w e. (w, e) \<in> set es \<and> dict_get tools w = Some (fst ib) \<and> snd ib = wire_call (tn_id e) (tn_name e) (tn_arguments e)"
proof (induction tools es rule: call_ends.induct)
  case (2 tools w e es)
  then show ?case
  proof (cases "tn_id e = [] \<or> tn_name e = []")
    case False
    then obtain i where i: "dict_get tools w = Some i" using "2.prems" by (cases "dict_get tools w") auto
    then consider "ib = (i, wire_call (tn_id e) (tn_name e) (tn_arguments e))" | "ib \<in> set (call_ends tools es)"
      using "2.prems" False by auto
    then show ?thesis
    proof cases
      case 1
      then show ?thesis using i by (intro exI [of _ w] exI [of _ e]) simp
    next
      case 2
      then show ?thesis using "2.IH"(2) [OF False i] by auto
    qed
  qed auto
qed simp

lemma call_ends_distinct:
  "distinct (map snd tools) \<Longrightarrow> distinct (map fst es) \<Longrightarrow> distinct (map fst (call_ends tools es))"
proof (induction tools es rule: call_ends.induct)
  case (2 tools w e es)
  show ?case
  proof (cases "tn_id e = [] \<or> tn_name e = [] \<or> dict_get tools w = None")
    case True
    then show ?thesis using 2 by auto
  next
    case False
    then obtain i where i: "dict_get tools w = Some i" by auto
    have "i \<notin> fst ` set (call_ends tools es)"
    proof
      assume "i \<in> fst ` set (call_ends tools es)"
      then obtain ib where "ib \<in> set (call_ends tools es)" and ib: "i = fst ib" by auto
      then obtain w' e' where w: "(w', e') \<in> set es" "dict_get tools w' = Some i" by (auto dest: call_ends_from)
      moreover have "w' \<noteq> w" using w(1) "2.prems"(2) by force
      ultimately show False using i "2.prems"(1)
        using inj_onD [of snd "set tools" "(w', i)" "(w, i)"] by (auto dest!: map_of_SomeD simp: distinct_map)
    qed
    then show ?thesis using 2 False i by simp
  qed
qed simp

definition text_ends :: "chat_state \<Rightarrow> (int \<times> jdict) list" where
  "text_ends s =
     (case hs_reasoning_index s of None \<Rightarrow> [] | Some i \<Rightarrow> [(i, wire_thinking (concat (hs_reasoning s)))]) @
     (case hs_text_index s of None \<Rightarrow> [] | Some i \<Rightarrow> [(i, wire_text (concat (hs_text s)))])"

lemma close_texts_ends: "close_texts s = map end_chunk (text_ends s)"
  by (simp add: close_texts_def text_ends_def end_chunk_def split: option.split)

definition all_ends :: "chat_state \<Rightarrow> (int \<times> jdict) list" where
  "all_ends s = text_ends s @ call_ends (hs_tools s) (sorted_entries (hs_items s))"

lemma chat_closing_eq:
  "chat_closing s = (let x = snd (close_calls (hs_tools s) (sorted_entries (hs_items s)))
     in (map end_chunk (all_ends s) @
         (if x = None then usage_chunks (hs_usage s) @ [FinishChunk (chat_finish s)] else []), x))"
  using close_calls_ends [of "hs_tools s" "sorted_entries (hs_items s)"]
  by (auto simp: chat_closing_def all_ends_def close_texts_ends Let_def split: prod.split option.split)

lemma held_distinct: "chat_inv cs s \<Longrightarrow> distinct (map fst (held s))"
  using distinct_block_table [of cs] by (simp add: chat_inv_def flip: mset_map) (metis mset_eq_imp_distinct_iff mset_map)

lemma tools_distinct: "chat_inv cs s \<Longrightarrow> distinct (map snd (hs_tools s))"
  using held_distinct by (fastforce simp: held_def comp_def)

lemma block_agrees:
  "wire_type_agrees ''reasoning'' (wire_thinking t)" "wire_type_agrees ''text'' (wire_text t)"
  "wire_type_agrees ''tool-call'' (wire_call i n a)"
  by (simp_all add: wire_type_agrees_def wire_type_def wire_thinking_def wire_text_def wire_call_def)

lemma tool_held: "dict_get (hs_tools s) w = Some i \<Longrightarrow> (i, ''tool-call'') \<in> set (held s)"
  by (auto simp: held_def image_iff Bex_def dest!: map_of_SomeD)

lemma all_ends_close:
  assumes inv: "chat_inv cs s"
  shows "distinct (map fst (all_ends s))" and "list_all (closes cs) (all_ends s)"
proof -
  have st: "started cs i \<and> block_starts cs ! nat i = t" if "(i, t) \<in> set (held s)" for i t
    using that chat_inv_held [OF inv] by (simp add: in_block_table)
  have "closes cs ib" if "ib \<in> set (all_ends s)" for ib
    using that st [of "fst ib" "''tool-call''"] st [of "fst ib" "''text''"] st [of "fst ib" "''reasoning''"]
    by (auto simp: all_ends_def text_ends_def closes_def held_def block_agrees split: option.splits
        dest!: call_ends_from tool_held)
  then show "list_all (closes cs) (all_ends s)" by (simp add: list_all_iff)
  have wf: "distinct (map fst (sorted_entries (hs_items s)))"
    using inv by (simp add: chat_inv_def sorted_entries_def distinct_map inj_on_def)
  have sub: "fst ` set (call_ends (hs_tools s) (sorted_entries (hs_items s))) \<subseteq> snd ` set (hs_tools s)"
    by (force dest!: call_ends_from map_of_SomeD)
  show "distinct (map fst (all_ends s))"
    using held_distinct [OF inv] call_ends_distinct [OF tools_distinct [OF inv] wf] sub
    by (auto simp: all_ends_def text_ends_def held_def comp_def split: option.splits)
qed

lemma closing_history:
  assumes inv: "chat_inv cs s"
  shows "obeys_protocol (cs @ map end_chunk (all_ends s))" and "\<not> list_ex is_finish (cs @ map end_chunk (all_ends s))"
  using inv all_ends_close [OF inv] by (auto simp: chat_inv_def open_history_def intro!: closing_obeys)

lemma obeys_usage_finish:
  assumes "obeys_protocol cs" "\<not> list_ex is_finish cs"
  shows "obeys_protocol (cs @ usage_chunks u @ [FinishChunk r])" and "obeys_protocol (cs @ [FinishChunk r])"
proof -
  show "obeys_protocol (cs @ [FinishChunk r])" using assms by (simp add: obeys_snoc chunk_ok_def)
  show "obeys_protocol (cs @ usage_chunks u @ [FinishChunk r])"
  proof (cases u)
    case None
    then show ?thesis using assms by (simp add: usage_chunks_def obeys_snoc chunk_ok_def)
  next
    case (Some d)
    then show ?thesis using assms unfolding usage_chunks_def
      by (simp only: option.case append_Cons append_Nil append_pair) (simp add: obeys_snoc chunk_ok_def del: append_assoc)
  qed
qed

lemma failure_finish_is_finish [simp]: "is_finish (failure_finish x)" "is_finish (unfinished b)"
  by (simp_all add: failure_finish_def Let_def unfinished_def)

lemma finish_obeys: "obeys_protocol cs \<Longrightarrow> \<not> list_ex is_finish cs \<Longrightarrow> is_finish c \<Longrightarrow> obeys_protocol (cs @ [c])"
  by (cases c) (simp_all add: obeys_snoc chunk_ok_def)

definition well_finished :: "chunk_stream \<Rightarrow> bool" where
  "well_finished r \<longleftrightarrow> obeys_protocol (fst r) \<and> (list_ex is_finish (fst r) \<and> snd r = None \<or> snd r = Some RCancelled)"

lemma chat_answer_well_finished: "well_finished (chat_answer px u)"
proof (cases "up_refused u")
  case (Some x)
  then show ?thesis using finish_obeys [of "[]" "failure_finish x"] by (simp add: well_finished_def chat_answer_def)
next
  case None
  obtain s out where r: "chat_loop (read_chunks u) = (s, out)" by fastforce
  have inv: "chat_inv out s" using chat_loop_inv [of "read_chunks u"] by (simp add: r)
  have o: "obeys_protocol out" "\<not> list_ex is_finish out" using inv by (auto simp: chat_inv_def open_history_def)
  note c = closing_history [OF inv]
  show ?thesis
    using None r o c finish_obeys [OF o] finish_obeys [OF c] obeys_usage_finish(1) [OF c]
    by (cases "read_ending u")
      (auto simp: well_finished_def chat_answer_def chat_closing_eq Let_def guarded_def usage_chunks_def split: option.split)
qed

end
