(* ===== verification/ResponsesAdapter.thy ===== *)
theory ResponsesAdapter
  imports ResponsesInput ChatProtocol
begin

text \<open>
  The adapter for OpenAI's Responses API (\<open>OpenAIResponsesAdapter.stream\<close> in
  \<open>packages/ftre-llm/src/ftre_llm/adapters/openai_responses.py\<close>).

  The events of the SDK are a datatype, one constructor for each group of event classes the loop tells apart. An item
  has the fields the loop reads, a missing one being the empty string, and its JSON snapshot (empty when it has no
  type). Blocks belong to item ids: the protocol holds as long as the provider uses an id for one kind of item and
  sends nothing for an item that is done.
\<close>

section \<open>The request\<close>

definition reasoning_enabled :: "openai_adapter \<Rightarrow> bool" where
  "reasoning_enabled a \<longleftrightarrow> oa_reasoning_effort a \<noteq> [] \<and> oa_reasoning_effort a \<noteq> ''none''"

definition legacy_reasoning_supported :: "string \<Rightarrow> bool" where
  "legacy_reasoning_supported model \<longleftrightarrow> str_contains ''deepseek'' (py_lower model)"

definition convert_options_of :: "pylib \<Rightarrow> (json \<Rightarrow> string) \<Rightarrow> openai_adapter \<Rightarrow> convert_options" where
  "convert_options_of L dumps a = \<lparr>co_lib = L, co_dumps = dumps, co_reasoning = reasoning_enabled a,
     co_legacy = legacy_reasoning_supported (oa_model a)\<rparr>"

definition responses_params :: "pylib \<Rightarrow> (json \<Rightarrow> string) \<Rightarrow> openai_adapter \<Rightarrow> llm_request \<Rightarrow> jdict result" where
  "responses_params L dumps a q =
     bind_r (normalize_messages (reasoning_enabled a) (wire_messages q)) (\<lambda>ms.
     bind_r (convert_messages (convert_options_of L dumps a) ms) (\<lambda>(instructions, items).
     bind_r (convert_tools (lq_tools q)) (\<lambda>tools.
     bind_r (output_limit L a) (\<lambda>limit.
     let base = [(''model'', JStr (oa_model a)), (''input'', JList (map JObj items)), (''stream'', JBool True),
           (''store'', JBool False), (''tool_choice'', JStr ''auto'')]
     in Inr (set_opt ''tools'' (if tools = [] then None else Some (JList (map JObj tools)))
          (set_opt ''reasoning'' (if reasoning_enabled a then Some (JObj [(''effort'', JStr (oa_reasoning_effort a))]) else None)
          (set_opt ''temperature'' (oa_temperature a)
          (set_opt ''max_output_tokens'' limit (set_opt ''instructions'' (map_option JStr instructions) base)))))))))"

section \<open>Events and items\<close>

record resp_item =
  it_id :: string
  it_type :: string
  it_call_id :: string
  it_name :: string
  it_arguments :: string
  it_raw :: jdict

record resp_result =
  rr_meta :: jdict
  rr_usage :: "jdict option"
  rr_status :: string
  rr_incomplete :: bool

datatype resp_event =
    RespText string string
  | RespReasoning string string
  | RespArguments string string
  | RespAdded resp_item
  | RespDone resp_item
  | RespCompleted resp_result
  | RespOther string

record item_entry =
  ie_kind :: string
  ie_index :: "int option"
  ie_started :: bool
  ie_text :: "string option"
  ie_call_id :: string
  ie_name :: string
  ie_ended :: bool

definition new_item :: "string \<Rightarrow> item_entry" where
  "new_item kind = \<lparr>ie_kind = kind, ie_index = None, ie_started = False,
     ie_text = (if kind = ''tool-call'' then None else Some []), ie_call_id = [], ie_name = [], ie_ended = False\<rparr>"

record resp_state =
  rs_items :: "(string, item_entry) dict"
  rs_next :: int
  rs_usage :: "jdict option"
  rs_kind :: string
  rs_meta :: jdict

definition new_responses :: resp_state where
  "new_responses = \<lparr>rs_items = [], rs_next = 0, rs_usage = None, rs_kind = ''unknown'', rs_meta = []\<rparr>"

type_synonym resp_outcome = "resp_state \<times> chunk list \<times> exn option"

definition item_default :: "string \<Rightarrow> string \<Rightarrow> resp_state \<Rightarrow> item_entry" where
  "item_default kind i s = (case dict_get (rs_items s) i of None \<Rightarrow> new_item kind | Some e \<Rightarrow> e)"

definition put_item :: "string \<Rightarrow> item_entry \<Rightarrow> resp_state \<Rightarrow> resp_state" where
  "put_item i e s = s\<lparr>rs_items := dict_set i e (rs_items s)\<rparr>"

text \<open>The block of an item: its number, and its start when it has not started.\<close>

definition open_item :: "string \<Rightarrow> string \<Rightarrow> resp_state \<Rightarrow> resp_state \<times> chunk list \<times> int \<times> item_entry" where
  "open_item kind i s =
     (let e = item_default kind i s;
          n = (case ie_index e of None \<Rightarrow> rs_next s | Some k \<Rightarrow> k);
          next_n = (if ie_index e = None then rs_next s + 1 else rs_next s);
          e' = e\<lparr>ie_index := Some n, ie_started := True\<rparr>
      in ((put_item i e' s)\<lparr>rs_next := next_n\<rparr>, if ie_started e then [] else [BlockStart n kind], n, e'))"

definition text_event :: "string \<Rightarrow> (int \<Rightarrow> string \<Rightarrow> chunk) \<Rightarrow> string \<Rightarrow> string \<Rightarrow> resp_state \<Rightarrow> resp_outcome" where
  "text_event kind mk i delta s =
     (if delta = [] then (s, [], None)
      else case open_item kind i s of (s', start, n, e) \<Rightarrow>
        (case ie_text e of
           None \<Rightarrow> (s', start, Some KeyError)
         | Some t \<Rightarrow> (put_item i (e\<lparr>ie_text := Some (t @ delta)\<rparr>) s', start @ [mk n delta], None)))"

definition arguments_event :: "string \<Rightarrow> string \<Rightarrow> resp_state \<Rightarrow> resp_outcome" where
  "arguments_event i delta s =
     (if delta = [] then (s, [], None)
      else case open_item ''tool-call'' i s of (s', start, n, e) \<Rightarrow>
        (s', start @ [ToolCallDelta n (ie_call_id e) (ie_name e) delta], None))"

definition added_event :: "resp_item \<Rightarrow> resp_state \<Rightarrow> resp_outcome" where
  "added_event it s =
     (if it_type it = ''function_call''
      then (put_item (it_id it) ((item_default ''tool-call'' (it_id it) s)\<lparr>ie_call_id := it_call_id it, ie_name := it_name it\<rparr>) s, [], None)
      else (s, [], None))"

definition keep_output :: "jdict \<Rightarrow> jdict \<Rightarrow> jdict" where
  "keep_output raw meta =
     (if raw = [] then meta
      else dict_set ''output_items'' (JList ((case dict_get meta ''output_items'' of Some (JList xs) \<Rightarrow> xs | _ \<Rightarrow> []) @ [JObj raw])) meta)"

definition done_event :: "resp_item \<Rightarrow> resp_state \<Rightarrow> resp_outcome" where
  "done_event it s0 =
     (let s = s0\<lparr>rs_meta := keep_output (it_raw it) (rs_meta s0)\<rparr>
      in if it_type it \<noteq> ''function_call'' then (s, [], None)
         else case open_item ''tool-call'' (it_id it) s of (s', start, n, e) \<Rightarrow>
           ((put_item (it_id it) (e\<lparr>ie_ended := True\<rparr>) s')\<lparr>rs_kind :=
               (if (ie_call_id e \<noteq> [] \<or> it_call_id it \<noteq> []) \<and> rs_kind s' = ''unknown'' then ''tool-calls'' else rs_kind s')\<rparr>,
            start @ [BlockEnd n (wire_call (it_call_id it) (it_name it) (it_arguments it))], None))"

definition RESPONSE_META_KEYS :: "string list" where
  "RESPONSE_META_KEYS = [''id'', ''model'', ''created_at'']"

definition completed_event :: "resp_result \<Rightarrow> resp_state \<Rightarrow> resp_outcome" where
  "completed_event r s =
     (s\<lparr>rs_usage := normalize_usage (rr_usage r), rs_meta := take_meta RESPONSE_META_KEYS (rr_meta r) (rs_meta s),
        rs_kind := (if rr_incomplete r then ''max-tokens'' else if rs_kind s = ''tool-calls'' then rs_kind s
                    else if rr_status r = ''completed'' then ''stop'' else rs_kind s)\<rparr>, [], None)"

definition resp_step :: "resp_event \<Rightarrow> resp_state \<Rightarrow> resp_outcome" where
  "resp_step ev s =
     (case ev of
        RespText i d \<Rightarrow> text_event ''text'' TextDelta i d s
      | RespReasoning i d \<Rightarrow> text_event ''reasoning'' ReasoningDelta i d s
      | RespArguments i d \<Rightarrow> arguments_event i d s
      | RespAdded it \<Rightarrow> added_event it s
      | RespDone it \<Rightarrow> done_event it s
      | RespCompleted r \<Rightarrow> completed_event r s
      | RespOther c \<Rightarrow> (s, [], None))"

fun resp_loop :: "resp_event list \<Rightarrow> resp_state \<Rightarrow> resp_outcome" where
  "resp_loop [] s = (s, [], None)"
| "resp_loop (ev # evs) s =
     (case resp_step ev s of
        (s', out, Some x) \<Rightarrow> (s', out, Some x)
      | (s', out, None) \<Rightarrow> (case resp_loop evs s' of (s'', out', x) \<Rightarrow> (s'', out @ out', x)))"

section \<open>The end of the stream\<close>

definition item_end :: "item_entry \<Rightarrow> (int \<times> jdict) option" where
  "item_end e =
     (if ie_kind e \<in> {''text'', ''reasoning''} \<and> ie_started e \<and> \<not> ie_ended e
      then map_option (\<lambda>n. (n, if ie_kind e = ''text'' then wire_text (opt_str (ie_text e)) else wire_thinking (opt_str (ie_text e)))) (ie_index e)
      else None)"

definition item_ends :: "resp_state \<Rightarrow> (int \<times> jdict) list" where
  "item_ends s = List.map_filter (item_end \<circ> snd) (rs_items s)"

definition resp_finish :: "resp_state \<Rightarrow> finish_reason" where
  "resp_finish s =
     (if rs_kind s \<in> {''stop'', ''tool-calls'', ''max-tokens''}
      then \<lparr>fr_kind = rs_kind s, fr_failure = None, fr_raw = rs_kind s, fr_response_metadata = rs_meta s\<rparr>
      else \<lparr>fr_kind = ''error'',
            fr_failure = Some \<lparr>lf_message = ''responses stream ended with status '' @ [CHR 0x27] @ rs_kind s @ [CHR 0x27],
              lf_code = ''UNKNOWN_FINISH''\<rparr>,
            fr_raw = rs_kind s, fr_response_metadata = rs_meta s\<rparr>)"

definition resp_closing :: "resp_state \<Rightarrow> chunk list" where
  "resp_closing s = map (\<lambda>ib. BlockEnd (fst ib) (snd ib)) (item_ends s) @ usage_chunks (rs_usage s) @ [FinishChunk (resp_finish s)]"

definition resp_answer :: "(exn \<Rightarrow> provider_exn) \<Rightarrow> resp_event upstream \<Rightarrow> chunk_stream" where
  "resp_answer px u =
     (case up_refused u of
        Some x \<Rightarrow> ([failure_finish x], None)
      | None \<Rightarrow>
          (case resp_loop (read_chunks u) new_responses of
             (s, out, Some x) \<Rightarrow> (guarded px (was_cancelled u) (out, Some x), None)
           | (s, out, None) \<Rightarrow>
               (case read_ending u of
                  Failed x \<Rightarrow> (out @ [failure_finish x], None)
                | Killed \<Rightarrow> (out, Some RCancelled)
                | Exhausted \<Rightarrow> (guarded px (was_cancelled u) (out @ resp_closing s, None), None))))"

definition responses_adapter :: "resp_event openai_sdk \<Rightarrow> (json \<Rightarrow> string) \<Rightarrow> openai_adapter \<Rightarrow> adapter" where
  "responses_adapter K dumps a q =
     (case responses_params (sk_lib K) dumps a q of
        Inl e \<Rightarrow> ([failure_finish (sk_raise K e)], None)
      | Inr ps \<Rightarrow> resp_answer (sk_raise K) (sk_create K ps))"

section \<open>One kind of item for each id\<close>

text \<open>What an event says of an item: its id, its kind and whether it is done.\<close>

definition event_item :: "resp_event \<Rightarrow> (string \<times> string \<times> bool) option" where
  "event_item ev =
     (case ev of
        RespText i d \<Rightarrow> if d = [] then None else Some (i, ''text'', False)
      | RespReasoning i d \<Rightarrow> if d = [] then None else Some (i, ''reasoning'', False)
      | RespArguments i d \<Rightarrow> if d = [] then None else Some (i, ''tool-call'', False)
      | RespAdded it \<Rightarrow> if it_type it = ''function_call'' then Some (it_id it, ''tool-call'', False) else None
      | RespDone it \<Rightarrow> if it_type it = ''function_call'' then Some (it_id it, ''tool-call'', True) else None
      | _ \<Rightarrow> None)"

definition item_fresh :: "(string \<times> string \<times> bool) list \<Rightarrow> string \<times> string \<times> bool \<Rightarrow> bool" where
  "item_fresh seen x = list_all (\<lambda>y. fst y = fst x \<longrightarrow> fst (snd y) = fst (snd x) \<and> \<not> snd (snd y)) seen"

fun items_apart :: "(string \<times> string \<times> bool) list \<Rightarrow> resp_event list \<Rightarrow> bool" where
  "items_apart seen [] \<longleftrightarrow> True"
| "items_apart seen (ev # evs) \<longleftrightarrow>
     (case event_item ev of None \<Rightarrow> items_apart seen evs | Some x \<Rightarrow> item_fresh seen x \<and> items_apart (x # seen) evs)"

text \<open>Every call that was opened is done.\<close>

definition calls_done :: "resp_event list \<Rightarrow> bool" where
  "calls_done evs \<longleftrightarrow>
     (let seen = List.map_filter event_item evs
      in list_all (\<lambda>x. fst (snd x) \<noteq> ''tool-call'' \<or> list_ex (\<lambda>y. fst y = fst x \<and> snd (snd y)) seen) seen)"

end
