(* ===== verification/ChatAnswer.thy ===== *)
theory ChatAnswer
  imports ChatProtocol
begin

text \<open>
  What a complete answer is assembled to: the text, the reasoning and the tool calls the provider said, read off its
  chunks without the adapter (\<open>said_blocks\<close>); and the answers the adapter does not carry over.
\<close>

section \<open>What the provider said\<close>

definition first_choices :: "chat_chunk list \<Rightarrow> chat_choice list" where
  "first_choices cs = List.map_filter (\<lambda>c. case hk_choices c of [] \<Rightarrow> None | ch # _ \<Rightarrow> Some ch) cs"

definition said_reasoning :: "chat_chunk list \<Rightarrow> string" where
  "said_reasoning cs = concat (map ch_reasoning (first_choices cs))"

definition said_text :: "chat_chunk list \<Rightarrow> string" where
  "said_text cs = concat (map ch_content (first_choices cs))"

definition said_calls :: "chat_chunk list \<Rightarrow> tc_delta list" where
  "said_calls cs = concat (map ch_calls (first_choices cs))"

text \<open>The pieces of the call with an index; the first piece carries its id and name.\<close>

definition pieces :: "int \<Rightarrow> tc_delta list \<Rightarrow> tc_delta list" where
  "pieces w ds = filter (\<lambda>d. td_index d = Some w) ds"

definition args_of :: "tc_delta list \<Rightarrow> int \<Rightarrow> string" where
  "args_of ds w = concat (map td_arguments (pieces w ds))"

definition call_indices :: "tc_delta list \<Rightarrow> int list" where
  "call_indices ds = dedupe (List.map_filter td_index ds)"

definition call_said :: "tc_delta list \<Rightarrow> int \<Rightarrow> jdict" where
  "call_said ds w = (case pieces w ds of [] \<Rightarrow> [] | d # _ \<Rightarrow> wire_call (td_id d) (td_name d) (args_of ds w))"

text \<open>
  The documented shape of a streamed tool call: every piece has its index, the first one the id and the name, the
  later ones arguments alone.
\<close>

fun documented :: "int list \<Rightarrow> tc_delta list \<Rightarrow> bool" where
  "documented seen [] \<longleftrightarrow> True"
| "documented seen (d # ds) \<longleftrightarrow>
     (case td_index d of
        None \<Rightarrow> False
      | Some w \<Rightarrow> (if w \<in> set seen then td_id d = [] \<and> td_name d = [] else td_id d \<noteq> [] \<and> td_name d \<noteq> []) \<and>
          documented (w # seen) ds)"

definition said_blocks :: "chat_chunk list \<Rightarrow> jdict list" where
  "said_blocks cs =
     (if said_reasoning cs = [] then [] else [wire_thinking (said_reasoning cs)]) @
     (if said_text cs = [] then [] else [wire_text (said_text cs)]) @
     map (call_said (said_calls cs)) (call_indices (said_calls cs))"

definition said_kind :: "chat_chunk list \<Rightarrow> string" where
  "said_kind cs =
     (let raw = fold (\<lambda>c f. str_or (ch_finish c) f) (first_choices cs) ''unknown''
      in case dict_get FINISH_KIND_MAP raw of Some k \<Rightarrow> k | None \<Rightarrow> if said_blocks cs = [] then ''error'' else ''stop'')"

text \<open>An answer that is complete: not refused, neither broken off nor cancelled, its calls of the documented shape and none without arguments.\<close>

definition complete_answer :: "chat_chunk upstream \<Rightarrow> bool" where
  "complete_answer u \<longleftrightarrow> up_refused u = None \<and> up_ending u = Exhausted \<and> up_cancel u = None \<and>
     documented [] (said_calls (up_chunks u)) \<and>
     list_all (\<lambda>w. args_of (said_calls (up_chunks u)) w \<noteq> []) (call_indices (said_calls (up_chunks u)))"

section \<open>The accumulator under the documented shape\<close>

lemma pieces_simps [simp]: "pieces w [] = []" "pieces w (ds @ [d]) = pieces w ds @ (if td_index d = Some w then [d] else [])"
  by (simp_all add: pieces_def)

lemma args_of_simps [simp]: "args_of [] w = []" "args_of (ds @ [d]) w = args_of ds w @ (if td_index d = Some w then td_arguments d else [])"
  by (simp_all add: args_of_def)

lemma documented_snoc:
  "documented seen (ds @ [d]) \<longleftrightarrow> documented seen ds \<and>
     (case td_index d of None \<Rightarrow> False
      | Some w \<Rightarrow> if w \<in> set seen \<or> pieces w ds \<noteq> [] then td_id d = [] \<and> td_name d = [] else td_id d \<noteq> [] \<and> td_name d \<noteq> [])"
  by (induction seen ds rule: documented.induct) (auto simp: pieces_def split: option.splits)

definition item_of :: "tc_delta list \<Rightarrow> int \<Rightarrow> tool_entry option" where
  "item_of ds w = (case pieces w ds of [] \<Rightarrow> None
     | d # _ \<Rightarrow> Some \<lparr>tn_id = td_id d, tn_name = td_name d, tn_arguments = args_of ds w, tn_emitted = length (args_of ds w)\<rparr>)"

lemma item_named: "documented [] ds \<Longrightarrow> item_of ds w = Some e \<Longrightarrow> tn_id e \<noteq> [] \<and> tn_name e \<noteq> []"
proof (induction ds arbitrary: e rule: rev_induct)
  case (snoc d ds)
  then show ?case
    by (cases "pieces w ds") (auto simp: documented_snoc item_of_def split: option.splits if_splits)
qed (simp add: item_of_def)

lemma feed_documented:
  assumes doc: "documented [] (ds @ [d])" and items: "\<forall>w. dict_get items w = item_of ds w" and w: "td_index d = Some w"
  obtains e where "item_of (ds @ [d]) w = Some e" and "tn_arguments e = args_of ds w @ td_arguments d"
    and "tn_id e = tn_id (grow_entry d (entry_of items w))" and "tn_name e = tn_name (grow_entry d (entry_of items w))"
    and "feed_call items d = (dict_set w e items,
      if td_arguments d = [] then None else Some (w, tn_id e, tn_name e, td_arguments d))"
proof -
  define e where "e = the (item_of (ds @ [d]) w)"
  have it: "dict_get items w = item_of ds w" using items by blast
  show ?thesis
  proof (cases "pieces w ds")
    case Nil
    then have a: "args_of ds w = []" by (simp add: args_of_def)
    have e: "e = \<lparr>tn_id = td_id d, tn_name = td_name d, tn_arguments = td_arguments d, tn_emitted = length (td_arguments d)\<rparr>"
      using Nil w a by (simp add: e_def item_of_def)
    have "td_id d \<noteq> []" "td_name d \<noteq> []" using doc Nil w by (simp_all add: documented_snoc)
    then show ?thesis using Nil w a it
      by (intro that [of e])
        (simp_all add: e item_of_def feed_call_def wire_index_def entry_of_def new_entry_def grow_entry_def Let_def)
  next
    case (Cons d0 rest)
    have e: "e = \<lparr>tn_id = td_id d0, tn_name = td_name d0, tn_arguments = args_of ds w @ td_arguments d,
        tn_emitted = length (args_of ds w @ td_arguments d)\<rparr>"
      using Cons w by (simp add: e_def item_of_def)
    have "td_id d = []" "td_name d = []" using doc Cons w by (simp_all add: documented_snoc)
    moreover have "td_id d0 \<noteq> []" using item_named [of ds w] doc Cons by (auto simp: documented_snoc item_of_def)
    ultimately show ?thesis using Cons w it
      by (intro that [of e]) (simp_all add: e item_of_def feed_call_def wire_index_def entry_of_def grow_entry_def Let_def)
  qed
qed

section \<open>What was told so far\<close>

definition told_texts :: "string \<Rightarrow> string list \<Rightarrow> int option \<Rightarrow> chunk list \<Rightarrow> bool" where
  "told_texts t parts i cs \<longleftrightarrow> concat parts = t \<and> (parts = [] \<longleftrightarrow> t = []) \<and> (i = None \<longleftrightarrow> t = []) \<and>
     (\<forall>k. i = Some k \<longrightarrow> all_pieces (text_piece k) cs = t)"

definition told_calls :: "tc_delta list \<Rightarrow> chunk list \<Rightarrow> chat_state \<Rightarrow> bool" where
  "told_calls ds cs s \<longleftrightarrow> (\<forall>w. dict_get (hs_items s) w = item_of ds w) \<and>
     (\<forall>w. dict_get (hs_tools s) w = None \<longleftrightarrow> args_of ds w = []) \<and>
     (\<forall>w i e. dict_get (hs_tools s) w = Some i \<longrightarrow> item_of ds w = Some e \<longrightarrow>
        all_pieces (argument_piece i) cs = tn_arguments e \<and> last_piece (call_id_piece i) cs = tn_id e \<and>
        last_piece (name_piece i) cs = tn_name e)"

definition told :: "string \<Rightarrow> string \<Rightarrow> tc_delta list \<Rightarrow> chunk list \<Rightarrow> chat_state \<Rightarrow> bool" where
  "told r t ds cs s \<longleftrightarrow> chat_inv cs s \<and> documented [] ds \<and> told_texts r (hs_reasoning s) (hs_reasoning_index s) cs \<and>
     told_texts t (hs_text s) (hs_text_index s) cs \<and> told_calls ds cs s"

lemma ahead: "chat_inv cs s \<Longrightarrow> untouched cs (hs_next s)"
  by (rule untouched_ahead) (auto simp: chat_inv_def started_def)

lemma text_reasoning_apart: "chat_inv cs s \<Longrightarrow> hs_reasoning_index s = Some i \<Longrightarrow> hs_text_index s \<noteq> Some i"
  using held_distinct [of cs s] by (auto simp: held_def)

lemma index_before:
  assumes "chat_inv cs s"
  shows "hs_reasoning_index s = Some i \<Longrightarrow> i \<noteq> hs_next s" and "hs_text_index s = Some i \<Longrightarrow> i \<noteq> hs_next s"
    and "dict_get (hs_tools s) w = Some i \<Longrightarrow> i \<noteq> hs_next s"
proof -
  have "(i, t) \<in> set (held s) \<Longrightarrow> i \<noteq> hs_next s" for t
    using chat_inv_held [OF assms] assms by (auto simp: in_block_table started_def chat_inv_def)
  then show "hs_reasoning_index s = Some i \<Longrightarrow> i \<noteq> hs_next s" and "hs_text_index s = Some i \<Longrightarrow> i \<noteq> hs_next s"
    and "dict_get (hs_tools s) w = Some i \<Longrightarrow> i \<noteq> hs_next s"
    using tool_held by (fastforce simp: held_def)+
qed

lemma pieces_append [simp]: "all_pieces f (xs @ ys) = all_pieces f xs @ all_pieces f ys"
  "last_piece f (xs @ c # ys) = last_piece f ((xs @ [c]) @ ys)"
  by (simp_all add: all_pieces_def)

lemma reasoning_part_told:
  assumes "told r t ds cs s"
  shows "told (r @ x) t ds (cs @ snd (reasoning_part x s)) (fst (reasoning_part x s))"
proof -
  have inv: "chat_inv cs s" using assms by (simp add: told_def)
  have inv': "chat_inv (cs @ snd (reasoning_part x s)) (fst (reasoning_part x s))"
    using reasoning_part_keeps [of x] inv by (simp add: keeps_inv_def)
  show ?thesis
    using assms inv' ahead [OF inv] text_reasoning_apart [OF inv] index_before [OF inv]
    by (cases "x = []"; cases "hs_reasoning_index s")
      (auto simp: told_def reasoning_part_def told_texts_def told_calls_def untouched_def all_pieces_def last_piece_def)
qed

lemma content_part_told:
  assumes "told r t ds cs s"
  shows "told r (t @ x) ds (cs @ snd (content_part x s)) (fst (content_part x s))"
proof -
  have inv: "chat_inv cs s" using assms by (simp add: told_def)
  have inv': "chat_inv (cs @ snd (content_part x s)) (fst (content_part x s))"
    using content_part_keeps [of x] inv by (simp add: keeps_inv_def)
  show ?thesis
    using assms inv' ahead [OF inv] text_reasoning_apart [OF inv] index_before [OF inv]
    by (cases "x = []"; cases "hs_text_index s")
      (auto simp: told_def content_part_def told_texts_def told_calls_def untouched_def all_pieces_def last_piece_def)
qed

lemma item_other: "td_index d \<noteq> Some w \<Longrightarrow> item_of (ds @ [d]) w = item_of ds w"
  by (cases "pieces w ds") (simp_all add: item_of_def)

lemma told_tool: "told_calls ds cs s \<Longrightarrow> dict_get (hs_tools s) w = Some i \<Longrightarrow> args_of ds w \<noteq> []"
  unfolding told_calls_def by (metis option.distinct(1))

lemma tools_apart:
  assumes "chat_inv cs s" "dict_get (hs_tools s) w = Some i" "dict_get (hs_tools s) w' = Some i"
  shows "w = w'"
  using inj_onD [of snd "set (hs_tools s)" "(w, i)" "(w', i)"] tools_distinct [OF assms(1)] assms(2,3)
  by (auto dest!: map_of_SomeD simp: distinct_map)

lemma item_args: "item_of ds w = Some e \<Longrightarrow> tn_arguments e = args_of ds w"
  by (auto simp: item_of_def split: list.splits)

lemma args_item: "args_of ds w \<noteq> [] \<Longrightarrow> \<exists>e. item_of ds w = Some e"
  by (auto simp: item_of_def args_of_def split: list.split)

lemma item_stays: "item_of ds w = Some e0 \<Longrightarrow> item_of (ds @ [d]) w = Some e \<Longrightarrow> tn_id e = tn_id e0 \<and> tn_name e = tn_name e0"
  by (cases "pieces w ds") (auto simp: item_of_def split: if_splits)

lemma call_part_told:
  assumes told: "told r t ds cs s" and doc: "documented [] (ds @ [d])"
  shows "told r t (ds @ [d]) (cs @ snd (call_part d s)) (fst (call_part d s))"
proof -
  have inv: "chat_inv cs s" using told by (simp add: told_def)
  have inv': "chat_inv (cs @ snd (call_part d s)) (fst (call_part d s))"
    using call_part_keeps [of d] inv by (simp add: keeps_inv_def)
  obtain w where w: "td_index d = Some w" using doc by (auto simp: documented_snoc split: option.splits)
  have items: "\<forall>w. dict_get (hs_items s) w = item_of ds w" using told by (simp add: told_def told_calls_def)
  obtain e where e: "item_of (ds @ [d]) w = Some e" "tn_arguments e = args_of ds w @ td_arguments d"
    and f: "feed_call (hs_items s) d = (dict_set w e (hs_items s),
      if td_arguments d = [] then None else Some (w, tn_id e, tn_name e, td_arguments d))"
    using feed_documented [OF doc items w] by metis
  have other: "item_of (ds @ [d]) w' = item_of ds w'" if "w' \<noteq> w" for w' using that w by (simp add: item_other)
  have named: "tn_id e \<noteq> []" "tn_name e \<noteq> []" using item_named [OF doc e(1)] by simp_all
  have texts: "told_texts r (hs_reasoning s) (hs_reasoning_index s) cs" "told_texts t (hs_text s) (hs_text_index s) cs"
    and calls: "told_calls ds cs s" using told by (simp_all add: told_def)
  show ?thesis
  proof (cases "td_arguments d = []")
    case True
    have "told_calls (ds @ [d]) cs (s\<lparr>hs_items := dict_set w e (hs_items s)\<rparr>)"
      unfolding told_calls_def
    proof (intro conjI allI impI)
      fix w' show "dict_get (hs_items (s\<lparr>hs_items := dict_set w e (hs_items s)\<rparr>)) w' = item_of (ds @ [d]) w'"
        using items e other by simp
      show "(dict_get (hs_tools (s\<lparr>hs_items := dict_set w e (hs_items s)\<rparr>)) w' = None) = (args_of (ds @ [d]) w' = [])"
        using calls True by (simp add: told_calls_def)
      fix i e' assume g: "dict_get (hs_tools (s\<lparr>hs_items := dict_set w e (hs_items s)\<rparr>)) w' = Some i"
        and e': "item_of (ds @ [d]) w' = Some e'"
      then have "args_of ds w' \<noteq> []" using told_tool [OF calls] by simp
      then obtain e0 where e0: "item_of ds w' = Some e0" using args_item by blast
      show "all_pieces (argument_piece i) cs = tn_arguments e'" "last_piece (call_id_piece i) cs = tn_id e'"
        "last_piece (name_piece i) cs = tn_name e'"
        using calls g e0 item_stays [OF e0 e'] item_args [OF e0] item_args [OF e'] True by (auto simp: told_calls_def)
    qed
    then show ?thesis using told inv' doc f True texts by (simp add: told_def call_part_def)
  next
    case False
    let ?i = "case dict_get (hs_tools s) w of None \<Rightarrow> hs_next s | Some i \<Rightarrow> i"
    let ?c = "ToolCallDelta ?i (tn_id e) (tn_name e) (td_arguments d)"
    let ?start = "if dict_get (hs_tools s) w = None then [BlockStart (hs_next s) ''tool-call''] else []"
    let ?s = "fst (call_part d s)"
    have out: "snd (call_part d s) = ?start @ [?c]" using f False by (auto simp: call_part_def split: option.split)
    have tools: "dict_get (hs_tools ?s) w' = (if w' = w then Some ?i else dict_get (hs_tools s) w')" for w'
      using f False by (auto simp: call_part_def split: option.split)
    have rest: "hs_items ?s = dict_set w e (hs_items s)" "hs_reasoning ?s = hs_reasoning s" "hs_text ?s = hs_text s"
      "hs_reasoning_index ?s = hs_reasoning_index s" "hs_text_index ?s = hs_text_index s"
      using f False by (auto simp: call_part_def split: option.split)
    have t: "all_pieces (text_piece k) (cs @ ?start @ [?c]) = all_pieces (text_piece k) cs" for k
      by (simp add: all_pieces_def)
    have pa: "all_pieces (argument_piece k) (cs @ ?start @ [?c]) = all_pieces (argument_piece k) cs @ (if k = ?i then td_arguments d else [])" for k
      by (simp add: all_pieces_def)
    have pi: "last_piece (call_id_piece k) (cs @ ?start @ [?c]) = (if k = ?i then tn_id e else last_piece (call_id_piece k) cs)"
      "last_piece (name_piece k) (cs @ ?start @ [?c]) = (if k = ?i then tn_name e else last_piece (name_piece k) cs)" for k
      using named by (simp_all add: last_piece_def)
    have old: "all_pieces (argument_piece ?i) cs = args_of ds w"
    proof (cases "dict_get (hs_tools s) w")
      case None
      then have "args_of ds w = []" using calls unfolding told_calls_def by blast
      then show ?thesis using ahead [OF inv] None by (simp add: untouched_def)
    next
      case (Some i)
      then have "args_of ds w \<noteq> []" by (rule told_tool [OF calls])
      then obtain e0 where "item_of ds w = Some e0" using args_item by blast
      then show ?thesis using calls Some item_args by (auto simp: told_calls_def)
    qed
    have "told_calls (ds @ [d]) (cs @ ?start @ [?c]) ?s"
      unfolding told_calls_def tools rest pa pi
    proof (intro conjI allI impI)
      fix w' show "dict_get (dict_set w e (hs_items s)) w' = item_of (ds @ [d]) w'" using items e other by simp
      show "((if w' = w then Some ?i else dict_get (hs_tools s) w') = None) = (args_of (ds @ [d]) w' = [])"
        using calls False w by (simp add: told_calls_def)
      fix i e' assume g: "(if w' = w then Some ?i else dict_get (hs_tools s) w') = Some i" and e': "item_of (ds @ [d]) w' = Some e'"
      have apart: "i \<noteq> ?i" if "w' \<noteq> w"
        using that g index_before(3) [OF inv, of w' i] tools_apart [OF inv, of w' i w] by (auto split: option.split)
      show "all_pieces (argument_piece i) cs @ (if i = ?i then td_arguments d else []) = tn_arguments e'"
        "(if i = ?i then tn_id e else last_piece (call_id_piece i) cs) = tn_id e'"
        "(if i = ?i then tn_name e else last_piece (name_piece i) cs) = tn_name e'"
        using g e' e old apart other calls by (cases "w' = w"; auto simp: told_calls_def)+
    qed
    moreover have "told_texts r (hs_reasoning ?s) (hs_reasoning_index ?s) (cs @ ?start @ [?c])"
      "told_texts t (hs_text ?s) (hs_text_index ?s) (cs @ ?start @ [?c])"
      using texts unfolding told_texts_def rest t by auto
    ultimately show ?thesis using inv' doc unfolding told_def out by blast
  qed
qed

section \<open>The whole stream\<close>

lemma documented_prefix: "documented seen (ds @ es) \<Longrightarrow> documented seen ds"
  by (induction seen ds rule: documented.induct) (auto split: option.splits)

lemma then_part_eq: "then_part p r = (fst (p (fst r)), snd r @ snd (p (fst r)))"
  by (simp add: then_part_def split_beta)

lemma calls_told:
  "told r t ds (snd q) (fst q) \<Longrightarrow> documented [] (ds @ es) \<Longrightarrow>
   told r t (ds @ es) (snd (fold then_part (map call_part es) q)) (fst (fold then_part (map call_part es) q))"
proof (induction es arbitrary: ds q)
  case (Cons d es)
  have "documented [] (ds @ [d])" using Cons.prems(2) documented_prefix [of "[]" "ds @ [d]" es] by simp
  then have "told r t (ds @ [d]) (snd (then_part (call_part d) q)) (fst (then_part (call_part d) q))"
    using call_part_told [OF Cons.prems(1)] by (simp add: then_part_eq)
  then show ?case using Cons.IH [of "ds @ [d]"] Cons.prems(2) by simp
qed simp

lemma choice_told:
  assumes "told r t ds (snd q) (fst q)" and "documented [] (ds @ ch_calls c)"
  shows "told (r @ ch_reasoning c) (t @ ch_content c) (ds @ ch_calls c)
    (snd (fold then_part (choice_parts c) q)) (fst (fold then_part (choice_parts c) q))"
  using calls_told [OF _ assms(2)] content_part_told [OF reasoning_part_told [OF assms(1)]]
  by (simp add: choice_parts_def then_part_eq)

lemma told_notes [simp]:
  "told r t ds cs (note_chunk c s) \<longleftrightarrow> told r t ds cs s" "told r t ds cs (note_finish f s) \<longleftrightarrow> told r t ds cs s"
  by (simp_all add: told_def told_calls_def) (simp_all add: note_chunk_def note_finish_def)

lemma said_simps [simp]:
  "first_choices (cs @ [c]) = first_choices cs @ (case hk_choices c of [] \<Rightarrow> [] | ch # _ \<Rightarrow> [ch])"
  "first_choices [] = []"
  by (auto simp: first_choices_def List.map_filter_def split: list.split)

lemma loop_told:
  "documented [] (said_calls cs) \<Longrightarrow>
   told (said_reasoning cs) (said_text cs) (said_calls cs) (snd (chat_loop cs)) (fst (chat_loop cs)) \<and>
   hs_finish (fst (chat_loop cs)) = fold (\<lambda>c f. str_or (ch_finish c) f) (first_choices cs) ''unknown''"
proof (induction cs rule: rev_induct)
  case Nil
  have "told_calls [] [] new_chat" by (simp add: told_calls_def new_chat_def item_of_def)
  then show ?case using new_chat_inv
    by (simp add: chat_loop_def told_def told_texts_def said_reasoning_def said_text_def said_calls_def)
      (simp add: new_chat_def)
next
  case (snoc c cs)
  have pre: "documented [] (said_calls cs)"
    using snoc.prems documented_prefix [of "[]" "said_calls cs"] by (simp add: said_calls_def)
  have finish: "hs_finish (fst (fold then_part ps q)) = hs_finish (fst q)"
    if "\<forall>p \<in> set ps. \<forall>s. hs_finish (fst (p s)) = hs_finish s" for ps q
    using that by (induction ps arbitrary: q) (simp_all add: then_part_eq)
  have keep: "\<forall>p \<in> set (choice_parts ch). \<forall>s. hs_finish (fst (p s)) = hs_finish s" for ch
    by (auto simp: choice_parts_def reasoning_part_def content_part_def call_part_def split: option.split prod.split)
  have step: "chat_loop (cs @ [c]) = chat_step c (chat_loop cs)" by (simp add: chat_loop_def)
  show ?case
  proof (cases "hk_choices c")
    case Nil
    then show ?thesis using snoc.IH [OF pre]
      by (simp add: step chat_step_eq said_reasoning_def said_text_def said_calls_def) (simp add: note_chunk_def)
  next
    case (Cons ch rest)
    have "documented [] (said_calls cs @ ch_calls ch)" using snoc.prems Cons by (simp add: said_calls_def)
    then show ?thesis using snoc.IH [OF pre] Cons finish [OF keep]
        choice_told [of _ _ _ "(note_chunk c (fst (chat_loop cs)), snd (chat_loop cs))"]
      by (simp add: step chat_step_eq Let_def said_reasoning_def said_text_def said_calls_def)
        (simp add: note_finish_def note_chunk_def)
  qed
qed

lemma open_of_silent: "\<forall>c \<in> set ys. silent_at i c \<Longrightarrow> open_of (cs @ ys) i = open_of cs i"
  by (induction ys rule: rev_induct) (simp_all add: silent_open_of flip: append_assoc)

lemma silent_ends: "silent_at i (end_chunk ib)" "silent_at i (UsageChunk u)" "silent_at i (FinishChunk r)"
  by (simp_all add: silent_at_def end_chunk_def)

section \<open>The assembled answer\<close>

lemma call_ends_all:
  assumes "\<forall>(w, e) \<in> set es. tn_id e \<noteq> [] \<and> tn_name e \<noteq> [] \<and> dict_get tools w \<noteq> None"
  shows "call_ends tools es = map (\<lambda>(w, e). (the (dict_get tools w), wire_call (tn_id e) (tn_name e) (tn_arguments e))) es"
    and "snd (close_calls tools es) = None"
  using assms by (induction es) (auto split: prod.splits)

lemma item_indexed: "item_of ds w \<noteq> None \<longleftrightarrow> w \<in> set (call_indices ds)"
proof -
  have "w \<in> set (call_indices ds) \<longleftrightarrow> pieces w ds \<noteq> []"
    by (induction ds) (auto simp: call_indices_def pieces_def List.map_filter_simps split: option.split)
  then show ?thesis by (simp add: item_of_def split: list.split)
qed

lemma item_said: "item_of ds w = Some e \<Longrightarrow> call_said ds w = wire_call (tn_id e) (tn_name e) (tn_arguments e)"
  by (auto simp: item_of_def call_said_def split: list.splits)

lemma finalize_types:
  "ob_type b = ''reasoning'' \<Longrightarrow> finalize_block b = wire_thinking (ob_text b)"
  "ob_type b = ''text'' \<Longrightarrow> finalize_block b = wire_text (ob_text b)"
  "ob_type b = ''tool-call'' \<Longrightarrow> finalize_block b = wire_call (ob_call_id b) (ob_name b) (ob_arguments b)"
  by (simp_all add: finalize_block_def wire_thinking_def wire_text_def wire_call_def)

definition complete_calls :: "tc_delta list \<Rightarrow> bool" where
  "complete_calls ds \<longleftrightarrow> documented [] ds \<and> list_all (\<lambda>w. args_of ds w \<noteq> []) (call_indices ds)"

lemma entry_closed:
  assumes told: "told r t ds cs s" and full: "complete_calls ds" and e: "(w, e) \<in> set (hs_items s)"
  shows "item_of ds w = Some e" "tn_id e \<noteq> []" "tn_name e \<noteq> []" "dict_get (hs_tools s) w \<noteq> None"
proof -
  have wf: "dict_wf (hs_items s)" using told by (simp add: told_def chat_inv_def)
  show it: "item_of ds w = Some e" using mem_dict_get [OF wf e] told by (simp add: told_def told_calls_def)
  show "tn_id e \<noteq> []" "tn_name e \<noteq> []" using item_named [OF _ it] told by (simp_all add: told_def)
  have "args_of ds w \<noteq> []" using full it item_indexed [of ds w] by (simp add: complete_calls_def list_all_iff)
  then show "dict_get (hs_tools s) w \<noteq> None" using told unfolding told_def told_calls_def by blast
qed

lemma tools_indexed:
  assumes told: "told r t ds cs s" and full: "complete_calls ds"
  shows "mset (map fst (hs_tools s)) = mset (call_indices ds)"
proof -
  have inv: "chat_inv cs s" using told by (simp add: told_def)
  have "w \<in> fst ` set (hs_tools s) \<longleftrightarrow> w \<in> set (call_indices ds)" for w
  proof -
    have "dict_get (hs_tools s) w = None \<longleftrightarrow> args_of ds w = []"
      using told unfolding told_def told_calls_def by blast
    then have "w \<in> fst ` set (hs_tools s) \<longleftrightarrow> args_of ds w \<noteq> []" by (metis map_of_eq_None_iff)
    also have "\<dots> \<longleftrightarrow> w \<in> set (call_indices ds)"
      using full item_indexed [of ds w] args_item [of ds w] by (auto simp: complete_calls_def list_all_iff)
    finally show ?thesis .
  qed
  then have "set (map fst (hs_tools s)) = set (call_indices ds)" by auto
  moreover have "distinct (map fst (hs_tools s))" "distinct (call_indices ds)" using inv by (simp_all add: chat_inv_def call_indices_def)
  ultimately show ?thesis by (metis set_eq_iff_mset_eq_distinct)
qed

lemma all_held_end:
  assumes told: "told r t ds cs s" and full: "complete_calls ds"
  shows "fst ` set (held s) \<subseteq> fst ` set (all_ends s)" and "snd (close_calls (hs_tools s) (sorted_entries (hs_items s))) = None"
proof -
  have all: "\<forall>(w, e) \<in> set (sorted_entries (hs_items s)). tn_id e \<noteq> [] \<and> tn_name e \<noteq> [] \<and> dict_get (hs_tools s) w \<noteq> None"
    using entry_closed [OF told full] by (auto simp: sorted_entries_def)
  show "snd (close_calls (hs_tools s) (sorted_entries (hs_items s))) = None" by (rule call_ends_all(2) [OF all])
  have "i \<in> fst ` set (call_ends (hs_tools s) (sorted_entries (hs_items s)))" if wi: "(w, i) \<in> set (hs_tools s)" for w i
  proof -
    have wf: "dict_wf (hs_tools s)" and "w \<in> fst ` set (hs_items s)" using told wi by (force simp: told_def chat_inv_def)+
    then obtain e where "(w, e) \<in> set (sorted_entries (hs_items s))" by (auto simp: sorted_entries_def)
    then show ?thesis using mem_dict_get [OF wf wi] unfolding call_ends_all(1) [OF all] by force
  qed
  then show "fst ` set (held s) \<subseteq> fst ` set (all_ends s)"
    by (cases "hs_reasoning_index s"; cases "hs_text_index s") (auto simp: held_def all_ends_def text_ends_def image_Un)
qed

lemma held_blocks:
  assumes told: "told r t ds cs s" and full: "complete_calls ds"
  shows "mset (map (\<lambda>k. finalize_block (open_of cs (int k))) [0..<length (block_starts cs)]) =
    mset ((if r = [] then [] else [wire_thinking r]) @ (if t = [] then [] else [wire_text t]) @ map (call_said ds) (call_indices ds))"
proof -
  have inv: "chat_inv cs s" using told by (simp add: told_def)
  let ?f = "\<lambda>it. finalize_block (open_of cs (fst it))"
  have type: "ob_type (open_of cs i) = k" if "(i, k) \<in> set (held s)" for i k
    using that chat_inv_held [OF inv] by (simp add: in_block_table open_of_def)
  have "mset (map (\<lambda>k. finalize_block (open_of cs (int k))) [0..<length (block_starts cs)]) = image_mset ?f (mset (block_table cs))"
    by (simp add: block_table_def comp_def flip: mset_map)
  also have "\<dots> = image_mset ?f (mset (held s))" using inv by (simp add: chat_inv_def)
  also have "\<dots> = mset (map ?f (held s))" by simp
  also have "map ?f (held s) = (if r = [] then [] else [wire_thinking r]) @ (if t = [] then [] else [wire_text t]) @
      map (call_said ds \<circ> fst) (hs_tools s)"
  proof -
    have "?f (i, ''reasoning'') = wire_thinking r \<and> r \<noteq> []" if "hs_reasoning_index s = Some i" for i
      using that told type [of i "''reasoning''"] by (auto simp: held_def finalize_types told_def told_texts_def open_of_def)
    moreover have "?f (i, ''text'') = wire_text t \<and> t \<noteq> []" if "hs_text_index s = Some i" for i
      using that told type [of i "''text''"] by (auto simp: held_def finalize_types told_def told_texts_def open_of_def)
    moreover have "?f (i, ''tool-call'') = call_said ds w" if wi: "(w, i) \<in> set (hs_tools s)" for w i
    proof -
      have "dict_get (hs_tools s) w = Some i" using mem_dict_get wi inv by (simp add: chat_inv_def)
      moreover have calls: "told_calls ds cs s" using told by (simp add: told_def)
      ultimately obtain e where e: "item_of ds w = Some e" using told_tool args_item by blast
      then show ?thesis using \<open>dict_get (hs_tools s) w = Some i\<close> calls type [OF tool_held] item_said [OF e]
        by (simp add: finalize_types told_calls_def) (simp add: open_of_def)
    qed
    ultimately show ?thesis using told by (auto simp: held_def told_def told_texts_def split: option.splits)
  qed
  also have "mset \<dots> = mset ((if r = [] then [] else [wire_thinking r]) @ (if t = [] then [] else [wire_text t]) @ map (call_said ds) (call_indices ds))"
    using arg_cong [OF tools_indexed [OF told full], of "image_mset (call_said ds)"] by (simp add: comp_def image_mset.compositionality)
  finally show ?thesis .
qed

lemma answer_assembled:
  assumes "complete_answer u"
  shows "\<exists>a r. feed_all (fst (chat_answer px u)) = Inr a \<and> validate a = Inr () \<and> as_finish a = Some r \<and>
     fr_kind r = said_kind (up_chunks u) \<and>
     mset (blocks a) = mset (filter (\<lambda>b. \<not> (fr_kind r = ''max-tokens'' \<and> is_tool_call b)) (said_blocks (up_chunks u)))"
proof -
  let ?cs = "up_chunks u" and ?s = "fst (chat_loop (up_chunks u))" and ?out = "snd (chat_loop (up_chunks u))"
  let ?r = "chat_finish ?s"
  have full: "complete_calls (said_calls ?cs)" using assms by (simp add: complete_answer_def complete_calls_def)
  have loop: "told (said_reasoning ?cs) (said_text ?cs) (said_calls ?cs) ?out ?s"
    and raw: "hs_finish ?s = fold (\<lambda>c f. str_or (ch_finish c) f) (first_choices ?cs) ''unknown''"
    using loop_told [of ?cs] full by (simp_all add: complete_calls_def)
  have inv: "chat_inv ?out ?s" using loop by (simp add: told_def)
  note closed = all_held_end [OF loop full]
  let ?F = "?out @ map end_chunk (all_ends ?s) @ usage_chunks (hs_usage ?s) @ [FinishChunk ?r]"
  have F: "fst (chat_answer px u) = ?F"
    using assms closed(2) by (simp add: complete_answer_def chat_answer_def read_chunks_def read_ending_def was_cancelled_def
        chat_closing_eq Let_def guarded_def split_beta)
  have starts: "block_starts ?F = block_starts ?out" by (simp add: usage_chunks_def split: option.split)
  have "obeys_protocol ?F" using obeys_usage_finish(1) [OF closing_history [OF inv]] by simp
  moreover have "all_closed ?F"
  proof -
    have "ended ?F (int k)" if "k < length (block_starts ?out)" for k
    proof -
      have "(int k, block_starts ?out ! k) \<in> set (held ?s)" using that chat_inv_held [OF inv] by (simp add: in_block_table started_def)
      then have "int k \<in> fst ` set (all_ends ?s)" using closed(1) by force
      then have "ended (?out @ map end_chunk (all_ends ?s)) (int k)" by (simp add: ended_end_chunks)
      then show ?thesis by (auto simp: ended_def)
    qed
    then show ?thesis unfolding all_closed_def starts by simp
  qed
  ultimately obtain a where a: "feed_all ?F = Inr a" "validate a = Inr ()" using accepts_iff [of ?F] by auto
  have "\<not> list_ex is_finish (?out @ map end_chunk (all_ends ?s))" by (rule closing_history(2) [OF inv])
  then have fin: "finish_of ?F = Some ?r"
    by (auto simp: usage_chunks_def finish_of_None_iff [THEN iffD2] split: option.split)
  have spec: "spec_blocks ?F = map (\<lambda>k. finalize_block (open_of ?out (int k))) [0..<length (block_starts ?out)]"
    unfolding spec_blocks_def starts
    by (intro map_cong refl arg_cong [of _ _ finalize_block] open_of_silent) (auto simp: silent_ends usage_chunks_def split: option.splits)
  have said: "mset (spec_blocks ?F) = mset (said_blocks ?cs)"
    unfolding spec said_blocks_def by (rule held_blocks [OF loop full])
  have some: "has_output ?s \<longleftrightarrow> said_blocks ?cs \<noteq> []"
  proof -
    have "hs_items ?s = [] \<longleftrightarrow> call_indices (said_calls ?cs) = []"
      using tools_indexed [OF loop full] entry_closed(4) [OF loop full] inv
      by (cases "hs_items ?s") (fastforce simp: chat_inv_def)+
    then show ?thesis using loop by (auto simp: has_output_def said_blocks_def told_def told_texts_def)
  qed
  have "fr_kind ?r = said_kind ?cs"
    using raw some by (auto simp: chat_finish_def said_kind_def Let_def split: option.split)
  moreover have "as_finish a = Some ?r" using mirrorsD(7) [OF feed_all_mirrors [OF a(1)]] fin by simp
  moreover have "mset (blocks a) = mset (filter (\<lambda>b. \<not> (fr_kind ?r = ''max-tokens'' \<and> is_tool_call b)) (said_blocks ?cs))"
    using assembled_blocks [OF a] said fin by (auto simp flip: mset_filter) (simp_all add: mset_filter)
  ultimately show ?thesis using a F by auto
qed

section \<open>Claims\<close>

text \<open>
  C29: Whatever the provider streams, refuses or breaks off, and whenever \<open>cancel()\<close> is called, the chat adapter yields
  a stream the assembler accepts chunk by chunk: blocks numbered from 0, deltas only in open blocks of their kind, each
  end for an open block, and one finish as the last chunk. No exception of the provider leaves it; only the
  cancellation of the task passes through.
\<close>

theorem chat_stream_obeys_protocol:
  "obeys_protocol (fst (chat_adapter K a q)) \<and>
   (list_ex is_finish (fst (chat_adapter K a q)) \<and> snd (chat_adapter K a q) = None \<or> snd (chat_adapter K a q) = Some RCancelled)"
proof (cases "chat_params (sk_lib K) a q")
  case (Inl e)
  then show ?thesis using finish_obeys [of "[]" "failure_finish (sk_raise K e)"] by (simp add: chat_adapter_def)
next
  case (Inr ps)
  then show ?thesis using chat_answer_well_finished [of "sk_raise K" "sk_create K ps"]
    by (simp add: chat_adapter_def well_finished_def)
qed

text \<open>
  C30: A complete answer passes the assembler and its final validation, when every tool call has the documented shape and
  arguments that are not empty. The
  assembled blocks are, in some order, what the provider said: its reasoning, its text, and every tool call with its id, its name
  and all its argument pieces in order, however the pieces of different calls are interleaved. The finish kind is the
  provider's, and an answer cut off by the limit yields no tool call. (A call without arguments ends the answer as an error.)
\<close>

theorem chat_answer_is_assembled:
  assumes "chat_params (sk_lib K) a q = Inr ps" and "complete_answer (sk_create K ps)"
  shows "\<exists>s r. feed_all (fst (chat_adapter K a q)) = Inr s \<and> validate s = Inr () \<and> as_finish s = Some r \<and>
     fr_kind r = said_kind (up_chunks (sk_create K ps)) \<and>
     mset (blocks s) = mset (filter (\<lambda>b. \<not> (fr_kind r = ''max-tokens'' \<and> is_tool_call b)) (said_blocks (up_chunks (sk_create K ps))))"
  using answer_assembled [OF assms(2)] assms(1) by (simp add: chat_adapter_def)

definition chat_piece :: "string \<Rightarrow> string \<Rightarrow> tc_delta list \<Rightarrow> string \<Rightarrow> chat_chunk" where
  "chat_piece r t ds f = \<lparr>hk_meta = [(''id'', JStr ''r1'')], hk_usage = None,
     hk_choices = [\<lparr>ch_reasoning = r, ch_content = t, ch_calls = ds, ch_finish = f\<rparr>]\<rparr>"

definition call_piece :: "int \<Rightarrow> string \<Rightarrow> string \<Rightarrow> string \<Rightarrow> tc_delta" where
  "call_piece w i n args = \<lparr>td_index = Some w, td_id = i, td_name = n, td_arguments = args\<rparr>"

definition streamed :: "chat_chunk list \<Rightarrow> chat_chunk upstream" where
  "streamed cs = \<lparr>up_refused = None, up_chunks = cs, up_ending = Exhausted, up_cancel = None\<rparr>"

definition two_calls :: "chat_chunk upstream" where
  "two_calls = streamed
     [chat_piece ''hm'' [] [] [], chat_piece [] ''ok'' [call_piece 1 ''c1'' ''read'' ''{''] [],
      chat_piece [] [] [call_piece 0 ''c0'' ''ls'' ''{}'', call_piece 1 [] [] ''}''] ''tool_calls'']"

definition sample_sdk :: "chat_chunk upstream \<Rightarrow> chat_chunk openai_sdk" where
  "sample_sdk u = \<lparr>sk_lib = \<lparr>lib_str = (\<lambda>_. ''x''), lib_dumps = (\<lambda>_. []), lib_digest = (\<lambda>_. []), lib_text_digest = (\<lambda>s. s),
      lib_int = (\<lambda>_. Inr 0), lib_dict = (\<lambda>_. Inl TypeError)\<rparr>,
     sk_create = (\<lambda>_. u), sk_raise = (\<lambda>_. \<lparr>px_classes = [], px_code = None, px_status = None, px_response_status = None, px_text = ''e''\<rparr>)\<rparr>"

definition sample_oa :: openai_adapter where
  "sample_oa = \<lparr>oa_model = ''m'', oa_max_tokens = None, oa_temperature = None, oa_reasoning_effort = [], oa_stop = []\<rparr>"

definition empty_request :: llm_request where
  "empty_request = \<lparr>lq_config = \<lparr>lc_provider = [], lc_model = ''m'', lc_api_type = None, lc_reasoning_effort = None,
      lc_temperature = None, lc_max_tokens = None, lc_stop = [], lc_timeout = Finite 0 0\<rparr>,
     lq_messages = [], lq_system = None, lq_tools = [], lq_session_id = [], lq_turn_id = [], lq_purpose = [],
     lq_agent_id = [], lq_attempt = 1, lq_max_attempts = 1\<rparr>"

lemmas chat_eval = two_calls_def streamed_def chat_piece_def call_piece_def chat_answer_def read_chunks_def read_ending_def
  was_cancelled_def chat_loop_def chat_step_def new_chat_def note_chunk_def note_finish_def choice_parts_def then_part_def
  reasoning_part_def content_part_def call_part_def feed_call_def wire_index_def entry_of_def new_entry_def grow_entry_def
  take_usage_def normalize_usage_def chat_closing_def close_texts_def sorted_entries_def usage_chunks_def guarded_def
  chat_finish_def FINISH_KIND_MAP_def has_output_def failure_finish_def Let_def

lemma sample_params: "chat_params (sk_lib (sample_sdk u)) sample_oa empty_request =
  Inr [(''model'', JStr ''m''), (''messages'', JList []), (''stream'', JBool True),
       (''stream_options'', JObj [(''include_usage'', JBool True)]), (''tool_choice'', JStr ''auto'')]"
  by (simp add: chat_params_def wire_messages_def empty_request_def output_limit_def sample_oa_def sample_sdk_def coerce_tools_def set_opt_def)

lemma two_calls_complete: "complete_answer two_calls"
  by (simp add: complete_answer_def two_calls_def streamed_def chat_piece_def call_piece_def said_calls_def first_choices_def
      List.map_filter_def call_indices_def args_of_def pieces_def)

lemma two_calls_said: "said_blocks (up_chunks two_calls) =
  [wire_thinking ''hm'', wire_text ''ok'', wire_call ''c1'' ''read'' ''{}'', wire_call ''c0'' ''ls'' ''{}'']"
  by (simp add: said_blocks_def two_calls_def streamed_def chat_piece_def call_piece_def said_calls_def said_reasoning_def
      said_text_def first_choices_def List.map_filter_def call_indices_def args_of_def pieces_def call_said_def)

lemma two_calls_kind: "said_kind (up_chunks two_calls) = ''tool-calls''"
  by (simp add: said_kind_def two_calls_def streamed_def chat_piece_def call_piece_def first_choices_def List.map_filter_def
      FINISH_KIND_MAP_def Let_def)

lemma chat_answer_is_assembled_witness:
  "\<exists>s. feed_all (fst (chat_adapter (sample_sdk two_calls) sample_oa empty_request)) = Inr s \<and> validate s = Inr () \<and>
     mset (blocks s) = mset [wire_thinking ''hm'', wire_text ''ok'', wire_call ''c1'' ''read'' ''{}'', wire_call ''c0'' ''ls'' ''{}'']"
proof -
  have c: "complete_answer (sk_create (sample_sdk two_calls) ps)" for ps using two_calls_complete by (simp add: sample_sdk_def)
  have u: "sk_create (sample_sdk two_calls) ps = two_calls" for ps by (simp add: sample_sdk_def)
  show ?thesis using chat_answer_is_assembled [OF sample_params c] unfolding u two_calls_said two_calls_kind by auto
qed

section \<open>Weak spots\<close>

text \<open>
  A tool without arguments whose call arrives with an empty argument string has no block when the stream is closed: the
  lookup of its block raises, and an answer that was complete ends with an error.
\<close>

lemma empty_arguments_fail:
  "fst (chat_answer px (streamed [chat_piece [] ''ok'' [call_piece 0 ''c0'' ''now'' []] ''tool_calls''])) =
   [BlockStart 0 ''text'', TextDelta 0 ''ok'', BlockEnd 0 (wire_text ''ok''), failure_finish (px KeyError)]"
  by (simp add: chat_eval take_meta_def CHAT_META_KEYS_def get_or_def)

text \<open>The end that reports a cancellation is never reached: a stream that was cut off by \<open>cancel()\<close> ends like a complete one.\<close>

lemma cancelled_answer_looks_complete:
  "fst (chat_answer px ((streamed [chat_piece [] ''The '' [] [], chat_piece [] ''end'' [] ''stop''])\<lparr>up_cancel := Some 1\<rparr>)) =
   [BlockStart 0 ''text'', TextDelta 0 ''The '', BlockEnd 0 (wire_text ''The ''),
    FinishChunk \<lparr>fr_kind = ''stop'', fr_failure = None, fr_raw = ''unknown'', fr_response_metadata = [(''id'', JStr ''r1'')]\<rparr>]"
  by (simp add: chat_eval take_meta_def CHAT_META_KEYS_def get_or_def)

lemma chat_finish_kinds: "fr_kind (chat_finish s) \<in> {''stop'', ''tool-calls'', ''max-tokens'', ''error''}"
  by (auto simp: chat_finish_def FINISH_KIND_MAP_def Let_def)

lemma abort_is_never_reported:
  assumes "finish_of (fst (chat_answer px u)) = Some r"
  shows "fr_kind r \<noteq> ''aborted''"
proof (cases "up_refused u")
  case (Some x)
  then show ?thesis using assms by (auto simp: chat_answer_def failure_finish_def Let_def)
next
  case None
  obtain s out where l: "chat_loop (read_chunks u) = (s, out)" by fastforce
  have inv: "chat_inv out s" using chat_loop_inv [of "read_chunks u"] by (simp add: l)
  have o: "finish_of out = None" using inv by (simp add: finish_of_None_iff chat_inv_def open_history_def)
  have c: "finish_of (map end_chunk es) = None" for es by (simp add: finish_of_None_iff)
  show ?thesis
    using assms None l o c chat_finish_kinds [of s] finish_of_None_iff [of out]
    by (cases "read_ending u")
      (auto simp: chat_answer_def chat_closing_eq Let_def guarded_def usage_chunks_def failure_finish_def split: if_splits option.splits)
qed

text \<open>A name that arrives after the last argument piece is in the block end, and not in the assembled call.\<close>

lemma late_name_is_lost:
  "(case feed_all (fst (chat_answer px (streamed [chat_piece [] [] [call_piece 0 ''c0'' [] ''{}''] [],
      chat_piece [] [] [call_piece 0 [] ''ls'' []] ''tool_calls'']))) of Inl e \<Rightarrow> [] | Inr s \<Rightarrow> blocks s) =
   [wire_call ''c0'' [] ''{}'']"
  by (simp add: chat_eval take_meta_def CHAT_META_KEYS_def get_or_def feed_all_def assembler_defs BLOCK_TYPES_def
      extend_call_def wire_call_def wire_type_agrees_def wire_type_def finalize_block_def blocks_def
      List.map_filter_simps is_tool_call_def)

end
