(* ===== verification/ResponsesProtocol.thy ===== *)
theory ResponsesProtocol
  imports ResponsesAdapter ChatAnswer
begin

text \<open>
  What the Responses adapter guarantees to its consumer and to the API: its stream obeys the protocol when the provider
  keeps its items apart, and the input it sends pairs every function call with its output.
\<close>

section \<open>Items against the history\<close>

definition item_ok :: "(string \<times> string \<times> bool) list \<Rightarrow> chunk list \<Rightarrow> string \<Rightarrow> item_entry \<Rightarrow> bool" where
  "item_ok seen cs i e \<longleftrightarrow> (\<exists>l. (i, ie_kind e, l) \<in> set seen) \<and> (ie_started e \<longleftrightarrow> ie_index e \<noteq> None) \<and>
     (ie_text e = None \<longleftrightarrow> ie_kind e = ''tool-call'') \<and> ie_kind e \<in> set BLOCK_TYPES \<and>
     (ie_ended e \<longrightarrow> (i, ie_kind e, True) \<in> set seen \<and> ie_index e \<noteq> None) \<and>
     (\<forall>n. ie_index e = Some n \<longrightarrow> started cs n \<and> block_starts cs ! nat n = ie_kind e \<and> (ended cs n \<longleftrightarrow> ie_ended e))"

definition resp_inv :: "(string \<times> string \<times> bool) list \<Rightarrow> chunk list \<Rightarrow> resp_state \<Rightarrow> bool" where
  "resp_inv seen cs s \<longleftrightarrow> obeys_protocol cs \<and> \<not> list_ex is_finish cs \<and> rs_next s = int (length (block_starts cs)) \<and>
     dict_wf (rs_items s) \<and>
     (\<forall>i e. dict_get (rs_items s) i = Some e \<longrightarrow> item_ok seen cs i e) \<and>
     (\<forall>i j e e' n. dict_get (rs_items s) i = Some e \<longrightarrow> dict_get (rs_items s) j = Some e' \<longrightarrow>
        ie_index e = Some n \<longrightarrow> ie_index e' = Some n \<longrightarrow> i = j) \<and>
     (\<forall>n. started cs n \<longrightarrow> (\<exists>i e. dict_get (rs_items s) i = Some e \<and> ie_index e = Some n)) \<and>
     (\<forall>i k. (i, k, True) \<in> set seen \<longrightarrow> (\<exists>e. dict_get (rs_items s) i = Some e \<and> ie_ended e))"

lemma resp_invD:
  assumes "resp_inv seen cs s"
  shows "obeys_protocol cs" "\<not> list_ex is_finish cs" "rs_next s = int (length (block_starts cs))" "dict_wf (rs_items s)"
    "dict_get (rs_items s) i = Some e \<Longrightarrow> item_ok seen cs i e"
    "dict_get (rs_items s) i = Some e \<Longrightarrow> dict_get (rs_items s) j = Some e' \<Longrightarrow> ie_index e = Some n \<Longrightarrow> ie_index e' = Some n \<Longrightarrow> i = j"
    "started cs n \<Longrightarrow> \<exists>i e. dict_get (rs_items s) i = Some e \<and> ie_index e = Some n"
    "(i, k, True) \<in> set seen \<Longrightarrow> \<exists>e. dict_get (rs_items s) i = Some e \<and> ie_ended e"
  using assms unfolding resp_inv_def by (blast+)

lemma resp_invI:
  assumes "obeys_protocol cs" "\<not> list_ex is_finish cs" "rs_next s = int (length (block_starts cs))" "dict_wf (rs_items s)"
    "\<And>i e. dict_get (rs_items s) i = Some e \<Longrightarrow> item_ok seen cs i e"
    "\<And>i j e e' n. dict_get (rs_items s) i = Some e \<Longrightarrow> dict_get (rs_items s) j = Some e' \<Longrightarrow> ie_index e = Some n \<Longrightarrow> ie_index e' = Some n \<Longrightarrow> i = j"
    "\<And>n. started cs n \<Longrightarrow> \<exists>i e. dict_get (rs_items s) i = Some e \<and> ie_index e = Some n"
    "\<And>i k. (i, k, True) \<in> set seen \<Longrightarrow> \<exists>e. dict_get (rs_items s) i = Some e \<and> ie_ended e"
  shows "resp_inv seen cs s"
  using assms unfolding resp_inv_def by blast

lemma item_ok_seen: "item_ok seen cs i e \<Longrightarrow> item_ok (x # seen) cs i e"
  by (auto simp: item_ok_def)

lemma inv_seen: "resp_inv seen cs s \<Longrightarrow> resp_inv ((i, k, False) # seen) cs s"
  by (rule resp_invI) (auto dest: resp_invD item_ok_seen)

text \<open>An entry is fresh for an event that keeps items apart.\<close>

lemma fresh_entry:
  assumes "resp_inv seen cs s" "item_fresh seen (i, k, l)" "dict_get (rs_items s) i = Some e"
  shows "ie_kind e = k" "\<not> ie_ended e"
  using resp_invD(5) [OF assms(1,3)] assms(2) by (auto simp: item_ok_def item_fresh_def list_all_iff)

text \<open>Replacing an entry by one that differs in its text, its call id or its name.\<close>

lemma inv_put:
  assumes inv: "resp_inv seen cs s" and e: "dict_get (rs_items s) i = Some e"
    and same: "ie_kind e' = ie_kind e" "ie_index e' = ie_index e" "ie_started e' = ie_started e" "ie_ended e' = ie_ended e"
      "ie_text e' = None \<longleftrightarrow> ie_text e = None"
  shows "resp_inv seen cs (put_item i e' s)"
proof (rule resp_invI)
  have old: "\<exists>g. dict_get (rs_items s) j = Some g \<and> ie_index g = ie_index f" if "dict_get (rs_items (put_item i e' s)) j = Some f" for j f
    using that e same by (cases "j = i") (simp_all add: put_item_def)
  show "item_ok seen cs j f" if "dict_get (rs_items (put_item i e' s)) j = Some f" for j f
    using that resp_invD(5) [OF inv, of j] resp_invD(5) [OF inv e] same unfolding put_item_def item_ok_def by (cases "j = i") simp_all
  show "j = k" if "dict_get (rs_items (put_item i e' s)) j = Some f" "dict_get (rs_items (put_item i e' s)) k = Some g"
    "ie_index f = Some n" "ie_index g = Some n" for j k f g n
    using old [OF that(1)] old [OF that(2)] that(3,4) resp_invD(6) [OF inv] by fastforce
  show "\<exists>j f. dict_get (rs_items (put_item i e' s)) j = Some f \<and> ie_index f = Some n" if st: "started cs n" for n
  proof -
    obtain j f where j: "dict_get (rs_items s) j = Some f" "ie_index f = Some n" using resp_invD(7) [OF inv st] by blast
    then show ?thesis using e same(2) by (cases "j = i") (auto simp: put_item_def)
  qed
  show "\<exists>f. dict_get (rs_items (put_item i e' s)) j = Some f \<and> ie_ended f" if "(j, k, True) \<in> set seen" for j k
    using resp_invD(8) [OF inv that] e same by (auto simp: put_item_def)
qed (use resp_invD [OF inv] in \<open>simp_all add: put_item_def\<close>)

text \<open>A delta of an open block.\<close>

lemma inv_delta:
  assumes inv: "resp_inv seen cs s" and ok: "chunk_ok cs c" and c: "block_starts [c] = []" "\<not> is_finish c" "\<And>n. \<not> is_end_of n c"
  shows "resp_inv seen (cs @ [c]) s"
proof (rule resp_invI)
  have st: "started (cs @ [c]) n \<longleftrightarrow> started cs n" for n using c(1) by (simp add: started_snoc)
  have en: "ended (cs @ [c]) n \<longleftrightarrow> ended cs n" for n using c(3) by simp
  show "item_ok seen (cs @ [c]) i e" if "dict_get (rs_items s) i = Some e" for i e
    using resp_invD(5) [OF inv that] c(1,3) by (simp add: item_ok_def st)
  show "\<exists>i e. dict_get (rs_items s) i = Some e \<and> ie_index e = Some n" if "started (cs @ [c]) n" for n
    using that resp_invD(7) [OF inv] by (simp add: st)
qed (use resp_invD [OF inv] ok c in \<open>auto simp: obeys_snoc\<close>)

lemma item_open:
  assumes "resp_inv seen cs s" "dict_get (rs_items s) i = Some e" "ie_index e = Some n" "\<not> ie_ended e"
  shows "open_with cs n (ie_kind e)"
  using resp_invD(5) [OF assms(1,2)] assms(3,4) by (simp add: item_ok_def open_with_def)

lemma new_item_simps [simp]: "ie_kind (new_item k) = k" "ie_index (new_item k) = None" "\<not> ie_started (new_item k)" "\<not> ie_ended (new_item k)"
  by (simp_all add: new_item_def)

section \<open>Opening an item\<close>

lemma open_item_inv:
  assumes inv: "resp_inv seen cs s" and k: "k \<in> set BLOCK_TYPES" and fresh: "item_fresh seen (i, k, l)"
    and o: "open_item k i s = (s', start, n, e)"
  shows "resp_inv ((i, k, False) # seen) (cs @ start) s'" and "dict_get (rs_items s') i = Some e"
    and "ie_kind e = k" and "ie_index e = Some n" and "\<not> ie_ended e" and "rs_meta s' = rs_meta s"
proof -
  let ?e = "item_default k i s"
  have d: "ie_kind ?e = k" "\<not> ie_ended ?e" "ie_started ?e \<longleftrightarrow> ie_index ?e \<noteq> None" "ie_text ?e = None \<longleftrightarrow> k = ''tool-call''"
    using fresh_entry [OF inv fresh] resp_invD(5) [OF inv]
    by (cases "dict_get (rs_items s) i"; force simp: item_default_def item_ok_def new_item_def)+
  have e: "e = ?e\<lparr>ie_index := Some n, ie_started := True\<rparr>" and n: "n = (case ie_index ?e of None \<Rightarrow> rs_next s | Some k \<Rightarrow> k)"
    and s': "s' = (put_item i e s)\<lparr>rs_next := (if ie_index ?e = None then rs_next s + 1 else rs_next s)\<rparr>"
    and start: "start = (if ie_started ?e then [] else [BlockStart n k])"
    using o by (auto simp: open_item_def Let_def split: option.splits)
  show "dict_get (rs_items s') i = Some e" "ie_kind e = k" "ie_index e = Some n" "\<not> ie_ended e" "rs_meta s' = rs_meta s"
    using d by (simp_all add: s' e put_item_def)
  show "resp_inv ((i, k, False) # seen) (cs @ start) s'"
  proof (cases "ie_index ?e")
    case (Some m)
    then have g: "dict_get (rs_items s) i = Some ?e" by (auto simp: item_default_def split: option.splits)
    have "e = ?e" using Some d n e by (cases ?e) simp
    moreover have "(put_item i e s)\<lparr>rs_next := rs_next s\<rparr> = put_item i e s" by (cases s) (simp add: put_item_def)
    ultimately show ?thesis using Some d inv_seen [OF inv_put [OF inv g, of e]] by (simp add: s' start)
  next
    case None
    let ?c = "BlockStart n k"
    have n': "n = int (length (block_starts cs))" using None n resp_invD(3) [OF inv] by simp
    have out: "cs @ start = cs @ [?c]" using d(3) None by (simp add: start)
    have ns: "\<not> started cs n" by (simp add: n' started_def)
    have st: "started (cs @ [?c]) m \<longleftrightarrow> started cs m \<or> m = n" for m by (auto simp: started_snoc n')
    have un: "\<not> ended cs n"
      using mirrors_ended_started feed_all_mirrors feed_all_iff resp_invD(1) [OF inv] ns by blast
    have items: "dict_get (rs_items s') j = (if j = i then Some e else dict_get (rs_items s) j)" for j by (simp add: s' put_item_def)
    have old: "item_ok seen cs j f" if "dict_get (rs_items s) j = Some f" for j f by (rule resp_invD(5) [OF inv that])
    have keep: "item_ok ((i, k, False) # seen) (cs @ [?c]) j f" if "item_ok seen cs j f" for j f
      using that by (auto simp: item_ok_def st nth_append started_def)
    show ?thesis unfolding out
    proof (rule resp_invI)
      show "obeys_protocol (cs @ [?c])" using resp_invD [OF inv] k by (simp add: obeys_snoc chunk_ok_def n')
      show "item_ok ((i, k, False) # seen) (cs @ [?c]) j f" if "dict_get (rs_items s') j = Some f" for j f
      proof (cases "j = i")
        case True
        then show ?thesis using that d k un by (auto simp: items e item_ok_def started_def n' nth_append)
      next
        case False
        then show ?thesis using that keep old by (simp add: items)
      qed
      show "j = j'" if "dict_get (rs_items s') j = Some f" "dict_get (rs_items s') j' = Some f'" "ie_index f = Some m" "ie_index f' = Some m" for j j' f f' m
      proof -
        have apart: "ie_index f \<noteq> Some n" if "dict_get (rs_items s) j = Some f" for j f
          using old [OF that] ns by (auto simp: item_ok_def)
        have en: "ie_index e = Some n" by (simp add: e)
        show ?thesis
        proof (cases "j = i \<or> j' = i")
          case True
          then show ?thesis using that apart [of j f] apart [of j' f'] en by (auto simp: items split: if_splits)
        next
          case False
          then show ?thesis using that resp_invD(6) [OF inv] by (simp add: items)
        qed
      qed
      show "\<exists>j f. dict_get (rs_items s') j = Some f \<and> ie_index f = Some m" if sm: "started (cs @ [?c]) m" for m
      proof (cases "m = n")
        case True
        then show ?thesis by (intro exI [of _ i] exI [of _ e]) (simp add: items, simp add: e)
      next
        case False
        then have "started cs m" using sm by (simp add: st)
        then obtain j f where j: "dict_get (rs_items s) j = Some f" "ie_index f = Some m" using resp_invD(7) [OF inv] by blast
        then have "j \<noteq> i" using None by (auto simp: item_default_def)
        then show ?thesis using j by (auto simp: items)
      qed
      show "\<exists>f. dict_get (rs_items s') j = Some f \<and> ie_ended f" if sn: "(j, k', True) \<in> set ((i, k, False) # seen)" for j k'
      proof -
        obtain f where f: "dict_get (rs_items s) j = Some f" "ie_ended f" using sn resp_invD(8) [OF inv] by auto
        then have "j \<noteq> i" using fresh_entry(2) [OF inv fresh] by auto
        then show ?thesis using f by (simp add: items)
      qed
    qed (use resp_invD [OF inv] None in \<open>simp_all add: s' put_item_def n'\<close>)
  qed
qed

section \<open>The events\<close>

lemma inv_other_fields [simp]:
  "resp_inv seen cs (s\<lparr>rs_meta := m\<rparr>) \<longleftrightarrow> resp_inv seen cs s" "resp_inv seen cs (s\<lparr>rs_kind := k\<rparr>) \<longleftrightarrow> resp_inv seen cs s"
  "resp_inv seen cs (s\<lparr>rs_usage := u\<rparr>) \<longleftrightarrow> resp_inv seen cs s"
  by (simp_all add: resp_inv_def)

lemma inv_added:
  assumes inv: "resp_inv seen cs s" and fresh: "item_fresh seen (i, ''tool-call'', False)"
  shows "resp_inv ((i, ''tool-call'', False) # seen) cs (put_item i ((item_default ''tool-call'' i s)\<lparr>ie_call_id := c, ie_name := n\<rparr>) s)"
proof (cases "dict_get (rs_items s) i")
  case (Some e)
  then show ?thesis using inv_seen [OF inv_put [OF inv Some]] by (simp add: item_default_def)
next
  case None
  have items: "dict_get (rs_items (put_item i e s)) j = (if j = i then Some e else dict_get (rs_items s) j)" for e j
    by (simp add: put_item_def)
  let ?e = "(new_item ''tool-call'')\<lparr>ie_call_id := c, ie_name := n\<rparr>"
  have d: "item_default ''tool-call'' i s = new_item ''tool-call''" using None by (simp add: item_default_def)
  show ?thesis unfolding d
  proof (rule resp_invI)
    show "item_ok ((i, ''tool-call'', False) # seen) cs j f" if "dict_get (rs_items (put_item i ?e s)) j = Some f" for j f
      using that item_ok_seen resp_invD(5) [OF inv] by (cases "j = i") (auto simp: items item_ok_def new_item_def BLOCK_TYPES_def)
    show "j = j'" if "dict_get (rs_items (put_item i ?e s)) j = Some f" "dict_get (rs_items (put_item i ?e s)) j' = Some f'"
      "ie_index f = Some m" "ie_index f' = Some m" for j j' f f' m
    proof -
      have "ie_index ?e = None" by simp
      then show ?thesis using that resp_invD(6) [OF inv] by (auto simp: items split: if_splits)
    qed
    show "\<exists>j f. dict_get (rs_items (put_item i ?e s)) j = Some f \<and> ie_index f = Some m" if st: "started cs m" for m
    proof -
      obtain j f where j: "dict_get (rs_items s) j = Some f" "ie_index f = Some m" using resp_invD(7) [OF inv st] by blast
      then have "j \<noteq> i" using None by auto
      then show ?thesis using j by (auto simp: items)
    qed
    show "\<exists>f. dict_get (rs_items (put_item i ?e s)) j = Some f \<and> ie_ended f" if sn: "(j, k, True) \<in> set ((i, ''tool-call'', False) # seen)" for j k
    proof -
      obtain f where f: "dict_get (rs_items s) j = Some f" "ie_ended f" using sn resp_invD(8) [OF inv] by auto
      then have "j \<noteq> i" using None by auto
      then show ?thesis using f by (simp add: items)
    qed
  qed (use resp_invD [OF inv] in \<open>simp_all add: put_item_def\<close>)
qed

lemma inv_end:
  assumes inv: "resp_inv seen cs s" and e: "dict_get (rs_items s) i = Some e" "ie_index e = Some n" "\<not> ie_ended e"
    and b: "wire_type_agrees (ie_kind e) b"
  shows "resp_inv ((i, ie_kind e, True) # seen) (cs @ [BlockEnd n b]) (put_item i (e\<lparr>ie_ended := True\<rparr>) s)"
proof -
  let ?e = "e\<lparr>ie_ended := True\<rparr>"
  have items: "dict_get (rs_items (put_item i ?e s)) j = (if j = i then Some ?e else dict_get (rs_items s) j)" for j
    by (simp add: put_item_def)
  have ok: "item_ok seen cs i e" by (rule resp_invD(5) [OF inv e(1)])
  have st: "started (cs @ [BlockEnd n b]) m \<longleftrightarrow> started cs m" for m by (simp add: started_snoc)
  have old: "\<exists>g. dict_get (rs_items s) j = Some g \<and> ie_index g = ie_index f" if "dict_get (rs_items (put_item i ?e s)) j = Some f" for j f
    using that e by (cases "j = i") (auto simp: items)
  show ?thesis
  proof (rule resp_invI)
    show "obeys_protocol (cs @ [BlockEnd n b])"
      using resp_invD(1,2) [OF inv] ok e b by (simp add: obeys_snoc chunk_ok_def item_ok_def)
    show "item_ok ((i, ie_kind e, True) # seen) (cs @ [BlockEnd n b]) j f" if j: "dict_get (rs_items (put_item i ?e s)) j = Some f" for j f
    proof (cases "j = i")
      case True
      then show ?thesis using j ok e by (auto simp: items item_ok_def started_snoc)
    next
      case False
      then have g: "dict_get (rs_items s) j = Some f" using j by (simp add: items)
      then have "ie_index f \<noteq> Some n" using resp_invD(6) [OF inv g e(1) _ e(2)] False by blast
      then show ?thesis using resp_invD(5) [OF inv g] by (auto simp: item_ok_def started_snoc)
    qed
    show "j = j'" if "dict_get (rs_items (put_item i ?e s)) j = Some f" "dict_get (rs_items (put_item i ?e s)) j' = Some f'"
      "ie_index f = Some m" "ie_index f' = Some m" for j j' f f' m
      using old [OF that(1)] old [OF that(2)] that(3,4) resp_invD(6) [OF inv] by fastforce
    show "\<exists>j f. dict_get (rs_items (put_item i ?e s)) j = Some f \<and> ie_index f = Some m" if "started (cs @ [BlockEnd n b]) m" for m
    proof -
      have "started cs m" using that by (simp add: st)
      then obtain j f where j: "dict_get (rs_items s) j = Some f" "ie_index f = Some m" using resp_invD(7) [OF inv] by blast
      show ?thesis
      proof (cases "j = i")
        case True
        then have "m = n" using e j by simp
        then show ?thesis by (intro exI [of _ i] exI [of _ ?e]) (simp add: items e(2))
      next
        case False
        then show ?thesis using j by (auto simp: items)
      qed
    qed
    show "\<exists>f. dict_get (rs_items (put_item i ?e s)) j = Some f \<and> ie_ended f" if "(j, k, True) \<in> set ((i, ie_kind e, True) # seen)" for j k
      using that resp_invD(8) [OF inv] by (cases "j = i") (auto simp: items)
  qed (use resp_invD [OF inv] in \<open>simp_all add: put_item_def\<close>)
qed

lemma inv_drop: "resp_inv ((i, k, True) # (i, k, False) # seen) cs s \<Longrightarrow> resp_inv ((i, k, True) # seen) cs s"
proof -
  assume inv: "resp_inv ((i, k, True) # (i, k, False) # seen) cs s"
  have ok: "item_ok ((i, k, True) # (i, k, False) # seen) cs j e \<Longrightarrow> item_ok ((i, k, True) # seen) cs j e" for j e
    by (auto simp: item_ok_def)
  show ?thesis
    by (rule resp_invI)
      (use resp_invD(1-4,7) [OF inv] ok resp_invD(5) [OF inv] resp_invD(6) [OF inv] resp_invD(8) [OF inv] in \<open>simp_all\<close>)
qed

lemma inv_text:
  assumes inv: "resp_inv seen cs s" and k: "k \<in> {''text'', ''reasoning''}" and fresh: "item_fresh seen (i, k, False)"
    and mk: "\<And>cs n t. open_with cs n k \<Longrightarrow> \<not> list_ex is_finish cs \<Longrightarrow> chunk_ok cs (mk n t)" "\<And>n t. block_starts [mk n t] = []"
      "\<And>n t. \<not> is_finish (mk n t)" "\<And>m n t. \<not> is_end_of m (mk n t)"
    and d: "delta \<noteq> []" and step: "text_event k mk i delta s = (s', out, x)"
  shows "x = None \<and> resp_inv ((i, k, False) # seen) (cs @ out) s'"
proof -
  obtain s1 start n e where o: "open_item k i s = (s1, start, n, e)" by (metis prod_cases4)
  have kt: "k \<in> set BLOCK_TYPES" using k by (auto simp: BLOCK_TYPES_def)
  note oi = open_item_inv [OF inv kt fresh o]
  have "ie_text e \<noteq> None" using resp_invD(5) [OF oi(1,2)] oi(3) k by (auto simp: item_ok_def)
  then obtain t where t: "ie_text e = Some t" by auto
  have "chunk_ok (cs @ start) (mk n delta)"
    using item_open [OF oi(1,2,4,5)] resp_invD(2) [OF oi(1)] oi(3) by (intro mk(1)) auto
  then have "resp_inv ((i, k, False) # seen) ((cs @ start) @ [mk n delta]) s1" by (rule inv_delta [OF oi(1)]) (simp_all only: mk not_False_eq_True)
  then have "resp_inv ((i, k, False) # seen) ((cs @ start) @ [mk n delta]) (put_item i (e\<lparr>ie_text := Some (t @ delta)\<rparr>) s1)"
    by (rule inv_put [OF _ oi(2)]) (simp_all add: t)
  then show ?thesis using step d o t by (auto simp: text_event_def)
qed

lemma resp_step_inv:
  assumes inv: "resp_inv seen cs s" and fresh: "\<And>y. event_item ev = Some y \<Longrightarrow> item_fresh seen y" and step: "resp_step ev s = (s', out, x)"
  shows "x = None \<and> resp_inv (case event_item ev of None \<Rightarrow> seen | Some y \<Rightarrow> y # seen) (cs @ out) s'"
proof (cases ev)
  case (RespText i d)
  show ?thesis
  proof (cases "d = []")
    case False
    then have "item_fresh seen (i, ''text'', False)" using fresh RespText by (simp add: event_item_def)
    from inv_text [OF inv _ this, of TextDelta d s' out x] show ?thesis
      using step RespText False by (auto simp: resp_step_def event_item_def chunk_ok_def)
  qed (use inv step RespText in \<open>simp add: resp_step_def text_event_def event_item_def\<close>)
next
  case (RespReasoning i d)
  show ?thesis
  proof (cases "d = []")
    case False
    then have "item_fresh seen (i, ''reasoning'', False)" using fresh RespReasoning by (simp add: event_item_def)
    from inv_text [OF inv _ this, of ReasoningDelta d s' out x] show ?thesis
      using step RespReasoning False by (auto simp: resp_step_def event_item_def chunk_ok_def)
  qed (use inv step RespReasoning in \<open>simp add: resp_step_def text_event_def event_item_def\<close>)
next
  case (RespArguments i d)
  show ?thesis
  proof (cases "d = []")
    case False
    then have fr: "item_fresh seen (i, ''tool-call'', False)" using fresh RespArguments by (simp add: event_item_def)
    obtain s1 start n e where o: "open_item ''tool-call'' i s = (s1, start, n, e)" by (metis prod_cases4)
    note oi = open_item_inv [OF inv _ fr o, unfolded BLOCK_TYPES_def, simplified]
    have "chunk_ok (cs @ start) (ToolCallDelta n (ie_call_id e) (ie_name e) d)"
      using item_open [OF oi(1,2,4,5)] resp_invD(2) [OF oi(1)] oi(3) by (simp add: chunk_ok_def)
    then have "resp_inv ((i, ''tool-call'', False) # seen) ((cs @ start) @ [ToolCallDelta n (ie_call_id e) (ie_name e) d]) s1"
      by (rule inv_delta [OF oi(1)]) simp_all
    then show ?thesis using step RespArguments False o by (auto simp: resp_step_def arguments_event_def event_item_def)
  qed (use inv step RespArguments in \<open>simp add: resp_step_def arguments_event_def event_item_def\<close>)
next
  case (RespAdded it)
  then show ?thesis using inv step fresh inv_added [OF inv, of "it_id it"]
    by (auto simp: resp_step_def added_event_def event_item_def split: if_splits)
next
  case (RespDone it)
  show ?thesis
  proof (cases "it_type it = ''function_call''")
    case True
    let ?i = "it_id it" and ?s = "s\<lparr>rs_meta := keep_output (it_raw it) (rs_meta s)\<rparr>"
    have fr: "item_fresh seen (?i, ''tool-call'', True)" using fresh RespDone True by (simp add: event_item_def)
    obtain s1 start n e where o: "open_item ''tool-call'' ?i ?s = (s1, start, n, e)" by (metis prod_cases4)
    have inv': "resp_inv seen cs ?s" using inv by simp
    note oi = open_item_inv [OF inv' _ fr o, unfolded BLOCK_TYPES_def, simplified]
    have "resp_inv ((?i, ''tool-call'', True) # seen) ((cs @ start) @ [BlockEnd n (wire_call (it_call_id it) (it_name it) (it_arguments it))])
       (put_item ?i (e\<lparr>ie_ended := True\<rparr>) s1)"
    proof (rule inv_drop)
      have "wire_type_agrees (ie_kind e) (wire_call (it_call_id it) (it_name it) (it_arguments it))" unfolding oi(3) by (rule block_agrees)
      then show "resp_inv ((?i, ''tool-call'', True) # (?i, ''tool-call'', False) # seen)
          ((cs @ start) @ [BlockEnd n (wire_call (it_call_id it) (it_name it) (it_arguments it))]) (put_item ?i (e\<lparr>ie_ended := True\<rparr>) s1)"
        using inv_end [OF oi(1,2,4,5)] unfolding oi(3) by blast
    qed
    then show ?thesis using step RespDone True o by (auto simp: resp_step_def done_event_def event_item_def Let_def)
  qed (use inv step RespDone in \<open>auto simp: resp_step_def done_event_def event_item_def Let_def\<close>)
qed (use inv step in \<open>auto simp: resp_step_def completed_event_def event_item_def\<close>)

lemma resp_loop_inv:
  "resp_inv seen cs s \<Longrightarrow> items_apart seen evs \<Longrightarrow> resp_loop evs s = (s', out, x) \<Longrightarrow>
   x = None \<and> resp_inv (rev (List.map_filter event_item evs) @ seen) (cs @ out) s'"
proof (induction evs arbitrary: seen cs s s' out x)
  case (Cons ev evs)
  obtain s1 out1 x1 where st: "resp_step ev s = (s1, out1, x1)" by (metis prod_cases3)
  have fr: "item_fresh seen y" if "event_item ev = Some y" for y using that Cons.prems(2) by simp
  have one: "x1 = None \<and> resp_inv (case event_item ev of None \<Rightarrow> seen | Some y \<Rightarrow> y # seen) (cs @ out1) s1"
    by (rule resp_step_inv [OF Cons.prems(1) fr st])
  obtain s2 out2 x2 where rest: "resp_loop evs s1 = (s2, out2, x2)" by (metis prod_cases3)
  have "x2 = None \<and> resp_inv (rev (List.map_filter event_item evs) @ (case event_item ev of None \<Rightarrow> seen | Some y \<Rightarrow> y # seen)) ((cs @ out1) @ out2) s2"
  proof (rule Cons.IH [OF _ _ rest])
    show "resp_inv (case event_item ev of None \<Rightarrow> seen | Some y \<Rightarrow> y # seen) (cs @ out1) s1" using one by simp
    show "items_apart (case event_item ev of None \<Rightarrow> seen | Some y \<Rightarrow> y # seen) evs" using Cons.prems(2) by (cases "event_item ev") simp_all
  qed
  then show ?case using Cons.prems(3) st one rest by (auto simp: List.map_filter_simps split: option.splits)
qed (simp add: List.map_filter_simps)

section \<open>Closing\<close>

lemma new_responses_inv: "resp_inv [] [] new_responses"
  by (rule resp_invI) (simp_all add: new_responses_def)

lemma item_ends_from: "ib \<in> set (item_ends s) \<Longrightarrow> \<exists>i e. (i, e) \<in> set (rs_items s) \<and> item_end e = Some ib"
  by (fastforce simp: item_ends_def List.map_filter_def)

lemma item_end_index: "item_end e = Some ib \<Longrightarrow> ie_index e = Some (fst ib) \<and> \<not> ie_ended e \<and> wire_type_agrees (ie_kind e) (snd ib)"
  by (auto simp: item_end_def block_agrees split: if_splits)

lemma item_ends_close:
  assumes inv: "resp_inv seen cs s"
  shows "distinct (map fst (item_ends s))" and "list_all (closes cs) (item_ends s)" and "\<forall>n \<in> fst ` set (item_ends s). \<not> ended cs n"
proof -
  have get: "dict_get (rs_items s) i = Some e" if "(i, e) \<in> set (rs_items s)" for i e
    using mem_dict_get [OF resp_invD(4) [OF inv] that] .
  have one: "closes cs ib \<and> \<not> ended cs (fst ib)" if ib: "ib \<in> set (item_ends s)" for ib
  proof -
    obtain i e where e: "(i, e) \<in> set (rs_items s)" "item_end e = Some ib" using item_ends_from [OF ib] by blast
    show ?thesis using resp_invD(5) [OF inv get [OF e(1)]] item_end_index [OF e(2)] by (auto simp: item_ok_def closes_def)
  qed
  then show "list_all (closes cs) (item_ends s)" "\<forall>n \<in> fst ` set (item_ends s). \<not> ended cs n" by (auto simp: list_all_iff)
  let ?xs = "filter (\<lambda>x. item_end (snd x) \<noteq> None) (rs_items s)"
  have "inj_on (fst \<circ> the \<circ> item_end \<circ> snd) (set ?xs)"
  proof (rule inj_onI)
    fix x y assume x: "x \<in> set ?xs" and y: "y \<in> set ?xs" and eq: "(fst \<circ> the \<circ> item_end \<circ> snd) x = (fst \<circ> the \<circ> item_end \<circ> snd) y"
    obtain bx where bx: "item_end (snd x) = Some bx" using x by auto
    obtain b where b: "item_end (snd y) = Some b" using y by auto
    have gx: "dict_get (rs_items s) (fst x) = Some (snd x)" and gy: "dict_get (rs_items s) (fst y) = Some (snd y)"
      using x y get [of "fst x" "snd x"] get [of "fst y" "snd y"] by simp_all
    have "fst bx = fst b" using eq bx b by simp
    then have "fst x = fst y"
      using resp_invD(6) [OF inv gx gy] item_end_index [OF bx] item_end_index [OF b] by simp
    then show "x = y" using gx gy by (intro prod_eqI) simp_all
  qed
  moreover have "distinct ?xs" using resp_invD(4) [OF inv] by (simp add: distinct_map)
  ultimately show "distinct (map fst (item_ends s))"
    by (simp add: item_ends_def List.map_filter_def comp_def distinct_map)
qed

lemma resp_closing_history:
  assumes inv: "resp_inv seen cs s"
  shows "obeys_protocol (cs @ resp_closing s)"
proof -
  note c = item_ends_close [OF inv]
  have o: "obeys_protocol (cs @ map end_chunk (item_ends s))"
    by (rule closing_obeys [OF resp_invD(1,2) [OF inv] c])
  have nf: "\<not> list_ex is_finish (cs @ map end_chunk (item_ends s))" using resp_invD(2) [OF inv] by simp
  show ?thesis using obeys_usage_finish(1) [OF o nf] by (simp add: resp_closing_def end_chunk_def [abs_def])
qed

lemma resp_all_closed:
  assumes inv: "resp_inv (rev (List.map_filter event_item evs)) cs s" and calls: "calls_done evs"
  shows "all_closed (cs @ resp_closing s)"
proof -
  have starts: "block_starts (cs @ resp_closing s) = block_starts cs"
    by (simp add: resp_closing_def usage_chunks_def flip: end_chunk_def split: option.split)
  have "ended (cs @ resp_closing s) (int k)" if k: "k < length (block_starts cs)" for k
  proof -
    have "started cs (int k)" using k by (simp add: started_def)
    then obtain i e where e: "dict_get (rs_items s) i = Some e" "ie_index e = Some (int k)" using resp_invD(7) [OF inv] by blast
    have ok: "item_ok (rev (List.map_filter event_item evs)) cs i e" by (rule resp_invD(5) [OF inv e(1)])
    show ?thesis
    proof (cases "ie_ended e")
      case True
      then show ?thesis using ok e(2) by (auto simp: item_ok_def ended_def)
    next
      case False
      show ?thesis
      proof (cases "ie_kind e = ''tool-call''")
        case True
        then obtain l where "(i, ''tool-call'', l) \<in> set (List.map_filter event_item evs)" using ok by (auto simp: item_ok_def)
        then obtain k' where "(i, k', True) \<in> set (List.map_filter event_item evs)"
          using calls by (fastforce simp: calls_done_def Let_def list_all_iff list_ex_iff)
        then have "\<exists>f. dict_get (rs_items s) i = Some f \<and> ie_ended f" using resp_invD(8) [OF inv, of i k'] by simp
        then show ?thesis using e False by simp
      next
        case other: False
        then obtain b where "item_end e = Some (int k, b)"
          using ok e(2) False by (auto simp: item_ok_def item_end_def BLOCK_TYPES_def)
        then have "(int k, b) \<in> set (item_ends s)" using map_of_SomeD [OF e(1)] by (force simp: item_ends_def List.map_filter_def)
        then have "ended (cs @ map end_chunk (item_ends s)) (int k)" by (force simp: ended_end_chunks)
        then show ?thesis by (auto simp: ended_def resp_closing_def end_chunk_def [abs_def])
      qed
    qed
  qed
  then show ?thesis unfolding all_closed_def starts by simp
qed

lemma closing_finishes: "list_ex is_finish (resp_closing s)"
  by (simp add: resp_closing_def)

lemma resp_answer_well_finished:
  assumes "items_apart [] (read_chunks u)"
  shows "well_finished (resp_answer px u)"
proof (cases "up_refused u")
  case (Some x)
  then show ?thesis using finish_obeys [of "[]" "failure_finish x"] by (simp add: well_finished_def resp_answer_def)
next
  case None
  obtain s out x where r: "resp_loop (read_chunks u) new_responses = (s, out, x)" by (metis prod_cases3)
  have inv: "x = None" "resp_inv (rev (List.map_filter event_item (read_chunks u))) out s"
    using resp_loop_inv [OF new_responses_inv assms r] by simp_all
  show ?thesis
    using None r inv resp_closing_history [OF inv(2)] closing_finishes [of s] finish_obeys [OF resp_invD(1,2) [OF inv(2)]]
      resp_invD(1,2) [OF inv(2)]
    by (cases "read_ending u") (auto simp: well_finished_def resp_answer_def guarded_def)
qed

text \<open>An answer that is complete: not refused, read to its end, ids used for one kind of item, and every call that was opened is done.\<close>

definition complete_responses :: "resp_event upstream \<Rightarrow> bool" where
  "complete_responses u \<longleftrightarrow> up_refused u = None \<and> read_ending u = Exhausted \<and> items_apart [] (read_chunks u) \<and> calls_done (read_chunks u)"

lemma resp_answer_accepted:
  assumes "complete_responses u"
  shows "obeys_protocol (fst (resp_answer px u)) \<and> all_closed (fst (resp_answer px u)) \<and> list_ex is_finish (fst (resp_answer px u))"
proof -
  obtain s out x where r: "resp_loop (read_chunks u) new_responses = (s, out, x)" by (metis prod_cases3)
  have inv: "x = None" "resp_inv (rev (List.map_filter event_item (read_chunks u))) out s"
    using resp_loop_inv [OF new_responses_inv _ r] assms by (simp_all add: complete_responses_def)
  have "fst (resp_answer px u) = out @ resp_closing s"
    using assms r inv closing_finishes [of s] by (simp add: complete_responses_def resp_answer_def guarded_def)
  then show ?thesis
    using resp_closing_history [OF inv(2)] resp_all_closed [OF inv(2)] closing_finishes [of s] assms
    by (simp add: complete_responses_def)
qed

section \<open>Claims\<close>

text \<open>
  C31: When the request is not refused and the stream ends normally, and the provider uses every item id for one kind of item,
  sends nothing for a call that is done and finishes the calls it opened, then the stream of the Responses adapter passes the
  assembler and its final validation, however text, reasoning and calls are interleaved and in whatever order the calls are
  done. (A stream that breaks off in the middle of a block leaves it open, and the validation refuses it.)
\<close>

theorem responses_stream_is_accepted:
  assumes "responses_params (sk_lib K) dumps a q = Inr ps" and "complete_responses (sk_create K ps)"
  shows "\<exists>s. feed_all (fst (responses_adapter K dumps a q)) = Inr s \<and> validate s = Inr ()"
  using resp_answer_accepted [OF assms(2)] assms(1) accepts_iff by (simp add: responses_adapter_def)

definition resp_call :: "string \<Rightarrow> string \<Rightarrow> string \<Rightarrow> string \<Rightarrow> resp_item" where
  "resp_call i c n args = \<lparr>it_id = i, it_type = ''function_call'', it_call_id = c, it_name = n, it_arguments = args, it_raw = []\<rparr>"

definition resp_done :: "string \<Rightarrow> resp_event" where
  "resp_done status = RespCompleted \<lparr>rr_meta = [], rr_usage = None, rr_status = status, rr_incomplete = False\<rparr>"

definition resp_streamed :: "resp_event list \<Rightarrow> resp_event upstream" where
  "resp_streamed evs = \<lparr>up_refused = None, up_chunks = evs, up_ending = Exhausted, up_cancel = None\<rparr>"

definition interleaved :: "resp_event upstream" where
  "interleaved = resp_streamed
     [RespReasoning ''r'' ''hm'', RespAdded (resp_call ''f'' ''c1'' ''ls'' []), RespText ''t'' ''o'', RespArguments ''f'' ''{}'',
      RespText ''t'' ''k'', RespDone (resp_call ''f'' ''c1'' ''ls'' ''{}''), resp_done ''completed'']"

definition resp_sdk :: "resp_event upstream \<Rightarrow> resp_event openai_sdk" where
  "resp_sdk u = \<lparr>sk_lib = sk_lib (sample_sdk two_calls), sk_create = (\<lambda>_. u), sk_raise = sk_raise (sample_sdk two_calls)\<rparr>"

lemma responses_sample_params: "responses_params (sk_lib (resp_sdk u)) (\<lambda>_. []) sample_oa empty_request =
  Inr [(''model'', JStr ''m''), (''input'', JList []), (''stream'', JBool True), (''store'', JBool False), (''tool_choice'', JStr ''auto'')]"
  by (simp add: responses_params_def wire_messages_def empty_request_def output_limit_def sample_oa_def resp_sdk_def
      set_opt_def convert_messages_def new_conversion_def convert_tools_def reasoning_enabled_def)

lemma interleaved_complete: "complete_responses interleaved"
  by (simp add: complete_responses_def interleaved_def resp_streamed_def read_ending_def was_cancelled_def read_chunks_def
      event_item_def resp_call_def resp_done_def item_fresh_def calls_done_def List.map_filter_simps Let_def)

lemma responses_stream_is_accepted_witness:
  "\<exists>s. feed_all (fst (responses_adapter (resp_sdk interleaved) (\<lambda>_. []) sample_oa empty_request)) = Inr s \<and> validate s = Inr ()"
proof -
  have "complete_responses (sk_create (resp_sdk interleaved) ps)" for ps using interleaved_complete by (simp add: resp_sdk_def)
  then show ?thesis using responses_stream_is_accepted [OF responses_sample_params] by blast
qed

text \<open>
  C32: Whatever history a request carries, the input the Responses adapter sends has every function call followed by
  its output and no output without its call, which is what the API demands: orphans of a history that was cut short
  are removed before the conversion, and the conversion loses and invents none.
\<close>

theorem responses_input_is_paired:
  assumes "responses_params L dumps a q = Inr ps"
  shows "\<exists>items. dict_get ps ''input'' = Some (JList (map JObj items)) \<and> paired items"
proof -
  obtain ms ins items tools limit where ms: "normalize_messages (reasoning_enabled a) (wire_messages q) = Inr ms"
    and c: "convert_messages (convert_options_of L dumps a) ms = Inr (ins, items)"
    and ps: "ps = set_opt ''tools'' (if tools = [] then None else Some (JList (map JObj tools)))
          (set_opt ''reasoning'' (if reasoning_enabled a then Some (JObj [(''effort'', JStr (oa_reasoning_effort a))]) else None)
          (set_opt ''temperature'' (oa_temperature a)
          (set_opt ''max_output_tokens'' limit (set_opt ''instructions'' (map_option JStr ins)
            [(''model'', JStr (oa_model a)), (''input'', JList (map JObj items)), (''stream'', JBool True),
             (''store'', JBool False), (''tool_choice'', JStr ''auto'')]))))"
    using assms by (auto simp: responses_params_def bind_r_Inr_iff Let_def)
  have keep: "k \<noteq> ''input'' \<Longrightarrow> dict_get (set_opt k v d) ''input'' = dict_get d ''input''" for k v d
    by (simp add: set_opt_def split: option.split)
  have "dict_get ps ''input'' = Some (JList (map JObj items))" unfolding ps by (simp add: keep)
  then show ?thesis using conversion_paired [OF ms c] by blast
qed

definition asked :: "jdict \<Rightarrow> llm_message" where
  "asked d = message_from_value (sk_lib (sample_sdk two_calls)) d"

definition history_request :: llm_request where
  "history_request = empty_request\<lparr>lq_messages :=
     [asked [(''role'', JStr ''tool''), (''tool_call_id'', JStr ''c9''), (''content'', JStr ''late'')],
      asked [(''role'', JStr ''user''), (''content'', JStr ''go'')],
      asked [(''role'', JStr ''assistant''), (''content'', JStr []),
        (''tool_calls'', JList [JObj [(''id'', JStr ''c1''), (''function'', JObj [(''name'', JStr ''ls''), (''arguments'', JStr ''{}'')])]])],
      asked [(''role'', JStr ''tool''), (''tool_call_id'', JStr ''c1''), (''content'', JStr ''files'')]]\<rparr>"

lemmas convert_eval = convert_messages_def new_conversion_def convert_message_def convert_assistant_def user_content_def
  assistant_content_def replay_reasoning_def reasoning_said_def convert_options_of_def role_item_def add_items_def
  function_call_item_def call_output_item_def join_json_def truthy_key_def get_or_def iter_json_def

lemma history_wire: "wire_messages history_request =
  [[(''tool_call_id'', JStr ''c9''), (''role'', JStr ''tool''), (''content'', JStr ''late'')],
   [(''role'', JStr ''user''), (''content'', JStr ''go'')],
   [(''tool_calls'', JList [JObj [(''id'', JStr ''c1''), (''function'', JObj [(''name'', JStr ''ls''), (''arguments'', JStr ''{}'')])]]),
    (''role'', JStr ''assistant''), (''content'', JStr [])],
   [(''tool_call_id'', JStr ''c1''), (''role'', JStr ''tool''), (''content'', JStr ''files'')]]"
  by (simp add: wire_messages_def history_request_def empty_request_def asked_def message_from_value_def message_to_mapping_def
      get_or_def py_str_def Let_def)

lemma history_params: "\<exists>ps. responses_params (sk_lib (resp_sdk u)) (\<lambda>_. []) sample_oa history_request = Inr ps \<and>
  dict_get ps ''input'' = Some (JList (map JObj
    [role_item ''user'' (JStr ''go''),
     [(''type'', JStr ''function_call''), (''call_id'', JStr ''c1''), (''name'', JStr ''ls''), (''arguments'', JStr ''{}'')],
     [(''type'', JStr ''function_call_output''), (''call_id'', JStr ''c1''), (''output'', JStr ''files'')]]))"
proof -
  have tools: "lq_tools history_request = []" by (simp add: history_request_def empty_request_def)
  show ?thesis
    by (simp add: responses_params_def history_wire tools reasoning_enabled_def sample_oa_def output_limit_def convert_tools_def set_opt_def
        normalize_eval convert_eval all_blank.simps [of "[]"])
qed

lemma responses_input_is_paired_witness:
  "\<exists>ps items. responses_params (sk_lib (resp_sdk interleaved)) (\<lambda>_. []) sample_oa history_request = Inr ps \<and>
     dict_get ps ''input'' = Some (JList (map JObj items)) \<and> paired items \<and> calls_in items = [JStr ''c1'']"
proof -
  let ?items = "[role_item ''user'' (JStr ''go''),
     [(''type'', JStr ''function_call''), (''call_id'', JStr ''c1''), (''name'', JStr ''ls''), (''arguments'', JStr ''{}'')],
     [(''type'', JStr ''function_call_output''), (''call_id'', JStr ''c1''), (''output'', JStr ''files'')]]"
  obtain ps where ps: "responses_params (sk_lib (resp_sdk interleaved)) (\<lambda>_. []) sample_oa history_request = Inr ps"
    and i: "dict_get ps ''input'' = Some (JList (map JObj ?items))" using history_params by blast
  obtain items where "dict_get ps ''input'' = Some (JList (map JObj items))" "paired items"
    using responses_input_is_paired [OF ps] by blast
  moreover from this(1) i have "map JObj items = map JObj ?items" by simp
  then have "items = ?items" by (rule map_injective) (simp add: inj_on_def)
  ultimately show ?thesis using ps by (intro exI [of _ ps] exI [of _ items]) (simp add: item_ids_def role_item_def get_or_def)
qed

section \<open>Weak spots\<close>

text \<open>
  The arguments of a call that come only with the finished item are in the block end, which the assembler does not read:
  the assembled call has no id, no name and no arguments.
\<close>

lemma done_only_call_is_empty:
  "(case feed_all (fst (resp_answer px (resp_streamed
      [RespAdded (resp_call ''f'' ''c1'' ''ls'' []), RespDone (resp_call ''f'' ''c1'' ''ls'' ''{}''), resp_done ''completed'']))) of
      Inl e \<Rightarrow> [] | Inr s \<Rightarrow> blocks s) = [wire_call [] [] []]"
  by (simp add: resp_answer_def resp_streamed_def read_chunks_def read_ending_def was_cancelled_def resp_call_def resp_done_def
      new_responses_def resp_step_def added_event_def done_event_def completed_event_def open_item_def item_default_def new_item_def
      put_item_def keep_output_def guarded_def resp_closing_def item_ends_def item_end_def List.map_filter_simps usage_chunks_def
      normalize_usage_def resp_finish_def feed_all_def assembler_defs BLOCK_TYPES_def wire_call_def wire_type_agrees_def wire_type_def
      finalize_block_def blocks_def is_tool_call_def Let_def)

text \<open>A text event for an item that was announced as a call raises inside the loop, and the answer ends with an error.\<close>

lemma mixed_item_fails:
  "fst (resp_answer px (resp_streamed [RespAdded (resp_call ''f'' ''c1'' ''ls'' []), RespText ''f'' ''hi''])) =
   [BlockStart 0 ''text'', failure_finish (px KeyError)]"
  by (simp add: resp_answer_def resp_streamed_def read_chunks_def read_ending_def was_cancelled_def resp_call_def new_responses_def
      resp_step_def added_event_def text_event_def open_item_def item_default_def new_item_def put_item_def guarded_def Let_def)

text \<open>A stream cut off by \<open>cancel()\<close> is reported as an error of the provider, never as aborted.\<close>

lemma cancelled_responses_are_error:
  "fst (resp_answer px ((resp_streamed [RespText ''t'' ''The '', RespText ''t'' ''end'', resp_done ''completed''])\<lparr>up_cancel := Some 1\<rparr>)) =
   [BlockStart 0 ''text'', TextDelta 0 ''The '', BlockEnd 0 (wire_text ''The ''), FinishChunk (resp_finish new_responses)]"
  by (simp add: resp_answer_def resp_streamed_def read_chunks_def read_ending_def was_cancelled_def new_responses_def
      resp_step_def text_event_def open_item_def item_default_def new_item_def put_item_def guarded_def resp_closing_def
      item_ends_def item_end_def List.map_filter_simps usage_chunks_def resp_finish_def Let_def)

end
