(* ===== verification/SnapshotCoordinator.thy ===== *)
theory SnapshotCoordinator
  imports Prelude
begin

text \<open>
  The coordinator that decides when the checkpoint of a session is written (\<open>SnapshotCoordinator\<close> in
  \<open>src/ftre/services/session/persistence/snapshot.py\<close>).

  Sessions do not share anything in it, so the model is that of one session: its entry in \<open>_states\<close>, its task in
  \<open>_tasks\<close>, and the events, flushes, writes and cancellations that other tasks interleave with it. A mark is one call
  of \<open>mark_dirty\<close>; marks are counted, and a write covers the marks made before it started, since the checkpoint is
  captured before the first \<open>await\<close> of the write. Between two \<open>await\<close>s the task runs alone, so each stretch of
  \<open>_run\<close> from one to the next is one step. A future is answered at most once.
\<close>

section \<open>The state\<close>

record pending_snapshot =
  pn_wake :: bool
  pn_dirty :: bool
  pn_immediate :: bool
  pn_generation :: nat
  pn_waiters :: "nat list"

text \<open>
  Where the task of the session is: created and not yet run, in the wait for the window with the generation it saw,
  in a write with that generation and the marks the write covers, or in the pause after a failed write.
\<close>

datatype snapshot_runner = Scheduled | Waiting nat | Writing nat nat | Sleeping

datatype flush_answer = Flushed | FlushFailed | FlushCancelled

record coordinator =
  sc_pending :: "pending_snapshot option"
  sc_task :: "snapshot_runner option"
  sc_base :: nat
  sc_marks :: nat
  sc_saved :: nat
  sc_asked :: "nat list"
  sc_answers :: "(nat, flush_answer) dict"

definition new_coordinator :: coordinator where
  "new_coordinator = \<lparr>sc_pending = None, sc_task = None, sc_base = 0, sc_marks = 0, sc_saved = 0, sc_asked = [], sc_answers = []\<rparr>"

definition new_pending :: pending_snapshot where
  "new_pending = \<lparr>pn_wake = False, pn_dirty = False, pn_immediate = False, pn_generation = 0, pn_waiters = []\<rparr>"

definition ensure_task :: "coordinator \<Rightarrow> coordinator" where
  "ensure_task w = (case sc_task w of None \<Rightarrow> w\<lparr>sc_task := Some Scheduled\<rparr> | Some t \<Rightarrow> w)"

section \<open>Marks and flushes\<close>

definition mark_session :: "bool \<Rightarrow> coordinator \<Rightarrow> coordinator" where
  "mark_session immediate w =
     (let p = (case sc_pending w of None \<Rightarrow> new_pending | Some p \<Rightarrow> p);
          base = (case sc_pending w of None \<Rightarrow> sc_marks w | Some p \<Rightarrow> sc_base w)
      in ensure_task (w\<lparr>sc_pending := Some (p\<lparr>pn_dirty := True, pn_generation := pn_generation p + 1,
             pn_immediate := pn_immediate p \<or> immediate, pn_wake := True\<rparr>),
           sc_base := base, sc_marks := sc_marks w + 1\<rparr>))"

definition answer_waiter :: "flush_answer \<Rightarrow> nat \<Rightarrow> (nat, flush_answer) dict \<Rightarrow> (nat, flush_answer) dict" where
  "answer_waiter a i d = (if dict_get d i = None then dict_set i a d else d)"

definition answer_all :: "flush_answer \<Rightarrow> nat list \<Rightarrow> (nat, flush_answer) dict \<Rightarrow> (nat, flush_answer) dict" where
  "answer_all a is d = fold (answer_waiter a) is d"

text \<open>
  A flush of a session that is clean returns at once (its task, if there is one, is about to end); otherwise it waits
  for the next write that covers everything.
\<close>

definition flush_call :: "coordinator \<Rightarrow> coordinator" where
  "flush_call w =
     (let i = length (sc_asked w); w' = w\<lparr>sc_asked := sc_asked w @ [sc_marks w]\<rparr>
      in case sc_pending w of
           Some p \<Rightarrow>
             (if pn_dirty p
              then ensure_task (w'\<lparr>sc_pending := Some (p\<lparr>pn_waiters := pn_waiters p @ [i], pn_immediate := True, pn_wake := True\<rparr>)\<rparr>)
              else w'\<lparr>sc_answers := answer_waiter Flushed i (sc_answers w)\<rparr>)
         | None \<Rightarrow> w'\<lparr>sc_answers := answer_waiter Flushed i (sc_answers w)\<rparr>)"

definition flush_cancelled :: "nat \<Rightarrow> coordinator \<Rightarrow> coordinator" where
  "flush_cancelled i w = w\<lparr>sc_answers := answer_waiter FlushCancelled i (sc_answers w)\<rparr>"

text \<open>The session is deleted: what it had not saved goes with it.\<close>

definition detach_session :: "coordinator \<Rightarrow> coordinator" where
  "detach_session w =
     w\<lparr>sc_pending := None, sc_task := None, sc_saved := sc_marks w,
       sc_answers := (case sc_pending w of None \<Rightarrow> sc_answers w | Some p \<Rightarrow> answer_all FlushCancelled (pn_waiters p) (sc_answers w))\<rparr>"

section \<open>The task\<close>

text \<open>After the wait: the write starts, unless there is nothing left to write.\<close>

definition begin_write :: "nat \<Rightarrow> pending_snapshot \<Rightarrow> coordinator \<Rightarrow> coordinator" where
  "begin_write g p w =
     w\<lparr>sc_pending := Some (p\<lparr>pn_wake := False, pn_immediate := False\<rparr>),
       sc_task := (if pn_dirty p then Some (Writing g (sc_marks w)) else None)\<rparr>"

text \<open>The head of the loop; a wait for an event that is set does not suspend the task.\<close>

definition loop_head :: "pending_snapshot \<Rightarrow> coordinator \<Rightarrow> coordinator" where
  "loop_head p w =
     (if \<not> pn_dirty p then w\<lparr>sc_pending := Some p, sc_task := None\<rparr>
      else if pn_immediate p \<or> pn_wake p then begin_write (pn_generation p) p w
      else w\<lparr>sc_pending := Some p, sc_task := Some (Waiting (pn_generation p))\<rparr>)"

definition write_succeeds :: "nat \<Rightarrow> nat \<Rightarrow> pending_snapshot \<Rightarrow> coordinator \<Rightarrow> coordinator" where
  "write_succeeds g c p w =
     (if pn_generation p = g
      then loop_head (p\<lparr>pn_dirty := False, pn_waiters := []\<rparr>)
             (w\<lparr>sc_saved := c, sc_answers := answer_all Flushed (pn_waiters p) (sc_answers w)\<rparr>)
      else loop_head (p\<lparr>pn_immediate := True\<rparr>) (w\<lparr>sc_saved := c\<rparr>))"

definition write_fails :: "pending_snapshot \<Rightarrow> coordinator \<Rightarrow> coordinator" where
  "write_fails p w =
     w\<lparr>sc_pending := Some (p\<lparr>pn_waiters := []\<rparr>), sc_task := Some Sleeping,
       sc_answers := answer_all FlushFailed (pn_waiters p) (sc_answers w)\<rparr>"

text \<open>
  One stretch of the task. \<open>ok\<close> says whether the write that ends went through. A wait may end at any moment, by an
  event or by the window.
\<close>

definition run_step :: "bool \<Rightarrow> coordinator \<Rightarrow> coordinator" where
  "run_step ok w =
     (case (sc_task w, sc_pending w) of
        (Some Scheduled, Some p) \<Rightarrow> loop_head p w
      | (Some (Waiting g), Some p) \<Rightarrow> begin_write g p w
      | (Some (Writing g c), Some p) \<Rightarrow> (if ok then write_succeeds g c p w else write_fails p w)
      | (Some Sleeping, Some p) \<Rightarrow> loop_head p w
      | _ \<Rightarrow> w)"

inductive coordinator_step :: "coordinator \<Rightarrow> coordinator \<Rightarrow> bool" where
  marked: "coordinator_step w (mark_session immediate w)"
| flush_asked: "coordinator_step w (flush_call w)"
| flush_given_up: "i < length (sc_asked w) \<Longrightarrow> coordinator_step w (flush_cancelled i w)"
| detached: "coordinator_step w (detach_session w)"
| task_runs: "coordinator_step w (run_step ok w)"

section \<open>The invariant\<close>

definition task_fits :: "pending_snapshot \<Rightarrow> coordinator \<Rightarrow> bool" where
  "task_fits p w \<longleftrightarrow>
     (case sc_task w of
        None \<Rightarrow> \<not> pn_dirty p
      | Some (Waiting g) \<Rightarrow> pn_dirty p \<and> g \<le> pn_generation p
      | Some (Writing g c) \<Rightarrow> pn_dirty p \<and> sc_base w + g \<le> c \<and> c \<le> sc_marks w \<and> sc_saved w \<le> c
      | Some t \<Rightarrow> pn_dirty p)"

definition coordinator_ok :: "coordinator \<Rightarrow> bool" where
  "coordinator_ok w \<longleftrightarrow> sc_saved w \<le> sc_marks w \<and>
     (\<forall>i \<in> set [0..<length (sc_asked w)]. sc_asked w ! i \<le> sc_marks w) \<and>
     (\<forall>i. dict_get (sc_answers w) i = Some Flushed \<longrightarrow> i < length (sc_asked w) \<and> sc_asked w ! i \<le> sc_saved w) \<and>
     (\<forall>i. dict_get (sc_answers w) i \<noteq> None \<longrightarrow> i < length (sc_asked w)) \<and>
     (case sc_pending w of
        None \<Rightarrow> sc_task w = None \<and> sc_saved w = sc_marks w \<and> (\<forall>i \<in> set [0..<length (sc_asked w)]. dict_get (sc_answers w) i \<noteq> None)
      | Some p \<Rightarrow> sc_marks w = sc_base w + pn_generation p \<and> task_fits p w \<and>
          (\<not> pn_dirty p \<longrightarrow> sc_saved w = sc_marks w) \<and>
          (\<forall>i \<in> set (pn_waiters p). i < length (sc_asked w)) \<and>
          (\<forall>i \<in> set [0..<length (sc_asked w)]. dict_get (sc_answers w) i = None \<longrightarrow> i \<in> set (pn_waiters p) \<and> pn_dirty p))"

lemma get_answer_waiter [simp]:
  "dict_get (answer_waiter a i d) j = (if j = i \<and> dict_get d i = None then Some a else dict_get d j)"
  by (simp add: answer_waiter_def)

lemma get_answer_all [simp]:
  "dict_get (answer_all a is d) j = (if j \<in> set is \<and> dict_get d j = None then Some a else dict_get d j)"
  by (induction "is" arbitrary: d) (auto simp: answer_all_def)

lemmas coordinator_defs = coordinator_ok_def task_fits_def ensure_task_def Let_def

lemma new_coordinator_ok: "coordinator_ok new_coordinator"
  by (simp add: coordinator_defs new_coordinator_def)

lemma mark_ok: "coordinator_ok w \<Longrightarrow> coordinator_ok (mark_session b w)"
  by (auto simp: coordinator_defs mark_session_def new_pending_def le_Suc_eq split: option.splits snapshot_runner.splits)

lemma flush_call_ok: "coordinator_ok w \<Longrightarrow> coordinator_ok (flush_call w)"
  by (auto simp: coordinator_defs flush_call_def nth_append less_Suc_eq split: option.splits snapshot_runner.splits)

lemma flush_cancelled_ok: "coordinator_ok w \<Longrightarrow> i < length (sc_asked w) \<Longrightarrow> coordinator_ok (flush_cancelled i w)"
  by (auto simp: coordinator_defs flush_cancelled_def split: option.splits snapshot_runner.splits)

lemma detach_ok: "coordinator_ok w \<Longrightarrow> coordinator_ok (detach_session w)"
  by (auto simp: coordinator_defs detach_session_def split: option.splits snapshot_runner.splits intro: order_trans)

text \<open>What the head of the loop needs: everything the invariant says but for the task.\<close>

definition between_steps :: "pending_snapshot \<Rightarrow> coordinator \<Rightarrow> bool" where
  "between_steps p w \<longleftrightarrow> coordinator_ok (w\<lparr>sc_pending := Some p, sc_task := (if pn_dirty p then Some Sleeping else None)\<rparr>)"

lemma begin_write_ok: "between_steps p w \<Longrightarrow> g \<le> pn_generation p \<Longrightarrow> coordinator_ok (begin_write g p w)"
  by (cases "pn_dirty p") (auto simp: coordinator_defs between_steps_def begin_write_def)

lemma loop_head_ok: "between_steps p w \<Longrightarrow> coordinator_ok (loop_head p w)"
  using begin_write_ok [of p w "pn_generation p"]
  by (cases "pn_dirty p") (auto simp: coordinator_defs between_steps_def loop_head_def)

lemma writing_facts:
  assumes "coordinator_ok w" "sc_pending w = Some p" "sc_task w = Some (Writing g c)"
  shows "sc_saved w \<le> c" "c \<le> sc_marks w" "sc_base w + g \<le> c" "sc_marks w = sc_base w + pn_generation p" "pn_dirty p"
    and "i < length (sc_asked w) \<Longrightarrow> sc_asked w ! i \<le> sc_marks w"
    and "i < length (sc_asked w) \<Longrightarrow> dict_get (sc_answers w) i = None \<Longrightarrow> i \<in> set (pn_waiters p)"
    and "i < length (sc_asked w) \<Longrightarrow> i \<notin> set (pn_waiters p) \<Longrightarrow> \<exists>a. dict_get (sc_answers w) i = Some a"
    and "i \<in> set (pn_waiters p) \<Longrightarrow> i < length (sc_asked w)"
    and "dict_get (sc_answers w) i = Some Flushed \<Longrightarrow> sc_asked w ! i \<le> sc_saved w"
    and "dict_get (sc_answers w) i = Some a \<Longrightarrow> i < length (sc_asked w)"
  using assms by (auto simp: coordinator_defs)

lemma write_succeeds_ok:
  assumes "coordinator_ok w" "sc_pending w = Some p" "sc_task w = Some (Writing g c)"
  shows "coordinator_ok (write_succeeds g c p w)"
proof (cases "pn_generation p = g")
  case True
  note known = writing_facts [OF assms]
  have all: "c = sc_marks w" using known(2,3,4) True by simp
  have "between_steps (p\<lparr>pn_dirty := False, pn_waiters := []\<rparr>)
      (w\<lparr>sc_saved := c, sc_answers := answer_all Flushed (pn_waiters p) (sc_answers w)\<rparr>)"
    unfolding between_steps_def coordinator_defs
    using known(4,6-9,11) by (auto simp: all split: if_splits)
  then show ?thesis using True by (simp add: write_succeeds_def loop_head_ok)
next
  case False
  note known = writing_facts [OF assms]
  have "between_steps (p\<lparr>pn_immediate := True\<rparr>) (w\<lparr>sc_saved := c\<rparr>)"
    unfolding between_steps_def coordinator_defs
    using known(2,4-9,11) by (auto intro: order_trans [OF known(10) known(1)])
  then show ?thesis using False by (simp add: write_succeeds_def loop_head_ok)
qed

lemma write_fails_ok:
  assumes "coordinator_ok w" "sc_pending w = Some p" "sc_task w = Some (Writing g c)"
  shows "coordinator_ok (write_fails p w)"
proof -
  note known = writing_facts [OF assms]
  have "sc_saved w \<le> sc_marks w" using known(1,2) by simp
  then show ?thesis
    unfolding write_fails_def coordinator_defs using known(4-11) by (auto split: if_splits)
qed

lemma run_step_ok:
  assumes "coordinator_ok w"
  shows "coordinator_ok (run_step ok w)"
proof (cases "sc_pending w")
  case None
  then show ?thesis using assms by (simp add: run_step_def split: option.splits snapshot_runner.splits)
next
  case (Some p)
  have ready: "between_steps p w" if "sc_task w = Some t" "\<forall>g c. t \<noteq> Writing g c" for t
    using assms that Some by (cases t) (auto simp: coordinator_defs between_steps_def)
  show ?thesis
  proof (cases "sc_task w")
    case None
    then show ?thesis using assms by (simp add: run_step_def)
  next
    case task: (Some t)
    have "g \<le> pn_generation p" if "t = Waiting g" for g
      using assms that Some task by (auto simp: coordinator_defs)
    then show ?thesis
      using assms Some task ready [OF task]
      by (cases t) (auto simp: run_step_def intro: loop_head_ok begin_write_ok write_succeeds_ok write_fails_ok)
  qed
qed

lemma coordinator_step_ok: "coordinator_step w w' \<Longrightarrow> coordinator_ok w \<Longrightarrow> coordinator_ok w'"
  by (induction rule: coordinator_step.induct)
    (auto intro: mark_ok flush_call_ok flush_cancelled_ok detach_ok run_step_ok)

lemma coordinator_steps_ok: "coordinator_step\<^sup>*\<^sup>* w w' \<Longrightarrow> coordinator_ok w \<Longrightarrow> coordinator_ok w'"
  by (induction rule: rtranclp_induct) (auto intro: coordinator_step_ok)

section \<open>What is promised\<close>

definition coordinator_reachable :: "coordinator \<Rightarrow> bool" where
  "coordinator_reachable w \<longleftrightarrow> coordinator_step\<^sup>*\<^sup>* new_coordinator w"

lemma reachable_ok: "coordinator_reachable w \<Longrightarrow> coordinator_ok w"
  unfolding coordinator_reachable_def using coordinator_steps_ok new_coordinator_ok by blast

definition session_dirty :: "coordinator \<Rightarrow> bool" where
  "session_dirty w \<longleftrightarrow> (\<exists>p. sc_pending w = Some p \<and> pn_dirty p)"

text \<open>
  C33: a flush that is told its checkpoint is written is told the truth. However events, flushes, failed and successful
  writes, cancellations and the deletion of the session are interleaved, every mark made before such a flush was asked
  is covered by a write that went through (or went with the deleted session).
\<close>
theorem flushed_means_saved:
  assumes "coordinator_reachable w" "dict_get (sc_answers w) i = Some Flushed"
  shows "i < length (sc_asked w) \<and> sc_asked w ! i \<le> sc_saved w"
  using reachable_ok [OF assms(1)] assms(2) by (auto simp: coordinator_ok_def)

definition sample_coordinator :: coordinator where
  "sample_coordinator = run_step True (run_step True (flush_call (mark_session False new_coordinator)))"

lemma sample_reachable: "coordinator_reachable sample_coordinator"
  unfolding coordinator_reachable_def sample_coordinator_def
  by (meson coordinator_step.intros rtranclp.rtrancl_into_rtrancl rtranclp.rtrancl_refl)

theorem flushed_means_saved_witness:
  "dict_get (sc_answers sample_coordinator) 0 = Some Flushed \<and> sc_asked sample_coordinator ! 0 \<le> sc_saved sample_coordinator"
proof -
  have "dict_get (sc_answers sample_coordinator) 0 = Some Flushed" by code_simp
  then show ?thesis using flushed_means_saved [OF sample_reachable, of 0] by simp
qed

text \<open>
  Nothing is forgotten: while a mark is not saved its session is dirty and has a task, and so has a flush without answer.
\<close>

lemma unsaved_is_dirty:
  assumes "coordinator_ok w" "sc_saved w < sc_marks w"
  shows "session_dirty w \<and> sc_task w \<noteq> None"
  using assms by (auto simp: coordinator_defs session_dirty_def split: option.splits)

lemma unanswered_is_dirty:
  assumes "coordinator_ok w" "i < length (sc_asked w)" "dict_get (sc_answers w) i = None"
  shows "session_dirty w \<and> sc_task w \<noteq> None"
  using assms by (auto simp: coordinator_defs session_dirty_def split: option.splits)

lemma clean_is_saved:
  assumes "coordinator_ok w" "\<not> session_dirty w"
  shows "sc_saved w = sc_marks w \<and> (\<forall>i < length (sc_asked w). dict_get (sc_answers w) i \<noteq> None)"
  using assms unsaved_is_dirty [of w] unanswered_is_dirty [of w] by (force simp: coordinator_ok_def)

text \<open>How many stretches of the task are left when nothing disturbs it and the writes go through.\<close>

definition stretches_left :: "coordinator \<Rightarrow> nat" where
  "stretches_left w =
     (case sc_pending w of
        None \<Rightarrow> 0
      | Some p \<Rightarrow> (if \<not> pn_dirty p then 0
          else case sc_task w of
            Some (Writing g c) \<Rightarrow> (if g = pn_generation p then 1 else 2)
          | Some (Waiting g) \<Rightarrow> (if g = pn_generation p then 2 else 3)
          | _ \<Rightarrow> (if pn_immediate p \<or> pn_wake p then 2 else 3)))"

lemma loop_head_left:
  "pn_dirty p \<Longrightarrow> stretches_left (loop_head p w) = (if pn_immediate p \<or> pn_wake p then 1 else 2)"
  "\<not> pn_dirty p \<Longrightarrow> stretches_left (loop_head p w) = 0"
  by (simp_all add: loop_head_def begin_write_def stretches_left_def)

lemma run_step_progress:
  assumes ok: "coordinator_ok w" and dirty: "session_dirty w"
  shows "stretches_left (run_step True w) < stretches_left w"
proof -
  obtain p where p: "sc_pending w = Some p" "pn_dirty p" using dirty by (auto simp: session_dirty_def)
  then obtain t where t: "sc_task w = Some t" using ok by (auto simp: coordinator_defs split: option.splits)
  show ?thesis
  proof (cases t)
    case (Waiting g)
    then show ?thesis using p t by (simp add: run_step_def begin_write_def stretches_left_def)
  next
    case (Writing g c)
    then have left: "stretches_left w = (if g = pn_generation p then 1 else 2)" using p t by (simp add: stretches_left_def)
    have "stretches_left (write_succeeds g c p w) = (if g = pn_generation p then 0 else 1)"
      using p by (simp add: write_succeeds_def loop_head_left)
    then show ?thesis using Writing p t left by (simp add: run_step_def)
  qed (use p t in \<open>simp_all add: run_step_def loop_head_left\<close>, simp_all add: stretches_left_def)
qed

lemma clean_session_rests: "coordinator_ok w \<Longrightarrow> \<not> session_dirty w \<Longrightarrow> run_step ok w = w"
  by (auto simp: coordinator_defs session_dirty_def run_step_def split: option.splits snapshot_runner.splits)

lemma stretches_bound: "stretches_left w \<le> 3"
  by (auto simp: stretches_left_def split: option.splits snapshot_runner.splits)

lemma drained:
  assumes "coordinator_ok w" "stretches_left w \<le> n"
  shows "\<not> session_dirty ((run_step True ^^ n) w)"
  using assms
proof (induction n arbitrary: w)
  case 0
  then show ?case using run_step_progress by fastforce
next
  case (Suc n)
  show ?case
  proof (cases "session_dirty w")
    case True
    have "stretches_left (run_step True w) \<le> n"
      using run_step_progress [OF Suc.prems(1) True] Suc.prems(2) by simp
    then show ?thesis using Suc.IH [OF run_step_ok [OF Suc.prems(1)]] by (simp add: funpow_swap1)
  next
    case False
    have "(run_step True ^^ Suc n) w = w"
      by (induction n) (simp_all add: clean_session_rests Suc.prems(1) False)
    then show ?thesis using False by simp
  qed
qed

lemma run_steps_ok: "coordinator_ok w \<Longrightarrow> coordinator_ok ((run_step ok ^^ n) w)"
  by (induction n) (simp_all add: run_step_ok)

lemma step_keeps_marks: "sc_marks (run_step ok w) = sc_marks w \<and> sc_asked (run_step ok w) = sc_asked w"
  by (simp add: run_step_def loop_head_def begin_write_def write_succeeds_def write_fails_def split: option.splits snapshot_runner.splits)

lemma steps_keep_marks: "sc_marks ((run_step ok ^^ n) w) = sc_marks w \<and> sc_asked ((run_step ok ^^ n) w) = sc_asked w"
  by (induction n) (simp_all add: step_keeps_marks)

text \<open>
  C34: from every state the coordinator can reach, three stretches of its task whose writes go through leave nothing
  unsaved: every mark made so far is covered, every flush has its answer, and no task is left behind.
\<close>
theorem coordinator_catches_up:
  assumes "coordinator_reachable w"
  shows "sc_saved ((run_step True ^^ 3) w) = sc_marks w \<and>
    list_all (\<lambda>i. dict_get (sc_answers ((run_step True ^^ 3) w)) i \<noteq> None) [0..<length (sc_asked w)] \<and>
    sc_task ((run_step True ^^ 3) w) = None"
proof -
  let ?e = "(run_step True ^^ 3) w"
  have ok: "coordinator_ok ?e" using reachable_ok [OF assms] by (rule run_steps_ok)
  have clean: "\<not> session_dirty ?e" using drained [OF reachable_ok [OF assms] stretches_bound] .
  have "sc_task ?e = None"
    using ok clean by (auto simp: coordinator_defs session_dirty_def split: option.splits snapshot_runner.splits)
  then show ?thesis
    using clean_is_saved [OF ok clean] steps_keep_marks [where ok = True and n = 3 and w = w]
    by (auto simp: list_all_iff)
qed

definition disturbed_coordinator :: coordinator where
  "disturbed_coordinator =
     flush_call (mark_session False (run_step True (run_step True (mark_session True new_coordinator))))"

lemma disturbed_reachable: "coordinator_reachable disturbed_coordinator"
  unfolding coordinator_reachable_def disturbed_coordinator_def
  by (meson coordinator_step.intros rtranclp.rtrancl_into_rtrancl rtranclp.rtrancl_refl)

theorem coordinator_catches_up_witness:
  "sc_saved ((run_step True ^^ 3) disturbed_coordinator) = 2 \<and> dict_get (sc_answers ((run_step True ^^ 3) disturbed_coordinator)) 0 \<noteq> None"
proof -
  have "sc_marks disturbed_coordinator = 2" "length (sc_asked disturbed_coordinator) = 1" by code_simp+
  then show ?thesis using coordinator_catches_up [OF disturbed_reachable] by simp
qed

text \<open>
  The window is not what the description of the class says: \<open>mark_dirty\<close> sets \<open>wake\<close>, the first wait of the task finds
  it set and does not wait, so the checkpoint of the first event starts at the task's first stretch whatever
  \<open>immediate\<close> is. Only after a failed write does the task wait for a window.
\<close>

lemma window_is_skipped:
  "sc_task (run_step ok (mark_session False new_coordinator)) = Some (Writing 1 1)"
  by (simp add: run_step_def mark_session_def new_coordinator_def new_pending_def ensure_task_def loop_head_def begin_write_def)

lemma window_after_failure:
  "sc_task (run_step ok (run_step False (run_step ok (mark_session True new_coordinator)))) = Some (Waiting 1)"
  by (simp add: run_step_def mark_session_def new_coordinator_def new_pending_def ensure_task_def loop_head_def
      begin_write_def write_fails_def)

end
