(* ===== verification/Commands.thy ===== *)
theory Commands
  imports InboxService
begin

text \<open>
  Slash commands (\<open>src/ftre/plugins/builtin/command\<close>): the registry and the execution of \<open>CommandRuntime\<close>
  (\<open>manager.py\<close>), the tasks of \<open>CommandService\<close> (\<open>service.py\<close>) and the listener that decides before the inbox what
  is a command (\<open>plugin.py\<close>).

  A definition has an identity (\<open>cd_ref\<close>), which the code compares with \<open>is\<close>. What a handler answers is input of a
  step, as are the outcomes of the awaited writes of life cycle events and cancellations: a command runs in a task of
  its own, other tasks run at each of its \<open>await\<close>s, so a task is a state machine with one step per stretch.
\<close>

section \<open>Data\<close>

record command_def =
  cd_ref :: nat
  cd_command :: string
  cd_description :: string
  cd_args_hint :: string
  cd_system :: bool
  cd_persist_input :: bool
  cd_source :: string
  cd_handled :: bool

record command_result =
  cm_kind :: string
  cm_text :: string
  cm_event_seq :: "int option"

definition command_success :: "string \<Rightarrow> command_result" where
  "command_success t = \<lparr>cm_kind = ''success'', cm_text = t, cm_event_seq = None\<rparr>"

definition command_error :: "string \<Rightarrow> command_result result" where
  "command_error t = (if py_strip t = [] then Inl ValueError else Inr \<lparr>cm_kind = ''error'', cm_text = t, cm_event_seq = None\<rparr>)"

record command_runtime =
  cr_system :: "command_def list"
  cr_user :: "command_def list"
  cr_sequence :: nat
  cr_results :: "(string, command_result) dict"

definition new_commands :: command_runtime where
  "new_commands = \<lparr>cr_system = [], cr_user = [], cr_sequence = 0, cr_results = []\<rparr>"

section \<open>The registry\<close>

text \<open>\<open>len\<close> counts characters; a byte that continues a character does not count.\<close>

definition char_length :: "string \<Rightarrow> nat" where
  "char_length s = length (filter (\<lambda>c. \<not> (128 \<le> (of_char c :: nat) \<and> (of_char c :: nat) < 192)) s)"

definition command_entries :: "bool \<Rightarrow> command_runtime \<Rightarrow> command_def list" where
  "command_entries system rt = (if system then cr_system rt else cr_user rt)"

definition put_entries :: "bool \<Rightarrow> command_def list \<Rightarrow> command_runtime \<Rightarrow> command_runtime" where
  "put_entries system es rt = (if system then rt\<lparr>cr_system := es\<rparr> else rt\<lparr>cr_user := es\<rparr>)"

definition register_def :: "command_def \<Rightarrow> command_runtime \<Rightarrow> command_runtime result" where
  "register_def d rt =
     (let es = command_entries (cd_system d) rt
      in if \<not> cd_handled d \<or> list_ex (\<lambda>e. cd_command e = cd_command d) es then Inl ValueError
         else Inr (put_entries (cd_system d) (sort_key (\<lambda>e. - int (char_length (cd_command e))) (es @ [d])) rt))"

text \<open>\<open>unregister\<close>, which is also what the disposer of a registration does: by name, system commands first.\<close>

fun drop_command :: "string \<Rightarrow> command_def list \<Rightarrow> command_def list option" where
  "drop_command c [] = None"
| "drop_command c (d # ds) = (if cd_command d = c then Some ds else map_option (Cons d) (drop_command c ds))"

definition unregister :: "string \<Rightarrow> command_runtime \<Rightarrow> command_runtime \<times> bool" where
  "unregister c rt =
     (case drop_command c (cr_system rt) of
        Some es \<Rightarrow> (rt\<lparr>cr_system := es\<rparr>, True)
      | None \<Rightarrow> (case drop_command c (cr_user rt) of
          Some es \<Rightarrow> (rt\<lparr>cr_user := es\<rparr>, True)
        | None \<Rightarrow> (rt, False)))"

definition list_commands :: "command_runtime \<Rightarrow> jdict list" where
  "list_commands rt = map (\<lambda>d. [(''command'', JStr (cd_command d)), (''description'', JStr (cd_description d)),
     (''args_hint'', JStr (cd_args_hint d)), (''system'', JBool (cd_system d)), (''source'', JStr (cd_source d))])
     (cr_system rt @ cr_user rt)"

section \<open>Recognising a command\<close>

definition text_segment :: "json list \<Rightarrow> json" where
  "text_segment segs =
     (case List.find (\<lambda>j. case j of JObj d \<Rightarrow> dict_get d ''type'' = Some (JStr ''text'') | _ \<Rightarrow> False) segs of
        Some (JObj d) \<Rightarrow> (if jtruthy (get_or d ''text'' JNull) then get_or d ''text'' JNull
          else if jtruthy (get_or d ''data'' JNull) then get_or d ''data'' JNull else JStr [])
      | _ \<Rightarrow> JStr [])"

definition text_from :: "bus_message \<Rightarrow> string option" where
  "text_from m =
     (if bm_type m \<noteq> ''user_message'' then None
      else let content = get_or (bm_data m) ''content'' (JStr [])
           in case (case content of JList segs \<Rightarrow> text_segment segs | _ \<Rightarrow> content) of
                JStr s \<Rightarrow> if has_prefix ''/'' s then Some s else None
              | _ \<Rightarrow> None)"

definition line_calls :: "string \<Rightarrow> command_def \<Rightarrow> bool" where
  "line_calls line d \<longleftrightarrow> line = cd_command d \<or> has_prefix (cd_command d @ '' '') line"

definition match_line :: "command_def list \<Rightarrow> string \<Rightarrow> (command_def \<times> string option) option" where
  "match_line es raw =
     (let line = py_strip raw
      in map_option (\<lambda>d. (d, none_if_empty (Some (py_strip (drop (length (cd_command d)) line))))) (List.find (line_calls line) es))"

definition parse_command :: "command_runtime \<Rightarrow> bus_message \<Rightarrow> command_def option" where
  "parse_command rt m =
     (case text_from m of None \<Rightarrow> None | Some raw \<Rightarrow> map_option fst (match_line (cr_system rt @ cr_user rt) raw))"

definition match_user :: "command_runtime \<Rightarrow> bus_message \<Rightarrow> command_def option" where
  "match_user rt m = (case text_from m of None \<Rightarrow> None | Some raw \<Rightarrow> map_option fst (match_line (cr_user rt) raw))"

section \<open>Running a command\<close>

datatype handler_value = Returned "command_result option" | NotAResult | Raised exn

definition checked_result :: "handler_value \<Rightarrow> command_result result" where
  "checked_result v =
     (case v of
        Returned None \<Rightarrow> Inr (command_success [])
      | Returned (Some r) \<Rightarrow>
          (if cm_kind r \<notin> {''success'', ''error''} then Inl TypeError
           else if cm_kind r = ''error'' \<and> py_strip (cm_text r) = [] then Inl ValueError
           else Inr r)
      | NotAResult \<Rightarrow> Inl TypeError
      | Raised e \<Rightarrow> Inl e)"

datatype command_event =
    CommandRun string string "string option" json string
  | CommandDone string string string "int option" json string

text \<open>Where a task is: not started, or in the write of \<open>command/run\<close>, in the handler, in the write of \<open>command/done\<close>.\<close>

datatype report = Gives command_result | Fails exn | GivesUp

datatype phase =
    Created
  | Announcing string command_def "string option"
  | Handling string command_def
  | Reporting string command_def report
  | Ended

record command_task =
  ct_message :: bus_message
  ct_system :: bool
  ct_def :: command_def
  ct_phase :: phase

record command_service =
  cs_runtime :: command_runtime
  cs_tasks :: "command_task list"
  cs_inflight :: "(string, nat) dict"
  cs_completed :: "string list"
  cs_log :: "command_event list"
  cs_published :: "(nat \<times> command_result) list"
  cs_refused :: "(bus_message \<times> command_result) list"
  cs_closing :: bool

definition new_command_service :: command_service where
  "new_command_service = \<lparr>cs_runtime = new_commands, cs_tasks = [], cs_inflight = [], cs_completed = [], cs_log = [],
     cs_published = [], cs_refused = [], cs_closing = False\<rparr>"

definition message_session :: "bus_message \<Rightarrow> json" where
  "message_session m = (case dict_get (bm_data m) ''session_id'' of
     Some j \<Rightarrow> if jtruthy j then j else JStr (bm_from_session m) | None \<Rightarrow> JStr (bm_from_session m))"

definition set_phase :: "nat \<Rightarrow> phase \<Rightarrow> command_service \<Rightarrow> command_service" where
  "set_phase k p s = s\<lparr>cs_tasks := (cs_tasks s)[k := (cs_tasks s ! k)\<lparr>ct_phase := p\<rparr>]\<rparr>"

text \<open>The task ends: \<open>on_done\<close>.\<close>

definition end_task :: "nat \<Rightarrow> string \<Rightarrow> command_service \<Rightarrow> command_service" where
  "end_task k rid s =
     (set_phase k Ended s)\<lparr>cs_inflight := (if dict_get (cs_inflight s) rid = Some k then dict_pop rid (cs_inflight s) else cs_inflight s)\<rparr>"

definition publish :: "nat \<Rightarrow> command_result \<Rightarrow> command_service \<Rightarrow> command_service" where
  "publish k r s = s\<lparr>cs_published := cs_published s @ [(k, r)]\<rparr>"

text \<open>What the client reads before the text of an exception, in UTF-8.\<close>

definition FAILURE_PREFIX :: string where
  "FAILURE_PREFIX = map (char_of :: nat \<Rightarrow> char) [0xE5, 0x91, 0xBD, 0xE4, 0xBB, 0xA4, 0xE6, 0x89, 0xA7, 0xE8, 0xA1, 0x8C,
     0xE5, 0xA4, 0xB1, 0xE8, 0xB4, 0xA5, 0xEF, 0xBC, 0x9A]"

text \<open>The result of a dispatch that returned, and what an exception of it becomes.\<close>

definition complete_task :: "nat \<Rightarrow> string \<Rightarrow> command_result \<Rightarrow> command_service \<Rightarrow> command_service" where
  "complete_task k rid r s =
     end_task k rid (publish k r
       (s\<lparr>cs_completed := (if rid \<noteq> [] \<and> cm_kind r = ''success'' then rid # cs_completed s else cs_completed s)\<rparr>))"

definition fail_task :: "(exn \<Rightarrow> string) \<Rightarrow> nat \<Rightarrow> string \<Rightarrow> exn \<Rightarrow> command_service \<Rightarrow> command_service" where
  "fail_task tx k rid e s = end_task k rid (publish k \<lparr>cm_kind = ''error'', cm_text = FAILURE_PREFIX @ tx e, cm_event_seq = None\<rparr> s)"

definition start_task :: "(exn \<Rightarrow> string) \<Rightarrow> nat \<Rightarrow> command_task \<Rightarrow> command_service \<Rightarrow> command_service" where
  "start_task tx k t s =
     (let rid = bm_request_id (ct_message t); rt = cs_runtime s
      in case (case text_from (ct_message t) of None \<Rightarrow> None | Some raw \<Rightarrow> match_line (command_entries (ct_system t) rt) raw) of
           None \<Rightarrow> end_task k rid s
         | Some (d, args) \<Rightarrow>
             (if cd_ref d \<noteq> cd_ref (ct_def t) then fail_task tx k rid ValueError s
              else case (if rid = [] then None else dict_get (cr_results rt) rid) of
                Some r \<Rightarrow> complete_task k rid r s
              | None \<Rightarrow>
                  let n = cr_sequence rt + 1; cid = str_or rid (''command_'' @ str_of_int (int n))
                  in set_phase k (Announcing cid d args) (s\<lparr>cs_runtime := rt\<lparr>cr_sequence := n\<rparr>\<rparr>)))"

definition run_event :: "command_task \<Rightarrow> string \<Rightarrow> command_def \<Rightarrow> string option \<Rightarrow> command_event" where
  "run_event t cid d args = CommandRun cid (cd_command d) (if cd_persist_input d then args else None)
     (message_session (ct_message t)) (bm_request_id (ct_message t))"

definition done_event_of :: "(exn \<Rightarrow> string) \<Rightarrow> command_task \<Rightarrow> string \<Rightarrow> report \<Rightarrow> command_event" where
  "done_event_of tx t cid r =
     (let done_as = (\<lambda>k txt q. CommandDone cid k txt q (message_session (ct_message t)) (bm_request_id (ct_message t)))
      in case r of
           Gives c \<Rightarrow> done_as (cm_kind c) (cm_text c) (cm_event_seq c)
         | Fails e \<Rightarrow> done_as ''error'' (tx e) None
         | GivesUp \<Rightarrow> done_as ''error'' ''command cancelled'' None)"

definition log_command :: "command_event \<Rightarrow> command_service \<Rightarrow> command_service" where
  "log_command e s = s\<lparr>cs_log := cs_log s @ [e]\<rparr>"

text \<open>After \<open>command/done\<close> is written.\<close>

definition keep_result :: "string \<Rightarrow> command_result \<Rightarrow> command_service \<Rightarrow> command_service" where
  "keep_result rid r s =
     (if rid \<noteq> [] \<and> cm_kind r = ''success'' then s\<lparr>cs_runtime := (cs_runtime s)\<lparr>cr_results := dict_set rid r (cr_results (cs_runtime s))\<rparr>\<rparr> else s)"

definition conclude :: "(exn \<Rightarrow> string) \<Rightarrow> nat \<Rightarrow> string \<Rightarrow> report \<Rightarrow> command_service \<Rightarrow> command_service" where
  "conclude tx k rid r s =
     (case r of
        Gives c \<Rightarrow> complete_task k rid c (keep_result rid c s)
      | Fails e \<Rightarrow> fail_task tx k rid e s
      | GivesUp \<Rightarrow> end_task k rid s)"

text \<open>How the task is woken: the await returned, it raised, the handler answered, or the task was cancelled.\<close>

datatype wake = Continue | Refused exn | Answered handler_value | Interrupted

definition report_of :: "handler_value \<Rightarrow> report" where
  "report_of v = (case checked_result v of Inr r \<Rightarrow> Gives r | Inl e \<Rightarrow> Fails e)"

definition wake_task :: "(exn \<Rightarrow> string) \<Rightarrow> nat \<Rightarrow> wake \<Rightarrow> command_service \<Rightarrow> command_service" where
  "wake_task tx k w s =
     (let t = cs_tasks s ! k; rid = bm_request_id (ct_message t)
      in case (ct_phase t, w) of
           (Ended, _) \<Rightarrow> s
         | (Created, Continue) \<Rightarrow> start_task tx k t s
         | (Announcing cid d args, Continue) \<Rightarrow> set_phase k (Handling cid d) (log_command (run_event t cid d args) s)
         | (Handling cid d, Answered v) \<Rightarrow> set_phase k (Reporting cid d (report_of v)) s
         | (Handling cid d, Interrupted) \<Rightarrow> set_phase k (Reporting cid d GivesUp) s
         | (Reporting cid d r, Continue) \<Rightarrow> conclude tx k rid r (log_command (done_event_of tx t cid r) s)
         | (Announcing cid d args, Refused e) \<Rightarrow> fail_task tx k rid e s
         | (Reporting cid d r, Refused e) \<Rightarrow> fail_task tx k rid e s
         | (_, Interrupted) \<Rightarrow> end_task k rid s
         | _ \<Rightarrow> s)"

section \<open>Submitting\<close>

definition submit_inbound :: "bus_message \<Rightarrow> command_def \<Rightarrow> command_service \<Rightarrow> command_service" where
  "submit_inbound m d s =
     (let rid = bm_request_id m
      in if rid \<noteq> [] \<and> (dict_get (cs_inflight s) rid \<noteq> None \<or> rid \<in> set (cs_completed s)) then s
         else s\<lparr>cs_tasks := cs_tasks s @ [\<lparr>ct_message = m, ct_system = cd_system d, ct_def = d, ct_phase = Created\<rparr>],
                cs_inflight := (if rid = [] then cs_inflight s else dict_set rid (length (cs_tasks s)) (cs_inflight s))\<rparr>)"

text \<open>\<open>on_inbound\<close>: None hands the message to the next listener.\<close>

definition accept_command :: "pylib \<Rightarrow> bus_message \<Rightarrow> ingress" where
  "accept_command L m = \<lparr>ing_accepted = True, ing_session_id = str_or_default L (dict_get (bm_data m) ''session_id'') (bm_from_session m),
     ing_request_id = str_or (bm_request_id m) (bm_id m), ing_created = True, ing_error = None\<rparr>"

text \<open>
  An input with a slash in front that calls no command: the error message is on its way as a task of its own, and then the
  listener awaits the None that \<open>_publish_result\<close> returned, which raises. The hook passes the exception on, and the bus
  rejects the message with it.
\<close>

definition UNKNOWN_COMMAND :: string where
  "UNKNOWN_COMMAND = map (char_of :: nat \<Rightarrow> char) [0xE5, 0x91, 0xBD, 0xE4, 0xBB, 0xA4, 0xE4, 0xB8, 0x8D, 0xE5, 0x8F, 0xAF, 0xE7, 0x94, 0xA8,
     0xE6, 0x88, 0x96, 0xE6, 0x9C, 0xAA, 0xE5, 0x90, 0xAF, 0xE7, 0x94, 0xA8]"

definition refuse_command :: "bus_message \<Rightarrow> command_service \<Rightarrow> command_service" where
  "refuse_command m s = s\<lparr>cs_refused := cs_refused s @ [(m, \<lparr>cm_kind = ''error'', cm_text = UNKNOWN_COMMAND, cm_event_seq = None\<rparr>)]\<rparr>"

definition on_inbound :: "pylib \<Rightarrow> bus_message \<Rightarrow> command_service \<Rightarrow> command_service \<times> ingress result option" where
  "on_inbound L m s =
     (if bm_type m = ''turn_cancel'' then (s, None)
      else case parse_command (cs_runtime s) m of
        None \<Rightarrow> (if text_from m = None then (s, None) else (refuse_command m s, Some (Inl TypeError)))
      | Some d \<Rightarrow> (submit_inbound m d s, Some (Inr (accept_command L m))))"

text \<open>The listener of the inbox is the next one.\<close>

definition route_message ::
  "inbox_host \<Rightarrow> repo_config \<Rightarrow> bool \<Rightarrow> bool \<Rightarrow> bus_message \<Rightarrow> command_service \<times> inbox_service \<Rightarrow>
    (command_service \<times> inbox_service) \<times> ingress result" where
  "route_message H C io cancelled m w =
     (case on_inbound (h_lib H) m (fst w) of
        (c, Some r) \<Rightarrow> ((c, snd w), r)
      | (c, None) \<Rightarrow> (case handle_bus_message H C io cancelled m (snd w) of (i, r) \<Rightarrow> ((c, i), r)))"

section \<open>The service over time\<close>

text \<open>
  \<open>close\<close> cancels every task (\<open>Interrupted\<close>) and forgets the requests when they have ended. Its listener is disposed
  of before, so nothing is submitted while it closes.
\<close>

definition all_ended :: "command_service \<Rightarrow> bool" where
  "all_ended s \<longleftrightarrow> list_all (\<lambda>t. ct_phase t = Ended) (cs_tasks s)"

definition close_commands :: "command_service \<Rightarrow> command_service" where
  "close_commands s = (if all_ended s then s\<lparr>cs_inflight := [], cs_completed := []\<rparr> else s)"

inductive command_step :: "command_service \<Rightarrow> command_service \<Rightarrow> bool" where
  registered: "register_def d (cs_runtime s) = Inr rt \<Longrightarrow> command_step s (s\<lparr>cs_runtime := rt\<rparr>)"
| unregistered: "command_step s (s\<lparr>cs_runtime := fst (unregister c (cs_runtime s))\<rparr>)"
| arrived: "\<not> cs_closing s \<Longrightarrow> command_step s (fst (on_inbound L m s))"
| woken: "k < length (cs_tasks s) \<Longrightarrow> command_step s (wake_task tx k w s)"
| closing: "command_step s (s\<lparr>cs_closing := True\<rparr>)"
| closed: "cs_closing s \<Longrightarrow> command_step s (close_commands s)"

definition commands_reachable :: "command_service \<Rightarrow> bool" where
  "commands_reachable s \<longleftrightarrow> command_step\<^sup>*\<^sup>* new_command_service s"

section \<open>What is promised\<close>

definition succeeded :: "string \<Rightarrow> command_event \<Rightarrow> bool" where
  "succeeded r e = (case e of CommandDone cid k txt q ses rq \<Rightarrow> k = ''success'' \<and> rq = r | _ \<Rightarrow> False)"

definition success_count :: "string \<Rightarrow> command_service \<Rightarrow> nat" where
  "success_count r s = length (filter (succeeded r) (cs_log s))"

abbreviation task_rid :: "command_task \<Rightarrow> string" where
  "task_rid t \<equiv> bm_request_id (ct_message t)"

definition underway :: "phase \<Rightarrow> bool" where
  "underway p = (case p of Created \<Rightarrow> False | Ended \<Rightarrow> False | _ \<Rightarrow> True)"

definition tasks_known :: "command_service \<Rightarrow> bool" where
  "tasks_known s \<longleftrightarrow> (\<forall>k < length (cs_tasks s). ct_phase (cs_tasks s ! k) \<noteq> Ended \<longrightarrow> task_rid (cs_tasks s ! k) \<noteq> [] \<longrightarrow>
     dict_get (cs_inflight s) (task_rid (cs_tasks s ! k)) = Some k)"

definition nothing_repeated :: "command_service \<Rightarrow> bool" where
  "nothing_repeated s \<longleftrightarrow>
     (\<forall>r. r \<noteq> [] \<longrightarrow> success_count r s \<le> (if dict_get (cr_results (cs_runtime s)) r = None then 0 else 1)) \<and>
     (\<forall>t \<in> set (cs_tasks s). underway (ct_phase t) \<longrightarrow> task_rid t \<noteq> [] \<longrightarrow> dict_get (cr_results (cs_runtime s)) (task_rid t) = None)"

lemma underway_simps [simp]:
  "\<not> underway Created" "\<not> underway Ended" "underway (Announcing c d a)" "underway (Handling c d)" "underway (Reporting c d r)"
  by (simp_all add: underway_def)

lemma set_phase_simps [simp]:
  "cs_runtime (set_phase k p s) = cs_runtime s" "cs_inflight (set_phase k p s) = cs_inflight s" "cs_log (set_phase k p s) = cs_log s"
  "cs_closing (set_phase k p s) = cs_closing s" "length (cs_tasks (set_phase k p s)) = length (cs_tasks s)"
  by (simp_all add: set_phase_def)

text \<open>A step of a task that does not end it.\<close>

lemma set_phase_known: "tasks_known s \<Longrightarrow> k < length (cs_tasks s) \<Longrightarrow> ct_phase (cs_tasks s ! k) \<noteq> Ended \<Longrightarrow> tasks_known (set_phase k p s)"
  by (auto simp: tasks_known_def set_phase_def nth_list_update)

lemma set_phase_tasks: "k < length (cs_tasks s) \<Longrightarrow> t \<in> set (cs_tasks (set_phase k p s)) \<Longrightarrow>
  t = (cs_tasks s ! k)\<lparr>ct_phase := p\<rparr> \<or> t \<in> set (cs_tasks s)"
  using set_update_subset_insert [of "cs_tasks s" k] by (auto simp: set_phase_def)

lemma set_phase_repeats:
  assumes "nothing_repeated s" "k < length (cs_tasks s)"
    and "underway p \<Longrightarrow> task_rid (cs_tasks s ! k) \<noteq> [] \<Longrightarrow> dict_get (cr_results (cs_runtime s)) (task_rid (cs_tasks s ! k)) = None"
  shows "nothing_repeated (set_phase k p s)"
  using assms set_phase_tasks [OF assms(2), of _ p] by (fastforce simp: nothing_repeated_def success_count_def)

lemma end_task_known: "tasks_known s \<Longrightarrow> k < length (cs_tasks s) \<Longrightarrow> tasks_known (end_task k (task_rid (cs_tasks s ! k)) s)"
  by (auto simp: tasks_known_def end_task_def set_phase_def nth_list_update)

lemma end_task_repeats: "nothing_repeated s \<Longrightarrow> k < length (cs_tasks s) \<Longrightarrow> nothing_repeated (end_task k rid s)"
  using set_phase_repeats [of s k Ended] by (simp add: end_task_def nothing_repeated_def success_count_def)

text \<open>Changes that touch neither tasks nor results.\<close>

definition same_tasks :: "command_service \<Rightarrow> command_service \<Rightarrow> bool" where
  "same_tasks s s' \<longleftrightarrow> cs_tasks s' = cs_tasks s \<and> cs_inflight s' = cs_inflight s"

lemma same_tasks_known: "same_tasks s s' \<Longrightarrow> tasks_known s \<Longrightarrow> tasks_known s'"
  by (simp add: same_tasks_def tasks_known_def)

lemma log_repeats:
  assumes "nothing_repeated s" "\<And>r. r \<noteq> [] \<Longrightarrow> \<not> succeeded r e"
  shows "nothing_repeated (log_command e s)"
  using assms by (simp add: nothing_repeated_def success_count_def log_command_def)

lemma ended_by:
  assumes "tasks_known s" "nothing_repeated s'" "same_tasks s s'" "k < length (cs_tasks s)"
  shows "tasks_known (end_task k (task_rid (cs_tasks s ! k)) s') \<and> nothing_repeated (end_task k (task_rid (cs_tasks s ! k)) s')"
  using assms end_task_known [of s' k] end_task_repeats [of s' k] same_tasks_known [OF assms(3,1)] by (simp add: same_tasks_def)

lemma publish_simps [simp]:
  "cs_runtime (publish k r s) = cs_runtime s" "cs_log (publish k r s) = cs_log s" "cs_tasks (publish k r s) = cs_tasks s"
  "cs_inflight (publish k r s) = cs_inflight s"
  by (simp_all add: publish_def)

lemma published_repeats: "nothing_repeated s \<Longrightarrow> nothing_repeated (publish k r s)"
  by (simp add: nothing_repeated_def success_count_def)

lemma fail_task_inv:
  assumes "tasks_known s" "nothing_repeated s" "k < length (cs_tasks s)"
  shows "tasks_known (fail_task tx k (task_rid (cs_tasks s ! k)) e s) \<and> nothing_repeated (fail_task tx k (task_rid (cs_tasks s ! k)) e s)"
  unfolding fail_task_def using assms by (intro ended_by published_repeats) (simp_all add: same_tasks_def)

lemma complete_task_known:
  assumes "tasks_known s" "same_tasks s s'" "k < length (cs_tasks s)"
  shows "tasks_known (complete_task k (task_rid (cs_tasks s ! k)) r s')"
proof -
  have "tasks_known (end_task k (task_rid (cs_tasks u ! k)) u)" if "same_tasks s u" for u
    using that assms(3) by (intro end_task_known same_tasks_known [OF that assms(1)]) (simp add: same_tasks_def)
  then show ?thesis using assms(2) by (simp add: complete_task_def same_tasks_def)
qed

lemma complete_task_inv:
  assumes "tasks_known s" "nothing_repeated s'" "same_tasks s s'" "k < length (cs_tasks s)"
  shows "tasks_known (complete_task k (task_rid (cs_tasks s ! k)) r s') \<and> nothing_repeated (complete_task k (task_rid (cs_tasks s ! k)) r s')"
proof -
  let ?u = "s'\<lparr>cs_completed := (if task_rid (cs_tasks s ! k) \<noteq> [] \<and> cm_kind r = ''success'' then task_rid (cs_tasks s ! k) # cs_completed s' else cs_completed s')\<rparr>"
  have "nothing_repeated (publish k r ?u)" using assms(2) by (simp add: nothing_repeated_def success_count_def)
  moreover have "same_tasks s (publish k r ?u)" using assms(3) by (simp add: same_tasks_def)
  ultimately show ?thesis unfolding complete_task_def using ended_by assms(1,4) by blast
qed

text \<open>The end of a handler that went well: the first success of its request.\<close>

lemma success_repeats:
  assumes inv: "nothing_repeated s" and known: "tasks_known s" and k: "k < length (cs_tasks s)" "cs_tasks s ! k = t"
    and p: "ct_phase t = Reporting cid d (Gives c)"
  shows "nothing_repeated (set_phase k Ended (keep_result (task_rid t) c (log_command (done_event_of tx t cid (Gives c)) s)))"
proof -
  let ?rid = "task_rid t" and ?e = "done_event_of tx t cid (Gives c)"
  have e: "succeeded r ?e \<longleftrightarrow> cm_kind c = ''success'' \<and> r = ?rid" for r
    by (auto simp: done_event_of_def succeeded_def)
  show ?thesis
  proof (cases "?rid \<noteq> [] \<and> cm_kind c = ''success''")
    case False
    then have "nothing_repeated (log_command ?e s)" using inv e by (intro log_repeats) auto
    then have "nothing_repeated (set_phase k Ended (log_command ?e s))"
      using k(1) by (intro set_phase_repeats) (simp_all add: log_command_def)
    then show ?thesis using False by (auto simp: keep_result_def)
  next
    case True
    have none: "dict_get (cr_results (cs_runtime s)) ?rid = None"
      using inv k p True by (auto simp: nothing_repeated_def)
    then have zero: "success_count ?rid s = 0" using inv True by (auto simp: nothing_repeated_def)
    have others: "task_rid (cs_tasks s ! j) \<noteq> ?rid" if "j < length (cs_tasks s)" "j \<noteq> k" "ct_phase (cs_tasks s ! j) \<noteq> Ended" for j
    proof
      assume same: "task_rid (cs_tasks s ! j) = ?rid"
      have "dict_get (cs_inflight s) ?rid = Some j" using known that(1,3) same True by (auto simp: tasks_known_def)
      moreover have "dict_get (cs_inflight s) ?rid = Some k" using known k p True by (auto simp: tasks_known_def)
      ultimately show False using that(2) by simp
    qed
    have task: "task_rid u \<noteq> ?rid" if u: "u \<in> set ((cs_tasks s)[k := t\<lparr>ct_phase := Ended\<rparr>])" "underway (ct_phase u)" for u
    proof -
      obtain j where j: "j < length (cs_tasks s)" "u = (cs_tasks s)[k := t\<lparr>ct_phase := Ended\<rparr>] ! j"
        using u(1) by (auto simp: in_set_conv_nth)
      have "j \<noteq> k" "ct_phase u \<noteq> Ended" using j u(2) k(1) by auto
      then show ?thesis using j others [of j] by simp
    qed
    have old: "u \<in> set (cs_tasks s)" if "u \<in> set ((cs_tasks s)[k := t\<lparr>ct_phase := Ended\<rparr>])" "underway (ct_phase u)" for u
      using that set_update_subset_insert [of "cs_tasks s" k "t\<lparr>ct_phase := Ended\<rparr>"] by auto
    show ?thesis
      using inv task old zero True e
      by (auto simp: nothing_repeated_def keep_result_def success_count_def log_command_def set_phase_def k(2))
  qed
qed

lemma repeats_cong:
  "cs_log s' = cs_log s \<Longrightarrow> cs_tasks s' = cs_tasks s \<Longrightarrow> cs_runtime s' = cs_runtime s \<Longrightarrow> nothing_repeated s' = nothing_repeated s"
  by (simp add: nothing_repeated_def success_count_def)

lemma conclude_inv:
  assumes inv: "nothing_repeated s" "tasks_known s" and k: "k < length (cs_tasks s)" "cs_tasks s ! k = t"
    and p: "ct_phase t = Reporting cid d r"
  shows "tasks_known (conclude tx k (task_rid t) r (log_command (done_event_of tx t cid r) s)) \<and>
    nothing_repeated (conclude tx k (task_rid t) r (log_command (done_event_of tx t cid r) s))"
proof -
  let ?s = "log_command (done_event_of tx t cid r) s"
  have same: "same_tasks s ?s" by (simp add: same_tasks_def log_command_def)
  show ?thesis
  proof (cases r)
    case (Gives c)
    let ?u = "keep_result (task_rid t) c ?s"
    have "same_tasks s ?u" by (simp add: same_tasks_def log_command_def keep_result_def)
    then have "tasks_known (conclude tx k (task_rid t) r ?s)"
      using complete_task_known [OF inv(2) _ k(1), of ?u c] k(2) by (simp add: Gives conclude_def)
    moreover have "nothing_repeated (conclude tx k (task_rid t) r ?s)"
      using success_repeats [OF inv k, of cid d c tx] p
      by (subst repeats_cong [of _ "set_phase k Ended ?u"]) (simp_all add: Gives conclude_def complete_task_def end_task_def set_phase_def)
    ultimately show ?thesis ..
  next
    case (Fails e)
    have "nothing_repeated ?s" using inv(1) by (intro log_repeats) (simp_all add: Fails done_event_of_def succeeded_def)
    then show ?thesis using fail_task_inv [of ?s k tx e] same_tasks_known [OF same inv(2)] k by (simp add: Fails conclude_def log_command_def)
  next
    case GivesUp
    have "nothing_repeated ?s" using inv(1) by (intro log_repeats) (simp_all add: GivesUp done_event_of_def succeeded_def)
    then show ?thesis using ended_by [OF inv(2) _ same k(1)] k(2) by (simp add: GivesUp conclude_def)
  qed
qed

lemma start_task_inv:
  assumes inv: "nothing_repeated s" "tasks_known s" and k: "k < length (cs_tasks s)" "cs_tasks s ! k = t" "ct_phase t = Created"
  shows "tasks_known (start_task tx k t s) \<and> nothing_repeated (start_task tx k t s)"
proof -
  have same: "same_tasks s s" by (simp add: same_tasks_def)
  have announce: "tasks_known (set_phase k (Announcing cid d args) (s\<lparr>cs_runtime := (cs_runtime s)\<lparr>cr_sequence := n\<rparr>\<rparr>)) \<and>
      nothing_repeated (set_phase k (Announcing cid d args) (s\<lparr>cs_runtime := (cs_runtime s)\<lparr>cr_sequence := n\<rparr>\<rparr>))"
    if none: "(if task_rid t = [] then None else dict_get (cr_results (cs_runtime s)) (task_rid t)) = None" for cid d args n
  proof -
    let ?s = "s\<lparr>cs_runtime := (cs_runtime s)\<lparr>cr_sequence := n\<rparr>\<rparr>"
    have "tasks_known ?s" "nothing_repeated ?s" using inv by (simp_all add: tasks_known_def nothing_repeated_def success_count_def)
    moreover have "task_rid t \<noteq> [] \<Longrightarrow> dict_get (cr_results (cs_runtime s)) (task_rid t) = None" using none by simp
    ultimately show ?thesis using k set_phase_known [of ?s k] set_phase_repeats [of ?s k] by simp
  qed
  show ?thesis
    using ended_by [OF inv(2,1) same k(1)] fail_task_inv [OF inv(2,1) k(1)] complete_task_inv [OF inv(2,1) same k(1)] announce k(2)
    unfolding start_task_def Let_def by (auto split: option.splits simp del: announce)
qed

lemma wake_task_inv:
  assumes inv: "nothing_repeated s" "tasks_known s" and k: "k < length (cs_tasks s)"
  shows "tasks_known (wake_task tx k w s) \<and> nothing_repeated (wake_task tx k w s)"
proof -
  define t where "t = cs_tasks s ! k"
  have same: "same_tasks s s" by (simp add: same_tasks_def)
  have stop: "tasks_known (end_task k (task_rid t) s) \<and> nothing_repeated (end_task k (task_rid t) s)"
    using ended_by [OF inv(2,1) same k] by (simp add: t_def)
  have fails: "tasks_known (fail_task tx k (task_rid t) e s) \<and> nothing_repeated (fail_task tx k (task_rid t) e s)" for e
    using fail_task_inv [OF inv(2,1) k] by (simp add: t_def)
  have none: "task_rid t \<noteq> [] \<Longrightarrow> dict_get (cr_results (cs_runtime s)) (task_rid t) = None" if "underway (ct_phase t)"
    using inv(1) that k by (auto simp: t_def nothing_repeated_def)
  have moves: "tasks_known (set_phase k p s) \<and> nothing_repeated (set_phase k p s)" if "underway (ct_phase t)" for p
  proof -
    have "ct_phase t \<noteq> Ended" using that by auto
    then show ?thesis
      using that none set_phase_known [OF inv(2) k] set_phase_repeats [OF inv(1) k] by (simp add: t_def [symmetric])
  qed
  have announced: "tasks_known (set_phase k p (log_command (run_event t cid d args) s)) \<and> nothing_repeated (set_phase k p (log_command (run_event t cid d args) s))"
    if "ct_phase t = Announcing cid d args" for cid d args p
  proof -
    let ?s = "log_command (run_event t cid d args) s"
    have "tasks_known ?s" using inv(2) by (simp add: tasks_known_def log_command_def)
    moreover have "nothing_repeated ?s" using inv(1) by (rule log_repeats) (simp add: run_event_def succeeded_def)
    ultimately show ?thesis
      using that none set_phase_known [of ?s k] set_phase_repeats [of ?s k] k by (simp add: t_def [symmetric] log_command_def)
  qed
  show ?thesis
  proof (cases "ct_phase t")
    case Created
    then show ?thesis using inv k stop start_task_inv [OF inv k] by (cases w) (simp_all add: wake_task_def t_def)
  next
    case (Announcing cid d args)
    then show ?thesis using inv stop fails announced by (cases w) (simp_all add: wake_task_def t_def)
  next
    case (Handling cid d)
    then show ?thesis using inv moves by (cases w) (simp_all add: wake_task_def t_def)
  next
    case (Reporting cid d r)
    then show ?thesis using inv stop fails conclude_inv [OF inv k refl] by (cases w) (simp_all add: wake_task_def t_def Let_def)
  next
    case Ended
    then show ?thesis using inv by (cases w) (simp_all add: wake_task_def t_def)
  qed
qed

lemma submit_inv:
  assumes inv: "nothing_repeated s" "tasks_known s"
  shows "tasks_known (submit_inbound m d s) \<and> nothing_repeated (submit_inbound m d s)"
proof (cases "bm_request_id m \<noteq> [] \<and> (dict_get (cs_inflight s) (bm_request_id m) \<noteq> None \<or> bm_request_id m \<in> set (cs_completed s))")
  case True
  then show ?thesis using inv by (simp add: submit_inbound_def Let_def)
next
  case False
  then have "tasks_known (submit_inbound m d s)"
    using inv(2) by (auto simp: submit_inbound_def Let_def tasks_known_def nth_append)
  moreover have "nothing_repeated (submit_inbound m d s)"
    using inv(1) False by (auto simp: submit_inbound_def Let_def nothing_repeated_def success_count_def)
  ultimately show ?thesis ..
qed

lemma refuse_inv: "nothing_repeated s \<and> tasks_known s \<Longrightarrow> nothing_repeated (refuse_command m s) \<and> tasks_known (refuse_command m s)"
  by (simp add: refuse_command_def nothing_repeated_def tasks_known_def success_count_def)

lemma registry_inv:
  assumes "nothing_repeated s" "tasks_known s" "cr_results rt = cr_results (cs_runtime s)"
  shows "tasks_known (s\<lparr>cs_runtime := rt\<rparr>) \<and> nothing_repeated (s\<lparr>cs_runtime := rt\<rparr>)"
  using assms by (simp add: tasks_known_def nothing_repeated_def success_count_def)

lemma register_results: "register_def d rt = Inr rt' \<Longrightarrow> cr_results rt' = cr_results rt"
  by (auto simp: register_def_def put_entries_def Let_def split: if_splits)

lemma unregister_results: "cr_results (fst (unregister c rt)) = cr_results rt"
  by (simp add: unregister_def split: option.splits)

lemma command_step_inv:
  "command_step s s' \<Longrightarrow> nothing_repeated s \<and> tasks_known s \<Longrightarrow> nothing_repeated s' \<and> tasks_known s'"
proof (induction rule: command_step.induct)
  case (registered d s rt)
  then show ?case using registry_inv register_results by blast
next
  case (unregistered s c)
  then show ?case using registry_inv [of s] unregister_results by blast
next
  case (arrived s L m)
  then show ?case using submit_inv refuse_inv by (auto simp: on_inbound_def split: option.splits)
next
  case (woken k s tx w)
  then show ?case using wake_task_inv by blast
next
  case (closing s)
  then show ?case by (simp add: tasks_known_def nothing_repeated_def success_count_def)
next
  case (closed s)
  then show ?case by (auto simp: close_commands_def tasks_known_def all_ended_def list_all_length nothing_repeated_def success_count_def)
qed

lemma commands_inv: "commands_reachable s \<Longrightarrow> nothing_repeated s"
  unfolding commands_reachable_def
proof -
  assume "command_step\<^sup>*\<^sup>* new_command_service s"
  then have "nothing_repeated s \<and> tasks_known s"
    by (induction rule: rtranclp_induct)
      (simp add: new_command_service_def new_commands_def nothing_repeated_def tasks_known_def success_count_def, rule command_step_inv)
  then show ?thesis ..
qed

section \<open>The registry stays in order\<close>

definition entries_ok :: "command_def list \<Rightarrow> bool" where
  "entries_ok es \<longleftrightarrow> sorted_wrt (\<lambda>a b. char_length (cd_command b) \<le> char_length (cd_command a)) es \<and> distinct (map cd_command es)"

definition commands_ok :: "command_runtime \<Rightarrow> bool" where
  "commands_ok rt \<longleftrightarrow> entries_ok (cr_system rt) \<and> entries_ok (cr_user rt)"

lemma sorted_by_length: "sorted_wrt (\<lambda>a b. char_length (cd_command b) \<le> char_length (cd_command a)) (sort_key (\<lambda>e. - int (char_length (cd_command e))) es)"
  using sorted_sort_key [of "\<lambda>e. - int (char_length (cd_command e))" es] by (simp add: sorted_map)

lemma entries_ok_insert:
  assumes "entries_ok es" "\<not> list_ex (\<lambda>e. cd_command e = cd_command d) es"
  shows "entries_ok (sort_key (\<lambda>e. - int (char_length (cd_command e))) (es @ [d]))"
proof -
  have "distinct (map cd_command (es @ [d]))" using assms by (auto simp: entries_ok_def list_ex_iff)
  moreover have "mset (map cd_command (sort_key (\<lambda>e. - int (char_length (cd_command e))) (es @ [d]))) = mset (map cd_command (es @ [d]))"
    by simp
  ultimately have "distinct (map cd_command (sort_key (\<lambda>e. - int (char_length (cd_command e))) (es @ [d])))"
    using mset_eq_imp_distinct_iff by blast
  then show ?thesis unfolding entries_ok_def using sorted_by_length by blast
qed

lemma drop_command_set: "drop_command c es = Some es' \<Longrightarrow> set es' \<subseteq> set es"
  by (induction es arbitrary: es') (auto split: if_splits)

lemma entries_ok_drop: "entries_ok es \<Longrightarrow> drop_command c es = Some es' \<Longrightarrow> entries_ok es'"
proof (induction es arbitrary: es')
  case (Cons d ds)
  show ?case
  proof (cases "cd_command d = c")
    case True
    then show ?thesis using Cons.prems by (simp add: entries_ok_def)
  next
    case False
    then obtain ds' where ds': "drop_command c ds = Some ds'" "es' = d # ds'" using Cons.prems(2) by auto
    have "entries_ok ds'" using Cons.IH [OF _ ds'(1)] Cons.prems(1) by (simp add: entries_ok_def)
    then show ?thesis using Cons.prems(1) drop_command_set [OF ds'(1)] by (auto simp: ds'(2) entries_ok_def)
  qed
qed simp

lemma commands_ok_register: "register_def d rt = Inr rt' \<Longrightarrow> commands_ok rt \<Longrightarrow> commands_ok rt'"
  using entries_ok_insert by (auto simp: register_def_def commands_ok_def put_entries_def command_entries_def Let_def split: if_splits)

lemma commands_ok_unregister: "commands_ok rt \<Longrightarrow> commands_ok (fst (unregister c rt))"
  using entries_ok_drop by (auto simp: unregister_def commands_ok_def split: option.splits)

lemma wake_task_registry:
  "cr_system (cs_runtime (wake_task tx k w s)) = cr_system (cs_runtime s) \<and> cr_user (cs_runtime (wake_task tx k w s)) = cr_user (cs_runtime s)"
  by (auto simp: wake_task_def start_task_def conclude_def complete_task_def fail_task_def end_task_def keep_result_def log_command_def Let_def
      split: phase.splits wake.splits option.splits report.splits)

lemma submit_registry: "cs_runtime (submit_inbound m d s) = cs_runtime s"
  by (simp add: submit_inbound_def Let_def)

lemma command_step_registry: "command_step s s' \<Longrightarrow> commands_ok (cs_runtime s) \<Longrightarrow> commands_ok (cs_runtime s')"
proof (induction rule: command_step.induct)
  case (arrived s L m)
  then show ?case by (auto simp: on_inbound_def submit_registry refuse_command_def split: option.splits)
next
  case (woken k s tx w)
  then show ?case using wake_task_registry [of tx k w s] by (simp add: commands_ok_def)
next
  case (closed s)
  then show ?case by (simp add: close_commands_def)
qed (auto intro: commands_ok_register commands_ok_unregister)

lemma commands_registry: "commands_reachable s \<Longrightarrow> commands_ok (cs_runtime s)"
  unfolding commands_reachable_def
  by (induction rule: rtranclp_induct)
    (simp add: new_command_service_def new_commands_def commands_ok_def entries_ok_def, rule command_step_registry)

text \<open>Of two commands that a line calls the longer one has more characters: it goes on with a blank.\<close>

lemma char_length_append: "char_length (xs @ ys) = char_length xs + char_length ys"
  by (simp add: char_length_def)

lemma line_call_prefix: "line_calls line d \<Longrightarrow> take (length (cd_command d)) line = cd_command d"
  by (auto simp: line_calls_def has_prefix_iff)

lemma longer_call:
  assumes "line_calls line d" "line_calls line e" "length (cd_command d) < length (cd_command e)"
  shows "char_length (cd_command d) < char_length (cd_command e)"
proof -
  obtain zs where e: "line = cd_command e @ zs" using assms(2) by (auto simp: line_calls_def has_prefix_iff)
  then have "length (cd_command e) \<le> length line" by simp
  then have "line \<noteq> cd_command d" using assms(3) by auto
  then obtain us where "line = (cd_command d @ '' '') @ us" using assms(1) by (auto simp: line_calls_def has_prefix_iff)
  then have eq: "cd_command e @ zs = cd_command d @ '' '' @ us" using e by simp
  have "take (length (cd_command d)) (cd_command e) = cd_command d"
    using arg_cong [OF eq, of "take (length (cd_command d))"] assms(3) by simp
  then obtain vs where vs: "cd_command e = cd_command d @ vs" by (metis append_take_drop_id)
  then have vs2: "vs @ zs = '' '' @ us" using eq by simp
  then obtain ws where "vs = CHR '' '' # ws" using assms(3) vs by (cases vs) auto
  then show ?thesis by (simp add: vs char_length_append) (simp add: char_length_def)
qed

text \<open>
  a slash command is dispatched to the most specific definition: among all registered commands the line calls,
  the chosen one is strictly the longest, whatever was registered and unregistered before and in which order.
\<close>
theorem longest_command_wins:
  assumes "commands_reachable s" "match_line (command_entries b (cs_runtime s)) raw = Some (d, args)"
  shows "d \<in> set (command_entries b (cs_runtime s)) \<and> line_calls (py_strip raw) d \<and>
    (\<forall>e \<in> set (filter (line_calls (py_strip raw)) (command_entries b (cs_runtime s))). e = d \<or> length (cd_command e) < length (cd_command d))"
proof -
  let ?es = "command_entries b (cs_runtime s)" and ?line = "py_strip raw"
  have ok: "entries_ok ?es" using commands_registry [OF assms(1)] by (simp add: commands_ok_def command_entries_def)
  have "List.find (line_calls ?line) ?es = Some d" using assms(2) by (auto simp: match_line_def Let_def)
  then obtain i where i: "i < length ?es" "d = ?es ! i" "line_calls ?line d" "\<And>j. j < i \<Longrightarrow> \<not> line_calls ?line (?es ! j)"
    by (auto simp: find_Some_iff)
  have "e = d \<or> length (cd_command e) < length (cd_command d)" if e: "e \<in> set ?es" "line_calls ?line e" for e
  proof -
    obtain j where j: "j < length ?es" "e = ?es ! j" using e(1) by (auto simp: in_set_conv_nth)
    have "i \<le> j" using i(4) e(2) j(2) by (meson not_le)
    then have le: "char_length (cd_command e) \<le> char_length (cd_command d)"
      using ok i(1,2) j by (cases "i = j") (auto simp: entries_ok_def sorted_wrt_iff_nth_less)
    then have "length (cd_command e) \<le> length (cd_command d)" using longer_call [OF i(3) e(2)] by force
    moreover have "e = d" if "length (cd_command e) = length (cd_command d)"
    proof -
      have "cd_command e = cd_command d"
        using line_call_prefix [OF i(3)] line_call_prefix [OF e(2)] that by simp
      then show ?thesis using ok i(1,2) j by (auto simp: entries_ok_def distinct_conv_nth)
    qed
    ultimately show ?thesis by linarith
  qed
  then show ?thesis using i(1-3) by auto
qed

definition sample_command :: "nat \<Rightarrow> string \<Rightarrow> bool \<Rightarrow> command_def" where
  "sample_command n c system = \<lparr>cd_ref = n, cd_command = c, cd_description = [], cd_args_hint = [], cd_system = system,
     cd_persist_input = True, cd_source = ''builtin'', cd_handled = True\<rparr>"

definition sample_line :: "string \<Rightarrow> string \<Rightarrow> bus_message" where
  "sample_line rid text = \<lparr>bm_type = ''user_message'', bm_id = ''m1'', bm_from_session = ''s'', bm_from_channel = ''ws'',
     bm_data = [(''content'', JStr text)], bm_request_id = rid, bm_metadata = []\<rparr>"

definition with_command :: "command_def \<Rightarrow> command_service \<Rightarrow> command_service" where
  "with_command d s = (case register_def d (cs_runtime s) of Inl e \<Rightarrow> s | Inr rt \<Rightarrow> s\<lparr>cs_runtime := rt\<rparr>)"

lemma reach_new: "commands_reachable new_command_service"
  by (simp add: commands_reachable_def)

lemma reach_step: "commands_reachable s \<Longrightarrow> command_step s s' \<Longrightarrow> commands_reachable s'"
  unfolding commands_reachable_def by (rule rtranclp.rtrancl_into_rtrancl)

lemma reach_command: "commands_reachable s \<Longrightarrow> commands_reachable (with_command d s)"
  using reach_step command_step.registered by (auto simp: with_command_def split: sum.splits)

lemma reach_arrival: "commands_reachable s \<Longrightarrow> \<not> cs_closing s \<Longrightarrow> commands_reachable (fst (on_inbound L m s))"
  using reach_step command_step.arrived by blast

lemma reach_wake: "commands_reachable s \<Longrightarrow> k < length (cs_tasks s) \<Longrightarrow> commands_reachable (wake_task tx k w s)"
  using reach_step command_step.woken by blast

definition two_commands :: command_service where
  "two_commands = with_command (sample_command 2 ''/fork here'' False) (with_command (sample_command 1 ''/fork'' False) new_command_service)"

theorem longest_command_wins_witness:
  "map_option (\<lambda>(d, args). (cd_command d, args)) (match_line (command_entries False (cs_runtime two_commands)) ''/fork here now'') =
     Some (''/fork here'', Some ''now'') \<and> length ''/fork'' < length ''/fork here''"
proof -
  have reach: "commands_reachable two_commands" unfolding two_commands_def by (intro reach_command reach_new)
  have run: "match_line (command_entries False (cs_runtime two_commands)) ''/fork here now'' = Some (sample_command 2 ''/fork here'' False, Some ''now'')"
    by code_simp
  have "sample_command 1 ''/fork'' False \<in> set (filter (line_calls (py_strip ''/fork here now'')) (command_entries False (cs_runtime two_commands)))"
    by code_simp
  then have "sample_command 1 ''/fork'' False = sample_command 2 ''/fork here'' False \<or>
      length (cd_command (sample_command 1 ''/fork'' False)) < length (cd_command (sample_command 2 ''/fork here'' False))"
    using longest_command_wins [OF reach run] by blast
  then show ?thesis using run by (simp add: sample_command_def)
qed

section \<open>One success for each request\<close>

text \<open>
  C35: a request is carried out at most once: however often a client repeats it, while it runs or afterwards, and
  however tasks, failures, cancellations and the closing of the service are interleaved, at most one successful
  \<open>command/done\<close> is recorded for it.
\<close>
theorem command_succeeds_once:
  assumes "commands_reachable s" "r \<noteq> []"
  shows "length (filter (succeeded r) (cs_log s)) \<le> 1"
proof -
  have "success_count r s \<le> (if dict_get (cr_results (cs_runtime s)) r = None then 0 else 1)"
    using commands_inv [OF assms(1)] assms(2) by (simp add: nothing_repeated_def)
  then show ?thesis by (simp add: success_count_def split: if_splits)
qed

definition asked_once :: command_service where
  "asked_once = fst (on_inbound sample_lib (sample_line ''r1'' ''/fork'') two_commands)"

definition carried_out :: "command_service \<Rightarrow> command_service" where
  "carried_out s = wake_task (\<lambda>e. []) 0 Continue (wake_task (\<lambda>e. []) 0 (Answered (Returned None))
     (wake_task (\<lambda>e. []) 0 Continue (wake_task (\<lambda>e. []) 0 Continue s)))"

definition asked_again :: command_service where
  "asked_again = fst (on_inbound sample_lib (sample_line ''r1'' ''/fork'') (carried_out asked_once))"

lemma asked_once_reachable: "commands_reachable asked_once"
  unfolding asked_once_def two_commands_def
  by (intro reach_arrival reach_command reach_new) (simp add: with_command_def new_command_service_def split: sum.splits)

lemma wake_task_tasks: "length (cs_tasks (wake_task tx k w s)) = length (cs_tasks s)"
  by (auto simp: wake_task_def start_task_def conclude_def complete_task_def fail_task_def end_task_def keep_result_def log_command_def Let_def
      split: phase.splits wake.splits option.splits report.splits)

lemma asked_again_reachable: "commands_reachable asked_again"
proof -
  have "length (cs_tasks asked_once) = 1" "\<not> cs_closing (carried_out asked_once)" by code_simp+
  then show ?thesis unfolding asked_again_def carried_out_def
    by (intro reach_arrival reach_wake asked_once_reachable) (simp_all add: wake_task_tasks)
qed

theorem command_succeeds_once_witness:
  "length (filter (succeeded ''r1'') (cs_log asked_again)) \<le> 1 \<and> length (cs_log asked_again) = 2 \<and> cs_completed asked_again = [''r1'']"
proof -
  have "length (cs_log asked_again) = 2 \<and> cs_completed asked_again = [''r1'']" by code_simp
  then show ?thesis using command_succeeds_once [OF asked_again_reachable, of "''r1''"] by simp
qed

section \<open>Commands and messages\<close>

lemma no_text_no_command: "text_from m = None \<Longrightarrow> parse_command rt m = None"
  by (simp add: parse_command_def)

lemma parse_command_None:
  "text_from m = Some raw \<Longrightarrow>
     parse_command rt m = None \<longleftrightarrow> \<not> (\<exists>d \<in> set (cr_system rt @ cr_user rt). line_calls (py_strip raw) d)"
  by (auto simp: parse_command_def match_line_def Let_def find_None_iff)

lemma parse_command_Some:
  assumes "text_from m = Some raw" "parse_command rt m = Some d"
  shows "d \<in> set (cr_system rt @ cr_user rt) \<and> line_calls (py_strip raw) d"
proof -
  have "List.find (line_calls (py_strip raw)) (cr_system rt @ cr_user rt) = Some d"
    using assms by (auto simp: parse_command_def match_line_def Let_def)
  then show ?thesis unfolding find_Some_iff using nth_mem by blast
qed

text \<open>
  C36: what a user writes with a slash in front never becomes a message to the agent: the inbox does not change. If the line
  calls a registered command, one that it calls is submitted and the message is accepted; if it calls none, no task is
  started, an error message goes to the client and the message is rejected with an exception. Everything else reaches the
  inbox as it came and starts no command.
\<close>
theorem commands_never_reach_agent:
  "case text_from m of
     None \<Rightarrow> route_message H C io cancelled m (c, i) =
       ((c, fst (handle_bus_message H C io cancelled m i)), snd (handle_bus_message H C io cancelled m i))
   | Some raw \<Rightarrow> (\<exists>c' r. route_message H C io cancelled m (c, i) = ((c', i), r) \<and>
       (if \<exists>d \<in> set (cr_system (cs_runtime c) @ cr_user (cs_runtime c)). line_calls (py_strip raw) d
        then r = Inr (accept_command (h_lib H) m) \<and>
          (\<exists>d \<in> set (cr_system (cs_runtime c) @ cr_user (cs_runtime c)). line_calls (py_strip raw) d \<and> c' = submit_inbound m d c)
        else r = Inl TypeError \<and> cs_tasks c' = cs_tasks c \<and>
          cs_refused c' = cs_refused c @ [(m, \<lparr>cm_kind = ''error'', cm_text = UNKNOWN_COMMAND, cm_event_seq = None\<rparr>)]))"
proof (cases "text_from m")
  case None
  then show ?thesis by (simp add: route_message_def on_inbound_def no_text_no_command split: prod.splits)
next
  case (Some raw)
  then have t: "bm_type m \<noteq> ''turn_cancel''" by (auto simp: text_from_def Let_def split: if_splits)
  show ?thesis
  proof (cases "parse_command (cs_runtime c) m")
    case None
    then show ?thesis
      using Some t parse_command_None [OF Some, of "cs_runtime c"] by (simp add: route_message_def on_inbound_def refuse_command_def)
  next
    case parsed: (Some d)
    then show ?thesis
      using Some t parse_command_Some [OF Some parsed] by (auto simp: route_message_def on_inbound_def)
  qed
qed

section \<open>Weak spots\<close>

text \<open>
  The record of a success depends on the write of \<open>command/done\<close>: when it fails after the handler went through, the
  client is told that the command failed, and its repetition runs the handler again.
\<close>

definition unrecorded :: command_service where
  "unrecorded = wake_task (\<lambda>e. []) 0 (Refused OSError) (wake_task (\<lambda>e. []) 0 (Answered (Returned None))
     (wake_task (\<lambda>e. []) 0 Continue (wake_task (\<lambda>e. []) 0 Continue asked_once)))"

lemma unrecorded_success_is_repeated:
  "map (\<lambda>t. case ct_phase t of Handling c d \<Rightarrow> c | _ \<Rightarrow> [])
     (cs_tasks (wake_task (\<lambda>e. []) 1 Continue (wake_task (\<lambda>e. []) 1 Continue
       (fst (on_inbound sample_lib (sample_line ''r1'' ''/fork'') unrecorded))))) = [[], ''r1''] \<and>
   map (cm_kind \<circ> snd) (cs_published unrecorded) = [''error'']"
  by code_simp

text \<open>
  A disposer names what it removes: that of a user command takes away the system command of the same name, and that of
  an old registration takes away the new one.
\<close>

lemma disposer_removes_system_command:
  "map cd_ref (let rt = cs_runtime (with_command (sample_command 2 ''/x'' False) (with_command (sample_command 1 ''/x'' True) new_command_service))
     in cr_user (fst (unregister ''/x'' rt)) @ cr_system (fst (unregister ''/x'' rt))) = [2]"
  by code_simp

text \<open>An unknown command is answered with an exception of the listener, although its error message has gone out.\<close>

lemma unknown_command_raises:
  "(case route_message H C io cancelled (sample_line ''r1'' ''/nothing'') (new_command_service, i) of
     ((c, j), r) \<Rightarrow> r = Inl TypeError \<and> j = i \<and> length (cs_refused c) = 1)"
proof -
  let ?m = "sample_line ''r1'' ''/nothing''"
  have "text_from ?m \<noteq> None" "parse_command (cs_runtime new_command_service) ?m = None" "bm_type ?m \<noteq> ''turn_cancel''"
    "cs_refused new_command_service = []" by code_simp+
  then show ?thesis by (auto simp: route_message_def on_inbound_def refuse_command_def)
qed

text \<open>A system command is found before a longer user command.\<close>

lemma system_command_shadows:
  "map_option cd_ref (parse_command (cs_runtime (with_command (sample_command 2 ''/x all'' False)
     (with_command (sample_command 1 ''/x'' True) new_command_service))) (sample_line [] ''/x all'')) = Some 1"
  by code_simp

text \<open>A command that is unregistered between its acceptance and the start of its task ends without an answer.\<close>

lemma withdrawn_command_is_silent:
  "(let s = wake_task (\<lambda>e. []) 0 Continue (asked_once\<lparr>cs_runtime := fst (unregister ''/fork'' (cs_runtime asked_once))\<rparr>)
    in all_ended s \<and> cs_published s = [] \<and> cs_log s = [])"
  by code_simp

end
