(* ===== verification/FileEdit.thy ===== *)
theory FileEdit
  imports Prelude
begin

text \<open>
  The tool that changes files (\<open>src/ftre/plugins/builtin/core_tools/edit.py\<close>, on \<open>_io.py\<close>): replacement of a text
  that has to be unique, and replacement of lines by number, with encoding and line ends kept.

  A text is its UTF-8 bytes, so UTF-8 is decoded by a test (\<open>dc_valid\<close>); the other codecs are parameters. A file is
  what the path leads to. The texts of error messages and the unified diff are left out; what an error says (how often
  the text was found and where) is kept. One call runs under the lock of its file, so it is one step.
\<close>

section \<open>Lines and line ends\<close>

text \<open>The bytes of the line break in front of a text, as \<open>str.splitlines\<close> sees them.\<close>

definition byte :: "nat \<Rightarrow> char" where
  "byte n = char_of n"

definition LF :: char where "LF = CHR 0x0A"
definition CR :: char where "CR = CHR 0x0D"

fun line_break :: "string \<Rightarrow> nat" where
  "line_break [] = 0"
| "line_break (c # cs) =
     (if c = CR then (case cs of d # ds \<Rightarrow> if d = LF then 2 else 1 | [] \<Rightarrow> 1)
      else if c \<in> {LF, CHR 0x0B, CHR 0x0C, CHR 0x1C, CHR 0x1D, CHR 0x1E} then 1
      else if c = CHR 0xC2 \<and> take 1 cs = [CHR 0x85] then 2
      else if c = CHR 0xE2 \<and> (take 2 cs = [CHR 0x80, CHR 0xA8] \<or> take 2 cs = [CHR 0x80, CHR 0xA9]) then 3
      else 0)"

function lines_from :: "string \<Rightarrow> string \<Rightarrow> string list" where
  "lines_from cur [] = (if cur = [] then [] else [rev cur])"
| "lines_from cur (c # cs) =
     (case line_break (c # cs) of
        0 \<Rightarrow> lines_from (c # cur) cs
      | Suc n \<Rightarrow> rev cur # lines_from [] (drop n cs))"
  by pat_completeness auto
termination by (relation "measure (length \<circ> snd)") auto

definition splitlines :: "string \<Rightarrow> string list" where
  "splitlines s = lines_from [] s"

fun split_nl :: "string \<Rightarrow> string list" where
  "split_nl [] = [[]]"
| "split_nl (c # cs) = (if c = LF then [] # split_nl cs else (case split_nl cs of [] \<Rightarrow> [[c]] | l # ls \<Rightarrow> (c # l) # ls))"

fun join_nl :: "string list \<Rightarrow> string" where
  "join_nl [] = []"
| "join_nl [l] = l"
| "join_nl (l # m # ls) = l @ LF # join_nl (m # ls)"

text \<open>\<open>replace("\r\n", "\n").replace("\r", "\n")\<close>.\<close>

fun normalize_nl :: "string \<Rightarrow> string" where
  "normalize_nl [] = []"
| "normalize_nl [c] = [if c = CR then LF else c]"
| "normalize_nl (c # d # cs) =
     (if c = CR then (if d = LF then LF # normalize_nl cs else LF # normalize_nl (d # cs)) else c # normalize_nl (d # cs))"

definition detect_newline :: "string \<Rightarrow> string" where
  "detect_newline raw = (if str_contains [CR, LF] raw then [CR, LF] else if CR \<in> set raw then [CR] else [LF])"

definition style :: "string \<Rightarrow> string \<Rightarrow> string" where
  "style nl s = concat (map (\<lambda>c. if c = LF then nl else [c]) s)"

section \<open>Reading and writing\<close>

record codecs =
  dc_valid :: "string \<Rightarrow> bool"
  dc_decode :: "string \<Rightarrow> string \<Rightarrow> string option"
  dc_encode :: "string \<Rightarrow> string \<Rightarrow> string option"

definition BOM :: string where "BOM = [CHR 0xEF, CHR 0xBB, CHR 0xBF]"

definition decode_as :: "codecs \<Rightarrow> string \<Rightarrow> string \<Rightarrow> string option" where
  "decode_as C enc b =
     (if enc = ''utf-8-sig'' then (if dc_valid C b then Some (if has_prefix BOM b then drop 3 b else b) else None)
      else if enc = ''utf-8'' then (if dc_valid C b then Some b else None)
      else dc_decode C enc b)"

definition encode_as :: "codecs \<Rightarrow> string \<Rightarrow> string \<Rightarrow> string option" where
  "encode_as C enc t =
     (if enc = ''utf-8-sig'' then Some (BOM @ t) else if enc = ''utf-8'' then Some t else dc_encode C enc t)"

record text_file =
  tf_text :: string
  tf_encoding :: string
  tf_newline :: string
  tf_had_bom :: bool

definition ENCODING_CANDIDATES :: "string list" where
  "ENCODING_CANDIDATES = [''utf-8-sig'', ''utf-8'', ''gbk'', ''cp936'', ''shift-jis'']"

text \<open>Latin-1 decodes everything.\<close>

fun first_decoding :: "codecs \<Rightarrow> string \<Rightarrow> string list \<Rightarrow> string \<times> string" where
  "first_decoding C b [] = (''latin-1'', opt_str (dc_decode C ''latin-1'' b))"
| "first_decoding C b (e # es) = (case decode_as C e b of Some raw \<Rightarrow> (e, raw) | None \<Rightarrow> first_decoding C b es)"

definition raw_text :: "codecs \<Rightarrow> string \<Rightarrow> string" where
  "raw_text C b = snd (first_decoding C b ENCODING_CANDIDATES)"

definition read_text :: "codecs \<Rightarrow> string \<Rightarrow> text_file" where
  "read_text C b =
     (let had_bom = has_prefix BOM b; enc = fst (first_decoding C b ENCODING_CANDIDATES); raw = raw_text C b
      in \<lparr>tf_text = normalize_nl raw, tf_encoding = (if enc = ''utf-8-sig'' \<and> \<not> had_bom then ''utf-8'' else enc),
          tf_newline = detect_newline raw, tf_had_bom = had_bom\<rparr>)"

definition write_text_preserving :: "codecs \<Rightarrow> string \<Rightarrow> text_file \<Rightarrow> string result" where
  "write_text_preserving C t tf =
     (let out = (if tf_newline tf \<noteq> [LF] then style (tf_newline tf) t else t);
          enc = (if tf_encoding tf = ''latin-1'' \<and> dc_encode C ''latin-1'' out = None then ''utf-8'' else tf_encoding tf)
      in case encode_as C enc out of None \<Rightarrow> Inl ValueError | Some b \<Rightarrow> Inr b)"

section \<open>Finding the text\<close>

fun find_from :: "nat \<Rightarrow> string \<Rightarrow> string \<Rightarrow> nat option" where
  "find_from k needle [] = (if needle = [] then Some k else None)"
| "find_from k needle (c # cs) = (if has_prefix needle (c # cs) then Some k else find_from (Suc k) needle cs)"

definition find_text :: "string \<Rightarrow> string \<Rightarrow> nat option" where
  "find_text needle s = find_from 0 needle s"

text \<open>\<open>str.count\<close>: occurrences that do not overlap.\<close>

function count_text :: "string \<Rightarrow> string \<Rightarrow> nat" where
  "count_text needle s =
     (if needle = [] then length s + 1
      else case find_text needle s of None \<Rightarrow> 0 | Some i \<Rightarrow> 1 + count_text needle (drop (i + length needle) s))"
  by pat_completeness auto
termination
proof (relation "measure (length \<circ> snd)")
  fix needle s :: string and i
  assume "needle \<noteq> []" "find_text needle s = Some i"
  then show "((needle, drop (i + length needle) s), needle, s) \<in> measure (length \<circ> snd)"
    by (cases s) (auto simp: find_text_def neq_Nil_conv)
qed simp

declare count_text.simps [simp del]

definition line_number :: "string \<Rightarrow> nat \<Rightarrow> nat" where
  "line_number s i = length (filter (\<lambda>c. c = LF) (take i s)) + 1"

text \<open>Every position, also of overlapping matches, at most five.\<close>

definition match_lines :: "string \<Rightarrow> string \<Rightarrow> nat list" where
  "match_lines s needle = map (line_number s) (take 5 (filter (\<lambda>i. has_prefix needle (drop i s)) [0..<length s]))"

definition trimmed_hits :: "string \<Rightarrow> string \<Rightarrow> nat list" where
  "trimmed_hits s needle =
     (case filter (\<lambda>l. l \<noteq> []) (map py_strip (splitlines needle)) of
        [] \<Rightarrow> []
      | f # _ \<Rightarrow> take 3 (map fst (filter (\<lambda>(i, l). py_strip l = f) (enumerate 1 (splitlines s)))))"

section \<open>The edits\<close>

datatype edit_error =
    NoSuchFile | IsDirectory | NotRegular | OldTextMissing
  | NotFound "nat list" | Ambiguous nat "nat list"
  | StartBeyondEnd nat | EndBeforeStart | EditRaised exn

record edit_report =
  ed_old_lines :: nat
  ed_new_lines :: nat
  ed_size :: nat
  ed_start_line :: nat
  ed_preview :: "string list"
  ed_before_after :: "(string \<times> string) option"

definition edit_report_of :: "nat \<Rightarrow> nat \<Rightarrow> nat \<Rightarrow> nat \<Rightarrow> string \<Rightarrow> string \<Rightarrow> edit_report" where
  "edit_report_of old_lines new_lines n start before after =
     \<lparr>ed_old_lines = old_lines, ed_new_lines = new_lines, ed_size = n, ed_start_line = start,
      ed_preview = (if after = [] then [] else take 3 (drop (start - 1) (splitlines after))),
      ed_before_after = (if before = after then None else Some (before, after))\<rparr>"

definition replace_at :: "nat \<Rightarrow> nat \<Rightarrow> string \<Rightarrow> string \<Rightarrow> string" where
  "replace_at i n new s = take i s @ new @ drop (i + n) s"

definition string_edit :: "string \<Rightarrow> string \<Rightarrow> string \<Rightarrow> edit_error + string \<times> nat" where
  "string_edit content old new =
     (if old = [] then Inl OldTextMissing
      else let old_norm = normalize_nl old; n = count_text old_norm content
           in if n = 0 then Inl (NotFound (trimmed_hits content old_norm))
              else if 1 < n then Inl (Ambiguous n (match_lines content old_norm))
              else case find_text old_norm content of
                None \<Rightarrow> Inl (NotFound [])
              | Some i \<Rightarrow> Inr (replace_at i (length old_norm) new content, line_number content i))"

definition edit_by_string :: "codecs \<Rightarrow> text_file \<Rightarrow> string \<Rightarrow> string \<Rightarrow> (edit_error + string \<times> edit_report)" where
  "edit_by_string C tf old new =
     (case string_edit (tf_text tf) old new of
        Inl e \<Rightarrow> Inl e
      | Inr (content, start) \<Rightarrow>
          (case write_text_preserving C content tf of
             Inl x \<Rightarrow> Inl (EditRaised x)
           | Inr b \<Rightarrow> Inr (b, edit_report_of (length (filter (\<lambda>c. c = LF) (normalize_nl old)) + 1)
               (length (filter (\<lambda>c. c = LF) new) + 1) (length b) start (tf_text tf) content)))"

text \<open>Lines \<open>a\<close> to \<open>b\<close>, counted from 1; 0 for \<open>b\<close> means line \<open>a\<close> alone.\<close>

definition line_edit :: "string \<Rightarrow> string \<Rightarrow> nat \<Rightarrow> int \<Rightarrow> edit_error + string \<times> nat \<times> nat" where
  "line_edit content new a b =
     (let ls = splitlines content; total = length ls; e = (if 0 < b then nat b else a)
      in if total < a then Inl (StartBeyondEnd total)
         else if e < a then Inl EndBeforeStart
         else let stop = min e total; replacement = (if new = [] then [] else split_nl new);
                  text = join_nl (take (a - 1) ls @ replacement @ drop stop ls)
              in Inr (if content \<noteq> [] \<and> last content = LF \<and> text \<noteq> [] then text @ [LF] else text,
                      stop - (a - 1), length replacement))"

definition edit_by_line :: "codecs \<Rightarrow> text_file \<Rightarrow> string \<Rightarrow> nat \<Rightarrow> int \<Rightarrow> (edit_error + string \<times> edit_report)" where
  "edit_by_line C tf new a b =
     (case line_edit (tf_text tf) new a b of
        Inl e \<Rightarrow> Inl e
      | Inr (content, old_count, new_count) \<Rightarrow>
          (case write_text_preserving C content tf of
             Inl x \<Rightarrow> Inl (EditRaised x)
           | Inr bs \<Rightarrow> Inr (bs, edit_report_of old_count new_count (length bs) a (tf_text tf) content)))"

datatype node = Missing | Directory | Special | Regular string

definition edit_file :: "codecs \<Rightarrow> string \<Rightarrow> string \<Rightarrow> int \<Rightarrow> int \<Rightarrow> node \<Rightarrow> node \<times> (edit_error + edit_report)" where
  "edit_file C new old start stop f =
     (case f of
        Missing \<Rightarrow> (f, Inl NoSuchFile)
      | Directory \<Rightarrow> (f, Inl IsDirectory)
      | Special \<Rightarrow> (f, Inl NotRegular)
      | Regular b \<Rightarrow>
          (let tf = read_text C b; new_norm = normalize_nl new
           in case (if 0 < start then edit_by_line C tf new_norm (nat start) stop else edit_by_string C tf old new_norm) of
                Inl e \<Rightarrow> (f, Inl e)
              | Inr (b', r) \<Rightarrow> (Regular b', Inr r)))"

section \<open>Text without carriage returns\<close>

lemma LF_CR [simp]: "LF \<noteq> CR" "CR \<noteq> LF"
  by (simp_all add: LF_def CR_def)

lemma normalized_no_CR: "CR \<notin> set (normalize_nl s)"
  by (induction s rule: normalize_nl.induct) auto

lemma style_append [simp]: "style nl (xs @ ys) = style nl xs @ style nl ys"
  by (simp add: style_def)

lemma style_LF [simp]: "style [LF] s = s"
  by (induction s) (auto simp: style_def)

lemma find_from_Some: "find_from k needle s = Some i \<Longrightarrow> \<exists>pre post. s = pre @ needle @ post \<and> i = k + length pre"
proof (induction k needle s rule: find_from.induct)
  case (2 k needle c cs)
  show ?case
  proof (cases "has_prefix needle (c # cs)")
    case True
    then show ?thesis using 2(2) by (auto simp: has_prefix_iff intro: exI [of _ "[]"])
  next
    case False
    then obtain pre post where "cs = pre @ needle @ post" "i = Suc k + length pre" using 2 by auto
    then show ?thesis by (intro exI [of _ "c # pre"] exI [of _ post]) simp
  qed
qed (auto split: if_splits)

lemma find_text_Some: "find_text needle s = Some i \<Longrightarrow> \<exists>pre post. s = pre @ needle @ post \<and> i = length pre"
  using find_from_Some [of 0 needle s i] by (simp add: find_text_def)

text \<open>An edit that goes through replaces one occurrence of the old text, and there was no second one behind it.\<close>

lemma string_edit_splits:
  assumes "string_edit content old new = Inr (content', start)"
  shows "\<exists>pre post. content = pre @ normalize_nl old @ post \<and> content' = pre @ new @ post \<and> count_text (normalize_nl old) content = 1"
proof -
  let ?o = "normalize_nl old"
  obtain i where i: "find_text ?o content = Some i" "content' = replace_at i (length ?o) new content" "count_text ?o content = 1"
    using assms by (auto simp: string_edit_def Let_def split: if_splits option.splits)
  obtain pre post where "content = pre @ ?o @ post" "i = length pre" using find_text_Some [OF i(1)] by blast
  then show ?thesis using i(2,3) by (intro exI [of _ pre] exI [of _ post]) (simp add: replace_at_def)
qed

section \<open>The bytes around an edit\<close>

definition one_style :: "string \<Rightarrow> bool" where
  "one_style b \<longleftrightarrow> style (detect_newline b) (normalize_nl b) = b"

lemma detect_cases: "detect_newline b = [LF] \<or> detect_newline b = [CR] \<or> detect_newline b = [CR, LF]"
  by (simp add: detect_newline_def)

definition without_BOM :: "string \<Rightarrow> string" where
  "without_BOM b = (if has_prefix BOM b then drop 3 b else b)"

lemma BOM_split: "b = (if has_prefix BOM b then BOM else []) @ without_BOM b"
  by (auto simp: without_BOM_def has_prefix_iff BOM_def)

lemma BOM_no_CR: "CR \<notin> set BOM" "LF \<notin> set BOM"
  by (simp_all add: BOM_def CR_def LF_def)

lemma normalize_prefix: "CR \<notin> set p \<Longrightarrow> normalize_nl (p @ s) = p @ normalize_nl s"
proof (induction p)
  case (Cons c cs)
  then show ?case by (cases "cs @ s") auto
qed simp

lemma style_prefix: "LF \<notin> set p \<Longrightarrow> style nl p = p"
  by (induction p) (auto simp: style_def)

lemma contains_after: "CR \<notin> set p \<Longrightarrow> str_contains [CR, LF] (p @ s) = str_contains [CR, LF] s"
  by (induction p) auto

lemma detect_without_BOM: "detect_newline (without_BOM b) = detect_newline b"
proof -
  have "detect_newline (BOM @ s) = detect_newline s" for s
    using contains_after [OF BOM_no_CR(1), of s] BOM_no_CR(1) by (simp add: detect_newline_def)
  then show ?thesis by (metis BOM_split append_Nil)
qed

lemma one_style_without_BOM: "one_style b \<Longrightarrow> one_style (without_BOM b)"
proof -
  assume one: "one_style b"
  show "one_style (without_BOM b)"
  proof (cases "has_prefix BOM b")
    case True
    then have b: "b = BOM @ without_BOM b" using BOM_split [of b] by simp
    have "style (detect_newline b) (normalize_nl (BOM @ without_BOM b)) = BOM @ without_BOM b"
      using one b by (simp add: one_style_def)
    then have "style (detect_newline b) (normalize_nl (without_BOM b)) = without_BOM b"
      by (simp add: normalize_prefix [OF BOM_no_CR(1)] style_prefix [OF BOM_no_CR(2)])
    then show ?thesis by (simp add: one_style_def detect_without_BOM)
  next
    case False
    then show ?thesis using one by (simp add: without_BOM_def)
  qed
qed

lemma read_utf8:
  assumes "dc_valid C b"
  shows "read_text C b = \<lparr>tf_text = normalize_nl (without_BOM b),
     tf_encoding = (if has_prefix BOM b then ''utf-8-sig'' else ''utf-8''), tf_newline = detect_newline b, tf_had_bom = has_prefix BOM b\<rparr>"
  using assms detect_without_BOM [of b]
  by (simp add: read_text_def raw_text_def ENCODING_CANDIDATES_def decode_as_def without_BOM_def Let_def)

lemma write_utf8:
  assumes "dc_valid C b"
  shows "write_text_preserving C t (read_text C b) = Inr ((if has_prefix BOM b then BOM else []) @ style (detect_newline b) t)"
  by (simp add: read_utf8 [OF assms] write_text_preserving_def encode_as_def Let_def)

text \<open>
  C37: in a file that is valid UTF-8 and whose line ends are all of one kind, an edit by text that succeeds changes the
  bytes of one occurrence of the old text and no other byte: mark, line ends and everything around stay, and the new text
  takes over the line ends of the file. \<open>str.count\<close>, which does not see overlaps, counted the old text once. (A file with
  both kinds of line ends is written with one of them, see \<open>mixed_ends_are_unified\<close>.)
\<close>
theorem edit_changes_one_place:
  assumes "dc_valid C b" "one_style b" "edit_file C new old 0 stop (Regular b) = (Regular b', Inr r)"
  shows "\<exists>pre post. b = pre @ style (detect_newline b) (normalize_nl old) @ post \<and>
    b' = pre @ style (detect_newline b) (normalize_nl new) @ post \<and> count_text (normalize_nl old) (normalize_nl (without_BOM b)) = 1"
proof -
  let ?nl = "detect_newline b" and ?mark = "if has_prefix BOM b then BOM else []" and ?tf = "read_text C b"
  have tf: "tf_text ?tf = normalize_nl (without_BOM b)" by (simp add: read_utf8 [OF assms(1)])
  obtain content start where e: "string_edit (normalize_nl (without_BOM b)) old (normalize_nl new) = Inr (content, start)"
    and w: "write_text_preserving C content ?tf = Inr b'"
    using assms(3) by (auto simp: edit_file_def edit_by_string_def tf Let_def split: sum.splits prod.splits)
  obtain pre post where s: "normalize_nl (without_BOM b) = pre @ normalize_nl old @ post" "content = pre @ normalize_nl new @ post"
    "count_text (normalize_nl old) (normalize_nl (without_BOM b)) = 1"
    using string_edit_splits [OF e] by blast
  have "without_BOM b = style ?nl (normalize_nl (without_BOM b))"
    using one_style_without_BOM [OF assms(2)] detect_without_BOM [of b] by (simp add: one_style_def)
  then have "b = (?mark @ style ?nl pre) @ style ?nl (normalize_nl old) @ style ?nl post"
    using BOM_split [of b] s(1) by simp
  moreover have "b' = (?mark @ style ?nl pre) @ style ?nl (normalize_nl new) @ style ?nl post"
    using w s(2) by (simp add: write_utf8 [OF assms(1)])
  ultimately show ?thesis using s(3) by blast
qed

definition plain_codecs :: codecs where
  "plain_codecs = \<lparr>dc_valid = (\<lambda>b. True), dc_decode = (\<lambda>e b. Some b), dc_encode = (\<lambda>e t. Some t)\<rparr>"

definition sample_file :: string where
  "sample_file = BOM @ ''one'' @ [CR, LF] @ ''two'' @ [CR, LF] @ ''three'' @ [CR, LF]"

theorem edit_changes_one_place_witness:
  "fst (edit_file plain_codecs (''2'' @ [LF] @ ''2.5'') ''two'' 0 0 (Regular sample_file)) =
     Regular (BOM @ ''one'' @ [CR, LF] @ ''2'' @ [CR, LF] @ ''2.5'' @ [CR, LF] @ ''three'' @ [CR, LF]) \<and>
   count_text ''two'' (normalize_nl (without_BOM sample_file)) = 1"
proof -
  have valid: "dc_valid plain_codecs sample_file" and one: "one_style sample_file" by code_simp+
  let ?e = "edit_file plain_codecs (''2'' @ [LF] @ ''2.5'') ''two'' 0 0 (Regular sample_file)"
  have b': "fst ?e = Regular (BOM @ ''one'' @ [CR, LF] @ ''2'' @ [CR, LF] @ ''2.5'' @ [CR, LF] @ ''three'' @ [CR, LF])"
    and "(case snd ?e of Inl _ \<Rightarrow> False | Inr _ \<Rightarrow> True)" by code_simp+
  then obtain r where e: "?e = (Regular (BOM @ ''one'' @ [CR, LF] @ ''2'' @ [CR, LF] @ ''2.5'' @ [CR, LF] @ ''three'' @ [CR, LF]), Inr r)"
    by (cases ?e) (auto split: sum.splits)
  have "normalize_nl ''two'' = ''two''" by code_simp
  then show ?thesis using edit_changes_one_place [OF valid one e] b' by auto
qed

lemma failed_edit_changes_nothing: "snd (edit_file C new old a b f) = Inl e \<Longrightarrow> fst (edit_file C new old a b f) = f"
  by (auto simp: edit_file_def Let_def split: node.splits sum.splits prod.splits)

section \<open>Lines\<close>

text \<open>A line that \<open>splitlines\<close> does not break, also with a line feed behind it.\<close>

definition line_ok :: "string \<Rightarrow> bool" where
  "line_ok l \<longleftrightarrow> list_all (\<lambda>i. line_break (drop i l @ [LF]) = 0) [0..<length l]"

lemma line_ok_Cons: "line_ok (c # l) \<longleftrightarrow> line_break (c # l @ [LF]) = 0 \<and> line_ok l"
  by (simp add: line_ok_def upt_conv_Cons map_Suc_upt [symmetric] list.pred_map comp_def del: upt_Suc)

lemma line_ok_Nil [simp]: "line_ok []"
  by (simp add: line_ok_def)

text \<open>A break is decided by at most two bytes behind its first, and a line feed is none of them.\<close>

lemma break_before_LF: "line_break (c # cs @ [LF]) = 0 \<Longrightarrow> line_break (c # cs @ LF # rest) = 0"
  by (cases cs; cases "tl cs") (auto simp: LF_def CR_def split: if_splits)

lemma no_break_before_LF: "line_break (c # cs @ rest) = 0 \<Longrightarrow> line_break (c # cs @ [LF]) = 0"
  by (cases cs; cases "tl cs"; cases rest) (auto simp: LF_def CR_def split: if_splits list.splits)

lemma lines_from_line: "line_ok l \<Longrightarrow> lines_from cur (l @ LF # rest) = (rev cur @ l) # lines_from [] rest"
proof (induction l arbitrary: cur)
  case Nil
  have "line_break (LF # rest) = Suc 0" by (simp add: LF_def CR_def)
  then show ?case by simp
next
  case (Cons c l)
  then have "line_break (c # l @ LF # rest) = 0" using break_before_LF by (simp add: line_ok_Cons)
  then show ?case using Cons by (simp add: line_ok_Cons del: line_break.simps)
qed

lemma splitlines_join: "list_all line_ok ls \<Longrightarrow> ls \<noteq> [] \<Longrightarrow> splitlines (join_nl ls @ [LF]) = ls"
proof (induction ls rule: join_nl.induct)
  case (2 l)
  then show ?case using lines_from_line [of l "[]" "[]"] by (simp add: splitlines_def)
next
  case (3 l m ls)
  then show ?case using lines_from_line [of l "[]" "join_nl (m # ls) @ [LF]"] by (simp add: splitlines_def)
qed simp

text \<open>What \<open>splitlines\<close> returns are such lines.\<close>

lemma unbroken_line_ok: "\<forall>i < length l. line_break (drop i l @ rest) = 0 \<Longrightarrow> line_ok l"
proof (induction l)
  case (Cons c l)
  have "line_break (c # l @ rest) = 0" using Cons.prems [rule_format, of 0] by simp
  moreover have "\<forall>i < length l. line_break (drop i l @ rest) = 0" using Cons.prems by (metis Suc_less_eq drop_Suc_Cons length_Cons)
  ultimately show ?case using Cons.IH no_break_before_LF by (simp add: line_ok_Cons del: line_break.simps)
qed simp

lemma lines_from_ok: "\<forall>i < length cur. line_break (drop i (rev cur) @ s) = 0 \<Longrightarrow> list_all line_ok (lines_from cur s)"
proof (induction cur s rule: lines_from.induct)
  case (1 cur)
  then show ?case using unbroken_line_ok [of "rev cur" "[]"] by simp
next
  case (2 cur c cs)
  show ?case
  proof (cases "line_break (c # cs)")
    case 0
    have "\<forall>i < length (c # cur). line_break (drop i (rev (c # cur)) @ cs) = 0"
    proof (intro allI impI)
      fix i assume "i < length (c # cur)"
      then show "line_break (drop i (rev (c # cur)) @ cs) = 0"
        using 2(3) 0 by (cases "i = length cur") (simp_all del: line_break.simps)
    qed
    then show ?thesis using 2(1) [OF 0] 0 by (simp del: line_break.simps)
  next
    case (Suc n)
    have "line_ok (rev cur)" using 2(3) unbroken_line_ok [of "rev cur" "c # cs"] by simp
    then show ?thesis using 2(2) [OF Suc] Suc by (simp del: line_break.simps)
  qed
qed

lemma splitlines_ok: "list_all line_ok (splitlines s)"
  unfolding splitlines_def by (rule lines_from_ok) simp

lemma list_all_take_drop: "list_all P xs \<Longrightarrow> list_all P (take n xs) \<and> list_all P (drop n xs)"
  by (metis append_take_drop_id list_all_append)

lemma join_empty: "join_nl ls = [] \<Longrightarrow> ls = [] \<or> ls = [[]]"
  by (cases ls rule: join_nl.cases) auto

text \<open>Lines, each ended by a line feed.\<close>

definition unlines :: "string list \<Rightarrow> string" where
  "unlines ls = concat (map (\<lambda>l. l @ [LF]) ls)"

lemma join_unlines: "ls \<noteq> [] \<Longrightarrow> join_nl ls @ [LF] = unlines ls"
  by (induction ls rule: join_nl.induct) (simp_all add: unlines_def)

text \<open>
  C38: an edit by line numbers means the lines that the read tool shows. For a text that ends with a line feed and has no
  other line breaks than line feeds, and a new text without other breaks, the text afterwards is, character by character,
  the lines before the first one, the new lines, and the lines behind the last one, unchanged and in order, and these are
  the lines the read tool shows - unless a single empty line is all that remains.
\<close>
theorem line_edit_as_read:
  assumes "line_edit content new a b = Inr (content', old_count, new_count)" and "1 \<le> a"
    and "content \<noteq> []" "content = unlines (splitlines content)" and "list_all line_ok (split_nl new)"
    and "ls = take (a - 1) (splitlines content) @ (if new = [] then [] else split_nl new) @
      drop (if 0 < b then nat b else a) (splitlines content)" and "ls \<noteq> [[]]"
  shows "content' = unlines ls \<and> splitlines content' = ls \<and> a - 1 + old_count \<le> length (splitlines content)"
proof -
  let ?L = "splitlines content" and ?e = "if 0 < b then nat b else a"
  have ends: "last content = LF"
  proof -
    have "?L \<noteq> []" using assms(3,4) by (auto simp: unlines_def)
    then have "content = join_nl ?L @ [LF]" using assms(4) join_unlines by metis
    then show ?thesis by (metis last_snoc)
  qed
  have ok: "\<not> length ?L < a" "\<not> ?e < a" using assms(1) by (auto simp: line_edit_def Let_def split: if_splits)
  have "drop (min ?e (length ?L)) ?L = drop ?e ?L" by (simp add: min_def)
  then have c: "content' = (if join_nl ls = [] then [] else join_nl ls @ [LF])" "old_count = min ?e (length ?L) - (a - 1)"
    using assms(1,3,6) ends ok by (auto simp: line_edit_def Let_def split: if_splits)
  have all: "list_all line_ok ls"
    using list_all_take_drop [OF splitlines_ok] assms(5,6) by simp
  have "content' = unlines ls \<and> splitlines content' = ls"
  proof (cases "join_nl ls = []")
    case True
    then have "ls = []" using join_empty assms(7) by blast
    then show ?thesis using True c(1) by (simp add: splitlines_def unlines_def)
  next
    case False
    then have "ls \<noteq> []" by auto
    then show ?thesis using splitlines_join [OF all] join_unlines False c(1) by simp
  qed
  moreover have "a - 1 + old_count \<le> length ?L"
  proof -
    have "min ?e (length ?L) \<le> length ?L" by simp
    then show ?thesis unfolding c(2) using ok(1) by linarith
  qed
  ultimately show ?thesis by blast
qed

theorem line_edit_as_read_witness:
  "line_edit (''a'' @ [LF] @ ''b'' @ [LF] @ ''c'' @ [LF]) (''x'' @ [LF] @ ''y'') 2 0 =
     Inr (''a'' @ [LF] @ ''x'' @ [LF] @ ''y'' @ [LF] @ ''c'' @ [LF], 1, 2) \<and>
   splitlines (''a'' @ [LF] @ ''x'' @ [LF] @ ''y'' @ [LF] @ ''c'' @ [LF]) = [''a'', ''x'', ''y'', ''c'']"
proof -
  let ?c = "''a'' @ [LF] @ ''b'' @ [LF] @ ''c'' @ [LF]" and ?n = "''x'' @ [LF] @ ''y''"
  have run: "line_edit ?c ?n 2 0 = Inr (''a'' @ [LF] @ ''x'' @ [LF] @ ''y'' @ [LF] @ ''c'' @ [LF], 1, 2)"
    and ls: "splitlines ?c = [''a'', ''b'', ''c'']" and n: "split_nl ?n = [''x'', ''y'']" and ok: "list_all line_ok [''x'', ''y'']"
    and u: "unlines [''a'', ''b'', ''c''] = ?c"
    by code_simp+
  have eq: "[''a'', ''x'', ''y'', ''c''] = take (2 - 1) (splitlines ?c) @ (if ?n = [] then [] else split_nl ?n) @
      drop (if (0 :: int) < 0 then nat 0 else 2) (splitlines ?c)" unfolding ls n by simp
  have c: "?c = unlines (splitlines ?c)" by (simp only: ls u)
  have o: "list_all line_ok (split_nl ?n)" by (simp only: n ok)
  have s: "(1 :: nat) \<le> 2" "?c \<noteq> []" "[''a'', ''x'', ''y'', ''c''] \<noteq> [[]]" by simp_all
  note r = line_edit_as_read [OF run s(1,2) c o eq s(3)]
  show ?thesis by (intro conjI run) (rule conjunct1 [OF conjunct2 [OF r]])
qed

section \<open>Weak spots\<close>

text \<open>Overlapping occurrences count once: the first one is replaced although the position is not unique.\<close>

lemma overlap_counts_once: "string_edit ''aaa'' ''aa'' ''b'' = Inr (''ba'', 1) \<and> match_lines ''aaa'' ''aa'' = [1, 1]"
  by code_simp

text \<open>In a file with both kinds of line ends every line feed becomes a carriage return with line feed.\<close>

lemma mixed_ends_are_unified:
  "fst (edit_file plain_codecs ''y'' ''x'' 0 0 (Regular (''x'' @ [LF] @ ''b'' @ [CR, LF] @ ''c'' @ [LF]))) =
     Regular (''y'' @ [CR, LF] @ ''b'' @ [CR, LF] @ ''c'' @ [CR, LF])"
  by code_simp

text \<open>An edit of one line turns a form feed elsewhere into a line feed.\<close>

lemma form_feed_is_lost:
  "map_option fst (case line_edit (''a'' @ [LF] @ ''b'' @ [CHR 0x0C] @ ''c'' @ [LF]) ''x'' 1 0 of Inl e \<Rightarrow> None | Inr r \<Rightarrow> Some r) =
     Some (''x'' @ [LF] @ ''b'' @ [LF] @ ''c'' @ [LF])"
  by code_simp

text \<open>Deleting a line behind one empty line deletes both.\<close>

lemma empty_line_is_lost:
  "map_option fst (case line_edit ([LF] @ ''a'' @ [LF]) [] 2 0 of Inl e \<Rightarrow> None | Inr r \<Rightarrow> Some r) = Some []"
  by code_simp

end
