(* ===== verification/PlanTool.thy ===== *)
theory PlanTool
  imports Json
begin

text \<open>
  The plan of a session and the tool that keeps it (\<open>src/ftre/plugins/builtin/plan/plan.py\<close>).

  The plan is the entry \<open>plan\<close> of the metadata of the session. \<open>get_session_metadata\<close> copies the metadata but not
  what is in it, so the tool works on the plan that is in memory: the model has that plan and the one in the file of
  the session. A write may raise; then memory keeps what was done to it in place. Texts of replies are left out. A call is
  one step: calls of one session that overlap (each reads the metadata and writes it in an operation of its own) are not
  modelled, nor is a write that takes effect after its ten seconds are over.
\<close>

section \<open>Plans\<close>

record plan_step =
  pt_id :: string
  pt_content :: string
  pt_status :: string

record plan =
  pl_goal :: string
  pl_raw :: string
  pl_steps :: "plan_step list"

record plan_store =
  pv_live :: "plan option"
  pv_disk :: "plan option"

definition VALID_STATUSES :: "string list" where
  "VALID_STATUSES = [''pending'', ''in_progress'', ''completed'']"

text \<open>The content of a step that has none, in UTF-8.\<close>

definition STEP_PREFIX :: string where
  "STEP_PREFIX = map (char_of :: nat \<Rightarrow> char) [0xE6, 0xAD, 0xA5, 0xE9, 0xAA, 0xA4, 0x20]"

definition normalize_step :: "pylib \<Rightarrow> nat \<times> json \<Rightarrow> plan_step option" where
  "normalize_step L e =
     (case snd e of
        JObj d \<Rightarrow>
          (let sid = (case dict_get d ''id'' of None \<Rightarrow> str_of_int (int (fst e) + 1) | Some j \<Rightarrow> py_str L j);
               status = (case get_or d ''status'' (JStr ''pending'') of JStr t \<Rightarrow> if t \<in> set VALID_STATUSES then t else ''pending'' | _ \<Rightarrow> ''pending'')
           in Some \<lparr>pt_id = sid, pt_content = (case dict_get d ''content'' of None \<Rightarrow> STEP_PREFIX @ sid | Some j \<Rightarrow> py_str L j), pt_status = status\<rparr>)
      | _ \<Rightarrow> None)"

definition normalize_steps :: "pylib \<Rightarrow> json list \<Rightarrow> plan_step list" where
  "normalize_steps L steps = List.map_filter (normalize_step L) (enumerate 0 steps)"

section \<open>The tool\<close>

datatype plan_error =
    ContextMissing | EmptyGoal | NoSteps | NoPlan | NoUpdates | BadStatus string | NothingFound "string list"
  | Unfinished "string list" | UnknownAction string

datatype plan_reply =
    PlanCreated plan | PlanUpdated "string list" "string list" plan | PlanCompleted | PlanError plan_error | PlanRaised exn

record plan_args =
  pa_ready :: bool
  pa_action :: string
  pa_goal :: string
  pa_raw :: string
  pa_steps :: "json list"
  pa_step_id :: string
  pa_status :: string
  pa_updates :: "json list"

text \<open>The first step with the id gets the status.\<close>

fun set_status :: "string \<Rightarrow> string \<Rightarrow> plan_step list \<Rightarrow> plan_step list option" where
  "set_status i t [] = None"
| "set_status i t (s # ss) = (if pt_id s = i then Some (s\<lparr>pt_status := t\<rparr> # ss) else map_option (Cons s) (set_status i t ss))"

definition stripped_field :: "pylib \<Rightarrow> jdict \<Rightarrow> string \<Rightarrow> string" where
  "stripped_field L d k = py_strip (case dict_get d k of None \<Rightarrow> [] | Some j \<Rightarrow> py_str L j)"

text \<open>The updates one after the other, on the steps in memory: what was found, what was not, and the status that stopped it.\<close>

fun apply_updates :: "pylib \<Rightarrow> json list \<Rightarrow> plan_step list \<Rightarrow> plan_step list \<times> string list \<times> string list \<times> string option" where
  "apply_updates L [] steps = (steps, [], [], None)"
| "apply_updates L (u # us) steps =
     (case u of
        JObj d \<Rightarrow>
          (let i = stripped_field L d ''id''; t = stripped_field L d ''status''
           in if i = [] \<or> t = [] then apply_updates L us steps
              else if t \<notin> set VALID_STATUSES then (steps, [], [], Some t)
              else case set_status i t steps of
                Some steps' \<Rightarrow> (case apply_updates L us steps' of (r, found, lost, bad) \<Rightarrow> (r, i # found, lost, bad))
              | None \<Rightarrow> (case apply_updates L us steps of (r, found, lost, bad) \<Rightarrow> (r, found, i # lost, bad)))
      | _ \<Rightarrow> apply_updates L us steps)"

text \<open>\<open>update_session_metadata\<close>: None removes the plan.\<close>

definition store_plan :: "unit result \<Rightarrow> plan option \<Rightarrow> plan_reply \<Rightarrow> plan_store \<Rightarrow> plan_store \<times> plan_reply" where
  "store_plan w p reply s = (case w of Inl e \<Rightarrow> (s, PlanRaised e) | Inr _ \<Rightarrow> (\<lparr>pv_live = p, pv_disk = p\<rparr>, reply))"

definition create_plan :: "pylib \<Rightarrow> unit result \<Rightarrow> plan_args \<Rightarrow> plan_store \<Rightarrow> plan_store \<times> plan_reply" where
  "create_plan L w a s =
     (if py_strip (pa_goal a) = [] then (s, PlanError EmptyGoal)
      else if pa_steps a = [] then (s, PlanError NoSteps)
      else let p = \<lparr>pl_goal = py_strip (pa_goal a), pl_raw = py_strip (pa_raw a), pl_steps = normalize_steps L (pa_steps a)\<rparr>
           in store_plan w (Some p) (PlanCreated p) s)"

definition update_list :: "plan_args \<Rightarrow> json list option" where
  "update_list a =
     (if pa_updates a \<noteq> [] then Some (pa_updates a)
      else if py_strip (pa_step_id a) \<noteq> [] \<and> py_strip (pa_status a) \<noteq> []
      then Some [JObj [(''id'', JStr (py_strip (pa_step_id a))), (''status'', JStr (py_strip (pa_status a)))]]
      else None)"

definition update_plan :: "pylib \<Rightarrow> unit result \<Rightarrow> plan_args \<Rightarrow> plan_store \<Rightarrow> plan_store \<times> plan_reply" where
  "update_plan L w a s =
     (case pv_live s of
        None \<Rightarrow> (s, PlanError NoPlan)
      | Some p \<Rightarrow>
          (case update_list a of
             None \<Rightarrow> (s, PlanError NoUpdates)
           | Some us \<Rightarrow>
               (case apply_updates L us (pl_steps p) of (steps, found, lost, bad) \<Rightarrow>
                  let p' = p\<lparr>pl_steps := steps\<rparr>; s' = s\<lparr>pv_live := Some p'\<rparr>
                  in case bad of
                       Some t \<Rightarrow> (s', PlanError (BadStatus t))
                     | None \<Rightarrow> if found = [] then (s', PlanError (NothingFound (map pt_id steps)))
                         else store_plan w (Some p') (PlanUpdated found lost p') s')))"

definition open_steps :: "plan \<Rightarrow> plan_step list" where
  "open_steps p = filter (\<lambda>s. pt_status s \<noteq> ''completed'') (pl_steps p)"

definition complete_plan :: "unit result \<Rightarrow> plan_store \<Rightarrow> plan_store \<times> plan_reply" where
  "complete_plan w s =
     (case pv_live s of
        None \<Rightarrow> (s, PlanError NoPlan)
      | Some p \<Rightarrow>
          (if open_steps p \<noteq> [] then (s, PlanError (Unfinished (map (take_chars 20 \<circ> pt_content) (open_steps p))))
           else store_plan w None PlanCompleted s))"

definition plan_tool :: "pylib \<Rightarrow> unit result \<Rightarrow> plan_args \<Rightarrow> plan_store \<Rightarrow> plan_store \<times> plan_reply" where
  "plan_tool L w a s =
     (let action = py_strip (pa_action a)
      in if \<not> pa_ready a then (s, PlanError ContextMissing)
         else if action = ''create'' then create_plan L w a s
         else if action = ''update'' then update_plan L w a s
         else if action = ''complete'' then complete_plan w s
         else (s, PlanError (UnknownAction action)))"

text \<open>The plan over time: calls, other writes of the session, which save what is in memory, and restarts.\<close>

inductive plan_moves :: "plan_store \<Rightarrow> plan_store \<Rightarrow> bool" where
  called: "plan_moves s (fst (plan_tool L w a s))"
| saved: "plan_moves s (s\<lparr>pv_disk := pv_live s\<rparr>)"
| restarted: "plan_moves s (s\<lparr>pv_live := pv_disk s\<rparr>)"

section \<open>Statuses\<close>

definition steps_typed :: "plan_step list \<Rightarrow> bool" where
  "steps_typed ss \<longleftrightarrow> list_all (\<lambda>s. pt_status s \<in> set VALID_STATUSES) ss"

definition plan_typed :: "plan option \<Rightarrow> bool" where
  "plan_typed p \<longleftrightarrow> (case p of None \<Rightarrow> True | Some q \<Rightarrow> steps_typed (pl_steps q))"

definition store_typed :: "plan_store \<Rightarrow> bool" where
  "store_typed s \<longleftrightarrow> plan_typed (pv_live s) \<and> plan_typed (pv_disk s)"

text \<open>An update changes statuses and nothing else.\<close>

definition steps_kept :: "plan_step list \<Rightarrow> plan_step list \<Rightarrow> bool" where
  "steps_kept ss ss' \<longleftrightarrow> map (\<lambda>s. (pt_id s, pt_content s)) ss' = map (\<lambda>s. (pt_id s, pt_content s)) ss \<and> (steps_typed ss \<longrightarrow> steps_typed ss')"

lemma steps_kept_refl [simp]: "steps_kept ss ss"
  by (simp add: steps_kept_def)

lemma steps_kept_trans: "steps_kept a b \<Longrightarrow> steps_kept b c \<Longrightarrow> steps_kept a c"
  by (simp add: steps_kept_def)

lemma set_status_kept: "set_status i t ss = Some ss' \<Longrightarrow> t \<in> set VALID_STATUSES \<Longrightarrow> steps_kept ss ss'"
  by (induction ss arbitrary: ss') (auto simp: steps_kept_def steps_typed_def split: if_splits)

lemma apply_updates_kept: "apply_updates L us ss = (ss', found, lost, bad) \<Longrightarrow> steps_kept ss ss'"
proof (induction us arbitrary: ss ss' found lost bad)
  case (Cons u us)
  show ?case
  proof (cases u)
    case (JObj d)
    define i where "i = stripped_field L d ''id''"
    define t where "t = stripped_field L d ''status''"
    note run = Cons.prems [unfolded JObj, simplified, folded i_def t_def]
    show ?thesis
    proof (cases "i = [] \<or> t = []")
      case True
      then show ?thesis using Cons.IH run by (simp add: Let_def)
    next
      case False
      show ?thesis
      proof (cases "t \<in> set VALID_STATUSES")
        case False
        then show ?thesis using run \<open>\<not> (i = [] \<or> t = [])\<close> by (simp add: Let_def)
      next
        case valid: True
        show ?thesis
        proof (cases "set_status i t ss")
          case None
          then show ?thesis
            using Cons.IH run False valid by (fastforce simp: Let_def split: prod.splits)
        next
          case (Some ss1)
          obtain found' where "apply_updates L us ss1 = (ss', found', lost, bad)"
            using run False valid Some by (auto simp: Let_def split: prod.splits)
          then have "steps_kept ss1 ss'" using Cons.IH by blast
          then show ?thesis using set_status_kept [OF Some valid] steps_kept_trans by blast
        qed
      qed
    qed
  qed (use Cons in simp_all)
qed simp

lemma normalize_step_typed: "normalize_step L e = Some s \<Longrightarrow> pt_status s \<in> set VALID_STATUSES"
  by (auto simp: normalize_step_def VALID_STATUSES_def Let_def split: json.splits if_splits)

lemma normalized_typed: "steps_typed (normalize_steps L js)"
proof -
  have "steps_typed (List.map_filter (normalize_step L) es)" for es
    by (induction es) (auto simp: steps_typed_def List.map_filter_simps normalize_step_typed split: option.splits)
  then show ?thesis by (simp add: normalize_steps_def)
qed

lemma store_plan_typed: "store_typed s \<Longrightarrow> plan_typed p \<Longrightarrow> store_typed (fst (store_plan w p reply s))"
  by (simp add: store_plan_def store_typed_def split: sum.splits)

lemma create_typed: "store_typed s \<Longrightarrow> store_typed (fst (create_plan L w a s))"
  using store_plan_typed normalized_typed by (simp add: create_plan_def Let_def plan_typed_def)

lemma update_typed:
  assumes "store_typed s"
  shows "store_typed (fst (update_plan L w a s))"
proof (cases "pv_live s")
  case (Some p)
  show ?thesis
  proof (cases "update_list a")
    case us: (Some us)
    obtain ss found lost bad where run: "apply_updates L us (pl_steps p) = (ss, found, lost, bad)" by (cases "apply_updates L us (pl_steps p)")
    have "steps_typed ss" using apply_updates_kept [OF run] assms Some by (simp add: steps_kept_def store_typed_def plan_typed_def)
    then have "plan_typed (Some (p\<lparr>pl_steps := ss\<rparr>))" "store_typed (s\<lparr>pv_live := Some (p\<lparr>pl_steps := ss\<rparr>)\<rparr>)"
      using assms by (simp_all add: plan_typed_def store_typed_def)
    then show ?thesis using Some us run store_plan_typed by (simp add: update_plan_def Let_def split: option.splits)
  qed (use assms Some in \<open>simp add: update_plan_def\<close>)
qed (use assms in \<open>simp add: update_plan_def\<close>)

lemma complete_typed: "store_typed s \<Longrightarrow> store_typed (fst (complete_plan w s))"
  using store_plan_typed [of s None] by (simp add: complete_plan_def plan_typed_def split: option.splits)

lemma plan_moves_typed: "plan_moves s s' \<Longrightarrow> store_typed s \<Longrightarrow> store_typed s'"
proof (induction rule: plan_moves.induct)
  case (called s L w a)
  then show ?case using create_typed update_typed complete_typed by (simp add: plan_tool_def Let_def)
qed (simp_all add: store_typed_def)

section \<open>What is promised\<close>

definition plan_reachable :: "plan_store \<Rightarrow> bool" where
  "plan_reachable s \<longleftrightarrow> plan_moves\<^sup>*\<^sup>* \<lparr>pv_live = None, pv_disk = None\<rparr> s"

lemma reachable_typed: "plan_reachable s \<Longrightarrow> store_typed s"
  unfolding plan_reachable_def
  by (induction rule: rtranclp_induct) (simp add: store_typed_def plan_typed_def, rule plan_moves_typed)

text \<open>
  C39: of calls that are made one after the other, only one that asks for completion ends a plan, and only when every step
  is completed. Only a call that asks for a new plan replaces the plan, finished or not, and then by the steps it was given.
  Every other call keeps the steps, with their ids, contents and order. All statuses are of the three.
\<close>
theorem plan_ends_when_all_done:
  assumes "plan_reachable s" "pv_live s = Some p" "plan_tool L w a s = (s', reply)"
  shows "(case pv_live s' of
      None \<Rightarrow> py_strip (pa_action a) = ''complete'' \<and> reply = PlanCompleted \<and> list_all (\<lambda>x. pt_status x = ''completed'') (pl_steps p)
    | Some p' \<Rightarrow> steps_typed (pl_steps p') \<and>
        (if py_strip (pa_action a) = ''create'' then p' = p \<or> reply = PlanCreated p' \<and> pl_steps p' = normalize_steps L (pa_steps a)
         else steps_kept (pl_steps p) (pl_steps p')))"
proof -
  have "store_typed s'"
    using plan_moves_typed [OF plan_moves.called [of s L w a]] reachable_typed [OF assms(1)] assms(3) by simp
  then have typed: "steps_typed (pl_steps p')" if "pv_live s' = Some p'" for p'
    using that by (simp add: store_typed_def plan_typed_def)
  have "pv_live s' = None \<longrightarrow> py_strip (pa_action a) = ''complete'' \<and> reply = PlanCompleted \<and> list_all (\<lambda>x. pt_status x = ''completed'') (pl_steps p)"
    using assms(2,3)
    by (auto simp: plan_tool_def create_plan_def update_plan_def complete_plan_def store_plan_def open_steps_def Let_def
        list_all_iff filter_empty_conv split: if_splits option.splits sum.splits prod.splits)
  moreover have "if py_strip (pa_action a) = ''create'' then p' = p \<or> reply = PlanCreated p' \<and> pl_steps p' = normalize_steps L (pa_steps a)
      else steps_kept (pl_steps p) (pl_steps p')" if "pv_live s' = Some p'" for p'
    using assms(2,3) that apply_updates_kept
    by (auto simp: plan_tool_def create_plan_def update_plan_def complete_plan_def store_plan_def Let_def
        split: if_splits option.splits sum.splits prod.splits)
  ultimately show ?thesis using typed by (auto split: option.splits)
qed

definition plain_step :: "string \<Rightarrow> string \<Rightarrow> json" where
  "plain_step i c = JObj [(''id'', JStr i), (''content'', JStr c)]"

definition marked :: "string \<Rightarrow> string \<Rightarrow> json" where
  "marked i t = JObj [(''id'', JStr i), (''status'', JStr t)]"

definition plan_call :: "string \<Rightarrow> json list \<Rightarrow> json list \<Rightarrow> plan_args" where
  "plan_call action steps updates = \<lparr>pa_ready = True, pa_action = action, pa_goal = ''blog'', pa_raw = [], pa_steps = steps,
     pa_step_id = [], pa_status = [], pa_updates = updates\<rparr>"

definition plain_lib :: pylib where
  "plain_lib = \<lparr>lib_str = (\<lambda>j. ''?''), lib_dumps = (\<lambda>j. []), lib_digest = (\<lambda>j. []), lib_text_digest = (\<lambda>s. s),
     lib_int = (\<lambda>s. Inl ValueError), lib_dict = (\<lambda>j. Inl TypeError)\<rparr>"

definition after_call :: "plan_args \<Rightarrow> plan_store \<Rightarrow> plan_store" where
  "after_call a s = fst (plan_tool plain_lib (Inr ()) a s)"

definition planned :: "json list \<Rightarrow> plan_store" where
  "planned steps = after_call (plan_call ''create'' steps []) \<lparr>pv_live = None, pv_disk = None\<rparr>"

lemma planned_reachable: "plan_reachable (planned steps)"
  unfolding plan_reachable_def planned_def after_call_def by (rule r_into_rtranclp) (rule plan_moves.called)

theorem plan_ends_when_all_done_witness:
  "map_option (map pt_status \<circ> pl_steps) (pv_live (after_call (plan_call ''update'' [] [marked ''2'' ''completed''])
      (planned [plain_step ''1'' ''write'', plain_step ''2'' ''test'']))) = Some [''pending'', ''completed''] \<and>
   steps_typed (pl_steps (the (pv_live (after_call (plan_call ''update'' [] [marked ''2'' ''completed''])
      (planned [plain_step ''1'' ''write'', plain_step ''2'' ''test''])))))"
proof -
  let ?s = "planned [plain_step ''1'' ''write'', plain_step ''2'' ''test'']" and ?a = "plan_call ''update'' [] [marked ''2'' ''completed'']"
  have run: "map_option (map pt_status \<circ> pl_steps) (pv_live (after_call ?a ?s)) = Some [''pending'', ''completed'']" by code_simp
  have "pv_live ?s \<noteq> None" by code_simp
  then obtain p where p: "pv_live ?s = Some p" by blast
  obtain p' where p': "pv_live (after_call ?a ?s) = Some p'" using run by auto
  have "steps_typed (pl_steps p')"
    using plan_ends_when_all_done [OF planned_reachable p prod.collapse [symmetric], where L = plain_lib and w = "Inr ()" and a = ?a] p'
    by (simp add: after_call_def)
  then show ?thesis using run p' by simp
qed

section \<open>A plan can be finished\<close>

text \<open>When ids are different and without blanks at their ends, which the tool does not check.\<close>

definition ids_plain :: "plan \<Rightarrow> bool" where
  "ids_plain p \<longleftrightarrow> distinct (map pt_id (pl_steps p)) \<and> list_all (\<lambda>s. pt_id s \<noteq> [] \<and> py_strip (pt_id s) = pt_id s) (pl_steps p)"

definition finish_marks :: "plan \<Rightarrow> json list" where
  "finish_marks p = map (\<lambda>s. marked (pt_id s) ''completed'') (pl_steps p)"

lemma set_status_at: "i \<notin> set (map pt_id xs) \<Longrightarrow> pt_id s = i \<Longrightarrow> set_status i t (xs @ s # ys) = Some (xs @ s\<lparr>pt_status := t\<rparr> # ys)"
  by (induction xs) auto

lemma strip_completed: "py_strip ''completed'' = ''completed''"
  by (simp add: py_strip_def is_blank_def)

lemma apply_finish:
  "distinct (map pt_id (xs @ ys)) \<Longrightarrow> list_all (\<lambda>s. pt_id s \<noteq> [] \<and> py_strip (pt_id s) = pt_id s) ys \<Longrightarrow>
   apply_updates L (map (\<lambda>s. marked (pt_id s) ''completed'') ys) (xs @ ys) =
     (xs @ map (\<lambda>s. s\<lparr>pt_status := ''completed''\<rparr>) ys, map pt_id ys, [], None)"
proof (induction ys arbitrary: xs)
  case (Cons y ys)
  have set: "set_status (pt_id y) ''completed'' (xs @ y # ys) = Some ((xs @ [y\<lparr>pt_status := ''completed''\<rparr>]) @ ys)"
    using Cons.prems(1) set_status_at [of "pt_id y" xs y] by simp
  have rest: "apply_updates L (map (\<lambda>s. marked (pt_id s) ''completed'') ys) ((xs @ [y\<lparr>pt_status := ''completed''\<rparr>]) @ ys) =
      ((xs @ [y\<lparr>pt_status := ''completed''\<rparr>]) @ map (\<lambda>s. s\<lparr>pt_status := ''completed''\<rparr>) ys, map pt_id ys, [], None)"
    using Cons.prems by (intro Cons.IH) auto
  show ?case using set rest Cons.prems(2)
    by (simp add: marked_def stripped_field_def py_str_def strip_completed VALID_STATUSES_def Let_def)
qed simp

text \<open>
  a plan whose ids are different and without blanks at their ends can always be finished: marking every step as
  completed in one call and then completing the plan removes it from memory and from the file, when both writes go
  through.
\<close>
theorem plan_can_be_finished:
  assumes "pv_live s = Some p" "ids_plain p" "pl_steps p \<noteq> []"
  shows "plan_tool L (Inr ()) (plan_call ''complete'' [] []) (fst (plan_tool L (Inr ()) (plan_call ''update'' [] (finish_marks p)) s)) =
    (\<lparr>pv_live = None, pv_disk = None\<rparr>, PlanCompleted)"
proof -
  let ?done = "map (\<lambda>s. s\<lparr>pt_status := ''completed''\<rparr>) (pl_steps p)"
  have run: "apply_updates L (finish_marks p) (pl_steps p) = (?done, map pt_id (pl_steps p), [], None)"
    using apply_finish [of "[]" "pl_steps p" L] assms(2) by (simp add: ids_plain_def finish_marks_def)
  have actions: "py_strip ''update'' = ''update''" "py_strip ''complete'' = ''complete''"
    by (simp_all add: py_strip_def is_blank_def)
  have "finish_marks p \<noteq> []" using assms(3) by (simp add: finish_marks_def)
  then have "plan_tool L (Inr ()) (plan_call ''update'' [] (finish_marks p)) s =
      (\<lparr>pv_live = Some (p\<lparr>pl_steps := ?done\<rparr>), pv_disk = Some (p\<lparr>pl_steps := ?done\<rparr>)\<rparr>, PlanUpdated (map pt_id (pl_steps p)) [] (p\<lparr>pl_steps := ?done\<rparr>))"
    using assms(1,3) run by (simp add: plan_tool_def plan_call_def actions update_plan_def update_list_def store_plan_def Let_def)
  then show ?thesis
    by (simp add: plan_tool_def plan_call_def actions complete_plan_def open_steps_def store_plan_def filter_map comp_def)
qed

theorem plan_can_be_finished_witness:
  "snd (plan_tool plain_lib (Inr ()) (plan_call ''complete'' [] []) (after_call (plan_call ''update'' []
      [marked ''1'' ''completed'', marked ''2'' ''completed'']) (planned [plain_step ''1'' ''write'', plain_step ''2'' ''test'']))) = PlanCompleted"
proof -
  let ?s = "planned [plain_step ''1'' ''write'', plain_step ''2'' ''test'']"
  have "(case pv_live ?s of None \<Rightarrow> False | Some p \<Rightarrow> ids_plain p \<and> pl_steps p \<noteq> [] \<and> map pt_id (pl_steps p) = [''1'', ''2''])" by code_simp
  then obtain p where p: "pv_live ?s = Some p" "ids_plain p" "pl_steps p \<noteq> []" "map pt_id (pl_steps p) = [''1'', ''2'']"
    by (auto split: option.splits)
  have "finish_marks p = map (\<lambda>i. marked i ''completed'') (map pt_id (pl_steps p))" by (simp add: finish_marks_def)
  then have "finish_marks p = [marked ''1'' ''completed'', marked ''2'' ''completed'']" using p(4) by simp
  then show ?thesis using plan_can_be_finished [OF p(1-3), of plain_lib] by (simp add: after_call_def)
qed

section \<open>Weak spots\<close>

text \<open>With two steps of one id the second is never reached, and the plan can neither be completed nor removed.\<close>

lemma duplicate_id_blocks_plan:
  "snd (plan_tool plain_lib (Inr ()) (plan_call ''complete'' [] []) (after_call (plan_call ''update'' []
      [marked ''1'' ''completed'', marked ''1'' ''completed'']) (planned [plain_step ''1'' ''write'', plain_step ''1'' ''test'']))) =
   PlanError (Unfinished [''test''])"
  by code_simp

text \<open>A call that is refused for a status it does not know has already changed the steps before it.\<close>

lemma refused_update_changes_plan:
  "map_option (map pt_status \<circ> pl_steps) (pv_live (after_call (plan_call ''update'' [] [marked ''1'' ''completed'', marked ''2'' ''ready''])
      (planned [plain_step ''1'' ''write'', plain_step ''2'' ''test'']))) = Some [''completed'', ''pending''] \<and>
   snd (plan_tool plain_lib (Inr ()) (plan_call ''update'' [] [marked ''1'' ''completed'', marked ''2'' ''ready''])
      (planned [plain_step ''1'' ''write'', plain_step ''2'' ''test''])) = PlanError (BadStatus ''ready'')"
  by code_simp

text \<open>A step whose id has a blank at its end cannot be named.\<close>

lemma blank_id_is_unreachable:
  "snd (plan_tool plain_lib (Inr ()) (plan_call ''update'' [] [marked ''1 '' ''completed'']) (planned [plain_step ''1 '' ''write''])) =
   PlanError (NothingFound [''1 ''])"
  by code_simp

end
