(* ===== verification/Team.thy ===== *)
theory Team
  imports Json
begin

text \<open>
  Teams: the tools with which a leader session gets members, talks to them and dissolves the team
  (\<open>packages/ftre-team/src/ftre_team/team.py\<close>).

  A tool runs in a thread of its own and hands every operation on sessions to the event loop, one after the other: it
  is a job that moves one operation at a time, in any order with other jobs. An operation on \<open>metadata['teams']\<close> runs
  under the lock of the session and is one step. Every operation may fail. The state is what the operations touch:
  the teams of each leader, the member sessions, their bindings, and the profile directories under the leader's
  directory. Deleting a member session also takes its binding, its profile and its entry in the team
  (\<open>delete_session\<close> of \<open>services/session/service.py\<close>, of which SessionService models all). Texts of replies are left
  out. An operation that fails has done nothing, but for the profile directory; one that takes longer than the ten
  seconds of \<open>_run_async\<close>, is reported as failed and still takes effect is not modelled.
\<close>

section \<open>Teams and members\<close>

record member_entry =
  me_name :: string
  me_created :: string

record team_entry =
  te_id :: string
  te_name :: string
  te_created :: string
  te_members :: "(string, member_entry) dict"

type_synonym team_dict = "(string, team_entry) dict"

datatype team_error =
    TeamContext | InsideMember | BlankArgument | ProfileNotObject | NoRole | UnknownFields "string list"
  | TeamExists | NoSuchTeam | NoSuchMember | MemberGone | StoreFailed exn | SendFailed exn | NotAccepted | NotYours "string list"

text \<open>What has to be there before a tool does anything.\<close>

definition SUBAGENT_CHANNEL_ID :: string where
  "SUBAGENT_CHANNEL_ID = ''subagent''"

record tool_context =
  tc_ready :: bool
  tc_session :: string
  tc_channel :: string

definition tool_guard :: "tool_context \<Rightarrow> team_error option" where
  "tool_guard c =
     (if \<not> tc_ready c \<or> tc_session c = [] then Some TeamContext
      else if tc_channel c = SUBAGENT_CHANNEL_ID then Some InsideMember else None)"

definition PROFILE_ALLOWED_KEYS :: "string list" where
  "PROFILE_ALLOWED_KEYS = [''role'', ''provider'', ''model'', ''reasoning_effort'', ''tools'', ''disabled_skills'', ''mcp'']"

definition profile_error :: "json \<Rightarrow> team_error option" where
  "profile_error p =
     (case p of
        JObj d \<Rightarrow>
          (case get_or d ''role'' JNull of
             JStr r \<Rightarrow>
               (if py_strip r = [] then Some NoRole
                else let unknown = filter (\<lambda>k. k \<notin> set PROFILE_ALLOWED_KEYS) (map fst d)
                     in if unknown = [] then None else Some (UnknownFields unknown))
           | _ \<Rightarrow> Some NoRole)
      | _ \<Rightarrow> Some ProfileNotObject)"

section \<open>The updates of metadata['teams']\<close>

definition create_in :: "string \<Rightarrow> string \<Rightarrow> string \<Rightarrow> team_dict \<Rightarrow> team_error + team_dict" where
  "create_in tid name now ts =
     (if dict_get ts tid \<noteq> None then Inl TeamExists
      else Inr (dict_set tid \<lparr>te_id = tid, te_name = py_strip name, te_created = now, te_members = []\<rparr> ts))"

definition register_in :: "string \<Rightarrow> string \<Rightarrow> string \<Rightarrow> string \<Rightarrow> team_dict \<Rightarrow> team_error + team_dict" where
  "register_in tid m name now ts =
     (case dict_get ts tid of
        None \<Rightarrow> Inl NoSuchTeam
      | Some t \<Rightarrow> Inr (dict_set tid (t\<lparr>te_members := dict_set m \<lparr>me_name = name, me_created = now\<rparr> (te_members t)\<rparr>) ts))"

definition pop_in :: "string \<Rightarrow> team_dict \<Rightarrow> team_error + team_dict \<times> team_entry" where
  "pop_in tid ts = (case dict_get ts tid of None \<Rightarrow> Inl NoSuchTeam | Some t \<Rightarrow> Inr (dict_pop tid ts, t))"

definition unbind_in :: "string \<Rightarrow> string \<Rightarrow> team_dict \<Rightarrow> team_dict" where
  "unbind_in tid m ts = (case dict_get ts tid of None \<Rightarrow> ts | Some t \<Rightarrow> dict_set tid (t\<lparr>te_members := dict_pop m (te_members t)\<rparr>) ts)"

section \<open>The world of the tools\<close>

record binding =
  bd_leader :: string
  bd_team :: string
  bd_name :: string

text \<open>A job: what it does next. \<open>Over\<close> has the member it added, or the members whose deletion failed.\<close>

record add_request =
  ar_leader :: string
  ar_team :: string
  ar_name :: string
  ar_invoke :: string

datatype team_job =
    ToCreate add_request
  | ToProfile add_request string
  | ToBind add_request string
  | ToRegister add_request string
  | ToInvoke add_request string
  | ToUndo add_request string
  | ToDelete string "string list" nat nat
  | Added string bool
  | NotAdded
  | Dissolved nat nat

record team_world =
  tw_teams :: "(string, team_dict) dict"
  tw_sessions :: "string list"
  tw_bindings :: "(string, binding) dict"
  tw_profiles :: "(string \<times> string) list"
  tw_invoked :: "(string \<times> string) list"
  tw_jobs :: "team_job list"
  tw_used :: "string list"
  tw_lost :: "string list"

definition teams_of :: "string \<Rightarrow> team_world \<Rightarrow> team_dict" where
  "teams_of l w = (case dict_get (tw_teams w) l of None \<Rightarrow> [] | Some ts \<Rightarrow> ts)"

definition put_teams :: "string \<Rightarrow> team_dict \<Rightarrow> team_world \<Rightarrow> team_world" where
  "put_teams l ts w = w\<lparr>tw_teams := dict_set l ts (tw_teams w)\<rparr>"

definition delete_profile_of :: "string \<Rightarrow> string \<Rightarrow> team_world \<Rightarrow> team_world" where
  "delete_profile_of l m w = w\<lparr>tw_profiles := filter (\<lambda>p. p \<noteq> (l, m)) (tw_profiles w)\<rparr>"

text \<open>\<open>delete_session\<close> of the session service, for a member.\<close>

definition delete_member :: "string \<Rightarrow> team_world \<Rightarrow> team_world" where
  "delete_member m w =
     (let w1 = w\<lparr>tw_sessions := filter (\<lambda>x. x \<noteq> m) (tw_sessions w), tw_bindings := dict_pop m (tw_bindings w)\<rparr>
      in case dict_get (tw_bindings w) m of
           None \<Rightarrow> w1
         | Some b \<Rightarrow> delete_profile_of (bd_leader b) m (put_teams (bd_leader b) (unbind_in (bd_team b) m (teams_of (bd_leader b) w1)) w1))"

section \<open>The tools\<close>

definition team_create :: "tool_context \<Rightarrow> string \<Rightarrow> string \<Rightarrow> string \<Rightarrow> string \<Rightarrow> unit result \<Rightarrow> team_world \<Rightarrow> team_world \<times> (team_error + string)" where
  "team_create c name team_id hex now io w =
     (case tool_guard c of
        Some e \<Rightarrow> (w, Inl e)
      | None \<Rightarrow>
          (if py_strip name = [] then (w, Inl BlankArgument)
           else let tid = str_or (py_strip team_id) (''team_'' @ take 8 hex)
                in case create_in tid name now (teams_of (tc_session c) w) of
                     Inl e \<Rightarrow> (w, Inl e)
                   | Inr ts \<Rightarrow> (case io of Inl x \<Rightarrow> (w, Inl (StoreFailed x)) | Inr _ \<Rightarrow> (put_teams (tc_session c) ts w, Inr tid))))"

text \<open>Adding a member begins with checks and a look at the teams.\<close>

definition team_add_agent :: "tool_context \<Rightarrow> string \<Rightarrow> string \<Rightarrow> json \<Rightarrow> string \<Rightarrow> team_world \<Rightarrow> team_world \<times> (team_error + unit)" where
  "team_add_agent c team_id name profile invoke w =
     (case tool_guard c of
        Some e \<Rightarrow> (w, Inl e)
      | None \<Rightarrow>
          (if py_strip team_id = [] \<or> py_strip name = [] then (w, Inl BlankArgument)
           else case profile_error profile of
             Some e \<Rightarrow> (w, Inl e)
           | None \<Rightarrow>
               (case dict_get (teams_of (tc_session c) w) (py_strip team_id) of
                  None \<Rightarrow> (w, Inl NoSuchTeam)
                | Some t \<Rightarrow> (w\<lparr>tw_jobs := tw_jobs w @ [ToCreate \<lparr>ar_leader = tc_session c, ar_team = py_strip team_id,
                    ar_name = py_strip name, ar_invoke = py_strip invoke\<rparr>]\<rparr>, Inr ()))))"

definition team_delete :: "tool_context \<Rightarrow> string \<Rightarrow> unit result \<Rightarrow> team_world \<Rightarrow> team_world \<times> (team_error + unit)" where
  "team_delete c team_id io w =
     (case tool_guard c of
        Some e \<Rightarrow> (w, Inl e)
      | None \<Rightarrow>
          (if py_strip team_id = [] then (w, Inl BlankArgument)
           else case pop_in (py_strip team_id) (teams_of (tc_session c) w) of
             Inl e \<Rightarrow> (w, Inl e)
           | Inr (ts, t) \<Rightarrow>
               (case io of
                  Inl x \<Rightarrow> (w, Inl (StoreFailed x))
                | Inr _ \<Rightarrow> ((put_teams (tc_session c) ts w)\<lparr>tw_jobs := tw_jobs w @ [ToDelete (tc_session c) (map fst (te_members t)) 0 0]\<rparr>, Inr ()))))"

text \<open>One operation of a job. \<open>Partly\<close> is a profile whose directory was made before a write failed.\<close>

datatype outcome = Succeeds | Breaks | Partly

definition job_step :: "string \<Rightarrow> string \<Rightarrow> outcome \<Rightarrow> team_job \<Rightarrow> team_world \<Rightarrow> team_world \<times> team_job" where
  "job_step fresh now r j w =
     (case j of
        ToCreate a \<Rightarrow>
          (if r = Succeeds then (w\<lparr>tw_sessions := fresh # tw_sessions w, tw_used := fresh # tw_used w\<rparr>, ToProfile a fresh) else (w, NotAdded))
      | ToProfile a m \<Rightarrow>
          (case r of
             Succeeds \<Rightarrow> (w\<lparr>tw_profiles := (ar_leader a, m) # tw_profiles w\<rparr>, ToBind a m)
           | Partly \<Rightarrow> (w\<lparr>tw_profiles := (ar_leader a, m) # tw_profiles w\<rparr>, ToUndo a m)
           | Breaks \<Rightarrow> (w, ToUndo a m))
      | ToBind a m \<Rightarrow>
          (if r = Succeeds then (w\<lparr>tw_bindings := dict_set m \<lparr>bd_leader = ar_leader a, bd_team = ar_team a, bd_name = ar_name a\<rparr> (tw_bindings w)\<rparr>, ToRegister a m)
           else (delete_profile_of (ar_leader a) m w, ToUndo a m))
      | ToRegister a m \<Rightarrow>
          (case (register_in (ar_team a) m (ar_name a) now (teams_of (ar_leader a) w), r = Succeeds) of
             (Inr ts, True) \<Rightarrow> (put_teams (ar_leader a) ts w, if ar_invoke a = [] then Added m False else ToInvoke a m)
           | _ \<Rightarrow> (delete_profile_of (ar_leader a) m w, ToUndo a m))
      | ToInvoke a m \<Rightarrow> (if r = Succeeds then w\<lparr>tw_invoked := tw_invoked w @ [(m, ar_invoke a)]\<rparr> else w, Added m (r = Succeeds))
      | ToUndo a m \<Rightarrow> (if r = Succeeds then delete_member m w else w\<lparr>tw_lost := m # tw_lost w\<rparr>, NotAdded)
      | ToDelete l [] d f \<Rightarrow> (w, Dissolved d f)
      | ToDelete l (m # ms) d f \<Rightarrow>
          (if r = Succeeds then (delete_profile_of l m (delete_member m w), ToDelete l ms (d + 1) f)
           else (delete_profile_of l m (w\<lparr>tw_lost := m # tw_lost w\<rparr>), ToDelete l ms d (f + 1)))
      | _ \<Rightarrow> (w, j))"

definition run_job :: "string \<Rightarrow> string \<Rightarrow> outcome \<Rightarrow> nat \<Rightarrow> team_world \<Rightarrow> team_world" where
  "run_job fresh now r k w = (let (w', j) = job_step fresh now r (tw_jobs w ! k) w in w'\<lparr>tw_jobs := (tw_jobs w)[k := j]\<rparr>)"

text \<open>The member sessions a job is responsible for.\<close>

definition holds :: "team_job \<Rightarrow> string list" where
  "holds j = (case j of ToProfile a m \<Rightarrow> [m] | ToBind a m \<Rightarrow> [m] | ToRegister a m \<Rightarrow> [m] | ToUndo a m \<Rightarrow> [m] | ToDelete l ms d f \<Rightarrow> ms | _ \<Rightarrow> [])"

definition adds :: "team_job \<Rightarrow> string list" where
  "adds j = (case j of ToDelete l ms d f \<Rightarrow> [] | _ \<Rightarrow> holds j)"

definition held_members :: "team_world \<Rightarrow> string list" where
  "held_members w = concat (map holds (tw_jobs w))"

text \<open>Users may delete member sessions too, but not one that is still being added.\<close>

inductive team_step :: "team_world \<Rightarrow> team_world \<Rightarrow> bool" where
  created: "team_step w (fst (team_create c name team_id hex now io w))"
| adding: "team_step w (fst (team_add_agent c team_id name profile invoke w))"
| dissolving: "team_step w (fst (team_delete c team_id io w))"
| working: "k < length (tw_jobs w) \<Longrightarrow> fresh \<notin> set (tw_used w) \<Longrightarrow> team_step w (run_job fresh now r k w)"
| deleted: "m \<notin> set (concat (map adds (tw_jobs w))) \<Longrightarrow> team_step w (delete_member m (w\<lparr>tw_lost := filter (\<lambda>x. x \<noteq> m) (tw_lost w)\<rparr>))"

definition new_team_world :: team_world where
  "new_team_world = \<lparr>tw_teams = [], tw_sessions = [], tw_bindings = [], tw_profiles = [], tw_invoked = [], tw_jobs = [], tw_used = [], tw_lost = []\<rparr>"

definition teams_reachable :: "team_world \<Rightarrow> bool" where
  "teams_reachable w \<longleftrightarrow> team_step\<^sup>*\<^sup>* new_team_world w"

section \<open>Talking to members\<close>

text \<open>\<open>team_say\<close>: the teams and the session of the member are looked up, then the inbox answers.\<close>

definition team_say :: "tool_context \<Rightarrow> string \<Rightarrow> string \<Rightarrow> string \<Rightarrow> team_dict \<Rightarrow> bool result \<Rightarrow> bool result \<Rightarrow> (string \<times> string \<times> string) option \<times> team_error option" where
  "team_say c team_id member content ts exists ack =
     (case tool_guard c of
        Some e \<Rightarrow> (None, Some e)
      | None \<Rightarrow>
          (if py_strip team_id = [] \<or> py_strip member = [] \<or> py_strip content = [] then (None, Some BlankArgument)
           else case dict_get ts (py_strip team_id) of
             None \<Rightarrow> (None, Some NoSuchTeam)
           | Some t \<Rightarrow>
               (case dict_get (te_members t) (py_strip member) of
                  None \<Rightarrow> (None, Some NoSuchMember)
                | Some e \<Rightarrow>
                    (case exists of
                       Inl x \<Rightarrow> (None, Some (StoreFailed x))
                     | Inr False \<Rightarrow> (None, Some MemberGone)
                     | Inr True \<Rightarrow> (Some (tc_session c, py_strip member, content),
                         case ack of Inl x \<Rightarrow> Some (SendFailed x) | Inr ok \<Rightarrow> if ok then None else Some NotAccepted)))))"

text \<open>The last text of the last assistant message that has one.\<close>

definition member_texts :: "jdict \<Rightarrow> json list" where
  "member_texts m =
     (case get_or m ''content'' JNull of
        JList bs \<Rightarrow> filter jtruthy (map (\<lambda>b. case b of JObj d \<Rightarrow> get_or d ''text'' (JStr []) | _ \<Rightarrow> JNull)
          (filter (\<lambda>b. case b of JObj d \<Rightarrow> dict_get d ''type'' = Some (JStr ''text'') | _ \<Rightarrow> False) bs))
      | _ \<Rightarrow> [])"

definition member_last_text :: "jdict list \<Rightarrow> json option" where
  "member_last_text ms =
     (case filter (\<lambda>m. dict_get m ''role'' = Some (JStr ''assistant'') \<and> member_texts m \<noteq> []) ms of
        [] \<Rightarrow> None
      | xs \<Rightarrow> Some (last (member_texts (last xs))))"

text \<open>\<open>team_agent_status\<close>: one member, or all of a team. How long a member has been there is left out.\<close>

record member_status =
  mv_session :: string
  mv_name :: string
  mv_running :: bool
  mv_last :: "json option"
  mv_count :: nat

definition member_view :: "string \<Rightarrow> string \<Rightarrow> (string \<Rightarrow> bool) \<Rightarrow> (string \<Rightarrow> jdict list result) \<Rightarrow> member_status result" where
  "member_view s name busy messages =
     bind_r (messages s) (\<lambda>ms. Inr \<lparr>mv_session = s, mv_name = name, mv_running = busy s, mv_last = member_last_text ms, mv_count = length ms\<rparr>)"

definition as_team :: "'a result \<Rightarrow> team_error + 'a" where
  "as_team r = (case r of Inl x \<Rightarrow> Inl (StoreFailed x) | Inr y \<Rightarrow> Inr y)"

definition team_agent_status :: "tool_context \<Rightarrow> string \<Rightarrow> string \<Rightarrow> team_dict \<Rightarrow> (string \<Rightarrow> bool) \<Rightarrow> (string \<Rightarrow> jdict list result) \<Rightarrow> team_error + member_status list" where
  "team_agent_status c team_id member ts busy messages =
     (case tool_guard c of
        Some e \<Rightarrow> Inl e
      | None \<Rightarrow>
          (if py_strip team_id = [] then Inl BlankArgument
           else case dict_get ts (py_strip team_id) of
             None \<Rightarrow> Inl NoSuchTeam
           | Some t \<Rightarrow>
               (if py_strip member \<noteq> [] then
                  (case dict_get (te_members t) (py_strip member) of
                     None \<Rightarrow> Inl NoSuchMember
                   | Some e \<Rightarrow> as_team (map_r (\<lambda>n. member_view (py_strip member) n busy messages) [me_name e]))
                else as_team (map_r (\<lambda>(s, e). member_view s (str_or (me_name e) s) busy messages) (te_members t)))))"

definition known_members :: "team_dict \<Rightarrow> string list" where
  "known_members ts = concat (map (\<lambda>e. map fst (te_members (snd e))) ts)"

text \<open>\<open>wait_agent\<close>: only members of one's own teams, each waited for in turn.\<close>

definition wait_agent :: "tool_context \<Rightarrow> string list \<Rightarrow> team_dict \<Rightarrow> (string \<Rightarrow> unit result) \<Rightarrow> (string \<Rightarrow> jdict list) \<Rightarrow> team_error + (string \<times> json option result) list" where
  "wait_agent c ids ts quiescent messages =
     (case tool_guard c of
        Some e \<Rightarrow> Inl e
      | None \<Rightarrow>
          (let sids = filter (\<lambda>s. s \<noteq> []) (map py_strip ids); unknown = filter (\<lambda>s. s \<notin> set (known_members ts)) sids
           in if sids = [] then Inl BlankArgument
              else if unknown \<noteq> [] then Inl (NotYours unknown)
              else Inr (map (\<lambda>s. (s, bind_r (quiescent s) (\<lambda>u. Inr (member_last_text (messages s))))) sids)))"

section \<open>Nobody is lost\<close>

definition registered :: "team_world \<Rightarrow> string \<Rightarrow> string \<Rightarrow> string \<Rightarrow> bool" where
  "registered w l t m \<longleftrightarrow> (case dict_get (teams_of l w) t of None \<Rightarrow> False | Some e \<Rightarrow> dict_get (te_members e) m \<noteq> None)"

definition equipped :: "team_world \<Rightarrow> string \<Rightarrow> string \<Rightarrow> string \<Rightarrow> bool" where
  "equipped w l t m \<longleftrightarrow> m \<in> set (tw_sessions w) \<and> (l, m) \<in> set (tw_profiles w) \<and>
     (case dict_get (tw_bindings w) m of None \<Rightarrow> False | Some b \<Rightarrow> bd_leader b = l \<and> bd_team b = t)"

text \<open>\<open>hs\<close> are the members that jobs are responsible for.\<close>

definition accounted :: "team_world \<Rightarrow> string list \<Rightarrow> bool" where
  "accounted w hs \<longleftrightarrow>
     (\<forall>l t m. registered w l t m \<longrightarrow> equipped w l t m \<and> m \<in> set (tw_used w) \<and> m \<notin> set hs \<and> m \<notin> set (tw_lost w)) \<and>
     (\<forall>m \<in> set (tw_sessions w). m \<in> set hs \<or> m \<in> set (tw_lost w) \<or> (\<exists>l t. registered w l t m)) \<and>
     distinct hs \<and> set hs \<subseteq> set (tw_used w) \<and> set (tw_lost w) \<subseteq> set (tw_used w) \<and> set (tw_lost w) \<inter> set hs = {}"

definition stage_ok :: "team_world \<Rightarrow> team_job \<Rightarrow> bool" where
  "stage_ok w j \<longleftrightarrow>
     (case j of
        ToProfile a m \<Rightarrow> m \<in> set (tw_sessions w)
      | ToBind a m \<Rightarrow> m \<in> set (tw_sessions w) \<and> (ar_leader a, m) \<in> set (tw_profiles w)
      | ToRegister a m \<Rightarrow> equipped w (ar_leader a) (ar_team a) m
      | _ \<Rightarrow> True)"

definition tidy_teams :: "team_world \<Rightarrow> bool" where
  "tidy_teams w \<longleftrightarrow> (\<forall>l t e. dict_get (teams_of l w) t = Some e \<longrightarrow> dict_wf (te_members e))"

definition team_inv :: "team_world \<Rightarrow> bool" where
  "team_inv w \<longleftrightarrow> accounted w (held_members w) \<and> (\<forall>j \<in> set (tw_jobs w). stage_ok w j) \<and> tidy_teams w"

lemma accounted_perm: "accounted w hs \<Longrightarrow> set hs' = set hs \<Longrightarrow> distinct hs' \<Longrightarrow> accounted w hs'"
  by (simp add: accounted_def)

text \<open>Only these parts of the world matter.\<close>

definition same_members :: "team_world \<Rightarrow> team_world \<Rightarrow> bool" where
  "same_members w w' \<longleftrightarrow> tw_teams w' = tw_teams w \<and> tw_sessions w' = tw_sessions w \<and> tw_bindings w' = tw_bindings w \<and>
     tw_profiles w' = tw_profiles w \<and> tw_used w' = tw_used w \<and> tw_lost w' = tw_lost w"

lemma same_accounted: "same_members w w' \<Longrightarrow> accounted w' hs = accounted w hs"
  by (simp add: same_members_def accounted_def registered_def equipped_def teams_of_def)

lemma same_stage: "same_members w w' \<Longrightarrow> stage_ok w' j = stage_ok w j"
  by (simp add: same_members_def stage_ok_def equipped_def split: team_job.splits)

lemma teams_of_put [simp]: "teams_of l (put_teams k ts w) = (if l = k then ts else teams_of l w)"
  by (simp add: teams_of_def put_teams_def)

text \<open>A member that no team has can be deleted without touching the others.\<close>

lemma registered_unbind:
  "registered (put_teams k (unbind_in u m (teams_of k w)) w) l t x \<longleftrightarrow> registered w l t x \<and> \<not> (l = k \<and> t = u \<and> x = m)"
  by (auto simp: registered_def unbind_in_def split: option.splits)

lemma registered_delete:
  "registered (delete_member m w) l t x \<longleftrightarrow> registered w l t x \<and>
     \<not> (x = m \<and> (case dict_get (tw_bindings w) m of None \<Rightarrow> False | Some b \<Rightarrow> bd_leader b = l \<and> bd_team b = t))"
proof (cases "dict_get (tw_bindings w) m")
  case None
  then show ?thesis by (simp add: delete_member_def registered_def teams_of_def)
next
  case (Some b)
  let ?w = "w\<lparr>tw_sessions := filter (\<lambda>x. x \<noteq> m) (tw_sessions w), tw_bindings := dict_pop m (tw_bindings w)\<rparr>"
  have "registered (delete_member m w) l t x = registered (put_teams (bd_leader b) (unbind_in (bd_team b) m (teams_of (bd_leader b) ?w)) ?w) l t x"
    using Some by (simp add: delete_member_def Let_def delete_profile_of_def registered_def teams_of_def put_teams_def)
  moreover have "registered ?w l t x = registered w l t x" by (simp add: registered_def teams_of_def)
  ultimately show ?thesis using Some registered_unbind [of "bd_leader b" "bd_team b" m ?w l t x] by auto
qed

lemma equipped_delete: "x \<noteq> m \<Longrightarrow> equipped (delete_member m w) l t x = equipped w l t x"
  by (auto simp: equipped_def delete_member_def Let_def delete_profile_of_def put_teams_def split: option.splits)

lemma delete_member_parts [simp]:
  "set (tw_sessions (delete_member m w)) = set (tw_sessions w) - {m}" "tw_used (delete_member m w) = tw_used w"
  "tw_lost (delete_member m w) = tw_lost w" "tw_jobs (delete_member m w) = tw_jobs w"
  by (auto simp: delete_member_def Let_def delete_profile_of_def put_teams_def split: option.splits)

lemma stage_delete: "m \<notin> set (adds j) \<Longrightarrow> stage_ok w j \<Longrightarrow> stage_ok (delete_member m w) j"
  by (auto simp: stage_ok_def adds_def holds_def equipped_def delete_member_def Let_def delete_profile_of_def put_teams_def
      split: team_job.splits option.splits)

text \<open>Deleting a member: whoever was responsible for it no longer is.\<close>

lemma accounted_delete:
  assumes acc: "accounted w hs" and gone: "m \<notin> set (tw_lost w)" and hs': "set hs' \<subseteq> set hs" "distinct hs'" "set hs - {m} \<subseteq> set hs'"
  shows "accounted (delete_member m w) hs'"
proof -
  have once: "\<not> registered (delete_member m w) l t m" for l t
    using acc by (auto simp: registered_delete accounted_def equipped_def split: option.splits)
  have reg: "registered (delete_member m w) l t x \<longleftrightarrow> registered w l t x" if "x \<noteq> m" for l t x
    using that by (simp add: registered_delete)
  have "equipped (delete_member m w) l t x \<and> x \<in> set (tw_used w) \<and> x \<notin> set hs' \<and> x \<notin> set (tw_lost w)"
    if r: "registered (delete_member m w) l t x" for l t x
  proof -
    have "x \<noteq> m" using r once by auto
    then show ?thesis using r reg acc hs'(1) equipped_delete by (auto simp: accounted_def)
  qed
  moreover have "x \<in> set hs' \<or> x \<in> set (tw_lost w) \<or> (\<exists>l t. registered (delete_member m w) l t x)" if x: "x \<in> set (tw_sessions w) - {m}" for x
    using x reg acc hs'(3) by (auto simp: accounted_def)
  moreover have "set hs' \<subseteq> set (tw_used w)" "set (tw_lost w) \<subseteq> set (tw_used w)" "set (tw_lost w) \<inter> set hs' = {}"
    using acc hs'(1) by (auto simp: accounted_def)
  ultimately show ?thesis using hs'(2) by (auto simp: accounted_def)
qed

text \<open>A profile of a member that no team has.\<close>

lemma accounted_profile:
  assumes "accounted w hs" "\<And>t. \<not> registered w l t m"
  shows "accounted (delete_profile_of l m w) hs"
proof -
  have r: "registered (delete_profile_of l m w) k t x = registered w k t x" for k t x
    by (simp add: delete_profile_of_def registered_def teams_of_def)
  have "equipped (delete_profile_of l m w) k t x" if "registered w k t x" "equipped w k t x" for k t x
    using that assms(2) by (auto simp: equipped_def delete_profile_of_def)
  then show ?thesis using assms(1) by (auto simp: accounted_def r) (auto simp: delete_profile_of_def)
qed

lemma stage_profile: "m \<notin> set (adds j) \<Longrightarrow> stage_ok w j \<Longrightarrow> stage_ok (delete_profile_of l m w) j"
  by (auto simp: stage_ok_def adds_def holds_def equipped_def delete_profile_of_def split: team_job.splits)

lemma held_not_registered: "accounted w hs \<Longrightarrow> m \<in> set hs \<Longrightarrow> \<not> registered w l t m"
  by (auto simp: accounted_def)

lemma lost_not_registered: "accounted w hs \<Longrightarrow> m \<in> set (tw_lost w) \<Longrightarrow> \<not> registered w l t m"
  by (auto simp: accounted_def)

text \<open>The teams stay dictionaries.\<close>

lemma tidy_same: "tw_teams w' = tw_teams w \<Longrightarrow> tidy_teams w' = tidy_teams w"
  by (simp add: tidy_teams_def teams_of_def)

lemma tidy_keep: "tidy_teams w \<Longrightarrow> tw_teams w' = tw_teams w \<Longrightarrow> tidy_teams w'"
  by (simp add: tidy_teams_def teams_of_def)

lemma tidy_put:
  "tidy_teams w \<Longrightarrow> (\<And>t e. dict_get ts t = Some e \<Longrightarrow> dict_wf (te_members e)) \<Longrightarrow> tidy_teams (put_teams l ts w)"
  by (simp add: tidy_teams_def)

lemma tidy_delete:
  assumes "tidy_teams w"
  shows "tidy_teams (delete_member m w)"
proof (cases "dict_get (tw_bindings w) m")
  case None
  show ?thesis by (rule tidy_keep [OF assms]) (simp add: delete_member_def None)
next
  case (Some b)
  let ?w = "w\<lparr>tw_sessions := filter (\<lambda>x. x \<noteq> m) (tw_sessions w), tw_bindings := dict_pop m (tw_bindings w)\<rparr>"
  let ?ts = "unbind_in (bd_team b) m (teams_of (bd_leader b) ?w)"
  have w: "tidy_teams ?w" by (rule tidy_keep [OF assms]) simp
  have "dict_wf (te_members e)" if "dict_get ?ts t = Some e" for t e
    using that w by (auto simp: unbind_in_def tidy_teams_def split: option.splits if_splits)
  then have "tidy_teams (put_teams (bd_leader b) ?ts ?w)" using w tidy_put by blast
  then show ?thesis by (rule tidy_keep) (simp add: delete_member_def delete_profile_of_def Let_def Some)
qed

text \<open>What one operation of a job does to the account: \<open>hs\<close> are the members of the other jobs.\<close>

definition kept_inv :: "team_world \<Rightarrow> team_world \<Rightarrow> team_job \<Rightarrow> string list \<Rightarrow> bool" where
  "kept_inv w w' j' hs \<longleftrightarrow> accounted w' (holds j' @ hs) \<and> stage_ok w' j' \<and> tidy_teams w' \<and>
     (\<forall>i. set (holds i) \<subseteq> set hs \<longrightarrow> stage_ok w i \<longrightarrow> stage_ok w' i)"

lemma sessions_used: "accounted w hs \<Longrightarrow> set (tw_sessions w) \<subseteq> set (tw_used w)"
  by (auto simp: accounted_def)

lemma kept_create:
  assumes "accounted w hs" "tidy_teams w" "fresh \<notin> set (tw_used w)"
  shows "kept_inv w (w\<lparr>tw_sessions := fresh # tw_sessions w, tw_used := fresh # tw_used w\<rparr>) (ToProfile a fresh) hs"
proof -
  let ?w = "w\<lparr>tw_sessions := fresh # tw_sessions w, tw_used := fresh # tw_used w\<rparr>"
  have r: "registered ?w l t x = registered w l t x" for l t x by (simp add: registered_def teams_of_def)
  have e: "equipped w l t x \<Longrightarrow> equipped ?w l t x" for l t x by (simp add: equipped_def)
  have "fresh \<notin> set hs" "fresh \<notin> set (tw_lost w)" "\<not> registered w l t fresh" for l t
    using assms(1,3) by (auto simp: accounted_def)
  then have "accounted ?w (fresh # hs)" using assms(1) e by (auto simp: accounted_def r)
  moreover have "stage_ok w i \<Longrightarrow> stage_ok ?w i" for i using e by (auto simp: stage_ok_def split: team_job.splits)
  ultimately show ?thesis
    using assms(2) by (auto simp: kept_inv_def tidy_same [of ?w w]) (simp_all add: holds_def stage_ok_def)
qed

lemma kept_profile:
  assumes "accounted w (m # hs)" "tidy_teams w" "holds j' = [m]" "stage_ok (w\<lparr>tw_profiles := (k, m) # tw_profiles w\<rparr>) j'"
  shows "kept_inv w (w\<lparr>tw_profiles := (k, m) # tw_profiles w\<rparr>) j' hs"
proof -
  let ?w = "w\<lparr>tw_profiles := (k, m) # tw_profiles w\<rparr>"
  have r: "registered ?w l t x = registered w l t x" for l t x by (simp add: registered_def teams_of_def)
  have e: "equipped w l t x \<Longrightarrow> equipped ?w l t x" for l t x by (simp add: equipped_def)
  have "accounted ?w (m # hs)" using assms(1) e by (auto simp: accounted_def r)
  moreover have "stage_ok w i \<Longrightarrow> stage_ok ?w i" for i using e by (auto simp: stage_ok_def split: team_job.splits)
  ultimately show ?thesis using assms(2-4) by (auto simp: kept_inv_def tidy_same [of ?w w])
qed

lemma kept_bind:
  assumes "accounted w (m # hs)" "tidy_teams w" "m \<in> set (tw_sessions w)" "(ar_leader a, m) \<in> set (tw_profiles w)"
  shows "kept_inv w (w\<lparr>tw_bindings := dict_set m \<lparr>bd_leader = ar_leader a, bd_team = ar_team a, bd_name = n\<rparr> (tw_bindings w)\<rparr>) (ToRegister a m) hs"
proof -
  let ?w = "w\<lparr>tw_bindings := dict_set m \<lparr>bd_leader = ar_leader a, bd_team = ar_team a, bd_name = n\<rparr> (tw_bindings w)\<rparr>"
  have r: "registered ?w l t x = registered w l t x" for l t x by (simp add: registered_def teams_of_def)
  have e: "equipped w l t x \<Longrightarrow> x \<noteq> m \<Longrightarrow> equipped ?w l t x" for l t x by (simp add: equipped_def)
  have m: "\<not> registered w l t m" "m \<notin> set hs" for l t using assms(1) by (auto simp: accounted_def)
  have "accounted ?w (m # hs)" using assms(1) e m by (simp add: accounted_def r)
  moreover have "stage_ok ?w (ToRegister a m)" using assms(3,4) by (simp add: stage_ok_def equipped_def)
  moreover have "stage_ok w i \<Longrightarrow> set (holds i) \<subseteq> set hs \<Longrightarrow> stage_ok ?w i" for i
    using e m(2) by (auto simp: stage_ok_def holds_def split: team_job.splits)
  ultimately show ?thesis
    using assms(2) by (auto simp: kept_inv_def tidy_same [of ?w w]) (simp_all add: holds_def)
qed

lemma registered_register:
  assumes "register_in u m n now (teams_of k w) = Inr ts"
  shows "registered (put_teams k ts w) l t x \<longleftrightarrow> registered w l t x \<or> (l = k \<and> t = u \<and> x = m)"
  using assms by (auto simp: register_in_def registered_def split: option.splits if_splits)

lemma kept_register:
  assumes acc: "accounted w (m # hs)" and tidy: "tidy_teams w" and eq: "equipped w k u m"
    and reg: "register_in u m n now (teams_of k w) = Inr ts" and j': "holds j' = []" "stage_ok (put_teams k ts w) j'"
  shows "kept_inv w (put_teams k ts w) j' hs"
proof -
  let ?w = "put_teams k ts w"
  have e: "equipped ?w l t x = equipped w l t x" for l t x by (simp add: equipped_def put_teams_def)
  have same: "tw_sessions ?w = tw_sessions w" "tw_used ?w = tw_used w" "tw_lost ?w = tw_lost w" by (simp_all add: put_teams_def)
  have "m \<in> set (tw_used w)" "m \<notin> set hs" "m \<notin> set (tw_lost w)" using acc by (auto simp: accounted_def)
  moreover have "registered ?w k u m" using registered_register [OF reg] by simp
  ultimately have "accounted ?w hs"
    using acc eq registered_register [OF reg] by (auto simp: accounted_def e same) (metis+)?
  moreover have "stage_ok w i \<Longrightarrow> stage_ok ?w i" for i
    by (auto simp: stage_ok_def equipped_def put_teams_def split: team_job.splits)
  moreover have "dict_wf (te_members e)" if "dict_get ts t = Some e" for t e
    using reg that tidy by (auto simp: register_in_def tidy_teams_def split: option.splits if_splits)
  ultimately show ?thesis using j' tidy_put [OF tidy] by (simp add: kept_inv_def)
qed

lemma kept_delete:
  assumes "accounted w (m # hs)" "tidy_teams w" "holds j' = hs'" "stage_ok (delete_member m w) j'"
    "set (hs' @ rest) = set hs" "distinct (hs' @ rest)"
  shows "kept_inv w (delete_member m w) j' rest"
proof -
  have "m \<notin> set (tw_lost w)" "m \<notin> set hs" using assms(1) by (auto simp: accounted_def)
  moreover from this have "accounted (delete_member m w) (hs' @ rest)"
    using assms(1,5,6) by (intro accounted_delete [of w "m # hs"]) auto
  moreover have "stage_ok w i \<Longrightarrow> set (holds i) \<subseteq> set rest \<Longrightarrow> stage_ok (delete_member m w) i" for i
    using assms(5) \<open>m \<notin> set hs\<close> by (intro stage_delete) (auto simp: adds_def split: team_job.splits)
  ultimately show ?thesis using assms(2-4) tidy_delete by (auto simp: kept_inv_def)
qed

lemma kept_lost:
  assumes "accounted w (m # hs)" "tidy_teams w" "set (holds j' @ rest) = set hs" "distinct (holds j' @ rest)" "stage_ok w j'"
  shows "kept_inv w (w\<lparr>tw_lost := m # tw_lost w\<rparr>) j' rest"
proof -
  let ?w = "w\<lparr>tw_lost := m # tw_lost w\<rparr>"
  have r: "registered ?w l t x = registered w l t x" "equipped ?w l t x = equipped w l t x" for l t x
    by (simp_all add: registered_def equipped_def teams_of_def)
  have "accounted ?w (holds j' @ rest)" using assms(1,3,4) by (auto simp: accounted_def r)
  moreover have "stage_ok ?w i = stage_ok w i" for i by (simp add: stage_ok_def r split: team_job.splits)
  ultimately show ?thesis using assms(2,5) by (simp add: kept_inv_def tidy_same [of ?w w])
qed

text \<open>The directory of a member that nobody has is removed.\<close>

lemma kept_unprofile:
  assumes "kept_inv w w' j' hs" "\<And>t. \<not> registered w' l t m" "m \<notin> set (adds j')" "m \<notin> set hs"
  shows "kept_inv w (delete_profile_of l m w') j' hs"
proof -
  have "accounted (delete_profile_of l m w') (holds j' @ hs)" using assms(1,2) accounted_profile by (simp add: kept_inv_def)
  moreover have "tidy_teams (delete_profile_of l m w')" by (rule tidy_keep [of w']) (use assms(1) in \<open>simp_all add: kept_inv_def delete_profile_of_def\<close>)
  moreover have "stage_ok (delete_profile_of l m w') j'" using assms(1,3) stage_profile by (simp add: kept_inv_def)
  moreover have "stage_ok (delete_profile_of l m w') i" if "set (holds i) \<subseteq> set hs" "stage_ok w i" for i
    using assms(1,4) that by (intro stage_profile) (auto simp: kept_inv_def adds_def split: team_job.splits)
  ultimately show ?thesis by (simp add: kept_inv_def)
qed

lemma kept_self: "accounted w (holds j' @ hs) \<Longrightarrow> stage_ok w j' \<Longrightarrow> tidy_teams w \<Longrightarrow> kept_inv w w j' hs"
  by (simp add: kept_inv_def)

lemma kept_giveup:
  assumes "accounted w (m # hs)" "tidy_teams w"
  shows "kept_inv w (delete_profile_of l m w) (ToUndo a m) hs"
proof -
  have "kept_inv w w (ToDelete l [m] 0 0) hs"
    using assms by (intro kept_self) (simp_all add: holds_def stage_ok_def)
  then have "kept_inv w (delete_profile_of l m w) (ToDelete l [m] 0 0) hs"
    using assms(1) by (intro kept_unprofile) (auto simp: accounted_def adds_def)
  then show ?thesis by (simp add: kept_inv_def holds_def stage_ok_def)
qed

text \<open>So does every operation of a job.\<close>

lemma job_step_kept:
  assumes step: "job_step fresh now r j w = (w', j')" and acc: "accounted w (holds j @ hs)" and stage: "stage_ok w j"
    and tidy: "tidy_teams w" and new: "fresh \<notin> set (tw_used w)"
  shows "kept_inv w w' j' hs"
proof (cases j)
  case (ToCreate a)
  then have a: "accounted w hs" using acc by (simp add: holds_def)
  show ?thesis
  proof (cases "r = Succeeds")
    case True
    then show ?thesis using step ToCreate kept_create [OF a tidy new] by (auto simp: job_step_def)
  next
    case False
    then show ?thesis using step ToCreate a tidy by (auto simp: job_step_def holds_def stage_ok_def intro!: kept_self)
  qed
next
  case (ToProfile a m)
  then have a: "accounted w (m # hs)" "m \<in> set (tw_sessions w)" using acc stage by (simp_all add: holds_def stage_ok_def)
  show ?thesis
  proof (cases r)
    case Succeeds
    then show ?thesis using step ToProfile a(2) kept_profile [OF a(1) tidy, of "ToBind a m" "ar_leader a"]
      by (auto simp: job_step_def holds_def stage_ok_def)
  next
    case Breaks
    then show ?thesis using step ToProfile a(1) tidy by (auto simp: job_step_def holds_def stage_ok_def intro!: kept_self)
  next
    case Partly
    then show ?thesis using step ToProfile kept_profile [OF a(1) tidy, of "ToUndo a m" "ar_leader a"]
      by (auto simp: job_step_def holds_def stage_ok_def)
  qed
next
  case (ToBind a m)
  then have a: "accounted w (m # hs)" "m \<in> set (tw_sessions w)" "(ar_leader a, m) \<in> set (tw_profiles w)"
    using acc stage by (simp_all add: holds_def stage_ok_def)
  show ?thesis
    using step ToBind kept_bind [OF a(1) tidy a(2,3)] kept_giveup [OF a(1) tidy]
    by (cases "r = Succeeds") (auto simp: job_step_def)
next
  case (ToRegister a m)
  then have a: "accounted w (m # hs)" and e: "equipped w (ar_leader a) (ar_team a) m"
    using acc stage by (simp_all add: holds_def stage_ok_def)
  show ?thesis
  proof (cases "\<exists>ts. register_in (ar_team a) m (ar_name a) now (teams_of (ar_leader a) w) = Inr ts \<and> r = Succeeds")
    case True
    then obtain ts where ts: "register_in (ar_team a) m (ar_name a) now (teams_of (ar_leader a) w) = Inr ts" "r = Succeeds" by blast
    then have "w' = put_teams (ar_leader a) ts w" "holds j' = []" "stage_ok w' j'"
      using step ToRegister by (auto simp: job_step_def holds_def stage_ok_def split: if_splits)
    then show ?thesis using kept_register [OF a tidy e ts(1)] by simp
  next
    case False
    then have "w' = delete_profile_of (ar_leader a) m w" "j' = ToUndo a m"
      using step ToRegister by (auto simp: job_step_def split: sum.splits bool.splits)
    then show ?thesis using kept_giveup [OF a tidy] by simp
  qed
next
  case (ToInvoke a m)
  then have a: "accounted w hs" using acc by (simp add: holds_def)
  have s: "same_members w w'" and j: "j' = Added m (r = Succeeds)"
    using step ToInvoke by (auto simp: job_step_def same_members_def split: if_splits)
  have "tidy_teams w'" using s tidy by (simp add: same_members_def tidy_same [of w' w])
  then show ?thesis
    using a s j by (simp add: kept_inv_def same_accounted same_stage) (simp add: holds_def stage_ok_def)
next
  case (ToUndo a m)
  then have a: "accounted w (m # hs)" using acc by (simp add: holds_def)
  then have "distinct hs" by (simp add: accounted_def)
  then show ?thesis
    using step ToUndo kept_delete [OF a tidy, of NotAdded "[]" hs] kept_lost [OF a tidy, of NotAdded hs]
    by (cases "r = Succeeds") (auto simp: job_step_def holds_def stage_ok_def)
next
  case (ToDelete l ms d f)
  show ?thesis
  proof (cases ms)
    case Nil
    then show ?thesis using step ToDelete acc tidy by (auto simp: job_step_def holds_def stage_ok_def intro!: kept_self)
  next
    case (Cons m ns)
    have a: "accounted w (m # (ns @ hs))" using acc ToDelete Cons by (simp add: holds_def)
    have d: "distinct (ns @ hs)" "m \<notin> set (ns @ hs)" using a by (simp_all add: accounted_def)
    have j: "stage_ok v (ToDelete l ns x y)" "holds (ToDelete l ns x y) = ns" "adds (ToDelete l ns x y) = []" for v x y
      by (simp_all add: holds_def stage_ok_def adds_def)
    have r: "\<not> registered w l t m" for t using a by (auto simp: accounted_def)
    show ?thesis
    proof (cases "r = Succeeds")
      case True
      have "kept_inv w (delete_member m w) (ToDelete l ns (d + 1) f) hs"
        using kept_delete [OF a tidy j(2) j(1)] d(1) by simp
      then have "kept_inv w (delete_profile_of l m (delete_member m w)) (ToDelete l ns (d + 1) f) hs"
        using r d(2) by (intro kept_unprofile) (auto simp: registered_delete j)
      then show ?thesis using step ToDelete Cons True by (simp add: job_step_def)
    next
      case False
      have "kept_inv w (w\<lparr>tw_lost := m # tw_lost w\<rparr>) (ToDelete l ns d (f + 1)) hs"
        using kept_lost [OF a tidy] d(1) j by simp
      then have "kept_inv w (delete_profile_of l m (w\<lparr>tw_lost := m # tw_lost w\<rparr>)) (ToDelete l ns d (f + 1)) hs"
        using r d(2) by (intro kept_unprofile) (auto simp: registered_def teams_of_def j)
      then show ?thesis using step ToDelete Cons False by (simp add: job_step_def)
    qed
  qed
qed (use assms in \<open>auto simp: job_step_def intro!: kept_self\<close>)

lemma run_job_inv:
  assumes inv: "team_inv w" and k: "k < length (tw_jobs w)" and new: "fresh \<notin> set (tw_used w)"
  shows "team_inv (run_job fresh now r k w)"
proof -
  obtain w' j' where s: "job_step fresh now r (tw_jobs w ! k) w = (w', j')" by fastforce
  let ?js = "tw_jobs w" let ?a = "concat (map holds (take k ?js))" let ?b = "concat (map holds (drop (Suc k) ?js))"
  have split: "?js = take k ?js @ ?js ! k # drop (Suc k) ?js" using k by (rule id_take_nth_drop)
  have upd: "?js[k := j'] = take k ?js @ j' # drop (Suc k) ?js" using k by (rule upd_conv_take_nth_drop)
  have held: "held_members w = ?a @ holds (?js ! k) @ ?b" unfolding held_members_def by (subst split) simp
  have acc: "accounted w (holds (?js ! k) @ ?a @ ?b)"
  proof (rule accounted_perm)
    show "accounted w (held_members w)" using inv by (simp add: team_inv_def)
    show "set (holds (?js ! k) @ ?a @ ?b) = set (held_members w)" unfolding held by auto
    have "distinct (held_members w)" using inv by (simp add: team_inv_def accounted_def)
    then show "distinct (holds (?js ! k) @ ?a @ ?b)" unfolding held distinct_append set_append by blast
  qed
  have kept: "kept_inv w w' j' (?a @ ?b)"
    using job_step_kept [OF s acc _ _ new] inv k by (simp add: team_inv_def)
  let ?w = "w'\<lparr>tw_jobs := ?js[k := j']\<rparr>"
  have same: "same_members w' ?w" by (simp add: same_members_def)
  have "held_members ?w = ?a @ holds j' @ ?b" by (simp add: held_members_def upd)
  moreover have "accounted w' (?a @ holds j' @ ?b)"
  proof (rule accounted_perm)
    show "accounted w' (holds j' @ ?a @ ?b)" using kept by (simp add: kept_inv_def)
    then have "distinct (holds j' @ ?a @ ?b)" by (simp only: accounted_def)
    then show "distinct (?a @ holds j' @ ?b)" unfolding distinct_append set_append by blast
  qed auto
  ultimately have "accounted ?w (held_members ?w)" using same_accounted [OF same] by simp
  moreover have "stage_ok ?w i" if "i \<in> set (tw_jobs ?w)" for i
  proof -
    have "i = j' \<or> i \<in> set (take k ?js) \<or> i \<in> set (drop (Suc k) ?js)" using that by (auto simp: upd)
    moreover have "stage_ok w i \<and> set (holds i) \<subseteq> set (?a @ ?b)" if "i \<in> set (take k ?js) \<or> i \<in> set (drop (Suc k) ?js)"
      using that inv set_take_subset [of k ?js] set_drop_subset [of "Suc k" ?js] by (fastforce simp: team_inv_def)
    ultimately have "stage_ok w' i" using kept by (auto simp: kept_inv_def)
    then show ?thesis using same_stage [OF same] by simp
  qed
  moreover have "tidy_teams ?w" using kept by (simp add: kept_inv_def tidy_same [of ?w w'])
  ultimately show ?thesis using s by (simp add: run_job_def team_inv_def)
qed

text \<open>The operations that start jobs.\<close>

lemma put_teams_parts [simp]:
  "tw_sessions (put_teams l ts w) = tw_sessions w" "tw_used (put_teams l ts w) = tw_used w" "tw_lost (put_teams l ts w) = tw_lost w"
  "tw_jobs (put_teams l ts w) = tw_jobs w" "tw_bindings (put_teams l ts w) = tw_bindings w" "tw_profiles (put_teams l ts w) = tw_profiles w"
  by (simp_all add: put_teams_def)

lemma equipped_put [simp]: "equipped (put_teams k ts w) l t m = equipped w l t m"
  by (simp add: equipped_def)

lemma stage_put [simp]: "stage_ok (put_teams k ts w) j = stage_ok w j"
  by (simp add: stage_ok_def split: team_job.splits)

lemma accounted_put:
  assumes "accounted w hs" "\<And>t m. registered (put_teams k ts w) k t m = registered w k t m"
  shows "accounted (put_teams k ts w) hs"
proof -
  have "registered (put_teams k ts w) l t m = registered w l t m" for l t m
    using assms(2) by (cases "l = k") (simp_all add: registered_def)
  then show ?thesis using assms(1) by (simp add: accounted_def)
qed

lemma create_inv: "team_inv w \<Longrightarrow> team_inv (fst (team_create c name team_id hex now io w))"
proof -
  assume inv: "team_inv w"
  let ?l = "tc_session c"
  have "team_inv (put_teams ?l ts w)" if c: "create_in tid n now (teams_of ?l w) = Inr ts" for tid n ts
  proof -
    have "registered (put_teams ?l ts w) ?l t m = registered w ?l t m" for t m
      using c by (auto simp: create_in_def registered_def split: if_splits option.splits)
    then have "accounted (put_teams ?l ts w) (held_members w)" using inv accounted_put by (simp add: team_inv_def)
    moreover have "tidy_teams (put_teams ?l ts w)"
      using inv c by (intro tidy_put) (auto simp: team_inv_def create_in_def tidy_teams_def split: if_splits)
    ultimately show ?thesis using inv by (simp add: team_inv_def held_members_def)
  qed
  then show ?thesis using inv by (simp add: team_create_def Let_def split: option.split sum.split)
qed

lemma add_inv: "team_inv w \<Longrightarrow> team_inv (fst (team_add_agent c team_id name profile invoke w))"
proof -
  assume inv: "team_inv w"
  have "team_inv (w\<lparr>tw_jobs := tw_jobs w @ [ToCreate a]\<rparr>)" for a
  proof -
    let ?w = "w\<lparr>tw_jobs := tw_jobs w @ [ToCreate a]\<rparr>"
    have same: "same_members w ?w" by (simp add: same_members_def)
    have held: "held_members ?w = held_members w" by (simp add: held_members_def holds_def)
    have "stage_ok w (ToCreate a)" by (simp add: stage_ok_def)
    moreover have "tidy_teams ?w" by (rule tidy_keep [of w]) (use inv in \<open>simp_all add: team_inv_def\<close>)
    ultimately show ?thesis
      using inv held by (simp add: team_inv_def same_accounted [OF same] same_stage [OF same])
  qed
  then show ?thesis using inv by (simp add: team_add_agent_def split: option.split)
qed

lemma equipped_once: "equipped w l t m \<Longrightarrow> equipped w k u m \<Longrightarrow> l = k \<and> t = u"
  by (simp add: equipped_def split: option.splits)

text \<open>Dissolving a team: its members pass to the job that deletes them.\<close>

lemma pop_inv:
  assumes inv: "team_inv w" and pop: "pop_in u (teams_of k w) = Inr (ts, e)"
  shows "team_inv ((put_teams k ts w)\<lparr>tw_jobs := tw_jobs w @ [ToDelete k (map fst (te_members e)) 0 0]\<rparr>)"
proof -
  let ?j = "ToDelete k (map fst (te_members e)) 0 0" let ?v = "put_teams k ts w" let ?w = "?v\<lparr>tw_jobs := tw_jobs w @ [?j]\<rparr>"
  let ?ms = "map fst (te_members e)"
  have e: "dict_get (teams_of k w) u = Some e" and ts: "ts = dict_pop u (teams_of k w)"
    using pop by (auto simp: pop_in_def split: option.splits)
  have acc: "accounted w (held_members w)" and tidy: "tidy_teams w" using inv by (simp_all add: team_inv_def)
  have was: "registered w k u m \<longleftrightarrow> m \<in> set ?ms" for m
    using e by (auto simp: registered_def map_of_eq_None_iff split: option.splits)
  have now: "registered ?v l t m \<longleftrightarrow> registered w l t m \<and> \<not> (l = k \<and> t = u)" for l t m
    by (auto simp: registered_def ts split: option.splits)
  have one: "registered w l t m \<Longrightarrow> m \<in> set ?ms \<Longrightarrow> l = k \<and> t = u" for l t m
    using acc was [of m] equipped_once [of w l t m k u] by (simp add: accounted_def)
  have left: "equipped w l t m \<and> m \<in> set (tw_used w) \<and> m \<notin> set (held_members w @ ?ms) \<and> m \<notin> set (tw_lost w)"
    if r: "registered ?v l t m" for l t m
  proof -
    have w: "registered w l t m" "\<not> (l = k \<and> t = u)" using r now by auto
    then have "m \<notin> set ?ms" using one by blast
    then show ?thesis using w(1) acc by (simp add: accounted_def)
  qed
  have all: "m \<in> set (held_members w @ ?ms) \<or> m \<in> set (tw_lost w) \<or> (\<exists>l t. registered ?v l t m)" if "m \<in> set (tw_sessions w)" for m
  proof -
    have "m \<in> set (held_members w) \<or> m \<in> set (tw_lost w) \<or> (\<exists>l t. registered w l t m)" using that acc by (simp add: accounted_def)
    then show ?thesis unfolding now set_append Un_iff was [symmetric] by blast
  qed
  have "distinct ?ms" using tidy e by (auto simp: tidy_teams_def)
  moreover have "set ?ms \<inter> set (held_members w) = {}" "set ?ms \<subseteq> set (tw_used w)" "set ?ms \<inter> set (tw_lost w) = {}"
    using acc was by (auto simp: accounted_def)
  ultimately have "accounted ?v (held_members w @ ?ms)"
    using acc left all unfolding accounted_def put_teams_parts equipped_put set_append distinct_append by blast
  moreover have same: "same_members ?v ?w" by (simp add: same_members_def)
  moreover have "held_members ?w = held_members w @ ?ms" by (simp add: held_members_def holds_def)
  ultimately have "accounted ?w (held_members ?w)" by (simp add: same_accounted)
  moreover have "stage_ok ?w i" if "i \<in> set (tw_jobs ?w)" for i
    using that inv by (auto simp: same_stage [OF same] team_inv_def) (simp add: stage_ok_def)
  moreover have "tidy_teams ?v" using tidy by (intro tidy_put) (auto simp: ts tidy_teams_def split: if_splits)
  then have "tidy_teams ?w" by (rule tidy_keep) simp
  ultimately show ?thesis by (simp add: team_inv_def)
qed

lemma dissolve_inv: "team_inv w \<Longrightarrow> team_inv (fst (team_delete c team_id io w))"
  using pop_inv by (auto simp: team_delete_def split: option.split sum.split prod.split)

lemma deleted_inv:
  assumes inv: "team_inv w" and m: "m \<notin> set (concat (map adds (tw_jobs w)))"
  shows "team_inv (delete_member m (w\<lparr>tw_lost := filter (\<lambda>x. x \<noteq> m) (tw_lost w)\<rparr>))"
proof -
  let ?w = "w\<lparr>tw_lost := filter (\<lambda>x. x \<noteq> m) (tw_lost w)\<rparr>" let ?hs = "held_members w"
  have acc: "accounted w ?hs" using inv by (simp add: team_inv_def)
  have r: "registered ?w l t x = registered w l t x" "equipped ?w l t x = equipped w l t x" for l t x
    by (simp_all add: registered_def equipped_def teams_of_def)
  have s: "stage_ok ?w j = stage_ok w j" for j by (simp add: stage_ok_def r split: team_job.splits)
  have "\<exists>hs. accounted ?w hs \<and> set ?hs \<subseteq> set hs \<and> set hs - {m} \<subseteq> set ?hs"
  proof (cases "m \<in> set (tw_lost w)")
    case True
    then have "accounted ?w (m # ?hs)" using acc by (auto simp: accounted_def r)
    then show ?thesis by (intro exI [of _ "m # ?hs"]) auto
  next
    case False
    then have "filter (\<lambda>x. x \<noteq> m) (tw_lost w) = tw_lost w" by (auto simp: filter_id_conv)
    then show ?thesis using acc by (intro exI [of _ ?hs]) simp
  qed
  then obtain hs where hs: "accounted ?w hs" "set ?hs \<subseteq> set hs" "set hs - {m} \<subseteq> set ?hs" by blast
  have "distinct ?hs" using acc by (simp add: accounted_def)
  then have "accounted (delete_member m ?w) ?hs" using hs by (intro accounted_delete [of ?w hs m]) auto
  moreover have "stage_ok (delete_member m ?w) j" if "j \<in> set (tw_jobs w)" for j
    using that inv m s by (intro stage_delete) (auto simp: team_inv_def)
  moreover have "tidy_teams ?w" by (rule tidy_keep [of w]) (use inv in \<open>simp_all add: team_inv_def\<close>)
  ultimately show ?thesis using tidy_delete by (simp add: team_inv_def held_members_def)
qed

lemma teams_reachable_inv: "teams_reachable w \<Longrightarrow> team_inv w"
  unfolding teams_reachable_def
proof (induction rule: rtranclp_induct)
  case base
  show ?case by (simp add: team_inv_def accounted_def held_members_def new_team_world_def registered_def teams_of_def tidy_teams_def)
next
  case (step w w')
  from step.hyps(2) step.IH show ?case
    by (cases rule: team_step.cases) (simp_all add: create_inv add_inv dissolve_inv run_job_inv deleted_inv)
qed

text \<open>
  C40: When no addition and no dissolution is under way and no deletion has failed, the member sessions are exactly the
  members the teams list: none is left over by an addition that failed half-way or lost the race with the dissolution of
  its team, and every member listed has its session, its profile, and a binding to that very leader and team - to no
  other. This holds whatever the order in which the steps of the tools' operations interleave and whichever of them fail, as
  long as every operation ends within the ten seconds it is given and neither a leader nor a member that is still being added is
  deleted from outside.
\<close>

theorem everyone_is_accounted:
  "teams_reachable w \<Longrightarrow> held_members w = [] \<Longrightarrow> tw_lost w = [] \<Longrightarrow>
     (m \<in> set (tw_sessions w) \<longleftrightarrow> (\<exists>l t. registered w l t m)) \<and>
     (registered w l t m \<longrightarrow> equipped w l t m \<and> (\<forall>k u. registered w k u m \<longrightarrow> k = l \<and> u = t))"
  using teams_reachable_inv [of w] equipped_once [of w]
  by (simp add: team_inv_def accounted_def) (metis equipped_def)

text \<open>A team with a member, and an addition that loses the race with a dissolution.\<close>

definition team_ctx :: tool_context where
  "team_ctx = \<lparr>tc_ready = True, tc_session = ''lead'', tc_channel = ''ws''\<rparr>"

definition team_role :: json where
  "team_role = JObj [(''role'', JStr ''writer'')]"

definition team_made :: team_world where
  "team_made = fst (team_create team_ctx ''crew'' ''t'' ''0'' ''now'' (Inr ()) new_team_world)"

definition team_both :: team_world where
  "team_both = fst (team_add_agent team_ctx ''t'' ''bob'' team_role [] (fst (team_add_agent team_ctx ''t'' ''ann'' team_role [] team_made)))"

definition team_steps :: "nat list \<Rightarrow> team_world \<Rightarrow> team_world" where
  "team_steps ks w = foldl (\<lambda>w k. run_job (''m'' @ replicate (length (tw_used w)) CHR ''1'') ''now'' Succeeds k w) w ks"

definition team_manned :: team_world where
  "team_manned = team_steps [0, 0, 0, 0] team_both"

lemma team_made_reachable: "teams_reachable team_made"
  unfolding teams_reachable_def team_made_def by (rule r_into_rtranclp) (rule team_step.created)

lemma team_both_reachable: "teams_reachable team_both"
  using team_made_reachable unfolding teams_reachable_def team_both_def
  by (metis rtranclp.rtrancl_into_rtrancl team_step.adding)

lemma team_manned_state:
  "tw_sessions team_manned = [''m'']" "tw_lost team_manned = []" "held_members team_manned = []" "registered team_manned ''lead'' ''t'' ''m''"
  by code_simp+

lemma team_manned_reachable: "teams_reachable team_manned"
proof -
  let ?s = "\<lambda>ks. team_steps ks team_both"
  have go: "teams_reachable w \<Longrightarrow> 0 < length (tw_jobs w) \<Longrightarrow> fresh \<notin> set (tw_used w) \<Longrightarrow> teams_reachable (run_job fresh ''now'' r 0 w)"
    for fresh r w unfolding teams_reachable_def by (rule rtranclp.rtrancl_into_rtrancl) (auto intro: team_step.working)
  have ok: "0 < length (tw_jobs (?s ks)) \<and> ''m'' @ replicate (length (tw_used (?s ks))) CHR ''1'' \<notin> set (tw_used (?s ks))"
    if "ks \<in> {[], [0], [0, 0], [0, 0, 0]}" for ks
    using that by (elim insertE emptyE) (simp only:, code_simp)+
  have more: "teams_reachable (?s (ks @ [0]))" if "teams_reachable (?s ks)" "ks \<in> {[], [0], [0, 0], [0, 0, 0]}" for ks
    using go [OF that(1)] ok [OF that(2)] by (simp add: team_steps_def)
  have "teams_reachable (?s [])" using team_both_reachable by (simp add: team_steps_def)
  from more [OF this] have "teams_reachable (?s [0])" by simp
  from more [OF this] have "teams_reachable (?s [0, 0])" by simp
  from more [OF this] have "teams_reachable (?s [0, 0, 0])" by simp
  from more [OF this] show ?thesis by (simp add: team_manned_def)
qed

lemma everyone_is_accounted_witness:
  "registered team_manned ''lead'' ''t'' ''m'' \<and> equipped team_manned ''lead'' ''t'' ''m'' \<and> ''m'' \<in> set (tw_sessions team_manned)"
  using everyone_is_accounted [OF team_manned_reachable team_manned_state(3,2), of "''m''" "''lead''" "''t''"] team_manned_state(4) by blast

text \<open>The race: the second member is created, the team is dissolved, and the addition is undone.\<close>

lemma lost_race:
  "let w = team_steps [1, 1, 1] team_manned;
       v = team_steps [1, 1] (fst (team_delete team_ctx ''t'' (Inr ()) w))
   in (tw_sessions w, tw_jobs v ! 1, tw_sessions v) = ([''m1'', ''m''], NotAdded, [''m''])"
  by code_simp

section \<open>What is left behind\<close>

text \<open>
  A write of the profile that fails after its directory was made: the rollback deletes the session, which has no binding
  yet, so that nobody removes the directory (the two later rollbacks do).
\<close>

lemma profile_left_behind:
  assumes "dict_get (tw_bindings w) m = None"
  shows "case job_step f now Partly (ToProfile a m) w of
      (v, j) \<Rightarrow> job_step f now Succeeds j v = (delete_member m v, NotAdded) \<and> (ar_leader a, m) \<in> set (tw_profiles (delete_member m v))"
  using assms by (simp add: job_step_def delete_member_def)

text \<open>
  A deletion that fails while the team is dissolved: the team is gone already and so is the profile, the session stays,
  and nobody knows it any more.
\<close>

lemma member_left_behind:
  "case job_step f now Breaks (ToDelete l (m # ms) d n) w of
     (v, j) \<Rightarrow> j = ToDelete l ms d (n + 1) \<and> tw_sessions v = tw_sessions w \<and> (l, m) \<notin> set (tw_profiles v) \<and> m \<in> set (tw_lost v)"
  by (simp add: job_step_def delete_profile_of_def)

section \<open>Talking and waiting\<close>

text \<open>A message goes out exactly to a member of the team that still has its session, and in the leader's name.\<close>

lemma team_say_sends:
  "fst (team_say c tid m content ts ex ack) = Some (l, x, y) \<longleftrightarrow>
     tool_guard c = None \<and> py_strip content \<noteq> [] \<and> py_strip tid \<noteq> [] \<and> py_strip m \<noteq> [] \<and> l = tc_session c \<and> x = py_strip m \<and> y = content \<and> ex = Inr True \<and>
     (\<exists>t. dict_get ts (py_strip tid) = Some t \<and> dict_get (te_members t) (py_strip m) \<noteq> None)"
  by (auto simp: team_say_def split: option.splits sum.splits bool.splits if_splits)

text \<open>Only members of one's own teams can be waited for, and none that was asked for is left out.\<close>

lemma wait_agent_members:
  "wait_agent c ids ts q msgs = Inr rs \<Longrightarrow> map fst rs = filter (\<lambda>s. s \<noteq> []) (map py_strip ids) \<and> set (map fst rs) \<subseteq> set (known_members ts)"
  by (auto simp: wait_agent_def Let_def filter_empty_conv comp_def split: option.splits if_splits)

lemma member_last_text_none:
  "member_last_text ms = None \<longleftrightarrow> (\<forall>m \<in> set ms. dict_get m ''role'' = Some (JStr ''assistant'') \<longrightarrow> member_texts m = [])"
proof -
  have "member_last_text ms = None \<longleftrightarrow> filter (\<lambda>m. dict_get m ''role'' = Some (JStr ''assistant'') \<and> member_texts m \<noteq> []) ms = []"
    by (simp add: member_last_text_def split: list.splits)
  then show ?thesis unfolding filter_empty_conv by blast
qed

text \<open>The overview has every member of the team, once and in order; one member alone is shown the same way.\<close>

lemma team_status_members:
  assumes "team_agent_status c tid [] ts busy msgs = Inr vs" "dict_get ts (py_strip tid) = Some t"
  shows "map mv_session vs = map fst (te_members t)"
proof -
  have "py_strip [] = []" by code_simp
  then have "map_r (\<lambda>(s, e). member_view s (str_or (me_name e) s) busy msgs) (te_members t) = Inr vs"
    using assms by (auto simp: team_agent_status_def as_team_def split: option.splits if_splits sum.splits)
  then have "list_all2 (\<lambda>e v. mv_session v = fst e) (te_members t) vs"
    unfolding map_r_Inr_iff by (rule list_all2_mono) (auto simp: member_view_def bind_r_Inr_iff)
  then show ?thesis by (induction rule: list_all2_induct) auto
qed

end
