(* ===== verification/Spec2Isabelle.thy ===== *)
theory Spec2Isabelle
  imports Transcript InboxDelivery WireNormalize LlmFallback ToolService TurnExecutor Compaction
    AgentRuns Hooks SessionProperties ResponsesProtocol SnapshotCoordinator
    Commands FileEdit PlanTool Team
begin

text \<open>
  A verification library for ftre, an agent host written in Python.

  The program. A client sends a message to a session. The inbox (\<open>packages/ftre-inbox\<close>) admits
  it, keeps it durably and delivers it when the session is free. A turn
  (\<open>packages/ftre-agent-runtime\<close>, \<open>turn_executor.py\<close>) builds an agent and runs it: the agent
  loop (\<open>react_runner.py\<close>) lets the model reason (\<open>executors/reasoning.py\<close>), runs the tools it
  calls (\<open>executors/acting.py\<close>, \<open>src/ftre/services/tools\<close>) and goes on until the model is done. The
  model is reached through the LLM service (\<open>packages/ftre-llm\<close>) with its retry and fallback plugins.
  Everything that happens is an event of the session log (\<open>packages/ftre-agent/.../session\<close>), and the
  transcript of the session is derived from that log.

  The theories, in the order in which they build on one another:

  \<^item> Prelude: errors as a sum type (\<open>'a result\<close>, \<open>Inl\<close> the exception), folds and maps that stop at an
    error, Python dictionaries as association lists in insertion order, helpers on lists and text.
  \<^item> Json: JSON values and the Python values that are not JSON.
  \<^item> Message, Events: content blocks, messages and session events (\<open>message/*.py\<close>, \<open>session/events.py\<close>).
  \<^item> SessionLog: the append-only log of a session, its indexes, its subscribers (\<open>session/log.py\<close>);
    invariants over every reachable log, idempotence of user messages, restart.
  \<^item> Derive, Transcript: the projection of the log to messages (\<open>session/derive.py\<close>).
  \<^item> InboxModels, InboxRepository, InboxLedger, InboxService, InboxDelivery: the stored form of an inbox,
    the repository with its write-ahead files, conservation of requests over runs with
    restarts, admission, claims and delivery with interleaved tasks.
  \<^item> BlockAssembler, WireNormalize, LlmService, LlmPolicy, LlmFallback: the stream protocol, the history
    sent to a provider, routes and prepared calls, recovery policies, the fallback to a backup model.
  \<^item> Reasoning, Acting, ReactLoop: one request to the model with retries, one batch of tool calls with
    approvals, and the loop over both.
  \<^item> ToolPermission, ToolService: permission rules, approvals, registration and controlled execution.
  \<^item> Provider, ReactRun, TurnExecutor: messages on the wire, one run of the agent, one turn.
  \<^item> Floats, ContextView, TokenEstimate, CompactionConfig, CompactionSummary, Compaction
    (\<open>packages/ftre-compaction\<close>): what the model sees of a compacted history, the estimate of its size,
    the settings, the summary and the hooks that compact a session before it overflows.
  \<^item> AgentRegistry, AgentService, AgentRuns (\<open>packages/ftre-agent\<close>, \<open>registry.py\<close>, \<open>service.py\<close>): the agents of
    a host, their scopes, and the runs, streams, reservations and disposals that tasks ask for in any order.
  \<^item> Hooks (\<open>src/ftre/kernel/hooks\<close>): the runtime through which plugins listen, over Cordis as a parameter.

  \<^item> EventWire: the dictionaries in which events travel and are stored, and that the fold over dictionaries is
    the fold over typed events. LegacyLog: reading, repair and import of the log files of older versions
    (\<open>services/session/persistence/snapshot.py\<close>).
  \<^item> SessionStore (\<open>entity/state.py\<close>, \<open>persistence/json_store.py\<close>, \<open>persistence/repository.py\<close>): the file of a
    session and its older schemas, the directory of sessions with quarantine, and the repository with
    its index of external conversations.
  \<^item> SessionService, SessionHistory (\<open>services/session/service.py\<close>): opening a session, appending events,
    requests that are recorded once, checkpoints, reads and their cache, deletion with the members of a
    team, rollback, fork and restart. A checkpoint is captured in one step and written in
    another, since other tasks run in between. SessionGuarantees: the transitions of the service and the
    invariants over every sequence of them; SessionDemo: a concrete instance; SessionProperties: what a client
    can rely on, and the weak spots as reachable examples.
  \<^item> SnapshotCoordinator (\<open>persistence/snapshot.py\<close>): when a checkpoint is written, what a flush is told, and that
    nothing stays unsaved.
  \<^item> ChatAdapter, ChatProtocol, ChatAnswer (\<open>adapters/openai_completions.py\<close>): the adapter for chat completions, that its
    stream obeys the block protocol, and that the assembled answer is what the provider said.
  \<^item> ResponsesInput, ResponsesAdapter, ResponsesProtocol (\<open>adapters/openai_responses.py\<close>): the history as input items, the
    adapter for the Responses API and its stream.

  \<^item> Commands (\<open>src/ftre/plugins/builtin/command\<close>): slash commands, which are recognised in front of the inbox and run in
    tasks of their own. FileEdit (\<open>core_tools/edit.py\<close>, \<open>_io.py\<close>): edits of files by text and by lines. PlanTool
    (\<open>plan/plan.py\<close>): the plan of a session. Team (\<open>packages/ftre-team/src/ftre_team/team.py\<close>): the tools with which a leader
    manages members; their operations on sessions are the steps of jobs that interleave and may fail.

  What the lemmas show. Each theory proves that its operations keep an invariant (SessionLog, InboxLedger,
  LlmService), the behaviour of its operations on every branch, errors included, and where the
  code has a contract that it implements it: the assembler accepts exactly the streams of a protocol given
  independently, the permission engine implements a policy over a set of rules, the repository implements
  a ledger of requests. Loops are shown to end: the agent loop by a bound on its rounds, a turn by a
  bound on its retries.

  Parameters. What the code takes from elsewhere is an argument of the definitions: \<open>pylib\<close> and
  \<open>provider_lib\<close> (text of a value, canonical JSON, digests, reading a file), \<open>pydantic\<close> (validation of stored
  fields), \<open>inbox_host\<close> (hooks and the agent), \<open>repo_config\<close> (limits and failing writes), \<open>llm_host\<close> and
  \<open>llm_env\<close> (credentials, streams of a provider, hooks), \<open>tool_env\<close>, \<open>tool_lib\<close> (tools and their hooks),
  \<open>openai_sdk\<close> (what the SDK streams for a request, the exception text), \<open>json.dumps\<close>, \<open>codecs\<close> (encodings other than UTF-8),
  \<open>cordis\<close> (the event service, with \<open>cordis_laws\<close> as what its documentation promises), the ends of runs and
  the active sessions (AgentService), \<open>session_env\<close> (clock, validation and dump of messages and files; \<open>meta_laws\<close> says that a
  dumped file is read back), \<open>react_env\<close>, \<open>run_lib\<close>, \<open>turn_env\<close> (the answers of hooks, the ids, the tasks of the event loop). Functions
  of a counter stand for answers that may differ from call to call.

  Bounds and fuel. \<open>react_loop\<close> and \<open>drive_loop\<close> run on fuel. With \<open>max_iterations = m\<close> the agent loop
  returns within \<open>2 * m + 7\<close> rounds, and a turn within \<open>M + 5\<close> steps when the recovery hook never asks for
  more than \<open>M\<close> attempts; both are theorems. All other recursion is structural or has its measure.

  Concurrency. The code is single threaded and cooperative. Where other tasks can run at an \<open>await\<close>,
  the model has a step there (InboxDelivery, Acting, AgentRuns, Hooks, the checkpoints of SessionGuarantees, SnapshotCoordinator); elsewhere an operation is one step.

  What the steps leave out. A call of the plan tool is one step, although its thread reads and writes the plan in two operations,
  so calls that overlap are not covered. The refresh of an external session (\<open>get_or_create_external\<close>) is one step of
  \<open>forward_step\<close> (its gap is \<open>external_refresh_undoes\<close>); \<open>forward_step\<close> has no rollback and no deletion, \<open>svc_step\<close> has. A
  deletion of a session is one step and removes its directory (\<open>drop_session\<close>, \<open>store_step\<close>; \<open>undeleted_session_returns\<close> is the
  other case). A reasoning round takes its context view and its list of tools as given, without their exceptions. The snapshot
  coordinator has no \<open>close\<close>, and detaching a session counts its marks as saved. The steps of Team delete neither a leader nor a member
  that is being added, and every one of them ends in time. Synchronous hook listeners are not modelled.

  Not modelled: the pages and the search of the session inspector (checkpoints of SessionGuarantees may start at any moment,
  those of SnapshotCoordinator when it says so), the SDK and the network below the adapters, the file system below a failing or succeeding write, the web gateway,
  channels and front ends, and the plugins listed in the manifest as not modelled.
\<close>

end
